(* ===== verification/Voxhold_Prelude.thy ===== *)
theory Voxhold_Prelude
  imports Main "HOL-Library.AList" "HOL-Library.Monad_Syntax" "HOL-Library.Word"
    "HOL-Library.List_Lexorder" "HOL-Library.Char_ord" "HOL-Library.Product_Lexorder"
begin

text \<open>
  Shared vocabulary of the Voxhold development: how Go values are represented, the
  loops the components share, and the lemmas about them that carry the component proofs.

  \<^item> A Go map is an association list. \<open>map_of\<close> is the lookup, \<open>AList.update\<close> the
    assignment, \<open>AList.delete\<close> the builtin \<^verbatim>\<open>delete\<close>; a missing key reads as the zero
    value, which every definition writes out. Ranging over a Go map visits the entries in an
    unspecified order; the models range in list order and every theorem quantifies over all
    lists, so it holds for each order of the entries a state may have.
  \<^item> A set of pointers (\<^verbatim>\<open>map[*T]struct{}\<close>) is a list used with \<open>List.insert\<close> and
    \<open>removeAll\<close>.
  \<^item> A pointer is a natural number, the nil pointer is 0.
  \<^item> \<open>foreach\<close> is a loop whose body may fail to return (None).
\<close>

named_theorems lane_simps \<open>definitions of the outgoing queue\<close>
named_theorems voice_defs \<open>definitions of the voice directory\<close>
named_theorems stream_defs \<open>definitions of the stream directory\<close>

type_synonym ('k, 'v) gomap = "('k \<times> 'v) list"
type_synonym cref = nat \<comment> \<open>a \<^verbatim>\<open>*Client\<close>\<close>

abbreviation (input) nil :: nat where
  "nil \<equiv> 0"

subsection \<open>Reading a map with a zero value\<close>

definition get_or :: "'v \<Rightarrow> ('k, 'v) gomap \<Rightarrow> 'k \<Rightarrow> 'v" where
  "get_or z m k = (case map_of m k of None \<Rightarrow> z | Some v \<Rightarrow> v)"

lemma get_or_update [simp]:
  "get_or z (AList.update k v m) k' = (if k' = k then v else get_or z m k')"
  by (simp add: get_or_def update_conv')

lemma get_or_delete [simp]:
  "get_or z (AList.delete k m) k' = (if k' = k then z else get_or z m k')"
  by (simp add: get_or_def delete_conv')

lemma get_or_Nil [simp]: "get_or z [] k = z"
  by (simp add: get_or_def)

lemma get_or_None: "map_of m k = None \<Longrightarrow> get_or z m k = z"
  by (simp add: get_or_def)

lemma get_or_Some: "map_of m k = Some v \<Longrightarrow> get_or z m k = v"
  by (simp add: get_or_def)

lemma map_of_update_iff [simp]:
  "map_of (AList.update k v m) k' = (if k' = k then Some v else map_of m k')"
  by (simp add: update_conv')

lemma map_of_delete_iff [simp]:
  "map_of (AList.delete k m) k' = (if k' = k then None else map_of m k')"
  by (simp add: delete_conv')

lemma distinct_keys_delete [simp]:
  "distinct (map fst m) \<Longrightarrow> distinct (map fst (AList.delete k m))"
  by (rule distinct_delete)

lemma distinct_keys_update [simp]:
  "distinct (map fst m) \<Longrightarrow> distinct (map fst (AList.update k v m))"
  by (rule distinct_update)

lemma length_delete_present:
  "distinct (map fst m) \<Longrightarrow> map_of m k = Some v \<Longrightarrow> Suc (length (AList.delete k m)) = length m"
proof (induction m)
  case Nil
  then show ?case by simp
next
  case (Cons p m)
  show ?case
  proof (cases "fst p = k")
    case True
    with Cons.prems have "k \<notin> fst ` set m" by auto
    with True show ?thesis by simp
  next
    case False
    with Cons show ?thesis by (cases p) auto
  qed
qed

lemma length_update_absent:
  "map_of m k = None \<Longrightarrow> length (AList.update k v m) = Suc (length m)"
  by (induction m) (auto split: if_splits)

lemma length_update_present:
  "map_of m k = Some w \<Longrightarrow> length (AList.update k v m) = length m"
  by (induction m) (auto split: if_splits)

lemma length_update_le: "length (AList.update k v m) \<le> Suc (length m)"
  by (cases "map_of m k") (simp_all add: length_update_absent length_update_present)

lemma length_delete_le: "length (AList.delete k m) \<le> length m"
  by (simp add: AList.delete_eq)

lemma set_update_subset: "set (AList.update k v m) \<subseteq> insert (k, v) (set m)"
  by (induction m) auto

lemma set_delete_subset: "set (AList.delete k m) \<subseteq> set m"
  by (auto simp: AList.delete_eq)

lemma set_keys_delete: "fst ` set (AList.delete k m) = fst ` set m - {k}"
  by (induction m) auto

subsection \<open>Loops\<close>

fun foreach :: "('s \<Rightarrow> 'a \<Rightarrow> 's option) \<Rightarrow> 's \<Rightarrow> 'a list \<Rightarrow> 's option" where
  "foreach f s [] = Some s"
| "foreach f s (x # xs) = do { s' \<leftarrow> f s x; foreach f s' xs }"

lemma foreach_Cons_Some:
  "foreach f s (x # xs) = Some s' \<longleftrightarrow> (\<exists>t. f s x = Some t \<and> foreach f t xs = Some s')"
  by (cases "f s x") simp_all

lemma foreach_total:
  assumes "\<And>s x. x \<in> set xs \<Longrightarrow> P s \<Longrightarrow> \<exists>s'. f s x = Some s' \<and> P s'" and "P s"
  shows "\<exists>s'. foreach f s xs = Some s' \<and> P s'"
  using assms
proof (induction xs arbitrary: s)
  case Nil
  then show ?case by simp
next
  case (Cons x xs)
  from Cons.prems obtain t where t: "f s x = Some t" "P t" by force
  with Cons obtain s' where "foreach f t xs = Some s'" "P s'" by force
  with t show ?case by simp
qed

lemma foreach_inv:
  assumes "foreach f s xs = Some s'" and "P s"
    and "\<And>s x s'. x \<in> set xs \<Longrightarrow> P s \<Longrightarrow> f s x = Some s' \<Longrightarrow> P s'"
  shows "P s'"
  using assms
proof (induction xs arbitrary: s)
  case Nil
  then show ?case by simp
next
  case (Cons x xs)
  from Cons.prems(1) obtain t where t: "f s x = Some t" "foreach f t xs = Some s'"
    unfolding foreach_Cons_Some by blast
  have "P t" using Cons.prems(3)[OF _ Cons.prems(2) t(1)] by simp
  show ?case
  proof (rule Cons.IH[OF t(2) \<open>P t\<close>])
    fix s y s' assume "y \<in> set xs" "P s" "f s y = Some s'"
    then show "P s'" using Cons.prems(3) by (meson list.set_intros(2))
  qed
qed

lemma fold_inv:
  assumes "P s" and "\<And>x s. x \<in> set xs \<Longrightarrow> P s \<Longrightarrow> P (f x s)"
  shows "P (fold f xs s)"
  using assms by (induction xs arbitrary: s) auto

text \<open>A loop all of whose elements are processed: each body establishes \<open>Q x\<close> and no
  later body undoes it.\<close>

lemma foreach_each:
  assumes "foreach f s xs = Some s'" and "P s"
    and "\<And>s x s'. x \<in> set xs \<Longrightarrow> P s \<Longrightarrow> f s x = Some s' \<Longrightarrow> P s' \<and> Q x s'"
    and "\<And>s x y s'. x \<in> set xs \<Longrightarrow> P s \<Longrightarrow> Q y s \<Longrightarrow> f s x = Some s' \<Longrightarrow> Q y s'"
  shows "P s' \<and> (\<forall>x \<in> set xs. Q x s')"
  using assms
proof (induction xs arbitrary: s)
  case Nil
  show ?case using Nil.prems(1,2) by simp
next
  case (Cons x xs)
  from Cons.prems(1) obtain t where t: "f s x = Some t" "foreach f t xs = Some s'"
    unfolding foreach_Cons_Some by blast
  have "P t \<and> Q x t" by (rule Cons.prems(3)[OF _ Cons.prems(2) t(1)]) simp
  then have pq: "P t" "Q x t" by blast+
  have all: "P s' \<and> (\<forall>y \<in> set xs. Q y s')"
  proof (rule Cons.IH[OF t(2) pq(1)])
    fix s y s' assume "y \<in> set xs" "P s" "f s y = Some s'"
    then show "P s' \<and> Q y s'" using Cons.prems(3) by (meson list.set_intros(2))
  next
    fix s y z s' assume "y \<in> set xs" "P s" "Q z s" "f s y = Some s'"
    then show "Q z s'" using Cons.prems(4) by (meson list.set_intros(2))
  qed
  have "P s' \<and> Q x s'"
  proof (rule foreach_inv[OF t(2), where P = "\<lambda>s. P s \<and> Q x s"])
    show "P t \<and> Q x t" using pq by simp
  next
    fix s y s' assume "y \<in> set xs" "P s \<and> Q x s" "f s y = Some s'"
    then show "P s' \<and> Q x s'" using Cons.prems(3,4) by (meson list.set_intros(2))
  qed
  with all show ?case by simp
qed

subsection \<open>Number formatting (strconv, fmt)\<close>

definition digit_char :: "nat \<Rightarrow> char" where
  "digit_char d = ''0123456789abcdefghijklmnopqrstuvwxyz'' ! d"

fun fmt_base :: "nat \<Rightarrow> nat \<Rightarrow> string" where
  "fmt_base b n =
     (if n < b \<or> b < 2 then [digit_char (n mod b)]
      else fmt_base b (n div b) @ [digit_char (n mod b)])"

declare fmt_base.simps [simp del]

text \<open>The verb \<^verbatim>\<open>%d\<close> of fmt on an integer.\<close>

definition fmt_d :: "int \<Rightarrow> string" where
  "fmt_d i = (if i < 0 then CHR ''-'' # fmt_base 10 (nat (- i)) else fmt_base 10 (nat i))"

definition has_prefix :: "string \<Rightarrow> string \<Rightarrow> bool" where
  "has_prefix s p \<longleftrightarrow> take (length p) s = p"

lemma digit_char_inj:
  assumes "d < 36" "e < 36" "digit_char d = digit_char e"
  shows "d = e"
proof -
  have "distinct ''0123456789abcdefghijklmnopqrstuvwxyz''" by simp
  then show ?thesis using assms unfolding digit_char_def by (subst (asm) nth_eq_iff_index_eq) simp_all
qed

lemma fmt_base_not_Nil [simp]: "fmt_base b n \<noteq> []"
  by (subst fmt_base.simps) simp

lemma fmt_base_inj:
  assumes b: "2 \<le> b" "b \<le> 36"
  shows "fmt_base b m = fmt_base b n \<Longrightarrow> m = n"
proof (induction m arbitrary: n rule: less_induct)
  case (less m)
  have lt: "m mod b < 36" "n mod b < 36"
    using b mod_less_divisor[of b m] mod_less_divisor[of b n] by linarith+
  consider "m < b" "n < b" | "m < b" "b \<le> n" | "b \<le> m" "n < b" | "b \<le> m" "b \<le> n"
    by linarith
  then show ?case
  proof cases
    case 1
    with less.prems lt show ?thesis
      by (simp add: fmt_base.simps[of b m] fmt_base.simps[of b n] digit_char_inj)
  next
    case 2
    with less.prems b show ?thesis
      using fmt_base_not_Nil[of b "n div b"]
      by (simp add: fmt_base.simps[of b m] fmt_base.simps[of b n])
  next
    case 3
    with less.prems b show ?thesis
      by (simp add: fmt_base.simps[of b m] fmt_base.simps[of b n])
  next
    case 4
    with less.prems b have eq: "fmt_base b (m div b) = fmt_base b (n div b)"
      "digit_char (m mod b) = digit_char (n mod b)"
      by (simp_all add: fmt_base.simps[of b m] fmt_base.simps[of b n])
    have "m div b < m" using 4 b by simp
    from less.IH[OF this eq(1)] digit_char_inj[OF lt eq(2)] show ?thesis
      by (metis div_mult_mod_eq)
  qed
qed

lemma fmt_base_chars: "2 \<le> b \<Longrightarrow> b \<le> 36 \<Longrightarrow> set (fmt_base b n) \<subseteq> digit_char ` {..<b}"
proof (induction b n rule: fmt_base.induct)
  case (1 b n)
  have m: "digit_char (n mod b) \<in> digit_char ` {..<b}" using "1.prems" by auto
  show ?case
  proof (cases "n < b")
    case True
    then show ?thesis using m by (subst fmt_base.simps) simp
  next
    case False
    then have "set (fmt_base b (n div b)) \<subseteq> digit_char ` {..<b}" using 1 by simp
    then show ?thesis using m False "1.prems" by (subst fmt_base.simps) auto
  qed
qed

lemma digit_chars_ten: "digit_char ` {..<10} = set ''0123456789''"
  by (simp add: digit_char_def lessThan_nat_numeral lessThan_Suc insert_commute)

lemma fmt_base_ten_chars: "set (fmt_base 10 n) \<subseteq> set ''0123456789''"
  using fmt_base_chars[of 10 n] unfolding digit_chars_ten by simp

lemma fmt_d_no_slash [simp]: "CHR ''/'' \<notin> set (fmt_d i)"
  using fmt_base_ten_chars[of "nat i"] fmt_base_ten_chars[of "nat (- i)"]
  by (auto simp: fmt_d_def)

lemma fmt_d_inj [simp]: "fmt_d i = fmt_d j \<longleftrightarrow> i = j"
proof
  assume eq: "fmt_d i = fmt_d j"
  have no: "fmt_base 10 m \<noteq> CHR ''-'' # xs" for m xs
    using fmt_base_ten_chars[of m] by auto
  show "i = j"
    using eq no no[symmetric] fmt_base_inj[of 10 "nat i" "nat j"]
      fmt_base_inj[of 10 "nat (- i)" "nat (- j)"]
    by (auto simp: fmt_d_def split: if_splits)
qed simp

lemma append_sep_eq:
  "c \<notin> set xs \<Longrightarrow> c \<notin> set ys \<Longrightarrow> xs @ c # as = ys @ c # bs \<longleftrightarrow> xs = ys \<and> as = bs"
proof (induction xs arbitrary: ys)
  case Nil
  then show ?case by (cases ys) auto
next
  case (Cons x xs)
  then show ?case by (cases ys) auto
qed

end
