(* ===== verification/StreamContract.thy ===== *)
theory StreamContract
  imports Voxhold_Prelude
begin

text \<open>
  The rendition policy shared by the signalling layer and the SFU
  (\<^verbatim>\<open>internal/streamcontract\<close>), and the signalling functions that use it
  (\<^verbatim>\<open>internal/realtime/stream_hub.go\<close>): normalisation of the renditions a publisher
  announces and selection of the rendition a viewer receives.
\<close>

subsection \<open>internal/streamcontract/limits.go\<close>

definition MaxChannelPublishers :: nat where "MaxChannelPublishers = 8"

subsection \<open>internal/streamcontract/renditions.go\<close>

record Rendition =
  r_ID :: string
  r_Codec :: string
  r_Profile :: string
  r_DynamicRange :: string
  r_BitDepth :: int
  r_ColorPrimaries :: string
  r_Transfer :: string
  r_Matrix :: string

definition ValidID :: "string \<Rightarrow> bool" where
  "ValidID name \<longleftrightarrow>
     \<not> (length name = 0 \<or> length name > 32) \<and>
     list_all (\<lambda>c. \<not> ((c < CHR ''a'' \<or> c > CHR ''z'') \<and> (c < CHR ''0'' \<or> c > CHR ''9'') \<and>
                      c \<noteq> CHR ''-'' \<and> c \<noteq> CHR ''_'')) name"

definition validSDRProfile :: "string \<Rightarrow> string \<Rightarrow> bool" where
  "validSDRProfile codec profile \<longleftrightarrow>
     (codec = ''vp8'' \<and> profile = '''') \<or>
     (codec = ''vp9'' \<and> profile = ''0'') \<or>
     (codec = ''h264'' \<and> profile = ''baseline'') \<or>
     (codec = ''av1'' \<and> profile = ''main'')"

definition validHDRProfile :: "string \<Rightarrow> string \<Rightarrow> bool" where
  "validHDRProfile codec profile \<longleftrightarrow>
     (codec = ''vp9'' \<and> profile = ''2'') \<or> (codec = ''av1'' \<and> profile = ''main10'')"

text \<open>The loop body's checks on one rendition: the new value of \<open>hasSDR\<close>, or None where the
  source returns false.\<close>

definition rendition_case :: "bool \<Rightarrow> Rendition \<Rightarrow> bool option" where
  "rendition_case hasSDR v =
     (if r_DynamicRange v = ''sdr'' then
        (if r_BitDepth v = 8 \<and> r_ColorPrimaries v = ''bt709'' \<and> r_Transfer v = ''bt709'' \<and>
            r_Matrix v = ''bt709'' \<and> validSDRProfile (r_Codec v) (r_Profile v)
         then Some True else None)
      else if r_DynamicRange v = ''hdr10'' then
        (if r_BitDepth v \<noteq> 10 \<or> r_ColorPrimaries v \<noteq> ''bt2020'' \<or> r_Transfer v \<noteq> ''pq'' \<or>
            r_Matrix v \<noteq> ''bt2020-ncl'' \<or> \<not> validHDRProfile (r_Codec v) (r_Profile v)
         then None else Some hasSDR)
      else if r_DynamicRange v = ''hlg'' then
        (if r_BitDepth v \<noteq> 10 \<or> r_ColorPrimaries v \<noteq> ''bt2020'' \<or> r_Transfer v \<noteq> ''hlg'' \<or>
            r_Matrix v \<noteq> ''bt2020-ncl'' \<or> \<not> validHDRProfile (r_Codec v) (r_Profile v)
         then None else Some hasSDR)
      else None)"

fun valid_loop :: "string list \<Rightarrow> string list \<Rightarrow> bool \<Rightarrow> Rendition list \<Rightarrow> bool" where
  "valid_loop ids ranges hasSDR [] = hasSDR"
| "valid_loop ids ranges hasSDR (v # vs) =
     (if \<not> ValidID (r_ID v) \<or> r_BitDepth v = 0 then False
      else if r_ID v \<in> set ids then False
      else if r_DynamicRange v \<in> set ranges then False
      else (case rendition_case hasSDR v of
              None \<Rightarrow> False
            | Some hasSDR' \<Rightarrow> valid_loop (r_ID v # ids) (r_DynamicRange v # ranges) hasSDR' vs))"

definition ValidRenditions :: "Rendition list \<Rightarrow> bool" where
  "ValidRenditions rs =
     (if length rs = 0 \<or> length rs > 2 then False else valid_loop [] [] False rs)"

subsection \<open>The rendition data of the realtime protocol\<close>

record StreamRenditionData =
  sr_ID :: string
  sr_Codec :: string
  sr_Profile :: string
  sr_DynamicRange :: string
  sr_BitDepth :: int
  sr_ColorPrimaries :: string
  sr_Transfer :: string
  sr_Matrix :: string

record StreamCodecProfileData =
  cp_Codec :: string
  cp_Profile :: string

definition MaxStreamRenditions :: nat where
  "MaxStreamRenditions = 2"

definition to_Rendition :: "StreamRenditionData \<Rightarrow> Rendition" where
  "to_Rendition v =
     \<lparr> r_ID = sr_ID v, r_Codec = sr_Codec v, r_Profile = sr_Profile v,
       r_DynamicRange = sr_DynamicRange v, r_BitDepth = sr_BitDepth v,
       r_ColorPrimaries = sr_ColorPrimaries v, r_Transfer = sr_Transfer v,
       r_Matrix = sr_Matrix v \<rparr>"

definition validStreamCodec :: "string \<Rightarrow> bool" where
  "validStreamCodec codec \<longleftrightarrow> codec = ''vp8'' \<or> codec = ''vp9'' \<or> codec = ''h264'' \<or> codec = ''av1''"

definition legacySDRStreamRendition :: "string \<Rightarrow> StreamRenditionData" where
  "legacySDRStreamRendition codec =
     \<lparr> sr_ID = ''sdr'', sr_Codec = codec,
       sr_Profile = (if codec = ''vp9'' then ''0''
                     else if codec = ''h264'' then ''baseline''
                     else if codec = ''av1'' then ''main'' else ''''),
       sr_DynamicRange = ''sdr'', sr_BitDepth = 8, sr_ColorPrimaries = ''bt709'',
       sr_Transfer = ''bt709'', sr_Matrix = ''bt709'' \<rparr>"

definition normalizeStreamRenditions ::
    "string \<Rightarrow> StreamRenditionData list \<Rightarrow> StreamRenditionData list option" where
  "normalizeStreamRenditions legacyCodec values =
     (if length values = 0 then Some [legacySDRStreamRendition legacyCodec]
      else if length values > MaxStreamRenditions then None
      else if \<not> ValidRenditions (map to_Rendition values) then None
      else Some values)"

definition onlySDRStreamRenditions :: "StreamRenditionData list \<Rightarrow> bool" where
  "onlySDRStreamRenditions values \<longleftrightarrow>
     length values = 1 \<and> (case values of v # _ \<Rightarrow> sr_DynamicRange v = ''sdr'' | [] \<Rightarrow> False)"

text \<open>First loop: the first HDR rendition whose range and codec profile the viewer supports.
  Second loop: the first SDR rendition. The empty string is the source's ``none''.\<close>

definition hdr_match ::
    "string list \<Rightarrow> StreamCodecProfileData list \<Rightarrow> StreamRenditionData \<Rightarrow> bool" where
  "hdr_match supportedRanges codecProfiles v \<longleftrightarrow>
     sr_DynamicRange v \<noteq> ''sdr'' \<and> sr_DynamicRange v \<in> set supportedRanges \<and>
     list_ex (\<lambda>p. cp_Codec p = sr_Codec v \<and> cp_Profile p = sr_Profile v) codecProfiles"

definition selectStreamRendition ::
    "StreamRenditionData list \<Rightarrow> string list \<Rightarrow> StreamCodecProfileData list \<Rightarrow> string" where
  "selectStreamRendition values supportedDynamicRanges codecProfiles =
     (let supportedRanges =
            filter (\<lambda>r. r = ''hdr10'' \<or> r = ''hlg'') supportedDynamicRanges in
      case find (hdr_match supportedRanges codecProfiles) values of
        Some v \<Rightarrow> sr_ID v
      | None \<Rightarrow> (case find (\<lambda>v. sr_DynamicRange v = ''sdr'') values of
                  Some v \<Rightarrow> sr_ID v
                | None \<Rightarrow> ''''))"

subsection \<open>What a valid announcement is\<close>

text \<open>The policy without the loop: every rendition is well formed on its own, identifiers and
  dynamic ranges do not repeat, and one rendition is SDR.\<close>

definition rendition_ok :: "Rendition \<Rightarrow> bool" where
  "rendition_ok v \<longleftrightarrow> ValidID (r_ID v) \<and>
     ((r_DynamicRange v = ''sdr'' \<and> r_BitDepth v = 8 \<and> r_ColorPrimaries v = ''bt709'' \<and>
       r_Transfer v = ''bt709'' \<and> r_Matrix v = ''bt709'' \<and>
       validSDRProfile (r_Codec v) (r_Profile v)) \<or>
      ((r_DynamicRange v = ''hdr10'' \<and> r_Transfer v = ''pq'' \<or>
        r_DynamicRange v = ''hlg'' \<and> r_Transfer v = ''hlg'') \<and>
       r_BitDepth v = 10 \<and> r_ColorPrimaries v = ''bt2020'' \<and> r_Matrix v = ''bt2020-ncl'' \<and>
       validHDRProfile (r_Codec v) (r_Profile v)))"

lemma rendition_case_conv:
  "ValidID (r_ID v) \<and> r_BitDepth v \<noteq> 0 \<and> rendition_case b v = Some b' \<longleftrightarrow>
     rendition_ok v \<and> b' = (b \<or> r_DynamicRange v = ''sdr'')"
  by (auto simp: rendition_case_def rendition_ok_def split: if_splits)

lemma valid_loop_iff:
  "valid_loop ids ranges b vs \<longleftrightarrow>
     list_all rendition_ok vs \<and>
     distinct (map r_ID vs) \<and> set (map r_ID vs) \<inter> set ids = {} \<and>
     distinct (map r_DynamicRange vs) \<and> set (map r_DynamicRange vs) \<inter> set ranges = {} \<and>
     (b \<or> (\<exists>v \<in> set vs. r_DynamicRange v = ''sdr''))"
proof (induction vs arbitrary: ids ranges b)
  case Nil
  then show ?case by simp
next
  case (Cons v vs)
  show ?case
  proof (cases "rendition_ok v")
    case True
    then have "ValidID (r_ID v)" "r_BitDepth v \<noteq> 0"
      "rendition_case b v = Some (b \<or> r_DynamicRange v = ''sdr'')"
      using rendition_case_conv by blast+
    with True show ?thesis by (simp add: Cons.IH) blast
  next
    case False
    then have "\<not> ValidID (r_ID v) \<or> r_BitDepth v = 0 \<or> rendition_case b v = None"
      using rendition_case_conv[of v b] by (metis not_None_eq)
    with False show ?thesis by (auto split: option.splits)
  qed
qed

lemma ValidRenditions_char:
  "ValidRenditions rs \<longleftrightarrow>
     rs \<noteq> [] \<and> length rs \<le> 2 \<and> list_all rendition_ok rs \<and>
     distinct (map r_ID rs) \<and> distinct (map r_DynamicRange rs) \<and>
     (\<exists>v \<in> set rs. r_DynamicRange v = ''sdr'')"
  by (auto simp: ValidRenditions_def valid_loop_iff not_less)

text \<open>\<^verbatim>\<open>ValidRenditions\<close> accepts exactly the announcements of one or two well-formed
  renditions with different identifiers and different dynamic ranges, one of them SDR; the
  order of the renditions does not matter.\<close>

theorem ValidRenditions_iff:
  "ValidRenditions rs \<longleftrightarrow>
     rs \<noteq> [] \<and> length rs \<le> 2 \<and> list_all rendition_ok rs \<and>
     distinct (map r_ID rs) \<and> distinct (map r_DynamicRange rs) \<and>
     (\<exists>v \<in> set rs. r_DynamicRange v = ''sdr'')"
  by (rule ValidRenditions_char)

subsection \<open>Selecting a rendition\<close>

lemma find_exists: "\<exists>x \<in> set xs. P x \<Longrightarrow> \<exists>y. find P xs = Some y"
  by (induction xs) auto

lemma find_Some_member: "find P xs = Some x \<Longrightarrow> x \<in> set xs \<and> P x"
  by (auto simp: find_Some_iff)

lemma ValidID_not_Nil: "ValidID name \<Longrightarrow> name \<noteq> []"
  by (auto simp: ValidID_def)

lemma legacy_ValidID: "ValidID ''sdr''"
  by (simp add: ValidID_def less_char_def)

lemma normalizeStreamRenditions_sdr:
  "normalizeStreamRenditions codec vs = Some rs \<Longrightarrow> \<exists>v \<in> set rs. sr_DynamicRange v = ''sdr''"
  by (auto simp: normalizeStreamRenditions_def ValidRenditions_char legacySDRStreamRendition_def
      to_Rendition_def split: if_splits)

lemma normalizeStreamRenditions_ids:
  "normalizeStreamRenditions codec vs = Some rs \<Longrightarrow> v \<in> set rs \<Longrightarrow> ValidID (sr_ID v)"
  by (auto simp: normalizeStreamRenditions_def ValidRenditions_char legacySDRStreamRendition_def
      to_Rendition_def legacy_ValidID rendition_ok_def list_all_iff split: if_splits)

text \<open>For renditions that passed normalisation, \<^verbatim>\<open>selectStreamRendition\<close> always
  chooses one of them (the empty string, reported as \<^verbatim>\<open>ErrStreamRenditionUnavailable\<close>, never
  comes out). The choice is an HDR rendition exactly when the viewer supports the dynamic range
  and the codec profile of one; otherwise it is SDR, which every viewer can play.\<close>

theorem selectStreamRendition_total:
  assumes "normalizeStreamRenditions codec vs = Some rs"
  shows "selectStreamRendition rs ranges profiles \<noteq> '''' \<and>
    (\<exists>v \<in> set rs. selectStreamRendition rs ranges profiles = sr_ID v \<and>
       (if \<exists>w \<in> set rs. hdr_match (filter (\<lambda>r. r = ''hdr10'' \<or> r = ''hlg'') ranges) profiles w
        then hdr_match (filter (\<lambda>r. r = ''hdr10'' \<or> r = ''hlg'') ranges) profiles v
        else sr_DynamicRange v = ''sdr''))"
proof -
  define sup where "sup = filter (\<lambda>r. r = ''hdr10'' \<or> r = ''hlg'') ranges"
  obtain w where w: "find (\<lambda>v. sr_DynamicRange v = ''sdr'') rs = Some w"
    using find_exists[OF normalizeStreamRenditions_sdr[OF assms(1)]] by blast
  have ids: "sr_ID v \<noteq> ''''" if "v \<in> set rs" for v
    using normalizeStreamRenditions_ids[OF assms(1) that] ValidID_not_Nil by blast
  show ?thesis
  proof (cases "find (hdr_match sup profiles) rs")
    case None
    then have "\<not> (\<exists>w \<in> set rs. hdr_match sup profiles w)" by (auto simp: find_None_iff)
    with None w ids show ?thesis
      by (auto simp: selectStreamRendition_def Let_def sup_def dest!: find_Some_member)
  next
    case (Some v)
    then have "v \<in> set rs" "hdr_match sup profiles v" by (auto dest: find_Some_member)
    with Some ids show ?thesis
      by (auto simp: selectStreamRendition_def Let_def sup_def)
  qed
qed

theorem selectStreamRendition_total_witness:
  "normalizeStreamRenditions ''vp9'' [] = Some [legacySDRStreamRendition ''vp9''] \<and>
   selectStreamRendition [legacySDRStreamRendition ''vp9''] [''hlg''] [] \<noteq> ''''"
proof -
  have n: "normalizeStreamRenditions ''vp9'' [] = Some [legacySDRStreamRendition ''vp9'']"
    by (simp add: normalizeStreamRenditions_def)
  then show ?thesis using selectStreamRendition_total[OF n, of "[''hlg'']" "[]"] by blast
qed

end
