(* ===== verification/Events.thy ===== *)
theory Events
  imports Voxhold_Prelude StreamContract
begin

text \<open>
  The protocol of the real-time API (src/internal/realtime/*events.go): the event type
  constants, one record per payload struct, and \<open>OutgoingEvent\<close>. A field keeps the name of
  the Go field behind a two letter prefix of its struct. The Go field \<^verbatim>\<open>Data any\<close> is the sum
  \<open>event_data\<close>: one constructor per payload struct of the package or of another package
  whose dynamic type the queue or the filters inspect, \<open>NoData\<close> for a nil interface and
  \<open>DOther\<close> for the payloads of other packages, which this package only forwards.

  \<^verbatim>\<open>*T\<close> fields that only carry an optional value are options, \<^verbatim>\<open>int64\<close> values are
  integers, \<^verbatim>\<open>uint64\<close> generations are 64 bit words. \<^verbatim>\<open>queuedAt\<close> is telemetry and left out.
\<close>

named_theorems event_types \<open>the string values of the event types\<close>

subsection \<open>Event types\<close>

definition EventReady :: string where
  [event_types]: "EventReady = ''ready''"
definition EventError :: string where
  [event_types]: "EventError = ''error''"
definition EventPong :: string where
  [event_types]: "EventPong = ''pong''"
definition EventChannelSubscribed :: string where
  [event_types]: "EventChannelSubscribed = ''channel.subscribed''"
definition EventChannelUnsubscribed :: string where
  [event_types]: "EventChannelUnsubscribed = ''channel.unsubscribed''"
definition EventTyping :: string where
  [event_types]: "EventTyping = ''typing''"
definition EventServerMemberRemoved :: string where
  [event_types]: "EventServerMemberRemoved = ''server.member_removed''"
definition EventServerMemberJoined :: string where
  [event_types]: "EventServerMemberJoined = ''server.member_joined''"
definition EventServerMemberRoleUpdated :: string where
  [event_types]: "EventServerMemberRoleUpdated = ''server.member_role_updated''"
definition EventServerDeleted :: string where
  [event_types]: "EventServerDeleted = ''server.deleted''"
definition EventInvitationReceived :: string where
  [event_types]: "EventInvitationReceived = ''invitation.received''"
definition EventChannelCreated :: string where
  [event_types]: "EventChannelCreated = ''channel.created''"
definition EventChannelUpdated :: string where
  [event_types]: "EventChannelUpdated = ''channel.updated''"
definition EventChannelDeleted :: string where
  [event_types]: "EventChannelDeleted = ''channel.deleted''"
definition EventReadSnapshot :: string where
  [event_types]: "EventReadSnapshot = ''read.snapshot''"
definition EventChannelReadSnapshot :: string where
  [event_types]: "EventChannelReadSnapshot = ''channel.read_snapshot''"
definition EventChannelRead :: string where
  [event_types]: "EventChannelRead = ''channel.read''"
definition EventMessageCreated :: string where
  [event_types]: "EventMessageCreated = ''message.created''"
definition EventMessageUpdated :: string where
  [event_types]: "EventMessageUpdated = ''message.updated''"
definition EventMessageDeleted :: string where
  [event_types]: "EventMessageDeleted = ''message.deleted''"
definition EventNotificationMessage :: string where
  [event_types]: "EventNotificationMessage = ''notification.message''"
definition EventNotificationSettingsUpdated :: string where
  [event_types]: "EventNotificationSettingsUpdated = ''notification.settings_updated''"
definition EventChannelSyncRequired :: string where
  [event_types]: "EventChannelSyncRequired = ''channel.sync_required''"
definition EventChannelsChanged :: string where
  [event_types]: "EventChannelsChanged = ''channels.changed''"
definition EventMessageReactionsChanged :: string where
  [event_types]: "EventMessageReactionsChanged = ''message.reactions_changed''"
definition EventChannelActivity :: string where
  [event_types]: "EventChannelActivity = ''channel.activity''"
definition EventMessagePinned :: string where
  [event_types]: "EventMessagePinned = ''message.pinned''"
definition EventMessageUnpinned :: string where
  [event_types]: "EventMessageUnpinned = ''message.unpinned''"
definition EventPresenceSnapshot :: string where
  [event_types]: "EventPresenceSnapshot = ''presence.snapshot''"
definition EventPresenceUpdated :: string where
  [event_types]: "EventPresenceUpdated = ''presence.updated''"
definition EventVoiceStateUpdated :: string where
  [event_types]: "EventVoiceStateUpdated = ''voice.state_updated''"
definition EventVoiceParticipantJoined :: string where
  [event_types]: "EventVoiceParticipantJoined = ''voice.participant_joined''"
definition EventVoiceParticipantLeft :: string where
  [event_types]: "EventVoiceParticipantLeft = ''voice.participant_left''"
definition EventVoiceSnapshot :: string where
  [event_types]: "EventVoiceSnapshot = ''voice.snapshot''"
definition EventVoiceWebRTCOffer :: string where
  [event_types]: "EventVoiceWebRTCOffer = ''voice.webrtc_offer''"
definition EventVoiceICECandidate :: string where
  [event_types]: "EventVoiceICECandidate = ''voice.ice_candidate''"
definition EventVoiceWebRTCClosed :: string where
  [event_types]: "EventVoiceWebRTCClosed = ''voice.webrtc_closed''"
definition EventE2EEKey :: string where
  [event_types]: "EventE2EEKey = ''e2ee.key''"
definition EventE2EEKeyRequest :: string where
  [event_types]: "EventE2EEKeyRequest = ''e2ee.key_request''"
definition EventStreamStarted :: string where
  [event_types]: "EventStreamStarted = ''stream.started''"
definition EventStreamUpdated :: string where
  [event_types]: "EventStreamUpdated = ''stream.updated''"
definition EventStreamStopped :: string where
  [event_types]: "EventStreamStopped = ''stream.stopped''"
definition EventStreamWatching :: string where
  [event_types]: "EventStreamWatching = ''stream.watching''"
definition EventStreamSnapshot :: string where
  [event_types]: "EventStreamSnapshot = ''stream.snapshot''"
definition EventStreamViewerJoined :: string where
  [event_types]: "EventStreamViewerJoined = ''stream.viewer_joined''"
definition EventStreamViewerLeft :: string where
  [event_types]: "EventStreamViewerLeft = ''stream.viewer_left''"
definition EventStreamWebRTCOffer :: string where
  [event_types]: "EventStreamWebRTCOffer = ''stream.webrtc_offer''"
definition EventStreamICECandidate :: string where
  [event_types]: "EventStreamICECandidate = ''stream.ice_candidate''"
definition EventStreamWebRTCClosed :: string where
  [event_types]: "EventStreamWebRTCClosed = ''stream.webrtc_closed''"
definition EventStreamP2POffer :: string where
  [event_types]: "EventStreamP2POffer = ''stream.p2p_offer''"
definition EventStreamP2PAnswer :: string where
  [event_types]: "EventStreamP2PAnswer = ''stream.p2p_answer''"
definition EventStreamP2PICECandidate :: string where
  [event_types]: "EventStreamP2PICECandidate = ''stream.p2p_ice_candidate''"
definition EventStreamP2PRestart :: string where
  [event_types]: "EventStreamP2PRestart = ''stream.p2p_restart''"

subsection \<open>Payloads of the message package\<close>

record Author =
  au_UserID :: int
  au_Username :: string

record Attachment =
  at_ID :: string
  at_Filename :: string
  at_MIMEType :: string
  at_SizeBytes :: int
  at_Width :: int
  at_Height :: int
  at_Deleted :: bool

record PollOption =
  po_ID :: int
  po_Label :: string
  po_Count :: int
  po_Me :: bool
  po_Voters :: "Author list"

record Poll =
  pl_ID :: int
  pl_Question :: string
  pl_Multiple :: bool
  pl_Anonymous :: bool
  pl_ClosesAt :: int
  pl_Revision :: int
  pl_Options :: "PollOption list"

record ReplyReference =
  rr_MessageID :: int
  rr_Author :: Author
  rr_Content :: string
  rr_Revision :: int
  rr_Deleted :: bool

record ForwardReference =
  fr_Author :: Author
  fr_CreatedAt :: int
  fr_MentionNames :: "(int, string) gomap"

record Reaction =
  re_Emoji :: string
  re_Count :: int
  re_Me :: bool

record ReactionsData =
  rd_ChannelID :: int
  rd_MessageID :: int
  rd_Revision :: int
  rd_Reactions :: "Reaction list"

record ReactionState =
  rs_ChannelID :: int
  rs_MessageID :: int
  rs_Revision :: int
  rs_Users :: "(string, int list) gomap"

record Message =
  ms_Poll :: "Poll option"
  ms_Attachments :: "Attachment list"
  ms_Replayed :: bool
  ms_ClientMessageID :: string
  ms_ID :: int
  ms_ChannelID :: int
  ms_Author :: Author
  ms_Content :: string
  ms_CreatedAt :: int
  ms_EditedAt :: "int option"
  ms_Revision :: int
  ms_Reply :: "ReplyReference option"
  ms_Forward :: "ForwardReference option"
  ms_Reactions :: "Reaction list"
  ms_ReactionsRevision :: int
  ms_ThreadRootID :: "int option"
  ms_CommentCount :: int

record PinnedMessage =
  pm_Message :: Message
  pm_PinnedBy :: Author
  pm_PinnedAt :: int

text \<open>The reaction catalog as UTF-8 bytes, in the order of the source.\<close>

definition ReactionEmoji :: "string list" where
  "ReactionEmoji = [
    [CHR 0xE2, CHR 0x9D, CHR 0xA4, CHR 0xEF, CHR 0xB8, CHR 0x8F],
    [CHR 0xF0, CHR 0x9F, CHR 0x91, CHR 0x8D], [CHR 0xF0, CHR 0x9F, CHR 0x91, CHR 0x8E],
    [CHR 0xF0, CHR 0x9F, CHR 0x98, CHR 0x82], [CHR 0xF0, CHR 0x9F, CHR 0xA4, CHR 0xA3],
    [CHR 0xF0, CHR 0x9F, CHR 0x94, CHR 0xA5], [CHR 0xF0, CHR 0x9F, CHR 0xA4, CHR 0x94],
    [CHR 0xF0, CHR 0x9F, CHR 0x98, CHR 0x81], [CHR 0xF0, CHR 0x9F, CHR 0x98, CHR 0xA2],
    [CHR 0xF0, CHR 0x9F, CHR 0x98, CHR 0xAD], [CHR 0xF0, CHR 0x9F, CHR 0x98, CHR 0xAE],
    [CHR 0xF0, CHR 0x9F, CHR 0x98, CHR 0xB1], [CHR 0xF0, CHR 0x9F, CHR 0xA4, CHR 0xAF],
    [CHR 0xF0, CHR 0x9F, CHR 0xA5, CHR 0xB0], [CHR 0xF0, CHR 0x9F, CHR 0x98, CHR 0x8D],
    [CHR 0xF0, CHR 0x9F, CHR 0x98, CHR 0x8E], [CHR 0xF0, CHR 0x9F, CHR 0xA4, CHR 0xA9],
    [CHR 0xF0, CHR 0x9F, CHR 0xA5, CHR 0xB3], [CHR 0xF0, CHR 0x9F, CHR 0x98, CHR 0x87],
    [CHR 0xF0, CHR 0x9F, CHR 0x99, CHR 0x82], [CHR 0xF0, CHR 0x9F, CHR 0x99, CHR 0x83],
    [CHR 0xF0, CHR 0x9F, CHR 0x98, CHR 0x89], [CHR 0xF0, CHR 0x9F, CHR 0x98, CHR 0x8A],
    [CHR 0xF0, CHR 0x9F, CHR 0x98, CHR 0x8B], [CHR 0xF0, CHR 0x9F, CHR 0x98, CHR 0x98],
    [CHR 0xF0, CHR 0x9F, CHR 0x98, CHR 0xB4], [CHR 0xF0, CHR 0x9F, CHR 0xA4, CHR 0xA4],
    [CHR 0xF0, CHR 0x9F, CHR 0xA4, CHR 0xA8], [CHR 0xF0, CHR 0x9F, CHR 0x98, CHR 0x90],
    [CHR 0xF0, CHR 0x9F, CHR 0x98, CHR 0x91], [CHR 0xF0, CHR 0x9F, CHR 0x98, CHR 0x8F],
    [CHR 0xF0, CHR 0x9F, CHR 0x98, CHR 0x92], [CHR 0xF0, CHR 0x9F, CHR 0x98, CHR 0x94],
    [CHR 0xF0, CHR 0x9F, CHR 0x98, CHR 0x95], [CHR 0xF0, CHR 0x9F, CHR 0x99, CHR 0x81],
    [CHR 0xE2, CHR 0x98, CHR 0xB9, CHR 0xEF, CHR 0xB8, CHR 0x8F],
    [CHR 0xF0, CHR 0x9F, CHR 0x98, CHR 0xAB], [CHR 0xF0, CHR 0x9F, CHR 0x98, CHR 0xA9],
    [CHR 0xF0, CHR 0x9F, CHR 0x98, CHR 0xA4], [CHR 0xF0, CHR 0x9F, CHR 0x98, CHR 0xA1],
    [CHR 0xF0, CHR 0x9F, CHR 0xA4, CHR 0xAC], [CHR 0xF0, CHR 0x9F, CHR 0x98, CHR 0xB3],
    [CHR 0xF0, CHR 0x9F, CHR 0xA5, CHR 0xBA], [CHR 0xF0, CHR 0x9F, CHR 0xA5, CHR 0xB9],
    [CHR 0xF0, CHR 0x9F, CHR 0xA4, CHR 0x97], [CHR 0xF0, CHR 0x9F, CHR 0xA4, CHR 0xAB],
    [CHR 0xF0, CHR 0x9F, CHR 0xA4, CHR 0xAD], [CHR 0xF0, CHR 0x9F, CHR 0xAB, CHR 0xA1],
    [CHR 0xF0, CHR 0x9F, CHR 0xAB, CHR 0xA0], [CHR 0xF0, CHR 0x9F, CHR 0xA4, CHR 0xA1],
    [CHR 0xF0, CHR 0x9F, CHR 0x92, CHR 0x80], [CHR 0xF0, CHR 0x9F, CHR 0x91, CHR 0xBB],
    [CHR 0xF0, CHR 0x9F, CHR 0x91, CHR 0x80], [CHR 0xF0, CHR 0x9F, CHR 0xA7, CHR 0xA0],
    [CHR 0xF0, CHR 0x9F, CHR 0x92, CHR 0xAF], [CHR 0xE2, CHR 0x9C, CHR 0x85],
    [CHR 0xE2, CHR 0x9D, CHR 0x8C], [CHR 0xE2, CHR 0x9A, CHR 0xA1], [CHR 0xE2, CHR 0xAD, CHR 0x90],
    [CHR 0xF0, CHR 0x9F, CHR 0x8C, CHR 0x9F], [CHR 0xF0, CHR 0x9F, CHR 0x8E, CHR 0x89],
    [CHR 0xF0, CHR 0x9F, CHR 0x8E, CHR 0x8A], [CHR 0xF0, CHR 0x9F, CHR 0x8E, CHR 0x81],
    [CHR 0xF0, CHR 0x9F, CHR 0x92, CHR 0x8E], [CHR 0xF0, CHR 0x9F, CHR 0x8F, CHR 0x86],
    [CHR 0xF0, CHR 0x9F, CHR 0xA5, CHR 0x87], [CHR 0xF0, CHR 0x9F, CHR 0x9A, CHR 0x80],
    [CHR 0xF0, CHR 0x9F, CHR 0x8C, CHR 0x88],
    [CHR 0xE2, CHR 0x98, CHR 0x80, CHR 0xEF, CHR 0xB8, CHR 0x8F],
    [CHR 0xF0, CHR 0x9F, CHR 0x8C, CHR 0x99], [CHR 0xE2, CHR 0x98, CHR 0x95],
    [CHR 0xF0, CHR 0x9F, CHR 0x8D, CHR 0xBF], [CHR 0xF0, CHR 0x9F, CHR 0x8D, CHR 0xB0],
    [CHR 0xF0, CHR 0x9F, CHR 0x8D, CHR 0x95], [CHR 0xF0, CHR 0x9F, CHR 0x8D, CHR 0x93],
    [CHR 0xF0, CHR 0x9F, CHR 0x8D, CHR 0x89], [CHR 0xF0, CHR 0x9F, CHR 0x8C, CHR 0xB9],
    [CHR 0xF0, CHR 0x9F, CHR 0x92, CHR 0x90], [CHR 0xF0, CHR 0x9F, CHR 0xA6, CHR 0x8B],
    [CHR 0xF0, CHR 0x9F, CHR 0x90, CHR 0xB1], [CHR 0xF0, CHR 0x9F, CHR 0x90, CHR 0xB6],
    [CHR 0xF0, CHR 0x9F, CHR 0x90, CHR 0xB8], [CHR 0xF0, CHR 0x9F, CHR 0xA6, CHR 0x84],
    [CHR 0xF0, CHR 0x9F, CHR 0x90, CHR 0x9D], [CHR 0xF0, CHR 0x9F, CHR 0xA4, CHR 0x9D],
    [CHR 0xF0, CHR 0x9F, CHR 0x91, CHR 0x8F], [CHR 0xF0, CHR 0x9F, CHR 0x99, CHR 0x8C],
    [CHR 0xF0, CHR 0x9F, CHR 0x91, CHR 0x90], [CHR 0xF0, CHR 0x9F, CHR 0xA4, CHR 0xB2],
    [CHR 0xF0, CHR 0x9F, CHR 0x99, CHR 0x8F], [CHR 0xF0, CHR 0x9F, CHR 0x92, CHR 0xAA],
    [CHR 0xE2, CHR 0x9C, CHR 0x8A], [CHR 0xF0, CHR 0x9F, CHR 0x91, CHR 0x8A],
    [CHR 0xE2, CHR 0x9C, CHR 0x8C, CHR 0xEF, CHR 0xB8, CHR 0x8F],
    [CHR 0xF0, CHR 0x9F, CHR 0xA4, CHR 0x9E], [CHR 0xF0, CHR 0x9F, CHR 0xA4, CHR 0x9F],
    [CHR 0xF0, CHR 0x9F, CHR 0xA4, CHR 0x98], [CHR 0xF0, CHR 0x9F, CHR 0x91, CHR 0x8C],
    [CHR 0xF0, CHR 0x9F, CHR 0xA4, CHR 0x8C], [CHR 0xF0, CHR 0x9F, CHR 0xAB, CHR 0xB6],
    [CHR 0xF0, CHR 0x9F, CHR 0xAB, CHR 0xB0], [CHR 0xF0, CHR 0x9F, CHR 0x91, CHR 0x8B]]"

definition ForUser :: "ReactionState \<Rightarrow> int \<Rightarrow> ReactionsData" where
  "ForUser s userID =
     \<lparr> rd_ChannelID = rs_ChannelID s, rd_MessageID = rs_MessageID s, rd_Revision = rs_Revision s,
       rd_Reactions = concat (map (\<lambda>emoji.
         let users = get_or [] (rs_Users s) emoji in
         if length users = 0 then []
         else [\<lparr> re_Emoji = emoji, re_Count = int (length users),
                 re_Me = (userID \<in> set users) \<rparr>]) ReactionEmoji) \<rparr>"

subsection \<open>Payloads of other packages\<close>

record ChannelRead =
  cr_ServerID :: int
  cr_ChannelID :: int
  cr_UserID :: int
  cr_LastReadMessageID :: int
  cr_UpdatedAt :: int

record Settings =
  ns_ServerID :: int
  ns_ChannelID :: int
  ns_Mode :: string

record Preview =
  np_ID :: int
  np_Author :: Author
  np_Content :: string
  np_CreatedAt :: int

record Event =
  ne_ServerID :: int
  ne_ChannelID :: int
  ne_ServerName :: string
  ne_ChannelName :: string
  ne_Mentioned :: bool
  ne_Message :: Preview

record Changed =
  ac_ChannelID :: int
  ac_ConversationID :: int
  ac_AttachmentIDs :: "string list"

record Record =
  rc_ID :: string
  rc_ServerID :: int
  rc_ChannelID :: int
  rc_OwnerUserID :: int
  rc_OwnerUsername :: string
  rc_Status :: string
  rc_MIMEType :: string
  rc_SizeBytes :: int
  rc_DurationMS :: int
  rc_CreatedAt :: int
  rc_UpdatedAt :: int
  rc_ExpiresAt :: int
  rc_PreviewVersion :: "string option"

subsection \<open>Payloads of the realtime package\<close>

record ReadyData =
  ry_UserID :: int
  ry_ProtocolVersion :: int
  ry_E2EEBatch :: bool
  ry_MultipleStreams :: bool

record ChannelSubscriptionData =
  cs_ServerID :: int
  cs_ChannelID :: int

record ErrorData =
  er_Code :: string
  er_Message :: string

record MessageAuthorData =
  ma_UserID :: int
  ma_Username :: string

record MessageCreatedData =
  mc_Poll :: "Poll option"
  mc_Attachments :: "Attachment list"
  mc_ThreadRootID :: "int option"
  mc_CommentCount :: int
  mc_ClientMessageID :: string
  mc_ID :: int
  mc_ChannelID :: int
  mc_Author :: MessageAuthorData
  mc_Content :: string
  mc_CreatedAt :: int
  mc_EditedAt :: "int option"
  mc_Revision :: int
  mc_Reply :: "ReplyReference option"
  mc_Forward :: "ForwardReference option"

record ServerMemberRemovedData =
  sm_ServerID :: int
  sm_UserID :: int

record ServerMemberData =
  md_UserID :: int
  md_Username :: string
  md_CreatedAt :: int
  md_Role :: string
  md_JoinedAt :: int
  md_About :: string
  md_CountryCode :: "string option"
  md_LastSeenAt :: "int option"
  md_AvatarVersion :: "string option"

record ServerMemberChangedData =
  sc_ServerID :: int
  sc_Member :: ServerMemberData

record InvitationReceivedData =
  iv_ID :: int
  iv_ServerID :: int
  iv_ServerName :: string
  iv_InviterUserID :: int
  iv_InviterUsername :: string
  iv_InviteeUserID :: int
  iv_Status :: string
  iv_ExpiresAt :: int
  iv_CreatedAt :: int

record ChannelData =
  cd_CommentsEnabled :: bool
  cd_ID :: int
  cd_ServerID :: int
  cd_Name :: string
  cd_Kind :: string
  cd_Position :: int
  cd_CreatedBy :: int
  cd_AccessRestricted :: bool
  cd_CreatedAt :: int

record ChannelDeletedData =
  cx_ServerID :: int
  cx_ChannelID :: int

record ChannelReadData =
  rx_ServerID :: int
  rx_ChannelID :: int
  rx_UserID :: int
  rx_LastReadMessageID :: int
  rx_UpdatedAt :: int

record ReadSnapshotData =
  rn_Reads :: "ChannelReadData list"

record ChannelReadSnapshotData =
  rp_ServerID :: int
  rp_ChannelID :: int
  rp_Reads :: "ChannelReadData list"

record ServerDeletedData =
  sd_ServerID :: int

record TypingData =
  ty_ServerID :: int
  ty_ChannelID :: int
  ty_UserID :: int
  ty_ExpiresAt :: int

record ChannelActivityData =
  ca_ServerID :: int
  ca_ChannelID :: int
  ca_MessageID :: int
  ca_AuthorUserID :: int

record MessageDeletedData =
  mx_ChannelID :: int
  mx_MessageID :: int

record MessagePinnedData =
  mp_ChannelID :: int
  mp_MessageID :: int
  mp_Message :: MessageCreatedData
  mp_PinnedBy :: MessageAuthorData
  mp_PinnedAt :: int

record MessageUnpinnedData =
  mu_ChannelID :: int
  mu_MessageID :: int

record ServerPresenceSnapshotData =
  sp_ServerID :: int
  sp_OnlineUserIDs :: "int list"

record PresenceSnapshotData =
  ps_Servers :: "ServerPresenceSnapshotData list"

record PresenceUpdatedData =
  pu_ServerID :: int
  pu_UserID :: int
  pu_Status :: string
  pu_LastSeenAt :: "int option"

record AvatarChangedData =
  av_UserID :: int
  av_Version :: "string option"

record VoiceParticipantData =
  vp_generation :: "64 word"
  vp_ConnectionID :: string
  vp_UserID :: int
  vp_ServerID :: int
  vp_ChannelID :: int
  vp_SelfMute :: bool
  vp_SelfDeaf :: bool
  vp_SelfVideo :: bool
  vp_E2EEDeviceID :: string

record VoiceJoinedData =
  vj_Participant :: VoiceParticipantData
  vj_Participants :: "VoiceParticipantData list"
  vj_E2EERequired :: bool

record E2EERelayData =
  ee_ChannelID :: int
  ee_RecipientUserID :: int
  ee_RecipientDeviceID :: string
  ee_SenderUserID :: int
  ee_SenderDeviceID :: string
  ee_SenderConnectionID :: string
  ee_Payload :: string

record VoiceLeftData =
  vl_ConnectionID :: string
  vl_UserID :: int
  vl_ServerID :: int
  vl_ChannelID :: int

record VoiceSnapshotData =
  vs_Participants :: "VoiceParticipantData list"

record VoiceWebRTCOfferData =
  vo_SDP :: string

record VoiceWebRTCAnsweredData =
  va_Accepted :: bool

record VoiceICECandidateData =
  vi_Candidate :: string
  vi_SDPMid :: "string option"
  vi_SDPMLineIndex :: "16 word option"
  vi_UsernameFragment :: "string option"

record VoiceWebRTCClosedData =
  vc_Reason :: string

record StreamData =
  sa_ServerID :: int
  sa_ChannelID :: int
  sa_PublisherUserID :: int
  sa_PublisherConnectionID :: string
  sa_Mode :: string
  sa_Codec :: string
  sa_HasAudio :: bool
  sa_ViewerCount :: int
  sa_Renditions :: "StreamRenditionData list"
  sa_StartedAtMS :: int

record StreamWatchingData =
  sw_Stream :: StreamData
  sw_ViewerConnectionID :: string
  sw_SelectedRenditionID :: string

record StreamStoppedData =
  ss_PublisherConnectionID :: string
  ss_ServerID :: int
  ss_ChannelID :: int
  ss_Reason :: string

record StreamViewerData =
  sv_ConnectionID :: string
  sv_UserID :: int

record StreamSnapshotData =
  sn_Streams :: "StreamData list"

record StreamWebRTCOfferData =
  so_SDP :: string

record StreamWebRTCAnsweredData =
  sx_Accepted :: bool

record StreamICECandidateData =
  si_Candidate :: string
  si_SDPMid :: "string option"
  si_SDPMLineIndex :: "16 word option"
  si_UsernameFragment :: "string option"

record StreamWebRTCClosedData =
  sz_Reason :: string

record StreamP2PSessionData =
  p2_TargetConnectionID :: string
  p2_FromConnectionID :: string
  p2_SDP :: string

record StreamP2PICECandidateData =
  pi_TargetConnectionID :: string
  pi_FromConnectionID :: string
  pi_Candidate :: string
  pi_SDPMid :: "string option"
  pi_SDPMLineIndex :: "16 word option"
  pi_UsernameFragment :: "string option"

subsection \<open>Outgoing events\<close>

datatype event_data =
    NoData
  | DTypingData TypingData
  | DChannelActivityData ChannelActivityData
  | DE2EERelayData E2EERelayData
  | DSettings Settings
  | DEvent Event
  | DReactionsData ReactionsData
  | DChanged Changed
  | DChannelData ChannelData
  | DChannelDeletedData ChannelDeletedData
  | DChannelSubscriptionData ChannelSubscriptionData
  | DChannelReadData ChannelReadData
  | DChannelReadSnapshotData ChannelReadSnapshotData
  | DMessageCreatedData MessageCreatedData
  | DMessageDeletedData MessageDeletedData
  | DMessagePinnedData MessagePinnedData
  | DMessageUnpinnedData MessageUnpinnedData
  | DVoiceParticipantData VoiceParticipantData
  | DVoiceLeftData VoiceLeftData
  | DVoiceJoinedData VoiceJoinedData
  | DStreamData StreamData
  | DStreamStoppedData StreamStoppedData
  | DStreamWatchingData StreamWatchingData
  | DRecord Record
  | DVoiceSnapshotData VoiceSnapshotData
  | DStreamSnapshotData StreamSnapshotData
  | DReadSnapshotData ReadSnapshotData
  | DPresenceUpdatedData PresenceUpdatedData
  | DPresenceSnapshotData PresenceSnapshotData
  | DServerMemberRemovedData ServerMemberRemovedData
  | DServerMemberChangedData ServerMemberChangedData
  | DServerDeletedData ServerDeletedData
  | DInvitationReceivedData InvitationReceivedData
  | DAvatarChangedData AvatarChangedData
  | DReadyData ReadyData
  | DErrorData ErrorData
  | DVoiceWebRTCOfferData VoiceWebRTCOfferData
  | DVoiceWebRTCAnsweredData VoiceWebRTCAnsweredData
  | DVoiceICECandidateData VoiceICECandidateData
  | DVoiceWebRTCClosedData VoiceWebRTCClosedData
  | DStreamViewerData StreamViewerData
  | DStreamWebRTCOfferData StreamWebRTCOfferData
  | DStreamWebRTCAnsweredData StreamWebRTCAnsweredData
  | DStreamICECandidateData StreamICECandidateData
  | DStreamWebRTCClosedData StreamWebRTCClosedData
  | DStreamP2PSessionData StreamP2PSessionData
  | DStreamP2PICECandidateData StreamP2PICECandidateData
  | DOther string

record OutgoingEvent =
  ev_encoding :: nat
  ev_RequestID :: string
  ev_Type :: string
  ev_Data :: event_data

definition mkEvent :: "string \<Rightarrow> event_data \<Rightarrow> OutgoingEvent" where
  "mkEvent t d = \<lparr> ev_encoding = nil, ev_RequestID = [], ev_Type = t, ev_Data = d \<rparr>"

end
