(* ===== verification/ClientQueue.thy ===== *)
theory ClientQueue
  imports Events
begin

text \<open>
  One WebSocket connection (src/internal/realtime/client.go, outgoing.go, stream_legacy.go and
  the client methods of channel_access.go): its identity, its subscriptions and server
  memberships, and the two bounded lanes of outgoing events between the hub and the writer
  goroutine.

  A method with a pointer receiver takes the client and returns the updated client. The Go
  code asserts two dynamic types without the comma-ok form; those panics are \<open>None\<close>. The
  mutexes only make each method atomic and are left out; the handshake between producers and
  the writer goroutine (the one-slot channel \<^verbatim>\<open>outgoingReady\<close>) is the step relation
  \<open>queue_step\<close>, whose steps are the critical sections of the code.
\<close>

subsection \<open>The client\<close>

definition outgoingBufferSize :: nat where
  [lane_simps]: "outgoingBufferSize = 128"

record Client =
  c_channelAccess :: "int list option"
  c_connectionID :: string
  c_userID :: int
  c_sessionKey :: string
  c_outgoing :: "OutgoingEvent list"
  c_priority :: "OutgoingEvent list"
  c_outgoingReady :: bool
  c_priorityBurst :: nat
  c_queueCoalesced :: "64 word"
  c_queueResyncs :: "64 word"
  c_queueHighWater :: nat
  c_messageSync :: bool
  c_multipleStreams :: bool
  c_legacyStreams :: "(int, string) gomap"
  c_done :: bool
  c_closeReason :: string
  c_queueFullLogged :: bool
  c_subscriptions :: "(int, int) gomap"
  c_servers :: "int list"

definition newConnectionID :: "64 word \<Rightarrow> 64 word \<times> string" where
  "newConnectionID nextConnectionID =
     (let n = nextConnectionID + 1 in (n, fmt_base 36 (unat n)))"

text \<open>\<^verbatim>\<open>sha256.Sum256\<close> and \<^verbatim>\<open>strings.TrimSpace\<close> are parameters.\<close>

definition newSessionKey :: "(string \<Rightarrow> string) \<Rightarrow> (string \<Rightarrow> string) \<Rightarrow> string \<Rightarrow> string" where
  "newSessionKey sha256 trimSpace token = sha256 (trimSpace token)"

definition NewClient ::
  "(string \<Rightarrow> string) \<Rightarrow> (string \<Rightarrow> string) \<Rightarrow> 64 word \<Rightarrow> int \<Rightarrow> string \<Rightarrow> int list
    \<Rightarrow> 64 word \<times> Client" where
  "NewClient sha256 trimSpace nextConnectionID userID sessionToken serverIDs =
     (let (n, cid) = newConnectionID nextConnectionID in
      (n, \<lparr> c_channelAccess = None, c_connectionID = cid, c_userID = userID,
            c_sessionKey = newSessionKey sha256 trimSpace sessionToken,
            c_outgoing = [], c_priority = [], c_outgoingReady = False, c_priorityBurst = 0,
            c_queueCoalesced = 0, c_queueResyncs = 0, c_queueHighWater = 0,
            c_messageSync = False, c_multipleStreams = False, c_legacyStreams = [],
            c_done = False, c_closeReason = [], c_queueFullLogged = False,
            c_subscriptions = [],
            c_servers = fold (\<lambda>serverID acc.
              if serverID > 0 then List.insert serverID acc else acc) serverIDs [] \<rparr>))"

definition EnableMessageSync :: "Client \<Rightarrow> Client" where
  "EnableMessageSync c = c\<lparr> c_messageSync := True \<rparr>"

definition EnableMultipleStreams :: "Client \<Rightarrow> Client" where
  "EnableMultipleStreams c = c\<lparr> c_multipleStreams := True \<rparr>"

text \<open>\<^verbatim>\<open>closeOnce\<close> runs its body once; the body closes \<^verbatim>\<open>done\<close>.\<close>

definition CloseWithReason :: "Client \<Rightarrow> string \<Rightarrow> Client" where
  "CloseWithReason c reason =
     (if c_done c then c else c\<lparr> c_closeReason := reason, c_done := True \<rparr>)"

definition CloseClient :: "Client \<Rightarrow> Client" where
  "CloseClient c = CloseWithReason c []"

definition addSubscription :: "Client \<Rightarrow> int \<Rightarrow> int \<Rightarrow> Client" where
  "addSubscription c serverID channelID =
     c\<lparr> c_subscriptions := AList.update channelID serverID (c_subscriptions c) \<rparr>"

definition removeSubscription :: "Client \<Rightarrow> int \<Rightarrow> Client" where
  "removeSubscription c channelID =
     c\<lparr> c_subscriptions := AList.delete channelID (c_subscriptions c) \<rparr>"

definition subscriptionIDs :: "Client \<Rightarrow> int list" where
  "subscriptionIDs c = map fst (c_subscriptions c)"

definition subscriptionIDsForServer :: "Client \<Rightarrow> int \<Rightarrow> int list" where
  "subscriptionIDsForServer c serverID =
     map fst (filter (\<lambda>(channelID, subscribedServerID). subscribedServerID = serverID)
       (c_subscriptions c))"

definition IsSubscribed :: "Client \<Rightarrow> int \<Rightarrow> int \<Rightarrow> bool" where
  "IsSubscribed c serverID channelID =
     (case map_of (c_subscriptions c) channelID of None \<Rightarrow> False | Some sid \<Rightarrow> sid = serverID)"

definition hasServer :: "Client \<Rightarrow> int \<Rightarrow> bool" where
  "hasServer c serverID = List.member (c_servers c) serverID"

definition addServer :: "Client \<Rightarrow> int \<Rightarrow> Client \<times> bool" where
  "addServer c serverID =
     (if List.member (c_servers c) serverID then (c, False)
      else (c\<lparr> c_servers := List.insert serverID (c_servers c) \<rparr>, True))"

definition removeServer :: "Client \<Rightarrow> int \<Rightarrow> Client \<times> bool" where
  "removeServer c serverID =
     (if \<not> List.member (c_servers c) serverID then (c, False)
      else (c\<lparr> c_servers := removeAll serverID (c_servers c) \<rparr>, True))"

subsection \<open>Channel access\<close>

definition canAccessChannel :: "Client \<Rightarrow> int \<Rightarrow> bool" where
  "canAccessChannel c channelID =
     (case c_channelAccess c of None \<Rightarrow> True | Some ids \<Rightarrow> List.member ids channelID)"

text \<open>The dynamic types that implement \<^verbatim>\<open>EventChannelID() int64\<close>.\<close>

fun EventChannelID :: "event_data \<Rightarrow> int option" where
  "EventChannelID (DTypingData d) = Some (ty_ChannelID d)"
| "EventChannelID (DChannelActivityData d) = Some (ca_ChannelID d)"
| "EventChannelID (DE2EERelayData d) = Some (ee_ChannelID d)"
| "EventChannelID (DSettings d) = Some (ns_ChannelID d)"
| "EventChannelID (DEvent d) = Some (ne_ChannelID d)"
| "EventChannelID (DReactionsData d) = Some (rd_ChannelID d)"
| "EventChannelID (DChanged d) = Some (ac_ChannelID d)"
| "EventChannelID _ = None"

definition filterChannelEvent :: "Client \<Rightarrow> OutgoingEvent \<Rightarrow> OutgoingEvent \<times> bool" where
  "filterChannelEvent c event =
     (let ret = (\<lambda>chID. (event, chID = 0 \<or> canAccessChannel c chID)) in
      case EventChannelID (ev_Data event) of
        Some chID \<Rightarrow> ret chID
      | None \<Rightarrow>
     (case ev_Data event of
        DChannelData d \<Rightarrow> ret (cd_ID d)
      | DChannelDeletedData d \<Rightarrow> ret (cx_ChannelID d)
      | DChannelSubscriptionData d \<Rightarrow> ret (cs_ChannelID d)
      | DChannelReadData d \<Rightarrow> ret (rx_ChannelID d)
      | DChannelReadSnapshotData d \<Rightarrow> ret (rp_ChannelID d)
      | DMessageCreatedData d \<Rightarrow> ret (mc_ChannelID d)
      | DMessageDeletedData d \<Rightarrow> ret (mx_ChannelID d)
      | DMessagePinnedData d \<Rightarrow> ret (mp_ChannelID d)
      | DMessageUnpinnedData d \<Rightarrow> ret (mu_ChannelID d)
      | DVoiceParticipantData d \<Rightarrow> ret (vp_ChannelID d)
      | DVoiceLeftData d \<Rightarrow> ret (vl_ChannelID d)
      | DVoiceJoinedData d \<Rightarrow> ret (vp_ChannelID (vj_Participant d))
      | DStreamData d \<Rightarrow> ret (sa_ChannelID d)
      | DStreamStoppedData d \<Rightarrow> ret (ss_ChannelID d)
      | DStreamWatchingData d \<Rightarrow> ret (sa_ChannelID (sw_Stream d))
      | DRecord d \<Rightarrow> ret (rc_ChannelID d)
      | DVoiceSnapshotData d \<Rightarrow>
          (event\<lparr> ev_encoding := nil, ev_Data := DVoiceSnapshotData
             (d\<lparr> vs_Participants := filter (\<lambda>p. canAccessChannel c (vp_ChannelID p))
                 (vs_Participants d) \<rparr>) \<rparr>, True)
      | DStreamSnapshotData d \<Rightarrow>
          (event\<lparr> ev_encoding := nil, ev_Data := DStreamSnapshotData
             (d\<lparr> sn_Streams := filter (\<lambda>s. canAccessChannel c (sa_ChannelID s))
                 (sn_Streams d) \<rparr>) \<rparr>, True)
      | DReadSnapshotData d \<Rightarrow>
          (event\<lparr> ev_encoding := nil, ev_Data := DReadSnapshotData
             (d\<lparr> rn_Reads := filter (\<lambda>r. canAccessChannel c (rx_ChannelID r))
                 (rn_Reads d) \<rparr>) \<rparr>, True)
      | _ \<Rightarrow> ret 0))"

fun filter_queue :: "Client \<Rightarrow> OutgoingEvent list \<Rightarrow> OutgoingEvent list" where
  "filter_queue c [] = []"
| "filter_queue c (event # queue) =
     (case filterChannelEvent c event of
        (value, True) \<Rightarrow> value # filter_queue c queue
      | (value, False) \<Rightarrow> filter_queue c queue)"

definition replaceChannelAccess :: "Client \<Rightarrow> int list option \<Rightarrow> Client" where
  "replaceChannelAccess c ids =
     (let c1 = c\<lparr> c_channelAccess := ids \<rparr> in
      c1\<lparr> c_outgoing := filter_queue c1 (c_outgoing c1),
          c_priority := filter_queue c1 (c_priority c1) \<rparr>)"

subsection \<open>Clients without the multi-stream protocol\<close>

fun legacy_primaries ::
  "(int, string) gomap \<Rightarrow> StreamData list \<Rightarrow> (int, string) gomap \<times> StreamData list" where
  "legacy_primaries primary [] = (primary, [])"
| "legacy_primaries primary (value # values) =
     (if map_of primary (sa_ChannelID value) = None
      then (let (p, streams) = legacy_primaries
              (AList.update (sa_ChannelID value) (sa_PublisherConnectionID value) primary) values
            in (p, value # streams))
      else legacy_primaries primary values)"

definition filterLegacyStreamEvent ::
  "Client \<Rightarrow> OutgoingEvent \<Rightarrow> Client \<times> OutgoingEvent \<times> bool" where
  "filterLegacyStreamEvent c event =
     (if c_multipleStreams c then (c, event, True)
      else case ev_Data event of
        DStreamSnapshotData d \<Rightarrow>
          (let (primary, streams) = legacy_primaries [] (sn_Streams d) in
           (c\<lparr> c_legacyStreams := primary \<rparr>,
            event\<lparr> ev_Data := DStreamSnapshotData (d\<lparr> sn_Streams := streams \<rparr>),
                   ev_encoding := nil \<rparr>, True))
      | DStreamData d \<Rightarrow>
          (let other = (case map_of (c_legacyStreams c) (sa_ChannelID d) of
                          None \<Rightarrow> False
                        | Some pid \<Rightarrow> pid \<noteq> sa_PublisherConnectionID d \<and> ev_RequestID event = []) in
           if other then (c, event, False)
           else (c\<lparr> c_legacyStreams :=
                   AList.update (sa_ChannelID d) (sa_PublisherConnectionID d) (c_legacyStreams c) \<rparr>,
                 event, True))
      | DStreamWatchingData d \<Rightarrow>
          (c\<lparr> c_legacyStreams := AList.update (sa_ChannelID (sw_Stream d))
                (sa_PublisherConnectionID (sw_Stream d)) (c_legacyStreams c) \<rparr>, event, True)
      | DStreamStoppedData d \<Rightarrow>
          (if ev_Type event \<noteq> EventStreamStopped then (c, event, True)
           else (let other = (case map_of (c_legacyStreams c) (ss_ChannelID d) of
                                None \<Rightarrow> False
                              | Some pid \<Rightarrow> ss_PublisherConnectionID d \<noteq> [] \<and>
                                           ss_PublisherConnectionID d \<noteq> pid) in
                 if other then (c, event, False)
                 else (c\<lparr> c_legacyStreams := AList.delete (ss_ChannelID d) (c_legacyStreams c) \<rparr>,
                       event, True)))
      | _ \<Rightarrow> (c, event, True))"

subsection \<open>The outgoing lanes\<close>

record QueueStats =
  qs_NormalPending :: nat
  qs_MediaPending :: nat
  qs_HighWatermark :: nat
  qs_Coalesced :: "64 word"
  qs_Resyncs :: "64 word"

definition queueStats :: "Client \<Rightarrow> QueueStats" where
  "queueStats c =
     \<lparr> qs_NormalPending = length (c_outgoing c), qs_MediaPending = length (c_priority c),
       qs_HighWatermark = c_queueHighWater c, qs_Coalesced = c_queueCoalesced c,
       qs_Resyncs = c_queueResyncs c \<rparr>"

definition notifyOutgoing :: "Client \<Rightarrow> Client" where
  "notifyOutgoing c = c\<lparr> c_outgoingReady := True \<rparr>"

definition PopOutgoing :: "Client \<Rightarrow> Client \<times> OutgoingEvent option" where
  "PopOutgoing c =
     (let media = length (c_priority c) > 0 \<and>
            (c_priorityBurst c < 8 \<or> length (c_outgoing c) = 0);
          c1 = (if media then c\<lparr> c_priorityBurst := c_priorityBurst c + 1 \<rparr>
                else c\<lparr> c_priorityBurst := 0 \<rparr>);
          queue = (if media then c_priority c1 else c_outgoing c1) in
      case queue of
        [] \<Rightarrow> (c1, None)
      | event # rest \<Rightarrow>
          (let c2 = (if media then c1\<lparr> c_priority := rest \<rparr> else c1\<lparr> c_outgoing := rest \<rparr>) in
           ((if length (c_outgoing c2) + length (c_priority c2) > 0 then notifyOutgoing c2 else c2),
            Some event)))"

definition replacementKey :: "OutgoingEvent \<Rightarrow> string" where
  "replacementKey event =
     (if ev_RequestID event \<noteq> [] then []
      else let sw =
        (case ev_Data event of
           DReactionsData v \<Rightarrow> ''reactions/'' @ fmt_d (rd_MessageID v)
         | DPresenceUpdatedData v \<Rightarrow>
             (if ev_Type event = EventPresenceUpdated
              then ''presence/'' @ fmt_d (pu_ServerID v) @ ''/'' @ fmt_d (pu_UserID v) else [])
         | DChannelReadData v \<Rightarrow>
             (if ev_Type event = EventChannelRead
              then ''read/'' @ fmt_d (rx_ChannelID v) @ ''/'' @ fmt_d (rx_UserID v) else [])
         | DChannelActivityData v \<Rightarrow> ''activity/'' @ fmt_d (ca_ChannelID v)
         | DTypingData v \<Rightarrow>
             (if ev_Type event = EventTyping
              then ''typing/'' @ fmt_d (ty_ChannelID v) @ ''/'' @ fmt_d (ty_UserID v) else [])
         | _ \<Rightarrow> []) in
      case EventChannelID (ev_Data event) of
        None \<Rightarrow> sw
      | Some channelID \<Rightarrow>
          (if ev_Type event = EventNotificationMessage then ''notification/'' @ fmt_d channelID
           else if ev_Type event = EventNotificationSettingsUpdated
                then ''notification-settings/'' @ fmt_d channelID
           else sw))"

definition eventMessageChannel :: "OutgoingEvent \<Rightarrow> int" where
  "eventMessageChannel event =
     (if ev_RequestID event \<noteq> [] then 0
      else if ev_Type event = EventMessageReactionsChanged then
        (case ev_Data event of DReactionsData v \<Rightarrow> rd_ChannelID v | _ \<Rightarrow> 0)
      else if ev_Type event = EventMessageCreated \<or> ev_Type event = EventMessageUpdated then
        (case ev_Data event of DMessageCreatedData v \<Rightarrow> mc_ChannelID v | _ \<Rightarrow> 0)
      else if ev_Type event = EventMessageDeleted \<or> ev_Type event = EventMessageUnpinned then
        (case ev_Data event of DMessageDeletedData v \<Rightarrow> mx_ChannelID v | _ \<Rightarrow> 0)
      else if ev_Type event = EventMessagePinned then
        (case ev_Data event of DMessagePinnedData v \<Rightarrow> mp_ChannelID v | _ \<Rightarrow> 0)
      else 0)"

definition sync_marker :: "int \<Rightarrow> int \<Rightarrow> OutgoingEvent" where
  "sync_marker serverID channelID =
     mkEvent EventChannelSyncRequired
       (DChannelSubscriptionData \<lparr> cs_ServerID = serverID, cs_ChannelID = channelID \<rparr>)"

fun compact_events ::
  "int \<Rightarrow> int \<Rightarrow> bool \<Rightarrow> OutgoingEvent list \<Rightarrow> OutgoingEvent list \<times> bool" where
  "compact_events serverID channelID inserted [] = ([], inserted)"
| "compact_events serverID channelID inserted (queued # queue) =
     (if eventMessageChannel queued = channelID then
        (let (kept, ins) = compact_events serverID channelID True queue in
         (if inserted then kept else sync_marker serverID channelID # kept, ins))
      else
        (let (kept, ins) = compact_events serverID channelID inserted queue in
         (queued # kept, ins)))"

definition compactChannel :: "Client \<Rightarrow> int \<Rightarrow> Client \<times> bool" where
  "compactChannel c channelID =
     (if \<not> c_messageSync c then (c, False)
      else let serverID = get_or 0 (c_subscriptions c) channelID in
      if serverID \<le> 0 then (c, False)
      else let (kept, inserted) = compact_events serverID channelID False (c_outgoing c);
               c1 = c\<lparr> c_outgoing := kept \<rparr> in
      (if inserted then c1\<lparr> c_queueResyncs := c_queueResyncs c1 + 1 \<rparr> else c1, inserted))"

definition transient :: "OutgoingEvent \<Rightarrow> bool" where
  "transient event \<longleftrightarrow> ev_Type event = EventNotificationMessage \<or>
     ev_Type event = EventTyping \<or> ev_Type event = EventChannelActivity"

text \<open>The compaction loop of \<^verbatim>\<open>enqueueLocked\<close>. Go evaluates the range expression once, but
  \<^verbatim>\<open>compactChannel\<close> rewrites the backing array in place, so iteration \<open>i\<close> reads the current
  queue at index \<open>i\<close>. The result tells whether the loop returned from the function.\<close>

fun compact_loop :: "int \<Rightarrow> nat list \<Rightarrow> Client \<Rightarrow> Client \<times> bool" where
  "compact_loop channelID [] c = (c, False)"
| "compact_loop channelID (i # is) c =
     (let candidate =
        (if i < length (c_outgoing c) then eventMessageChannel (c_outgoing c ! i) else 0) in
      if candidate > 0 then
        (let (c1, compacted) = compactChannel c candidate in
         if \<not> compacted then compact_loop channelID is c1
         else if candidate = channelID then (c1, True)
         else if length (c_outgoing c1) < outgoingBufferSize then (c1, False)
         else compact_loop channelID is c1)
      else compact_loop channelID is c)"

fun first_index :: "('a \<Rightarrow> bool) \<Rightarrow> 'a list \<Rightarrow> nat option" where
  "first_index P [] = None"
| "first_index P (x # xs) = (if P x then Some 0 else map_option Suc (first_index P xs))"

definition coalesced :: "Client \<Rightarrow> Client" where
  "coalesced c = c\<lparr> c_queueCoalesced := c_queueCoalesced c + 1 \<rparr>"

definition replace_queued :: "Client \<Rightarrow> nat \<Rightarrow> OutgoingEvent \<Rightarrow> (Client \<times> bool) option" where
  "replace_queued c index event =
     (let replaced = (coalesced c)\<lparr> c_outgoing := (c_outgoing c)[index := event] \<rparr> in
      case ev_Data (c_outgoing c ! index) of
        DReactionsData previous \<Rightarrow>
          (case ev_Data event of
             DReactionsData next_ \<Rightarrow>
               (if rd_Revision next_ < rd_Revision previous then Some (coalesced c, True)
                else Some (replaced, True))
           | _ \<Rightarrow> Some (replaced, True))
      | DChannelReadData previous \<Rightarrow>
          (case ev_Data event of
             DChannelReadData next_ \<Rightarrow>
               (if rx_LastReadMessageID next_ < rx_LastReadMessageID previous
                then Some (coalesced c, True) else Some (replaced, True))
           | _ \<Rightarrow> None)
      | _ \<Rightarrow> Some (replaced, True))"

fun sync_queued :: "int \<Rightarrow> OutgoingEvent list \<Rightarrow> bool option" where
  "sync_queued channelID [] = Some False"
| "sync_queued channelID (queued # queue) =
     (if ev_Type queued = EventChannelSyncRequired then
        (case ev_Data queued of
           DChannelSubscriptionData d \<Rightarrow>
             (if cs_ChannelID d = channelID then Some True else sync_queued channelID queue)
         | _ \<Rightarrow> None)
      else sync_queued channelID queue)"

definition evict_transient :: "Client \<Rightarrow> Client" where
  "evict_transient c =
     (case first_index transient (c_outgoing c) of
        None \<Rightarrow> c
      | Some index \<Rightarrow>
          c\<lparr> c_outgoing := take index (c_outgoing c) @ drop (Suc index) (c_outgoing c) \<rparr>)"

definition enqueue_full :: "Client \<Rightarrow> OutgoingEvent \<Rightarrow> Client \<times> bool" where
  "enqueue_full c event =
     (let channelID = eventMessageChannel event;
          full = (\<lambda>c. length (c_outgoing c) = outgoingBufferSize) in
      if full c \<and> transient event then (c, True)
      else let c1 = (if full c then evict_transient c else c);
               (c2, returned) = (if full c1 then compact_loop channelID [0 ..< outgoingBufferSize] c1
                                 else (c1, False)) in
      if returned then (c2, True)
      else if full c2 then (c2, False)
      else (c2\<lparr> c_outgoing := c_outgoing c2 @ [event] \<rparr>, True))"

definition enqueueLocked :: "Client \<Rightarrow> OutgoingEvent \<Rightarrow> (Client \<times> bool) option" where
  "enqueueLocked c event =
     (if has_prefix (ev_Type event) ''voice.'' \<or> has_prefix (ev_Type event) ''stream.'' then
        (if length (c_priority c) = outgoingBufferSize then Some (c, False)
         else Some (c\<lparr> c_priority := c_priority c @ [event] \<rparr>, True))
      else let key = replacementKey event in
      case (if key \<noteq> [] then first_index (\<lambda>queued. replacementKey queued = key) (c_outgoing c)
            else None) of
        Some index \<Rightarrow> replace_queued c index event
      | None \<Rightarrow>
         (let channelID = eventMessageChannel event in
          case (if channelID > 0 then sync_queued channelID (c_outgoing c) else Some False) of
            None \<Rightarrow> None
          | Some True \<Rightarrow> Some (coalesced c, True)
          | Some False \<Rightarrow> Some (enqueue_full c event)))"

definition enqueue :: "Client \<Rightarrow> OutgoingEvent \<Rightarrow> (Client \<times> bool) option" where
  "enqueue c event =
     (if c_done c then Some (c, False)
      else let (event1, allowed1) = filterChannelEvent c event;
               (c1, event2, allowed) =
                 (if allowed1 then filterLegacyStreamEvent c event1 else (c, event1, False)) in
      if \<not> allowed then Some (c1, True)
      else case enqueueLocked c1 event2 of
        None \<Rightarrow> None
      | Some (c2, accepted) \<Rightarrow>
          (if accepted then
             (let pending = length (c_outgoing c2) + length (c_priority c2);
                  c3 = (if pending > c_queueHighWater c2
                        then c2\<lparr> c_queueHighWater := pending \<rparr> else c2) in
              Some (notifyOutgoing c3, True))
           else Some (c2\<lparr> c_queueFullLogged := True \<rparr>, False)))"


subsection \<open>What the filters do\<close>

text \<open>The channels a payload reveals something about.\<close>

fun event_channels :: "event_data \<Rightarrow> int list" where
  "event_channels (DTypingData d) = [ty_ChannelID d]"
| "event_channels (DChannelActivityData d) = [ca_ChannelID d]"
| "event_channels (DE2EERelayData d) = [ee_ChannelID d]"
| "event_channels (DSettings d) = [ns_ChannelID d]"
| "event_channels (DEvent d) = [ne_ChannelID d]"
| "event_channels (DReactionsData d) = [rd_ChannelID d]"
| "event_channels (DChanged d) = [ac_ChannelID d]"
| "event_channels (DChannelData d) = [cd_ID d]"
| "event_channels (DChannelDeletedData d) = [cx_ChannelID d]"
| "event_channels (DChannelSubscriptionData d) = [cs_ChannelID d]"
| "event_channels (DChannelReadData d) = [rx_ChannelID d]"
| "event_channels (DChannelReadSnapshotData d) = [rp_ChannelID d]"
| "event_channels (DMessageCreatedData d) = [mc_ChannelID d]"
| "event_channels (DMessageDeletedData d) = [mx_ChannelID d]"
| "event_channels (DMessagePinnedData d) = [mp_ChannelID d]"
| "event_channels (DMessageUnpinnedData d) = [mu_ChannelID d]"
| "event_channels (DVoiceParticipantData d) = [vp_ChannelID d]"
| "event_channels (DVoiceLeftData d) = [vl_ChannelID d]"
| "event_channels (DVoiceJoinedData d) = [vp_ChannelID (vj_Participant d)]"
| "event_channels (DStreamData d) = [sa_ChannelID d]"
| "event_channels (DStreamStoppedData d) = [ss_ChannelID d]"
| "event_channels (DStreamWatchingData d) = [sa_ChannelID (sw_Stream d)]"
| "event_channels (DRecord d) = [rc_ChannelID d]"
| "event_channels (DVoiceSnapshotData d) = map vp_ChannelID (vs_Participants d)"
| "event_channels (DStreamSnapshotData d) = map sa_ChannelID (sn_Streams d)"
| "event_channels (DReadSnapshotData d) = map rx_ChannelID (rn_Reads d)"
| "event_channels _ = []"

definition visible :: "Client \<Rightarrow> OutgoingEvent \<Rightarrow> bool" where
  "visible c e \<longleftrightarrow> (\<forall>ch \<in> set (event_channels (ev_Data e)). ch = 0 \<or> canAccessChannel c ch)"

definition wf_event :: "OutgoingEvent \<Rightarrow> bool" where
  "wf_event e \<longleftrightarrow>
     (ev_Type e = EventChannelSyncRequired \<longrightarrow> (\<exists>d. ev_Data e = DChannelSubscriptionData d))"

lemma canAccessChannel_cong:
  "c_channelAccess c = c_channelAccess c' \<Longrightarrow> canAccessChannel c = canAccessChannel c'"
  by (rule ext) (simp add: canAccessChannel_def)

lemma visible_cong: "c_channelAccess c = c_channelAccess c' \<Longrightarrow> visible c = visible c'"
  by (rule ext) (simp add: visible_def canAccessChannel_cong[of c c'])

lemma access_updates [simp]:
  "canAccessChannel (c_outgoing_update f1 c) = canAccessChannel c"
  "canAccessChannel (c_priority_update f2 c) = canAccessChannel c"
  "canAccessChannel (c_legacyStreams_update f3 c) = canAccessChannel c"
  "canAccessChannel (c_queueCoalesced_update f4 c) = canAccessChannel c"
  "canAccessChannel (c_queueResyncs_update f5 c) = canAccessChannel c"
  "canAccessChannel (c_priorityBurst_update f6 c) = canAccessChannel c"
  "canAccessChannel (c_outgoingReady_update f7 c) = canAccessChannel c"
  "canAccessChannel (c_queueHighWater_update f8 c) = canAccessChannel c"
  "canAccessChannel (c_queueFullLogged_update f9 c) = canAccessChannel c"
  "canAccessChannel (c_done_update f10 c) = canAccessChannel c"
  "canAccessChannel (c_closeReason_update f11 c) = canAccessChannel c"
  "canAccessChannel (c_subscriptions_update f12 c) = canAccessChannel c"
  "canAccessChannel (c_servers_update f13 c) = canAccessChannel c"
  "canAccessChannel (c_messageSync_update f14 c) = canAccessChannel c"
  "canAccessChannel (c_multipleStreams_update f15 c) = canAccessChannel c"
  by (simp_all add: canAccessChannel_def fun_eq_iff)

lemma visible_updates [simp]:
  "visible (c_outgoing_update f16 c) = visible c"
  "visible (c_priority_update f17 c) = visible c"
  "visible (c_legacyStreams_update f18 c) = visible c"
  "visible (c_queueCoalesced_update f19 c) = visible c"
  "visible (c_queueResyncs_update f20 c) = visible c"
  "visible (c_priorityBurst_update f21 c) = visible c"
  "visible (c_outgoingReady_update f22 c) = visible c"
  "visible (c_queueHighWater_update f23 c) = visible c"
  "visible (c_queueFullLogged_update f24 c) = visible c"
  "visible (c_done_update f25 c) = visible c"
  "visible (c_closeReason_update f26 c) = visible c"
  "visible (c_subscriptions_update f27 c) = visible c"
  "visible (c_servers_update f28 c) = visible c"
  "visible (c_messageSync_update f29 c) = visible c"
  "visible (c_multipleStreams_update f30 c) = visible c"
  by (simp_all add: visible_def fun_eq_iff)

definition is_snapshot :: "event_data \<Rightarrow> bool" where
  "is_snapshot d \<longleftrightarrow> (case d of DVoiceSnapshotData _ \<Rightarrow> True | DStreamSnapshotData _ \<Rightarrow> True
     | DReadSnapshotData _ \<Rightarrow> True | _ \<Rightarrow> False)"

lemma filterChannelEvent_same:
  "\<not> is_snapshot (ev_Data e) \<Longrightarrow> filterChannelEvent c e = (e, visible c e)"
  by (cases "ev_Data e") (simp_all add: filterChannelEvent_def visible_def is_snapshot_def)

lemma filterChannelEvent_snapshot:
  assumes "is_snapshot (ev_Data e)"
  shows "\<exists>d. filterChannelEvent c e = (e\<lparr> ev_encoding := nil, ev_Data := d \<rparr>, True) \<and>
    is_snapshot d \<and> set (event_channels d) \<subseteq> {ch. canAccessChannel c ch} \<and>
    set (event_channels d) \<subseteq> set (event_channels (ev_Data e))"
proof (cases "ev_Data e")
  case (DVoiceSnapshotData d)
  then show ?thesis
    by (intro exI[of _ "ev_Data (fst (filterChannelEvent c e))"])
      (auto simp: filterChannelEvent_def is_snapshot_def)
next
  case (DStreamSnapshotData d)
  then show ?thesis
    by (intro exI[of _ "ev_Data (fst (filterChannelEvent c e))"])
      (auto simp: filterChannelEvent_def is_snapshot_def)
next
  case (DReadSnapshotData d)
  then show ?thesis
    by (intro exI[of _ "ev_Data (fst (filterChannelEvent c e))"])
      (auto simp: filterChannelEvent_def is_snapshot_def)
qed (use assms in \<open>simp_all add: is_snapshot_def\<close>)

lemma snapshot_keys:
  assumes "is_snapshot (ev_Data e)"
  shows "replacementKey e = []" "eventMessageChannel e = 0"
    "wf_event e \<longleftrightarrow> ev_Type e \<noteq> EventChannelSyncRequired"
proof -
  have "(\<exists>d. ev_Data e = DVoiceSnapshotData d) \<or> (\<exists>d. ev_Data e = DStreamSnapshotData d) \<or>
        (\<exists>d. ev_Data e = DReadSnapshotData d)"
    using assms by (cases "ev_Data e") (simp_all add: is_snapshot_def)
  then show "replacementKey e = []" "eventMessageChannel e = 0"
    "wf_event e \<longleftrightarrow> ev_Type e \<noteq> EventChannelSyncRequired"
    by (elim disjE exE; simp add: replacementKey_def eventMessageChannel_def wf_event_def)+
qed

lemma filterChannelEvent_facts:
  assumes "filterChannelEvent c e = (e', allowed)"
  shows "ev_Type e' = ev_Type e" "ev_RequestID e' = ev_RequestID e"
    "replacementKey e' = replacementKey e" "eventMessageChannel e' = eventMessageChannel e"
    "wf_event e \<Longrightarrow> wf_event e'" "allowed \<Longrightarrow> visible c e'"
proof -
  have *: "ev_Type e' = ev_Type e \<and> ev_RequestID e' = ev_RequestID e \<and>
    replacementKey e' = replacementKey e \<and> eventMessageChannel e' = eventMessageChannel e \<and>
    (wf_event e \<longrightarrow> wf_event e') \<and> (allowed \<longrightarrow> visible c e')"
  proof (cases "is_snapshot (ev_Data e)")
    case True
    then obtain d where d: "filterChannelEvent c e = (e\<lparr> ev_encoding := nil, ev_Data := d \<rparr>, True)"
      "is_snapshot d" "set (event_channels d) \<subseteq> {ch. canAccessChannel c ch}"
      using filterChannelEvent_snapshot by blast
    have e': "e' = e\<lparr> ev_encoding := nil, ev_Data := d \<rparr>" using assms d(1) by simp
    have "is_snapshot (ev_Data e')" using d(2) e' by simp
    from snapshot_keys[OF this] snapshot_keys[OF True] d(3) show ?thesis
      by (auto simp: e' visible_def)
  next
    case False
    then show ?thesis using assms filterChannelEvent_same[OF False, of c] by auto
  qed
  then show "ev_Type e' = ev_Type e" "ev_RequestID e' = ev_RequestID e"
    "replacementKey e' = replacementKey e" "eventMessageChannel e' = eventMessageChannel e"
    "wf_event e \<Longrightarrow> wf_event e'" "allowed \<Longrightarrow> visible c e'" by blast+
qed

lemma filter_queue_visible: "e \<in> set (filter_queue c q) \<Longrightarrow> visible c e"
  by (induction q) (auto split: prod.splits bool.splits dest: filterChannelEvent_facts(6)[OF sym])

lemma filter_queue_length: "length (filter_queue c q) \<le> length q"
  by (induction q) (auto split: prod.splits bool.splits)

lemma filter_queue_wf:
  "\<forall>e \<in> set q. wf_event e \<Longrightarrow> e \<in> set (filter_queue c q) \<Longrightarrow> wf_event e"
  by (induction q) (auto split: prod.splits bool.splits dest: filterChannelEvent_facts(5)[OF sym])

definition queue_keys :: "OutgoingEvent list \<Rightarrow> string list" where
  "queue_keys q = filter (\<lambda>k. k \<noteq> []) (map replacementKey q)"

lemma queue_keys_Nil [simp]: "queue_keys [] = []"
  by (simp add: queue_keys_def)

lemma queue_keys_Cons [simp]:
  "queue_keys (e # q) =
     (if replacementKey e = [] then queue_keys q else replacementKey e # queue_keys q)"
  by (simp add: queue_keys_def)

lemma queue_keys_append [simp]: "queue_keys (p @ q) = queue_keys p @ queue_keys q"
  by (simp add: queue_keys_def)

lemma filter_queue_keys_subset: "set (queue_keys (filter_queue c q)) \<subseteq> set (queue_keys q)"
  by (induction q) (auto split: prod.splits bool.splits dest: filterChannelEvent_facts(3))

lemma filter_queue_keys: "distinct (queue_keys q) \<Longrightarrow> distinct (queue_keys (filter_queue c q))"
proof (induction q)
  case (Cons e q)
  obtain v b where v: "filterChannelEvent c e = (v, b)" by (cases "filterChannelEvent c e")
  note k = filterChannelEvent_facts(3)[OF v] and s = filter_queue_keys_subset[of c q]
  show ?case using Cons k s by (cases b) (auto simp: v split: if_splits)
qed simp

lemma filterLegacyStreamEvent_facts:
  assumes "filterLegacyStreamEvent c e = (c', e', allowed)"
  shows "c' = c\<lparr> c_legacyStreams := c_legacyStreams c' \<rparr>"
    "ev_Type e' = ev_Type e" "ev_RequestID e' = ev_RequestID e"
    "replacementKey e' = replacementKey e" "eventMessageChannel e' = eventMessageChannel e"
    "wf_event e \<Longrightarrow> wf_event e'" "visible c e \<Longrightarrow> visible c' e'"
proof -
  have sub: "legacy_primaries p ss = (p', ss') \<Longrightarrow> set ss' \<subseteq> set ss" for p ss p' ss'
    by (induction p ss arbitrary: p' ss' rule: legacy_primaries.induct)
      (auto simp: Let_def split: if_splits prod.splits)
  have *: "c' = c\<lparr> c_legacyStreams := c_legacyStreams c' \<rparr> \<and>
    (e' = e \<or> (\<exists>d ss. ev_Data e = DStreamSnapshotData d \<and> set ss \<subseteq> set (sn_Streams d) \<and>
       e' = e\<lparr> ev_Data := DStreamSnapshotData (d\<lparr> sn_Streams := ss \<rparr>), ev_encoding := nil \<rparr>))"
  proof (cases "c_multipleStreams c")
    case True
    then show ?thesis using assms by (simp add: filterLegacyStreamEvent_def)
  next
    case False
    show ?thesis
    proof (cases "ev_Data e")
      case (DStreamSnapshotData d)
      obtain p ss where ps: "legacy_primaries [] (sn_Streams d) = (p, ss)"
        by (cases "legacy_primaries [] (sn_Streams d)")
      show ?thesis
        using assms False DStreamSnapshotData sub[OF ps]
        by (auto simp: filterLegacyStreamEvent_def ps)
    next
      case (DStreamData d)
      then show ?thesis
        using assms False by (auto simp: filterLegacyStreamEvent_def Let_def split: if_splits)
    next
      case (DStreamStoppedData d)
      then show ?thesis
        using assms False by (auto simp: filterLegacyStreamEvent_def Let_def split: if_splits)
    next
      case (DStreamWatchingData d)
      then show ?thesis
        using assms False by (auto simp: filterLegacyStreamEvent_def)
    qed (use assms False in \<open>simp_all add: filterLegacyStreamEvent_def\<close>)
  qed
  show "c' = c\<lparr> c_legacyStreams := c_legacyStreams c' \<rparr>" using * by blast
  then have acc: "c_channelAccess c' = c_channelAccess c"
    by (rule ssubst[where P = "\<lambda>x. c_channelAccess x = c_channelAccess c"]) simp
  from * have e': "e' = e \<or> (is_snapshot (ev_Data e) \<and> is_snapshot (ev_Data e') \<and>
    ev_Type e' = ev_Type e \<and> ev_RequestID e' = ev_RequestID e \<and>
    set (event_channels (ev_Data e')) \<subseteq> set (event_channels (ev_Data e)))"
    by (auto simp: is_snapshot_def intro!: imageI)
  then show "ev_Type e' = ev_Type e" "ev_RequestID e' = ev_RequestID e" by blast+
  show "replacementKey e' = replacementKey e" "eventMessageChannel e' = eventMessageChannel e"
    "wf_event e \<Longrightarrow> wf_event e'"
    using e' by (elim disjE conjE; simp add: snapshot_keys)+
  show "visible c e \<Longrightarrow> visible c' e'"
    using e' by (auto simp: visible_def canAccessChannel_cong[OF acc])
qed

subsection \<open>The queue invariant\<close>

definition client_ok :: "Client \<Rightarrow> bool" where
  "client_ok c \<longleftrightarrow>
     length (c_outgoing c) \<le> outgoingBufferSize \<and> length (c_priority c) \<le> outgoingBufferSize \<and>
     (\<forall>e \<in> set (c_outgoing c). wf_event e) \<and>
     (\<forall>e \<in> set (c_outgoing c) \<union> set (c_priority c). visible c e) \<and>
     distinct (queue_keys (c_outgoing c))"

text \<open>What the operations on the lanes leave alone.\<close>

definition client_core where
  "client_core c = (c_channelAccess c, c_connectionID c, c_userID c, c_sessionKey c,
     c_messageSync c, c_multipleStreams c, c_done c, c_closeReason c,
     c_subscriptions c, c_servers c)"

lemma client_ok_core:
  assumes "client_ok c" "c_channelAccess c' = c_channelAccess c"
    "length (c_outgoing c') \<le> outgoingBufferSize" "length (c_priority c') \<le> outgoingBufferSize"
    "\<And>e. e \<in> set (c_outgoing c') \<Longrightarrow> wf_event e \<and> visible c e"
    "\<And>e. e \<in> set (c_priority c') \<Longrightarrow> visible c e"
    "distinct (queue_keys (c_outgoing c'))"
  shows "client_ok c'"
  using assms visible_cong[OF assms(2)] by (auto simp: client_ok_def)

lemma replaceChannelAccess_ok:
  assumes "client_ok c"
  shows "client_ok (replaceChannelAccess c ids)"
proof -
  let ?c = "c\<lparr> c_channelAccess := ids \<rparr>"
  show ?thesis
    using assms filter_queue_length[of ?c "c_outgoing c"] filter_queue_length[of ?c "c_priority c"]
      filter_queue_keys[of "c_outgoing c" ?c]
    by (auto simp: client_ok_def replaceChannelAccess_def Let_def
        dest: filter_queue_wf filter_queue_visible)
qed

lemma replaceChannelAccess_core:
  "client_core (replaceChannelAccess c ids) =
     client_core (c\<lparr> c_channelAccess := ids \<rparr>)"
  by (simp add: replaceChannelAccess_def client_core_def Let_def)


lemma first_index_Some:
  "first_index P xs = Some i \<Longrightarrow> i < length xs \<and> P (xs ! i) \<and> (\<forall>j < i. \<not> P (xs ! j))"
proof (induction xs arbitrary: i)
  case (Cons x xs)
  show ?case
  proof (cases "P x")
    case False
    with Cons.prems obtain k where k: "first_index P xs = Some k" "i = Suc k" by auto
    then show ?thesis using Cons.IH[OF k(1)] False by (auto simp: less_Suc_eq_0_disj)
  qed (use Cons.prems in simp)
qed simp

lemma first_index_None: "first_index P xs = None \<longleftrightarrow> (\<forall>x \<in> set xs. \<not> P x)"
  by (induction xs) auto

lemma sync_marker_facts [simp]:
  "replacementKey (sync_marker s ch) = []" "wf_event (sync_marker s ch)"
  "event_channels (ev_Data (sync_marker s ch)) = [ch]"
  "eventMessageChannel (sync_marker s ch) = 0"
  "transient (sync_marker s ch) = False"
  by (simp_all add: sync_marker_def mkEvent_def replacementKey_def wf_event_def
      eventMessageChannel_def transient_def event_types)

lemma eventMessageChannel_channels:
  "eventMessageChannel e = n \<Longrightarrow> n \<noteq> 0 \<Longrightarrow> event_channels (ev_Data e) = [n]"
  by (cases "ev_Data e") (auto simp: eventMessageChannel_def split: if_splits)

lemma compact_events_facts:
  assumes "compact_events s ch b q = (kept, ins)"
  shows "ins \<longleftrightarrow> b \<or> (\<exists>e \<in> set q. eventMessageChannel e = ch)"
    "queue_keys kept = queue_keys (filter (\<lambda>e. eventMessageChannel e \<noteq> ch) q)"
    "length kept \<le> length q"
    "\<forall>e \<in> set kept. e \<in> set q \<or> (e = sync_marker s ch \<and> ins \<and> \<not> b)"
    "\<forall>e \<in> set q. eventMessageChannel e \<noteq> ch \<longrightarrow> e \<in> set kept"
    "ins \<Longrightarrow> \<not> b \<Longrightarrow> sync_marker s ch \<in> set kept"
proof -
  have *: "(ins \<longleftrightarrow> b \<or> (\<exists>e \<in> set q. eventMessageChannel e = ch)) \<and>
    queue_keys kept = queue_keys (filter (\<lambda>e. eventMessageChannel e \<noteq> ch) q) \<and>
    length kept \<le> length q \<and>
    (\<forall>e \<in> set kept. e \<in> set q \<or> (e = sync_marker s ch \<and> ins \<and> \<not> b)) \<and>
    (\<forall>e \<in> set q. eventMessageChannel e \<noteq> ch \<longrightarrow> e \<in> set kept) \<and>
    (ins \<longrightarrow> \<not> b \<longrightarrow> sync_marker s ch \<in> set kept)"
    using assms
  proof (induction q arbitrary: b kept ins)
    case Nil
    then show ?case by auto
  next
    case (Cons e q)
    show ?case
    proof (cases "eventMessageChannel e = ch")
      case True
      obtain k i where k: "compact_events s ch True q = (k, i)"
        by (cases "compact_events s ch True q")
      show ?thesis using Cons.IH[OF k] Cons.prems True k by (cases b) auto
    next
      case False
      obtain k i where k: "compact_events s ch b q = (k, i)"
        by (cases "compact_events s ch b q")
      show ?thesis using Cons.IH[OF k] Cons.prems False k by (cases b) auto
    qed
  qed
  show "ins \<longleftrightarrow> b \<or> (\<exists>e \<in> set q. eventMessageChannel e = ch)"
    by (rule *[THEN conjunct1])
  show "queue_keys kept = queue_keys (filter (\<lambda>e. eventMessageChannel e \<noteq> ch) q)"
    by (rule *[THEN conjunct2, THEN conjunct1])
  show "length kept \<le> length q"
    by (rule *[THEN conjunct2, THEN conjunct2, THEN conjunct1])
  show "\<forall>e \<in> set kept. e \<in> set q \<or> (e = sync_marker s ch \<and> ins \<and> \<not> b)"
    by (rule *[THEN conjunct2, THEN conjunct2, THEN conjunct2, THEN conjunct1])
  show "\<forall>e \<in> set q. eventMessageChannel e \<noteq> ch \<longrightarrow> e \<in> set kept"
    by (rule *[THEN conjunct2, THEN conjunct2, THEN conjunct2, THEN conjunct2, THEN conjunct1])
  from * show "ins \<Longrightarrow> \<not> b \<Longrightarrow> sync_marker s ch \<in> set kept" by simp
qed

lemma queue_keys_filter: "distinct (queue_keys q) \<Longrightarrow> distinct (queue_keys (filter P q))"
proof (induction q)
  case (Cons e q)
  have "set (queue_keys (filter P q)) \<subseteq> set (queue_keys q)" by (auto simp: queue_keys_def)
  with Cons show ?case by (auto split: if_splits)
qed simp

text \<open>A critical event is none that the queue may drop or fold: not a transient alert, not a
  state update with a replacement key, not a message delta and not a catch-up marker.\<close>

definition critical :: "OutgoingEvent \<Rightarrow> bool" where
  "critical e \<longleftrightarrow> \<not> transient e \<and> replacementKey e = [] \<and> eventMessageChannel e \<le> 0 \<and>
     ev_Type e \<noteq> EventChannelSyncRequired"

definition marked :: "OutgoingEvent list \<Rightarrow> int \<Rightarrow> bool" where
  "marked q ch \<longleftrightarrow> (\<exists>m \<in> set q. ev_Type m = EventChannelSyncRequired \<and>
     (\<exists>d. ev_Data m = DChannelSubscriptionData d \<and> cs_ChannelID d = ch))"

lemma sync_marker_marks: "sync_marker s ch \<in> set q \<Longrightarrow> marked q ch"
  unfolding marked_def by (rule bexI[of _ "sync_marker s ch"]) (simp_all add: sync_marker_def mkEvent_def)

lemma sync_marker_not_critical [simp]: "\<not> critical (sync_marker s ch)"
  by (simp add: critical_def) (simp add: sync_marker_def mkEvent_def)

lemma sync_type_no_delta:
  "ev_Type m = EventChannelSyncRequired \<Longrightarrow> eventMessageChannel m = 0 \<and> \<not> transient m"
  by (simp add: eventMessageChannel_def transient_def event_types)

text \<open>\<open>lanes_le c c'\<close>: \<open>c'\<close> is \<open>c\<close> after dropping transient events of the ordinary lane or
  replacing message deltas by a catch-up marker for their channel.\<close>

definition lanes_le :: "Client \<Rightarrow> Client \<Rightarrow> bool" where
  "lanes_le c c' \<longleftrightarrow>
     client_core c' = client_core c \<and> c_priority c' = c_priority c \<and>
     c_outgoingReady c' = c_outgoingReady c \<and> length (c_outgoing c') \<le> length (c_outgoing c) \<and> (client_ok c \<longrightarrow> client_ok c') \<and>
     filter critical (c_outgoing c') = filter critical (c_outgoing c) \<and>
     (\<forall>e \<in> set (c_outgoing c). eventMessageChannel e > 0 \<longrightarrow> \<not> transient e \<longrightarrow>
        e \<in> set (c_outgoing c') \<or> marked (c_outgoing c') (eventMessageChannel e)) \<and>
     (\<forall>ch. marked (c_outgoing c) ch \<longrightarrow> marked (c_outgoing c') ch) \<and>
     set (queue_keys (c_outgoing c')) \<subseteq> set (queue_keys (c_outgoing c))"

lemma lanes_le_refl: "lanes_le c c"
  by (simp add: lanes_le_def)

lemma lanes_le_trans: "lanes_le a b \<Longrightarrow> lanes_le b c \<Longrightarrow> lanes_le a c"
  unfolding lanes_le_def by (elim conjE, intro conjI ballI impI allI) (auto; fail)+

lemma compact_events_critical:
  "compact_events s ch b q = (kept, ins) \<Longrightarrow> ch > 0 \<Longrightarrow> filter critical kept = filter critical q"
proof (induction q arbitrary: b kept ins)
  case (Cons e q)
  show ?case
  proof (cases "eventMessageChannel e = ch")
    case True
    then have "\<not> critical e" using Cons.prems(2) by (simp add: critical_def)
    moreover obtain k i where k: "compact_events s ch True q = (k, i)"
      by (cases "compact_events s ch True q")
    ultimately show ?thesis using Cons.IH[OF k Cons.prems(2)] Cons.prems(1) True k by (cases b) auto
  next
    case False
    obtain k i where k: "compact_events s ch b q = (k, i)"
      by (cases "compact_events s ch b q")
    show ?thesis using Cons.IH[OF k Cons.prems(2)] Cons.prems(1) False k by auto
  qed
qed simp

lemma compactChannel_lanes:
  assumes "compactChannel c ch = (c', compacted)" and ch: "ch > 0"
  shows "lanes_le c c'" "compacted \<Longrightarrow> marked (c_outgoing c') ch" "\<not> compacted \<Longrightarrow> c_outgoing c' = c_outgoing c"
proof -
  let ?s = "get_or 0 (c_subscriptions c) ch"
  have *: "lanes_le c c' \<and> (compacted \<longrightarrow> marked (c_outgoing c') ch) \<and>
    (\<not> compacted \<longrightarrow> c_outgoing c' = c_outgoing c)"
  proof (cases "\<not> c_messageSync c \<or> ?s \<le> 0")
    case True
    then have "compactChannel c ch = (c, False)" by (auto simp: compactChannel_def Let_def)
    then show ?thesis using assms(1) lanes_le_refl by simp
  next
    case False
    obtain k i where k: "compact_events ?s ch False (c_outgoing c) = (k, i)"
      by (cases "compact_events ?s ch False (c_outgoing c)")
    note f = compact_events_facts[OF k] and cr = compact_events_critical[OF k ch]
    have out: "c_outgoing c' = k" "c_priority c' = c_priority c" "client_core c' = client_core c"
      "c_outgoingReady c' = c_outgoingReady c"
      and cmp: "compacted = i" and acc: "c_channelAccess c' = c_channelAccess c"
      using assms(1) False by (auto simp: compactChannel_def k client_core_def Let_def split: if_splits)
    have none: "k = c_outgoing c" if "\<not> i"
    proof -
      have "compact_events ?s ch False q = (q, False)" if "\<forall>e \<in> set q. eventMessageChannel e \<noteq> ch" for q
        using that by (induction q) simp_all
      then have "compact_events ?s ch False (c_outgoing c) = (c_outgoing c, False)"
        using f(1) \<open>\<not> i\<close> by simp
      with k show ?thesis by simp
    qed
    have mark: "i \<Longrightarrow> marked k ch" using f(6) sync_marker_marks by simp
    have keys: "set (queue_keys k) \<subseteq> set (queue_keys (c_outgoing c))"
      unfolding f(2) by (auto simp: queue_keys_def)
    have delta: "e \<in> set k \<or> marked k (eventMessageChannel e)" if "e \<in> set (c_outgoing c)" for e
      using that f(1,5) mark by (cases "eventMessageChannel e = ch") auto
    have marks: "marked k ch'" if m: "marked (c_outgoing c) ch'" for ch'
    proof -
      from m obtain m d where md: "m \<in> set (c_outgoing c)" "ev_Type m = EventChannelSyncRequired"
        "ev_Data m = DChannelSubscriptionData d" "cs_ChannelID d = ch'" by (auto simp: marked_def)
      have "eventMessageChannel m \<noteq> ch" using sync_type_no_delta[OF md(2)] ch by simp
      then have "m \<in> set k" using f(5) md(1) by blast
      then show ?thesis unfolding marked_def using md by blast
    qed
    have ok: "client_ok c'" if o: "client_ok c"
    proof (rule client_ok_core[OF o acc])
      show "length (c_outgoing c') \<le> outgoingBufferSize" "length (c_priority c') \<le> outgoingBufferSize"
        using o f(3) out by (simp_all add: client_ok_def)
      show "\<And>e. e \<in> set (c_priority c') \<Longrightarrow> visible c e" using o out by (simp add: client_ok_def)
      show "distinct (queue_keys (c_outgoing c'))"
        using o queue_keys_filter unfolding out f(2) client_ok_def by blast
      fix e assume e: "e \<in> set (c_outgoing c')"
      then consider "e \<in> set (c_outgoing c)" | "e = sync_marker ?s ch" "i"
        using f(4) out by auto
      then show "wf_event e \<and> visible c e"
      proof cases
        case 1
        then show ?thesis using o by (auto simp: client_ok_def)
      next
        case 2
        then obtain q where q: "q \<in> set (c_outgoing c)" "eventMessageChannel q = ch" using f(1) by auto
        then have "visible c q" using o by (auto simp: client_ok_def)
        then show ?thesis using 2 q eventMessageChannel_channels[OF q(2)] ch by (simp add: visible_def)
      qed
    qed
    show ?thesis
      unfolding lanes_le_def out cmp using f(3) cr keys delta marks ok mark none by simp
  qed
  then show "lanes_le c c'" "compacted \<Longrightarrow> marked (c_outgoing c') ch"
    "\<not> compacted \<Longrightarrow> c_outgoing c' = c_outgoing c" by simp_all
qed

lemma compact_loop_lanes:
  "compact_loop ch is c = (c', returned) \<Longrightarrow>
     lanes_le c c' \<and> (returned \<longrightarrow> ch > 0 \<and> marked (c_outgoing c') ch)"
proof (induction "is" arbitrary: c)
  case Nil
  then show ?case by (simp add: lanes_le_refl)
next
  case (Cons i "is")
  let ?cand = "if i < length (c_outgoing c) then eventMessageChannel (c_outgoing c ! i) else 0"
  show ?case
  proof (cases "?cand > 0")
    case False
    then show ?thesis using Cons.IH Cons.prems by (auto simp: Let_def split: if_splits)
  next
    case True
    obtain c1 b where c1: "compactChannel c ?cand = (c1, b)" by (cases "compactChannel c ?cand")
    note l = compactChannel_lanes[OF c1 True]
    show ?thesis
      using Cons.prems Cons.IH[of c1] l lanes_le_trans[OF l(1)] True c1
      by (auto simp: Let_def split: if_splits)
  qed
qed

lemma evict_transient_lanes: "lanes_le c (evict_transient c)"
proof (cases "first_index transient (c_outgoing c)")
  case None
  then show ?thesis by (simp add: evict_transient_def lanes_le_refl)
next
  case (Some i)
  let ?q = "c_outgoing c" and ?k = "take i (c_outgoing c) @ drop (Suc i) (c_outgoing c)"
  note i = first_index_Some[OF Some]
  have split: "?q = take i ?q @ ?q ! i # drop (Suc i) ?q" using i by (simp add: id_take_nth_drop)
  have evict: "evict_transient c = c\<lparr> c_outgoing := ?k \<rparr>" using Some by (simp add: evict_transient_def)
  have nc: "\<not> critical (?q ! i)" using i by (simp add: critical_def)
  have sub: "set ?k \<subseteq> set ?q" using set_take_subset[of i ?q] set_drop_subset[of "Suc i" ?q] by auto
  have cr: "filter critical ?k = filter critical ?q" by (subst (3) split) (simp add: nc)
  have keys: "set (queue_keys ?k) \<subseteq> set (queue_keys ?q)" "distinct (queue_keys ?q) \<Longrightarrow> distinct (queue_keys ?k)"
    using arg_cong[OF split, of queue_keys] by (auto split: if_splits)
  have kept: "e \<in> set ?k" if "e \<in> set ?q" "\<not> transient e" for e
    using that i by (subst (asm) split) auto
  have marks: "marked ?q ch \<Longrightarrow> marked ?k ch" for ch
    unfolding marked_def using kept sync_type_no_delta by meson
  have "client_ok c \<Longrightarrow> client_ok (c\<lparr> c_outgoing := ?k \<rparr>)"
    using sub keys(2) i by (auto simp: client_ok_def)
  then show ?thesis
    unfolding lanes_le_def evict using cr keys(1) kept marks i by (simp add: client_core_def)
qed

text \<open>An event that is appended keeps the queue invariant when its replacement key is not
  queued.\<close>

lemma append_ok:
  assumes "client_ok c" "length (c_outgoing c) < outgoingBufferSize" "wf_event e" "visible c e"
    "replacementKey e \<notin> set (queue_keys (c_outgoing c))"
  shows "client_ok (c\<lparr> c_outgoing := c_outgoing c @ [e] \<rparr>)"
  using assms by (auto simp: client_ok_def)

lemma enqueue_full_cases:
  assumes "enqueue_full c e = (c', accepted)"
  obtains (transient) "transient e" "c' = c" "accepted"
  | (compacted) "lanes_le c c'" "accepted" "eventMessageChannel e > 0"
      "marked (c_outgoing c') (eventMessageChannel e)"
  | (rejected) "lanes_le c c'" "\<not> accepted" "length (c_outgoing c') = outgoingBufferSize"
  | (appended) c1 where "lanes_le c c1" "accepted" "length (c_outgoing c1) \<noteq> outgoingBufferSize"
      "c' = c1\<lparr> c_outgoing := c_outgoing c1 @ [e] \<rparr>"
proof -
  define full where "full c \<longleftrightarrow> length (c_outgoing c) = outgoingBufferSize" for c :: Client
  define c1 where "c1 = (if full c then evict_transient c else c)"
  have l1: "lanes_le c c1" using evict_transient_lanes lanes_le_refl by (simp add: c1_def)
  obtain c2 r where c2: "(if full c1 then compact_loop (eventMessageChannel e) [0 ..< outgoingBufferSize] c1
    else (c1, False)) = (c2, r)" by fastforce
  have l2: "lanes_le c1 c2 \<and> (r \<longrightarrow> eventMessageChannel e > 0 \<and> marked (c_outgoing c2) (eventMessageChannel e))"
    using c2 compact_loop_lanes lanes_le_refl by (auto split: if_splits)
  have l: "lanes_le c c2" using l1 l2 lanes_le_trans by blast
  have res: "(c', accepted) = (if full c \<and> transient e then (c, True) else if r then (c2, True)
    else if full c2 then (c2, False) else (c2\<lparr> c_outgoing := c_outgoing c2 @ [e] \<rparr>, True))"
    using assms c2 unfolding enqueue_full_def c1_def full_def by (auto simp: Let_def split: if_splits)
  show thesis
    using res that l l2 unfolding full_def by (auto split: if_splits)
qed


subsection \<open>Replacement keys\<close>

text \<open>What a replacement key stands for.\<close>

datatype subject =
    Notification int | NotificationSettings int | Reactions int | Presence int int
  | ReadMark int int | Activity int | Typing int int

definition subject_of :: "OutgoingEvent \<Rightarrow> subject option" where
  "subject_of e =
     (if ev_RequestID e \<noteq> [] then None
      else case (EventChannelID (ev_Data e), ev_Type e = EventNotificationMessage,
                 ev_Type e = EventNotificationSettingsUpdated) of
        (Some ch, True, _) \<Rightarrow> Some (Notification ch)
      | (Some ch, False, True) \<Rightarrow> Some (NotificationSettings ch)
      | _ \<Rightarrow>
       (case ev_Data e of
          DReactionsData v \<Rightarrow> Some (Reactions (rd_MessageID v))
        | DPresenceUpdatedData v \<Rightarrow> (if ev_Type e = EventPresenceUpdated
            then Some (Presence (pu_ServerID v) (pu_UserID v)) else None)
        | DChannelReadData v \<Rightarrow> (if ev_Type e = EventChannelRead
            then Some (ReadMark (rx_ChannelID v) (rx_UserID v)) else None)
        | DChannelActivityData v \<Rightarrow> Some (Activity (ca_ChannelID v))
        | DTypingData v \<Rightarrow> (if ev_Type e = EventTyping
            then Some (Typing (ty_ChannelID v) (ty_UserID v)) else None)
        | _ \<Rightarrow> None))"

fun subject_key :: "subject \<Rightarrow> string" where
  "subject_key (Notification ch) = ''notification/'' @ fmt_d ch"
| "subject_key (NotificationSettings ch) = ''notification-settings/'' @ fmt_d ch"
| "subject_key (Reactions m) = ''reactions/'' @ fmt_d m"
| "subject_key (Presence s u) = ''presence/'' @ fmt_d s @ ''/'' @ fmt_d u"
| "subject_key (ReadMark ch u) = ''read/'' @ fmt_d ch @ ''/'' @ fmt_d u"
| "subject_key (Activity ch) = ''activity/'' @ fmt_d ch"
| "subject_key (Typing ch u) = ''typing/'' @ fmt_d ch @ ''/'' @ fmt_d u"

lemma subject_key_inj: "subject_key a = subject_key b \<longleftrightarrow> a = b"
  by (cases a; cases b) (simp_all add: append_sep_eq)

lemma replacementKey_subject:
  "replacementKey e = (case subject_of e of None \<Rightarrow> [] | Some s \<Rightarrow> subject_key s)"
  by (cases "ev_Data e") (simp_all add: replacementKey_def subject_of_def)

lemma subject_key_not_Nil [simp]: "subject_key s \<noteq> []" "[] \<noteq> subject_key s"
  by (cases s; simp)+

lemma replacementKey_eq_iff:
  "replacementKey e \<noteq> [] \<and> replacementKey q = replacementKey e \<longleftrightarrow>
     (\<exists>s. subject_of e = Some s \<and> subject_of q = Some s)"
  by (auto simp: replacementKey_subject subject_key_inj split: option.splits)

lemma subject_of_reads:
  assumes "subject_of e = subject_of q" "subject_of e \<noteq> None" "ev_Data q = DChannelReadData d"
  shows "\<exists>d'. ev_Data e = DChannelReadData d'"
  using assms by (cases "ev_Data e") (auto simp: subject_of_def split: if_splits bool.splits)


subsection \<open>Enqueueing\<close>

definition media :: "OutgoingEvent \<Rightarrow> bool" where
  "media e \<longleftrightarrow> has_prefix (ev_Type e) ''voice.'' \<or> has_prefix (ev_Type e) ''stream.''"

text \<open>\<open>supersedes q e\<close>: the queued \<open>q\<close> carries a newer state of the subject of \<open>e\<close>.\<close>

definition supersedes :: "OutgoingEvent \<Rightarrow> OutgoingEvent \<Rightarrow> bool" where
  "supersedes q e \<longleftrightarrow> replacementKey q = replacementKey e \<and>
     (case (ev_Data q, ev_Data e) of
        (DReactionsData p, DReactionsData n) \<Rightarrow> rd_Revision n < rd_Revision p
      | (DChannelReadData p, DChannelReadData n) \<Rightarrow> rx_LastReadMessageID n < rx_LastReadMessageID p
      | _ \<Rightarrow> False)"

text \<open>\<open>newer q' q\<close>: both carry the reactions to one message, \<open>q'\<close> at least as recent ones.\<close>

definition newer :: "OutgoingEvent \<Rightarrow> OutgoingEvent \<Rightarrow> bool" where
  "newer q' q \<longleftrightarrow>
     (case (ev_Data q', ev_Data q) of
        (DReactionsData p, DReactionsData n) \<Rightarrow> rd_MessageID p = rd_MessageID n \<and> rd_Revision n \<le> rd_Revision p
      | _ \<Rightarrow> False)"

lemma keyed_delta:
  assumes "eventMessageChannel q > 0" "replacementKey q \<noteq> []" "replacementKey q' = replacementKey q"
  obtains p n where "ev_Data q' = DReactionsData p" "ev_Data q = DReactionsData n" "rd_MessageID p = rd_MessageID n"
proof -
  obtain s where s: "subject_of q = Some s" "subject_of q' = Some s" using assms(2,3) replacementKey_eq_iff[of q q'] by blast
  obtain n where n: "ev_Data q = DReactionsData n" "s = Reactions (rd_MessageID n)"
    using assms(1) s(1) by (auto simp: eventMessageChannel_def subject_of_def event_types split: if_splits event_data.splits option.splits)
  then obtain p where "ev_Data q' = DReactionsData p" "rd_MessageID p = rd_MessageID n"
    using s(2) by (cases "ev_Data q'") (auto simp: subject_of_def split: if_splits option.splits bool.splits)
  with n(1) that show ?thesis by blast
qed

lemma superseded_newer:
  assumes "supersedes q e" "replacementKey e \<noteq> []" "eventMessageChannel e > 0"
  shows "newer q e"
proof -
  have "replacementKey q = replacementKey e" using assms(1) by (simp add: supersedes_def)
  then obtain p n where "ev_Data q = DReactionsData p" "ev_Data e = DReactionsData n" "rd_MessageID p = rd_MessageID n"
    by (rule keyed_delta[OF assms(3,2)])
  with assms(1) show ?thesis by (simp add: newer_def supersedes_def)
qed

lemma replaced_newer:
  assumes "\<not> supersedes q e" "replacementKey e = replacementKey q" "replacementKey q \<noteq> []" "eventMessageChannel q > 0"
  shows "newer e q"
proof -
  obtain p n where "ev_Data e = DReactionsData p" "ev_Data q = DReactionsData n" "rd_MessageID p = rd_MessageID n"
    by (rule keyed_delta[OF assms(4,3,2)])
  with assms(1,2) show ?thesis by (simp add: newer_def supersedes_def)
qed

lemma delta_not_transient: "eventMessageChannel e \<noteq> 0 \<Longrightarrow> \<not> transient e"
  by (auto simp: eventMessageChannel_def transient_def event_types split: if_splits)

lemma replace_queued_cases:
  assumes "replacementKey e \<noteq> []"
    and "first_index (\<lambda>q. replacementKey q = replacementKey e) (c_outgoing c) = Some i"
  shows "(replace_queued c i e = Some (coalesced c, True) \<and> supersedes (c_outgoing c ! i) e) \<or>
    (replace_queued c i e = Some ((coalesced c)\<lparr> c_outgoing := (c_outgoing c)[i := e] \<rparr>, True) \<and>
     \<not> supersedes (c_outgoing c ! i) e)"
proof -
  let ?q = "c_outgoing c ! i"
  have key: "replacementKey ?q = replacementKey e" using first_index_Some[OF assms(2)] by simp
  then obtain s where s: "subject_of e = Some s" "subject_of ?q = Some s"
    using assms(1) replacementKey_eq_iff[of e ?q] by blast
  show ?thesis
  proof (cases "ev_Data ?q")
    case (DChannelReadData p)
    then obtain n where n: "ev_Data e = DChannelReadData n"
      using subject_of_reads[of e ?q p] s by auto
    show ?thesis using DChannelReadData n key by (simp add: replace_queued_def supersedes_def)
  next
    case (DReactionsData p)
    then show ?thesis using key
      by (cases "ev_Data e") (simp_all add: replace_queued_def supersedes_def)
  qed (simp_all add: replace_queued_def supersedes_def)
qed

lemma sync_queued_Some:
  "\<forall>e \<in> set q. wf_event e \<Longrightarrow> \<exists>b. sync_queued ch q = Some b \<and> (b \<longleftrightarrow> marked q ch)"
  by (induction q) (auto simp: wf_event_def marked_def)

lemma coalesced_facts [simp]:
  "c_outgoing (coalesced c) = c_outgoing c" "c_priority (coalesced c) = c_priority c"
  "c_outgoingReady (coalesced c) = c_outgoingReady c"
  "client_core (coalesced c) = client_core c" "client_ok (coalesced c) = client_ok c"
  "visible (coalesced c) = visible c"
  by (simp_all add: coalesced_def client_core_def client_ok_def)

lemma client_core_lanes [simp]:
  "client_core (c\<lparr> c_outgoing := q \<rparr>) = client_core c"
  "client_core (c\<lparr> c_priority := q \<rparr>) = client_core c"
  by (simp_all add: client_core_def)

lemma replace_ok:
  assumes "client_ok c" "i < length (c_outgoing c)" "wf_event e" "visible c e"
    "replacementKey (c_outgoing c ! i) = replacementKey e"
  shows "client_ok (c\<lparr> c_outgoing := (c_outgoing c)[i := e] \<rparr>)"
proof -
  have "map replacementKey ((c_outgoing c)[i := e]) = map replacementKey (c_outgoing c)"
    using assms(2,5) by (simp add: map_update list_update_same_conv)
  then have "queue_keys ((c_outgoing c)[i := e]) = queue_keys (c_outgoing c)"
    unfolding queue_keys_def by simp
  then show ?thesis
    using assms set_update_subset_insert[of "c_outgoing c" i e]
    by (auto simp: client_ok_def)
qed

definition lane_result :: "Client \<Rightarrow> OutgoingEvent \<Rightarrow> Client \<Rightarrow> bool \<Rightarrow> bool" where
  "lane_result c e c' accepted \<longleftrightarrow>
     client_ok c' \<and> client_core c' = client_core c \<and> c_outgoingReady c' = c_outgoingReady c \<and>
     (\<not> accepted \<longrightarrow> length (c_outgoing c') \<le> length (c_outgoing c)) \<and>
     (media e \<longrightarrow> c_outgoing c' = c_outgoing c \<and>
        c_priority c' = c_priority c @ (if accepted then [e] else [])) \<and>
     (\<not> media e \<longrightarrow> c_priority c' = c_priority c \<and>
        filter critical (c_outgoing c') =
          filter critical (c_outgoing c) @ (if accepted \<and> critical e then [e] else []) \<and>
        (\<forall>q. (q \<in> set (c_outgoing c) \<or> accepted \<and> q = e) \<longrightarrow> eventMessageChannel q > 0 \<longrightarrow>
           q \<in> set (c_outgoing c') \<or> marked (c_outgoing c') (eventMessageChannel q) \<or>
           (\<exists>q' \<in> set (c_outgoing c'). newer q' q)))"


lemma keyed_not_critical: "replacementKey e \<noteq> [] \<Longrightarrow> \<not> critical e"
  by (simp add: critical_def)

lemma lane_result_replaced:
  assumes ok: "client_ok c" and e: "wf_event e" "visible c e" "\<not> media e" and k: "replacementKey e \<noteq> []"
    and i: "first_index (\<lambda>q. replacementKey q = replacementKey e) (c_outgoing c) = Some i"
    and r: "replace_queued c i e = Some (c', accepted)"
  shows "lane_result c e c' accepted"
proof -
  let ?q = "c_outgoing c ! i"
  note fi = first_index_Some[OF i]
  have mem: "?q \<in> set (c_outgoing c)" using fi by simp
  from replace_queued_cases[OF k i] r consider
      (kept) "c' = coalesced c" "accepted" "supersedes ?q e"
    | (repl) "c' = (coalesced c)\<lparr> c_outgoing := (c_outgoing c)[i := e] \<rparr>" "accepted" "\<not> supersedes ?q e"
    by auto
  then show ?thesis
  proof cases
    case kept
    have "newer ?q e" if "eventMessageChannel e > 0" using superseded_newer[OF kept(3) k that] .
    then show ?thesis
      using kept ok e(3) keyed_not_critical[OF k] mem by (auto simp: lane_result_def)
  next
    case repl
    let ?out = "c_outgoing c"
    have ok': "client_ok c'"
      using replace_ok[of "coalesced c" i e] ok fi e repl by simp
    have split: "?out = take i ?out @ ?q # drop (Suc i) ?out"
      using fi by (simp add: id_take_nth_drop)
    have upd: "?out[i := e] = take i ?out @ e # drop (Suc i) ?out"
      using fi by (simp add: upd_conv_take_nth_drop)
    have "\<not> critical ?q" using fi k by (simp add: critical_def)
    then have cr: "filter critical (?out[i := e]) = filter critical ?out"
      unfolding upd using arg_cong[OF split, of "filter critical"] keyed_not_critical[OF k] by simp
    have mem': "e \<in> set (?out[i := e])" using fi by (simp add: set_update_memI)
    have newer: "newer e ?q" if "eventMessageChannel ?q > 0" using replaced_newer[OF repl(3) _ _ that] fi k by simp
    have cover: "q \<in> set (?out[i := e]) \<or> (\<exists>q' \<in> set (?out[i := e]). newer q' q)"
      if "q \<in> set ?out" "eventMessageChannel q > 0" for q
    proof (cases "q = ?q")
      case True
      then show ?thesis using newer that(2) mem' by blast
    next
      case False
      have "set ?out = set (take i ?out) \<union> {?q} \<union> set (drop (Suc i) ?out)" using arg_cong[OF split, of set] by auto
      then show ?thesis using False that(1) by (auto simp: upd)
    qed
    then show ?thesis
      using ok' repl e(3) cr mem' k keyed_not_critical[OF k] by (auto simp: lane_result_def)
  qed
qed

lemma lanes_le_result:
  assumes "lanes_le c c'" "client_ok c" "\<not> media e"
    and "accepted \<Longrightarrow> \<not> critical e"
    and "accepted \<Longrightarrow> eventMessageChannel e > 0 \<Longrightarrow> marked (c_outgoing c') (eventMessageChannel e)"
  shows "lane_result c e c' accepted"
  using assms delta_not_transient by (auto simp: lanes_le_def lane_result_def)

lemma enqueue_full_result:
  assumes ok: "client_ok c" and e: "wf_event e" "visible c e" "\<not> media e"
    and k: "replacementKey e \<notin> set (queue_keys (c_outgoing c))"
    and r: "enqueue_full c e = (c', accepted)"
  shows "lane_result c e c' accepted"
  using r
proof (cases rule: enqueue_full_cases)
  case transient
  then have "eventMessageChannel e = 0" using delta_not_transient by blast
  then show ?thesis
    using transient lanes_le_result[OF lanes_le_refl ok e(3)] by (simp add: critical_def)
next
  case compacted
  then show ?thesis by (intro lanes_le_result) (simp_all add: ok e critical_def)
next
  case rejected
  then show ?thesis by (intro lanes_le_result) (simp_all add: ok e)
next
  case (appended c1)
  from appended(1) ok have c1: "client_ok c1" "client_core c1 = client_core c"
    "c_priority c1 = c_priority c" "filter critical (c_outgoing c1) = filter critical (c_outgoing c)"
    "c_outgoingReady c1 = c_outgoingReady c"
    "set (queue_keys (c_outgoing c1)) \<subseteq> set (queue_keys (c_outgoing c))"
    by (simp_all add: lanes_le_def)
  have acc: "c_channelAccess c1 = c_channelAccess c" using c1(2) by (simp add: client_core_def)
  have len: "length (c_outgoing c1) < outgoingBufferSize"
    using c1(1) appended(3) by (simp add: client_ok_def)
  have "client_ok c'"
    unfolding appended(4)
    using append_ok[OF c1(1) len e(1)] e(2) visible_cong[OF acc] k c1(6) by auto
  moreover have "\<forall>q \<in> set (c_outgoing c). eventMessageChannel q > 0 \<longrightarrow>
      q \<in> set (c_outgoing c1) \<or> marked (c_outgoing c1) (eventMessageChannel q)"
    using appended(1) delta_not_transient by (auto simp: lanes_le_def)
  moreover have "marked (c_outgoing c1) ch \<Longrightarrow> marked (c_outgoing c1 @ [e]) ch" for ch
    by (auto simp: marked_def)
  ultimately show ?thesis
    using c1 e(3) appended(2) by (auto simp: lane_result_def appended(4))
qed

lemma enqueueLocked_result:
  assumes ok: "client_ok c" and e: "wf_event e" "visible c e"
  shows "\<exists>c' accepted. enqueueLocked c e = Some (c', accepted) \<and> lane_result c e c' accepted"
proof (cases "media e")
  case True
  then show ?thesis
    using ok e by (auto simp: enqueueLocked_def media_def lane_result_def client_ok_def client_core_def)
next
  case False
  let ?k = "replacementKey e" and ?ch = "eventMessageChannel e"
  have nm: "\<not> (has_prefix (ev_Type e) ''voice.'' \<or> has_prefix (ev_Type e) ''stream.'')"
    using False by (simp add: media_def)
  define ix where "ix = (if ?k \<noteq> [] then first_index (\<lambda>q. replacementKey q = ?k) (c_outgoing c) else None)"
  show ?thesis
  proof (cases ix)
    case (Some i)
    then have i: "?k \<noteq> []" "first_index (\<lambda>q. replacementKey q = ?k) (c_outgoing c) = Some i"
      by (auto simp: ix_def split: if_splits)
    obtain c' a where r: "replace_queued c i e = Some (c', a)"
      using replace_queued_cases[OF i] by auto
    have "enqueueLocked c e = Some (c', a)"
      using nm Some r unfolding enqueueLocked_def ix_def by (simp add: Let_def)
    then show ?thesis using lane_result_replaced[OF ok e False i r] by blast
  next
    case None
    have k: "?k \<notin> set (queue_keys (c_outgoing c))"
      using None by (auto simp: ix_def queue_keys_def first_index_None split: if_splits)
    have "\<forall>q \<in> set (c_outgoing c). wf_event q" using ok by (simp add: client_ok_def)
    then obtain b where b: "sync_queued ?ch (c_outgoing c) = Some b" "b \<longleftrightarrow> marked (c_outgoing c) ?ch"
      using sync_queued_Some by blast
    have eq: "enqueueLocked c e = (if ?ch > 0 \<and> b then Some (coalesced c, True) else Some (enqueue_full c e))"
      using nm None b(1) unfolding enqueueLocked_def ix_def by (simp add: Let_def split: bool.splits)
    show ?thesis
    proof (cases "?ch > 0 \<and> b")
      case True
      then have "lane_result c e (coalesced c) True"
        using ok False b(2) by (auto simp: lane_result_def critical_def)
      then show ?thesis using eq True by auto
    next
      case f: False
      obtain c' a where r: "enqueue_full c e = (c', a)" by (cases "enqueue_full c e")
      show ?thesis using eq f r enqueue_full_result[OF ok e False k r] by auto
    qed
  qed
qed


lemma lane_result_critical:
  "lane_result c e c' accepted \<Longrightarrow>
     filter critical (c_outgoing c') = filter critical (c_outgoing c) @
       (if accepted \<and> critical e \<and> \<not> media e then [e] else []) \<and>
     c_priority c' = c_priority c @ (if accepted \<and> media e then [e] else [])"
  by (cases "media e") (simp_all add: lane_result_def)

text \<open>The event a client gets to see of an event sent to it, if any.\<close>

definition admitted :: "Client \<Rightarrow> OutgoingEvent \<Rightarrow> OutgoingEvent option" where
  "admitted c e =
     (let (e1, a1) = filterChannelEvent c e;
          (c1, e2, a2) = (if a1 then filterLegacyStreamEvent c e1 else (c, e1, False)) in
      if a2 then Some e2 else None)"

lemma enqueue_lanes:
  assumes ok: "client_ok c" and e: "wf_event e" and nd: "\<not> c_done c"
  shows "\<exists>c' accepted. enqueue c e = Some (c', accepted) \<and>
    client_ok c' \<and> client_core c' = client_core c \<and> (accepted \<longrightarrow> c_outgoingReady c' \<or> admitted c e = None) \<and>
    (c_outgoingReady c \<longrightarrow> c_outgoingReady c') \<and>
    (case admitted c e of
       None \<Rightarrow> accepted \<and> c_outgoing c' = c_outgoing c \<and> c_priority c' = c_priority c \<and>
               c_outgoingReady c' = c_outgoingReady c
     | Some e2 \<Rightarrow> (\<exists>c1 c2. c_outgoing c1 = c_outgoing c \<and> c_priority c1 = c_priority c \<and>
          c_outgoing c2 = c_outgoing c' \<and> c_priority c2 = c_priority c' \<and>
          lane_result c1 e2 c2 accepted))"
proof -
  obtain e1 a1 where f1: "filterChannelEvent c e = (e1, a1)" by (cases "filterChannelEvent c e")
  show ?thesis
  proof (cases a1)
    case f: False
    then show ?thesis
      using ok nd by (intro exI[of _ c] exI[of _ True]) (simp add: enqueue_def admitted_def f1)
  next
    case True
    obtain c1 e2 a2 where f2: "filterLegacyStreamEvent c e1 = (c1, e2, a2)"
      by (cases "filterLegacyStreamEvent c e1")
    note l = filterLegacyStreamEvent_facts[OF f2] and g = filterChannelEvent_facts[OF f1]
    have core: "client_core (c\<lparr> c_legacyStreams := x \<rparr>) = client_core c"
      "client_ok (c\<lparr> c_legacyStreams := x \<rparr>) = client_ok c" for x
      by (simp_all add: client_core_def client_ok_def)
    have c1: "client_core c1 = client_core c" "client_ok c1" "c_outgoing c1 = c_outgoing c"
      "c_priority c1 = c_priority c" "c_outgoingReady c1 = c_outgoingReady c"
      by (subst l(1), simp add: core ok)+
    have e2: "wf_event e2" "visible c1 e2" using l(6,7) g(5,6) e True by blast+
    obtain c2 a where r: "enqueueLocked c1 e2 = Some (c2, a)" "lane_result c1 e2 c2 a"
      using enqueueLocked_result[OF c1(2) e2] by blast
    have c2: "client_ok c2" "client_core c2 = client_core c"
      using r(2) c1 by (auto simp: lane_result_def)
    show ?thesis
    proof (cases a2)
      case f: False
      then show ?thesis
        using nd c1 by (intro exI[of _ c1] exI[of _ True]) (simp add: enqueue_def admitted_def f1 True f2)
    next
      case t: True
      define c3 where "c3 = (if a then notifyOutgoing
          (if length (c_outgoing c2) + length (c_priority c2) > c_queueHighWater c2
           then c2\<lparr> c_queueHighWater := length (c_outgoing c2) + length (c_priority c2) \<rparr> else c2)
        else c2\<lparr> c_queueFullLogged := True \<rparr>)"
      have en: "enqueue c e = Some (c3, a)"
        using nd by (cases a) (simp_all add: enqueue_def f1 True f2 t r(1) Let_def c3_def)
      have "client_ok c3" "client_core c3 = client_core c" "c_outgoing c3 = c_outgoing c2"
        "c_priority c3 = c_priority c2" "a \<Longrightarrow> c_outgoingReady c3"
        "c_outgoingReady c \<Longrightarrow> c_outgoingReady c3"
        using c2 r(2) c1(5) by (auto simp: c3_def notifyOutgoing_def client_ok_def client_core_def lane_result_def)
      moreover have "admitted c e = Some e2" by (simp add: admitted_def f1 True f2 t)
      ultimately show ?thesis using en r(2) c1 by auto
    qed
  qed
qed

lemma enqueue_facts:
  assumes "client_ok c" and "wf_event e"
  shows "\<exists>c' accepted. enqueue c e = Some (c', accepted) \<and> client_ok c' \<and>
    client_core c' = client_core c \<and> (c_done c \<longrightarrow> \<not> accepted \<and> c' = c)"
proof (cases "c_done c")
  case True
  then show ?thesis using assms by (intro exI[of _ c] exI[of _ False]) (simp add: enqueue_def)
next
  case False
  then show ?thesis using enqueue_lanes[OF assms False] by blast
qed

lemma PopOutgoing_ok: "client_ok c \<Longrightarrow> client_ok (fst (PopOutgoing c))"
  by (auto simp: PopOutgoing_def Let_def notifyOutgoing_def client_ok_def split: list.splits if_splits)

lemma PopOutgoing_core [simp]: "client_core (fst (PopOutgoing c)) = client_core c"
  by (simp add: PopOutgoing_def Let_def notifyOutgoing_def client_core_def split: list.splits)

subsection \<open>Producers and the writer goroutine\<close>

text \<open>The writer (\<^verbatim>\<open>writeLoopWithPings\<close>) waits for \<^verbatim>\<open>outgoingReady\<close> and then pops one event;
  producers, subscriptions and access reloads run between any two of its steps.\<close>

datatype writer = Waiting | Popping

inductive queue_step :: "Client \<times> writer \<Rightarrow> Client \<times> writer \<Rightarrow> bool" where
  send: "wf_event e \<Longrightarrow> enqueue c e = Some (c', accepted) \<Longrightarrow> queue_step (c, w) (c', w)"
| access: "queue_step (c, w) (replaceChannelAccess c ids, w)"
| ready: "c_outgoingReady c \<Longrightarrow>
    queue_step (c, Waiting) (c\<lparr> c_outgoingReady := False \<rparr>, Popping)"
| pop: "PopOutgoing c = (c', r) \<Longrightarrow> queue_step (c, Popping) (c', Waiting)"
| closing: "queue_step (c, w) (CloseWithReason c reason, w)"
| subscribe: "queue_step (c, w) (addSubscription c serverID channelID, w)"
| unsubscribe: "queue_step (c, w) (removeSubscription c channelID, w)"
| message_sync: "queue_step (c, w) (EnableMessageSync c, w)"
| multiple_streams: "queue_step (c, w) (EnableMultipleStreams c, w)"
| join_server: "queue_step (c, w) (fst (addServer c serverID), w)"
| leave_server: "queue_step (c, w) (fst (removeServer c serverID), w)"

inductive queue_reachable :: "Client \<times> writer \<Rightarrow> bool" where
  init: "queue_reachable (snd (NewClient sha256 trimSpace n userID token serverIDs), Waiting)"
| step: "queue_reachable s \<Longrightarrow> queue_step s s' \<Longrightarrow> queue_reachable s'"

definition pending :: "Client \<Rightarrow> nat" where
  "pending c = length (c_outgoing c) + length (c_priority c)"

definition queue_inv :: "Client \<times> writer \<Rightarrow> bool" where
  "queue_inv s \<longleftrightarrow> client_ok (fst s) \<and>
     (pending (fst s) > 0 \<longrightarrow> c_outgoingReady (fst s) \<or> snd s = Popping)"

lemma NewClient_facts [simp]:
  "client_ok (snd (NewClient sha trim n u t ss))"
  "c_outgoing (snd (NewClient sha trim n u t ss)) = []"
  "c_priority (snd (NewClient sha trim n u t ss)) = []"
  by (simp_all add: NewClient_def newConnectionID_def Let_def client_ok_def)

lemma client_state_updates [simp]:
  "client_ok (CloseWithReason c r) = client_ok c" "client_ok (addSubscription c s ch) = client_ok c"
  "client_ok (removeSubscription c ch) = client_ok c" "client_ok (EnableMessageSync c) = client_ok c"
  "client_ok (EnableMultipleStreams c) = client_ok c" "client_ok (fst (addServer c s)) = client_ok c"
  "client_ok (fst (removeServer c s)) = client_ok c"
  "client_ok (c\<lparr> c_outgoingReady := b \<rparr>) = client_ok c"
  by (simp_all add: client_ok_def CloseWithReason_def addSubscription_def removeSubscription_def
      EnableMessageSync_def EnableMultipleStreams_def addServer_def removeServer_def)

lemma client_state_updates_lanes [simp]:
  "pending (CloseWithReason c r) = pending c" "c_outgoingReady (CloseWithReason c r) = c_outgoingReady c"
  "pending (addSubscription c s ch) = pending c" "c_outgoingReady (addSubscription c s ch) = c_outgoingReady c"
  "pending (removeSubscription c ch) = pending c" "c_outgoingReady (removeSubscription c ch) = c_outgoingReady c"
  "pending (EnableMessageSync c) = pending c" "c_outgoingReady (EnableMessageSync c) = c_outgoingReady c"
  "pending (EnableMultipleStreams c) = pending c" "c_outgoingReady (EnableMultipleStreams c) = c_outgoingReady c"
  "pending (fst (addServer c s)) = pending c" "c_outgoingReady (fst (addServer c s)) = c_outgoingReady c"
  "pending (fst (removeServer c s)) = pending c" "c_outgoingReady (fst (removeServer c s)) = c_outgoingReady c"
  "pending (c\<lparr> c_outgoingReady := b \<rparr>) = pending c"
  by (simp_all add: pending_def CloseWithReason_def addSubscription_def removeSubscription_def
      EnableMessageSync_def EnableMultipleStreams_def addServer_def removeServer_def)

lemma queue_inv_send:
  assumes inv: "queue_inv (c, w)" and e: "wf_event e" and s: "enqueue c e = Some (c', accepted)"
  shows "queue_inv (c', w)"
proof (cases "c_done c")
  case True
  then show ?thesis using inv s by (simp add: enqueue_def)
next
  case False
  have ok: "client_ok c" using inv by (simp add: queue_inv_def)
  from enqueue_lanes[OF ok e False] s have l: "client_ok c'"
    "accepted \<longrightarrow> c_outgoingReady c' \<or> admitted c e = None" "c_outgoingReady c \<longrightarrow> c_outgoingReady c'"
    "case admitted c e of
       None \<Rightarrow> accepted \<and> c_outgoing c' = c_outgoing c \<and> c_priority c' = c_priority c \<and>
               c_outgoingReady c' = c_outgoingReady c
     | Some e2 \<Rightarrow> (\<exists>c1 c2. c_outgoing c1 = c_outgoing c \<and> c_priority c1 = c_priority c \<and>
          c_outgoing c2 = c_outgoing c' \<and> c_priority c2 = c_priority c' \<and>
          lane_result c1 e2 c2 accepted)" by auto
  have "pending c > 0" if "pending c' > 0" "\<not> c_outgoingReady c'"
  proof (cases "admitted c e")
    case None
    then show ?thesis using l(4) that by (simp add: pending_def)
  next
    case (Some e2)
    then have na: "\<not> accepted" using l(2) that by simp
    from l(4) Some obtain c1 c2 where c: "c_outgoing c1 = c_outgoing c" "c_priority c1 = c_priority c"
      "c_outgoing c2 = c_outgoing c'" "c_priority c2 = c_priority c'" "lane_result c1 e2 c2 False"
      using na by auto
    then have "length (c_outgoing c') \<le> length (c_outgoing c)" "c_priority c' = c_priority c"
      unfolding lane_result_def by (metis append_Nil2)+
    then show ?thesis using that by (auto simp: pending_def)
  qed
  then have "pending c' > 0 \<longrightarrow> \<not> c_outgoingReady c' \<longrightarrow> pending c > 0" by blast
  then have "pending c' > 0 \<longrightarrow> c_outgoingReady c' \<or> w = Popping"
    using inv l(3) unfolding queue_inv_def by auto
  then show ?thesis using l(1) by (simp add: queue_inv_def)
qed

lemma queue_step_inv: "queue_step s s' \<Longrightarrow> queue_inv s \<Longrightarrow> queue_inv s'"
proof (induction rule: queue_step.induct)
  case (send e c c' accepted w)
  then show ?case using queue_inv_send by blast
next
  case (access c w ids)
  have "pending (replaceChannelAccess c ids) \<le> pending c"
    using filter_queue_length[of "c\<lparr> c_channelAccess := ids \<rparr>"]
    by (simp add: pending_def replaceChannelAccess_def Let_def add_mono)
  moreover have "c_outgoingReady (replaceChannelAccess c ids) = c_outgoingReady c"
    by (simp add: replaceChannelAccess_def Let_def)
  ultimately show ?case using access replaceChannelAccess_ok by (auto simp: queue_inv_def)
next
  case (pop c c' r)
  have "client_ok c'" using pop PopOutgoing_ok[of c] by (simp add: queue_inv_def)
  moreover have "pending c' > 0 \<longrightarrow> c_outgoingReady c'"
    using pop(1) by (auto simp: PopOutgoing_def Let_def pending_def notifyOutgoing_def
        split: list.splits if_splits)
  ultimately show ?case by (simp add: queue_inv_def)
qed (simp_all add: queue_inv_def)

lemma queue_reachable_inv: "queue_reachable s \<Longrightarrow> queue_inv s"
proof (induction rule: queue_reachable.induct)
  case init
  then show ?case by (simp add: queue_inv_def pending_def)
next
  case step
  then show ?case using queue_step_inv by blast
qed


subsection \<open>Fairness of the two lanes\<close>

definition arrive :: "OutgoingEvent list \<Rightarrow> Client \<Rightarrow> Client" where
  "arrive es c = c\<lparr> c_priority := c_priority c @ es \<rparr>"

text \<open>The client after \<open>n\<close> pops, when the media events \<open>arr i\<close> arrive before pop \<open>i\<close>.\<close>

fun serve :: "(nat \<Rightarrow> OutgoingEvent list) \<Rightarrow> nat \<Rightarrow> Client \<Rightarrow> Client" where
  "serve arr 0 c = c"
| "serve arr (Suc n) c = serve (\<lambda>i. arr (Suc i)) n (fst (PopOutgoing (arrive (arr 0) c)))"

lemma PopOutgoing_ordinary:
  assumes "c_outgoing c = e # rest" and "8 \<le> c_priorityBurst c \<or> c_priority c = []"
  shows "snd (PopOutgoing c) = Some e"
  using assms by (auto simp: PopOutgoing_def Let_def)

lemma PopOutgoing_media:
  assumes "c_outgoing c = e # rest" and "c_priorityBurst c < 8" "c_priority c \<noteq> []"
  shows "c_outgoing (fst (PopOutgoing c)) = e # rest"
    "c_priorityBurst (fst (PopOutgoing c)) = Suc (c_priorityBurst c)"
  using assms by (auto simp: PopOutgoing_def Let_def notifyOutgoing_def split: list.splits)

lemma serve_fair:
  "c_outgoing c = e # rest \<Longrightarrow>
     \<exists>n \<le> 8 - c_priorityBurst c. snd (PopOutgoing (arrive (arr n) (serve arr n c))) = Some e"
proof (induction "8 - c_priorityBurst c" arbitrary: c arr)
  case 0
  then show ?case using PopOutgoing_ordinary[of "arrive (arr 0) c"] by (auto simp: arrive_def)
next
  case (Suc k)
  let ?c = "arrive (arr 0) c"
  have out: "c_outgoing ?c = e # rest" "c_priorityBurst ?c = c_priorityBurst c"
    using Suc.prems by (simp_all add: arrive_def)
  show ?case
  proof (cases "c_priority ?c = []")
    case True
    then show ?thesis using PopOutgoing_ordinary[OF out(1)] by (intro exI[of _ 0]) simp
  next
    case False
    have lt: "c_priorityBurst ?c < 8" using Suc.hyps(2) out(2) by simp
    note m = PopOutgoing_media[OF out(1) lt False]
    have "k = 8 - c_priorityBurst (fst (PopOutgoing ?c))" using Suc.hyps(2) m(2) out(2) by simp
    from Suc.hyps(1)[OF this m(1), of "\<lambda>i. arr (Suc i)"] obtain n where
      n: "n \<le> 8 - c_priorityBurst (fst (PopOutgoing ?c))"
        "snd (PopOutgoing (arrive (arr (Suc n)) (serve arr (Suc n) c))) = Some e" by auto
    then show ?thesis using m(2) out(2) Suc.hyps(2) by (intro exI[of _ "Suc n"]) simp
  qed
qed

subsection \<open>Properties\<close>

definition sample_client :: Client where
  "sample_client = snd (NewClient (\<lambda>s. s) (\<lambda>s. s) 0 7 ''token'' [1])"

lemma sample_reachable: "queue_reachable (sample_client, Waiting)"
  unfolding sample_client_def by (rule queue_reachable.init)

lemma enqueue_pong:
  "\<exists>c'. enqueue sample_client (mkEvent EventPong NoData) = Some (c', True) \<and>
     c_outgoing c' = [mkEvent EventPong NoData] \<and> c_priority c' = []"
  by (simp add: sample_client_def NewClient_def newConnectionID_def Let_def mkEvent_def event_types
      enqueue_def filterChannelEvent_def filterLegacyStreamEvent_def enqueueLocked_def has_prefix_def
      replacementKey_def eventMessageChannel_def enqueue_full_def transient_def lane_simps
      notifyOutgoing_def)

text \<open>C3: In every state a connection can reach, however producers, access reloads and the
  writer interleave, both outgoing lanes hold at most 128 events, no queued event is about a
  channel the connection may not read (a snapshot lists no such channel), and no two queued
  ordinary events have the same replacement key.\<close>

theorem queue_safe:
  assumes "queue_reachable (c, w)"
  shows "length (c_outgoing c) \<le> 128 \<and> length (c_priority c) \<le> 128 \<and>
    (\<forall>e \<in> set (c_outgoing c @ c_priority c). \<forall>ch \<in> set (event_channels (ev_Data e)).
       ch = 0 \<or> canAccessChannel c ch) \<and>
    (\<forall>i < length (c_outgoing c). \<forall>j < length (c_outgoing c).
       replacementKey (c_outgoing c ! i) = replacementKey (c_outgoing c ! j) \<longrightarrow>
       replacementKey (c_outgoing c ! i) \<noteq> [] \<longrightarrow> i = j)"
proof -
  have ok: "client_ok c" using queue_reachable_inv[OF assms] by (simp add: queue_inv_def)
  have "distinct (filter (\<lambda>k. k \<noteq> []) ks) \<Longrightarrow> i < length ks \<Longrightarrow> j < length ks \<Longrightarrow> ks ! i = ks ! j \<Longrightarrow>
    ks ! i \<noteq> [] \<Longrightarrow> i = j" for ks :: "string list" and i j
  proof (induction ks arbitrary: i j)
    case (Cons k ks)
    have "k \<notin> set ks" if "k \<noteq> []" using Cons.prems(1) that by auto
    then show ?case using Cons
      by (cases i; cases j) (auto simp: nth_Cons split: if_splits dest: nth_mem)
  qed simp
  from this[of "map replacementKey (c_outgoing c)"] show ?thesis
    using ok by (auto simp: client_ok_def lane_simps visible_def queue_keys_def)
qed

theorem queue_safe_witness:
  "\<exists>c. queue_reachable (c, Waiting) \<and> c_outgoing c = [mkEvent EventPong NoData] \<and>
     length (c_outgoing c) \<le> 128"
proof -
  obtain c where c: "enqueue sample_client (mkEvent EventPong NoData) = Some (c, True)"
    "c_outgoing c = [mkEvent EventPong NoData]" using enqueue_pong by blast
  have "wf_event (mkEvent EventPong NoData)" by (simp add: wf_event_def mkEvent_def event_types)
  from queue_reachable.step[OF sample_reachable queue_step.send[OF this c(1)]]
  have r: "queue_reachable (c, Waiting)" .
  show ?thesis using queue_safe[OF r] r c(2) by blast
qed

text \<open>C20: No wake-up is lost between producers and the writer: whenever events are queued and
  the writer waits for \<^verbatim>\<open>outgoingReady\<close>, the channel holds a token, so the writer proceeds; and
  sending never panics on the unchecked type assertions of \<^verbatim>\<open>enqueueLocked\<close>.\<close>

theorem queue_no_lost_wakeup:
  assumes "queue_reachable (c, w)"
  shows "(w = Waiting \<longrightarrow> c_outgoing c @ c_priority c \<noteq> [] \<longrightarrow> c_outgoingReady c) \<and>
    (\<forall>e. wf_event e \<longrightarrow> enqueue c e \<noteq> None)"
proof -
  note inv = queue_reachable_inv[OF assms, unfolded queue_inv_def pending_def, simplified]
  have "enqueue c e \<noteq> None" if "wf_event e" for e using enqueue_facts[of c e] inv that by auto
  then show ?thesis using inv by auto
qed

theorem queue_no_lost_wakeup_witness:
  "\<exists>c. c_outgoing c \<noteq> [] \<and> c_outgoingReady c \<and> enqueue c (mkEvent EventPong NoData) \<noteq> None"
proof -
  obtain c where c: "enqueue sample_client (mkEvent EventPong NoData) = Some (c, True)"
    "c_outgoing c = [mkEvent EventPong NoData]" using enqueue_pong by blast
  have w: "wf_event (mkEvent EventPong NoData)" by (simp add: wf_event_def mkEvent_def event_types)
  from queue_reachable.step[OF sample_reachable queue_step.send[OF w c(1)]]
  have r: "queue_reachable (c, Waiting)" .
  show ?thesis using queue_no_lost_wakeup[OF r] c(2) w by (intro exI[of _ c]) simp
qed

text \<open>Critical events (anything but transient alerts, keyed state updates, message deltas and
  catch-up markers: permission changes, SDP, ICE, acknowledgements) are never dropped or
  reordered: a send leaves the critical events of the ordinary lane in place, adds the event at
  the end if it was accepted, and media events are only ever appended to their lane.\<close>

theorem enqueue_keeps_critical:
  assumes "queue_reachable (c, w)" "wf_event e" "\<not> c_done c" "enqueue c e = Some (c', accepted)"
  shows "filter critical (c_outgoing c') = filter critical (c_outgoing c) @
      (case admitted c e of None \<Rightarrow> []
       | Some e' \<Rightarrow> if accepted \<and> critical e' \<and> \<not> media e' then [e'] else []) \<and>
    c_priority c' = c_priority c @
      (case admitted c e of None \<Rightarrow> []
       | Some e' \<Rightarrow> if accepted \<and> media e' then [e'] else [])"
proof -
  have ok: "client_ok c" using queue_reachable_inv[OF assms(1)] by (simp add: queue_inv_def)
  note l = enqueue_lanes[OF ok assms(2,3), unfolded assms(4), simplified]
  show ?thesis
  proof (cases "admitted c e")
    case None
    then show ?thesis using l by simp
  next
    case (Some e2)
    then obtain c1 c2 where c: "c_outgoing c1 = c_outgoing c" "c_priority c1 = c_priority c"
      "c_outgoing c2 = c_outgoing c'" "c_priority c2 = c_priority c'" "lane_result c1 e2 c2 accepted"
      using l by auto
    show ?thesis using lane_result_critical[OF c(5)] unfolding c(1-4) Some by simp
  qed
qed

theorem enqueue_keeps_critical_witness:
  "\<exists>c'. enqueue sample_client (mkEvent EventPong NoData) = Some (c', True) \<and>
     filter critical (c_outgoing c') = [mkEvent EventPong NoData]"
proof -
  let ?e = "mkEvent EventPong NoData"
  obtain c' where c: "enqueue sample_client ?e = Some (c', True)" using enqueue_pong by blast
  have w: "wf_event ?e" by (simp add: wf_event_def mkEvent_def event_types)
  have s: "\<not> c_done sample_client" "c_outgoing sample_client = []" "admitted sample_client ?e = Some ?e"
    by (simp_all add: sample_client_def NewClient_def newConnectionID_def Let_def admitted_def
        filterChannelEvent_def filterLegacyStreamEvent_def mkEvent_def)
  have "critical ?e" "\<not> media ?e"
    by (simp_all add: critical_def transient_def media_def mkEvent_def replacementKey_def
        eventMessageChannel_def has_prefix_def event_types)
  then show ?thesis using enqueue_keeps_critical[OF sample_reachable w s(1) c] s c by simp
qed

text \<open>C19: Message deltas are never lost silently. When a send to an open connection is accepted,
  every delta queued before it, and the sent event itself if the connection sees it as a delta
  of the ordinary lane, is afterwards still queued, or covered by a queued catch-up marker
  for its channel, or by a queued event with reactions to the same message of the same or a later
  revision.\<close>

theorem enqueue_covers_deltas:
  assumes "queue_reachable (c, w)" "wf_event e" "\<not> c_done c" "enqueue c e = Some (c', accepted)"
    and "eventMessageChannel q > 0"
    and "q \<in> set (c_outgoing c) \<or> accepted \<and> admitted c e = Some q \<and> \<not> media q"
  shows "q \<in> set (c_outgoing c') \<or> marked (c_outgoing c') (eventMessageChannel q) \<or>
    (\<exists>q' \<in> set (c_outgoing c'). newer q' q)"
proof -
  have ok: "client_ok c" using queue_reachable_inv[OF assms(1)] by (simp add: queue_inv_def)
  note l = enqueue_lanes[OF ok assms(2,3), unfolded assms(4), simplified]
  show ?thesis
  proof (cases "admitted c e")
    case None
    then show ?thesis using l assms(6) by simp
  next
    case (Some e2)
    then obtain c1 c2 where c: "c_outgoing c1 = c_outgoing c" "c_outgoing c2 = c_outgoing c'"
      "lane_result c1 e2 c2 accepted" using l by auto
    show ?thesis
    proof (cases "media e2")
      case True
      then have "c_outgoing c' = c_outgoing c" using c by (simp add: lane_result_def)
      then show ?thesis using assms(6) Some True by auto
    next
      case False
      have "q \<in> set (c_outgoing c1) \<or> accepted \<and> q = e2" using assms(6) Some c(1) by auto
      then show ?thesis using c(3) False assms(5) unfolding lane_result_def c(2) by blast
    qed
  qed
qed

definition sample_delta :: OutgoingEvent where
  "sample_delta = mkEvent EventMessageDeleted
     (DMessageDeletedData \<lparr> mx_ChannelID = 5, mx_MessageID = 9 \<rparr>)"

theorem enqueue_covers_deltas_witness:
  "\<exists>c'. enqueue sample_client sample_delta = Some (c', True) \<and>
     (sample_delta \<in> set (c_outgoing c') \<or> marked (c_outgoing c') 5)"
proof -
  have e: "\<exists>c'. enqueue sample_client sample_delta = Some (c', True)"
    by (simp add: sample_client_def sample_delta_def NewClient_def newConnectionID_def Let_def mkEvent_def
        enqueue_def filterChannelEvent_def canAccessChannel_def filterLegacyStreamEvent_def
        enqueueLocked_def has_prefix_def replacementKey_def eventMessageChannel_def enqueue_full_def
        transient_def lane_simps event_types)
  then obtain c' where c: "enqueue sample_client sample_delta = Some (c', True)" by blast
  have w: "wf_event sample_delta" by (simp add: sample_delta_def wf_event_def mkEvent_def event_types)
  have s: "\<not> c_done sample_client" "admitted sample_client sample_delta = Some sample_delta"
    by (simp_all add: sample_client_def sample_delta_def NewClient_def newConnectionID_def Let_def
        admitted_def canAccessChannel_def filterChannelEvent_def filterLegacyStreamEvent_def mkEvent_def)
  have k: "eventMessageChannel sample_delta = 5" "\<not> media sample_delta" "\<not> newer q sample_delta" for q
    by (simp_all add: sample_delta_def mkEvent_def eventMessageChannel_def media_def newer_def has_prefix_def event_types
        split: event_data.split)
  show ?thesis
    using enqueue_covers_deltas[OF sample_reachable w s(1) c, of sample_delta] s k c by simp
qed

text \<open>The media lane cannot starve the ordinary one: an event at the head of the ordinary lane
  is handed out after at most eight media events, whatever arrives on the media lane meanwhile.\<close>

theorem PopOutgoing_fair:
  assumes "c_outgoing c = e # rest"
  shows "\<exists>n \<le> 8. snd (PopOutgoing (arrive (arr n) (serve arr n c))) = Some e"
  using serve_fair[OF assms, of arr] by (meson diff_le_self le_trans)

theorem PopOutgoing_fair_witness:
  "\<exists>n \<le> 8. snd (PopOutgoing (arrive [mkEvent EventPong NoData] (serve (\<lambda>_. [mkEvent EventPong NoData]) n
     (sample_client\<lparr> c_outgoing := [sample_delta] \<rparr>)))) = Some sample_delta"
  using PopOutgoing_fair[of "sample_client\<lparr> c_outgoing := [sample_delta] \<rparr>" sample_delta "[]"
      "\<lambda>_. [mkEvent EventPong NoData]"] by simp

text \<open>Two events share a replacement key exactly when they are updates of the same subject
  (kind, channel or message or server, user), so coalescing never merges unrelated events.\<close>

theorem replacementKey_exact:
  "replacementKey e \<noteq> [] \<and> replacementKey q = replacementKey e \<longleftrightarrow>
     (\<exists>s. subject_of e = Some s \<and> subject_of q = Some s)"
  by (rule replacementKey_eq_iff)

text \<open>An unpin event, as \<^verbatim>\<open>PublishMessageUnpinned\<close> builds it, is not recognised as a message
  delta: the queue neither folds it into a catch-up marker nor frees its slot by compaction.\<close>

lemma unpin_not_compacted:
  "eventMessageChannel (mkEvent EventMessageUnpinned
     (DMessageUnpinnedData \<lparr> mu_ChannelID = ch, mu_MessageID = m \<rparr>)) = 0"
  by (simp add: eventMessageChannel_def mkEvent_def event_types)

end
