(* ===== verification/VoiceState.thy ===== *)
theory VoiceState
  imports ClientQueue
begin

text \<open>
  The voice directory (src/internal/realtime/voice_state.go): who is in which voice channel,
  with which mute, deafen and encryption state. It keeps three Go maps, by channel, by client
  and by user, which \<open>voice_inv\<close> ties together. A method takes the state and returns it
  updated; assigning into a nil map panics in Go and is \<open>None\<close> here.

  A client is a pointer together with the record it points to, since the directory reads the
  immutable \<^verbatim>\<open>ConnectionID\<close> and \<^verbatim>\<open>UserID\<close> of the client.
\<close>

record voiceState =
  v_nextGeneration :: "64 word"
  v_byChannel :: "(int, (cref, VoiceParticipantData) gomap) gomap"
  v_byClient :: "(cref, VoiceParticipantData) gomap"
  v_byUser :: "(int, cref) gomap"

record voiceJoinResult =
  jr_participant :: VoiceParticipantData
  jr_participants :: "VoiceParticipantData list"
  jr_previous :: "VoiceParticipantData option"
  jr_replaced :: cref
  jr_joined :: bool
  jr_updated :: bool

definition newVoiceState :: voiceState where
  "newVoiceState = \<lparr> v_nextGeneration = 0, v_byChannel = [], v_byClient = [], v_byUser = [] \<rparr>"

definition zero_participant :: VoiceParticipantData where
  "zero_participant = \<lparr> vp_generation = 0, vp_ConnectionID = [], vp_UserID = 0, vp_ServerID = 0,
     vp_ChannelID = 0, vp_SelfMute = False, vp_SelfDeaf = False, vp_SelfVideo = False,
     vp_E2EEDeviceID = [] \<rparr>"

definition participant_key :: "VoiceParticipantData \<Rightarrow> int \<times> int \<times> int \<times> string" where
  "participant_key p = (vp_ServerID p, vp_ChannelID p, vp_UserID p, vp_ConnectionID p)"

definition sortVoiceParticipants :: "VoiceParticipantData list \<Rightarrow> VoiceParticipantData list" where
  "sortVoiceParticipants participants = sort_key participant_key participants"

definition participantMapSnapshot ::
  "(cref, VoiceParticipantData) gomap \<Rightarrow> VoiceParticipantData list" where
  "participantMapSnapshot room = sortVoiceParticipants (map snd room)"

definition voice_removeLocked :: "voiceState \<Rightarrow> cref \<Rightarrow> VoiceParticipantData \<Rightarrow> voiceState" where
  "voice_removeLocked s client participant =
     (let byUser = (if get_or nil (v_byUser s) (vp_UserID participant) = client
                    then AList.delete (vp_UserID participant) (v_byUser s) else v_byUser s);
          room = AList.delete client (get_or [] (v_byChannel s) (vp_ChannelID participant)) in
      s\<lparr> v_byClient := AList.delete client (v_byClient s), v_byUser := byUser,
         v_byChannel := (if length room = 0
            then AList.delete (vp_ChannelID participant) (v_byChannel s)
            else AList.update (vp_ChannelID participant) room (v_byChannel s)) \<rparr>)"

text \<open>\<^verbatim>\<open>s.byChannel[channelID][client] = participant\<close>\<close>

definition set_in_room ::
  "voiceState \<Rightarrow> int \<Rightarrow> cref \<Rightarrow> VoiceParticipantData \<Rightarrow> voiceState option" where
  "set_in_room s channelID client participant =
     (case map_of (v_byChannel s) channelID of
        None \<Rightarrow> None
      | Some room \<Rightarrow> Some (s\<lparr> v_byChannel :=
          AList.update channelID (AList.update client participant room) (v_byChannel s) \<rparr>))"

definition voice_enter :: "voiceState \<Rightarrow> cref \<Rightarrow> VoiceParticipantData \<Rightarrow> voiceState" where
  "voice_enter s client participant =
     (let room = AList.update client participant
                   (get_or [] (v_byChannel s) (vp_ChannelID participant)) in
      s\<lparr> v_byChannel := AList.update (vp_ChannelID participant) room (v_byChannel s),
         v_byClient := AList.update client participant (v_byClient s),
         v_byUser := AList.update (vp_UserID participant) client (v_byUser s) \<rparr>)"

text \<open>Clearing the way for a client: its own membership and that of the user's other connection.\<close>

definition voice_clear :: "voiceState \<Rightarrow> cref \<Rightarrow> int \<Rightarrow> voiceState \<times> VoiceParticipantData option \<times> cref" where
  "voice_clear s client userID =
     (let (s1, previous1) =
            (case map_of (v_byClient s) client of
               None \<Rightarrow> (s, None)
             | Some previous \<Rightarrow> (voice_removeLocked s client previous, Some previous));
          previousClient = get_or nil (v_byUser s1) userID in
      if previousClient \<noteq> nil \<and> previousClient \<noteq> client then
        (case map_of (v_byClient s1) previousClient of
           None \<Rightarrow> (s1, previous1, nil)
         | Some previous \<Rightarrow>
             (voice_removeLocked s1 previousClient previous, Some previous, previousClient))
      else (s1, previous1, nil))"

definition voice_join ::
  "voiceState \<Rightarrow> cref \<Rightarrow> Client \<Rightarrow> int \<Rightarrow> int \<Rightarrow> bool \<Rightarrow> bool \<Rightarrow> string
    \<Rightarrow> (voiceState \<times> voiceJoinResult) option" where
  "voice_join s0 client c serverID channelID selfMute selfDeaf e2eeDeviceID =
     (let s = s0\<lparr> v_nextGeneration := v_nextGeneration s0 + 1 \<rparr>;
          participant =
            \<lparr> vp_generation = v_nextGeneration s, vp_ConnectionID = c_connectionID c,
              vp_UserID = c_userID c, vp_ServerID = serverID, vp_ChannelID = channelID,
              vp_SelfMute = selfMute, vp_SelfDeaf = selfDeaf, vp_SelfVideo = False,
              vp_E2EEDeviceID = e2eeDeviceID \<rparr>;
          same = (case map_of (v_byClient s) client of
                    None \<Rightarrow> None
                  | Some previous \<Rightarrow>
                      (if vp_ServerID previous = serverID \<and> vp_ChannelID previous = channelID \<and>
                          vp_E2EEDeviceID previous = e2eeDeviceID
                       then Some previous else None)) in
      case same of
        Some previous \<Rightarrow>
          (let participant' = participant\<lparr> vp_SelfVideo := vp_SelfVideo previous \<rparr>;
               s1 = s\<lparr> v_byClient := AList.update client participant' (v_byClient s) \<rparr> in
           case set_in_room s1 channelID client participant' of
             None \<Rightarrow> None
           | Some s2 \<Rightarrow> Some (s2,
               \<lparr> jr_participant = participant',
                 jr_participants = participantMapSnapshot (get_or [] (v_byChannel s2) channelID),
                 jr_previous = None, jr_replaced = nil, jr_joined = False,
                 jr_updated = (vp_SelfMute previous \<noteq> selfMute \<or> vp_SelfDeaf previous \<noteq> selfDeaf) \<rparr>))
      | None \<Rightarrow>
          (let (s2, previous2, replaced) = voice_clear s client (c_userID c);
               s3 = voice_enter s2 client participant in
           Some (s3,
             \<lparr> jr_participant = participant,
               jr_participants = participantMapSnapshot (get_or [] (v_byChannel s3) channelID),
               jr_previous = previous2, jr_replaced = replaced, jr_joined = True,
               jr_updated = False \<rparr>)))"

definition voice_update ::
  "voiceState \<Rightarrow> cref \<Rightarrow> bool \<Rightarrow> bool \<Rightarrow> bool list
    \<Rightarrow> (voiceState \<times> VoiceParticipantData \<times> bool \<times> bool) option" where
  "voice_update s client selfMute selfDeaf selfVideo =
     (case map_of (v_byClient s) client of
        None \<Rightarrow> Some (s, zero_participant, False, False)
      | Some p \<Rightarrow>
          (let changed = (vp_SelfMute p \<noteq> selfMute \<or> vp_SelfDeaf p \<noteq> selfDeaf);
               p1 = p\<lparr> vp_SelfMute := selfMute, vp_SelfDeaf := selfDeaf \<rparr>;
               (p2, changed2) =
                 (case selfVideo of
                    [] \<Rightarrow> (p1, changed)
                  | v # _ \<Rightarrow> (p1\<lparr> vp_SelfVideo := v \<rparr>, changed \<or> vp_SelfVideo p1 \<noteq> v));
               s1 = s\<lparr> v_byClient := AList.update client p2 (v_byClient s) \<rparr> in
           case set_in_room s1 (vp_ChannelID p2) client p2 of
             None \<Rightarrow> None
           | Some s2 \<Rightarrow> Some (s2, p2, changed2, True)))"

definition voice_current :: "voiceState \<Rightarrow> cref \<Rightarrow> VoiceParticipantData option" where
  "voice_current s client = map_of (v_byClient s) client"

definition voice_userClient :: "voiceState \<Rightarrow> int \<Rightarrow> cref" where
  "voice_userClient s userID = get_or nil (v_byUser s) userID"

definition voice_leave :: "voiceState \<Rightarrow> cref \<Rightarrow> voiceState \<times> VoiceParticipantData option" where
  "voice_leave s client =
     (case map_of (v_byClient s) client of
        None \<Rightarrow> (s, None)
      | Some participant \<Rightarrow> (voice_removeLocked s client participant, Some participant))"

definition voice_leaveServer ::
  "voiceState \<Rightarrow> cref \<Rightarrow> int \<Rightarrow> voiceState \<times> VoiceParticipantData option" where
  "voice_leaveServer s client serverID =
     (case map_of (v_byClient s) client of
        None \<Rightarrow> (s, None)
      | Some participant \<Rightarrow>
          (if vp_ServerID participant \<noteq> serverID then (s, None)
           else (voice_removeLocked s client participant, Some participant)))"

definition remove_member :: "cref \<times> VoiceParticipantData \<Rightarrow> voiceState \<Rightarrow> voiceState" where
  "remove_member cp s =
     (case cp of (client, participant) \<Rightarrow>
        s\<lparr> v_byClient := AList.delete client (v_byClient s),
           v_byUser := (if get_or nil (v_byUser s) (vp_UserID participant) = client
                        then AList.delete (vp_UserID participant) (v_byUser s) else v_byUser s) \<rparr>)"

definition voice_removeChannel ::
  "voiceState \<Rightarrow> int \<Rightarrow> voiceState \<times> VoiceParticipantData list" where
  "voice_removeChannel s channelID =
     (let room = get_or [] (v_byChannel s) channelID;
          s1 = fold remove_member room s in
      (s1\<lparr> v_byChannel := AList.delete channelID (v_byChannel s1) \<rparr>, map snd room))"

text \<open>The loop deletes entries of the map it ranges over, which Go allows: an entry removed
  before it is reached is not produced, and here the loop removes only the current entry.\<close>

definition voice_removeServer ::
  "voiceState \<Rightarrow> int \<Rightarrow> voiceState \<times> VoiceParticipantData list" where
  "voice_removeServer s serverID =
     (let gone = filter (\<lambda>(client, p). vp_ServerID p = serverID) (v_byClient s) in
      (fold (\<lambda>(client, p) s. voice_removeLocked s client p) gone s, map snd gone))"

definition voice_snapshotForServers :: "voiceState \<Rightarrow> int list \<Rightarrow> VoiceParticipantData list" where
  "voice_snapshotForServers s serverIDs =
     sortVoiceParticipants
       (filter (\<lambda>p. List.member serverIDs (vp_ServerID p)) (map snd (v_byClient s)))"

definition voice_e2eeRecipient ::
  "voiceState \<Rightarrow> cref \<Rightarrow> int \<Rightarrow> int \<Rightarrow> string \<Rightarrow> (VoiceParticipantData \<times> cref) option" where
  "voice_e2eeRecipient s sender channelID recipientUserID recipientDeviceID =
     (case map_of (v_byClient s) sender of
        None \<Rightarrow> None
      | Some from \<Rightarrow>
          (if vp_ChannelID from \<noteq> channelID \<or> vp_E2EEDeviceID from = [] then None
           else let recipient = get_or nil (v_byUser s) recipientUserID in
           if recipient = nil \<or> recipient = sender then None
           else (case map_of (v_byClient s) recipient of
                   None \<Rightarrow> None
                 | Some to \<Rightarrow>
                     (if vp_ChannelID to \<noteq> channelID \<or> vp_E2EEDeviceID to = [] \<or>
                         vp_E2EEDeviceID to \<noteq> recipientDeviceID
                      then None else Some (from, recipient)))))"

definition voice_channelClients :: "voiceState \<Rightarrow> int \<Rightarrow> cref list" where
  "voice_channelClients s channelID = map fst (get_or [] (v_byChannel s) channelID)"

subsection \<open>Consistency of the three maps\<close>

definition voice_room :: "voiceState \<Rightarrow> int \<Rightarrow> (cref, VoiceParticipantData) gomap" where
  "voice_room s ch = get_or [] (v_byChannel s) ch"

text \<open>\<open>voice_inv ident s\<close>: the maps agree with each other and with the identities of the clients.\<close>

definition voice_inv :: "(cref \<Rightarrow> string \<times> int) \<Rightarrow> voiceState \<Rightarrow> bool" where
  "voice_inv ident s \<longleftrightarrow>
     distinct (map fst (v_byClient s)) \<and> distinct (map fst (v_byUser s)) \<and>
     distinct (map fst (v_byChannel s)) \<and>
     (\<forall>ch room. map_of (v_byChannel s) ch = Some room \<longrightarrow> room \<noteq> [] \<and> distinct (map fst room)) \<and>
     (\<forall>ch c p. map_of (voice_room s ch) c = Some p \<longleftrightarrow>
        map_of (v_byClient s) c = Some p \<and> vp_ChannelID p = ch) \<and>
     (\<forall>u c. map_of (v_byUser s) u = Some c \<longleftrightarrow>
        (\<exists>p. map_of (v_byClient s) c = Some p \<and> vp_UserID p = u)) \<and>
     (\<forall>c p. map_of (v_byClient s) c = Some p \<longrightarrow>
        c \<noteq> nil \<and> ident c = (vp_ConnectionID p, vp_UserID p))"

lemma voice_inv_new: "voice_inv ident newVoiceState"
  by (simp add: voice_inv_def newVoiceState_def voice_room_def)

lemma voice_inv_simps:
  assumes "voice_inv ident s"
  shows "distinct (map fst (v_byClient s))" "distinct (map fst (v_byUser s))"
    "distinct (map fst (v_byChannel s))"
    "\<And>ch room. map_of (v_byChannel s) ch = Some room \<Longrightarrow> room \<noteq> [] \<and> distinct (map fst room)"
    "\<And>ch c p. map_of (voice_room s ch) c = Some p \<longleftrightarrow>
       map_of (v_byClient s) c = Some p \<and> vp_ChannelID p = ch"
    "\<And>u c. map_of (v_byUser s) u = Some c \<longleftrightarrow>
       (\<exists>p. map_of (v_byClient s) c = Some p \<and> vp_UserID p = u)"
    "\<And>c p. map_of (v_byClient s) c = Some p \<Longrightarrow> c \<noteq> nil \<and> ident c = (vp_ConnectionID p, vp_UserID p)"
  using assms unfolding voice_inv_def by blast+

lemma voice_invI:
  assumes "distinct (map fst (v_byClient s))" "distinct (map fst (v_byUser s))"
    "distinct (map fst (v_byChannel s))"
    "\<And>ch room. map_of (v_byChannel s) ch = Some room \<Longrightarrow> room \<noteq> [] \<and> distinct (map fst room)"
    "\<And>ch c p. map_of (voice_room s ch) c = Some p \<longleftrightarrow>
       map_of (v_byClient s) c = Some p \<and> vp_ChannelID p = ch"
    "\<And>u c. map_of (v_byUser s) u = Some c \<longleftrightarrow>
       (\<exists>p. map_of (v_byClient s) c = Some p \<and> vp_UserID p = u)"
    "\<And>c p. map_of (v_byClient s) c = Some p \<Longrightarrow> c \<noteq> nil \<and> ident c = (vp_ConnectionID p, vp_UserID p)"
  shows "voice_inv ident s"
  using assms unfolding voice_inv_def by blast

lemma voice_one_client_per_user:
  assumes "voice_inv ident s" "map_of (v_byClient s) c = Some p" "map_of (v_byClient s) c' = Some p'"
    "vp_UserID p = vp_UserID p'"
  shows "c = c'"
  using assms voice_inv_simps(6)[OF assms(1)] by (metis option.inject)

lemma voice_byUser_get:
  assumes "voice_inv ident s"
  shows "get_or nil (v_byUser s) u = c \<and> c \<noteq> nil \<longleftrightarrow>
    (\<exists>p. map_of (v_byClient s) c = Some p \<and> vp_UserID p = u)"
proof -
  have "get_or nil (v_byUser s) u = c \<and> c \<noteq> nil \<longleftrightarrow> map_of (v_byUser s) u = Some c \<and> c \<noteq> nil"
    by (auto simp: get_or_def split: option.splits)
  then show ?thesis using voice_inv_simps(6,7)[OF assms] by blast
qed

lemma voice_room_removeLocked:
  "voice_room (voice_removeLocked s c p) ch =
     (if ch = vp_ChannelID p then AList.delete c (voice_room s ch) else voice_room s ch)"
  by (simp add: voice_room_def voice_removeLocked_def Let_def)

lemma voice_removeLocked_maps [simp]:
  "v_byClient (voice_removeLocked s c p) = AList.delete c (v_byClient s)"
  "v_nextGeneration (voice_removeLocked s c p) = v_nextGeneration s"
  by (simp_all add: voice_removeLocked_def Let_def)

lemma voice_removeLocked_inv:
  assumes inv: "voice_inv ident s" and p: "map_of (v_byClient s) c = Some p"
  shows "voice_inv ident (voice_removeLocked s c p)"
proof -
  let ?s = "voice_removeLocked s c p"
  note I = voice_inv_simps[OF inv]
  have gu: "get_or nil (v_byUser s) (vp_UserID p) = c"
    using voice_byUser_get[OF inv, of "vp_UserID p" c] p by blast
  have byUser: "v_byUser ?s = AList.delete (vp_UserID p) (v_byUser s)"
    using gu by (simp add: voice_removeLocked_def Let_def)
  have rooms: "room \<noteq> [] \<and> distinct (map fst room)" if "map_of (v_byChannel ?s) ch = Some room" for ch room
  proof (cases "ch = vp_ChannelID p")
    case True
    have r: "map_of (v_byChannel s) ch = Some (voice_room s ch)"
      using I(5)[of ch c p] p True by (auto simp: voice_room_def get_or_def split: option.splits)
    then show ?thesis
      using that I(4)[OF r] True
      by (auto simp: voice_removeLocked_def Let_def voice_room_def distinct_delete split: if_splits)
  next
    case False
    then show ?thesis using that I(4) by (auto simp: voice_removeLocked_def Let_def split: if_splits)
  qed
  show ?thesis
  proof (rule voice_invI)
    show "distinct (map fst (v_byClient ?s))" using I(1) by simp
    show "distinct (map fst (v_byUser ?s))" using I(2) by (simp add: byUser)
    show "distinct (map fst (v_byChannel ?s))" using I(3) by (simp add: voice_removeLocked_def Let_def)
    show "\<And>ch room. map_of (v_byChannel ?s) ch = Some room \<Longrightarrow> room \<noteq> [] \<and> distinct (map fst room)"
      by (rule rooms)
    show "map_of (voice_room ?s ch) c' = Some p' \<longleftrightarrow>
        map_of (v_byClient ?s) c' = Some p' \<and> vp_ChannelID p' = ch" for ch c' p'
      using I(5)[of ch c' p'] p by (auto simp: voice_room_removeLocked)
    show "map_of (v_byUser ?s) u = Some c' \<longleftrightarrow>
        (\<exists>p'. map_of (v_byClient ?s) c' = Some p' \<and> vp_UserID p' = u)" for u c'
    proof (cases "c' = c")
      case True
      then show ?thesis using I(6)[of u c] p by (auto simp: byUser)
    next
      case False
      then have "map_of (v_byClient s) c' = Some p' \<longrightarrow> vp_UserID p' \<noteq> vp_UserID p" for p'
        using voice_one_client_per_user[OF inv p, of c' p'] by metis
      then show ?thesis using False I(6)[of u c'] by (auto simp: byUser)
    qed
    show "map_of (v_byClient ?s) c' = Some p' \<Longrightarrow> c' \<noteq> nil \<and> ident c' = (vp_ConnectionID p', vp_UserID p')"
      for c' p' using I(7) by (simp split: if_splits)
  qed
qed

lemma voice_room_enter:
  "voice_room (voice_enter s c p) ch =
     (if ch = vp_ChannelID p then AList.update c p (voice_room s ch) else voice_room s ch)"
  by (simp add: voice_room_def voice_enter_def Let_def)

lemma voice_enter_maps [simp]:
  "v_byClient (voice_enter s c p) = AList.update c p (v_byClient s)"
  "v_byUser (voice_enter s c p) = AList.update (vp_UserID p) c (v_byUser s)"
  "v_nextGeneration (voice_enter s c p) = v_nextGeneration s"
  by (simp_all add: voice_enter_def Let_def)

lemma update_not_Nil [simp]: "AList.update k v m \<noteq> []"
  by (cases m) auto

lemma voice_enter_inv:
  assumes inv: "voice_inv ident s" and new: "map_of (v_byClient s) c = None"
    and user: "map_of (v_byUser s) (vp_UserID p) = None"
    and id: "c \<noteq> nil" "ident c = (vp_ConnectionID p, vp_UserID p)"
  shows "voice_inv ident (voice_enter s c p)"
proof -
  note I = voice_inv_simps[OF inv]
  have rooms: "room \<noteq> [] \<and> distinct (map fst room)"
    if "map_of (v_byChannel (voice_enter s c p)) ch = Some room" for ch room
  proof (cases "ch = vp_ChannelID p")
    case True
    have "distinct (map fst (voice_room s ch))"
      using I(4)[of ch] by (auto simp: voice_room_def get_or_def split: option.splits)
    then show ?thesis
      using that True by (auto simp: voice_enter_def Let_def voice_room_def distinct_update)
  next
    case False
    then show ?thesis using that I(4) by (auto simp: voice_enter_def Let_def)
  qed
  have nouser: "map_of (v_byClient s) c' = Some p' \<Longrightarrow> vp_UserID p' \<noteq> vp_UserID p" for c' p'
    using I(6)[of "vp_UserID p" c'] user by auto
  show ?thesis
  proof (rule voice_invI)
    let ?s = "voice_enter s c p"
    show "distinct (map fst (v_byClient ?s))" "distinct (map fst (v_byUser ?s))"
      using I(1,2) by simp_all
    show "distinct (map fst (v_byChannel ?s))" using I(3) by (simp add: voice_enter_def Let_def)
    show "\<And>ch room. map_of (v_byChannel ?s) ch = Some room \<Longrightarrow> room \<noteq> [] \<and> distinct (map fst room)"
      by (rule rooms)
    show "map_of (voice_room ?s ch) c' = Some p' \<longleftrightarrow>
        map_of (v_byClient ?s) c' = Some p' \<and> vp_ChannelID p' = ch" for ch c' p'
      using I(5)[of ch c' p'] new by (auto simp: voice_room_enter)
    show "map_of (v_byUser ?s) u = Some c' \<longleftrightarrow>
        (\<exists>p'. map_of (v_byClient ?s) c' = Some p' \<and> vp_UserID p' = u)" for u c'
      using I(6)[of u c'] new nouser[of c'] by (cases "c' = c"; cases "u = vp_UserID p") auto
    show "map_of (v_byClient ?s) c' = Some p' \<Longrightarrow> c' \<noteq> nil \<and> ident c' = (vp_ConnectionID p', vp_UserID p')"
      for c' p' using I(7) id by (auto split: if_splits)
  qed
qed


lemma voice_replace_inv:
  assumes inv: "voice_inv ident s" and p: "map_of (v_byClient s) c = Some p"
    and same: "vp_ChannelID p' = vp_ChannelID p" "vp_UserID p' = vp_UserID p"
      "vp_ConnectionID p' = vp_ConnectionID p"
  shows "\<exists>s'. set_in_room (s\<lparr> v_byClient := AList.update c p' (v_byClient s) \<rparr>) (vp_ChannelID p) c p' = Some s' \<and>
    voice_inv ident s' \<and> v_byClient s' = AList.update c p' (v_byClient s) \<and> v_byUser s' = v_byUser s \<and>
    v_nextGeneration s' = v_nextGeneration s"
proof -
  note I = voice_inv_simps[OF inv]
  let ?ch = "vp_ChannelID p"
  have r: "map_of (v_byChannel s) ?ch = Some (voice_room s ?ch)"
    using I(5)[of ?ch c p] p by (auto simp: voice_room_def get_or_def split: option.splits)
  let ?s = "s\<lparr> v_byClient := AList.update c p' (v_byClient s),
    v_byChannel := AList.update ?ch (AList.update c p' (voice_room s ?ch)) (v_byChannel s) \<rparr>"
  have room: "voice_room ?s ch = (if ch = ?ch then AList.update c p' (voice_room s ?ch) else voice_room s ch)" for ch
    by (simp add: voice_room_def)
  have "voice_inv ident ?s"
  proof (rule voice_invI)
    show "distinct (map fst (v_byClient ?s))" "distinct (map fst (v_byUser ?s))"
      "distinct (map fst (v_byChannel ?s))" using I(1,2,3) by simp_all
    show "\<And>ch room. map_of (v_byChannel ?s) ch = Some room \<Longrightarrow> room \<noteq> [] \<and> distinct (map fst room)"
      using I(4) I(4)[OF r] by (auto split: if_splits)
    show "map_of (voice_room ?s ch) c' = Some q \<longleftrightarrow>
        map_of (v_byClient ?s) c' = Some q \<and> vp_ChannelID q = ch" for ch c' q
      using I(5)[of ch c' q] same(1) p by (auto simp: room)
    show "map_of (v_byUser ?s) u = Some c' \<longleftrightarrow>
        (\<exists>q. map_of (v_byClient ?s) c' = Some q \<and> vp_UserID q = u)" for u c'
      using I(6)[of u c'] p same(2) by (cases "c' = c") auto
    show "map_of (v_byClient ?s) c' = Some q \<Longrightarrow> c' \<noteq> nil \<and> ident c' = (vp_ConnectionID q, vp_UserID q)"
      for c' q using I(7)[of c'] I(7)[OF p] same by (auto split: if_splits)
  qed
  moreover have "set_in_room (s\<lparr> v_byClient := AList.update c p' (v_byClient s) \<rparr>) ?ch c p' = Some ?s"
    using r by (simp add: set_in_room_def)
  ultimately show ?thesis by auto
qed


subsection \<open>The directory as one abstract map\<close>

text \<open>The contract of the directory: a partial map from users to the one connection that is in
  voice and its participant record.\<close>

definition voice_abs :: "voiceState \<Rightarrow> int \<rightharpoonup> cref \<times> VoiceParticipantData" where
  "voice_abs s u =
     (case map_of (v_byUser s) u of
        None \<Rightarrow> None
      | Some c \<Rightarrow> map_option (\<lambda>p. (c, p)) (map_of (v_byClient s) c))"

lemma voice_abs_iff:
  assumes "voice_inv ident s"
  shows "voice_abs s u = Some (c, p) \<longleftrightarrow> map_of (v_byClient s) c = Some p \<and> vp_UserID p = u"
proof -
  have "voice_abs s u = Some (c, p) \<longleftrightarrow> map_of (v_byUser s) u = Some c \<and> map_of (v_byClient s) c = Some p"
    by (auto simp: voice_abs_def split: option.splits)
  then show ?thesis using voice_inv_simps(6)[OF assms, of u c] by auto
qed

lemma voice_abs_None:
  assumes "voice_inv ident s"
  shows "voice_abs s u = None \<longleftrightarrow> map_of (v_byUser s) u = None"
proof
  assume a: "voice_abs s u = None"
  show "map_of (v_byUser s) u = None"
  proof (rule ccontr)
    assume "map_of (v_byUser s) u \<noteq> None"
    then obtain c where c: "map_of (v_byUser s) u = Some c" by blast
    then obtain p where "map_of (v_byClient s) c = Some p" using voice_inv_simps(6)[OF assms] by blast
    then show False using a c by (simp add: voice_abs_def)
  qed
qed (simp add: voice_abs_def)

lemma map_eqI:
  assumes "\<And>u x. m u = Some x \<longleftrightarrow> n u = Some x"
  shows "m = n"
proof
  fix u
  show "m u = n u" using assms[of u] by (metis option.exhaust)
qed

lemma voice_abs_removeLocked:
  assumes inv: "voice_inv ident s" and p: "map_of (v_byClient s) c = Some p"
  shows "voice_abs (voice_removeLocked s c p) = (voice_abs s)(vp_UserID p := None)"
proof (rule map_eqI)
  fix u and x :: "cref \<times> VoiceParticipantData"
  obtain c' p' where x: "x = (c', p')" by (cases x)
  have u: "map_of (v_byClient s) c' = Some p' \<and> vp_UserID p' = vp_UserID p \<longleftrightarrow> c' = c \<and> p' = p"
    using voice_one_client_per_user[OF inv p, of c' p'] p by auto
  show "voice_abs (voice_removeLocked s c p) u = Some x \<longleftrightarrow> ((voice_abs s)(vp_UserID p := None)) u = Some x"
    unfolding x using voice_abs_iff[OF voice_removeLocked_inv[OF inv p], of u c' p']
      voice_abs_iff[OF inv, of u c' p'] u p
    by (cases "u = vp_UserID p") (auto split: if_splits)
qed

lemma voice_abs_enter:
  assumes inv: "voice_inv ident s" and new: "map_of (v_byClient s) c = None"
    and user: "map_of (v_byUser s) (vp_UserID p) = None"
    and id: "c \<noteq> nil" "ident c = (vp_ConnectionID p, vp_UserID p)"
  shows "voice_abs (voice_enter s c p) = (voice_abs s)(vp_UserID p \<mapsto> (c, p))"
proof (rule map_eqI)
  fix u and x :: "cref \<times> VoiceParticipantData"
  obtain c' p' where x: "x = (c', p')" by (cases x)
  have none: "voice_abs s (vp_UserID p) = None" using user by (simp add: voice_abs_def)
  show "voice_abs (voice_enter s c p) u = Some x \<longleftrightarrow> ((voice_abs s)(vp_UserID p \<mapsto> (c, p))) u = Some x"
    unfolding x using voice_abs_iff[OF voice_enter_inv[OF assms], of u c' p']
      voice_abs_iff[OF inv, of u c' p'] none new by (cases "u = vp_UserID p"; cases "c' = c") auto
qed

lemma voice_clear_facts:
  assumes inv: "voice_inv ident s" and id: "c \<noteq> nil" "snd (ident c) = u"
    and r: "voice_clear s c u = (s', prev, repl)"
  shows "voice_inv ident s'" "voice_abs s' = (voice_abs s)(u := None)"
    "map_of (v_byClient s') c = None" "map_of (v_byUser s') u = None"
    "v_nextGeneration s' = v_nextGeneration s"
    "prev = map_option snd (voice_abs s u)"
    "repl = (case voice_abs s u of None \<Rightarrow> nil | Some (c', _) \<Rightarrow> if c' = c then nil else c')"
proof -
  note I = voice_inv_simps[OF inv]
  have "voice_inv ident s' \<and> voice_abs s' = (voice_abs s)(u := None) \<and>
    map_of (v_byClient s') c = None \<and> map_of (v_byUser s') u = None \<and>
    v_nextGeneration s' = v_nextGeneration s \<and> prev = map_option snd (voice_abs s u) \<and>
    repl = (case voice_abs s u of None \<Rightarrow> nil | Some (c', _) \<Rightarrow> if c' = c then nil else c')"
  proof (cases "map_of (v_byClient s) c")
    case (Some p)
    have up: "vp_UserID p = u" using I(7)[OF Some] id by auto
    note inv1 = voice_removeLocked_inv[OF inv Some] and abs1 = voice_abs_removeLocked[OF inv Some]
    let ?s1 = "voice_removeLocked s c p"
    have nou: "map_of (v_byUser ?s1) u = None"
      using abs1 up voice_abs_None[OF inv1, of u] by simp
    have "s' = ?s1" "prev = Some p" "repl = nil"
      using r Some nou by (auto simp: voice_clear_def Let_def get_or_None)
    then show ?thesis
      using inv1 abs1 up nou voice_abs_iff[OF inv, of u c p] Some by simp
  next
    case None
    show ?thesis
    proof (cases "voice_abs s u")
      case n: None
      then have nou: "map_of (v_byUser s) u = None"
        using voice_abs_None[OF inv] by simp
      have "s' = s" "prev = None" "repl = nil"
        using r None nou by (auto simp: voice_clear_def Let_def get_or_None)
      then show ?thesis using inv None n nou by (simp add: fun_upd_idem)
    next
      case (Some x)
      obtain c' p' where x: "x = (c', p')" by (cases x)
      have p': "map_of (v_byClient s) c' = Some p'" "vp_UserID p' = u"
        using Some x voice_abs_iff[OF inv] by auto
      then have ne: "c' \<noteq> c" "c' \<noteq> nil" using None I(7) by auto
      have gu: "get_or nil (v_byUser s) u = c'" using voice_byUser_get[OF inv, of u c'] p' ne by auto
      note inv1 = voice_removeLocked_inv[OF inv p'(1)] and abs1 = voice_abs_removeLocked[OF inv p'(1)]
      have nou: "map_of (v_byUser (voice_removeLocked s c' p')) u = None"
        using abs1 p' voice_abs_None[OF inv1, of u] by simp
      have "s' = voice_removeLocked s c' p'" "prev = Some p'" "repl = c'"
        using r None gu ne p' by (auto simp: voice_clear_def Let_def)
      then show ?thesis
        using inv1 abs1 p' nou None Some x ne by simp
    qed
  qed
  then show "voice_inv ident s'" "voice_abs s' = (voice_abs s)(u := None)"
    "map_of (v_byClient s') c = None" "map_of (v_byUser s') u = None"
    "v_nextGeneration s' = v_nextGeneration s"
    "prev = map_option snd (voice_abs s u)"
    "repl = (case voice_abs s u of None \<Rightarrow> nil | Some (c', _) \<Rightarrow> if c' = c then nil else c')"
    by simp_all
qed


lemma voice_abs_replace:
  assumes inv: "voice_inv ident s" and p: "map_of (v_byClient s) c = Some p"
    and inv': "voice_inv ident s'" and b: "v_byClient s' = AList.update c p' (v_byClient s)"
    and u: "vp_UserID p' = vp_UserID p"
  shows "voice_abs s' = (voice_abs s)(vp_UserID p \<mapsto> (c, p'))"
proof (rule map_eqI)
  fix v and x :: "cref \<times> VoiceParticipantData"
  obtain k q where x: "x = (k, q)" by (cases x)
  have "map_of (v_byClient s) k = Some q \<Longrightarrow> k \<noteq> c \<Longrightarrow> vp_UserID q \<noteq> vp_UserID p"
    using voice_one_client_per_user[OF inv p, of k q] by metis
  then show "voice_abs s' v = Some x \<longleftrightarrow> ((voice_abs s)(vp_UserID p \<mapsto> (c, p'))) v = Some x"
    unfolding x using voice_abs_iff[OF inv', of v k q] voice_abs_iff[OF inv, of v k q] u p
    by (cases "k = c"; cases "v = vp_UserID p") (auto simp: b)
qed

text \<open>\<^verbatim>\<open>join\<close> in terms of the abstract map: the user's entry becomes this connection, every other
  user keeps theirs, and the result names the membership that was ended.\<close>

lemma voice_join_facts:
  assumes inv: "voice_inv ident s" and id: "cl \<noteq> nil" "ident cl = (c_connectionID c, c_userID c)"
  shows "\<exists>s' r. voice_join s cl c srv ch m d dev = Some (s', r) \<and> voice_inv ident s' \<and>
    voice_abs s' = (voice_abs s)(c_userID c \<mapsto> (cl, jr_participant r)) \<and>
    vp_ConnectionID (jr_participant r) = c_connectionID c \<and> vp_UserID (jr_participant r) = c_userID c \<and>
    vp_ServerID (jr_participant r) = srv \<and> vp_ChannelID (jr_participant r) = ch \<and>
    vp_SelfMute (jr_participant r) = m \<and> vp_SelfDeaf (jr_participant r) = d \<and>
    vp_E2EEDeviceID (jr_participant r) = dev \<and>
    vp_generation (jr_participant r) = v_nextGeneration s + 1 \<and> v_nextGeneration s' = v_nextGeneration s + 1 \<and>
    jr_participants r = participantMapSnapshot (voice_room s' ch) \<and>
    (jr_previous r = None \<or> jr_previous r = map_option snd (voice_abs s (c_userID c))) \<and>
    jr_replaced r =
      (case voice_abs s (c_userID c) of None \<Rightarrow> nil | Some (c', _) \<Rightarrow> if c' = cl then nil else c')"
proof -
  define s0 where "s0 = s\<lparr> v_nextGeneration := v_nextGeneration s + 1 \<rparr>"
  have eqs: "v_byClient s0 = v_byClient s" "v_byUser s0 = v_byUser s" "v_byChannel s0 = v_byChannel s"
    "v_nextGeneration s0 = v_nextGeneration s + 1" by (simp_all add: s0_def)
  have rooms0: "voice_room s0 = voice_room s" by (rule ext) (simp add: voice_room_def eqs)
  have inv0: "voice_inv ident s0" using inv by (simp add: voice_inv_def eqs rooms0)
  have abs0: "voice_abs s0 = voice_abs s" by (rule ext) (simp only: voice_abs_def eqs)
  let ?p = "\<lparr> vp_generation = v_nextGeneration s0, vp_ConnectionID = c_connectionID c,
      vp_UserID = c_userID c, vp_ServerID = srv, vp_ChannelID = ch,
      vp_SelfMute = m, vp_SelfDeaf = d, vp_SelfVideo = False, vp_E2EEDeviceID = dev \<rparr>"
  define same where "same = (case map_of (v_byClient s0) cl of None \<Rightarrow> None
      | Some previous \<Rightarrow> (if vp_ServerID previous = srv \<and> vp_ChannelID previous = ch \<and>
          vp_E2EEDeviceID previous = dev then Some previous else None))"
  show ?thesis
  proof (cases same)
    case (Some previous)
    then have pr: "map_of (v_byClient s0) cl = Some previous" "vp_ServerID previous = srv"
      "vp_ChannelID previous = ch" "vp_E2EEDeviceID previous = dev"
      by (auto simp: same_def split: option.splits if_splits)
    have pid: "vp_ConnectionID previous = c_connectionID c" "vp_UserID previous = c_userID c"
      using voice_inv_simps(7)[OF inv0 pr(1)] id by auto
    let ?p' = "?p\<lparr> vp_SelfVideo := vp_SelfVideo previous \<rparr>"
    obtain s' where s': "set_in_room (s0\<lparr> v_byClient := AList.update cl ?p' (v_byClient s0) \<rparr>) ch cl ?p' = Some s'"
      "voice_inv ident s'" "v_byClient s' = AList.update cl ?p' (v_byClient s0)"
      "v_nextGeneration s' = v_nextGeneration s0"
      using voice_replace_inv[OF inv0 pr(1), of ?p'] pid pr(3) by auto
    have abs: "voice_abs s' = (voice_abs s0)(vp_UserID previous \<mapsto> (cl, ?p'))"
      by (rule voice_abs_replace[OF inv0 pr(1) s'(2,3)]) (simp add: pid)
    have cur: "voice_abs s (c_userID c) = Some (cl, previous)"
      using voice_abs_iff[OF inv0, of "c_userID c" cl previous] pr(1) pid abs0 by simp
    have "voice_join s cl c srv ch m d dev = Some (s',
        \<lparr> jr_participant = ?p', jr_participants = participantMapSnapshot (get_or [] (v_byChannel s') ch),
          jr_previous = None, jr_replaced = nil, jr_joined = False,
          jr_updated = (vp_SelfMute previous \<noteq> m \<or> vp_SelfDeaf previous \<noteq> d) \<rparr>)"
      using Some s'(1) unfolding voice_join_def s0_def[symmetric] Let_def same_def by simp
    then show ?thesis using s'(2,4) abs pid abs0 eqs(4) cur by (simp add: voice_room_def)
  next
    case None
    obtain s2 prev repl where cl: "voice_clear s0 cl (c_userID c) = (s2, prev, repl)"
      by (cases "voice_clear s0 cl (c_userID c)")
    note F = voice_clear_facts[OF inv0 id(1) _ cl]
    have sid: "snd (ident cl) = c_userID c" using id by simp
    note F = F[OF sid]
    let ?s' = "voice_enter s2 cl ?p"
    have inv': "voice_inv ident ?s'" "voice_abs ?s' = (voice_abs s2)(c_userID c \<mapsto> (cl, ?p))"
      using voice_enter_inv[OF F(1,3), of ?p] voice_abs_enter[OF F(1,3), of ?p] F(4) id by simp_all
    have "voice_join s cl c srv ch m d dev = Some (?s',
        \<lparr> jr_participant = ?p, jr_participants = participantMapSnapshot (get_or [] (v_byChannel ?s') ch),
          jr_previous = prev, jr_replaced = repl, jr_joined = True, jr_updated = False \<rparr>)"
      using None cl unfolding voice_join_def s0_def[symmetric] Let_def same_def by simp
    then show ?thesis using inv' F eqs abs0 by (simp add: voice_room_def)
  qed
qed


lemma voice_update_facts:
  assumes inv: "voice_inv ident s"
  shows "\<exists>s' p ch ex. voice_update s c m d video = Some (s', p, ch, ex) \<and> voice_inv ident s' \<and>
    (ex \<longleftrightarrow> map_of (v_byClient s) c \<noteq> None) \<and> (\<not> ex \<longrightarrow> s' = s) \<and>
    map fst (v_byClient s') = map fst (v_byClient s) \<and>
    (ex \<longrightarrow> voice_abs s' = (voice_abs s)(vp_UserID p \<mapsto> (c, p)) \<and>
       (\<exists>q. map_of (v_byClient s) c = Some q \<and>
          p = q\<lparr> vp_SelfMute := m, vp_SelfDeaf := d,
                 vp_SelfVideo := (case video of [] \<Rightarrow> vp_SelfVideo q | v # _ \<Rightarrow> v) \<rparr> \<and>
          (ch \<longleftrightarrow> p \<noteq> q)))"
proof (cases "map_of (v_byClient s) c")
  case None
  then show ?thesis
    using inv by (intro exI[of _ s] exI[of _ zero_participant] exI[of _ False]) (simp add: voice_update_def)
next
  case (Some q)
  let ?p = "q\<lparr> vp_SelfMute := m, vp_SelfDeaf := d,
      vp_SelfVideo := (case video of [] \<Rightarrow> vp_SelfVideo q | v # _ \<Rightarrow> v) \<rparr>"
  obtain s' where s': "set_in_room (s\<lparr> v_byClient := AList.update c ?p (v_byClient s) \<rparr>) (vp_ChannelID q) c ?p = Some s'"
    "voice_inv ident s'" "v_byClient s' = AList.update c ?p (v_byClient s)"
    using voice_replace_inv[OF inv Some, of ?p] by auto
  let ?ch = "vp_SelfMute q \<noteq> m \<or> vp_SelfDeaf q \<noteq> d \<or>
      (case video of [] \<Rightarrow> False | v # _ \<Rightarrow> vp_SelfVideo q \<noteq> v)"
  have ch: "?ch \<longleftrightarrow> ?p \<noteq> q" by (cases q) (auto split: list.splits)
  have "voice_update s c m d video = Some (s', ?p, ?ch, True)"
    using Some s'(1) by (auto simp: voice_update_def Let_def split: list.splits)
  moreover have "voice_abs s' = (voice_abs s)(vp_UserID q \<mapsto> (c, ?p))"
    by (rule voice_abs_replace[OF inv Some s'(2,3)]) simp
  moreover have "map fst (v_byClient s') = map fst (v_byClient s)"
    using Some unfolding s'(3) by (simp add: update_keys map_of_eq_None_iff[symmetric] domIff dom_map_of_conv_image_fst[symmetric])
  ultimately show ?thesis using s'(2) Some ch by auto
qed

lemma voice_leave_facts:
  assumes inv: "voice_inv ident s" and r: "voice_leave s c = (s', q)"
  shows "voice_inv ident s'" "q = map_of (v_byClient s) c" "v_byClient s' = AList.delete c (v_byClient s)"
    "voice_abs s' = (case q of None \<Rightarrow> voice_abs s | Some p \<Rightarrow> (voice_abs s)(vp_UserID p := None))"
    "v_nextGeneration s' = v_nextGeneration s"
proof -
  have "voice_inv ident s' \<and> q = map_of (v_byClient s) c \<and> v_byClient s' = AList.delete c (v_byClient s) \<and>
    voice_abs s' = (case q of None \<Rightarrow> voice_abs s | Some p \<Rightarrow> (voice_abs s)(vp_UserID p := None)) \<and>
    v_nextGeneration s' = v_nextGeneration s"
  proof (cases "map_of (v_byClient s) c")
    case None
    then have "AList.delete c (v_byClient s) = v_byClient s"
      by (simp add: map_of_eq_None_iff)
    then show ?thesis using None r inv by (simp add: voice_leave_def)
  next
    case (Some p)
    have "s' = voice_removeLocked s c p" "q = Some p" using r Some by (simp_all add: voice_leave_def)
    then show ?thesis
      using Some voice_removeLocked_inv[OF inv Some] voice_abs_removeLocked[OF inv Some] by simp
  qed
  then show "voice_inv ident s'" "q = map_of (v_byClient s) c" "v_byClient s' = AList.delete c (v_byClient s)"
    "voice_abs s' = (case q of None \<Rightarrow> voice_abs s | Some p \<Rightarrow> (voice_abs s)(vp_UserID p := None))"
    "v_nextGeneration s' = v_nextGeneration s" by simp_all
qed

lemma voice_leaveServer_leave:
  "voice_leaveServer s c srv =
     (case map_of (v_byClient s) c of
        None \<Rightarrow> (s, None)
      | Some p \<Rightarrow> if vp_ServerID p = srv then voice_leave s c else (s, None))"
  by (simp add: voice_leaveServer_def voice_leave_def split: option.splits)

definition without :: "(VoiceParticipantData \<Rightarrow> bool) \<Rightarrow> (int \<rightharpoonup> cref \<times> VoiceParticipantData)
    \<Rightarrow> int \<rightharpoonup> cref \<times> VoiceParticipantData" where
  "without P m u = (case m u of None \<Rightarrow> None | Some (c, p) \<Rightarrow> if P p then None else Some (c, p))"

lemma voice_abs_without:
  assumes inv: "voice_inv ident s" and inv': "voice_inv ident s'"
    and b: "\<And>c. map_of (v_byClient s') c =
      (case map_of (v_byClient s) c of None \<Rightarrow> None | Some p \<Rightarrow> if P p then None else Some p)"
  shows "voice_abs s' = without P (voice_abs s)"
proof (rule map_eqI)
  fix u and x :: "cref \<times> VoiceParticipantData"
  obtain c p where x: "x = (c, p)" by (cases x)
  show "voice_abs s' u = Some x \<longleftrightarrow> without P (voice_abs s) u = Some x"
    unfolding x using voice_abs_iff[OF inv', of u c p] voice_abs_iff[OF inv, of u c p] b[of c]
    by (auto simp: without_def split: option.splits if_splits)
qed

lemma fold_remove_member:
  assumes "distinct (map fst xs)"
    and "\<And>c p. (c, p) \<in> set xs \<Longrightarrow> c \<noteq> nil \<and> map_of (v_byUser s) (vp_UserID p) = Some c"
    and "distinct (map fst (v_byClient s))" "distinct (map fst (v_byUser s))"
  shows "v_byChannel (fold remove_member xs s) = v_byChannel s \<and>
    v_nextGeneration (fold remove_member xs s) = v_nextGeneration s \<and>
    distinct (map fst (v_byClient (fold remove_member xs s))) \<and>
    distinct (map fst (v_byUser (fold remove_member xs s))) \<and>
    (\<forall>c. map_of (v_byClient (fold remove_member xs s)) c =
       (if c \<in> fst ` set xs then None else map_of (v_byClient s) c)) \<and>
    (\<forall>u. map_of (v_byUser (fold remove_member xs s)) u =
       (if u \<in> (vp_UserID \<circ> snd) ` set xs then None else map_of (v_byUser s) u))"
  using assms
proof (induction xs arbitrary: s)
  case Nil
  show ?case using Nil.prems(3,4) by simp
next
  case (Cons x xs)
  obtain c p where x: "x = (c, p)" by (cases x)
  have u: "map_of (v_byUser s) (vp_UserID p) = Some c" "c \<noteq> nil" using Cons.prems(2) x by auto
  have s1: "v_byChannel (remove_member x s) = v_byChannel s"
    "v_nextGeneration (remove_member x s) = v_nextGeneration s"
    "v_byClient (remove_member x s) = AList.delete c (v_byClient s)"
    "v_byUser (remove_member x s) = AList.delete (vp_UserID p) (v_byUser s)"
    using u by (simp_all add: remove_member_def x get_or_Some)
  have "c' \<noteq> nil \<and> map_of (v_byUser (remove_member x s)) (vp_UserID p') = Some c'"
    if "(c', p') \<in> set xs" for c' p'
  proof -
    have "c' \<noteq> c" using that Cons.prems(1) x by force
    then show ?thesis using Cons.prems(2)[of c' p'] that u(1) by (auto simp: s1)
  qed
  from Cons.IH[OF _ this] Cons.prems(1,3,4) have
    "v_byChannel (fold remove_member xs (remove_member x s)) = v_byChannel s \<and>
     v_nextGeneration (fold remove_member xs (remove_member x s)) = v_nextGeneration s \<and>
     distinct (map fst (v_byClient (fold remove_member xs (remove_member x s)))) \<and>
     distinct (map fst (v_byUser (fold remove_member xs (remove_member x s)))) \<and>
     (\<forall>c'. map_of (v_byClient (fold remove_member xs (remove_member x s))) c' =
       (if c' \<in> fst ` set xs then None else if c' = c then None else map_of (v_byClient s) c')) \<and>
     (\<forall>u. map_of (v_byUser (fold remove_member xs (remove_member x s))) u =
       (if u \<in> (vp_UserID \<circ> snd) ` set xs then None
        else if u = vp_UserID p then None else map_of (v_byUser s) u))" by (simp add: s1)
  then show ?case by (simp add: x)
qed


lemma voice_removeChannel_facts:
  assumes inv: "voice_inv ident s" and r: "voice_removeChannel s ch = (s', ps)"
  shows "voice_inv ident s'" "voice_abs s' = without (\<lambda>p. vp_ChannelID p = ch) (voice_abs s)"
    "\<And>c. map_of (v_byClient s') c =
      (case map_of (v_byClient s) c of None \<Rightarrow> None | Some p \<Rightarrow> if vp_ChannelID p = ch then None else Some p)"
    "set ps = {p. \<exists>c. map_of (v_byClient s) c = Some p \<and> vp_ChannelID p = ch}"
proof -
  note I = voice_inv_simps[OF inv]
  let ?room = "voice_room s ch"
  have dr: "distinct (map fst ?room)"
    using I(4)[of ch] by (auto simp: voice_room_def get_or_def split: option.splits)
  have mem: "(c, p) \<in> set ?room \<longleftrightarrow> map_of (v_byClient s) c = Some p \<and> vp_ChannelID p = ch" for c p
    using I(5)[of ch c p] dr by (metis map_of_SomeD map_of_is_SomeI)
  have "c \<noteq> nil \<and> map_of (v_byUser s) (vp_UserID p) = Some c" if "(c, p) \<in> set ?room" for c p
    using that I(6,7) mem by blast
  note F = fold_remove_member[OF dr this I(1,2)]
  let ?f = "fold remove_member ?room s"
  have s': "s' = ?f\<lparr> v_byChannel := AList.delete ch (v_byChannel s) \<rparr>" and ps: "ps = map snd ?room"
    using r F by (auto simp: voice_removeChannel_def voice_room_def Let_def)
  have bc: "map_of (v_byClient s') c =
      (case map_of (v_byClient s) c of None \<Rightarrow> None | Some p \<Rightarrow> if vp_ChannelID p = ch then None else Some p)" for c
  proof -
    have "c \<in> fst ` set ?room \<longleftrightarrow> (\<exists>p. map_of (v_byClient s) c = Some p \<and> vp_ChannelID p = ch)"
      using mem by (auto simp: image_iff Bex_def)
    then show ?thesis using F by (auto simp: s' split: option.splits)
  qed
  have bu: "map_of (v_byUser s') u = Some c \<longleftrightarrow> (\<exists>p. map_of (v_byClient s') c = Some p \<and> vp_UserID p = u)" for u c
  proof -
    have "u \<in> (vp_UserID \<circ> snd) ` set ?room \<longleftrightarrow>
        (\<exists>c p. map_of (v_byClient s) c = Some p \<and> vp_ChannelID p = ch \<and> vp_UserID p = u)"
      using mem by (force simp: image_iff)
    moreover have "map_of (v_byUser s') u =
        (if u \<in> (vp_UserID \<circ> snd) ` set ?room then None else map_of (v_byUser s) u)"
      using F by (simp add: s')
    ultimately have "map_of (v_byUser s') u = Some c \<longleftrightarrow> map_of (v_byUser s) u = Some c \<and>
        \<not> (\<exists>c p. map_of (v_byClient s) c = Some p \<and> vp_ChannelID p = ch \<and> vp_UserID p = u)" by auto
    also have "\<dots> \<longleftrightarrow> (\<exists>p. map_of (v_byClient s) c = Some p \<and> vp_UserID p = u \<and> vp_ChannelID p \<noteq> ch)"
      using I(6)[of u c] voice_one_client_per_user[OF inv] by (metis option.inject)
    also have "\<dots> \<longleftrightarrow> (\<exists>p. map_of (v_byClient s') c = Some p \<and> vp_UserID p = u)"
      by (auto simp: bc split: option.splits)
    finally show ?thesis .
  qed
  have room: "voice_room s' ch' = (if ch' = ch then [] else voice_room s ch')" for ch'
    by (simp add: voice_room_def s')
  show inv': "voice_inv ident s'"
  proof (rule voice_invI)
    show "distinct (map fst (v_byClient s'))" "distinct (map fst (v_byUser s'))" using F by (simp_all add: s')
    show "distinct (map fst (v_byChannel s'))" using I(3) by (simp add: s')
    show "\<And>ch' room. map_of (v_byChannel s') ch' = Some room \<Longrightarrow> room \<noteq> [] \<and> distinct (map fst room)"
      using I(4) by (simp add: s' split: if_splits)
    show "map_of (voice_room s' ch') c = Some p \<longleftrightarrow>
        map_of (v_byClient s') c = Some p \<and> vp_ChannelID p = ch'" for ch' c p
      using I(5)[of ch' c p] by (auto simp: room bc split: option.splits)
    show "map_of (v_byUser s') u = Some c \<longleftrightarrow>
        (\<exists>p. map_of (v_byClient s') c = Some p \<and> vp_UserID p = u)" for u c by (rule bu)
    show "map_of (v_byClient s') c = Some p \<Longrightarrow> c \<noteq> nil \<and> ident c = (vp_ConnectionID p, vp_UserID p)"
      for c p using I(7) by (auto simp: bc split: option.splits if_splits)
  qed
  show "voice_abs s' = without (\<lambda>p. vp_ChannelID p = ch) (voice_abs s)"
    by (rule voice_abs_without[OF inv inv' bc])
  show "\<And>c. map_of (v_byClient s') c =
      (case map_of (v_byClient s) c of None \<Rightarrow> None | Some p \<Rightarrow> if vp_ChannelID p = ch then None else Some p)"
    by (rule bc)
  show "set ps = {p. \<exists>c. map_of (v_byClient s) c = Some p \<and> vp_ChannelID p = ch}"
    unfolding ps using mem by force
qed

lemma fold_removeLocked:
  assumes "voice_inv ident s" "distinct (map fst xs)" "\<And>c p. (c, p) \<in> set xs \<Longrightarrow> map_of (v_byClient s) c = Some p"
  shows "voice_inv ident (fold (\<lambda>(c, p) s. voice_removeLocked s c p) xs s) \<and>
    (\<forall>c. map_of (v_byClient (fold (\<lambda>(c, p) s. voice_removeLocked s c p) xs s)) c =
       (if c \<in> fst ` set xs then None else map_of (v_byClient s) c))"
  using assms
proof (induction xs arbitrary: s)
  case Nil
  show ?case using Nil.prems(1) by simp
next
  case (Cons x xs)
  obtain c p where x: "x = (c, p)" by (cases x)
  have p: "map_of (v_byClient s) c = Some p" using Cons.prems(3) x by simp
  have "map_of (v_byClient (voice_removeLocked s c p)) c' = Some p'" if "(c', p') \<in> set xs" for c' p'
  proof -
    have "c' \<noteq> c" using that Cons.prems(2) x by force
    then show ?thesis using Cons.prems(3)[of c' p'] that by simp
  qed
  from Cons.IH[OF voice_removeLocked_inv[OF Cons.prems(1) p] _ this] Cons.prems(2)
  show ?case by (simp add: x)
qed

lemma voice_removeServer_facts:
  assumes inv: "voice_inv ident s" and r: "voice_removeServer s srv = (s', ps)"
  shows "voice_inv ident s'" "voice_abs s' = without (\<lambda>p. vp_ServerID p = srv) (voice_abs s)"
    "\<And>c. map_of (v_byClient s') c =
      (case map_of (v_byClient s) c of None \<Rightarrow> None | Some p \<Rightarrow> if vp_ServerID p = srv then None else Some p)"
    "set ps = {p. \<exists>c. map_of (v_byClient s) c = Some p \<and> vp_ServerID p = srv}"
proof -
  note I = voice_inv_simps[OF inv]
  let ?gone = "filter (\<lambda>(client, p). vp_ServerID p = srv) (v_byClient s)"
  have mem: "(c, p) \<in> set ?gone \<longleftrightarrow> map_of (v_byClient s) c = Some p \<and> vp_ServerID p = srv" for c p
    using I(1) by (auto dest: map_of_SomeD)
  have dg: "distinct (map fst ?gone)" using I(1) by (simp add: distinct_map_filter)
  note F = fold_removeLocked[OF inv dg] 
  have F: "voice_inv ident s' \<and> (\<forall>c. map_of (v_byClient s') c =
      (if c \<in> fst ` set ?gone then None else map_of (v_byClient s) c))" and ps: "ps = map snd ?gone"
    using r F mem by (auto simp: voice_removeServer_def Let_def)
  show inv': "voice_inv ident s'" using F by blast
  have "c \<in> fst ` set ?gone \<longleftrightarrow> (\<exists>p. map_of (v_byClient s) c = Some p \<and> vp_ServerID p = srv)" for c
    using mem by (auto simp: image_iff Bex_def)
  then show bc: "map_of (v_byClient s') c =
      (case map_of (v_byClient s) c of None \<Rightarrow> None | Some p \<Rightarrow> if vp_ServerID p = srv then None else Some p)" for c
    using F by (auto split: option.splits)
  show "voice_abs s' = without (\<lambda>p. vp_ServerID p = srv) (voice_abs s)"
    by (rule voice_abs_without[OF inv inv' bc])
  show "set ps = {p. \<exists>c. map_of (v_byClient s) c = Some p \<and> vp_ServerID p = srv}"
    unfolding ps using mem by force
qed


subsection \<open>Reachable directories\<close>

text \<open>Every sequence of directory operations of clients with fixed identities.\<close>

inductive voice_step :: "(cref \<Rightarrow> string \<times> int) \<Rightarrow> voiceState \<Rightarrow> voiceState \<Rightarrow> bool" for ident where
  join: "cl \<noteq> nil \<Longrightarrow> ident cl = (c_connectionID c, c_userID c) \<Longrightarrow>
    voice_join s cl c srv ch m d dev = Some (s', r) \<Longrightarrow> voice_step ident s s'"
| update: "voice_update s cl m d video = Some (s', r) \<Longrightarrow> voice_step ident s s'"
| leave: "voice_leave s cl = (s', r) \<Longrightarrow> voice_step ident s s'"
| leave_server: "voice_leaveServer s cl srv = (s', r) \<Longrightarrow> voice_step ident s s'"
| remove_channel: "voice_removeChannel s ch = (s', ps) \<Longrightarrow> voice_step ident s s'"
| remove_server: "voice_removeServer s srv = (s', ps) \<Longrightarrow> voice_step ident s s'"

inductive voice_reachable :: "(cref \<Rightarrow> string \<times> int) \<Rightarrow> voiceState \<Rightarrow> bool" for ident where
  init: "voice_reachable ident newVoiceState"
| step: "voice_reachable ident s \<Longrightarrow> voice_step ident s s' \<Longrightarrow> voice_reachable ident s'"

lemma voice_leaveServer_inv:
  "voice_inv ident s \<Longrightarrow> voice_leaveServer s cl srv = (s', r) \<Longrightarrow> voice_inv ident s'"
  by (auto simp: voice_leaveServer_leave dest: voice_leave_facts(1) split: option.splits if_splits)

lemma voice_step_inv:
  assumes "voice_step ident s s'" "voice_inv ident s"
  shows "voice_inv ident s'"
  using assms(1)
proof cases
  case (join cl c srv ch m d dev r)
  then show ?thesis using voice_join_facts[OF assms(2) join(1,2), of srv ch m d dev] by auto
next
  case (update cl m d video r)
  then show ?thesis using voice_update_facts[OF assms(2), of cl m d video] by auto
next
  case (leave cl r)
  then show ?thesis by (rule voice_leave_facts(1)[OF assms(2)])
next
  case (leave_server cl srv r)
  then show ?thesis by (rule voice_leaveServer_inv[OF assms(2)])
next
  case (remove_channel ch ps)
  then show ?thesis by (rule voice_removeChannel_facts(1)[OF assms(2)])
next
  case (remove_server srv ps)
  then show ?thesis by (rule voice_removeServer_facts(1)[OF assms(2)])
qed

lemma voice_reachable_inv: "voice_reachable ident s \<Longrightarrow> voice_inv ident s"
  by (induction rule: voice_reachable.induct) (auto intro: voice_inv_new voice_step_inv)

subsection \<open>Properties\<close>

definition sample_ident :: "cref \<Rightarrow> string \<times> int" where
  "sample_ident cl = (if cl = 1 then (c_connectionID sample_client, c_userID sample_client) else ([], 0))"

lemma sample_join:
  "\<exists>s r. voice_join newVoiceState 1 sample_client 1 5 False False [] = Some (s, r) \<and>
     voice_reachable sample_ident s \<and> voice_abs s (c_userID sample_client) = Some (1, jr_participant r) \<and>
     vp_ServerID (jr_participant r) = 1"
proof -
  have id: "(1 :: cref) \<noteq> nil" "sample_ident 1 = (c_connectionID sample_client, c_userID sample_client)"
    by (simp_all add: sample_ident_def)
  obtain s r where j: "voice_join newVoiceState 1 sample_client 1 5 False False [] = Some (s, r)"
    "voice_abs s = (voice_abs newVoiceState)(c_userID sample_client \<mapsto> (1, jr_participant r))"
    "vp_ServerID (jr_participant r) = 1"
    using voice_join_facts[OF voice_inv_new[of sample_ident] id, of 1 5 False False "[]"] by auto
  have "voice_reachable sample_ident s"
    by (rule voice_reachable.step[OF voice_reachable.init
          voice_step.join[where ident = sample_ident and cl = 1 and c = sample_client, OF id j(1)]])
  then show ?thesis using j by auto
qed

text \<open>C18: The three maps of the voice directory implement one partial map from users to their
  single connection in voice. Joining never panics, makes this connection the user's only one,
  keeps every other user's entry and reports exactly the connection it displaced; leaving
  removes the user's entry; deleting a channel or a server removes exactly the entries in it.\<close>

theorem voice_refines_map:
  assumes "voice_reachable ident s"
  shows "(cl \<noteq> nil \<and> ident cl = (c_connectionID c, c_userID c) \<longrightarrow>
      (\<exists>s' r. voice_join s cl c srv ch m d dev = Some (s', r) \<and>
        voice_abs s' = (voice_abs s)(c_userID c \<mapsto> (cl, jr_participant r)) \<and>
        vp_ServerID (jr_participant r) = srv \<and> vp_ChannelID (jr_participant r) = ch \<and>
        jr_replaced r = (case voice_abs s (c_userID c) of
          None \<Rightarrow> nil | Some (c', _) \<Rightarrow> if c' = cl then nil else c'))) \<and>
    voice_abs (fst (voice_leave s cl)) = (case map_of (v_byClient s) cl of
      None \<Rightarrow> voice_abs s | Some p \<Rightarrow> (voice_abs s)(vp_UserID p := None)) \<and>
    voice_abs (fst (voice_removeChannel s ch)) = without (\<lambda>p. vp_ChannelID p = ch) (voice_abs s) \<and>
    voice_abs (fst (voice_removeServer s srv)) = without (\<lambda>p. vp_ServerID p = srv) (voice_abs s)"
proof (intro conjI impI)
  note inv = voice_reachable_inv[OF assms]
  assume "cl \<noteq> nil \<and> ident cl = (c_connectionID c, c_userID c)"
  then show "\<exists>s' r. voice_join s cl c srv ch m d dev = Some (s', r) \<and>
        voice_abs s' = (voice_abs s)(c_userID c \<mapsto> (cl, jr_participant r)) \<and>
        vp_ServerID (jr_participant r) = srv \<and> vp_ChannelID (jr_participant r) = ch \<and>
        jr_replaced r = (case voice_abs s (c_userID c) of
          None \<Rightarrow> nil | Some (c', _) \<Rightarrow> if c' = cl then nil else c')"
    using voice_join_facts[OF inv, of cl c srv ch m d dev] by blast
next
  note inv = voice_reachable_inv[OF assms]
  note l = voice_leave_facts[OF inv surjective_pairing, of cl]
  show "voice_abs (fst (voice_leave s cl)) = (case map_of (v_byClient s) cl of
      None \<Rightarrow> voice_abs s | Some p \<Rightarrow> (voice_abs s)(vp_UserID p := None))"
    using l(4) unfolding l(2) .
  show "voice_abs (fst (voice_removeChannel s ch)) = without (\<lambda>p. vp_ChannelID p = ch) (voice_abs s)"
    by (rule voice_removeChannel_facts(2)[OF inv surjective_pairing])
  show "voice_abs (fst (voice_removeServer s srv)) = without (\<lambda>p. vp_ServerID p = srv) (voice_abs s)"
    by (rule voice_removeServer_facts(2)[OF inv surjective_pairing])
qed

theorem voice_refines_map_witness:
  "\<exists>s u. voice_abs s u \<noteq> None \<and> voice_abs (fst (voice_removeServer s 1)) u = None"
proof -
  obtain s and r :: voiceJoinResult where s: "voice_reachable sample_ident s"
    "voice_abs s (c_userID sample_client) = Some (1, jr_participant r)"
    "vp_ServerID (jr_participant r) = 1" using sample_join by blast
  have "voice_abs (fst (voice_removeServer s 1)) = without (\<lambda>p. vp_ServerID p = 1) (voice_abs s)"
    using voice_refines_map[OF s(1), of 0 undefined 1 0 False False "[]"] by blast
  then show ?thesis using s(2,3) by (intro exI[of _ s] exI[of _ "c_userID sample_client"])
    (simp add: without_def)
qed

text \<open>A voice snapshot lists exactly the participants of the requested servers, each once, in
  the order of server, channel, user and connection.\<close>

theorem voice_snapshot_exact:
  assumes "voice_reachable ident s"
  shows "sorted (map participant_key (voice_snapshotForServers s serverIDs)) \<and>
    distinct (voice_snapshotForServers s serverIDs) \<and>
    set (voice_snapshotForServers s serverIDs) =
      {p. \<exists>u c. voice_abs s u = Some (c, p) \<and> vp_ServerID p \<in> set serverIDs}"
proof -
  note inv = voice_reachable_inv[OF assms]
  note I = voice_inv_simps[OF inv]
  have "distinct (map snd (v_byClient s))"
    unfolding distinct_map
  proof (intro conjI inj_onI)
    show "distinct (v_byClient s)" using I(1) by (simp add: distinct_map)
    fix x y assume xy: "x \<in> set (v_byClient s)" "y \<in> set (v_byClient s)" "snd x = snd y"
    obtain c p d where e: "x = (c, p)" "y = (d, p)" using xy(3) by (cases x; cases y) auto
    then have "map_of (v_byClient s) c = Some p" "map_of (v_byClient s) d = Some p"
      using xy I(1) by (auto intro: map_of_is_SomeI)
    then show "x = y" using voice_one_client_per_user[OF inv, of c p d p] e by simp
  qed
  moreover have "set (map snd (v_byClient s)) = {p. \<exists>u c. voice_abs s u = Some (c, p)}"
    using I(1) voice_abs_iff[OF inv] by (force dest: map_of_SomeD)
  ultimately show ?thesis
    by (auto simp: voice_snapshotForServers_def sortVoiceParticipants_def)
qed

theorem voice_snapshot_exact_witness:
  "\<exists>s. voice_snapshotForServers s [1] \<noteq> [] \<and>
     sorted (map participant_key (voice_snapshotForServers s [1]))"
proof -
  obtain s and r :: voiceJoinResult where s: "voice_reachable sample_ident s"
    "voice_abs s (c_userID sample_client) = Some (1, jr_participant r)"
    "vp_ServerID (jr_participant r) = 1" using sample_join by blast
  have "jr_participant r \<in> set (voice_snapshotForServers s [1])"
    using voice_snapshot_exact[OF s(1), of "[1]"] s(2,3) by auto
  then have "voice_snapshotForServers s [1] \<noteq> []" by (metis list.distinct(1) list.set_cases)
  then show ?thesis using voice_snapshot_exact[OF s(1), of "[1]"] by blast
qed

text \<open>A wrapped sender key is relayed only between two different connections that are both in
  the named channel with end-to-end encryption, to the current connection of the recipient and
  only if that connection joined with the named device.\<close>

theorem e2ee_relay_confined:
  assumes "voice_reachable ident s"
    and "voice_e2eeRecipient s sender channelID recipientUserID recipientDeviceID = Some (from, recipient)"
  shows "recipient \<noteq> sender \<and> voice_current s sender = Some from \<and> vp_ChannelID from = channelID \<and>
    vp_E2EEDeviceID from \<noteq> [] \<and>
    (\<exists>to. voice_abs s recipientUserID = Some (recipient, to) \<and> vp_ChannelID to = channelID \<and>
       vp_E2EEDeviceID to = recipientDeviceID \<and> vp_E2EEDeviceID to \<noteq> [])"
proof -
  note inv = voice_reachable_inv[OF assms(1)]
  obtain to where to: "get_or nil (v_byUser s) recipientUserID = recipient" "recipient \<noteq> nil"
    "recipient \<noteq> sender" "map_of (v_byClient s) recipient = Some to" "vp_ChannelID to = channelID"
    "vp_E2EEDeviceID to = recipientDeviceID" "vp_E2EEDeviceID to \<noteq> []"
    and "map_of (v_byClient s) sender = Some from" "vp_ChannelID from = channelID" "vp_E2EEDeviceID from \<noteq> []"
    using assms(2) by (auto simp: voice_e2eeRecipient_def Let_def split: option.splits if_splits)
  moreover have "voice_abs s recipientUserID = Some (recipient, to)"
    using voice_byUser_get[OF inv, of recipientUserID recipient] to(1,2,4)
      voice_abs_iff[OF inv, of recipientUserID recipient to] by auto
  ultimately show ?thesis by (auto simp: voice_current_def)
qed

definition sample_client2 :: Client where
  "sample_client2 = snd (NewClient (\<lambda>s. s) (\<lambda>s. s) 1 8 ''token2'' [1])"

definition sample_ident2 :: "cref \<Rightarrow> string \<times> int" where
  "sample_ident2 cl =
     (if cl = 1 then (c_connectionID sample_client, c_userID sample_client)
      else (c_connectionID sample_client2, c_userID sample_client2))"

definition sample_call :: voiceState where
  "sample_call =
     (case voice_join newVoiceState 1 sample_client 1 5 False False ''a'' of
        None \<Rightarrow> newVoiceState
      | Some (s1, _) \<Rightarrow>
          (case voice_join s1 2 sample_client2 1 5 False False ''b'' of
             None \<Rightarrow> newVoiceState
           | Some (s2, _) \<Rightarrow> s2))"

lemma sample_call_reachable: "voice_reachable sample_ident2 sample_call"
proof -
  have id: "sample_ident2 1 = (c_connectionID sample_client, c_userID sample_client)"
    "sample_ident2 2 = (c_connectionID sample_client2, c_userID sample_client2)"
    "(1 :: cref) \<noteq> nil" "(2 :: cref) \<noteq> nil"
    by (simp_all add: sample_ident2_def)
  note n = voice_inv_new[of sample_ident2]
  obtain s1 and r1 :: voiceJoinResult where
    1: "voice_join newVoiceState 1 sample_client 1 5 False False ''a'' = Some (s1, r1)"
    using voice_join_facts[OF n id(3,1)] by blast
  have r: "voice_reachable sample_ident2 s1"
    by (rule voice_reachable.step[OF voice_reachable.init voice_step.join[where ident = sample_ident2, OF id(3,1) 1]])
  obtain s2 and r2 :: voiceJoinResult where
    2: "voice_join s1 2 sample_client2 1 5 False False ''b'' = Some (s2, r2)"
    using voice_join_facts[OF voice_reachable_inv[OF r] id(4,2)] by blast
  have "voice_reachable sample_ident2 s2"
    by (rule voice_reachable.step[OF r voice_step.join[where ident = sample_ident2, OF id(4,2) 2]])
  then show ?thesis by (simp add: sample_call_def 1[simplified] 2[simplified])
qed

theorem e2ee_relay_confined_witness:
  "\<exists>from to. voice_e2eeRecipient sample_call 1 5 8 ''b'' = Some (from, 2) \<and>
     voice_abs sample_call 8 = Some (2, to) \<and> vp_E2EEDeviceID to = ''b''"
proof -
  have "map_option snd (voice_e2eeRecipient sample_call 1 5 8 ''b'') = Some 2" by code_simp
  then obtain fr where f: "voice_e2eeRecipient sample_call 1 5 8 ''b'' = Some (fr, 2)" by auto
  show ?thesis using e2ee_relay_confined[OF sample_call_reachable f] f by blast
qed

end
