(* ===== verification/StreamState.thy ===== *)
theory StreamState
  imports VoiceState
begin

text \<open>
  The stream directory (src/internal/realtime/stream_state.go): which connections publish a
  stream in a voice channel and which connections watch it.

  \<^verbatim>\<open>*activeStream\<close> values are shared between the channel map and the client states of the
  publisher and of every viewer, and the viewer set is mutated through the pointer, so the
  streams live in an explicit heap (\<open>t_heap\<close>) and a stream pointer is a reference into it.
  \<^verbatim>\<open>startedAt\<close> is only read through \<^verbatim>\<open>UnixMilli\<close> and kept in milliseconds; the current time is
  an argument. A client pointer is resolved by the function \<open>cl\<close>.
\<close>

type_synonym sref = nat

datatype stream_error =
    ErrStreamVoiceRequired | ErrStreamAlreadyActive | ErrStreamUnavailable | ErrStreamViewerLimit
  | ErrStreamPublisherLimit | ErrStreamP2PRelation | ErrStreamRenditionsInvalid
  | ErrStreamRenditionUnavailable

definition StreamModeServer :: string where "StreamModeServer = ''server''"
definition StreamModeP2P :: string where "StreamModeP2P = ''p2p''"

record activeStream =
  as_serverID :: int
  as_channelID :: int
  as_mode :: string
  as_codec :: string
  as_hasAudio :: bool
  as_renditions :: "StreamRenditionData list"
  as_publisher :: cref
  as_viewers :: "cref list"
  as_startedAt :: int

record streamClientState =
  st_generation :: "64 word"
  st_stream :: sref
  st_publisher :: bool
  st_renditionID :: string

record streamState =
  t_nextGeneration :: "64 word"
  t_byChannel :: "(int, (cref, sref) gomap) gomap"
  t_byClient :: "(cref, streamClientState) gomap"
  t_heap :: "(sref, activeStream) gomap"
  t_nextRef :: sref

definition newStreamState :: streamState where
  "newStreamState = \<lparr> t_nextGeneration = 0, t_byChannel = [], t_byClient = [],
     t_heap = [], t_nextRef = 1 \<rparr>"

definition zero_stream :: activeStream where
  "zero_stream = \<lparr> as_serverID = 0, as_channelID = 0, as_mode = [], as_codec = [], as_hasAudio = False,
     as_renditions = [], as_publisher = nil, as_viewers = [], as_startedAt = 0 \<rparr>"

definition stream_at :: "streamState \<Rightarrow> sref \<Rightarrow> activeStream" where
  "stream_at s r = get_or zero_stream (t_heap s) r"

definition streams_in :: "streamState \<Rightarrow> int \<Rightarrow> (cref, sref) gomap" where
  "streams_in s channelID = get_or [] (t_byChannel s) channelID"

text \<open>\<^verbatim>\<open>cloneStreamRenditions\<close> copies a slice, which is the identity on values.\<close>

definition streamData :: "(cref \<Rightarrow> Client) \<Rightarrow> activeStream \<Rightarrow> StreamData" where
  "streamData cl v =
     \<lparr> sa_ServerID = as_serverID v, sa_ChannelID = as_channelID v,
       sa_PublisherUserID = c_userID (cl (as_publisher v)),
       sa_PublisherConnectionID = c_connectionID (cl (as_publisher v)),
       sa_Mode = as_mode v, sa_Codec = as_codec v, sa_HasAudio = as_hasAudio v,
       sa_ViewerCount = int (length (as_viewers v)), sa_Renditions = as_renditions v,
       sa_StartedAtMS = as_startedAt v \<rparr>"

definition stream_active :: "streamState \<Rightarrow> cref \<Rightarrow> bool" where
  "stream_active s client = (case map_of (t_byClient s) client of
     None \<Rightarrow> False | Some st \<Rightarrow> st_stream st \<noteq> nil)"

definition stream_start ::
  "(cref \<Rightarrow> Client) \<Rightarrow> streamState \<Rightarrow> cref \<Rightarrow> VoiceParticipantData \<Rightarrow> string \<Rightarrow> string \<Rightarrow> bool
    \<Rightarrow> StreamRenditionData list \<Rightarrow> int \<Rightarrow> streamState \<times> (stream_error + StreamData)" where
  "stream_start cl s client participant mode codec hasAudio renditions now =
     (let channelID = vp_ChannelID participant in
      if stream_active s client then (s, Inl ErrStreamAlreadyActive)
      else if \<not> c_multipleStreams (cl client) \<and> length (streams_in s channelID) > 0
        then (s, Inl ErrStreamAlreadyActive)
      else if length (streams_in s channelID) \<ge> MaxChannelPublishers
        then (s, Inl ErrStreamPublisherLimit)
      else
        (let value = \<lparr> as_serverID = vp_ServerID participant, as_channelID = channelID,
               as_mode = mode, as_codec = codec, as_hasAudio = hasAudio,
               as_renditions = renditions, as_publisher = client, as_viewers = [],
               as_startedAt = now \<rparr>;
             r = t_nextRef s;
             g = t_nextGeneration s + 1 in
         (s\<lparr> t_heap := AList.update r value (t_heap s), t_nextRef := r + 1,
             t_byChannel := AList.update channelID (AList.update client r (streams_in s channelID))
               (t_byChannel s),
             t_nextGeneration := g,
             t_byClient := AList.update client \<lparr> st_generation = g, st_stream = r,
               st_publisher = True, st_renditionID = [] \<rparr> (t_byClient s) \<rparr>,
          Inr (streamData cl value))))"

text \<open>The selection loop of \<^verbatim>\<open>watch\<close>: the earliest stream, ties broken by connection id.\<close>

definition watch_pick ::
  "(cref \<Rightarrow> Client) \<Rightarrow> streamState \<Rightarrow> string \<Rightarrow> cref \<times> sref \<Rightarrow> sref \<Rightarrow> sref" where
  "watch_pick cl s publisherConnectionID entry value =
     (let candidate = stream_at s (snd entry);
          conn = (\<lambda>v. c_connectionID (cl (as_publisher v))) in
      if publisherConnectionID \<noteq> [] \<and> conn candidate \<noteq> publisherConnectionID then value
      else if value = nil \<or> as_startedAt candidate < as_startedAt (stream_at s value) \<or>
           (as_startedAt candidate = as_startedAt (stream_at s value) \<and>
            conn candidate < conn (stream_at s value))
        then snd entry else value)"

definition stream_watch ::
  "(cref \<Rightarrow> Client) \<Rightarrow> streamState \<Rightarrow> cref \<Rightarrow> VoiceParticipantData \<Rightarrow> nat \<Rightarrow> nat \<Rightarrow> string list
    \<Rightarrow> StreamCodecProfileData list \<Rightarrow> string
    \<Rightarrow> streamState \<times> (stream_error + StreamData \<times> cref \<times> string)" where
  "stream_watch cl s client participant maxServerViewers maxP2PViewers ranges profiles
     publisherConnectionID =
     (let r = fold (watch_pick cl s publisherConnectionID) (streams_in s (vp_ChannelID participant)) nil;
          value = stream_at s r in
      if r = nil \<or> as_publisher value = client \<or> as_serverID value \<noteq> vp_ServerID participant \<or>
         stream_active s client
        then (s, Inl ErrStreamUnavailable)
      else let maximum = (if as_mode value = StreamModeP2P then maxP2PViewers else maxServerViewers) in
      if length (as_viewers value) \<ge> maximum then (s, Inl ErrStreamViewerLimit)
      else let selected = selectStreamRendition (as_renditions value) ranges profiles in
      if selected = [] then (s, Inl ErrStreamRenditionUnavailable)
      else let value' = value\<lparr> as_viewers := List.insert client (as_viewers value) \<rparr>;
               g = t_nextGeneration s + 1 in
        (s\<lparr> t_heap := AList.update r value' (t_heap s), t_nextGeneration := g,
            t_byClient := AList.update client \<lparr> st_generation = g, st_stream = r,
              st_publisher = False, st_renditionID = selected \<rparr> (t_byClient s) \<rparr>,
         Inr (streamData cl value', as_publisher value', selected)))"

definition stream_leave :: "streamState \<Rightarrow> cref \<Rightarrow> streamState \<times> sref \<times> bool \<times> bool" where
  "stream_leave s client =
     (case map_of (t_byClient s) client of
        None \<Rightarrow> (s, nil, False, False)
      | Some state \<Rightarrow>
          (let r = st_stream state; value = stream_at s r in
           if st_publisher state then
             (let room = AList.delete (as_publisher value) (streams_in s (as_channelID value)) in
              (s\<lparr> t_byChannel := (if length room = 0
                     then AList.delete (as_channelID value) (t_byChannel s)
                     else AList.update (as_channelID value) room (t_byChannel s)),
                  t_byClient := fold AList.delete (as_viewers value)
                     (AList.delete (as_publisher value) (t_byClient s)) \<rparr>,
               r, True, True))
           else
             (s\<lparr> t_heap := AList.update r (value\<lparr> as_viewers := removeAll client (as_viewers value) \<rparr>)
                   (t_heap s),
                 t_byClient := AList.delete client (t_byClient s) \<rparr>,
              r, False, True)))"

definition stream_relationship ::
  "(cref \<Rightarrow> Client) \<Rightarrow> streamState \<Rightarrow> cref \<Rightarrow> string \<Rightarrow> cref \<times> bool \<times> bool" where
  "stream_relationship cl s sender targetConnectionID =
     (case map_of (t_byClient s) sender of
        None \<Rightarrow> (nil, False, False)
      | Some fromState \<Rightarrow>
          (let value = stream_at s (st_stream fromState) in
           if as_mode value \<noteq> StreamModeP2P then (nil, False, False)
           else if st_publisher fromState then
             (case find (\<lambda>viewer. c_connectionID (cl viewer) = targetConnectionID) (as_viewers value) of
                Some viewer \<Rightarrow> (viewer, True, True)
              | None \<Rightarrow> (nil, True, False))
           else if c_connectionID (cl (as_publisher value)) = targetConnectionID
             then (as_publisher value, False, True)
           else (nil, False, False)))"

definition stream_key :: "StreamData \<Rightarrow> int \<times> int \<times> int \<times> string" where
  "stream_key d = (sa_ServerID d, sa_ChannelID d, sa_StartedAtMS d, sa_PublisherConnectionID d)"

definition stream_snapshotForServers ::
  "(cref \<Rightarrow> Client) \<Rightarrow> streamState \<Rightarrow> int list \<Rightarrow> StreamData list" where
  "stream_snapshotForServers cl s serverIDs =
     sort_key stream_key
       (concat (map (\<lambda>(channelID, streams).
          map (\<lambda>(client, r). streamData cl (stream_at s r))
            (filter (\<lambda>(client, r). List.member serverIDs (as_serverID (stream_at s r))) streams))
         (t_byChannel s)))"

definition stream_recoveryViewer :: "streamState \<Rightarrow> cref \<Rightarrow> int \<Rightarrow> int \<Rightarrow> sref option" where
  "stream_recoveryViewer s client serverID channelID =
     (case map_of (t_byClient s) client of
        None \<Rightarrow> None
      | Some state \<Rightarrow>
          (if st_publisher state then None
           else let value = stream_at s (st_stream state) in
           if as_mode value \<noteq> StreamModeServer \<or> as_serverID value \<noteq> serverID \<or>
              as_channelID value \<noteq> channelID
           then None else Some (st_stream state)))"

definition stream_isPublisher :: "streamState \<Rightarrow> cref \<Rightarrow> bool" where
  "stream_isPublisher s client = (case map_of (t_byClient s) client of
     None \<Rightarrow> False | Some st \<Rightarrow> st_publisher st)"

definition stream_publishersForChannel :: "streamState \<Rightarrow> int \<Rightarrow> cref list" where
  "stream_publishersForChannel s channelID = map fst (streams_in s channelID)"

subsection \<open>Consistency\<close>

text \<open>A stream is live when its publisher's entry in the channel map points to it.\<close>

definition live :: "streamState \<Rightarrow> sref \<Rightarrow> activeStream \<Rightarrow> bool" where
  "live s r v \<longleftrightarrow> map_of (t_heap s) r = Some v \<and>
     map_of (streams_in s (as_channelID v)) (as_publisher v) = Some r"

definition stream_inv :: "nat \<Rightarrow> nat \<Rightarrow> streamState \<Rightarrow> bool" where
  "stream_inv maxServer maxP2P s \<longleftrightarrow>
     distinct (map fst (t_byChannel s)) \<and> distinct (map fst (t_byClient s)) \<and>
     (\<forall>r v. map_of (t_heap s) r = Some v \<longrightarrow> 0 < r \<and> r < t_nextRef s) \<and> 0 < t_nextRef s \<and>
     (\<forall>ch room. map_of (t_byChannel s) ch = Some room \<longrightarrow>
        room \<noteq> [] \<and> distinct (map fst room) \<and> length room \<le> MaxChannelPublishers) \<and>
     (\<forall>ch c r. map_of (streams_in s ch) c = Some r \<longrightarrow>
        (\<exists>v. map_of (t_heap s) r = Some v \<and> as_channelID v = ch \<and> as_publisher v = c)) \<and>
     (\<forall>c st. map_of (t_byClient s) c = Some st \<longrightarrow>
        (\<exists>v. live s (st_stream st) v \<and> (if st_publisher st then as_publisher v = c
                                            else c \<in> set (as_viewers v)))) \<and>
     (\<forall>r v. live s r v \<longrightarrow>
        distinct (as_viewers v) \<and>
        length (as_viewers v) \<le> (if as_mode v = StreamModeP2P then maxP2P else maxServer) \<and>
        as_publisher v \<noteq> nil \<and>
        (\<exists>st. map_of (t_byClient s) (as_publisher v) = Some st \<and> st_publisher st \<and> st_stream st = r) \<and>
        (\<forall>w \<in> set (as_viewers v). \<exists>st. map_of (t_byClient s) w = Some st \<and>
           \<not> st_publisher st \<and> st_stream st = r))"

lemma stream_invD:
  assumes "stream_inv mS mP s"
  shows "distinct (map fst (t_byChannel s))" "distinct (map fst (t_byClient s))"
    "\<And>r v. map_of (t_heap s) r = Some v \<Longrightarrow> 0 < r \<and> r < t_nextRef s" "0 < t_nextRef s"
    "\<And>ch room. map_of (t_byChannel s) ch = Some room \<Longrightarrow>
        room \<noteq> [] \<and> distinct (map fst room) \<and> length room \<le> MaxChannelPublishers"
    "\<And>ch c r. map_of (streams_in s ch) c = Some r \<Longrightarrow>
        \<exists>v. map_of (t_heap s) r = Some v \<and> as_channelID v = ch \<and> as_publisher v = c"
    "\<And>c st. map_of (t_byClient s) c = Some st \<Longrightarrow>
        \<exists>v. live s (st_stream st) v \<and> (if st_publisher st then as_publisher v = c
                                            else c \<in> set (as_viewers v))"
    "\<And>r v. live s r v \<Longrightarrow> distinct (as_viewers v) \<and>
        length (as_viewers v) \<le> (if as_mode v = StreamModeP2P then mP else mS) \<and> as_publisher v \<noteq> nil \<and>
        (\<exists>st. map_of (t_byClient s) (as_publisher v) = Some st \<and> st_publisher st \<and> st_stream st = r) \<and>
        (\<forall>w \<in> set (as_viewers v). \<exists>st. map_of (t_byClient s) w = Some st \<and>
           \<not> st_publisher st \<and> st_stream st = r)"
  using assms unfolding stream_inv_def by blast+

lemma stream_invI:
  assumes "distinct (map fst (t_byChannel s))" "distinct (map fst (t_byClient s))"
    "\<And>r v. map_of (t_heap s) r = Some v \<Longrightarrow> 0 < r \<and> r < t_nextRef s" "0 < t_nextRef s"
    "\<And>ch room. map_of (t_byChannel s) ch = Some room \<Longrightarrow>
        room \<noteq> [] \<and> distinct (map fst room) \<and> length room \<le> MaxChannelPublishers"
    "\<And>ch c r. map_of (streams_in s ch) c = Some r \<Longrightarrow>
        \<exists>v. map_of (t_heap s) r = Some v \<and> as_channelID v = ch \<and> as_publisher v = c"
    "\<And>c st. map_of (t_byClient s) c = Some st \<Longrightarrow>
        \<exists>v. live s (st_stream st) v \<and> (if st_publisher st then as_publisher v = c
                                            else c \<in> set (as_viewers v))"
    "\<And>r v. live s r v \<Longrightarrow> distinct (as_viewers v) \<and>
        length (as_viewers v) \<le> (if as_mode v = StreamModeP2P then mP else mS) \<and> as_publisher v \<noteq> nil \<and>
        (\<exists>st. map_of (t_byClient s) (as_publisher v) = Some st \<and> st_publisher st \<and> st_stream st = r) \<and>
        (\<forall>w \<in> set (as_viewers v). \<exists>st. map_of (t_byClient s) w = Some st \<and>
           \<not> st_publisher st \<and> st_stream st = r)"
  shows "stream_inv mS mP s"
  using assms unfolding stream_inv_def by blast

lemma stream_inv_new: "stream_inv mS mP newStreamState"
  by (simp add: stream_inv_def newStreamState_def streams_in_def live_def)

lemma stream_active_iff:
  assumes "stream_inv mS mP s"
  shows "stream_active s c \<longleftrightarrow> map_of (t_byClient s) c \<noteq> None"
proof -
  have "st_stream st \<noteq> nil" if "map_of (t_byClient s) c = Some st" for st
    using stream_invD(7)[OF assms that] stream_invD(3)[OF assms] by (auto simp: live_def)
  then show ?thesis by (auto simp: stream_active_def split: option.splits)
qed

lemma streams_in_facts:
  assumes "stream_inv mS mP s"
  shows "distinct (map fst (streams_in s ch))" "length (streams_in s ch) \<le> MaxChannelPublishers"
  using stream_invD(5)[OF assms, of ch]
  by (auto simp: streams_in_def get_or_def split: option.splits)

lemma streams_in_live:
  assumes "stream_inv mS mP s" "map_of (streams_in s ch) c = Some r"
  shows "live s r (stream_at s r)" "as_channelID (stream_at s r) = ch" "as_publisher (stream_at s r) = c"
proof -
  obtain v where v: "map_of (t_heap s) r = Some v" "as_channelID v = ch" "as_publisher v = c"
    using stream_invD(6)[OF assms] by blast
  have "stream_at s r = v" using v(1) by (simp add: stream_at_def get_or_Some)
  then show "live s r (stream_at s r)" "as_channelID (stream_at s r) = ch" "as_publisher (stream_at s r) = c"
    using v assms(2) by (simp_all add: live_def)
qed

lemma live_stream_at: "live s r v \<Longrightarrow> stream_at s r = v"
  by (simp add: live_def stream_at_def get_or_Some)

text \<open>One stream per client: two live streams with the same publisher are the same.\<close>

lemma live_publisher_unique:
  assumes "stream_inv mS mP s" "live s r v" "live s r' v'" "as_publisher v = as_publisher v'"
  shows "r = r' \<and> v = v'"
proof -
  have "r = r'" using stream_invD(8)[OF assms(1,2)] stream_invD(8)[OF assms(1,3)] assms(4) by auto
  then show ?thesis using assms(2,3) by (simp add: live_def)
qed


subsection \<open>Starting a stream\<close>

definition with_stream :: "streamState \<Rightarrow> cref \<Rightarrow> activeStream \<Rightarrow> streamState" where
  "with_stream s client value =
     (let r = t_nextRef s; g = t_nextGeneration s + 1; channelID = as_channelID value in
      s\<lparr> t_heap := AList.update r value (t_heap s), t_nextRef := r + 1,
         t_byChannel := AList.update channelID (AList.update client r (streams_in s channelID))
           (t_byChannel s),
         t_nextGeneration := g,
         t_byClient := AList.update client \<lparr> st_generation = g, st_stream = r,
           st_publisher = True, st_renditionID = [] \<rparr> (t_byClient s) \<rparr>)"

lemma stream_start_cases:
  "stream_start cl s c p mode codec audio rends now =
     (let value = \<lparr> as_serverID = vp_ServerID p, as_channelID = vp_ChannelID p, as_mode = mode,
        as_codec = codec, as_hasAudio = audio, as_renditions = rends, as_publisher = c,
        as_viewers = [], as_startedAt = now \<rparr> in
      if stream_active s c \<or> \<not> c_multipleStreams (cl c) \<and> streams_in s (vp_ChannelID p) \<noteq> []
      then (s, Inl ErrStreamAlreadyActive)
      else if MaxChannelPublishers \<le> length (streams_in s (vp_ChannelID p))
      then (s, Inl ErrStreamPublisherLimit)
      else (with_stream s c value, Inr (streamData cl value)))"
  by (simp add: stream_start_def with_stream_def Let_def)

lemma with_stream_maps:
  assumes "as_publisher v = c" "as_viewers v = []"
  shows "streams_in (with_stream s c v) ch =
      (if ch = as_channelID v then AList.update c (t_nextRef s) (streams_in s ch) else streams_in s ch)"
    "map_of (t_heap (with_stream s c v)) r = (if r = t_nextRef s then Some v else map_of (t_heap s) r)"
    "map_of (t_byClient (with_stream s c v)) c' = (if c' = c then Some \<lparr> st_generation = t_nextGeneration s + 1,
       st_stream = t_nextRef s, st_publisher = True, st_renditionID = [] \<rparr> else map_of (t_byClient s) c')"
  by (simp_all add: with_stream_def Let_def streams_in_def)

lemma with_stream_live:
  assumes inv: "stream_inv mS mP s" and new: "map_of (t_byClient s) c = None"
    and v: "as_publisher v = c" "as_viewers v = []"
  shows "live (with_stream s c v) r w \<longleftrightarrow> r = t_nextRef s \<and> w = v \<or> live s r w"
proof -
  have old: "as_publisher w \<noteq> c \<and> r \<noteq> t_nextRef s" if "live s r w"
    using stream_invD(8)[OF inv that] stream_invD(3)[OF inv, of r] new that by (auto simp: live_def)
  have heap: "map_of (t_heap s) (t_nextRef s) = None"
    using stream_invD(3)[OF inv, of "t_nextRef s"] by (cases "map_of (t_heap s) (t_nextRef s)") auto
  have room: "map_of (streams_in s ch) c \<noteq> Some r'" for ch r'
    using streams_in_live[OF inv, of ch c r'] stream_invD(8)[OF inv, of r'] new by force
  have "map_of (streams_in s ch) c' \<noteq> Some (t_nextRef s)" for ch c'
    using stream_invD(6)[OF inv, of ch c'] heap by auto
  then show ?thesis
    using old v heap room unfolding live_def with_stream_maps[OF v]
    by (cases "r = t_nextRef s") auto
qed

lemma with_stream_inv:
  assumes inv: "stream_inv mS mP s" and new: "map_of (t_byClient s) c = None" and c: "c \<noteq> nil"
    and v: "as_publisher v = c" "as_viewers v = []"
    and len: "length (streams_in s (as_channelID v)) < MaxChannelPublishers"
  shows "stream_inv mS mP (with_stream s c v)"
proof (rule stream_invI)
  let ?s = "with_stream s c v"
  note I = stream_invD[OF inv] and L = with_stream_live[OF inv new v] and M = with_stream_maps[OF v]
  show "distinct (map fst (t_byChannel ?s))" "distinct (map fst (t_byClient ?s))" "0 < t_nextRef ?s"
    using I(1,2,4) by (simp_all add: with_stream_def Let_def)
  show "0 < r \<and> r < t_nextRef ?s" if "map_of (t_heap ?s) r = Some w" for r w
    using that I(3)[of r] I(4) by (auto simp: with_stream_def Let_def split: if_splits)
  show "room \<noteq> [] \<and> distinct (map fst room) \<and> length room \<le> MaxChannelPublishers"
    if "map_of (t_byChannel ?s) ch = Some room" for ch room
  proof (cases "ch = as_channelID v")
    case True
    then have "room = AList.update c (t_nextRef s) (streams_in s ch)"
      using that by (simp add: with_stream_def Let_def)
    then show ?thesis
      using streams_in_facts[OF inv, of ch] len True length_update_le[of c "t_nextRef s" "streams_in s ch"]
      by simp
  next
    case False
    then show ?thesis using that I(5)[of ch room] by (simp add: with_stream_def Let_def)
  qed
  show "\<exists>w. map_of (t_heap ?s) r = Some w \<and> as_channelID w = ch \<and> as_publisher w = c'"
    if "map_of (streams_in ?s ch) c' = Some r" for ch c' r
  proof (cases "ch = as_channelID v \<and> c' = c")
    case True
    then show ?thesis using that v by (auto simp: M)
  next
    case False
    then have "map_of (streams_in s ch) c' = Some r" using that by (auto simp: M split: if_splits)
    then show ?thesis using I(6)[of ch c' r] I(3)[of r] by (auto simp: M)
  qed
  show "\<exists>w. live ?s (st_stream st) w \<and> (if st_publisher st then as_publisher w = c' else c' \<in> set (as_viewers w))"
    if "map_of (t_byClient ?s) c' = Some st" for c' st
  proof (cases "c' = c")
    case True
    then show ?thesis using that v by (auto simp: M L)
  next
    case False
    then show ?thesis using that I(7)[of c' st] by (auto simp: M L)
  qed
  show "distinct (as_viewers w) \<and>
        length (as_viewers w) \<le> (if as_mode w = StreamModeP2P then mP else mS) \<and> as_publisher w \<noteq> nil \<and>
        (\<exists>st. map_of (t_byClient ?s) (as_publisher w) = Some st \<and> st_publisher st \<and> st_stream st = r) \<and>
        (\<forall>x \<in> set (as_viewers w). \<exists>st. map_of (t_byClient ?s) x = Some st \<and>
           \<not> st_publisher st \<and> st_stream st = r)" if "live ?s r w" for r w
  proof (cases "r = t_nextRef s \<and> w = v")
    case True
    then show ?thesis using v c by (auto simp: M)
  next
    case False
    then have l: "live s r w" using that L by blast
    have "as_publisher w \<noteq> c" "c \<notin> set (as_viewers w)" using I(8)[OF l] new by auto
    then show ?thesis using I(8)[OF l] by (auto simp: M)
  qed
qed


subsection \<open>Watching a stream\<close>

lemma watch_pick_in:
  "fold (watch_pick cl s pc) xs r0 = r \<Longrightarrow> r = r0 \<or> r \<in> snd ` set xs"
proof (induction xs arbitrary: r0)
  case (Cons x xs)
  have "watch_pick cl s pc x r0 = r0 \<or> watch_pick cl s pc x r0 = snd x"
    by (simp add: watch_pick_def Let_def)
  then show ?case using Cons.IH[of "watch_pick cl s pc x r0"] Cons.prems by auto
qed simp

definition with_viewer :: "streamState \<Rightarrow> cref \<Rightarrow> sref \<Rightarrow> string \<Rightarrow> streamState" where
  "with_viewer s c r selected =
     s\<lparr> t_heap := AList.update r ((stream_at s r)\<lparr> as_viewers := List.insert c (as_viewers (stream_at s r)) \<rparr>)
          (t_heap s), t_nextGeneration := t_nextGeneration s + 1,
        t_byClient := AList.update c \<lparr> st_generation = t_nextGeneration s + 1, st_stream = r,
          st_publisher = False, st_renditionID = selected \<rparr> (t_byClient s) \<rparr>"

lemma stream_watch_cases:
  assumes inv: "stream_inv mS mP s"
  obtains (error) e where "stream_watch cl s c p mS mP ranges profiles pc = (s, Inl e)"
  | (watching) pub r v selected where
      "stream_watch cl s c p mS mP ranges profiles pc =
        (with_viewer s c r selected, Inr (streamData cl (stream_at (with_viewer s c r selected) r), pub, selected))"
      "map_of (streams_in s (vp_ChannelID p)) pub = Some r" "v = stream_at s r" "live s r v"
      "as_publisher v = pub" "pub \<noteq> c" "as_serverID v = vp_ServerID p" "as_channelID v = vp_ChannelID p"
      "map_of (t_byClient s) c = None"
      "length (as_viewers v) < (if as_mode v = StreamModeP2P then mP else mS)"
      "selected = selectStreamRendition (as_renditions v) ranges profiles" "selected \<noteq> []"
      "r = fold (watch_pick cl s pc) (streams_in s (vp_ChannelID p)) nil"
proof -
  define r where "r = fold (watch_pick cl s pc) (streams_in s (vp_ChannelID p)) nil"
  let ?v = "stream_at s r" and ?sel = "selectStreamRendition (as_renditions (stream_at s r)) ranges profiles"
  define bad where "bad \<longleftrightarrow> r = nil \<or> as_publisher ?v = c \<or> as_serverID ?v \<noteq> vp_ServerID p \<or> stream_active s c"
  define limit where "limit \<longleftrightarrow> (if as_mode ?v = StreamModeP2P then mP else mS) \<le> length (as_viewers ?v)"
  show thesis
  proof (cases "bad \<or> limit \<or> ?sel = []")
    case True
    then have "\<exists>e. stream_watch cl s c p mS mP ranges profiles pc = (s, Inl e)"
      unfolding stream_watch_def r_def[symmetric] bad_def limit_def by (auto simp: Let_def)
    then show thesis using error by blast
  next
    case False
    then have nb: "r \<noteq> nil" "as_publisher ?v \<noteq> c" "as_serverID ?v = vp_ServerID p" "\<not> stream_active s c"
      unfolding bad_def by auto
    from watch_pick_in[OF r_def[symmetric]] nb(1) obtain pub where
      "(pub, r) \<in> set (streams_in s (vp_ChannelID p))" by force
    then have m: "map_of (streams_in s (vp_ChannelID p)) pub = Some r"
      using streams_in_facts(1)[OF inv] by (simp add: map_of_is_SomeI)
    note l = streams_in_live[OF inv m]
    have at: "stream_at (with_viewer s c r ?sel) r = ?v\<lparr> as_viewers := List.insert c (as_viewers ?v) \<rparr>"
      by (simp add: with_viewer_def stream_at_def)
    have "stream_watch cl s c p mS mP ranges profiles pc =
        (with_viewer s c r ?sel, Inr (streamData cl (stream_at (with_viewer s c r ?sel) r), pub, ?sel))"
      using False l(3) unfolding at stream_watch_def r_def[symmetric] bad_def limit_def
      by (simp add: Let_def with_viewer_def)
    from watching[OF this m refl l(1) l(3) _ nb(3) l(2) _ _ refl _ r_def] show thesis
      using nb l(3) False stream_active_iff[OF inv, of c] unfolding limit_def by auto
  qed
qed

lemma with_viewer_maps:
  "streams_in (with_viewer s c r sel) ch = streams_in s ch"
  "map_of (t_heap (with_viewer s c r sel)) r' =
     (if r' = r then Some ((stream_at s r)\<lparr> as_viewers := List.insert c (as_viewers (stream_at s r)) \<rparr>)
      else map_of (t_heap s) r')"
  "map_of (t_byClient (with_viewer s c r sel)) c' =
     (if c' = c then Some \<lparr> st_generation = t_nextGeneration s + 1, st_stream = r,
        st_publisher = False, st_renditionID = sel \<rparr> else map_of (t_byClient s) c')"
  by (simp_all add: with_viewer_def streams_in_def)

lemma with_viewer_live:
  assumes "live s r v"
  shows "live (with_viewer s c r sel) r' w \<longleftrightarrow>
    (if r' = r then w = v\<lparr> as_viewers := List.insert c (as_viewers v) \<rparr> else live s r' w)"
  using assms live_stream_at[OF assms] by (auto simp: live_def with_viewer_maps)

lemma with_viewer_inv:
  assumes inv: "stream_inv mS mP s" and new: "map_of (t_byClient s) c = None" and l: "live s r v"
    and len: "length (as_viewers v) < (if as_mode v = StreamModeP2P then mP else mS)"
  shows "stream_inv mS mP (with_viewer s c r sel)"
proof (rule stream_invI)
  let ?s = "with_viewer s c r sel" and ?v = "v\<lparr> as_viewers := List.insert c (as_viewers v) \<rparr>"
  note I = stream_invD[OF inv] and L = with_viewer_live[OF l] and M = with_viewer_maps
  note at = live_stream_at[OF l]
  have notin: "c \<noteq> as_publisher w" "c \<notin> set (as_viewers w)" if "live s r' w" for r' w
    using I(8)[OF that] new by auto
  show "distinct (map fst (t_byChannel ?s))" "distinct (map fst (t_byClient ?s))" "0 < t_nextRef ?s"
    using I(1,2,4) by (simp_all add: with_viewer_def)
  show "0 < r' \<and> r' < t_nextRef ?s" if "map_of (t_heap ?s) r' = Some w" for r' w
    using that I(3) l by (auto simp: with_viewer_def live_def split: if_splits)
  show "room \<noteq> [] \<and> distinct (map fst room) \<and> length room \<le> MaxChannelPublishers"
    if "map_of (t_byChannel ?s) ch = Some room" for ch room
    using that I(5) by (simp add: with_viewer_def)
  show "\<exists>w. map_of (t_heap ?s) r' = Some w \<and> as_channelID w = ch \<and> as_publisher w = c'"
    if "map_of (streams_in ?s ch) c' = Some r'" for ch c' r'
    using I(6)[of ch c' r'] that l at by (auto simp: M live_def)
  show "\<exists>w. live ?s (st_stream st) w \<and> (if st_publisher st then as_publisher w = c' else c' \<in> set (as_viewers w))"
    if st: "map_of (t_byClient ?s) c' = Some st" for c' st
  proof (cases "c' = c")
    case True
    then have "st_stream st = r" "\<not> st_publisher st" using st by (auto simp: M)
    then show ?thesis using True by (auto simp: L)
  next
    case False
    then obtain w where w: "live s (st_stream st) w"
      "if st_publisher st then as_publisher w = c' else c' \<in> set (as_viewers w)"
      using st I(7)[of c' st] by (auto simp: M)
    show ?thesis
    proof (cases "st_stream st = r")
      case True
      then have "w = v" using w(1) l by (simp add: live_def)
      then show ?thesis using w True by (auto simp: L split: if_splits)
    next
      case False
      then show ?thesis using w by (auto simp: L)
    qed
  qed
  show "distinct (as_viewers w) \<and>
        length (as_viewers w) \<le> (if as_mode w = StreamModeP2P then mP else mS) \<and> as_publisher w \<noteq> nil \<and>
        (\<exists>st. map_of (t_byClient ?s) (as_publisher w) = Some st \<and> st_publisher st \<and> st_stream st = r') \<and>
        (\<forall>x \<in> set (as_viewers w). \<exists>st. map_of (t_byClient ?s) x = Some st \<and>
           \<not> st_publisher st \<and> st_stream st = r')" if lw: "live ?s r' w" for r' w
  proof (cases "r' = r")
    case True
    then have w: "w = ?v" using lw L by simp
    have "length (List.insert c (as_viewers v)) = Suc (length (as_viewers v))"
      using notin(2)[OF l] by (simp add: List.insert_def)
    then show ?thesis
      using I(8)[OF l] notin[OF l] len True unfolding w
      by (auto simp: M split: if_splits)
  next
    case False
    then have l': "live s r' w" using lw L by simp
    then show ?thesis using I(8)[OF l'] notin[OF l'] by (auto simp: M)
  qed
qed


subsection \<open>Leaving a stream\<close>

lemma fold_delete_map_of:
  "map_of (fold AList.delete ks m) k = (if k \<in> set ks then None else map_of m k)"
  by (induction ks arbitrary: m) auto

lemma fold_delete_distinct: "distinct (map fst m) \<Longrightarrow> distinct (map fst (fold AList.delete ks m))"
  by (induction ks arbitrary: m) auto

lemma fold_delete_length: "length (fold AList.delete ks m) \<le> length m"
proof (induction ks arbitrary: m)
  case (Cons k ks)
  show ?case using Cons.IH[of "AList.delete k m"] length_delete_le[of k m] by simp
qed simp

definition without_stream :: "streamState \<Rightarrow> activeStream \<Rightarrow> streamState" where
  "without_stream s v =
     (let room = AList.delete (as_publisher v) (streams_in s (as_channelID v)) in
      s\<lparr> t_byChannel := (if length room = 0 then AList.delete (as_channelID v) (t_byChannel s)
            else AList.update (as_channelID v) room (t_byChannel s)),
         t_byClient := fold AList.delete (as_viewers v) (AList.delete (as_publisher v) (t_byClient s)) \<rparr>)"

definition without_viewer :: "streamState \<Rightarrow> cref \<Rightarrow> sref \<Rightarrow> streamState" where
  "without_viewer s c r =
     s\<lparr> t_heap := AList.update r ((stream_at s r)\<lparr> as_viewers := removeAll c (as_viewers (stream_at s r)) \<rparr>)
          (t_heap s),
        t_byClient := AList.delete c (t_byClient s) \<rparr>"

lemma stream_leave_cases:
  "stream_leave s c =
     (case map_of (t_byClient s) c of
        None \<Rightarrow> (s, nil, False, False)
      | Some st \<Rightarrow> if st_publisher st
          then (without_stream s (stream_at s (st_stream st)), st_stream st, True, True)
          else (without_viewer s c (st_stream st), st_stream st, False, True))"
  by (simp add: stream_leave_def without_stream_def without_viewer_def Let_def split: option.splits)

lemma without_stream_maps:
  "streams_in (without_stream s v) ch =
     (if ch = as_channelID v then AList.delete (as_publisher v) (streams_in s ch) else streams_in s ch)"
  "t_heap (without_stream s v) = t_heap s" "t_nextRef (without_stream s v) = t_nextRef s"
  "t_nextGeneration (without_stream s v) = t_nextGeneration s"
  "map_of (t_byClient (without_stream s v)) c =
     (if c = as_publisher v \<or> c \<in> set (as_viewers v) then None else map_of (t_byClient s) c)"
  by (simp_all add: without_stream_def Let_def streams_in_def fold_delete_map_of)

lemma without_stream_live:
  assumes inv: "stream_inv mS mP s" and l: "live s r v"
  shows "live (without_stream s v) r' w \<longleftrightarrow> r' \<noteq> r \<and> live s r' w"
proof -
  have "as_publisher w \<noteq> as_publisher v" if "live s r' w" "r' \<noteq> r"
    using live_publisher_unique[OF inv that(1) l] that(2) by metis
  moreover have "map_of (t_heap s) r = Some w \<Longrightarrow> w = v" using l by (simp add: live_def)
  ultimately show ?thesis unfolding live_def without_stream_maps by auto
qed

lemma without_stream_inv:
  assumes inv: "stream_inv mS mP s" and l: "live s r v"
  shows "stream_inv mS mP (without_stream s v)"
proof (rule stream_invI)
  let ?s = "without_stream s v"
  note I = stream_invD[OF inv] and L = without_stream_live[OF inv l] and M = without_stream_maps
  have uniq: "c \<noteq> as_publisher v \<and> c \<notin> set (as_viewers v)"
    if "map_of (t_byClient s) c = Some st" "st_stream st \<noteq> r" for c st
    using I(8)[OF l] that by auto
  show "distinct (map fst (t_byChannel ?s))" "distinct (map fst (t_byClient ?s))"
    using I(1,2) by (simp_all add: without_stream_def Let_def fold_delete_distinct)
  show "0 < t_nextRef ?s" "\<And>r' w. map_of (t_heap ?s) r' = Some w \<Longrightarrow> 0 < r' \<and> r' < t_nextRef ?s"
    using I(3,4) by (simp_all add: M)
  show "room \<noteq> [] \<and> distinct (map fst room) \<and> length room \<le> MaxChannelPublishers"
    if "map_of (t_byChannel ?s) ch = Some room" for ch room
  proof (cases "ch = as_channelID v")
    case True
    then have "room = AList.delete (as_publisher v) (streams_in s ch)" "room \<noteq> []"
      using that by (auto simp: without_stream_def Let_def split: if_splits)
    then show ?thesis
      using streams_in_facts[OF inv, of ch] length_delete_le[of "as_publisher v" "streams_in s ch"] by simp
  next
    case False
    then show ?thesis using that I(5) by (auto simp: without_stream_def Let_def split: if_splits)
  qed
  show "\<exists>w. map_of (t_heap ?s) r' = Some w \<and> as_channelID w = ch \<and> as_publisher w = c'"
    if "map_of (streams_in ?s ch) c' = Some r'" for ch c' r'
    using I(6)[of ch c' r'] that by (auto simp: M split: if_splits)
  show "\<exists>w. live ?s (st_stream st) w \<and> (if st_publisher st then as_publisher w = c' else c' \<in> set (as_viewers w))"
    if st: "map_of (t_byClient ?s) c' = Some st" for c' st
  proof -
    have st': "map_of (t_byClient s) c' = Some st" and nv: "c' \<noteq> as_publisher v" "c' \<notin> set (as_viewers v)"
      using st by (auto simp: M split: if_splits)
    obtain w where w: "live s (st_stream st) w"
      "if st_publisher st then as_publisher w = c' else c' \<in> set (as_viewers w)" using I(7)[OF st'] by blast
    have "st_stream st \<noteq> r"
    proof
      assume "st_stream st = r"
      then have "w = v" using w(1) l by (simp add: live_def)
      then show False using w(2) nv by (simp split: if_splits)
    qed
    then show ?thesis using w L by blast
  qed
  show "distinct (as_viewers w) \<and>
        length (as_viewers w) \<le> (if as_mode w = StreamModeP2P then mP else mS) \<and> as_publisher w \<noteq> nil \<and>
        (\<exists>st. map_of (t_byClient ?s) (as_publisher w) = Some st \<and> st_publisher st \<and> st_stream st = r') \<and>
        (\<forall>x \<in> set (as_viewers w). \<exists>st. map_of (t_byClient ?s) x = Some st \<and>
           \<not> st_publisher st \<and> st_stream st = r')" if lw: "live ?s r' w" for r' w
  proof -
    have l': "live s r' w" "r' \<noteq> r" using lw L by auto
    have keep: "map_of (t_byClient ?s) x = Some st" if "map_of (t_byClient s) x = Some st" "st_stream st = r'" for x st
      using uniq[OF that(1)] that l'(2) by (simp add: M)
    note F = I(8)[OF l'(1)]
    obtain st where st: "map_of (t_byClient s) (as_publisher w) = Some st" "st_publisher st" "st_stream st = r'"
      using F by blast
    have "\<exists>st. map_of (t_byClient ?s) x = Some st \<and> \<not> st_publisher st \<and> st_stream st = r'"
      if "x \<in> set (as_viewers w)" for x using F that keep by blast
    then show ?thesis using F keep[OF st(1,3)] st by blast
  qed
qed


lemma without_viewer_maps:
  "streams_in (without_viewer s c r) ch = streams_in s ch"
  "map_of (t_heap (without_viewer s c r)) r' =
     (if r' = r then Some ((stream_at s r)\<lparr> as_viewers := removeAll c (as_viewers (stream_at s r)) \<rparr>)
      else map_of (t_heap s) r')"
  "map_of (t_byClient (without_viewer s c r)) c' = (if c' = c then None else map_of (t_byClient s) c')"
  "t_nextGeneration (without_viewer s c r) = t_nextGeneration s"
  by (simp_all add: without_viewer_def streams_in_def)

lemma without_viewer_live:
  assumes "live s r v"
  shows "live (without_viewer s c r) r' w \<longleftrightarrow>
    (if r' = r then w = v\<lparr> as_viewers := removeAll c (as_viewers v) \<rparr> else live s r' w)"
  using assms live_stream_at[OF assms] by (auto simp: live_def without_viewer_maps)

lemma without_viewer_inv:
  assumes inv: "stream_inv mS mP s" and st: "map_of (t_byClient s) c = Some st" "\<not> st_publisher st"
    and r: "st_stream st = r"
  shows "stream_inv mS mP (without_viewer s c r)"
proof (rule stream_invI)
  let ?s = "without_viewer s c r"
  note I = stream_invD[OF inv] and M = without_viewer_maps
  obtain v where l: "live s r v" and cv: "c \<in> set (as_viewers v)" using I(7)[OF st(1)] st(2) r by auto
  note L = without_viewer_live[OF l] and at = live_stream_at[OF l]
  let ?v = "v\<lparr> as_viewers := removeAll c (as_viewers v) \<rparr>"
  show "distinct (map fst (t_byChannel ?s))" "distinct (map fst (t_byClient ?s))" "0 < t_nextRef ?s"
    using I(1,2,4) by (simp_all add: without_viewer_def)
  show "0 < r' \<and> r' < t_nextRef ?s" if "map_of (t_heap ?s) r' = Some w" for r' w
    using that I(3) l by (auto simp: without_viewer_def live_def split: if_splits)
  show "room \<noteq> [] \<and> distinct (map fst room) \<and> length room \<le> MaxChannelPublishers"
    if "map_of (t_byChannel ?s) ch = Some room" for ch room
    using that I(5) by (simp add: without_viewer_def)
  show "\<exists>w. map_of (t_heap ?s) r' = Some w \<and> as_channelID w = ch \<and> as_publisher w = c'"
    if "map_of (streams_in ?s ch) c' = Some r'" for ch c' r'
    using I(6)[of ch c' r'] that l at by (auto simp: M live_def)
  show "\<exists>w. live ?s (st_stream st') w \<and> (if st_publisher st' then as_publisher w = c' else c' \<in> set (as_viewers w))"
    if st': "map_of (t_byClient ?s) c' = Some st'" for c' st'
  proof -
    have ne: "c' \<noteq> c" "map_of (t_byClient s) c' = Some st'" using st' by (auto simp: M split: if_splits)
    obtain w where w: "live s (st_stream st') w"
      "if st_publisher st' then as_publisher w = c' else c' \<in> set (as_viewers w)" using I(7)[OF ne(2)] by blast
    show ?thesis
    proof (cases "st_stream st' = r")
      case True
      then have "w = v" using w(1) l by (simp add: live_def)
      then show ?thesis using w True ne(1) by (auto simp: L split: if_splits)
    next
      case False
      then show ?thesis using w by (auto simp: L)
    qed
  qed
  show "distinct (as_viewers w) \<and>
        length (as_viewers w) \<le> (if as_mode w = StreamModeP2P then mP else mS) \<and> as_publisher w \<noteq> nil \<and>
        (\<exists>st. map_of (t_byClient ?s) (as_publisher w) = Some st \<and> st_publisher st \<and> st_stream st = r') \<and>
        (\<forall>x \<in> set (as_viewers w). \<exists>st. map_of (t_byClient ?s) x = Some st \<and>
           \<not> st_publisher st \<and> st_stream st = r')" if lw: "live ?s r' w" for r' w
  proof (cases "r' = r")
    case True
    then have w: "w = ?v" using lw L by simp
    have "as_publisher v \<noteq> c" using I(8)[OF l] st by auto
    then show ?thesis
      using I(8)[OF l] True unfolding w
      by (auto simp: M distinct_removeAll intro: le_trans[OF length_removeAll_less_eq] split: if_splits)
  next
    case False
    then have l': "live s r' w" using lw L by simp
    have "c \<noteq> as_publisher w" "c \<notin> set (as_viewers w)" using I(8)[OF l'] st r False by auto
    then show ?thesis using I(8)[OF l'] by (auto simp: M)
  qed
qed

lemma stream_leave_facts:
  assumes inv: "stream_inv mS mP s" and r: "stream_leave s c = (s', ref, pub, ex)"
  shows "stream_inv mS mP s'" "ex \<longleftrightarrow> map_of (t_byClient s) c \<noteq> None"
    "map_of (t_byClient s') c = None" "\<not> ex \<Longrightarrow> s' = s"
    "\<And>c'. map_of (t_byClient s') c' = None \<or> map_of (t_byClient s') c' = map_of (t_byClient s) c'"
    "ex \<Longrightarrow> length (t_byClient s') < length (t_byClient s)"
    "ex \<Longrightarrow> live s ref (stream_at s ref)"
    "ex \<Longrightarrow> pub \<Longrightarrow> as_publisher (stream_at s ref) = c"
    "ex \<Longrightarrow> pub \<Longrightarrow> \<forall>w. \<not> live s' ref w"
    "length (t_byClient s') \<le> length (t_byClient s)"
    "\<And>r'. as_serverID (stream_at s' r') = as_serverID (stream_at s r') \<and>
       as_publisher (stream_at s' r') = as_publisher (stream_at s r') \<and>
       as_channelID (stream_at s' r') = as_channelID (stream_at s r')"
proof -
  note I = stream_invD[OF inv]
  have "stream_inv mS mP s' \<and> (ex \<longleftrightarrow> map_of (t_byClient s) c \<noteq> None) \<and>
    map_of (t_byClient s') c = None \<and> (\<not> ex \<longrightarrow> s' = s) \<and>
    (\<forall>c'. map_of (t_byClient s') c' = None \<or> map_of (t_byClient s') c' = map_of (t_byClient s) c') \<and>
    (ex \<longrightarrow> length (t_byClient s') < length (t_byClient s)) \<and>
    (ex \<longrightarrow> live s ref (stream_at s ref)) \<and> (ex \<longrightarrow> pub \<longrightarrow> as_publisher (stream_at s ref) = c) \<and>
    (ex \<longrightarrow> pub \<longrightarrow> (\<forall>w. \<not> live s' ref w)) \<and>
    (\<forall>r'. as_serverID (stream_at s' r') = as_serverID (stream_at s r') \<and>
       as_publisher (stream_at s' r') = as_publisher (stream_at s r') \<and>
       as_channelID (stream_at s' r') = as_channelID (stream_at s r'))"
  proof (cases "map_of (t_byClient s) c")
    case None
    then show ?thesis using r inv by (simp add: stream_leave_cases)
  next
    case (Some st)
    then obtain v where l: "live s (st_stream st) v"
      and p: "if st_publisher st then as_publisher v = c else c \<in> set (as_viewers v)"
      using I(7) by blast
    note at = live_stream_at[OF l]
    have del: "length (AList.delete c (t_byClient s)) < length (t_byClient s)"
      using length_delete_present[OF I(2) Some] by simp
    show ?thesis
    proof (cases "st_publisher st")
      case True
      then have e: "s' = without_stream s v" "ref = st_stream st" "pub" "ex" "as_publisher v = c"
        using r Some at p by (auto simp: stream_leave_cases)
      have "length (t_byClient (without_stream s v)) < length (t_byClient s)"
        using fold_delete_length[of "as_viewers v" "AList.delete c (t_byClient s)"] del e(5)
        by (simp add: without_stream_def Let_def)
      then show ?thesis
        using without_stream_inv[OF inv l] e Some l at without_stream_live[OF inv l]
        by (simp add: without_stream_maps) (simp add: stream_at_def without_stream_maps)
    next
      case False
      then have e: "s' = without_viewer s c (st_stream st)" "ref = st_stream st" "\<not> pub" "ex"
        using r Some by (auto simp: stream_leave_cases)
      then show ?thesis
        using without_viewer_inv[OF inv Some False refl] Some l at del
        by (simp add: without_viewer_maps) (simp add: without_viewer_def stream_at_def)
    qed
  qed
  then show "stream_inv mS mP s'" "ex \<longleftrightarrow> map_of (t_byClient s) c \<noteq> None"
    "map_of (t_byClient s') c = None" "\<not> ex \<Longrightarrow> s' = s"
    "\<And>c'. map_of (t_byClient s') c' = None \<or> map_of (t_byClient s') c' = map_of (t_byClient s) c'"
    "ex \<Longrightarrow> length (t_byClient s') < length (t_byClient s)"
    "ex \<Longrightarrow> live s ref (stream_at s ref)"
    "ex \<Longrightarrow> pub \<Longrightarrow> as_publisher (stream_at s ref) = c"
    "ex \<Longrightarrow> pub \<Longrightarrow> \<forall>w. \<not> live s' ref w"
    "length (t_byClient s') \<le> length (t_byClient s)"
    "\<And>r'. as_serverID (stream_at s' r') = as_serverID (stream_at s r') \<and>
       as_publisher (stream_at s' r') = as_publisher (stream_at s r') \<and>
       as_channelID (stream_at s' r') = as_channelID (stream_at s r')"
    by (cases ex; simp add: less_imp_le)+
qed


subsection \<open>Reachable directories\<close>

inductive stream_step :: "nat \<Rightarrow> nat \<Rightarrow> streamState \<Rightarrow> streamState \<Rightarrow> bool" for mS mP where
  start: "c \<noteq> nil \<Longrightarrow> stream_start cl s c p mode codec audio rends now = (s', r) \<Longrightarrow> stream_step mS mP s s'"
| watch: "stream_watch cl s c p mS mP ranges profiles pc = (s', w) \<Longrightarrow> stream_step mS mP s s'"
| leave: "stream_leave s c = (s', l) \<Longrightarrow> stream_step mS mP s s'"

inductive stream_reachable :: "nat \<Rightarrow> nat \<Rightarrow> streamState \<Rightarrow> bool" for mS mP where
  init: "stream_reachable mS mP newStreamState"
| step: "stream_reachable mS mP s \<Longrightarrow> stream_step mS mP s s' \<Longrightarrow> stream_reachable mS mP s'"

lemma stream_start_inv:
  assumes inv: "stream_inv mS mP s" and c: "c \<noteq> nil"
    and r: "stream_start cl s c p mode codec audio rends now = (s', res)"
  shows "stream_inv mS mP s'"
proof (cases "s' = s")
  case True
  then show ?thesis using inv by simp
next
  case False
  then show ?thesis
    using r c with_stream_inv[OF inv] stream_active_iff[OF inv, of c]
    by (auto simp: stream_start_cases Let_def split: if_splits)
qed

lemma stream_watch_inv:
  assumes inv: "stream_inv mS mP s" and r: "stream_watch cl s c p mS mP ranges profiles pc = (s', w)"
  shows "stream_inv mS mP s'"
  by (rule stream_watch_cases[OF inv, of cl c p ranges profiles pc])
    (use inv r with_viewer_inv[OF inv] in auto)

lemma stream_reachable_inv: "stream_reachable mS mP s \<Longrightarrow> stream_inv mS mP s"
proof (induction rule: stream_reachable.induct)
  case init
  then show ?case by (rule stream_inv_new)
next
  case (step s s')
  from step(2) show ?case
  proof cases
    case (leave c l)
    then show ?thesis using stream_leave_facts(1)[OF step(3)] by (cases l) auto
  next
    case (start c cl p mode codec audio rends now r)
    then show ?thesis by (intro stream_start_inv[OF step(3)])
  next
    case (watch cl c p ranges profiles pc w)
    then show ?thesis by (intro stream_watch_inv[OF step(3)])
  qed
qed

subsection \<open>Which stream a viewer gets\<close>

definition start_order :: "(cref \<Rightarrow> Client) \<Rightarrow> streamState \<Rightarrow> sref \<Rightarrow> int \<times> string" where
  "start_order cl s r =
     (as_startedAt (stream_at s r), c_connectionID (cl (as_publisher (stream_at s r))))"

definition wanted :: "(cref \<Rightarrow> Client) \<Rightarrow> streamState \<Rightarrow> string \<Rightarrow> sref \<Rightarrow> bool" where
  "wanted cl s pc r \<longleftrightarrow> pc = [] \<or> c_connectionID (cl (as_publisher (stream_at s r))) = pc"

lemma watch_pick_eq:
  "watch_pick cl s pc x r =
     (if wanted cl s pc (snd x) \<and> (r = nil \<or> start_order cl s (snd x) < start_order cl s r) then snd x else r)"
  by (auto simp: watch_pick_def wanted_def start_order_def less_prod_def' Let_def)

lemma watch_pick_least:
  assumes "\<forall>x \<in> set xs. snd x \<noteq> nil"
  shows "(r0 \<noteq> nil \<longrightarrow> wanted cl s pc r0) \<Longrightarrow>
    (let r = fold (watch_pick cl s pc) xs r0 in
     (r = nil \<longleftrightarrow> r0 = nil \<and> (\<forall>x \<in> set xs. \<not> wanted cl s pc (snd x))) \<and>
     (r \<noteq> nil \<longrightarrow> wanted cl s pc r \<and> (r0 \<noteq> nil \<longrightarrow> start_order cl s r \<le> start_order cl s r0) \<and>
        (\<forall>x \<in> set xs. wanted cl s pc (snd x) \<longrightarrow> start_order cl s r \<le> start_order cl s (snd x))))"
  using assms
proof (induction xs arbitrary: r0)
  case (Cons x xs)
  let ?r = "watch_pick cl s pc x r0"
  have r: "?r = (if wanted cl s pc (snd x) \<and> (r0 = nil \<or> start_order cl s (snd x) < start_order cl s r0)
     then snd x else r0)" by (rule watch_pick_eq)
  have w: "?r \<noteq> nil \<longrightarrow> wanted cl s pc ?r" using Cons.prems(1) r by auto
  from Cons.IH[OF w] Cons.prems show ?case
    by (auto simp: Let_def r split: if_splits)
qed simp


subsection \<open>Properties\<close>

definition sample_codec :: string where "sample_codec = ''vp8''"

definition sample_participant :: VoiceParticipantData where
  "sample_participant = zero_participant\<lparr> vp_UserID := 7, vp_ServerID := 1, vp_ChannelID := 5 \<rparr>"

definition sample_clients :: "cref \<Rightarrow> Client" where
  "sample_clients r = (if r = 1 then sample_client else sample_client2)"

definition sample_streams :: streamState where
  "sample_streams =
     fst (stream_watch sample_clients
       (fst (stream_start sample_clients newStreamState 1 sample_participant StreamModeP2P sample_codec True
          [legacySDRStreamRendition sample_codec] 0))
       2 sample_participant 32 8 [] [] [])"

lemma sample_streams_reachable: "stream_reachable 32 8 sample_streams"
proof -
  obtain s1 r1 where 1: "stream_start sample_clients newStreamState 1 sample_participant StreamModeP2P
      sample_codec True [legacySDRStreamRendition sample_codec] 0 = (s1, r1)" by fastforce
  have s1: "stream_reachable 32 8 s1"
    by (rule stream_reachable.step[OF stream_reachable.init stream_step.start[OF _ 1]]) simp
  obtain s2 r2 where 2: "stream_watch sample_clients s1 2 sample_participant 32 8 [] [] [] = (s2, r2)"
    by fastforce
  have "stream_reachable 32 8 s2" by (rule stream_reachable.step[OF s1 stream_step.watch[OF 2]])
  then show ?thesis unfolding sample_streams_def 1 fst_conv 2 .
qed

text \<open>C21: In every reachable stream directory a channel has at most eight publishers, a stream at
  most as many viewers as its mode allows, each counted once, and a connection takes part in at
  most one live stream, either as its publisher or as one of its viewers.\<close>

theorem stream_limits:
  assumes "stream_reachable maxServer maxP2P s"
  shows "length (streams_in s ch) \<le> 8 \<and>
    (\<forall>r v. live s r v \<longrightarrow> distinct (as_viewers v) \<and> as_publisher v \<notin> set (as_viewers v) \<and>
       length (as_viewers v) \<le> (if as_mode v = StreamModeP2P then maxP2P else maxServer)) \<and>
    (\<forall>r v r' v' c. live s r v \<longrightarrow> live s r' v' \<longrightarrow>
       c \<in> insert (as_publisher v) (set (as_viewers v)) \<longrightarrow>
       c \<in> insert (as_publisher v') (set (as_viewers v')) \<longrightarrow> r = r')"
proof -
  note inv = stream_reachable_inv[OF assms]
  note I = stream_invD[OF inv]
  have pub: "as_publisher v \<notin> set (as_viewers v)" if "live s r v" for r v
    using I(8)[OF that] by auto
  have one: "r = r'" if "live s r v" "live s r' v'" "c \<in> insert (as_publisher v) (set (as_viewers v))"
    "c \<in> insert (as_publisher v') (set (as_viewers v'))" for r v r' v' c
  proof -
    have a: "\<exists>st. map_of (t_byClient s) c = Some st \<and> st_stream st = r"
      using I(8)[OF that(1)] that(3) by auto
    have b: "\<exists>st. map_of (t_byClient s) c = Some st \<and> st_stream st = r'"
      using I(8)[OF that(2)] that(4) by auto
    from a b show ?thesis by auto
  qed
  have len: "length (streams_in s ch) \<le> 8"
    using streams_in_facts(2)[OF inv] by (simp add: MaxChannelPublishers_def)
  show ?thesis using len pub I(8) one by blast
qed

theorem stream_limits_witness:
  "length (streams_in sample_streams 5) \<le> 8 \<and> length (streams_in sample_streams 5) = 1"
proof -
  have "length (streams_in sample_streams 5) = 1" by code_simp
  then show ?thesis using stream_limits[OF sample_streams_reachable, of 5] by simp
qed

text \<open>When a publisher leaves, its stream is gone from the directory together with the membership
  of every viewer, and other streams and memberships are untouched; when a viewer leaves, only
  its own membership and place in the viewer set go.\<close>

theorem stream_leave_exact:
  assumes "stream_reachable maxServer maxP2P s" "map_of (t_byClient s) c = Some st"
    and "stream_leave s c = (s', ref, pub, ex)"
  shows "ex \<and> ref = st_stream st \<and> (pub \<longleftrightarrow> st_publisher st) \<and>
    (pub \<longrightarrow> (\<forall>r v. live s' r v \<longleftrightarrow> live s r v \<and> r \<noteq> ref) \<and>
       (\<forall>c'. map_of (t_byClient s') c' =
          (if c' = c \<or> c' \<in> set (as_viewers (stream_at s ref)) then None else map_of (t_byClient s) c'))) \<and>
    (\<not> pub \<longrightarrow> (\<forall>r v. live s' r v \<longleftrightarrow> (if r = ref
          then v = (stream_at s ref)\<lparr> as_viewers := removeAll c (as_viewers (stream_at s ref)) \<rparr>
          else live s r v)) \<and>
       (\<forall>c'. map_of (t_byClient s') c' = (if c' = c then None else map_of (t_byClient s) c')))"
proof -
  note inv = stream_reachable_inv[OF assms(1)]
  obtain v where l: "live s (st_stream st) v"
    and p: "if st_publisher st then as_publisher v = c else c \<in> set (as_viewers v)"
    using stream_invD(7)[OF inv assms(2)] by blast
  note at = live_stream_at[OF l]
  show ?thesis
    using assms(2,3) p at without_stream_live[OF inv l] without_viewer_live[OF l]
    by (auto simp: stream_leave_cases without_stream_maps without_viewer_maps split: if_splits)
qed

theorem stream_leave_exact_witness:
  "\<exists>s' ref. stream_leave sample_streams 1 = (s', ref, True, True) \<and> map_of (t_byClient s') 2 = None"
proof -
  have m: "map_option st_publisher (map_of (t_byClient sample_streams) 1) = Some True"
    "as_viewers (stream_at sample_streams (st_stream (the (map_of (t_byClient sample_streams) 1)))) = [2]"
    by code_simp+
  then obtain st where st: "map_of (t_byClient sample_streams) 1 = Some st" "st_publisher st" by auto
  obtain s' ref pub ex where l: "stream_leave sample_streams 1 = (s', ref, pub, ex)"
    by (cases "stream_leave sample_streams 1") auto
  from stream_leave_exact[OF sample_streams_reachable st(1) l] st m l show ?thesis by auto
qed

text \<open>A viewer that names no publisher is given the stream of its channel that started first, ties
  broken by connection id; a viewer that names one is given that publisher's stream. The
  stream is in the viewer's channel and server, the viewer was in no stream, and the rendition
  is one of the stream's renditions. Watching fails for a lack of capacity only when the chosen
  stream is full.\<close>

theorem stream_watch_choice:
  assumes "stream_reachable maxServer maxP2P s"
    and "stream_watch cl s c p maxServer maxP2P ranges profiles pc = (s', Inr (d, pub, sel))"
  shows "\<exists>r. map_of (streams_in s (vp_ChannelID p)) pub = Some r \<and> wanted cl s pc r \<and>
    (\<forall>c' r'. map_of (streams_in s (vp_ChannelID p)) c' = Some r' \<longrightarrow> wanted cl s pc r' \<longrightarrow>
       start_order cl s r \<le> start_order cl s r') \<and>
    sa_ChannelID d = vp_ChannelID p \<and> sa_ServerID d = vp_ServerID p \<and> pub \<noteq> c \<and>
    sa_PublisherConnectionID d = c_connectionID (cl pub) \<and>
    sa_ViewerCount d = int (length (as_viewers (stream_at s r))) + 1 \<and>
    map_of (t_byClient s) c = None \<and> c \<in> set (as_viewers (stream_at s' r)) \<and>
    sel = selectStreamRendition (as_renditions (stream_at s r)) ranges profiles"
proof (rule stream_watch_cases[OF stream_reachable_inv[OF assms(1)], of cl c p ranges profiles pc])
  fix e assume "stream_watch cl s c p maxServer maxP2P ranges profiles pc = (s, Inl e)"
  then show ?thesis using assms(2) by simp
next
  fix pub' r v selected
  assume w: "stream_watch cl s c p maxServer maxP2P ranges profiles pc =
        (with_viewer s c r selected, Inr (streamData cl (stream_at (with_viewer s c r selected) r), pub', selected))"
      "map_of (streams_in s (vp_ChannelID p)) pub' = Some r" "v = stream_at s r" "live s r v"
      "as_publisher v = pub'" "pub' \<noteq> c" "as_serverID v = vp_ServerID p" "as_channelID v = vp_ChannelID p"
      "map_of (t_byClient s) c = None"
      "selected = selectStreamRendition (as_renditions v) ranges profiles"
      "r = fold (watch_pick cl s pc) (streams_in s (vp_ChannelID p)) nil"
  note inv = stream_reachable_inv[OF assms(1)]
  note I = stream_invD[OF inv] and F = streams_in_facts(1)[OF inv]
  have nn: "snd x \<noteq> nil" if "x \<in> set (streams_in s (vp_ChannelID p))" for x
  proof -
    have "map_of (streams_in s (vp_ChannelID p)) (fst x) = Some (snd x)"
      using map_of_is_SomeI[OF F, of "fst x" "snd x"] that by simp
    from I(6)[OF this] I(3) show ?thesis by blast
  qed
  have r0: "r \<noteq> nil" using nn map_of_SomeD[OF w(2)] by force
  have least: "wanted cl s pc r" "\<And>x. x \<in> set (streams_in s (vp_ChannelID p)) \<Longrightarrow>
      wanted cl s pc (snd x) \<Longrightarrow> start_order cl s r \<le> start_order cl s (snd x)"
    using watch_pick_least[of "streams_in s (vp_ChannelID p)" nil cl s pc] nn r0
    unfolding w(11)[symmetric] Let_def by auto
  have vn: "c \<notin> set (as_viewers v)" using I(8)[OF w(4)] w(9) by auto
  have res: "s' = with_viewer s c r selected" "pub = pub'" "sel = selected"
    "d = streamData cl (stream_at (with_viewer s c r selected) r)" using assms(2) w(1) by auto
  have at: "stream_at s' r = v\<lparr> as_viewers := List.insert c (as_viewers v) \<rparr>"
    by (simp add: res with_viewer_def stream_at_def w(3))
  show ?thesis
    by (rule exI[of _ r])
      (use w least vn res at in \<open>auto simp: streamData_def List.insert_def dest: map_of_SomeD\<close>)
qed


definition sample_stream :: streamState where
  "sample_stream = fst (stream_start sample_clients newStreamState 1 sample_participant StreamModeP2P
     sample_codec True [legacySDRStreamRendition sample_codec] 0)"

theorem stream_watch_choice_witness:
  "\<exists>s' d sel. stream_watch sample_clients sample_stream 2 sample_participant 32 8 [] [] [] = (s', Inr (d, 1, sel)) \<and>
     sa_ViewerCount d = 1 + int (length (as_viewers (stream_at sample_stream 1)))"
proof -
  obtain s1 r1 where 1: "stream_start sample_clients newStreamState 1 sample_participant StreamModeP2P
      sample_codec True [legacySDRStreamRendition sample_codec] 0 = (s1, r1)" by fastforce
  have r: "stream_reachable 32 8 sample_stream" unfolding sample_stream_def 1 fst_conv
    by (rule stream_reachable.step[OF stream_reachable.init stream_step.start[OF _ 1]]) simp
  have e: "(case snd (stream_watch sample_clients sample_stream 2 sample_participant 32 8 [] [] []) of
      Inr (_, p, _) \<Rightarrow> p = 1 | _ \<Rightarrow> False)" "map_of (streams_in sample_stream 5) 1 = Some 1"
    "vp_ChannelID sample_participant = 5" by code_simp+
  obtain s' d sel where w: "stream_watch sample_clients sample_stream 2 sample_participant 32 8 [] [] [] =
      (s', Inr (d, 1, sel))"
    using e(1) by (cases "stream_watch sample_clients sample_stream 2 sample_participant 32 8 [] [] []")
      (auto split: sum.splits)
  from stream_watch_choice[OF r w] e w show ?thesis by auto
qed

text \<open>A peer-to-peer signal is only ever routed between the publisher of a live P2P stream and one
  of its viewers.\<close>

theorem p2p_relation_confined:
  assumes "stream_reachable maxServer maxP2P s"
    and "stream_relationship cl s sender targetConnectionID = (target, senderIsPublisher, True)"
  shows "\<exists>r v. live s r v \<and> as_mode v = StreamModeP2P \<and> c_connectionID (cl target) = targetConnectionID \<and>
    (if senderIsPublisher then sender = as_publisher v \<and> target \<in> set (as_viewers v)
     else sender \<in> set (as_viewers v) \<and> target = as_publisher v)"
proof -
  note inv = stream_reachable_inv[OF assms(1)]
  obtain st where st: "map_of (t_byClient s) sender = Some st"
    using assms(2) by (auto simp: stream_relationship_def split: option.splits)
  obtain v where l: "live s (st_stream st) v"
    and p: "if st_publisher st then as_publisher v = sender else sender \<in> set (as_viewers v)"
    using stream_invD(7)[OF inv st] by blast
  have "as_mode v = StreamModeP2P \<and> c_connectionID (cl target) = targetConnectionID \<and>
    (if senderIsPublisher then sender = as_publisher v \<and> target \<in> set (as_viewers v)
     else sender \<in> set (as_viewers v) \<and> target = as_publisher v)"
    using assms(2) st live_stream_at[OF l] p
    by (auto simp: stream_relationship_def Let_def find_Some_iff split: if_splits option.splits)
  then show ?thesis using l by blast
qed

theorem p2p_relation_confined_witness:
  "\<exists>r v. live sample_streams r v \<and> as_mode v = StreamModeP2P \<and> 2 \<in> set (as_viewers v)"
proof -
  have "stream_relationship sample_clients sample_streams 1 (c_connectionID sample_client2) = (2, True, True)"
    by code_simp
  from p2p_relation_confined[OF sample_streams_reachable this] show ?thesis by auto
qed

end
