(* ===== verification/Hub.thy ===== *)
theory Hub
  imports StreamState
begin

text \<open>
  The hub of the real-time layer (src/internal/realtime/hub.go, with the parts of voice_hub.go,
  stream_hub.go, stream_legacy.go and voice_signals.go that \<^verbatim>\<open>Unregister\<close> reaches): the registered
  connections and their indexes, the channel rooms, the presence counters, and the cleanup that
  removes a connection from all of them.

  The state is one record. \<^verbatim>\<open>*Client\<close> values live in \<open>h_heap\<close>; the voice and stream directories
  are components of the state. An operation is modelled as a function of the whole state, so it
  runs from beginning to end without another one in between. This is coarser than the locks of the
  code: an operation takes \<^verbatim>\<open>clientsMu\<close>, the locks of the directories and of the rooms one after the
  other, and only some hold the media lock of the user throughout. The theorems about the hub are
  about calls that do not overlap. Calls that leave the package (the session closers, the
  last-seen saver) are recorded in \<open>h_trace\<close>; calls that return a value (clock, permission
  loaders) are functions of the environment and of the tick, the number of such calls so far, so
  they may answer differently each time.

  \<^verbatim>\<open>Unregister\<close> is recursive through the events it broadcasts: a slow recipient is unregistered
  in turn. Every operation that may unregister a connection takes \<^verbatim>\<open>Unregister\<close> as the argument
  \<open>U\<close>, and \<open>Unregister_fuel\<close> ties the knot with a recursion depth. \<open>None\<close> stands for a panic or for
  running out of depth; \<open>hub_size\<close> bounds the depth that is needed.

  \<open>h_known\<close> is a history variable, the connections that were ever registered.
\<close>

subsection \<open>State\<close>

record room =
  rm_clients :: "cref list"
  rm_closed :: bool

datatype effect =
    LastSeenSaved int int
  | VoiceSessionLeave string
  | StreamSessionLeave string

type_synonym presenceStamp = "int \<times> string"

record hub_env =
  e_channelAccessLoader :: "(nat \<Rightarrow> int \<Rightarrow> unit + int list option) option"
  e_channelAccessBatchLoader :: "(nat \<Rightarrow> int list \<Rightarrow> unit + (int, int list) gomap) option"
  e_rolePermissions :: "(nat \<Rightarrow> int \<Rightarrow> int \<Rightarrow> unit + int) option"
  e_voiceDeviceActive :: "(nat \<Rightarrow> int \<Rightarrow> string \<Rightarrow> unit + bool) option"
  e_lastSeenSaver :: bool
  e_voiceSessions :: bool
  e_streamSessions :: bool
  e_now :: "nat \<Rightarrow> int"

record hub =
  h_closed :: bool
  h_heap :: "(cref, Client) gomap"
  h_known :: "cref list"
  h_clients :: "cref list"
  h_clientsByUser :: "(int, cref list) gomap"
  h_clientsByServer :: "(int, cref list) gomap"
  h_clientsBySession :: "(string, cref list) gomap"
  h_clientsByConnection :: "(string, cref) gomap"
  h_rooms :: "(int, room) gomap"
  h_presence :: "(int, (int, nat) gomap) gomap"
  h_lastSeen :: "(int, presenceStamp) gomap"
  h_voice :: voiceState
  h_streams :: streamState
  h_maxStreamViewers :: nat
  h_maxP2PStreamViewers :: nat
  h_queueFullTotal :: "64 word"
  h_nextConnectionID :: "64 word"
  h_nextEncoding :: nat
  h_tick :: nat
  h_trace :: "effect list"

definition newRoom :: room where
  "newRoom = \<lparr> rm_clients = [], rm_closed = False \<rparr>"

definition NewHub :: hub where
  "NewHub = \<lparr> h_closed = False, h_heap = [], h_known = [], h_clients = [], h_clientsByUser = [],
     h_clientsByServer = [], h_clientsBySession = [], h_clientsByConnection = [], h_rooms = [],
     h_presence = [], h_lastSeen = [], h_voice = newVoiceState, h_streams = newStreamState,
     h_maxStreamViewers = 32, h_maxP2PStreamViewers = 8, h_queueFullTotal = 0,
     h_nextConnectionID = 0, h_nextEncoding = 1, h_tick = 0, h_trace = [] \<rparr>"

definition zero_client :: Client where
  "zero_client = \<lparr> c_channelAccess = None, c_connectionID = [], c_userID = 0, c_sessionKey = [],
     c_outgoing = [], c_priority = [], c_outgoingReady = False, c_priorityBurst = 0,
     c_queueCoalesced = 0, c_queueResyncs = 0, c_queueHighWater = 0, c_messageSync = False,
     c_multipleStreams = False, c_legacyStreams = [], c_done = False, c_closeReason = [],
     c_queueFullLogged = False, c_subscriptions = [], c_servers = [] \<rparr>"

text \<open>\<open>client h c\<close> is the client \<open>c\<close> points to.\<close>

definition client :: "hub \<Rightarrow> cref \<Rightarrow> Client" where
  "client h c = get_or zero_client (h_heap h) c"

definition set_client :: "hub \<Rightarrow> cref \<Rightarrow> Client \<Rightarrow> hub" where
  "set_client h c x = h\<lparr> h_heap := AList.update c x (h_heap h) \<rparr>"

subsection \<open>Rooms\<close>

definition room_add :: "room \<Rightarrow> cref \<Rightarrow> room \<times> bool" where
  "room_add r c =
     (if rm_closed r then (r, False)
      else if List.member (rm_clients r) c then (r, False)
      else (r\<lparr> rm_clients := List.insert c (rm_clients r) \<rparr>, True))"

definition room_remove :: "room \<Rightarrow> cref \<Rightarrow> room \<times> bool" where
  "room_remove r c =
     (if \<not> List.member (rm_clients r) c then (r, False)
      else (r\<lparr> rm_clients := removeAll c (rm_clients r) \<rparr>, True))"

definition room_closeAndSnapshot :: "room \<Rightarrow> room \<times> cref list" where
  "room_closeAndSnapshot r =
     (if rm_closed r then (r, [])
      else (r\<lparr> rm_closed := True, rm_clients := [] \<rparr>, rm_clients r))"

definition getRoom :: "hub \<Rightarrow> int \<Rightarrow> room option" where
  "getRoom h channelID = map_of (h_rooms h) channelID"

definition getOrCreateRoom :: "hub \<Rightarrow> int \<Rightarrow> hub \<times> room" where
  "getOrCreateRoom h channelID =
     (case map_of (h_rooms h) channelID of
        Some r \<Rightarrow> (h, r)
      | None \<Rightarrow> (h\<lparr> h_rooms := AList.update channelID newRoom (h_rooms h) \<rparr>, newRoom))"

definition Unsubscribe :: "hub \<Rightarrow> cref \<Rightarrow> int \<Rightarrow> hub \<times> bool" where
  "Unsubscribe h c channelID =
     (if c = nil \<or> channelID \<le> 0 then (h, False)
      else case getRoom h channelID of
        None \<Rightarrow> (set_client h c (removeSubscription (client h c) channelID), False)
      | Some r \<Rightarrow>
          (let (r', removed) = room_remove r c;
               h1 = h\<lparr> h_rooms := AList.update channelID r' (h_rooms h) \<rparr> in
           (set_client h1 c (removeSubscription (client h1 c) channelID), removed)))"

definition unsubscribeFromServer :: "hub \<Rightarrow> cref \<Rightarrow> int \<Rightarrow> hub" where
  "unsubscribeFromServer h c serverID =
     fold (\<lambda>channelID h. fst (Unsubscribe h c channelID))
       (subscriptionIDsForServer (client h c) serverID) h"

subsection \<open>Sending\<close>

definition hub_enqueue :: "hub \<Rightarrow> cref \<Rightarrow> OutgoingEvent \<Rightarrow> (hub \<times> bool) option" where
  "hub_enqueue h c event =
     (case enqueue (client h c) event of
        None \<Rightarrow> None
      | Some (x, ok) \<Rightarrow>
          Some ((set_client h c x)\<lparr> h_queueFullTotal :=
            (if \<not> c_queueFullLogged (client h c) \<and> c_queueFullLogged x
             then h_queueFullTotal h + 1 else h_queueFullTotal h) \<rparr>, ok))"

definition shareEncoding :: "hub \<Rightarrow> OutgoingEvent \<Rightarrow> hub \<times> OutgoingEvent" where
  "shareEncoding h event =
     (if ev_encoding event = nil
      then (h\<lparr> h_nextEncoding := h_nextEncoding h + 1 \<rparr>, event\<lparr> ev_encoding := h_nextEncoding h \<rparr>)
      else (h, event))"

text \<open>The loop that queues an event for each client, counts deliveries and collects failures.\<close>

fun send_all :: "OutgoingEvent \<Rightarrow> hub \<Rightarrow> cref list \<Rightarrow> (hub \<times> nat \<times> cref list) option" where
  "send_all event h [] = Some (h, 0, [])"
| "send_all event h (c # cs) =
     (case hub_enqueue h c event of
        None \<Rightarrow> None
      | Some (h1, ok) \<Rightarrow>
          (case send_all event h1 cs of
             None \<Rightarrow> None
           | Some (h2, n, failed) \<Rightarrow>
               Some (if ok then (h2, Suc n, failed) else (h2, n, c # failed))))"

definition clientsForServer :: "hub \<Rightarrow> int \<Rightarrow> cref list" where
  "clientsForServer h serverID = get_or [] (h_clientsByServer h) serverID"

type_synonym unreg = "hub \<Rightarrow> cref \<Rightarrow> hub option"

definition broadcastToClients ::
  "unreg \<Rightarrow> hub \<Rightarrow> cref list \<Rightarrow> OutgoingEvent \<Rightarrow> (hub \<times> nat) option" where
  "broadcastToClients U h clients event =
     (let (h1, event1) = shareEncoding h event in
      case send_all event1 h1 (rev (remdups (rev clients))) of
        None \<Rightarrow> None
      | Some (h2, delivered, failed) \<Rightarrow>
          (case foreach U h2 failed of None \<Rightarrow> None | Some h3 \<Rightarrow> Some (h3, delivered)))"

definition PublishToServer :: "unreg \<Rightarrow> hub \<Rightarrow> int \<Rightarrow> OutgoingEvent \<Rightarrow> (hub \<times> nat) option" where
  "PublishToServer U h serverID event =
     (if serverID \<le> 0 then Some (h, 0)
      else broadcastToClients U h (clientsForServer h serverID) event)"

definition publishToServerExcept ::
  "unreg \<Rightarrow> hub \<Rightarrow> int \<Rightarrow> cref \<Rightarrow> OutgoingEvent \<Rightarrow> (hub \<times> nat) option" where
  "publishToServerExcept U h serverID excluded event =
     broadcastToClients U h (filter (\<lambda>c. c \<noteq> excluded) (clientsForServer h serverID)) event"

definition clientByConnectionID :: "hub \<Rightarrow> string \<Rightarrow> cref" where
  "clientByConnectionID h connectionID = get_or nil (h_clientsByConnection h) connectionID"

definition SendToConnection ::
  "unreg \<Rightarrow> hub \<Rightarrow> string \<Rightarrow> OutgoingEvent \<Rightarrow> (hub \<times> bool) option" where
  "SendToConnection U h connectionID event =
     (let c = clientByConnectionID h connectionID in
      if c = nil then Some (h, False)
      else case hub_enqueue h c event of
        None \<Rightarrow> None
      | Some (h1, True) \<Rightarrow> Some (h1, True)
      | Some (h1, False) \<Rightarrow> (case U h1 c of None \<Rightarrow> None | Some h2 \<Rightarrow> Some (h2, False)))"

subsection \<open>Indexes and presence\<close>

definition indexServerLocked :: "hub \<Rightarrow> int \<Rightarrow> cref \<Rightarrow> hub" where
  "indexServerLocked h serverID c =
     h\<lparr> h_clientsByServer := AList.update serverID
          (List.insert c (get_or [] (h_clientsByServer h) serverID)) (h_clientsByServer h) \<rparr>"

text \<open>\<^verbatim>\<open>delete(set, client)\<close> followed by deleting the entry when the set is empty.\<close>

definition unindex :: "'k \<Rightarrow> cref \<Rightarrow> ('k, cref list) gomap \<Rightarrow> ('k, cref list) gomap" where
  "unindex k c m =
     (let cs = removeAll c (get_or [] m k) in
      if length cs = 0 then AList.delete k m else AList.update k cs m)"

definition unindexServerLocked :: "hub \<Rightarrow> int \<Rightarrow> cref \<Rightarrow> hub" where
  "unindexServerLocked h serverID c =
     h\<lparr> h_clientsByServer := unindex serverID c (h_clientsByServer h) \<rparr>"

definition presence_of :: "hub \<Rightarrow> int \<Rightarrow> int \<Rightarrow> nat" where
  "presence_of h serverID userID = get_or 0 (get_or [] (h_presence h) serverID) userID"

definition incrementPresence :: "hub \<Rightarrow> int \<Rightarrow> int \<Rightarrow> hub \<times> bool" where
  "incrementPresence h serverID userID =
     (let serverPresence = get_or [] (h_presence h) serverID;
          wasOffline = (get_or 0 serverPresence userID = 0) in
      (h\<lparr> h_presence := AList.update serverID
            (AList.update userID (get_or 0 serverPresence userID + 1) serverPresence)
            (h_presence h) \<rparr>, wasOffline))"

definition decrementPresence :: "hub \<Rightarrow> int \<Rightarrow> int \<Rightarrow> hub \<times> bool" where
  "decrementPresence h serverID userID =
     (case map_of (h_presence h) serverID of
        None \<Rightarrow> (h, False)
      | Some serverPresence \<Rightarrow>
          (let n = get_or 0 serverPresence userID in
           if n = 0 then (h, False)
           else if n - 1 > 0 then
             (h\<lparr> h_presence := AList.update serverID (AList.update userID (n - 1) serverPresence)
                 (h_presence h) \<rparr>, False)
           else
             (let rest = AList.delete userID serverPresence in
              (h\<lparr> h_presence := (if length rest = 0 then AList.delete serverID (h_presence h)
                    else AList.update serverID rest (h_presence h)) \<rparr>, True))))"

definition PresenceOnline :: string where "PresenceOnline = ''online''"
definition PresenceOffline :: string where "PresenceOffline = ''offline''"

definition currentStatus :: "hub \<Rightarrow> int \<Rightarrow> int \<Rightarrow> string" where
  "currentStatus h serverID userID =
     (if presence_of h serverID userID > 0 then PresenceOnline else PresenceOffline)"

definition now_of :: "hub_env \<Rightarrow> hub \<Rightarrow> hub \<times> int" where
  "now_of env h = (h\<lparr> h_tick := h_tick h + 1 \<rparr>, e_now env (h_tick h))"

text \<open>Saving the last-seen time when the stamp of the user changed.\<close>

definition save_last_seen :: "hub_env \<Rightarrow> hub \<Rightarrow> int \<Rightarrow> presenceStamp \<Rightarrow> hub" where
  "save_last_seen env h userID stamp =
     (if \<not> e_lastSeenSaver env \<or> map_of (h_lastSeen h) userID = Some stamp then h
      else h\<lparr> h_lastSeen := AList.update userID stamp (h_lastSeen h),
              h_trace := h_trace h @ [LastSeenSaved userID (fst stamp)] \<rparr>)"

definition broadcastPresence ::
  "hub_env \<Rightarrow> unreg \<Rightarrow> hub \<Rightarrow> int \<Rightarrow> int \<Rightarrow> string \<Rightarrow> hub option" where
  "broadcastPresence env U h serverID userID status =
     (if currentStatus h serverID userID \<noteq> status then Some h
      else let (h1, lastSeenAt) = now_of env h;
               h2 = save_last_seen env h1 userID (lastSeenAt, status);
               event = mkEvent EventPresenceUpdated (DPresenceUpdatedData
                 \<lparr> pu_ServerID = serverID, pu_UserID = userID, pu_Status = status,
                   pu_LastSeenAt = Some lastSeenAt \<rparr>) in
      case (if currentStatus h2 serverID userID = status
            then send_all event h2 (clientsForServer h2 serverID) else Some (h2, 0, [])) of
        None \<Rightarrow> None
      | Some (h3, _, failed) \<Rightarrow> foreach U h3 failed)"

definition removeClientServer ::
  "hub_env \<Rightarrow> unreg \<Rightarrow> hub \<Rightarrow> cref \<Rightarrow> int \<Rightarrow> bool \<Rightarrow> hub option" where
  "removeClientServer env U h c serverID announce =
     (let (x, removed) = removeServer (client h c) serverID in
      if \<not> removed then Some h
      else let h1 = unindexServerLocked (set_client h c x) serverID c;
               (h2, becameOffline) = decrementPresence h1 serverID (c_userID x) in
      if announce \<and> becameOffline
      then broadcastPresence env U h2 serverID (c_userID x) PresenceOffline
      else Some h2)"

definition unregisterPresence :: "hub_env \<Rightarrow> unreg \<Rightarrow> hub \<Rightarrow> cref \<Rightarrow> hub option" where
  "unregisterPresence env U h c =
     (case foreach (\<lambda>h serverID. removeClientServer env U h c serverID True) h
             (c_servers (client h c)) of
        None \<Rightarrow> None
      | Some h1 \<Rightarrow>
          (let userID = c_userID (client h1 c) in
           Some (if length (get_or [] (h_clientsByUser h1) userID) = 0
                 then h1\<lparr> h_lastSeen := AList.delete userID (h_lastSeen h1) \<rparr> else h1)))"

subsection \<open>Leaving streams and voice\<close>

definition closeStreamSession :: "hub_env \<Rightarrow> hub \<Rightarrow> string \<Rightarrow> hub" where
  "closeStreamSession env h connectionID =
     (if e_streamSessions env then h\<lparr> h_trace := h_trace h @ [StreamSessionLeave connectionID] \<rparr> else h)"

definition closeVoiceSession :: "hub_env \<Rightarrow> hub \<Rightarrow> string \<Rightarrow> hub" where
  "closeVoiceSession env h connectionID =
     (if e_voiceSessions env then h\<lparr> h_trace := h_trace h @ [VoiceSessionLeave connectionID] \<rparr> else h)"

definition announceLegacyStreamReplacement :: "unreg \<Rightarrow> hub \<Rightarrow> int \<Rightarrow> int \<Rightarrow> hub option" where
  "announceLegacyStreamReplacement U h serverID channelID =
     (case find (\<lambda>v. sa_ChannelID v = channelID)
             (stream_snapshotForServers (client h) (h_streams h) [serverID]) of
        None \<Rightarrow> Some h
      | Some value \<Rightarrow>
          foreach (\<lambda>h c.
            if c_multipleStreams (client h c) then Some h
            else map_option fst (SendToConnection U h (c_connectionID (client h c))
                   (mkEvent EventStreamStarted (DStreamData value))))
            h (clientsForServer h serverID))"

definition leaveStream ::
  "hub_env \<Rightarrow> unreg \<Rightarrow> hub \<Rightarrow> cref \<Rightarrow> string \<Rightarrow> (hub \<times> sref \<times> bool \<times> bool) option" where
  "leaveStream env U h c reason =
     (if c = nil then Some (h, nil, False, False)
      else let (streams, r, publisher, found) = stream_leave (h_streams h) c in
      if \<not> found then Some (h, nil, False, False)
      else let value = stream_at streams r;
               h1 = closeStreamSession env (h\<lparr> h_streams := streams \<rparr>) (c_connectionID (client h c)) in
      if publisher then
        (case PublishToServer U h1 (as_serverID value)
                (mkEvent EventStreamStopped (DStreamStoppedData
                  \<lparr> ss_PublisherConnectionID = c_connectionID (client h1 (as_publisher value)),
                    ss_ServerID = as_serverID value, ss_ChannelID = as_channelID value,
                    ss_Reason = reason \<rparr>)) of
           None \<Rightarrow> None
         | Some (h2, _) \<Rightarrow>
             (case announceLegacyStreamReplacement U h2 (as_serverID value) (as_channelID value) of
                None \<Rightarrow> None
              | Some h3 \<Rightarrow> Some (h3, r, True, True)))
      else
        (case (if as_mode value = StreamModeP2P
               then hub_enqueue h1 (as_publisher value)
                 (mkEvent EventStreamViewerLeft (DStreamViewerData
                   \<lparr> sv_ConnectionID = c_connectionID (client h1 c),
                     sv_UserID = c_userID (client h1 c) \<rparr>))
               else Some (h1, True)) of
           None \<Rightarrow> None
         | Some (h2, ok) \<Rightarrow>
             (if \<not> ok then map_option (\<lambda>h3. (h3, r, False, True)) (U h2 (as_publisher value))
              else map_option (\<lambda>(h3, _). (h3, r, False, True))
                (PublishToServer U h2 (as_serverID value)
                  (mkEvent EventStreamUpdated (DStreamData
                    (streamData (client h2) (stream_at (h_streams h2) r))))))))"

definition newVoiceLeftData :: "VoiceParticipantData \<Rightarrow> VoiceLeftData" where
  "newVoiceLeftData p = \<lparr> vl_ConnectionID = vp_ConnectionID p, vl_UserID = vp_UserID p,
     vl_ServerID = vp_ServerID p, vl_ChannelID = vp_ChannelID p \<rparr>"

definition publishVoiceLeft :: "unreg \<Rightarrow> hub \<Rightarrow> VoiceParticipantData \<Rightarrow> cref \<Rightarrow> hub option" where
  "publishVoiceLeft U h p excluded =
     map_option fst (publishToServerExcept U h (vp_ServerID p) excluded
       (mkEvent EventVoiceParticipantLeft (DVoiceLeftData (newVoiceLeftData p))))"

text \<open>\<^verbatim>\<open>leaveVoice\<close> leaves the stream and then the voice channel. Its callers \<^verbatim>\<open>Unregister\<close>,
  \<^verbatim>\<open>LeaveVoice\<close> and \<^verbatim>\<open>ResetVoiceChannel\<close> hold no lock over both, so a stream may be started in between;
  that interleaving is not a run of this model.\<close>

definition leaveVoice ::
  "hub_env \<Rightarrow> unreg \<Rightarrow> hub \<Rightarrow> cref \<Rightarrow> (hub \<times> VoiceParticipantData option) option" where
  "leaveVoice env U h c =
     (if c = nil then Some (h, None)
      else case leaveStream env U h c ''left voice channel'' of
        None \<Rightarrow> None
      | Some (h1, _) \<Rightarrow>
          (case voice_leave (h_voice h1) c of
             (v, None) \<Rightarrow> Some (h1, None)
           | (v, Some p) \<Rightarrow>
               (case publishVoiceLeft U (h1\<lparr> h_voice := v \<rparr>) p c of
                  None \<Rightarrow> None
                | Some h2 \<Rightarrow> Some (closeVoiceSession env h2 (vp_ConnectionID p), Some p))))"

definition leaveVoiceForServer :: "hub_env \<Rightarrow> unreg \<Rightarrow> hub \<Rightarrow> cref \<Rightarrow> int \<Rightarrow> hub option" where
  "leaveVoiceForServer env U h c serverID =
     (case (case voice_current (h_voice h) c of
              None \<Rightarrow> Some h
            | Some current \<Rightarrow>
                (if vp_ServerID current = serverID
                 then map_option fst (leaveStream env U h c ''server access was revoked'')
                 else Some h)) of
        None \<Rightarrow> None
      | Some h1 \<Rightarrow>
          (case voice_leaveServer (h_voice h1) c serverID of
             (v, None) \<Rightarrow> Some h1
           | (v, Some p) \<Rightarrow>
               (case publishVoiceLeft U (h1\<lparr> h_voice := v \<rparr>) p c of
                  None \<Rightarrow> None
                | Some h2 \<Rightarrow> Some (closeVoiceSession env h2 (vp_ConnectionID p)))))"

definition stopStreamForChannel :: "hub_env \<Rightarrow> unreg \<Rightarrow> hub \<Rightarrow> int \<Rightarrow> string \<Rightarrow> hub option" where
  "stopStreamForChannel env U h channelID reason =
     foreach (\<lambda>h publisher. map_option fst (leaveStream env U h publisher reason)) h
       (stream_publishersForChannel (h_streams h) channelID)"

subsection \<open>Unregister\<close>

text \<open>The locked section: the client leaves every index.\<close>

definition detach :: "hub \<Rightarrow> cref \<Rightarrow> hub" where
  "detach h0 c =
     (let h = set_client h0 c (CloseClient (client h0 c));
          x = client h c;
          h1 = h\<lparr> h_clients := removeAll c (h_clients h) \<rparr>;
          h2 = fold (\<lambda>serverID h. unindexServerLocked h serverID c) (c_servers x) h1 in
      h2\<lparr> h_clientsByConnection := AList.delete (c_connectionID x) (h_clientsByConnection h2),
          h_clientsByUser := unindex (c_userID x) c (h_clientsByUser h2),
          h_clientsBySession := unindex (c_sessionKey x) c (h_clientsBySession h2) \<rparr>)"

definition Unregister_body :: "hub_env \<Rightarrow> unreg \<Rightarrow> hub \<Rightarrow> cref \<Rightarrow> hub option" where
  "Unregister_body env U h c =
     (if c = nil then Some h
      else case leaveVoice env U (detach h c) c of
        None \<Rightarrow> None
      | Some (h1, _) \<Rightarrow>
          unregisterPresence env U
            (fold (\<lambda>channelID h. fst (Unsubscribe h c channelID))
              (subscriptionIDs (client h1 c)) h1) c)"

fun Unregister_fuel :: "nat \<Rightarrow> hub_env \<Rightarrow> hub \<Rightarrow> cref \<Rightarrow> hub option" where
  "Unregister_fuel 0 env h c = None"
| "Unregister_fuel (Suc n) env h c = Unregister_body env (Unregister_fuel n env) h c"

text \<open>The depth a state can need: server memberships, voice memberships and stream memberships.\<close>

definition hub_size :: "hub \<Rightarrow> nat" where
  "hub_size h = sum_list (map (\<lambda>c. length (c_servers (client h c))) (map fst (h_heap h))) +
     length (v_byClient (h_voice h)) + length (t_byClient (h_streams h))"

definition Unregister :: "hub_env \<Rightarrow> hub \<Rightarrow> cref \<Rightarrow> hub option" where
  "Unregister env h c = Unregister_fuel (Suc (hub_size h)) env h c"

subsection \<open>The hub invariant\<close>

definition ident :: "hub \<Rightarrow> cref \<Rightarrow> string \<times> int" where
  "ident h c = (c_connectionID (client h c), c_userID (client h c))"

definition members :: "hub \<Rightarrow> int \<Rightarrow> cref list" where
  "members h ch = (case map_of (h_rooms h) ch of None \<Rightarrow> [] | Some r \<Rightarrow> rm_clients r)"

definition refs_inv :: "hub \<Rightarrow> bool" where
  "refs_inv h \<longleftrightarrow>
     distinct (map fst (h_heap h)) \<and> nil \<notin> fst ` set (h_heap h) \<and>
     set (h_known h) \<subseteq> fst ` set (h_heap h) \<and> set (h_clients h) \<subseteq> set (h_known h) \<and>
     (\<forall>c. client_ok (client h c) \<and> distinct (c_servers (client h c))) \<and>
     (\<forall>c \<in> fst ` set (h_heap h). \<forall>d \<in> fst ` set (h_heap h).
        c_connectionID (client h c) = c_connectionID (client h d) \<longrightarrow> c = d)"

definition index_inv :: "hub \<Rightarrow> bool" where
  "index_inv h \<longleftrightarrow>
     (\<forall>u c. c \<in> set (get_or [] (h_clientsByUser h) u) \<longleftrightarrow>
        c \<in> set (h_clients h) \<and> c_userID (client h c) = u) \<and>
     (\<forall>s c. c \<in> set (get_or [] (h_clientsByServer h) s) \<longleftrightarrow>
        c \<in> set (h_clients h) \<and> s \<in> set (c_servers (client h c))) \<and>
     (\<forall>k c. c \<in> set (get_or [] (h_clientsBySession h) k) \<longleftrightarrow>
        c \<in> set (h_clients h) \<and> c_sessionKey (client h c) = k) \<and>
     (\<forall>k c. map_of (h_clientsByConnection h) k = Some c \<longleftrightarrow>
        c \<in> set (h_clients h) \<and> c_connectionID (client h c) = k)"

definition room_inv :: "hub \<Rightarrow> bool" where
  "room_inv h \<longleftrightarrow>
     (\<forall>ch c. c \<in> set (members h ch) \<longleftrightarrow> map_of (c_subscriptions (client h c)) ch \<noteq> None) \<and>
     (\<forall>ch c. map_of (c_subscriptions (client h c)) ch \<noteq> None \<longrightarrow> ch > 0 \<and> c \<in> set (h_known h)) \<and>
     (\<forall>ch r. map_of (h_rooms h) ch = Some r \<longrightarrow> \<not> rm_closed r \<and> distinct (rm_clients r))"

definition on_server :: "hub \<Rightarrow> int \<Rightarrow> int \<Rightarrow> cref set" where
  "on_server h s u = {c \<in> set (h_known h). c_userID (client h c) = u \<and> s \<in> set (c_servers (client h c))}"

definition presence_inv :: "hub \<Rightarrow> bool" where
  "presence_inv h \<longleftrightarrow> (\<forall>s u. presence_of h s u = card (on_server h s u))"

definition media_inv :: "hub \<Rightarrow> bool" where
  "media_inv h \<longleftrightarrow>
     voice_inv (ident h) (h_voice h) \<and>
     stream_inv (h_maxStreamViewers h) (h_maxP2PStreamViewers h) (h_streams h) \<and>
     (\<forall>c. map_of (v_byClient (h_voice h)) c \<noteq> None \<longrightarrow> c \<in> set (h_known h)) \<and>
     (\<forall>c. map_of (t_byClient (h_streams h)) c \<noteq> None \<longrightarrow> c \<in> set (h_known h))"

definition hub_inv :: "hub \<Rightarrow> bool" where
  "hub_inv h \<longleftrightarrow> refs_inv h \<and> index_inv h \<and> room_inv h \<and> presence_inv h \<and> media_inv h"

subsection \<open>What cleanup may change\<close>

text \<open>\<open>shrinks h h'\<close>: connections are only closed and only leave indexes, servers, rooms, voice and
  streams. \<open>settled h c\<close>: the connection is closed and has no
  server and no subscription; \<open>gone h c\<close>: it is left nowhere. \<open>unsettled\<close> are the connections that
  left the indexes but are not settled.\<close>

definition cid where
  "cid h c = (c_connectionID (client h c), c_userID (client h c), c_sessionKey (client h c),
     c_channelAccess (client h c), c_messageSync (client h c), c_multipleStreams (client h c))"

definition shrinks :: "hub \<Rightarrow> hub \<Rightarrow> bool" where
  "shrinks h h' \<longleftrightarrow>
     map fst (h_heap h') = map fst (h_heap h) \<and> h_known h' = h_known h \<and> h_closed h' = h_closed h \<and>
     h_maxStreamViewers h' = h_maxStreamViewers h \<and> h_maxP2PStreamViewers h' = h_maxP2PStreamViewers h \<and>
     h_nextConnectionID h' = h_nextConnectionID h \<and>
     set (h_clients h') \<subseteq> set (h_clients h) \<and>
     (\<forall>c. cid h' c = cid h c \<and> (c_done (client h c) \<longrightarrow> c_done (client h' c)) \<and>
        set (c_servers (client h' c)) \<subseteq> set (c_servers (client h c)) \<and>
        length (c_servers (client h' c)) \<le> length (c_servers (client h c)) \<and>
        map_of (c_subscriptions (client h' c)) \<subseteq>\<^sub>m map_of (c_subscriptions (client h c))) \<and>
     map_of (v_byClient (h_voice h')) \<subseteq>\<^sub>m map_of (v_byClient (h_voice h)) \<and>
     length (v_byClient (h_voice h')) \<le> length (v_byClient (h_voice h)) \<and>
     map_of (t_byClient (h_streams h')) \<subseteq>\<^sub>m map_of (t_byClient (h_streams h)) \<and>
     length (t_byClient (h_streams h')) \<le> length (t_byClient (h_streams h)) \<and>
     (\<forall>r. as_channelID (stream_at (h_streams h') r) = as_channelID (stream_at (h_streams h) r) \<and>
          as_publisher (stream_at (h_streams h') r) = as_publisher (stream_at (h_streams h) r))"

definition settled :: "hub \<Rightarrow> cref \<Rightarrow> bool" where
  "settled h c \<longleftrightarrow> c_done (client h c) \<and> c_servers (client h c) = [] \<and>
     (\<forall>ch. map_of (c_subscriptions (client h c)) ch = None)"

definition gone :: "hub \<Rightarrow> cref \<Rightarrow> bool" where
  "gone h c \<longleftrightarrow> settled h c \<and> c \<notin> set (h_clients h) \<and>
     map_of (v_byClient (h_voice h)) c = None \<and> map_of (t_byClient (h_streams h)) c = None"

definition unsettled :: "hub \<Rightarrow> cref set" where
  "unsettled h = {c \<in> set (h_known h). c \<notin> set (h_clients h) \<and> \<not> settled h c}"

definition cleans :: "hub \<Rightarrow> hub \<Rightarrow> bool" where
  "cleans h h' \<longleftrightarrow> shrinks h h' \<and> unsettled h' \<subseteq> unsettled h"

text \<open>\<open>seated E F h\<close>: a registered participant of voice is on the server of its channel, and a subscriber of a
  channel on the server it named, unless the pair is in \<open>E\<close>; a member of a stream takes part in voice in the channel of the stream, unless the pair is in
  \<open>F\<close>. Between operations both sets are empty.\<close>

definition seated :: "(cref \<times> int) set \<Rightarrow> (cref \<times> int) set \<Rightarrow> hub \<Rightarrow> bool" where
  "seated E F h \<longleftrightarrow>
     (\<forall>c p. map_of (v_byClient (h_voice h)) c = Some p \<longrightarrow> c \<in> set (h_clients h) \<longrightarrow>
        (c, vp_ServerID p) \<in> E \<or> vp_ServerID p \<in> set (c_servers (client h c))) \<and>
     (\<forall>c ch s. map_of (c_subscriptions (client h c)) ch = Some s \<longrightarrow>
        (c, s) \<in> E \<or> s \<in> set (c_servers (client h c))) \<and>
     (\<forall>c st. map_of (t_byClient (h_streams h)) c = Some st \<longrightarrow>
        (let v = stream_at (h_streams h) (st_stream st) in
         (c, as_channelID v) \<in> F \<or>
         (\<exists>p. map_of (v_byClient (h_voice h)) c = Some p \<and> vp_ChannelID p = as_channelID v \<and>
              vp_ServerID p = as_serverID v)))"

lemma shrinks_refl [simp]: "shrinks h h"
  by (simp add: shrinks_def)

lemma shrinks_trans: "shrinks a b \<Longrightarrow> shrinks b c \<Longrightarrow> shrinks a c"
  unfolding shrinks_def
  by (elim conjE, intro conjI allI; (simp; fail)?) (meson map_le_trans order_trans subset_trans)+

lemma cleans_refl [simp]: "cleans h h"
  by (simp add: cleans_def)

lemma cleans_trans: "cleans a b \<Longrightarrow> cleans b c \<Longrightarrow> cleans a c"
  unfolding cleans_def using shrinks_trans by blast

lemma map_le_None: "m \<subseteq>\<^sub>m m' \<Longrightarrow> m' x = None \<Longrightarrow> m x = None"
  by (metis domIff map_le_def)

lemma settled_shrinks: "settled h c \<Longrightarrow> shrinks h h' \<Longrightarrow> settled h' c"
  unfolding settled_def shrinks_def by (auto dest: map_le_None)

lemma gone_shrinks: "gone h c \<Longrightarrow> shrinks h h' \<Longrightarrow> gone h' c"
  unfolding gone_def using settled_shrinks unfolding shrinks_def by (auto dest: map_le_None)

lemma shrinks_cleans: "shrinks h h' \<Longrightarrow> h_clients h' = h_clients h \<Longrightarrow> cleans h h'"
  using settled_shrinks by (auto simp: cleans_def unsettled_def shrinks_def)

lemma shrinks_size: "shrinks h h' \<Longrightarrow> hub_size h' \<le> hub_size h"
proof -
  assume s: "shrinks h h'"
  have k: "map fst (h_heap h') = map fst (h_heap h)" using s by (simp add: shrinks_def)
  have "sum_list (map (\<lambda>c. length (c_servers (client h' c))) ks) \<le>
      sum_list (map (\<lambda>c. length (c_servers (client h c))) ks)" for ks
    using s by (intro sum_list_mono) (simp add: shrinks_def)
  note a = this[of "map fst (h_heap h)"]
  have b: "length (v_byClient (h_voice h')) \<le> length (v_byClient (h_voice h))"
    "length (t_byClient (h_streams h')) \<le> length (t_byClient (h_streams h))"
    using s by (simp_all add: shrinks_def)
  show ?thesis unfolding hub_size_def k by (rule add_mono[OF add_mono[OF a b(1)] b(2)])
qed

lemma shrinks_ident: "shrinks h h' \<Longrightarrow> ident h' = ident h"
  by (rule ext) (simp add: shrinks_def ident_def cid_def)

subsection \<open>Steps that only touch the outgoing lanes\<close>

definition soft :: "hub \<Rightarrow> hub \<Rightarrow> bool" where
  "soft h h' \<longleftrightarrow>
     map fst (h_heap h') = map fst (h_heap h) \<and>
     (\<forall>c. client_core (client h' c) = client_core (client h c) \<and>
        (client_ok (client h c) \<longrightarrow> client_ok (client h' c))) \<and>
     h_closed h' = h_closed h \<and> h_known h' = h_known h \<and> h_clients h' = h_clients h \<and>
     h_clientsByUser h' = h_clientsByUser h \<and> h_clientsByServer h' = h_clientsByServer h \<and>
     h_clientsBySession h' = h_clientsBySession h \<and>
     h_clientsByConnection h' = h_clientsByConnection h \<and> h_rooms h' = h_rooms h \<and>
     h_presence h' = h_presence h \<and> h_voice h' = h_voice h \<and> h_streams h' = h_streams h \<and>
     h_maxStreamViewers h' = h_maxStreamViewers h \<and> h_maxP2PStreamViewers h' = h_maxP2PStreamViewers h \<and>
     h_nextConnectionID h' = h_nextConnectionID h"

lemma soft_refl [simp]: "soft h h"
  by (simp add: soft_def)

lemma soft_trans: "soft a b \<Longrightarrow> soft b c \<Longrightarrow> soft a c"
  by (simp add: soft_def)

lemma soft_core:
  assumes "soft h h'"
  shows "c_channelAccess (client h' c) = c_channelAccess (client h c)"
    "c_connectionID (client h' c) = c_connectionID (client h c)"
    "c_userID (client h' c) = c_userID (client h c)" "c_sessionKey (client h' c) = c_sessionKey (client h c)"
    "c_messageSync (client h' c) = c_messageSync (client h c)"
    "c_multipleStreams (client h' c) = c_multipleStreams (client h c)"
    "c_done (client h' c) = c_done (client h c)"
    "c_subscriptions (client h' c) = c_subscriptions (client h c)"
    "c_servers (client h' c) = c_servers (client h c)"
  using assms unfolding soft_def client_core_def by simp_all

lemma soft_cleans: "soft h h' \<Longrightarrow> cleans h h'"
  using soft_core[of h h']
  by (intro shrinks_cleans) (auto simp: shrinks_def cid_def soft_def)

lemma soft_keys: "soft h h' \<Longrightarrow> fst ` set (h_heap h') = fst ` set (h_heap h)"
  by (metis list.set_map soft_def)

lemma soft_inv:
  assumes s: "soft h h'" and inv: "hub_inv h"
  shows "hub_inv h'"
proof -
  note C = soft_core[OF s] and K = soft_keys[OF s]
  have F: "h_known h' = h_known h" "h_clients h' = h_clients h" "map fst (h_heap h') = map fst (h_heap h)"
    "\<And>c. client_ok (client h c) \<Longrightarrow> client_ok (client h' c)"
    using s by (simp_all add: soft_def)
  have "refs_inv h'" using inv F unfolding hub_inv_def refs_inv_def K C by simp
  moreover have "index_inv h'" using inv s unfolding hub_inv_def index_inv_def C soft_def by simp
  moreover have "room_inv h'"
    using inv s unfolding hub_inv_def room_inv_def members_def C soft_def by simp
  moreover have "presence_inv h'"
    using inv s unfolding hub_inv_def presence_inv_def presence_of_def on_server_def C soft_def by simp
  moreover have "media_inv h'"
    using inv s shrinks_ident[of h h'] soft_cleans[OF s]
    unfolding hub_inv_def media_inv_def soft_def cleans_def by simp
  ultimately show ?thesis by (simp add: hub_inv_def)
qed


lemma client_set_client: "client (set_client h c x) d = (if d = c then x else client h d)"
  by (simp add: client_def set_client_def)

lemma set_client_fields [simp]:
  "h_known (set_client h c x) = h_known h" "h_clients (set_client h c x) = h_clients h"
  "h_closed (set_client h c x) = h_closed h" "h_clientsByUser (set_client h c x) = h_clientsByUser h"
  "h_clientsByServer (set_client h c x) = h_clientsByServer h"
  "h_clientsBySession (set_client h c x) = h_clientsBySession h"
  "h_clientsByConnection (set_client h c x) = h_clientsByConnection h"
  "h_rooms (set_client h c x) = h_rooms h" "h_presence (set_client h c x) = h_presence h"
  "h_voice (set_client h c x) = h_voice h" "h_streams (set_client h c x) = h_streams h"
  "h_maxStreamViewers (set_client h c x) = h_maxStreamViewers h"
  "h_maxP2PStreamViewers (set_client h c x) = h_maxP2PStreamViewers h"
  "h_nextConnectionID (set_client h c x) = h_nextConnectionID h"
  by (simp_all add: set_client_def)

lemma set_client_keys [simp]:
  "c \<in> fst ` set (h_heap h) \<Longrightarrow> map fst (h_heap (set_client h c x)) = map fst (h_heap h)"
  by (simp add: set_client_def update_keys)

lemma client_irrelevant [simp]:
  "client (h\<lparr> h_queueFullTotal := a \<rparr>) = client h" "client (h\<lparr> h_nextEncoding := n \<rparr>) = client h"
  "client (h\<lparr> h_tick := n \<rparr>) = client h" "client (h\<lparr> h_trace := t \<rparr>) = client h"
  "client (h\<lparr> h_lastSeen := l \<rparr>) = client h" "client (h\<lparr> h_voice := v \<rparr>) = client h"
  "client (h\<lparr> h_streams := st \<rparr>) = client h" "client (h\<lparr> h_presence := p \<rparr>) = client h"
  "client (h\<lparr> h_clientsByServer := m \<rparr>) = client h" "client (h\<lparr> h_clients := cs \<rparr>) = client h"
  "client (h\<lparr> h_rooms := r \<rparr>) = client h" "client (h\<lparr> h_clientsByUser := m \<rparr>) = client h"
  "client (h\<lparr> h_clientsBySession := ms \<rparr>) = client h" "client (h\<lparr> h_clientsByConnection := mc \<rparr>) = client h"
  by (simp_all add: client_def fun_eq_iff)

lemma soft_irrelevant [simp]:
  "soft h (h\<lparr> h_queueFullTotal := a \<rparr>)" "soft h (h\<lparr> h_nextEncoding := n \<rparr>)"
  "soft h (h\<lparr> h_tick := n \<rparr>)" "soft h (h\<lparr> h_trace := t \<rparr>)" "soft h (h\<lparr> h_lastSeen := l \<rparr>)"
  by (simp_all add: soft_def)

lemma soft_set_client:
  assumes "c \<in> fst ` set (h_heap h)" "client_core x = client_core (client h c)"
    "client_ok (client h c) \<Longrightarrow> client_ok x"
  shows "soft h (set_client h c x)"
  using assms by (simp add: soft_def client_set_client)

lemma hub_enqueue_soft:
  assumes "c \<in> fst ` set (h_heap h)" "wf_event e" "client_ok (client h c)"
  shows "\<exists>h' ok. hub_enqueue h c e = Some (h', ok) \<and> soft h h' \<and> (ok \<longrightarrow> \<not> c_done (client h c))"
proof -
  obtain x ok where x: "enqueue (client h c) e = Some (x, ok)" "client_ok x"
    "client_core x = client_core (client h c)" "c_done (client h c) \<longrightarrow> \<not> ok"
    using enqueue_facts[OF assms(3,2)] by blast
  have "soft h (set_client h c x)" using soft_set_client[OF assms(1) x(3)] x(2) by blast
  then show ?thesis
    using x(1,4) soft_trans[OF _ soft_irrelevant(1)] by (auto simp: hub_enqueue_def)
qed

lemma send_all_soft:
  assumes "set cs \<subseteq> fst ` set (h_heap h)" "wf_event e" "\<And>c. client_ok (client h c)"
  shows "\<exists>h' n failed. send_all e h cs = Some (h', n, failed) \<and> soft h h' \<and> set failed \<subseteq> set cs \<and>
    n + length failed = length cs"
  using assms
proof (induction cs arbitrary: h)
  case Nil
  show ?case by simp
next
  case (Cons c cs)
  have "c \<in> fst ` set (h_heap h)" using Cons.prems(1) by simp
  then obtain h1 ok where h1: "hub_enqueue h c e = Some (h1, ok)" "soft h h1"
    using hub_enqueue_soft[OF _ Cons.prems(2,3)] by blast
  have "set cs \<subseteq> fst ` set (h_heap h1)" using Cons.prems(1) soft_keys[OF h1(2)] by simp
  moreover have "\<And>c. client_ok (client h1 c)" using h1(2) Cons.prems(3) by (simp add: soft_def)
  ultimately obtain h2 n failed where h2: "send_all e h1 cs = Some (h2, n, failed)" "soft h1 h2"
    "set failed \<subseteq> set cs" "n + length failed = length cs"
    using Cons.IH[OF _ Cons.prems(2)] by blast
  then show ?case using h1 soft_trans[OF h1(2) h2(2)] by (cases ok) auto
qed

lemma shareEncoding_soft:
  assumes "shareEncoding h e = (h', e')"
  shows "soft h h'" "wf_event e \<Longrightarrow> wf_event e'" "ev_Type e' = ev_Type e" "ev_Data e' = ev_Data e"
    "ev_RequestID e' = ev_RequestID e"
  using assms by (auto simp: shareEncoding_def wf_event_def split: if_splits)

lemma hub_inv_refs:
  assumes "hub_inv h"
  shows "set (h_known h) \<subseteq> fst ` set (h_heap h)" "set (h_clients h) \<subseteq> set (h_known h)"
    "client_ok (client h c)" "distinct (c_servers (client h c))" "nil \<notin> set (h_known h)"
  using assms by (auto simp: hub_inv_def refs_inv_def)

lemma hub_inv_connections:
  assumes "hub_inv h" "c \<in> fst ` set (h_heap h)" "d \<in> fst ` set (h_heap h)"
    "c_connectionID (client h c) = c_connectionID (client h d)"
  shows "c = d"
proof -
  have "\<forall>c \<in> fst ` set (h_heap h). \<forall>d \<in> fst ` set (h_heap h).
      c_connectionID (client h c) = c_connectionID (client h d) \<longrightarrow> c = d"
    using assms(1) unfolding hub_inv_def refs_inv_def by (elim conjE) assumption
  then show ?thesis using assms(2-4) by blast
qed

lemma hub_inv_index:
  assumes "hub_inv h"
  shows "c \<in> set (get_or [] (h_clientsByUser h) u) \<longleftrightarrow> c \<in> set (h_clients h) \<and> c_userID (client h c) = u"
    "c \<in> set (clientsForServer h s) \<longleftrightarrow> c \<in> set (h_clients h) \<and> s \<in> set (c_servers (client h c))"
    "c \<in> set (get_or [] (h_clientsBySession h) k) \<longleftrightarrow>
        c \<in> set (h_clients h) \<and> c_sessionKey (client h c) = k"
    "map_of (h_clientsByConnection h) cn = Some c \<longleftrightarrow>
        c \<in> set (h_clients h) \<and> c_connectionID (client h c) = cn"
  using assms by (auto simp: hub_inv_def index_inv_def clientsForServer_def)

lemma clientByConnectionID_client:
  assumes "hub_inv h" "clientByConnectionID h k \<noteq> nil"
  shows "clientByConnectionID h k \<in> set (h_clients h)"
    "c_connectionID (client h (clientByConnectionID h k)) = k"
proof -
  have "map_of (h_clientsByConnection h) k = Some (clientByConnectionID h k)"
    using assms(2) by (auto simp: clientByConnectionID_def get_or_def split: option.splits)
  then show "clientByConnectionID h k \<in> set (h_clients h)"
    "c_connectionID (client h (clientByConnectionID h k)) = k"
    using hub_inv_index(4)[OF assms(1)] by auto
qed


subsection \<open>The single cleanup steps\<close>

lemma leave_streams_step:
  assumes inv: "hub_inv h" and l: "stream_leave (h_streams h) c = (st, r, pub, ex)"
  shows "hub_inv (h\<lparr> h_streams := st \<rparr>)" "cleans h (h\<lparr> h_streams := st \<rparr>)"
    "ex \<Longrightarrow> hub_size (h\<lparr> h_streams := st \<rparr>) < hub_size h"
    "map_of (t_byClient st) c = None"
proof -
  let ?h = "h\<lparr> h_streams := st \<rparr>"
  have si: "stream_inv (h_maxStreamViewers h) (h_maxP2PStreamViewers h) (h_streams h)"
    using inv by (simp add: hub_inv_def media_inv_def)
  note F = stream_leave_facts[OF si l]
  have le: "map_of (t_byClient st) \<subseteq>\<^sub>m map_of (t_byClient (h_streams h))"
    using F(5) by (auto simp: map_le_def) (metis option.distinct(1))
  have idh: "ident ?h = ident h" by (simp add: ident_def fun_eq_iff)
  have "refs_inv ?h" "index_inv ?h" "room_inv ?h" "presence_inv ?h"
    using inv by (simp_all add: hub_inv_def refs_inv_def index_inv_def room_inv_def members_def
        presence_inv_def presence_of_def on_server_def)
  moreover have "\<forall>c. map_of (t_byClient st) c \<noteq> None \<longrightarrow> c \<in> set (h_known h)"
    using inv map_le_None[OF le] unfolding hub_inv_def media_inv_def by metis
  then have "media_inv ?h" using inv F(1) by (simp add: hub_inv_def media_inv_def idh)
  ultimately show "hub_inv ?h" by (simp add: hub_inv_def)
  show "cleans h ?h"
    using le F(10,11) by (intro shrinks_cleans) (simp_all add: shrinks_def cid_def)
  show "ex \<Longrightarrow> hub_size ?h < hub_size h" using F(6) by (simp add: hub_size_def)
  show "map_of (t_byClient st) c = None" by (rule F(3))
qed

lemma leave_voice_step:
  assumes inv: "hub_inv h" and l: "voice_leave (h_voice h) c = (v, q)"
  shows "hub_inv (h\<lparr> h_voice := v \<rparr>)" "cleans h (h\<lparr> h_voice := v \<rparr>)"
    "q \<noteq> None \<Longrightarrow> hub_size (h\<lparr> h_voice := v \<rparr>) < hub_size h"
    "map_of (v_byClient v) c = None" "q = map_of (v_byClient (h_voice h)) c"
proof -
  let ?h = "h\<lparr> h_voice := v \<rparr>"
  have vi: "voice_inv (ident h) (h_voice h)" using inv by (simp add: hub_inv_def media_inv_def)
  note F = voice_leave_facts[OF vi l]
  have le: "map_of (v_byClient v) \<subseteq>\<^sub>m map_of (v_byClient (h_voice h))"
    using F(3) by (auto simp: map_le_def split: if_splits)
  have len: "length (v_byClient v) \<le> length (v_byClient (h_voice h))"
    using F(3) length_delete_le[of c "v_byClient (h_voice h)"] by simp
  have idh: "ident ?h = ident h" by (simp add: ident_def fun_eq_iff)
  have "refs_inv ?h" "index_inv ?h" "room_inv ?h" "presence_inv ?h"
    using inv by (simp_all add: hub_inv_def refs_inv_def index_inv_def room_inv_def members_def
        presence_inv_def presence_of_def on_server_def)
  moreover have "\<forall>c. map_of (v_byClient v) c \<noteq> None \<longrightarrow> c \<in> set (h_known h)"
    using inv map_le_None[OF le] unfolding hub_inv_def media_inv_def by metis
  then have "media_inv ?h" using inv F(1) by (simp add: hub_inv_def media_inv_def idh)
  ultimately show "hub_inv ?h" by (simp add: hub_inv_def)
  show "cleans h ?h" using le len by (intro shrinks_cleans) (simp_all add: shrinks_def cid_def)
  show "hub_size ?h < hub_size h" if q: "q \<noteq> None"
  proof -
    obtain p where "map_of (v_byClient (h_voice h)) c = Some p" using F(2) q by auto
    from length_delete_present[OF voice_inv_simps(1)[OF vi] this] show ?thesis
      using F(3) by (simp add: hub_size_def)
  qed
  show "map_of (v_byClient v) c = None" "q = map_of (v_byClient (h_voice h)) c" using F by simp_all
qed

lemma refs_inv_shrinks:
  assumes "refs_inv h" "shrinks h h'" "\<And>c. client_ok (client h' c)" "\<And>c. distinct (c_servers (client h' c))"
  shows "refs_inv h'"
proof -
  have k: "map fst (h_heap h') = map fst (h_heap h)" and c: "\<And>c. c_connectionID (client h' c) = c_connectionID (client h c)"
    using assms(2) by (simp_all add: shrinks_def cid_def)
  have k': "fst ` set (h_heap h') = fst ` set (h_heap h)" using k by (metis list.set_map)
  show ?thesis
    using assms unfolding refs_inv_def k k' c by (auto simp: shrinks_def)
qed

lemma media_inv_shrinks:
  assumes "media_inv h" "shrinks h h'" "h_voice h' = h_voice h" "h_streams h' = h_streams h"
  shows "media_inv h'"
  using assms shrinks_ident[OF assms(2)] by (simp add: media_inv_def shrinks_def)

lemma Unsubscribe_facts:
  assumes inv: "hub_inv h" and c: "c \<in> set (h_known h)"
  shows "hub_inv (fst (Unsubscribe h c ch))" "cleans h (fst (Unsubscribe h c ch))"
    "map_of (c_subscriptions (client (fst (Unsubscribe h c ch)) c)) ch = None"
    "\<And>d. c_servers (client (fst (Unsubscribe h c ch)) d) = c_servers (client h d)"
    "h_clients (fst (Unsubscribe h c ch)) = h_clients h"
    "\<And>d. c_done (client (fst (Unsubscribe h c ch)) d) = c_done (client h d)"
    "h_voice (fst (Unsubscribe h c ch)) = h_voice h" "h_streams (fst (Unsubscribe h c ch)) = h_streams h"
proof -
  have cn: "c \<noteq> nil" using c hub_inv_refs(5)[OF inv] by metis
  have ck: "c \<in> fst ` set (h_heap h)" using c hub_inv_refs(1)[OF inv] by blast
  have ri: "d \<in> set (members h k) \<longleftrightarrow> map_of (c_subscriptions (client h d)) k \<noteq> None"
    "map_of (c_subscriptions (client h d)) k \<noteq> None \<Longrightarrow> k > 0 \<and> d \<in> set (h_known h)"
    "map_of (h_rooms h) k = Some r \<Longrightarrow> \<not> rm_closed r \<and> distinct (rm_clients r)" for d k r
    using inv by (auto simp: hub_inv_def room_inv_def)
  let ?h = "fst (Unsubscribe h c ch)"
  have "hub_inv ?h \<and> cleans h ?h \<and> map_of (c_subscriptions (client ?h c)) ch = None \<and>
    (\<forall>d. c_servers (client ?h d) = c_servers (client h d)) \<and> h_clients ?h = h_clients h \<and>
    (\<forall>d. c_done (client ?h d) = c_done (client h d)) \<and> h_voice ?h = h_voice h \<and> h_streams ?h = h_streams h"
  proof (cases "ch \<le> 0")
    case True
    then have "?h = h" by (simp add: Unsubscribe_def)
    moreover have "map_of (c_subscriptions (client h c)) ch = None" using ri(2)[of c ch] True by fastforce
    ultimately show ?thesis using inv by simp
  next
    case False
    let ?x = "removeSubscription (client h c) ch"
    define rooms where "rooms = (case map_of (h_rooms h) ch of None \<Rightarrow> h_rooms h
      | Some r \<Rightarrow> AList.update ch (fst (room_remove r c)) (h_rooms h))"
    have h': "?h = set_client (h\<lparr> h_rooms := rooms \<rparr>) c ?x"
      using False cn
      by (cases "map_of (h_rooms h) ch")
        (auto simp: Unsubscribe_def getRoom_def rooms_def set_client_def Let_def split: prod.splits)
    have cl: "client ?h d = (if d = c then ?x else client h d)" for d
      by (simp add: h' client_set_client)
    have keys: "map fst (h_heap ?h) = map fst (h_heap h)" using ck by (simp add: h')
    then have keys': "fst ` set (h_heap ?h) = fst ` set (h_heap h)" by (metis list.set_map)
    have x: "client_core ?x = client_core ((client h c)\<lparr> c_subscriptions := c_subscriptions ?x \<rparr>)"
      "c_servers ?x = c_servers (client h c)" "c_userID ?x = c_userID (client h c)"
      "c_sessionKey ?x = c_sessionKey (client h c)" "c_connectionID ?x = c_connectionID (client h c)"
      "c_channelAccess ?x = c_channelAccess (client h c)" "c_messageSync ?x = c_messageSync (client h c)"
      "c_multipleStreams ?x = c_multipleStreams (client h c)" "c_done ?x = c_done (client h c)"
      "c_subscriptions ?x = AList.delete ch (c_subscriptions (client h c))"
      by (simp_all add: removeSubscription_def client_core_def)
    have mem: "d \<in> set (members ?h k) \<longleftrightarrow> d \<in> set (members h k) \<and> \<not> (d = c \<and> k = ch)" for d k
      using ri(1)[of c ch]
      by (cases "map_of (h_rooms h) ch")
        (auto simp: members_def h' rooms_def room_remove_def split: if_splits option.splits)
    have closed: "\<not> rm_closed r \<and> distinct (rm_clients r)" if "map_of (h_rooms ?h) k = Some r" for k r
      using that ri(3) by (cases "map_of (h_rooms h) ch")
        (auto simp: h' rooms_def room_remove_def distinct_removeAll split: if_splits)
    have F: "h_known ?h = h_known h" "h_clients ?h = h_clients h" "h_voice ?h = h_voice h"
      "h_streams ?h = h_streams h" "h_presence ?h = h_presence h"
      "h_clientsByUser ?h = h_clientsByUser h" "h_clientsByServer ?h = h_clientsByServer h"
      "h_clientsBySession ?h = h_clientsBySession h" "h_clientsByConnection ?h = h_clientsByConnection h"
      by (simp_all add: h')
    have C: "c_servers (client ?h d) = c_servers (client h d)" "c_userID (client ?h d) = c_userID (client h d)"
      "c_sessionKey (client ?h d) = c_sessionKey (client h d)" "c_done (client ?h d) = c_done (client h d)"
      "c_connectionID (client ?h d) = c_connectionID (client h d)" "client_ok (client ?h d) = client_ok (client h d)"
      "cid ?h d = cid h d" for d by (simp_all add: cl x cid_def)
    have sh: "shrinks h ?h"
      unfolding shrinks_def keys C F by (auto simp: cl x map_le_def) (simp_all add: h')
    have "refs_inv ?h"
      by (rule refs_inv_shrinks[OF _ sh]) (use inv in \<open>simp_all add: C hub_inv_def refs_inv_def\<close>)
    moreover have "index_inv ?h" using inv unfolding hub_inv_def index_inv_def C F by simp
    moreover have "room_inv ?h"
      unfolding room_inv_def mem F using ri(1,2) closed by (auto simp: cl x)
    moreover have "presence_inv ?h"
      using inv unfolding hub_inv_def presence_inv_def presence_of_def on_server_def C F by simp
    moreover have "media_inv ?h"
      by (rule media_inv_shrinks[OF _ sh]) (use inv F in \<open>simp_all add: hub_inv_def\<close>)
    ultimately have "hub_inv ?h" by (simp add: hub_inv_def)
    moreover have "cleans h ?h" by (rule shrinks_cleans[OF sh F(2)])
    ultimately show ?thesis by (simp add: C F) (simp add: cl x)
  qed
  then show "hub_inv ?h" "cleans h ?h" "map_of (c_subscriptions (client ?h c)) ch = None"
    "\<And>d. c_servers (client ?h d) = c_servers (client h d)" "h_clients ?h = h_clients h"
    "\<And>d. c_done (client ?h d) = c_done (client h d)" "h_voice ?h = h_voice h" "h_streams ?h = h_streams h"
    by blast+
qed


lemma get_or_unindex:
  "get_or [] (unindex k c m) k' = (if k' = k then removeAll c (get_or [] m k) else get_or [] m k')"
  by (simp add: unindex_def Let_def)

lemma fold_unindexServer:
  "get_or [] (h_clientsByServer (fold (\<lambda>s h. unindexServerLocked h s c) ss h)) s =
     (if s \<in> set ss then removeAll c (get_or [] (h_clientsByServer h) s)
      else get_or [] (h_clientsByServer h) s)"
  by (induction ss arbitrary: h) (auto simp: unindexServerLocked_def get_or_unindex removeAll_filter_not_eq)

lemma fold_unindexServer_frame:
  "\<exists>m. fold (\<lambda>s h. unindexServerLocked h s c) ss h = h\<lparr> h_clientsByServer := m \<rparr>"
proof (induction ss arbitrary: h)
  case Nil
  show ?case by (rule exI[of _ "h_clientsByServer h"]) simp
next
  case (Cons s ss)
  from Cons.IH[of "unindexServerLocked h s c"] show ?case by (auto simp: unindexServerLocked_def)
qed

lemma detach_facts:
  assumes inv: "hub_inv h" and c: "c \<in> set (h_known h)"
  shows "hub_inv (detach h c)" "shrinks h (detach h c)" "unsettled (detach h c) \<subseteq> insert c (unsettled h)"
    "c \<notin> set (h_clients (detach h c))" "c_done (client (detach h c) c)"
    "h_voice (detach h c) = h_voice h" "h_streams (detach h c) = h_streams h"
    "\<And>d. c_servers (client (detach h c) d) = c_servers (client h d)"
    "\<And>d. c_subscriptions (client (detach h c) d) = c_subscriptions (client h d)"
proof -
  let ?h = "detach h c" and ?x = "CloseClient (client h c)"
  define h1 where "h1 = (set_client h c ?x)\<lparr> h_clients := removeAll c (h_clients h) \<rparr>"
  have x: "c_servers ?x = c_servers (client h c)" "c_userID ?x = c_userID (client h c)"
    "c_sessionKey ?x = c_sessionKey (client h c)" "c_connectionID ?x = c_connectionID (client h c)"
    "c_channelAccess ?x = c_channelAccess (client h c)" "c_messageSync ?x = c_messageSync (client h c)"
    "c_multipleStreams ?x = c_multipleStreams (client h c)" "c_done ?x"
    "c_subscriptions ?x = c_subscriptions (client h c)" "client_ok ?x = client_ok (client h c)"
    by (simp_all add: CloseClient_def CloseWithReason_def client_ok_def)
  define h2 where "h2 = fold (\<lambda>s h. unindexServerLocked h s c) (c_servers (client h c)) h1"
  obtain m where m: "h2 = h1\<lparr> h_clientsByServer := m \<rparr>"
    using fold_unindexServer_frame unfolding h2_def by blast
  have bs: "get_or [] m s = (if s \<in> set (c_servers (client h c))
      then removeAll c (get_or [] (h_clientsByServer h) s) else get_or [] (h_clientsByServer h) s)" for s
  proof -
    have "get_or [] (h_clientsByServer h2) s = (if s \<in> set (c_servers (client h c))
      then removeAll c (get_or [] (h_clientsByServer h1) s) else get_or [] (h_clientsByServer h1) s)"
      unfolding h2_def by (rule fold_unindexServer)
    then show ?thesis by (simp add: m h1_def)
  qed
  have h': "?h = h2\<lparr> h_clientsByConnection := AList.delete (c_connectionID (client h c)) (h_clientsByConnection h),
      h_clientsByUser := unindex (c_userID (client h c)) c (h_clientsByUser h),
      h_clientsBySession := unindex (c_sessionKey (client h c)) c (h_clientsBySession h) \<rparr>"
    unfolding detach_def Let_def client_set_client
    by (simp add: x h2_def[unfolded h1_def, symmetric] m) (simp add: h1_def)
  have ck: "c \<in> fst ` set (h_heap h)" using c hub_inv_refs(1)[OF inv] by blast
  have cl: "client ?h d = (if d = c then ?x else client h d)" for d
    by (simp add: h' m h1_def client_set_client)
  have keys: "map fst (h_heap ?h) = map fst (h_heap h)" using ck by (simp add: h' m h1_def)
  have F: "h_known ?h = h_known h" "h_clients ?h = removeAll c (h_clients h)" "h_voice ?h = h_voice h"
    "h_streams ?h = h_streams h" "h_presence ?h = h_presence h" "h_rooms ?h = h_rooms h" by (simp_all add: h' m h1_def)
  have C: "c_servers (client ?h d) = c_servers (client h d)" "c_userID (client ?h d) = c_userID (client h d)"
    "c_sessionKey (client ?h d) = c_sessionKey (client h d)"
    "c_connectionID (client ?h d) = c_connectionID (client h d)" "client_ok (client ?h d) = client_ok (client h d)"
    "c_subscriptions (client ?h d) = c_subscriptions (client h d)" "cid ?h d = cid h d"
    "c_done (client h d) \<Longrightarrow> c_done (client ?h d)" for d by (simp_all add: cl x cid_def)
  show sh: "shrinks h ?h"
    unfolding shrinks_def keys C F using C(8) by (auto simp: h' m h1_def)
  note I = hub_inv_index[OF inv]
  have inj: "c_connectionID (client h d) = c_connectionID (client h c) \<Longrightarrow> d = c" if "d \<in> set (h_clients h)" for d
    using hub_inv_connections[OF inv, of d c] that ck hub_inv_refs(1,2)[OF inv] by blast
  have "refs_inv ?h"
    by (rule refs_inv_shrinks[OF _ sh]) (use inv in \<open>simp_all add: C hub_inv_def refs_inv_def\<close>)
  moreover have "index_inv ?h"
    unfolding index_inv_def C F
  proof (intro conjI allI)
    fix u d
    show "(d \<in> set (get_or [] (h_clientsByUser ?h) u)) = (d \<in> set (removeAll c (h_clients h)) \<and> c_userID (client h d) = u)"
      using I(1)[of d] by (auto simp: h' get_or_unindex)
  next
    fix s d
    show "(d \<in> set (get_or [] (h_clientsByServer ?h) s)) =
        (d \<in> set (removeAll c (h_clients h)) \<and> s \<in> set (c_servers (client h d)))"
      using I(2)[of d s] by (auto simp: h' m bs clientsForServer_def)
  next
    fix k d
    show "(d \<in> set (get_or [] (h_clientsBySession ?h) k)) =
        (d \<in> set (removeAll c (h_clients h)) \<and> c_sessionKey (client h d) = k)"
      using I(3)[of d] by (auto simp: h' get_or_unindex)
  next
    fix k d
    show "(map_of (h_clientsByConnection ?h) k = Some d) =
        (d \<in> set (removeAll c (h_clients h)) \<and> c_connectionID (client h d) = k)"
      using I(4)[of k d] inj[of d] by (auto simp: h')
  qed
  moreover have "room_inv ?h" using inv unfolding hub_inv_def room_inv_def members_def C F by simp
  moreover have "presence_inv ?h"
    using inv unfolding hub_inv_def presence_inv_def presence_of_def on_server_def C F by simp
  moreover have "media_inv ?h"
    by (rule media_inv_shrinks[OF _ sh]) (use inv F in \<open>simp_all add: hub_inv_def\<close>)
  ultimately show "hub_inv ?h" by (simp add: hub_inv_def)
  show "unsettled ?h \<subseteq> insert c (unsettled h)"
    using settled_shrinks[OF _ sh] unfolding unsettled_def F by auto
  show "c \<notin> set (h_clients ?h)" "c_done (client ?h c)" by (simp_all add: F cl x)
  show "h_voice ?h = h_voice h" "h_streams ?h = h_streams h"
    "\<And>d. c_servers (client ?h d) = c_servers (client h d)"
    "\<And>d. c_subscriptions (client ?h d) = c_subscriptions (client h d)" by (simp_all add: F C)
qed

lemma decrementPresence_facts:
  assumes "decrementPresence h s u = (h', off)"
  shows "\<exists>p. h' = h\<lparr> h_presence := p \<rparr>"
    "presence_of h' s' u' = (if s' = s \<and> u' = u then presence_of h s u - 1 else presence_of h s' u')"
proof -
  have "(\<exists>p. h' = h\<lparr> h_presence := p \<rparr>) \<and>
    presence_of h' s' u' = (if s' = s \<and> u' = u then presence_of h s u - 1 else presence_of h s' u')"
  proof (cases "map_of (h_presence h) s")
    case None
    then show ?thesis
      using assms by (auto simp: decrementPresence_def presence_of_def get_or_None intro: exI[of _ "h_presence h"])
  next
    case (Some m)
    have "AList.delete u m = [] \<Longrightarrow> u' \<noteq> u \<Longrightarrow> get_or 0 m u' = 0"
      by (metis get_or_delete get_or_Nil)
    then show ?thesis
      using assms Some get_or_delete[of 0 u m u']
      by (auto simp: decrementPresence_def presence_of_def get_or_Some Let_def split: if_splits
          intro: exI[of _ "h_presence h"])
  qed
  then show "\<exists>p. h' = h\<lparr> h_presence := p \<rparr>"
    "presence_of h' s' u' = (if s' = s \<and> u' = u then presence_of h s u - 1 else presence_of h s' u')"
    by blast+
qed


lemma remove_server_step:
  assumes inv: "hub_inv h" and c: "c \<in> set (h_known h)" and s: "s \<in> set (c_servers (client h c))"
    and d: "decrementPresence (unindexServerLocked
      (set_client h c ((client h c)\<lparr> c_servers := removeAll s (c_servers (client h c)) \<rparr>)) s c)
      s (c_userID (client h c)) = (h', off)"
  shows "hub_inv h'" "cleans h h'" "hub_size h' < hub_size h"
    "c_servers (client h' c) = removeAll s (c_servers (client h c))"
    "off \<Longrightarrow> presence_of h' s (c_userID (client h c)) = 0"
    "h_voice h' = h_voice h" "h_streams h' = h_streams h"
    "\<And>d. d \<noteq> c \<Longrightarrow> c_servers (client h' d) = c_servers (client h d)"
    "\<And>d. c_subscriptions (client h' d) = c_subscriptions (client h d)" "h_clients h' = h_clients h"
proof -
  let ?x = "(client h c)\<lparr> c_servers := removeAll s (c_servers (client h c)) \<rparr>"
  let ?h1 = "unindexServerLocked (set_client h c ?x) s c"
  have ck: "c \<in> fst ` set (h_heap h)" using c hub_inv_refs(1)[OF inv] by blast
  obtain p where p: "h' = ?h1\<lparr> h_presence := p \<rparr>" using decrementPresence_facts(1)[OF d] by blast
  have cl: "client h' e = (if e = c then ?x else client h e)" for e
    by (simp add: p unindexServerLocked_def client_set_client)
  have keys: "map fst (h_heap h') = map fst (h_heap h)" using ck by (simp add: p unindexServerLocked_def)
  have F: "h_known h' = h_known h" "h_clients h' = h_clients h" "h_voice h' = h_voice h"
    "h_streams h' = h_streams h" "h_rooms h' = h_rooms h" "h_clientsByUser h' = h_clientsByUser h"
    "h_clientsBySession h' = h_clientsBySession h" "h_clientsByConnection h' = h_clientsByConnection h"
    "h_clientsByServer h' = unindex s c (h_clientsByServer h)"
    by (simp_all add: p unindexServerLocked_def)
  have C: "c_servers (client h' e) = (if e = c then removeAll s (c_servers (client h c)) else c_servers (client h e))"
    "c_userID (client h' e) = c_userID (client h e)"
    "c_sessionKey (client h' e) = c_sessionKey (client h e)" "c_done (client h' e) = c_done (client h e)"
    "c_connectionID (client h' e) = c_connectionID (client h e)" "client_ok (client h' e) = client_ok (client h e)"
    "c_subscriptions (client h' e) = c_subscriptions (client h e)" "cid h' e = cid h e" for e
    by (simp_all add: cl cid_def client_ok_def)
  have sh: "shrinks h h'"
    unfolding shrinks_def keys C F by (auto simp: p unindexServerLocked_def intro: length_removeAll_less_eq)
  have "refs_inv h'"
    by (rule refs_inv_shrinks[OF _ sh])
      (use inv in \<open>simp_all add: C hub_inv_def refs_inv_def distinct_removeAll\<close>)
  moreover have "index_inv h'"
    unfolding index_inv_def C F
    using hub_inv_index[OF inv, unfolded clientsForServer_def] by (auto simp: get_or_unindex)
  moreover have "room_inv h'" using inv unfolding hub_inv_def room_inv_def members_def C F by simp
  moreover have "presence_inv h'"
    unfolding presence_inv_def
  proof (intro allI)
    fix s' u'
    have pi: "presence_of h s' u' = card (on_server h s' u')" for s' u'
      using inv by (simp add: hub_inv_def presence_inv_def)
    have P: "presence_of h' s' u' = (if s' = s \<and> u' = c_userID (client h c)
        then presence_of h s' u' - 1 else presence_of h s' u')"
      using decrementPresence_facts(2)[OF d, of s' u']
      by (simp add: presence_of_def unindexServerLocked_def)
    have O: "on_server h' s' u' = (if s' = s \<and> u' = c_userID (client h c)
        then on_server h s' u' - {c} else on_server h s' u')"
      unfolding on_server_def C F by auto
    show "presence_of h' s' u' = card (on_server h' s' u')"
      unfolding P O pi using c s by (auto simp: on_server_def card_Diff_singleton)
  qed
  moreover have "media_inv h'"
    by (rule media_inv_shrinks[OF _ sh]) (use inv F in \<open>simp_all add: hub_inv_def\<close>)
  ultimately show "hub_inv h'" by (simp add: hub_inv_def)
  show "cleans h h'" by (rule shrinks_cleans[OF sh F(2)])
  show "c_servers (client h' c) = removeAll s (c_servers (client h c))" by (simp add: C)
  show "h_voice h' = h_voice h" "h_streams h' = h_streams h"
    "\<And>d. d \<noteq> c \<Longrightarrow> c_servers (client h' d) = c_servers (client h d)"
    "\<And>d. c_subscriptions (client h' d) = c_subscriptions (client h d)" "h_clients h' = h_clients h"
    by (simp_all add: F C)
  show "hub_size h' < hub_size h"
  proof -
    let ?f = "\<lambda>e. length (c_servers (client h e))" and ?f' = "\<lambda>e. length (c_servers (client h' e))"
    have le: "?f' e \<le> ?f e" for e using sh by (simp add: shrinks_def)
    have lt: "?f' c < ?f c" using s by (simp add: C length_removeAll_less)
    have "sum_list (map ?f' ks) < sum_list (map ?f ks)" if "c \<in> set ks" for ks
      using that
    proof (induction ks)
      case (Cons k ks)
      have "sum_list (map ?f' ks) \<le> sum_list (map ?f ks)" using le by (intro sum_list_mono)
      then show ?case using Cons lt le[of k] by (cases "k = c") (auto intro: add_less_le_mono add_le_less_mono)
    qed simp
    from this[of "map fst (h_heap h)"] have "sum_list (map ?f' (map fst (h_heap h))) < sum_list (map ?f (map fst (h_heap h)))"
      using ck by simp
    then show ?thesis unfolding hub_size_def keys F by (intro add_strict_right_mono)
  qed
  show "presence_of h' s (c_userID (client h c)) = 0" if "off"
  proof -
    have "presence_of h s (c_userID (client h c)) - 1 = 0"
      using d that
      by (auto simp: decrementPresence_def unindexServerLocked_def presence_of_def get_or_def Let_def
          split: option.splits if_splits)
    then show ?thesis using decrementPresence_facts(2)[OF d, of s "c_userID (client h c)"]
      by (simp add: presence_of_def unindexServerLocked_def)
  qed
qed


end
