(* ===== verification/HubCleanup.thy ===== *)
theory HubCleanup
  imports Hub
begin

text \<open>
  Cleanup of the hub terminates and is complete. The locale \<open>unregisterer\<close> states what the hub's
  broadcasts rely on when a recipient has to be dropped: the function they call keeps the hub
  invariant, only removes things, and leaves the dropped connection nowhere, for every state
  smaller than a bound. Inside it every operation that \<^verbatim>\<open>Unregister\<close> reaches is shown to return and
  to do the same, the ones that first remove something for one more unit of size. The locale is
  interpreted on \<open>Unregister_fuel\<close> by induction on the depth, and then on \<open>Unregister\<close> itself.
\<close>

subsection \<open>Shared lemmas\<close>

definition tidy :: "(cref \<times> int) set \<Rightarrow> (cref \<times> int) set \<Rightarrow> hub \<Rightarrow> hub \<Rightarrow> bool" where
  "tidy E F h h' \<longleftrightarrow> hub_inv h' \<and> cleans h h' \<and> (seated E F h \<longrightarrow> seated E F h')"

lemma seatedD:
  assumes "seated E F h"
  shows "map_of (v_byClient (h_voice h)) c = Some p \<Longrightarrow> c \<in> set (h_clients h) \<Longrightarrow>
      (c, vp_ServerID p) \<in> E \<or> vp_ServerID p \<in> set (c_servers (client h c))"
    "map_of (c_subscriptions (client h c)) ch = Some s \<Longrightarrow> (c, s) \<in> E \<or> s \<in> set (c_servers (client h c))"
    "map_of (t_byClient (h_streams h)) c = Some st \<Longrightarrow>
      (c, as_channelID (stream_at (h_streams h) (st_stream st))) \<in> F \<or>
      (\<exists>p. map_of (v_byClient (h_voice h)) c = Some p \<and>
        vp_ChannelID p = as_channelID (stream_at (h_streams h) (st_stream st)) \<and>
        vp_ServerID p = as_serverID (stream_at (h_streams h) (st_stream st)))"
  using assms by (simp_all add: seated_def Let_def)

lemma seatedI:
  assumes "\<And>c p. map_of (v_byClient (h_voice h)) c = Some p \<Longrightarrow> c \<in> set (h_clients h) \<Longrightarrow>
      (c, vp_ServerID p) \<in> E \<or> vp_ServerID p \<in> set (c_servers (client h c))"
    "\<And>c ch s. map_of (c_subscriptions (client h c)) ch = Some s \<Longrightarrow> (c, s) \<in> E \<or> s \<in> set (c_servers (client h c))"
    "\<And>c st. map_of (t_byClient (h_streams h)) c = Some st \<Longrightarrow>
      (c, as_channelID (stream_at (h_streams h) (st_stream st))) \<in> F \<or>
      (\<exists>p. map_of (v_byClient (h_voice h)) c = Some p \<and>
        vp_ChannelID p = as_channelID (stream_at (h_streams h) (st_stream st)) \<and>
        vp_ServerID p = as_serverID (stream_at (h_streams h) (st_stream st)))"
  shows "seated E F h"
  using assms by (simp add: seated_def Let_def)

lemma shrinks_clients: "shrinks h h' \<Longrightarrow> set (h_clients h') \<subseteq> set (h_clients h)"
  by (simp add: shrinks_def)

lemma seated_frame:
  assumes "seated E F h" "h_voice h' = h_voice h" "h_streams h' = h_streams h"
    "set (h_clients h') \<subseteq> set (h_clients h)" "\<And>c. c_servers (client h' c) = c_servers (client h c)"
    "\<And>c ch s. map_of (c_subscriptions (client h' c)) ch = Some s \<Longrightarrow> map_of (c_subscriptions (client h c)) ch = Some s"
  shows "seated E F h'"
  by (rule seatedI) (use assms(2-5) seatedD[OF assms(1)] seatedD(2)[OF assms(1) assms(6)] in \<open>simp_all add: subsetD\<close>)

lemma seated_leave_streams:
  assumes inv: "hub_inv h" and l: "stream_leave (h_streams h) c = (st, r, pub, ex)" and s: "seated E F h"
  shows "seated E F (h\<lparr> h_streams := st \<rparr>)"
proof -
  have si: "stream_inv (h_maxStreamViewers h) (h_maxP2PStreamViewers h) (h_streams h)"
    using inv by (simp add: hub_inv_def media_inv_def)
  note L = stream_leave_facts(5,11)[OF si l]
  have "map_of (t_byClient (h_streams h)) d = Some x" if "map_of (t_byClient st) d = Some x" for d x
    using L(1)[of d] that by auto
  then show ?thesis using s L(2) by (simp add: seated_def Let_def)
qed

lemma seated_leave_voice:
  assumes inv: "hub_inv h" and l: "voice_leave (h_voice h) c = (v, q)" and s: "seated E F h"
    and n: "map_of (t_byClient (h_streams h)) c = None"
  shows "seated E F (h\<lparr> h_voice := v \<rparr>)"
proof -
  have vi: "voice_inv (ident h) (h_voice h)" using inv by (simp add: hub_inv_def media_inv_def)
  note L = voice_leave_facts(3)[OF vi l]
  show ?thesis using s n L unfolding seated_def Let_def by (auto split: if_splits)
qed

lemma seated_remove_server:
  assumes s: "seated E F h" and v: "h_clients h' = h_clients h" "h_voice h' = h_voice h" "h_streams h' = h_streams h"
    and o: "\<And>d. d \<noteq> c \<Longrightarrow> c_servers (client h' d) = c_servers (client h d)"
    and r: "c_servers (client h' c) = removeAll srv (c_servers (client h c))"
    and u: "\<And>d. c_subscriptions (client h' d) = c_subscriptions (client h d)"
    and e: "\<And>p. map_of (v_byClient (h_voice h)) c = Some p \<Longrightarrow> vp_ServerID p = srv \<Longrightarrow> (c, srv) \<in> E"
      "\<And>ch. map_of (c_subscriptions (client h c)) ch = Some srv \<Longrightarrow> (c, srv) \<in> E"
  shows "seated E F h'"
proof -
  have "(d, vp_ServerID p) \<in> E \<or> vp_ServerID p \<in> set (c_servers (client h' d))"
    if "map_of (v_byClient (h_voice h)) d = Some p" "d \<in> set (h_clients h)" for d p
    using seatedD(1)[OF s that] that e(1) o r by (cases "d = c") auto
  moreover have "(d, x) \<in> E \<or> x \<in> set (c_servers (client h' d))"
    if "map_of (c_subscriptions (client h d)) ch = Some x" for d ch x
    using seatedD(2)[OF s that] that e(2) o r by (cases "d = c"; cases "x = srv") auto
  ultimately show ?thesis
    by (intro seatedI) (use v u seatedD(3)[OF s] in simp_all)
qed

lemma tidy_refl: "hub_inv h \<Longrightarrow> tidy E F h h"
  by (simp add: tidy_def)

lemma tidy_trans: "tidy E F a b \<Longrightarrow> tidy E F b c \<Longrightarrow> tidy E F a c"
  using cleans_trans by (auto simp: tidy_def)

lemma soft_tidy: "soft h h' \<Longrightarrow> hub_inv h \<Longrightarrow> tidy E F h h'"
proof -
  assume s: "soft h h'" and inv: "hub_inv h"
  have "h_voice h' = h_voice h" "h_streams h' = h_streams h" using s by (simp_all add: soft_def)
  then show ?thesis
    using seated_frame[of E F h h'] soft_core(8,9)[OF s] s[unfolded soft_def] soft_inv[OF s inv] soft_cleans[OF s] by (simp add: tidy_def)
qed

lemma tidyD:
  assumes "tidy E F h h'"
  shows "hub_inv h'" "cleans h h'" "shrinks h h'" "hub_size h' \<le> hub_size h" "h_known h' = h_known h"
    "gone h c \<Longrightarrow> gone h' c"
    "seated E F h \<Longrightarrow> seated E F h'"
  using assms shrinks_size gone_shrinks by (auto simp: tidy_def cleans_def shrinks_def)

lemma tidy_gone:
  assumes "tidy E F h h'"
  shows "set (c_servers (client h' c)) \<subseteq> set (c_servers (client h c))"
    "c_done (client h c) \<Longrightarrow> c_done (client h' c)" "c \<notin> set (h_clients h) \<Longrightarrow> c \<notin> set (h_clients h')"
    "map_of (c_subscriptions (client h c)) ch = None \<Longrightarrow> map_of (c_subscriptions (client h' c)) ch = None"
    "map_of (v_byClient (h_voice h)) c = None \<Longrightarrow> map_of (v_byClient (h_voice h')) c = None"
    "map_of (t_byClient (h_streams h)) c = None \<Longrightarrow> map_of (t_byClient (h_streams h')) c = None"
proof -
  have "shrinks h h'" by (rule tidyD(3)[OF assms])
  then have "set (c_servers (client h' c)) \<subseteq> set (c_servers (client h c)) \<and>
    (c_done (client h c) \<longrightarrow> c_done (client h' c)) \<and> set (h_clients h') \<subseteq> set (h_clients h) \<and>
    map_of (c_subscriptions (client h' c)) \<subseteq>\<^sub>m map_of (c_subscriptions (client h c)) \<and>
    map_of (v_byClient (h_voice h')) \<subseteq>\<^sub>m map_of (v_byClient (h_voice h)) \<and>
    map_of (t_byClient (h_streams h')) \<subseteq>\<^sub>m map_of (t_byClient (h_streams h))"
    unfolding shrinks_def by blast
  then show "set (c_servers (client h' c)) \<subseteq> set (c_servers (client h c))"
    "c_done (client h c) \<Longrightarrow> c_done (client h' c)" "c \<notin> set (h_clients h) \<Longrightarrow> c \<notin> set (h_clients h')"
    "map_of (c_subscriptions (client h c)) ch = None \<Longrightarrow> map_of (c_subscriptions (client h' c)) ch = None"
    "map_of (v_byClient (h_voice h)) c = None \<Longrightarrow> map_of (v_byClient (h_voice h')) c = None"
    "map_of (t_byClient (h_streams h)) c = None \<Longrightarrow> map_of (t_byClient (h_streams h')) c = None"
    by (auto dest: map_le_None)
qed

lemma map_of_le: "m \<subseteq>\<^sub>m m' \<Longrightarrow> m x = Some y \<Longrightarrow> m' x = Some y"
  unfolding map_le_def by (metis domI)

lemma voice_shrinks:
  "tidy E F h h' \<Longrightarrow> map_of (v_byClient (h_voice h')) c = Some p \<Longrightarrow> map_of (v_byClient (h_voice h)) c = Some p"
proof -
  assume t: "tidy E F h h'" and p: "map_of (v_byClient (h_voice h')) c = Some p"
  have "map_of (v_byClient (h_voice h')) \<subseteq>\<^sub>m map_of (v_byClient (h_voice h))"
    using tidyD(3)[OF t] unfolding shrinks_def by blast
  then show ?thesis using p by (rule map_of_le)
qed

lemma cleans_subscriptions:
  "cleans h h' \<Longrightarrow> map_of (c_subscriptions (client h' c)) \<subseteq>\<^sub>m map_of (c_subscriptions (client h c))"
  by (simp add: cleans_def shrinks_def)

lemma mkEvent_wf: "t \<noteq> EventChannelSyncRequired \<Longrightarrow> wf_event (mkEvent t d)"
  by (simp add: wf_event_def mkEvent_def)

lemma foreach_tidy:
  assumes "\<And>h x. hub_inv h \<Longrightarrow> x \<in> set xs \<Longrightarrow> h_known h = K \<Longrightarrow> hub_size h < b \<Longrightarrow> P h \<Longrightarrow>
      \<exists>h'. f h x = Some h' \<and> tidy E F h h' \<and> Q x h'"
    and "\<And>h h'. P h \<Longrightarrow> tidy E F h h' \<Longrightarrow> P h'"
    and "\<And>x h h'. Q x h \<Longrightarrow> tidy E F h h' \<Longrightarrow> Q x h'"
    and "hub_inv h" "h_known h = K" "hub_size h < b" "P h"
  shows "\<exists>h'. foreach f h xs = Some h' \<and> tidy E F h h' \<and> (\<forall>x \<in> set xs. Q x h')"
  using assms
proof (induction xs arbitrary: h)
  case Nil
  then show ?case by (simp add: tidy_refl)
next
  case (Cons x xs)
  obtain h1 where h1: "f h x = Some h1" "tidy E F h h1" "Q x h1"
    using Cons.prems(1)[OF Cons.prems(4) _ Cons.prems(5-7)] by auto
  have s: "\<And>h y. hub_inv h \<Longrightarrow> y \<in> set xs \<Longrightarrow> h_known h = K \<Longrightarrow> hub_size h < b \<Longrightarrow> P h \<Longrightarrow>
      \<exists>h'. f h y = Some h' \<and> tidy E F h h' \<and> Q y h'"
    using Cons.prems(1) by simp
  have "h_known h1 = K" "hub_size h1 < b" "hub_inv h1" "P h1"
    using tidyD[OF h1(2)] Cons.prems(5,6) Cons.prems(2)[OF Cons.prems(7) h1(2)] by simp_all
  with Cons.IH[of h1] s Cons.prems(2,3)
  obtain h2 where h2: "foreach f h1 xs = Some h2" "tidy E F h1 h2" "\<forall>y \<in> set xs. Q y h2"
    by blast
  have "Q x h2" by (rule Cons.prems(3)[OF h1(3) h2(2)])
  then show ?case using h1(1) h2(1,3) tidy_trans[OF h1(2) h2(2)] by auto
qed

lemma foreach_tidy_simple:
  assumes "\<And>h x. hub_inv h \<Longrightarrow> x \<in> set xs \<Longrightarrow> h_known h = K \<Longrightarrow> hub_size h < b \<Longrightarrow>
      \<exists>h'. f h x = Some h' \<and> tidy E F h h'"
    and "hub_inv h" "h_known h = K" "hub_size h < b"
  shows "\<exists>h'. foreach f h xs = Some h' \<and> tidy E F h h'"
  using foreach_tidy[of xs K b "\<lambda>_. True" f E F "\<lambda>_ _. True" h] assms by auto

lemma server_clients_known: "hub_inv h \<Longrightarrow> set (clientsForServer h s) \<subseteq> set (h_known h)"
  using hub_inv_index(2) hub_inv_refs(2) by blast

lemma stream_members_known:
  assumes "hub_inv h" "live (h_streams h) r v"
  shows "as_publisher v \<in> set (h_known h)"
proof -
  have i: "stream_inv (h_maxStreamViewers h) (h_maxP2PStreamViewers h) (h_streams h)"
    using assms(1) by (simp add: hub_inv_def media_inv_def)
  have "map_of (t_byClient (h_streams h)) (as_publisher v) \<noteq> None"
    using stream_invD(8)[OF i assms(2)] by auto
  then show ?thesis using assms(1) by (simp add: hub_inv_def media_inv_def)
qed

lemma unsubscribe_all_tidy:
  assumes "hub_inv h" "c \<in> set (h_known h)"
  shows "tidy E F h (fold (\<lambda>ch h. fst (Unsubscribe h c ch)) chs h) \<and> (\<forall>ch \<in> set chs.
    map_of (c_subscriptions (client (fold (\<lambda>ch h. fst (Unsubscribe h c ch)) chs h) c)) ch = None)"
  using assms
proof (induction chs arbitrary: h)
  case Nil
  then show ?case by (simp add: tidy_refl)
next
  case (Cons k chs)
  note U = Unsubscribe_facts[OF Cons.prems, of k]
  have t: "tidy E F h (fst (Unsubscribe h c k))"
    using U(1,2) seated_frame[OF _ U(7,8) equalityD1[OF arg_cong[OF U(5)]] U(4)] map_of_le[OF cleans_subscriptions[OF U(2)]] by (auto simp: tidy_def)
  have c: "c \<in> set (h_known (fst (Unsubscribe h c k)))" using tidyD(5)[OF t] Cons.prems(2) by simp
  note ih = Cons.IH[OF U(1) c]
  show ?case
    using ih tidy_trans[OF t] tidy_gone(4)[OF conjunct1[OF ih] U(3)] by simp
qed

subsection \<open>The interface of the broadcasts\<close>

locale unregisterer =
  fixes U :: unreg and bound :: nat and E :: "(cref \<times> int) set" and F :: "(cref \<times> int) set"
  assumes unreg: "hub_inv h \<Longrightarrow> c \<in> set (h_known h) \<Longrightarrow> hub_size h < bound \<Longrightarrow>
      \<exists>h'. U h c = Some h' \<and> tidy E F h h' \<and> gone h' c"
begin

lemma unreg_all:
  assumes "hub_inv h" "set cs \<subseteq> set (h_known h)" "hub_size h < bound"
  shows "\<exists>h'. foreach U h cs = Some h' \<and> tidy E F h h' \<and> (\<forall>c \<in> set cs. gone h' c)"
  by (rule foreach_tidy[where K = "h_known h" and b = bound and Q = "\<lambda>c h. gone h c" and P = "\<lambda>_. True"])
    (use assms unreg tidyD(6) in auto)

lemma send_all_unreg:
  assumes "hub_inv h" "set cs \<subseteq> set (h_known h)" "wf_event e" "hub_size h < bound"
  shows "\<exists>h1 n failed h2. send_all e h cs = Some (h1, n, failed) \<and> foreach U h1 failed = Some h2 \<and>
    tidy E F h h2 \<and> n \<le> length cs"
proof -
  have "set cs \<subseteq> fst ` set (h_heap h)" using assms(2) hub_inv_refs(1)[OF assms(1)] by blast
  then obtain h1 n failed where s: "send_all e h cs = Some (h1, n, failed)" "soft h h1"
    "set failed \<subseteq> set cs" "n + length failed = length cs"
    using send_all_soft[OF _ assms(3) hub_inv_refs(3)[OF assms(1)]] by blast
  note t = soft_tidy[OF s(2) assms(1)]
  have "set failed \<subseteq> set (h_known h1)" using assms(2) s(3) tidyD(5)[OF t] by auto
  moreover have "hub_size h1 < bound" using tidyD(4)[OF t] assms(4) by simp
  ultimately obtain h2 where "foreach U h1 failed = Some h2" "tidy E F h1 h2"
    using unreg_all[OF tidyD(1)[OF t]] by blast
  then show ?thesis using s(1,4) tidy_trans[OF t] by auto
qed

lemma broadcastToClients_tidy:
  assumes "hub_inv h" "set cs \<subseteq> set (h_known h)" "wf_event e" "hub_size h < bound"
  shows "\<exists>h' n. broadcastToClients U h cs e = Some (h', n) \<and> tidy E F h h' \<and> n \<le> length cs"
proof -
  obtain h1 e1 where s: "shareEncoding h e = (h1, e1)" by fastforce
  note t = soft_tidy[OF shareEncoding_soft(1)[OF s] assms(1)]
  let ?cs = "rev (remdups (rev cs))"
  have "set ?cs \<subseteq> set (h_known h1)" "hub_size h1 < bound"
    using assms(2,4) tidyD(4,5)[OF t] by simp_all
  then obtain h2 n failed h3 where "send_all e1 h1 ?cs = Some (h2, n, failed)"
    "foreach U h2 failed = Some h3" "tidy E F h1 h3" "n \<le> length ?cs"
    using send_all_unreg[OF tidyD(1)[OF t] _ shareEncoding_soft(2)[OF s assms(3)]] by blast
  moreover have "length ?cs \<le> length cs" using length_remdups_leq[of "rev cs"] by simp
  ultimately show ?thesis
    using s tidy_trans[OF t] by (auto simp: broadcastToClients_def)
qed

lemma PublishToServer_tidy:
  assumes "hub_inv h" "wf_event e" "hub_size h < bound"
  shows "\<exists>h' n. PublishToServer U h s e = Some (h', n) \<and> tidy E F h h'"
  using broadcastToClients_tidy[OF assms(1) server_clients_known[OF assms(1)] assms(2,3), of s]
    tidy_refl[OF assms(1)]
  by (auto simp: PublishToServer_def)

lemma publishToServerExcept_tidy:
  assumes "hub_inv h" "wf_event e" "hub_size h < bound"
  shows "\<exists>h' n. publishToServerExcept U h s x e = Some (h', n) \<and> tidy E F h h'"
proof -
  have "set (filter (\<lambda>c. c \<noteq> x) (clientsForServer h s)) \<subseteq> set (h_known h)"
    using server_clients_known[OF assms(1), of s] by auto
  from broadcastToClients_tidy[OF assms(1) this assms(2,3)]
  show ?thesis by (auto simp: publishToServerExcept_def)
qed

lemma enqueue_or_unreg:
  assumes "hub_inv h" "c \<in> set (h_known h)" "wf_event e" "hub_size h < bound"
  shows "\<exists>h1 ok. hub_enqueue h c e = Some (h1, ok) \<and> tidy E F h h1 \<and>
    (\<exists>h2. U h1 c = Some h2 \<and> tidy E F h h2 \<and> gone h2 c)"
proof -
  have "c \<in> fst ` set (h_heap h)" using assms(2) hub_inv_refs(1)[OF assms(1)] by blast
  then obtain h1 ok where e: "hub_enqueue h c e = Some (h1, ok)" "soft h h1"
    using hub_enqueue_soft[OF _ assms(3) hub_inv_refs(3)[OF assms(1)]] by blast
  note t = soft_tidy[OF e(2) assms(1)]
  have "hub_size h1 < bound" "c \<in> set (h_known h1)" using tidyD(4,5)[OF t] assms(2,4) by simp_all
  then obtain h2 where "U h1 c = Some h2" "tidy E F h1 h2" "gone h2 c"
    using unreg[OF tidyD(1)[OF t]] by blast
  then show ?thesis using e(1) t tidy_trans[OF t] by auto
qed

lemma SendToConnection_tidy:
  assumes "hub_inv h" "wf_event e" "hub_size h < bound"
  shows "\<exists>h' ok. SendToConnection U h k e = Some (h', ok) \<and> tidy E F h h'"
proof (cases "clientByConnectionID h k = nil")
  case True
  then show ?thesis using tidy_refl[OF assms(1)] by (auto simp: SendToConnection_def)
next
  case False
  have "clientByConnectionID h k \<in> set (h_known h)"
    using clientByConnectionID_client(1)[OF assms(1) False] hub_inv_refs(2)[OF assms(1)] by blast
  from enqueue_or_unreg[OF assms(1) this assms(2,3)] False show ?thesis
    by (auto simp: SendToConnection_def split: bool.splits)
qed

lemma announce_tidy:
  assumes "hub_inv h" "hub_size h < bound"
  shows "\<exists>h'. announceLegacyStreamReplacement U h s ch = Some h' \<and> tidy E F h h'"
proof -
  have step: "\<exists>h''. (if c_multipleStreams (client h' c) then Some h'
      else map_option fst (SendToConnection U h' (c_connectionID (client h' c))
        (mkEvent EventStreamStarted (DStreamData v)))) = Some h'' \<and> tidy E F h' h''"
    if "hub_inv h'" "hub_size h' < bound" for h' c v
  proof -
    have "wf_event (mkEvent EventStreamStarted (DStreamData v))"
      by (rule mkEvent_wf) (simp add: event_types)
    from SendToConnection_tidy[OF that(1) this that(2), of "c_connectionID (client h' c)"]
    show ?thesis using tidy_refl[OF that(1)] by auto
  qed
  show ?thesis
  proof (cases "find (\<lambda>v. sa_ChannelID v = ch) (stream_snapshotForServers (client h) (h_streams h) [s])")
    case None
    then show ?thesis using tidy_refl[OF assms(1)] by (simp add: announceLegacyStreamReplacement_def)
  next
    case (Some v)
    have "\<exists>h'. foreach (\<lambda>h c. if c_multipleStreams (client h c) then Some h
        else map_option fst (SendToConnection U h (c_connectionID (client h c))
          (mkEvent EventStreamStarted (DStreamData v)))) h (clientsForServer h s) = Some h' \<and> tidy E F h h'"
      by (rule foreach_tidy_simple[OF _ assms(1) refl assms(2)]) (rule step)
    with Some show ?thesis by (simp add: announceLegacyStreamReplacement_def)
  qed
qed

lemma broadcastPresence_tidy:
  assumes "hub_inv h" "hub_size h < bound"
  shows "\<exists>h'. broadcastPresence env U h s u st = Some h' \<and> tidy E F h h'"
proof -
  obtain h1 t where n: "now_of env h = (h1, t)" by fastforce
  define h2 where "h2 = save_last_seen env h1 u (t, st)"
  have "soft h h1" using n by (auto simp: now_of_def)
  moreover have "soft h1 h2"
    by (auto simp: h2_def save_last_seen_def intro: soft_trans[OF soft_irrelevant(5) soft_irrelevant(4)])
  ultimately have t2: "tidy E F h h2" using soft_trans soft_tidy[OF _ assms(1)] by blast
  have sz: "hub_size h2 < bound" using tidyD(4)[OF t2] assms(2) by simp
  have ps: "wf_event (mkEvent EventPresenceUpdated d)" for d
    by (rule mkEvent_wf) (simp add: event_types)
  obtain h3 m failed h4 where "send_all (mkEvent EventPresenceUpdated (DPresenceUpdatedData
      \<lparr> pu_ServerID = s, pu_UserID = u, pu_Status = st, pu_LastSeenAt = Some t \<rparr>)) h2
      (clientsForServer h2 s) = Some (h3, m, failed)" "foreach U h3 failed = Some h4" "tidy E F h2 h4"
    using send_all_unreg[OF tidyD(1)[OF t2] server_clients_known[OF tidyD(1)[OF t2]] ps sz] by blast
  then show ?thesis
    using n tidy_trans[OF t2] t2 tidy_refl[OF assms(1)]
    by (auto simp: broadcastPresence_def h2_def[symmetric])
qed

lemma leaveStream_tidy:
  assumes inv: "hub_inv h" and sz: "hub_size h \<le> bound"
  shows "\<exists>h' r p f. leaveStream env U h c reason = Some (h', r, p, f) \<and> tidy E F h h' \<and>
    map_of (t_byClient (h_streams h')) c = None"
proof (cases "c = nil")
  case True
  have "map_of (t_byClient (h_streams h)) nil = None"
    using inv hub_inv_refs(5)[OF inv] unfolding hub_inv_def media_inv_def by blast
  then show ?thesis using True tidy_refl[OF inv] by (simp add: leaveStream_def) blast
next
  case False
  obtain st r p f where l: "stream_leave (h_streams h) c = (st, r, p, f)" by (metis prod_cases4)
  have si: "stream_inv (h_maxStreamViewers h) (h_maxP2PStreamViewers h) (h_streams h)"
    using inv by (simp add: hub_inv_def media_inv_def)
  note L = stream_leave_facts[OF si l]
  show ?thesis
  proof (cases f)
    case not_found: False
    then have "map_of (t_byClient (h_streams h)) c = None" using L(3,4) by simp
    then show ?thesis using False l not_found tidy_refl[OF inv] by (simp add: leaveStream_def) blast
  next
    case True
    let ?h0 = "h\<lparr> h_streams := st \<rparr>" and ?v = "stream_at st r"
    define h1 where "h1 = closeStreamSession env ?h0 (c_connectionID (client h c))"
    note S = leave_streams_step[OF inv l]
    have "soft ?h0 h1" by (simp add: h1_def closeStreamSession_def)
    then have "tidy E F ?h0 h1" using S(1) by (rule soft_tidy)
    moreover have "tidy E F h ?h0" using S(1,2) seated_leave_streams[OF inv l] by (simp add: tidy_def)
    ultimately have t1: "tidy E F h h1" by (rule tidy_trans[rotated])
    have sz1: "hub_size h1 < bound"
      using shrinks_size[of ?h0 h1] soft_cleans[OF \<open>soft ?h0 h1\<close>] S(3)[OF True] sz by (simp add: cleans_def)
    have "map_of (t_byClient (h_streams h1)) c = None"
      using S(4) by (simp add: h1_def closeStreamSession_def)
    then have none: "map_of (t_byClient (h_streams h')) c = None" if "tidy E F h1 h'" for h'
      using tidyD(3)[OF that] by (auto simp: shrinks_def dest: map_le_None)
    have "as_publisher ?v \<in> set (h_known h)" using stream_members_known[OF inv L(7)[OF True]] L(11)[of r] by simp
    then have pub: "as_publisher ?v \<in> set (h_known h1)" using tidyD(5)[OF t1] by simp
    have ev: "wf_event (mkEvent EventStreamStopped d)" "wf_event (mkEvent EventStreamViewerLeft d)"
      "wf_event (mkEvent EventStreamUpdated d)" for d by (rule mkEvent_wf, simp add: event_types)+
    note unfold = leaveStream_def l h1_def[symmetric] True False
    show ?thesis
    proof (cases p)
      case True
      obtain h2 n where h2: "PublishToServer U h1 (as_serverID ?v) (mkEvent EventStreamStopped
          (DStreamStoppedData \<lparr> ss_PublisherConnectionID = c_connectionID (client h1 (as_publisher ?v)),
            ss_ServerID = as_serverID ?v, ss_ChannelID = as_channelID ?v, ss_Reason = reason \<rparr>)) =
          Some (h2, n)" "tidy E F h1 h2"
        using PublishToServer_tidy[OF tidyD(1)[OF t1] ev(1) sz1] by blast
      have "hub_size h2 < bound" using tidyD(4)[OF h2(2)] sz1 by simp
      then obtain h3 where "announceLegacyStreamReplacement U h2 (as_serverID ?v) (as_channelID ?v) = Some h3"
        "tidy E F h2 h3" using announce_tidy[OF tidyD(1)[OF h2(2)]] by blast
      then show ?thesis using True h2 none[OF tidy_trans[OF h2(2)]] tidy_trans[OF t1 tidy_trans[OF h2(2)]]
        by (simp add: unfold) blast
    next
      case viewer: False
      define e where "e = mkEvent EventStreamViewerLeft (DStreamViewerData
        \<lparr> sv_ConnectionID = c_connectionID (client h1 c), sv_UserID = c_userID (client h1 c) \<rparr>)"
      define m where "m = (if as_mode ?v = StreamModeP2P then hub_enqueue h1 (as_publisher ?v) e else Some (h1, True))"
      have "\<exists>h2 ok. m = Some (h2, ok) \<and> tidy E F h1 h2 \<and> (\<not> ok \<longrightarrow>
          (\<exists>h3. U h2 (as_publisher ?v) = Some h3 \<and> tidy E F h1 h3))"
      proof (cases "as_mode ?v = StreamModeP2P")
        case True
        have "wf_event e" unfolding e_def by (rule ev(2))
        from enqueue_or_unreg[OF tidyD(1)[OF t1] pub this sz1] True show ?thesis
          by (simp add: m_def) blast
      next
        case False
        then show ?thesis using tidy_refl[OF tidyD(1)[OF t1]] by (simp add: m_def) blast
      qed
      then obtain h2 ok where m: "m = Some (h2, ok)" "tidy E F h1 h2"
        "\<not> ok \<longrightarrow> (\<exists>h3. U h2 (as_publisher ?v) = Some h3 \<and> tidy E F h1 h3)" by blast
      have "hub_size h2 < bound" using tidyD(4)[OF m(2)] sz1 by simp
      then obtain h3 n where h3: "PublishToServer U h2 (as_serverID ?v) (mkEvent EventStreamUpdated (DStreamData
          (streamData (client h2) (stream_at (h_streams h2) r)))) = Some (h3, n)" "tidy E F h2 h3"
        using PublishToServer_tidy[OF tidyD(1)[OF m(2)] ev(3)] by blast
      show ?thesis
        using m(1,3) viewer h3(1) none tidy_trans[OF m(2) h3(2)] tidy_trans[OF t1]
        by (cases ok) (auto simp: unfold Let_def m(1)[unfolded m_def e_def])
    qed
  qed
qed

lemma publish_left_tidy:
  assumes inv: "hub_inv h" and l: "voice_leave (h_voice h) c = (v, Some p)" and sz: "hub_size h \<le> bound"
    and n: "map_of (t_byClient (h_streams h)) c = None"
  shows "\<exists>h'. publishVoiceLeft U (h\<lparr> h_voice := v \<rparr>) p c = Some h' \<and> tidy E F h (closeVoiceSession env h' k) \<and>
    map_of (v_byClient (h_voice (closeVoiceSession env h' k))) c = None"
proof -
  note S = leave_voice_step[OF inv l]
  have sz1: "hub_size (h\<lparr> h_voice := v \<rparr>) < bound" using S(3) sz by simp
  have "wf_event (mkEvent EventVoiceParticipantLeft (DVoiceLeftData (newVoiceLeftData p)))"
    by (rule mkEvent_wf) (simp add: event_types)
  from publishToServerExcept_tidy[OF S(1) this sz1, of "vp_ServerID p" c]
  obtain h' where h': "publishVoiceLeft U (h\<lparr> h_voice := v \<rparr>) p c = Some h'" "tidy E F (h\<lparr> h_voice := v \<rparr>) h'"
    by (auto simp: publishVoiceLeft_def)
  have "soft h' (closeVoiceSession env h' k)" by (simp add: closeVoiceSession_def)
  then have "tidy E F (h\<lparr> h_voice := v \<rparr>) (closeVoiceSession env h' k)"
    using tidy_trans[OF h'(2)] soft_tidy tidyD(1)[OF h'(2)] by blast
  moreover have "tidy E F h (h\<lparr> h_voice := v \<rparr>)"
    using S(1,2) seated_leave_voice[OF inv l _ n] by (simp add: tidy_def)
  ultimately show ?thesis
    using h'(1) S(4) tidy_trans tidyD(3) by (fastforce simp: shrinks_def dest: map_le_None)
qed

lemma leaveVoice_tidy:
  assumes inv: "hub_inv h" and sz: "hub_size h \<le> bound" and c: "c \<noteq> nil"
  shows "\<exists>h' q. leaveVoice env U h c = Some (h', q) \<and> tidy E F h h' \<and>
    map_of (v_byClient (h_voice h')) c = None \<and> map_of (t_byClient (h_streams h')) c = None"
proof -
  obtain h1 r p f where h1: "leaveStream env U h c ''left voice channel'' = Some (h1, r, p, f)" "tidy E F h h1"
    "map_of (t_byClient (h_streams h1)) c = None" using leaveStream_tidy[OF inv sz] by blast
  have sz1: "hub_size h1 \<le> bound" using tidyD(4)[OF h1(2)] sz by simp
  obtain v q where l: "voice_leave (h_voice h1) c = (v, q)" by fastforce
  show ?thesis
  proof (cases q)
    case None
    then have "map_of (v_byClient (h_voice h1)) c = None" using leave_voice_step(5)[OF tidyD(1)[OF h1(2)] l] by simp
    then show ?thesis using h1 l None c by (simp add: leaveVoice_def)
  next
    case (Some w)
    from publish_left_tidy[OF tidyD(1)[OF h1(2)] l[unfolded Some] sz1 h1(3), of env "vp_ConnectionID w"]
    obtain h2 where h2: "publishVoiceLeft U (h1\<lparr> h_voice := v \<rparr>) w c = Some h2"
      "tidy E F h1 (closeVoiceSession env h2 (vp_ConnectionID w))"
      "map_of (v_byClient (h_voice (closeVoiceSession env h2 (vp_ConnectionID w)))) c = None" by blast
    have "map_of (t_byClient (h_streams (closeVoiceSession env h2 (vp_ConnectionID w)))) c = None"
      using h1(3) tidyD(3)[OF h2(2)] by (auto simp: shrinks_def dest: map_le_None)
    then show ?thesis using h1(1) h2(1,3) l Some c tidy_trans[OF h1(2) h2(2)] by (simp add: leaveVoice_def)
  qed
qed

lemma leaveVoiceForServer_tidy:
  assumes inv: "hub_inv h" and sz: "hub_size h \<le> bound" and c: "c \<noteq> nil"
  shows "\<exists>h'. leaveVoiceForServer env U h c s = Some h' \<and> tidy E F h h' \<and>
    (\<forall>p. map_of (v_byClient (h_voice h')) c = Some p \<longrightarrow> vp_ServerID p \<noteq> s)"
proof -
  define m where "m = (case voice_current (h_voice h) c of None \<Rightarrow> Some h
    | Some current \<Rightarrow> (if vp_ServerID current = s
        then map_option fst (leaveStream env U h c ''server access was revoked'') else Some h))"
  have "\<exists>h1. m = Some h1 \<and> tidy E F h h1 \<and> (\<forall>p. map_of (v_byClient (h_voice h)) c = Some p \<longrightarrow>
      vp_ServerID p = s \<longrightarrow> map_of (t_byClient (h_streams h1)) c = None)"
    using leaveStream_tidy[OF inv sz, of env c "''server access was revoked''"] tidy_refl[OF inv]
    by (auto simp: m_def voice_current_def split: option.splits)
  then obtain h1 where h1: "m = Some h1" "tidy E F h h1" "\<forall>p. map_of (v_byClient (h_voice h)) c = Some p \<longrightarrow>
      vp_ServerID p = s \<longrightarrow> map_of (t_byClient (h_streams h1)) c = None" by blast
  have sz1: "hub_size h1 \<le> bound" using tidyD(4)[OF h1(2)] sz by simp
  obtain v q where l: "voice_leaveServer (h_voice h1) c s = (v, q)" by fastforce
  show ?thesis
  proof (cases q)
    case None
    have "vp_ServerID p \<noteq> s" if p: "map_of (v_byClient (h_voice h1)) c = Some p" for p
    proof
      assume "vp_ServerID p = s"
      then have "voice_leave (h_voice h1) c = (v, None)" using l None p by (simp add: voice_leaveServer_leave)
      from leave_voice_step(5)[OF tidyD(1)[OF h1(2)] this] show False using p by simp
    qed
    then show ?thesis using h1 l None by (simp add: leaveVoiceForServer_def m_def[symmetric])
  next
    case (Some w)
    then obtain p where lv: "voice_leave (h_voice h1) c = (v, Some w)"
      and p: "map_of (v_byClient (h_voice h1)) c = Some p" "vp_ServerID p = s"
      using l by (auto simp: voice_leaveServer_leave split: option.splits if_splits)
    have "map_of (v_byClient (h_voice h)) c = Some p" using voice_shrinks[OF h1(2) p(1)] .
    then have "map_of (t_byClient (h_streams h1)) c = None" using h1(3) p(2) by blast
    from publish_left_tidy[OF tidyD(1)[OF h1(2)] lv sz1 this, of env "vp_ConnectionID w"]
    obtain h2 where h2: "publishVoiceLeft U (h1\<lparr> h_voice := v \<rparr>) w c = Some h2"
      "tidy E F h1 (closeVoiceSession env h2 (vp_ConnectionID w))"
      "map_of (v_byClient (h_voice (closeVoiceSession env h2 (vp_ConnectionID w)))) c = None" by blast
    then show ?thesis using h1(1) l Some tidy_trans[OF h1(2) h2(2)]
      by (simp add: leaveVoiceForServer_def m_def[symmetric])
  qed
qed

lemma removeClientServer_tidy:
  assumes inv: "hub_inv h" and c: "c \<in> set (h_known h)" and sz: "hub_size h \<le> bound"
    and ex: "\<And>p. map_of (v_byClient (h_voice h)) c = Some p \<Longrightarrow> vp_ServerID p = s \<Longrightarrow> (c, s) \<in> E"
      "\<And>ch. map_of (c_subscriptions (client h c)) ch = Some s \<Longrightarrow> (c, s) \<in> E"
  shows "\<exists>h'. removeClientServer env U h c s announce = Some h' \<and> tidy E F h h' \<and>
    s \<notin> set (c_servers (client h' c))"
proof (cases "s \<in> set (c_servers (client h c))")
  case False
  then have "removeServer (client h c) s = (client h c, False)" by (simp add: removeServer_def)
  then show ?thesis using False tidy_refl[OF inv] by (simp add: removeClientServer_def)
next
  case True
  let ?x = "(client h c)\<lparr> c_servers := removeAll s (c_servers (client h c)) \<rparr>"
  have x: "removeServer (client h c) s = (?x, True)" using True by (simp add: removeServer_def)
  obtain h2 off where d: "decrementPresence (unindexServerLocked (set_client h c ?x) s c) s
    (c_userID (client h c)) = (h2, off)" by fastforce
  note S = remove_server_step[OF inv c True d]
  have t: "tidy E F h h2" using S(1,2) seated_remove_server[OF _ S(10,6,7,8,4,9) ex] by (simp add: tidy_def)
  have "hub_size h2 < bound" using S(3) sz by simp
  from broadcastPresence_tidy[OF S(1) this, of env s "c_userID (client h c)" PresenceOffline]
  obtain h3 where h3: "broadcastPresence env U h2 s (c_userID (client h c)) PresenceOffline = Some h3" "tidy E F h2 h3"
    by blast
  have n: "s \<notin> set (c_servers (client h' c))" if "tidy E F h2 h'" for h'
    using tidy_gone(1)[OF that, of c] S(4) by auto
  show ?thesis
    using d x h3 n[OF h3(2)] n[OF tidy_refl[OF S(1)]] t tidy_trans[OF t h3(2)]
    by (simp add: removeClientServer_def)
qed

lemma unregisterPresence_tidy:
  assumes inv: "hub_inv h" and c: "c \<in> set (h_known h)" and sz: "hub_size h \<le> bound"
    and nv: "map_of (v_byClient (h_voice h)) c = None \<and> (\<forall>ch. map_of (c_subscriptions (client h c)) ch = None)"
  shows "\<exists>h'. unregisterPresence env U h c = Some h' \<and> tidy E F h h' \<and> c_servers (client h' c) = []"
proof -
  have "\<exists>h1. foreach (\<lambda>h s. removeClientServer env U h c s True) h (c_servers (client h c)) = Some h1 \<and>
      tidy E F h h1 \<and> (\<forall>s \<in> set (c_servers (client h c)). s \<notin> set (c_servers (client h1 c)))"
  proof (rule foreach_tidy[where P = "\<lambda>h. map_of (v_byClient (h_voice h)) c = None \<and>
        (\<forall>ch. map_of (c_subscriptions (client h c)) ch = None)" and K = "h_known h"
        and b = "Suc bound" and Q = "\<lambda>s h. s \<notin> set (c_servers (client h c))"])
    show "\<exists>h'. removeClientServer env U g c x True = Some h' \<and> tidy E F g h' \<and> x \<notin> set (c_servers (client h' c))"
      if "hub_inv g" "h_known g = h_known h" "hub_size g < Suc bound"
        "map_of (v_byClient (h_voice g)) c = None \<and> (\<forall>ch. map_of (c_subscriptions (client g c)) ch = None)" for g x
      using removeClientServer_tidy[OF that(1), of c x env True] that c by simp
    show "map_of (v_byClient (h_voice g')) c = None \<and> (\<forall>ch. map_of (c_subscriptions (client g' c)) ch = None)"
      if "map_of (v_byClient (h_voice g)) c = None \<and> (\<forall>ch. map_of (c_subscriptions (client g c)) ch = None)"
        "tidy E F g g'" for g g'
      using that(1) tidy_gone(4,5)[OF that(2), of c] by blast
    show "x \<notin> set (c_servers (client g' c))" if "x \<notin> set (c_servers (client g c))" "tidy E F g g'" for x g g'
      using that(1) tidy_gone(1)[OF that(2), of c] by blast
  qed (use inv sz nv in simp_all)
  then obtain h1 where h1: "foreach (\<lambda>h s. removeClientServer env U h c s True) h (c_servers (client h c)) = Some h1"
    "tidy E F h h1" "\<forall>s \<in> set (c_servers (client h c)). s \<notin> set (c_servers (client h1 c))" by blast
  have "x \<notin> set (c_servers (client h1 c))" for x
    using subsetD[OF tidy_gone(1)[OF h1(2)]] bspec[OF h1(3)] by metis
  then have e: "c_servers (client h1 c) = []" by (metis list.set_sel(1))
  let ?h = "h1\<lparr> h_lastSeen := AList.delete (c_userID (client h1 c)) (h_lastSeen h1) \<rparr>"
  have "tidy E F h ?h" using tidy_trans[OF h1(2) soft_tidy[OF soft_irrelevant(5) tidyD(1)[OF h1(2)]]] .
  then show ?thesis using h1(1,2) e by (simp add: unregisterPresence_def Let_def)
qed

lemma Unregister_body_tidy:
  assumes inv: "hub_inv h" and c: "c \<in> set (h_known h)" and sz: "hub_size h \<le> bound"
  shows "\<exists>h'. Unregister_body env U h c = Some h' \<and> tidy E F h h' \<and> gone h' c"
proof -
  have cn: "c \<noteq> nil" using c hub_inv_refs(5)[OF inv] by metis
  note D = detach_facts[OF inv c]
  have sz0: "hub_size (detach h c) \<le> bound" using shrinks_size[OF D(2)] sz by simp
  obtain h1 q where h1: "leaveVoice env U (detach h c) c = Some (h1, q)" "tidy E F (detach h c) h1"
    "map_of (v_byClient (h_voice h1)) c = None" "map_of (t_byClient (h_streams h1)) c = None"
    using leaveVoice_tidy[OF D(1) sz0 cn] by blast
  have c1: "c \<in> set (h_known h1)" using tidyD(5)[OF h1(2)] D(2) c by (simp add: shrinks_def)
  define h2 where "h2 = fold (\<lambda>ch h. fst (Unsubscribe h c ch)) (subscriptionIDs (client h1 c)) h1"
  have U: "tidy E F h1 h2"
    "ch \<in> set (subscriptionIDs (client h1 c)) \<Longrightarrow> map_of (c_subscriptions (client h2 c)) ch = None" for ch
    using unsubscribe_all_tidy[OF tidyD(1)[OF h1(2)] c1, of E F "subscriptionIDs (client h1 c)"] by (simp_all add: h2_def)
  have c2: "c \<in> set (h_known h2)" using tidyD(5)[OF U(1)] c1 by simp
  have sz2: "hub_size h2 \<le> bound" using tidyD(4)[OF U(1)] tidyD(4)[OF h1(2)] sz0 by simp
  have ns: "map_of (c_subscriptions (client h2 c)) ch = None" for ch
  proof (cases "map_of (c_subscriptions (client h1 c)) ch")
    case None
    then show ?thesis using tidy_gone(4)[OF U(1)] by blast
  next
    case (Some s)
    then have "ch \<in> set (subscriptionIDs (client h1 c))" by (force simp: subscriptionIDs_def dest: map_of_SomeD)
    then show ?thesis by (rule U(2))
  qed
  have nv: "map_of (v_byClient (h_voice h2)) c = None \<and> (\<forall>ch. map_of (c_subscriptions (client h2 c)) ch = None)"
    using ns tidy_gone(5)[OF U(1) h1(3)] by blast
  obtain h3 where h3: "unregisterPresence env U h2 c = Some h3" "tidy E F h2 h3" "c_servers (client h3 c) = []"
    using unregisterPresence_tidy[OF tidyD(1)[OF U(1)] c2 sz2 nv] by blast
  have t12: "tidy E F h1 h3" by (rule tidy_trans[OF U(1) h3(2)])
  then have t: "tidy E F (detach h c) h3" by (rule tidy_trans[OF h1(2)])
  from ns have "map_of (c_subscriptions (client h3 c)) ch = None" for ch
    using tidy_gone(4)[OF h3(2)] by blast
  moreover have "c_done (client h3 c)" "c \<notin> set (h_clients h3)"
    using D(4,5) tidy_gone(2,3)[OF t] by blast+
  moreover have "map_of (v_byClient (h_voice h3)) c = None" "map_of (t_byClient (h_streams h3)) c = None"
    using h1(3,4) tidy_gone(5,6)[OF t12] by blast+
  ultimately have g: "gone h3 c" using h3(3) by (simp add: gone_def settled_def)
  have "unsettled h3 \<subseteq> insert c (unsettled h)" using D(3) tidyD(2)[OF t] by (auto simp: cleans_def)
  then have "unsettled h3 \<subseteq> unsettled h" using g by (auto simp: unsettled_def gone_def)
  then have "tidy E F h h3"
    using tidyD(1,7)[OF t] shrinks_trans[OF D(2) tidyD(3)[OF t]] seated_frame[OF _ D(6,7) _ D(8)] D(9) shrinks_clients[OF D(2)]
    by (simp add: tidy_def cleans_def)
  then show ?thesis using cn g h1(1) h3(1) by (simp add: Unregister_body_def h2_def)
qed

end

subsection \<open>Unregister implements the interface\<close>

lemma unregisterer_fuel: "unregisterer (Unregister_fuel n env) n E F"
proof (induction n)
  case 0
  show ?case by unfold_locales simp
next
  case (Suc n)
  show ?case
    by unfold_locales (use unregisterer.Unregister_body_tidy[OF Suc] in \<open>simp add: less_Suc_eq_le\<close>)
qed

interpretation fuel: unregisterer "Unregister_fuel n env" n E F for n env E F
  by (rule unregisterer_fuel)

interpretation un: unregisterer "Unregister env" b E F for env b E F
  by unfold_locales (use fuel.unreg in \<open>auto simp: Unregister_def simp del: Unregister_fuel.simps\<close>)



subsection \<open>The depth does not matter\<close>

text \<open>\<^verbatim>\<open>Unregister\<close> satisfies the recursive equation of the code. Both sides are compared with the
  limit of the approximations \<open>Unregister_fuel n\<close>, which exists because every operation is
  monotone in the function it calls to drop a connection.\<close>

lemma foreach_le:
  assumes "\<And>h x r. f h x = Some r \<Longrightarrow> g h x = Some r" "foreach f h xs = Some r"
  shows "foreach g h xs = Some r"
  using assms(2)
proof (induction xs arbitrary: h)
  case (Cons x xs)
  from Cons.prems obtain h1 where "f h x = Some h1" "foreach f h1 xs = Some r"
    by (auto simp: foreach_Cons_Some simp del: foreach.simps)
  then show ?case using assms(1) Cons.IH by (auto simp: foreach_Cons_Some simp del: foreach.simps)
qed simp

locale unreg_approx =
  fixes U V :: unreg
  assumes le: "U h c = Some r \<Longrightarrow> V h c = Some r"
begin

lemma foreach_U_le: "foreach U h xs = Some r \<Longrightarrow> foreach V h xs = Some r"
  by (rule foreach_le[of U V]) (rule le)

lemma broadcastToClients_le:
  "broadcastToClients U h cs e = Some r \<Longrightarrow> broadcastToClients V h cs e = Some r"
  by (auto simp: broadcastToClients_def split: option.splits prod.splits
      dest!: foreach_U_le)

lemma PublishToServer_le: "PublishToServer U h s e = Some r \<Longrightarrow> PublishToServer V h s e = Some r"
  by (auto simp: PublishToServer_def dest!: broadcastToClients_le split: if_splits)

lemma publishVoiceLeft_le: "publishVoiceLeft U h p c = Some r \<Longrightarrow> publishVoiceLeft V h p c = Some r"
  by (auto simp: publishVoiceLeft_def publishToServerExcept_def dest!: broadcastToClients_le)

lemma SendToConnection_le: "SendToConnection U h k e = Some r \<Longrightarrow> SendToConnection V h k e = Some r"
  by (auto simp: SendToConnection_def Let_def dest!: le split: if_splits option.splits bool.splits)

lemma announce_le:
  assumes "announceLegacyStreamReplacement U h s ch = Some r"
  shows "announceLegacyStreamReplacement V h s ch = Some r"
proof -
  have "(if c_multipleStreams (client h c) then Some h
      else map_option fst (SendToConnection U h (c_connectionID (client h c)) e)) = Some r \<Longrightarrow>
    (if c_multipleStreams (client h c) then Some h
      else map_option fst (SendToConnection V h (c_connectionID (client h c)) e)) = Some r" for h c e r
    by (auto dest!: SendToConnection_le split: if_splits)
  then show ?thesis
    using assms unfolding announceLegacyStreamReplacement_def
    by (auto split: option.splits elim!: foreach_le[rotated])
qed

lemma broadcastPresence_le:
  "broadcastPresence env U h s u st = Some r \<Longrightarrow> broadcastPresence env V h s u st = Some r"
  by (auto simp: broadcastPresence_def Let_def split: option.splits prod.splits if_splits
      dest!: foreach_U_le)

lemma removeClientServer_le:
  "removeClientServer env U h c s a = Some r \<Longrightarrow> removeClientServer env V h c s a = Some r"
  by (auto simp: removeClientServer_def Let_def split: prod.splits if_splits dest!: broadcastPresence_le)

lemma unregisterPresence_le:
  "unregisterPresence env U h c = Some r \<Longrightarrow> unregisterPresence env V h c = Some r"
  using foreach_le[of "\<lambda>h s. removeClientServer env U h c s True" "\<lambda>h s. removeClientServer env V h c s True"]
    removeClientServer_le
  by (auto simp: unregisterPresence_def split: option.splits)

lemma leaveStream_le: "leaveStream env U h c why = Some r \<Longrightarrow> leaveStream env V h c why = Some r"
  unfolding leaveStream_def Let_def
  by (auto split: option.splits prod.splits if_splits dest!: le PublishToServer_le announce_le)

lemma leaveVoice_le: "leaveVoice env U h c = Some r \<Longrightarrow> leaveVoice env V h c = Some r"
  by (auto simp: leaveVoice_def split: option.splits prod.splits if_splits
      dest!: leaveStream_le publishVoiceLeft_le)

lemma Unregister_body_le: "Unregister_body env U h c = Some r \<Longrightarrow> Unregister_body env V h c = Some r"
  by (auto simp: Unregister_body_def split: option.splits prod.splits if_splits
      dest!: leaveVoice_le unregisterPresence_le)

end

definition Unregister_limit :: "hub_env \<Rightarrow> hub \<Rightarrow> cref \<Rightarrow> hub option" where
  "Unregister_limit env h c =
     (if \<exists>n. Unregister_fuel n env h c \<noteq> None
      then Unregister_fuel (LEAST n. Unregister_fuel n env h c \<noteq> None) env h c else None)"

lemma fuel_approx: "n \<le> m \<Longrightarrow> unreg_approx (Unregister_fuel n env) (Unregister_fuel m env)"
proof (induction n arbitrary: m)
  case 0
  show ?case by unfold_locales simp
next
  case (Suc n)
  then obtain k where "m = Suc k" "n \<le> k" by (cases m) auto
  with unreg_approx.Unregister_body_le[OF Suc.IH[OF \<open>n \<le> k\<close>]] show ?case
    by unfold_locales simp
qed

interpretation deeper: unreg_approx "Unregister_fuel n env" "Unregister_limit env" for n env
proof unfold_locales
  fix h c r
  assume r: "Unregister_fuel n env h c = Some r"
  let ?k = "LEAST n. Unregister_fuel n env h c \<noteq> None"
  have "Unregister_fuel ?k env h c \<noteq> None" by (rule LeastI[of _ n]) (simp add: r)
  moreover have "?k \<le> n" by (rule Least_le) (simp add: r)
  ultimately have "Unregister_fuel ?k env h c = Some r"
    using unreg_approx.le[OF fuel_approx[OF \<open>?k \<le> n\<close>]] r by fastforce
  then show "Unregister_limit env h c = Some r" using r by (auto simp: Unregister_limit_def)
qed

interpretation limit: unreg_approx "Unregister env" "Unregister_limit env" for env
  by unfold_locales (simp add: Unregister_def deeper.le del: Unregister_fuel.simps)

lemma Unregister_total:
  "hub_inv h \<Longrightarrow> c \<in> set (h_known h) \<Longrightarrow> \<exists>h'. Unregister env h c = Some h' \<and> tidy E F h h' \<and> gone h' c"
  using un.unreg[of h c "Suc (hub_size h)"] by simp

lemma Unregister_equation:
  assumes "hub_inv h" "c \<in> set (h_known h)"
  shows "Unregister env h c = Unregister_body env (Unregister env) h c"
proof -
  obtain r where r: "Unregister env h c = Some r" using Unregister_total[OF assms] by blast
  obtain r' where r': "Unregister_body env (Unregister env) h c = Some r'"
    using un.Unregister_body_tidy[OF assms order_refl] by blast
  have "Unregister_body env (Unregister_limit env) h c = Some r"
    using r by (auto simp: Unregister_def intro: deeper.Unregister_body_le)
  moreover have "Unregister_body env (Unregister_limit env) h c = Some r'"
    by (rule limit.Unregister_body_le[OF r'])
  ultimately show ?thesis using r r' by simp
qed

end
