(* ===== verification/HubOps.thy ===== *)
theory HubOps
  imports HubCleanup
begin

text \<open>
  The operations of the hub that the rest of the backend calls (src/internal/realtime/hub.go,
  channel_access.go, role_permissions.go, recording_events.go): registering and closing
  connections, subscribing them to channels, publishing, revoking sessions and memberships,
  removing channels, and refreshing cached channel access.

  Every operation drops slow connections with \<open>Unregister\<close>, which is total in reachable states.
  The result \<open>None\<close> stands for a panic; the lemmas show that it does not occur.
\<close>

subsection \<open>Shared steps\<close>

definition CloseReasonServerShutdown :: string where
  "CloseReasonServerShutdown = ''server is shutting down''"

definition close_client :: "hub \<Rightarrow> cref \<Rightarrow> string \<Rightarrow> hub" where
  "close_client h c reason = set_client h c (CloseWithReason (client h c) reason)"

text \<open>\<^verbatim>\<open>if !client.enqueue(event) { h.Unregister(client) }\<close>\<close>

definition send_or_drop :: "hub_env \<Rightarrow> hub \<Rightarrow> cref \<Rightarrow> OutgoingEvent \<Rightarrow> (hub \<times> bool) option" where
  "send_or_drop env h c event =
     (case hub_enqueue h c event of
        None \<Rightarrow> None
      | Some (h1, True) \<Rightarrow> Some (h1, True)
      | Some (h1, False) \<Rightarrow> map_option (\<lambda>h2. (h2, False)) (Unregister env h1 c))"

definition loadChannelAccess :: "hub_env \<Rightarrow> hub \<Rightarrow> int \<Rightarrow> hub \<times> int list option \<times> bool" where
  "loadChannelAccess env h userID =
     (case e_channelAccessLoader env of
        None \<Rightarrow> (h, None, False)
      | Some load \<Rightarrow>
          (h\<lparr> h_tick := h_tick h + 1 \<rparr>,
           (case load (h_tick h) userID of
              Inl _ \<Rightarrow> (Some [], True)
            | Inr None \<Rightarrow> (Some [], False)
            | Inr (Some ids) \<Rightarrow> (Some ids, False))))"

subsection \<open>Snapshots sent to one connection\<close>

definition onlineUserIDs :: "hub \<Rightarrow> int \<Rightarrow> int list" where
  "onlineUserIDs h serverID =
     (let presence = get_or [] (h_presence h) serverID in
      sort (filter (\<lambda>userID. get_or 0 presence userID > 0) (remdups (map fst presence))))"

definition sendPresenceSnapshot :: "hub_env \<Rightarrow> hub \<Rightarrow> cref \<Rightarrow> int list \<Rightarrow> hub option" where
  "sendPresenceSnapshot env h c serverIDs =
     map_option fst (send_or_drop env h c (mkEvent EventPresenceSnapshot (DPresenceSnapshotData
       \<lparr> ps_Servers = map (\<lambda>serverID. \<lparr> sp_ServerID = serverID,
           sp_OnlineUserIDs = onlineUserIDs h serverID \<rparr>) (sort serverIDs) \<rparr>)))"

definition sendVoiceSnapshot :: "hub_env \<Rightarrow> hub \<Rightarrow> cref \<Rightarrow> hub option" where
  "sendVoiceSnapshot env h c =
     map_option fst (send_or_drop env h c (mkEvent EventVoiceSnapshot (DVoiceSnapshotData
       \<lparr> vs_Participants = voice_snapshotForServers (h_voice h) (c_servers (client h c)) \<rparr>)))"

definition sendStreamSnapshot :: "hub_env \<Rightarrow> hub \<Rightarrow> cref \<Rightarrow> hub option" where
  "sendStreamSnapshot env h c =
     map_option fst (send_or_drop env h c (mkEvent EventStreamSnapshot (DStreamSnapshotData
       \<lparr> sn_Streams = stream_snapshotForServers (client h) (h_streams h) (c_servers (client h c)) \<rparr>)))"

subsection \<open>Registration\<close>

text \<open>The locked section of \<^verbatim>\<open>Register\<close>: the client enters every index.\<close>

definition register_indexes :: "hub \<Rightarrow> cref \<Rightarrow> hub" where
  "register_indexes h c =
     (let x = client h c;
          h1 = h\<lparr> h_clients := List.insert c (h_clients h), h_known := List.insert c (h_known h) \<rparr>;
          h2 = fold (\<lambda>serverID h. indexServerLocked h serverID c) (c_servers x) h1 in
      h2\<lparr> h_clientsByConnection := AList.update (c_connectionID x) c (h_clientsByConnection h2),
          h_clientsByUser := AList.update (c_userID x)
            (List.insert c (get_or [] (h_clientsByUser h2) (c_userID x))) (h_clientsByUser h2),
          h_clientsBySession := AList.update (c_sessionKey x)
            (List.insert c (get_or [] (h_clientsBySession h2) (c_sessionKey x))) (h_clientsBySession h2) \<rparr>)"

fun count_online :: "hub \<Rightarrow> int \<Rightarrow> int list \<Rightarrow> hub \<times> int list" where
  "count_online h userID [] = (h, [])"
| "count_online h userID (serverID # serverIDs) =
     (let (h1, wasOffline) = incrementPresence h serverID userID;
          (h2, online) = count_online h1 userID serverIDs in
      (h2, if wasOffline then serverID # online else online))"

definition registerPresence :: "hub_env \<Rightarrow> hub \<Rightarrow> cref \<Rightarrow> hub option" where
  "registerPresence env h c =
     (if \<not> List.member (h_clients h) c then Some h
      else let serverIDs = c_servers (client h c);
               userID = c_userID (client h c);
               (h1, online) = count_online h userID serverIDs in
      do {
        h2 \<leftarrow> foreach (\<lambda>h serverID. broadcastPresence env (Unregister env) h serverID userID PresenceOnline)
                h1 online;
        sendPresenceSnapshot env h2 c serverIDs
      })"

text \<open>The permission check that precedes registration; the flag says whether to go on.\<close>

definition install_access :: "hub_env \<Rightarrow> hub \<Rightarrow> cref \<Rightarrow> hub \<times> bool" where
  "install_access env h c =
     (if c = nil then (h, True)
      else case loadChannelAccess env h (c_userID (client h c)) of
        (h1, ids, True) \<Rightarrow> (close_client h1 c CloseReasonServerShutdown, False)
      | (h1, ids, False) \<Rightarrow> (set_client h1 c (replaceChannelAccess (client h1 c) ids), True))"

text \<open>\<^verbatim>\<open>Register\<close> enters the connection into the indexes under \<^verbatim>\<open>clientsMu\<close> (the guards from \<^verbatim>\<open>h_closed\<close> on
  and \<open>register_indexes\<close>), releases the lock, and only then counts presence and sends the snapshots.
  Here both parts follow each other directly; an \<^verbatim>\<open>Unregister\<close> between them is not a run of this model.\<close>

definition Register :: "hub_env \<Rightarrow> hub \<Rightarrow> cref \<Rightarrow> (hub \<times> bool) option" where
  "Register env h0 c =
     (case install_access env h0 c of
        (h, False) \<Rightarrow> Some (h, False)
      | (h, True) \<Rightarrow>
          (if c = nil \<or> c_userID (client h c) \<le> 0 then Some (h, False)
           else if h_closed h then Some (h, False)
           else if c_done (client h c) then Some (h, False)
           else if List.member (h_clients h) c then Some (h, False)
           else do {
             h1 \<leftarrow> registerPresence env (register_indexes h c) c;
             h2 \<leftarrow> sendVoiceSnapshot env h1 c;
             h3 \<leftarrow> sendStreamSnapshot env h2 c;
             Some (h3, True)
           }))"

definition CloseHub :: "hub_env \<Rightarrow> hub \<Rightarrow> hub option" where
  "CloseHub env h =
     (let h1 = h\<lparr> h_closed := True \<rparr> in
      foreach (\<lambda>h c. Unregister env (close_client h c CloseReasonServerShutdown) c) h1 (h_clients h1))"

definition ConnectedUserIDs :: "hub \<Rightarrow> int list" where
  "ConnectedUserIDs h = map fst (h_clientsByUser h)"

definition IsUserOnline :: "hub \<Rightarrow> int \<Rightarrow> bool" where
  "IsUserOnline h userID \<longleftrightarrow> length (get_or [] (h_clientsByUser h) userID) > 0"

subsection \<open>Subscribing and publishing\<close>

definition Subscribe :: "hub \<Rightarrow> cref \<Rightarrow> int \<Rightarrow> int \<Rightarrow> hub \<times> bool" where
  "Subscribe h c serverID channelID =
     (if c = nil \<or> serverID \<le> 0 \<or> channelID \<le> 0 \<or> \<not> canAccessChannel (client h c) channelID
        then (h, False)
      else if \<not> List.member (h_clients h) c \<or> h_closed h \<or> \<not> hasServer (client h c) serverID
        then (h, False)
      else if c_done (client h c) then (h, False)
      else let (h1, r) = getOrCreateRoom h channelID;
               (r', added) = room_add r c;
               h2 = h1\<lparr> h_rooms := AList.update channelID r' (h_rooms h1) \<rparr> in
      if \<not> added then (h2, False)
      else (set_client h2 c (addSubscription (client h2 c) serverID channelID), True))"

definition publish_to :: "hub_env \<Rightarrow> hub \<Rightarrow> cref list \<Rightarrow> OutgoingEvent \<Rightarrow> (hub \<times> nat) option" where
  "publish_to env h clients event =
     (let (h1, event1) = shareEncoding h event in
      case send_all event1 h1 clients of
        None \<Rightarrow> None
      | Some (h2, delivered, failed) \<Rightarrow>
          (case foreach (Unregister env) h2 failed of None \<Rightarrow> None | Some h3 \<Rightarrow> Some (h3, delivered)))"

definition Publish :: "hub_env \<Rightarrow> hub \<Rightarrow> int \<Rightarrow> OutgoingEvent \<Rightarrow> (hub \<times> nat) option" where
  "Publish env h channelID event =
     (if channelID \<le> 0 then Some (h, 0)
      else case getRoom h channelID of
        None \<Rightarrow> Some (h, 0)
      | Some room \<Rightarrow> publish_to env h (rm_clients room) event)"

definition PublishExcept :: "hub_env \<Rightarrow> hub \<Rightarrow> int \<Rightarrow> OutgoingEvent \<Rightarrow> cref \<Rightarrow> (hub \<times> nat) option" where
  "PublishExcept env h channelID event except =
     (case getRoom h channelID of
        None \<Rightarrow> Some (h, 0)
      | Some room \<Rightarrow>
          (if channelID \<le> 0 then Some (h, 0)
           else publish_to env h (filter (\<lambda>c. c \<noteq> except) (rm_clients room)) event))"

definition PublishToUser :: "hub_env \<Rightarrow> hub \<Rightarrow> int \<Rightarrow> OutgoingEvent \<Rightarrow> (hub \<times> nat) option" where
  "PublishToUser env h userID event =
     (if userID \<le> 0 then Some (h, 0)
      else broadcastToClients (Unregister env) h (get_or [] (h_clientsByUser h) userID) event)"

definition PublishToChannelAndUser ::
  "hub_env \<Rightarrow> hub \<Rightarrow> int \<Rightarrow> int \<Rightarrow> OutgoingEvent \<Rightarrow> (hub \<times> nat) option" where
  "PublishToChannelAndUser env h channelID userID event =
     (if channelID \<le> 0 \<or> userID \<le> 0 then Some (h, 0)
      else let clients = (case getRoom h channelID of None \<Rightarrow> [] | Some room \<Rightarrow> rm_clients room) in
      broadcastToClients (Unregister env) h
        (clients @ get_or [] (h_clientsByUser h) userID) event)"

subsection \<open>Revocation\<close>

definition revokeSessionKey :: "hub_env \<Rightarrow> hub \<Rightarrow> string \<Rightarrow> hub option" where
  "revokeSessionKey env h key =
     foreach (\<lambda>h c. Unregister env (close_client h c ''session expired or revoked'') c) h
       (get_or [] (h_clientsBySession h) key)"

definition RevokeSession ::
  "hub_env \<Rightarrow> (string \<Rightarrow> string) \<Rightarrow> (string \<Rightarrow> string) \<Rightarrow> hub \<Rightarrow> string \<Rightarrow> hub option" where
  "RevokeSession env sha256 trimSpace h token = revokeSessionKey env h (newSessionKey sha256 trimSpace token)"

definition RevokeSessionHash :: "hub_env \<Rightarrow> hub \<Rightarrow> string \<Rightarrow> hub option" where
  "RevokeSessionHash env h hash =
     (if length hash \<noteq> 32 then Some h else revokeSessionKey env h hash)"

text \<open>Installing the reloaded policy in one client, from the batch loader and one by one.\<close>

definition reload_batch ::
  "(unit + (int, int list) gomap) \<Rightarrow> cref \<Rightarrow> hub \<times> (int, bool) gomap \<Rightarrow> hub \<times> (int, bool) gomap" where
  "reload_batch loaded c s =
     (case s of (h, failed) \<Rightarrow>
       (let userID = c_userID (client h c);
            policy = (case loaded of Inl _ \<Rightarrow> [] | Inr ids \<Rightarrow> get_or [] ids userID) in
        (set_client h c (replaceChannelAccess (client h c) (Some policy)),
         AList.update userID (isl loaded) failed)))"

definition reload_single ::
  "hub_env \<Rightarrow> cref \<Rightarrow> hub \<times> (int, int list option) gomap \<times> (int, bool) gomap
    \<Rightarrow> hub \<times> (int, int list option) gomap \<times> (int, bool) gomap" where
  "reload_single env c s =
     (case s of (h, permissions, failed) \<Rightarrow>
       (let userID = c_userID (client h c) in
        case map_of permissions userID of
          Some ids \<Rightarrow> (set_client h c (replaceChannelAccess (client h c) ids), permissions, failed)
        | None \<Rightarrow>
            (let (h1, ids, err) = loadChannelAccess env h userID in
             (set_client h1 c (replaceChannelAccess (client h1 c) ids),
              AList.update userID ids permissions, AList.update userID err failed))))"

definition reloadChannelAccess :: "hub_env \<Rightarrow> hub \<Rightarrow> cref list \<Rightarrow> hub \<times> (int, bool) gomap" where
  "reloadChannelAccess env h clients =
     (case e_channelAccessBatchLoader env of
        Some load \<Rightarrow>
          (let ids = rev (remdups (rev (map (\<lambda>c. c_userID (client h c)) clients))) in
           fold (reload_batch (load (h_tick h) ids)) clients (h\<lparr> h_tick := h_tick h + 1 \<rparr>, []))
      | None \<Rightarrow>
          (case fold (reload_single env) clients (h, [], []) of (h1, _, failed) \<Rightarrow> (h1, failed)))"

definition revoke_client ::
  "hub_env \<Rightarrow> int \<Rightarrow> (int, bool) gomap \<Rightarrow> hub \<Rightarrow> cref \<Rightarrow> hub option" where
  "revoke_client env serverID failed h c =
     (if get_or False failed (c_userID (client h c))
      then Unregister env (close_client h c CloseReasonServerShutdown) c
      else do {
        h1 \<leftarrow> leaveVoiceForServer env (Unregister env) h c serverID;
        h2 \<leftarrow> removeClientServer env (Unregister env) h1 c serverID False;
        Some (unsubscribeFromServer h2 c serverID)
      })"

definition RevokeUserFromServer :: "hub_env \<Rightarrow> hub \<Rightarrow> int \<Rightarrow> int \<Rightarrow> hub option" where
  "RevokeUserFromServer env h userID serverID =
     (if userID \<le> 0 \<or> serverID \<le> 0 then Some h
      else let serverClients = clientsForServer h serverID;
               userClients = get_or [] (h_clientsByUser h) userID;
               (h1, failed) = reloadChannelAccess env h userClients in
      do {
        (h2, n) \<leftarrow> broadcastToClients (Unregister env) h1 (serverClients @ userClients)
                    (mkEvent EventServerMemberRemoved (DServerMemberRemovedData
                      \<lparr> sm_ServerID = serverID, sm_UserID = userID \<rparr>));
        foreach (revoke_client env serverID failed) h2 userClients
      })"

definition evict_client ::
  "hub_env \<Rightarrow> int \<Rightarrow> (int, bool) gomap \<Rightarrow> hub \<Rightarrow> cref \<Rightarrow> hub option" where
  "evict_client env serverID failed h c =
     (if get_or False failed (c_userID (client h c))
      then Unregister env (close_client h c CloseReasonServerShutdown) c
      else map_option (\<lambda>h1. unsubscribeFromServer h1 c serverID)
        (removeClientServer env (Unregister env) h c serverID False))"

definition RevokeServer :: "hub_env \<Rightarrow> hub \<Rightarrow> int \<Rightarrow> hub option" where
  "RevokeServer env h serverID =
     (if serverID \<le> 0 then Some h
      else let clients = clientsForServer h serverID;
               (h1, failed) = reloadChannelAccess env h clients in
      do {
        (h2, n) \<leftarrow> broadcastToClients (Unregister env) h1 clients
                    (mkEvent EventServerDeleted (DServerDeletedData \<lparr> sd_ServerID = serverID \<rparr>));
        h3 \<leftarrow> foreach (evict_client env serverID failed) h2 clients;
        let h4 = h3\<lparr> h_presence := AList.delete serverID (h_presence h3) \<rparr>;
        let (voice, participants) = voice_removeServer (h_voice h4) serverID;
        foreach (\<lambda>h participant. map_option (\<lambda>h1. closeVoiceSession env h1 (vp_ConnectionID participant))
            (stopStreamForChannel env (Unregister env) h (vp_ChannelID participant) ''server was deleted''))
          (h4\<lparr> h_voice := voice \<rparr>) participants
      })"

definition RemoveChannel :: "hub_env \<Rightarrow> hub \<Rightarrow> int \<Rightarrow> hub option" where
  "RemoveChannel env h channelID =
     (if channelID \<le> 0 then Some h
      else let h1 = (case getRoom h channelID of
                 None \<Rightarrow> h
               | Some room \<Rightarrow>
                   fold (\<lambda>c h. set_client h c (removeSubscription (client h c) channelID))
                     (snd (room_closeAndSnapshot room))
                     (h\<lparr> h_rooms := AList.delete channelID (h_rooms h) \<rparr>)) in
      do {
        h2 \<leftarrow> stopStreamForChannel env (Unregister env) h1 channelID ''voice channel was deleted'';
        let (voice, participants) = voice_removeChannel (h_voice h2) channelID;
        Some (fold (\<lambda>participant h. closeVoiceSession env h (vp_ConnectionID participant))
          participants (h2\<lparr> h_voice := voice \<rparr>))
      })"

definition add_client_server :: "hub_env \<Rightarrow> int \<Rightarrow> int \<Rightarrow> hub \<Rightarrow> cref \<Rightarrow> hub option" where
  "add_client_server env userID serverID h c =
     (let (x, added) = addServer (client h c) serverID in
      if \<not> List.member (h_clients h) c \<or> \<not> added then Some h
      else let (h1, becameOnline) =
                 incrementPresence (indexServerLocked (set_client h c x) serverID c) serverID userID in
      case loadChannelAccess env h1 userID of
        (h2, ids, True) \<Rightarrow> Unregister env (close_client h2 c CloseReasonServerShutdown) c
      | (h2, ids, False) \<Rightarrow>
          do {
            h3 \<leftarrow> (let h3 = set_client h2 c (replaceChannelAccess (client h2 c) ids) in
                   if becameOnline
                   then broadcastPresence env (Unregister env) h3 serverID userID PresenceOnline
                   else Some h3);
            sendPresenceSnapshot env h3 c [serverID]
          })"

definition AddUserToServer :: "hub_env \<Rightarrow> hub \<Rightarrow> int \<Rightarrow> int \<Rightarrow> hub option" where
  "AddUserToServer env h userID serverID =
     (if userID \<le> 0 \<or> serverID \<le> 0 then Some h
      else foreach (add_client_server env userID serverID) h (get_or [] (h_clientsByUser h) userID))"

subsection \<open>Refreshing cached permissions\<close>

definition closed_event :: "string \<Rightarrow> OutgoingEvent" where
  "closed_event reason = mkEvent EventVoiceWebRTCClosed (DVoiceWebRTCClosedData \<lparr> vc_Reason = reason \<rparr>)"

definition refresh_client ::
  "hub_env \<Rightarrow> int \<Rightarrow> (int, bool) gomap \<Rightarrow> hub \<Rightarrow> cref \<Rightarrow> hub option" where
  "refresh_client env serverID failed h c =
     (if get_or False failed (c_userID (client h c))
      then Unregister env (close_client h c CloseReasonServerShutdown) c
      else do {
        h1 \<leftarrow> (case voice_current (h_voice h) c of
                 None \<Rightarrow> Some h
               | Some current \<Rightarrow>
                   (if canAccessChannel (client h c) (vp_ChannelID current) then Some h
                    else do {
                      (h', _) \<leftarrow> leaveVoice env (Unregister env) h c;
                      map_option fst (SendToConnection (Unregister env) h' (c_connectionID (client h' c))
                        (closed_event ''channel access was revoked''))
                    }));
        let h2 = fold (\<lambda>channelID h. if canAccessChannel (client h c) channelID then h
                         else fst (Unsubscribe h c channelID))
                   (subscriptionIDsForServer (client h1 c) serverID) h1;
        h3 \<leftarrow> sendVoiceSnapshot env h2 c;
        sendStreamSnapshot env h3 c
      })"

definition RefreshChannelAccess :: "hub_env \<Rightarrow> hub \<Rightarrow> int \<Rightarrow> hub option" where
  "RefreshChannelAccess env h serverID =
     (if e_channelAccessLoader env = None \<and> e_channelAccessBatchLoader env = None then Some h
      else let clients = clientsForServer h serverID;
               (h1, failed) = reloadChannelAccess env h clients in
      do {
        h2 \<leftarrow> foreach (refresh_client env serverID failed) h1 clients;
        map_option fst (PublishToServer (Unregister env) h2 serverID
          (mkEvent EventChannelsChanged (DServerDeletedData \<lparr> sd_ServerID = serverID \<rparr>)))
      })"

text \<open>Bits 4 and 8 of the role permissions allow voice and streaming.\<close>

definition refresh_role :: "hub_env \<Rightarrow> int \<Rightarrow> hub \<Rightarrow> cref \<Rightarrow> hub option" where
  "refresh_role env serverID h c =
     (case e_rolePermissions env of
        None \<Rightarrow> Some h
      | Some load \<Rightarrow>
          (let h1 = h\<lparr> h_tick := h_tick h + 1 \<rparr>;
               here = (case voice_current (h_voice h1) c of
                         None \<Rightarrow> False | Some current \<Rightarrow> vp_ServerID current = serverID) in
           if (case load (h_tick h) serverID (c_userID (client h c)) of
                 Inl _ \<Rightarrow> True | Inr bits \<Rightarrow> \<not> bit bits 2) then
             (if here then do {
                h2 \<leftarrow> leaveVoiceForServer env (Unregister env) h1 c serverID;
                map_option fst (SendToConnection (Unregister env) h2 (c_connectionID (client h2 c))
                  (closed_event ''voice permission was revoked''))
              } else Some h1)
           else if (case load (h_tick h) serverID (c_userID (client h c)) of
                      Inl _ \<Rightarrow> False | Inr bits \<Rightarrow> \<not> bit bits 3) \<and>
                   here \<and> stream_isPublisher (h_streams h1) c
             then map_option fst (leaveStream env (Unregister env) h1 c ''stream permission was revoked'')
           else Some h1))"

definition RefreshRolePermissions :: "hub_env \<Rightarrow> hub \<Rightarrow> int \<Rightarrow> hub option" where
  "RefreshRolePermissions env h serverID =
     do {
       h1 \<leftarrow> foreach (refresh_role env serverID) h (clientsForServer h serverID);
       RefreshChannelAccess env h1 serverID
     }"

definition HasVoiceParticipant :: "hub \<Rightarrow> int \<Rightarrow> int \<Rightarrow> int \<Rightarrow> bool" where
  "HasVoiceParticipant h userID serverID channelID \<longleftrightarrow>
     (let c = get_or nil (v_byUser (h_voice h)) userID in
      c \<noteq> nil \<and>
      (case map_of (v_byClient (h_voice h)) c of
         None \<Rightarrow> False
       | Some p \<Rightarrow> vp_ServerID p = serverID \<and> vp_ChannelID p = channelID))"

end
