(* ===== verification/HubInv.thy ===== *)
theory HubInv
  imports HubOps
begin

text \<open>
  Every operation of the hub returns and keeps the hub in order: the invariant of \<open>Hub\<close>, nobody
  half removed (\<open>unsettled\<close> is empty), every voice participant on the server of its channel and
  every stream member in voice in the channel of the stream. Operations that only remove things
  come from the locale interpretation \<open>un\<close>; the others are treated one by one.
\<close>

subsection \<open>Hubs in order\<close>

definition hub_okE :: "(cref \<times> int) set \<Rightarrow> (cref \<times> int) set \<Rightarrow> hub \<Rightarrow> bool" where
  "hub_okE E F h \<longleftrightarrow> hub_inv h \<and> unsettled h = {} \<and> seated E F h"

definition hub_ok :: "hub \<Rightarrow> bool" where
  "hub_ok h \<longleftrightarrow> hub_okE {} {} h"

text \<open>\<open>same_conns\<close>: the same client records, with the same identities. \<open>fine\<close>: a step that keeps the
  hub in order and registers nobody.\<close>

definition same_conns :: "hub \<Rightarrow> hub \<Rightarrow> bool" where
  "same_conns h h' \<longleftrightarrow> map fst (h_heap h') = map fst (h_heap h) \<and>
     h_nextConnectionID h' = h_nextConnectionID h \<and>
     (\<forall>c. c_connectionID (client h' c) = c_connectionID (client h c))"

definition fine :: "(cref \<times> int) set \<Rightarrow> (cref \<times> int) set \<Rightarrow> hub \<Rightarrow> hub \<Rightarrow> bool" where
  "fine E F h h' \<longleftrightarrow> hub_okE E F h' \<and> h_known h' = h_known h \<and> same_conns h h' \<and>
     (\<forall>c. c_userID (client h' c) = c_userID (client h c))"

lemma same_conns_refl [simp]: "same_conns h h"
  by (simp add: same_conns_def)

lemma same_conns_trans: "same_conns a b \<Longrightarrow> same_conns b c \<Longrightarrow> same_conns a c"
  by (simp add: same_conns_def)

lemma same_conns_updates [simp]:
  "same_conns h (h\<lparr> h_voice := v \<rparr>)" "same_conns h (h\<lparr> h_streams := t \<rparr>)"
  "same_conns h (h\<lparr> h_rooms := r \<rparr>)" "same_conns h (h\<lparr> h_presence := p \<rparr>)"
  by (simp_all add: same_conns_def)

lemma fine_refl: "hub_okE E F h \<Longrightarrow> fine E F h h"
  by (simp add: fine_def)

lemma fine_trans: "fine E F a b \<Longrightarrow> fine E F b c \<Longrightarrow> fine E F a c"
  using same_conns_trans[of a b c] by (simp add: fine_def)

lemma tidy_ok: "tidy E F h h' \<Longrightarrow> hub_okE E F h \<Longrightarrow> hub_okE E F h'"
  using tidyD[of E F h h'] by (auto simp: hub_okE_def cleans_def)

lemma tidy_fine: "tidy E F h h' \<Longrightarrow> hub_okE E F h \<Longrightarrow> fine E F h h'"
  using tidy_ok tidyD(3,5) by (auto simp: fine_def same_conns_def shrinks_def cid_def)

lemma okE_inv: "hub_okE E F h \<Longrightarrow> hub_inv h"
  by (simp add: hub_okE_def)

lemma okE_seated: "hub_okE E F h \<Longrightarrow> seated E F h"
  by (simp add: hub_okE_def)

lemma foreach_fine:
  assumes "\<And>h x. x \<in> set xs \<Longrightarrow> hub_okE E F h \<Longrightarrow> h_known h = K \<Longrightarrow> \<exists>h'. f h x = Some h' \<and> fine E F h h'"
    and "hub_okE E F h" "h_known h = K"
  shows "\<exists>h'. foreach f h xs = Some h' \<and> fine E F h h'"
  using assms
proof (induction xs arbitrary: h)
  case Nil
  then show ?case by (simp add: fine_refl)
next
  case (Cons x xs)
  obtain h1 where h1: "f h x = Some h1" "fine E F h h1"
    using Cons.prems(1)[of x h] Cons.prems(2,3) by auto
  have k: "hub_okE E F h1" "h_known h1 = K" using h1(2) Cons.prems(3) by (simp_all add: fine_def)
  have "\<And>h y. y \<in> set xs \<Longrightarrow> hub_okE E F h \<Longrightarrow> h_known h = K \<Longrightarrow> \<exists>h'. f h y = Some h' \<and> fine E F h h'"
    using Cons.prems(1) by simp
  from Cons.IH[OF this k] h1 fine_trans show ?case by fastforce
qed

lemma foreach_append: "foreach f s (xs @ ys) = do { t \<leftarrow> foreach f s xs; foreach f t ys }"
  by (induction xs arbitrary: s) (auto split: Option.bind_splits)

lemma foreach_fine_from:
  assumes step: "\<And>g x. x \<in> set xs \<Longrightarrow> fine E F h g \<Longrightarrow> \<exists>g'. f g x = Some g' \<and> fine E F g g'"
    and ok: "hub_okE E F h"
  shows "\<exists>h'. foreach f h xs = Some h' \<and> fine E F h h'"
  using step
proof (induction xs rule: rev_induct)
  case Nil
  then show ?case using fine_refl[OF ok] by simp
next
  case (snoc x xs)
  then obtain g where g: "foreach f h xs = Some g" "fine E F h g" by auto
  obtain g' where "f g x = Some g'" "fine E F g g'" using snoc.prems[of x g] g(2) by auto
  then show ?case using g fine_trans[OF g(2)] by (auto simp: foreach_append)
qed

lemma foreach_clients_fine:
  assumes step: "\<And>h c. hub_okE E F h \<Longrightarrow> c \<in> set (h_known h) \<Longrightarrow> \<exists>h'. f h c = Some h' \<and> fine E F h h'"
    and ok: "hub_okE E F h" and cs: "set cs \<subseteq> set (h_known h)"
  shows "\<exists>h'. foreach f h cs = Some h' \<and> fine E F h h'"
proof (rule foreach_fine[OF _ ok refl])
  fix g c
  assume "c \<in> set cs" "hub_okE E F g" "h_known g = h_known h"
  then show "\<exists>h'. f g c = Some h' \<and> fine E F g h'" using step[of g c] cs by auto
qed

subsection \<open>Steps on the client records\<close>

definition light :: "hub \<Rightarrow> hub \<Rightarrow> bool" where
  "light h h' \<longleftrightarrow>
     map fst (h_heap h') = map fst (h_heap h) \<and>
     (\<forall>c. c_connectionID (client h' c) = c_connectionID (client h c) \<and>
        c_userID (client h' c) = c_userID (client h c) \<and>
        c_sessionKey (client h' c) = c_sessionKey (client h c) \<and>
        c_servers (client h' c) = c_servers (client h c) \<and>
        c_subscriptions (client h' c) = c_subscriptions (client h c) \<and>
        (c_done (client h c) \<longrightarrow> c_done (client h' c)) \<and>
        (client_ok (client h c) \<longrightarrow> client_ok (client h' c))) \<and>
     h_known h' = h_known h \<and> h_clients h' = h_clients h \<and>
     h_clientsByUser h' = h_clientsByUser h \<and> h_clientsByServer h' = h_clientsByServer h \<and>
     h_clientsBySession h' = h_clientsBySession h \<and>
     h_clientsByConnection h' = h_clientsByConnection h \<and> h_rooms h' = h_rooms h \<and>
     h_presence h' = h_presence h \<and> h_voice h' = h_voice h \<and> h_streams h' = h_streams h \<and>
     h_maxStreamViewers h' = h_maxStreamViewers h \<and> h_maxP2PStreamViewers h' = h_maxP2PStreamViewers h \<and>
     h_nextConnectionID h' = h_nextConnectionID h"

lemma light_refl [simp]: "light h h"
  by (simp add: light_def)

lemma light_trans: "light a b \<Longrightarrow> light b c \<Longrightarrow> light a c"
  by (simp add: light_def)

lemma light_closed [simp]: "light h (h\<lparr> h_closed := b \<rparr>)" "light h (h\<lparr> h_tick := n \<rparr>)"
  by (simp_all add: light_def client_def)

lemma lightD:
  assumes l: "light h h'"
  shows "\<And>c. c_connectionID (client h' c) = c_connectionID (client h c)"
    "\<And>c. c_userID (client h' c) = c_userID (client h c)"
    "\<And>c. c_sessionKey (client h' c) = c_sessionKey (client h c)"
    "\<And>c. c_servers (client h' c) = c_servers (client h c)"
    "\<And>c. c_subscriptions (client h' c) = c_subscriptions (client h c)"
    "\<And>c. c_done (client h c) \<Longrightarrow> c_done (client h' c)"
    "\<And>c. client_ok (client h c) \<Longrightarrow> client_ok (client h' c)"
    "map fst (h_heap h') = map fst (h_heap h)" "h_known h' = h_known h" "h_clients h' = h_clients h"
    "h_clientsByUser h' = h_clientsByUser h" "h_clientsByServer h' = h_clientsByServer h"
    "h_clientsBySession h' = h_clientsBySession h" "h_clientsByConnection h' = h_clientsByConnection h"
    "h_rooms h' = h_rooms h" "h_presence h' = h_presence h" "h_voice h' = h_voice h" "h_streams h' = h_streams h"
    "h_maxStreamViewers h' = h_maxStreamViewers h" "h_maxP2PStreamViewers h' = h_maxP2PStreamViewers h"
    "same_conns h h'"
  using l by (simp_all add: light_def same_conns_def)

lemma light_inv:
  assumes l: "light h h'" and inv: "hub_inv h"
  shows "hub_inv h'"
proof -
  note C = lightD(1-5)[OF l] and S = lightD(8-20)[OF l]
  have K: "fst ` set (h_heap h') = fst ` set (h_heap h)" using S(1) by (metis list.set_map)
  have idh: "ident h' = ident h" by (rule ext) (simp add: ident_def C)
  have "refs_inv h'" using inv lightD(7)[OF l] unfolding hub_inv_def refs_inv_def K C S by simp
  moreover have "index_inv h'" using inv unfolding hub_inv_def index_inv_def C S by simp
  moreover have "room_inv h'" using inv unfolding hub_inv_def room_inv_def members_def C S by simp
  moreover have "presence_inv h'"
    using inv unfolding hub_inv_def presence_inv_def presence_of_def on_server_def C S by simp
  moreover have "media_inv h'" using inv unfolding hub_inv_def media_inv_def idh S by simp
  ultimately show ?thesis by (simp add: hub_inv_def)
qed

lemma light_ok:
  assumes l: "light h h'" and ok: "hub_okE E F h"
  shows "fine E F h h'"
proof -
  have "unsettled h' = {}"
    using ok lightD(6)[OF l] unfolding hub_okE_def unsettled_def settled_def lightD(1-5,9,10)[OF l] by blast
  moreover have "seated E F h'" using ok seated_frame[OF _ lightD(17,18)[OF l] _ lightD(4)[OF l]] lightD(5,10)[OF l] by (simp add: hub_okE_def)
  ultimately show ?thesis
    using light_inv[OF l okE_inv[OF ok]] lightD(2,9,21)[OF l] by (simp add: fine_def hub_okE_def)
qed

lemma light_set_client:
  assumes "c \<in> fst ` set (h_heap h)" "c_connectionID x = c_connectionID (client h c)"
    "c_userID x = c_userID (client h c)" "c_sessionKey x = c_sessionKey (client h c)"
    "c_servers x = c_servers (client h c)" "c_subscriptions x = c_subscriptions (client h c)"
    "c_done (client h c) \<Longrightarrow> c_done x" "client_ok (client h c) \<Longrightarrow> client_ok x"
  shows "light h (set_client h c x)"
  using assms by (simp add: light_def client_set_client)

lemma known_heap: "hub_okE E F h \<Longrightarrow> c \<in> set (h_known h) \<Longrightarrow> c \<in> fst ` set (h_heap h)"
  using hub_inv_refs(1)[OF okE_inv] by blast

lemma close_client_light: "c \<in> fst ` set (h_heap h) \<Longrightarrow> light h (close_client h c reason)"
  unfolding close_client_def
  by (rule light_set_client) (simp_all add: CloseWithReason_def client_ok_def)

lemma replace_access_light:
  "c \<in> fst ` set (h_heap h) \<Longrightarrow> light h (set_client h c (replaceChannelAccess (client h c) ids))"
  by (rule light_set_client) (use replaceChannelAccess_ok in \<open>simp_all add: replaceChannelAccess_def Let_def\<close>)

lemma light_known: "light h h' \<Longrightarrow> h_known h' = h_known h"
  by (simp add: light_def)

lemma light_heap: "light h h' \<Longrightarrow> fst ` set (h_heap h') = fst ` set (h_heap h)"
  by (metis light_def list.set_map)

lemma loadChannelAccess_light: "loadChannelAccess env h u = (h', ids, err) \<Longrightarrow> light h h'"
  by (auto simp: loadChannelAccess_def split: option.splits)

subsection \<open>Operations that only remove\<close>

lemma Unregister_fine:
  "hub_okE E F h \<Longrightarrow> c \<in> set (h_known h) \<Longrightarrow> \<exists>h'. Unregister env h c = Some h' \<and> fine E F h h' \<and> gone h' c \<and> shrinks h h'"
  using un.unreg[of h c "Suc (hub_size h)" env E F] tidy_fine tidyD(3) okE_inv by blast

lemma close_client_tidy:
  assumes inv: "hub_inv h" and c: "c \<in> set (h_known h)"
  shows "tidy E F h (close_client h c reason)"
proof -
  have l: "light h (close_client h c reason)"
    using close_client_light c hub_inv_refs(1)[OF inv] by blast
  have "shrinks h (close_client h c reason)"
    using l unfolding shrinks_def light_def
    by (auto simp: close_client_def cid_def client_set_client CloseWithReason_def)
  from shrinks_cleans[OF this lightD(10)[OF l]] show ?thesis
    using light_inv[OF l inv] seated_frame[OF _ lightD(17,18)[OF l] _ lightD(4)[OF l]] lightD(5,10)[OF l] by (simp add: tidy_def)
qed

lemma close_and_unregister_tidy:
  assumes "hub_inv h" "c \<in> set (h_known h)"
  shows "\<exists>h'. Unregister env (close_client h c reason) c = Some h' \<and> tidy E F h h' \<and> gone h' c"
proof -
  note t = close_client_tidy[OF assms, of E F reason]
  have "c \<in> set (h_known (close_client h c reason))" using tidyD(5)[OF t] assms(2) by simp
  from Unregister_total[OF tidyD(1)[OF t] this] show ?thesis using tidy_trans[OF t] by blast
qed

lemma close_and_unregister_fine:
  assumes "hub_okE E F h" "c \<in> set (h_known h)"
  shows "\<exists>h'. Unregister env (close_client h c reason) c = Some h' \<and> fine E F h h' \<and> gone h' c"
  using close_and_unregister_tidy[OF okE_inv[OF assms(1)] assms(2)] tidy_fine[OF _ assms(1)] by blast

lemma send_or_drop_fine:
  assumes "hub_okE E F h" "c \<in> set (h_known h)" "wf_event e"
  shows "\<exists>h' ok. send_or_drop env h c e = Some (h', ok) \<and> fine E F h h' \<and> tidy E F h h'"
proof -
  have "hub_size h < Suc (hub_size h)" by simp
  from un.enqueue_or_unreg[where env = env and E = E and F = F, OF okE_inv[OF assms(1)] assms(2,3) this]
  obtain h1 ok h2 where "hub_enqueue h c e = Some (h1, ok)" "tidy E F h h1"
    "Unregister env h1 c = Some h2" "tidy E F h h2" by blast
  then show ?thesis
    using tidy_fine[OF _ assms(1)] by (cases ok) (auto simp: send_or_drop_def)
qed

lemma broadcast_fine:
  assumes "hub_okE E F h" "set cs \<subseteq> set (h_known h)" "wf_event e"
  shows "\<exists>h' n. broadcastToClients (Unregister env) h cs e = Some (h', n) \<and> fine E F h h' \<and> tidy E F h h'"
  using un.broadcastToClients_tidy[where env = env and E = E and F = F, OF okE_inv[OF assms(1)] assms(2,3) lessI]
    tidy_fine[OF _ assms(1)] by blast

lemma publish_to_fine:
  assumes "hub_okE E F h" "set cs \<subseteq> set (h_known h)" "wf_event e"
  shows "\<exists>h' n. publish_to env h cs e = Some (h', n) \<and> fine E F h h'"
proof -
  obtain h1 e1 where s: "shareEncoding h e = (h1, e1)" by fastforce
  note t = soft_tidy[OF shareEncoding_soft(1)[OF s] okE_inv[OF assms(1)], of E F]
  have "set cs \<subseteq> set (h_known h1)" using assms(2) tidyD(5)[OF t] by simp
  from un.send_all_unreg[where env = env and E = E and F = F, OF tidyD(1)[OF t] this
      shareEncoding_soft(2)[OF s assms(3)] lessI]
  obtain h2 n failed h3 where "send_all e1 h1 cs = Some (h2, n, failed)"
    "foreach (Unregister env) h2 failed = Some h3" "tidy E F h1 h3" by blast
  then show ?thesis using s tidy_fine[OF tidy_trans[OF t] assms(1)] by (auto simp: publish_to_def)
qed

lemma user_clients_known: "hub_inv h \<Longrightarrow> set (get_or [] (h_clientsByUser h) u) \<subseteq> set (h_known h)"
  using hub_inv_index(1) hub_inv_refs(2) by blast

lemma session_clients_known: "hub_inv h \<Longrightarrow> set (get_or [] (h_clientsBySession h) k) \<subseteq> set (h_known h)"
  using hub_inv_index(3) hub_inv_refs(2) by blast

lemma room_members_known: "hub_inv h \<Longrightarrow> set (members h ch) \<subseteq> set (h_known h)"
  by (auto simp: hub_inv_def room_inv_def)

lemma getRoom_members: "getRoom h ch = Some r \<Longrightarrow> members h ch = rm_clients r"
  by (simp add: getRoom_def members_def)

lemma Publish_fine:
  assumes "hub_okE E F h" "wf_event e"
  shows "\<exists>h' n. Publish env h ch e = Some (h', n) \<and> fine E F h h'"
    "\<exists>h' n. PublishExcept env h ch e x = Some (h', n) \<and> fine E F h h'"
    "\<exists>h' n. PublishToUser env h u e = Some (h', n) \<and> fine E F h h'"
    "\<exists>h' n. PublishToChannelAndUser env h ch u e = Some (h', n) \<and> fine E F h h'"
    "\<exists>h' n. PublishToServer (Unregister env) h s e = Some (h', n) \<and> fine E F h h'"
    "\<exists>h' n. publishToServerExcept (Unregister env) h s x e = Some (h', n) \<and> fine E F h h'"
    "\<exists>h' ok. SendToConnection (Unregister env) h k e = Some (h', ok) \<and> fine E F h h'"
proof -
  note inv = okE_inv[OF assms(1)] and r = fine_refl[OF assms(1)]
  have m: "set (rm_clients rm) \<subseteq> set (h_known h)" if "getRoom h ch = Some rm" for rm
    using room_members_known[OF inv, of ch] getRoom_members[OF that] by simp
  show "\<exists>h' n. Publish env h ch e = Some (h', n) \<and> fine E F h h'"
    using publish_to_fine[OF assms(1) m assms(2)] r by (auto simp: Publish_def split: option.splits)
  have "set (filter (\<lambda>c. c \<noteq> x) (rm_clients rm)) \<subseteq> set (h_known h)" if "getRoom h ch = Some rm" for rm
    using m[OF that] by auto
  from publish_to_fine[OF assms(1) this assms(2)] show "\<exists>h' n. PublishExcept env h ch e x = Some (h', n) \<and> fine E F h h'"
    using r by (auto simp: PublishExcept_def split: option.splits)
  show "\<exists>h' n. PublishToUser env h u e = Some (h', n) \<and> fine E F h h'"
    using broadcast_fine[OF assms(1) user_clients_known[OF inv] assms(2), of env u] r by (auto simp: PublishToUser_def)
  have "set ((case getRoom h ch of None \<Rightarrow> [] | Some room \<Rightarrow> rm_clients room) @ get_or [] (h_clientsByUser h) u)
      \<subseteq> set (h_known h)"
    using m user_clients_known[OF inv, of u] by (cases "getRoom h ch") auto
  from broadcast_fine[OF assms(1) this assms(2), of env]
  show "\<exists>h' n. PublishToChannelAndUser env h ch u e = Some (h', n) \<and> fine E F h h'"
    using r by (auto simp: PublishToChannelAndUser_def)
  show "\<exists>h' n. PublishToServer (Unregister env) h s e = Some (h', n) \<and> fine E F h h'"
    using un.PublishToServer_tidy[OF inv assms(2) lessI] tidy_fine[OF _ assms(1)] by blast
  show "\<exists>h' n. publishToServerExcept (Unregister env) h s x e = Some (h', n) \<and> fine E F h h'"
    using un.publishToServerExcept_tidy[OF inv assms(2) lessI] tidy_fine[OF _ assms(1)] by blast
  show "\<exists>h' ok. SendToConnection (Unregister env) h k e = Some (h', ok) \<and> fine E F h h'"
    using un.SendToConnection_tidy[OF inv assms(2) lessI] tidy_fine[OF _ assms(1)] by blast
qed

lemma snapshots_fine:
  assumes "hub_okE E F h" "c \<in> set (h_known h)"
  shows "\<exists>h'. sendPresenceSnapshot env h c ss = Some h' \<and> fine E F h h' \<and> tidy E F h h'"
    "\<exists>h'. sendVoiceSnapshot env h c = Some h' \<and> fine E F h h' \<and> tidy E F h h'"
    "\<exists>h'. sendStreamSnapshot env h c = Some h' \<and> fine E F h h' \<and> tidy E F h h'"
proof -
  have w: "wf_event (mkEvent EventPresenceSnapshot d)" "wf_event (mkEvent EventVoiceSnapshot d)"
    "wf_event (mkEvent EventStreamSnapshot d)" for d by (rule mkEvent_wf, simp add: event_types)+
  show "\<exists>h'. sendPresenceSnapshot env h c ss = Some h' \<and> fine E F h h' \<and> tidy E F h h'"
    using send_or_drop_fine[OF assms w(1), of env] by (fastforce simp: sendPresenceSnapshot_def)
  show "\<exists>h'. sendVoiceSnapshot env h c = Some h' \<and> fine E F h h' \<and> tidy E F h h'"
    using send_or_drop_fine[OF assms w(2), of env] by (fastforce simp: sendVoiceSnapshot_def)
  show "\<exists>h'. sendStreamSnapshot env h c = Some h' \<and> fine E F h h' \<and> tidy E F h h'"
    using send_or_drop_fine[OF assms w(3), of env] by (fastforce simp: sendStreamSnapshot_def)
qed

lemma close_all_fine:
  assumes "hub_okE E F h" "set cs \<subseteq> set (h_known h)"
  shows "\<exists>h'. foreach (\<lambda>h c. Unregister env (close_client h c reason) c) h cs = Some h' \<and> fine E F h h'"
  by (rule foreach_clients_fine[OF _ assms]) (use close_and_unregister_fine in blast)

lemma revokeSessionKey_fine:
  "hub_okE E F h \<Longrightarrow> \<exists>h'. revokeSessionKey env h key = Some h' \<and> fine E F h h'"
  unfolding revokeSessionKey_def using close_all_fine session_clients_known[OF okE_inv] by blast

lemma CloseHub_fine:
  assumes "hub_okE E F h"
  shows "\<exists>h'. CloseHub env h = Some h' \<and> fine E F h h'"
proof -
  have f: "fine E F h (h\<lparr> h_closed := True \<rparr>)" by (rule light_ok[OF _ assms]) simp
  have "set (h_clients h) \<subseteq> set (h_known h)" by (rule hub_inv_refs(2)[OF okE_inv[OF assms]])
  with close_all_fine[of E F "h\<lparr> h_closed := True \<rparr>" "h_clients h" env CloseReasonServerShutdown] f
  show ?thesis using fine_trans[OF f] by (auto simp: CloseHub_def fine_def)
qed

subsection \<open>Reloading the channel policies\<close>

lemma reload_batch_light:
  assumes "set cs \<subseteq> fst ` set (h_heap h)"
  shows "light h (fst (fold (reload_batch l) cs (h, failed)))"
  using assms
proof (induction cs arbitrary: h failed)
  case (Cons c cs)
  obtain h1 f1 where r: "reload_batch l c (h, failed) = (h1, f1)" by fastforce
  have l: "light h h1" using r replace_access_light[of c h] Cons.prems by (auto simp: reload_batch_def Let_def)
  have "set cs \<subseteq> fst ` set (h_heap h1)" using Cons.prems light_heap[OF l] by auto
  from light_trans[OF l Cons.IH[OF this]] show ?case by (simp add: r)
qed simp

lemma reload_single_light:
  assumes "set cs \<subseteq> fst ` set (h_heap h)"
  shows "light h (fst (fold (reload_single env) cs (h, p, failed)))"
  using assms
proof (induction cs arbitrary: h p failed)
  case (Cons c cs)
  obtain h1 p1 f1 where r: "reload_single env c (h, p, failed) = (h1, p1, f1)" by (metis prod_cases3)
  obtain g ids err where l: "loadChannelAccess env h (c_userID (client h c)) = (g, ids, err)" by (metis prod_cases3)
  have g: "light h g" by (rule loadChannelAccess_light[OF l])
  have "c \<in> fst ` set (h_heap h)" "c \<in> fst ` set (h_heap g)" using Cons.prems light_heap[OF g] by auto
  then have l1: "light h h1"
    using r l replace_access_light light_trans[OF g] by (auto simp: reload_single_def Let_def split: option.splits)
  have "set cs \<subseteq> fst ` set (h_heap h1)" using Cons.prems light_heap[OF l1] by auto
  from light_trans[OF l1 Cons.IH[OF this]] show ?case by (simp add: r)
qed simp

lemma reload_light:
  assumes "reloadChannelAccess env h cs = (h', failed)" "set cs \<subseteq> fst ` set (h_heap h)"
  shows "light h h'"
proof (cases "e_channelAccessBatchLoader env")
  case None
  then show ?thesis
    using assms(1) reload_single_light[OF assms(2), of env "[]" "[]"]
    by (auto simp: reloadChannelAccess_def split: prod.splits)
next
  case (Some load)
  let ?h = "h\<lparr> h_tick := h_tick h + 1 \<rparr>"
  let ?l = "load (h_tick h) (rev (remdups (rev (map (\<lambda>c. c_userID (client h c)) cs))))"
  have "light ?h (fst (fold (reload_batch ?l) cs (?h, [])))" by (rule reload_batch_light) (use assms(2) in simp)
  from light_trans[OF light_closed(2) this] show ?thesis
    using assms(1) Some by (simp add: reloadChannelAccess_def Let_def)
qed

text \<open>What the loader answers for a user when the policies of \<open>cs\<close> are reloaded: one call for all
  users, or one call for each user in the order in which the users first appear. \<open>None\<close> is a failed
  load.\<close>

definition reload_order :: "hub \<Rightarrow> cref list \<Rightarrow> int list" where
  "reload_order h cs = rev (remdups (rev (map (\<lambda>c. c_userID (client h c)) cs)))"

definition loaded_policy :: "hub_env \<Rightarrow> hub \<Rightarrow> cref list \<Rightarrow> int \<Rightarrow> int list option" where
  "loaded_policy env h cs u =
     (case (e_channelAccessBatchLoader env, e_channelAccessLoader env) of
        (Some load, _) \<Rightarrow>
          (case load (h_tick h) (reload_order h cs) of Inl _ \<Rightarrow> None | Inr ids \<Rightarrow> Some (get_or [] ids u))
      | (None, Some load) \<Rightarrow>
          (case load (h_tick h + length (takeWhile (\<lambda>v. v \<noteq> u) (reload_order h cs))) u of
             Inl _ \<Rightarrow> None | Inr None \<Rightarrow> Some [] | Inr (Some ids) \<Rightarrow> Some ids)
      | (None, None) \<Rightarrow> None)"

definition installed :: "int list option \<Rightarrow> int list" where
  "installed p = (case p of None \<Rightarrow> [] | Some ids \<Rightarrow> ids)"

lemma reload_order_snoc:
  "reload_order h (cs @ [c]) =
     (if c_userID (client h c) \<in> set (reload_order h cs) then reload_order h cs
      else reload_order h cs @ [c_userID (client h c)])"
  by (simp add: reload_order_def)

lemma loaded_policy_snoc:
  assumes "e_channelAccessBatchLoader env = None" "u \<in> set (reload_order h cs)"
  shows "loaded_policy env h (cs @ [c]) u = loaded_policy env h cs u"
  using assms by (auto simp: loaded_policy_def reload_order_snoc takeWhile_append1 split: option.split)

lemma replaceChannelAccess_fields [simp]:
  "c_channelAccess (replaceChannelAccess x ids) = ids" "c_userID (replaceChannelAccess x ids) = c_userID x"
  by (simp_all add: replaceChannelAccess_def Let_def)

lemma h_tick_set_client [simp]: "h_tick (set_client h c x) = h_tick h"
  by (simp add: set_client_def)

lemma reload_batch_installs:
  assumes "fold (reload_batch loaded) cs (h, []) = (h1, failed)"
  shows "(\<forall>c. c_userID (client h1 c) = c_userID (client h c)) \<and>
    (\<forall>c \<in> set cs. c_channelAccess (client h1 c) =
        Some (case loaded of Inl _ \<Rightarrow> [] | Inr ids \<Rightarrow> get_or [] ids (c_userID (client h c))) \<and>
      map_of failed (c_userID (client h c)) = Some (isl loaded))"
  using assms
proof (induction cs arbitrary: h1 failed rule: rev_induct)
  case Nil
  then show ?case by simp
next
  case (snoc c cs)
  obtain h0 f0 where h0: "fold (reload_batch loaded) cs (h, []) = (h0, f0)" by fastforce
  then have "reload_batch loaded c (h0, f0) = (h1, failed)" using snoc.prems by simp
  then show ?case
    using snoc.IH[OF h0] by (auto simp: reload_batch_def Let_def client_set_client update_conv' split: sum.splits)
qed

lemma reload_single_installs:
  assumes "e_channelAccessLoader env = Some load" "e_channelAccessBatchLoader env = None"
    and "fold (reload_single env) cs (h, [], []) = (h1, perms, failed)"
  shows "(\<forall>c. c_userID (client h1 c) = c_userID (client h c)) \<and>
    h_tick h1 = h_tick h + length (reload_order h cs) \<and>
    (\<forall>u. map_of perms u =
       (if u \<in> set (reload_order h cs) then Some (Some (installed (loaded_policy env h cs u))) else None)) \<and>
    (\<forall>u \<in> set (reload_order h cs). map_of failed u = Some (loaded_policy env h cs u = None)) \<and>
    (\<forall>c \<in> set cs. c_channelAccess (client h1 c) =
       Some (installed (loaded_policy env h cs (c_userID (client h c)))))"
  using assms(3)
proof (induction cs arbitrary: h1 perms failed rule: rev_induct)
  case Nil
  then show ?case by (simp add: reload_order_def)
next
  case (snoc c cs)
  obtain h0 p0 f0 where h0: "fold (reload_single env) cs (h, [], []) = (h0, p0, f0)" by (metis prod_cases3)
  then have st: "reload_single env c (h0, p0, f0) = (h1, perms, failed)" using snoc.prems by simp
  note IH = snoc.IH[OF h0]
  let ?u = "c_userID (client h c)"
  have mem: "c_userID (client h d) \<in> set (reload_order h cs)" if "d \<in> set cs" for d
    using that by (simp add: reload_order_def)
  note stable = loaded_policy_snoc[OF assms(2), of _ h cs c]
  show ?case
  proof (cases "?u \<in> set (reload_order h cs)")
    case True
    then have p: "map_of p0 ?u = Some (Some (installed (loaded_policy env h cs ?u)))" using IH by simp
    have h1: "h1 = set_client h0 c (replaceChannelAccess (client h0 c) (Some (installed (loaded_policy env h cs ?u))))"
      "perms = p0" "failed = f0"
      using st IH p by (simp_all add: reload_single_def Let_def)
    show ?thesis using IH True stable mem
      by (auto simp: h1 reload_order_snoc client_set_client)
  next
    case False
    let ?a = "loaded_policy env h (cs @ [c]) ?u"
    have t: "takeWhile (\<lambda>v. v \<noteq> ?u) (reload_order h (cs @ [c])) = reload_order h cs"
      using False by (subst reload_order_snoc) (auto simp: takeWhile_tail)
    have "loadChannelAccess env h0 ?u = (h0\<lparr> h_tick := h_tick h0 + 1 \<rparr>, Some (installed ?a), ?a = None)"
      using IH t assms(1,2) by (simp add: loadChannelAccess_def loaded_policy_def installed_def split: sum.splits option.splits)
    then have h1: "h1 = set_client (h0\<lparr> h_tick := h_tick h0 + 1 \<rparr>) c
          (replaceChannelAccess (client h0 c) (Some (installed ?a)))"
      "perms = AList.update ?u (Some (installed ?a)) p0" "failed = AList.update ?u (?a = None) f0"
      using st IH False by (simp_all add: reload_single_def Let_def)
    show ?thesis using IH False stable mem
      by (auto simp: h1 reload_order_snoc client_set_client update_conv')
  qed
qed

lemma reload_installs:
  assumes "e_channelAccessLoader env \<noteq> None \<or> e_channelAccessBatchLoader env \<noteq> None"
    and "reloadChannelAccess env h cs = (h1, failed)" "c \<in> set cs"
  shows "c_channelAccess (client h1 c) = Some (installed (loaded_policy env h cs (c_userID (client h c))))"
    "c_userID (client h1 c) = c_userID (client h c)"
    "get_or False failed (c_userID (client h c)) \<longleftrightarrow> loaded_policy env h cs (c_userID (client h c)) = None"
proof -
  let ?u = "c_userID (client h c)"
  have "c_channelAccess (client h1 c) = Some (installed (loaded_policy env h cs ?u)) \<and>
    c_userID (client h1 c) = ?u \<and> map_of failed ?u = Some (loaded_policy env h cs ?u = None)"
  proof (cases "e_channelAccessBatchLoader env")
    case (Some load)
    have "fold (reload_batch (load (h_tick h) (reload_order h cs))) cs (h\<lparr> h_tick := h_tick h + 1 \<rparr>, []) = (h1, failed)"
      using assms(2) Some by (simp add: reloadChannelAccess_def reload_order_def Let_def)
    from reload_batch_installs[OF this] assms(3) Some show ?thesis
      by (auto simp: loaded_policy_def installed_def split: sum.splits)
  next
    case None
    then obtain load where l: "e_channelAccessLoader env = Some load" using assms(1) by blast
    obtain perms where f: "fold (reload_single env) cs (h, [], []) = (h1, perms, failed)"
      using assms(2) None by (auto simp: reloadChannelAccess_def split: prod.splits)
    have "?u \<in> set (reload_order h cs)" using assms(3) by (simp add: reload_order_def)
    then show ?thesis using reload_single_installs[OF l None f] assms(3) by simp
  qed
  then show "c_channelAccess (client h1 c) = Some (installed (loaded_policy env h cs ?u))" "c_userID (client h1 c) = ?u"
    "get_or False failed ?u \<longleftrightarrow> loaded_policy env h cs ?u = None"
    by (simp_all add: get_or_def)
qed

subsection \<open>Revoking a member\<close>

text \<open>Nothing ties the connection to the server any more.\<close>

definition detached_from :: "int \<Rightarrow> hub \<Rightarrow> cref \<Rightarrow> bool" where
  "detached_from s h c \<longleftrightarrow> s \<notin> set (c_servers (client h c)) \<and>
     (\<forall>ch. map_of (c_subscriptions (client h c)) ch \<noteq> Some s) \<and>
     (\<forall>p. map_of (v_byClient (h_voice h)) c = Some p \<longrightarrow> vp_ServerID p \<noteq> s)"

lemma gone_detached: "gone h c \<Longrightarrow> detached_from s h c"
  by (simp add: gone_def settled_def detached_from_def)

lemma tidy_subscriptions:
  "tidy E F h h' \<Longrightarrow> map_of (c_subscriptions (client h' c)) ch = Some s \<Longrightarrow>
    map_of (c_subscriptions (client h c)) ch = Some s"
  using map_of_le[OF cleans_subscriptions[OF tidyD(2)]] .

lemma detached_tidy: "detached_from s h c \<Longrightarrow> tidy E F h h' \<Longrightarrow> detached_from s h' c"
  unfolding detached_from_def
  using tidy_gone(1)[of E F h h' c] tidy_subscriptions[of E F h h' c] voice_shrinks[of E F h h' c] by blast

lemma unsubscribeFromServer_tidy:
  assumes "hub_inv h" "c \<in> set (h_known h)"
  shows "tidy E F h (unsubscribeFromServer h c s)"
    "map_of (c_subscriptions (client (unsubscribeFromServer h c s) c)) ch \<noteq> Some s"
proof -
  note u = unsubscribe_all_tidy[OF assms, of E F "subscriptionIDsForServer (client h c) s"]
  show t: "tidy E F h (unsubscribeFromServer h c s)" using u by (simp add: unsubscribeFromServer_def)
  show "map_of (c_subscriptions (client (unsubscribeFromServer h c s) c)) ch \<noteq> Some s"
  proof
    assume a: "map_of (c_subscriptions (client (unsubscribeFromServer h c s) c)) ch = Some s"
    have "(ch, s) \<in> set (c_subscriptions (client h c))" using tidy_subscriptions[OF t a] by (rule map_of_SomeD)
    then have "ch \<in> set (subscriptionIDsForServer (client h c) s)" by (force simp: subscriptionIDsForServer_def)
    then show False using u a by (simp add: unsubscribeFromServer_def)
  qed
qed

lemma seated_forget:
  assumes "seated (insert (c, s) E) F h" "detached_from s h c"
  shows "seated E F h"
proof (rule seatedI)
  fix d p
  assume "map_of (v_byClient (h_voice h)) d = Some p" "d \<in> set (h_clients h)"
  then show "(d, vp_ServerID p) \<in> E \<or> vp_ServerID p \<in> set (c_servers (client h d))"
    using seatedD(1)[OF assms(1), of d p] assms(2) by (auto simp: detached_from_def)
next
  fix d ch x
  assume "map_of (c_subscriptions (client h d)) ch = Some x"
  then show "(d, x) \<in> E \<or> x \<in> set (c_servers (client h d))"
    using seatedD(2)[OF assms(1), of d ch x] assms(2) by (auto simp: detached_from_def)
qed (rule seatedD(3)[OF assms(1)])

lemma tidy_forget:
  assumes "tidy (insert (c, s) E) F h h'" "detached_from s h' c"
  shows "tidy E F h h'"
proof -
  have "seated (insert (c, s) E) F h" if "seated E F h"
    using that unfolding seated_def by blast
  then show ?thesis
    using assms(1) seated_forget[OF _ assms(2)] by (auto simp: tidy_def)
qed

lemma revoke_client_tidy:
  assumes inv: "hub_inv h" and c: "c \<in> set (h_known h)"
  shows "\<exists>h'. revoke_client env s failed h c = Some h' \<and> tidy E F h h' \<and> detached_from s h' c"
proof (cases "get_or False failed (c_userID (client h c))")
  case True
  then show ?thesis
    using close_and_unregister_tidy[OF assms, of env CloseReasonServerShutdown E F] gone_detached
    by (auto simp: revoke_client_def)
next
  case False
  let ?E = "insert (c, s) E"
  have cn: "c \<noteq> nil" using c hub_inv_refs(5)[OF inv] by metis
  from un.leaveVoiceForServer_tidy[where env = env and E = ?E and F = F, OF inv order_refl cn]
  obtain h1 where h1: "leaveVoiceForServer env (Unregister env) h c s = Some h1" "tidy ?E F h h1"
    "\<forall>p. map_of (v_byClient (h_voice h1)) c = Some p \<longrightarrow> vp_ServerID p \<noteq> s" by metis
  have c1: "c \<in> set (h_known h1)" using tidyD(5)[OF h1(2)] c by simp
  obtain h2 where h2: "removeClientServer env (Unregister env) h1 c s False = Some h2" "tidy ?E F h1 h2"
    "s \<notin> set (c_servers (client h2 c))"
    using un.removeClientServer_tidy[where env = env and E = ?E and F = F and s = s,
        OF tidyD(1)[OF h1(2)] c1 order_refl] by blast
  have c2: "c \<in> set (h_known h2)" using tidyD(5)[OF h2(2)] c1 by simp
  note u = unsubscribeFromServer_tidy(1)[OF tidyD(1)[OF h2(2)] c2, of ?E F s]
    unsubscribeFromServer_tidy(2)[OF tidyD(1)[OF h2(2)] c2, of s]
  have t: "tidy ?E F h1 (unsubscribeFromServer h2 c s)" by (rule tidy_trans[OF h2(2) u(1)])
  have d: "detached_from s (unsubscribeFromServer h2 c s) c"
    unfolding detached_from_def
    using u(2) h1(3) voice_shrinks[OF t, of c] h2(3) tidy_gone(1)[OF u(1), of c] by blast
  show ?thesis
    using False h1(1) h2(1) d tidy_forget[OF tidy_trans[OF h1(2) t] d] by (simp add: revoke_client_def)
qed

lemma revoke_all:
  assumes "hub_inv h" "set cs \<subseteq> set (h_known h)"
  shows "\<exists>h'. foreach (revoke_client env s failed) h cs = Some h' \<and> tidy E F h h' \<and>
    (\<forall>c \<in> set cs. detached_from s h' c)"
  by (rule foreach_tidy[where K = "h_known h" and b = "Suc (hub_size h)" and P = "\<lambda>_. True"
        and Q = "\<lambda>c h. detached_from s h c"])
    (use assms revoke_client_tidy detached_tidy in auto)

lemma RevokeUserFromServer_facts:
  assumes ok: "hub_ok h" and u: "u > 0" "s > 0"
  shows "\<exists>h'. RevokeUserFromServer env h u s = Some h' \<and> fine {} {} h h' \<and>
    (\<forall>c \<in> set (h_clients h). c_userID (client h' c) = u \<longrightarrow> detached_from s h' c)"
proof -
  note ok' = ok[unfolded hub_ok_def]
  note inv = okE_inv[OF ok']
  define cs where "cs = get_or [] (h_clientsByUser h) u"
  define all where "all = clientsForServer h s @ cs"
  obtain h1 failed where r: "reloadChannelAccess env h cs = (h1, failed)" by fastforce
  have kn: "set cs \<subseteq> set (h_known h)" "set all \<subseteq> set (h_known h)"
    using user_clients_known[OF inv] server_clients_known[OF inv, of s] by (auto simp: cs_def all_def)
  have l: "light h h1" by (rule reload_light[OF r]) (use kn(1) hub_inv_refs(1)[OF inv] in blast)
  have f1: "fine {} {} h h1" by (rule light_ok[OF l ok'])
  have "wf_event (mkEvent EventServerMemberRemoved (DServerMemberRemovedData
      \<lparr> sm_ServerID = s, sm_UserID = u \<rparr>))" by (rule mkEvent_wf) (simp add: event_types)
  from broadcast_fine[of "{}" "{}" h1 all, OF _ _ this, of env] f1 kn(2)
  obtain h2 n where h2: "broadcastToClients (Unregister env) h1 all (mkEvent EventServerMemberRemoved
      (DServerMemberRemovedData \<lparr> sm_ServerID = s, sm_UserID = u \<rparr>)) = Some (h2, n)"
    "fine {} {} h1 h2" "tidy {} {} h1 h2" by (auto simp: fine_def)
  have k2: "h_known h2 = h_known h" using f1 h2(2) by (simp add: fine_def)
  have i2: "hub_inv h2" by (rule tidyD(1)[OF h2(3)])
  obtain h3 where h3: "foreach (revoke_client env s failed) h2 cs = Some h3" "tidy {} {} h2 h3"
    "\<forall>c \<in> set cs. detached_from s h3 c"
    using revoke_all[OF i2, of cs env s failed "{}" "{}"] kn(1) k2 by auto
  have "fine {} {} h2 h3" using tidy_fine[OF h3(2)] h2(2) by (simp add: fine_def)
  then have f3: "fine {} {} h h3" using fine_trans f1 h2(2) by metis
  have "detached_from s h3 c" if c: "c \<in> set (h_clients h)" "c_userID (client h3 c) = u" for c
  proof -
    have "c_userID (client h3 c) = c_userID (client h c)"
      using tidyD(3)[OF tidy_trans[OF h2(3) h3(2)]] lightD(2)[OF l, of c] by (simp add: shrinks_def cid_def)
    then have "c \<in> set cs" using c hub_inv_index(1)[OF inv] by (simp add: cs_def)
    then show ?thesis using h3(3) by blast
  qed
  then show ?thesis
    using u r h2(1) h3(1) f3 by (auto simp: RevokeUserFromServer_def cs_def[symmetric] all_def[symmetric])
qed


subsection \<open>Refreshing channel access and role permissions\<close>

text \<open>\<open>confined s h c\<close>: the connection follows only channels of \<open>s\<close> it may read, and takes part in
  voice only where it may.\<close>

definition confined :: "int \<Rightarrow> hub \<Rightarrow> cref \<Rightarrow> bool" where
  "confined s h c \<longleftrightarrow>
     (\<forall>ch. map_of (c_subscriptions (client h c)) ch = Some s \<longrightarrow> canAccessChannel (client h c) ch) \<and>
     (\<forall>p. map_of (v_byClient (h_voice h)) c = Some p \<longrightarrow> canAccessChannel (client h c) (vp_ChannelID p))"

lemma access_shrinks: "shrinks h h' \<Longrightarrow> canAccessChannel (client h' c) ch = canAccessChannel (client h c) ch"
  by (simp add: shrinks_def cid_def canAccessChannel_def)

lemma tidy_user: "tidy E F h h' \<Longrightarrow> c_userID (client h' c) = c_userID (client h c)"
  using tidyD(3)[of E F h h'] by (simp add: shrinks_def cid_def)

lemma tidy_access: "tidy E F h h' \<Longrightarrow> c_channelAccess (client h' c) = c_channelAccess (client h c)"
  using tidyD(3)[of E F h h'] by (simp add: shrinks_def cid_def)

lemma confined_tidy: "confined s h c \<Longrightarrow> tidy E F h h' \<Longrightarrow> confined s h' c"
  unfolding confined_def
  using tidy_subscriptions[of E F h h' c] voice_shrinks[of E F h h' c] access_shrinks[OF tidyD(3)[of E F h h'], of c] by blast

lemma gone_confined: "gone h c \<Longrightarrow> confined s h c"
  by (simp add: confined_def gone_def settled_def)

lemma fold_if_unsubscribe_tidy:
  assumes "hub_inv h" "c \<in> set (h_known h)"
  defines "f \<equiv> fold (\<lambda>ch h. if canAccessChannel (client h c) ch then h else fst (Unsubscribe h c ch))"
  shows "tidy E F h (f chs h) \<and> (\<forall>ch \<in> set chs. canAccessChannel (client (f chs h) c) ch \<or>
    map_of (c_subscriptions (client (f chs h) c)) ch = None)"
  using assms(1,2)
proof (induction chs arbitrary: h)
  case Nil
  then show ?case by (simp add: tidy_refl f_def)
next
  case (Cons ch chs)
  define g where "g = (if canAccessChannel (client h c) ch then h else fst (Unsubscribe h c ch))"
  have t: "tidy E F h g" "canAccessChannel (client g c) ch \<or> map_of (c_subscriptions (client g c)) ch = None"
    using unsubscribe_all_tidy[OF Cons.prems, of E F "[ch]"] tidy_refl[OF Cons.prems(1)] by (simp_all add: g_def)
  have "c \<in> set (h_known g)" using tidyD(5)[OF t(1)] Cons.prems(2) by simp
  note I = Cons.IH[OF tidyD(1)[OF t(1)] this]
  have e: "f (ch # chs) h = f chs g" by (simp add: f_def g_def)
  have "canAccessChannel (client (f chs g) c) ch \<or> map_of (c_subscriptions (client (f chs g) c)) ch = None"
    using t(2) access_shrinks[OF tidyD(3)[OF I[THEN conjunct1]], of c ch]
      tidy_gone(4)[OF I[THEN conjunct1], of c ch] by metis
  then show ?case unfolding e using tidy_trans[OF t(1) I[THEN conjunct1]] I by simp
qed

lemma closed_event_wf: "wf_event (closed_event r)"
  unfolding closed_event_def by (rule mkEvent_wf) (simp add: event_types)

lemma refresh_client_tidy:
  assumes ok: "hub_okE E F h" and c: "c \<in> set (h_known h)"
  shows "\<exists>h'. refresh_client env s failed h c = Some h' \<and> tidy E F h h' \<and> confined s h' c \<and>
    (get_or False failed (c_userID (client h c)) \<longrightarrow> gone h' c)"
proof (cases "get_or False failed (c_userID (client h c))")
  case True
  then show ?thesis
    using close_and_unregister_tidy[OF okE_inv[OF ok] c, of env CloseReasonServerShutdown E F] gone_confined
    by (auto simp: refresh_client_def)
next
  case False
  note inv = okE_inv[OF ok]
  have cn: "c \<noteq> nil" using c hub_inv_refs(5)[OF inv] by metis
  define m where "m = (case voice_current (h_voice h) c of
      None \<Rightarrow> Some h
    | Some current \<Rightarrow>
        (if canAccessChannel (client h c) (vp_ChannelID current) then Some h
         else do {
           (h', _) \<leftarrow> leaveVoice env (Unregister env) h c;
           map_option fst (SendToConnection (Unregister env) h' (c_connectionID (client h' c))
             (closed_event ''channel access was revoked''))
         }))"
  obtain h0 q where h0: "leaveVoice env (Unregister env) h c = Some (h0, q)" "tidy E F h h0"
    "map_of (v_byClient (h_voice h0)) c = None"
    using un.leaveVoice_tidy[where env = env and E = E and F = F, OF inv order_refl cn] by blast
  let ?v = "\<lambda>g. \<forall>p. map_of (v_byClient (h_voice g)) c = Some p \<longrightarrow> canAccessChannel (client g c) (vp_ChannelID p)"
  from un.SendToConnection_tidy[where env = env and E = E and F = F,
      OF tidyD(1)[OF h0(2)] closed_event_wf lessI, of "c_connectionID (client h0 c)"]
  obtain h9 b where h9: "SendToConnection (Unregister env) h0 (c_connectionID (client h0 c))
      (closed_event ''channel access was revoked'') = Some (h9, b)" "tidy E F h0 h9" by blast
  have v9: "map_of (v_byClient (h_voice h9)) c = None" using voice_shrinks[OF h9(2), of c] h0(3) by (cases "map_of (v_byClient (h_voice h9)) c") auto
  have "\<exists>h1. m = Some h1 \<and> tidy E F h h1 \<and> ?v h1"
  proof (cases "\<exists>p. voice_current (h_voice h) c = Some p \<and> \<not> canAccessChannel (client h c) (vp_ChannelID p)")
    case True
    then have "m = Some h9" using h0(1) h9(1) by (auto simp: m_def)
    then show ?thesis using tidy_trans[OF h0(2) h9(2)] v9 by simp
  next
    case False
    then have "m = Some h" "?v h" by (auto simp: m_def voice_current_def split: option.splits)
    then show ?thesis using tidy_refl[OF inv] by blast
  qed
  then obtain h1 where h1: "m = Some h1" "tidy E F h h1" "?v h1" by blast
  have c1: "c \<in> set (h_known h1)" using tidyD(5)[OF h1(2)] c by simp
  define h2 where "h2 = fold (\<lambda>ch h. if canAccessChannel (client h c) ch then h else fst (Unsubscribe h c ch))
    (subscriptionIDsForServer (client h1 c) s) h1"
  have t2: "tidy E F h1 h2" "\<And>ch. ch \<in> set (subscriptionIDsForServer (client h1 c) s) \<Longrightarrow>
      canAccessChannel (client h2 c) ch \<or> map_of (c_subscriptions (client h2 c)) ch = None"
    using fold_if_unsubscribe_tidy[OF tidyD(1)[OF h1(2)] c1, of E F "subscriptionIDsForServer (client h1 c) s", folded h2_def]
    by (blast, meson)
  have conf: "confined s h2 c"
    unfolding confined_def
  proof (intro conjI allI impI)
    fix ch
    assume a: "map_of (c_subscriptions (client h2 c)) ch = Some s"
    have "(ch, s) \<in> set (c_subscriptions (client h1 c))" using tidy_subscriptions[OF t2(1) a] by (rule map_of_SomeD)
    then have "ch \<in> set (subscriptionIDsForServer (client h1 c) s)" by (force simp: subscriptionIDsForServer_def)
    from t2(2)[OF this] show "canAccessChannel (client h2 c) ch" using a by simp
  next
    fix p
    assume "map_of (v_byClient (h_voice h2)) c = Some p"
    then show "canAccessChannel (client h2 c) (vp_ChannelID p)"
      using voice_shrinks[OF t2(1)] h1(3) access_shrinks[OF tidyD(3)[OF t2(1)]] by blast
  qed
  have f2: "fine E F h h2" using tidy_fine[OF tidy_trans[OF h1(2) t2(1)] ok] .
  have k2: "hub_okE E F h2" "c \<in> set (h_known h2)" using f2 c by (simp_all add: fine_def)
  obtain h3 where h3: "sendVoiceSnapshot env h2 c = Some h3" "fine E F h2 h3" "tidy E F h2 h3"
    using snapshots_fine(2)[OF k2] by blast
  have k3: "hub_okE E F h3" "c \<in> set (h_known h3)" using h3(2) k2 by (simp_all add: fine_def)
  obtain h4 where h4: "sendStreamSnapshot env h3 c = Some h4" "tidy E F h3 h4"
    using snapshots_fine(3)[OF k3] by blast
  have t4: "tidy E F h2 h4" using tidy_trans[OF h3(3) h4(2)] .
  have "tidy E F h h4" using tidy_trans[OF tidy_trans[OF h1(2) t2(1)] t4] .
  moreover have "confined s h4 c" by (rule confined_tidy[OF conf t4])
  ultimately show ?thesis
    using False h1(1) h3(1) h4(1) by (simp add: refresh_client_def m_def[symmetric] h2_def[symmetric] Let_def)
qed

lemma RefreshChannelAccess_facts:
  assumes ok: "hub_okE E F h"
  shows "\<exists>h'. RefreshChannelAccess env h s = Some h' \<and> fine E F h h' \<and>
    (e_channelAccessLoader env = None \<and> e_channelAccessBatchLoader env = None \<or>
     (\<forall>c \<in> set (h_clients h'). s \<in> set (c_servers (client h' c)) \<longrightarrow>
        confined s h' c \<and> (\<exists>policy. c_channelAccess (client h' c) = Some policy \<and>
          loaded_policy env h (clientsForServer h s) (c_userID (client h' c)) = Some policy)))"
proof (cases "e_channelAccessLoader env = None \<and> e_channelAccessBatchLoader env = None")
  case True
  then show ?thesis using fine_refl[OF ok] by (simp add: RefreshChannelAccess_def)
next
  case False
  note kn = server_clients_known[OF okE_inv[OF ok], of s]
  obtain h1 failed where r: "reloadChannelAccess env h (clientsForServer h s) = (h1, failed)" by fastforce
  have l: "light h h1" by (rule reload_light[OF r]) (use kn hub_inv_refs(1)[OF okE_inv[OF ok]] in blast)
  have f1: "fine E F h h1" by (rule light_ok[OF l ok])
  then have ok1: "hub_okE E F h1" "h_known h1 = h_known h" by (simp_all add: fine_def)
  have "\<exists>h2. foreach (refresh_client env s failed) h1 (clientsForServer h s) = Some h2 \<and> tidy E F h1 h2 \<and>
      (\<forall>c \<in> set (clientsForServer h s). confined s h2 c \<and> (get_or False failed (c_userID (client h2 c)) \<longrightarrow> gone h2 c))"
  proof (rule foreach_tidy[where K = "h_known h" and b = "Suc (hub_size h1)" and P = "hub_okE E F" 
        and Q = "\<lambda>c h. confined s h c \<and> (get_or False failed (c_userID (client h c)) \<longrightarrow> gone h c)"])
    fix g c
    assume "c \<in> set (clientsForServer h s)" "h_known g = h_known h" "hub_okE E F g"
    then obtain g' where "refresh_client env s failed g c = Some g'" "tidy E F g g'" "confined s g' c"
      "get_or False failed (c_userID (client g c)) \<longrightarrow> gone g' c"
      using kn refresh_client_tidy[of E F g c env s failed] by auto
    then show "\<exists>g'. refresh_client env s failed g c = Some g' \<and> tidy E F g g' \<and>
        confined s g' c \<and> (get_or False failed (c_userID (client g' c)) \<longrightarrow> gone g' c)"
      using tidy_user by auto
  qed (use ok1 okE_inv[OF ok1(1)] tidy_ok confined_tidy tidyD(6) tidy_user in auto)
  then obtain h2 where h2: "foreach (refresh_client env s failed) h1 (clientsForServer h s) = Some h2"
    "tidy E F h1 h2" "\<And>c. c \<in> set (clientsForServer h s) \<Longrightarrow> confined s h2 c"
    "\<And>c. c \<in> set (clientsForServer h s) \<Longrightarrow> get_or False failed (c_userID (client h2 c)) \<Longrightarrow> gone h2 c" by blast
  have "wf_event (mkEvent EventChannelsChanged d)" for d by (rule mkEvent_wf) (simp add: event_types)
  from un.PublishToServer_tidy[where env = env and E = E and F = F, OF tidyD(1)[OF h2(2)] this lessI]
  obtain h3 n where h3: "PublishToServer (Unregister env) h2 s (mkEvent EventChannelsChanged
      (DServerDeletedData \<lparr> sd_ServerID = s \<rparr>)) = Some (h3, n)" "tidy E F h2 h3" by blast
  have t: "tidy E F h1 h3" by (rule tidy_trans[OF h2(2) h3(2)])
  have "confined s h3 c \<and> (\<exists>policy. c_channelAccess (client h3 c) = Some policy \<and>
      loaded_policy env h (clientsForServer h s) (c_userID (client h3 c)) = Some policy)" if "c \<in> set (h_clients h3)" "s \<in> set (c_servers (client h3 c))" for c
  proof -
    have "c \<in> set (h_clients h)" "s \<in> set (c_servers (client h c))"
      using that tidy_gone(1)[OF t, of c] tidyD(3)[OF t] lightD(4,10)[OF l] by (auto simp: shrinks_def)
    then have cs: "c \<in> set (clientsForServer h s)" using hub_inv_index(2)[OF okE_inv[OF ok]] by blast
    have "c \<in> set (h_clients h2)" using that(1) tidyD(3)[OF h3(2)] by (auto simp: shrinks_def)
    then have "\<not> get_or False failed (c_userID (client h2 c))" using h2(4)[OF cs] by (auto simp: gone_def)
    then have "loaded_policy env h (clientsForServer h s) (c_userID (client h c)) \<noteq> None"
      using reload_installs(2,3)[OF _ r cs] False tidy_user[OF h2(2), of c] by auto
    then have "\<exists>policy. c_channelAccess (client h3 c) = Some policy \<and>
      loaded_policy env h (clientsForServer h s) (c_userID (client h3 c)) = Some policy"
      using reload_installs(1,2)[OF _ r cs] False tidy_user[OF t, of c] tidy_access[OF t, of c] by (auto simp: installed_def)
    then show ?thesis using confined_tidy[OF h2(3)[OF cs] h3(2)] by blast
  qed
  then show ?thesis
    using False r h2(1) h3(1) fine_trans[OF f1 tidy_fine[OF t ok1(1)]] by (auto simp: RefreshChannelAccess_def)
qed

lemma RefreshChannelAccess_fine:
  "hub_okE E F h \<Longrightarrow> \<exists>h'. RefreshChannelAccess env h s = Some h' \<and> fine E F h h'"
  using RefreshChannelAccess_facts by blast

lemma refresh_role_fine:
  assumes ok: "hub_okE E F h" and c: "c \<in> set (h_known h)"
  shows "\<exists>h'. refresh_role env s h c = Some h' \<and> fine E F h h'"
proof (cases "e_rolePermissions env")
  case None
  then show ?thesis using fine_refl[OF ok] by (simp add: refresh_role_def)
next
  case (Some load)
  define h1 where "h1 = h\<lparr> h_tick := h_tick h + 1 \<rparr>"
  have f1: "fine E F h h1" unfolding h1_def by (rule light_ok[OF _ ok]) simp
  have ok1: "hub_okE E F h1" "c \<in> set (h_known h1)" using f1 c by (simp_all add: fine_def)
  note inv = okE_inv[OF ok1(1)]
  have cn: "c \<noteq> nil" using ok1(2) hub_inv_refs(5)[OF inv] by metis
  obtain h2 where h2: "leaveVoiceForServer env (Unregister env) h1 c s = Some h2" "tidy E F h1 h2"
    using un.leaveVoiceForServer_tidy[where env = env and E = E and F = F, OF inv order_refl cn] by blast
  obtain h3 b where h3: "SendToConnection (Unregister env) h2 (c_connectionID (client h2 c))
      (closed_event ''voice permission was revoked'') = Some (h3, b)" "tidy E F h2 h3"
    using un.SendToConnection_tidy[where env = env and E = E and F = F,
        OF tidyD(1)[OF h2(2)] closed_event_wf lessI] by blast
  obtain h4 r p f where h4: "leaveStream env (Unregister env) h1 c ''stream permission was revoked'' = Some (h4, r, p, f)"
    "tidy E F h1 h4"
    using un.leaveStream_tidy[where env = env and E = E and F = F, OF inv order_refl] by blast
  have "fine E F h h3" "fine E F h h4"
    using fine_trans[OF f1] tidy_fine[OF tidy_trans[OF h2(2) h3(2)] ok1(1)] tidy_fine[OF h4(2) ok1(1)] by blast+
  then show ?thesis using h2(1) h3(1) h4(1) f1
    unfolding refresh_role_def Some option.case Let_def h1_def[symmetric] by simp
qed

lemma RefreshRolePermissions_fine:
  assumes ok: "hub_okE E F h"
  shows "\<exists>h'. RefreshRolePermissions env h s = Some h' \<and> fine E F h h'"
proof -
  have "\<exists>h1. foreach (refresh_role env s) h (clientsForServer h s) = Some h1 \<and> fine E F h h1"
    by (rule foreach_clients_fine[OF refresh_role_fine ok server_clients_known[OF okE_inv[OF ok]]])
  then obtain h1 where h1: "foreach (refresh_role env s) h (clientsForServer h s) = Some h1" "fine E F h h1" by blast
  from RefreshChannelAccess_fine[of E F h1 env s] h1(2)
  obtain h2 where "RefreshChannelAccess env h1 s = Some h2" "fine E F h1 h2" unfolding fine_def by blast
  then show ?thesis using h1(1) fine_trans[OF h1(2)] by (simp add: RefreshRolePermissions_def)
qed

end
