(* ===== verification/HubGrow.thy ===== *)
theory HubGrow
  imports HubInv
begin

text \<open>
  The operations that add something to the hub: \<^verbatim>\<open>Subscribe\<close>, \<^verbatim>\<open>AddUserToServer\<close> and \<^verbatim>\<open>Register\<close>.
  Each keeps the hub in order; in particular the presence counters stay equal to the number of
  registered connections of a user on a server.
\<close>

subsection \<open>Subscribing\<close>

lemma Subscribe_added:
  assumes ok: "hub_okE E F h" and c: "c \<in> set (h_clients h)" and ch: "ch > 0" and r: "\<not> rm_closed r"
    and m: "rm_clients r = members h ch" and n: "c \<notin> set (members h ch)"
    and srv: "s \<in> set (c_servers (client h c))"
    and h': "h' = set_client (h\<lparr> h_rooms := rooms \<rparr>) c (addSubscription (client h c) s ch)"
    and rooms: "\<And>k. map_of rooms k = (if k = ch then Some (r\<lparr> rm_clients := List.insert c (rm_clients r) \<rparr>)
      else map_of (h_rooms h) k)"
  shows "fine E F h h'"
proof -
  note inv = okE_inv[OF ok]
  have ck: "c \<in> set (h_known h)" using c hub_inv_refs(2)[OF inv] by blast
  have cl: "client h' d = (if d = c then addSubscription (client h c) s ch else client h d)" for d
    by (simp add: h' client_set_client)
  have C: "c_servers (client h' d) = c_servers (client h d)" "c_userID (client h' d) = c_userID (client h d)"
    "c_sessionKey (client h' d) = c_sessionKey (client h d)" "c_done (client h' d) = c_done (client h d)"
    "c_connectionID (client h' d) = c_connectionID (client h d)" "client_ok (client h' d) = client_ok (client h d)"
    "map_of (c_subscriptions (client h' d)) k =
       (if d = c \<and> k = ch then Some s else map_of (c_subscriptions (client h d)) k)" for d k
    by (simp_all add: cl addSubscription_def client_ok_def update_conv')
  have keys: "map fst (h_heap h') = map fst (h_heap h)"
    using known_heap[OF ok ck] by (simp add: h')
  then have keys': "fst ` set (h_heap h') = fst ` set (h_heap h)" by (metis list.set_map)
  have S: "h_known h' = h_known h" "h_clients h' = h_clients h" "h_voice h' = h_voice h" "h_streams h' = h_streams h"
    "h_presence h' = h_presence h" "h_clientsByUser h' = h_clientsByUser h" "h_clientsByServer h' = h_clientsByServer h"
    "h_clientsBySession h' = h_clientsBySession h" "h_clientsByConnection h' = h_clientsByConnection h"
    "h_maxStreamViewers h' = h_maxStreamViewers h" "h_maxP2PStreamViewers h' = h_maxP2PStreamViewers h"
    by (simp_all add: h')
  have sc: "same_conns h h'" using keys C(5) by (simp add: same_conns_def h')
  have idh: "ident h' = ident h" by (rule ext) (simp add: ident_def C)
  have ri: "d \<in> set (members h k) \<longleftrightarrow> map_of (c_subscriptions (client h d)) k \<noteq> None"
    "map_of (c_subscriptions (client h d)) k \<noteq> None \<Longrightarrow> k > 0 \<and> d \<in> set (h_known h)"
    "map_of (h_rooms h) k = Some x \<Longrightarrow> \<not> rm_closed x \<and> distinct (rm_clients x)" for d k x
    using inv by (auto simp: hub_inv_def room_inv_def)
  have "refs_inv h'" using inv unfolding hub_inv_def refs_inv_def keys keys' C S by simp
  moreover have "index_inv h'" using inv unfolding hub_inv_def index_inv_def C S by simp
  moreover have "room_inv h'"
  proof -
    have mem: "set (members h' k) = (if k = ch then insert c (set (members h k)) else set (members h k))" for k
    proof (cases "k = ch")
      case True
      have "members h' ch = List.insert c (rm_clients r)" by (simp add: members_def h' rooms)
      then show ?thesis using True by (simp add: m)
    qed (simp add: members_def h' rooms)
    have "distinct (rm_clients r)" using ri(3) m by (auto simp: members_def split: option.splits)
    then have "\<not> rm_closed x \<and> distinct (rm_clients x)" if "map_of (h_rooms h') k = Some x" for k x
      using that ri(3) r by (auto simp: h' rooms distinct_insert split: if_splits)
    then show ?thesis
      unfolding room_inv_def mem C S using ri(1,2) ch ck by (auto split: if_splits)
  qed
  moreover have "presence_inv h'"
    using inv unfolding hub_inv_def presence_inv_def presence_of_def on_server_def C S by simp
  moreover have "media_inv h'" using inv unfolding hub_inv_def media_inv_def idh S by simp
  ultimately have "hub_inv h'" by (simp add: hub_inv_def)
  moreover have "unsettled h' = {}"
    using ok c unfolding hub_okE_def unsettled_def settled_def C S by auto
  moreover have "seated E F h'"
    by (rule seatedI) (use seatedD[OF okE_seated[OF ok]] srv in \<open>auto simp: C S split: if_splits\<close>)
  ultimately show ?thesis using S(1) C sc by (simp add: fine_def hub_okE_def)
qed

lemma rooms_same_fine:
  assumes ok: "hub_okE E F h" and r: "\<And>k. map_of rooms k = map_of (h_rooms h) k"
  shows "fine E F h (h\<lparr> h_rooms := rooms \<rparr>)"
proof -
  let ?h = "h\<lparr> h_rooms := rooms \<rparr>"
  have i: "ident ?h = ident h" by (simp add: ident_def fun_eq_iff)
  have "hub_inv ?h" using ok r
    by (simp add: hub_okE_def hub_inv_def refs_inv_def index_inv_def room_inv_def members_def
        presence_inv_def presence_of_def on_server_def media_inv_def i)
  then show ?thesis using ok by (simp add: fine_def hub_okE_def unsettled_def settled_def seated_def)
qed

lemma Subscribe_fine:
  assumes ok: "hub_okE E F h"
  shows "fine E F h (fst (Subscribe h c s ch))"
proof (cases "snd (Subscribe h c s ch)")
  case True
  obtain h1 r where g: "getOrCreateRoom h ch = (h1, r)" by fastforce
  obtain r' added where a: "room_add r c = (r', added)" by fastforce
  have S: "c \<in> set (h_clients h)" "ch > 0" "added" "s \<in> set (c_servers (client h c))"
    "fst (Subscribe h c s ch) = set_client (h1\<lparr> h_rooms := AList.update ch r' (h_rooms h1) \<rparr>) c
       (addSubscription (client (h1\<lparr> h_rooms := AList.update ch r' (h_rooms h1) \<rparr>) c) s ch)"
    using True g a by (auto simp: Subscribe_def hasServer_def Let_def split: if_splits)
  have "\<exists>q. h1 = h\<lparr> h_rooms := q \<rparr> \<and> (\<forall>k. k \<noteq> ch \<longrightarrow> map_of q k = map_of (h_rooms h) k)"
    using g by (auto simp: getOrCreateRoom_def update_conv' split: option.splits intro: exI[of _ "h_rooms h"])
  then obtain q where q: "h1 = h\<lparr> h_rooms := q \<rparr>" "\<And>k. k \<noteq> ch \<Longrightarrow> map_of q k = map_of (h_rooms h) k" by blast
  have m: "rm_clients r = members h ch"
    using g by (auto simp: getOrCreateRoom_def members_def newRoom_def split: option.splits)
  have r: "\<not> rm_closed r" "c \<notin> set (rm_clients r)" "r' = r\<lparr> rm_clients := List.insert c (rm_clients r) \<rparr>"
    using a S(3) by (auto simp: room_add_def split: if_splits)
  have "fst (Subscribe h c s ch) =
      set_client (h\<lparr> h_rooms := AList.update ch r' q \<rparr>) c (addSubscription (client h c) s ch)"
    unfolding S(5) q(1) by simp
  moreover have "c \<notin> set (members h ch)" using r(2) m by simp
  ultimately show ?thesis
    by (intro Subscribe_added[OF ok S(1,2) r(1) m]) (auto simp: update_conv' q(2) r(3) S(4))
next
  case False
  have inv: "map_of (h_rooms h) ch = Some x \<Longrightarrow> \<not> rm_closed x" for x
    using okE_inv[OF ok] by (auto simp: hub_inv_def room_inv_def)
  have "fst (Subscribe h c s ch) = h \<or>
     (\<exists>r. map_of (h_rooms h) ch = Some r \<and> fst (Subscribe h c s ch) = h\<lparr> h_rooms := AList.update ch r (h_rooms h) \<rparr>)"
    using False inv
    by (auto simp: Subscribe_def getOrCreateRoom_def room_add_def newRoom_def Let_def split: if_splits option.splits)
  then show ?thesis using fine_refl[OF ok] rooms_same_fine[OF ok] by (auto simp: update_conv')
qed

subsection \<open>Counting a connection in\<close>

lemma incrementPresence_facts:
  assumes "incrementPresence h s u = (h', was)"
  shows "\<exists>p. h' = h\<lparr> h_presence := p \<rparr>"
    "presence_of h' s' u' = (if s' = s \<and> u' = u then presence_of h s u + 1 else presence_of h s' u')"
  using assms by (auto simp: incrementPresence_def presence_of_def Let_def)

lemma count_online_facts:
  assumes "count_online h u ss = (h', online)" "distinct ss"
  shows "(\<exists>p. h' = h\<lparr> h_presence := p \<rparr>) \<and> set online \<subseteq> set ss \<and>
    presence_of h' s' u' = (if s' \<in> set ss \<and> u' = u then presence_of h s' u' + 1 else presence_of h s' u')"
  using assms
proof (induction ss arbitrary: h h' online)
  case Nil
  then show ?case by (auto intro: exI[of _ "h_presence h"])
next
  case (Cons s ss)
  obtain h1 was where i: "incrementPresence h s u = (h1, was)" by fastforce
  obtain h2 rest where r: "count_online h1 u ss = (h2, rest)" by fastforce
  have h': "h' = h2" "online = (if was then s # rest else rest)" using Cons.prems i r by simp_all
  have "s \<notin> set ss" "distinct ss" using Cons.prems(2) by simp_all
  then show ?case
    using Cons.IH[OF r] incrementPresence_facts[OF i] h' by (auto split: if_splits)
qed

lemma fold_indexServer:
  "get_or [] (h_clientsByServer (fold (\<lambda>s h. indexServerLocked h s c) ss h)) s =
     (if s \<in> set ss then List.insert c (get_or [] (h_clientsByServer h) s)
      else get_or [] (h_clientsByServer h) s)"
  by (induction ss arbitrary: h) (auto simp: indexServerLocked_def)

lemma fold_indexServer_frame:
  "\<exists>m. fold (\<lambda>s h. indexServerLocked h s c) ss h = h\<lparr> h_clientsByServer := m \<rparr>"
proof (induction ss arbitrary: h)
  case Nil
  show ?case by (rule exI[of _ "h_clientsByServer h"]) simp
next
  case (Cons s ss)
  from Cons.IH[of "indexServerLocked h s c"] show ?case by (auto simp: indexServerLocked_def)
qed


lemma register_step:
  assumes ok: "hub_okE E F h" and c: "c \<in> fst ` set (h_heap h)" "c \<notin> set (h_known h)"
    and r: "count_online (register_indexes h c) (c_userID (client h c)) (c_servers (client h c)) = (h', online)"
  shows "hub_okE E F h'" "h_known h' = List.insert c (h_known h)" "h_clients h' = List.insert c (h_clients h)"
    "client h' = client h" "same_conns h h'"
proof -
  note inv = okE_inv[OF ok]
  let ?x = "client h c"
  define h1 where "h1 = h\<lparr> h_clients := List.insert c (h_clients h), h_known := List.insert c (h_known h) \<rparr>"
  obtain m where m: "fold (\<lambda>s h. indexServerLocked h s c) (c_servers ?x) h1 = h1\<lparr> h_clientsByServer := m \<rparr>"
    using fold_indexServer_frame by blast
  have bs: "get_or [] m s = (if s \<in> set (c_servers ?x) then List.insert c (get_or [] (h_clientsByServer h) s)
      else get_or [] (h_clientsByServer h) s)" for s
    using fold_indexServer[of c "c_servers ?x" h1 s, unfolded m] by (simp add: h1_def)
  define h2 where "h2 = h1\<lparr> h_clientsByServer := m,
      h_clientsByConnection := AList.update (c_connectionID ?x) c (h_clientsByConnection h),
      h_clientsByUser := AList.update (c_userID ?x) (List.insert c (get_or [] (h_clientsByUser h) (c_userID ?x)))
        (h_clientsByUser h),
      h_clientsBySession := AList.update (c_sessionKey ?x)
        (List.insert c (get_or [] (h_clientsBySession h) (c_sessionKey ?x))) (h_clientsBySession h) \<rparr>"
  have reg: "register_indexes h c = h2"
    using m by (simp add: register_indexes_def Let_def h1_def h2_def)
  have d: "distinct (c_servers ?x)" by (rule hub_inv_refs(4)[OF inv])
  note co = count_online_facts[OF r[unfolded reg] d]
  obtain p where p: "h' = h2\<lparr> h_presence := p \<rparr>" using co by blast
  have cl: "client h' = client h" by (simp add: fun_eq_iff client_def p h2_def h1_def)
  have S: "h_heap h' = h_heap h" "h_known h' = List.insert c (h_known h)" "h_clients h' = List.insert c (h_clients h)"
    "h_voice h' = h_voice h" "h_streams h' = h_streams h" "h_rooms h' = h_rooms h" "h_clientsByServer h' = m"
    "h_clientsByConnection h' = AList.update (c_connectionID ?x) c (h_clientsByConnection h)"
    "h_clientsByUser h' = AList.update (c_userID ?x) (List.insert c (get_or [] (h_clientsByUser h) (c_userID ?x)))
        (h_clientsByUser h)"
    "h_clientsBySession h' = AList.update (c_sessionKey ?x)
        (List.insert c (get_or [] (h_clientsBySession h) (c_sessionKey ?x))) (h_clientsBySession h)"
    "h_maxStreamViewers h' = h_maxStreamViewers h" "h_maxP2PStreamViewers h' = h_maxP2PStreamViewers h"
    by (simp_all add: p h2_def h1_def)
  have pr: "presence_of h' s u = (if s \<in> set (c_servers ?x) \<and> u = c_userID ?x
      then presence_of h s u + 1 else presence_of h s u)" for s u
    using count_online_facts[OF r[unfolded reg] d, of s u] by (simp add: presence_of_def h2_def h1_def)
  note I = hub_inv_index[OF inv]
  have other: "e \<in> fst ` set (h_heap h)" if "e \<in> set (h_clients h)" for e
    using that hub_inv_refs(1,2)[OF inv] by blast
  have "refs_inv h'" using inv c(1) unfolding hub_inv_def refs_inv_def S cl by auto
  moreover have "index_inv h'"
    unfolding index_inv_def S cl
  proof (intro conjI allI)
    fix k e
    show "(map_of (AList.update (c_connectionID ?x) c (h_clientsByConnection h)) k = Some e) =
        (e \<in> set (List.insert c (h_clients h)) \<and> c_connectionID (client h e) = k)"
      using I(4)[of k e] hub_inv_connections[OF inv other c(1)] by (auto simp: update_conv')
  qed (use I(1,3) I(2)[unfolded clientsForServer_def] in \<open>auto simp: bs\<close>)
  moreover have "room_inv h'"
    using inv unfolding hub_inv_def room_inv_def members_def S cl by auto
  moreover have "presence_inv h'"
    unfolding presence_inv_def
  proof (intro allI)
    fix s u
    have o: "on_server h' s u = (if s \<in> set (c_servers ?x) \<and> u = c_userID ?x
        then insert c (on_server h s u) else on_server h s u)"
      unfolding on_server_def S cl using c(2) by auto
    have "c \<notin> on_server h s u" "finite (on_server h s u)" using c(2) by (simp_all add: on_server_def)
    then show "presence_of h' s u = card (on_server h' s u)"
      using inv unfolding pr o by (auto simp: hub_inv_def presence_inv_def)
  qed
  moreover have "media_inv h'"
    using inv unfolding hub_inv_def media_inv_def ident_def S cl by auto
  ultimately have "hub_inv h'" by (simp add: hub_inv_def)
  moreover have "unsettled h' = {}"
    using ok unfolding hub_okE_def unsettled_def settled_def S cl by auto
  moreover have "seated E F h'"
  proof (rule seatedI)
    fix d p
    assume p: "map_of (v_byClient (h_voice h')) d = Some p" "d \<in> set (h_clients h')"
    have "d \<in> set (h_known h)" using inv p(1) by (auto simp: hub_inv_def media_inv_def S)
    then show "(d, vp_ServerID p) \<in> E \<or> vp_ServerID p \<in> set (c_servers (client h' d))"
      using seatedD(1)[OF okE_seated[OF ok], of d p] p c(2) by (auto simp: S cl)
  qed (use seatedD(2,3)[OF okE_seated[OF ok]] in \<open>simp_all add: S cl\<close>)
  ultimately show "hub_okE E F h'" by (simp add: hub_okE_def)
  show "h_known h' = List.insert c (h_known h)" "h_clients h' = List.insert c (h_clients h)" "client h' = client h"
    by (simp_all only: S cl)
  show "same_conns h h'" using cl S(1) by (simp add: same_conns_def p h2_def h1_def)
qed

lemma add_server_step:
  assumes ok: "hub_okE E F h" and c: "c \<in> set (h_clients h)" "s \<notin> set (c_servers (client h c))"
    and i: "incrementPresence (indexServerLocked (set_client h c
      ((client h c)\<lparr> c_servers := List.insert s (c_servers (client h c)) \<rparr>)) s c) s (c_userID (client h c)) = (h', was)"
  shows "fine E F h h'"
proof -
  note inv = okE_inv[OF ok]
  let ?x = "(client h c)\<lparr> c_servers := List.insert s (c_servers (client h c)) \<rparr>"
  obtain p where p: "h' = (indexServerLocked (set_client h c ?x) s c)\<lparr> h_presence := p \<rparr>"
    using incrementPresence_facts(1)[OF i] by blast
  have ck: "c \<in> set (h_known h)" using c hub_inv_refs(2)[OF inv] by blast
  have cl: "client h' e = (if e = c then ?x else client h e)" for e
    by (simp add: p indexServerLocked_def client_set_client)
  have C: "c_userID (client h' e) = c_userID (client h e)"
    "c_sessionKey (client h' e) = c_sessionKey (client h e)" "c_done (client h' e) = c_done (client h e)"
    "c_connectionID (client h' e) = c_connectionID (client h e)" "client_ok (client h' e) = client_ok (client h e)"
    "c_subscriptions (client h' e) = c_subscriptions (client h e)"
    "set (c_servers (client h' e)) = (if e = c then insert s (set (c_servers (client h c))) else set (c_servers (client h e)))"
    "distinct (c_servers (client h' e)) = distinct (c_servers (client h e))" for e
    by (simp_all add: cl client_ok_def)
  have keys: "map fst (h_heap h') = map fst (h_heap h)"
    using known_heap[OF ok ck] by (simp add: p indexServerLocked_def)
  then have keys': "fst ` set (h_heap h') = fst ` set (h_heap h)" by (metis list.set_map)
  have S: "h_known h' = h_known h" "h_clients h' = h_clients h" "h_voice h' = h_voice h"
    "h_streams h' = h_streams h" "h_rooms h' = h_rooms h" "h_clientsByUser h' = h_clientsByUser h"
    "h_clientsBySession h' = h_clientsBySession h" "h_clientsByConnection h' = h_clientsByConnection h"
    "h_clientsByServer h' = AList.update s (List.insert c (get_or [] (h_clientsByServer h) s)) (h_clientsByServer h)"
    "h_maxStreamViewers h' = h_maxStreamViewers h" "h_maxP2PStreamViewers h' = h_maxP2PStreamViewers h"
    by (simp_all add: p indexServerLocked_def)
  have sc: "same_conns h h'" using keys C(4) by (simp add: same_conns_def p indexServerLocked_def)
  have idh: "ident h' = ident h" by (rule ext) (simp add: ident_def C)
  have pr: "presence_of h' s' u = (if s' = s \<and> u = c_userID (client h c)
      then presence_of h s' u + 1 else presence_of h s' u)" for s' u
    using incrementPresence_facts(2)[OF i, of s' u] by (simp add: presence_of_def indexServerLocked_def)
  have "refs_inv h'" using inv unfolding hub_inv_def refs_inv_def keys keys' C S by simp
  moreover have "index_inv h'"
    unfolding index_inv_def C S using hub_inv_index[OF inv, unfolded clientsForServer_def] c(1)
    by (auto split: if_splits)
  moreover have "room_inv h'" using inv unfolding hub_inv_def room_inv_def members_def C S by simp
  moreover have "presence_inv h'"
    unfolding presence_inv_def
  proof (intro allI)
    fix s' u
    have o: "on_server h' s' u = (if s' = s \<and> u = c_userID (client h c)
        then insert c (on_server h s' u) else on_server h s' u)"
      unfolding on_server_def C S using ck by auto
    have "c \<notin> on_server h s v" "finite (on_server h s v)" for v using c(2) by (simp_all add: on_server_def)
    then show "presence_of h' s' u = card (on_server h' s' u)"
      using inv unfolding pr o by (auto simp: hub_inv_def presence_inv_def)
  qed
  moreover have "media_inv h'" using inv unfolding hub_inv_def media_inv_def idh S by simp
  ultimately have "hub_inv h'" by (simp add: hub_inv_def)
  moreover have "unsettled h' = {}"
    using ok c(1) unfolding hub_okE_def unsettled_def settled_def C S by (auto simp: cl split: if_splits)
  moreover have "seated E F h'"
  proof (rule seatedI)
    fix d ch x
    assume "map_of (c_subscriptions (client h' d)) ch = Some x"
    then show "(d, x) \<in> E \<or> x \<in> set (c_servers (client h' d))"
      using seatedD(2)[OF okE_seated[OF ok], of d ch x] by (auto simp: C)
  next
    fix d p
    assume "map_of (v_byClient (h_voice h')) d = Some p" "d \<in> set (h_clients h')"
    then show "(d, vp_ServerID p) \<in> E \<or> vp_ServerID p \<in> set (c_servers (client h' d))"
      using seatedD(1)[OF okE_seated[OF ok], of d p] by (auto simp: C S)
  qed (use seatedD(3)[OF okE_seated[OF ok]] in \<open>simp add: S\<close>)
  ultimately show ?thesis using S(1) C sc by (simp add: fine_def hub_okE_def)
qed

subsection \<open>Registering and adding members\<close>

lemma broadcastPresence_fine:
  assumes "hub_okE E F h"
  shows "\<exists>h'. broadcastPresence env (Unregister env) h s u st = Some h' \<and> fine E F h h' \<and> tidy E F h h'"
  using un.broadcastPresence_tidy[OF okE_inv[OF assms] lessI] tidy_fine[OF _ assms] by blast

lemma add_client_server_fine:
  assumes ok: "hub_okE E F h" and c: "c \<in> set (h_known h)" and u: "c_userID (client h c) = u"
  shows "\<exists>h'. add_client_server env u s h c = Some h' \<and> fine E F h h'"
proof (cases "c \<in> set (h_clients h) \<and> s \<notin> set (c_servers (client h c))")
  case False
  then show ?thesis using fine_refl[OF ok] by (auto simp: add_client_server_def addServer_def)
next
  case True
  let ?x = "(client h c)\<lparr> c_servers := List.insert s (c_servers (client h c)) \<rparr>"
  have x: "addServer (client h c) s = (?x, True)" using True by (simp add: addServer_def)
  obtain h1 was where i: "incrementPresence (indexServerLocked (set_client h c ?x) s c) s u = (h1, was)" by fastforce
  have f1: "fine E F h h1" using add_server_step[OF ok _ _ i[folded u]] True by blast
  obtain h2 ids err where l: "loadChannelAccess env h1 u = (h2, ids, err)" by (metis prod_cases3)
  have "hub_okE E F h1" using f1 by (simp add: fine_def)
  from fine_trans[OF f1 light_ok[OF loadChannelAccess_light[OF l] this]] have f2: "fine E F h h2" .
  have k2: "hub_okE E F h2" "c \<in> set (h_known h2)" using f2 c by (simp_all add: fine_def)
  show ?thesis
  proof (cases err)
    case True
    then show ?thesis
      using close_and_unregister_fine[OF k2, of env CloseReasonServerShutdown] fine_trans[OF f2] x i l \<open>c \<in> _ \<and> _\<close>
      by (auto simp: add_client_server_def)
  next
    case False
    define h3 where "h3 = set_client h2 c (replaceChannelAccess (client h2 c) ids)"
    have f3: "fine E F h h3"
      using fine_trans[OF f2 light_ok[OF replace_access_light[OF known_heap[OF k2]] k2(1)]] by (simp add: h3_def)
    have "\<exists>h4. (if was then broadcastPresence env (Unregister env) h3 s u PresenceOnline else Some h3) = Some h4 \<and>
        fine E F h3 h4"
    proof -
      have "hub_okE E F h3" using f3 by (simp add: fine_def)
      from broadcastPresence_fine[OF this, of env s u PresenceOnline] fine_refl[OF this] show ?thesis by auto
    qed
    then obtain h4 where h4: "(if was then broadcastPresence env (Unregister env) h3 s u PresenceOnline
        else Some h3) = Some h4" "fine E F h3 h4" by blast
    have k4: "hub_okE E F h4" "c \<in> set (h_known h4)" using h4(2) f3 c by (simp_all add: fine_def)
    from snapshots_fine(1)[OF k4, of env "[s]"] obtain h5 where h5: "sendPresenceSnapshot env h4 c [s] = Some h5"
      "fine E F h4 h5" by blast
    show ?thesis
      using False x i l h4(1) h5(1) True fine_trans[OF f3 fine_trans[OF h4(2) h5(2)]]
      by (cases was) (simp_all add: add_client_server_def h3_def[symmetric] Let_def)
  qed
qed

lemma AddUserToServer_fine:
  assumes ok: "hub_okE E F h"
  shows "\<exists>h'. AddUserToServer env h u s = Some h' \<and> fine E F h h'"
proof -
  let ?cs = "get_or [] (h_clientsByUser h) u"
  have "\<exists>h'. foreach (add_client_server env u s) h ?cs = Some h' \<and> fine E F h h'"
  proof (rule foreach_fine_from[OF _ ok])
    fix g c
    assume c: "c \<in> set ?cs" and g: "fine E F h g"
    have "c \<in> set (h_known h)" "c_userID (client h c) = u"
      using c hub_inv_index(1)[OF okE_inv[OF ok]] hub_inv_refs(2)[OF okE_inv[OF ok]] by blast+
    then show "\<exists>h'. add_client_server env u s g c = Some h' \<and> fine E F g h'"
      using g by (intro add_client_server_fine) (simp_all add: fine_def)
  qed
  then show ?thesis using fine_refl[OF ok] by (simp add: AddUserToServer_def)
qed

lemma registerPresence_ok:
  assumes ok: "hub_okE E F h" and c: "c \<in> fst ` set (h_heap h)" "c \<notin> set (h_known h)"
  shows "\<exists>h'. registerPresence env (register_indexes h c) c = Some h' \<and> hub_okE E F h' \<and>
    h_known h' = List.insert c (h_known h) \<and> same_conns h h' \<and>
    (\<forall>d. c_userID (client h' d) = c_userID (client h d))"
proof -
  obtain h1 online where r: "count_online (register_indexes h c) (c_userID (client h c)) (c_servers (client h c)) =
    (h1, online)" by fastforce
  note R = register_step[OF ok c r]
  obtain m where m: "fold (\<lambda>s h. indexServerLocked h s c) (c_servers (client h c))
      (h\<lparr> h_clients := List.insert c (h_clients h), h_known := List.insert c (h_known h) \<rparr>) =
      (h\<lparr> h_clients := List.insert c (h_clients h), h_known := List.insert c (h_known h) \<rparr>)\<lparr> h_clientsByServer := m \<rparr>"
    using fold_indexServer_frame by blast
  have i: "h_clients (register_indexes h c) = List.insert c (h_clients h)" "client (register_indexes h c) c = client h c"
    by (simp_all add: register_indexes_def Let_def m) (simp add: client_def)
  have "\<exists>h2. foreach (\<lambda>g s. broadcastPresence env (Unregister env) g s (c_userID (client h c))
      PresenceOnline) h1 online = Some h2 \<and> fine E F h1 h2"
    by (rule foreach_fine[OF _ R(1) refl]) (use broadcastPresence_fine in blast)
  then obtain h2 where h2: "foreach (\<lambda>g s. broadcastPresence env (Unregister env) g s
      (c_userID (client h c)) PresenceOnline) h1 online = Some h2" "fine E F h1 h2" by blast
  have k2: "hub_okE E F h2" "c \<in> set (h_known h2)" using h2(2) R(2) by (simp_all add: fine_def)
  from snapshots_fine(1)[OF k2, of env "c_servers (client h c)"] obtain h3
    where h3: "sendPresenceSnapshot env h2 c (c_servers (client h c)) = Some h3" "fine E F h2 h3" by blast
  have "registerPresence env (register_indexes h c) c = Some h3"
    using r h2(1) h3(1) unfolding registerPresence_def Let_def i by simp
  moreover have "same_conns h h3" using same_conns_trans[OF R(5)] h2(2) h3(2) same_conns_trans unfolding fine_def by blast
  ultimately show ?thesis using h2(2) h3(2) R(2,4) by (auto simp: fine_def)
qed

text \<open>\<^verbatim>\<open>Register\<close> of a connection that was allocated: it returns, keeps the hub in order, and makes
  at most this connection known.\<close>

lemma Register_ok:
  assumes ok: "hub_okE E F h" and c: "c = nil \<or> c \<in> fst ` set (h_heap h)"
  shows "\<exists>h' b. Register env h c = Some (h', b) \<and> hub_okE E F h' \<and>
    h_known h' = (if b then List.insert c (h_known h) else h_known h) \<and> same_conns h h' \<and>
    (\<forall>d. c_userID (client h' d) = c_userID (client h d))"
proof -
  obtain h1 go where a: "install_access env h c = (h1, go)" by fastforce
  have l: "light h h1"
  proof (cases "c = nil")
    case True
    then show ?thesis using a by (simp add: install_access_def)
  next
    case False
    obtain g ids err where g: "loadChannelAccess env h (c_userID (client h c)) = (g, ids, err)" by (metis prod_cases3)
    have lg: "light h g" by (rule loadChannelAccess_light[OF g])
    have "c \<in> fst ` set (h_heap g)" using c False light_heap[OF lg] by simp
    from close_client_light[OF this] replace_access_light[OF this] show ?thesis
      using a g False light_trans[OF lg] by (auto simp: install_access_def split: bool.splits)
  qed
  have f1: "fine E F h h1" by (rule light_ok[OF l ok])
  have k1: "hub_okE E F h1" "h_known h1 = h_known h" "same_conns h h1"
    "\<forall>d. c_userID (client h1 d) = c_userID (client h d)" using f1 by (simp_all add: fine_def)
  show ?thesis
  proof (cases "go \<and> c \<noteq> nil \<and> c_userID (client h1 c) > 0 \<and> \<not> h_closed h1 \<and> \<not> c_done (client h1 c) \<and>
      c \<notin> set (h_clients h1)")
    case False
    then show ?thesis using a k1 unfolding Register_def
      by (cases go) (auto simp: not_less)
  next
    case True
    have ck: "c \<in> fst ` set (h_heap h1)" using True c light_heap[OF l] by simp
    have "c \<notin> set (h_known h1)"
      using k1(1) True by (auto simp: hub_okE_def unsettled_def settled_def)
    from registerPresence_ok[OF k1(1) ck this] obtain h2
      where h2: "registerPresence env (register_indexes h1 c) c = Some h2" "hub_okE E F h2"
        "h_known h2 = List.insert c (h_known h1)" "same_conns h1 h2"
        "\<forall>d. c_userID (client h2 d) = c_userID (client h1 d)" by blast
    have c2: "c \<in> set (h_known h2)" using h2(3) by simp
    from snapshots_fine(2)[OF h2(2) c2] obtain h3 where h3: "sendVoiceSnapshot env h2 c = Some h3" "fine E F h2 h3" by blast
    have k3: "hub_okE E F h3" "c \<in> set (h_known h3)" using h3(2) c2 by (simp_all add: fine_def)
    from snapshots_fine(3)[OF k3] obtain h4 where h4: "sendStreamSnapshot env h3 c = Some h4" "fine E F h3 h4" by blast
    have "Register env h c = Some (h4, True)"
      using True a h2(1) h3(1) h4(1) by (simp add: Register_def)
    moreover have "same_conns h h4"
      using same_conns_trans[OF same_conns_trans[OF k1(3) h2(4)]] h3(2) h4(2) same_conns_trans unfolding fine_def by blast
    ultimately show ?thesis using h2(3,5) k1(2,4) h3(2) h4(2) by (auto simp: fine_def)
  qed
qed

end
