(* ===== verification/HubRemoval.thy ===== *)
theory HubRemoval
  imports HubGrow
begin

text \<open>
  Deleting a channel or a server (\<^verbatim>\<open>RemoveChannel\<close> and \<^verbatim>\<open>RevokeServer\<close>): both return, keep the hub in
  order, and leave no subscription, participant, stream or presence behind.
\<close>

subsection \<open>Replacing one directory\<close>

lemma voice_replaced_ok:
  assumes ok: "hub_okE E F h" and i: "voice_inv (ident h) v"
    and kn: "\<And>c p. map_of (v_byClient v) c = Some p \<Longrightarrow> c \<in> set (h_known h)"
    and st: "seated E' F' (h\<lparr> h_voice := v \<rparr>)"
  shows "hub_okE E' F' (h\<lparr> h_voice := v \<rparr>)"
proof -
  note inv = okE_inv[OF ok]
  let ?h = "h\<lparr> h_voice := v \<rparr>"
  have idh: "ident ?h = ident h" by (simp add: ident_def fun_eq_iff)
  have "refs_inv ?h" "index_inv ?h" "room_inv ?h" "presence_inv ?h"
    using inv by (simp_all add: hub_inv_def refs_inv_def index_inv_def room_inv_def members_def
        presence_inv_def presence_of_def on_server_def)
  moreover have "media_inv ?h" using inv i kn by (auto simp: hub_inv_def media_inv_def idh)
  ultimately have "hub_inv ?h" by (simp add: hub_inv_def)
  moreover have "unsettled ?h = {}" using ok by (simp add: hub_okE_def unsettled_def settled_def)
  ultimately show ?thesis using st by (simp add: hub_okE_def)
qed

lemma streams_replaced_ok:
  assumes ok: "hub_okE E F h" and i: "stream_inv (h_maxStreamViewers h) (h_maxP2PStreamViewers h) t"
    and kn: "\<And>c p. map_of (t_byClient t) c = Some p \<Longrightarrow> c \<in> set (h_known h)"
    and st: "seated E' F' (h\<lparr> h_streams := t \<rparr>)"
  shows "hub_okE E' F' (h\<lparr> h_streams := t \<rparr>)"
proof -
  note inv = okE_inv[OF ok]
  let ?h = "h\<lparr> h_streams := t \<rparr>"
  have idh: "ident ?h = ident h" by (simp add: ident_def fun_eq_iff)
  have "refs_inv ?h" "index_inv ?h" "room_inv ?h" "presence_inv ?h"
    using inv by (simp_all add: hub_inv_def refs_inv_def index_inv_def room_inv_def members_def
        presence_inv_def presence_of_def on_server_def)
  moreover have "media_inv ?h" using inv i kn by (auto simp: hub_inv_def media_inv_def idh)
  ultimately have "hub_inv ?h" by (simp add: hub_inv_def)
  moreover have "unsettled ?h = {}" using ok by (simp add: hub_okE_def unsettled_def settled_def)
  ultimately show ?thesis using st by (simp add: hub_okE_def)
qed

lemma voice_known: "hub_okE E F h \<Longrightarrow> map_of (v_byClient (h_voice h)) c = Some p \<Longrightarrow> c \<in> set (h_known h)"
  by (auto simp: hub_okE_def hub_inv_def media_inv_def)

lemma streams_known: "hub_okE E F h \<Longrightarrow> map_of (t_byClient (h_streams h)) c = Some p \<Longrightarrow> c \<in> set (h_known h)"
  by (auto simp: hub_okE_def hub_inv_def media_inv_def)

lemma hub_inv_rooms:
  assumes "hub_inv h"
  shows "d \<in> set (members h k) \<longleftrightarrow> map_of (c_subscriptions (client h d)) k \<noteq> None"
    "map_of (c_subscriptions (client h d)) k \<noteq> None \<Longrightarrow> k > 0 \<and> d \<in> set (h_known h)"
    "map_of (h_rooms h) k = Some x \<Longrightarrow> \<not> rm_closed x \<and> distinct (rm_clients x)"
  using assms by (auto simp: hub_inv_def room_inv_def)

lemma okE_voice: "hub_okE E F h \<Longrightarrow> voice_inv (ident h) (h_voice h)"
  by (simp add: hub_okE_def hub_inv_def media_inv_def)

lemma okE_streams: "hub_okE E F h \<Longrightarrow> stream_inv (h_maxStreamViewers h) (h_maxP2PStreamViewers h) (h_streams h)"
  by (simp add: hub_okE_def hub_inv_def media_inv_def)

subsection \<open>Stopping the streams of a channel\<close>

definition streamless :: "hub \<Rightarrow> int \<Rightarrow> bool" where
  "streamless h ch \<longleftrightarrow> (\<forall>c st. map_of (t_byClient (h_streams h)) c = Some st \<longrightarrow>
     as_channelID (stream_at (h_streams h) (st_stream st)) \<noteq> ch)"

lemma tidy_stream_attrs:
  assumes "tidy E F h h'"
  shows "as_channelID (stream_at (h_streams h') r) = as_channelID (stream_at (h_streams h) r)"
    "as_publisher (stream_at (h_streams h') r) = as_publisher (stream_at (h_streams h) r)"
    "map_of (t_byClient (h_streams h')) c = Some st \<Longrightarrow> map_of (t_byClient (h_streams h)) c = Some st"
proof -
  have s: "shrinks h h'" by (rule tidyD(3)[OF assms])
  then show "as_channelID (stream_at (h_streams h') r) = as_channelID (stream_at (h_streams h) r)"
    "as_publisher (stream_at (h_streams h') r) = as_publisher (stream_at (h_streams h) r)"
    by (simp_all add: shrinks_def)
  have "map_of (t_byClient (h_streams h')) \<subseteq>\<^sub>m map_of (t_byClient (h_streams h))"
    using s unfolding shrinks_def by blast
  then show "map_of (t_byClient (h_streams h')) c = Some st \<Longrightarrow> map_of (t_byClient (h_streams h)) c = Some st"
    unfolding map_le_def by (metis domI)
qed

lemma streamless_tidy: "streamless h ch \<Longrightarrow> tidy E F h h' \<Longrightarrow> streamless h' ch"
  unfolding streamless_def using tidy_stream_attrs by metis

lemma stopStreamForChannel_tidy:
  assumes inv: "hub_inv h"
  shows "\<exists>h'. stopStreamForChannel env (Unregister env) h ch reason = Some h' \<and> tidy E F h h' \<and> streamless h' ch"
proof -
  have si: "stream_inv (h_maxStreamViewers h) (h_maxP2PStreamViewers h) (h_streams h)"
    using inv by (simp add: hub_inv_def media_inv_def)
  let ?pubs = "stream_publishersForChannel (h_streams h) ch"
  have "\<exists>h'. stopStreamForChannel env (Unregister env) h ch reason = Some h' \<and> tidy E F h h' \<and>
      (\<forall>c \<in> set ?pubs. map_of (t_byClient (h_streams h')) c = None)"
    unfolding stopStreamForChannel_def
  proof (rule foreach_tidy[where K = "h_known h" and b = "Suc (hub_size h)" and P = "\<lambda>_. True"
        and Q = "\<lambda>c h. map_of (t_byClient (h_streams h)) c = None"])
    fix g c
    assume "hub_inv g"
    from un.leaveStream_tidy[where env = env and E = E and F = F, OF this order_refl]
    show "\<exists>g'. map_option fst (leaveStream env (Unregister env) g c reason) = Some g' \<and> tidy E F g g' \<and>
        map_of (t_byClient (h_streams g')) c = None" by fastforce
  qed (use inv tidy_gone(6) in auto)
  then obtain h' where h': "stopStreamForChannel env (Unregister env) h ch reason = Some h'" "tidy E F h h'"
    "\<forall>c \<in> set ?pubs. map_of (t_byClient (h_streams h')) c = None" by blast
  have si': "stream_inv (h_maxStreamViewers h') (h_maxP2PStreamViewers h') (h_streams h')"
    using tidyD(1)[OF h'(2)] by (simp add: hub_inv_def media_inv_def)
  have "as_channelID (stream_at (h_streams h') (st_stream st)) \<noteq> ch"
    if c: "map_of (t_byClient (h_streams h')) c = Some st" for c st
  proof
    assume a: "as_channelID (stream_at (h_streams h') (st_stream st)) = ch"
    let ?v = "stream_at (h_streams h') (st_stream st)"
    have "live (h_streams h') (st_stream st) ?v"
      using stream_invD(7)[OF si' c] live_stream_at by metis
    from stream_invD(8)[OF si' this] obtain st2
      where p: "map_of (t_byClient (h_streams h')) (as_publisher ?v) = Some st2" "st_publisher st2"
        "st_stream st2 = st_stream st" by blast
    have "map_of (t_byClient (h_streams h)) (as_publisher ?v) = Some st2"
      by (rule tidy_stream_attrs(3)[OF h'(2) p(1)])
    from stream_invD(7)[OF si this] obtain w where w: "live (h_streams h) (st_stream st) w" using p(3) by auto
    have "map_of (streams_in (h_streams h) (as_channelID w)) (as_publisher w) = Some (st_stream st)"
      using w by (simp add: live_def)
    moreover have "as_channelID w = ch" "as_publisher w = as_publisher ?v"
      using live_stream_at[OF w] a tidy_stream_attrs(1,2)[OF h'(2), of "st_stream st"] by simp_all
    ultimately have "as_publisher ?v \<in> set ?pubs"
      by (force simp: stream_publishersForChannel_def dest: map_of_SomeD)
    then show False using h'(3) p(1) by simp
  qed
  then show ?thesis using h'(1,2) by (auto simp: streamless_def)
qed

subsection \<open>Removing participants\<close>

lemma seated_without:
  assumes s: "seated E {} h"
    and V: "\<And>c. map_of (v_byClient v) c =
      (case map_of (v_byClient (h_voice h)) c of None \<Rightarrow> None | Some p \<Rightarrow> if P p then None else Some p)"
    and e: "\<And>c p. map_of (v_byClient (h_voice h)) c = Some p \<Longrightarrow> \<not> P p \<Longrightarrow> (c, vp_ServerID p) \<in> E \<Longrightarrow> (c, vp_ServerID p) \<in> E'"
      "\<And>c ch x. map_of (c_subscriptions (client h c)) ch = Some x \<Longrightarrow> (c, x) \<in> E \<Longrightarrow> (c, x) \<in> E'"
    and f: "\<And>c st p. map_of (t_byClient (h_streams h)) c = Some st \<Longrightarrow> map_of (v_byClient (h_voice h)) c = Some p \<Longrightarrow>
      vp_ChannelID p = as_channelID (stream_at (h_streams h) (st_stream st)) \<Longrightarrow> P p \<Longrightarrow> (c, vp_ChannelID p) \<in> F'"
  shows "seated E' F' (h\<lparr> h_voice := v \<rparr>)"
proof -
  have old: "map_of (v_byClient (h_voice h)) c = Some p \<and> \<not> P p" if "map_of (v_byClient v) c = Some p" for c p
    using that V[of c] by (auto split: option.splits if_splits)
  have "(c, vp_ServerID p) \<in> E' \<or> vp_ServerID p \<in> set (c_servers (client h c))"
    if "map_of (v_byClient v) c = Some p" "c \<in> set (h_clients h)" for c p
    using old[OF that(1)] seatedD(1)[OF s, of c p] that(2) e(1)[of c p] by blast
  moreover have "(c, as_channelID (stream_at (h_streams h) (st_stream st))) \<in> F' \<or>
      (\<exists>p. map_of (v_byClient v) c = Some p \<and> vp_ChannelID p = as_channelID (stream_at (h_streams h) (st_stream st)) \<and>
        vp_ServerID p = as_serverID (stream_at (h_streams h) (st_stream st)))"
    if st: "map_of (t_byClient (h_streams h)) c = Some st" for c st
  proof -
    obtain p where p: "map_of (v_byClient (h_voice h)) c = Some p"
      "vp_ChannelID p = as_channelID (stream_at (h_streams h) (st_stream st))"
      "vp_ServerID p = as_serverID (stream_at (h_streams h) (st_stream st))"
      using seatedD(3)[OF s st] by blast
    show ?thesis using f[OF st p(1,2)] p V[of c] by (cases "P p") simp_all
  qed
  ultimately show ?thesis
    by (intro seatedI) (use seatedD(2)[OF s] e(2) in \<open>simp_all, blast\<close>)
qed

subsection \<open>Removing a channel\<close>

lemma fold_closeVoiceSession_soft:
  "soft h (fold (\<lambda>p h. closeVoiceSession env h (vp_ConnectionID p)) ps h)"
proof (induction ps arbitrary: h)
  case (Cons p ps)
  have "soft h (closeVoiceSession env h (vp_ConnectionID p))" by (simp add: closeVoiceSession_def)
  from soft_trans[OF this Cons.IH] show ?case by simp
qed simp

lemma fold_removeSubscription:
  fixes ch :: int
  defines "g \<equiv> fold (\<lambda>c h. set_client h c (removeSubscription (client h c) ch))"
  assumes "set cs \<subseteq> fst ` set (h_heap h)"
  shows "(\<forall>d. client (g cs h) d = (if d \<in> set cs then removeSubscription (client h d) ch else client h d)) \<and>
    map fst (h_heap (g cs h)) = map fst (h_heap h) \<and> (\<exists>hp. g cs h = h\<lparr> h_heap := hp \<rparr>)"
  using assms(2)
proof (induction cs arbitrary: h)
  case Nil
  show ?case by (auto simp: g_def intro: exI[of _ "h_heap h"])
next
  case (Cons c cs)
  let ?h = "set_client h c (removeSubscription (client h c) ch)"
  have k: "map fst (h_heap ?h) = map fst (h_heap h)" using Cons.prems by simp
  then have "set cs \<subseteq> fst ` set (h_heap ?h)" using Cons.prems by (metis list.set_map set_subset_Cons subset_trans)
  from Cons.IH[OF this] k obtain hp where "\<forall>d. client (g cs ?h) d = (if d \<in> set cs then removeSubscription (client ?h d) ch
      else client ?h d)" "map fst (h_heap (g cs ?h)) = map fst (h_heap h)" "g cs ?h = ?h\<lparr> h_heap := hp \<rparr>" by metis
  moreover have "g (c # cs) h = g cs ?h" by (simp add: g_def)
  moreover have "removeSubscription (removeSubscription x ch) ch = removeSubscription x ch" for x
    by (simp add: removeSubscription_def delete_idem)
  moreover have "\<exists>hq. ?h\<lparr> h_heap := hp \<rparr> = h\<lparr> h_heap := hq \<rparr>" by (auto simp: set_client_def)
  ultimately show ?case by (simp add: client_set_client)
qed

lemma remove_room_fine:
  assumes ok: "hub_okE E F h" and r: "getRoom h ch = Some r"
    and h': "h' = fold (\<lambda>c h. set_client h c (removeSubscription (client h c) ch)) (rm_clients r)
      (h\<lparr> h_rooms := AList.delete ch (h_rooms h) \<rparr>)"
  shows "fine E F h h'" "\<And>c. map_of (c_subscriptions (client h' c)) ch = None"
proof -
  note inv = okE_inv[OF ok]
  have mem: "members h ch = rm_clients r" by (rule getRoom_members[OF r])
  have "set (rm_clients r) \<subseteq> fst ` set (h_heap (h\<lparr> h_rooms := AList.delete ch (h_rooms h) \<rparr>))"
    using room_members_known[OF inv, of ch] mem hub_inv_refs(1)[OF inv] by auto
  from fold_removeSubscription[OF this, of ch, folded h'] obtain hp
    where cl0: "\<forall>d. client h' d = (if d \<in> set (rm_clients r)
        then removeSubscription (client (h\<lparr> h_rooms := AList.delete ch (h_rooms h) \<rparr>) d) ch
        else client (h\<lparr> h_rooms := AList.delete ch (h_rooms h) \<rparr>) d)"
      and keys: "map fst (h_heap h') = map fst (h_heap h)"
      and hp: "h' = (h\<lparr> h_rooms := AList.delete ch (h_rooms h) \<rparr>)\<lparr> h_heap := hp \<rparr>" by auto
  have cl: "client h' d = (if d \<in> set (rm_clients r) then removeSubscription (client h d) ch else client h d)" for d
    using cl0 by simp
  note ri = hub_inv_rooms[OF inv]
  have C: "c_servers (client h' d) = c_servers (client h d)" "c_userID (client h' d) = c_userID (client h d)"
    "c_sessionKey (client h' d) = c_sessionKey (client h d)" "c_done (client h' d) = c_done (client h d)"
    "c_connectionID (client h' d) = c_connectionID (client h d)" "client_ok (client h' d) = client_ok (client h d)" for d
    by (simp_all add: cl removeSubscription_def client_ok_def)
  have sub: "map_of (c_subscriptions (client h' d)) k =
       (if k = ch then None else map_of (c_subscriptions (client h d)) k)" for d k
    using ri(1)[of d ch] mem by (auto simp: cl removeSubscription_def delete_conv')
  show "\<And>c. map_of (c_subscriptions (client h' c)) ch = None" by (simp add: sub)
  have keys': "fst ` set (h_heap h') = fst ` set (h_heap h)" using keys by (metis list.set_map)
  have S: "h_known h' = h_known h" "h_clients h' = h_clients h" "h_voice h' = h_voice h" "h_streams h' = h_streams h"
    "h_presence h' = h_presence h" "h_clientsByUser h' = h_clientsByUser h" "h_clientsByServer h' = h_clientsByServer h"
    "h_clientsBySession h' = h_clientsBySession h" "h_clientsByConnection h' = h_clientsByConnection h"
    "h_maxStreamViewers h' = h_maxStreamViewers h" "h_maxP2PStreamViewers h' = h_maxP2PStreamViewers h"
    by (simp_all add: hp)
  have sc: "same_conns h h'" using keys C(5) by (simp add: same_conns_def hp)
  have idh: "ident h' = ident h" by (rule ext) (simp add: ident_def C)
  have mem': "members h' k = (if k = ch then [] else members h k)" for k
    by (simp add: members_def hp delete_conv')
  have "refs_inv h'" using inv unfolding hub_inv_def refs_inv_def keys keys' C S by simp
  moreover have "index_inv h'" using inv unfolding hub_inv_def index_inv_def C S by simp
  moreover have "room_inv h'"
    unfolding room_inv_def mem' sub S using ri(1,2) ri(3) by (auto simp: hp delete_conv' split: if_splits)
  moreover have "presence_inv h'"
    using inv unfolding hub_inv_def presence_inv_def presence_of_def on_server_def C S by simp
  moreover have "media_inv h'" using inv unfolding hub_inv_def media_inv_def idh S by simp
  ultimately have "hub_inv h'" by (simp add: hub_inv_def)
  moreover have "unsettled h' = {}"
    using ok unfolding hub_okE_def unsettled_def settled_def C S sub by auto
  moreover have "seated E F h'"
    by (rule seated_frame[OF okE_seated[OF ok] S(3,4) _ C(1)]) (simp_all add: S sub split: if_splits)
  ultimately show "fine E F h h'" using S(1) C sc by (simp add: fine_def hub_okE_def)
qed

text \<open>After \<^verbatim>\<open>RemoveChannel\<close> nothing refers to the channel.\<close>

lemma RemoveChannel_facts:
  assumes ok: "hub_okE E {} h" and ch: "ch > 0"
  shows "\<exists>h'. RemoveChannel env h ch = Some h' \<and> fine E {} h h' \<and> streamless h' ch \<and>
    (\<forall>c. map_of (c_subscriptions (client h' c)) ch = None) \<and>
    (\<forall>c p. map_of (v_byClient (h_voice h')) c = Some p \<longrightarrow> vp_ChannelID p \<noteq> ch)"
proof -
  define h1 where "h1 = (case getRoom h ch of None \<Rightarrow> h
    | Some room \<Rightarrow> fold (\<lambda>c h. set_client h c (removeSubscription (client h c) ch))
        (snd (room_closeAndSnapshot room)) (h\<lparr> h_rooms := AList.delete ch (h_rooms h) \<rparr>))"
  have h1: "fine E {} h h1 \<and> (\<forall>c. map_of (c_subscriptions (client h1 c)) ch = None)"
  proof (cases "getRoom h ch")
    case None
    have "members h ch = []" using None by (simp add: members_def getRoom_def)
    then have "\<forall>c. map_of (c_subscriptions (client h c)) ch = None"
      using hub_inv_rooms(1)[OF okE_inv[OF ok], of _ ch] by simp
    then show ?thesis using None fine_refl[OF ok] by (simp add: h1_def)
  next
    case (Some r)
    have "\<not> rm_closed r" using okE_inv[OF ok] Some by (auto simp: hub_inv_def room_inv_def getRoom_def)
    then have "snd (room_closeAndSnapshot r) = rm_clients r" by (simp add: room_closeAndSnapshot_def)
    then have "h1 = fold (\<lambda>c h. set_client h c (removeSubscription (client h c) ch)) (rm_clients r)
        (h\<lparr> h_rooms := AList.delete ch (h_rooms h) \<rparr>)" by (simp add: h1_def Some)
    from remove_room_fine[OF ok Some this] show ?thesis by blast
  qed
  have ok1: "hub_okE E {} h1" using h1 by (simp add: fine_def)
  from stopStreamForChannel_tidy[where env = env and E = E and F = "{}", OF okE_inv[OF ok1]]
  obtain h2 where h2: "stopStreamForChannel env (Unregister env) h1 ch ''voice channel was deleted'' = Some h2"
    "tidy E {} h1 h2" "streamless h2 ch" by blast
  have f2: "fine E {} h1 h2" by (rule tidy_fine[OF h2(2) ok1])
  have ok2: "hub_okE E {} h2" using f2 by (simp add: fine_def)
  obtain v ps where v: "voice_removeChannel (h_voice h2) ch = (v, ps)" by fastforce
  note V = voice_removeChannel_facts[OF okE_voice[OF ok2] v]
  let ?h3 = "h2\<lparr> h_voice := v \<rparr>"
  have "seated E {} h2" using ok2 by (simp add: hub_okE_def)
  then have "seated E {} ?h3"
    by (rule seated_without[OF _ V(3)]) (use h2(3) in \<open>auto simp: streamless_def\<close>)
  then have ok3: "hub_okE E {} ?h3"
    by (rule voice_replaced_ok[OF ok2 V(1), rotated])
      (auto simp: V(3) intro: voice_known[OF ok2] split: option.splits if_splits)
  define h4 where "h4 = fold (\<lambda>p h. closeVoiceSession env h (vp_ConnectionID p)) ps ?h3"
  have t4: "tidy E {} ?h3 h4" unfolding h4_def by (rule soft_tidy[OF fold_closeVoiceSession_soft okE_inv[OF ok3]])
  have "fine E {} h2 ?h3" using ok3 by (simp add: fine_def)
  then have f: "fine E {} h h4"
    using h1 f2 tidy_fine[OF t4 ok3] fine_trans by metis
  have "map_of (c_subscriptions (client h4 c)) ch = None" for c
    using h1 tidy_gone(4)[OF h2(2)] tidy_gone(4)[OF t4] by simp
  moreover have "vp_ChannelID p \<noteq> ch" if "map_of (v_byClient (h_voice h4)) c = Some p" for c p
    using voice_shrinks[OF t4 that] by (auto simp: V(3) split: option.splits if_splits)
  moreover have "streamless h4 ch" using streamless_tidy[OF _ t4, of ch] h2(3) by (simp add: streamless_def)
  moreover have "RemoveChannel env h ch = Some h4"
    using ch h2(1) v by (simp add: RemoveChannel_def h1_def[symmetric] h4_def Let_def)
  ultimately show ?thesis using f by blast
qed


subsection \<open>Deleting a server\<close>

lemma evict_client_tidy:
  assumes inv: "hub_inv h" and c: "c \<in> set (h_known h)"
  shows "\<exists>h'. evict_client env s failed h c = Some h' \<and> tidy (UNIV \<times> {s}) F h h' \<and>
    s \<notin> set (c_servers (client h' c)) \<and> (\<forall>ch. map_of (c_subscriptions (client h' c)) ch \<noteq> Some s)"
proof (cases "get_or False failed (c_userID (client h c))")
  case True
  then show ?thesis
    using close_and_unregister_tidy[OF assms, of env CloseReasonServerShutdown "UNIV \<times> {s}" F] by (auto simp: evict_client_def gone_def settled_def)
next
  case False
  obtain h1 where h1: "removeClientServer env (Unregister env) h c s False = Some h1" "tidy (UNIV \<times> {s}) F h h1"
    "s \<notin> set (c_servers (client h1 c))"
    using un.removeClientServer_tidy[where env = env and E = "UNIV \<times> {s}" and F = F and s = s, OF inv c order_refl] by auto
  have c1: "c \<in> set (h_known h1)" using tidyD(5)[OF h1(2)] c by simp
  note u = unsubscribeFromServer_tidy(1)[OF tidyD(1)[OF h1(2)] c1, of "UNIV \<times> {s}" F s]
    unsubscribeFromServer_tidy(2)[OF tidyD(1)[OF h1(2)] c1, of s]
  show ?thesis
    using False h1(1,3) u(2) tidy_trans[OF h1(2) u(1)] tidy_gone(1)[OF u(1), of c] by (auto simp: evict_client_def)
qed

lemma evict_all:
  assumes "hub_inv h" "set cs \<subseteq> set (h_known h)"
  shows "\<exists>h'. foreach (evict_client env s failed) h cs = Some h' \<and> tidy (UNIV \<times> {s}) F h h' \<and>
    (\<forall>c \<in> set cs. s \<notin> set (c_servers (client h' c)) \<and> (\<forall>ch. map_of (c_subscriptions (client h' c)) ch \<noteq> Some s))"
proof (rule foreach_tidy[where K = "h_known h" and b = "Suc (hub_size h)" and P = "\<lambda>_. True"
      and Q = "\<lambda>c h. s \<notin> set (c_servers (client h c)) \<and> (\<forall>ch. map_of (c_subscriptions (client h c)) ch \<noteq> Some s)"])
  fix c g g'
  assume "s \<notin> set (c_servers (client g c)) \<and> (\<forall>ch. map_of (c_subscriptions (client g c)) ch \<noteq> Some s)" "tidy (UNIV \<times> {s}) F g g'"
  then show "s \<notin> set (c_servers (client g' c)) \<and> (\<forall>ch. map_of (c_subscriptions (client g' c)) ch \<noteq> Some s)"
    using tidy_gone(1)[of "UNIV \<times> {s}" F g g' c] tidy_subscriptions[of "UNIV \<times> {s}" F g g' c] by blast
qed (use assms evict_client_tidy in auto)

lemma presence_absent_fine:
  assumes ok: "hub_okE E F h" and n: "\<And>u. presence_of h s u = 0"
  shows "fine E F h (h\<lparr> h_presence := AList.delete s (h_presence h) \<rparr>)"
proof -
  let ?h = "h\<lparr> h_presence := AList.delete s (h_presence h) \<rparr>"
  have p: "presence_of ?h s' u = presence_of h s' u" for s' u
    using n[of u] by (simp add: presence_of_def)
  have i: "ident ?h = ident h" by (simp add: ident_def fun_eq_iff)
  have "hub_inv ?h" using ok
    by (simp add: hub_okE_def hub_inv_def refs_inv_def index_inv_def room_inv_def members_def
        presence_inv_def p on_server_def media_inv_def i)
  then show ?thesis using ok by (simp add: fine_def hub_okE_def unsettled_def settled_def seated_def)
qed

lemma stop_all_tidy:
  assumes "hub_inv h"
  shows "\<exists>h'. foreach (\<lambda>h p. map_option (\<lambda>h1. closeVoiceSession env h1 (vp_ConnectionID p))
      (stopStreamForChannel env (Unregister env) h (vp_ChannelID p) reason)) h ps = Some h' \<and> tidy E F h h' \<and>
    (\<forall>p \<in> set ps. streamless h' (vp_ChannelID p))"
proof (rule foreach_tidy[where K = "h_known h" and b = "Suc (hub_size h)" and P = "\<lambda>_. True"
      and Q = "\<lambda>p h. streamless h (vp_ChannelID p)"])
  fix g p
  assume g: "hub_inv g"
  from stopStreamForChannel_tidy[where env = env and E = E and F = F, OF g]
  obtain g1 where g1: "stopStreamForChannel env (Unregister env) g (vp_ChannelID p) reason = Some g1" "tidy E F g g1"
    "streamless g1 (vp_ChannelID p)" by blast
  have "soft g1 (closeVoiceSession env g1 (vp_ConnectionID p))" by (simp add: closeVoiceSession_def)
  note t = soft_tidy[OF this tidyD(1)[OF g1(2)], of E F]
  show "\<exists>g'. map_option (\<lambda>h1. closeVoiceSession env h1 (vp_ConnectionID p))
      (stopStreamForChannel env (Unregister env) g (vp_ChannelID p) reason) = Some g' \<and> tidy E F g g' \<and>
      streamless g' (vp_ChannelID p)"
    using g1(1) tidy_trans[OF g1(2) t] streamless_tidy[OF g1(3) t] by simp
qed (use assms streamless_tidy in auto)

lemma RevokeServer_facts:
  assumes ok: "hub_ok h" and s: "s > 0"
  shows "\<exists>h'. RevokeServer env h s = Some h' \<and> fine {} {} h h' \<and>
    (\<forall>c \<in> set (h_known h). detached_from s h' c)"
proof -
  note ok0 = ok[unfolded hub_ok_def]
  note inv = okE_inv[OF ok0]
  define cs where "cs = clientsForServer h s"
  have kn: "set cs \<subseteq> set (h_known h)" using server_clients_known[OF inv] by (simp add: cs_def)
  obtain h1 failed where r: "reloadChannelAccess env h cs = (h1, failed)" by fastforce
  have l: "light h h1" by (rule reload_light[OF r]) (use kn hub_inv_refs(1)[OF inv] in blast)
  have f1: "fine {} {} h h1" by (rule light_ok[OF l ok0])
  have ok1: "hub_okE {} {} h1" using f1 by (simp add: fine_def)
  have "wf_event (mkEvent EventServerDeleted (DServerDeletedData \<lparr> sd_ServerID = s \<rparr>))"
    by (rule mkEvent_wf) (simp add: event_types)
  from broadcast_fine[OF ok1 _ this, of cs env] kn f1
  obtain h2 n where h2: "broadcastToClients (Unregister env) h1 cs (mkEvent EventServerDeleted
      (DServerDeletedData \<lparr> sd_ServerID = s \<rparr>)) = Some (h2, n)" "fine {} {} h1 h2" "tidy {} {} h1 h2"
    by (auto simp: fine_def)
  have k2: "h_known h2 = h_known h" using f1 h2(2) by (simp add: fine_def)
  have ok2: "hub_okE (UNIV \<times> {s}) {} h2"
    using h2(2) unfolding fine_def hub_okE_def seated_def by blast
  obtain h3 where h3: "foreach (evict_client env s failed) h2 cs = Some h3" "tidy (UNIV \<times> {s}) {} h2 h3"
    "\<forall>c \<in> set cs. s \<notin> set (c_servers (client h3 c)) \<and> (\<forall>ch. map_of (c_subscriptions (client h3 c)) ch \<noteq> Some s)"
    using evict_all[OF okE_inv[OF ok2], of cs env s failed "{}"] kn k2 by auto
  have ok3: "hub_okE (UNIV \<times> {s}) {} h3" by (rule tidy_ok[OF h3(2) ok2])
  have known3: "h_known h3 = h_known h" using tidyD(5)[OF h3(2)] k2 by simp
  have old: "s \<in> set (c_servers (client h c))" if "s \<in> set (c_servers (client h3 c))" for c
    using that tidy_gone(1)[OF h3(2), of c] tidy_gone(1)[OF h2(3), of c] lightD(4)[OF l, of c] by auto
  have in_cs: "c \<in> set cs" if c: "c \<in> set (h_known h)" and s: "s \<in> set (c_servers (client h c))" for c
  proof -
    have "c \<in> set (h_clients h)" using ok0 c s by (auto simp: hub_okE_def unsettled_def settled_def)
    then show ?thesis using s hub_inv_index(2)[OF inv] by (simp add: cs_def)
  qed
  have nosrv: "s \<notin> set (c_servers (client h3 c))" if "c \<in> set (h_known h)" for c
    using in_cs[OF that old] h3(3) by blast
  have nosub: "map_of (c_subscriptions (client h3 c)) ch \<noteq> Some s" for c ch
  proof
    assume a: "map_of (c_subscriptions (client h3 c)) ch = Some s"
    have b: "map_of (c_subscriptions (client h c)) ch = Some s"
      using tidy_subscriptions[OF h2(3) tidy_subscriptions[OF h3(2) a]] lightD(5)[OF l, of c] by simp
    have "c \<in> set (h_known h)" using hub_inv_rooms(2)[OF inv, of c ch] b by simp
    moreover have "s \<in> set (c_servers (client h c))" using seatedD(2)[OF okE_seated[OF ok0] b] by simp
    ultimately have "c \<in> set cs" by (rule in_cs)
    then show False using h3(3) a by blast
  qed
  define h4 where "h4 = h3\<lparr> h_presence := AList.delete s (h_presence h3) \<rparr>"
  have "on_server h3 s u = {}" for u using nosrv by (auto simp: on_server_def known3)
  then have "presence_of h3 s u = 0" for u
    using okE_inv[OF ok3] by (simp add: hub_inv_def presence_inv_def)
  from presence_absent_fine[OF ok3 this] have f4: "fine (UNIV \<times> {s}) {} h3 h4" unfolding h4_def .
  have ok4: "hub_okE (UNIV \<times> {s}) {} h4" using f4 by (simp add: fine_def)
  obtain v ps where v: "voice_removeServer (h_voice h4) s = (v, ps)" by fastforce
  note V = voice_removeServer_facts[OF okE_voice[OF ok4] v]
  let ?R = "vp_ChannelID ` set ps" and ?h5 = "h4\<lparr> h_voice := v \<rparr>"
  have cl4: "client h4 = client h3" by (simp add: h4_def)
  have "seated {} (UNIV \<times> ?R) ?h5"
  proof (rule seated_without[OF okE_seated[OF ok4] V(3)])
    fix c st p
    assume "map_of (v_byClient (h_voice h4)) c = Some p" "vp_ServerID p = s"
    then have "p \<in> set ps" using V(4) by blast
    then show "(c, vp_ChannelID p) \<in> UNIV \<times> ?R" by simp
  qed (use nosub cl4 in auto)
  then have ok5: "hub_okE {} (UNIV \<times> ?R) ?h5"
    by (rule voice_replaced_ok[OF ok4 V(1), rotated])
      (auto simp: V(3) intro: voice_known[OF ok4] split: option.splits if_splits)
  obtain h6 where h6: "foreach (\<lambda>h p. map_option (\<lambda>h1. closeVoiceSession env h1 (vp_ConnectionID p))
      (stopStreamForChannel env (Unregister env) h (vp_ChannelID p) ''server was deleted'')) ?h5 ps = Some h6"
    "tidy {} (UNIV \<times> ?R) ?h5 h6" "\<forall>p \<in> set ps. streamless h6 (vp_ChannelID p)"
    using stop_all_tidy[OF okE_inv[OF ok5]] by blast
  have ok6: "hub_okE {} (UNIV \<times> ?R) h6" by (rule tidy_ok[OF h6(2) ok5])
  have "seated {} {} h6"
  proof (rule seatedI)
    fix c st
    assume st: "map_of (t_byClient (h_streams h6)) c = Some st"
    have "as_channelID (stream_at (h_streams h6) (st_stream st)) \<notin> ?R"
      using h6(3) st unfolding streamless_def by blast
    then show "(c, as_channelID (stream_at (h_streams h6) (st_stream st))) \<in> {} \<or>
        (\<exists>p. map_of (v_byClient (h_voice h6)) c = Some p \<and>
          vp_ChannelID p = as_channelID (stream_at (h_streams h6) (st_stream st)) \<and>
          vp_ServerID p = as_serverID (stream_at (h_streams h6) (st_stream st)))"
      using seatedD(3)[OF okE_seated[OF ok6] st] by blast
  qed (use seatedD(1,2)[OF okE_seated[OF ok6]] in blast)+
  then have "hub_okE {} {} h6" using ok6 by (simp add: hub_okE_def)
  moreover have "h_known h6 = h_known h" using tidyD(5)[OF h6(2)] known3 by (simp add: h4_def)
  moreover have "c_userID (client h6 c) = c_userID (client h c)" for c
    using tidyD(3)[OF h6(2)] tidyD(3)[OF h3(2)] tidyD(3)[OF h2(3)] lightD(2)[OF l, of c]
    by (simp add: shrinks_def cid_def cl4)
  moreover have "same_conns h h6"
    using tidyD(3)[OF h6(2)] tidyD(3)[OF h3(2)] tidyD(3)[OF h2(3)] lightD(21)[OF l]
    by (simp add: same_conns_def shrinks_def cid_def h4_def)
  ultimately have "fine {} {} h h6" by (simp add: fine_def)
  moreover have "detached_from s h6 c" if c: "c \<in> set (h_known h)" for c
  proof -
    have "detached_from s ?h5 c"
      using nosrv[OF c] nosub[of c] by (auto simp: detached_from_def cl4 V(3) split: option.splits if_splits)
    then show ?thesis using h6(2) by (rule detached_tidy)
  qed
  moreover have "RevokeServer env h s = Some h6"
    using s r h2(1) h3(1) h6(1) v by (simp add: RevokeServer_def cs_def[symmetric] h4_def Let_def)
  ultimately show ?thesis by blast
qed

end
