(* ===== verification/MediaOps.thy ===== *)
theory MediaOps
  imports HubRemoval
begin

text \<open>
  The media operations of the hub (src/internal/realtime/voice_hub.go, stream_hub.go,
  voice_signals.go, stream_signals.go): joining and leaving voice, starting, watching and leaving
  streams, relaying peer-to-peer and encryption signals, and the callbacks of the media servers.

  \<open>None\<close> stands for a panic. The device validator is a function of the environment and the tick, as
  the other calls that leave the package.
\<close>

subsection \<open>Voice\<close>

definition VoiceWebRTCClosedReasonReplaced :: string where
  "VoiceWebRTCClosedReasonReplaced = ''voice session moved to another connection''"

definition VoiceWebRTCClosedReasonE2EEDevice :: string where
  "VoiceWebRTCClosedReasonE2EEDevice = ''voice e2ee device was revoked''"

text \<open>Asking the device validator; an error counts as inactive.\<close>

definition device_active :: "hub_env \<Rightarrow> hub \<Rightarrow> int \<Rightarrow> string \<Rightarrow> hub \<times> bool" where
  "device_active env h userID deviceID =
     (case e_voiceDeviceActive env of
        None \<Rightarrow> (h, True)
      | Some active \<Rightarrow>
          (h\<lparr> h_tick := h_tick h + 1 \<rparr>,
           (case active (h_tick h) userID deviceID of Inl _ \<Rightarrow> False | Inr ok \<Rightarrow> ok)))"

text \<open>The checks of \<^verbatim>\<open>JoinVoiceWithDevice\<close> before it touches the directories.\<close>

definition join_allowed :: "hub_env \<Rightarrow> hub \<Rightarrow> cref \<Rightarrow> int \<Rightarrow> int \<Rightarrow> string \<Rightarrow> hub \<times> bool" where
  "join_allowed env h c serverID channelID deviceID =
     (let (h1, active) = (if deviceID = [] then (h, True)
                          else device_active env h (c_userID (client h c)) deviceID) in
      (h1, active \<and> canAccessChannel (client h1 c) channelID \<and> serverID > 0 \<and> channelID > 0 \<and>
           hasServer (client h1 c) serverID \<and> \<not> c_done (client h1 c)))"

text \<open>What a join announces: the room that was left, the replaced connection, the new state.\<close>

definition announce_join ::
  "hub_env \<Rightarrow> unreg \<Rightarrow> hub \<Rightarrow> cref \<Rightarrow> int \<Rightarrow> voiceJoinResult \<Rightarrow> hub option" where
  "announce_join env U h c serverID result =
     do {
       h1 \<leftarrow> (case jr_previous result of
                None \<Rightarrow> Some h
              | Some previous \<Rightarrow> publishVoiceLeft U h previous c);
       h2 \<leftarrow> (let r = jr_replaced result in
              if r = nil then Some h1
              else do {
                (g, _) \<leftarrow> leaveStream env U h1 r ''voice session moved to another connection'';
                map_option fst (SendToConnection U
                  (closeVoiceSession env g (c_connectionID (client g r))) (c_connectionID (client g r))
                  (closed_event VoiceWebRTCClosedReasonReplaced))
              });
       if jr_joined result then
         map_option fst (publishToServerExcept U h2 serverID c
           (mkEvent EventVoiceParticipantJoined (DVoiceParticipantData (jr_participant result))))
       else if jr_updated result then
         map_option fst (publishToServerExcept U h2 serverID c
           (mkEvent EventVoiceStateUpdated (DVoiceParticipantData (jr_participant result))))
       else Some h2
     }"

definition JoinVoiceWithDevice ::
  "hub_env \<Rightarrow> hub \<Rightarrow> cref \<Rightarrow> int \<Rightarrow> int \<Rightarrow> bool \<Rightarrow> bool \<Rightarrow> string
    \<Rightarrow> (hub \<times> VoiceJoinedData option) option" where
  "JoinVoiceWithDevice env h0 c serverID channelID selfMute selfDeaf deviceID =
     (if c = nil then Some (h0, None)
      else case join_allowed env h0 c serverID channelID deviceID of
        (h, False) \<Rightarrow> Some (h, None)
      | (h, True) \<Rightarrow>
          do {
            h1 \<leftarrow> (case voice_current (h_voice h) c of
                     None \<Rightarrow> Some h
                   | Some current \<Rightarrow>
                       (if vp_ServerID current \<noteq> serverID \<or> vp_ChannelID current \<noteq> channelID
                        then map_option fst (leaveStream env (Unregister env) h c ''voice channel changed'')
                        else Some h));
            (voice, result) \<leftarrow> voice_join (h_voice h1) c (client h1 c) serverID channelID
                                selfMute selfDeaf deviceID;
            h2 \<leftarrow> announce_join env (Unregister env) (h1\<lparr> h_voice := voice \<rparr>) c serverID result;
            Some (h2, Some \<lparr> vj_Participant = jr_participant result,
                             vj_Participants = jr_participants result, vj_E2EERequired = False \<rparr>)
          })"

definition JoinVoice ::
  "hub_env \<Rightarrow> hub \<Rightarrow> cref \<Rightarrow> int \<Rightarrow> int \<Rightarrow> bool \<Rightarrow> bool \<Rightarrow> (hub \<times> VoiceJoinedData option) option" where
  "JoinVoice env h c serverID channelID selfMute selfDeaf =
     JoinVoiceWithDevice env h c serverID channelID selfMute selfDeaf []"

definition UpdateVoiceState ::
  "hub_env \<Rightarrow> hub \<Rightarrow> cref \<Rightarrow> bool \<Rightarrow> bool \<Rightarrow> bool list \<Rightarrow> (hub \<times> VoiceParticipantData option) option" where
  "UpdateVoiceState env h c selfMute selfDeaf selfVideo =
     (if c = nil then Some (h, None)
      else do {
        (voice, participant, changed, found) \<leftarrow> voice_update (h_voice h) c selfMute selfDeaf selfVideo;
        let h1 = h\<lparr> h_voice := voice \<rparr>;
        if \<not> found then Some (h1, None)
        else if changed then
          map_option (\<lambda>(h2, _). (h2, Some participant))
            (publishToServerExcept (Unregister env) h1 (vp_ServerID participant) c
              (mkEvent EventVoiceStateUpdated (DVoiceParticipantData participant)))
        else Some (h1, Some participant)
      })"

definition LeaveVoice :: "hub_env \<Rightarrow> hub \<Rightarrow> cref \<Rightarrow> (hub \<times> VoiceLeftData option) option" where
  "LeaveVoice env h c =
     map_option (\<lambda>(h1, p). (h1, map_option newVoiceLeftData p)) (leaveVoice env (Unregister env) h c)"

definition RelayVoiceE2EE ::
  "hub_env \<Rightarrow> hub \<Rightarrow> cref \<Rightarrow> string \<Rightarrow> E2EERelayData \<Rightarrow> (hub \<times> bool) option" where
  "RelayVoiceE2EE env h sender eventType d =
     (case voice_e2eeRecipient (h_voice h) sender (ee_ChannelID d) (ee_RecipientUserID d)
             (ee_RecipientDeviceID d) of
        None \<Rightarrow> Some (h, False)
      | Some (from, recipient) \<Rightarrow>
          send_or_drop env h recipient (mkEvent eventType (DE2EERelayData
            (d\<lparr> ee_SenderUserID := vp_UserID from, ee_SenderDeviceID := vp_E2EEDeviceID from,
                ee_SenderConnectionID := vp_ConnectionID from, ee_RecipientUserID := 0,
                ee_RecipientDeviceID := [] \<rparr>))))"

text \<open>Leaving voice and telling the connection why, the shared part of the next two operations.\<close>

definition leave_and_tell :: "hub_env \<Rightarrow> string \<Rightarrow> hub \<Rightarrow> cref \<Rightarrow> hub option" where
  "leave_and_tell env reason h c =
     do {
       (h1, participant) \<leftarrow> leaveVoice env (Unregister env) h c;
       if participant = None then Some h1
       else map_option fst (SendToConnection (Unregister env) h1 (c_connectionID (client h1 c))
              (closed_event reason))
     }"

definition ResetVoiceChannel :: "hub_env \<Rightarrow> hub \<Rightarrow> int \<Rightarrow> string \<Rightarrow> hub option" where
  "ResetVoiceChannel env h channelID reason =
     foreach (leave_and_tell env reason) h (voice_channelClients (h_voice h) channelID)"

definition RevalidateVoiceE2EE :: "hub_env \<Rightarrow> hub \<Rightarrow> int \<Rightarrow> hub option" where
  "RevalidateVoiceE2EE env h userID =
     (let c = voice_userClient (h_voice h) userID in
      if c = nil \<or> e_voiceDeviceActive env = None then Some h
      else case voice_current (h_voice h) c of
        None \<Rightarrow> Some h
      | Some current \<Rightarrow>
          (if vp_E2EEDeviceID current = [] then Some h
           else case device_active env h userID (vp_E2EEDeviceID current) of
             (h1, True) \<Rightarrow> Some h1
           | (h1, False) \<Rightarrow> leave_and_tell env VoiceWebRTCClosedReasonE2EEDevice h1 c))"

subsection \<open>Streams\<close>

text \<open>\<open>at_seat\<close>: the client takes part in voice in the channel it names.\<close>

definition at_seat :: "hub \<Rightarrow> cref \<Rightarrow> int \<Rightarrow> int \<Rightarrow> VoiceParticipantData option" where
  "at_seat h c serverID channelID =
     (case voice_current (h_voice h) c of
        None \<Rightarrow> None
      | Some p \<Rightarrow> (if vp_ServerID p \<noteq> serverID \<or> vp_ChannelID p \<noteq> channelID then None else Some p))"

definition StartStreamWithRenditions ::
  "hub_env \<Rightarrow> hub \<Rightarrow> cref \<Rightarrow> int \<Rightarrow> int \<Rightarrow> string \<Rightarrow> string \<Rightarrow> bool \<Rightarrow> StreamRenditionData list
    \<Rightarrow> (hub \<times> (stream_error + StreamData)) option" where
  "StartStreamWithRenditions env h c serverID channelID mode codec hasAudio renditions =
     (if c = nil then Some (h, Inl ErrStreamUnavailable)
      else if \<not> canAccessChannel (client h c) channelID then Some (h, Inl ErrStreamVoiceRequired)
      else if (mode \<noteq> StreamModeServer \<and> mode \<noteq> StreamModeP2P) \<or> \<not> validStreamCodec codec
        then Some (h, Inl ErrStreamUnavailable)
      else case at_seat h c serverID channelID of
        None \<Rightarrow> Some (h, Inl ErrStreamVoiceRequired)
      | Some participant \<Rightarrow>
          (case normalizeStreamRenditions codec renditions of
             None \<Rightarrow> Some (h, Inl ErrStreamRenditionsInvalid)
           | Some normalized \<Rightarrow>
               (if mode = StreamModeP2P \<and> \<not> onlySDRStreamRenditions normalized
                then Some (h, Inl ErrStreamRenditionsInvalid)
                else case stream_start (client h) (h_streams h) c participant mode codec hasAudio
                       normalized (e_now env (h_tick h)) of
                  (streams, Inl err) \<Rightarrow> Some (h\<lparr> h_streams := streams \<rparr>, Inl err)
                | (streams, Inr d) \<Rightarrow>
                    (let h1 = h\<lparr> h_streams := streams, h_tick := h_tick h + 1 \<rparr> in
                     if at_seat h1 c serverID channelID = None
                     then Some (h1\<lparr> h_streams := fst (stream_leave (h_streams h1) c) \<rparr>,
                                Inl ErrStreamVoiceRequired)
                     else map_option (\<lambda>(h2, _). (h2, Inr d))
                       (publishToServerExcept (Unregister env) h1 serverID c
                         (mkEvent EventStreamStarted (DStreamData d)))))))"

definition StartStream ::
  "hub_env \<Rightarrow> hub \<Rightarrow> cref \<Rightarrow> int \<Rightarrow> int \<Rightarrow> string \<Rightarrow> string \<Rightarrow> bool
    \<Rightarrow> (hub \<times> (stream_error + StreamData)) option" where
  "StartStream env h c serverID channelID mode codec hasAudio =
     StartStreamWithRenditions env h c serverID channelID mode codec hasAudio []"

definition announce_watch ::
  "hub_env \<Rightarrow> hub \<Rightarrow> cref \<Rightarrow> int \<Rightarrow> StreamData \<Rightarrow> cref \<Rightarrow> string
    \<Rightarrow> (hub \<times> (stream_error + StreamWatchingData)) option" where
  "announce_watch env h c serverID d publisher selected =
     do {
       (h1, ok) \<leftarrow> (if sa_Mode d = StreamModeP2P
                    then send_or_drop env h publisher (mkEvent EventStreamViewerJoined (DStreamViewerData
                      \<lparr> sv_ConnectionID = c_connectionID (client h c), sv_UserID = c_userID (client h c) \<rparr>))
                    else Some (h, True));
       if \<not> ok then Some (h1, Inl ErrStreamUnavailable)
       else map_option (\<lambda>(h2, _). (h2, Inr
           \<lparr> sw_Stream = d, sw_ViewerConnectionID = c_connectionID (client h2 c),
             sw_SelectedRenditionID = selected \<rparr>))
         (PublishToServer (Unregister env) h1 serverID (mkEvent EventStreamUpdated (DStreamData d)))
     }"

definition WatchStreamWithCapabilities ::
  "hub_env \<Rightarrow> hub \<Rightarrow> cref \<Rightarrow> int \<Rightarrow> int \<Rightarrow> string list \<Rightarrow> StreamCodecProfileData list \<Rightarrow> string list
    \<Rightarrow> (hub \<times> (stream_error + StreamWatchingData)) option" where
  "WatchStreamWithCapabilities env h c serverID channelID ranges profiles publisherConnectionIDs =
     (if length publisherConnectionIDs > 1 then Some (h, Inl ErrStreamUnavailable)
      else let publisherConnectionID = (case publisherConnectionIDs of [] \<Rightarrow> [] | p # _ \<Rightarrow> p) in
      if length publisherConnectionID > 128 then Some (h, Inl ErrStreamUnavailable)
      else if c = nil then Some (h, Inl ErrStreamUnavailable)
      else if \<not> canAccessChannel (client h c) channelID then Some (h, Inl ErrStreamVoiceRequired)
      else case at_seat h c serverID channelID of
        None \<Rightarrow> Some (h, Inl ErrStreamVoiceRequired)
      | Some participant \<Rightarrow>
          (case stream_watch (client h) (h_streams h) c participant (h_maxStreamViewers h)
                  (h_maxP2PStreamViewers h) ranges profiles publisherConnectionID of
             (streams, Inl err) \<Rightarrow> Some (h\<lparr> h_streams := streams \<rparr>, Inl err)
           | (streams, Inr (d, publisher, selected)) \<Rightarrow>
               (let h1 = h\<lparr> h_streams := streams \<rparr> in
                if at_seat h1 c serverID channelID = None
                then Some (h1\<lparr> h_streams := fst (stream_leave (h_streams h1) c) \<rparr>,
                           Inl ErrStreamVoiceRequired)
                else announce_watch env h1 c serverID d publisher selected)))"

definition WatchStream ::
  "hub_env \<Rightarrow> hub \<Rightarrow> cref \<Rightarrow> int \<Rightarrow> int \<Rightarrow> (hub \<times> (stream_error + StreamWatchingData)) option" where
  "WatchStream env h c serverID channelID = WatchStreamWithCapabilities env h c serverID channelID [] [] []"

definition LeaveStream ::
  "hub_env \<Rightarrow> hub \<Rightarrow> cref \<Rightarrow> string \<Rightarrow> (hub \<times> StreamStoppedData option \<times> bool) option" where
  "LeaveStream env h c reason =
     map_option (\<lambda>(h1, r, publisher, found).
       if \<not> found then (h1, None, False)
       else let value = stream_at (h_streams h1) r in
         (h1, Some \<lparr> ss_PublisherConnectionID = c_connectionID (client h1 (as_publisher value)),
                     ss_ServerID = as_serverID value, ss_ChannelID = as_channelID value,
                     ss_Reason = reason \<rparr>, publisher))
       (leaveStream env (Unregister env) h c reason)"

subsection \<open>Peer-to-peer signals and recovery\<close>

definition RelayStreamP2PSession ::
  "hub_env \<Rightarrow> hub \<Rightarrow> cref \<Rightarrow> string \<Rightarrow> string \<Rightarrow> string \<Rightarrow> (hub \<times> stream_error option) option" where
  "RelayStreamP2PSession env h c targetConnectionID sdp typeOfEvent =
     (let (target, senderIsPublisher, ok) =
            stream_relationship (client h) (h_streams h) c targetConnectionID in
      if \<not> ok \<or> (typeOfEvent = EventStreamP2POffer \<and> \<not> senderIsPublisher) \<or>
         (typeOfEvent = EventStreamP2PAnswer \<and> senderIsPublisher)
      then Some (h, Some ErrStreamP2PRelation)
      else map_option (\<lambda>(h1, sent). (h1, if sent then None else Some ErrStreamUnavailable))
        (send_or_drop env h target (mkEvent typeOfEvent (DStreamP2PSessionData
          \<lparr> p2_TargetConnectionID = [], p2_FromConnectionID = c_connectionID (client h c),
            p2_SDP = sdp \<rparr>))))"

definition RelayStreamP2PICECandidate ::
  "hub_env \<Rightarrow> hub \<Rightarrow> cref \<Rightarrow> StreamP2PICECandidateData \<Rightarrow> (hub \<times> stream_error option) option" where
  "RelayStreamP2PICECandidate env h c d =
     (let (target, _, ok) =
            stream_relationship (client h) (h_streams h) c (pi_TargetConnectionID d) in
      if \<not> ok then Some (h, Some ErrStreamP2PRelation)
      else map_option (\<lambda>(h1, sent). (h1, if sent then None else Some ErrStreamUnavailable))
        (send_or_drop env h target (mkEvent EventStreamP2PICECandidate (DStreamP2PICECandidateData
          (d\<lparr> pi_FromConnectionID := c_connectionID (client h c), pi_TargetConnectionID := [] \<rparr>)))))"

definition RequestStreamP2PRestart ::
  "hub_env \<Rightarrow> hub \<Rightarrow> cref \<Rightarrow> string \<Rightarrow> (hub \<times> stream_error option) option" where
  "RequestStreamP2PRestart env h c targetConnectionID =
     (let (target, senderIsPublisher, ok) =
            stream_relationship (client h) (h_streams h) c targetConnectionID in
      if \<not> ok \<or> senderIsPublisher then Some (h, Some ErrStreamP2PRelation)
      else map_option (\<lambda>(h1, sent). (h1, if sent then None else Some ErrStreamUnavailable))
        (send_or_drop env h target (mkEvent EventStreamP2PRestart (DStreamViewerData
          \<lparr> sv_ConnectionID = c_connectionID (client h c), sv_UserID = c_userID (client h c) \<rparr>))))"

definition ValidStreamRecoveryAction :: "string \<Rightarrow> bool" where
  "ValidStreamRecoveryAction action \<longleftrightarrow> action = ''keyframe'' \<or> action = ''ice_restart''"

definition RequestStreamRecovery ::
  "hub \<Rightarrow> cref \<Rightarrow> int \<Rightarrow> int \<Rightarrow> string \<Rightarrow> stream_error option" where
  "RequestStreamRecovery h c serverID channelID action =
     (if c = nil \<or> \<not> ValidStreamRecoveryAction action then Some ErrStreamUnavailable
      else if stream_recoveryViewer (h_streams h) c serverID channelID = None
        then Some ErrStreamP2PRelation
      else None)"

subsection \<open>Callbacks of the media servers\<close>

definition CloseVoice :: "hub_env \<Rightarrow> hub \<Rightarrow> string \<Rightarrow> string \<Rightarrow> hub option" where
  "CloseVoice env h connectionID reason =
     (let c = clientByConnectionID h connectionID in
      if c = nil then Some h
      else do {
        (h1, _) \<leftarrow> LeaveVoice env h c;
        map_option fst (SendToConnection (Unregister env) h1 connectionID (closed_event reason))
      })"

definition CloseStream :: "hub_env \<Rightarrow> hub \<Rightarrow> string \<Rightarrow> string \<Rightarrow> hub option" where
  "CloseStream env h connectionID reason =
     (let c = clientByConnectionID h connectionID in
      if c = nil then Some h
      else do {
        (h1, _) \<leftarrow> LeaveStream env h c reason;
        map_option fst (SendToConnection (Unregister env) h1 connectionID
          (mkEvent EventStreamWebRTCClosed (DStreamWebRTCClosedData \<lparr> sz_Reason = reason \<rparr>)))
      })"

text \<open>\<^verbatim>\<open>SessionFailureHandler\<close> returns a closure. \<open>*_failure_handler\<close> is what it captures and
  \<open>*_failure\<close> the closure applied in a later state.\<close>

definition voice_failure_handler :: "hub \<Rightarrow> string \<Rightarrow> cref \<times> VoiceParticipantData option" where
  "voice_failure_handler h connectionID =
     (let c = clientByConnectionID h connectionID in
      (c, if c = nil then None else voice_current (h_voice h) c))"

definition voice_failure ::
  "hub_env \<Rightarrow> cref \<times> VoiceParticipantData option \<Rightarrow> string \<Rightarrow> hub \<Rightarrow> string \<Rightarrow> hub option" where
  "voice_failure env captured connectionID h reason =
     (case captured of (c, participant) \<Rightarrow>
       (if c = nil then Some h
        else case (voice_current (h_voice h) c, participant) of
          (Some current, Some p) \<Rightarrow>
            (if vp_generation current \<noteq> vp_generation p then Some h
             else CloseVoice env h connectionID reason)
        | _ \<Rightarrow> Some h))"

definition stream_failure_handler :: "hub \<Rightarrow> string \<Rightarrow> cref \<times> streamClientState option" where
  "stream_failure_handler h connectionID =
     (let c = clientByConnectionID h connectionID in
      (c, if c = nil then None else map_of (t_byClient (h_streams h)) c))"

definition stream_failure ::
  "hub_env \<Rightarrow> cref \<times> streamClientState option \<Rightarrow> string \<Rightarrow> hub \<Rightarrow> string \<Rightarrow> hub option" where
  "stream_failure env captured connectionID h reason =
     (case captured of (c, state) \<Rightarrow>
       (if c = nil then Some h
        else case (map_of (t_byClient (h_streams h)) c, state) of
          (Some current, Some st) \<Rightarrow>
            (if st_generation current \<noteq> st_generation st then Some h
             else CloseStream env h connectionID reason)
        | _ \<Rightarrow> Some h))"

record ICECandidate =
  ic_Candidate :: string
  ic_SDPMid :: "string option"
  ic_SDPMLineIndex :: "16 word option"
  ic_UsernameFragment :: "string option"

definition voice_SendOffer :: "hub_env \<Rightarrow> hub \<Rightarrow> string \<Rightarrow> string \<Rightarrow> (hub \<times> bool) option" where
  "voice_SendOffer env h connectionID sdp =
     SendToConnection (Unregister env) h connectionID
       (mkEvent EventVoiceWebRTCOffer (DVoiceWebRTCOfferData \<lparr> vo_SDP = sdp \<rparr>))"

definition voice_SendICECandidate :: "hub_env \<Rightarrow> hub \<Rightarrow> string \<Rightarrow> ICECandidate \<Rightarrow> (hub \<times> bool) option" where
  "voice_SendICECandidate env h connectionID candidate =
     SendToConnection (Unregister env) h connectionID
       (mkEvent EventVoiceICECandidate (DVoiceICECandidateData
         \<lparr> vi_Candidate = ic_Candidate candidate, vi_SDPMid = ic_SDPMid candidate,
           vi_SDPMLineIndex = ic_SDPMLineIndex candidate,
           vi_UsernameFragment = ic_UsernameFragment candidate \<rparr>))"

definition stream_SendOffer :: "hub_env \<Rightarrow> hub \<Rightarrow> string \<Rightarrow> string \<Rightarrow> (hub \<times> bool) option" where
  "stream_SendOffer env h connectionID sdp =
     SendToConnection (Unregister env) h connectionID
       (mkEvent EventStreamWebRTCOffer (DStreamWebRTCOfferData \<lparr> so_SDP = sdp \<rparr>))"

definition stream_SendICECandidate :: "hub_env \<Rightarrow> hub \<Rightarrow> string \<Rightarrow> ICECandidate \<Rightarrow> (hub \<times> bool) option" where
  "stream_SendICECandidate env h connectionID candidate =
     SendToConnection (Unregister env) h connectionID
       (mkEvent EventStreamICECandidate (DStreamICECandidateData
         \<lparr> si_Candidate = ic_Candidate candidate, si_SDPMid = ic_SDPMid candidate,
           si_SDPMLineIndex = ic_SDPMLineIndex candidate,
           si_UsernameFragment = ic_UsernameFragment candidate \<rparr>))"

end
