(* ===== verification/HubKeep.thy ===== *)
theory HubKeep
  imports MediaOps
begin

text \<open>
  Sending never changes the server and voice memberships of the connections that stay registered:
  the only memberships that broadcasts take away are those of connections they unregister. The lemmas need
  no invariant; they hold of whatever the operations return.
\<close>

definition keeps :: "hub \<Rightarrow> hub \<Rightarrow> bool" where
  "keeps h h' \<longleftrightarrow> set (h_clients h') \<subseteq> set (h_clients h) \<and>
     (\<forall>c \<in> set (h_clients h'). c_servers (client h' c) = c_servers (client h c) \<and>
        map_of (v_byClient (h_voice h')) c = map_of (v_byClient (h_voice h)) c)"

lemma keeps_refl [simp]: "keeps h h"
  by (simp add: keeps_def)

lemma keeps_trans: "keeps a b \<Longrightarrow> keeps b c \<Longrightarrow> keeps a c"
  by (fastforce simp: keeps_def)

lemma foreach_keeps:
  assumes "\<And>h x h'. f h x = Some h' \<Longrightarrow> keeps h h'" "foreach f h xs = Some h'"
  shows "keeps h h'"
  by (rule foreach_inv[OF assms(2), where P = "keeps h"]) (use assms(1) keeps_trans in auto)

subsection \<open>One queue\<close>

lemma compact_servers: "c_servers (fst (compactChannel c ch)) = c_servers c"
  by (simp add: compactChannel_def Let_def split: prod.splits)

lemma compact_loop_servers: "c_servers (fst (compact_loop ch is c)) = c_servers c"
proof (induction "is" arbitrary: c)
  case (Cons i "is")
  have "c_servers c1 = c_servers c" if "compactChannel c k = (c1, b)" for c1 b k
    using compact_servers[of c k] that by simp
  then show ?case by (auto simp: Cons.IH Let_def split: prod.splits)
qed simp

lemma enqueue_full_servers: "c_servers (fst (enqueue_full c e)) = c_servers c"
proof -
  have ev: "c_servers (evict_transient c) = c_servers c" for c
    by (simp add: evict_transient_def split: option.splits)
  show ?thesis
    using compact_loop_servers[of _ _ "evict_transient c"] compact_loop_servers[of _ _ c] ev
    by (auto simp: enqueue_full_def Let_def split: prod.splits) (metis fst_conv)+
qed

lemma replace_queued_servers: "replace_queued c i e = Some (c', b) \<Longrightarrow> c_servers c' = c_servers c"
  by (auto simp: replace_queued_def coalesced_def Let_def split: event_data.splits if_splits)

lemma enqueueLocked_servers: "enqueueLocked c e = Some (c', b) \<Longrightarrow> c_servers c' = c_servers c"
  using enqueue_full_servers[of c e] replace_queued_servers[of c _ e c' b]
  by (auto simp: enqueueLocked_def Let_def coalesced_def split: if_splits option.splits bool.splits)

lemma filterLegacy_servers: "filterLegacyStreamEvent c e = (c', e', b) \<Longrightarrow> c_servers c' = c_servers c"
  by (auto simp: filterLegacyStreamEvent_def Let_def split: if_splits event_data.splits prod.splits)

lemma enqueue_servers:
  assumes "enqueue c e = Some (c', b)"
  shows "c_servers c' = c_servers c"
proof (cases "c_done c")
  case True
  then show ?thesis using assms by (simp add: enqueue_def)
next
  case False
  obtain e1 a1 where f: "filterChannelEvent c e = (e1, a1)" by fastforce
  obtain c1 e2 a where g: "(if a1 then filterLegacyStreamEvent c e1 else (c, e1, False)) = (c1, e2, a)"
    by (metis prod_cases3)
  have c1: "c_servers c1 = c_servers c" using g filterLegacy_servers by (auto split: if_splits)
  show ?thesis
    using assms False f g c1 enqueueLocked_servers[of c1 e2]
    by (auto simp: enqueue_def Let_def notifyOutgoing_def split: if_splits option.splits)
qed

lemma hub_enqueue_keeps: "hub_enqueue h c e = Some (h', ok) \<Longrightarrow> keeps h h'"
  using enqueue_servers
  by (auto simp: hub_enqueue_def keeps_def client_set_client split: option.splits)

lemma send_all_keeps: "send_all e h cs = Some (h', n, failed) \<Longrightarrow> keeps h h'"
proof (induction cs arbitrary: h h' n failed)
  case (Cons c cs)
  then obtain h1 ok h2 n2 f2 where "hub_enqueue h c e = Some (h1, ok)" "send_all e h1 cs = Some (h2, n2, f2)" "h' = h2"
    by (auto split: option.splits if_splits)
  then show ?case using Cons.IH hub_enqueue_keeps keeps_trans by blast
qed simp

lemma shareEncoding_keeps: "shareEncoding h e = (h', e') \<Longrightarrow> keeps h h'"
  by (auto simp: shareEncoding_def keeps_def split: if_splits)

subsection \<open>The operations below \<open>Unregister\<close>\<close>

locale unreg_keeps =
  fixes U :: unreg
  assumes U_keeps: "U h c = Some h' \<Longrightarrow> keeps h h'"
begin

lemma foreach_U_keeps: "foreach U h cs = Some h' \<Longrightarrow> keeps h h'"
  by (rule foreach_keeps[of U]) (rule U_keeps)

lemma broadcastToClients_keeps: "broadcastToClients U h cs e = Some (h', n) \<Longrightarrow> keeps h h'"
  by (auto simp: broadcastToClients_def split: prod.splits option.splits
      dest!: shareEncoding_keeps send_all_keeps foreach_U_keeps intro: keeps_trans)

lemma PublishToServer_keeps: "PublishToServer U h s e = Some (h', n) \<Longrightarrow> keeps h h'"
  by (auto simp: PublishToServer_def split: if_splits intro: broadcastToClients_keeps)

lemma publishToServerExcept_keeps: "publishToServerExcept U h s x e = Some (h', n) \<Longrightarrow> keeps h h'"
  by (auto simp: publishToServerExcept_def intro: broadcastToClients_keeps)

lemma publishVoiceLeft_keeps: "publishVoiceLeft U h p c = Some h' \<Longrightarrow> keeps h h'"
  by (auto simp: publishVoiceLeft_def intro: publishToServerExcept_keeps)

lemma SendToConnection_keeps: "SendToConnection U h k e = Some (h', ok) \<Longrightarrow> keeps h h'"
  by (auto simp: SendToConnection_def Let_def split: if_splits option.splits bool.splits
      dest!: hub_enqueue_keeps U_keeps intro: keeps_trans)

lemma announce_keeps: "announceLegacyStreamReplacement U h s ch = Some h' \<Longrightarrow> keeps h h'"
  by (auto simp: announceLegacyStreamReplacement_def split: option.splits if_splits
      elim!: foreach_keeps[rotated] intro: SendToConnection_keeps)

lemma leaveStream_keeps:
  assumes "leaveStream env U h c reason = Some (h', r)"
  shows "keeps h h'"
proof -
  have k: "keeps h (closeStreamSession env (h\<lparr> h_streams := st \<rparr>) k)" for st k
    by (simp add: keeps_def closeStreamSession_def)
  show ?thesis
    using assms unfolding leaveStream_def Let_def
    by (auto split: prod.splits if_splits option.splits dest!: PublishToServer_keeps announce_keeps
        hub_enqueue_keeps U_keeps intro: keeps_trans k)
qed

lemma leaveVoice_keeps:
  assumes "leaveVoice env U h c = Some (h', q)" "c \<notin> set (h_clients h)"
  shows "keeps h h'"
proof (cases "c = nil")
  case True
  then show ?thesis using assms(1) by (simp add: leaveVoice_def)
next
  case False
  then obtain h1 r where l: "leaveStream env U h c ''left voice channel'' = Some (h1, r)"
    using assms(1) by (auto simp: leaveVoice_def split: option.splits)
  note k1 = leaveStream_keeps[OF l]
  have n: "c \<notin> set (h_clients h1)" using k1 assms(2) by (auto simp: keeps_def)
  obtain v p where v: "voice_leave (h_voice h1) c = (v, p)" by fastforce
  have kv: "keeps h1 (h1\<lparr> h_voice := v \<rparr>)"
    using v n by (auto simp: keeps_def voice_leave_def voice_removeLocked_def delete_conv' Let_def split: option.splits)
  show ?thesis
  proof (cases p)
    case None
    then show ?thesis using False assms(1) l v k1 by (simp add: leaveVoice_def)
  next
    case (Some p')
    then obtain h2 where h2: "publishVoiceLeft U (h1\<lparr> h_voice := v \<rparr>) p' c = Some h2"
      "h' = closeVoiceSession env h2 (vp_ConnectionID p')"
      using False assms(1) l v by (auto simp: leaveVoice_def split: option.splits)
    have "keeps h2 h'" by (simp add: h2(2) keeps_def closeVoiceSession_def)
    from keeps_trans[OF keeps_trans[OF k1 kv] keeps_trans[OF publishVoiceLeft_keeps[OF h2(1)] this]]
    show ?thesis .
  qed
qed

lemma broadcastPresence_keeps:
  assumes "broadcastPresence env U h s u st = Some h'"
  shows "keeps h h'"
proof -
  have k: "keeps h (save_last_seen env (h\<lparr> h_tick := n \<rparr>) u x)" for n x
    by (simp add: keeps_def save_last_seen_def)
  show ?thesis
    using assms unfolding broadcastPresence_def now_of_def
    by (auto simp: Let_def split: if_splits option.splits dest!: send_all_keeps foreach_U_keeps
        intro: keeps_trans k)
qed

lemma removeClientServer_keeps:
  assumes "removeClientServer env U h c s announce = Some h'" "c \<notin> set (h_clients h)"
  shows "keeps h h'"
proof -
  define h1 where "h1 = unindexServerLocked (set_client h c (fst (removeServer (client h c) s))) s c"
  obtain h2 off where d: "decrementPresence h1 s (c_userID (fst (removeServer (client h c) s))) = (h2, off)"
    by fastforce
  have "keeps h h1" using assms(2)
    by (auto simp: h1_def unindexServerLocked_def keeps_def client_set_client)
  moreover have "keeps h1 h2"
    using d by (auto simp: decrementPresence_def Let_def keeps_def split: option.splits if_splits)
  ultimately have k: "keeps h h2" by (rule keeps_trans)
  obtain x r where x: "removeServer (client h c) s = (x, r)" by fastforce
  have "h' = h \<or> h' = h2 \<or> broadcastPresence env U h2 s (c_userID x) PresenceOffline = Some h'"
    using assms(1) d x by (auto simp: removeClientServer_def h1_def Let_def split: if_splits)
  then show ?thesis using k keeps_trans[OF k broadcastPresence_keeps] by auto
qed

lemma unregisterPresence_keeps:
  assumes "unregisterPresence env U h c = Some h'" "c \<notin> set (h_clients h)"
  shows "keeps h h'"
proof -
  obtain h1 where f: "foreach (\<lambda>h s. removeClientServer env U h c s True) h (c_servers (client h c)) = Some h1"
    and h': "h_clients h' = h_clients h1" "client h' = client h1" "h_voice h' = h_voice h1"
    using assms(1) by (cases "foreach (\<lambda>h s. removeClientServer env U h c s True) h (c_servers (client h c))")
      (auto simp: unregisterPresence_def Let_def)
  have "keeps h h1 \<and> c \<notin> set (h_clients h1)"
  proof (rule foreach_inv[OF f, where P = "\<lambda>g. keeps h g \<and> c \<notin> set (h_clients g)"])
    fix g s g'
    assume a: "keeps h g \<and> c \<notin> set (h_clients g)" "removeClientServer env U g c s True = Some g'"
    then have k: "keeps g g'" using removeClientServer_keeps by simp
    have "set (h_clients g') \<subseteq> set (h_clients g)" using k by (simp add: keeps_def)
    moreover have "keeps h g'" using keeps_trans[OF _ k] a(1) by simp
    ultimately show "keeps h g' \<and> c \<notin> set (h_clients g')" using a(1) by blast
  qed (simp add: assms(2))
  then show ?thesis using h' by (simp add: keeps_def)
qed

lemma Unregister_body_keeps:
  assumes "Unregister_body env U h c = Some h'"
  shows "keeps h h'"
proof (cases "c = nil")
  case True
  then show ?thesis using assms by (simp add: Unregister_body_def)
next
  case False
  then obtain h1 q where l: "leaveVoice env U (detach h c) c = Some (h1, q)"
    and p: "unregisterPresence env U (fold (\<lambda>ch h. fst (Unsubscribe h c ch)) (subscriptionIDs (client h1 c)) h1) c = Some h'"
    using assms by (auto simp: Unregister_body_def split: option.splits)
  define g where "g = fold (\<lambda>ch h. fst (Unsubscribe h c ch)) (subscriptionIDs (client h1 c)) h1"
  have f: "h_clients (fold (\<lambda>s h. unindexServerLocked h s c) ss g0) = h_clients g0"
    "client (fold (\<lambda>s h. unindexServerLocked h s c) ss g0) = client g0"
    "h_voice (fold (\<lambda>s h. unindexServerLocked h s c) ss g0) = h_voice g0" for ss g0
    by (induction ss arbitrary: g0) (simp_all add: unindexServerLocked_def)
  have d: "h_clients (detach h c) = removeAll c (h_clients h)"
    "client (detach h c) = client (set_client h c (CloseClient (client h c)))"
    "h_voice (detach h c) = h_voice h"
    by (simp_all add: detach_def Let_def f)
  have kd: "keeps h (detach h c)" by (auto simp: keeps_def d client_set_client)
  have k1: "keeps (detach h c) h1" by (rule leaveVoice_keeps[OF l]) (simp add: d)
  have un: "keeps g0 (fst (Unsubscribe g0 c ch))" for g0 ch
    by (auto simp: keeps_def Unsubscribe_def Let_def client_set_client removeSubscription_def
        split: option.splits prod.splits)
  have k2: "keeps h1 g" unfolding g_def by (rule fold_inv) (use un keeps_trans in auto)
  have "c \<notin> set (h_clients g)" using k1 k2 d(1) by (auto simp: keeps_def)
  then have "keeps g h'" using unregisterPresence_keeps p by (simp add: g_def)
  then show ?thesis using keeps_trans kd k1 k2 by blast
qed

end

lemma unreg_keeps_fuel: "unreg_keeps (Unregister_fuel n env)"
proof (induction n)
  case 0
  show ?case by unfold_locales simp
next
  case (Suc n)
  show ?case by unfold_locales (use unreg_keeps.Unregister_body_keeps[OF Suc] in simp)
qed

interpretation keeping_fuel: unreg_keeps "Unregister_fuel n env" for n env
  by (rule unreg_keeps_fuel)

interpretation keeping: unreg_keeps "Unregister env" for env
  by unfold_locales (simp add: Unregister_def keeping_fuel.U_keeps del: Unregister_fuel.simps)

end
