(* ===== verification/HubMedia.thy ===== *)
theory HubMedia
  imports HubKeep
begin

text \<open>
  The media operations return and keep the hub in order. The delicate one is
  \<^verbatim>\<open>JoinVoiceWithDevice\<close>: leaving the previous stream broadcasts, so the joining connection may
  itself be unregistered before it enters voice, and a connection that is replaced stays in its
  stream until the announcement removes it.
\<close>

subsection \<open>Leaving\<close>

lemma leaveVoice_fine:
  assumes ok: "hub_okE E F h" and c: "c \<noteq> nil"
  shows "\<exists>h' q. leaveVoice env (Unregister env) h c = Some (h', q) \<and> fine E F h h' \<and>
    map_of (v_byClient (h_voice h')) c = None \<and> map_of (t_byClient (h_streams h')) c = None"
  using un.leaveVoice_tidy[where env = env and E = E and F = F, OF okE_inv[OF ok] order_refl c]
    tidy_fine[OF _ ok] by blast

lemma leaveStream_fine:
  assumes ok: "hub_okE E F h"
  shows "\<exists>h' r p f. leaveStream env (Unregister env) h c reason = Some (h', r, p, f) \<and> fine E F h h' \<and>
    map_of (t_byClient (h_streams h')) c = None"
  using un.leaveStream_tidy[where env = env and E = E and F = F, OF okE_inv[OF ok] order_refl]
    tidy_fine[OF _ ok] by blast

lemma LeaveVoice_fine:
  assumes ok: "hub_okE E F h"
  shows "\<exists>h' q. LeaveVoice env h c = Some (h', q) \<and> fine E F h h' \<and>
    (c \<noteq> nil \<longrightarrow> map_of (v_byClient (h_voice h')) c = None)"
proof (cases "c = nil")
  case True
  then show ?thesis using fine_refl[OF ok] by (simp add: LeaveVoice_def leaveVoice_def)
next
  case False
  from leaveVoice_fine[OF ok this, of env] show ?thesis by (auto simp: LeaveVoice_def)
qed

lemma LeaveStream_fine:
  assumes ok: "hub_okE E F h"
  shows "\<exists>h' d b. LeaveStream env h c reason = Some (h', d, b) \<and> fine E F h h' \<and>
    map_of (t_byClient (h_streams h')) c = None"
proof -
  obtain h' r p f where l: "leaveStream env (Unregister env) h c reason = Some (h', r, p, f)" "fine E F h h'"
    "map_of (t_byClient (h_streams h')) c = None" using leaveStream_fine[OF ok] by blast
  then have "\<exists>d b. LeaveStream env h c reason = Some (h', d, b)" by (cases f) (auto simp: LeaveStream_def Let_def intro: exI[of _ False])
  then show ?thesis using l(2,3) by blast
qed

lemma SendToConnection_after:
  assumes f: "fine E F h h1" and e: "wf_event e"
  shows "\<exists>h'. map_option fst (SendToConnection (Unregister env) h1 k e) = Some h' \<and> fine E F h h'"
proof -
  have "hub_okE E F h1" using f by (simp add: fine_def)
  from Publish_fine(7)[OF this e, of env k] fine_trans[OF f] show ?thesis by fastforce
qed

lemma stream_closed_wf: "wf_event (mkEvent EventStreamWebRTCClosed d)"
  by (rule mkEvent_wf) (simp add: event_types)

lemma leave_and_tell_fine:
  assumes ok: "hub_okE E F h" and c: "c \<noteq> nil"
  shows "\<exists>h'. leave_and_tell env reason h c = Some h' \<and> fine E F h h'"
proof -
  obtain h1 q where h1: "leaveVoice env (Unregister env) h c = Some (h1, q)" "fine E F h h1"
    using leaveVoice_fine[OF assms] by blast
  from SendToConnection_after[OF h1(2) closed_event_wf, of env "c_connectionID (client h1 c)" reason]
  show ?thesis using h1 by (auto simp: leave_and_tell_def)
qed

lemma voice_members_known: "hub_okE E F h \<Longrightarrow> set (voice_channelClients (h_voice h) ch) \<subseteq> set (h_known h)"
proof
  fix c
  assume ok: "hub_okE E F h" and c: "c \<in> set (voice_channelClients (h_voice h) ch)"
  note vi = okE_voice[OF ok]
  obtain p where "map_of (voice_room (h_voice h) ch) c = Some p"
    using c by (force simp: voice_channelClients_def voice_room_def dest: map_of_eq_None_iff[THEN iffD1])
  then have "map_of (v_byClient (h_voice h)) c = Some p" using vi by (simp add: voice_inv_def)
  then show "c \<in> set (h_known h)" by (rule voice_known[OF ok])
qed

lemma known_not_nil: "hub_okE E F h \<Longrightarrow> c \<in> set (h_known h) \<Longrightarrow> c \<noteq> nil"
  using hub_inv_refs(5)[OF okE_inv] by metis

lemma ResetVoiceChannel_fine:
  assumes ok: "hub_okE E F h"
  shows "\<exists>h'. ResetVoiceChannel env h ch reason = Some h' \<and> fine E F h h'"
  unfolding ResetVoiceChannel_def
  by (rule foreach_clients_fine[OF _ ok voice_members_known[OF ok]])
    (use leave_and_tell_fine known_not_nil in blast)

lemma device_active_fine: "hub_okE E F h \<Longrightarrow> device_active env h u d = (h', b) \<Longrightarrow> fine E F h h'"
  using light_ok[OF light_closed(2)] fine_refl by (auto simp: device_active_def split: option.splits)

lemma RevalidateVoiceE2EE_fine:
  assumes ok: "hub_okE E F h"
  shows "\<exists>h'. RevalidateVoiceE2EE env h u = Some h' \<and> fine E F h h'"
proof -
  let ?c = "voice_userClient (h_voice h) u"
  have step: "\<exists>h'. (case device_active env h u d of (h1, True) \<Rightarrow> Some h1
      | (h1, False) \<Rightarrow> leave_and_tell env VoiceWebRTCClosedReasonE2EEDevice h1 ?c) = Some h' \<and> fine E F h h'"
    if "?c \<noteq> nil" for d
  proof -
    obtain h1 b where d: "device_active env h u d = (h1, b)" by fastforce
    note f = device_active_fine[OF ok d]
    then have "hub_okE E F h1" by (simp add: fine_def)
    from leave_and_tell_fine[OF this that, of env VoiceWebRTCClosedReasonE2EEDevice] d f fine_trans[OF f]
    show ?thesis by (cases b) auto
  qed
  show ?thesis
    using step fine_refl[OF ok] by (auto simp: RevalidateVoiceE2EE_def Let_def split: option.splits)
qed

lemma close_fine:
  assumes ok: "hub_okE E F h"
  shows "\<exists>h'. CloseVoice env h k reason = Some h' \<and> fine E F h h'"
    "\<exists>h'. CloseStream env h k reason = Some h' \<and> fine E F h h'"
proof -
  obtain h1 q where h1: "LeaveVoice env h (clientByConnectionID h k) = Some (h1, q)" "fine E F h h1"
    using LeaveVoice_fine[OF ok] by blast
  from SendToConnection_after[OF h1(2) closed_event_wf, of env k reason]
  show "\<exists>h'. CloseVoice env h k reason = Some h' \<and> fine E F h h'"
    using h1(1) fine_refl[OF ok] by (auto simp: CloseVoice_def Let_def)
  obtain h2 d b where h2: "LeaveStream env h (clientByConnectionID h k) reason = Some (h2, d, b)" "fine E F h h2"
    using LeaveStream_fine[OF ok] by blast
  from SendToConnection_after[OF h2(2) stream_closed_wf, of env k]
  show "\<exists>h'. CloseStream env h k reason = Some h' \<and> fine E F h h'"
    using h2(1) fine_refl[OF ok] by (auto simp: CloseStream_def Let_def)
qed

lemma failure_fine:
  assumes ok: "hub_okE E F h"
  shows "\<exists>h'. voice_failure env vcap k h reason = Some h' \<and> fine E F h h'"
    "\<exists>h'. stream_failure env scap k h reason = Some h' \<and> fine E F h h'"
  using close_fine[OF ok, of env k reason] fine_refl[OF ok]
  by (auto simp: voice_failure_def stream_failure_def split: prod.splits option.splits)

lemma signal_fine:
  assumes ok: "hub_okE E F h"
  shows "\<exists>h' b. voice_SendOffer env h k sdp = Some (h', b) \<and> fine E F h h'"
    "\<exists>h' b. voice_SendICECandidate env h k cand = Some (h', b) \<and> fine E F h h'"
    "\<exists>h' b. stream_SendOffer env h k sdp = Some (h', b) \<and> fine E F h h'"
    "\<exists>h' b. stream_SendICECandidate env h k cand = Some (h', b) \<and> fine E F h h'"
  unfolding voice_SendOffer_def voice_SendICECandidate_def stream_SendOffer_def stream_SendICECandidate_def
  by (rule Publish_fine(7)[OF ok mkEvent_wf], simp add: event_types)+

subsection \<open>Relays\<close>

lemma relationship_known:
  assumes ok: "hub_okE E F h" and r: "stream_relationship (client h) (h_streams h) c k = (target, pub, True)"
  shows "target \<in> set (h_known h)"
proof -
  note si = okE_streams[OF ok]
  obtain st where st: "map_of (t_byClient (h_streams h)) c = Some st"
    using r by (auto simp: stream_relationship_def split: option.splits)
  obtain v where v: "live (h_streams h) (st_stream st) v" using stream_invD(7)[OF si st] by blast
  have at: "stream_at (h_streams h) (st_stream st) = v" by (rule live_stream_at[OF v])
  have "target \<in> set (as_viewers v) \<or> target = as_publisher v"
    using r st at by (auto simp: stream_relationship_def Let_def split: option.splits if_splits dest: find_Some_member)
  then obtain st' where "map_of (t_byClient (h_streams h)) target = Some st'"
    using stream_invD(8)[OF si v] by blast
  then show ?thesis by (rule streams_known[OF ok])
qed

lemma send_after:
  assumes ok: "hub_okE E F h" and c: "c \<in> set (h_known h)" and t: "t \<noteq> EventChannelSyncRequired"
  shows "\<exists>h' b. send_or_drop env h c (mkEvent t d) = Some (h', b) \<and> fine E F h h'"
  using send_or_drop_fine[OF ok c mkEvent_wf[OF t]] by blast

lemma relay_fine:
  assumes ok: "hub_okE E F h"
  shows "t \<noteq> EventChannelSyncRequired \<Longrightarrow> \<exists>h' e. RelayStreamP2PSession env h c k sdp t = Some (h', e) \<and> fine E F h h'"
    "\<exists>h' e. RelayStreamP2PICECandidate env h c cand = Some (h', e) \<and> fine E F h h'"
    "\<exists>h' e. RequestStreamP2PRestart env h c k = Some (h', e) \<and> fine E F h h'"
proof -
  have send: "\<exists>h' e. map_option (\<lambda>(h1, sent). (h1, if sent then None else Some ErrStreamUnavailable))
      (send_or_drop env h target (mkEvent t d)) = Some (h', e) \<and> fine E F h h'"
    if "target \<in> set (h_known h)" "t \<noteq> EventChannelSyncRequired" for target t d
    using send_after[OF ok that, of env d] by (force split: prod.splits)
  have ev: "EventStreamP2PICECandidate \<noteq> EventChannelSyncRequired" "EventStreamP2PRestart \<noteq> EventChannelSyncRequired"
    by (simp_all add: event_types)
  note k = relationship_known[OF ok] and r = fine_refl[OF ok]
  show "\<exists>h' e. RelayStreamP2PSession env h c k sdp t = Some (h', e) \<and> fine E F h h'"
    if "t \<noteq> EventChannelSyncRequired"
  proof -
    obtain target pub b where rel: "stream_relationship (client h) (h_streams h) c k = (target, pub, b)"
      by (metis prod_cases3)
    show ?thesis using send[OF k that] rel r by (cases b) (auto simp: RelayStreamP2PSession_def)
  qed
  show "\<exists>h' e. RelayStreamP2PICECandidate env h c cand = Some (h', e) \<and> fine E F h h'"
  proof -
    obtain target pub b where rel: "stream_relationship (client h) (h_streams h) c (pi_TargetConnectionID cand) = (target, pub, b)"
      by (metis prod_cases3)
    show ?thesis using send[OF k ev(1)] rel r by (cases b) (auto simp: RelayStreamP2PICECandidate_def)
  qed
  show "\<exists>h' e. RequestStreamP2PRestart env h c k = Some (h', e) \<and> fine E F h h'"
  proof -
    obtain target pub b where rel: "stream_relationship (client h) (h_streams h) c k = (target, pub, b)"
      by (metis prod_cases3)
    show ?thesis using send[OF k ev(2)] rel r by (cases b) (auto simp: RequestStreamP2PRestart_def)
  qed
qed

lemma RelayVoiceE2EE_fine:
  assumes ok: "hub_okE E F h" and t: "t \<noteq> EventChannelSyncRequired"
  shows "\<exists>h' b. RelayVoiceE2EE env h c t d = Some (h', b) \<and> fine E F h h'"
proof (cases "voice_e2eeRecipient (h_voice h) c (ee_ChannelID d) (ee_RecipientUserID d) (ee_RecipientDeviceID d)")
  case None
  then have "RelayVoiceE2EE env h c t d = Some (h, False)" by (simp add: RelayVoiceE2EE_def)
  then show ?thesis using fine_refl[OF ok] by blast
next
  case (Some x)
  obtain f r where x: "x = (f, r)" by fastforce
  obtain p where "map_of (v_byClient (h_voice h)) r = Some p"
    using Some x by (auto simp: voice_e2eeRecipient_def Let_def split: option.splits if_splits)
  from send_after[OF ok voice_known[OF ok this] t] show ?thesis
    using Some x by (simp add: RelayVoiceE2EE_def)
qed

subsection \<open>Entering voice\<close>

lemma voice_upd_members:
  assumes "voice_inv i s" "voice_inv i s'" "voice_abs s' = (voice_abs s)(u \<mapsto> (c, p))" "vp_UserID p = u"
  shows "map_of (v_byClient s') d = Some q \<longleftrightarrow>
    d = c \<and> q = p \<or> map_of (v_byClient s) d = Some q \<and> vp_UserID q \<noteq> u"
proof -
  have "map_of (v_byClient s') d = Some q \<longleftrightarrow> voice_abs s' (vp_UserID q) = Some (d, q)"
    using voice_abs_iff[OF assms(2)] by simp
  also have "\<dots> \<longleftrightarrow> (if vp_UserID q = u then d = c \<and> q = p else map_of (v_byClient s) d = Some q)"
    using voice_abs_iff[OF assms(1)] by (auto simp: assms(3))
  finally show ?thesis using assms(4) by auto
qed

lemma joined_ok:
  assumes ok: "hub_okE {} {} h" and c: "c \<in> set (h_known h)"
    and srv: "c \<in> set (h_clients h) \<Longrightarrow> srv \<in> set (c_servers (client h c))"
    and st: "\<And>st. map_of (t_byClient (h_streams h)) c = Some st \<Longrightarrow>
      as_channelID (stream_at (h_streams h) (st_stream st)) = ch \<and>
      as_serverID (stream_at (h_streams h) (st_stream st)) = srv"
    and vi: "voice_inv (ident h) v" and abs: "voice_abs v = (voice_abs (h_voice h))(u \<mapsto> (c, p))"
    and p: "vp_UserID p = u" "vp_ServerID p = srv" "vp_ChannelID p = ch"
    and r: "r = (case voice_abs (h_voice h) u of None \<Rightarrow> nil | Some (c', _) \<Rightarrow> if c' = c then nil else c')"
  shows "hub_okE {} ({r} \<times> UNIV) (h\<lparr> h_voice := v \<rparr>)"
proof -
  let ?h = "h\<lparr> h_voice := v \<rparr>"
  note M = voice_upd_members[OF okE_voice[OF ok] vi abs p(1)]
  note s = okE_seated[OF ok]
  have "seated {} ({r} \<times> UNIV) ?h"
  proof (rule seatedI)
    fix d q
    assume "map_of (v_byClient (h_voice ?h)) d = Some q" "d \<in> set (h_clients ?h)"
    then show "(d, vp_ServerID q) \<in> {} \<or> vp_ServerID q \<in> set (c_servers (client ?h d))"
      using M[of d q] srv p seatedD(1)[OF s, of d q] by auto
  next
    fix d k x
    assume "map_of (c_subscriptions (client ?h d)) k = Some x"
    then show "(d, x) \<in> {} \<or> x \<in> set (c_servers (client ?h d))" using seatedD(2)[OF s] by simp
  next
    fix d x
    assume d: "map_of (t_byClient (h_streams ?h)) d = Some x"
    let ?v = "stream_at (h_streams h) (st_stream x)"
    show "(d, as_channelID (stream_at (h_streams ?h) (st_stream x))) \<in> {r} \<times> UNIV \<or>
      (\<exists>q. map_of (v_byClient (h_voice ?h)) d = Some q \<and>
        vp_ChannelID q = as_channelID (stream_at (h_streams ?h) (st_stream x)) \<and>
        vp_ServerID q = as_serverID (stream_at (h_streams ?h) (st_stream x)))"
    proof (cases "d = c")
      case True
      then show ?thesis using M[of c p] st[of x] d p by auto
    next
      case False
      obtain q where q: "map_of (v_byClient (h_voice h)) d = Some q" "vp_ChannelID q = as_channelID ?v"
        "vp_ServerID q = as_serverID ?v" using seatedD(3)[OF s, of d x] d by auto
      show ?thesis
      proof (cases "vp_UserID q = u")
        case True
        then have "r = d" using voice_abs_iff[OF okE_voice[OF ok], of u d q] q(1) False r by simp
        then show ?thesis by simp
      next
        case False
        then show ?thesis using M[of d q] q by auto
      qed
    qed
  qed
  moreover have "d \<in> set (h_known h)" if "map_of (v_byClient v) d = Some q" for d q
    using that M[of d q] c voice_known[OF ok, of d q] by auto
  ultimately show ?thesis by (intro voice_replaced_ok[OF ok vi])
qed

lemma seated_stream_forget:
  assumes ok: "hub_okE E ({r} \<times> UNIV) h" and r: "map_of (t_byClient (h_streams h)) r = None"
  shows "hub_okE E {} h"
proof -
  note s = okE_seated[OF ok]
  have "seated E {} h"
  proof (rule seatedI)
    fix c st
    assume c: "map_of (t_byClient (h_streams h)) c = Some st"
    then have "c \<noteq> r" using r by auto
    then show "(c, as_channelID (stream_at (h_streams h) (st_stream st))) \<in> {} \<or>
      (\<exists>p. map_of (v_byClient (h_voice h)) c = Some p \<and>
        vp_ChannelID p = as_channelID (stream_at (h_streams h) (st_stream st)) \<and>
        vp_ServerID p = as_serverID (stream_at (h_streams h) (st_stream st)))"
      using seatedD(3)[OF s c] by auto
  qed (use seatedD(1,2)[OF s] in auto)
  then show ?thesis using ok by (simp add: hub_okE_def)
qed

lemma publish_except_after:
  assumes f: "fine E F h h1" and e: "wf_event e"
  shows "\<exists>h'. map_option fst (publishToServerExcept (Unregister env) h1 s x e) = Some h' \<and> fine E F h h'"
proof -
  have "hub_okE E F h1" using f by (simp add: fine_def)
  from Publish_fine(6)[OF this e, of env s x] fine_trans[OF f] show ?thesis by fastforce
qed

lemma voice_event_wf:
  "wf_event (mkEvent EventVoiceParticipantLeft d)" "wf_event (mkEvent EventVoiceParticipantJoined d)"
  "wf_event (mkEvent EventVoiceStateUpdated d)"
  by (rule mkEvent_wf, simp add: event_types)+

lemma announce_join_ok:
  assumes ok: "hub_okE {} ({jr_replaced r} \<times> UNIV) h"
  shows "\<exists>h'. announce_join env (Unregister env) h c srv r = Some h' \<and> hub_ok h' \<and> h_known h' = h_known h \<and>
    same_conns h h' \<and> (\<forall>c. c_userID (client h' c) = c_userID (client h c))"
proof -
  let ?F = "{jr_replaced r} \<times> UNIV" and ?r = "jr_replaced r"
  define m where "m = (case jr_previous r of None \<Rightarrow> Some h | Some p \<Rightarrow> publishVoiceLeft (Unregister env) h p c)"
  have "\<exists>h1. m = Some h1 \<and> fine {} ?F h h1"
    using fine_refl[OF ok] publish_except_after[OF fine_refl[OF ok] voice_event_wf(1)]
    by (auto simp: m_def publishVoiceLeft_def split: option.splits)
  then obtain h1 where h1: "m = Some h1" "fine {} ?F h h1" by blast
  have ok1: "hub_okE {} ?F h1" using h1(2) by (simp add: fine_def)
  define m2 where "m2 h1 = (if ?r = nil then Some h1
      else do {
        (g, _) \<leftarrow> leaveStream env (Unregister env) h1 ?r ''voice session moved to another connection'';
        map_option fst (SendToConnection (Unregister env)
          (closeVoiceSession env g (c_connectionID (client g ?r))) (c_connectionID (client g ?r))
          (closed_event VoiceWebRTCClosedReasonReplaced)) })" for h1
  have "\<exists>h2. m2 h1 = Some h2 \<and> hub_okE {} {} h2 \<and> h_known h2 = h_known h1 \<and> same_conns h1 h2 \<and>
    (\<forall>c. c_userID (client h2 c) = c_userID (client h1 c))"
  proof (cases "?r = nil")
    case True
    have "map_of (t_byClient (h_streams h1)) nil = None"
      using streams_known[OF ok1, of nil] hub_inv_refs(5)[OF okE_inv[OF ok1]] by (cases "map_of (t_byClient (h_streams h1)) nil") auto
    then show ?thesis using seated_stream_forget[OF ok1] True by (simp add: m2_def)
  next
    case False
    obtain g x1 x2 x3 where g: "leaveStream env (Unregister env) h1 ?r ''voice session moved to another connection''
        = Some (g, x1, x2, x3)" "fine {} ?F h1 g" "map_of (t_byClient (h_streams g)) ?r = None"
      using leaveStream_fine[OF ok1] by blast
    have g0: "hub_okE {} {} g" by (rule seated_stream_forget[OF _ g(3)]) (use g(2) in \<open>simp add: fine_def\<close>)
    have "soft g (closeVoiceSession env g k)" for k by (simp add: closeVoiceSession_def)
    from tidy_fine[OF soft_tidy[OF this okE_inv[OF g0]] g0]
    have f: "fine {} {} g (closeVoiceSession env g k)" for k .
    obtain h2 where h2: "map_option fst (SendToConnection (Unregister env)
          (closeVoiceSession env g (c_connectionID (client g ?r))) (c_connectionID (client g ?r))
          (closed_event VoiceWebRTCClosedReasonReplaced)) = Some h2" "fine {} {} g h2"
      using SendToConnection_after[OF f closed_event_wf] by blast
    have "m2 h1 = Some h2" using False g(1) h2(1) by (simp add: m2_def)
    moreover have "same_conns h1 h2" using same_conns_trans g(2) h2(2) unfolding fine_def by blast
    ultimately show ?thesis using g(2) h2(2) unfolding fine_def by auto
  qed
  then obtain h2 where h2: "m2 h1 = Some h2" "hub_okE {} {} h2" "h_known h2 = h_known h1" "same_conns h1 h2"
    "\<forall>c. c_userID (client h2 c) = c_userID (client h1 c)" by blast
  note a = publish_except_after[OF fine_refl[OF h2(2)] voice_event_wf(2), of env srv c "DVoiceParticipantData (jr_participant r)"]
    and b = publish_except_after[OF fine_refl[OF h2(2)] voice_event_wf(3), of env srv c "DVoiceParticipantData (jr_participant r)"]
  have "\<exists>h3. (if jr_joined r then map_option fst (publishToServerExcept (Unregister env) h2 srv c
         (mkEvent EventVoiceParticipantJoined (DVoiceParticipantData (jr_participant r))))
       else if jr_updated r then map_option fst (publishToServerExcept (Unregister env) h2 srv c
           (mkEvent EventVoiceStateUpdated (DVoiceParticipantData (jr_participant r))))
       else Some h2) = Some h3 \<and> fine {} {} h2 h3"
    using a b fine_refl[OF h2(2)] by simp
  then show ?thesis
    using h1 h2 unfolding announce_join_def m_def[symmetric] Let_def m2_def[symmetric]
    by (auto simp: fine_def hub_ok_def same_conns_def)
qed

lemma join_allowed_facts:
  assumes ok: "hub_okE E F h0" and j: "join_allowed env h0 c srv ch dev = (h, b)"
  shows "fine E F h0 h" "b \<Longrightarrow> srv \<in> set (c_servers (client h c))" "client h = client h0"
    "h_voice h = h_voice h0" "h_clients h = h_clients h0"
proof -
  obtain h1 a where d: "(if dev = [] then (h0, True) else device_active env h0 (c_userID (client h0 c)) dev) = (h1, a)"
    by fastforce
  have h1: "h = h1" using j d by (auto simp: join_allowed_def)
  show "fine E F h0 h" using h1 d device_active_fine[OF ok] fine_refl[OF ok] by (auto split: if_splits)
  show "b \<Longrightarrow> srv \<in> set (c_servers (client h c))"
    using j d h1 by (auto simp: join_allowed_def hasServer_def)
  show "client h = client h0" "h_voice h = h_voice h0" "h_clients h = h_clients h0"
    using h1 d by (auto simp: device_active_def split: if_splits option.splits)
qed

lemma JoinVoice_leave:
  assumes ok: "hub_ok h" and srv: "srv \<in> set (c_servers (client h c))" and c: "c \<in> set (h_known h)"
    and m_def: "m = (case voice_current (h_voice h) c of
                 None \<Rightarrow> Some h
               | Some current \<Rightarrow>
                   (if vp_ServerID current \<noteq> srv \<or> vp_ChannelID current \<noteq> ch
                    then map_option fst (leaveStream env (Unregister env) h c ''voice channel changed'')
                    else Some h))"
  shows "\<exists>h1. m = Some h1 \<and> fine {} {} h h1 \<and>
    (c \<in> set (h_clients h1) \<longrightarrow> srv \<in> set (c_servers (client h1 c))) \<and>
    (\<forall>st. map_of (t_byClient (h_streams h1)) c = Some st \<longrightarrow>
      as_channelID (stream_at (h_streams h1) (st_stream st)) = ch \<and>
      as_serverID (stream_at (h_streams h1) (st_stream st)) = srv)"
proof -
  note ok' = ok[unfolded hub_ok_def]
  note s = okE_seated[OF ok']
  obtain h1 x y z where l: "leaveStream env (Unregister env) h c ''voice channel changed'' = Some (h1, x, y, z)"
    "fine {} {} h h1" "map_of (t_byClient (h_streams h1)) c = None" using leaveStream_fine[OF ok'] by blast
  have k: "keeps h h1" by (rule keeping.leaveStream_keeps[OF l(1)])
  show ?thesis
  proof (cases "\<exists>p. voice_current (h_voice h) c = Some p \<and> (vp_ServerID p \<noteq> srv \<or> vp_ChannelID p \<noteq> ch)")
    case True
    then have "m = Some h1" using l(1) by (auto simp: m_def)
    then show ?thesis using l(2,3) k srv by (auto simp: keeps_def)
  next
    case False
    then have m: "m = Some h" by (auto simp: m_def split: option.splits)
    have "as_channelID (stream_at (h_streams h) (st_stream st)) = ch \<and>
      as_serverID (stream_at (h_streams h) (st_stream st)) = srv"
      if "map_of (t_byClient (h_streams h)) c = Some st" for st
      using seatedD(3)[OF s that] False by (auto simp: voice_current_def)
    then show ?thesis using m srv fine_refl[OF ok'] by blast
  qed
qed

lemma JoinVoice_ok:
  assumes ok: "hub_ok h0" and c: "c = nil \<or> c \<in> set (h_known h0)"
  shows "\<exists>h' r. JoinVoiceWithDevice env h0 c srv ch m d dev = Some (h', r) \<and> fine {} {} h0 h'"
proof (cases "c = nil")
  case True
  then show ?thesis using fine_refl[of "{}" "{}" h0] ok by (simp add: JoinVoiceWithDevice_def hub_ok_def)
next
  case False
  note ok0 = ok[unfolded hub_ok_def]
  obtain h b where j: "join_allowed env h0 c srv ch dev = (h, b)" by fastforce
  note J = join_allowed_facts[OF ok0 j]
  show ?thesis
  proof (cases b)
    case False
    then show ?thesis using \<open>c \<noteq> nil\<close> j J(1) by (simp add: JoinVoiceWithDevice_def)
  next
    case True
    have ok1: "hub_ok h" "c \<in> set (h_known h)"
      using J(1) c \<open>c \<noteq> nil\<close> by (simp_all add: fine_def hub_ok_def)
    from JoinVoice_leave[OF ok1(1) J(2)[OF True] ok1(2) refl, of ch env]
    obtain h1 where h1: "(case voice_current (h_voice h) c of None \<Rightarrow> Some h
       | Some current \<Rightarrow> (if vp_ServerID current \<noteq> srv \<or> vp_ChannelID current \<noteq> ch
            then map_option fst (leaveStream env (Unregister env) h c ''voice channel changed'') else Some h)) = Some h1"
      "fine {} {} h h1" "c \<in> set (h_clients h1) \<Longrightarrow> srv \<in> set (c_servers (client h1 c))"
      "\<And>st. map_of (t_byClient (h_streams h1)) c = Some st \<Longrightarrow>
        as_channelID (stream_at (h_streams h1) (st_stream st)) = ch \<and>
        as_serverID (stream_at (h_streams h1) (st_stream st)) = srv" by blast
    have k1: "hub_okE {} {} h1" "c \<in> set (h_known h1)" using h1(2) ok1(2) by (simp_all add: fine_def)
    from voice_join_facts[OF okE_voice[OF k1(1)] \<open>c \<noteq> nil\<close>, of "client h1 c" srv ch m d dev]
    obtain v r where v: "voice_join (h_voice h1) c (client h1 c) srv ch m d dev = Some (v, r)"
      "voice_inv (ident h1) v" "voice_abs v = (voice_abs (h_voice h1))(c_userID (client h1 c) \<mapsto> (c, jr_participant r))"
      "vp_UserID (jr_participant r) = c_userID (client h1 c)" "vp_ServerID (jr_participant r) = srv"
      "vp_ChannelID (jr_participant r) = ch"
      "jr_replaced r = (case voice_abs (h_voice h1) (c_userID (client h1 c)) of None \<Rightarrow> nil
        | Some (c', _) \<Rightarrow> if c' = c then nil else c')" by (auto simp: ident_def)
    note w = joined_ok[OF k1 h1(3,4) v(2-7)]
    from announce_join_ok[OF w, of env c srv]
    obtain h2 where h2: "announce_join env (Unregister env) (h1\<lparr> h_voice := v \<rparr>) c srv r = Some h2" "hub_ok h2"
      "h_known h2 = h_known h1" "same_conns (h1\<lparr> h_voice := v \<rparr>) h2" "\<forall>c. c_userID (client h2 c) = c_userID (client h1 c)" by auto
    have "fine {} {} h0 h2" using J(1) h1(2) h2 by (simp add: fine_def hub_ok_def same_conns_def)
    then show ?thesis
      using \<open>c \<noteq> nil\<close> j True h1(1) v(1) h2(1) by (simp add: JoinVoiceWithDevice_def)
  qed
qed

lemma UpdateVoiceState_fine:
  assumes ok: "hub_okE E {} h"
  shows "\<exists>h' p. UpdateVoiceState env h c m d vid = Some (h', p) \<and> fine E {} h h'"
proof (cases "c = nil")
  case True
  then show ?thesis using fine_refl[OF ok] by (simp add: UpdateVoiceState_def)
next
  case False
  note vi = okE_voice[OF ok] and s = okE_seated[OF ok]
  from voice_update_facts[OF vi, of c m d vid]
  obtain v p chg ex where v: "voice_update (h_voice h) c m d vid = Some (v, p, chg, ex)" "voice_inv (ident h) v"
    "ex \<longleftrightarrow> map_of (v_byClient (h_voice h)) c \<noteq> None" "\<not> ex \<longrightarrow> v = h_voice h"
    "ex \<longrightarrow> voice_abs v = (voice_abs (h_voice h))(vp_UserID p \<mapsto> (c, p)) \<and>
      (\<exists>q. map_of (v_byClient (h_voice h)) c = Some q \<and> p = q\<lparr> vp_SelfMute := m, vp_SelfDeaf := d,
           vp_SelfVideo := (case vid of [] \<Rightarrow> vp_SelfVideo q | v # _ \<Rightarrow> v) \<rparr>)" by blast
  show ?thesis
  proof (cases ex)
    case False
    then have "UpdateVoiceState env h c m d vid = Some (h\<lparr> h_voice := h_voice h \<rparr>, None)"
      using \<open>c \<noteq> nil\<close> v(1,4) by (simp add: UpdateVoiceState_def)
    then show ?thesis using fine_refl[OF ok] by simp
  next
    case True
    then obtain q where q: "map_of (v_byClient (h_voice h)) c = Some q" "vp_UserID p = vp_UserID q"
      "vp_ServerID p = vp_ServerID q" "vp_ChannelID p = vp_ChannelID q" using v(5) by auto
    have M: "map_of (v_byClient v) e = Some x \<longleftrightarrow> e = c \<and> x = p \<or> e \<noteq> c \<and> map_of (v_byClient (h_voice h)) e = Some x" for e x
    proof -
      have "vp_UserID x = vp_UserID p \<longleftrightarrow> e = c" if e: "map_of (v_byClient (h_voice h)) e = Some x"
      proof -
        have a: "voice_abs (h_voice h) (vp_UserID q) = Some (c, q)" using voice_abs_iff[OF vi] q(1) by simp
        have b: "voice_abs (h_voice h) (vp_UserID x) = Some (e, x)" using voice_abs_iff[OF vi] e by simp
        have "e = c" if "vp_UserID x = vp_UserID p" using a b unfolding that q(2) by simp
        moreover have "vp_UserID x = vp_UserID p" if "e = c" using e q(1,2) that by simp
        ultimately show ?thesis by blast
      qed
      then show ?thesis using voice_upd_members[OF vi v(2), of "vp_UserID p" c p e x] v(5) True by auto
    qed
    have "seated E {} (h\<lparr> h_voice := v \<rparr>)"
    proof (rule seatedI)
      fix e x
      assume e: "map_of (v_byClient (h_voice (h\<lparr> h_voice := v \<rparr>))) e = Some x" "e \<in> set (h_clients (h\<lparr> h_voice := v \<rparr>))"
      then show "(e, vp_ServerID x) \<in> E \<or> vp_ServerID x \<in> set (c_servers (client (h\<lparr> h_voice := v \<rparr>) e))"
        using M[of e x] seatedD(1)[OF s, of e x] seatedD(1)[OF s q(1)] by (cases "e = c") (simp_all add: q(3))
    next
      fix e st
      assume "map_of (t_byClient (h_streams (h\<lparr> h_voice := v \<rparr>))) e = Some st"
      then obtain y where y: "map_of (v_byClient (h_voice h)) e = Some y"
        "vp_ChannelID y = as_channelID (stream_at (h_streams h) (st_stream st))"
        "vp_ServerID y = as_serverID (stream_at (h_streams h) (st_stream st))"
        using seatedD(3)[OF s, of e st] by auto
      then show "(e, as_channelID (stream_at (h_streams (h\<lparr> h_voice := v \<rparr>)) (st_stream st))) \<in> {} \<or>
        (\<exists>p. map_of (v_byClient (h_voice (h\<lparr> h_voice := v \<rparr>))) e = Some p \<and>
          vp_ChannelID p = as_channelID (stream_at (h_streams (h\<lparr> h_voice := v \<rparr>)) (st_stream st)) \<and>
          vp_ServerID p = as_serverID (stream_at (h_streams (h\<lparr> h_voice := v \<rparr>)) (st_stream st)))"
        using M[of e y] M[of c p] q(1,3,4) by (cases "e = c") simp_all
    qed (use seatedD(2)[OF s] in simp)
    moreover have "e \<in> set (h_known h)" if "map_of (v_byClient v) e = Some x" for e x
      using that M[of e x] voice_known[OF ok, of e x] voice_known[OF ok q(1)] by blast
    ultimately have w: "hub_okE E {} (h\<lparr> h_voice := v \<rparr>)" by (intro voice_replaced_ok[OF ok v(2)])
    then have f: "fine E {} h (h\<lparr> h_voice := v \<rparr>)" by (simp add: fine_def)
    from Publish_fine(6)[OF w voice_event_wf(3), of env "vp_ServerID p" c "DVoiceParticipantData p"]
    show ?thesis using \<open>c \<noteq> nil\<close> v(1) True f fine_trans[OF f] by (cases chg) (auto simp: UpdateVoiceState_def)
  qed
qed

subsection \<open>Entering streams\<close>

lemma stream_entered_ok:
  assumes ok: "hub_okE E {} h" and p: "map_of (v_byClient (h_voice h)) c = Some p"
    and i: "stream_inv (h_maxStreamViewers h) (h_maxP2PStreamViewers h) t"
    and M: "\<And>d. map_of (t_byClient t) d = (if d = c then Some st else map_of (t_byClient (h_streams h)) d)"
    and new: "as_channelID (stream_at t (st_stream st)) = vp_ChannelID p" "as_serverID (stream_at t (st_stream st)) = vp_ServerID p"
    and old: "\<And>d x. map_of (t_byClient (h_streams h)) d = Some x \<Longrightarrow>
      as_channelID (stream_at t (st_stream x)) = as_channelID (stream_at (h_streams h) (st_stream x)) \<and>
      as_serverID (stream_at t (st_stream x)) = as_serverID (stream_at (h_streams h) (st_stream x))"
  shows "hub_okE E {} (h\<lparr> h_streams := t \<rparr>)"
proof (rule streams_replaced_ok[OF ok i])
  note s = okE_seated[OF ok]
  show "d \<in> set (h_known h)" if "map_of (t_byClient t) d = Some x" for d x
    using that M[of d] voice_known[OF ok p] streams_known[OF ok, of d] by (cases "d = c") auto
  show "seated E {} (h\<lparr> h_streams := t \<rparr>)"
  proof (rule seatedI)
    fix d x
    assume d: "map_of (t_byClient (h_streams (h\<lparr> h_streams := t \<rparr>))) d = Some x"
    show "(d, as_channelID (stream_at (h_streams (h\<lparr> h_streams := t \<rparr>)) (st_stream x))) \<in> {} \<or>
      (\<exists>p. map_of (v_byClient (h_voice (h\<lparr> h_streams := t \<rparr>))) d = Some p \<and>
        vp_ChannelID p = as_channelID (stream_at (h_streams (h\<lparr> h_streams := t \<rparr>)) (st_stream x)) \<and>
        vp_ServerID p = as_serverID (stream_at (h_streams (h\<lparr> h_streams := t \<rparr>)) (st_stream x)))"
      using d M[of d] p new seatedD(3)[OF s, of d x] old[of d x] by (cases "d = c") simp_all
  qed (use seatedD(1,2)[OF s] in simp_all)
qed

lemma with_stream_ok:
  assumes ok: "hub_okE E {} h" and p: "map_of (v_byClient (h_voice h)) c = Some p"
    and r: "stream_start (client h) (h_streams h) c p mode codec audio rends now = (t, Inr d)"
  shows "hub_okE E {} (h\<lparr> h_streams := t \<rparr>)"
proof -
  let ?v = "\<lparr> as_serverID = vp_ServerID p, as_channelID = vp_ChannelID p, as_mode = mode,
        as_codec = codec, as_hasAudio = audio, as_renditions = rends, as_publisher = c,
        as_viewers = [], as_startedAt = now \<rparr>" and ?s = "h_streams h"
  note si = okE_streams[OF ok]
  have c: "c \<noteq> nil" using known_not_nil[OF ok voice_known[OF ok p]] .
  have t: "t = with_stream ?s c ?v" using r by (auto simp: stream_start_cases Let_def split: if_splits)
  have W: "map_of (t_heap t) k = (if k = t_nextRef ?s then Some ?v else map_of (t_heap ?s) k)"
    "map_of (t_byClient t) e = (if e = c then Some \<lparr> st_generation = t_nextGeneration ?s + 1,
       st_stream = t_nextRef ?s, st_publisher = True, st_renditionID = [] \<rparr> else map_of (t_byClient ?s) e)" for k e
    unfolding t by (rule with_stream_maps; simp)+
  have at: "stream_at t k = (if k = t_nextRef ?s then ?v else stream_at ?s k)" for k
    using W(1)[of k] by (simp add: stream_at_def get_or_def)
  have "st_stream x \<noteq> t_nextRef ?s" if e: "map_of (t_byClient ?s) e = Some x" for e x
  proof -
    obtain v where "map_of (t_heap ?s) (st_stream x) = Some v" using stream_invD(7)[OF si e] by (auto simp: live_def)
    then show ?thesis using stream_invD(3)[OF si] by fastforce
  qed
  then show ?thesis
    by (intro stream_entered_ok[OF ok p stream_start_inv[OF si c r] W(2)]) (simp_all add: at)
qed

lemma with_viewer_ok:
  assumes ok: "hub_okE E {} h" and p: "map_of (v_byClient (h_voice h)) c = Some p"
    and r: "stream_watch (client h) (h_streams h) c p (h_maxStreamViewers h) (h_maxP2PStreamViewers h)
      ranges profiles pc = (t, Inr (d, pub, sel))"
  shows "hub_okE E {} (h\<lparr> h_streams := t \<rparr>)" "pub \<in> set (h_known h)"
proof -
  let ?s = "h_streams h"
  note si = okE_streams[OF ok]
  obtain k where w: "t = with_viewer ?s c k sel" "live ?s k (stream_at ?s k)" "as_publisher (stream_at ?s k) = pub"
    "as_serverID (stream_at ?s k) = vp_ServerID p" "as_channelID (stream_at ?s k) = vp_ChannelID p"
    by (rule stream_watch_cases[OF si, of "client h" c p ranges profiles pc]) (use r in auto)
  have at: "stream_at t e = (if e = k then (stream_at ?s k)\<lparr> as_viewers := List.insert c (as_viewers (stream_at ?s k)) \<rparr>
      else stream_at ?s e)" for e
    using with_viewer_maps(2)[of ?s c k sel e] by (simp add: w(1) stream_at_def get_or_def)
  show "hub_okE E {} (h\<lparr> h_streams := t \<rparr>)"
    by (rule stream_entered_ok[OF ok p stream_watch_inv[OF si r] with_viewer_maps(3)[of ?s c k sel, folded w(1)]])
      (simp_all add: at w(4,5))
  show "pub \<in> set (h_known h)" using stream_members_known[OF okE_inv[OF ok] w(2)] w(3) by simp
qed

lemma at_seat_Some: "at_seat h c s ch = Some p \<longleftrightarrow>
    map_of (v_byClient (h_voice h)) c = Some p \<and> vp_ServerID p = s \<and> vp_ChannelID p = ch"
  by (auto simp: at_seat_def voice_current_def split: option.splits)

lemma at_seat_frame: "h_voice h' = h_voice h \<Longrightarrow> at_seat h' c s ch = at_seat h c s ch"
  by (simp add: at_seat_def)

lemma stream_event_wf:
  "wf_event (mkEvent EventStreamStarted d)" "wf_event (mkEvent EventStreamUpdated d)"
  "wf_event (mkEvent EventStreamViewerJoined d)"
  by (rule mkEvent_wf, simp add: event_types)+

lemma StartStream_fine:
  assumes ok: "hub_okE E {} h"
  shows "\<exists>h' r. StartStreamWithRenditions env h c srv ch mode codec audio rends = Some (h', r) \<and> fine E {} h h'"
proof -
  let ?start = "\<lambda>p norm. stream_start (client h) (h_streams h) c p mode codec audio norm (e_now env (h_tick h))"
  have "\<exists>h' r. (case ?start p norm of
      (streams, Inl err) \<Rightarrow> Some (h\<lparr> h_streams := streams \<rparr>, Inl err)
    | (streams, Inr d) \<Rightarrow>
        (let h1 = h\<lparr> h_streams := streams, h_tick := h_tick h + 1 \<rparr> in
         if at_seat h1 c srv ch = None
         then Some (h1\<lparr> h_streams := fst (stream_leave (h_streams h1) c) \<rparr>, Inl ErrStreamVoiceRequired)
         else map_option (\<lambda>(h2, _). (h2, Inr d)) (publishToServerExcept (Unregister env) h1 srv c
             (mkEvent EventStreamStarted (DStreamData d))))) = Some (h', r) \<and> fine E {} h h'"
    if p: "at_seat h c srv ch = Some p" for p norm
  proof -
    obtain t r where t: "?start p norm = (t, r)" by fastforce
    show ?thesis
    proof (cases r)
      case (Inl e)
      then have "t = h_streams h" using t by (auto simp: stream_start_cases Let_def split: if_splits)
      then show ?thesis using t Inl fine_refl[OF ok] by simp
    next
      case (Inr d)
      define h1 where "h1 = h\<lparr> h_streams := t, h_tick := h_tick h + 1 \<rparr>"
      have "hub_okE E {} (h\<lparr> h_streams := t \<rparr>)"
        by (rule with_stream_ok[OF ok]) (use p t Inr in \<open>auto simp: at_seat_Some\<close>)
      from light_ok[OF light_closed(2) this, of "h_tick h + 1"]
      have f: "fine E {} h h1" by (simp add: fine_def same_conns_def h1_def)
      have seat: "at_seat h1 c srv ch = Some p" using p at_seat_frame[of h1 h] by (simp add: h1_def)
      have "hub_okE E {} h1" using f by (simp add: fine_def)
      from Publish_fine(6)[OF this stream_event_wf(1), of env srv c "DStreamData d"]
      obtain h2 n where "publishToServerExcept (Unregister env) h1 srv c (mkEvent EventStreamStarted (DStreamData d)) = Some (h2, n)"
        "fine E {} h1 h2" by blast
      then show ?thesis
        using fine_trans[OF f] seat unfolding t Inr prod.case sum.case h1_def[symmetric] by (simp add: Let_def)
    qed
  qed
  then show ?thesis
    using fine_refl[OF ok] unfolding StartStreamWithRenditions_def by (simp split: option.split)
qed

lemma announce_watch_fine:
  assumes ok: "hub_okE E F h" and p: "pub \<in> set (h_known h)"
  shows "\<exists>h' r. announce_watch env h c srv d pub sel = Some (h', r) \<and> fine E F h h'"
proof -
  define m where "m = (if sa_Mode d = StreamModeP2P
      then send_or_drop env h pub (mkEvent EventStreamViewerJoined (DStreamViewerData
        \<lparr> sv_ConnectionID = c_connectionID (client h c), sv_UserID = c_userID (client h c) \<rparr>))
      else Some (h, True))"
  have "\<exists>h1 b. m = Some (h1, b) \<and> fine E F h h1"
  proof (cases "sa_Mode d = StreamModeP2P")
    case True
    then show ?thesis unfolding m_def using send_or_drop_fine[OF ok p stream_event_wf(3)] by (simp, blast)
  qed (use fine_refl[OF ok] in \<open>auto simp: m_def\<close>)
  then obtain h1 b where h1: "m = Some (h1, b)" "fine E F h h1" by blast
  have "hub_okE E F h1" using h1(2) by (simp add: fine_def)
  from Publish_fine(5)[OF this stream_event_wf(2), of env srv "DStreamData d"]
  obtain h2 n where "PublishToServer (Unregister env) h1 srv (mkEvent EventStreamUpdated (DStreamData d)) = Some (h2, n)"
    "fine E F h1 h2" by blast
  then show ?thesis using h1 fine_trans[OF h1(2)] by (cases b) (simp_all add: announce_watch_def m_def[symmetric])
qed

lemma WatchStream_fine:
  assumes ok: "hub_okE E {} h"
  shows "\<exists>h' r. WatchStreamWithCapabilities env h c srv ch ranges profiles pcs = Some (h', r) \<and> fine E {} h h'"
proof -
  let ?watch = "\<lambda>p pc. stream_watch (client h) (h_streams h) c p (h_maxStreamViewers h) (h_maxP2PStreamViewers h)
      ranges profiles pc"
  have "\<exists>h' r. (case ?watch p pc of
      (streams, Inl err) \<Rightarrow> Some (h\<lparr> h_streams := streams \<rparr>, Inl err)
    | (streams, Inr (d, publisher, selected)) \<Rightarrow>
        (let h1 = h\<lparr> h_streams := streams \<rparr> in
         if at_seat h1 c srv ch = None
         then Some (h1\<lparr> h_streams := fst (stream_leave (h_streams h1) c) \<rparr>, Inl ErrStreamVoiceRequired)
         else announce_watch env h1 c srv d publisher selected)) = Some (h', r) \<and> fine E {} h h'"
    if p: "at_seat h c srv ch = Some p" for p pc
  proof -
    obtain t r where t: "?watch p pc = (t, r)" by fastforce
    show ?thesis
    proof (cases r)
      case (Inl e)
      have "t = h_streams h"
        by (rule stream_watch_cases[OF okE_streams[OF ok], of "client h" c p ranges profiles pc]) (use t Inl in auto)
      then show ?thesis using t Inl fine_refl[OF ok] by simp
    next
      case (Inr x)
      obtain d pub sel where x: "x = (d, pub, sel)" by (metis prod_cases3)
      have mp: "map_of (v_byClient (h_voice h)) c = Some p" using p by (simp add: at_seat_Some)
      note w = with_viewer_ok[OF ok mp t[unfolded Inr x]]
      have f: "fine E {} h (h\<lparr> h_streams := t \<rparr>)" using w(1) by (simp add: fine_def)
      have seat: "at_seat (h\<lparr> h_streams := t \<rparr>) c srv ch = Some p" using p at_seat_frame[of "h\<lparr> h_streams := t \<rparr>" h] by simp
      from announce_watch_fine[OF w(1), of pub env c srv d sel] w(2) show ?thesis
        using t Inr x seat fine_trans[OF f] by fastforce
    qed
  qed
  then show ?thesis
    using fine_refl[OF ok] unfolding WatchStreamWithCapabilities_def Let_def by (simp split: option.split)
qed

end
