(* ===== verification/Publishers.thy ===== *)
theory Publishers
  imports HubMedia
begin

text \<open>
  The publishers through which the services announce changes (channel_events.go,
  message_events.go, reactions.go, read_events.go, server_events.go, invite_events.go,
  avatar_events.go, recording_events.go of src/internal/realtime) and the statistics of the hub.
  Each is a translation of domain values into events and a call of the hub.
\<close>

subsection \<open>Domain values\<close>

record Channel =
  ch_Permissions :: int
  ch_ID :: int
  ch_ServerID :: int
  ch_Name :: string
  ch_Kind :: string
  ch_Position :: int
  ch_CreatedBy :: int
  ch_CreatedAt :: int
  ch_AccessRestricted :: bool
  ch_LastMessageID :: int
  ch_UnreadCount :: int
  ch_CommentsEnabled :: bool
  ch_CanPublish :: bool
  ch_E2EERequired :: bool

record ServerMember =
  mb_UserID :: int
  mb_Username :: string
  mb_CreatedAt :: int
  mb_Role :: string
  mb_JoinedAt :: int
  mb_About :: string
  mb_CountryCode :: "string option"
  mb_LastSeenAt :: "int option"
  mb_AvatarVersion :: "string option"

record Invite =
  in_ID :: int
  in_ServerID :: int
  in_ServerName :: string
  in_InviterUserID :: int
  in_InviterUsername :: string
  in_InviteeUserID :: int
  in_Status :: string
  in_ExpiresAt :: int
  in_RespondedAt :: "int option"
  in_CreatedAt :: int

subsection \<open>Channels, members, invitations\<close>

definition publish_server :: "hub_env \<Rightarrow> hub \<Rightarrow> int \<Rightarrow> OutgoingEvent \<Rightarrow> hub option" where
  "publish_server env h serverID event = map_option fst (PublishToServer (Unregister env) h serverID event)"

definition publishChannel :: "hub_env \<Rightarrow> hub \<Rightarrow> string \<Rightarrow> Channel \<Rightarrow> hub option" where
  "publishChannel env h eventType value =
     do {
       h1 \<leftarrow> (if eventType = EventChannelCreated then RefreshChannelAccess env h (ch_ServerID value) else Some h);
       publish_server env h1 (ch_ServerID value) (mkEvent eventType (DChannelData
         \<lparr> cd_CommentsEnabled = ch_CommentsEnabled value, cd_ID = ch_ID value,
           cd_ServerID = ch_ServerID value, cd_Name = ch_Name value, cd_Kind = ch_Kind value,
           cd_Position = ch_Position value, cd_CreatedBy = ch_CreatedBy value,
           cd_AccessRestricted = ch_AccessRestricted value, cd_CreatedAt = ch_CreatedAt value \<rparr>))
     }"

definition PublishChannelCreated :: "hub_env \<Rightarrow> hub \<Rightarrow> Channel \<Rightarrow> hub option" where
  "PublishChannelCreated env h value = publishChannel env h EventChannelCreated value"

definition PublishChannelUpdated :: "hub_env \<Rightarrow> hub \<Rightarrow> Channel \<Rightarrow> hub option" where
  "PublishChannelUpdated env h value = publishChannel env h EventChannelUpdated value"

definition PublishChannelDeleted :: "hub_env \<Rightarrow> hub \<Rightarrow> Channel \<Rightarrow> hub option" where
  "PublishChannelDeleted env h value =
     do {
       h1 \<leftarrow> publish_server env h (ch_ServerID value) (mkEvent EventChannelDeleted (DChannelDeletedData
              \<lparr> cx_ServerID = ch_ServerID value, cx_ChannelID = ch_ID value \<rparr>));
       h2 \<leftarrow> RemoveChannel env h1 (ch_ID value);
       RefreshChannelAccess env h2 (ch_ServerID value)
     }"

definition PublishChannelAccessChanged :: "hub_env \<Rightarrow> hub \<Rightarrow> int \<Rightarrow> int \<Rightarrow> hub option" where
  "PublishChannelAccessChanged env h serverID channelID = RefreshChannelAccess env h serverID"

definition publishMemberChanged :: "hub_env \<Rightarrow> hub \<Rightarrow> string \<Rightarrow> int \<Rightarrow> ServerMember \<Rightarrow> hub option" where
  "publishMemberChanged env h eventType serverID member =
     do {
       h1 \<leftarrow> RefreshChannelAccess env h serverID;
       publish_server env h1 serverID (mkEvent eventType (DServerMemberChangedData
         \<lparr> sc_ServerID = serverID, sc_Member =
           \<lparr> md_UserID = mb_UserID member, md_Username = mb_Username member,
             md_CreatedAt = mb_CreatedAt member, md_Role = mb_Role member,
             md_JoinedAt = mb_JoinedAt member, md_About = mb_About member,
             md_CountryCode = mb_CountryCode member, md_LastSeenAt = mb_LastSeenAt member,
             md_AvatarVersion = mb_AvatarVersion member \<rparr> \<rparr>))
     }"

definition PublishServerMemberJoined :: "hub_env \<Rightarrow> hub \<Rightarrow> int \<Rightarrow> ServerMember \<Rightarrow> hub option" where
  "PublishServerMemberJoined env h serverID member =
     publishMemberChanged env h EventServerMemberJoined serverID member"

definition PublishServerMemberRoleUpdated :: "hub_env \<Rightarrow> hub \<Rightarrow> int \<Rightarrow> ServerMember \<Rightarrow> hub option" where
  "PublishServerMemberRoleUpdated env h serverID member =
     publishMemberChanged env h EventServerMemberRoleUpdated serverID member"

definition PublishInvitationReceived :: "hub_env \<Rightarrow> hub \<Rightarrow> Invite \<Rightarrow> hub option" where
  "PublishInvitationReceived env h invitation =
     map_option fst (PublishToUser env h (in_InviteeUserID invitation)
       (mkEvent EventInvitationReceived (DInvitationReceivedData
         \<lparr> iv_ID = in_ID invitation, iv_ServerID = in_ServerID invitation,
           iv_ServerName = in_ServerName invitation, iv_InviterUserID = in_InviterUserID invitation,
           iv_InviterUsername = in_InviterUsername invitation,
           iv_InviteeUserID = in_InviteeUserID invitation, iv_Status = in_Status invitation,
           iv_ExpiresAt = in_ExpiresAt invitation, iv_CreatedAt = in_CreatedAt invitation \<rparr>)))"

definition PublishAvatarChanged :: "hub_env \<Rightarrow> hub \<Rightarrow> int list \<Rightarrow> int \<Rightarrow> string option \<Rightarrow> hub option" where
  "PublishAvatarChanged env h serverIDs userID version =
     foreach (\<lambda>h serverID. publish_server env h serverID
       (mkEvent ''avatar.updated'' (DAvatarChangedData \<lparr> av_UserID = userID, av_Version = version \<rparr>)))
       h serverIDs"

definition PublishRecordingChanged :: "hub_env \<Rightarrow> hub \<Rightarrow> Record \<Rightarrow> hub option" where
  "PublishRecordingChanged env h rec =
     publish_server env h (rc_ServerID rec) (mkEvent ''recording.updated'' (DRecord rec))"

subsection \<open>Messages\<close>

definition author_data :: "Author \<Rightarrow> MessageAuthorData" where
  "author_data a = \<lparr> ma_UserID = au_UserID a, ma_Username = au_Username a \<rparr>"

definition newMessageData :: "Message \<Rightarrow> MessageCreatedData" where
  "newMessageData value =
     \<lparr> mc_Poll = ms_Poll value, mc_Attachments = ms_Attachments value,
       mc_ThreadRootID = ms_ThreadRootID value, mc_CommentCount = ms_CommentCount value,
       mc_ClientMessageID = [], mc_ID = ms_ID value, mc_ChannelID = ms_ChannelID value,
       mc_Author = author_data (ms_Author value), mc_Content = ms_Content value,
       mc_CreatedAt = ms_CreatedAt value, mc_EditedAt = ms_EditedAt value,
       mc_Revision = ms_Revision value, mc_Reply = ms_Reply value, mc_Forward = ms_Forward value \<rparr>"

definition publish_channel :: "hub_env \<Rightarrow> hub \<Rightarrow> int \<Rightarrow> OutgoingEvent \<Rightarrow> hub option" where
  "publish_channel env h channelID event = map_option fst (Publish env h channelID event)"

text \<open>The second result is the message handed to the created listener, when one is set.\<close>

definition PublishMessageCreated :: "hub_env \<Rightarrow> bool \<Rightarrow> hub \<Rightarrow> Message \<Rightarrow> (hub \<times> Message option) option" where
  "PublishMessageCreated env onCreated h value =
     (if ms_Replayed value then Some (h, None)
      else map_option (\<lambda>h1. (h1, if \<not> ms_Replayed value \<and> onCreated then Some value else None))
        (publish_channel env h (ms_ChannelID value) (mkEvent EventMessageCreated (DMessageCreatedData
          ((newMessageData value)\<lparr> mc_ClientMessageID := ms_ClientMessageID value \<rparr>)))))"

definition PublishMessageUpdated :: "hub_env \<Rightarrow> hub \<Rightarrow> Message \<Rightarrow> hub option" where
  "PublishMessageUpdated env h value =
     publish_channel env h (ms_ChannelID value)
       (mkEvent EventMessageUpdated (DMessageCreatedData (newMessageData value)))"

definition PublishMessageDeleted :: "hub_env \<Rightarrow> hub \<Rightarrow> Message \<Rightarrow> hub option" where
  "PublishMessageDeleted env h value =
     publish_channel env h (ms_ChannelID value) (mkEvent EventMessageDeleted (DMessageDeletedData
       \<lparr> mx_ChannelID = ms_ChannelID value, mx_MessageID = ms_ID value \<rparr>))"

definition PublishMessagePinned :: "hub_env \<Rightarrow> hub \<Rightarrow> PinnedMessage \<Rightarrow> hub option" where
  "PublishMessagePinned env h value =
     (let m = pm_Message value in
      publish_channel env h (ms_ChannelID m) (mkEvent EventMessagePinned (DMessagePinnedData
        \<lparr> mp_ChannelID = ms_ChannelID m, mp_MessageID = ms_ID m, mp_Message = newMessageData m,
          mp_PinnedBy = author_data (pm_PinnedBy value), mp_PinnedAt = pm_PinnedAt value \<rparr>)))"

definition PublishMessageUnpinned :: "hub_env \<Rightarrow> hub \<Rightarrow> int \<Rightarrow> int \<Rightarrow> hub option" where
  "PublishMessageUnpinned env h channelID messageID =
     publish_channel env h channelID (mkEvent EventMessageUnpinned (DMessageUnpinnedData
       \<lparr> mu_ChannelID = channelID, mu_MessageID = messageID \<rparr>))"

definition PublishChannelActivity :: "hub_env \<Rightarrow> hub \<Rightarrow> int \<Rightarrow> Message \<Rightarrow> hub option" where
  "PublishChannelActivity env h serverID value =
     publish_server env h serverID (mkEvent EventChannelActivity (DChannelActivityData
       \<lparr> ca_ServerID = serverID, ca_ChannelID = ms_ChannelID value, ca_MessageID = ms_ID value,
         ca_AuthorUserID = au_UserID (ms_Author value) \<rparr>))"

text \<open>One event per user, shared by all their connections.\<close>

definition reactions_event ::
  "ReactionState \<Rightarrow> hub \<times> (int, OutgoingEvent) gomap \<Rightarrow> int \<Rightarrow> hub \<times> (int, OutgoingEvent) gomap \<times> OutgoingEvent" where
  "reactions_event state s userID =
     (case s of (h, events) \<Rightarrow>
       (case map_of events userID of
          Some event \<Rightarrow> (h, events, event)
        | None \<Rightarrow>
            (let (h1, event) = shareEncoding h
                   (mkEvent EventMessageReactionsChanged (DReactionsData (ForUser state userID))) in
             (h1, AList.update userID event events, event))))"

definition PublishReactionsChanged :: "hub_env \<Rightarrow> hub \<Rightarrow> ReactionState \<Rightarrow> hub option" where
  "PublishReactionsChanged env h state =
     (case getRoom h (rs_ChannelID state) of
        None \<Rightarrow> Some h
      | Some room \<Rightarrow>
          map_option fst (foreach (\<lambda>s c.
              (let (h1, events, event) = reactions_event state s (c_userID (client (fst s) c)) in
               map_option (\<lambda>(h2, _). (h2, events)) (send_or_drop env h1 c event)))
            (h, []) (rm_clients room)))"

subsection \<open>Read positions\<close>

definition newChannelReadData :: "ChannelRead \<Rightarrow> ChannelReadData" where
  "newChannelReadData r =
     \<lparr> rx_ServerID = cr_ServerID r, rx_ChannelID = cr_ChannelID r, rx_UserID = cr_UserID r,
       rx_LastReadMessageID = cr_LastReadMessageID r, rx_UpdatedAt = cr_UpdatedAt r \<rparr>"

definition newChannelReadDataSlice :: "ChannelRead list \<Rightarrow> ChannelReadData list" where
  "newChannelReadDataSlice reads = map newChannelReadData reads"

definition NewReadSnapshotData :: "ChannelRead list \<Rightarrow> ReadSnapshotData" where
  "NewReadSnapshotData reads = \<lparr> rn_Reads = newChannelReadDataSlice reads \<rparr>"

definition NewChannelReadSnapshotData :: "int \<Rightarrow> int \<Rightarrow> ChannelRead list \<Rightarrow> ChannelReadSnapshotData" where
  "NewChannelReadSnapshotData serverID channelID reads =
     \<lparr> rp_ServerID = serverID, rp_ChannelID = channelID, rp_Reads = newChannelReadDataSlice reads \<rparr>"

definition PublishChannelRead :: "hub_env \<Rightarrow> hub \<Rightarrow> ChannelRead \<Rightarrow> hub option" where
  "PublishChannelRead env h r =
     map_option fst (PublishToChannelAndUser env h (cr_ChannelID r) (cr_UserID r)
       (mkEvent EventChannelRead (DChannelReadData (newChannelReadData r))))"

subsection \<open>Statistics\<close>

text \<open>The overflow counter is converted from \<^verbatim>\<open>uint64\<close> to \<^verbatim>\<open>int\<close>.\<close>

definition HubStats :: "hub \<Rightarrow> (string, int) gomap" where
  "HubStats h =
     fold (\<lambda>c result.
       (let stats = queueStats (client h c);
            r1 = AList.update ''queued_normal''
                   (get_or 0 result ''queued_normal'' + int (qs_NormalPending stats)) result;
            r2 = AList.update ''queued_media'' (get_or 0 r1 ''queued_media'' + int (qs_MediaPending stats)) r1 in
        AList.update ''queue_high_watermark''
          (max (get_or 0 r2 ''queue_high_watermark'') (int (qs_HighWatermark stats))) r2))
     (h_clients h)
     [(''clients'', int (length (h_clients h))), (''queue_overflow_total'', sint (h_queueFullTotal h))]"

subsection \<open>The publishers keep the hub in order\<close>

lemma publish_server_fine:
  assumes f: "fine E F h h1" and e: "wf_event e"
  shows "\<exists>h'. publish_server env h1 s e = Some h' \<and> fine E F h h'"
proof -
  have "hub_okE E F h1" using f by (simp add: fine_def)
  from Publish_fine(5)[OF this e, of env s] fine_trans[OF f] show ?thesis
    by (fastforce simp: publish_server_def)
qed

lemma publish_channel_fine:
  assumes ok: "hub_okE E F h" and e: "wf_event e"
  shows "\<exists>h'. publish_channel env h ch e = Some h' \<and> fine E F h h'"
  using Publish_fine(1)[OF ok e] by (fastforce simp: publish_channel_def)

lemma publishChannel_fine:
  assumes ok: "hub_okE E F h" and t: "t \<noteq> EventChannelSyncRequired"
  shows "\<exists>h'. publishChannel env h t v = Some h' \<and> fine E F h h'"
proof -
  define m where "m = (if t = EventChannelCreated then RefreshChannelAccess env h (ch_ServerID v) else Some h)"
  have "\<exists>h1. m = Some h1 \<and> fine E F h h1"
    using RefreshChannelAccess_fine[OF ok, of env "ch_ServerID v"] fine_refl[OF ok] by (simp add: m_def)
  then obtain h1 where h1: "m = Some h1" "fine E F h h1" by blast
  show ?thesis
    using publish_server_fine[OF h1(2) mkEvent_wf[OF t]] h1(1)
    by (simp add: publishChannel_def m_def[symmetric])
qed

lemma PublishChannelDeleted_fine:
  assumes ok: "hub_okE E {} h"
  shows "\<exists>h'. PublishChannelDeleted env h v = Some h' \<and> fine E {} h h'"
proof -
  have "wf_event (mkEvent EventChannelDeleted d)" for d by (rule mkEvent_wf) (simp add: event_types)
  from publish_server_fine[OF fine_refl[OF ok] this]
  obtain h1 where h1: "publish_server env h (ch_ServerID v) (mkEvent EventChannelDeleted (DChannelDeletedData
              \<lparr> cx_ServerID = ch_ServerID v, cx_ChannelID = ch_ID v \<rparr>)) = Some h1" "fine E {} h h1" by blast
  have ok1: "hub_okE E {} h1" using h1(2) by (simp add: fine_def)
  obtain h2 where h2: "RemoveChannel env h1 (ch_ID v) = Some h2" "fine E {} h1 h2"
    using RemoveChannel_facts[OF ok1, of "ch_ID v" env] fine_refl[OF ok1]
    by (cases "ch_ID v > 0") (auto simp: RemoveChannel_def)
  have "hub_okE E {} h2" using h2(2) by (simp add: fine_def)
  from RefreshChannelAccess_fine[OF this, of env "ch_ServerID v"] show ?thesis
    using h1 h2 fine_trans[OF h1(2) fine_trans[OF h2(2)]] by (auto simp: PublishChannelDeleted_def)
qed

lemma publishMemberChanged_fine:
  assumes ok: "hub_okE E F h" and t: "t \<noteq> EventChannelSyncRequired"
  shows "\<exists>h'. publishMemberChanged env h t s mb = Some h' \<and> fine E F h h'"
proof -
  obtain h1 where h1: "RefreshChannelAccess env h s = Some h1" "fine E F h h1"
    using RefreshChannelAccess_fine[OF ok] by blast
  show ?thesis
    using publish_server_fine[OF h1(2) mkEvent_wf[OF t]] h1(1) by (simp add: publishMemberChanged_def)
qed

lemma PublishAvatarChanged_fine:
  assumes ok: "hub_okE E F h"
  shows "\<exists>h'. PublishAvatarChanged env h ss u v = Some h' \<and> fine E F h h'"
  unfolding PublishAvatarChanged_def
proof (rule foreach_fine_from[OF _ ok])
  fix g s
  assume "fine E F h g"
  then have "hub_okE E F g" by (simp add: fine_def)
  moreover have "wf_event (mkEvent ''avatar.updated'' d)" for d by (rule mkEvent_wf) (simp add: event_types)
  ultimately show "\<exists>g'. publish_server env g s (mkEvent ''avatar.updated''
      (DAvatarChangedData \<lparr> av_UserID = u, av_Version = v \<rparr>)) = Some g' \<and> fine E F g g'"
    using publish_server_fine[OF fine_refl] by blast
qed

lemma message_publishers_fine:
  assumes ok: "hub_okE E F h"
  shows "\<exists>h' m. PublishMessageCreated env listener h v = Some (h', m) \<and> fine E F h h'"
    "\<exists>h'. PublishMessageUpdated env h v = Some h' \<and> fine E F h h'"
    "\<exists>h'. PublishMessageDeleted env h v = Some h' \<and> fine E F h h'"
    "\<exists>h'. PublishMessagePinned env h pv = Some h' \<and> fine E F h h'"
    "\<exists>h'. PublishMessageUnpinned env h ch mid = Some h' \<and> fine E F h h'"
    "\<exists>h'. PublishChannelActivity env h s v = Some h' \<and> fine E F h h'"
proof -
  have e: "wf_event (mkEvent EventMessageCreated d)" "wf_event (mkEvent EventMessageUpdated d)"
    "wf_event (mkEvent EventMessageDeleted d)" "wf_event (mkEvent EventMessagePinned d)"
    "wf_event (mkEvent EventMessageUnpinned d)" "wf_event (mkEvent EventChannelActivity d)" for d
    by (rule mkEvent_wf, simp add: event_types)+
  show "\<exists>h' m. PublishMessageCreated env listener h v = Some (h', m) \<and> fine E F h h'"
  proof -
    obtain h' where "publish_channel env h (ms_ChannelID v) (mkEvent EventMessageCreated (DMessageCreatedData
        ((newMessageData v)\<lparr> mc_ClientMessageID := ms_ClientMessageID v \<rparr>))) = Some h'" "fine E F h h'"
      using publish_channel_fine[OF ok e(1)] by blast
    then show ?thesis using fine_refl[OF ok] by (simp add: PublishMessageCreated_def)
  qed
  show "\<exists>h'. PublishMessageUpdated env h v = Some h' \<and> fine E F h h'"
    unfolding PublishMessageUpdated_def by (rule publish_channel_fine[OF ok e(2)])
  show "\<exists>h'. PublishMessageDeleted env h v = Some h' \<and> fine E F h h'"
    unfolding PublishMessageDeleted_def by (rule publish_channel_fine[OF ok e(3)])
  show "\<exists>h'. PublishMessagePinned env h pv = Some h' \<and> fine E F h h'"
    unfolding PublishMessagePinned_def Let_def by (rule publish_channel_fine[OF ok e(4)])
  show "\<exists>h'. PublishMessageUnpinned env h ch mid = Some h' \<and> fine E F h h'"
    unfolding PublishMessageUnpinned_def by (rule publish_channel_fine[OF ok e(5)])
  show "\<exists>h'. PublishChannelActivity env h s v = Some h' \<and> fine E F h h'"
    unfolding PublishChannelActivity_def by (rule publish_server_fine[OF fine_refl[OF ok] e(6)])
qed

lemma other_publishers_fine:
  assumes ok: "hub_okE E F h"
  shows "\<exists>h'. PublishInvitationReceived env h iv = Some h' \<and> fine E F h h'"
    "\<exists>h'. PublishRecordingChanged env h rec = Some h' \<and> fine E F h h'"
    "\<exists>h'. PublishChannelRead env h r = Some h' \<and> fine E F h h'"
proof -
  have e: "wf_event (mkEvent EventInvitationReceived d)" "wf_event (mkEvent ''recording.updated'' d)"
    "wf_event (mkEvent EventChannelRead d)" for d
    by (rule mkEvent_wf, simp add: event_types)+
  show "\<exists>h'. PublishInvitationReceived env h iv = Some h' \<and> fine E F h h'"
    unfolding PublishInvitationReceived_def using Publish_fine(3)[OF ok e(1)] by fastforce
  show "\<exists>h'. PublishRecordingChanged env h rec = Some h' \<and> fine E F h h'"
    unfolding PublishRecordingChanged_def by (rule publish_server_fine[OF fine_refl[OF ok] e(2)])
  show "\<exists>h'. PublishChannelRead env h r = Some h' \<and> fine E F h h'"
    unfolding PublishChannelRead_def using Publish_fine(4)[OF ok e(3)] by fastforce
qed

lemma shareEncoding_fine: "hub_okE E F h \<Longrightarrow> shareEncoding h e = (h', e') \<Longrightarrow> fine E F h h'"
  using tidy_fine[OF soft_tidy[OF shareEncoding_soft(1) okE_inv]] by blast

lemma PublishReactionsChanged_fine:
  assumes ok: "hub_okE E F h"
  shows "\<exists>h'. PublishReactionsChanged env h state = Some h' \<and> fine E F h h'"
proof (cases "getRoom h (rs_ChannelID state)")
  case None
  then show ?thesis using fine_refl[OF ok] by (simp add: PublishReactionsChanged_def)
next
  case (Some room)
  let ?f = "\<lambda>s c. (let (h1, events, event) = reactions_event state s (c_userID (client (fst s) c)) in
      map_option (\<lambda>(h2, _). (h2, events)) (send_or_drop env h1 c event))"
  let ?P = "\<lambda>s :: hub \<times> (int, OutgoingEvent) gomap. fine E F h (fst s) \<and> (\<forall>u e. map_of (snd s) u = Some e \<longrightarrow> wf_event e)"
  have kn: "set (rm_clients room) \<subseteq> set (h_known h)"
    using room_members_known[OF okE_inv[OF ok]] getRoom_members[OF Some] by metis
  have "\<exists>s'. foreach ?f (h, []) (rm_clients room) = Some s' \<and> ?P s'"
  proof (rule foreach_total)
    fix s c
    assume c: "c \<in> set (rm_clients room)" and P: "?P s"
    obtain g ev where s: "s = (g, ev)" by fastforce
    obtain h1 events event where r: "reactions_event state s (c_userID (client (fst s) c)) = (h1, events, event)"
      by (metis prod_cases3)
    have okg: "hub_okE E F g" using P s by (simp add: fine_def)
    have w0: "wf_event (mkEvent EventMessageReactionsChanged d)" for d by (rule mkEvent_wf) (simp add: event_types)
    have step: "fine E F g h1 \<and> wf_event event \<and> (\<forall>u e. map_of events u = Some e \<longrightarrow> wf_event e)"
    proof (cases "map_of ev (c_userID (client g c))")
      case None
      then show ?thesis
        using r s P shareEncoding_fine[OF okg] shareEncoding_soft(2)[OF _ w0]
        by (auto simp: reactions_event_def Let_def update_conv' split: prod.splits if_splits)
    next
      case (Some e)
      then show ?thesis using r s P fine_refl[OF okg] by (auto simp: reactions_event_def)
    qed
    have ok1: "hub_okE E F h1" "c \<in> set (h_known h1)"
      using step P s c kn by (auto simp: fine_def)
    obtain h2 b where h2: "send_or_drop env h1 c event = Some (h2, b)" "fine E F h1 h2"
      using send_or_drop_fine[OF ok1] step by blast
    have "fine E F h h2" using fine_trans[OF _ fine_trans[OF _ h2(2)]] P s step by auto
    then show "\<exists>s'. ?f s c = Some s' \<and> ?P s'" using r h2(1) step by simp
  qed (use fine_refl[OF ok] in simp)
  then show ?thesis using Some by (auto simp: PublishReactionsChanged_def)
qed

end
