(* ===== verification/HubRun.thy ===== *)
theory HubRun
  imports Publishers
begin

text \<open>
  Runs of the real-time layer. A run starts from a configured hub, allocates connections and calls
  the operations of the hub in any order, one after the other. \<open>hub_call\<close> lists the operations with their arguments,
  \<open>run_call\<close> performs one and \<open>callable\<close> says when the code calls it: the web socket handler
  registers a connection it has allocated, and leaves, unsubscribes or joins only with connections
  that were registered. Every reachable state is in order and every call returns.
\<close>

subsection \<open>Calls\<close>

datatype (plugins only: code) hub_call =
    CallRegister cref
  | CallUnregister cref
  | CallClose
  | CallSend cref OutgoingEvent
  | CallPop cref
  | CallSubscribe cref int int
  | CallUnsubscribe cref int
  | CallPublish int OutgoingEvent
  | CallPublishExcept int OutgoingEvent cref
  | CallPublishToServer int OutgoingEvent
  | CallPublishToUser int OutgoingEvent
  | CallPublishToChannelAndUser int int OutgoingEvent
  | CallSendToConnection string OutgoingEvent
  | CallRevokeSession string
  | CallRevokeUserFromServer int int
  | CallRevokeServer int
  | CallRemoveChannel int
  | CallAddUserToServer int int
  | CallRefreshChannelAccess int
  | CallRefreshRolePermissions int
  | CallJoinVoice cref int int bool bool string
  | CallUpdateVoiceState cref bool bool "bool list"
  | CallLeaveVoice cref
  | CallRelayVoiceE2EE cref string E2EERelayData
  | CallResetVoiceChannel int string
  | CallRevalidateVoiceE2EE int
  | CallStartStream cref int int string string bool "StreamRenditionData list"
  | CallWatchStream cref int int "string list" "StreamCodecProfileData list" "string list"
  | CallLeaveStream cref string
  | CallRelayP2PSession cref string string string
  | CallRelayP2PICECandidate cref StreamP2PICECandidateData
  | CallP2PRestart cref string
  | CallVoiceFailure "cref \<times> VoiceParticipantData option" string string
  | CallStreamFailure "cref \<times> streamClientState option" string string
  | CallCloseVoice string string
  | CallCloseStream string string
  | CallPublishReactions ReactionState
  | CallPublishChannelDeleted Channel

definition ClientSend :: "hub \<Rightarrow> cref \<Rightarrow> OutgoingEvent \<Rightarrow> (hub \<times> bool) option" where
  "ClientSend h c event = hub_enqueue h c event"

definition pop_client :: "hub \<Rightarrow> cref \<Rightarrow> hub" where
  "pop_client h c = set_client h c (fst (PopOutgoing (client h c)))"

primrec run_call :: "hub_env \<Rightarrow> hub \<Rightarrow> hub_call \<Rightarrow> hub option" where
  "run_call env h (CallRegister c) = map_option fst (Register env h c)"
| "run_call env h (CallUnregister c) = Unregister env h c"
| "run_call env h CallClose = CloseHub env h"
| "run_call env h (CallSend c e) = map_option fst (ClientSend h c e)"
| "run_call env h (CallPop c) = Some (pop_client h c)"
| "run_call env h (CallSubscribe c s ch) = Some (fst (Subscribe h c s ch))"
| "run_call env h (CallUnsubscribe c ch) = Some (fst (Unsubscribe h c ch))"
| "run_call env h (CallPublish ch e) = map_option fst (Publish env h ch e)"
| "run_call env h (CallPublishExcept ch e x) = map_option fst (PublishExcept env h ch e x)"
| "run_call env h (CallPublishToServer s e) = map_option fst (PublishToServer (Unregister env) h s e)"
| "run_call env h (CallPublishToUser u e) = map_option fst (PublishToUser env h u e)"
| "run_call env h (CallPublishToChannelAndUser ch u e) = map_option fst (PublishToChannelAndUser env h ch u e)"
| "run_call env h (CallSendToConnection k e) = map_option fst (SendToConnection (Unregister env) h k e)"
| "run_call env h (CallRevokeSession key) = revokeSessionKey env h key"
| "run_call env h (CallRevokeUserFromServer u s) = RevokeUserFromServer env h u s"
| "run_call env h (CallRevokeServer s) = RevokeServer env h s"
| "run_call env h (CallRemoveChannel ch) = RemoveChannel env h ch"
| "run_call env h (CallAddUserToServer u s) = AddUserToServer env h u s"
| "run_call env h (CallRefreshChannelAccess s) = RefreshChannelAccess env h s"
| "run_call env h (CallRefreshRolePermissions s) = RefreshRolePermissions env h s"
| "run_call env h (CallJoinVoice c s ch m d dev) = map_option fst (JoinVoiceWithDevice env h c s ch m d dev)"
| "run_call env h (CallUpdateVoiceState c m d v) = map_option fst (UpdateVoiceState env h c m d v)"
| "run_call env h (CallLeaveVoice c) = map_option fst (LeaveVoice env h c)"
| "run_call env h (CallRelayVoiceE2EE c t d) = map_option fst (RelayVoiceE2EE env h c t d)"
| "run_call env h (CallResetVoiceChannel ch reason) = ResetVoiceChannel env h ch reason"
| "run_call env h (CallRevalidateVoiceE2EE u) = RevalidateVoiceE2EE env h u"
| "run_call env h (CallStartStream c s ch mode codec audio rs) =
     map_option fst (StartStreamWithRenditions env h c s ch mode codec audio rs)"
| "run_call env h (CallWatchStream c s ch ranges profiles ps) =
     map_option fst (WatchStreamWithCapabilities env h c s ch ranges profiles ps)"
| "run_call env h (CallLeaveStream c reason) = map_option fst (LeaveStream env h c reason)"
| "run_call env h (CallRelayP2PSession c k sdp t) = map_option fst (RelayStreamP2PSession env h c k sdp t)"
| "run_call env h (CallRelayP2PICECandidate c d) = map_option fst (RelayStreamP2PICECandidate env h c d)"
| "run_call env h (CallP2PRestart c k) = map_option fst (RequestStreamP2PRestart env h c k)"
| "run_call env h (CallVoiceFailure cap k reason) = voice_failure env cap k h reason"
| "run_call env h (CallStreamFailure cap k reason) = stream_failure env cap k h reason"
| "run_call env h (CallCloseVoice k reason) = CloseVoice env h k reason"
| "run_call env h (CallCloseStream k reason) = CloseStream env h k reason"
| "run_call env h (CallPublishReactions state) = PublishReactionsChanged env h state"
| "run_call env h (CallPublishChannelDeleted v) = PublishChannelDeleted env h v"

definition callable :: "hub \<Rightarrow> hub_call \<Rightarrow> bool" where
  "callable h call =
     (case call of
        CallRegister c \<Rightarrow> c \<in> fst ` set (h_heap h)
      | CallUnregister c \<Rightarrow> c \<in> set (h_known h)
      | CallSend c e \<Rightarrow> c \<in> set (h_known h) \<and> wf_event e
      | CallPop c \<Rightarrow> c \<in> set (h_known h)
      | CallUnsubscribe c _ \<Rightarrow> c \<in> set (h_known h)
      | CallPublish _ e \<Rightarrow> wf_event e
      | CallPublishExcept _ e _ \<Rightarrow> wf_event e
      | CallPublishToServer _ e \<Rightarrow> wf_event e
      | CallPublishToUser _ e \<Rightarrow> wf_event e
      | CallPublishToChannelAndUser _ _ e \<Rightarrow> wf_event e
      | CallSendToConnection _ e \<Rightarrow> wf_event e
      | CallJoinVoice c _ _ _ _ _ \<Rightarrow> c \<in> set (h_known h)
      | CallRelayVoiceE2EE _ t _ \<Rightarrow> t \<noteq> EventChannelSyncRequired
      | CallRelayP2PSession _ _ _ t \<Rightarrow> t \<noteq> EventChannelSyncRequired
      | _ \<Rightarrow> True)"

subsection \<open>Configuration and new connections\<close>

definition SetStreamSessionCloser :: "hub \<Rightarrow> int \<Rightarrow> int \<Rightarrow> hub" where
  "SetStreamSessionCloser h maxServerViewers maxP2PViewers =
     (let h1 = (if maxServerViewers > 0 then h\<lparr> h_maxStreamViewers := nat maxServerViewers \<rparr> else h) in
      if maxP2PViewers > 0 then h1\<lparr> h_maxP2PStreamViewers := nat maxP2PViewers \<rparr> else h1)"

text \<open>The handler creates the client record \<open>c\<close> and enables what the request asked for.\<close>

definition connect ::
  "(string \<Rightarrow> string) \<Rightarrow> (string \<Rightarrow> string) \<Rightarrow> hub \<Rightarrow> cref \<Rightarrow> int \<Rightarrow> string \<Rightarrow> int list \<Rightarrow> bool \<Rightarrow> bool \<Rightarrow> hub" where
  "connect sha256 trimSpace h c userID token serverIDs messageSync multipleStreams =
     (let (n, x) = NewClient sha256 trimSpace (h_nextConnectionID h) userID token serverIDs;
          x1 = (if messageSync then EnableMessageSync x else x);
          x2 = (if multipleStreams then EnableMultipleStreams x1 else x1) in
      (set_client h c x2)\<lparr> h_nextConnectionID := n \<rparr>)"

inductive hub_reachable :: "hub_env \<Rightarrow> hub \<Rightarrow> bool" for env where
  start: "hub_reachable env (SetStreamSessionCloser NewHub a b)"
| connected: "hub_reachable env h \<Longrightarrow> c \<noteq> nil \<Longrightarrow> c \<notin> fst ` set (h_heap h) \<Longrightarrow>
    unat (h_nextConnectionID h) + 1 < 2 ^ 64 \<Longrightarrow>
    hub_reachable env (connect sha256 trimSpace h c userID token serverIDs messageSync multipleStreams)"
| called: "hub_reachable env h \<Longrightarrow> callable h call \<Longrightarrow> run_call env h call = Some h' \<Longrightarrow> hub_reachable env h'"

subsection \<open>New connections\<close>

definition conn_inv :: "hub \<Rightarrow> bool" where
  "conn_inv h \<longleftrightarrow> (\<forall>c \<in> fst ` set (h_heap h). \<exists>n. 0 < n \<and> n \<le> unat (h_nextConnectionID h) \<and>
     c_connectionID (client h c) = fmt_base 36 n)"

lemma conn_inv_same: "same_conns h h' \<Longrightarrow> conn_inv h \<Longrightarrow> conn_inv h'"
  unfolding same_conns_def conn_inv_def by (metis list.set_map)

lemma NewClient_servers: "distinct (c_servers (snd (NewClient sha trim n u t ss)))"
proof -
  have "distinct (fold (\<lambda>s acc. if s > 0 then List.insert s acc else acc) ss acc)" if "distinct acc" for acc :: "int list"
    using that by (induction ss arbitrary: acc) (simp_all add: distinct_insert)
  then show ?thesis by (simp add: NewClient_def newConnectionID_def Let_def)
qed

lemma client_outside: "c \<notin> fst ` set (h_heap h) \<Longrightarrow> client h c = zero_client"
  by (simp add: client_def get_or_def map_of_eq_None_iff[THEN iffD2])

lemma voice_inv_ident:
  assumes "voice_inv i s" "\<And>c p. map_of (v_byClient s) c = Some p \<Longrightarrow> i' c = i c"
  shows "voice_inv i' s"
  using assms by (simp add: voice_inv_def)

lemma allocated_ok:
  assumes ok: "hub_ok h" and c: "c \<noteq> nil" "c \<notin> fst ` set (h_heap h)"
    and x: "client_ok x" "distinct (c_servers x)" "c_subscriptions x = []"
    and new: "\<And>d. d \<in> fst ` set (h_heap h) \<Longrightarrow> c_connectionID (client h d) \<noteq> c_connectionID x"
  shows "hub_ok ((set_client h c x)\<lparr> h_nextConnectionID := n \<rparr>)"
proof -
  let ?h = "(set_client h c x)\<lparr> h_nextConnectionID := n \<rparr>"
  note ok0 = ok[unfolded hub_ok_def]
  note inv = okE_inv[OF ok0]
  have cl: "client ?h d = (if d = c then x else client h d)" for d
    using client_set_client[of h c x d] by (simp add: client_def)
  have keys: "fst ` set (h_heap ?h) = insert c (fst ` set (h_heap h))" "distinct (map fst (h_heap ?h))"
    using inv by (auto simp: set_client_def update_keys dom_update hub_inv_def refs_inv_def distinct_update)
  have ck: "c \<notin> set (h_known h)" "c \<notin> set (h_clients h)" using c(2) hub_inv_refs(1,2)[OF inv] by auto
  have z: "c_subscriptions (client h c) = []" "c_servers (client h c) = []"
    using client_outside[OF c(2)] by (simp_all add: zero_client_def)
  have "refs_inv ?h"
    unfolding refs_inv_def keys(1)
  proof (intro conjI ballI impI)
    fix d e
    assume de: "d \<in> insert c (fst ` set (h_heap h))" "e \<in> insert c (fst ` set (h_heap h))"
      "c_connectionID (client ?h d) = c_connectionID (client ?h e)"
    then show "d = e" using new[of d] new[of e] hub_inv_connections[OF inv, of d e] by (auto simp: cl split: if_splits)
  qed (use keys(2) c x(1,2) inv in \<open>auto simp: cl hub_inv_def refs_inv_def\<close>)
  moreover have "index_inv ?h" using inv ck unfolding hub_inv_def index_inv_def cl by auto
  moreover have "room_inv ?h" using inv z x(3) unfolding hub_inv_def room_inv_def members_def cl by auto
  moreover have "presence_inv ?h"
  proof -
    have "on_server ?h s u = on_server h s u" for s u using ck by (auto simp: on_server_def cl)
    then show ?thesis using inv by (simp add: hub_inv_def presence_inv_def presence_of_def)
  qed
  moreover have "media_inv ?h"
  proof -
    have "ident ?h d = ident h d" if "map_of (v_byClient (h_voice h)) d = Some p" for d p
      using voice_known[OF ok0 that] ck by (auto simp: ident_def cl)
    from voice_inv_ident[OF okE_voice[OF ok0] this] have "voice_inv (ident ?h) (h_voice h)" .
    then show ?thesis using inv by (simp add: hub_inv_def media_inv_def)
  qed
  ultimately have "hub_inv ?h" by (simp add: hub_inv_def)
  moreover have "unsettled ?h = {}" using ok0 ck by (auto simp: hub_okE_def unsettled_def settled_def cl)
  moreover have "seated {} {} ?h"
    by (rule seatedI) (use seatedD[OF okE_seated[OF ok0]] ck x(3) in \<open>auto simp: cl split: if_splits\<close>)
  ultimately show ?thesis by (simp add: hub_ok_def hub_okE_def)
qed

lemma connect_ok:
  assumes ok: "hub_ok h" "conn_inv h" and c: "c \<noteq> nil" "c \<notin> fst ` set (h_heap h)"
    and n: "unat (h_nextConnectionID h) + 1 < 2 ^ 64"
  shows "hub_ok (connect sha trim h c u t ss sync multi)" "conn_inv (connect sha trim h c u t ss sync multi)"
proof -
  obtain k x0 where x0: "NewClient sha trim (h_nextConnectionID h) u t ss = (k, x0)" by fastforce
  define x where "x = (let x1 = (if sync then EnableMessageSync x0 else x0) in
    if multi then EnableMultipleStreams x1 else x1)"
  have k: "unat k = unat (h_nextConnectionID h) + 1"
    using x0 n by (auto simp: NewClient_def newConnectionID_def Let_def unat_word_ariths)
  have id: "c_connectionID x = fmt_base 36 (unat k)"
    using x0 by (auto simp: x_def NewClient_def newConnectionID_def Let_def EnableMessageSync_def EnableMultipleStreams_def)
  have "client_ok x0" "distinct (c_servers x0)" "c_subscriptions x0 = []"
    using x0 NewClient_facts(1)[of sha trim "h_nextConnectionID h" u t ss]
      NewClient_servers[of sha trim "h_nextConnectionID h" u t ss]
    by (simp_all add: NewClient_def newConnectionID_def Let_def) auto
  then have x: "client_ok x" "distinct (c_servers x)" "c_subscriptions x = []"
    by (simp_all add: x_def Let_def EnableMessageSync_def EnableMultipleStreams_def client_ok_def visible_def)
  have eq: "connect sha trim h c u t ss sync multi = (set_client h c x)\<lparr> h_nextConnectionID := k \<rparr>"
    using x0 by (simp add: connect_def x_def Let_def)
  have new: "c_connectionID (client h d) \<noteq> c_connectionID x" if "d \<in> fst ` set (h_heap h)" for d
  proof -
    obtain m where m: "0 < m" "m \<le> unat (h_nextConnectionID h)" "c_connectionID (client h d) = fmt_base 36 m"
      using ok(2) \<open>d \<in> fst ` set (h_heap h)\<close> unfolding conn_inv_def by blast
    have "m \<noteq> unat k" using m(2) k by simp
    then show ?thesis using m(3) id fmt_base_inj[of 36 m "unat k"] by auto
  qed
  show "hub_ok (connect sha trim h c u t ss sync multi)" unfolding eq by (rule allocated_ok[OF ok(1) c x new])
  have cl: "client ((set_client h c x)\<lparr> h_nextConnectionID := k \<rparr>) d = (if d = c then x else client h d)" for d
    using client_set_client[of h c x d] by (simp add: client_def)
  show "conn_inv (connect sha trim h c u t ss sync multi)"
    unfolding conn_inv_def eq
  proof
    fix d
    assume "d \<in> fst ` set (h_heap ((set_client h c x)\<lparr> h_nextConnectionID := k \<rparr>))"
    then have "d = c \<or> d \<noteq> c \<and> d \<in> fst ` set (h_heap h)" by (auto simp: set_client_def dom_update)
    then show "\<exists>n. 0 < n \<and> n \<le> unat (h_nextConnectionID ((set_client h c x)\<lparr> h_nextConnectionID := k \<rparr>)) \<and>
        c_connectionID (client ((set_client h c x)\<lparr> h_nextConnectionID := k \<rparr>) d) = fmt_base 36 n"
    proof
      assume "d = c"
      then show ?thesis using id k by (auto simp: cl intro!: exI[of _ "unat k"])
    next
      assume d: "d \<noteq> c \<and> d \<in> fst ` set (h_heap h)"
      then obtain m where "0 < m" "m \<le> unat (h_nextConnectionID h)" "c_connectionID (client h d) = fmt_base 36 m"
        using ok(2) unfolding conn_inv_def by blast
      then show ?thesis using d k by (auto simp: cl intro!: exI[of _ m])
    qed
  qed
qed

subsection \<open>Every call returns\<close>

lemma enqueue_fine:
  assumes ok: "hub_okE E F h" and c: "c \<in> set (h_known h)" and e: "wf_event e"
  shows "\<exists>h' b. ClientSend h c e = Some (h', b) \<and> fine E F h h'"
  unfolding ClientSend_def
  using hub_enqueue_soft[OF known_heap[OF ok c] e hub_inv_refs(3)[OF okE_inv[OF ok]]]
    tidy_fine[OF soft_tidy[OF _ okE_inv[OF ok]] ok] by blast

lemma pop_fine:
  assumes ok: "hub_okE E F h" and c: "c \<in> set (h_known h)"
  shows "fine E F h (pop_client h c)"
proof -
  have "soft h (pop_client h c)"
    unfolding pop_client_def by (rule soft_set_client[OF known_heap[OF ok c]]) (simp_all add: PopOutgoing_ok)
  from tidy_fine[OF soft_tidy[OF this okE_inv[OF ok]] ok] show ?thesis .
qed

lemma Unsubscribe_fine:
  assumes ok: "hub_okE E F h" and c: "c \<in> set (h_known h)"
  shows "fine E F h (fst (Unsubscribe h c ch))"
  using tidy_fine[OF unsubscribe_all_tidy[OF okE_inv[OF ok] c, of E F "[ch]", THEN conjunct1] ok] by simp

lemma revocations_fine:
  assumes ok: "hub_ok h"
  shows "\<exists>h'. RevokeUserFromServer env h u s = Some h' \<and> fine {} {} h h'"
    "\<exists>h'. RevokeServer env h s = Some h' \<and> fine {} {} h h'"
    "\<exists>h'. RemoveChannel env h ch = Some h' \<and> fine {} {} h h'"
proof -
  note r = fine_refl[OF ok[unfolded hub_ok_def]]
  show "\<exists>h'. RevokeUserFromServer env h u s = Some h' \<and> fine {} {} h h'"
    using RevokeUserFromServer_facts[OF ok, of u s env] r
    by (cases "u > 0 \<and> s > 0") (auto simp: RevokeUserFromServer_def)
  show "\<exists>h'. RevokeServer env h s = Some h' \<and> fine {} {} h h'"
    using RevokeServer_facts[OF ok, of s env] r by (cases "s > 0") (auto simp: RevokeServer_def)
  show "\<exists>h'. RemoveChannel env h ch = Some h' \<and> fine {} {} h h'"
    using RemoveChannel_facts[OF ok[unfolded hub_ok_def], of ch env] r by (cases "ch > 0") (auto simp: RemoveChannel_def)
qed

lemma run_fst: "\<exists>h' x. f = Some (h', x) \<and> P h' \<Longrightarrow> \<exists>h'. map_option fst f = Some h' \<and> P h'"
  by auto

lemma run_fst3: "\<exists>h' x y. f = Some (h', x, y) \<and> P h' \<Longrightarrow> \<exists>h'. map_option fst f = Some h' \<and> P h'"
  by auto

lemma call_fine:
  assumes ok: "hub_ok h" and c: "callable h call" and r: "\<And>c. call \<noteq> CallRegister c"
  shows "\<exists>h'. run_call env h call = Some h' \<and> fine {} {} h h'"
proof (cases call)
  note ok' = ok[unfolded hub_ok_def]
  note c' = c[unfolded callable_def]
  {
    case (CallRegister x)
    then show ?thesis using r by simp
  next
    case (CallUnregister x)
    then show ?thesis using Unregister_fine[OF ok', of x env] c' by auto
  next
    case CallClose
    then show ?thesis using CloseHub_fine[OF ok', of env] by simp
  next
    case (CallSend x e)
    then show ?thesis using run_fst[OF enqueue_fine[OF ok', of x e]] c' by simp
  next
    case (CallPop x)
    then show ?thesis using pop_fine[OF ok'] c' by simp
  next
    case (CallSubscribe x s ch)
    then show ?thesis using Subscribe_fine[OF ok'] by simp
  next
    case (CallUnsubscribe x ch)
    then show ?thesis using Unsubscribe_fine[OF ok'] c' by simp
  next
    case (CallPublish ch e)
    then show ?thesis using run_fst[OF Publish_fine(1)[OF ok']] c' by simp
  next
    case (CallPublishExcept ch e x)
    then show ?thesis using run_fst[OF Publish_fine(2)[OF ok']] c' by simp
  next
    case (CallPublishToServer s e)
    then show ?thesis using run_fst[OF Publish_fine(5)[OF ok']] c' by simp
  next
    case (CallPublishToUser u e)
    then show ?thesis using run_fst[OF Publish_fine(3)[OF ok']] c' by simp
  next
    case (CallPublishToChannelAndUser ch u e)
    then show ?thesis using run_fst[OF Publish_fine(4)[OF ok']] c' by simp
  next
    case (CallSendToConnection k e)
    then show ?thesis using run_fst[OF Publish_fine(7)[OF ok']] c' by simp
  next
    case (CallRevokeSession key)
    then show ?thesis using revokeSessionKey_fine[OF ok'] by simp
  next
    case (CallRevokeUserFromServer u s)
    then show ?thesis using revocations_fine(1)[OF ok] by simp
  next
    case (CallRevokeServer s)
    then show ?thesis using revocations_fine(2)[OF ok] by simp
  next
    case (CallRemoveChannel ch)
    then show ?thesis using revocations_fine(3)[OF ok] by simp
  next
    case (CallAddUserToServer u s)
    then show ?thesis using AddUserToServer_fine[OF ok'] by simp
  next
    case (CallRefreshChannelAccess s)
    then show ?thesis using RefreshChannelAccess_fine[OF ok'] by simp
  next
    case (CallRefreshRolePermissions s)
    then show ?thesis using RefreshRolePermissions_fine[OF ok'] by simp
  next
    case (CallJoinVoice x s ch m d dev)
    then show ?thesis using run_fst[OF JoinVoice_ok[OF ok, of x env s ch m d dev]] c' by simp
  next
    case (CallUpdateVoiceState x m d v)
    then show ?thesis using run_fst[OF UpdateVoiceState_fine[OF ok']] by simp
  next
    case (CallLeaveVoice x)
    then show ?thesis using LeaveVoice_fine[OF ok', of env x] run_fst[of "LeaveVoice env h x"] by auto
  next
    case (CallRelayVoiceE2EE x t d)
    then show ?thesis using run_fst[OF RelayVoiceE2EE_fine[OF ok', of t env x d]] c' by simp
  next
    case (CallResetVoiceChannel ch reason)
    then show ?thesis using ResetVoiceChannel_fine[OF ok'] by simp
  next
    case (CallRevalidateVoiceE2EE u)
    then show ?thesis using RevalidateVoiceE2EE_fine[OF ok'] by simp
  next
    case (CallStartStream x s ch mode codec audio rs)
    then show ?thesis using run_fst[OF StartStream_fine[OF ok']] by simp
  next
    case (CallWatchStream x s ch ranges profiles ps)
    then show ?thesis using run_fst[OF WatchStream_fine[OF ok']] by simp
  next
    case (CallLeaveStream x reason)
    then show ?thesis using LeaveStream_fine[OF ok', of env x reason] run_fst3[of "LeaveStream env h x reason"] by auto
  next
    case (CallRelayP2PSession x k sdp t)
    then show ?thesis using run_fst[OF relay_fine(1)[OF ok', of t env x k sdp]] c' by simp
  next
    case (CallRelayP2PICECandidate x d)
    then show ?thesis using run_fst[OF relay_fine(2)[OF ok']] by simp
  next
    case (CallP2PRestart x k)
    then show ?thesis using run_fst[OF relay_fine(3)[OF ok']] by simp
  next
    case (CallVoiceFailure cap k reason)
    then show ?thesis using failure_fine(1)[OF ok'] by simp
  next
    case (CallStreamFailure cap k reason)
    then show ?thesis using failure_fine(2)[OF ok'] by simp
  next
    case (CallCloseVoice k reason)
    then show ?thesis using close_fine(1)[OF ok'] by simp
  next
    case (CallCloseStream k reason)
    then show ?thesis using close_fine(2)[OF ok'] by simp
  next
    case (CallPublishReactions state)
    then show ?thesis using PublishReactionsChanged_fine[OF ok'] by simp
  next
    case (CallPublishChannelDeleted v)
    then show ?thesis using PublishChannelDeleted_fine[OF ok'] by simp
  }
qed

lemma call_ok:
  assumes ok: "hub_ok h" and c: "callable h call"
  shows "\<exists>h'. run_call env h call = Some h' \<and> hub_ok h' \<and> same_conns h h'"
proof (cases "\<exists>x. call = CallRegister x")
  case True
  then obtain x where x: "call = CallRegister x" by blast
  then have "x \<in> fst ` set (h_heap h)" using c by (simp add: callable_def)
  with Register_ok[OF ok[unfolded hub_ok_def], of x env] x show ?thesis by (auto simp: hub_ok_def)
next
  case False
  then show ?thesis using call_fine[OF assms, of env] by (auto simp: fine_def hub_ok_def)
qed

lemma NewHub_ok: "hub_ok (SetStreamSessionCloser NewHub a b)" "conn_inv (SetStreamSessionCloser NewHub a b)"
proof -
  define h where "h = SetStreamSessionCloser NewHub a b"
  have F: "h_heap h = []" "h_known h = []" "h_clients h = []" "h_clientsByUser h = []" "h_clientsByServer h = []"
    "h_clientsBySession h = []" "h_clientsByConnection h = []" "h_rooms h = []" "h_presence h = []"
    "h_voice h = newVoiceState" "h_streams h = newStreamState"
    by (simp_all add: h_def SetStreamSessionCloser_def NewHub_def Let_def)
  have cl: "client h c = zero_client" for c by (simp add: client_def F)
  have e: "v_byClient newVoiceState = []" "t_byClient newStreamState = []"
    by (simp_all add: newVoiceState_def newStreamState_def)
  have "hub_inv h"
    by (simp add: hub_inv_def refs_inv_def index_inv_def room_inv_def members_def presence_inv_def presence_of_def
        on_server_def media_inv_def F cl e voice_inv_new stream_inv_new zero_client_def client_ok_def queue_keys_def)
  moreover have "unsettled h = {}" "seated {} {} h" by (simp_all add: unsettled_def seated_def F e cl zero_client_def)
  ultimately show "hub_ok (SetStreamSessionCloser NewHub a b)" by (simp add: hub_ok_def hub_okE_def h_def[symmetric])
  show "conn_inv (SetStreamSessionCloser NewHub a b)" by (simp add: conn_inv_def h_def[symmetric] F)
qed

lemma reachable_ok: "hub_reachable env h \<Longrightarrow> hub_ok h \<and> conn_inv h"
proof (induction rule: hub_reachable.induct)
  case (start a b)
  show ?case using NewHub_ok by blast
next
  case (connected h c sha trim u t ss sync multi)
  then show ?case using connect_ok by blast
next
  case (called h call h')
  from call_ok[of h call env] called obtain h2 where "run_call env h call = Some h2" "hub_ok h2" "same_conns h h2" by blast
  then show ?case using called conn_inv_same by auto
qed

end
