(* ===== verification/HubGuarantees.thy ===== *)
theory HubGuarantees
  imports HubRun
begin

text \<open>
  What the hub guarantees in every reachable state, and what each operation leaves behind:
  the indexes agree with the registered connections, cleanup and revocation are complete,
  refreshed permissions are enforced, slow consumers are dropped.
\<close>

subsection \<open>Shared facts\<close>

lemma reachable_okE: "hub_reachable env h \<Longrightarrow> hub_okE {} {} h"
  using reachable_ok by (simp add: hub_ok_def)

lemma reachable_inv: "hub_reachable env h \<Longrightarrow> hub_inv h"
  using okE_inv[OF reachable_okE] .

lemma ok_on_server:
  assumes "hub_okE E F h"
  shows "on_server h s u = {c \<in> set (h_clients h). c_userID (client h c) = u \<and> s \<in> set (c_servers (client h c))}"
  using assms hub_inv_refs(2)[OF okE_inv[OF assms]]
  by (auto simp: on_server_def hub_okE_def unsettled_def settled_def)

lemma ok_presence:
  assumes "hub_okE E F h"
  shows "presence_of h s u > 0 \<longleftrightarrow> (\<exists>c \<in> set (h_clients h). c_userID (client h c) = u \<and> s \<in> set (c_servers (client h c)))"
proof -
  have "finite (on_server h s u)" by (simp add: on_server_def)
  then show ?thesis
    using okE_inv[OF assms] ok_on_server[OF assms, of s u] by (auto simp: hub_inv_def presence_inv_def card_gt_0_iff)
qed

lemma onlineUserIDs_set: "set (onlineUserIDs h s) = {u. presence_of h s u > 0}"
proof -
  have "u \<in> fst ` set m" if "get_or 0 m u > (0 :: nat)" for m and u :: int
    using that by (cases "map_of m u") (auto simp: get_or_def dest: map_of_SomeD intro: rev_image_eqI)
  then show ?thesis by (auto simp: onlineUserIDs_def presence_of_def Let_def)
qed

lemma announce_join_keeps:
  assumes "announce_join env (Unregister env) h c s r = Some h'"
  shows "keeps h h'"
proof -
  obtain h1 h2 where 1: "(case jr_previous r of None \<Rightarrow> Some h | Some p \<Rightarrow> publishVoiceLeft (Unregister env) h p c) = Some h1"
    and 2: "(let r = jr_replaced r in
       if r = nil then Some h1
       else do {
         (g, _) \<leftarrow> leaveStream env (Unregister env) h1 r ''voice session moved to another connection'';
         map_option fst (SendToConnection (Unregister env)
           (closeVoiceSession env g (c_connectionID (client g r))) (c_connectionID (client g r))
           (closed_event VoiceWebRTCClosedReasonReplaced))
       }) = Some h2"
    and 3: "(if jr_joined r then
         map_option fst (publishToServerExcept (Unregister env) h2 s c
           (mkEvent EventVoiceParticipantJoined (DVoiceParticipantData (jr_participant r))))
       else if jr_updated r then
         map_option fst (publishToServerExcept (Unregister env) h2 s c
           (mkEvent EventVoiceStateUpdated (DVoiceParticipantData (jr_participant r))))
       else Some h2) = Some h'"
    using assms unfolding announce_join_def by (auto simp: bind_eq_Some_conv)
  have k1: "keeps h h1" using 1 keeping.publishVoiceLeft_keeps by (auto split: option.splits)
  have cv: "keeps g (closeVoiceSession env g k)" for g k by (simp add: keeps_def closeVoiceSession_def)
  have k2: "keeps h1 h2"
  proof (cases "jr_replaced r = nil")
    case True
    then show ?thesis using 2 by simp
  next
    case False
    then obtain g x ok where "leaveStream env (Unregister env) h1 (jr_replaced r) ''voice session moved to another connection'' = Some (g, x)"
      "SendToConnection (Unregister env) (closeVoiceSession env g (c_connectionID (client g (jr_replaced r))))
        (c_connectionID (client g (jr_replaced r))) (closed_event VoiceWebRTCClosedReasonReplaced) = Some (h2, ok)"
      using 2 by (auto simp: Let_def bind_eq_Some_conv)
    then show ?thesis
      using keeps_trans[OF keeping.leaveStream_keeps keeps_trans[OF cv keeping.SendToConnection_keeps]] by blast
  qed
  have "keeps h2 h'" using 3 keeping.publishToServerExcept_keeps by (auto split: if_splits)
  then show ?thesis using keeps_trans[OF k1 keeps_trans[OF k2]] by blast
qed

text \<open>Steps that only take away: no seat, server or subscription is added by any of them.\<close>

lemma tidy_steps:
  assumes "hub_inv h"
  shows "wf_event e \<Longrightarrow> SendToConnection (Unregister env) h k e = Some (h', b) \<Longrightarrow> tidy {} {} h h'"
    "wf_event e \<Longrightarrow> publishToServerExcept (Unregister env) h s x e = Some (h', n) \<Longrightarrow> tidy {} {} h h'"
    "leaveStream env (Unregister env) h c reason = Some (h', r) \<Longrightarrow> tidy {} {} h h'"
    "leaveVoice env (Unregister env) h c = Some (h', q) \<Longrightarrow> tidy {} {} h h'"
proof -
  show "wf_event e \<Longrightarrow> SendToConnection (Unregister env) h k e = Some (h', b) \<Longrightarrow> tidy {} {} h h'"
    using un.SendToConnection_tidy[where env = env and E = "{}" and F = "{}", OF assms _ lessI, of e k] by auto
  show "wf_event e \<Longrightarrow> publishToServerExcept (Unregister env) h s x e = Some (h', n) \<Longrightarrow> tidy {} {} h h'"
    using un.publishToServerExcept_tidy[where env = env and E = "{}" and F = "{}", OF assms _ lessI, of e s x] by auto
  have "\<exists>h' r p f. leaveStream env (Unregister env) h c reason = Some (h', r, p, f) \<and> tidy {} {} h h'"
    using un.leaveStream_tidy[where E = "{}" and F = "{}", OF assms order_refl] by blast
  then show "leaveStream env (Unregister env) h c reason = Some (h', r) \<Longrightarrow> tidy {} {} h h'" by auto
  have "\<exists>h' q. leaveVoice env (Unregister env) h c = Some (h', q) \<and> tidy {} {} h h'" if "c \<noteq> nil"
    using un.leaveVoice_tidy[where E = "{}" and F = "{}", OF assms order_refl that] by blast
  then show "leaveVoice env (Unregister env) h c = Some (h', q) \<Longrightarrow> tidy {} {} h h'"
    using tidy_refl[OF assms, of "{}" "{}"] by (cases "c = nil") (auto simp: leaveVoice_def)
qed

lemma closeVoiceSession_tidy: "hub_inv h \<Longrightarrow> tidy {} {} h (closeVoiceSession env h k)"
  by (rule soft_tidy) (simp_all add: closeVoiceSession_def)

lemma announce_join_tidy:
  assumes inv: "hub_inv h" and a: "announce_join env (Unregister env) h c s r = Some h'"
  shows "tidy {} {} h h'"
proof -
  obtain h1 h2 where 1: "(case jr_previous r of None \<Rightarrow> Some h | Some p \<Rightarrow> publishVoiceLeft (Unregister env) h p c) = Some h1"
    and 2: "(let r = jr_replaced r in
       if r = nil then Some h1
       else do {
         (g, _) \<leftarrow> leaveStream env (Unregister env) h1 r ''voice session moved to another connection'';
         map_option fst (SendToConnection (Unregister env)
           (closeVoiceSession env g (c_connectionID (client g r))) (c_connectionID (client g r))
           (closed_event VoiceWebRTCClosedReasonReplaced))
       }) = Some h2"
    and 3: "(if jr_joined r then
         map_option fst (publishToServerExcept (Unregister env) h2 s c
           (mkEvent EventVoiceParticipantJoined (DVoiceParticipantData (jr_participant r))))
       else if jr_updated r then
         map_option fst (publishToServerExcept (Unregister env) h2 s c
           (mkEvent EventVoiceStateUpdated (DVoiceParticipantData (jr_participant r))))
       else Some h2) = Some h'"
    using a unfolding announce_join_def by (auto simp: bind_eq_Some_conv)
  have t1: "tidy {} {} h h1"
    using 1 tidy_steps(2)[OF inv voice_event_wf(1)] tidy_refl[OF inv] by (auto simp: publishVoiceLeft_def split: option.splits)
  note i1 = tidyD(1)[OF t1]
  have t2: "tidy {} {} h1 h2"
  proof (cases "jr_replaced r = nil")
    case True
    then show ?thesis using 2 tidy_refl[OF i1] by simp
  next
    case False
    then obtain g x ok where g: "leaveStream env (Unregister env) h1 (jr_replaced r) ''voice session moved to another connection'' = Some (g, x)"
      and ok: "SendToConnection (Unregister env) (closeVoiceSession env g (c_connectionID (client g (jr_replaced r))))
        (c_connectionID (client g (jr_replaced r))) (closed_event VoiceWebRTCClosedReasonReplaced) = Some (h2, ok)"
      using 2 by (auto simp: Let_def bind_eq_Some_conv)
    note tg = tidy_steps(3)[OF i1 g]
    note tc = closeVoiceSession_tidy[OF tidyD(1)[OF tg]]
    from tidy_trans[OF tg tidy_trans[OF tc tidy_steps(1)[OF tidyD(1)[OF tc] closed_event_wf ok]]] show ?thesis .
  qed
  note i2 = tidyD(1)[OF t2]
  have "tidy {} {} h2 h'" using 3 tidy_steps(2)[OF i2 voice_event_wf(2)] tidy_steps(2)[OF i2 voice_event_wf(3)] tidy_refl[OF i2]
    by (auto split: if_splits)
  from tidy_trans[OF tidy_trans[OF t1 t2] this] show ?thesis .
qed

lemma revoke_key_gone:
  assumes ok: "hub_okE E F h"
  shows "\<exists>h'. revokeSessionKey env h key = Some h' \<and> fine E F h h' \<and> tidy E F h h' \<and>
    (\<forall>c \<in> set (h_clients h). c_sessionKey (client h c) = key \<longrightarrow> gone h' c)"
proof -
  let ?cs = "get_or [] (h_clientsBySession h) key"
  note inv = okE_inv[OF ok]
  have "\<exists>h'. foreach (\<lambda>h c. Unregister env (close_client h c ''session expired or revoked'') c) h ?cs = Some h' \<and>
      tidy E F h h' \<and> (\<forall>c \<in> set ?cs. gone h' c)"
  proof (rule foreach_tidy[where K = "h_known h" and b = "Suc (hub_size h)" and P = "\<lambda>_. True" and Q = "\<lambda>c h. gone h c"])
    fix g c
    assume "hub_inv g" "c \<in> set ?cs" "h_known g = h_known h"
    then show "\<exists>h'. Unregister env (close_client g c ''session expired or revoked'') c = Some h' \<and> tidy E F g h' \<and> gone h' c"
      using session_clients_known[OF inv, of key] by (intro close_and_unregister_tidy) auto
  qed (use inv tidyD(6) in auto)
  then show ?thesis
    using tidy_fine[OF _ ok] hub_inv_index(3)[OF inv] by (auto simp: revokeSessionKey_def)
qed

subsection \<open>A sample run\<close>

text \<open>Two users connect and register on server 1; the first follows channel 5 and joins voice there.\<close>

definition sample_env :: hub_env where
  "sample_env = \<lparr> e_channelAccessLoader = Some (\<lambda>_ _. Inr (Some [5])), e_channelAccessBatchLoader = None,
     e_rolePermissions = None, e_voiceDeviceActive = None, e_lastSeenSaver = True, e_voiceSessions = True,
     e_streamSessions = True, e_now = (\<lambda>n. int n) \<rparr>"

definition sample_connect :: "hub \<Rightarrow> cref \<Rightarrow> int \<Rightarrow> hub" where
  "sample_connect h c u = connect (\<lambda>s. s) (\<lambda>s. s) h c u (replicate (nat u) CHR ''k'') [1] False False"

definition sample_hub1 :: hub where
  "sample_hub1 = the (run_call sample_env (sample_connect (SetStreamSessionCloser NewHub 0 0) 2 7) (CallRegister 2))"

definition sample_hub2 :: hub where
  "sample_hub2 = the (run_call sample_env (sample_connect sample_hub1 3 8) (CallRegister 3))"

definition sample_hub3 :: hub where
  "sample_hub3 = the (run_call sample_env sample_hub2 (CallSubscribe 2 1 5))"

definition sample_hub :: hub where
  "sample_hub = the (run_call sample_env sample_hub3 (CallJoinVoice 2 1 5 False False []))"

lemma reachable_run:
  assumes "hub_reachable env h" "callable h call"
  shows "hub_reachable env (the (run_call env h call))"
proof -
  obtain h' where "run_call env h call = Some h'" using call_ok[of h call env] reachable_ok[OF assms(1)] assms(2) by blast
  then show ?thesis using hub_reachable.called[OF assms] by simp
qed

lemma reachable_sample_connect:
  assumes "hub_reachable env h" "c \<noteq> nil" "c \<notin> fst ` set (h_heap h)" "unat (h_nextConnectionID h) + 1 < 2 ^ 64"
  shows "hub_reachable env (sample_connect h c u)"
  unfolding sample_connect_def by (rule hub_reachable.connected[OF assms])

definition sample_view where
  "sample_view h = (h_clients h, h_known h, map fst (h_heap h), unat (h_nextConnectionID h),
     map (\<lambda>c. (c_userID (client h c), c_servers (client h c), c_sessionKey (client h c),
       map_of (c_subscriptions (client h c)) 5, voice_current (h_voice h) c \<noteq> None)) [2, 3], members h 5)"

lemma sample_value1: "sample_view sample_hub1 =
    ([2], [2], [2], 1, [(7, [1], ''kkkkkkk'', None, False), (0, [], [], None, False)], [])"
  by code_simp

lemma sample_value: "sample_view sample_hub =
    ([3, 2], [3, 2], [2, 3], 2,
     [(7, [1], ''kkkkkkk'', Some 1, True), (8, [1], ''kkkkkkkk'', None, False)], [2])"
  by code_simp

lemma sample_facts:
  "h_clients sample_hub = [3, 2]" "h_known sample_hub = [3, 2]" "members sample_hub 5 = [2]"
  "c_userID (client sample_hub 2) = 7" "c_userID (client sample_hub 3) = 8"
  "c_servers (client sample_hub 2) = [1]" "c_servers (client sample_hub 3) = [1]"
  "c_sessionKey (client sample_hub 2) = ''kkkkkkk''"
  using sample_value by (simp_all add: sample_view_def)

lemma registered2: "2 \<in> set (h_known sample_hub2)"
proof -
  have "List.member (h_known sample_hub2) 2" by code_simp
  then show ?thesis by simp
qed

lemma sample_hub_reachable:
  "hub_reachable sample_env sample_hub1" "hub_reachable sample_env sample_hub2"
  "hub_reachable sample_env sample_hub3" "hub_reachable sample_env sample_hub"
proof -
  have 0: "hub_reachable sample_env (sample_connect (SetStreamSessionCloser NewHub 0 0) 2 7)"
    by (rule reachable_sample_connect[OF hub_reachable.start]) (simp_all add: SetStreamSessionCloser_def NewHub_def)
  have new: "callable (sample_connect h c u) (CallRegister c)" for h c u
    by (simp add: callable_def sample_connect_def connect_def Let_def set_client_def dom_update split: prod.split)
  from reachable_run[OF 0 new] show 1: "hub_reachable sample_env sample_hub1" by (simp add: sample_hub1_def)
  have k: "set (map fst (h_heap sample_hub1)) = {2}" "unat (h_nextConnectionID sample_hub1) = 1"
    using sample_value1 by (simp_all add: sample_view_def del: set_map)
  have c: "hub_reachable sample_env (sample_connect sample_hub1 3 8)"
    by (rule reachable_sample_connect[OF 1]) (use k in simp_all)
  from reachable_run[OF c new] show 2: "hub_reachable sample_env sample_hub2" by (simp add: sample_hub2_def)
  from reachable_run[OF this, of "CallSubscribe 2 1 5"]
  show 3: "hub_reachable sample_env sample_hub3" by (simp add: sample_hub3_def callable_def)
  have "h_known sample_hub3 = h_known sample_hub2"
    using Subscribe_fine[OF reachable_okE[OF 2], of 2 1 5] by (simp add: sample_hub3_def fine_def)
  moreover have "2 \<in> set (h_known sample_hub2)" using registered2 by simp
  ultimately show "hub_reachable sample_env sample_hub"
    using reachable_run[OF 3, of "CallJoinVoice 2 1 5 False False []"] by (simp add: sample_hub_def callable_def)
qed

subsection \<open>Reachable states\<close>

text \<open>C1: no operation of the hub panics or fails to return. In every state a run can reach, every
  call the code makes returns, and the state it leaves is again a state of a run.\<close>

theorem hub_calls_return:
  assumes "hub_reachable env h" "callable h call"
  shows "\<exists>h'. run_call env h call = Some h' \<and> hub_reachable env h'"
  using reachable_run[OF assms] call_ok[of h call env] reachable_ok[OF assms(1)] assms(2) by auto

theorem hub_calls_return_witness:
  "callable sample_hub (CallUnregister 2) \<and>
   (\<exists>h'. run_call sample_env sample_hub (CallUnregister 2) = Some h' \<and> hub_reachable sample_env h')"
proof -
  have c: "callable sample_hub (CallUnregister 2)" by (simp add: callable_def sample_facts)
  from hub_calls_return[OF sample_hub_reachable(4) this] c show ?thesis by blast
qed

text \<open>C25: the records of registered connections are well formed. A registered connection is an
  allocated client with a connection id of its own, its lanes hold at most \<open>outgoingBufferSize\<close>
  events each, and everything that waits in them belongs to channels it may read.\<close>

theorem hub_clients_wellformed:
  assumes "hub_reachable env h" "c \<in> set (h_clients h)"
  shows "c \<noteq> nil \<and> c \<in> fst ` set (h_heap h) \<and>
    (\<forall>d \<in> set (h_clients h). c_connectionID (client h d) = c_connectionID (client h c) \<longrightarrow> d = c) \<and>
    length (c_outgoing (client h c)) \<le> outgoingBufferSize \<and> length (c_priority (client h c)) \<le> outgoingBufferSize \<and>
    (\<forall>e \<in> set (c_outgoing (client h c)) \<union> set (c_priority (client h c)). visible (client h c) e)"
proof -
  note inv = reachable_inv[OF assms(1)]
  have k: "d \<in> fst ` set (h_heap h)" if "d \<in> set (h_clients h)" for d
    using subsetD[OF hub_inv_refs(1)[OF inv] subsetD[OF hub_inv_refs(2)[OF inv] that]] .
  have "c \<noteq> nil" using known_not_nil[OF reachable_okE[OF assms(1)] subsetD[OF hub_inv_refs(2)[OF inv] assms(2)]] .
  moreover have "d = c" if "d \<in> set (h_clients h)" "c_connectionID (client h d) = c_connectionID (client h c)" for d
    by (rule hub_inv_connections[OF inv k[OF that(1)] k[OF assms(2)] that(2)])
  ultimately show ?thesis
    using k[OF assms(2)] hub_inv_refs(3)[OF inv, of c] by (simp add: client_ok_def)
qed

theorem hub_clients_wellformed_witness:
  "2 \<in> set (h_clients sample_hub) \<and> length (c_outgoing (client sample_hub 2)) \<le> outgoingBufferSize"
  using hub_clients_wellformed[OF sample_hub_reachable(4), of 2] by (simp add: sample_facts)

text \<open>C13: the indexes of the hub agree with the registered connections: by user, by server, by
  session key and by connection id they list exactly the registered connections with that user,
  membership, key or id.\<close>

theorem hub_indexes_agree:
  assumes "hub_reachable env h"
  shows "(c \<in> set (get_or [] (h_clientsByUser h) u) \<longleftrightarrow> c \<in> set (h_clients h) \<and> c_userID (client h c) = u) \<and>
    (c \<in> set (clientsForServer h s) \<longleftrightarrow> c \<in> set (h_clients h) \<and> s \<in> set (c_servers (client h c))) \<and>
    (c \<in> set (get_or [] (h_clientsBySession h) key) \<longleftrightarrow> c \<in> set (h_clients h) \<and> c_sessionKey (client h c) = key) \<and>
    (c \<noteq> nil \<and> clientByConnectionID h k = c \<longleftrightarrow> c \<in> set (h_clients h) \<and> c_connectionID (client h c) = k)"
proof -
  note inv = reachable_inv[OF assms] and I = hub_inv_index[OF reachable_inv[OF assms]]
  have "c \<in> set (h_clients h) \<Longrightarrow> 0 < c" using hub_inv_refs(2,5)[OF inv] by (cases "c = nil") auto
  then have "c \<noteq> nil \<and> clientByConnectionID h k = c \<longleftrightarrow> c \<in> set (h_clients h) \<and> c_connectionID (client h c) = k"
    using I(4)[of k c] by (cases "map_of (h_clientsByConnection h) k") (auto simp: clientByConnectionID_def get_or_def)
  then show ?thesis using I(1-3) by blast
qed

theorem hub_indexes_agree_witness: "2 \<in> set (clientsForServer sample_hub 1)"
  using hub_indexes_agree[OF sample_hub_reachable(4), of 2 0 1 "[]" "[]"] by (simp add: sample_facts)

subsection \<open>Cleanup\<close>

lemma fuel_enough:
  assumes inv: "hub_inv h" and c: "c \<in> set (h_known h)" and n: "hub_size h < n"
  shows "Unregister_fuel n env h c = Unregister env h c"
proof -
  obtain r where "Unregister_fuel (Suc (hub_size h)) env h c = Some r"
    using Unregister_total[OF inv c, of env] unfolding Unregister_def by blast
  with unreg_approx.le[OF fuel_approx[of "Suc (hub_size h)" n env]] n show ?thesis
    by (simp add: Unregister_def del: Unregister_fuel.simps)
qed

text \<open>C15: \<open>Unregister\<close> terminates although the events it broadcasts unregister slow recipients in
  turn. Its recursion is never deeper than the size of the hub (server, voice and stream
  memberships), every larger depth gives the same result, and the result satisfies the recursive
  equation of the code.\<close>

theorem unregister_terminates:
  assumes "hub_reachable env h" "c \<in> set (h_known h)" "hub_size h < depth"
  shows "Unregister_fuel depth env h c = Unregister env h c \<and> Unregister env h c \<noteq> None \<and>
    Unregister env h c = Unregister_body env (Unregister env) h c"
  using fuel_enough[OF reachable_inv[OF assms(1)] assms(2,3), of env] Unregister_total[OF reachable_inv[OF assms(1)] assms(2), of env]
    Unregister_equation[OF reachable_inv[OF assms(1)] assms(2), of env] by (metis option.distinct(1))

theorem unregister_terminates_witness:
  "Unregister sample_env sample_hub 2 \<noteq> None \<and>
   Unregister_fuel (Suc (hub_size sample_hub)) sample_env sample_hub 2 = Unregister sample_env sample_hub 2"
proof -
  have "2 \<in> set (h_known sample_hub)" by (simp add: sample_facts)
  from unregister_terminates[OF sample_hub_reachable(4) this lessI] show ?thesis by blast
qed

text \<open>C14: \<open>Unregister\<close> is complete. Afterwards the connection is closed, in no index, on no server,
  in no room, not in voice and in no stream, and no other connection is left half removed as far
  as servers and rooms go: whatever is not registered is closed and has neither servers nor
  subscriptions.\<close>

theorem unregister_complete:
  assumes "hub_reachable env h" "c \<in> set (h_known h)"
  shows "\<exists>h'. Unregister env h c = Some h' \<and> c_done (client h' c) \<and> c \<notin> set (h_clients h') \<and>
    (\<forall>u s key k. c \<notin> set (get_or [] (h_clientsByUser h') u) \<and> c \<notin> set (clientsForServer h' s) \<and>
       c \<notin> set (get_or [] (h_clientsBySession h') key) \<and> clientByConnectionID h' k \<noteq> c) \<and>
    c_servers (client h' c) = [] \<and> (\<forall>ch. c \<notin> set (members h' ch)) \<and>
    voice_current (h_voice h') c = None \<and> map_of (t_byClient (h_streams h')) c = None \<and>
    (\<forall>d \<in> set (h_known h'). d \<notin> set (h_clients h') \<longrightarrow>
       c_done (client h' d) \<and> c_servers (client h' d) = [] \<and> (\<forall>ch. map_of (c_subscriptions (client h' d)) ch = None))"
proof -
  note ok = reachable_okE[OF assms(1)]
  obtain h' where h': "Unregister env h c = Some h'" "fine {} {} h h'" "gone h' c"
    using Unregister_fine[OF ok assms(2), of env] by blast
  have ok': "hub_okE {} {} h'" using h'(2) by (simp add: fine_def)
  note inv' = okE_inv[OF ok'] and g = h'(3)[unfolded gone_def settled_def]
  have "c \<noteq> nil" using known_not_nil[OF ok assms(2)] .
  then have k: "clientByConnectionID h' k \<noteq> c" for k
    using clientByConnectionID_client[OF inv', of k] g by metis
  have i: "c \<notin> set (get_or [] (h_clientsByUser h') u)" "c \<notin> set (clientsForServer h' s)"
    "c \<notin> set (get_or [] (h_clientsBySession h') key)" for u s key
    using g hub_inv_index(1-3)[OF inv'] by simp_all
  have m: "c \<notin> set (members h' ch)" for ch using g hub_inv_rooms(1)[OF inv', of c ch] by simp
  have u: "\<forall>d \<in> set (h_known h'). d \<notin> set (h_clients h') \<longrightarrow> settled h' d"
    using ok' by (auto simp: hub_okE_def unsettled_def)
  show ?thesis
    by (rule exI[of _ h']) (use h'(1) g k i m u in \<open>simp add: voice_current_def settled_def\<close>)
qed

theorem unregister_complete_witness:
  "\<exists>h'. Unregister sample_env sample_hub 2 = Some h' \<and> voice_current (h_voice h') 2 = None \<and> 2 \<notin> set (members h' 5)"
proof -
  have "2 \<in> set (h_known sample_hub)" by (simp add: sample_facts)
  from unregister_complete[OF sample_hub_reachable(4) this] show ?thesis by blast
qed

subsection \<open>Revocation\<close>

text \<open>C16: removing a user from a server is complete. Every connection the user had is afterwards
  off that server: not a member, not in the server's index, following none of its channels, not in
  its voice channels and in none of its streams.\<close>

theorem revoke_user_complete:
  assumes "hub_reachable env h" "userID > 0" "serverID > 0" "c \<in> set (h_clients h)" "c_userID (client h c) = userID"
  shows "\<exists>h'. RevokeUserFromServer env h userID serverID = Some h' \<and> serverID \<notin> set (c_servers (client h' c)) \<and>
    c \<notin> set (clientsForServer h' serverID) \<and> (\<forall>ch. map_of (c_subscriptions (client h' c)) ch \<noteq> Some serverID) \<and>
    (\<forall>p. voice_current (h_voice h') c = Some p \<longrightarrow> vp_ServerID p \<noteq> serverID) \<and>
    (\<forall>st. map_of (t_byClient (h_streams h')) c = Some st \<longrightarrow> as_serverID (stream_at (h_streams h') (st_stream st)) \<noteq> serverID)"
proof -
  obtain h' where h': "RevokeUserFromServer env h userID serverID = Some h'" "fine {} {} h h'"
    "\<forall>c \<in> set (h_clients h). c_userID (client h' c) = userID \<longrightarrow> detached_from serverID h' c"
    using RevokeUserFromServer_facts[of h userID serverID env] reachable_ok[OF assms(1)] assms(2,3) by blast
  have ok': "hub_okE {} {} h'" "c_userID (client h' c) = userID" using h'(2) assms(5) by (simp_all add: fine_def)
  have d: "detached_from serverID h' c" using h'(3) assms(4) ok'(2) by blast
  have i: "c \<notin> set (clientsForServer h' serverID)"
    using hub_inv_index(2)[OF okE_inv[OF ok'(1)]] d by (simp add: detached_from_def)
  have "as_serverID (stream_at (h_streams h') (st_stream st)) \<noteq> serverID" if "map_of (t_byClient (h_streams h')) c = Some st" for st
    using seatedD(3)[OF okE_seated[OF ok'(1)] that] d by (auto simp: detached_from_def)
  then show ?thesis using h'(1) d i by (simp add: detached_from_def voice_current_def)
qed

theorem revoke_user_complete_witness:
  "\<exists>h'. RevokeUserFromServer sample_env sample_hub 7 1 = Some h' \<and> 2 \<notin> set (clientsForServer h' 1)"
  using revoke_user_complete[OF sample_hub_reachable(4), of 7 1 2] by (auto simp: sample_facts)

text \<open>revoking a session disconnects it everywhere: every registered connection that was opened
  with the session's key is closed and left nowhere.\<close>

theorem revoke_session_complete:
  assumes "hub_reachable env h"
  shows "\<exists>h'. RevokeSession env sha256 trimSpace h token = Some h' \<and>
    (\<forall>c \<in> set (h_clients h). c_sessionKey (client h c) = newSessionKey sha256 trimSpace token \<longrightarrow> gone h' c) \<and>
    get_or [] (h_clientsBySession h') (newSessionKey sha256 trimSpace token) = []"
proof -
  let ?k = "newSessionKey sha256 trimSpace token"
  note ok = reachable_okE[OF assms]
  obtain h' where h': "revokeSessionKey env h ?k = Some h'" "fine {} {} h h'" "tidy {} {} h h'"
    "\<forall>c \<in> set (h_clients h). c_sessionKey (client h c) = ?k \<longrightarrow> gone h' c"
    using revoke_key_gone[OF ok] by blast
  have ok': "hub_okE {} {} h'" using h'(2) by (simp add: fine_def)
  have "c \<notin> set (get_or [] (h_clientsBySession h') ?k)" for c
  proof
    assume "c \<in> set (get_or [] (h_clientsBySession h') ?k)"
    then have "c \<in> set (h_clients h')" "c_sessionKey (client h' c) = ?k"
      using hub_inv_index(3)[OF okE_inv[OF ok']] by blast+
    moreover from this have "c \<in> set (h_clients h)" "c_sessionKey (client h c) = ?k"
      using tidyD(3)[OF h'(3)] by (auto simp: shrinks_def cid_def)
    ultimately show False using h'(4) by (auto simp: gone_def)
  qed
  then have "set (get_or [] (h_clientsBySession h') ?k) = {}" by (intro equals0I) simp
  then show ?thesis using h'(1,4) by (simp add: RevokeSession_def)
qed

theorem revoke_session_complete_witness:
  "\<exists>h'. RevokeSession sample_env (\<lambda>s. s) (\<lambda>s. s) sample_hub ''kkkkkkk'' = Some h' \<and> gone h' 2"
  using revoke_session_complete[OF sample_hub_reachable(4), of "\<lambda>s. s" "\<lambda>s. s" "''kkkkkkk''"]
  by (auto simp: sample_facts newSessionKey_def)

text \<open>Deleting a server is complete. Nobody is left on it: its index and its list of online
  users are empty, and nobody follows one of its channels, takes part in its voice channels or in
  its streams.\<close>

theorem revoke_server_complete:
  assumes "hub_reachable env h" "serverID > 0"
  shows "\<exists>h'. RevokeServer env h serverID = Some h' \<and> clientsForServer h' serverID = [] \<and> onlineUserIDs h' serverID = [] \<and>
    (\<forall>c ch. map_of (c_subscriptions (client h' c)) ch \<noteq> Some serverID) \<and>
    (\<forall>c p. voice_current (h_voice h') c = Some p \<longrightarrow> vp_ServerID p \<noteq> serverID) \<and>
    (\<forall>c st. map_of (t_byClient (h_streams h')) c = Some st \<longrightarrow> as_serverID (stream_at (h_streams h') (st_stream st)) \<noteq> serverID)"
proof -
  obtain h' where h': "RevokeServer env h serverID = Some h'" "fine {} {} h h'"
    "\<forall>c \<in> set (h_known h). detached_from serverID h' c"
    using RevokeServer_facts[of h serverID env] reachable_ok[OF assms(1)] assms(2) by blast
  have ok': "hub_okE {} {} h'" "h_known h' = h_known h" using h'(2) by (simp_all add: fine_def)
  note inv' = okE_inv[OF ok'(1)]
  have d: "c \<in> set (h_known h') \<Longrightarrow> detached_from serverID h' c" for c using h'(3) ok'(2) by simp
  have n: "c \<in> set (h_clients h') \<Longrightarrow> serverID \<notin> set (c_servers (client h' c))" for c
    using d hub_inv_refs(2)[OF inv'] by (auto simp: detached_from_def)
  have v: "vp_ServerID p \<noteq> serverID" if "map_of (v_byClient (h_voice h')) c = Some p" for c p
    using d[OF voice_known[OF ok'(1) that]] that by (simp add: detached_from_def)
  have "set (clientsForServer h' serverID) = {}" using hub_inv_index(2)[OF inv'] n by (intro equals0I) blast
  moreover have "set (onlineUserIDs h' serverID) = {}"
    using ok_presence[OF ok'(1), of serverID] n by (auto simp: onlineUserIDs_set)
  moreover have "map_of (c_subscriptions (client h' c)) ch \<noteq> Some serverID" for c ch
    using d[of c] hub_inv_rooms(2)[OF inv', of c ch] by (auto simp: detached_from_def)
  moreover have "as_serverID (stream_at (h_streams h') (st_stream st)) \<noteq> serverID"
    if "map_of (t_byClient (h_streams h')) c = Some st" for c st
    using seatedD(3)[OF okE_seated[OF ok'(1)] that] v by auto
  ultimately show ?thesis using h'(1) v by (simp add: voice_current_def)
qed

theorem revoke_server_complete_witness:
  "\<exists>h'. RevokeServer sample_env sample_hub 1 = Some h' \<and> onlineUserIDs h' 1 = []"
proof -
  have "(1 :: int) > 0" by simp
  from revoke_server_complete[OF sample_hub_reachable(4) this] show ?thesis by blast
qed

text \<open>deleting a channel is complete. Afterwards its room is empty and nobody follows the
  channel, is in its voice room or in one of its streams.\<close>

theorem remove_channel_complete:
  assumes "hub_reachable env h" "channelID > 0"
  shows "\<exists>h'. RemoveChannel env h channelID = Some h' \<and> members h' channelID = [] \<and>
    (\<forall>c. map_of (c_subscriptions (client h' c)) channelID = None) \<and>
    (\<forall>c p. voice_current (h_voice h') c = Some p \<longrightarrow> vp_ChannelID p \<noteq> channelID) \<and>
    (\<forall>c st. map_of (t_byClient (h_streams h')) c = Some st \<longrightarrow> as_channelID (stream_at (h_streams h') (st_stream st)) \<noteq> channelID)"
proof -
  obtain h' where h': "RemoveChannel env h channelID = Some h'" "fine {} {} h h'" "streamless h' channelID"
    "\<forall>c. map_of (c_subscriptions (client h' c)) channelID = None"
    "\<forall>c p. map_of (v_byClient (h_voice h')) c = Some p \<longrightarrow> vp_ChannelID p \<noteq> channelID"
    using RemoveChannel_facts[OF reachable_okE[OF assms(1)] assms(2), of env] by blast
  have inv': "hub_inv h'" using h'(2) okE_inv unfolding fine_def by blast
  have "set (members h' channelID) = {}" using hub_inv_rooms(1)[OF inv'] h'(4) by (intro equals0I) simp
  then show ?thesis using h'(1,3,4,5) by (auto simp: streamless_def voice_current_def)
qed

theorem remove_channel_complete_witness:
  "\<exists>h'. RemoveChannel sample_env sample_hub 5 = Some h' \<and> members h' 5 = []"
proof -
  have "(5 :: int) > 0" by simp
  from remove_channel_complete[OF sample_hub_reachable(4) this] show ?thesis by blast
qed

subsection \<open>Permissions and delivery\<close>

text \<open>C17: a refresh of the channel permissions takes effect at once. When the hub has a permission
  loader, every connection that is still registered on the server afterwards holds the policy that
  the loader returned for its user in this refresh, follows only channels of that server that this
  policy lists, and is in voice only in a channel it lists; a connection whose policy could not be
  loaded is no longer registered.\<close>

theorem refresh_access_enforced:
  assumes "hub_reachable env h" "e_channelAccessLoader env \<noteq> None \<or> e_channelAccessBatchLoader env \<noteq> None"
  shows "\<exists>h'. RefreshChannelAccess env h serverID = Some h' \<and>
    (\<forall>c \<in> set (clientsForServer h' serverID). \<exists>policy.
       loaded_policy env h (clientsForServer h serverID) (c_userID (client h' c)) = Some policy \<and>
       c_channelAccess (client h' c) = Some policy \<and>
       (\<forall>ch. map_of (c_subscriptions (client h' c)) ch = Some serverID \<longrightarrow> ch \<in> set policy) \<and>
       (\<forall>p. voice_current (h_voice h') c = Some p \<longrightarrow> vp_ChannelID p \<in> set policy))"
proof -
  obtain h' where h': "RefreshChannelAccess env h serverID = Some h'" "fine {} {} h h'"
    "\<forall>c \<in> set (h_clients h'). serverID \<in> set (c_servers (client h' c)) \<longrightarrow>
       confined serverID h' c \<and> (\<exists>policy. c_channelAccess (client h' c) = Some policy \<and>
         loaded_policy env h (clientsForServer h serverID) (c_userID (client h' c)) = Some policy)"
    using RefreshChannelAccess_facts[OF reachable_okE[OF assms(1)], of env serverID] assms(2) by blast
  have inv': "hub_inv h'" using h'(2) okE_inv unfolding fine_def by blast
  have "\<exists>policy. loaded_policy env h (clientsForServer h serverID) (c_userID (client h' c)) = Some policy \<and>
       c_channelAccess (client h' c) = Some policy \<and>
       (\<forall>ch. map_of (c_subscriptions (client h' c)) ch = Some serverID \<longrightarrow> ch \<in> set policy) \<and>
       (\<forall>p. voice_current (h_voice h') c = Some p \<longrightarrow> vp_ChannelID p \<in> set policy)"
    if "c \<in> set (clientsForServer h' serverID)" for c
  proof -
    have "c \<in> set (h_clients h')" "serverID \<in> set (c_servers (client h' c))" using that hub_inv_index(2)[OF inv'] by blast+
    then obtain policy where "confined serverID h' c" "c_channelAccess (client h' c) = Some policy"
      "loaded_policy env h (clientsForServer h serverID) (c_userID (client h' c)) = Some policy" using h'(3) by blast
    then show ?thesis by (auto simp: confined_def canAccessChannel_def voice_current_def)
  qed
  then show ?thesis using h'(1) by blast
qed

theorem refresh_access_enforced_witness:
  "\<exists>h'. RefreshChannelAccess sample_env sample_hub 1 = Some h' \<and> 2 \<in> set (clientsForServer h' 1) \<and>
     c_channelAccess (client h' 2) = Some [5]"
proof -
  have l: "e_channelAccessLoader sample_env \<noteq> None \<or> e_channelAccessBatchLoader sample_env \<noteq> None" by (simp add: sample_env_def)
  have "case RefreshChannelAccess sample_env sample_hub 1 of Some h' \<Rightarrow> List.member (clientsForServer h' 1) 2 | None \<Rightarrow> False"
    by code_simp
  then obtain h' where h': "RefreshChannelAccess sample_env sample_hub 1 = Some h'" "2 \<in> set (clientsForServer h' 1)"
    by (auto split: option.splits)
  have "loaded_policy sample_env g cs u = Some [5]" for g cs u by (simp add: loaded_policy_def sample_env_def)
  then show ?thesis using refresh_access_enforced[OF sample_hub_reachable(4) l, of 1] h' by force
qed

text \<open>What an accepted send leaves in the lanes of a connection: nothing if the connection may not
  see the event; a media event at the end of the media lane; an event that must not be dropped at
  the end of those of the ordinary lane; a message delta itself, or a catch-up marker for its
  channel, or reactions to the same message of a later revision.\<close>

definition delivered :: "Client \<Rightarrow> OutgoingEvent \<Rightarrow> Client \<Rightarrow> bool" where
  "delivered c e c' \<longleftrightarrow>
     (case admitted c e of
        None \<Rightarrow> c_outgoing c' = c_outgoing c \<and> c_priority c' = c_priority c
      | Some q \<Rightarrow>
          (if media q then c_priority c' = c_priority c @ [q] \<and> c_outgoing c' = c_outgoing c
           else c_priority c' = c_priority c \<and>
             filter critical (c_outgoing c') = filter critical (c_outgoing c) @ (if critical q then [q] else []) \<and>
             (eventMessageChannel q > 0 \<longrightarrow> q \<in> set (c_outgoing c') \<or>
                marked (c_outgoing c') (eventMessageChannel q) \<or> (\<exists>q' \<in> set (c_outgoing c'). newer q' q))))"

lemma enqueue_delivered:
  assumes "client_ok c" "wf_event e" "enqueue c e = Some (c', True)"
  shows "delivered c e c'"
proof -
  have nd: "\<not> c_done c" using assms(3) by (auto simp: enqueue_def)
  note l = enqueue_lanes[OF assms(1,2) nd, unfolded assms(3), simplified]
  show ?thesis
  proof (cases "admitted c e")
    case None
    then show ?thesis using l by (auto simp: delivered_def)
  next
    case (Some q)
    then obtain c1 c2 where c: "c_outgoing c1 = c_outgoing c" "c_priority c1 = c_priority c"
      "c_outgoing c2 = c_outgoing c'" "c_priority c2 = c_priority c'" "lane_result c1 q c2 True" using l by auto
    show ?thesis using c(5) unfolding lane_result_def c(1-4) delivered_def Some by (cases "media q") auto
  qed
qed

lemma hub_enqueue_client:
  assumes "hub_enqueue h c e = Some (h', ok)"
  shows "\<exists>x. enqueue (client h c) e = Some (x, ok) \<and> client h' = (client h)(c := x)"
  using assms by (auto simp: hub_enqueue_def client_set_client fun_eq_iff split: option.splits)

lemma send_all_each:
  assumes "send_all e h cs = Some (h', n, failed)" "distinct cs"
  shows "(\<forall>c \<in> set cs. enqueue (client h c) e = Some (client h' c, c \<notin> set failed)) \<and>
    (\<forall>c. c \<notin> set cs \<longrightarrow> client h' c = client h c) \<and> set failed \<subseteq> set cs"
  using assms
proof (induction cs arbitrary: h h' n failed)
  case Nil
  then show ?case by simp
next
  case (Cons c cs)
  obtain h1 ok n1 f1 where s: "hub_enqueue h c e = Some (h1, ok)" "send_all e h1 cs = Some (h', n1, f1)"
    "failed = (if ok then f1 else c # f1)"
    using Cons.prems(1) by (auto split: option.splits prod.splits if_splits)
  obtain x where x: "enqueue (client h c) e = Some (x, ok)" "client h1 = (client h)(c := x)"
    using hub_enqueue_client[OF s(1)] by blast
  note IH = Cons.IH[OF s(2)]
  have c: "c \<notin> set cs" "distinct cs" using Cons.prems(2) by simp_all
  have "client h' c = x" "c \<notin> set f1" using IH c x(2) by auto
  then show ?case using IH c s(3) x by (auto simp: fun_upd_def split: if_splits)
qed

text \<open>C23: publishing to a channel reaches every member of its room or drops it. Each member is sent
  the event through its own queue exactly once, and no other queue is touched; a member that was
  not dropped then holds the event, or what its queue puts in its place, while the members whose
  queue refused it are unregistered completely. The number returned is the number of members that
  accepted the event.\<close>

theorem publish_delivers_or_drops:
  assumes "hub_reachable env h" "channelID > 0" "wf_event event"
  shows "\<exists>h1 h' n dropped. Publish env h channelID event = Some (h', n) \<and>
    n + length dropped = length (members h channelID) \<and>
    foreach (Unregister env) h1 dropped = Some h' \<and> soft h h1 \<and>
    (\<forall>c \<in> set (members h channelID).
       enqueue (client h c) (snd (shareEncoding h event)) = Some (client h1 c, c \<notin> set dropped) \<and>
       (c \<notin> set dropped \<longrightarrow> delivered (client h c) (snd (shareEncoding h event)) (client h1 c))) \<and>
    (\<forall>c. c \<notin> set (members h channelID) \<longrightarrow> client h1 c = client h c) \<and>
    set dropped \<subseteq> set (members h channelID) \<and> (\<forall>c \<in> set dropped. gone h' c)"
proof (cases "getRoom h channelID")
  case None
  then show ?thesis using assms(2) by (intro exI[of _ h] exI[of _ 0] exI[of _ "[]"]) (simp add: Publish_def members_def getRoom_def)
next
  case (Some room)
  note ok = reachable_okE[OF assms(1)] and inv = reachable_inv[OF assms(1)]
  have m: "members h channelID = rm_clients room" by (rule getRoom_members[OF Some])
  have dist: "distinct (rm_clients room)" using hub_inv_rooms(3)[OF inv] Some by (simp add: getRoom_def)
  obtain h1 e1 where s: "shareEncoding h event = (h1, e1)" by fastforce
  have cl: "client h1 = client h" using s by (auto simp: shareEncoding_def split: if_splits)
  note t = soft_tidy[OF shareEncoding_soft(1)[OF s] inv, of "{}" "{}"]
  have we: "wf_event e1" by (rule shareEncoding_soft(2)[OF s assms(3)])
  have kn: "set (rm_clients room) \<subseteq> set (h_known h1)"
    using room_members_known[OF inv, of channelID] m tidyD(5)[OF t] by simp
  obtain h2 n dropped where r: "send_all e1 h1 (rm_clients room) = Some (h2, n, dropped)" "soft h1 h2"
    "n + length dropped = length (rm_clients room)"
    using send_all_soft[OF subset_trans[OF kn hub_inv_refs(1)[OF tidyD(1)[OF t]]] we hub_inv_refs(3)[OF tidyD(1)[OF t]]] by blast
  note each = send_all_each[OF r(1) dist, unfolded cl]
  note t2 = soft_tidy[OF r(2) tidyD(1)[OF t], of "{}" "{}"]
  have "set dropped \<subseteq> set (h_known h2)" using each kn tidyD(5)[OF t2] by auto
  from un.unreg_all[where env = env and E = "{}" and F = "{}", OF tidyD(1)[OF t2] this lessI]
  obtain h3 where h3: "foreach (Unregister env) h2 dropped = Some h3" "\<forall>c \<in> set dropped. gone h3 c" by blast
  have p: "Publish env h channelID event = Some (h3, n)" using assms(2) Some s r h3(1) by (simp add: Publish_def publish_to_def)
  have "delivered (client h c) e1 (client h2 c)" if "c \<in> set (rm_clients room)" "c \<notin> set dropped" for c
    using enqueue_delivered[OF hub_inv_refs(3)[OF inv] we] each that by auto
  then show ?thesis
    using p h3 r(3) m s each soft_trans[OF shareEncoding_soft(1)[OF s] r(2)]
    by (intro exI[of _ h2] exI[of _ h3] exI[of _ n] exI[of _ dropped]) simp
qed

theorem publish_delivers_or_drops_witness:
  "\<exists>h1 h' n dropped. Publish sample_env sample_hub 5 (mkEvent EventPong NoData) = Some (h', n) \<and>
     n + length dropped = 1 \<and> foreach (Unregister sample_env) h1 dropped = Some h' \<and>
     (2 \<in> set dropped \<or> filter critical (c_outgoing (client h1 2)) =
        filter critical (c_outgoing (client sample_hub 2)) @ [snd (shareEncoding sample_hub (mkEvent EventPong NoData))])"
proof -
  let ?e = "snd (shareEncoding sample_hub (mkEvent EventPong NoData))"
  have e: "wf_event (mkEvent EventPong NoData)" by (rule mkEvent_wf) (simp add: event_types)
  have t: "ev_Type ?e = EventPong" "ev_Data ?e = NoData" by (auto simp: shareEncoding_def mkEvent_def)
  have "admitted x e = Some e" "\<not> media e" "critical e" if "ev_Type e = EventPong" "ev_Data e = NoData" for x e
    using that by (simp_all add: admitted_def filterChannelEvent_def filterLegacyStreamEvent_def critical_def transient_def media_def
        replacementKey_def eventMessageChannel_def has_prefix_def event_types)
  note a = this[OF t]
  have "(5 :: int) > 0" by simp
  from publish_delivers_or_drops[OF sample_hub_reachable(4) this e]
  obtain h1 h' n dropped where r: "Publish sample_env sample_hub 5 (mkEvent EventPong NoData) = Some (h', n)"
    "n + length dropped = 1" "foreach (Unregister sample_env) h1 dropped = Some h'"
    "2 \<notin> set dropped \<longrightarrow> delivered (client sample_hub 2) ?e (client h1 2)" by (auto simp: sample_facts)
  then show ?thesis using a
    by (intro exI[of _ h1] exI[of _ h'] exI[of _ n] exI[of _ dropped]) (auto simp: delivered_def)
qed

text \<open>C26: following a channel and leaving it again are inverse. After a successful \<open>Subscribe\<close>,
  \<open>Unsubscribe\<close> succeeds and restores the members of every room and the subscriptions of every
  connection.\<close>

theorem subscribe_unsubscribe:
  assumes "hub_reachable env h" "Subscribe h c serverID channelID = (h1, True)"
  shows "\<exists>h2. Unsubscribe h1 c channelID = (h2, True) \<and> (\<forall>k. set (members h2 k) = set (members h k)) \<and>
    (\<forall>d k. map_of (c_subscriptions (client h2 d)) k = map_of (c_subscriptions (client h d)) k)"
proof -
  note inv = reachable_inv[OF assms(1)]
  obtain h0 r where g: "getOrCreateRoom h channelID = (h0, r)" by fastforce
  obtain r' added where a: "room_add r c = (r', added)" by fastforce
  have pos: "c \<noteq> nil" "channelID > 0" "added"
    and h1: "h1 = set_client (h0\<lparr> h_rooms := AList.update channelID r' (h_rooms h0) \<rparr>) c
      (addSubscription (client (h0\<lparr> h_rooms := AList.update channelID r' (h_rooms h0) \<rparr>) c) serverID channelID)"
    using assms(2) g a by (auto simp: Subscribe_def Let_def split: if_splits)
  have r: "rm_clients r = members h channelID" "client h0 = client h"
    "map_of (h_rooms h0) k = (if k = channelID then Some r else map_of (h_rooms h) k)" for k
    using g by (auto simp: getOrCreateRoom_def members_def newRoom_def split: option.splits)
  have r': "c \<notin> set (rm_clients r)" "r' = r\<lparr> rm_clients := c # rm_clients r \<rparr>"
    using a pos(3) by (auto simp: room_add_def split: if_splits)
  have n: "map_of (c_subscriptions (client h c)) channelID = None" using hub_inv_rooms(1)[OF inv, of c channelID] r(1) r'(1) by simp
  have cl1: "client h1 d = (if d = c then addSubscription (client h c) serverID channelID else client h d)" for d
    by (simp add: h1 client_set_client r(2))
  have rooms1: "map_of (h_rooms h1) k = (if k = channelID then Some r' else map_of (h_rooms h) k)" for k
    by (simp add: h1 r(3) update_conv')
  have rem: "room_remove r' c = (r'\<lparr> rm_clients := removeAll c (rm_clients r) \<rparr>, True)"
    using r' by (simp add: room_remove_def)
  define h2 where "h2 = fst (Unsubscribe h1 c channelID)"
  have u: "Unsubscribe h1 c channelID = (h2, True)"
    using pos rooms1[of channelID] rem by (simp add: h2_def Unsubscribe_def getRoom_def)
  have m: "members h2 k = (if k = channelID then removeAll c (rm_clients r) else members h k)"
    "map_of (c_subscriptions (client h2 d)) k = map_of (c_subscriptions (client h d)) k" for d k
    using pos rooms1[of channelID] rooms1[of k] rem n cl1
    by (auto simp: h2_def Unsubscribe_def getRoom_def members_def client_set_client update_conv' delete_conv'
        removeSubscription_def addSubscription_def)
  show ?thesis using u m r(1) r'(1) by auto
qed

theorem subscribe_unsubscribe_witness:
  "\<exists>h1 h2. Subscribe sample_hub 3 1 5 = (h1, True) \<and> Unsubscribe h1 3 5 = (h2, True) \<and> set (members h2 5) = {2}"
proof -
  have "snd (Subscribe sample_hub 3 1 5)" by code_simp
  then obtain h1 where h1: "Subscribe sample_hub 3 1 5 = (h1, True)" by (cases "Subscribe sample_hub 3 1 5") auto
  from subscribe_unsubscribe[OF sample_hub_reachable(4) this] h1 show ?thesis by (auto simp: sample_facts)
qed

text \<open>Joining voice seats the user on this connection. When \<open>JoinVoiceWithDevice\<close> succeeds, the
  participant it reports carries the requested server, channel, mute flags and device; unless the
  connection was dropped while the join was announced, the user's only place in voice is then this
  connection in that channel.\<close>

theorem join_voice_seats:
  assumes "hub_reachable env h" "c \<in> set (h_known h)"
    and "JoinVoiceWithDevice env h c serverID channelID selfMute selfDeaf deviceID = Some (h', Some d)"
  shows "vp_UserID (vj_Participant d) = c_userID (client h c) \<and> vp_ServerID (vj_Participant d) = serverID \<and>
    vp_ChannelID (vj_Participant d) = channelID \<and> vp_SelfMute (vj_Participant d) = selfMute \<and>
    vp_SelfDeaf (vj_Participant d) = selfDeaf \<and> vp_E2EEDeviceID (vj_Participant d) = deviceID \<and>
    (c \<in> set (h_clients h') \<longrightarrow> voice_abs (h_voice h') (c_userID (client h c)) = Some (c, vj_Participant d)) \<and>
    (\<forall>p. voice_current (h_voice h') c = Some p \<longrightarrow> p = vj_Participant d)"
proof -
  note ok = reachable_okE[OF assms(1)] and ok0 = reachable_ok[OF assms(1), THEN conjunct1]
  obtain g b where j: "join_allowed env h c serverID channelID deviceID = (g, b)" by fastforce
  note J = join_allowed_facts[OF ok j]
  have cn: "c \<noteq> nil" by (rule known_not_nil[OF ok assms(2)])
  have b: "b" using assms(3) j cn by (cases b) (auto simp: JoinVoiceWithDevice_def)
  have g: "hub_ok g" "c \<in> set (h_known g)" using J(1) assms(2) by (simp_all add: fine_def hub_ok_def)
  obtain h1 where h1: "(case voice_current (h_voice g) c of None \<Rightarrow> Some g
       | Some current \<Rightarrow> (if vp_ServerID current \<noteq> serverID \<or> vp_ChannelID current \<noteq> channelID
            then map_option fst (leaveStream env (Unregister env) g c ''voice channel changed'') else Some g)) = Some h1"
      "fine {} {} g h1" "c \<in> set (h_clients h1) \<Longrightarrow> serverID \<in> set (c_servers (client h1 c))"
      "\<And>st. map_of (t_byClient (h_streams h1)) c = Some st \<Longrightarrow>
        as_channelID (stream_at (h_streams h1) (st_stream st)) = channelID \<and>
        as_serverID (stream_at (h_streams h1) (st_stream st)) = serverID"
    using JoinVoice_leave[OF g(1) J(2)[OF b] g(2) refl, of channelID env] by blast
  have k1: "hub_okE {} {} h1" "c_userID (client h1 c) = c_userID (client h c)" using h1(2) J(3) by (simp_all add: fine_def)
  obtain v r where v: "voice_join (h_voice h1) c (client h1 c) serverID channelID selfMute selfDeaf deviceID = Some (v, r)"
    "voice_inv (ident h1) v" "voice_abs v = (voice_abs (h_voice h1))(c_userID (client h1 c) \<mapsto> (c, jr_participant r))"
    and p: "vp_UserID (jr_participant r) = c_userID (client h1 c)" "vp_ServerID (jr_participant r) = serverID"
    "vp_ChannelID (jr_participant r) = channelID" "vp_SelfMute (jr_participant r) = selfMute"
    "vp_SelfDeaf (jr_participant r) = selfDeaf" "vp_E2EEDeviceID (jr_participant r) = deviceID"
    and rp: "jr_replaced r = (case voice_abs (h_voice h1) (c_userID (client h1 c)) of None \<Rightarrow> nil
        | Some (c', _) \<Rightarrow> if c' = c then nil else c')"
    using voice_join_facts[OF okE_voice[OF k1(1)] cn, of "client h1 c" serverID channelID selfMute selfDeaf deviceID]
    by (auto simp: ident_def)
  have a: "announce_join env (Unregister env) (h1\<lparr> h_voice := v \<rparr>) c serverID r = Some h'" "vj_Participant d = jr_participant r"
    using assms(3) cn j b h1(1) v(1) by (auto simp: JoinVoiceWithDevice_def bind_eq_Some_conv)
  have vc: "map_of (v_byClient v) c = Some (jr_participant r)"
    using voice_abs_iff[OF v(2), of "c_userID (client h1 c)" c "jr_participant r"] v(3) by simp
  have "c \<in> set (h_known h1)" using h1(2) g(2) by (simp add: fine_def)
  note t = announce_join_tidy[OF okE_inv[OF joined_ok[OF k1(1) this h1(3,4) v(2,3) p(1-3) rp]] a(1)]
  have only: "p = jr_participant r" if "voice_current (h_voice h') c = Some p" for p
    using voice_shrinks[OF t, of c p] that vc by (simp add: voice_current_def)
  have "voice_abs (h_voice h') (c_userID (client h c)) = Some (c, jr_participant r)" if "c \<in> set (h_clients h')"
  proof -
    have "map_of (v_byClient (h_voice h')) c = Some (jr_participant r)"
      using announce_join_keeps[OF a(1)] that vc by (simp add: keeps_def)
    moreover have "hub_okE {} {} h'"
      using JoinVoice_ok[OF ok0, of c env serverID channelID selfMute selfDeaf deviceID] assms(2,3) by (auto simp: fine_def)
    ultimately show ?thesis using voice_abs_iff[OF okE_voice, of "{}" "{}" h'] p(1) k1(2) by simp
  qed
  then show ?thesis using p a(2) k1(2) only by simp
qed

theorem join_voice_seats_witness:
  "\<exists>h' d. JoinVoiceWithDevice sample_env sample_hub 3 1 5 True False [] = Some (h', Some d) \<and>
     3 \<in> set (h_clients h') \<and> voice_abs (h_voice h') 8 = Some (3, vj_Participant d)"
proof -
  have e: "case JoinVoiceWithDevice sample_env sample_hub 3 1 5 True False [] of
      Some (h', Some d) \<Rightarrow> List.member (h_clients h') 3 | _ \<Rightarrow> False" by code_simp
  then obtain h' d where j: "JoinVoiceWithDevice sample_env sample_hub 3 1 5 True False [] = Some (h', Some d)"
    "3 \<in> set (h_clients h')" by (auto split: option.splits prod.splits)
  have "3 \<in> set (h_known sample_hub)" by (simp add: sample_facts)
  from join_voice_seats[OF sample_hub_reachable(4) this j(1)] j show ?thesis by (auto simp: sample_facts)
qed

end
