(* ===== verification/WsHandler.thy ===== *)
theory WsHandler
  imports HubGuarantees
begin

text \<open>
  The web socket handler (src/internal/realtime/http): what the server does with one frame of a
  client. \<open>handleIncomingEvent\<close> dispatches on the event type; every handler decodes the payload,
  asks the services for permission, calls the hub and the media servers and queues a reply.

  The services are the interfaces the handler is built from, so they are functions of
  \<open>handler_env\<close>; each call is given the number of the call (\<open>ws_tick\<close>), because the answer of a
  service may change from one call to the next. \<^verbatim>\<open>json.Unmarshal\<close> into a payload type is a function
  of the environment as well: the handler only sees the decoded value or an error. What a media
  server does to the hub while it serves a call are calls of its signal sink, so a media call
  returns the list of these signals and its error. A Go \<^verbatim>\<open>error\<close> is an option, \<open>None\<close> for nil; the
  outer \<open>None\<close> of every handler is a panic.
\<close>

subsection \<open>Incoming events\<close>

definition EventPing :: string where
  [event_types]: "EventPing = ''ping''"
definition EventAuthenticate :: string where
  [event_types]: "EventAuthenticate = ''auth''"
definition EventChannelSubscribe :: string where
  [event_types]: "EventChannelSubscribe = ''channel.subscribe''"
definition EventChannelUnsubscribe :: string where
  [event_types]: "EventChannelUnsubscribe = ''channel.unsubscribe''"
definition EventTypingStart :: string where
  [event_types]: "EventTypingStart = ''typing.start''"
definition EventE2EEKeys :: string where
  [event_types]: "EventE2EEKeys = ''e2ee.keys''"
definition EventVoiceJoin :: string where
  [event_types]: "EventVoiceJoin = ''voice.join''"
definition EventVoiceJoined :: string where
  [event_types]: "EventVoiceJoined = ''voice.joined''"
definition EventVoiceStateUpdate :: string where
  [event_types]: "EventVoiceStateUpdate = ''voice.state_update''"
definition EventVoiceLeave :: string where
  [event_types]: "EventVoiceLeave = ''voice.leave''"
definition EventVoiceLeft :: string where
  [event_types]: "EventVoiceLeft = ''voice.left''"
definition EventVoiceWebRTCAnswer :: string where
  [event_types]: "EventVoiceWebRTCAnswer = ''voice.webrtc_answer''"
definition EventVoiceWebRTCAnswered :: string where
  [event_types]: "EventVoiceWebRTCAnswered = ''voice.webrtc_answered''"
definition EventStreamStart :: string where
  [event_types]: "EventStreamStart = ''stream.start''"
definition EventStreamWatch :: string where
  [event_types]: "EventStreamWatch = ''stream.watch''"
definition EventStreamStop :: string where
  [event_types]: "EventStreamStop = ''stream.stop''"
definition EventStreamLeave :: string where
  [event_types]: "EventStreamLeave = ''stream.leave''"
definition EventStreamLeft :: string where
  [event_types]: "EventStreamLeft = ''stream.left''"
definition EventStreamWebRTCAnswer :: string where
  [event_types]: "EventStreamWebRTCAnswer = ''stream.webrtc_answer''"
definition EventStreamWebRTCAnswered :: string where
  [event_types]: "EventStreamWebRTCAnswered = ''stream.webrtc_answered''"
definition EventStreamRecoveryRequest :: string where
  [event_types]: "EventStreamRecoveryRequest = ''stream.recovery_request''"

definition ErrorInvalidEvent :: string where "ErrorInvalidEvent = ''invalid_event''"
definition ErrorInvalidPayload :: string where "ErrorInvalidPayload = ''invalid_payload''"
definition ErrorUnauthorized :: string where "ErrorUnauthorized = ''unauthorized''"
definition ErrorForbidden :: string where "ErrorForbidden = ''forbidden''"
definition ErrorInvalidState :: string where "ErrorInvalidState = ''invalid_state''"
definition ErrorInternal :: string where "ErrorInternal = ''internal_error''"

record IncomingEvent =
  ie_RequestID :: string
  ie_Type :: string
  ie_Data :: string

record VoiceJoinData =
  vd_ServerID :: int
  vd_ChannelID :: int
  vd_SelfMute :: bool
  vd_SelfDeaf :: bool
  vd_E2EEDeviceID :: string

record VoiceStateUpdateData =
  vu_SelfMute :: bool
  vu_SelfDeaf :: bool
  vu_SelfVideo :: "bool option"

record StreamStartData =
  sb_ServerID :: int
  sb_ChannelID :: int
  sb_Mode :: string
  sb_Codec :: string
  sb_HasAudio :: bool
  sb_Renditions :: "StreamRenditionData list"

record StreamWatchData =
  sq_PublisherConnectionID :: string
  sq_ServerID :: int
  sq_ChannelID :: int
  sq_SupportedDynamicRanges :: "string list"
  sq_CodecProfiles :: "StreamCodecProfileData list"

record StreamRecoveryRequestData =
  sy_ServerID :: int
  sy_ChannelID :: int
  sy_Action :: string

record E2EEKeyRecipient =
  ek_UserID :: int
  ek_DeviceID :: string
  ek_Payload :: string

record E2EEKeyBatchData =
  eb_ChannelID :: int
  eb_Keys :: "E2EEKeyRecipient list"

definition MaxE2EEBatchRecipients :: nat where "MaxE2EEBatchRecipients = 32"
definition MaxRelayPayload :: nat where "MaxRelayPayload = 1024"

record AuthenticateData =
  at_Token :: string
  at_MessageSync :: bool
  at_MultipleStreams :: bool

text \<open>The payload decoders. Payloads with a single string field decode to that string.\<close>

record decoders =
  js_Authenticate :: "string \<Rightarrow> AuthenticateData option"
  js_VoiceJoin :: "string \<Rightarrow> VoiceJoinData option"
  js_VoiceStateUpdate :: "string \<Rightarrow> VoiceStateUpdateData option"
  js_WebRTCAnswer :: "string \<Rightarrow> string option"
  js_VoiceICECandidate :: "string \<Rightarrow> VoiceICECandidateData option"
  js_ChannelSubscription :: "string \<Rightarrow> ChannelSubscriptionData option"
  js_Typing :: "string \<Rightarrow> TypingData option"
  js_E2EERelay :: "string \<Rightarrow> E2EERelayData option"
  js_E2EEKeyBatch :: "string \<Rightarrow> E2EEKeyBatchData option"
  js_StreamStart :: "string \<Rightarrow> StreamStartData option"
  js_StreamWatch :: "string \<Rightarrow> StreamWatchData option"
  js_StreamICECandidate :: "string \<Rightarrow> StreamICECandidateData option"
  js_StreamP2PSession :: "string \<Rightarrow> StreamP2PSessionData option"
  js_StreamP2PICECandidate :: "string \<Rightarrow> StreamP2PICECandidateData option"
  js_StreamP2PRestart :: "string \<Rightarrow> string option"
  js_StreamRecovery :: "string \<Rightarrow> StreamRecoveryRequestData option"

subsection \<open>Services\<close>

text \<open>The errors the handler distinguishes with \<^verbatim>\<open>errors.Is\<close>; every other error is \<open>*Failed\<close>.\<close>

datatype access_error = AccessVoiceRequired | AccessNotFound | AccessForbidden | AccessFailed

datatype auth_error = AuthUnauthorized | AuthFailed

datatype read_error = ReadTextChannelRequired | ReadForbidden | ReadChannelNotFound | ReadFailed

datatype media_error =
  MediaSessionNotFound | MediaTooManyICECandidates | MediaRoomFull | MediaViewerLimit | MediaFailed

datatype media_signal =
    VoiceOffer string string
  | VoiceCandidate string ICECandidate
  | VoiceClosed string string
  | StreamOffer string string
  | StreamCandidate string ICECandidate
  | StreamClosed string string

type_synonym media_result = "media_signal list \<times> media_error option"

record voice_media =
  vm_Join :: "nat \<Rightarrow> string \<Rightarrow> int \<Rightarrow> int \<Rightarrow> int \<Rightarrow> bool \<Rightarrow> bool \<Rightarrow> media_result"
  vm_SetState :: "nat \<Rightarrow> string \<Rightarrow> bool \<Rightarrow> bool \<Rightarrow> media_result"
  vm_AcceptAnswer :: "nat \<Rightarrow> string \<Rightarrow> string \<Rightarrow> media_result"
  vm_AddICECandidate :: "nat \<Rightarrow> string \<Rightarrow> ICECandidate \<Rightarrow> media_result"

text \<open>The last three fields of \<open>stream_media\<close> are the optional interfaces the handler tests for.\<close>

record stream_media =
  sm_Start :: "nat \<Rightarrow> string \<Rightarrow> int \<Rightarrow> int \<Rightarrow> int \<Rightarrow> string \<Rightarrow> bool \<Rightarrow> media_result"
  sm_Watch :: "nat \<Rightarrow> string \<Rightarrow> int \<Rightarrow> int \<Rightarrow> int \<Rightarrow> media_result"
  sm_AcceptAnswer :: "nat \<Rightarrow> string \<Rightarrow> string \<Rightarrow> media_result"
  sm_AddICECandidate :: "nat \<Rightarrow> string \<Rightarrow> ICECandidate \<Rightarrow> media_result"
  sm_RequestRecovery :: "nat \<Rightarrow> string \<Rightarrow> string \<Rightarrow> media_result"
  sm_StartWithRenditions ::
    "(nat \<Rightarrow> string \<Rightarrow> int \<Rightarrow> int \<Rightarrow> int \<Rightarrow> string \<Rightarrow> bool \<Rightarrow> Rendition list \<Rightarrow> media_result) option"
  sm_WatchRendition :: "(nat \<Rightarrow> string \<Rightarrow> int \<Rightarrow> int \<Rightarrow> int \<Rightarrow> string \<Rightarrow> media_result) option"
  sm_WatchRenditionForPublisher ::
    "(nat \<Rightarrow> string \<Rightarrow> int \<Rightarrow> int \<Rightarrow> int \<Rightarrow> string \<Rightarrow> string \<Rightarrow> media_result) option"

record voice_encryption =
  en_ChannelRequired :: "nat \<Rightarrow> int \<Rightarrow> string + bool"
  en_DeviceActive :: "nat \<Rightarrow> int \<Rightarrow> string \<Rightarrow> string + bool"

record handler_env =
  hd_hub :: hub_env
  hd_json :: decoders
  hd_trimSpace :: "string \<Rightarrow> string"
  hd_now :: "nat \<Rightarrow> int"
  hd_sha256 :: "string \<Rightarrow> string"
  hd_Authenticate :: "nat \<Rightarrow> string \<Rightarrow> int \<times> auth_error option"
  hd_ListMemberships :: "nat \<Rightarrow> int \<Rightarrow> string + int list"
  hd_ListReads :: "nat \<Rightarrow> int \<Rightarrow> string + ChannelRead list"
  hd_CheckAccess :: "nat \<Rightarrow> int \<Rightarrow> int \<Rightarrow> int \<Rightarrow> access_error option"
  hd_CheckVoiceAccess :: "nat \<Rightarrow> int \<Rightarrow> int \<Rightarrow> int \<Rightarrow> access_error option"
  hd_CheckStreamAccess :: "(nat \<Rightarrow> int \<Rightarrow> int \<Rightarrow> int \<Rightarrow> access_error option) option"
  hd_ListByChannelID :: "nat \<Rightarrow> int \<Rightarrow> int \<Rightarrow> int \<Rightarrow> read_error + ChannelRead list"
  hd_voiceMedia :: voice_media
  hd_streamMedia :: stream_media
  hd_encryption :: "voice_encryption option"

text \<open>The handler's state: the hub, the table of the typing limiter and the call counter.\<close>

record ws =
  ws_hub :: hub
  ws_typing :: "(int \<times> int, int) gomap"
  ws_tick :: nat

definition ws_ask :: "ws \<Rightarrow> (nat \<Rightarrow> 'a) \<Rightarrow> ws \<times> 'a" where
  "ws_ask s f = (s\<lparr> ws_tick := ws_tick s + 1 \<rparr>, f (ws_tick s))"

subsection \<open>Replies and media calls\<close>

definition queueEvent :: "ws \<Rightarrow> cref \<Rightarrow> OutgoingEvent \<Rightarrow> (ws \<times> string option) option" where
  "queueEvent s c event =
     map_option (\<lambda>(h, ok). (s\<lparr> ws_hub := h \<rparr>,
         if ok then None else Some ''websocket client outgoing queue is full''))
       (ClientSend (ws_hub s) c event)"

definition reply :: "string \<Rightarrow> string \<Rightarrow> event_data \<Rightarrow> OutgoingEvent" where
  "reply requestID t d = (mkEvent t d)\<lparr> ev_RequestID := requestID \<rparr>"

definition queueError :: "ws \<Rightarrow> cref \<Rightarrow> string \<Rightarrow> string \<Rightarrow> string \<Rightarrow> (ws \<times> string option) option" where
  "queueError s c requestID code message =
     queueEvent s c (reply requestID EventError (DErrorData \<lparr> er_Code = code, er_Message = message \<rparr>))"

primrec run_signal :: "hub_env \<Rightarrow> hub \<Rightarrow> media_signal \<Rightarrow> hub option" where
  "run_signal env h (VoiceOffer k sdp) = map_option fst (voice_SendOffer env h k sdp)"
| "run_signal env h (VoiceCandidate k candidate) = map_option fst (voice_SendICECandidate env h k candidate)"
| "run_signal env h (VoiceClosed k reason) = CloseVoice env h k reason"
| "run_signal env h (StreamOffer k sdp) = map_option fst (stream_SendOffer env h k sdp)"
| "run_signal env h (StreamCandidate k candidate) = map_option fst (stream_SendICECandidate env h k candidate)"
| "run_signal env h (StreamClosed k reason) = CloseStream env h k reason"

definition media_call :: "handler_env \<Rightarrow> ws \<Rightarrow> (nat \<Rightarrow> media_result) \<Rightarrow> (ws \<times> media_error option) option" where
  "media_call env s f =
     (case f (ws_tick s) of (signals, err) \<Rightarrow>
        map_option (\<lambda>h. (s\<lparr> ws_hub := h, ws_tick := ws_tick s + 1 \<rparr>, err))
          (foreach (run_signal (hd_hub env)) (ws_hub s) signals))"

abbreviation user_of :: "ws \<Rightarrow> cref \<Rightarrow> int" where
  "user_of s c \<equiv> c_userID (client (ws_hub s) c)"

abbreviation conn_of :: "ws \<Rightarrow> cref \<Rightarrow> string" where
  "conn_of s c \<equiv> c_connectionID (client (ws_hub s) c)"

text \<open>The hub operations the handler calls for their effect only.\<close>

definition leave_voice :: "handler_env \<Rightarrow> ws \<Rightarrow> cref \<Rightarrow> (ws \<times> VoiceLeftData option) option" where
  "leave_voice env s c =
     map_option (\<lambda>(h, left). (s\<lparr> ws_hub := h \<rparr>, left)) (LeaveVoice (hd_hub env) (ws_hub s) c)"

definition leave_stream :: "handler_env \<Rightarrow> ws \<Rightarrow> cref \<Rightarrow> string \<Rightarrow> (ws \<times> StreamStoppedData option \<times> bool) option" where
  "leave_stream env s c reason =
     map_option (\<lambda>(h, r). (s\<lparr> ws_hub := h \<rparr>, r)) (LeaveStream (hd_hub env) (ws_hub s) c reason)"

subsection \<open>Channels\<close>

definition checkChannelAccess ::
  "handler_env \<Rightarrow> ws \<Rightarrow> cref \<Rightarrow> string \<Rightarrow> ChannelSubscriptionData \<Rightarrow> (ws \<times> bool \<times> string option) option" where
  "checkChannelAccess env s c requestID d =
     (case ws_ask s (\<lambda>n. hd_CheckAccess env n (cs_ServerID d) (cs_ChannelID d) (user_of s c)) of
        (s1, None) \<Rightarrow> Some (s1, True, None)
      | (s1, Some err) \<Rightarrow>
          map_option (\<lambda>(s2, e). (s2, False, e))
            (if err = AccessNotFound \<or> err = AccessForbidden
             then queueError s1 c requestID ErrorForbidden ''not allowed to subscribe to channel''
             else queueError s1 c requestID ErrorInternal ''internal server error''))"

definition drop_subscription :: "ws \<Rightarrow> cref \<Rightarrow> int \<Rightarrow> ws" where
  "drop_subscription s c channelID = s\<lparr> ws_hub := fst (Unsubscribe (ws_hub s) c channelID) \<rparr>"

text \<open>The read snapshot and the acknowledgement, the part of \<^verbatim>\<open>subscribeToChannel\<close> after the second
  check.\<close>

definition confirm_subscription ::
  "handler_env \<Rightarrow> ws \<Rightarrow> cref \<Rightarrow> string \<Rightarrow> ChannelSubscriptionData \<Rightarrow> (ws \<times> string option) option" where
  "confirm_subscription env s c requestID d =
     (case ws_ask s (\<lambda>n. hd_ListByChannelID env n (cs_ServerID d) (cs_ChannelID d) (user_of s c)) of
        (s1, Inl ReadTextChannelRequired) \<Rightarrow>
          queueEvent s1 c (reply requestID EventChannelSubscribed (DChannelSubscriptionData d))
      | (s1, Inl err) \<Rightarrow>
          (let s2 = drop_subscription s1 c (cs_ChannelID d) in
           if err = ReadForbidden \<or> err = ReadChannelNotFound
           then queueError s2 c requestID ErrorForbidden ''not allowed to subscribe to channel''
           else queueError s2 c requestID ErrorInternal ''internal server error'')
      | (s1, Inr reads) \<Rightarrow>
          do {
            (s2, err) \<leftarrow> queueEvent s1 c (reply requestID EventChannelSubscribed (DChannelSubscriptionData d));
            if err \<noteq> None then Some (s2, err)
            else queueEvent s2 c (mkEvent EventChannelReadSnapshot
              (DChannelReadSnapshotData (NewChannelReadSnapshotData (cs_ServerID d) (cs_ChannelID d) reads)))
          })"

definition subscribeToChannel ::
  "handler_env \<Rightarrow> ws \<Rightarrow> cref \<Rightarrow> IncomingEvent \<Rightarrow> (ws \<times> string option) option" where
  "subscribeToChannel env s c event =
     (case js_ChannelSubscription (hd_json env) (ie_Data event) of
        None \<Rightarrow> queueError s c (ie_RequestID event) ErrorInvalidPayload ''invalid channel subscription payload''
      | Some d \<Rightarrow>
          (if cs_ServerID d \<le> 0 \<or> cs_ChannelID d \<le> 0
           then queueError s c (ie_RequestID event) ErrorInvalidPayload ''server_id and channel_id must be positive''
           else do {
             (s1, allowed, err) \<leftarrow> checkChannelAccess env s c (ie_RequestID event) d;
             if err \<noteq> None \<or> \<not> allowed then Some (s1, err)
             else do {
               let s2 = s1\<lparr> ws_hub := fst (Subscribe (ws_hub s1) c (cs_ServerID d) (cs_ChannelID d)) \<rparr>;
               (s3, allowed, err) \<leftarrow> checkChannelAccess env s2 c (ie_RequestID event) d;
               if err \<noteq> None \<or> \<not> allowed then Some (drop_subscription s3 c (cs_ChannelID d), err)
               else confirm_subscription env s3 c (ie_RequestID event) d
             }
           }))"

definition unsubscribeFromChannel ::
  "handler_env \<Rightarrow> ws \<Rightarrow> cref \<Rightarrow> IncomingEvent \<Rightarrow> (ws \<times> string option) option" where
  "unsubscribeFromChannel env s c event =
     (case js_ChannelSubscription (hd_json env) (ie_Data event) of
        None \<Rightarrow> queueError s c (ie_RequestID event) ErrorInvalidPayload ''invalid channel unsubscription payload''
      | Some d \<Rightarrow>
          (if cs_ServerID d \<le> 0 \<or> cs_ChannelID d \<le> 0
           then queueError s c (ie_RequestID event) ErrorInvalidPayload ''server_id and channel_id must be positive''
           else queueEvent (drop_subscription s c (cs_ChannelID d)) c
             (reply (ie_RequestID event) EventChannelUnsubscribed (DChannelSubscriptionData d))))"

subsection \<open>Typing\<close>

text \<open>Times are nanoseconds since the epoch.\<close>

definition typingMinInterval :: int where "typingMinInterval = 3 * 10 ^ 9"
definition typingLifetime :: int where "typingLifetime = 6 * 10 ^ 9"

definition typing_allow ::
  "(int \<times> int, int) gomap \<Rightarrow> int \<Rightarrow> int \<Rightarrow> int \<Rightarrow> (int \<times> int, int) gomap \<times> bool" where
  "typing_allow seen userID channelID now =
     (if (case map_of seen (userID, channelID) of
            Some previous \<Rightarrow> now - previous < typingMinInterval | None \<Rightarrow> False)
      then (seen, False)
      else let kept = (if length seen > 4096 then filter (\<lambda>(k, t). \<not> now - t > typingMinInterval) seen else seen) in
        (AList.update (userID, channelID) now kept, True))"

definition typingStart :: "handler_env \<Rightarrow> ws \<Rightarrow> cref \<Rightarrow> IncomingEvent \<Rightarrow> (ws \<times> string option) option" where
  "typingStart env s c event =
     (case js_Typing (hd_json env) (ie_Data event) of
        None \<Rightarrow> Some (s, None)
      | Some d \<Rightarrow>
          (if ty_ServerID d \<le> 0 \<or> ty_ChannelID d \<le> 0 \<or>
              \<not> IsSubscribed (client (ws_hub s) c) (ty_ServerID d) (ty_ChannelID d)
           then Some (s, None)
           else let (s1, now) = ws_ask s (hd_now env);
                    (seen, ok) = typing_allow (ws_typing s1) (user_of s1 c) (ty_ChannelID d) now;
                    s2 = s1\<lparr> ws_typing := seen \<rparr> in
             if \<not> ok then Some (s2, None)
             else let (s3, later) = ws_ask s2 (hd_now env) in
               map_option (\<lambda>(h, _). (s3\<lparr> ws_hub := h \<rparr>, None))
                 (PublishExcept (hd_hub env) (ws_hub s3) (ty_ChannelID d) (mkEvent EventTyping (DTypingData
                   \<lparr> ty_ServerID = ty_ServerID d, ty_ChannelID = ty_ChannelID d, ty_UserID = user_of s3 c,
                     ty_ExpiresAt = (later + typingLifetime) div 10 ^ 9 \<rparr>)) c)))"


subsection \<open>Voice\<close>

definition checkVoiceChannelAccess ::
  "handler_env \<Rightarrow> ws \<Rightarrow> cref \<Rightarrow> string \<Rightarrow> int \<Rightarrow> int \<Rightarrow> (ws \<times> bool \<times> string option) option" where
  "checkVoiceChannelAccess env s c requestID serverID channelID =
     (case ws_ask s (\<lambda>n. hd_CheckVoiceAccess env n serverID channelID (user_of s c)) of
        (s1, None) \<Rightarrow> Some (s1, True, None)
      | (s1, Some err) \<Rightarrow>
          map_option (\<lambda>(s2, e). (s2, False, e))
            (case err of
               AccessVoiceRequired \<Rightarrow> queueError s1 c requestID ErrorInvalidState ''channel is not a voice channel''
             | AccessNotFound \<Rightarrow> queueError s1 c requestID ErrorForbidden ''not allowed to join voice channel''
             | AccessForbidden \<Rightarrow> queueError s1 c requestID ErrorForbidden ''not allowed to join voice channel''
             | AccessFailed \<Rightarrow> queueError s1 c requestID ErrorInternal ''internal server error''))"

text \<open>A refusal of \<^verbatim>\<open>checkVoiceEncryption\<close>: the policy, not ok, and the result of the reply.\<close>

definition refuse_mode ::
  "ws \<Rightarrow> cref \<Rightarrow> string \<Rightarrow> bool \<Rightarrow> string \<Rightarrow> string \<Rightarrow> (ws \<times> bool \<times> bool \<times> string option) option" where
  "refuse_mode s c requestID required code message =
     map_option (\<lambda>(s1, e). (s1, required, False, e)) (queueError s c requestID code message)"

definition checkVoiceEncryption ::
  "handler_env \<Rightarrow> ws \<Rightarrow> cref \<Rightarrow> string \<Rightarrow> VoiceJoinData \<Rightarrow> (ws \<times> bool \<times> bool \<times> string option) option" where
  "checkVoiceEncryption env s c requestID d =
     (case hd_encryption env of
        None \<Rightarrow>
          (if vd_E2EEDeviceID d \<noteq> [] then refuse_mode s c requestID False ErrorInvalidState
             ''voice channel does not use end-to-end encryption''
           else Some (s, False, True, None))
      | Some encryption \<Rightarrow>
          (case ws_ask s (\<lambda>n. en_ChannelRequired encryption n (vd_ChannelID d)) of
             (s1, Inl _) \<Rightarrow> refuse_mode s1 c requestID False ErrorInternal ''internal server error''
           | (s1, Inr required) \<Rightarrow>
               (if required \<and> vd_E2EEDeviceID d = []
                then refuse_mode s1 c requestID True ErrorInvalidState ''voice channel requires end-to-end encryption''
                else if \<not> required \<and> vd_E2EEDeviceID d \<noteq> []
                then refuse_mode s1 c requestID False ErrorInvalidState
                  ''voice channel does not use end-to-end encryption''
                else if \<not> required then Some (s1, False, True, None)
                else case ws_ask s1 (\<lambda>n. en_DeviceActive encryption n (user_of s1 c) (vd_E2EEDeviceID d)) of
                  (s2, Inl _) \<Rightarrow> refuse_mode s2 c requestID True ErrorInternal ''internal server error''
                | (s2, Inr active) \<Rightarrow>
                    (if \<not> active
                     then refuse_mode s2 c requestID True ErrorInvalidState ''e2ee device is not registered''
                     else Some (s2, True, True, None)))))"

text \<open>The reply to a join and the media session, the end of \<^verbatim>\<open>joinVoice\<close>.\<close>

definition start_voice_media ::
  "handler_env \<Rightarrow> ws \<Rightarrow> cref \<Rightarrow> string \<Rightarrow> VoiceJoinData \<Rightarrow> VoiceJoinedData \<Rightarrow> (ws \<times> string option) option" where
  "start_voice_media env s c requestID d joined =
     do {
       (s1, err) \<leftarrow> queueEvent s c (reply requestID EventVoiceJoined (DVoiceJoinedData joined));
       if err \<noteq> None then Some (s1, err)
       else do {
         (s2, merr) \<leftarrow> media_call env s1 (\<lambda>n. vm_Join (hd_voiceMedia env) n (conn_of s1 c) (user_of s1 c)
           (vd_ServerID d) (vd_ChannelID d) (vd_SelfMute d) (vd_SelfDeaf d));
         case merr of
           None \<Rightarrow> Some (s2, None)
         | Some e \<Rightarrow>
             do {
               (s3, _) \<leftarrow> leave_voice env s2 c;
               if e = MediaRoomFull then queueError s3 c requestID ErrorInvalidState ''voice channel is full''
               else queueError s3 c requestID ErrorInternal ''failed to start voice media session''
             }
       }
     }"

definition joinVoice :: "handler_env \<Rightarrow> ws \<Rightarrow> cref \<Rightarrow> IncomingEvent \<Rightarrow> (ws \<times> string option) option" where
  "joinVoice env s c event =
     (let requestID = ie_RequestID event in
      case js_VoiceJoin (hd_json env) (ie_Data event) of
        None \<Rightarrow> queueError s c requestID ErrorInvalidPayload ''invalid voice join payload''
      | Some d \<Rightarrow>
          (if vd_ServerID d \<le> 0 \<or> vd_ChannelID d \<le> 0
           then queueError s c requestID ErrorInvalidPayload ''server_id and channel_id must be positive''
           else do {
             (s1, allowed, err) \<leftarrow> checkVoiceChannelAccess env s c requestID (vd_ServerID d) (vd_ChannelID d);
             if err \<noteq> None \<or> \<not> allowed then Some (s1, err)
             else do {
               (s2, required, ok, err) \<leftarrow> checkVoiceEncryption env s1 c requestID d;
               if err \<noteq> None \<or> \<not> ok then Some (s2, err)
               else do {
                 (s3, allowed, err) \<leftarrow> checkVoiceChannelAccess env s2 c requestID (vd_ServerID d) (vd_ChannelID d);
                 if err \<noteq> None \<or> \<not> allowed then Some (s3, err)
                 else do {
                   (h, joined) \<leftarrow> JoinVoiceWithDevice (hd_hub env) (ws_hub s3) c (vd_ServerID d) (vd_ChannelID d)
                     (vd_SelfMute d) (vd_SelfDeaf d) (vd_E2EEDeviceID d);
                   let s4 = s3\<lparr> ws_hub := h \<rparr>;
                   case joined of
                     None \<Rightarrow> queueError s4 c requestID ErrorForbidden ''not allowed to join voice channel''
                   | Some j \<Rightarrow> start_voice_media env s4 c requestID d (j\<lparr> vj_E2EERequired := required \<rparr>)
                 }
               }
             }
           }))"

definition updateVoiceState :: "handler_env \<Rightarrow> ws \<Rightarrow> cref \<Rightarrow> IncomingEvent \<Rightarrow> (ws \<times> string option) option" where
  "updateVoiceState env s c event =
     (let requestID = ie_RequestID event in
      case js_VoiceStateUpdate (hd_json env) (ie_Data event) of
        None \<Rightarrow> queueError s c requestID ErrorInvalidPayload ''invalid voice state payload''
      | Some d \<Rightarrow>
          do {
            (s1, merr) \<leftarrow> media_call env s
              (\<lambda>n. vm_SetState (hd_voiceMedia env) n (conn_of s c) (vu_SelfMute d) (vu_SelfDeaf d));
            case merr of
              Some e \<Rightarrow>
                (if e = MediaSessionNotFound then do {
                   (s2, _) \<leftarrow> leave_voice env s1 c;
                   queueError s2 c requestID ErrorInvalidState ''WebRTC voice session is not active''
                 }
                 else queueError s1 c requestID ErrorInternal ''failed to update voice media state'')
            | None \<Rightarrow>
                do {
                  (h, participant) \<leftarrow> UpdateVoiceState (hd_hub env) (ws_hub s1) c (vu_SelfMute d) (vu_SelfDeaf d)
                    (case vu_SelfVideo d of None \<Rightarrow> [] | Some v \<Rightarrow> [v]);
                  let s2 = s1\<lparr> ws_hub := h \<rparr>;
                  case participant of
                    None \<Rightarrow> queueError s2 c requestID ErrorInvalidState ''voice channel is not joined''
                  | Some p \<Rightarrow> queueEvent s2 c (reply requestID EventVoiceStateUpdated (DVoiceParticipantData p))
                }
          })"

definition handleVoiceMediaInputError ::
  "handler_env \<Rightarrow> ws \<Rightarrow> cref \<Rightarrow> string \<Rightarrow> media_error \<Rightarrow> (ws \<times> string option) option" where
  "handleVoiceMediaInputError env s c requestID err =
     (if err = MediaSessionNotFound
      then queueError s c requestID ErrorInvalidState ''WebRTC voice session is not active''
      else if err = MediaTooManyICECandidates then do {
        (s1, _) \<leftarrow> leave_voice env s c;
        queueError s1 c requestID ErrorInvalidState ''too many pending ICE candidates''
      }
      else queueError s c requestID ErrorInvalidPayload ''invalid WebRTC signaling payload'')"

definition acceptVoiceWebRTCAnswer ::
  "handler_env \<Rightarrow> ws \<Rightarrow> cref \<Rightarrow> IncomingEvent \<Rightarrow> (ws \<times> string option) option" where
  "acceptVoiceWebRTCAnswer env s c event =
     (let requestID = ie_RequestID event;
          sdp = js_WebRTCAnswer (hd_json env) (ie_Data event) in
      if sdp = None \<or> hd_trimSpace env (the sdp) = []
      then queueError s c requestID ErrorInvalidPayload ''invalid WebRTC answer payload''
      else do {
        (s1, merr) \<leftarrow> media_call env s (\<lambda>n. vm_AcceptAnswer (hd_voiceMedia env) n (conn_of s c) (the sdp));
        case merr of
          Some e \<Rightarrow> handleVoiceMediaInputError env s1 c requestID e
        | None \<Rightarrow> queueEvent s1 c (reply requestID EventVoiceWebRTCAnswered
            (DVoiceWebRTCAnsweredData \<lparr> va_Accepted = True \<rparr>))
      })"

definition addVoiceICECandidate ::
  "handler_env \<Rightarrow> ws \<Rightarrow> cref \<Rightarrow> IncomingEvent \<Rightarrow> (ws \<times> string option) option" where
  "addVoiceICECandidate env s c event =
     (let requestID = ie_RequestID event in
      case js_VoiceICECandidate (hd_json env) (ie_Data event) of
        None \<Rightarrow> queueError s c requestID ErrorInvalidPayload ''invalid ICE candidate payload''
      | Some d \<Rightarrow>
          (if hd_trimSpace env (vi_Candidate d) = []
           then queueError s c requestID ErrorInvalidPayload ''invalid ICE candidate payload''
           else do {
             (s1, merr) \<leftarrow> media_call env s (\<lambda>n. vm_AddICECandidate (hd_voiceMedia env) n (conn_of s c)
               \<lparr> ic_Candidate = vi_Candidate d, ic_SDPMid = vi_SDPMid d, ic_SDPMLineIndex = vi_SDPMLineIndex d,
                 ic_UsernameFragment = vi_UsernameFragment d \<rparr>);
             case merr of
               Some e \<Rightarrow> handleVoiceMediaInputError env s1 c requestID e
             | None \<Rightarrow> Some (s1, None)
           }))"

definition ws_leaveVoice :: "handler_env \<Rightarrow> ws \<Rightarrow> cref \<Rightarrow> IncomingEvent \<Rightarrow> (ws \<times> string option) option" where
  "ws_leaveVoice env s c event =
     do {
       (s1, left) \<leftarrow> leave_voice env s c;
       case left of
         None \<Rightarrow> queueError s1 c (ie_RequestID event) ErrorInvalidState ''voice channel is not joined''
       | Some d \<Rightarrow> queueEvent s1 c (reply (ie_RequestID event) EventVoiceLeft (DVoiceLeftData d))
     }"

subsection \<open>Key relay\<close>

definition ValidDeviceID :: "string \<Rightarrow> bool" where
  "ValidDeviceID deviceID \<longleftrightarrow> length deviceID = 32 \<and> list_all (\<lambda>ch. List.member ''0123456789abcdef'' ch) deviceID"

definition base64Text :: "string \<Rightarrow> bool" where
  "base64Text value = list_all (\<lambda>r.
     (CHR ''A'' \<le> r \<and> r \<le> CHR ''Z'') \<or> (CHR ''a'' \<le> r \<and> r \<le> CHR ''z'') \<or>
     (CHR ''0'' \<le> r \<and> r \<le> CHR ''9'') \<or> r = CHR ''+'' \<or> r = CHR ''/'' \<or> r = CHR ''='') value"

definition bad_payload :: "string \<Rightarrow> bool" where
  "bad_payload p \<longleftrightarrow> p = [] \<or> length p > MaxRelayPayload \<or> \<not> base64Text p"

definition relayE2EE :: "handler_env \<Rightarrow> ws \<Rightarrow> cref \<Rightarrow> IncomingEvent \<Rightarrow> (ws \<times> string option) option" where
  "relayE2EE env s c event =
     (case js_E2EERelay (hd_json env) (ie_Data event) of
        None \<Rightarrow> queueError s c (ie_RequestID event) ErrorInvalidPayload ''invalid e2ee relay payload''
      | Some d \<Rightarrow>
          (if ee_ChannelID d \<le> 0 \<or> ee_RecipientUserID d \<le> 0 \<or> \<not> ValidDeviceID (ee_RecipientDeviceID d)
           then queueError s c (ie_RequestID event) ErrorInvalidPayload ''invalid e2ee relay payload''
           else if ie_Type event \<noteq> EventE2EEKeyRequest \<and> bad_payload (ee_Payload d)
           then queueError s c (ie_RequestID event) ErrorInvalidPayload ''e2ee payload must be base64 up to 1 KiB''
           else map_option (\<lambda>(h, _). (s\<lparr> ws_hub := h \<rparr>, None))
             (RelayVoiceE2EE (hd_hub env) (ws_hub s) c (ie_Type event)
               (d\<lparr> ee_Payload := (if ie_Type event = EventE2EEKeyRequest then [] else ee_Payload d),
                   ee_SenderUserID := 0, ee_SenderDeviceID := [], ee_SenderConnectionID := [] \<rparr>))))"

definition relay_key :: "handler_env \<Rightarrow> cref \<Rightarrow> int \<Rightarrow> hub \<Rightarrow> E2EEKeyRecipient \<Rightarrow> hub option" where
  "relay_key env c channelID h key =
     map_option fst (RelayVoiceE2EE (hd_hub env) h c EventE2EEKey
       \<lparr> ee_ChannelID = channelID, ee_RecipientUserID = ek_UserID key, ee_RecipientDeviceID = ek_DeviceID key,
         ee_SenderUserID = 0, ee_SenderDeviceID = [], ee_SenderConnectionID = [], ee_Payload = ek_Payload key \<rparr>)"

definition relayE2EEBatch :: "handler_env \<Rightarrow> ws \<Rightarrow> cref \<Rightarrow> IncomingEvent \<Rightarrow> (ws \<times> string option) option" where
  "relayE2EEBatch env s c event =
     (case js_E2EEKeyBatch (hd_json env) (ie_Data event) of
        None \<Rightarrow> queueError s c (ie_RequestID event) ErrorInvalidPayload ''invalid e2ee key batch''
      | Some batch \<Rightarrow>
          (if eb_ChannelID batch \<le> 0 \<or> length (eb_Keys batch) = 0 \<or>
              length (eb_Keys batch) > MaxE2EEBatchRecipients
           then queueError s c (ie_RequestID event) ErrorInvalidPayload ''invalid e2ee key batch''
           else if list_ex (\<lambda>key. ek_UserID key \<le> 0 \<or> \<not> ValidDeviceID (ek_DeviceID key) \<or>
              bad_payload (ek_Payload key)) (eb_Keys batch)
           then queueError s c (ie_RequestID event) ErrorInvalidPayload ''invalid e2ee key batch recipient''
           else map_option (\<lambda>h. (s\<lparr> ws_hub := h \<rparr>, None))
             (foreach (relay_key env c (eb_ChannelID batch)) (ws_hub s) (eb_Keys batch))))"


subsection \<open>Streams\<close>

definition mediaStreamRenditions :: "StreamRenditionData list \<Rightarrow> Rendition list" where
  "mediaStreamRenditions values = map to_Rendition values"

definition startStreamMedia ::
  "stream_media \<Rightarrow> string \<Rightarrow> int \<Rightarrow> int \<Rightarrow> int \<Rightarrow> string \<Rightarrow> bool \<Rightarrow> Rendition list \<Rightarrow> nat \<Rightarrow> media_result" where
  "startStreamMedia sm connectionID userID serverID channelID codec hasAudio renditions n =
     (case sm_StartWithRenditions sm of
        Some start \<Rightarrow> start n connectionID userID serverID channelID codec hasAudio renditions
      | None \<Rightarrow>
          (case renditions of
             [r] \<Rightarrow> (if r_DynamicRange r \<noteq> ''sdr'' then ([], Some MediaFailed)
                    else sm_Start sm n connectionID userID serverID channelID codec hasAudio)
           | _ \<Rightarrow> ([], Some MediaFailed)))"

definition watchStreamMedia ::
  "stream_media \<Rightarrow> string \<Rightarrow> int \<Rightarrow> int \<Rightarrow> int \<Rightarrow> string \<Rightarrow> string list \<Rightarrow> nat \<Rightarrow> media_result" where
  "watchStreamMedia sm connectionID userID serverID channelID selected publisherConnectionIDs n =
     (case (sm_WatchRenditionForPublisher sm, publisherConnectionIDs) of
        (Some watch, [publisher]) \<Rightarrow> watch n connectionID userID serverID channelID publisher selected
      | _ \<Rightarrow>
          (case sm_WatchRendition sm of
             Some watch \<Rightarrow> watch n connectionID userID serverID channelID selected
           | None \<Rightarrow>
               (if selected \<noteq> ''sdr'' then ([], Some MediaFailed)
                else sm_Watch sm n connectionID userID serverID channelID)))"

definition queueStreamStateError ::
  "ws \<Rightarrow> cref \<Rightarrow> string \<Rightarrow> stream_error \<Rightarrow> (ws \<times> string option) option" where
  "queueStreamStateError s c requestID err =
     (case err of
        ErrStreamVoiceRequired \<Rightarrow> queueError s c requestID ErrorInvalidState ''join the same voice channel first''
      | ErrStreamPublisherLimit \<Rightarrow> queueError s c requestID ErrorInvalidState ''channel stream publisher limit reached''
      | ErrStreamAlreadyActive \<Rightarrow> queueError s c requestID ErrorInvalidState ''stream is already active''
      | ErrStreamViewerLimit \<Rightarrow> queueError s c requestID ErrorInvalidState ''stream viewer limit reached''
      | ErrStreamP2PRelation \<Rightarrow> queueError s c requestID ErrorForbidden ''P2P stream peer is not allowed''
      | ErrStreamRenditionsInvalid \<Rightarrow> queueError s c requestID ErrorInvalidPayload ''stream renditions are invalid''
      | ErrStreamRenditionUnavailable \<Rightarrow>
          queueError s c requestID ErrorInvalidState ''compatible stream rendition is not available''
      | ErrStreamUnavailable \<Rightarrow> queueError s c requestID ErrorInvalidState ''stream is not available'')"

definition stream_permitted :: "handler_env \<Rightarrow> ws \<Rightarrow> cref \<Rightarrow> int \<Rightarrow> int \<Rightarrow> ws \<times> bool" where
  "stream_permitted env s c serverID channelID =
     (case hd_CheckStreamAccess env of
        None \<Rightarrow> (s, True)
      | Some check \<Rightarrow> (case ws_ask s (\<lambda>n. check n serverID channelID (user_of s c)) of
          (s1, err) \<Rightarrow> (s1, err = None)))"

definition startStream :: "handler_env \<Rightarrow> ws \<Rightarrow> cref \<Rightarrow> IncomingEvent \<Rightarrow> (ws \<times> string option) option" where
  "startStream env s c event =
     (let requestID = ie_RequestID event in
      case js_StreamStart (hd_json env) (ie_Data event) of
        None \<Rightarrow> queueError s c requestID ErrorInvalidPayload ''invalid stream start payload''
      | Some d \<Rightarrow>
          (if sb_ServerID d \<le> 0 \<or> sb_ChannelID d \<le> 0 \<or>
              (sb_Mode d \<noteq> StreamModeServer \<and> sb_Mode d \<noteq> StreamModeP2P) \<or> \<not> validStreamCodec (sb_Codec d)
           then queueError s c requestID ErrorInvalidPayload ''invalid stream start payload''
           else case stream_permitted env s c (sb_ServerID d) (sb_ChannelID d) of
             (s1, False) \<Rightarrow> queueError s1 c requestID ErrorForbidden ''stream permission denied''
           | (s1, True) \<Rightarrow>
               do {
                 (h, r) \<leftarrow> StartStreamWithRenditions (hd_hub env) (ws_hub s1) c (sb_ServerID d) (sb_ChannelID d)
                   (sb_Mode d) (sb_Codec d) (sb_HasAudio d) (sb_Renditions d);
                 let s2 = s1\<lparr> ws_hub := h \<rparr>;
                 case r of
                   Inl err \<Rightarrow> queueStreamStateError s2 c requestID err
                 | Inr started \<Rightarrow>
                     do {
                       (s3, merr) \<leftarrow> (if sb_Mode d = StreamModeServer
                         then media_call env s2 (startStreamMedia (hd_streamMedia env) (conn_of s2 c) (user_of s2 c)
                           (sb_ServerID d) (sb_ChannelID d) (sb_Codec d) (sb_HasAudio d)
                           (mediaStreamRenditions (sa_Renditions started)))
                         else Some (s2, None));
                       if merr \<noteq> None then do {
                         (s4, _) \<leftarrow> leave_stream env s3 c ''failed to start stream media session'';
                         queueError s4 c requestID ErrorInternal ''failed to start stream media session''
                       }
                       else queueEvent s3 c (reply requestID EventStreamStarted (DStreamData started))
                     }
               }))"

definition watchStream :: "handler_env \<Rightarrow> ws \<Rightarrow> cref \<Rightarrow> IncomingEvent \<Rightarrow> (ws \<times> string option) option" where
  "watchStream env s c event =
     (let requestID = ie_RequestID event in
      case js_StreamWatch (hd_json env) (ie_Data event) of
        None \<Rightarrow> queueError s c requestID ErrorInvalidPayload ''invalid stream watch payload''
      | Some d \<Rightarrow>
          (if sq_ServerID d \<le> 0 \<or> sq_ChannelID d \<le> 0
           then queueError s c requestID ErrorInvalidPayload ''invalid stream watch payload''
           else do {
             (h, r) \<leftarrow> WatchStreamWithCapabilities (hd_hub env) (ws_hub s) c (sq_ServerID d) (sq_ChannelID d)
               (sq_SupportedDynamicRanges d) (sq_CodecProfiles d) [sq_PublisherConnectionID d];
             let s1 = s\<lparr> ws_hub := h \<rparr>;
             case r of
               Inl err \<Rightarrow> queueStreamStateError s1 c requestID err
             | Inr watching \<Rightarrow>
                 do {
                   (s2, merr) \<leftarrow> (if sa_Mode (sw_Stream watching) = StreamModeServer
                     then media_call env s1 (watchStreamMedia (hd_streamMedia env) (conn_of s1 c) (user_of s1 c)
                       (sq_ServerID d) (sq_ChannelID d) (sw_SelectedRenditionID watching)
                       [sa_PublisherConnectionID (sw_Stream watching)])
                     else Some (s1, None));
                   case merr of
                     None \<Rightarrow> queueEvent s2 c (reply requestID EventStreamWatching (DStreamWatchingData watching))
                   | Some e \<Rightarrow>
                       do {
                         (s3, _) \<leftarrow> leave_stream env s2 c ''failed to start stream viewer session'';
                         if e = MediaViewerLimit
                         then queueError s3 c requestID ErrorInvalidState ''stream viewer limit reached''
                         else queueError s3 c requestID ErrorInternal ''failed to start stream viewer session''
                       }
                 }
           }))"

definition zero_stopped :: StreamStoppedData where
  "zero_stopped = \<lparr> ss_PublisherConnectionID = [], ss_ServerID = 0, ss_ChannelID = 0, ss_Reason = [] \<rparr>"

definition ws_leaveStream :: "handler_env \<Rightarrow> ws \<Rightarrow> cref \<Rightarrow> IncomingEvent \<Rightarrow> (ws \<times> string option) option" where
  "ws_leaveStream env s c event =
     do {
       (s1, left, publisher) \<leftarrow> leave_stream env s c ''stream stopped by user'';
       let d = (case left of None \<Rightarrow> zero_stopped | Some d \<Rightarrow> d);
       queueEvent s1 c (reply (ie_RequestID event)
         (if ss_ChannelID d \<noteq> 0 \<and> publisher then EventStreamStopped else EventStreamLeft) (DStreamStoppedData d))
     }"

definition handleStreamMediaInputError ::
  "handler_env \<Rightarrow> ws \<Rightarrow> cref \<Rightarrow> string \<Rightarrow> media_error \<Rightarrow> (ws \<times> string option) option" where
  "handleStreamMediaInputError env s c requestID err =
     (if err = MediaSessionNotFound
      then queueError s c requestID ErrorInvalidState ''stream WebRTC session is not active''
      else if err = MediaTooManyICECandidates then do {
        (s1, _) \<leftarrow> leave_stream env s c ''too many pending ICE candidates'';
        queueError s1 c requestID ErrorInvalidState ''too many pending ICE candidates''
      }
      else queueError s c requestID ErrorInvalidPayload ''invalid stream WebRTC signaling payload'')"

definition acceptStreamWebRTCAnswer ::
  "handler_env \<Rightarrow> ws \<Rightarrow> cref \<Rightarrow> IncomingEvent \<Rightarrow> (ws \<times> string option) option" where
  "acceptStreamWebRTCAnswer env s c event =
     (let requestID = ie_RequestID event;
          sdp = js_WebRTCAnswer (hd_json env) (ie_Data event) in
      if sdp = None \<or> hd_trimSpace env (the sdp) = []
      then queueError s c requestID ErrorInvalidPayload ''invalid stream WebRTC answer payload''
      else do {
        (s1, merr) \<leftarrow> media_call env s (\<lambda>n. sm_AcceptAnswer (hd_streamMedia env) n (conn_of s c) (the sdp));
        case merr of
          Some e \<Rightarrow> handleStreamMediaInputError env s1 c requestID e
        | None \<Rightarrow> queueEvent s1 c (reply requestID EventStreamWebRTCAnswered
            (DStreamWebRTCAnsweredData \<lparr> sx_Accepted = True \<rparr>))
      })"

definition addStreamICECandidate ::
  "handler_env \<Rightarrow> ws \<Rightarrow> cref \<Rightarrow> IncomingEvent \<Rightarrow> (ws \<times> string option) option" where
  "addStreamICECandidate env s c event =
     (let requestID = ie_RequestID event in
      case js_StreamICECandidate (hd_json env) (ie_Data event) of
        None \<Rightarrow> queueError s c requestID ErrorInvalidPayload ''invalid stream ICE candidate payload''
      | Some d \<Rightarrow>
          (if hd_trimSpace env (si_Candidate d) = []
           then queueError s c requestID ErrorInvalidPayload ''invalid stream ICE candidate payload''
           else do {
             (s1, merr) \<leftarrow> media_call env s (\<lambda>n. sm_AddICECandidate (hd_streamMedia env) n (conn_of s c)
               \<lparr> ic_Candidate = si_Candidate d, ic_SDPMid = si_SDPMid d, ic_SDPMLineIndex = si_SDPMLineIndex d,
                 ic_UsernameFragment = si_UsernameFragment d \<rparr>);
             case merr of
               Some e \<Rightarrow> handleStreamMediaInputError env s1 c requestID e
             | None \<Rightarrow> Some (s1, None)
           }))"

text \<open>The end of the three relay handlers: an error of the hub becomes a reply.\<close>

definition relay_result ::
  "ws \<Rightarrow> cref \<Rightarrow> string \<Rightarrow> (hub \<times> stream_error option) option \<Rightarrow> (ws \<times> string option) option" where
  "relay_result s c requestID r =
     do {
       (h, err) \<leftarrow> r;
       case err of
         None \<Rightarrow> Some (s\<lparr> ws_hub := h \<rparr>, None)
       | Some e \<Rightarrow> queueStreamStateError (s\<lparr> ws_hub := h \<rparr>) c requestID e
     }"

definition relayStreamP2PSession ::
  "handler_env \<Rightarrow> ws \<Rightarrow> cref \<Rightarrow> IncomingEvent \<Rightarrow> (ws \<times> string option) option" where
  "relayStreamP2PSession env s c event =
     (let bad = queueError s c (ie_RequestID event) ErrorInvalidPayload ''invalid P2P stream session payload'' in
      case js_StreamP2PSession (hd_json env) (ie_Data event) of
        None \<Rightarrow> bad
      | Some d \<Rightarrow>
          (if hd_trimSpace env (p2_TargetConnectionID d) = [] \<or> hd_trimSpace env (p2_SDP d) = [] then bad
           else relay_result s c (ie_RequestID event) (RelayStreamP2PSession (hd_hub env) (ws_hub s) c
             (p2_TargetConnectionID d) (p2_SDP d) (ie_Type event))))"

definition relayStreamP2PICECandidate ::
  "handler_env \<Rightarrow> ws \<Rightarrow> cref \<Rightarrow> IncomingEvent \<Rightarrow> (ws \<times> string option) option" where
  "relayStreamP2PICECandidate env s c event =
     (let bad = queueError s c (ie_RequestID event) ErrorInvalidPayload ''invalid P2P stream ICE candidate payload'' in
      case js_StreamP2PICECandidate (hd_json env) (ie_Data event) of
        None \<Rightarrow> bad
      | Some d \<Rightarrow>
          (if hd_trimSpace env (pi_TargetConnectionID d) = [] \<or> hd_trimSpace env (pi_Candidate d) = [] then bad
           else relay_result s c (ie_RequestID event)
             (RelayStreamP2PICECandidate (hd_hub env) (ws_hub s) c d)))"

definition requestStreamP2PRestart ::
  "handler_env \<Rightarrow> ws \<Rightarrow> cref \<Rightarrow> IncomingEvent \<Rightarrow> (ws \<times> string option) option" where
  "requestStreamP2PRestart env s c event =
     (let bad = queueError s c (ie_RequestID event) ErrorInvalidPayload ''invalid P2P stream restart payload'' in
      case js_StreamP2PRestart (hd_json env) (ie_Data event) of
        None \<Rightarrow> bad
      | Some target \<Rightarrow>
          (if hd_trimSpace env target = [] then bad
           else relay_result s c (ie_RequestID event)
             (RequestStreamP2PRestart (hd_hub env) (ws_hub s) c target)))"

definition ws_requestStreamRecovery ::
  "handler_env \<Rightarrow> ws \<Rightarrow> cref \<Rightarrow> IncomingEvent \<Rightarrow> (ws \<times> string option) option" where
  "ws_requestStreamRecovery env s c event =
     (let requestID = ie_RequestID event;
          bad = queueError s c requestID ErrorInvalidPayload ''invalid stream recovery request payload'' in
      case js_StreamRecovery (hd_json env) (ie_Data event) of
        None \<Rightarrow> bad
      | Some d \<Rightarrow>
          (if sy_ServerID d \<le> 0 \<or> sy_ChannelID d \<le> 0 \<or> \<not> ValidStreamRecoveryAction (sy_Action d) then bad
           else case RequestStreamRecovery (ws_hub s) c (sy_ServerID d) (sy_ChannelID d) (sy_Action d) of
             Some err \<Rightarrow> queueStreamStateError s c requestID err
           | None \<Rightarrow>
               do {
                 (s1, merr) \<leftarrow> media_call env s
                   (\<lambda>n. sm_RequestRecovery (hd_streamMedia env) n (conn_of s c) (sy_Action d));
                 case merr of
                   Some e \<Rightarrow> handleStreamMediaInputError env s1 c requestID e
                 | None \<Rightarrow> Some (s1, None)
               }))"

subsection \<open>Dispatch and the read loop\<close>

definition handleIncomingEvent ::
  "handler_env \<Rightarrow> ws \<Rightarrow> cref \<Rightarrow> IncomingEvent \<Rightarrow> (ws \<times> string option) option" where
  "handleIncomingEvent env s c event =
     (let t = ie_Type event in
      if t = EventPing then queueEvent s c (reply (ie_RequestID event) EventPong NoData)
      else if t = EventChannelSubscribe then subscribeToChannel env s c event
      else if t = EventChannelUnsubscribe then unsubscribeFromChannel env s c event
      else if t = EventTypingStart then typingStart env s c event
      else if t = EventE2EEKey \<or> t = EventE2EEKeyRequest then relayE2EE env s c event
      else if t = EventE2EEKeys then relayE2EEBatch env s c event
      else if t = EventVoiceJoin then joinVoice env s c event
      else if t = EventVoiceStateUpdate then updateVoiceState env s c event
      else if t = EventVoiceLeave then ws_leaveVoice env s c event
      else if t = EventVoiceWebRTCAnswer then acceptVoiceWebRTCAnswer env s c event
      else if t = EventVoiceICECandidate then addVoiceICECandidate env s c event
      else if t = EventStreamStart then startStream env s c event
      else if t = EventStreamWatch then watchStream env s c event
      else if t = EventStreamStop \<or> t = EventStreamLeave then ws_leaveStream env s c event
      else if t = EventStreamWebRTCAnswer then acceptStreamWebRTCAnswer env s c event
      else if t = EventStreamICECandidate then addStreamICECandidate env s c event
      else if t = EventStreamP2POffer \<or> t = EventStreamP2PAnswer then relayStreamP2PSession env s c event
      else if t = EventStreamP2PICECandidate then relayStreamP2PICECandidate env s c event
      else if t = EventStreamP2PRestart then requestStreamP2PRestart env s c event
      else if t = EventStreamRecoveryRequest then ws_requestStreamRecovery env s c event
      else queueError s c (ie_RequestID event) ErrorInvalidEvent ''unsupported event type'')"

definition relay_count :: "handler_env \<Rightarrow> IncomingEvent \<Rightarrow> nat" where
  "relay_count env event =
     (if ie_Type event = EventE2EEKey \<or> ie_Type event = EventE2EEKeyRequest then 1
      else if ie_Type event = EventE2EEKeys then
        (case js_E2EEKeyBatch (hd_json env) (ie_Data event) of
           Some batch \<Rightarrow> (if length (eb_Keys batch) \<le> MaxE2EEBatchRecipients then length (eb_Keys batch) else 0)
         | None \<Rightarrow> 0)
      else 0)"

text \<open>The read loop over the frames that have arrived (\<open>None\<close> for a failed read): it waits for more,
  or stopped with an error and possibly a close frame. The two limiters answer by call number.\<close>

datatype close_status =
  StatusPolicyViolation | StatusInternalError | StatusTryAgainLater | StatusServiceRestart

datatype read_state = Reading | ReadStopped "(close_status \<times> string) option" string

fun readLoop ::
  "handler_env \<Rightarrow> (nat \<Rightarrow> bool) \<Rightarrow> (nat \<Rightarrow> nat \<Rightarrow> bool) \<Rightarrow> ws \<Rightarrow> cref \<Rightarrow> IncomingEvent option list
    \<Rightarrow> (ws \<times> read_state) option" where
  "readLoop env allowEvent relayBudget s c [] = Some (s, Reading)"
| "readLoop env allowEvent relayBudget s c (None # frames) = Some (s, ReadStopped None ''read failed'')"
| "readLoop env allowEvent relayBudget s c (Some event # frames) =
     (let (s1, allowed) = ws_ask s allowEvent in
      if \<not> allowed
      then Some (s1, ReadStopped (Some (StatusPolicyViolation, ''event rate limit exceeded'')) ''WebSocket event rate limit exceeded'')
      else let n = relay_count env event;
               (s2, affordable) = (if n > 0 then ws_ask s1 (\<lambda>t. relayBudget t n) else (s1, True)) in
      if \<not> affordable
      then Some (s2, ReadStopped (Some (StatusPolicyViolation, ''e2ee relay rate limit exceeded'')) ''E2EE recipient rate limit exceeded'')
      else do {
        (s3, err) \<leftarrow> handleIncomingEvent env s2 c event;
        case err of
          Some e \<Rightarrow> Some (s3, ReadStopped None e)
        | None \<Rightarrow> readLoop env allowEvent relayBudget s3 c frames
      })"


subsection \<open>The write loop\<close>

definition closeStatusFor :: "string \<Rightarrow> close_status" where
  "closeStatusFor reason =
     (if reason = CloseReasonServerShutdown then StatusServiceRestart else StatusPolicyViolation)"

text \<open>The branch of the write loop for a closed client: the close frame it sends, if any.\<close>

definition close_frame :: "Client \<Rightarrow> (close_status \<times> string) option" where
  "close_frame x = (if c_closeReason x \<noteq> [] then Some (closeStatusFor (c_closeReason x), c_closeReason x) else None)"

text \<open>The session check of a ping: the new failure count, and the close frame when the loop ends.\<close>

definition ping_check :: "int \<Rightarrow> nat \<Rightarrow> int \<times> auth_error option \<Rightarrow> nat \<times> (close_status \<times> string) option" where
  "ping_check userID authFailures result =
     (case result of (authenticatedUserID, err) \<Rightarrow>
       (if err = Some AuthUnauthorized \<or> (err = None \<and> authenticatedUserID \<noteq> userID)
        then (authFailures, Some (StatusPolicyViolation, ''session expired or revoked''))
        else if err \<noteq> None then
          (authFailures + 1,
           if authFailures + 1 \<ge> 3 then Some (StatusTryAgainLater, ''session check temporarily unavailable'')
           else None)
        else (0, None)))"

text \<open>The checks of successive pings until one ends the loop.\<close>

fun ping_checks :: "int \<Rightarrow> nat \<Rightarrow> (int \<times> auth_error option) list \<Rightarrow> nat \<times> (close_status \<times> string) option" where
  "ping_checks userID authFailures [] = (authFailures, None)"
| "ping_checks userID authFailures (r # results) =
     (case ping_check userID authFailures r of
        (n, None) \<Rightarrow> ping_checks userID n results
      | (n, Some frame) \<Rightarrow> (n, Some frame))"

subsection \<open>Opening and closing a connection\<close>

text \<open>\<open>Refused\<close>: the error event written first, if any, and the close frame. \<open>Lost\<close>: the connection
  failed after it was registered. The \<^verbatim>\<open>defer h.hub.Unregister\<close> of \<^verbatim>\<open>connect\<close> runs on both.\<close>

datatype admission =
    Refused "OutgoingEvent option" close_status string
  | Lost
  | Admitted

definition error_event :: "string \<Rightarrow> string \<Rightarrow> string \<Rightarrow> OutgoingEvent" where
  "error_event requestID code message =
     reply requestID EventError (DErrorData \<lparr> er_Code = code, er_Message = message \<rparr>)"

text \<open>The first frame: who the client is, or why it is refused.\<close>

definition authenticate_frame ::
  "handler_env \<Rightarrow> ws \<Rightarrow> IncomingEvent option \<Rightarrow> ws \<times> (admission + string \<times> AuthenticateData \<times> int)" where
  "authenticate_frame env s frame =
     (case frame of
        None \<Rightarrow> (s, Inl (Refused None StatusPolicyViolation ''authentication required''))
      | Some event \<Rightarrow>
          (let refuse = (\<lambda>code message status reason.
                  Inl (Refused (Some (error_event (ie_RequestID event) code message)) status reason)) in
           if ie_Type event \<noteq> EventAuthenticate
           then (s, refuse ErrorUnauthorized ''authentication must be the first event''
                      StatusPolicyViolation ''authentication required'')
           else case js_Authenticate (hd_json env) (ie_Data event) of
             None \<Rightarrow> (s, refuse ErrorInvalidPayload ''invalid authentication payload''
                          StatusPolicyViolation ''invalid authentication payload'')
           | Some d \<Rightarrow>
               (let token = hd_trimSpace env (at_Token d) in
                if token = []
                then (s, refuse ErrorUnauthorized ''session token is required''
                           StatusPolicyViolation ''session token is required'')
                else case ws_ask s (\<lambda>n. hd_Authenticate env n token) of
                  (s1, _, Some AuthUnauthorized) \<Rightarrow>
                    (s1, refuse ErrorUnauthorized ''invalid or expired session''
                           StatusPolicyViolation ''invalid or expired session'')
                | (s1, _, Some AuthFailed) \<Rightarrow>
                    (s1, refuse ErrorInternal ''internal server error'' StatusInternalError ''internal server error'')
                | (s1, userID, None) \<Rightarrow> (s1, Inr (ie_RequestID event, d\<lparr> at_Token := token \<rparr>, userID)))))"

text \<open>After registration: the second check of the session, the ready event, which is written directly
  to the connection (\<open>written\<close> tells whether that works), and the read snapshot.\<close>

definition confirm_session ::
  "handler_env \<Rightarrow> ws \<Rightarrow> cref \<Rightarrow> string \<Rightarrow> int \<Rightarrow> ChannelRead list \<Rightarrow> bool \<Rightarrow> (ws \<times> admission) option" where
  "confirm_session env s c token userID reads written =
     (case ws_ask s (\<lambda>n. hd_Authenticate env n token) of
        (s1, confirmedUserID, err) \<Rightarrow>
          (if err \<noteq> None \<or> confirmedUserID \<noteq> userID
           then Some (s1,
             if err = Some AuthUnauthorized \<or> confirmedUserID \<noteq> userID
             then Refused None StatusPolicyViolation ''invalid or expired session''
             else Refused None StatusInternalError ''internal server error'')
           else if \<not> written then Some (s1, Lost)
           else map_option (\<lambda>(s2, err). (s2, if err = None then Admitted else Lost))
             (queueEvent s1 c (mkEvent EventReadSnapshot (DReadSnapshotData (NewReadSnapshotData reads))))))"

definition unregister_on_exit :: "handler_env \<Rightarrow> cref \<Rightarrow> ws \<times> admission \<Rightarrow> (ws \<times> admission) option" where
  "unregister_on_exit env c r =
     (case r of (s, result) \<Rightarrow>
       (if result = Admitted then Some (s, result)
        else map_option (\<lambda>h. (s\<lparr> ws_hub := h \<rparr>, result)) (Unregister (hd_hub env) (ws_hub s) c)))"

text \<open>\<open>userSlot\<close> is what \<^verbatim>\<open>AcquireWebSocketUser\<close> answers (true without a protector); \<open>c\<close> is the record
  \<^verbatim>\<open>NewClient\<close> allocates.\<close>

definition ws_open ::
  "handler_env \<Rightarrow> ws \<Rightarrow> cref \<Rightarrow> IncomingEvent option \<Rightarrow> (int \<Rightarrow> bool) \<Rightarrow> bool \<Rightarrow> (ws \<times> admission) option" where
  "ws_open env s c frame userSlot written =
     (case authenticate_frame env s frame of
        (s1, Inl refusal) \<Rightarrow> Some (s1, refusal)
      | (s1, Inr (requestID, d, userID)) \<Rightarrow>
          (if \<not> userSlot userID
           then Some (s1, Refused (Some (error_event requestID ErrorInvalidState
                  ''too many active connections for this account'')) StatusTryAgainLater ''too many active connections'')
           else case ws_ask s1 (\<lambda>n. hd_ListMemberships env n userID) of
             (s2, Inl _) \<Rightarrow> Some (s2, Refused None StatusInternalError ''internal server error'')
           | (s2, Inr serverIDs) \<Rightarrow>
               (case ws_ask s2 (\<lambda>n. hd_ListReads env n userID) of
                  (s3, Inl _) \<Rightarrow> Some (s3, Refused None StatusInternalError ''internal server error'')
                | (s3, Inr reads) \<Rightarrow>
                    (let h = connect (hd_sha256 env) (hd_trimSpace env) (ws_hub s3) c userID (at_Token d) serverIDs
                               (at_MessageSync d) (at_MultipleStreams d) in
                     do {
                       (h1, registered) \<leftarrow> Register (hd_hub env) h c;
                       if \<not> registered
                       then Some (s3\<lparr> ws_hub := h1 \<rparr>,
                         Refused None StatusInternalError ''failed to register connection'')
                       else do {
                         r \<leftarrow> confirm_session env (s3\<lparr> ws_hub := h1 \<rparr>) c (at_Token d) userID reads written;
                         unregister_on_exit env c r
                       }
                     }))))"

text \<open>The end of \<^verbatim>\<open>serveConnection\<close> and the deferred call of \<^verbatim>\<open>connect\<close>.\<close>

definition ws_close :: "handler_env \<Rightarrow> ws \<Rightarrow> cref \<Rightarrow> ws option" where
  "ws_close env s c =
     map_option (\<lambda>h. s\<lparr> ws_hub := h \<rparr>)
       (Unregister (hd_hub env) (set_client (ws_hub s) c (CloseClient (client (ws_hub s) c))) c)"


end
