(* ===== verification/WsSafety.thy ===== *)
theory WsSafety
  imports WsHandler
begin

text \<open>
  The handlers of the web socket are safe: in every reachable state of the hub, whatever frame a
  registered client sends and whatever the services answer, the handler returns, and the hub is
  again in a reachable state. \<open>returns m Q\<close> is total correctness of a computation \<open>m\<close>; \<open>sound\<close> is
  the state predicate that every handler keeps.
\<close>

subsection \<open>Total correctness\<close>

named_theorems ws_safe \<open>safety of the steps the handlers are made of\<close>

definition returns :: "'a option \<Rightarrow> ('a \<Rightarrow> bool) \<Rightarrow> bool" where
  "returns m Q \<longleftrightarrow> (\<exists>x. m = Some x \<and> Q x)"

lemma returns_simps [simp]:
  "returns (Some x) Q \<longleftrightarrow> Q x" "\<not> returns None Q"
  "returns (map_option g m) Q \<longleftrightarrow> returns m (\<lambda>x. Q (g x))"
  by (auto simp: returns_def)

lemma returns_bind: "returns (m \<bind> f) Q \<longleftrightarrow> returns m (\<lambda>x. returns (f x) Q)"
  by (auto simp: returns_def bind_eq_Some_conv)

lemma returns_mono: "returns m P \<Longrightarrow> (\<And>x. P x \<Longrightarrow> Q x) \<Longrightarrow> returns m Q"
  by (auto simp: returns_def)

lemma returns_Some: "returns m Q \<Longrightarrow> m = Some x \<Longrightarrow> Q x"
  by (simp add: returns_def)

lemma returns_foreach:
  assumes "\<And>s x. P s \<Longrightarrow> x \<in> set xs \<Longrightarrow> returns (f s x) P" "P s"
  shows "returns (foreach f s xs) P"
  using assms
proof (induction xs arbitrary: s)
  case (Cons x xs)
  from Cons.prems(1)[OF Cons.prems(2), of x] obtain t where "f s x = Some t" "P t" by (auto simp: returns_def)
  with Cons show ?case by simp
qed simp

definition sound :: "handler_env \<Rightarrow> cref list \<Rightarrow> ws \<Rightarrow> bool" where
  "sound env K s \<longleftrightarrow> hub_reachable (hd_hub env) (ws_hub s) \<and> h_known (ws_hub s) = K"

lemma sound_updates [simp]:
  "sound env K (s\<lparr> ws_tick := n \<rparr>) = sound env K s" "sound env K (s\<lparr> ws_typing := t \<rparr>) = sound env K s"
  "sound env K (s\<lparr> ws_hub := ws_hub s \<rparr>) = sound env K s"
  "sound env K (s\<lparr> ws_hub := h, ws_tick := n \<rparr>) = sound env K (s\<lparr> ws_hub := h \<rparr>)"
  "sound env K (s\<lparr> ws_hub := g, ws_hub := h \<rparr>) = sound env K (s\<lparr> ws_hub := h \<rparr>)"
  by (simp_all add: sound_def)

text \<open>A call of the hub is safe, so is every step that is one.\<close>

lemma sound_call:
  assumes "sound env K s" "callable (ws_hub s) call" "\<And>c. call \<noteq> CallRegister c"
  shows "returns (run_call (hd_hub env) (ws_hub s) call) (\<lambda>h. sound env K (s\<lparr> ws_hub := h \<rparr>))"
proof -
  have r: "hub_reachable (hd_hub env) (ws_hub s)" using assms(1) by (simp add: sound_def)
  obtain h where h: "run_call (hd_hub env) (ws_hub s) call = Some h" "fine {} {} (ws_hub s) h"
    using call_fine[OF reachable_ok[OF r, THEN conjunct1] assms(2,3)] by blast
  then show ?thesis
    using assms(1) hub_reachable.called[OF r assms(2) h(1)] by (simp add: sound_def fine_def)
qed

lemma sound_call_fst:
  assumes "sound env K s" "callable (ws_hub s) call" "\<And>c. call \<noteq> CallRegister c"
    and "run_call (hd_hub env) (ws_hub s) call = map_option fst m"
  shows "returns m (\<lambda>r. sound env K (s\<lparr> ws_hub := fst r \<rparr>))"
  using sound_call[OF assms(1-3)] by (simp add: assms(4))

lemma hub_steps_safe [ws_safe]:
  assumes s: "sound env K s"
  shows "returns (LeaveVoice (hd_hub env) (ws_hub s) c) (\<lambda>r. sound env K (s\<lparr> ws_hub := fst r \<rparr>))"
    "returns (LeaveStream (hd_hub env) (ws_hub s) c reason) (\<lambda>r. sound env K (s\<lparr> ws_hub := fst r \<rparr>))"
    "returns (UpdateVoiceState (hd_hub env) (ws_hub s) c m d v) (\<lambda>r. sound env K (s\<lparr> ws_hub := fst r \<rparr>))"
    "returns (StartStreamWithRenditions (hd_hub env) (ws_hub s) c sid ch mode codec audio rs)
      (\<lambda>r. sound env K (s\<lparr> ws_hub := fst r \<rparr>))"
    "returns (WatchStreamWithCapabilities (hd_hub env) (ws_hub s) c sid ch ranges profiles ps)
      (\<lambda>r. sound env K (s\<lparr> ws_hub := fst r \<rparr>))"
    "returns (RelayStreamP2PICECandidate (hd_hub env) (ws_hub s) c ice) (\<lambda>r. sound env K (s\<lparr> ws_hub := fst r \<rparr>))"
    "returns (RequestStreamP2PRestart (hd_hub env) (ws_hub s) c k) (\<lambda>r. sound env K (s\<lparr> ws_hub := fst r \<rparr>))"
    "returns (CloseVoice (hd_hub env) (ws_hub s) k reason) (\<lambda>h. sound env K (s\<lparr> ws_hub := h \<rparr>))"
    "returns (CloseStream (hd_hub env) (ws_hub s) k reason) (\<lambda>h. sound env K (s\<lparr> ws_hub := h \<rparr>))"
    "sound env K (s\<lparr> ws_hub := fst (Subscribe (ws_hub s) c sid ch) \<rparr>)"
proof -
  note call = sound_call_fst[OF s]
  show "returns (LeaveVoice (hd_hub env) (ws_hub s) c) (\<lambda>r. sound env K (s\<lparr> ws_hub := fst r \<rparr>))"
    by (rule call[of "CallLeaveVoice c"]) (simp_all add: callable_def)
  show "returns (LeaveStream (hd_hub env) (ws_hub s) c reason) (\<lambda>r. sound env K (s\<lparr> ws_hub := fst r \<rparr>))"
    by (rule call[of "CallLeaveStream c reason"]) (simp_all add: callable_def)
  show "returns (UpdateVoiceState (hd_hub env) (ws_hub s) c m d v) (\<lambda>r. sound env K (s\<lparr> ws_hub := fst r \<rparr>))"
    by (rule call[of "CallUpdateVoiceState c m d v"]) (simp_all add: callable_def)
  show "returns (StartStreamWithRenditions (hd_hub env) (ws_hub s) c sid ch mode codec audio rs)
      (\<lambda>r. sound env K (s\<lparr> ws_hub := fst r \<rparr>))"
    by (rule call[of "CallStartStream c sid ch mode codec audio rs"]) (simp_all add: callable_def)
  show "returns (WatchStreamWithCapabilities (hd_hub env) (ws_hub s) c sid ch ranges profiles ps)
      (\<lambda>r. sound env K (s\<lparr> ws_hub := fst r \<rparr>))"
    by (rule call[of "CallWatchStream c sid ch ranges profiles ps"]) (simp_all add: callable_def)
  show "returns (RelayStreamP2PICECandidate (hd_hub env) (ws_hub s) c ice) (\<lambda>r. sound env K (s\<lparr> ws_hub := fst r \<rparr>))"
    by (rule call[of "CallRelayP2PICECandidate c ice"]) (simp_all add: callable_def)
  show "returns (RequestStreamP2PRestart (hd_hub env) (ws_hub s) c k) (\<lambda>r. sound env K (s\<lparr> ws_hub := fst r \<rparr>))"
    by (rule call[of "CallP2PRestart c k"]) (simp_all add: callable_def)
  show "returns (CloseVoice (hd_hub env) (ws_hub s) k reason) (\<lambda>h. sound env K (s\<lparr> ws_hub := h \<rparr>))"
    using sound_call[OF s, of "CallCloseVoice k reason"] by (simp add: callable_def)
  show "returns (CloseStream (hd_hub env) (ws_hub s) k reason) (\<lambda>h. sound env K (s\<lparr> ws_hub := h \<rparr>))"
    using sound_call[OF s, of "CallCloseStream k reason"] by (simp add: callable_def)
  show "sound env K (s\<lparr> ws_hub := fst (Subscribe (ws_hub s) c sid ch) \<rparr>)"
    using sound_call[OF s, of "CallSubscribe c sid ch"] by (simp add: callable_def)
qed

lemma guarded_steps_safe:
  assumes s: "sound env K s"
  shows "c \<in> set K \<Longrightarrow> wf_event e \<Longrightarrow>
      returns (ClientSend (ws_hub s) c e) (\<lambda>r. sound env K (s\<lparr> ws_hub := fst r \<rparr>))"
    "wf_event e \<Longrightarrow> returns (SendToConnection (Unregister (hd_hub env)) (ws_hub s) k e)
      (\<lambda>r. sound env K (s\<lparr> ws_hub := fst r \<rparr>))"
    "wf_event e \<Longrightarrow> returns (PublishExcept (hd_hub env) (ws_hub s) ch e x) (\<lambda>r. sound env K (s\<lparr> ws_hub := fst r \<rparr>))"
    "c \<in> set K \<Longrightarrow> returns (JoinVoiceWithDevice (hd_hub env) (ws_hub s) c sid ch m d dev)
      (\<lambda>r. sound env K (s\<lparr> ws_hub := fst r \<rparr>))"
    "t \<noteq> EventChannelSyncRequired \<Longrightarrow> returns (RelayVoiceE2EE (hd_hub env) (ws_hub s) c t relay)
      (\<lambda>r. sound env K (s\<lparr> ws_hub := fst r \<rparr>))"
    "t \<noteq> EventChannelSyncRequired \<Longrightarrow> returns (RelayStreamP2PSession (hd_hub env) (ws_hub s) c k sdp t)
      (\<lambda>r. sound env K (s\<lparr> ws_hub := fst r \<rparr>))"
    "c \<in> set K \<Longrightarrow> sound env K (drop_subscription s c ch)"
    "c \<in> set K \<Longrightarrow> returns (Unregister (hd_hub env) (ws_hub s) c) (\<lambda>h. sound env K (s\<lparr> ws_hub := h \<rparr>))"
proof -
  note call = sound_call_fst[OF s]
  have K: "h_known (ws_hub s) = K" using s by (simp add: sound_def)
  show "returns (ClientSend (ws_hub s) c e) (\<lambda>r. sound env K (s\<lparr> ws_hub := fst r \<rparr>))"
    if "c \<in> set K" "wf_event e"
    by (rule call[of "CallSend c e"]) (simp_all add: callable_def that K)
  show "returns (SendToConnection (Unregister (hd_hub env)) (ws_hub s) k e) (\<lambda>r. sound env K (s\<lparr> ws_hub := fst r \<rparr>))"
    if "wf_event e"
    by (rule call[of "CallSendToConnection k e"]) (simp_all add: callable_def that)
  show "returns (PublishExcept (hd_hub env) (ws_hub s) ch e x) (\<lambda>r. sound env K (s\<lparr> ws_hub := fst r \<rparr>))"
    if "wf_event e"
    by (rule call[of "CallPublishExcept ch e x"]) (simp_all add: callable_def that)
  show "returns (JoinVoiceWithDevice (hd_hub env) (ws_hub s) c sid ch m d dev)
      (\<lambda>r. sound env K (s\<lparr> ws_hub := fst r \<rparr>))" if "c \<in> set K"
    by (rule call[of "CallJoinVoice c sid ch m d dev"]) (simp_all add: callable_def that K)
  show "returns (RelayVoiceE2EE (hd_hub env) (ws_hub s) c t relay) (\<lambda>r. sound env K (s\<lparr> ws_hub := fst r \<rparr>))"
    if "t \<noteq> EventChannelSyncRequired"
    by (rule call[of "CallRelayVoiceE2EE c t relay"]) (simp_all add: callable_def that)
  show "returns (RelayStreamP2PSession (hd_hub env) (ws_hub s) c k sdp t) (\<lambda>r. sound env K (s\<lparr> ws_hub := fst r \<rparr>))"
    if "t \<noteq> EventChannelSyncRequired"
    by (rule call[of "CallRelayP2PSession c k sdp t"]) (simp_all add: callable_def that)
  show "sound env K (drop_subscription s c ch)" if "c \<in> set K"
    using sound_call[OF s, of "CallUnsubscribe c ch"] that K by (simp add: callable_def drop_subscription_def)
  show "returns (Unregister (hd_hub env) (ws_hub s) c) (\<lambda>h. sound env K (s\<lparr> ws_hub := h \<rparr>))" if "c \<in> set K"
    using sound_call[OF s, of "CallUnregister c"] that K by (simp add: callable_def)
qed

subsection \<open>Replies and media calls\<close>

abbreviation safe :: "handler_env \<Rightarrow> cref list \<Rightarrow> (ws \<times> 'a) option \<Rightarrow> bool" where
  "safe env K m \<equiv> returns m (\<lambda>r. sound env K (fst r))"

lemma safe_bind:
  assumes "safe env K m" "\<And>s x. sound env K s \<Longrightarrow> returns (f (s, x)) Q"
  shows "returns (m \<bind> f) Q"
  unfolding returns_bind
  by (rule returns_mono[OF assms(1)]) (use assms(2)[of "fst x" "snd x" for x] in simp)

lemma hub_bind:
  assumes "returns m (\<lambda>r. sound env K (s\<lparr> ws_hub := fst r \<rparr>))"
    and "\<And>h x. sound env K (s\<lparr> ws_hub := h \<rparr>) \<Longrightarrow> returns (f (h, x)) Q"
  shows "returns (m \<bind> f) Q"
  unfolding returns_bind
  by (rule returns_mono[OF assms(1)]) (use assms(2)[of "fst x" "snd x" for x] in simp)

lemma reply_wf: "t \<noteq> EventChannelSyncRequired \<Longrightarrow> wf_event (reply requestID t d)"
  by (simp add: reply_def wf_event_def mkEvent_def)

lemma queueEvent_safe:
  assumes "sound env K s" "c \<in> set K" "wf_event e"
  shows "safe env K (queueEvent s c e)"
  using guarded_steps_safe(1)[OF assms] by (simp add: queueEvent_def split_def)

lemma reply_safe [ws_safe]:
  assumes "sound env K s" "c \<in> set K"
  shows "t \<noteq> EventChannelSyncRequired \<Longrightarrow> safe env K (queueEvent s c (reply requestID t d))"
    "safe env K (queueError s c requestID code message)"
    "safe env K (queueStreamStateError s c requestID err)"
proof -
  show "t \<noteq> EventChannelSyncRequired \<Longrightarrow> safe env K (queueEvent s c (reply requestID t d))"
    using queueEvent_safe[OF assms reply_wf] .
  show q: "safe env K (queueError s c requestID code message)" for code message
    unfolding queueError_def by (rule queueEvent_safe[OF assms reply_wf]) (simp add: event_types)
  show "safe env K (queueStreamStateError s c requestID err)"
    by (cases err) (simp_all add: queueStreamStateError_def q)
qed

lemma run_signal_safe:
  assumes "sound env K s"
  shows "returns (run_signal (hd_hub env) (ws_hub s) signal) (\<lambda>h. sound env K (s\<lparr> ws_hub := h \<rparr>))"
proof -
  have e: "t \<noteq> EventChannelSyncRequired \<Longrightarrow>
    returns (SendToConnection (Unregister (hd_hub env)) (ws_hub s) k (mkEvent t d)) (\<lambda>r. sound env K (s\<lparr> ws_hub := fst r \<rparr>))"
    for t d k using guarded_steps_safe(2)[OF assms mkEvent_wf] .
  show ?thesis
    by (cases signal) (simp_all add: voice_SendOffer_def voice_SendICECandidate_def stream_SendOffer_def
        stream_SendICECandidate_def hub_steps_safe(8,9)[OF assms] e event_types)
qed

lemma media_call_safe [ws_safe]:
  assumes "sound env K s"
  shows "safe env K (media_call env s f)"
proof -
  obtain signals err where f: "f (ws_tick s) = (signals, err)" by fastforce
  have "returns (foreach (run_signal (hd_hub env)) (ws_hub s) signals) (\<lambda>h. sound env K (s\<lparr> ws_hub := h \<rparr>))"
  proof (rule returns_foreach)
    fix h x
    assume "sound env K (s\<lparr> ws_hub := h \<rparr>)"
    from run_signal_safe[OF this, of x] show "returns (run_signal (hd_hub env) h x) (\<lambda>h. sound env K (s\<lparr> ws_hub := h \<rparr>))"
      by simp
  qed (use assms in simp)
  then show ?thesis by (simp add: media_call_def f)
qed

lemma leave_safe [ws_safe]:
  assumes "sound env K s"
  shows "safe env K (leave_voice env s c)" "safe env K (leave_stream env s c reason)"
  using hub_steps_safe(1,2)[OF assms] by (simp_all add: leave_voice_def leave_stream_def split_def)

lemma relay_result_safe:
  assumes "sound env K s" "c \<in> set K" "returns m (\<lambda>r. sound env K (s\<lparr> ws_hub := fst r \<rparr>))"
  shows "safe env K (relay_result s c requestID m)"
  unfolding relay_result_def
  by (rule hub_bind[OF assms(3)]) (auto split: option.split intro: reply_safe[OF _ assms(2)])

subsection \<open>The handlers\<close>

lemma checkChannelAccess_safe:
  assumes "sound env K s" "c \<in> set K"
  shows "safe env K (checkChannelAccess env s c requestID d)"
  using assms by (auto simp: checkChannelAccess_def ws_ask_def split_def reply_safe split: option.split)

lemma subscription_safe:
  assumes s: "sound env K s" and c: "c \<in> set K"
  shows "safe env K (subscribeToChannel env s c event)" "safe env K (unsubscribeFromChannel env s c event)"
proof -
  have t: "EventChannelSubscribed \<noteq> EventChannelSyncRequired" "EventChannelUnsubscribed \<noteq> EventChannelSyncRequired"
    "wf_event (mkEvent EventChannelReadSnapshot d)" for d
    by (simp_all add: event_types mkEvent_wf)
  have ok: "safe env K (confirm_subscription env s c requestID d)" if "sound env K s" for s requestID d
    using that c t
    by (auto simp: confirm_subscription_def ws_ask_def Let_def intro!: reply_safe guarded_steps_safe safe_bind[of _ env K]
        queueEvent_safe[OF _ c t(3)] split: sum.split read_error.split)
  show "safe env K (subscribeToChannel env s c event)"
    using s c by (auto simp: subscribeToChannel_def Let_def intro!: reply_safe guarded_steps_safe safe_bind[of _ env K]
        checkChannelAccess_safe hub_steps_safe ok split: option.split)
  show "safe env K (unsubscribeFromChannel env s c event)"
    using s c t by (auto simp: unsubscribeFromChannel_def intro!: reply_safe guarded_steps_safe split: option.split)
qed

lemma typingStart_safe:
  assumes "sound env K s"
  shows "safe env K (typingStart env s c event)"
proof -
  have "wf_event (mkEvent EventTyping d)" for d by (rule mkEvent_wf) (simp add: event_types)
  from guarded_steps_safe(3)[OF _ this]
  have "sound env K t \<Longrightarrow> returns (PublishExcept (hd_hub env) (ws_hub t) ch (mkEvent EventTyping d) c)
    (\<lambda>r. sound env K (t\<lparr> ws_hub := fst r \<rparr>))" for t ch d .
  from this[of "s\<lparr> ws_tick := a, ws_typing := b, ws_tick := d \<rparr>" for a b d]
  show ?thesis using assms
    by (auto simp: typingStart_def ws_ask_def Let_def split_def split: option.split)
qed


lemma voice_checks_safe:
  assumes "sound env K s" "c \<in> set K"
  shows "safe env K (checkVoiceChannelAccess env s c requestID sid ch)"
    "safe env K (checkVoiceEncryption env s c requestID d)"
proof -
  show "safe env K (checkVoiceChannelAccess env s c requestID sid ch)"
    using assms by (auto simp: checkVoiceChannelAccess_def ws_ask_def split_def reply_safe
        split: option.split access_error.split)
  show "safe env K (checkVoiceEncryption env s c requestID d)"
    using assms by (auto simp: checkVoiceEncryption_def refuse_mode_def ws_ask_def split_def reply_safe
        split: option.split sum.split)
qed

lemma joinVoice_safe:
  assumes s: "sound env K s" and c: "c \<in> set K"
  shows "safe env K (joinVoice env s c event)"
proof -
  have t: "EventVoiceJoined \<noteq> EventChannelSyncRequired" by (simp add: event_types)
  have m: "safe env K (start_voice_media env s c requestID d j)" if "sound env K s" for s requestID d j
    using that c t by (auto simp: start_voice_media_def intro!: safe_bind[of _ env K] reply_safe media_call_safe leave_safe split: option.split)
  show ?thesis
    using s c by (auto simp: joinVoice_def Let_def intro!: reply_safe safe_bind[of _ env K] voice_checks_safe m
        hub_bind[of _ env K, OF guarded_steps_safe(4)] split: option.split)
qed

lemma voice_input_safe:
  assumes s: "sound env K s" and c: "c \<in> set K"
  shows "safe env K (updateVoiceState env s c event)" "safe env K (ws_leaveVoice env s c event)"
    "safe env K (acceptVoiceWebRTCAnswer env s c event)" "safe env K (addVoiceICECandidate env s c event)"
proof -
  have t: "EventVoiceStateUpdated \<noteq> EventChannelSyncRequired" "EventVoiceLeft \<noteq> EventChannelSyncRequired"
    "EventVoiceWebRTCAnswered \<noteq> EventChannelSyncRequired" by (simp_all add: event_types)
  have e: "safe env K (handleVoiceMediaInputError env s c requestID err)" if "sound env K s" for s requestID err
    using that c by (auto simp: handleVoiceMediaInputError_def intro!: safe_bind[of _ env K] reply_safe leave_safe)
  show "safe env K (updateVoiceState env s c event)"
    using s c t by (auto simp: updateVoiceState_def Let_def intro!: safe_bind[of _ env K] reply_safe leave_safe media_call_safe
        hub_bind[of _ env K, OF hub_steps_safe(3)] split: option.split)
  show "safe env K (ws_leaveVoice env s c event)"
    using s c t by (auto simp: ws_leaveVoice_def intro!: safe_bind[of _ env K] reply_safe leave_safe split: option.split)
  show "safe env K (acceptVoiceWebRTCAnswer env s c event)"
    using s c t by (auto simp: acceptVoiceWebRTCAnswer_def Let_def intro!: safe_bind[of _ env K] reply_safe media_call_safe e split: option.split)
  show "safe env K (addVoiceICECandidate env s c event)"
    using s c t by (auto simp: addVoiceICECandidate_def Let_def intro!: safe_bind[of _ env K] reply_safe media_call_safe e split: option.split)
qed

lemma relay_key_safe:
  assumes "sound env K s"
  shows "returns (foreach (relay_key env c ch) (ws_hub s) keys) (\<lambda>h. sound env K (s\<lparr> ws_hub := h \<rparr>))"
proof (rule returns_foreach)
  fix h x
  assume "sound env K (s\<lparr> ws_hub := h \<rparr>)"
  from guarded_steps_safe(5)[OF this, of EventE2EEKey]
  show "returns (relay_key env c ch h x) (\<lambda>h. sound env K (s\<lparr> ws_hub := h \<rparr>))" by (simp add: relay_key_def event_types)
qed (use assms in simp)

lemma relay_safe:
  assumes s: "sound env K s" and c: "c \<in> set K" and t: "ie_Type event \<noteq> EventChannelSyncRequired"
  shows "safe env K (relayE2EE env s c event)" "safe env K (relayE2EEBatch env s c event)"
    "safe env K (relayStreamP2PSession env s c event)" "safe env K (relayStreamP2PICECandidate env s c event)"
    "safe env K (requestStreamP2PRestart env s c event)"
proof -
  show "safe env K (relayE2EE env s c event)"
    using guarded_steps_safe(5)[OF s t] s c by (auto simp: relayE2EE_def split_def intro!: reply_safe split: option.split)
  show "safe env K (relayE2EEBatch env s c event)"
    using relay_key_safe[OF s] s c by (auto simp: relayE2EEBatch_def intro!: reply_safe split: option.split)
  show "safe env K (relayStreamP2PSession env s c event)"
    using s c t by (auto simp: relayStreamP2PSession_def Let_def intro!: reply_safe relay_result_safe guarded_steps_safe
        split: option.split)
  show "safe env K (relayStreamP2PICECandidate env s c event)"
    using s c by (auto simp: relayStreamP2PICECandidate_def Let_def intro!: reply_safe relay_result_safe hub_steps_safe
        split: option.split)
  show "safe env K (requestStreamP2PRestart env s c event)"
    using s c by (auto simp: requestStreamP2PRestart_def Let_def intro!: reply_safe relay_result_safe hub_steps_safe
        split: option.split)
qed

lemma stream_permitted_sound:
  "stream_permitted env s c sid ch = (s', ok) \<Longrightarrow> sound env K s \<Longrightarrow> sound env K s'"
  by (auto simp: stream_permitted_def ws_ask_def split: option.splits)

lemma startStream_safe:
  assumes s: "sound env K s" and c: "c \<in> set K"
  shows "safe env K (startStream env s c event)"
proof -
  have t: "EventStreamStarted \<noteq> EventChannelSyncRequired" by (simp add: event_types)
  show ?thesis
    using s c t by (auto simp: startStream_def Let_def split: option.split prod.split bool.split sum.split
        dest!: stream_permitted_sound intro!: reply_safe hub_bind[of _ env K, OF hub_steps_safe(4)] safe_bind[of _ env K] media_call_safe leave_safe)
qed

lemma watchStream_safe:
  assumes s: "sound env K s" and c: "c \<in> set K"
  shows "safe env K (watchStream env s c event)"
proof -
  have t: "EventStreamWatching \<noteq> EventChannelSyncRequired" by (simp add: event_types)
  show ?thesis
    using s c t by (auto simp: watchStream_def Let_def split: option.split sum.split
        intro!: reply_safe hub_bind[of _ env K, OF hub_steps_safe(5)] safe_bind[of _ env K] media_call_safe leave_safe)
qed

lemma stream_input_safe:
  assumes s: "sound env K s" and c: "c \<in> set K"
  shows "safe env K (ws_leaveStream env s c event)" "safe env K (acceptStreamWebRTCAnswer env s c event)"
    "safe env K (addStreamICECandidate env s c event)" "safe env K (ws_requestStreamRecovery env s c event)"
proof -
  have t: "EventStreamStopped \<noteq> EventChannelSyncRequired" "EventStreamLeft \<noteq> EventChannelSyncRequired"
    "EventStreamWebRTCAnswered \<noteq> EventChannelSyncRequired" by (simp_all add: event_types)
  have e: "safe env K (handleStreamMediaInputError env s c requestID err)" if "sound env K s" for s requestID err
    using that c by (auto simp: handleStreamMediaInputError_def intro!: safe_bind[of _ env K] reply_safe leave_safe)
  show "safe env K (ws_leaveStream env s c event)"
    using s c t by (auto simp: ws_leaveStream_def Let_def intro!: safe_bind[of _ env K] reply_safe leave_safe split: if_splits)
  show "safe env K (acceptStreamWebRTCAnswer env s c event)"
    using s c t by (auto simp: acceptStreamWebRTCAnswer_def Let_def intro!: safe_bind[of _ env K] reply_safe media_call_safe e split: option.split)
  show "safe env K (addStreamICECandidate env s c event)"
    using s c t by (auto simp: addStreamICECandidate_def Let_def intro!: safe_bind[of _ env K] reply_safe media_call_safe e split: option.split)
  show "safe env K (ws_requestStreamRecovery env s c event)"
    using s c t by (auto simp: ws_requestStreamRecovery_def Let_def intro!: safe_bind[of _ env K] reply_safe media_call_safe e split: option.split)
qed

lemma handleIncomingEvent_safe:
  assumes s: "sound env K s" and c: "c \<in> set K"
  shows "safe env K (handleIncomingEvent env s c event)"
proof -
  have t: "EventPong \<noteq> EventChannelSyncRequired" by (simp add: event_types)
  have r: "ie_Type event = EventE2EEKey \<Longrightarrow> ie_Type event \<noteq> EventChannelSyncRequired"
    "ie_Type event = EventE2EEKeyRequest \<Longrightarrow> ie_Type event \<noteq> EventChannelSyncRequired"
    "ie_Type event = EventE2EEKeys \<Longrightarrow> ie_Type event \<noteq> EventChannelSyncRequired"
    "ie_Type event = EventStreamP2POffer \<Longrightarrow> ie_Type event \<noteq> EventChannelSyncRequired"
    "ie_Type event = EventStreamP2PAnswer \<Longrightarrow> ie_Type event \<noteq> EventChannelSyncRequired"
    "ie_Type event = EventStreamP2PICECandidate \<Longrightarrow> ie_Type event \<noteq> EventChannelSyncRequired"
    "ie_Type event = EventStreamP2PRestart \<Longrightarrow> ie_Type event \<noteq> EventChannelSyncRequired"
    by (simp_all add: event_types)
  note relays = r[THEN relay_safe(1)[OF s c]] r[THEN relay_safe(2)[OF s c]] r[THEN relay_safe(3)[OF s c]]
    r[THEN relay_safe(4)[OF s c]] r[THEN relay_safe(5)[OF s c]]
  show ?thesis
    unfolding handleIncomingEvent_def Let_def
    by (simp add: reply_safe[OF s c] t subscription_safe[OF s c] typingStart_safe[OF s] joinVoice_safe[OF s c]
        voice_input_safe[OF s c] startStream_safe[OF s c] watchStream_safe[OF s c] stream_input_safe[OF s c] relays)
qed


subsection \<open>The read loop, opening and closing\<close>

lemma readLoop_safe:
  assumes "sound env K s" "c \<in> set K"
  shows "safe env K (readLoop env allowEvent relayBudget s c frames)"
  using assms(1)
proof (induction frames arbitrary: s)
  case (Cons frame frames)
  show ?case
  proof (cases frame)
    case (Some event)
    have "safe env K (handleIncomingEvent env t c event \<bind> (\<lambda>(s3, err). case err of
        Some e \<Rightarrow> Some (s3, ReadStopped None e) | None \<Rightarrow> readLoop env allowEvent relayBudget s3 c frames))"
      if "sound env K t" for t
      using Cons.IH by (auto intro!: safe_bind[OF handleIncomingEvent_safe[OF that assms(2)]] split: option.split)
    then show ?thesis using Some Cons.prems by (auto simp: ws_ask_def Let_def)
  qed (use Cons.prems in simp)
qed simp

text \<open>What queueing a reply leaves alone.\<close>

lemma queueEvent_soft:
  assumes "sound env K s" "c \<in> set K" "wf_event e" "queueEvent s c e = Some (s', err)"
  shows "soft (ws_hub s) (ws_hub s') \<and> ws_tick s' = ws_tick s \<and> sound env K s'"
proof -
  have r: "hub_okE {} {} (ws_hub s)" "h_known (ws_hub s) = K" using assms(1) reachable_okE by (auto simp: sound_def)
  obtain h ok where "hub_enqueue (ws_hub s) c e = Some (h, ok)" "soft (ws_hub s) h"
    using hub_enqueue_soft[OF known_heap[OF r(1)] assms(3) hub_inv_refs(3)[OF okE_inv[OF r(1)]]] r(2) assms(2) by blast
  moreover have "sound env K s'" using returns_Some[OF queueEvent_safe[OF assms(1-3)] assms(4)] by simp
  ultimately show ?thesis using assms(4) by (auto simp: queueEvent_def ClientSend_def)
qed

lemma queueError_soft:
  assumes "sound env K s" "c \<in> set K" "queueError s c requestID code message = Some (s', err)"
  shows "soft (ws_hub s) (ws_hub s') \<and> ws_tick s' = ws_tick s \<and> sound env K s'"
proof -
  have "EventError \<noteq> EventChannelSyncRequired" by (simp add: event_types)
  from queueEvent_soft[OF assms(1,2) reply_wf[OF this]] show ?thesis using assms(3) unfolding queueError_def by blast
qed

lemma soft_frame:
  assumes "soft h h'"
  shows "c_subscriptions (client h' c) = c_subscriptions (client h c)" "c_userID (client h' c) = c_userID (client h c)"
    "c_connectionID (client h' c) = c_connectionID (client h c)" "h_voice h' = h_voice h" "h_clients h' = h_clients h"
    "h_known h' = h_known h"
  using assms by (auto simp: soft_def client_core_def)

lemma queueEvent_open: "queueEvent s c e = Some (s', None) \<Longrightarrow> \<not> c_done (client (ws_hub s) c)"
  by (auto simp: queueEvent_def ClientSend_def hub_enqueue_def enqueue_def split: option.splits if_splits)

lemma confirm_session_soft:
  assumes "sound env K s" "c \<in> set K" "confirm_session env s c token userID reads written = Some (s', r)"
  shows "soft (ws_hub s) (ws_hub s') \<and> sound env K s' \<and>
    (r = Admitted \<longrightarrow> hd_Authenticate env (ws_tick s) token = (userID, None) \<and> \<not> c_done (client (ws_hub s) c))"
proof -
  have w: "wf_event (mkEvent EventReadSnapshot d)" for d by (rule mkEvent_wf) (simp add: event_types)
  have q: "queueEvent (s\<lparr> ws_tick := n \<rparr>) c (mkEvent EventReadSnapshot d) = Some (t, e) \<Longrightarrow>
      soft (ws_hub s) (ws_hub t) \<and> sound env K t" for n d t e
    using queueEvent_soft[of env K "s\<lparr> ws_tick := n \<rparr>" c _ t e, OF _ assms(2) w] assms(1) by simp
  show ?thesis using assms(1,3)
    by (auto simp: confirm_session_def ws_ask_def soft_refl split: prod.splits if_splits dest: queueEvent_open q)
qed

lemma fresh_outside:
  assumes "hub_okE {} {} h" "c \<notin> set (h_known h)"
  shows "c \<notin> set (h_clients h)" "voice_current (h_voice h) c = None"
  using assms(2) hub_inv_refs(2)[OF okE_inv[OF assms(1)]] voice_known[OF assms(1), of c]
  by (auto simp: voice_current_def) (metis option.exhaust)


end
