(* ===== verification/WsGuarantees.thy ===== *)
theory WsGuarantees
  imports WsSafety
begin

text \<open>
  What the web socket layer guarantees: which connections are admitted, that frames cannot break
  the hub, that subscriptions and voice seats are only given after the permission checks, that a
  failed media session is rolled back, how often typing is relayed and when a session check closes
  a connection.
\<close>

subsection \<open>Opening a connection\<close>

lemma authenticated_frame:
  assumes "authenticate_frame env s frame = (s1, Inr (requestID, d, userID))"
  shows "ws_hub s1 = ws_hub s \<and> ws_tick s1 = Suc (ws_tick s) \<and> hd_Authenticate env (ws_tick s) (at_Token d) = (userID, None) \<and>
    (\<exists>event d0. frame = Some event \<and> ie_Type event = EventAuthenticate \<and>
       js_Authenticate (hd_json env) (ie_Data event) = Some d0 \<and> at_Token d = hd_trimSpace env (at_Token d0))"
  using assms by (auto simp: authenticate_frame_def ws_ask_def Let_def split: option.splits if_splits prod.splits auth_error.splits)

lemma authenticate_frame_hub:
  "authenticate_frame env s frame = (s1, r) \<Longrightarrow> ws_hub s1 = ws_hub s \<and> r \<noteq> Inl Admitted"
  by (auto simp: authenticate_frame_def ws_ask_def Let_def split: option.splits if_splits prod.splits auth_error.splits)

text \<open>Registering the new connection and confirming its session.\<close>

definition admission_ok :: "handler_env \<Rightarrow> nat \<Rightarrow> cref \<Rightarrow> string \<Rightarrow> int \<Rightarrow> ws \<times> admission \<Rightarrow> bool" where
  "admission_ok env n c token userID r \<longleftrightarrow>
     (case r of (s, result) \<Rightarrow> hub_reachable (hd_hub env) (ws_hub s) \<and>
       (if result = Admitted then c \<in> set (h_clients (ws_hub s)) \<and> user_of s c = userID \<and>
          hd_Authenticate env n token = (userID, None)
        else c \<notin> set (h_clients (ws_hub s))))"

lemma register_confirm:
  assumes h: "hub_reachable (hd_hub env) h" "c \<in> fst ` set (h_heap h)" "c \<notin> set (h_known h)" "c_userID (client h c) = userID"
  shows "returns (do {
      (h1, registered) \<leftarrow> Register (hd_hub env) h c;
      if \<not> registered then Some (s\<lparr> ws_hub := h1 \<rparr>, Refused None StatusInternalError ''failed to register connection'')
      else do {
        r \<leftarrow> confirm_session env (s\<lparr> ws_hub := h1 \<rparr>) c token userID reads written;
        unregister_on_exit env c r
      } }) (admission_ok env (ws_tick s) c token userID)"
proof -
  note ok = reachable_okE[OF h(1)]
  obtain h1 b where r: "Register (hd_hub env) h c = Some (h1, b)" "hub_okE {} {} h1"
    "h_known h1 = (if b then List.insert c (h_known h) else h_known h)" "c_userID (client h1 c) = userID"
    using Register_ok[OF ok, of c "hd_hub env"] h(2,4) by auto
  have h1: "hub_reachable (hd_hub env) h1"
    by (rule hub_reachable.called[OF h(1), of "CallRegister c"]) (simp_all add: callable_def h(2) r(1))
  show ?thesis
  proof (cases b)
    case False
    then have "c \<notin> set (h_clients h1)" using fresh_outside(1)[OF r(2)] r(3) h(3) by simp
    then show ?thesis using False r(1) h1 by (simp add: admission_ok_def returns_bind)
  next
    case True
    let ?s = "s\<lparr> ws_hub := h1 \<rparr>" and ?K = "h_known h1"
    have c: "c \<in> set ?K" using r(3) True by simp
    have s: "sound env ?K ?s" using h1 by (simp add: sound_def)
    have "returns (confirm_session env ?s c token userID reads written) (\<lambda>_. True)"
    proof -
      have "wf_event (mkEvent EventReadSnapshot d)" for d by (rule mkEvent_wf) (simp add: event_types)
      then have "returns (queueEvent (?s\<lparr> ws_tick := n \<rparr>) c (mkEvent EventReadSnapshot d)) (\<lambda>_. True)" for n d
        using returns_mono[OF queueEvent_safe[of env ?K "?s\<lparr> ws_tick := n \<rparr>" c]] s c by simp
      then show ?thesis by (auto simp: confirm_session_def ws_ask_def split: prod.split)
    qed
    then obtain s2 result where q: "confirm_session env ?s c token userID reads written = Some (s2, result)"
      by (auto simp: returns_def)
    note C = confirm_session_soft[OF s c q]
    have u: "user_of s2 c = userID" "h_known (ws_hub s2) = ?K" using soft_frame(2,6)[OF C[THEN conjunct1]] r(4) by simp_all
    have "returns (unregister_on_exit env c (s2, result)) (admission_ok env (ws_tick s) c token userID)"
    proof (cases "result = Admitted")
      case True
      have "c \<in> set (h_clients (ws_hub s2))"
        using C True r(2) c soft_frame(5)[OF C[THEN conjunct1]] by (auto simp: hub_okE_def unsettled_def settled_def)
      then show ?thesis using C u True by (auto simp: unregister_on_exit_def admission_ok_def sound_def)
    next
      case False
      have ok2: "hub_okE {} {} (ws_hub s2)" using C reachable_okE by (auto simp: sound_def)
      obtain h3 where h3: "Unregister (hd_hub env) (ws_hub s2) c = Some h3" "gone h3 c"
        using Unregister_fine[OF ok2, of c "hd_hub env"] c u(2) by auto
      have "hub_reachable (hd_hub env) h3"
        using hub_reachable.called[of "hd_hub env" "ws_hub s2" "CallUnregister c" h3] C c u(2) h3(1)
        by (simp add: sound_def callable_def)
      then show ?thesis using False h3 by (simp add: unregister_on_exit_def admission_ok_def gone_def)
    qed
    then show ?thesis using True r(1) q by (simp add: returns_bind)
  qed
qed

lemma connect_facts:
  assumes "c \<noteq> nil"
  shows "c \<in> fst ` set (h_heap (connect sha trim h c u t ss sync multi))"
    "h_known (connect sha trim h c u t ss sync multi) = h_known h"
    "c_userID (client (connect sha trim h c u t ss sync multi) c) = u"
  by (simp_all add: connect_def NewClient_def newConnectionID_def Let_def set_client_def dom_update client_def get_or_def
      update_conv' EnableMessageSync_def EnableMultipleStreams_def)

subsection \<open>A sample handler\<close>

text \<open>Services that admit user 9 with any token, allow everything and start every media session; the
  decoders return fixed payloads.\<close>

definition sample_media :: "nat \<Rightarrow> media_result" where
  "sample_media n = ([], None)"

definition sample_decoders :: decoders where
  "sample_decoders = \<lparr> js_Authenticate = (\<lambda>_. Some \<lparr> at_Token = ''t'', at_MessageSync = True, at_MultipleStreams = True \<rparr>),
     js_VoiceJoin = (\<lambda>_. Some \<lparr> vd_ServerID = 1, vd_ChannelID = 5, vd_SelfMute = False, vd_SelfDeaf = False, vd_E2EEDeviceID = [] \<rparr>),
     js_VoiceStateUpdate = (\<lambda>_. None), js_WebRTCAnswer = (\<lambda>_. None), js_VoiceICECandidate = (\<lambda>_. None),
     js_ChannelSubscription = (\<lambda>_. Some \<lparr> cs_ServerID = 1, cs_ChannelID = 5 \<rparr>),
     js_Typing = (\<lambda>_. None), js_E2EERelay = (\<lambda>_. None), js_E2EEKeyBatch = (\<lambda>_. None), js_StreamStart = (\<lambda>_. None),
     js_StreamWatch = (\<lambda>_. None), js_StreamICECandidate = (\<lambda>_. None), js_StreamP2PSession = (\<lambda>_. None),
     js_StreamP2PICECandidate = (\<lambda>_. None), js_StreamP2PRestart = (\<lambda>_. None), js_StreamRecovery = (\<lambda>_. None) \<rparr>"

definition sample_handler :: handler_env where
  "sample_handler = \<lparr> hd_hub = sample_env, hd_json = sample_decoders, hd_trimSpace = (\<lambda>s. s), hd_now = (\<lambda>n. int n),
     hd_sha256 = (\<lambda>s. s), hd_Authenticate = (\<lambda>_ _. (9, None)), hd_ListMemberships = (\<lambda>_ _. Inr [1]),
     hd_ListReads = (\<lambda>_ _. Inr []), hd_CheckAccess = (\<lambda>_ _ _ _. None), hd_CheckVoiceAccess = (\<lambda>_ _ _ _. None),
     hd_CheckStreamAccess = None, hd_ListByChannelID = (\<lambda>_ _ _ _. Inr []),
     hd_voiceMedia = \<lparr> vm_Join = (\<lambda>n _ _ _ _ _ _. sample_media n), vm_SetState = (\<lambda>n _ _ _. sample_media n),
       vm_AcceptAnswer = (\<lambda>n _ _. sample_media n), vm_AddICECandidate = (\<lambda>n _ _. sample_media n) \<rparr>,
     hd_streamMedia = \<lparr> sm_Start = (\<lambda>n _ _ _ _ _ _. sample_media n), sm_Watch = (\<lambda>n _ _ _ _. sample_media n),
       sm_AcceptAnswer = (\<lambda>n _ _. sample_media n), sm_AddICECandidate = (\<lambda>n _ _. sample_media n),
       sm_RequestRecovery = (\<lambda>n _ _. sample_media n), sm_StartWithRenditions = None, sm_WatchRendition = None,
       sm_WatchRenditionForPublisher = None \<rparr>,
     hd_encryption = None \<rparr>"

definition sample_ws :: ws where
  "sample_ws = \<lparr> ws_hub = sample_hub, ws_typing = [], ws_tick = 0 \<rparr>"

definition frame_of :: "string \<Rightarrow> IncomingEvent" where
  "frame_of t = \<lparr> ie_RequestID = ''r'', ie_Type = t, ie_Data = [] \<rparr>"

lemma sample_ws_facts:
  "hub_reachable (hd_hub sample_handler) (ws_hub sample_ws)" "h_known (ws_hub sample_ws) = [3, 2]"
  using sample_hub_reachable(4) sample_facts by (simp_all add: sample_handler_def sample_ws_def)

subsection \<open>Guarantees\<close>

text \<open>C4: only authenticated users are connected. Opening a connection always returns and leaves the
  hub in a reachable state. The connection is admitted only when its first frame is an
  authentication frame, a connection slot of the user was free, and the token was accepted for this
  user by the first service call and again by the fourth one, which follows the registration; the
  connection is then registered in the hub for that user. A connection that is not admitted is not
  registered afterwards.\<close>

theorem connection_admission:
  assumes "hub_reachable (hd_hub env) (ws_hub s)" "c \<noteq> nil" "c \<notin> fst ` set (h_heap (ws_hub s))"
    "unat (h_nextConnectionID (ws_hub s)) + 1 < 2 ^ 64"
  shows "\<exists>s' result. ws_open env s c frame userSlot written = Some (s', result) \<and>
    hub_reachable (hd_hub env) (ws_hub s') \<and>
    (if result = Admitted
     then c \<in> set (h_clients (ws_hub s')) \<and> userSlot (user_of s' c) \<and>
       (\<exists>event d. frame = Some event \<and> ie_Type event = EventAuthenticate \<and>
          js_Authenticate (hd_json env) (ie_Data event) = Some d \<and>
          (\<forall>n \<in> {ws_tick s, ws_tick s + 3}. hd_Authenticate env n (hd_trimSpace env (at_Token d)) = (user_of s' c, None)))
     else c \<notin> set (h_clients (ws_hub s')))"
proof -
  have n: "c \<notin> set (h_known (ws_hub s))"
    using assms(3) hub_inv_refs(1)[OF reachable_inv[OF assms(1)]] by blast
  have out: "c \<notin> set (h_clients (ws_hub s))" by (rule fresh_outside(1)[OF reachable_okE[OF assms(1)] n])
  obtain s1 r where a: "authenticate_frame env s frame = (s1, r)" by fastforce
  show ?thesis
  proof (cases r)
    case (Inl refusal)
    then show ?thesis using a authenticate_frame_hub[OF a] assms(1) out by (simp add: ws_open_def)
  next
    case (Inr x)
    obtain requestID d u where x: "x = (requestID, d, u)" by (cases x)
    note A = authenticated_frame[OF a[unfolded Inr x]]
    show ?thesis
    proof (cases "userSlot u \<and> (\<exists>ss. hd_ListMemberships env (Suc (ws_tick s)) u = Inr ss) \<and>
        (\<exists>rs. hd_ListReads env (Suc (Suc (ws_tick s))) u = Inr rs)")
      case False
      then have "\<exists>t e status reason. ws_open env s c frame userSlot written = Some (t, Refused e status reason) \<and>
          ws_hub t = ws_hub s"
        using a Inr x A by (auto simp: ws_open_def ws_ask_def split: sum.split)
      then show ?thesis using assms(1) out by force
    next
      case True
      then obtain ss rs where l: "userSlot u" "hd_ListMemberships env (Suc (ws_tick s)) u = Inr ss"
        "hd_ListReads env (Suc (Suc (ws_tick s))) u = Inr rs" by blast
      let ?h = "connect (hd_sha256 env) (hd_trimSpace env) (ws_hub s) c u (at_Token d) ss (at_MessageSync d) (at_MultipleStreams d)"
      note C = connect_facts[OF assms(2), of "hd_sha256 env" "hd_trimSpace env" "ws_hub s" u "at_Token d" ss
          "at_MessageSync d" "at_MultipleStreams d"]
      have h: "hub_reachable (hd_hub env) ?h" by (rule hub_reachable.connected[OF assms])
      have "returns (ws_open env s c frame userSlot written) (admission_ok env (ws_tick s + 3) c (at_Token d) u)"
        using register_confirm[OF h C(1), of u "s1\<lparr> ws_tick := Suc (Suc (Suc (ws_tick s))) \<rparr>"] n C a Inr x A l
        by (simp add: ws_open_def ws_ask_def Let_def numeral_3_eq_3 cong: if_cong)
      then obtain s' result where "ws_open env s c frame userSlot written = Some (s', result)"
        "admission_ok env (ws_tick s + 3) c (at_Token d) u (s', result)" by (auto simp: returns_def)
      then show ?thesis using A l(1) by (auto simp: admission_ok_def split: if_splits)
    qed
  qed
qed

theorem connection_admission_witness:
  "\<exists>s'. ws_open sample_handler sample_ws 4 (Some (frame_of EventAuthenticate)) (\<lambda>_. True) True = Some (s', Admitted) \<and>
     4 \<in> set (h_clients (ws_hub s'))"
proof -
  have k: "map fst (h_heap sample_hub) = [2, 3]" "unat (h_nextConnectionID sample_hub) = 2"
    using sample_value by (simp_all add: sample_view_def)
  have f: "4 \<notin> fst ` set (h_heap (ws_hub sample_ws))" "unat (h_nextConnectionID (ws_hub sample_ws)) + 1 < 2 ^ 64"
    using k by (simp_all add: sample_ws_def flip: set_map)
  have "case ws_open sample_handler sample_ws 4 (Some (frame_of EventAuthenticate)) (\<lambda>_. True) True of
      Some (_, Admitted) \<Rightarrow> True | _ \<Rightarrow> False" by code_simp
  then obtain s' where o: "ws_open sample_handler sample_ws 4 (Some (frame_of EventAuthenticate)) (\<lambda>_. True) True = Some (s', Admitted)"
    by (auto split: option.splits prod.splits admission.splits)
  have "(4 :: cref) \<noteq> nil" by simp
  from connection_admission[OF sample_ws_facts(1) this f, of "Some (frame_of EventAuthenticate)" "\<lambda>_. True" True] o
  show ?thesis by auto
qed

text \<open>C2: no frame can break the server. Whatever frames a registered client sends, whatever the
  services answer and the media servers signal, the read loop returns without a panic and leaves the
  hub in a reachable state.\<close>

theorem read_loop_total:
  assumes "hub_reachable (hd_hub env) (ws_hub s)" "c \<in> set (h_known (ws_hub s))"
  shows "\<exists>s' r. readLoop env allowEvent relayBudget s c frames = Some (s', r) \<and>
    hub_reachable (hd_hub env) (ws_hub s') \<and> h_known (ws_hub s') = h_known (ws_hub s)"
  using readLoop_safe[of env "h_known (ws_hub s)" s c allowEvent relayBudget frames] assms
  by (auto simp: sound_def returns_def)

theorem read_loop_total_witness:
  "\<exists>s' r. readLoop sample_handler (\<lambda>_. True) (\<lambda>_ _. True) sample_ws 3
     [Some (frame_of EventChannelSubscribe), Some (frame_of EventVoiceJoin), None] = Some (s', r) \<and>
     hub_reachable sample_env (ws_hub s')"
proof -
  have "3 \<in> set (h_known (ws_hub sample_ws))" by (simp add: sample_ws_facts)
  from read_loop_total[OF sample_ws_facts(1) this, of "\<lambda>_. True" "\<lambda>_ _. True"
      "[Some (frame_of EventChannelSubscribe), Some (frame_of EventVoiceJoin), None]"]
  show ?thesis by (auto simp: sample_handler_def)
qed


lemma checkChannelAccess_facts:
  assumes "sound env K s" "c \<in> set K" "checkChannelAccess env s c requestID d = Some (s1, allowed, err)"
  shows "soft (ws_hub s) (ws_hub s1) \<and> ws_tick s1 = Suc (ws_tick s) \<and> sound env K s1 \<and>
    (allowed \<longrightarrow> hd_CheckAccess env (ws_tick s) (cs_ServerID d) (cs_ChannelID d) (user_of s c) = None)"
proof (cases "hd_CheckAccess env (ws_tick s) (cs_ServerID d) (cs_ChannelID d) (user_of s c)")
  case None
  then show ?thesis using assms by (auto simp: checkChannelAccess_def ws_ask_def)
next
  case (Some e)
  let ?t = "s\<lparr> ws_tick := Suc (ws_tick s) \<rparr>"
  obtain code message where "queueError ?t c requestID code message = Some (s1, err)" "\<not> allowed"
    using assms(3) Some by (auto simp: checkChannelAccess_def ws_ask_def split: if_splits)
  moreover have "sound env K ?t" using assms(1) by simp
  ultimately show ?thesis using queueError_soft[of env K ?t c requestID code message s1 err] assms(2) by simp
qed

lemma map_le_Some: "m \<subseteq>\<^sub>m m' \<Longrightarrow> m k = Some v \<Longrightarrow> m' k = Some v"
  by (auto simp: map_le_def dom_def)

lemma drop_subscription_le:
  assumes "sound env K s" "c \<in> set K"
  shows "map_of (c_subscriptions (client (ws_hub (drop_subscription s c ch)) c)) \<subseteq>\<^sub>m map_of (c_subscriptions (client (ws_hub s) c))"
    "map_of (c_subscriptions (client (ws_hub (drop_subscription s c ch)) c)) ch = None"
  using Unsubscribe_facts(2,3)[OF reachable_inv, of "hd_hub env" "ws_hub s" c ch] assms
  by (simp_all add: sound_def drop_subscription_def cleans_def shrinks_def)

text \<open>Confirming a subscription adds none.\<close>

lemma confirm_subscription_le:
  assumes s: "sound env K s" and c: "c \<in> set K" and r: "confirm_subscription env s c requestID d = Some (s', err)"
  shows "map_of (c_subscriptions (client (ws_hub s') c)) \<subseteq>\<^sub>m map_of (c_subscriptions (client (ws_hub s) c))"
proof -
  let ?t = "s\<lparr> ws_tick := Suc (ws_tick s) \<rparr>" and ?e = "reply requestID EventChannelSubscribed (DChannelSubscriptionData d)"
  have t: "sound env K ?t" using s by simp
  have w: "wf_event ?e" "wf_event (mkEvent EventChannelReadSnapshot x)" for x
    by (simp_all add: reply_wf mkEvent_wf event_types)
  note q1 = queueEvent_soft[OF t c w(1)] and q2 = queueEvent_soft[OF _ c w(2)]
  note dr = queueError_soft[OF guarded_steps_safe(7)[OF t c] c, THEN conjunct1, THEN soft_frame(1)]
  show ?thesis
  proof (cases "hd_ListByChannelID env (ws_tick s) (cs_ServerID d) (cs_ChannelID d) (user_of s c)")
    case (Inl e)
    show ?thesis
    proof (cases "e = ReadTextChannelRequired")
      case True
      then show ?thesis using r Inl q1 soft_frame(1)[of "ws_hub ?t" "ws_hub s'" c]
        by (simp add: confirm_subscription_def ws_ask_def)
    next
      case False
      then obtain code message where "queueError (drop_subscription ?t c (cs_ChannelID d)) c requestID code message = Some (s', err)"
        using r Inl by (cases e) (auto simp: confirm_subscription_def ws_ask_def Let_def)
      from dr[OF this] show ?thesis using drop_subscription_le(1)[OF t c, of "cs_ChannelID d"] by simp
    qed
  next
    case (Inr reads)
    obtain s2 e2 where 2: "queueEvent ?t c ?e = Some (s2, e2)"
      "(if e2 \<noteq> None then Some (s2, e2) else queueEvent s2 c (mkEvent EventChannelReadSnapshot
        (DChannelReadSnapshotData (NewChannelReadSnapshotData (cs_ServerID d) (cs_ChannelID d) reads)))) = Some (s', err)"
      using r Inr by (auto simp: confirm_subscription_def ws_ask_def bind_eq_Some_conv)
    have a: "soft (ws_hub ?t) (ws_hub s2)" "sound env K s2" using q1[OF 2(1)] by blast+
    have "soft (ws_hub s2) (ws_hub s')" using 2(2) q2[OF a(2)] by (auto split: if_splits)
    then show ?thesis using soft_frame(1)[OF a(1), of c] soft_frame(1)[of "ws_hub s2" "ws_hub s'" c] by simp
  qed
qed

lemma Subscribe_subscriptions:
  "map_of (c_subscriptions (client (fst (Subscribe h c sid ch)) c)) k =
     (if snd (Subscribe h c sid ch) \<and> k = ch then Some sid else map_of (c_subscriptions (client h c)) k)"
  "snd (Subscribe h c sid ch) \<Longrightarrow> canAccessChannel (client h c) ch \<and> sid \<in> set (c_servers (client h c))"
proof -
  obtain h0 r where g: "getOrCreateRoom h ch = (h0, r)" by fastforce
  obtain r' added where a: "room_add r c = (r', added)" by fastforce
  have "client h0 = client h" using g by (auto simp: getOrCreateRoom_def split: option.splits)
  then show "map_of (c_subscriptions (client (fst (Subscribe h c sid ch)) c)) k =
     (if snd (Subscribe h c sid ch) \<and> k = ch then Some sid else map_of (c_subscriptions (client h c)) k)"
    using g a by (auto simp: Subscribe_def Let_def client_set_client addSubscription_def update_conv')
  show "snd (Subscribe h c sid ch) \<Longrightarrow> canAccessChannel (client h c) ch \<and> sid \<in> set (c_servers (client h c))"
    by (auto simp: Subscribe_def hasServer_def split: if_splits)
qed

text \<open>C5: a client follows a channel only after its permission was checked. When a subscription frame
  makes a client follow a channel, the frame named that channel and its server with positive ids,
  the permission check succeeded both before and after the hub recorded the subscription, and the
  connection is a member of the server and may read the channel.\<close>

theorem subscribe_authorised:
  assumes "hub_reachable (hd_hub env) (ws_hub s)" "c \<in> set (h_known (ws_hub s))"
    "subscribeToChannel env s c event = Some (s', err)"
    "map_of (c_subscriptions (client (ws_hub s) c)) ch = None"
    "map_of (c_subscriptions (client (ws_hub s') c)) ch = Some sid"
  shows "js_ChannelSubscription (hd_json env) (ie_Data event) = Some \<lparr> cs_ServerID = sid, cs_ChannelID = ch \<rparr> \<and>
    0 < sid \<and> 0 < ch \<and>
    hd_CheckAccess env (ws_tick s) sid ch (user_of s c) = None \<and>
    hd_CheckAccess env (Suc (ws_tick s)) sid ch (user_of s c) = None \<and>
    sid \<in> set (c_servers (client (ws_hub s) c)) \<and> canAccessChannel (client (ws_hub s) c) ch"
proof -
  let ?K = "h_known (ws_hub s)"
  have s: "sound env ?K s" using assms(1) by (simp add: sound_def)
  note c = assms(2)
  have no: "\<not> soft (ws_hub s) (ws_hub s')" using assms(4,5) soft_frame(1)[of "ws_hub s" "ws_hub s'" c] by auto
  obtain d where d: "js_ChannelSubscription (hd_json env) (ie_Data event) = Some d" "0 < cs_ServerID d" "0 < cs_ChannelID d"
    using assms(3) no queueError_soft[OF s c] unfolding subscribeToChannel_def
    by (auto split: option.splits if_splits simp: not_le)
  obtain s1 a1 e1 where 1: "checkChannelAccess env s c (ie_RequestID event) d = Some (s1, a1, e1)"
    using checkChannelAccess_safe[OF s c, of "ie_RequestID event" d] by (auto simp: returns_def)
  note F1 = checkChannelAccess_facts[OF s c 1]
  have go1: "a1" "e1 = None" using assms(3) d 1 no F1 by (auto simp: subscribeToChannel_def split: if_splits)
  define s2 where "s2 = s1\<lparr> ws_hub := fst (Subscribe (ws_hub s1) c (cs_ServerID d) (cs_ChannelID d)) \<rparr>"
  have s2: "sound env ?K s2" using hub_steps_safe(10)[of env ?K s1] F1 by (simp add: s2_def)
  obtain s3 a3 e3 where 3: "checkChannelAccess env s2 c (ie_RequestID event) d = Some (s3, a3, e3)"
    using checkChannelAccess_safe[OF s2 c, of "ie_RequestID event" d] by (auto simp: returns_def)
  note F3 = checkChannelAccess_facts[OF s2 c 3]
  have s3: "sound env ?K s3" using F3 by blast
  have "(if e3 \<noteq> None \<or> \<not> a3 then Some (drop_subscription s3 c (cs_ChannelID d), e3)
      else confirm_subscription env s3 c (ie_RequestID event) d) = Some (s', err)"
    using assms(3) d 1 3 go1 by (simp add: subscribeToChannel_def s2_def[symmetric])
  then have le: "map_of (c_subscriptions (client (ws_hub s') c)) \<subseteq>\<^sub>m map_of (c_subscriptions (client (ws_hub s3) c))"
    "map_of (c_subscriptions (client (ws_hub s') c)) (cs_ChannelID d) = None \<or> a3"
    using confirm_subscription_le[OF s3 c] drop_subscription_le[OF s3 c] by (auto split: if_splits)
  have same: "canAccessChannel (client (ws_hub s1) c) = canAccessChannel (client (ws_hub s) c)"
    "c_servers (client (ws_hub s1) c) = c_servers (client (ws_hub s) c)" "user_of s1 c = user_of s c"
    "c_subscriptions (client (ws_hub s1) c) = c_subscriptions (client (ws_hub s) c)"
    "c_subscriptions (client (ws_hub s3) c) = c_subscriptions (client (ws_hub s2) c)"
    using F1 F3 by (auto simp: soft_def client_core_def canAccessChannel_def fun_eq_iff)
  have u: "user_of s2 c = user_of s c"
    using Subscribe_fine[OF reachable_okE, of "hd_hub env" "ws_hub s1" c "cs_ServerID d" "cs_ChannelID d"] F1 same(3)
    by (simp add: s2_def sound_def fine_def)
  have ch: "ch = cs_ChannelID d" "sid = cs_ServerID d" "snd (Subscribe (ws_hub s1) c (cs_ServerID d) (cs_ChannelID d))"
    using map_le_Some[OF le(1) assms(5)] Subscribe_subscriptions(1)[of "ws_hub s1" c "cs_ServerID d" "cs_ChannelID d" ch]
      same(4,5) assms(4) by (simp_all add: s2_def split: if_splits)
  have "a3" using le(2) assms(5) ch(1) by simp
  then show ?thesis
    using Subscribe_subscriptions(2)[OF ch(3)] ch(1,2) same(1,2) d F1 F3 go1 u by (simp add: s2_def)
qed

theorem subscribe_authorised_witness:
  "\<exists>s' err. subscribeToChannel sample_handler sample_ws 3 (frame_of EventChannelSubscribe) = Some (s', err) \<and>
     map_of (c_subscriptions (client (ws_hub s') 3)) 5 = Some 1 \<and> canAccessChannel (client (ws_hub sample_ws) 3) 5"
proof -
  have "case subscribeToChannel sample_handler sample_ws 3 (frame_of EventChannelSubscribe) of
      Some (s', err) \<Rightarrow> map_of (c_subscriptions (client (ws_hub s') 3)) 5 = Some 1 | None \<Rightarrow> False" by code_simp
  then obtain s' err where r: "subscribeToChannel sample_handler sample_ws 3 (frame_of EventChannelSubscribe) = Some (s', err)"
    "map_of (c_subscriptions (client (ws_hub s') 3)) 5 = Some 1" by (auto split: option.splits prod.splits)
  have "3 \<in> set (h_known (ws_hub sample_ws))" by (simp add: sample_ws_facts)
  moreover have "map_of (c_subscriptions (client (ws_hub sample_ws) 3)) 5 = None"
    using sample_value by (simp add: sample_view_def sample_ws_def)
  ultimately show ?thesis using subscribe_authorised[OF sample_ws_facts(1) _ r(1) _ r(2)] r by blast
qed

subsection \<open>Joining voice\<close>

text \<open>The encryption policy of a join: a channel without encryption admits only clients without a
  device, an encrypted one only clients with a registered device.\<close>

definition mode_admitted :: "handler_env \<Rightarrow> nat \<Rightarrow> int \<Rightarrow> VoiceJoinData \<Rightarrow> bool" where
  "mode_admitted env n userID d \<longleftrightarrow>
     (case hd_encryption env of
        None \<Rightarrow> vd_E2EEDeviceID d = []
      | Some e \<Rightarrow>
          (case en_ChannelRequired e n (vd_ChannelID d) of
             Inl _ \<Rightarrow> False
           | Inr required \<Rightarrow> (required \<longleftrightarrow> vd_E2EEDeviceID d \<noteq> []) \<and>
               (required \<longrightarrow> en_DeviceActive e (Suc n) userID (vd_E2EEDeviceID d) = Inr True)))"

text \<open>The number of service calls of the encryption check.\<close>

definition mode_calls :: "handler_env \<Rightarrow> nat \<Rightarrow> VoiceJoinData \<Rightarrow> nat" where
  "mode_calls env n d =
     (case hd_encryption env of
        None \<Rightarrow> 0
      | Some e \<Rightarrow> (if en_ChannelRequired e n (vd_ChannelID d) = Inr True then 2 else 1))"

lemma checkVoiceChannelAccess_facts:
  assumes "sound env K s" "c \<in> set K" "checkVoiceChannelAccess env s c requestID sid ch = Some (s1, allowed, err)"
  shows "soft (ws_hub s) (ws_hub s1) \<and> ws_tick s1 = Suc (ws_tick s) \<and> sound env K s1 \<and>
    (allowed \<longrightarrow> hd_CheckVoiceAccess env (ws_tick s) sid ch (user_of s c) = None)"
proof (cases "hd_CheckVoiceAccess env (ws_tick s) sid ch (user_of s c)")
  case None
  then show ?thesis using assms by (auto simp: checkVoiceChannelAccess_def ws_ask_def)
next
  case (Some e)
  let ?t = "s\<lparr> ws_tick := Suc (ws_tick s) \<rparr>"
  obtain code message where "queueError ?t c requestID code message = Some (s1, err)" "\<not> allowed"
    using assms(3) Some by (cases e) (auto simp: checkVoiceChannelAccess_def ws_ask_def)
  moreover have "sound env K ?t" using assms(1) by simp
  ultimately show ?thesis using queueError_soft[of env K ?t c requestID code message s1 err] assms(2) by simp
qed

lemma refuse_mode_soft:
  assumes "sound env K s" "c \<in> set K" "refuse_mode (s\<lparr> ws_tick := n \<rparr>) c requestID required code message = Some (s1, r, ok, err)"
  shows "soft (ws_hub s) (ws_hub s1) \<and> sound env K s1 \<and> \<not> ok"
  using queueError_soft[of env K "s\<lparr> ws_tick := n \<rparr>" c requestID code message s1 err] assms by (auto simp: refuse_mode_def)

lemma checkVoiceEncryption_facts:
  assumes s: "sound env K s" and c: "c \<in> set K" and r: "checkVoiceEncryption env s c requestID d = Some (s1, required, ok, err)"
  shows "soft (ws_hub s) (ws_hub s1) \<and> sound env K s1 \<and> 
    (ok \<longrightarrow> mode_admitted env (ws_tick s) (user_of s c) d \<and> ws_tick s1 = ws_tick s + mode_calls env (ws_tick s) d)"
proof (cases "ok")
  case True
  have n: "refuse_mode t c requestID q code message \<noteq> Some (s1, required, True, err)" for t q code message
    by (auto simp: refuse_mode_def)
  show ?thesis using s r True n
    by (auto simp: checkVoiceEncryption_def ws_ask_def mode_admitted_def mode_calls_def split: option.splits sum.splits if_splits prod.splits)
next
  case False
  have t: "s\<lparr> ws_tick := ws_tick s \<rparr> = s" by simp
  show ?thesis using r False refuse_mode_soft[OF s c] refuse_mode_soft[OF s c, of "ws_tick s", unfolded t]
    by (fastforce simp: checkVoiceEncryption_def ws_ask_def split: option.splits sum.splits if_splits prod.splits)
qed

text \<open>What a media server signals during a call takes seats away and gives none.\<close>

lemma run_signal_tidy:
  assumes inv: "hub_inv h" and r: "run_signal env h signal = Some h'"
  shows "tidy {} {} h h'"
proof -
  have "wf_event (mkEvent EventVoiceWebRTCOffer d)" "wf_event (mkEvent EventVoiceICECandidate d)"
    "wf_event (mkEvent EventStreamWebRTCOffer d)" "wf_event (mkEvent EventStreamICECandidate d)" for d
    by (rule mkEvent_wf, simp add: event_types)+
  note send = this[THEN tidy_steps(1)[OF inv]]
  have close: "tidy {} {} h g" if c: "CloseVoice env h k reason = Some g" for k reason g
  proof (cases "clientByConnectionID h k = nil")
    case True
    then show ?thesis using c tidy_refl[OF inv] by (simp add: CloseVoice_def)
  next
    case False
    then obtain h1 q b where h1: "leaveVoice env (Unregister env) h (clientByConnectionID h k) = Some (h1, q)"
      "SendToConnection (Unregister env) h1 k (closed_event reason) = Some (g, b)"
      using c by (auto simp: CloseVoice_def LeaveVoice_def Let_def bind_eq_Some_conv)
    note t = tidy_steps(4)[OF inv h1(1)]
    from tidy_trans[OF t tidy_steps(1)[OF tidyD(1)[OF t] closed_event_wf h1(2)]] show ?thesis .
  qed
  have closeS: "tidy {} {} h g" if c: "CloseStream env h k reason = Some g" for k reason g
  proof (cases "clientByConnectionID h k = nil")
    case True
    then show ?thesis using c tidy_refl[OF inv] by (simp add: CloseStream_def)
  next
    case False
    then obtain h1 x b where h1: "leaveStream env (Unregister env) h (clientByConnectionID h k) reason = Some (h1, x)"
      "SendToConnection (Unregister env) h1 k
        (mkEvent EventStreamWebRTCClosed (DStreamWebRTCClosedData \<lparr> sz_Reason = reason \<rparr>)) = Some (g, b)"
      using c by (auto simp: CloseStream_def LeaveStream_def Let_def bind_eq_Some_conv split: prod.splits if_splits)
    note t = tidy_steps(3)[OF inv h1(1)]
    from tidy_trans[OF t tidy_steps(1)[OF tidyD(1)[OF t] stream_closed_wf h1(2)]] show ?thesis .
  qed
  show ?thesis using r close closeS
    by (cases signal) (auto simp: voice_SendOffer_def voice_SendICECandidate_def stream_SendOffer_def
        stream_SendICECandidate_def dest: send)
qed

lemma media_call_tidy:
  assumes inv: "hub_inv (ws_hub s)" and m: "media_call env s f = Some (s', e)"
  shows "tidy {} {} (ws_hub s) (ws_hub s')"
proof -
  have "tidy {} {} h h'" if "hub_inv h" "foreach (run_signal (hd_hub env)) h signals = Some h'" for signals h h'
    using that
  proof (induction signals arbitrary: h)
    case Nil
    then show ?case by (simp add: tidy_refl)
  next
    case (Cons x xs)
    then obtain h1 where h1: "run_signal (hd_hub env) h x = Some h1" "foreach (run_signal (hd_hub env)) h1 xs = Some h'"
      by (auto simp: bind_eq_Some_conv)
    note t = run_signal_tidy[OF Cons.prems(1) h1(1)]
    from tidy_trans[OF t Cons.IH[OF tidyD(1)[OF t] h1(2)]] show ?case .
  qed
  then show ?thesis using inv m by (auto simp: media_call_def split: prod.splits)
qed

text \<open>When the media session fails, the seat is given up again.\<close>

lemma start_voice_media_facts:
  assumes s: "sound env K s" and c: "c \<in> set K" and r: "start_voice_media env s c requestID d j = Some (s', err)"
    and v: "voice_current (h_voice (ws_hub s')) c = Some p"
  shows "voice_current (h_voice (ws_hub s)) c = Some p" "err = None \<Longrightarrow> snd (vm_Join (hd_voiceMedia env) (ws_tick s) (conn_of s c) (user_of s c)
    (vd_ServerID d) (vd_ChannelID d) (vd_SelfMute d) (vd_SelfDeaf d)) = None"
proof -
  have w: "wf_event (reply requestID EventVoiceJoined x)" for x by (rule reply_wf) (simp add: event_types)
  obtain s1 e1 where 1: "queueEvent s c (reply requestID EventVoiceJoined (DVoiceJoinedData j)) = Some (s1, e1)"
    using queueEvent_safe[OF s c w, of "DVoiceJoinedData j"] by (auto simp: returns_def)
  have F: "soft (ws_hub s) (ws_hub s1)" "ws_tick s1 = ws_tick s" "sound env K s1" using queueEvent_soft[OF s c w 1] by blast+
  let ?f = "\<lambda>n. vm_Join (hd_voiceMedia env) n (conn_of s1 c) (user_of s1 c)
    (vd_ServerID d) (vd_ChannelID d) (vd_SelfMute d) (vd_SelfDeaf d)"
  obtain s2 me where 2: "media_call env s1 ?f = Some (s2, me)" "sound env K s2"
    using media_call_safe[OF F(3), of ?f] by (auto simp: returns_def)
  have me: "me = snd (?f (ws_tick s1))" using 2(1) by (auto simp: media_call_def split: prod.splits)
  have inv: "hub_inv (ws_hub s1)" using F(3) reachable_inv by (auto simp: sound_def)
  have seat: "voice_current (h_voice (ws_hub s)) c = Some p" if "voice_current (h_voice (ws_hub s2)) c = Some p"
    using voice_shrinks[OF media_call_tidy[OF inv 2(1)], of c p] that soft_frame(4)[OF F(1)] by (simp add: voice_current_def)
  have lost: "False" if x: "e1 = None" "me = Some x" for x
  proof -
    have ok: "hub_okE {} {} (ws_hub s2)" using 2(2) reachable_okE by (auto simp: sound_def)
    have "h_known (ws_hub s2) = K" using 2(2) by (simp add: sound_def)
    then have "c \<noteq> nil" using known_not_nil[OF ok] c by simp
    then obtain h l where h: "LeaveVoice (hd_hub env) (ws_hub s2) c = Some (h, l)" "map_of (v_byClient (h_voice h)) c = None"
      using LeaveVoice_fine[OF ok, of "hd_hub env" c] by blast
    have "sound env K (s2\<lparr> ws_hub := h \<rparr>)" using hub_steps_safe(1)[OF 2(2), of c] h(1) by simp
    note q = queueError_soft[OF this c]
    obtain code message where "queueError (s2\<lparr> ws_hub := h \<rparr>) c requestID code message = Some (s', err)"
      using r 1 2(1) x h(1) by (auto simp: start_voice_media_def leave_voice_def split: if_splits)
    from q[OF this] have "h_voice (ws_hub s') = h_voice h" using soft_frame(4) by fastforce
    then show False using v h(2) by (simp add: voice_current_def)
  qed
  have alt: "s' = s1 \<and> err = e1 \<and> e1 \<noteq> None \<or> s' = s2 \<and> me = None"
    using r 1 2(1) lost by (cases e1; cases me) (auto simp: start_voice_media_def)
  then show "voice_current (h_voice (ws_hub s)) c = Some p" using v seat soft_frame(4)[OF F(1)] by auto
  show "snd (vm_Join (hd_voiceMedia env) (ws_tick s) (conn_of s c) (user_of s c)
    (vd_ServerID d) (vd_ChannelID d) (vd_SelfMute d) (vd_SelfDeaf d)) = None" if "err = None"
    using alt that me F(2) soft_frame(2,3)[OF F(1)] by auto
qed


lemma JoinVoice_refused:
  assumes "JoinVoiceWithDevice env h c sid ch m f dev = Some (h', None)"
  shows "h_voice h' = h_voice h"
proof -
  have "h_voice g = h_voice h" if "join_allowed env h c sid ch dev = (g, b)" for g b
    using that by (auto simp: join_allowed_def device_active_def Let_def split: if_splits option.splits)
  then show ?thesis using assms
    by (auto simp: JoinVoiceWithDevice_def bind_eq_Some_conv split: prod.splits bool.splits if_splits)
qed

text \<open>A join frame that changes more than queues has passed the three checks.\<close>

lemma joinVoice_checked:
  assumes s: "sound env K s" and c: "c \<in> set K" and r: "joinVoice env s c event = Some (s', err)"
    and no: "\<not> soft (ws_hub s) (ws_hub s')"
  shows "\<exists>d req s3 n. js_VoiceJoin (hd_json env) (ie_Data event) = Some d \<and> 0 < vd_ServerID d \<and> 0 < vd_ChannelID d \<and>
    hd_CheckVoiceAccess env (ws_tick s) (vd_ServerID d) (vd_ChannelID d) (user_of s c) = None \<and>
    mode_admitted env (Suc (ws_tick s)) (user_of s c) d \<and>
    hd_CheckVoiceAccess env n (vd_ServerID d) (vd_ChannelID d) (user_of s c) = None \<and>
    n = Suc (ws_tick s) + mode_calls env (Suc (ws_tick s)) d \<and>
    soft (ws_hub s) (ws_hub s3) \<and> sound env K s3 \<and> ws_tick s3 = Suc n \<and>
    (do {
       (h, joined) \<leftarrow> JoinVoiceWithDevice (hd_hub env) (ws_hub s3) c (vd_ServerID d) (vd_ChannelID d)
         (vd_SelfMute d) (vd_SelfDeaf d) (vd_E2EEDeviceID d);
       case joined of
         None \<Rightarrow> queueError (s3\<lparr> ws_hub := h \<rparr>) c (ie_RequestID event) ErrorForbidden ''not allowed to join voice channel''
       | Some j \<Rightarrow> start_voice_media env (s3\<lparr> ws_hub := h \<rparr>) c (ie_RequestID event) d (j\<lparr> vj_E2EERequired := req \<rparr>)
     }) = Some (s', err)"
proof -
  let ?K = K and ?id = "ie_RequestID event"
  obtain d where d: "js_VoiceJoin (hd_json env) (ie_Data event) = Some d" "0 < vd_ServerID d" "0 < vd_ChannelID d"
    using r no queueError_soft[OF s c] unfolding joinVoice_def Let_def
    by (auto split: option.splits if_splits simp: not_le)
  obtain s1 a1 e1 where 1: "checkVoiceChannelAccess env s c ?id (vd_ServerID d) (vd_ChannelID d) = Some (s1, a1, e1)"
    using voice_checks_safe(1)[OF s c, of ?id "vd_ServerID d" "vd_ChannelID d"] by (auto simp: returns_def)
  note F1 = checkVoiceChannelAccess_facts[OF s c 1]
  have go1: "a1" "e1 = None" using r d 1 no F1 by (auto simp: joinVoice_def Let_def split: if_splits)
  have s1: "sound env ?K s1" using F1 by blast
  obtain s2 req ok e2 where 2: "checkVoiceEncryption env s1 c ?id d = Some (s2, req, ok, e2)"
    using voice_checks_safe(2)[OF s1 c, of ?id d] by (auto simp: returns_def)
  note F2 = checkVoiceEncryption_facts[OF s1 c 2]
  have S2: "soft (ws_hub s) (ws_hub s2)" "sound env ?K s2" using F1 F2 soft_trans by blast+
  have go2: "ok" "e2 = None" using r d 1 2 go1 no S2 by (auto simp: joinVoice_def Let_def split: if_splits)
  obtain s3 a3 e3 where 3: "checkVoiceChannelAccess env s2 c ?id (vd_ServerID d) (vd_ChannelID d) = Some (s3, a3, e3)"
    using voice_checks_safe(1)[OF S2(2) c, of ?id "vd_ServerID d" "vd_ChannelID d"] by (auto simp: returns_def)
  note F3 = checkVoiceChannelAccess_facts[OF S2(2) c 3]
  have S3: "soft (ws_hub s) (ws_hub s3)" "sound env ?K s3" using S2(1) F3 soft_trans by blast+
  have go3: "a3" "e3 = None" using r d 1 2 3 go1 go2 no S3 by (auto simp: joinVoice_def Let_def split: if_splits)
  have id: "user_of s1 c = user_of s c" "user_of s2 c = user_of s c"
    using soft_frame(2)[OF F1[THEN conjunct1]] soft_frame(2)[OF S2(1)] by simp_all
  show ?thesis
    by (rule exI[of _ d], rule exI[of _ req], rule exI[of _ s3], rule exI[of _ "ws_tick s2"])
      (use r d 1 2 3 go1 go2 go3 F1 F2 F3 S3 id in \<open>simp add: joinVoice_def Let_def\<close>)
qed

text \<open>C6: a seat in voice is only given to admitted clients. When a join frame gives a client a seat it
  did not have in this form (it had none, or one elsewhere or with other flags), the seat is that of
  this user in the server and channel the frame names, with the device and the mute flags of the
  frame; the ids are positive, the permission check for this server and channel succeeded before the
  encryption check and again by the last service call before the hub seated the client, the device
  matches the encryption policy of the channel (a registered device exactly when the channel is
  encrypted), and, unless the reply could not be queued, the media session was started.\<close>

theorem join_voice_admission:
  assumes "hub_reachable (hd_hub env) (ws_hub s)" "c \<in> set (h_known (ws_hub s))"
    "joinVoice env s c event = Some (s', err)"
    "voice_current (h_voice (ws_hub s')) c = Some p" "voice_current (h_voice (ws_hub s)) c \<noteq> Some p"
  shows "\<exists>d n. js_VoiceJoin (hd_json env) (ie_Data event) = Some d \<and>
    vp_UserID p = user_of s c \<and> vp_ServerID p = vd_ServerID d \<and> vp_ChannelID p = vd_ChannelID d \<and>
    vp_E2EEDeviceID p = vd_E2EEDeviceID d \<and> vp_SelfMute p = vd_SelfMute d \<and> vp_SelfDeaf p = vd_SelfDeaf d \<and>
    0 < vp_ServerID p \<and> 0 < vp_ChannelID p \<and>
    hd_CheckVoiceAccess env (ws_tick s) (vp_ServerID p) (vp_ChannelID p) (user_of s c) = None \<and>
    mode_admitted env (Suc (ws_tick s)) (user_of s c) d \<and>
    n = Suc (ws_tick s) + mode_calls env (Suc (ws_tick s)) d \<and>
    hd_CheckVoiceAccess env n (vp_ServerID p) (vp_ChannelID p) (user_of s c) = None \<and>
    (err = None \<longrightarrow> snd (vm_Join (hd_voiceMedia env) (Suc n) (conn_of s c) (user_of s c)
       (vp_ServerID p) (vp_ChannelID p) (vp_SelfMute p) (vp_SelfDeaf p)) = None)"
proof -
  let ?K = "h_known (ws_hub s)" and ?id = "ie_RequestID event"
  note c = assms(2)
  have s: "sound env ?K s" using assms(1) by (simp add: sound_def)
  have no: "\<not> soft (ws_hub s) (ws_hub s')" using assms(4,5) soft_frame(4)[of "ws_hub s" "ws_hub s'"] by auto
  obtain d req s3 n where d: "js_VoiceJoin (hd_json env) (ie_Data event) = Some d" "0 < vd_ServerID d" "0 < vd_ChannelID d"
    "hd_CheckVoiceAccess env (ws_tick s) (vd_ServerID d) (vd_ChannelID d) (user_of s c) = None"
    "mode_admitted env (Suc (ws_tick s)) (user_of s c) d" "n = Suc (ws_tick s) + mode_calls env (Suc (ws_tick s)) d"
    "hd_CheckVoiceAccess env n (vd_ServerID d) (vd_ChannelID d) (user_of s c) = None"
    and s3: "soft (ws_hub s) (ws_hub s3)" "sound env ?K s3" "ws_tick s3 = Suc n"
    and rest: "(do {
       (h, joined) \<leftarrow> JoinVoiceWithDevice (hd_hub env) (ws_hub s3) c (vd_ServerID d) (vd_ChannelID d)
         (vd_SelfMute d) (vd_SelfDeaf d) (vd_E2EEDeviceID d);
       case joined of
         None \<Rightarrow> queueError (s3\<lparr> ws_hub := h \<rparr>) c ?id ErrorForbidden ''not allowed to join voice channel''
       | Some j \<Rightarrow> start_voice_media env (s3\<lparr> ws_hub := h \<rparr>) c ?id d (j\<lparr> vj_E2EERequired := req \<rparr>)
     }) = Some (s', err)"
    using joinVoice_checked[OF s c assms(3) no] by blast
  have r3: "hub_reachable (hd_hub env) (ws_hub s3)" "c \<in> set (h_known (ws_hub s3))" using s3(2) c by (auto simp: sound_def)
  from JoinVoice_ok[OF reachable_ok[OF r3(1), THEN conjunct1], of c "hd_hub env" "vd_ServerID d" "vd_ChannelID d"
      "vd_SelfMute d" "vd_SelfDeaf d" "vd_E2EEDeviceID d"] r3(2)
  obtain h j where h: "JoinVoiceWithDevice (hd_hub env) (ws_hub s3) c (vd_ServerID d) (vd_ChannelID d) (vd_SelfMute d)
      (vd_SelfDeaf d) (vd_E2EEDeviceID d) = Some (h, j)" "fine {} {} (ws_hub s3) h" by blast
  let ?s4 = "s3\<lparr> ws_hub := h \<rparr>"
  have s4: "sound env ?K ?s4" using returns_Some[OF guarded_steps_safe(4)[OF s3(2) c] h(1)] by simp
  have id: "user_of ?s4 c = user_of s c" "conn_of ?s4 c = conn_of s c" "user_of s3 c = user_of s c"
    using soft_frame(2,3)[OF s3(1)] h(2) by (auto simp: fine_def same_conns_def)
  have "j \<noteq> None"
  proof
    assume "j = None"
    then have "h_voice (ws_hub s') = h_voice (ws_hub s3)"
      using queueError_soft[OF s4 c, of ?id _ _ s' err] rest h(1) soft_frame(4)[of h "ws_hub s'"] JoinVoice_refused[of "hd_hub env"]
      by simp
    then show False using assms(4,5) soft_frame(4)[OF s3(1)] by simp
  qed
  then obtain x where x: "j = Some x" by blast
  then have m: "start_voice_media env ?s4 c ?id d (x\<lparr> vj_E2EERequired := req \<rparr>) = Some (s', err)" using rest h(1) by simp
  note M = start_voice_media_facts[OF s4 c m assms(4)]
  from join_voice_seats[OF r3 h(1)[unfolded x]] M(1)
  have "vp_UserID p = user_of s c \<and> vp_ServerID p = vd_ServerID d \<and> vp_ChannelID p = vd_ChannelID d \<and>
    vp_E2EEDeviceID p = vd_E2EEDeviceID d \<and> vp_SelfMute p = vd_SelfMute d \<and> vp_SelfDeaf p = vd_SelfDeaf d"
    using id(3) by auto
  then show ?thesis using d M(2) s3(3) id by (intro exI[of _ d] exI[of _ n]) simp
qed

theorem join_voice_admission_witness:
  "\<exists>s' err d p. joinVoice sample_handler sample_ws 3 (frame_of EventVoiceJoin) = Some (s', err) \<and>
     voice_current (h_voice (ws_hub s')) 3 = Some p \<and> vp_UserID p = 8 \<and> vp_ChannelID p = 5 \<and>
     js_VoiceJoin sample_decoders [] = Some d \<and> mode_admitted sample_handler 1 8 d"
proof -
  have "case joinVoice sample_handler sample_ws 3 (frame_of EventVoiceJoin) of
      Some (s', err) \<Rightarrow> voice_current (h_voice (ws_hub s')) 3 \<noteq> None | None \<Rightarrow> False" by code_simp
  then obtain s' err p where r: "joinVoice sample_handler sample_ws 3 (frame_of EventVoiceJoin) = Some (s', err)"
    "voice_current (h_voice (ws_hub s')) 3 = Some p" by (auto split: option.splits prod.splits)
  have k: "3 \<in> set (h_known (ws_hub sample_ws))" "user_of sample_ws 3 = 8" by (simp_all add: sample_ws_facts sample_ws_def sample_facts)
  have v: "voice_current (h_voice (ws_hub sample_ws)) 3 \<noteq> Some p"
    using sample_value by (simp add: sample_view_def sample_ws_def)
  obtain d where "js_VoiceJoin (hd_json sample_handler) (ie_Data (frame_of EventVoiceJoin)) = Some d"
    "vp_UserID p = user_of sample_ws 3" "vp_ChannelID p = vd_ChannelID d"
    "mode_admitted sample_handler (Suc (ws_tick sample_ws)) (user_of sample_ws 3) d"
    using join_voice_admission[OF sample_ws_facts(1) k(1) r v] by blast
  moreover have "vd_ChannelID d = 5" if "js_VoiceJoin (hd_json sample_handler) x = Some d" for d x
    using that by (auto simp: sample_handler_def sample_decoders_def)
  ultimately show ?thesis using r k(2) by (simp add: sample_ws_def frame_of_def sample_handler_def)
qed

subsection \<open>Typing and session checks\<close>

text \<open>The answers of the typing limiter to a sequence of requests (user, channel, time).\<close>

fun typing_run :: "(int \<times> int, int) gomap \<Rightarrow> (int \<times> int \<times> int) list \<Rightarrow> bool list" where
  "typing_run seen [] = []"
| "typing_run seen ((userID, channelID, now) # requests) =
     (case typing_allow seen userID channelID now of (seen', ok) \<Rightarrow> ok # typing_run seen' requests)"

text \<open>\<open>noted seen k t now\<close>: an event accepted for \<open>k\<close> at \<open>t\<close> is in the table or long past.\<close>

definition noted :: "(int \<times> int, int) gomap \<Rightarrow> int \<times> int \<Rightarrow> int \<Rightarrow> int \<Rightarrow> bool" where
  "noted seen k t now \<longleftrightarrow> (\<exists>t' \<ge> t. map_of seen k = Some t') \<or> now - t \<ge> typingMinInterval"

lemma map_of_filter_Some: "map_of xs k = Some v \<Longrightarrow> P (k, v) \<Longrightarrow> map_of (filter P xs) k = Some v"
  by (induction xs) (auto split: if_splits)

lemma typing_allow_noted:
  assumes "noted seen k t n" "n \<le> now" "t \<le> now" "typing_allow seen u ch now = (seen', ok)"
  shows "noted seen' k t now \<and> (ok \<and> (u, ch) = k \<longrightarrow> now - t \<ge> typingMinInterval)"
proof (cases "now - t \<ge> typingMinInterval")
  case True
  then show ?thesis by (simp add: noted_def)
next
  case False
  then obtain t' where t': "t' \<ge> t" "map_of seen k = Some t'" using assms(1,2) by (auto simp: noted_def)
  have "\<not> now - t' > typingMinInterval" using False t'(1) by simp
  then have "map_of (filter (\<lambda>(k, t). \<not> now - t > typingMinInterval) seen) k = Some t'"
    by (intro map_of_filter_Some[OF t'(2)]) simp
  then show ?thesis using assms(3,4) t' False
    by (auto simp: typing_allow_def noted_def update_conv' Let_def split: if_splits option.splits)
qed

lemma typing_run_noted:
  assumes "noted seen k t n" "t \<le> n" "sorted (n # map (\<lambda>r. snd (snd r)) rs)" "j < length rs"
    "typing_run seen rs ! j" "(fst (rs ! j), fst (snd (rs ! j))) = k"
  shows "snd (snd (rs ! j)) - t \<ge> typingMinInterval"
  using assms
proof (induction rs arbitrary: seen n j)
  case (Cons r rs)
  obtain u ch now where r: "r = (u, ch, now)" by (cases r)
  obtain seen' ok where a: "typing_allow seen u ch now = (seen', ok)" by fastforce
  have le: "n \<le> now" "t \<le> now" "sorted (now # map (\<lambda>r. snd (snd r)) rs)" using Cons.prems(2,3) r by auto
  note N = typing_allow_noted[OF Cons.prems(1) le(1,2) a]
  show ?case
  proof (cases j)
    case 0
    then show ?thesis using N Cons.prems r a by auto
  next
    case (Suc i)
    then show ?thesis using Cons.IH[of seen' now i] N le Cons.prems r a by simp
  qed
qed simp

text \<open>typing is relayed at most once per interval. When the clock does not run backwards, two
  typing events of one user in one channel that the limiter both accepts are at least
  \<open>typingMinInterval\<close> (three seconds) apart, however its table is pruned in between.\<close>

theorem typing_spaced:
  assumes "sorted (map (\<lambda>r. snd (snd r)) rs)" "i < j" "j < length rs"
    "fst (rs ! i) = fst (rs ! j)" "fst (snd (rs ! i)) = fst (snd (rs ! j))"
    "typing_run [] rs ! i" "typing_run [] rs ! j"
  shows "snd (snd (rs ! j)) - snd (snd (rs ! i)) \<ge> typingMinInterval"
proof -
  have "typing_run seen rs ! i \<Longrightarrow> typing_run seen rs ! j \<Longrightarrow> snd (snd (rs ! j)) - snd (snd (rs ! i)) \<ge> typingMinInterval" for seen
    using assms(1-5)
  proof (induction rs arbitrary: i j seen)
    case (Cons r rs)
    obtain u ch now where r: "r = (u, ch, now)" by (cases r)
    obtain seen' ok where a: "typing_allow seen u ch now = (seen', ok)" by fastforce
    obtain l where l: "j = Suc l" using Cons.prems(4) by (cases j) auto
    show ?case
    proof (cases i)
      case 0
      then have ok using Cons.prems(1) r a by simp
      then have "noted seen' (u, ch) now now"
        using a by (auto simp: typing_allow_def noted_def update_conv' Let_def split: if_splits option.splits)
      from typing_run_noted[OF this order_refl, of rs l] show ?thesis using 0 l Cons.prems r a by auto
    next
      case (Suc k)
      then show ?thesis using Cons.IH[of seen' k l] l Cons.prems r a by auto
    qed
  qed simp
  then show ?thesis using assms(6,7) by blast
qed

theorem typing_spaced_witness:
  "typing_run [] [(7, 5, 0), (7, 5, 1), (7, 5, 4 * 10 ^ 9)] = [True, False, True] \<and> typingMinInterval \<le> 4 * 10 ^ 9"
proof -
  have r: "typing_run [] [(7, 5, 0), (7, 5, 1), (7, 5, 4 * 10 ^ 9)] = [True, False, True]" by code_simp
  then show ?thesis using typing_spaced[of "[(7, 5, 0), (7, 5, 1), (7, 5, 4 * 10 ^ 9)]" 0 2] by simp
qed

text \<open>The answers to a session check that end the connection at once.\<close>

definition revoked :: "int \<Rightarrow> int \<times> auth_error option \<Rightarrow> bool" where
  "revoked userID r \<longleftrightarrow> snd r = Some AuthUnauthorized \<or> (snd r = None \<and> fst r \<noteq> userID)"

definition failing :: "int \<times> auth_error option \<Rightarrow> bool" where
  "failing r \<longleftrightarrow> snd r = Some AuthFailed"

fun three :: "bool list \<Rightarrow> bool" where
  "three (a # b # c # bs) = (a \<and> b \<and> c \<or> three (b # c # bs))"
| "three bs = False"

lemma three_iff: "three bs \<longleftrightarrow> (\<exists>pre post. bs = pre @ [True, True, True] @ post)"
proof (induction bs rule: three.induct)
  case (1 a b c bs)
  have "(\<exists>pre post. a # xs = pre @ [True, True, True] @ post) \<longleftrightarrow>
      (\<exists>post. a # xs = [True, True, True] @ post) \<or> (\<exists>pre post. xs = pre @ [True, True, True] @ post)" for xs
    by (metis append_Cons append_Nil list.exhaust list.sel(3))
  from this[of "b # c # bs"] 1 show ?case by simp
qed (auto simp: append_eq_Cons_conv)

lemma three_False: "n \<le> 2 \<Longrightarrow> three (replicate n True @ False # bs) = three bs"
proof -
  have f: "three (False # bs) = three bs" by (cases bs rule: three.cases) auto
  assume "n \<le> 2"
  then consider "n = 0" | "n = 1" | "n = 2" by linarith
  then show ?thesis
  proof cases
    case 2
    then show ?thesis using f by (cases bs) auto
  next
    case 3
    then show ?thesis using f by (cases bs) (auto simp: numeral_2_eq_2)
  qed (use f in simp)
qed

lemma ping_checks_three:
  "n \<le> 2 \<Longrightarrow> snd (ping_checks u n rs) = None \<longleftrightarrow>
     (\<forall>r \<in> set rs. \<not> revoked u r) \<and> \<not> three (replicate n True @ map failing rs)"
proof (induction rs arbitrary: n)
  case Nil
  have "\<not> three (replicate n True)"
    using Nil by (auto simp: three_iff dest: arg_cong[of _ _ length])
  then show ?case by simp
next
  case (Cons r rs)
  consider "revoked u r" | "\<not> revoked u r" "failing r" | "\<not> revoked u r" "\<not> failing r" by blast
  then show ?case
  proof cases
    case 1
    then show ?thesis by (auto simp: ping_check_def revoked_def split: prod.splits)
  next
    case 2
    then have p: "ping_check u n r = (n + 1, if n + 1 \<ge> 3 then Some (StatusTryAgainLater, ''session check temporarily unavailable'') else None)"
      by (cases r) (simp add: ping_check_def failing_def)
    show ?thesis
    proof (cases "n = 2")
      case True
      have "three (replicate 2 True @ True # map failing rs)" by (simp add: numeral_2_eq_2)
      then show ?thesis using p 2 True by simp
    next
      case False
      then have "n + 1 \<le> 2" using Cons.prems by simp
      then show ?thesis using Cons.IH[of "n + 1"] p 2 by (simp add: replicate_app_Cons_same)
    qed
  next
    case 3
    then have p: "ping_check u n r = (0, None)"
      using auth_error.exhaust by (cases r; cases "snd r") (auto simp: ping_check_def failing_def revoked_def split: if_splits)
    then show ?thesis using Cons.IH[of 0] 3 three_False[OF Cons.prems] by simp
  qed
qed

text \<open>The session of an open connection is rechecked. The checks that accompany the pings keep the
  connection open exactly as long as no check reports that the token is no longer valid for the
  user of the connection and no three successive checks fail.\<close>

theorem session_recheck_exact:
  "snd (ping_checks u 0 rs) = None \<longleftrightarrow>
     (\<forall>r \<in> set rs. \<not> revoked u r) \<and> (\<nexists>pre post. map failing rs = pre @ [True, True, True] @ post)"
  using ping_checks_three[of 0 u rs] three_iff by simp

theorem session_recheck_exact_witness:
  "snd (ping_checks 7 0 [(7, None), (0, Some AuthFailed), (0, Some AuthFailed), (7, None)]) = None \<and>
   snd (ping_checks 7 0 [(7, None), (8, None)]) \<noteq> None"
  using session_recheck_exact[of 7 "[(7, None), (8, None)]"] by (simp add: revoked_def ping_check_def)

end
