(* ===== verification/KeyLock.thy ===== *)
theory KeyLock
  imports Voxhold_Prelude
begin

text \<open>
  The per-key lock set (\<^verbatim>\<open>internal/keylock/keylock.go\<close>) that serialises media transitions
  and presence broadcasts of one user. The state holds the map of entries, the heap of entry
  objects and, for every goroutine, where it is between the atomic sections of \<^verbatim>\<open>Lock\<close> and
  of the unlock function it returns. The steps of different goroutines interleave freely; the
  sections under \<^verbatim>\<open>s.mu\<close> are atomic, and acquiring \<^verbatim>\<open>value.mu\<close> waits until it is free.
\<close>

record entry =
  e_mu :: bool
  e_refs :: int

datatype pc =
    Idle
  | Waiting int nat   \<comment> \<open>registered with the entry, before \<^verbatim>\<open>value.mu.Lock()\<close> returns\<close>
  | Holding int nat   \<comment> \<open>\<^verbatim>\<open>Lock\<close> has returned\<close>
  | Releasing int nat \<comment> \<open>\<^verbatim>\<open>value.mu\<close> is unlocked, the reference not yet dropped\<close>

record keyset =
  ks_entries :: "(int, nat) gomap"
  ks_heap :: "nat \<Rightarrow> entry"
  ks_fresh :: nat
  ks_pc :: "nat \<Rightarrow> pc"

definition new_keyset :: keyset where
  "new_keyset = \<lparr> ks_entries = [], ks_heap = (\<lambda>_. \<lparr>e_mu = False, e_refs = 0\<rparr>),
                  ks_fresh = 0, ks_pc = (\<lambda>_. Idle) \<rparr>"

text \<open>First section of \<^verbatim>\<open>Lock\<close>: find or allocate the entry and count the reference.\<close>

definition lock_register :: "nat \<Rightarrow> int \<Rightarrow> keyset \<Rightarrow> keyset" where
  "lock_register t key s =
     (case map_of (ks_entries s) key of
        Some e \<Rightarrow>
          s\<lparr>ks_heap := (ks_heap s)(e := (ks_heap s e)\<lparr>e_refs := e_refs (ks_heap s e) + 1\<rparr>),
            ks_pc := (ks_pc s)(t := Waiting key e)\<rparr>
      | None \<Rightarrow>
          (let e = ks_fresh s in
           s\<lparr>ks_entries := AList.update key e (ks_entries s),
             ks_heap := (ks_heap s)(e := \<lparr>e_mu = False, e_refs = 0 + 1\<rparr>),
             ks_fresh := Suc e,
             ks_pc := (ks_pc s)(t := Waiting key e)\<rparr>))"

text \<open>Second section of \<^verbatim>\<open>Lock\<close>: \<^verbatim>\<open>value.mu.Lock()\<close>; None while another goroutine
  holds it.\<close>

definition lock_acquire :: "nat \<Rightarrow> int \<Rightarrow> nat \<Rightarrow> keyset \<Rightarrow> keyset option" where
  "lock_acquire t key e s =
     (if e_mu (ks_heap s e) then None
      else Some (s\<lparr>ks_heap := (ks_heap s)(e := (ks_heap s e)\<lparr>e_mu := True\<rparr>),
                   ks_pc := (ks_pc s)(t := Holding key e)\<rparr>))"

text \<open>The returned function: \<^verbatim>\<open>value.mu.Unlock()\<close>, then the section that drops the
  reference and reclaims an unused entry.\<close>

definition unlock_mutex :: "nat \<Rightarrow> int \<Rightarrow> nat \<Rightarrow> keyset \<Rightarrow> keyset" where
  "unlock_mutex t key e s =
     s\<lparr>ks_heap := (ks_heap s)(e := (ks_heap s e)\<lparr>e_mu := False\<rparr>),
       ks_pc := (ks_pc s)(t := Releasing key e)\<rparr>"

definition unlock_release :: "nat \<Rightarrow> int \<Rightarrow> nat \<Rightarrow> keyset \<Rightarrow> keyset" where
  "unlock_release t key e s =
     (let refs = e_refs (ks_heap s e) - 1 in
      s\<lparr>ks_heap := (ks_heap s)(e := (ks_heap s e)\<lparr>e_refs := refs\<rparr>),
        ks_entries := (if refs = 0 then AList.delete key (ks_entries s) else ks_entries s),
        ks_pc := (ks_pc s)(t := Idle)\<rparr>)"

inductive key_step :: "keyset \<Rightarrow> keyset \<Rightarrow> bool" where
  register: "ks_pc s t = Idle \<Longrightarrow> key_step s (lock_register t key s)"
| acquire: "ks_pc s t = Waiting key e \<Longrightarrow> lock_acquire t key e s = Some s' \<Longrightarrow> key_step s s'"
| unlock: "ks_pc s t = Holding key e \<Longrightarrow> key_step s (unlock_mutex t key e s)"
| release: "ks_pc s t = Releasing key e \<Longrightarrow> key_step s (unlock_release t key e s)"

inductive key_reachable :: "keyset \<Rightarrow> bool" where
  init: "key_reachable new_keyset"
| step: "key_reachable s \<Longrightarrow> key_step s s' \<Longrightarrow> key_reachable s'"

subsection \<open>Invariant\<close>

fun pc_entry :: "pc \<Rightarrow> (int \<times> nat) option" where
  "pc_entry Idle = None"
| "pc_entry (Waiting k e) = Some (k, e)"
| "pc_entry (Holding k e) = Some (k, e)"
| "pc_entry (Releasing k e) = Some (k, e)"

definition users :: "(nat \<Rightarrow> pc) \<Rightarrow> nat \<Rightarrow> nat set" where
  "users f e = {t. \<exists>k. pc_entry (f t) = Some (k, e)}"

definition holders :: "(nat \<Rightarrow> pc) \<Rightarrow> int \<Rightarrow> nat set" where
  "holders f k = {t. \<exists>e. f t = Holding k e}"

lemma users_upd [simp]:
  "users (f(t := p)) e =
     (if \<exists>k. pc_entry p = Some (k, e) then insert t (users f e) else users f e - {t})"
  by (auto simp: users_def split: if_splits)

lemma holders_upd [simp]:
  "holders (f(t := p)) k = (if \<exists>e. p = Holding k e then insert t (holders f k) else holders f k - {t})"
  by (auto simp: holders_def split: if_splits)

text \<open>Every goroutine inside \<^verbatim>\<open>Lock\<close> works on the entry the map has for its key; the
  reference count of an entry is the number of such goroutines, and its mutex is locked exactly
  while one goroutine holds the key.\<close>

definition entry_inv :: "keyset \<Rightarrow> int \<Rightarrow> nat \<Rightarrow> bool" where
  "entry_inv s k e \<longleftrightarrow>
     e < ks_fresh s \<and> finite (users (ks_pc s) e) \<and> users (ks_pc s) e \<noteq> {} \<and>
     e_refs (ks_heap s e) = int (card (users (ks_pc s) e)) \<and>
     (if e_mu (ks_heap s e) then \<exists>t. holders (ks_pc s) k = {t} else holders (ks_pc s) k = {})"

definition key_inv :: "keyset \<Rightarrow> bool" where
  "key_inv s \<longleftrightarrow>
     (\<forall>t k e. pc_entry (ks_pc s t) = Some (k, e) \<longrightarrow> map_of (ks_entries s) k = Some e) \<and>
     (\<forall>k e. map_of (ks_entries s) k = Some e \<longrightarrow> entry_inv s k e) \<and>
     (\<forall>k k' e. map_of (ks_entries s) k = Some e \<longrightarrow> map_of (ks_entries s) k' = Some e \<longrightarrow> k = k')"

lemma key_invI:
  assumes "\<And>t k e. pc_entry (ks_pc s t) = Some (k, e) \<Longrightarrow> map_of (ks_entries s) k = Some e"
    and "\<And>k e. map_of (ks_entries s) k = Some e \<Longrightarrow> entry_inv s k e"
    and "\<And>k k' e. map_of (ks_entries s) k = Some e \<Longrightarrow> map_of (ks_entries s) k' = Some e \<Longrightarrow> k = k'"
  shows "key_inv s"
  unfolding key_inv_def using assms by blast

lemma key_invD:
  assumes "key_inv s"
  shows "pc_entry (ks_pc s t) = Some (k, e) \<Longrightarrow> map_of (ks_entries s) k = Some e"
    and "map_of (ks_entries s) k = Some e \<Longrightarrow> entry_inv s k e"
    and "map_of (ks_entries s) k = Some e \<Longrightarrow> map_of (ks_entries s) k' = Some e \<Longrightarrow> k = k'"
  using assms unfolding key_inv_def by blast+

lemma key_inv_new: "key_inv new_keyset"
  by (simp add: key_inv_def new_keyset_def)

lemma in_users: "pc_entry (ks_pc s t) = Some (k, e) \<Longrightarrow> t \<in> users (ks_pc s) e"
  by (auto simp: users_def)

lemma idle_users: "ks_pc s t = Idle \<Longrightarrow> t \<notin> users (ks_pc s) e \<and> t \<notin> holders (ks_pc s) k"
  by (auto simp: users_def holders_def)

lemma holders_waiting: "pc_entry (ks_pc s t) = Some (k, e) \<Longrightarrow> t \<in> holders (ks_pc s) k' \<Longrightarrow> k' = k"
  by (auto simp: holders_def)

lemma fresh_users: "key_inv s \<Longrightarrow> users (ks_pc s) (ks_fresh s) = {}"
  unfolding users_def using key_invD(1,2) entry_inv_def by blast

lemma absent_holders:
  assumes "key_inv s" "map_of (ks_entries s) k = None"
  shows "holders (ks_pc s) k = {}"
proof -
  have "ks_pc s t \<noteq> Holding k e" for t e
    using key_invD(1)[OF assms(1), of t k e] assms(2) by auto
  then show ?thesis by (simp add: holders_def)
qed

lemma key_inv_register:
  assumes inv: "key_inv s" and idle: "ks_pc s t = Idle"
  shows "key_inv (lock_register t key s)"
proof (cases "map_of (ks_entries s) key")
  case (Some e)
  show ?thesis
  proof (rule key_invI, goal_cases)
    case (1 t' k e')
    with Some key_invD(1)[OF inv] show ?case by (auto simp: lock_register_def split: if_splits)
  next
    case (2 k e')
    with Some have m: "map_of (ks_entries s) k = Some e'" by (simp add: lock_register_def)
    have "k = key" if "e' = e" using key_invD(3)[OF inv] m Some that by blast
    with key_invD(2)[OF inv m] Some idle_users[OF idle] show ?case
      by (auto simp: lock_register_def entry_inv_def)
  next
    case (3 k k' e')
    with Some key_invD(3)[OF inv] show ?case by (simp add: lock_register_def)
  qed
next
  case None
  have old: "map_of (ks_entries s) k = Some e' \<Longrightarrow> e' \<noteq> ks_fresh s" for k e'
    using key_invD(2)[OF inv] entry_inv_def by blast
  show ?thesis
  proof (rule key_invI, goal_cases)
    case (1 t' k e')
    with None key_invD(1)[OF inv] show ?case
      by (fastforce simp: lock_register_def Let_def split: if_splits)
  next
    case (2 k e')
    show ?case
    proof (cases "k = key")
      case True
      with 2 None have "e' = ks_fresh s" by (simp add: lock_register_def Let_def)
      with True None fresh_users[OF inv] absent_holders[OF inv None] show ?thesis
        by (simp add: lock_register_def Let_def entry_inv_def)
    next
      case False
      with 2 None have m: "map_of (ks_entries s) k = Some e'" by (simp add: lock_register_def Let_def)
      with key_invD(2)[OF inv m] old[OF m] None idle_users[OF idle] show ?thesis
        by (auto simp: lock_register_def Let_def entry_inv_def less_SucI)
    qed
  next
    case (3 k k' e')
    with None old key_invD(3)[OF inv] show ?case
      by (auto simp: lock_register_def Let_def split: if_splits)
  qed
qed

text \<open>The other three steps change the entry a goroutine already uses.\<close>

lemma key_inv_same_entries:
  assumes inv: "key_inv s" and t: "pc_entry (ks_pc s t) = Some (key, e)"
    and s': "ks_entries s' = ks_entries s" "ks_pc s' = (ks_pc s)(t := p)" "ks_fresh s' = ks_fresh s"
      "\<And>e'. e' \<noteq> e \<Longrightarrow> ks_heap s' e' = ks_heap s e'"
    and p: "pc_entry p = Some (key, e) \<or> pc_entry p = None"
    and mine: "entry_inv s key e \<Longrightarrow> entry_inv s' key e"
  shows "key_inv s'"
proof (rule key_invI, goal_cases)
  case (1 t' k e')
  with key_invD(1)[OF inv] t p show ?case by (auto simp: s' split: if_splits)
next
  case (2 k e')
  then have m: "map_of (ks_entries s) k = Some e'" by (simp add: s')
  note mt = key_invD(1)[OF inv t]
  show ?case
  proof (cases "e' = e")
    case True
    with key_invD(3)[OF inv] m mt have "k = key" by blast
    with True mine key_invD(2)[OF inv mt] show ?thesis by blast
  next
    case False
    then have k: "k \<noteq> key" using m mt by auto
    have "t \<notin> users (ks_pc s) e'" "t \<notin> holders (ks_pc s) k" using t False k
      by (auto simp: users_def holders_def)
    moreover have "\<nexists>k'. pc_entry p = Some (k', e')" "\<nexists>e'. p = Holding k e'" using p False k by auto
    ultimately show ?thesis using key_invD(2)[OF inv m] False by (simp add: entry_inv_def s')
  qed
next
  case (3 k k' e')
  with key_invD(3)[OF inv] show ?case by (simp add: s')
qed

lemma key_inv_acquire:
  assumes inv: "key_inv s" and w: "ks_pc s t = Waiting key e" and a: "lock_acquire t key e s = Some s'"
  shows "key_inv s'"
proof (rule key_inv_same_entries[OF inv, where t = t and key = key and e = e and p = "Holding key e"])
  show "entry_inv s' key e" if "entry_inv s key e"
    using that a in_users[of s t key e] w
    by (auto simp: lock_acquire_def entry_inv_def insert_absorb split: if_splits)
qed (use a w in \<open>auto simp: lock_acquire_def split: if_splits\<close>)

lemma holding_singleton:
  assumes "ks_pc s t = Holding k e" "entry_inv s k e"
  shows "holders (ks_pc s) k = {t} \<and> e_mu (ks_heap s e)"
proof -
  have "t \<in> holders (ks_pc s) k" using assms(1) by (auto simp: holders_def)
  with assms(2) show ?thesis by (auto simp: entry_inv_def split: if_splits)
qed

lemma key_inv_unlock:
  assumes inv: "key_inv s" and h: "ks_pc s t = Holding key e"
  shows "key_inv (unlock_mutex t key e s)"
proof (rule key_inv_same_entries[OF inv, where t = t and key = key and e = e and p = "Releasing key e"])
  show "entry_inv (unlock_mutex t key e s) key e" if "entry_inv s key e"
    using that in_users[of s t key e] h holding_singleton[OF h that]
    by (auto simp: unlock_mutex_def entry_inv_def insert_absorb)
qed (use h in \<open>auto simp: unlock_mutex_def\<close>)

lemma key_inv_release:
  assumes inv: "key_inv s" and r: "ks_pc s t = Releasing key e"
  shows "key_inv (unlock_release t key e s)"
proof -
  let ?U = "users (ks_pc s) e"
  have m: "map_of (ks_entries s) key = Some e" using key_invD(1)[OF inv, of t] r by simp
  note ei = key_invD(2)[OF inv m]
  have t: "t \<in> ?U" "t \<notin> holders (ks_pc s) key" using r by (auto simp: users_def holders_def)
  have fin: "finite ?U" and refs: "e_refs (ks_heap s e) = int (card ?U)" using ei by (auto simp: entry_inv_def)
  have dec: "int (card ?U) - 1 = int (card (?U - {t}))"
    using card.remove[OF fin t(1)] by linarith
  show ?thesis
  proof (cases "?U = {t}")
    case False
    with t fin have ne: "?U - {t} \<noteq> {}" by auto
    then have refs': "e_refs (ks_heap s e) - 1 \<noteq> 0" unfolding refs dec using fin by simp
    show ?thesis
    proof (rule key_inv_same_entries[OF inv, where t = t and key = key and e = e and p = Idle])
      have "entry_inv (unlock_release t key e s) key e \<longleftrightarrow>
          e < ks_fresh s \<and> finite (?U - {t}) \<and> ?U - {t} \<noteq> {} \<and>
          int (card ?U) - 1 = int (card (?U - {t})) \<and>
          (if e_mu (ks_heap s e) then \<exists>u. holders (ks_pc s) key - {t} = {u}
           else holders (ks_pc s) key - {t} = {})"
        by (simp add: unlock_release_def Let_def entry_inv_def refs)
      then show "entry_inv (unlock_release t key e s) key e"
        using ei ne fin dec t(2) unfolding entry_inv_def by (auto split: if_splits)
    qed (use r refs' in \<open>auto simp: unlock_release_def Let_def\<close>)
  next
    case True
    then have refs0: "e_refs (ks_heap s e) - 1 = 0" using refs by simp
    have others: "pc_entry (ks_pc s t') = Some (k, e') \<Longrightarrow> t' \<noteq> t \<Longrightarrow> e' \<noteq> e" for t' k e'
      using True by (auto simp: users_def)
    show ?thesis
    proof (rule key_invI, goal_cases)
      case (1 t' k e')
      then have t': "pc_entry (ks_pc s t') = Some (k, e')" "t' \<noteq> t"
        by (auto simp: unlock_release_def Let_def split: if_splits)
      from key_invD(1)[OF inv t'(1)] others[OF t'] m refs0 show ?case
        by (auto simp: unlock_release_def Let_def)
    next
      case (2 k e')
      then have k: "k \<noteq> key" "map_of (ks_entries s) k = Some e'"
        using refs0 by (auto simp: unlock_release_def Let_def split: if_splits)
      then have "e' \<noteq> e" using key_invD(3)[OF inv m] by blast
      moreover have "t \<notin> users (ks_pc s) e'" "t \<notin> holders (ks_pc s) k"
        using r \<open>e' \<noteq> e\<close> by (auto simp: users_def holders_def)
      ultimately show ?case using key_invD(2)[OF inv k(2)]
        by (simp add: unlock_release_def Let_def entry_inv_def)
    next
      case (3 k k' e')
      with refs0 key_invD(3)[OF inv] show ?case
        by (auto simp: unlock_release_def Let_def split: if_splits)
    qed
  qed
qed

lemma key_step_inv: "key_step s s' \<Longrightarrow> key_inv s \<Longrightarrow> key_inv s'"
  by (induction rule: key_step.induct)
    (auto intro: key_inv_register key_inv_acquire key_inv_unlock key_inv_release)

lemma key_reachable_inv: "key_reachable s \<Longrightarrow> key_inv s"
  by (induction rule: key_reachable.induct) (auto intro: key_inv_new key_step_inv)

text \<open>C22: In every interleaving of goroutines, two goroutines that both hold the lock of one
  key are the same goroutine: the transitions of one user never overlap, although entries are
  created and reclaimed concurrently.\<close>

theorem keylock_mutual_exclusion:
  assumes "key_reachable s" "ks_pc s t = Holding key e" "ks_pc s t' = Holding key e'"
  shows "t = t'"
proof -
  have inv: "key_inv s" by (rule key_reachable_inv[OF assms(1)])
  have "e = e'" using key_invD(1)[OF inv, of t key e] key_invD(1)[OF inv, of t' key e'] assms(2,3) by simp
  then show ?thesis
    using holding_singleton[OF assms(2)] holding_singleton[OF assms(3)]
      key_invD(2)[OF inv key_invD(1)[OF inv, of t key e]] assms(2) by auto
qed

theorem keylock_mutual_exclusion_witness:
  "\<exists>s. key_reachable s \<and> ks_pc s 1 = Holding 7 0 \<and> (\<forall>t. ks_pc s t = Holding 7 0 \<longrightarrow> t = 1)"
proof -
  let ?a = "lock_register 1 7 new_keyset"
  have a: "key_reachable ?a"
    by (rule key_reachable.step[OF key_reachable.init key_step.register]) (simp add: new_keyset_def)
  obtain b where b: "lock_acquire 1 7 0 ?a = Some b" "ks_pc b 1 = Holding 7 0"
    by (simp add: lock_acquire_def lock_register_def new_keyset_def)
  have "key_reachable b"
    by (rule key_reachable.step[OF a key_step.acquire[OF _ b(1)]])
      (simp add: lock_register_def new_keyset_def)
  then show ?thesis using keylock_mutual_exclusion[of b _ 7 0 1 0] b(2) by blast
qed

text \<open>The lock neither leaks nor blocks unrelated keys. A key has an entry exactly while
  some goroutine is inside \<^verbatim>\<open>Lock\<close>, holds the lock or is releasing it, and a waiting
  goroutine can proceed as soon as nobody holds its key, whatever happens to other keys.\<close>

theorem keylock_no_leak_no_block:
  assumes "key_reachable s"
  shows "(map_of (ks_entries s) key \<noteq> None \<longleftrightarrow> (\<exists>t e. pc_entry (ks_pc s t) = Some (key, e))) \<and>
    (ks_pc s t = Waiting key e \<longrightarrow> holders (ks_pc s) key = {} \<longrightarrow>
       (\<exists>s'. lock_acquire t key e s = Some s' \<and> ks_pc s' t = Holding key e))"
proof (intro conjI impI)
  have inv: "key_inv s" by (rule key_reachable_inv[OF assms])
  show "map_of (ks_entries s) key \<noteq> None \<longleftrightarrow> (\<exists>t e. pc_entry (ks_pc s t) = Some (key, e))"
  proof
    assume "map_of (ks_entries s) key \<noteq> None"
    then obtain e' where m: "map_of (ks_entries s) key = Some e'" by blast
    then obtain t' k where t': "pc_entry (ks_pc s t') = Some (k, e')"
      using key_invD(2)[OF inv m] by (auto simp: entry_inv_def users_def)
    with key_invD(1)[OF inv t'] key_invD(3)[OF inv] m have "k = key" by blast
    with t' show "\<exists>t e. pc_entry (ks_pc s t) = Some (key, e)" by blast
  next
    assume "\<exists>t e. pc_entry (ks_pc s t) = Some (key, e)"
    then show "map_of (ks_entries s) key \<noteq> None" using key_invD(1)[OF inv] by fastforce
  qed
  assume w: "ks_pc s t = Waiting key e" and free: "holders (ks_pc s) key = {}"
  have "entry_inv s key e" using key_invD(2)[OF inv key_invD(1)[OF inv, of t]] w by simp
  with free show "\<exists>s'. lock_acquire t key e s = Some s' \<and> ks_pc s' t = Holding key e"
    by (auto simp: entry_inv_def lock_acquire_def split: if_splits)
qed

theorem keylock_no_leak_no_block_witness:
  "key_reachable (lock_register 1 7 new_keyset) \<and>
   (\<exists>s'. lock_acquire 1 7 0 (lock_register 1 7 new_keyset) = Some s' \<and> ks_pc s' 1 = Holding 7 0)"
proof -
  have a: "key_reachable (lock_register 1 7 new_keyset)"
    by (rule key_reachable.step[OF key_reachable.init key_step.register]) (simp add: new_keyset_def)
  moreover have "ks_pc (lock_register 1 7 new_keyset) 1 = Waiting 7 0"
    "holders (ks_pc (lock_register 1 7 new_keyset)) 7 = {}"
    by (auto simp: lock_register_def new_keyset_def holders_def)
  ultimately show ?thesis using keylock_no_leak_no_block[OF a, of 7 1 0] by blast
qed

end
