(* ===== verification/Antiabuse.thy ===== *)
theory Antiabuse
  imports Voxhold_Prelude
begin

text \<open>
  The abuse guard (\<^verbatim>\<open>internal/antiabuse/guard.go\<close>): the table of rate limiters, the login
  failure table with its temporary blocks, and the WebSocket connection slots.

  Times are nanoseconds since the zero value of \<^verbatim>\<open>time.Time\<close>, so the zero time is 0 and every
  clock reading is positive; each call of \<^verbatim>\<open>time.Now\<close> is an argument. The token bucket
  (\<^verbatim>\<open>golang.org/x/time/rate\<close>) is a parameter: a state type \<open>'lim\<close>, its constructor and
  its \<^verbatim>\<open>AllowN(now, 1)\<close>. The address, hashing and Unicode functions the guard calls on
  strings are parameters too (record \<open>golib\<close>); the theorems hold for every choice of them.
\<close>

subsection \<open>Parameters\<close>

datatype rate_limit = PerSecond int | PerMinute int \<comment> \<open>\<^verbatim>\<open>rate.Limit(n)\<close>, \<^verbatim>\<open>rate.Limit(float64(n)/60)\<close>\<close>

record 'lim rate_lib =
  NewLimiter :: "rate_limit \<Rightarrow> int \<Rightarrow> 'lim"
  AllowN :: "'lim \<Rightarrow> int \<Rightarrow> 'lim \<times> bool"

record 'addr golib =
  ParseAddr :: "string \<Rightarrow> 'addr option"
  Unmap :: "'addr \<Rightarrow> 'addr"
  Is4 :: "'addr \<Rightarrow> bool"
  AddrString :: "'addr \<Rightarrow> string"
  PrefixString :: "'addr \<Rightarrow> int \<Rightarrow> string option" \<comment> \<open>\<^verbatim>\<open>addr.Prefix(bits)\<close>, printed; None on error\<close>
  SplitHost :: "string \<Rightarrow> string option" \<comment> \<open>host of \<^verbatim>\<open>net.SplitHostPort\<close>\<close>
  TrimSpace :: "string \<Rightarrow> string"
  ToLower :: "string \<Rightarrow> string"
  Fields :: "string \<Rightarrow> string list"
  EqualFold :: "string \<Rightarrow> string \<Rightarrow> bool"
  Sha256Hex :: "string \<Rightarrow> string"

subsection \<open>Configuration\<close>

record Config =
  TrustProxyHeaders :: bool
  HTTPRequestsPerSecond :: int
  HTTPBurst :: int
  HTTPWritesPerSecond :: int
  HTTPWriteBurst :: int
  CallSignalsPerSecond :: int
  CallSignalBurst :: int
  AuthRequestsPerMinute :: int
  AuthBurst :: int
  InviteRequestsPerMinute :: int
  InviteBurst :: int
  LoginMaxFailures :: int
  LoginBlockDuration :: int
  WebSocketConnectsPerMinute :: int
  WebSocketConnectBurst :: int
  WebSocketEventsPerSecond :: int
  WebSocketEventBurst :: int
  WebSocketMaxPerIP :: int
  WebSocketMaxPerUser :: int
  EntryTTL :: int
  MaxRateEntries :: int
  IPv6PrefixBits :: int
  IPMultiplier :: int

definition second :: int where
  "second = 1000000000"

definition minute :: int where
  "minute = 60 * second"

definition DefaultConfig :: Config where
  "DefaultConfig =
     \<lparr> TrustProxyHeaders = False,
       HTTPRequestsPerSecond = 25, HTTPBurst = 50, HTTPWritesPerSecond = 8, HTTPWriteBurst = 16,
       CallSignalsPerSecond = 120, CallSignalBurst = 240,
       AuthRequestsPerMinute = 10, AuthBurst = 5, InviteRequestsPerMinute = 20, InviteBurst = 10,
       LoginMaxFailures = 5, LoginBlockDuration = 20 * minute,
       WebSocketConnectsPerMinute = 10, WebSocketConnectBurst = 5,
       WebSocketEventsPerSecond = 30, WebSocketEventBurst = 60,
       WebSocketMaxPerIP = 50, WebSocketMaxPerUser = 5,
       EntryTTL = 30 * minute, MaxRateEntries = 20000, IPv6PrefixBits = 0, IPMultiplier = 4 \<rparr>"

subsection \<open>State\<close>

record 'lim limiterEntry =
  le_limiter :: 'lim
  le_lastSeen :: int

record 'lim limiterStore =
  ls_entries :: "(string, 'lim limiterEntry) gomap"
  ls_ttl :: int
  ls_maxEntries :: int
  ls_operations :: "64 word"

record failureEntry =
  fe_failures :: int
  fe_blockedUntil :: int
  fe_lastSeen :: int

record 'lim Guard =
  g_config :: Config
  g_limiters :: "'lim limiterStore"
  g_failures :: "(string, failureEntry) gomap"
  g_connectionsIP :: "(string, int) gomap"
  g_connectionsUser :: "(int, int) gomap"

definition New :: "Config \<Rightarrow> 'lim Guard" where
  "New config =
     \<lparr> g_config = config,
       g_limiters = \<lparr> ls_entries = [], ls_ttl = EntryTTL config,
                      ls_maxEntries = MaxRateEntries config, ls_operations = 0 \<rparr>,
       g_failures = [], g_connectionsIP = [], g_connectionsUser = [] \<rparr>"

subsection \<open>Evicting one of a few sampled entries\<close>

definition evictionSample :: nat where
  "evictionSample = 16"

text \<open>The scan of the two eviction loops: the first entry is taken, a later one replaces it
  when it is better.\<close>

fun pick :: "('a \<Rightarrow> 'a \<Rightarrow> bool) \<Rightarrow> 'a option \<Rightarrow> 'a list \<Rightarrow> 'a option" where
  "pick better v [] = v"
| "pick better v (x # xs) =
     pick better (case v of None \<Rightarrow> Some x | Some w \<Rightarrow> if better x w then Some x else Some w) xs"

definition evict_by :: "('k \<times> 'v \<Rightarrow> 'k \<times> 'v \<Rightarrow> bool) \<Rightarrow> ('k, 'v) gomap \<Rightarrow> ('k, 'v) gomap" where
  "evict_by better m =
     (case pick better None (take evictionSample m) of
        None \<Rightarrow> m
      | Some (k, _) \<Rightarrow> AList.delete k m)"

definition older :: "'k \<times> 'lim limiterEntry \<Rightarrow> 'k \<times> 'lim limiterEntry \<Rightarrow> bool" where
  "older x w \<longleftrightarrow> le_lastSeen (snd x) < le_lastSeen (snd w)"

definition evictOldestLocked ::
    "(string, 'lim limiterEntry) gomap \<Rightarrow> (string, 'lim limiterEntry) gomap" where
  "evictOldestLocked = evict_by older"

definition better_victim :: "int \<Rightarrow> string \<times> failureEntry \<Rightarrow> string \<times> failureEntry \<Rightarrow> bool" where
  "better_victim now x w \<longleftrightarrow>
     (now < fe_blockedUntil (snd w) \<and> \<not> now < fe_blockedUntil (snd x)) \<or>
     ((now < fe_blockedUntil (snd x)) = (now < fe_blockedUntil (snd w)) \<and>
      fe_lastSeen (snd x) < fe_lastSeen (snd w))"

definition evictFailureLocked :: "int \<Rightarrow> (string, failureEntry) gomap \<Rightarrow> (string, failureEntry) gomap" where
  "evictFailureLocked now = evict_by (better_victim now)"

subsection \<open>The limiter table\<close>

definition cleanupLocked :: "int \<Rightarrow> int \<Rightarrow> (string, 'lim limiterEntry) gomap \<Rightarrow>
    (string, 'lim limiterEntry) gomap" where
  "cleanupLocked ttl now m = filter (\<lambda>(k, e). \<not> (now - le_lastSeen e \<ge> ttl)) m"

definition allow ::
    "'lim rate_lib \<Rightarrow> int \<Rightarrow> string \<Rightarrow> rate_limit \<Rightarrow> int \<Rightarrow> 'lim limiterStore \<Rightarrow>
     'lim limiterStore \<times> bool" where
  "allow lib now key requestsPerSecond burst s =
     (let ops = ls_operations s + 1;
          m = (if ops mod 256 = 0 \<or> int (length (ls_entries s)) \<ge> ls_maxEntries s
               then cleanupLocked (ls_ttl s) now (ls_entries s) else ls_entries s);
          (m, entry) =
            (case map_of m key of
               Some e \<Rightarrow> (m, e)
             | None \<Rightarrow>
                 ((if int (length m) \<ge> ls_maxEntries s then evictOldestLocked m else m),
                  \<lparr> le_limiter = NewLimiter lib requestsPerSecond burst, le_lastSeen = 0 \<rparr>));
          (lim, ok) = AllowN lib (le_limiter entry) now
      in (s\<lparr>ls_entries := AList.update key \<lparr> le_limiter = lim, le_lastSeen = now \<rparr> m,
            ls_operations := ops\<rparr>, ok))"

subsection \<open>Client addresses and keys\<close>

record Request =
  rq_Method :: string
  rq_Path :: string
  rq_RemoteAddr :: string
  rq_XRealIP :: string
  rq_Authorization :: string
  rq_ContextIP :: "string option" \<comment> \<open>the value stored under \<^verbatim>\<open>clientIPContextKey\<close>\<close>

definition normalizeIP :: "'addr golib \<Rightarrow> string \<Rightarrow> string" where
  "normalizeIP lib v =
     (case ParseAddr lib (TrimSpace lib v) of
        None \<Rightarrow> '''' | Some a \<Rightarrow> AddrString lib (Unmap lib a))"

definition remoteIP :: "'addr golib \<Rightarrow> string \<Rightarrow> string" where
  "remoteIP lib remoteAddress =
     (let host = (case SplitHost lib remoteAddress of
                    None \<Rightarrow> '''' | Some host \<Rightarrow> normalizeIP lib host) in
      if host \<noteq> '''' then host
      else if normalizeIP lib remoteAddress \<noteq> '''' then normalizeIP lib remoteAddress
      else ''unknown'')"

definition resolveClientIP :: "'addr golib \<Rightarrow> Config \<Rightarrow> Request \<Rightarrow> string" where
  "resolveClientIP lib config r =
     (if TrustProxyHeaders config \<and> normalizeIP lib (rq_XRealIP r) \<noteq> ''''
      then normalizeIP lib (rq_XRealIP r) else remoteIP lib (rq_RemoteAddr r))"

definition ClientIP :: "'addr golib \<Rightarrow> Request \<Rightarrow> string" where
  "ClientIP lib r =
     (case rq_ContextIP r of
        Some v \<Rightarrow> if v \<noteq> '''' then v else remoteIP lib (rq_RemoteAddr r)
      | None \<Rightarrow> remoteIP lib (rq_RemoteAddr r))"

definition rateKey :: "'addr golib \<Rightarrow> Config \<Rightarrow> string \<Rightarrow> string" where
  "rateKey lib config ip =
     (case ParseAddr lib ip of
        None \<Rightarrow> ip
      | Some addr \<Rightarrow>
          if Is4 lib addr then ip
          else
            (let bits = (if IPv6PrefixBits config < 32 \<or> IPv6PrefixBits config > 128 then 64
                         else IPv6PrefixBits config) in
             case PrefixString lib addr bits of None \<Rightarrow> ip | Some p \<Rightarrow> p))"

definition loginFailureKeys :: "'addr golib \<Rightarrow> Config \<Rightarrow> Request \<Rightarrow> string \<Rightarrow> string list" where
  "loginFailureKeys lib config r username =
     (let identity = Sha256Hex lib (ToLower lib (TrimSpace lib username));
          clientIP = rateKey lib config (ClientIP lib r) in
      [''login:ip:'' @ clientIP, ''login:pair:'' @ clientIP @ '':'' @ identity])"

definition bearerKey :: "'addr golib \<Rightarrow> Request \<Rightarrow> string" where
  "bearerKey lib r =
     (case Fields lib (rq_Authorization r) of
        [scheme, token] \<Rightarrow>
          if EqualFold lib scheme ''Bearer'' then take 32 (Sha256Hex lib token) else ''''
      | _ \<Rightarrow> '''')"

subsection \<open>Login failures\<close>

definition stale :: "Config \<Rightarrow> int \<Rightarrow> failureEntry \<Rightarrow> bool" where
  "stale config now e \<longleftrightarrow> now - fe_lastSeen e \<ge> EntryTTL config \<and> \<not> now < fe_blockedUntil e"

definition cleanupFailuresLocked ::
    "Config \<Rightarrow> int \<Rightarrow> (string, failureEntry) gomap \<Rightarrow> (string, failureEntry) gomap" where
  "cleanupFailuresLocked config now m =
     (if int (length m) < MaxRateEntries config then m
      else filter (\<lambda>(k, e). \<not> stale config now e) m)"

fun allow_keys :: "Config \<Rightarrow> int \<Rightarrow> int \<Rightarrow> (string, failureEntry) gomap \<Rightarrow> string list \<Rightarrow>
    (string, failureEntry) gomap \<times> bool \<times> int" where
  "allow_keys config now later m [] = (m, True, 0)"
| "allow_keys config now later m (key # keys) =
     (case map_of m key of
        None \<Rightarrow> allow_keys config now later m keys
      | Some e \<Rightarrow>
          if stale config now e then allow_keys config now later (AList.delete key m) keys
          else if \<not> now < fe_blockedUntil e then allow_keys config now later m keys
          else (m, False, fe_blockedUntil e - later))"

text \<open>\<open>later\<close> is the second clock reading, of \<^verbatim>\<open>time.Until\<close>.\<close>

definition AllowLogin ::
    "'addr golib \<Rightarrow> int \<Rightarrow> int \<Rightarrow> Request \<Rightarrow> string \<Rightarrow> 'lim Guard \<Rightarrow> 'lim Guard \<times> bool \<times> int" where
  "AllowLogin lib now later r username g =
     (let (m, ok, wait) =
            allow_keys (g_config g) now later (cleanupFailuresLocked (g_config g) now (g_failures g))
              (loginFailureKeys lib (g_config g) r username)
      in (g\<lparr>g_failures := m\<rparr>, ok, wait))"

definition zero_failure :: failureEntry where
  "zero_failure = \<lparr> fe_failures = 0, fe_blockedUntil = 0, fe_lastSeen = 0 \<rparr>"

definition bump_failure :: "Config \<Rightarrow> int \<Rightarrow> failureEntry \<Rightarrow> failureEntry" where
  "bump_failure config now e =
     (let n = fe_failures e + 1 in
      \<lparr> fe_failures = n,
        fe_blockedUntil = (if n \<ge> LoginMaxFailures config then now + LoginBlockDuration config
                           else fe_blockedUntil e),
        fe_lastSeen = now \<rparr>)"

definition record_key ::
    "Config \<Rightarrow> int \<Rightarrow> (string, failureEntry) gomap \<Rightarrow> string \<Rightarrow> (string, failureEntry) gomap" where
  "record_key config now m key =
     (case map_of m key of
        Some e \<Rightarrow>
          AList.update key
            (bump_failure config now (if stale config now e then zero_failure else e)) m
      | None \<Rightarrow>
          AList.update key (bump_failure config now zero_failure)
            (if int (length m) \<ge> MaxRateEntries config then evictFailureLocked now m else m))"

definition RecordLoginFailure ::
    "'addr golib \<Rightarrow> int \<Rightarrow> Request \<Rightarrow> string \<Rightarrow> 'lim Guard \<Rightarrow> 'lim Guard" where
  "RecordLoginFailure lib now r username g =
     g\<lparr>g_failures :=
         foldl (record_key (g_config g) now)
           (cleanupFailuresLocked (g_config g) now (g_failures g))
           (loginFailureKeys lib (g_config g) r username)\<rparr>"

definition RecordLoginSuccess :: "'addr golib \<Rightarrow> Request \<Rightarrow> string \<Rightarrow> 'lim Guard \<Rightarrow> 'lim Guard" where
  "RecordLoginSuccess lib r username g =
     g\<lparr>g_failures :=
         fold AList.delete (loginFailureKeys lib (g_config g) r username) (g_failures g)\<rparr>"

subsection \<open>HTTP protection\<close>

text \<open>Decimal integers as \<^verbatim>\<open>strconv.ParseInt(s, 10, 64)\<close> and \<^verbatim>\<open>strconv.Atoi\<close> read
  them: an optional sign, at least one digit, and a value that fits in 64 bits.\<close>

definition digits_value :: "string \<Rightarrow> nat" where
  "digits_value = foldl (\<lambda>a c. 10 * a + (of_char c - 48)) 0"

definition ParseInt :: "string \<Rightarrow> int option" where
  "ParseInt s =
     (let neg = (take 1 s = ''-'');
          ds = (if take 1 s = ''-'' \<or> take 1 s = ''+'' then drop 1 s else s);
          v = (if neg then - int (digits_value ds) else int (digits_value ds)) in
      if ds = '''' \<or> \<not> list_all (\<lambda>c. c \<in> set ''0123456789'') ds then None
      else if v < - (2 ^ 63) \<or> v \<ge> 2 ^ 63 then None else Some v)"

definition CutPrefix :: "string \<Rightarrow> string \<Rightarrow> string option" where
  "CutPrefix s p = (if has_prefix s p then Some (drop (length p) s) else None)"

definition CutSuffix :: "string \<Rightarrow> string \<Rightarrow> string option" where
  "CutSuffix s p =
     (if length p \<le> length s \<and> drop (length s - length p) s = p
      then Some (take (length s - length p) s) else None)"

definition conversationCallSignal :: "Request \<Rightarrow> bool" where
  "conversationCallSignal r =
     (if rq_Method r \<noteq> ''POST'' then False
      else case CutPrefix (rq_Path r) ''/api/v1/conversations/'' of
        None \<Rightarrow> False
      | Some rest \<Rightarrow>
          (case CutSuffix rest ''/call/signal'' of
             None \<Rightarrow> False
           | Some ident \<Rightarrow> (case ParseInt ident of None \<Rightarrow> False | Some n \<Rightarrow> n > 0)))"

datatype verdict = Served | TooManyRequests int \<comment> \<open>the \<^verbatim>\<open>Retry-After\<close> duration passed on\<close>

definition password_route :: "Request \<Rightarrow> bool" where
  "password_route r \<longleftrightarrow>
     (rq_Method r = ''PUT'' \<and> rq_Path r = ''/api/v1/me/password'') \<or>
     (rq_Method r = ''DELETE'' \<and> rq_Path r = ''/api/v1/account'') \<or>
     (rq_Method r = ''POST'' \<and>
        (rq_Path r = ''/api/v1/auth/login'' \<or> rq_Path r = ''/api/v1/auth/register'' \<or>
         rq_Path r = ''/api/v1/auth/refresh''))"

text \<open>The handler of \<^verbatim>\<open>ProtectHTTP\<close>; \<open>now\<close> gives the clock readings of its successive
  \<^verbatim>\<open>allow\<close> calls. The result carries the request as the wrapped handler sees it.\<close>

definition ProtectHTTP ::
    "'lim rate_lib \<Rightarrow> 'addr golib \<Rightarrow> (nat \<Rightarrow> int) \<Rightarrow> Request \<Rightarrow> 'lim Guard \<Rightarrow>
     'lim Guard \<times> verdict \<times> Request" where
  "ProtectHTTP rl lib now r g =
     (let config = g_config g;
          clientIP = resolveClientIP lib config r;
          rateIP = rateKey lib config clientIP;
          r = r\<lparr>rq_ContextIP := Some clientIP\<rparr>;
          s = g_limiters g in
      if conversationCallSignal r then
        (let (s, ok) = allow rl (now 0) (''http:call-signal:'' @ rateIP)
               (PerSecond (CallSignalsPerSecond config)) (CallSignalBurst config) s in
         (g\<lparr>g_limiters := s\<rparr>, if ok then Served else TooManyRequests second, r))
      else
        (let tokenKey = bearerKey lib r;
             (s, ok, ipMultiplier) =
               (if tokenKey \<noteq> '''' then
                  (let (s, ok) = allow rl (now 0) (''http:token:'' @ tokenKey)
                         (PerSecond (HTTPRequestsPerSecond config)) (HTTPBurst config) s
                   in (s, ok, max 1 (IPMultiplier config)))
                else (s, True, 1)) in
         if \<not> ok then (g\<lparr>g_limiters := s\<rparr>, TooManyRequests second, r)
         else
         (let (s, ok) = allow rl (now 1) (''http:all:'' @ rateIP)
                (PerSecond (HTTPRequestsPerSecond config * ipMultiplier))
                (HTTPBurst config * ipMultiplier) s in
          if \<not> ok then (g\<lparr>g_limiters := s\<rparr>, TooManyRequests second, r)
          else
          (let (s, ok) =
                 (if rq_Method r \<noteq> ''GET'' \<and> rq_Method r \<noteq> ''HEAD'' \<and> rq_Method r \<noteq> ''OPTIONS''
                  then allow rl (now 2) (''http:write:'' @ rateIP)
                    (PerSecond (HTTPWritesPerSecond config)) (HTTPWriteBurst config) s
                  else (s, True)) in
           if \<not> ok then (g\<lparr>g_limiters := s\<rparr>, TooManyRequests second, r)
           else if password_route r then
             (let (s, ok) = allow rl (now 3) (''http:auth:'' @ rateIP)
                    (PerMinute (AuthRequestsPerMinute config)) (AuthBurst config) s in
              (g\<lparr>g_limiters := s\<rparr>, if ok then Served else TooManyRequests (6 * second), r))
           else if rq_Method r = ''POST'' \<and> rq_Path r = ''/api/v1/invite-links/resolve'' then
             (let (s, ok) = allow rl (now 3) (''http:invite:'' @ rateIP)
                    (PerMinute (InviteRequestsPerMinute config)) (InviteBurst config) s in
              (g\<lparr>g_limiters := s\<rparr>, if ok then Served else TooManyRequests (3 * second), r))
           else if rq_Method r = ''GET'' \<and> rq_Path r = ''/api/v1/ws'' then
             (let (s, ok) = allow rl (now 3) (''http:ws:'' @ rateIP)
                    (PerMinute (WebSocketConnectsPerMinute config)) (WebSocketConnectBurst config) s in
              (g\<lparr>g_limiters := s\<rparr>, if ok then Served else TooManyRequests (6 * second), r))
           else (g\<lparr>g_limiters := s\<rparr>, Served, r)))))"

text \<open>\<^verbatim>\<open>writeRateLimitError\<close>: the seconds of the \<^verbatim>\<open>Retry-After\<close> header, the duration
  rounded half away from zero.\<close>

definition retry_after_seconds :: "int \<Rightarrow> int" where
  "retry_after_seconds retryAfter =
     max 1 ((if retryAfter < 0 then - ((- retryAfter + second div 2) div second)
             else (retryAfter + second div 2) div second))"

subsection \<open>Connection slots\<close>

definition acquire_slot :: "int \<Rightarrow> 'k \<Rightarrow> ('k, int) gomap \<Rightarrow> ('k, int) gomap option" where
  "acquire_slot limit k m =
     (if get_or 0 m k \<ge> limit then None else Some (AList.update k (get_or 0 m k + 1) m))"

definition release_slot :: "'k \<Rightarrow> ('k, int) gomap \<Rightarrow> ('k, int) gomap" where
  "release_slot k m =
     (let n = get_or 0 m k - 1; m = AList.update k n m in
      if n = 0 then AList.delete k m else m)"

text \<open>\<^verbatim>\<open>AcquireWebSocketIP\<close> and \<^verbatim>\<open>AcquireWebSocketUser\<close>: None is a refusal. The
  functions they return release the slot of their key, once (\<^verbatim>\<open>sync.OnceFunc\<close>).\<close>

definition AcquireWebSocketIP :: "'addr golib \<Rightarrow> Request \<Rightarrow> 'lim Guard \<Rightarrow> ('lim Guard \<times> string) option" where
  "AcquireWebSocketIP lib r g =
     (let clientIP = rateKey lib (g_config g) (ClientIP lib r) in
      case acquire_slot (WebSocketMaxPerIP (g_config g)) clientIP (g_connectionsIP g) of
        None \<Rightarrow> None
      | Some m \<Rightarrow> Some (g\<lparr>g_connectionsIP := m\<rparr>, clientIP))"

definition ReleaseWebSocketIP :: "string \<Rightarrow> 'lim Guard \<Rightarrow> 'lim Guard" where
  "ReleaseWebSocketIP clientIP g = g\<lparr>g_connectionsIP := release_slot clientIP (g_connectionsIP g)\<rparr>"

definition AcquireWebSocketUser :: "int \<Rightarrow> 'lim Guard \<Rightarrow> ('lim Guard \<times> int) option" where
  "AcquireWebSocketUser userID g =
     (case acquire_slot (WebSocketMaxPerUser (g_config g)) userID (g_connectionsUser g) of
        None \<Rightarrow> None
      | Some m \<Rightarrow> Some (g\<lparr>g_connectionsUser := m\<rparr>, userID))"

definition ReleaseWebSocketUser :: "int \<Rightarrow> 'lim Guard \<Rightarrow> 'lim Guard" where
  "ReleaseWebSocketUser userID g = g\<lparr>g_connectionsUser := release_slot userID (g_connectionsUser g)\<rparr>"

subsection \<open>Configuration from the environment\<close>

definition ParseBool :: "string \<Rightarrow> bool option" where
  "ParseBool s =
     (if s \<in> set [''1'', ''t'', ''T'', ''TRUE'', ''true'', ''True''] then Some True
      else if s \<in> set [''0'', ''f'', ''F'', ''FALSE'', ''false'', ''False''] then Some False
      else None)"

text \<open>The product of \<^verbatim>\<open>time.Duration(parsed) * time.Minute\<close> wraps at 64 bits.\<close>

definition minutes_duration :: "int \<Rightarrow> int" where
  "minutes_duration parsed = sint (word_of_int (parsed * minute) :: 64 word)"

text \<open>The table of \<^verbatim>\<open>values\<close>, in the order of the source: the variable and the assignment
  of its parsed number.\<close>

definition env_values :: "(string \<times> (int \<Rightarrow> Config \<Rightarrow> Config)) list" where
  "env_values =
     [(''HTTP_RATE_LIMIT_RPS'', \<lambda>v c. c\<lparr>HTTPRequestsPerSecond := v\<rparr>),
      (''HTTP_RATE_LIMIT_BURST'', \<lambda>v c. c\<lparr>HTTPBurst := v\<rparr>),
      (''HTTP_WRITE_RATE_LIMIT_RPS'', \<lambda>v c. c\<lparr>HTTPWritesPerSecond := v\<rparr>),
      (''HTTP_WRITE_RATE_LIMIT_BURST'', \<lambda>v c. c\<lparr>HTTPWriteBurst := v\<rparr>),
      (''CALL_SIGNAL_RATE_LIMIT_RPS'', \<lambda>v c. c\<lparr>CallSignalsPerSecond := v\<rparr>),
      (''CALL_SIGNAL_RATE_LIMIT_BURST'', \<lambda>v c. c\<lparr>CallSignalBurst := v\<rparr>),
      (''AUTH_RATE_LIMIT_PER_MINUTE'', \<lambda>v c. c\<lparr>AuthRequestsPerMinute := v\<rparr>),
      (''AUTH_RATE_LIMIT_BURST'', \<lambda>v c. c\<lparr>AuthBurst := v\<rparr>),
      (''INVITE_RATE_LIMIT_PER_MINUTE'', \<lambda>v c. c\<lparr>InviteRequestsPerMinute := v\<rparr>),
      (''INVITE_RATE_LIMIT_BURST'', \<lambda>v c. c\<lparr>InviteBurst := v\<rparr>),
      (''LOGIN_MAX_FAILURES'', \<lambda>v c. c\<lparr>LoginMaxFailures := v\<rparr>),
      (''LOGIN_BLOCK_MINUTES'', \<lambda>v c. c\<lparr>LoginBlockDuration := minutes_duration v\<rparr>),
      (''WS_CONNECT_RATE_PER_MINUTE'', \<lambda>v c. c\<lparr>WebSocketConnectsPerMinute := v\<rparr>),
      (''WS_CONNECT_RATE_BURST'', \<lambda>v c. c\<lparr>WebSocketConnectBurst := v\<rparr>),
      (''WS_EVENT_RATE_PER_SECOND'', \<lambda>v c. c\<lparr>WebSocketEventsPerSecond := v\<rparr>),
      (''WS_EVENT_RATE_BURST'', \<lambda>v c. c\<lparr>WebSocketEventBurst := v\<rparr>),
      (''WS_MAX_CONNECTIONS_PER_IP'', \<lambda>v c. c\<lparr>WebSocketMaxPerIP := v\<rparr>),
      (''WS_MAX_CONNECTIONS_PER_USER'', \<lambda>v c. c\<lparr>WebSocketMaxPerUser := v\<rparr>),
      (''RATE_LIMIT_MAX_ENTRIES'', \<lambda>v c. c\<lparr>MaxRateEntries := v\<rparr>),
      (''HTTP_IP_MULTIPLIER'', \<lambda>v c. c\<lparr>IPMultiplier := v\<rparr>)]"

fun env_loop :: "(string \<Rightarrow> string) \<Rightarrow> Config \<Rightarrow> (string \<times> (int \<Rightarrow> Config \<Rightarrow> Config)) list \<Rightarrow>
    string + Config" where
  "env_loop env c [] = Inr c"
| "env_loop env c ((name, store) # vs) =
     (if env name = '''' then env_loop env c vs
      else case ParseInt (env name) of
        None \<Rightarrow> Inl (name @ '' must be a positive integer'')
      | Some parsed \<Rightarrow>
          if parsed \<le> 0 then Inl (name @ '' must be a positive integer'')
          else env_loop env (store parsed c) vs)"

definition env_prefix :: "(string \<Rightarrow> string) \<Rightarrow> Config \<Rightarrow> string + Config" where
  "env_prefix env c =
     (if env ''RATE_LIMIT_IPV6_PREFIX'' = '''' then Inr c
      else case ParseInt (env ''RATE_LIMIT_IPV6_PREFIX'') of
        None \<Rightarrow> Inl ''RATE_LIMIT_IPV6_PREFIX must be an integer in 32..128''
      | Some bits \<Rightarrow>
          if bits < 32 \<or> bits > 128 then Inl ''RATE_LIMIT_IPV6_PREFIX must be an integer in 32..128''
          else Inr (c\<lparr>IPv6PrefixBits := bits\<rparr>))"

definition ConfigFromEnv :: "(string \<Rightarrow> string) \<Rightarrow> string + Config" where
  "ConfigFromEnv env =
     (let trust = (if env ''TRUST_PROXY_HEADERS'' = '''' then Some False
                   else ParseBool (env ''TRUST_PROXY_HEADERS'')) in
      case trust of
        None \<Rightarrow> Inl ''parse TRUST_PROXY_HEADERS''
      | Some b \<Rightarrow>
          (case env_prefix env (DefaultConfig\<lparr>TrustProxyHeaders := b\<rparr>) of
             Inl e \<Rightarrow> Inl e
           | Inr c \<Rightarrow>
               (case env_prefix env c of
                  Inl e \<Rightarrow> Inl e
                | Inr c \<Rightarrow> env_loop env c env_values)))"

subsection \<open>Bounded tables\<close>

text \<open>What the two tables of the guard rely on when they are full: eviction removes an entry
  and adds none.\<close>

locale evicting_table =
  fixes evict :: "('k, 'v) gomap \<Rightarrow> ('k, 'v) gomap"
  assumes evict_distinct: "distinct (map fst m) \<Longrightarrow> distinct (map fst (evict m))"
    and evict_shrinks: "distinct (map fst m) \<Longrightarrow> m \<noteq> [] \<Longrightarrow> length (evict m) < length m"
    and evict_subset: "set (evict m) \<subseteq> set m"
begin

lemma insert_bounded:
  assumes "distinct (map fst m)" "int (length m) \<le> limit" "1 \<le> limit"
  shows "int (length (AList.update k v (if int (length m) \<ge> limit then evict m else m))) \<le> limit"
proof (cases "int (length m) \<ge> limit")
  case True
  with assms have "m \<noteq> []" by auto
  with evict_shrinks[OF assms(1)] assms(2) have "int (length (evict m)) < limit" by fastforce
  with True length_update_le[of k v "evict m"] show ?thesis by simp
next
  case False
  with length_update_le[of k v m] show ?thesis by simp
qed

lemma insert_distinct:
  "distinct (map fst m) \<Longrightarrow>
     distinct (map fst (AList.update k v (if int (length m) \<ge> limit then evict m else m)))"
  by (simp add: evict_distinct)

lemma insert_entries:
  assumes "\<And>x. x \<in> set m \<Longrightarrow> P (snd x)" "P v" "x \<in> set (AList.update k v (if b then evict m else m))"
  shows "P (snd x)"
proof -
  have "x = (k, v) \<or> x \<in> set m"
    using assms(3) evict_subset[of m] set_update_subset by (fastforce split: if_splits)
  then show ?thesis using assms(1)[of x] assms(2) by auto
qed

end

lemma pick_member: "pick better v xs = Some w \<Longrightarrow> v = Some w \<or> w \<in> set xs"
  by (induction better v xs rule: pick.induct) (auto split: option.splits if_splits)

lemma pick_Some: "pick better (Some v) xs \<noteq> None"
  by (induction xs arbitrary: v) auto

lemma pick_nonempty: "xs \<noteq> [] \<Longrightarrow> \<exists>w. pick better None xs = Some w"
  using pick_Some by (cases xs) fastforce+

lemma evict_by_nonempty:
  assumes "m \<noteq> []"
  shows "\<exists>k v. (k, v) \<in> set (take evictionSample m) \<and> evict_by better m = AList.delete k m"
proof -
  have "take evictionSample m \<noteq> []" using assms by (simp add: evictionSample_def)
  then obtain k v where p: "pick better None (take evictionSample m) = Some (k, v)"
    using pick_nonempty by (metis surj_pair)
  then show ?thesis using pick_member[OF p] by (auto simp: evict_by_def)
qed

lemma evicting_table_evict_by: "evicting_table (evict_by better)"
proof
  fix m :: "('a \<times> 'b) list"
  show "set (evict_by better m) \<subseteq> set m"
    by (auto simp: evict_by_def split: option.splits dest: set_delete_subset[THEN subsetD])
  assume d: "distinct (map fst m)"
  show "distinct (map fst (evict_by better m))" using d by (auto simp: evict_by_def split: option.splits)
  assume "m \<noteq> []"
  then obtain k v where kv: "(k, v) \<in> set m" "evict_by better m = AList.delete k m"
    using evict_by_nonempty by (meson in_set_takeD)
  with d length_delete_present[of m k v] show "length (evict_by better m) < length m" by simp
qed

interpretation limiters: evicting_table evictOldestLocked
  unfolding evictOldestLocked_def by (rule evicting_table_evict_by)

interpretation failures: evicting_table "evictFailureLocked now"
  unfolding evictFailureLocked_def by (rule evicting_table_evict_by)

lemma pick_unblocked:
  "(\<exists>x \<in> set xs. \<not> B x) \<or> (\<exists>w. v = Some w \<and> \<not> B w) \<Longrightarrow>
   (\<And>x w. B w \<Longrightarrow> \<not> B x \<Longrightarrow> better x w) \<Longrightarrow> (\<And>x w. B x \<Longrightarrow> \<not> B w \<Longrightarrow> \<not> better x w) \<Longrightarrow>
   pick better v xs = Some r \<Longrightarrow> \<not> B r"
proof (induction better v xs rule: pick.induct)
  case (1 better v)
  then show ?case by auto
next
  case (2 better v x xs)
  show ?case
  proof (rule 2(1))
    show "(\<exists>x \<in> set xs. \<not> B x) \<or>
        (\<exists>w. (case v of None \<Rightarrow> Some x | Some w \<Rightarrow> if better x w then Some x else Some w) = Some w \<and> \<not> B w)"
      using 2(2,3,4) by (cases v) auto
  qed (use 2 in auto)
qed

text \<open>When the login failure table is full, an entry that still blocks a login is never
  evicted while the sample holds an entry that does not block: an attacker cannot lift a block by
  filling the table with fresh entries.\<close>

theorem evictFailure_keeps_blocked:
  assumes "\<exists>x \<in> set (take evictionSample m). \<not> now < fe_blockedUntil (snd x)"
    and "distinct (map fst m)" "map_of m k = Some e" "now < fe_blockedUntil e"
  shows "map_of (evictFailureLocked now m) k = Some e"
proof -
  let ?B = "\<lambda>x. now < fe_blockedUntil (snd x)"
  obtain k' v where p: "pick (better_victim now) None (take evictionSample m) = Some (k', v)"
    using assms(1) pick_nonempty[of "take evictionSample m" "better_victim now"] by fastforce
  have "\<not> ?B (k', v)"
    by (rule pick_unblocked[OF _ _ _ p]) (use assms(1) in \<open>auto simp: better_victim_def\<close>)
  moreover have "(k', v) \<in> set m" using pick_member[OF p] by (auto dest: in_set_takeD)
  ultimately have "k' \<noteq> k" using assms(2-4) by (auto dest: map_of_SomeD eq_key_imp_eq_value)
  with p assms(3) show ?thesis by (simp add: evictFailureLocked_def evict_by_def)
qed

theorem evictFailure_keeps_blocked_witness:
  "map_of (evictFailureLocked 10
     [(''a'', \<lparr>fe_failures = 5, fe_blockedUntil = 99, fe_lastSeen = 1\<rparr>),
      (''b'', \<lparr>fe_failures = 1, fe_blockedUntil = 0, fe_lastSeen = 9\<rparr>)]) ''a'' =
   Some \<lparr>fe_failures = 5, fe_blockedUntil = 99, fe_lastSeen = 1\<rparr>"
  by (rule evictFailure_keeps_blocked) (simp_all add: evictionSample_def)

subsection \<open>Invariant of the guard\<close>

definition failure_ok :: "Config \<Rightarrow> failureEntry \<Rightarrow> bool" where
  "failure_ok config e \<longleftrightarrow>
     fe_failures e \<ge> 1 \<and>
     fe_blockedUntil e = (if fe_failures e \<ge> LoginMaxFailures config
                          then fe_lastSeen e + LoginBlockDuration config else 0)"

definition guard_inv :: "'lim Guard \<Rightarrow> bool" where
  "guard_inv g \<longleftrightarrow>
     distinct (map fst (g_failures g)) \<and>
     int (length (g_failures g)) \<le> MaxRateEntries (g_config g) \<and>
     (\<forall>x \<in> set (g_failures g). failure_ok (g_config g) (snd x)) \<and>
     distinct (map fst (ls_entries (g_limiters g))) \<and>
     int (length (ls_entries (g_limiters g))) \<le> MaxRateEntries (g_config g) \<and>
     ls_maxEntries (g_limiters g) = MaxRateEntries (g_config g)"

lemma bump_failure_ok:
  "1 \<le> LoginMaxFailures config \<Longrightarrow> e = zero_failure \<or> failure_ok config e \<Longrightarrow>
     failure_ok config (bump_failure config now e)"
  by (auto simp: failure_ok_def bump_failure_def zero_failure_def Let_def)

definition failures_inv :: "Config \<Rightarrow> (string, failureEntry) gomap \<Rightarrow> bool" where
  "failures_inv config m \<longleftrightarrow> distinct (map fst m) \<and> int (length m) \<le> MaxRateEntries config \<and>
     (\<forall>x \<in> set m. failure_ok config (snd x))"

lemma failures_inv_filter: "failures_inv config m \<Longrightarrow> failures_inv config (filter P m)"
  by (auto simp: failures_inv_def distinct_map_filter intro: order_trans[OF _ of_nat_mono])
    (meson length_filter_le of_nat_mono order_trans)

lemma failures_inv_cleanup:
  "failures_inv config m \<Longrightarrow> failures_inv config (cleanupFailuresLocked config now m)"
  by (simp add: cleanupFailuresLocked_def failures_inv_filter)

lemma failures_inv_delete: "failures_inv config m \<Longrightarrow> failures_inv config (AList.delete k m)"
  unfolding AList.delete_eq by (rule failures_inv_filter)

lemma failures_inv_record:
  assumes inv: "failures_inv config m" and c: "1 \<le> MaxRateEntries config" "1 \<le> LoginMaxFailures config"
  shows "failures_inv config (record_key config now m key)"
proof (cases "map_of m key")
  case None
  have z: "failure_ok config (bump_failure config now zero_failure)" by (rule bump_failure_ok[OF c(2)]) simp
  let ?m = "AList.update key (bump_failure config now zero_failure)
      (if int (length m) \<ge> MaxRateEntries config then evictFailureLocked now m else m)"
  have "\<forall>x \<in> set ?m. failure_ok config (snd x)"
    using failures.insert_entries[of m "failure_ok config"] inv z unfolding failures_inv_def by blast
  moreover have "record_key config now m key = ?m" using None by (simp add: record_key_def)
  ultimately show ?thesis
    using inv c(1) failures.insert_distinct[of m]
      failures.insert_bounded[of m "MaxRateEntries config" key "bump_failure config now zero_failure" now]
    unfolding failures_inv_def by simp
next
  case (Some e)
  then have "failure_ok config e" using inv by (auto simp: failures_inv_def dest: map_of_SomeD)
  then have z: "failure_ok config (bump_failure config now (if stale config now e then zero_failure else e))"
    by (intro bump_failure_ok[OF c(2)]) simp
  then show ?thesis
    using Some inv set_update_subset length_update_present[OF Some]
    by (auto simp: failures_inv_def record_key_def dest!: set_update_subset[THEN subsetD])
qed

lemma allow_keys_inv:
  "failures_inv config m \<Longrightarrow> failures_inv config (fst (allow_keys config now later m keys))"
  by (induction config now later m keys rule: allow_keys.induct)
    (auto simp: failures_inv_delete split: option.splits)

lemma foldl_inv: "P s \<Longrightarrow> (\<And>s x. P s \<Longrightarrow> P (f s x)) \<Longrightarrow> P (foldl f s xs)"
  by (induction xs arbitrary: s) auto

definition store_inv :: "int \<Rightarrow> 'lim limiterStore \<Rightarrow> bool" where
  "store_inv limit s \<longleftrightarrow> distinct (map fst (ls_entries s)) \<and>
     int (length (ls_entries s)) \<le> limit \<and> ls_maxEntries s = limit"

lemma allow_inv:
  assumes inv: "store_inv limit s" and "1 \<le> limit"
  shows "store_inv limit (fst (allow lib now key rps burst s))"
proof -
  define m where "m = (if (ls_operations s + 1) mod 256 = 0 \<or> int (length (ls_entries s)) \<ge> ls_maxEntries s
    then cleanupLocked (ls_ttl s) now (ls_entries s) else ls_entries s)"
  have "int (length (cleanupLocked (ls_ttl s) now (ls_entries s))) \<le> int (length (ls_entries s))"
    "distinct (map fst (ls_entries s)) \<Longrightarrow>
      distinct (map fst (cleanupLocked (ls_ttl s) now (ls_entries s)))"
    by (simp_all add: cleanupLocked_def distinct_map_filter)
  then have m: "distinct (map fst m)" "int (length m) \<le> limit"
    using inv unfolding m_def store_inv_def by (simp_all split: if_splits)
  show ?thesis
    using inv m limiters.insert_bounded[OF m assms(2)] limiters.evict_distinct[OF m(1)]
      length_update_present[of m key]
    unfolding allow_def Let_def m_def[symmetric]
    by (auto simp: store_inv_def split: option.splits prod.splits)
qed

subsection \<open>HTTP protection as a table\<close>

text \<open>The buckets a request is charged to, in order, each with the clock reading it uses, its
  limit, burst and the retry delay of a refusal; and the charging itself.\<close>

definition write_method :: "Request \<Rightarrow> bool" where
  "write_method r \<longleftrightarrow> rq_Method r \<noteq> ''GET'' \<and> rq_Method r \<noteq> ''HEAD'' \<and> rq_Method r \<noteq> ''OPTIONS''"

definition invite_route :: "Request \<Rightarrow> bool" where
  "invite_route r \<longleftrightarrow> rq_Method r = ''POST'' \<and> rq_Path r = ''/api/v1/invite-links/resolve''"

definition socket_route :: "Request \<Rightarrow> bool" where
  "socket_route r \<longleftrightarrow> rq_Method r = ''GET'' \<and> rq_Path r = ''/api/v1/ws''"

definition http_buckets ::
    "'addr golib \<Rightarrow> Config \<Rightarrow> string \<Rightarrow> Request \<Rightarrow> (nat \<times> string \<times> rate_limit \<times> int \<times> int) list" where
  "http_buckets lib config ip r =
     (let multiplier = (if bearerKey lib r \<noteq> '''' then max 1 (IPMultiplier config) else 1) in
      if conversationCallSignal r then
        [(0, ''http:call-signal:'' @ ip, PerSecond (CallSignalsPerSecond config),
          CallSignalBurst config, second)]
      else
        (if bearerKey lib r \<noteq> '''' then
           [(0, ''http:token:'' @ bearerKey lib r, PerSecond (HTTPRequestsPerSecond config),
             HTTPBurst config, second)] else []) @
        [(1, ''http:all:'' @ ip, PerSecond (HTTPRequestsPerSecond config * multiplier),
          HTTPBurst config * multiplier, second)] @
        (if write_method r then
           [(2, ''http:write:'' @ ip, PerSecond (HTTPWritesPerSecond config),
             HTTPWriteBurst config, second)] else []) @
        (if password_route r then
           [(3, ''http:auth:'' @ ip, PerMinute (AuthRequestsPerMinute config),
             AuthBurst config, 6 * second)]
         else if invite_route r then
           [(3, ''http:invite:'' @ ip, PerMinute (InviteRequestsPerMinute config),
             InviteBurst config, 3 * second)]
         else if socket_route r then
           [(3, ''http:ws:'' @ ip, PerMinute (WebSocketConnectsPerMinute config),
             WebSocketConnectBurst config, 6 * second)]
         else []))"

fun run_buckets ::
    "'lim rate_lib \<Rightarrow> (nat \<Rightarrow> int) \<Rightarrow> (nat \<times> string \<times> rate_limit \<times> int \<times> int) list \<Rightarrow>
     'lim limiterStore \<Rightarrow> 'lim limiterStore \<times> verdict" where
  "run_buckets rl now [] s = (s, Served)"
| "run_buckets rl now ((i, key, limit, burst, retry) # bs) s =
     (case allow rl (now i) key limit burst s of
        (s', ok) \<Rightarrow> if ok then run_buckets rl now bs s' else (s', TooManyRequests retry))"

lemma ProtectHTTP_run_buckets:
  "ProtectHTTP rl lib now r g =
     (let config = g_config g; ip = resolveClientIP lib config r; r' = r\<lparr>rq_ContextIP := Some ip\<rparr>;
          (s, v) = run_buckets rl now (http_buckets lib config (rateKey lib config ip) r') (g_limiters g)
      in (g\<lparr>g_limiters := s\<rparr>, v, r'))"
proof -
  define r' where "r' = r\<lparr>rq_ContextIP := Some (resolveClientIP lib (g_config g) r)\<rparr>"
  show ?thesis
    unfolding ProtectHTTP_def http_buckets_def Let_def r'_def[symmetric]
      write_method_def[symmetric] invite_route_def[symmetric] socket_route_def[symmetric]
    by (cases "conversationCallSignal r'"; cases "bearerKey lib r' = ''''"; cases "write_method r'";
        cases "password_route r'"; cases "invite_route r'"; cases "socket_route r'")
      (simp_all split: prod.split)
qed

text \<open>The operations of a guard, as one relation.\<close>

inductive guard_step :: "'lim rate_lib \<Rightarrow> 'addr golib \<Rightarrow> 'lim Guard \<Rightarrow> 'lim Guard \<Rightarrow> bool"
  for rl lib where
  http: "guard_step rl lib g (fst (ProtectHTTP rl lib now r g))"
| allow_login: "guard_step rl lib g (fst (AllowLogin lib now later r username g))"
| failure: "guard_step rl lib g (RecordLoginFailure lib now r username g)"
| success: "guard_step rl lib g (RecordLoginSuccess lib r username g)"
| acquire_ip: "AcquireWebSocketIP lib r g = Some (g', ip) \<Longrightarrow> guard_step rl lib g g'"
| release_ip: "guard_step rl lib g (ReleaseWebSocketIP ip g)"
| acquire_user: "AcquireWebSocketUser u g = Some (g', u') \<Longrightarrow> guard_step rl lib g g'"
| release_user: "guard_step rl lib g (ReleaseWebSocketUser u g)"

inductive guard_reachable :: "'lim rate_lib \<Rightarrow> 'addr golib \<Rightarrow> Config \<Rightarrow> 'lim Guard \<Rightarrow> bool"
  for rl lib config where
  new: "guard_reachable rl lib config (New config)"
| step: "guard_reachable rl lib config g \<Longrightarrow> guard_step rl lib g g' \<Longrightarrow> guard_reachable rl lib config g'"

lemma guard_inv_split:
  "guard_inv g \<longleftrightarrow> failures_inv (g_config g) (g_failures g) \<and>
     store_inv (MaxRateEntries (g_config g)) (g_limiters g)"
  by (auto simp: guard_inv_def failures_inv_def store_inv_def)

lemma run_buckets_inv:
  assumes "1 \<le> limit"
  shows "store_inv limit s \<Longrightarrow> store_inv limit (fst (run_buckets rl now bs s))"
proof (induction rl now bs s rule: run_buckets.induct)
  case (2 rl now i k l b retry bs s)
  obtain s' ok where a: "allow rl (now i) k l b s = (s', ok)" by fastforce
  have "store_inv limit s'" using allow_inv[OF 2(2) assms, of rl "now i" k l b] a by simp
  with a 2(1)[OF a[symmetric]] show ?case by simp
qed simp

lemma guard_step_inv:
  assumes "guard_step rl lib g g'" "guard_inv g" "1 \<le> MaxRateEntries (g_config g)" "1 \<le> LoginMaxFailures (g_config g)"
  shows "guard_inv g' \<and> g_config g' = g_config g"
  using assms(1)
proof cases
  case (http now r)
  have "store_inv (MaxRateEntries (g_config g)) (fst (run_buckets rl now bs (g_limiters g)))" for bs
    by (rule run_buckets_inv) (use assms in \<open>auto simp: guard_inv_split\<close>)
  then show ?thesis using assms(2) http
    by (simp add: guard_inv_split ProtectHTTP_run_buckets case_prod_beta Let_def)
next
  case (allow_login now later r username)
  then show ?thesis
    using assms(2) allow_keys_inv[OF failures_inv_cleanup, of "g_config g" "g_failures g"]
    by (auto simp: guard_inv_split AllowLogin_def Let_def split: prod.splits)
      (metis fst_conv)
next
  case (failure now r username)
  have "failures_inv (g_config g) (foldl (record_key (g_config g) now)
      (cleanupFailuresLocked (g_config g) now (g_failures g)) keys)" for keys
    by (rule foldl_inv) (use assms in \<open>auto simp: guard_inv_split intro: failures_inv_record failures_inv_cleanup\<close>)
  then show ?thesis using assms(2) failure by (simp add: guard_inv_split RecordLoginFailure_def)
next
  case (success r username)
  have "failures_inv (g_config g) (fold AList.delete keys (g_failures g))" for keys
    by (rule fold_inv) (use assms in \<open>auto simp: guard_inv_split intro: failures_inv_delete\<close>)
  then show ?thesis using assms(2) success by (simp add: guard_inv_split RecordLoginSuccess_def)
qed (use assms(2) in \<open>auto simp: guard_inv_split AcquireWebSocketIP_def ReleaseWebSocketIP_def
      AcquireWebSocketUser_def ReleaseWebSocketUser_def Let_def split: option.splits\<close>)

lemma guard_reachable_inv:
  assumes "guard_reachable rl lib config g" "1 \<le> MaxRateEntries config" "1 \<le> LoginMaxFailures config"
  shows "guard_inv g \<and> g_config g = config"
  using assms
proof (induction rule: guard_reachable.induct)
  case new
  then show ?case by (simp add: guard_inv_def New_def)
next
  case (step g g')
  then show ?case using guard_step_inv by metis
qed

text \<open>Whatever requests arrive, neither table of the guard ever holds more than
  \<^verbatim>\<open>MaxRateEntries\<close> entries, so an attacker who rotates addresses or tokens cannot make the
  guard's memory grow.\<close>

theorem guard_tables_bounded:
  assumes "guard_reachable rl lib config g" "1 \<le> MaxRateEntries config" "1 \<le> LoginMaxFailures config"
  shows "int (length (g_failures g)) \<le> MaxRateEntries config \<and>
    int (length (ls_entries (g_limiters g))) \<le> MaxRateEntries config"
  using guard_reachable_inv[OF assms] by (auto simp: guard_inv_def)

theorem guard_tables_bounded_witness:
  "\<forall>rl lib. int (length (g_failures (New DefaultConfig :: nat Guard))) \<le> 20000 \<and>
     guard_reachable (rl :: nat rate_lib) (lib :: nat golib) DefaultConfig (New DefaultConfig)"
proof (intro allI)
  fix rl :: "nat rate_lib" and lib :: "nat golib"
  show "int (length (g_failures (New DefaultConfig :: nat Guard))) \<le> 20000 \<and>
      guard_reachable rl lib DefaultConfig (New DefaultConfig)"
    using guard_tables_bounded[OF guard_reachable.new[of rl lib DefaultConfig]]
      guard_reachable.new[of rl lib DefaultConfig]
    by (simp add: DefaultConfig_def)
qed

lemma password_not_signal: "password_route r \<Longrightarrow> \<not> conversationCallSignal r"
  by (auto simp: password_route_def conversationCallSignal_def CutPrefix_def has_prefix_def)

text \<open>The HTTP middleware charges each request to exactly the buckets of
  \<open>http_buckets\<close>, in order, and stops at the first refusal, whose delay it reports. Every
  route that checks a password is charged to the authentication bucket of the client's address,
  and a call signal is charged to its own bucket only, so joining a call cannot exhaust the API
  budget.\<close>

theorem ProtectHTTP_charges:
  "ProtectHTTP rl lib now r g =
     (let config = g_config g; ip = resolveClientIP lib config r; r' = r\<lparr>rq_ContextIP := Some ip\<rparr>;
          (s, v) = run_buckets rl now (http_buckets lib config (rateKey lib config ip) r') (g_limiters g)
      in (g\<lparr>g_limiters := s\<rparr>, v, r')) \<and>
   (password_route r \<longrightarrow>
      (3, ''http:auth:'' @ ip, PerMinute (AuthRequestsPerMinute config), AuthBurst config, 6 * second)
        \<in> set (http_buckets lib config ip r)) \<and>
   (conversationCallSignal r \<longrightarrow> map (fst \<circ> snd) (http_buckets lib config ip r) = [''http:call-signal:'' @ ip])"
  using ProtectHTTP_run_buckets[of rl lib now r g] password_not_signal[of r]
  by (auto simp: http_buckets_def Let_def)

definition login_request :: Request where
  "login_request = \<lparr> rq_Method = ''POST'', rq_Path = ''/api/v1/auth/login'', rq_RemoteAddr = ''10.0.0.1:5'',
     rq_XRealIP = '''', rq_Authorization = '''', rq_ContextIP = None \<rparr>"

theorem ProtectHTTP_charges_witness:
  "\<forall>lib :: nat golib. (3, ''http:auth:10.0.0.1'', PerMinute 10, 5, 6 * second)
     \<in> set (http_buckets lib DefaultConfig ''10.0.0.1'' login_request)"
proof
  fix lib :: "nat golib"
  have "password_route login_request" by (simp add: password_route_def login_request_def)
  then show "(3, ''http:auth:10.0.0.1'', PerMinute 10, 5, 6 * second)
      \<in> set (http_buckets lib DefaultConfig ''10.0.0.1'' login_request)"
    using ProtectHTTP_charges[where r = login_request and config = DefaultConfig and ip = "''10.0.0.1''"
        and lib = lib and g = "New DefaultConfig :: nat Guard" and now = "\<lambda>_. 0",
        THEN conjunct2, THEN conjunct1]
    by (simp add: DefaultConfig_def)
qed

subsection \<open>Login blocks\<close>

lemma cleanup_lookup:
  assumes "distinct (map fst m)"
  shows "map_of (cleanupFailuresLocked config now m) k = Some e \<longleftrightarrow>
    map_of m k = Some e \<and> (int (length m) < MaxRateEntries config \<or> \<not> stale config now e)"
  using assms distinct_map_filter[OF assms]
  by (auto simp: cleanupFailuresLocked_def map_of_eq_Some_iff)

lemma allow_keys_denies:
  "\<not> fst (snd (allow_keys config now later m keys)) \<longleftrightarrow>
     (\<exists>k \<in> set keys. \<exists>e. map_of m k = Some e \<and> now < fe_blockedUntil e)"
proof (induction config now later m keys rule: allow_keys.induct)
  case (2 config now later m key keys)
  show ?case
  proof (cases "map_of m key")
    case None
    with 2(1) show ?thesis by auto
  next
    case (Some e)
    have del: "(\<exists>v. map_of (AList.delete key m) k = Some v \<and> now < fe_blockedUntil v) \<longleftrightarrow>
        (\<exists>v. map_of m k = Some v \<and> now < fe_blockedUntil v)" if "stale config now e" for k
      using that Some by (auto simp: stale_def)
    from 2(2)[OF Some] 2(3)[OF Some] Some show ?thesis
      by (cases "stale config now e") (auto simp: del stale_def simp del: map_of_delete_iff)
  qed
qed simp

lemma AllowLogin_char:
  assumes "guard_reachable rl lib config g" "1 \<le> MaxRateEntries config" "1 \<le> LoginMaxFailures config"
    and "0 < now"
  shows "\<not> fst (snd (AllowLogin lib now later r username g)) \<longleftrightarrow>
    (\<exists>k \<in> set (loginFailureKeys lib config r username). \<exists>e. map_of (g_failures g) k = Some e \<and>
       fe_failures e \<ge> LoginMaxFailures config \<and> now < fe_lastSeen e + LoginBlockDuration config)"
proof -
  have inv: "guard_inv g" "g_config g = config" using guard_reachable_inv[OF assms(1-3)] by auto
  have d: "distinct (map fst (g_failures g))" using inv by (simp add: guard_inv_def)
  have blocked: "now < fe_blockedUntil e \<longleftrightarrow>
      fe_failures e \<ge> LoginMaxFailures config \<and> now < fe_lastSeen e + LoginBlockDuration config"
    if "map_of (g_failures g) k = Some e" for k e
    using map_of_SomeD[OF that] inv assms(4) by (auto simp: guard_inv_def failure_ok_def split: if_splits)
  have "fst (snd (AllowLogin lib now later r username g)) = fst (snd (allow_keys config now later
      (cleanupFailuresLocked config now (g_failures g)) (loginFailureKeys lib config r username)))"
    using inv(2) by (simp add: AllowLogin_def case_prod_beta Let_def)
  then have "\<not> fst (snd (AllowLogin lib now later r username g)) \<longleftrightarrow>
      (\<exists>k \<in> set (loginFailureKeys lib config r username).
         \<exists>e. map_of (g_failures g) k = Some e \<and> now < fe_blockedUntil e)"
    using allow_keys_denies cleanup_lookup[OF d] by (auto simp: stale_def)
  with blocked show ?thesis by blast
qed

text \<open>In every reachable state, \<^verbatim>\<open>AllowLogin\<close> refuses a login exactly when one of the two
  records of the attempt (the client address, or the address with the account) has reached
  \<^verbatim>\<open>LoginMaxFailures\<close> and its last failure is less than \<^verbatim>\<open>LoginBlockDuration\<close> ago.\<close>

theorem AllowLogin_iff:
  assumes "guard_reachable rl lib config g" "1 \<le> MaxRateEntries config" "1 \<le> LoginMaxFailures config"
    and "0 < now"
  shows "\<not> fst (snd (AllowLogin lib now later r username g)) \<longleftrightarrow>
    (\<exists>k \<in> set (loginFailureKeys lib config r username). \<exists>e. map_of (g_failures g) k = Some e \<and>
       fe_failures e \<ge> LoginMaxFailures config \<and> now < fe_lastSeen e + LoginBlockDuration config)"
  using assms by (rule AllowLogin_char)

definition plain_golib :: "nat golib" where
  "plain_golib = \<lparr> ParseAddr = (\<lambda>_. None), Unmap = (\<lambda>a. a), Is4 = (\<lambda>_. True), AddrString = (\<lambda>_. ''''),
     PrefixString = (\<lambda>_ _. None), SplitHost = (\<lambda>_. None), TrimSpace = (\<lambda>s. s), ToLower = (\<lambda>s. s),
     Fields = (\<lambda>s. [s]), EqualFold = (=), Sha256Hex = (\<lambda>s. s) \<rparr>"

definition plain_rate_lib :: "nat rate_lib" where
  "plain_rate_lib = \<lparr> NewLimiter = (\<lambda>_ burst. nat burst), AllowN = (\<lambda>n _. (n - 1, 0 < n)) \<rparr>"

theorem AllowLogin_iff_witness:
  "fst (snd (AllowLogin plain_golib 7 8 login_request ''eve'' (New DefaultConfig :: nat Guard)))"
  using AllowLogin_iff[OF guard_reachable.new[of plain_rate_lib plain_golib DefaultConfig],
      where now = 7 and later = 8 and r = login_request and username = "''eve''"]
  by (simp add: DefaultConfig_def New_def)

lemma loginFailureKeys_distinct: "distinct (loginFailureKeys lib config r username)"
  by (simp add: loginFailureKeys_def Let_def)

text \<open>The login handler (\<^verbatim>\<open>account/http/handler.go\<close>) as far as it uses the guard: an attempt that is not
  refused has its password checked; \<open>valid\<close> is the outcome. The three clock readings are those of
  \<^verbatim>\<open>AllowLogin\<close> and of \<^verbatim>\<open>RecordLoginFailure\<close>. The result says whether the password was checked.\<close>

definition login_attempt ::
    "'addr golib \<Rightarrow> Request \<Rightarrow> string \<Rightarrow> bool \<Rightarrow> int \<times> int \<times> int \<Rightarrow> 'lim Guard \<Rightarrow> 'lim Guard \<times> bool" where
  "login_attempt lib r username valid readings g =
     (case readings of (now, later, recorded) \<Rightarrow>
        case AllowLogin lib now later r username g of
          (g1, allowed, _) \<Rightarrow>
            if \<not> allowed then (g1, False)
            else if valid then (RecordLoginSuccess lib r username g1, True)
            else (RecordLoginFailure lib recorded r username g1, True))"

fun wrong_logins ::
    "'addr golib \<Rightarrow> Request \<Rightarrow> string \<Rightarrow> (int \<times> int \<times> int) list \<Rightarrow> 'lim Guard \<Rightarrow> 'lim Guard \<times> bool list" where
  "wrong_logins lib r username [] g = (g, [])"
| "wrong_logins lib r username (t # ts) g =
     (let (g1, checked) = login_attempt lib r username False t g;
          (g2, rest) = wrong_logins lib r username ts g1 in (g2, checked # rest))"

text \<open>Both records of the attempt were made between \<open>t0\<close> and \<open>t1\<close> and count at least \<open>n\<close> failures, exactly
  so many when nothing was recorded before (\<open>only\<close>).\<close>

definition counted :: "bool \<Rightarrow> nat \<Rightarrow> int \<Rightarrow> int \<Rightarrow> failureEntry \<Rightarrow> bool" where
  "counted only n t0 t1 e \<longleftrightarrow> t0 \<le> fe_lastSeen e \<and> fe_lastSeen e \<le> t1 \<and> int n \<le> fe_failures e \<and> (only \<longrightarrow> fe_failures e = int n)"

definition counting :: "Config \<Rightarrow> bool \<Rightarrow> nat \<Rightarrow> int \<Rightarrow> int \<Rightarrow> string list \<Rightarrow> (string, failureEntry) gomap \<Rightarrow> bool" where
  "counting config only n t0 t1 keys m \<longleftrightarrow>
     (if n = 0 then int (length m) + 2 \<le> MaxRateEntries config \<and> (only \<longrightarrow> (\<forall>k \<in> set keys. map_of m k = None))
      else (\<forall>k \<in> set keys. \<exists>e. map_of m k = Some e \<and> counted only n t0 t1 e))"

lemma counted_fresh: "counted only n t0 t1 e \<Longrightarrow> t1 - t0 < EntryTTL config \<Longrightarrow> now \<le> t1 \<Longrightarrow> \<not> stale config now e"
  by (simp add: counted_def stale_def)

lemma allow_keys_keeps:
  "map_of m k = Some e \<Longrightarrow> \<not> stale config now e \<Longrightarrow> map_of (fst (allow_keys config now later m keys)) k = Some e"
proof (induction config now later m keys rule: allow_keys.induct)
  case (2 config now later m key keys)
  then show ?case by (cases "map_of m key"; cases "k = key") auto
qed simp

lemma allow_keys_absent: "map_of m k = None \<Longrightarrow> map_of (fst (allow_keys config now later m keys)) k = None"
proof (induction config now later m keys rule: allow_keys.induct)
  case (2 config now later m key keys)
  then show ?case by (cases "map_of m key") auto
qed simp

lemma allow_keys_length: "length (fst (allow_keys config now later m keys)) \<le> length m"
proof (induction config now later m keys rule: allow_keys.induct)
  case (2 config now later m key keys)
  then show ?case using length_delete_le[of key m] by (cases "map_of m key") (auto intro: order_trans)
qed simp

lemma AllowLogin_failures:
  "g_failures (fst (AllowLogin lib now later r username g)) =
     fst (allow_keys (g_config g) now later (cleanupFailuresLocked (g_config g) now (g_failures g)) (loginFailureKeys lib (g_config g) r username))"
  "g_config (fst (AllowLogin lib now later r username g)) = g_config g"
  by (simp_all add: AllowLogin_def case_prod_beta Let_def)

lemma cleanup_length: "length (cleanupFailuresLocked config now m) \<le> length m"
  by (simp add: cleanupFailuresLocked_def)

text \<open>\<^verbatim>\<open>AllowLogin\<close> forgets nothing that counts, and refuses once the count is reached.\<close>

lemma counting_allow:
  assumes "counting config only n t0 t1 keys m" "distinct (map fst m)" "t1 - t0 < EntryTTL config" "now \<le> t1"
  shows "counting config only n t0 t1 keys (fst (allow_keys config now later (cleanupFailuresLocked config now m) keys'))"
proof (cases "n = 0")
  case True
  have absent: "map_of (cleanupFailuresLocked config now m) k = None" if "map_of m k = None" for k
    using that cleanup_lookup[OF assms(2), of config now k] by (cases "map_of (cleanupFailuresLocked config now m) k") auto
  have "int (length (fst (allow_keys config now later (cleanupFailuresLocked config now m) keys'))) \<le> int (length m)"
    using allow_keys_length cleanup_length by (meson of_nat_mono order_trans)
  with True assms(1) absent show ?thesis by (auto simp: counting_def intro: allow_keys_absent)
next
  case False
  have "map_of (fst (allow_keys config now later (cleanupFailuresLocked config now m) keys')) k = Some e"
    if "map_of m k = Some e" "counted only n t0 t1 e" for k e
  proof -
    have "\<not> stale config now e" using counted_fresh[OF that(2) assms(3,4)] .
    then show ?thesis using that(1) cleanup_lookup[OF assms(2)] by (intro allow_keys_keeps) auto
  qed
  with False assms(1) show ?thesis unfolding counting_def by (metis (full_types))
qed

lemma counted_bump:
  assumes "counted only n t0 t1 e" "\<not> stale config now e" "t0 \<le> now" "now \<le> t1"
  shows "counted only (Suc n) t0 t1 (bump_failure config now e)"
  using assms by (simp add: counted_def bump_failure_def Let_def)

lemma record_key_frame:
  assumes "map_of m k = Some e" "k \<noteq> key" "map_of m key \<noteq> None \<or> int (length m) < MaxRateEntries config"
  shows "map_of (record_key config now m key) k = Some e"
  using assms by (auto simp: record_key_def split: option.splits)

lemma record_key_bumps:
  assumes "map_of m key = Some e" "\<not> stale config now e"
  shows "map_of (record_key config now m key) key = Some (bump_failure config now e)"
  using assms by (simp add: record_key_def)

lemma counting_step:
  assumes n: "n \<noteq> 0" and c: "counting config only n t0 t1 [a, b] m" and "a \<noteq> b" and now: "t0 \<le> now" "now \<le> t1"
    and ttl: "t1 - t0 < EntryTTL config" and d: "distinct (map fst m)"
  shows "counting config only (Suc n) t0 t1 [a, b] (foldl (record_key config now) (cleanupFailuresLocked config now m) [a, b])"
proof -
  let ?m = "cleanupFailuresLocked config now m"
  obtain ea eb where e: "map_of m a = Some ea" "counted only n t0 t1 ea" "map_of m b = Some eb" "counted only n t0 t1 eb"
    using c n by (auto simp: counting_def)
  have ns: "\<not> stale config now ea" "\<not> stale config now eb" using counted_fresh[OF _ ttl now(2)] e(2,4) by auto
  have m: "map_of ?m a = Some ea" "map_of ?m b = Some eb" using e ns cleanup_lookup[OF d] by auto
  let ?m1 = "record_key config now ?m a"
  have m1: "map_of ?m1 a = Some (bump_failure config now ea)" "map_of ?m1 b = Some eb"
    using record_key_bumps[OF m(1) ns(1)] record_key_frame[OF m(2)] assms(3) m(1) by auto
  have "map_of (record_key config now ?m1 b) b = Some (bump_failure config now eb)"
    "map_of (record_key config now ?m1 b) a = Some (bump_failure config now ea)"
    using record_key_bumps[OF m1(2) ns(2)] record_key_frame[OF m1(1)] assms(3) m1(2) by auto
  with counted_bump[OF e(2) ns(1) now] counted_bump[OF e(4) ns(2) now] show ?thesis by (simp add: counting_def)
qed

lemma record_present:
  "\<exists>e. map_of (record_key config now m k) k = Some e \<and> fe_lastSeen e = now \<and> (map_of m k = None \<longrightarrow> fe_failures e = 1)"
  by (auto simp: record_key_def bump_failure_def zero_failure_def Let_def split: option.splits)

lemma record_key_length: "length (record_key config now m k) \<le> Suc (length m)"
proof (cases "map_of m k")
  case None
  have "length (evictFailureLocked now m) \<le> length m"
    by (auto simp: evictFailureLocked_def evict_by_def length_delete_le split: option.splits)
  then show ?thesis
    using None length_update_le[of k "bump_failure config now zero_failure" "evictFailureLocked now m"]
      length_update_le[of k "bump_failure config now zero_failure" m]
    by (auto simp: record_key_def)
next
  case (Some e)
  then show ?thesis by (simp add: record_key_def length_update_present[OF Some])
qed

lemma record_key_absent: "map_of m k = None \<Longrightarrow> k \<noteq> key \<Longrightarrow> int (length m) < MaxRateEntries config \<Longrightarrow> map_of (record_key config now m key) k = None"
  by (auto simp: record_key_def split: option.splits)

lemma counting_first:
  assumes inv: "failures_inv config m" and c: "counting config only 0 t0 t1 [a, b] m" and "a \<noteq> b"
    and max: "1 \<le> LoginMaxFailures config" and now: "t0 \<le> now" "now \<le> t1"
  shows "counting config only 1 t0 t1 [a, b] (foldl (record_key config now) (cleanupFailuresLocked config now m) [a, b])"
proof -
  have room: "int (length m) + 2 \<le> MaxRateEntries config" and none: "only \<Longrightarrow> map_of m a = None \<and> map_of m b = None"
    using c by (auto simp: counting_def)
  have m: "cleanupFailuresLocked config now m = m" using room by (simp add: cleanupFailuresLocked_def)
  let ?m1 = "record_key config now m a" and ?m2 = "record_key config now (record_key config now m a) b"
  have i1: "failures_inv config ?m1" by (rule failures_inv_record[OF inv _ max]) (use room in simp)
  have i2: "failures_inv config ?m2" by (rule failures_inv_record[OF i1 _ max]) (use room in simp)
  obtain ea where ea: "map_of ?m1 a = Some ea" "fe_lastSeen ea = now" "map_of m a = None \<longrightarrow> fe_failures ea = 1"
    using record_present by blast
  have "int (length ?m1) < MaxRateEntries config" using record_key_length[of config now m a] room by linarith
  then have a2: "map_of ?m2 a = Some ea" using record_key_frame[OF ea(1)] assms(3) by blast
  obtain eb where eb: "map_of ?m2 b = Some eb" "fe_lastSeen eb = now" "map_of ?m1 b = None \<longrightarrow> fe_failures eb = 1"
    using record_present by blast
  have "only \<Longrightarrow> map_of ?m1 b = None" using none record_key_absent[of m b a config now] assms(3) room by auto
  moreover have "fe_failures e \<ge> 1" if "map_of ?m2 k = Some e" for k e
    using map_of_SomeD[OF that] i2 by (auto simp: failures_inv_def failure_ok_def)
  ultimately show ?thesis using m a2 ea eb none now by (auto simp: counting_def counted_def)
qed

lemma guard_failures_inv:
  "guard_reachable rl lib config g \<Longrightarrow> 1 \<le> MaxRateEntries config \<Longrightarrow> 1 \<le> LoginMaxFailures config \<Longrightarrow>
     failures_inv config (g_failures g) \<and> g_config g = config"
  using guard_reachable_inv by (force simp: guard_inv_split)


lemma AllowLogin_counting:
  assumes g: "guard_reachable rl lib config g" and max: "1 \<le> MaxRateEntries config" "1 \<le> LoginMaxFailures config"
    and c: "counting config only n t0 t1 (loginFailureKeys lib config r username) (g_failures g)"
    and window: "0 < now" "now \<le> t1" "t1 - t0 < LoginBlockDuration config"
  shows "fst (snd (AllowLogin lib now later r username g)) \<Longrightarrow> int n < LoginMaxFailures config"
    and "only \<Longrightarrow> int n < LoginMaxFailures config \<Longrightarrow> fst (snd (AllowLogin lib now later r username g))"
proof -
  let ?K = "loginFailureKeys lib config r username"
  note char = AllowLogin_char[OF g max window(1), of later r username]
  have two: "\<exists>k. k \<in> set ?K" unfolding loginFailureKeys_def Let_def by (meson list.set_intros(1))
  show "int n < LoginMaxFailures config" if ok: "fst (snd (AllowLogin lib now later r username g))"
  proof (rule ccontr)
    assume "\<not> int n < LoginMaxFailures config"
    then have "n \<noteq> 0" "int n \<ge> LoginMaxFailures config" using max(2) by auto
    with two c obtain k e where "k \<in> set ?K" "map_of (g_failures g) k = Some e" "counted only n t0 t1 e" by (auto simp: counting_def)
    moreover from this(3) \<open>int n \<ge> LoginMaxFailures config\<close> window
    have "fe_failures e \<ge> LoginMaxFailures config" "now < fe_lastSeen e + LoginBlockDuration config" by (auto simp: counted_def)
    ultimately show False using ok char by blast
  qed
  show "fst (snd (AllowLogin lib now later r username g))" if "only" "int n < LoginMaxFailures config"
  proof (rule ccontr)
    assume "\<not> fst (snd (AllowLogin lib now later r username g))"
    with char obtain k e where "k \<in> set ?K" "map_of (g_failures g) k = Some e" "fe_failures e \<ge> LoginMaxFailures config" by blast
    with c that show False by (cases "n = 0") (auto simp: counting_def counted_def)
  qed
qed

lemma login_attempt_counts:
  assumes g: "guard_reachable rl lib config g" and max: "1 \<le> MaxRateEntries config" "1 \<le> LoginMaxFailures config"
    and c: "counting config only n t0 t1 (loginFailureKeys lib config r username) (g_failures g)"
    and window: "0 < t0" "t1 - t0 < EntryTTL config" "t1 - t0 < LoginBlockDuration config"
    and times: "t0 \<le> now" "now \<le> t1" "t0 \<le> recorded" "recorded \<le> t1"
    and run: "login_attempt lib r username False (now, later, recorded) g = (g', checked)"
  shows "guard_reachable rl lib config g'"
    and "counting config only (if checked then Suc n else n) t0 t1 (loginFailureKeys lib config r username) (g_failures g')"
    and "checked \<Longrightarrow> int n < LoginMaxFailures config" and "only \<Longrightarrow> int n < LoginMaxFailures config \<Longrightarrow> checked"
proof -
  let ?K = "loginFailureKeys lib config r username"
  obtain g1 allowed w where a: "AllowLogin lib now later r username g = (g1, allowed, w)" by (cases "AllowLogin lib now later r username g")
  then have g': "checked = allowed" "g' = (if allowed then RecordLoginFailure lib recorded r username g1 else g1)"
    using run by (auto simp: login_attempt_def split: if_splits)
  have r1: "guard_reachable rl lib config g1"
    using guard_reachable.step[OF g guard_step.allow_login[of rl lib g now later r username]] a by simp
  note inv = guard_failures_inv[OF g max] and inv1 = guard_failures_inv[OF r1 max]
  have c1: "counting config only n t0 t1 ?K (g_failures g1)"
    using counting_allow[OF c _ window(2) times(2), of later ?K] inv AllowLogin_failures[of lib now later r username g] a
    by (simp add: failures_inv_def)
  show "guard_reachable rl lib config g'" using g' r1 by (auto intro: guard_reachable.step guard_step.failure)
  obtain p q where k: "?K = [p, q]" "p \<noteq> q"
    using loginFailureKeys_distinct[of lib config r username] by (auto simp: loginFailureKeys_def Let_def)
  have "counting config only (Suc n) t0 t1 ?K (g_failures (RecordLoginFailure lib recorded r username g1))"
    using counting_first[of config "g_failures g1" only t0 t1 p q recorded] counting_step[of n config only t0 t1 p q "g_failures g1" recorded]
      inv1 c1 k max times window(2)
    by (cases "n = 0") (simp_all add: RecordLoginFailure_def failures_inv_def)
  with g' c1 show "counting config only (if checked then Suc n else n) t0 t1 ?K (g_failures g')" by simp
  have "0 < now" using window(1) times(1) by simp
  note allow = AllowLogin_counting[OF g max c this times(2) window(3), of later]
  show "int n < LoginMaxFailures config" if "checked" using allow(1) that g'(1) a by simp
  show "checked" if "only" "int n < LoginMaxFailures config" using allow(2)[OF that] g'(1) a by simp
qed

lemma wrong_logins_count:
  assumes "guard_reachable rl lib config g" and max: "1 \<le> MaxRateEntries config" "1 \<le> LoginMaxFailures config"
    and "counting config only n t0 t1 (loginFailureKeys lib config r username) (g_failures g)"
    and window: "0 < t0" "t1 - t0 < EntryTTL config" "t1 - t0 < LoginBlockDuration config"
    and "\<forall>(now, later, recorded) \<in> set ts. t0 \<le> now \<and> now \<le> t1 \<and> t0 \<le> recorded \<and> recorded \<le> t1"
    and "int n \<le> LoginMaxFailures config"
  shows "int (n + length (filter id (snd (wrong_logins lib r username ts g)))) \<le> LoginMaxFailures config \<and>
    (only \<longrightarrow> snd (wrong_logins lib r username ts g) = map (\<lambda>i. int (n + i) < LoginMaxFailures config) [0..<length ts])"
  using assms(1,4,8,9)
proof (induction ts arbitrary: g n)
  case Nil
  then show ?case by simp
next
  case (Cons t ts)
  obtain now later recorded where t: "t = (now, later, recorded)" by (cases t)
  obtain g' checked where a: "login_attempt lib r username False (now, later, recorded) g = (g', checked)" by fastforce
  have times: "t0 \<le> now" "now \<le> t1" "t0 \<le> recorded" "recorded \<le> t1" using Cons.prems(3) t by auto
  note step = login_attempt_counts[OF Cons.prems(1) max Cons.prems(2) window times a]
  let ?n = "if checked then Suc n else n"
  have "int ?n \<le> LoginMaxFailures config" using step(3) Cons.prems(4) by (cases checked) auto
  moreover have "\<forall>(now, later, recorded) \<in> set ts. t0 \<le> now \<and> now \<le> t1 \<and> t0 \<le> recorded \<and> recorded \<le> t1"
    using Cons.prems(3) by simp
  ultimately have both: "int (?n + length (filter id (snd (wrong_logins lib r username ts g')))) \<le> LoginMaxFailures config \<and>
      (only \<longrightarrow> snd (wrong_logins lib r username ts g') = map (\<lambda>i. int (?n + i) < LoginMaxFailures config) [0..<length ts])"
    by (intro Cons.IH[OF step(1,2)])
  note ih = both[THEN conjunct1] both[THEN conjunct2, THEN mp]
  have s: "snd (wrong_logins lib r username (t # ts) g) = checked # snd (wrong_logins lib r username ts g')"
    by (simp add: t a split: prod.split)
  have "snd (wrong_logins lib r username (t # ts) g) = map (\<lambda>i. int (n + i) < LoginMaxFailures config) [0..<length (t # ts)]" if "only"
    using ih(2)[OF that] step(3) step(4)[OF that] unfolding s
    by (cases checked) (auto simp: upt_conv_Cons map_Suc_upt[symmetric] simp del: upt_Suc)
  moreover have "int (n + length (filter id (snd (wrong_logins lib r username (t # ts) g)))) \<le> LoginMaxFailures config"
    using ih(1) unfolding s by (cases checked) simp_all
  ultimately show ?case by blast
qed

text \<open>C12: wrong passwords are limited. Within any period shorter than \<^verbatim>\<open>LoginBlockDuration\<close> and
  \<^verbatim>\<open>EntryTTL\<close>, and when the table has room for the two records at its start, one client that tries an
  account with wrong passwords, one attempt after the other, has at most \<^verbatim>\<open>LoginMaxFailures\<close> of them
  checked; with no failure recorded before, exactly the first \<^verbatim>\<open>LoginMaxFailures\<close> attempts are checked
  and all later ones refused. Every attempt calls \<^verbatim>\<open>AllowLogin\<close> first, as the handler does.\<close>

theorem login_lockout:
  assumes g: "guard_reachable rl lib config g"
    and c: "1 \<le> LoginMaxFailures config" "int (length (g_failures g)) + 2 \<le> MaxRateEntries config"
    and period: "0 < t0" "t1 - t0 < EntryTTL config" "t1 - t0 < LoginBlockDuration config"
      "\<forall>(now, later, recorded) \<in> set ts. t0 \<le> now \<and> now \<le> t1 \<and> t0 \<le> recorded \<and> recorded \<le> t1"
  shows "int (length (filter id (snd (wrong_logins lib r username ts g)))) \<le> LoginMaxFailures config \<and>
    ((\<forall>k \<in> set (loginFailureKeys lib config r username). map_of (g_failures g) k = None) \<longrightarrow>
       snd (wrong_logins lib r username ts g) = map (\<lambda>i. int i < LoginMaxFailures config) [0..<length ts])"
proof -
  have max: "1 \<le> MaxRateEntries config" using c(2) by simp
  have 0: "int 0 \<le> LoginMaxFailures config" using c(1) by simp
  have "counting config only 0 t0 t1 (loginFailureKeys lib config r username) (g_failures g)"
    if "only \<Longrightarrow> \<forall>k \<in> set (loginFailureKeys lib config r username). map_of (g_failures g) k = None" for only
    using that c(2) by (simp add: counting_def)
  note count = wrong_logins_count[OF g max c(1) this period 0]
  show ?thesis using count[of False] count[of True] by simp
qed

theorem login_lockout_witness:
  "snd (wrong_logins plain_golib login_request ''eve'' (map (\<lambda>i. (i, i, i)) [1..7]) (New DefaultConfig :: nat Guard)) =
     [True, True, True, True, True, False, False]"
proof -
  have "snd (wrong_logins plain_golib login_request ''eve'' (map (\<lambda>i. (i, i, i)) [1..7]) (New DefaultConfig :: nat Guard)) =
      map (\<lambda>i. int i < LoginMaxFailures DefaultConfig) [0..<length (map (\<lambda>i :: int. (i, i, i)) [1..7])]"
    by (rule login_lockout[OF guard_reachable.new[of plain_rate_lib plain_golib DefaultConfig],
          where ?t0.0 = 1 and ?t1.0 = 7 and r = login_request and username = "''eve''", THEN conjunct2, THEN mp])
      (simp_all add: DefaultConfig_def New_def minute_def second_def)
  also have "\<dots> = [True, True, True, True, True, False, False]"
    by (simp add: DefaultConfig_def upto.simps upt_rec)
  finally show ?thesis .
qed


subsection \<open>Connection slots\<close>

text \<open>The leases handed out, newest first, each with whether it was returned. The function a
  caller receives returns its lease once; calling it again does nothing.\<close>

datatype lease = IPLease string | UserLease int

fun release_lease :: "lease \<Rightarrow> 'lim Guard \<Rightarrow> 'lim Guard" where
  "release_lease (IPLease ip) g = ReleaseWebSocketIP ip g"
| "release_lease (UserLease u) g = ReleaseWebSocketUser u g"

inductive slots_reachable ::
    "'addr golib \<Rightarrow> Config \<Rightarrow> 'lim Guard \<Rightarrow> (lease \<times> bool) list \<Rightarrow> bool" for lib config where
  start: "slots_reachable lib config (New config) []"
| take_ip: "slots_reachable lib config g ls \<Longrightarrow> AcquireWebSocketIP lib r g = Some (g', ip) \<Longrightarrow>
     slots_reachable lib config g' ((IPLease ip, False) # ls)"
| take_user: "slots_reachable lib config g ls \<Longrightarrow> AcquireWebSocketUser u g = Some (g', u') \<Longrightarrow>
     slots_reachable lib config g' ((UserLease u', False) # ls)"
| give_back: "slots_reachable lib config g (xs @ (l, False) # ys) \<Longrightarrow>
     slots_reachable lib config (release_lease l g) (xs @ (l, True) # ys)"
| again: "slots_reachable lib config g (xs @ (l, True) # ys) \<Longrightarrow>
     slots_reachable lib config g (xs @ (l, True) # ys)"

abbreviation held :: "(lease \<times> bool) list \<Rightarrow> lease \<Rightarrow> nat" where
  "held ls l \<equiv> count_list ls (l, False)"

text \<open>A slot map counts what is held, stays within its limit and has no empty entry.\<close>

definition slot_ok :: "('k, int) gomap \<Rightarrow> int \<Rightarrow> nat \<Rightarrow> 'k \<Rightarrow> bool" where
  "slot_ok m limit n k \<longleftrightarrow>
     get_or 0 m k = int n \<and> (0 < n \<longrightarrow> int n \<le> limit) \<and> (map_of m k = None \<longleftrightarrow> n = 0)"

lemma slot_ok_acquire:
  assumes "acquire_slot limit k m = Some m'" "slot_ok m limit n k'"
  shows "slot_ok m' limit (if k' = k then n + 1 else n) k'"
  using assms by (auto simp: slot_ok_def acquire_slot_def split: if_splits)

lemma slot_ok_release:
  assumes "slot_ok m limit n k'" "k' = k \<Longrightarrow> 0 < n"
  shows "slot_ok (release_slot k m) limit (if k' = k then n - 1 else n) k'"
proof (cases "k' = k")
  case True
  then obtain n' where "n = Suc n'" using assms(2) by (cases n) auto
  with True assms(1) show ?thesis by (auto simp: slot_ok_def release_slot_def Let_def)
next
  case False
  with assms(1) show ?thesis by (auto simp: slot_ok_def release_slot_def Let_def)
qed

definition leases_ok :: "Config \<Rightarrow> 'lim Guard \<Rightarrow> (lease \<times> bool) list \<Rightarrow> bool" where
  "leases_ok config g ls \<longleftrightarrow> g_config g = config \<and>
     (\<forall>ip. slot_ok (g_connectionsIP g) (WebSocketMaxPerIP config) (held ls (IPLease ip)) ip) \<and>
     (\<forall>u. slot_ok (g_connectionsUser g) (WebSocketMaxPerUser config) (held ls (UserLease u)) u)"

lemma leases_ok_release:
  assumes "leases_ok config g (xs @ (l, False) # ys)"
  shows "leases_ok config (release_lease l g) (xs @ (l, True) # ys)"
proof -
  have h: "held (xs @ (l, True) # ys) l' =
      (if l' = l then held (xs @ (l, False) # ys) l' - 1 else held (xs @ (l, False) # ys) l')" for l'
    by simp
  have pos: "0 < held (xs @ (l, False) # ys) l" by simp
  note rel = slot_ok_release[where n = "held (xs @ (l, False) # ys) l'" for l']
  show ?thesis
  proof (cases l)
    case (IPLease ip)
    have "slot_ok (release_slot ip (g_connectionsIP g)) (WebSocketMaxPerIP config)
        (held (xs @ (l, True) # ys) (IPLease ip')) ip'" for ip'
      using rel[of "g_connectionsIP g" "WebSocketMaxPerIP config" "IPLease ip'" ip' ip] assms IPLease pos
      unfolding h by (simp add: leases_ok_def)
    with assms IPLease show ?thesis by (simp add: leases_ok_def ReleaseWebSocketIP_def)
  next
    case (UserLease u)
    have "slot_ok (release_slot u (g_connectionsUser g)) (WebSocketMaxPerUser config)
        (held (xs @ (l, True) # ys) (UserLease u')) u'" for u'
      using rel[of "g_connectionsUser g" "WebSocketMaxPerUser config" "UserLease u'" u' u] assms UserLease pos
      unfolding h by (simp add: leases_ok_def)
    with assms UserLease show ?thesis by (simp add: leases_ok_def ReleaseWebSocketUser_def)
  qed
qed

lemma slots_reachable_ok: "slots_reachable lib config g ls \<Longrightarrow> leases_ok config g ls"
proof (induction rule: slots_reachable.induct)
  case start
  then show ?case by (simp add: leases_ok_def New_def slot_ok_def)
next
  case (take_ip g ls r g' ip)
  then have a: "acquire_slot (WebSocketMaxPerIP config) ip (g_connectionsIP g) = Some (g_connectionsIP g')"
    "g_connectionsUser g' = g_connectionsUser g" "g_config g' = g_config g"
    by (auto simp: AcquireWebSocketIP_def leases_ok_def Let_def split: option.splits)
  have "slot_ok (g_connectionsIP g') (WebSocketMaxPerIP config)
      (held ((IPLease ip, False) # ls) (IPLease ip')) ip'" for ip'
    using slot_ok_acquire[OF a(1), of "held ls (IPLease ip')" ip'] take_ip.IH
    by (simp add: leases_ok_def split: if_splits)
  with a take_ip.IH show ?case by (simp add: leases_ok_def)
next
  case (take_user g ls u g' u')
  then have a: "acquire_slot (WebSocketMaxPerUser config) u' (g_connectionsUser g) = Some (g_connectionsUser g')"
    "g_connectionsIP g' = g_connectionsIP g" "g_config g' = g_config g"
    by (auto simp: AcquireWebSocketUser_def leases_ok_def split: option.splits)
  have "slot_ok (g_connectionsUser g') (WebSocketMaxPerUser config)
      (held ((UserLease u', False) # ls) (UserLease u'')) u''" for u''
    using slot_ok_acquire[OF a(1), of "held ls (UserLease u'')" u''] take_user.IH
    by (simp add: leases_ok_def split: if_splits)
  with a take_user.IH show ?case by (simp add: leases_ok_def)
next
  case (give_back g xs l ys)
  then show ?case using leases_ok_release by blast
qed

text \<open>Connection slots are exact and bounded: in every sequence of acquisitions and
  releases (a release function may be called any number of times), the counters equal the numbers
  of connections still held, never exceed \<^verbatim>\<open>WebSocketMaxPerIP\<close> or \<^verbatim>\<open>WebSocketMaxPerUser\<close>,
  and a key with no open connection has no entry left.\<close>

theorem connection_slots_exact:
  assumes "slots_reachable lib config g ls"
  shows "get_or 0 (g_connectionsIP g) ip = int (held ls (IPLease ip)) \<and>
    get_or 0 (g_connectionsUser g) u = int (held ls (UserLease u)) \<and>
    int (held ls (IPLease ip)) \<le> max 0 (WebSocketMaxPerIP config) \<and>
    int (held ls (UserLease u)) \<le> max 0 (WebSocketMaxPerUser config) \<and>
    (map_of (g_connectionsIP g) ip = None \<longleftrightarrow> held ls (IPLease ip) = 0)"
proof -
  have "slot_ok (g_connectionsIP g) (WebSocketMaxPerIP config) (held ls (IPLease ip)) ip"
    "slot_ok (g_connectionsUser g) (WebSocketMaxPerUser config) (held ls (UserLease u)) u"
    using slots_reachable_ok[OF assms] by (simp_all add: leases_ok_def)
  then show ?thesis by (auto simp: slot_ok_def)
qed

theorem connection_slots_exact_witness:
  "\<exists>g :: nat Guard. slots_reachable plain_golib DefaultConfig g [(UserLease 3, False)] \<and>
     get_or 0 (g_connectionsUser g) 3 = 1"
proof -
  obtain g :: "nat Guard" where g: "AcquireWebSocketUser 3 (New DefaultConfig) = Some (g, 3)"
    by (simp add: AcquireWebSocketUser_def acquire_slot_def New_def DefaultConfig_def)
  from slots_reachable.take_user[OF slots_reachable.start g]
  have "slots_reachable plain_golib DefaultConfig g [(UserLease 3, False)]" .
  with connection_slots_exact[OF this, of _ 3] show ?thesis by auto
qed

subsection \<open>Configuration\<close>

definition limits_positive :: "Config \<Rightarrow> bool" where
  "limits_positive c \<longleftrightarrow>
     0 < HTTPRequestsPerSecond c \<and> 0 < HTTPBurst c \<and> 0 < HTTPWritesPerSecond c \<and> 0 < HTTPWriteBurst c \<and>
     0 < CallSignalsPerSecond c \<and> 0 < CallSignalBurst c \<and> 0 < AuthRequestsPerMinute c \<and> 0 < AuthBurst c \<and>
     0 < InviteRequestsPerMinute c \<and> 0 < InviteBurst c \<and> 0 < LoginMaxFailures c \<and>
     0 < WebSocketConnectsPerMinute c \<and> 0 < WebSocketConnectBurst c \<and> 0 < WebSocketEventsPerSecond c \<and>
     0 < WebSocketEventBurst c \<and> 0 < WebSocketMaxPerIP c \<and> 0 < WebSocketMaxPerUser c \<and>
     0 < MaxRateEntries c \<and> 0 < IPMultiplier c \<and> 0 < EntryTTL c \<and>
     (IPv6PrefixBits c = 0 \<or> 32 \<le> IPv6PrefixBits c \<and> IPv6PrefixBits c \<le> 128)"

lemma env_loop_inv:
  assumes "list_all (\<lambda>(name, store). \<forall>v c. 0 < v \<longrightarrow> P c \<longrightarrow> P (store v c)) vs"
    and "P c" "env_loop env c vs = Inr c'"
  shows "P c'"
  using assms
  by (induction env c vs rule: env_loop.induct) (auto split: option.splits if_splits)

lemma env_prefix_positive: "env_prefix env c = Inr c' \<Longrightarrow> limits_positive c \<Longrightarrow> limits_positive c'"
  unfolding env_prefix_def by (auto simp: limits_positive_def split: if_splits option.splits)

lemma env_values_positive:
  "list_all (\<lambda>(name, store). \<forall>v c. 0 < v \<longrightarrow> limits_positive c \<longrightarrow> limits_positive (store v c)) env_values"
  unfolding env_values_def by (simp add: limits_positive_def)

text \<open>A configuration that \<^verbatim>\<open>ConfigFromEnv\<close> accepts has only positive rates, bursts,
  counts and table sizes, and an IPv6 prefix that is unset or between 32 and 128 bits: a bad
  environment is an error at startup and never disables a limit.\<close>

theorem ConfigFromEnv_positive:
  assumes "ConfigFromEnv env = Inr c"
  shows "limits_positive c"
proof -
  have d: "limits_positive (DefaultConfig\<lparr>TrustProxyHeaders := b\<rparr>)" for b
    by (simp add: limits_positive_def DefaultConfig_def minute_def second_def)
  obtain b c1 c2 where "env_prefix env (DefaultConfig\<lparr>TrustProxyHeaders := b\<rparr>) = Inr c1"
      "env_prefix env c1 = Inr c2" and loop: "env_loop env c2 env_values = Inr c"
    using assms unfolding ConfigFromEnv_def Let_def
    by (auto simp del: env_loop.simps split: option.splits sum.splits)
  then have "limits_positive c2" using env_prefix_positive d by blast
  then show ?thesis by (rule env_loop_inv[OF env_values_positive _ loop])
qed

text \<open>The block duration is what \<^verbatim>\<open>LOGIN_BLOCK_MINUTES\<close> makes of it, and nothing else of the environment.\<close>

lemma env_loop_append:
  "env_loop env c (xs @ ys) = (case env_loop env c xs of Inl e \<Rightarrow> Inl e | Inr c' \<Rightarrow> env_loop env c' ys)"
  by (induction env c xs rule: env_loop.induct) (auto split: option.splits)

lemma env_loop_field:
  assumes "list_all (\<lambda>(name, store). \<forall>v c. f (store v c) = f c) vs" and "env_loop env c vs = Inr c'"
  shows "f c' = f c"
  using assms by (induction env c vs rule: env_loop.induct) (auto split: option.splits if_splits)

lemma minutes_duration_bits: "minutes_duration m = signed_take_bit 63 (m * minute)"
  unfolding minutes_duration_def by (subst signed_of_int) simp

lemma minutes_duration_exact:
  assumes "0 < m" "m < 2 ^ 63"
  shows "minutes_duration m = m * minute \<longleftrightarrow> m \<le> 153722867"
proof
  have "minutes_duration m < 2 ^ 63" using sint_lt[of "word_of_int (m * minute) :: 64 word"] by (simp add: minutes_duration_def)
  then show "m \<le> 153722867" if "minutes_duration m = m * minute" using that by (simp add: minute_def second_def)
  show "minutes_duration m = m * minute" if "m \<le> 153722867"
    unfolding minutes_duration_bits using that assms(1)
    by (intro signed_take_bit_int_eq_self) (simp_all add: minute_def second_def)
qed

lemma minutes_duration_negative:
  assumes "153722867 < m" "m \<le> 307445734"
  shows "minutes_duration m < 0"
proof -
  have "signed_take_bit 63 (m * minute) = m * minute - 2 ^ 64"
  proof -
    have "signed_take_bit 63 (m * minute) = signed_take_bit 63 (m * minute - 2 ^ 64)"
      by (rule signed_take_bit_eq_iff_take_bit_eq[THEN iffD2]) (simp add: take_bit_eq_mod)
    also have "\<dots> = m * minute - 2 ^ 64"
      using assms by (intro signed_take_bit_int_eq_self) (simp_all add: minute_def second_def)
    finally show ?thesis .
  qed
  then show ?thesis using assms by (simp add: minutes_duration_bits minute_def second_def)
qed

text \<open>C24: a bad environment is an error at start-up and never disables a limit, with one exception. A
  configuration that \<^verbatim>\<open>ConfigFromEnv\<close> accepts has only positive rates, bursts, counts and table sizes, and
  an IPv6 prefix that is unset or between 32 and 128 bits. The duration of a login block is 20 minutes when
  \<^verbatim>\<open>LOGIN_BLOCK_MINUTES\<close> is not set, and otherwise the configured number of minutes exactly as long as that
  number is at most 153722867; the next 153722867 numbers are accepted too, but the product with
  \<^verbatim>\<open>time.Minute\<close> wraps around to a negative duration.\<close>

theorem ConfigFromEnv_limits:
  assumes "ConfigFromEnv env = Inr c"
  shows "limits_positive c \<and>
    (env ''LOGIN_BLOCK_MINUTES'' = [] \<longrightarrow> LoginBlockDuration c = 20 * minute) \<and>
    (env ''LOGIN_BLOCK_MINUTES'' \<noteq> [] \<longrightarrow>
       (\<exists>m. ParseInt (env ''LOGIN_BLOCK_MINUTES'') = Some m \<and> 0 < m \<and>
          (LoginBlockDuration c = m * minute \<longleftrightarrow> m \<le> 153722867) \<and>
          (153722867 < m \<and> m \<le> 307445734 \<longrightarrow> LoginBlockDuration c < 0)))"
proof -
  let ?LBM = "''LOGIN_BLOCK_MINUTES''"
  obtain b c1 c2 where p: "env_prefix env (DefaultConfig\<lparr>TrustProxyHeaders := b\<rparr>) = Inr c1" "env_prefix env c1 = Inr c2"
    and loop: "env_loop env c2 env_values = Inr c"
    using assms unfolding ConfigFromEnv_def Let_def
    by (auto simp del: env_loop.simps split: option.splits sum.splits)
  have "LoginBlockDuration c1 = 20 * minute" using p(1)
    by (auto simp: env_prefix_def DefaultConfig_def split: if_splits option.splits)
  then have d: "LoginBlockDuration c2 = 20 * minute" using p(2) by (auto simp: env_prefix_def split: if_splits option.splits)
  define xs ys where "xs = take 11 env_values" and "ys = drop 12 env_values"
  have e: "env_values = xs @ (?LBM, \<lambda>v c. c\<lparr>LoginBlockDuration := minutes_duration v\<rparr>) # ys"
    by (simp add: xs_def ys_def env_values_def)
  have other: "list_all (\<lambda>(name, store). \<forall>v c. LoginBlockDuration (store v c) = LoginBlockDuration c) (xs @ ys)"
    by (simp add: xs_def ys_def env_values_def)
  from loop obtain c3 c4 where l: "env_loop env c2 xs = Inr c3" "env_loop env c4 ys = Inr c"
    "env_loop env c3 [(?LBM, \<lambda>v c. c\<lparr>LoginBlockDuration := minutes_duration v\<rparr>)] = Inr c4"
    unfolding e env_loop_append by (auto split: sum.splits if_splits option.splits)
  have f: "LoginBlockDuration c3 = 20 * minute" "LoginBlockDuration c = LoginBlockDuration c4"
    using env_loop_field[OF _ l(1), of LoginBlockDuration] env_loop_field[OF _ l(2), of LoginBlockDuration] other d by auto
  have "env ?LBM \<noteq> [] \<Longrightarrow> \<exists>m. ParseInt (env ?LBM) = Some m \<and> 0 < m \<and> LoginBlockDuration c4 = minutes_duration m"
    and "env ?LBM = [] \<Longrightarrow> c4 = c3"
    using l(3) by (auto split: option.splits if_splits)
  moreover have "m < 2 ^ 63" if "ParseInt s = Some m" for s m using that by (auto simp: ParseInt_def Let_def split: if_splits)
  ultimately show ?thesis
    using f minutes_duration_exact minutes_duration_negative ConfigFromEnv_positive[OF assms] by metis
qed

theorem ConfigFromEnv_limits_witness:
  "\<exists>c. ConfigFromEnv (\<lambda>name. if name = ''LOGIN_BLOCK_MINUTES'' then ''15'' else []) = Inr c \<and>
     limits_positive c \<and> LoginBlockDuration c = 15 * minute"
proof -
  let ?env = "\<lambda>name. if name = ''LOGIN_BLOCK_MINUTES'' then ''15'' else []"
  have p: "ParseInt ''15'' = Some 15" by (simp add: ParseInt_def digits_value_def)
  have "ConfigFromEnv ?env = Inr (DefaultConfig\<lparr>TrustProxyHeaders := False, LoginBlockDuration := minutes_duration 15\<rparr>)"
    by (simp add: ConfigFromEnv_def env_prefix_def env_values_def p)
  with ConfigFromEnv_limits[OF this] p show ?thesis by auto
qed

end
