(* ===== verification/GoStrings.thy ===== *)
theory GoStrings
  imports Voxhold_Prelude
begin

text \<open>
  The functions of Go's \<^verbatim>\<open>strings\<close> package that the media servers use, on strings as sequences of
  UTF-8 bytes.
\<close>

text \<open>The encodings of the white space characters of \<^verbatim>\<open>unicode.IsSpace\<close>.\<close>

definition byte :: "int \<Rightarrow> char" where
  "byte n = char_of n"

definition space_runes :: "string list" where
  "space_runes =
     map (\<lambda>b. [byte b]) [9, 10, 11, 12, 13, 32] @
     map (\<lambda>b. [byte 0xC2, byte b]) [0x85, 0xA0] @
     [[byte 0xE1, byte 0x9A, byte 0x80]] @
     map (\<lambda>b. [byte 0xE2, byte 0x80, byte b])
       [0x80, 0x81, 0x82, 0x83, 0x84, 0x85, 0x86, 0x87, 0x88, 0x89, 0x8A, 0xA8, 0xA9, 0xAF] @
     [[byte 0xE2, byte 0x81, byte 0x9F], [byte 0xE3, byte 0x80, byte 0x80]]"

lemma space_runes_nonempty: "w \<in> set space_runes \<Longrightarrow> w \<noteq> []"
  by (auto simp: space_runes_def)

text \<open>Drop the words of \<open>ws\<close> from the front as long as one of them is there.\<close>

function strip_front :: "string list \<Rightarrow> string \<Rightarrow> string" where
  "strip_front ws s =
     (case find (\<lambda>w. w \<noteq> [] \<and> has_prefix s w) ws of
        None \<Rightarrow> s
      | Some w \<Rightarrow> strip_front ws (drop (length w) s))"
  by pat_completeness auto
termination
proof (relation "measure (\<lambda>(ws, s). length s)")
  fix ws s w assume "find (\<lambda>w. w \<noteq> [] \<and> has_prefix s w) ws = Some w"
  then have "w \<noteq> []" "has_prefix s w" by (auto simp: find_Some_iff)
  then have "0 < length w" "length w \<le> length s" by (auto simp: has_prefix_def dest: arg_cong[of _ _ length])
  then have "length s - length w < length s" by linarith
  then show "((ws, drop (length w) s), ws, s) \<in> measure (\<lambda>(ws, s). length s)" by simp
qed simp

declare strip_front.simps [simp del]

definition TrimSpace :: "string \<Rightarrow> string" where
  "TrimSpace s = rev (strip_front (map rev space_runes) (rev (strip_front space_runes s)))"

text \<open>\<^verbatim>\<open>strings.Split\<close> with a separator of one byte.\<close>

fun split_on :: "char \<Rightarrow> string \<Rightarrow> string list" where
  "split_on c [] = [[]]"
| "split_on c (x # xs) =
     (if x = c then [] # split_on c xs
      else case split_on c xs of [] \<Rightarrow> [[x]] | w # ws \<Rightarrow> (x # w) # ws)"

fun join_with :: "string \<Rightarrow> string list \<Rightarrow> string" where
  "join_with sep [] = []"
| "join_with sep [w] = w"
| "join_with sep (w # ws) = w @ sep @ join_with sep ws"

definition trim_prefix :: "string \<Rightarrow> string \<Rightarrow> string" where
  "trim_prefix s p = (if has_prefix s p then drop (length p) s else s)"

text \<open>\<^verbatim>\<open>strings.Split\<close> with a separator of one or more bytes; \<open>split_str\<close> looks for the next
  separator and carries the piece read so far.\<close>

function split_acc :: "string \<Rightarrow> string \<Rightarrow> string \<Rightarrow> string list" where
  "split_acc sep acc s =
     (if sep \<noteq> [] \<and> has_prefix s sep then rev acc # split_acc sep [] (drop (length sep) s)
      else case s of [] \<Rightarrow> [rev acc] | x # xs \<Rightarrow> split_acc sep (x # acc) xs)"
  by pat_completeness auto
termination
  by (relation "measure (\<lambda>(sep, acc, s). length s)")
    (auto simp: has_prefix_def dest: arg_cong[of _ _ length] intro!: diff_less split: list.splits)

declare split_acc.simps [simp del]

definition split_str :: "string \<Rightarrow> string \<Rightarrow> string list" where
  "split_str sep s = split_acc sep [] s"

text \<open>\<^verbatim>\<open>strings.Contains\<close>.\<close>

fun contains_str :: "string \<Rightarrow> string \<Rightarrow> bool" where
  "contains_str [] p \<longleftrightarrow> p = []"
| "contains_str (x # xs) p \<longleftrightarrow> has_prefix (x # xs) p \<or> contains_str xs p"

text \<open>\<^verbatim>\<open>strings.Cut\<close> with a separator of one byte; None when it is not found.\<close>

fun cut_at :: "char \<Rightarrow> string \<Rightarrow> (string \<times> string) option" where
  "cut_at c [] = None"
| "cut_at c (x # xs) = (if x = c then Some ([], xs) else map_option (apfst (Cons x)) (cut_at c xs))"

lemma split_on_nonempty [simp]: "split_on c s \<noteq> []"
  by (cases s) (auto split: list.split)

lemma join_split: "join_with [c] (split_on c s) = s"
proof (induction s)
  case (Cons x xs)
  obtain w ws where s: "split_on c xs = w # ws" by (meson split_on_nonempty neq_Nil_conv)
  with Cons show ?case by (cases ws) auto
qed simp

lemma split_on_no_sep: "w \<in> set (split_on c s) \<Longrightarrow> c \<notin> set w"
  by (induction s arbitrary: w) (auto split: if_splits list.splits)

text \<open>Strings that begin and end with a printable ASCII character are not trimmed.\<close>

definition plain_char :: "char \<Rightarrow> bool" where
  "plain_char c \<longleftrightarrow> 32 < (of_char c :: int) \<and> (of_char c :: int) < 127"

lemma byte_not_plain: "n \<le> 32 \<or> 127 \<le> n \<Longrightarrow> 0 \<le> n \<Longrightarrow> n < 256 \<Longrightarrow> \<not> plain_char (byte n)"
  by (auto simp: plain_char_def byte_def of_char_of)

lemma space_runes_ends:
  assumes "w \<in> set space_runes"
  shows "\<not> plain_char (hd w)" and "\<not> plain_char (last w)"
  using assms by (auto simp: space_runes_def byte_not_plain)

lemma strip_front_plain:
  assumes "\<And>w. w \<in> set ws \<Longrightarrow> \<not> plain_char (hd w)" and "s = [] \<or> plain_char (hd s)"
  shows "strip_front ws s = s"
proof -
  have "\<not> (w \<noteq> [] \<and> has_prefix s w)" if w: "w \<in> set ws" for w
  proof
    assume h: "w \<noteq> [] \<and> has_prefix s w"
    then obtain c w' where cw: "w = c # w'" by (cases w) auto
    with h obtain s' where "s = c # s'" by (cases s) (auto simp: has_prefix_def)
    with assms(1)[OF w] assms(2) cw show False by simp
  qed
  then have "find (\<lambda>w. w \<noteq> [] \<and> has_prefix s w) ws = None" unfolding find_None_iff by blast
  then show ?thesis by (subst strip_front.simps) simp
qed

lemma TrimSpace_plain:
  assumes "s = [] \<or> plain_char (hd s) \<and> plain_char (last s)"
  shows "TrimSpace s = s"
proof -
  have "strip_front space_runes s = s" using assms by (intro strip_front_plain space_runes_ends) auto
  moreover have "strip_front (map rev space_runes) (rev s) = rev s"
    using assms by (intro strip_front_plain) (auto simp: hd_rev dest: space_runes_ends)
  ultimately show ?thesis by (simp add: TrimSpace_def)
qed

end
