(* ===== verification/MediaPeer.thy ===== *)
theory MediaPeer
  imports GoStrings
begin

text \<open>
  What the two media servers (src/internal/voice, src/internal/stream) use of the Pion WebRTC
  library and of \<^verbatim>\<open>golang.org/x/time/rate\<close>. Neither is part of the repository: a peer connection is a
  value of a type \<open>'p\<close>, a limiter a value of a type \<open>'l\<close>, and their methods are the functions of a
  record. A method that returns an error also returns the peer, which it may have changed.
  No theorem assumes anything about them.
\<close>

datatype rtp_kind = KindUnknown | KindAudio | KindVideo \<comment> \<open>\<^verbatim>\<open>webrtc.RTPCodecType\<close>\<close>

datatype connection_state =
  StateNew | StateConnecting | StateConnected | StateDisconnected | StateFailed | StateClosed

record local_track = \<comment> \<open>a \<^verbatim>\<open>webrtc.TrackLocal\<close>\<close>
  lt_id :: string
  lt_streamID :: string
  lt_kind :: rtp_kind

record remote_track = \<comment> \<open>a \<^verbatim>\<open>webrtc.TrackRemote\<close>\<close>
  rm_kind :: rtp_kind
  rm_mimeType :: string
  rm_ssrc :: "32 word"

record candidate = \<comment> \<open>\<^verbatim>\<open>ICECandidate\<close> of both packages\<close>
  cd_Candidate :: string
  cd_SDPMid :: "string option"
  cd_SDPMLineIndex :: "16 word option"
  cd_UsernameFragment :: "string option"

record ('p, 'l) pion =
  pn_NewPeerConnection :: "nat \<Rightarrow> string + 'p" \<comment> \<open>the n-th session that is set up\<close>
  pn_AddTransceiver :: "rtp_kind \<Rightarrow> 'p \<Rightarrow> 'p \<times> string option"
  pn_GetSenders :: "'p \<Rightarrow> (nat \<times> local_track option) list"
  pn_RemoveTrack :: "nat \<Rightarrow> 'p \<Rightarrow> 'p \<times> string option"
  pn_AddTrack :: "local_track \<Rightarrow> 'p \<Rightarrow> 'p \<times> string option"
  pn_Stable :: "'p \<Rightarrow> bool" \<comment> \<open>\<^verbatim>\<open>SignalingState() == SignalingStateStable\<close>\<close>
  pn_CreateOffer :: "bool \<Rightarrow> 'p \<Rightarrow> 'p \<times> (string + string)"
  pn_SetLocalDescription :: "string \<Rightarrow> 'p \<Rightarrow> 'p \<times> string option"
  pn_SetRemoteDescription :: "string \<Rightarrow> 'p \<Rightarrow> 'p \<times> string option"
  pn_RemoteDescription :: "'p \<Rightarrow> string option"
  pn_AddICECandidate :: "candidate \<Rightarrow> 'p \<Rightarrow> 'p \<times> string option"
  pn_ConnectionState :: "'p \<Rightarrow> connection_state"
  pn_Close :: "'p \<Rightarrow> 'p"
  pn_NewTrack :: "remote_track \<Rightarrow> string \<Rightarrow> string \<Rightarrow> string + local_track"
  rl_NewLimiter :: "int \<Rightarrow> int \<Rightarrow> 'l"
  rl_AllowN :: "int \<Rightarrow> int \<Rightarrow> 'l \<Rightarrow> bool \<times> 'l"

subsection \<open>What the media servers rely on\<close>

subsection \<open>Candidates of an earlier negotiation\<close>

definition ice_ufrag_prefix :: string where
  "ice_ufrag_prefix = ''a=ice-ufrag:''"

definition ufrag_line :: "string \<Rightarrow> string \<Rightarrow> bool" where
  "ufrag_line ufrag line0 \<longleftrightarrow>
     (let line = TrimSpace line0 in
      has_prefix line ice_ufrag_prefix \<and> TrimSpace (trim_prefix line ice_ufrag_prefix) = TrimSpace ufrag)"

definition candidateMatchesRemoteDescription :: "string \<Rightarrow> string option \<Rightarrow> bool" where
  "candidateMatchesRemoteDescription sdp usernameFragment \<longleftrightarrow>
     (case usernameFragment of
        None \<Rightarrow> True
      | Some ufrag \<Rightarrow>
          if TrimSpace ufrag = '''' then True
          else list_ex (ufrag_line ufrag) (split_on (byte 10) sdp))"

end
