(* ===== verification/MediaTimers.thy ===== *)
theory MediaTimers
  imports Voxhold_Prelude
begin

text \<open>
  The two timers of a media session. \<open>deadline\<close> is \<^verbatim>\<open>mediahandshake.Deadline\<close>
  (src/internal/mediahandshake/deadline.go): it bounds the wait for the first answer and for the
  first connection. \<open>controller\<close> is \<^verbatim>\<open>webrtcrecovery.Controller\<close>
  (src/internal/webrtcrecovery/controller.go): it retries an ICE restart a bounded number of times.

  Both run goroutines beside the calls of the session, so each is a step relation. A section under
  the mutex is one step, a timer that has fired but not yet taken the mutex is a state of its own,
  time passes in steps, and the steps of all goroutines interleave freely. Times are nanoseconds, as
  \<^verbatim>\<open>time.Duration\<close> counts them. The locale \<open>kept_by\<close> carries an invariant along a run.
\<close>

locale kept_by =
  fixes I :: "'s \<Rightarrow> bool" and step :: "'s \<Rightarrow> 's \<Rightarrow> bool"
  assumes keep: "I s \<Longrightarrow> step s s' \<Longrightarrow> I s'"
begin

lemma along: "step\<^sup>*\<^sup>* s s' \<Longrightarrow> I s \<Longrightarrow> I s'"
  by (induction rule: rtranclp_induct) (auto intro: keep)

end

definition nanos :: int where \<comment> \<open>\<^verbatim>\<open>time.Second\<close>\<close>
  "nanos = 1000000000"

subsection \<open>The handshake deadline\<close>

definition AnswerTimeout :: int where
  "AnswerTimeout = 20 * nanos"

definition ConnectTimeout :: int where
  "ConnectTimeout = 30 * nanos"

datatype timer_state =
    Armed    \<comment> \<open>the time has not come\<close>
  | Stopped  \<comment> \<open>\<^verbatim>\<open>timer.Stop()\<close> came first\<close>
  | Running  \<comment> \<open>the closure has started and waits for the mutex\<close>
  | Expiring \<comment> \<open>the closure has set the stage to 3 and released the mutex; \<^verbatim>\<open>d.expire\<close> is not called yet\<close>
  | Finished

record timer =
  tm_due :: int
  tm_stage :: nat
  tm_reason :: string
  tm_state :: timer_state

record deadline =
  dl_stage :: nat
  dl_timer :: "nat option"    \<comment> \<open>an index into \<open>dl_timers\<close>; None is nil\<close>
  dl_timers :: "timer list"   \<comment> \<open>every timer \<^verbatim>\<open>time.AfterFunc\<close> has made\<close>
  dl_expired :: "string list" \<comment> \<open>the calls of \<^verbatim>\<open>d.expire\<close>\<close>
  dl_now :: int

definition new_deadline :: "int \<Rightarrow> deadline" where
  "new_deadline now =
     \<lparr> dl_stage = 0, dl_timer = None, dl_timers = [], dl_expired = [], dl_now = now \<rparr>"

definition arm :: "nat \<Rightarrow> int \<Rightarrow> string \<Rightarrow> deadline \<Rightarrow> deadline" where
  "arm stage timeout reason d =
     d\<lparr> dl_timer := Some (length (dl_timers d)),
        dl_timers := dl_timers d @
          [\<lparr> tm_due = dl_now d + timeout, tm_stage = stage, tm_reason = reason, tm_state = Armed \<rparr>] \<rparr>"

definition timer_stop :: "nat \<Rightarrow> deadline \<Rightarrow> deadline" where
  "timer_stop i d =
     (if i < length (dl_timers d) \<and> tm_state (dl_timers d ! i) = Armed then
        d\<lparr> dl_timers := (dl_timers d)[i := (dl_timers d ! i)\<lparr> tm_state := Stopped \<rparr>] \<rparr>
      else d)"

definition deadline_Offer :: "deadline \<Rightarrow> deadline" where
  "deadline_Offer d =
     (if dl_stage d \<noteq> 0 then d
      else arm 1 AnswerTimeout ''initial WebRTC answer timed out'' (d\<lparr> dl_stage := 1 \<rparr>))"

text \<open>\<^verbatim>\<open>d.timer.Stop()\<close> on a nil timer panics: None.\<close>

definition deadline_Answer :: "deadline \<Rightarrow> deadline option" where
  "deadline_Answer d =
     (if dl_stage d \<noteq> 1 then Some d
      else (case dl_timer d of
              None \<Rightarrow> None
            | Some i \<Rightarrow>
                Some (arm 2 ConnectTimeout ''initial WebRTC connection timed out''
                       ((timer_stop i d)\<lparr> dl_stage := 2 \<rparr>))))"

definition deadline_Stop :: "deadline \<Rightarrow> deadline" where
  "deadline_Stop d =
     (case dl_timer d of
        None \<Rightarrow> d\<lparr> dl_stage := 3 \<rparr>
      | Some i \<Rightarrow> timer_stop i (d\<lparr> dl_stage := 3 \<rparr>))"

text \<open>The runtime starts the closure of a due timer; the closure takes the mutex and looks at the
  stage; when it is that of the timer, it finishes the deadline, releases the mutex and only then calls
  \<^verbatim>\<open>d.expire\<close>, so other calls can come in between.\<close>

definition timer_fire :: "nat \<Rightarrow> deadline \<Rightarrow> deadline option" where
  "timer_fire i d =
     (if i < length (dl_timers d) \<and> tm_state (dl_timers d ! i) = Armed \<and> tm_due (dl_timers d ! i) \<le> dl_now d
      then Some (d\<lparr> dl_timers := (dl_timers d)[i := (dl_timers d ! i)\<lparr> tm_state := Running \<rparr>] \<rparr>)
      else None)"

definition timer_callback :: "nat \<Rightarrow> deadline \<Rightarrow> deadline option" where
  "timer_callback i d =
     (if i < length (dl_timers d) \<and> tm_state (dl_timers d ! i) = Running then
        (let t = dl_timers d ! i;
             to = (\<lambda>st. (dl_timers d)[i := t\<lparr> tm_state := st \<rparr>]) in
         Some (if dl_stage d \<noteq> tm_stage t then d\<lparr> dl_timers := to Finished \<rparr>
               else d\<lparr> dl_timers := to Expiring, dl_stage := 3 \<rparr>))
      else None)"

definition timer_expire :: "nat \<Rightarrow> deadline \<Rightarrow> deadline option" where
  "timer_expire i d =
     (if i < length (dl_timers d) \<and> tm_state (dl_timers d ! i) = Expiring then
        Some (d\<lparr> dl_timers := (dl_timers d)[i := (dl_timers d ! i)\<lparr> tm_state := Finished \<rparr>],
                 dl_expired := dl_expired d @ [tm_reason (dl_timers d ! i)] \<rparr>)
      else None)"

inductive deadline_step :: "deadline \<Rightarrow> deadline \<Rightarrow> bool" where
  offer: "deadline_step d (deadline_Offer d)"
| answer: "deadline_Answer d = Some d' \<Longrightarrow> deadline_step d d'"
| stop: "deadline_step d (deadline_Stop d)"
| fire: "timer_fire i d = Some d' \<Longrightarrow> deadline_step d d'"
| callback: "timer_callback i d = Some d' \<Longrightarrow> deadline_step d d'"
| expire: "timer_expire i d = Some d' \<Longrightarrow> deadline_step d d'"
| elapse: "dl_now d \<le> t \<Longrightarrow> deadline_step d (d\<lparr> dl_now := t \<rparr>)"

subsection \<open>The recovery controller\<close>

record policy =
  pl_InitialDelay :: int
  pl_RetryDelay :: int
  pl_MaxAttempts :: int

datatype run_pc =
    Sleep "int option" int \<comment> \<open>in \<^verbatim>\<open>wait\<close> before iteration \<open>index\<close>; None when the delay is not positive\<close>
  | Check int              \<comment> \<open>at the \<^verbatim>\<open>select\<close> at the head of the loop body\<close>
  | Attempting int         \<comment> \<open>about to call \<^verbatim>\<open>attempt()\<close>\<close>
  | FinalCheck             \<comment> \<open>at the \<^verbatim>\<open>select\<close> after the loop\<close>
  | Exhausting             \<comment> \<open>about to call \<^verbatim>\<open>exhausted()\<close>\<close>
  | Clearing               \<comment> \<open>before the last section under \<^verbatim>\<open>c.mu\<close>\<close>
  | Returned

record recovery_run =
  rn_cancel :: nat
  rn_pc :: run_pc
  rn_attempts :: "int list" \<comment> \<open>the times at which \<^verbatim>\<open>attempt\<close> was called, the last one first\<close>
  rn_exhausted :: nat       \<comment> \<open>how often \<^verbatim>\<open>exhausted\<close> was called\<close>

record controller =
  rc_policy :: policy
  rc_cancel :: "nat option" \<comment> \<open>the channel \<^verbatim>\<open>c.cancel\<close>; None is nil\<close>
  rc_closed :: "nat list"   \<comment> \<open>the closed channels\<close>
  rc_channels :: nat        \<comment> \<open>how many channels were made\<close>
  rc_runs :: "recovery_run list"
  rc_now :: int

definition new_policy :: "policy \<Rightarrow> policy" where
  "new_policy p =
     \<lparr> pl_InitialDelay = (if pl_InitialDelay p < 0 then 0 else pl_InitialDelay p),
        pl_RetryDelay = (if pl_RetryDelay p \<le> 0 then nanos else pl_RetryDelay p),
        pl_MaxAttempts = (if pl_MaxAttempts p \<le> 0 then 1 else pl_MaxAttempts p) \<rparr>"

definition new_controller :: "policy \<Rightarrow> int \<Rightarrow> controller" where
  "new_controller p now =
     \<lparr> rc_policy = new_policy p, rc_cancel = None, rc_closed = [], rc_channels = 0, rc_runs = [],
        rc_now = now \<rparr>"

text \<open>Closing a closed channel panics: None.\<close>

definition close_channel :: "nat \<Rightarrow> controller \<Rightarrow> controller option" where
  "close_channel ch c =
     (if ch \<in> set (rc_closed c) then None else Some (c\<lparr> rc_closed := ch # rc_closed c \<rparr>))"

definition start_wait :: "controller \<Rightarrow> int \<Rightarrow> int \<Rightarrow> run_pc" where
  "start_wait c delay index = Sleep (if delay \<le> 0 then None else Some (rc_now c + delay)) index"

definition start_run :: "bool \<Rightarrow> controller \<Rightarrow> controller" where
  "start_run immediate c =
     (let cancel = rc_channels c;
          delay = (if immediate then 0 else pl_InitialDelay (rc_policy c)) in
      c\<lparr> rc_cancel := Some cancel, rc_channels := Suc cancel,
         rc_runs := rc_runs c @
           [\<lparr> rn_cancel = cancel, rn_pc = start_wait c delay 0, rn_attempts = [], rn_exhausted = 0 \<rparr>] \<rparr>)"

definition controller_Start :: "bool \<Rightarrow> controller \<Rightarrow> controller option" where
  "controller_Start immediate c =
     (case rc_cancel c of
        None \<Rightarrow> Some (start_run immediate c)
      | Some ch \<Rightarrow>
          if \<not> immediate then Some c
          else do { c1 \<leftarrow> close_channel ch c; Some (start_run immediate c1) })"

definition controller_Stop :: "controller \<Rightarrow> controller option" where
  "controller_Stop c =
     (case rc_cancel c of
        None \<Rightarrow> Some c
      | Some ch \<Rightarrow> do { c1 \<leftarrow> close_channel ch c; Some (c1\<lparr> rc_cancel := None \<rparr>) })"

definition set_run :: "nat \<Rightarrow> recovery_run \<Rightarrow> controller \<Rightarrow> controller" where
  "set_run i r c = c\<lparr> rc_runs := (rc_runs c)[i := r] \<rparr>"

definition cancelled :: "controller \<Rightarrow> recovery_run \<Rightarrow> bool" where
  "cancelled c r \<longleftrightarrow> rn_cancel r \<in> set (rc_closed c)"

text \<open>Where \<^verbatim>\<open>run\<close> continues after \<^verbatim>\<open>wait\<close> returned true before iteration \<open>index\<close>.\<close>

definition loop_head :: "controller \<Rightarrow> int \<Rightarrow> run_pc" where
  "loop_head c index = (if index < pl_MaxAttempts (rc_policy c) then Check index else FinalCheck)"

text \<open>One step of the goroutine of run \<open>i\<close> that does not take the cancel branch of a waiting
  \<^verbatim>\<open>select\<close>; None when it must wait.\<close>

definition run_step :: "nat \<Rightarrow> controller \<Rightarrow> controller option" where
  "run_step i c =
     (let r = rc_runs c ! i in
      case rn_pc r of
        Sleep None index \<Rightarrow>
          Some (set_run i (r\<lparr> rn_pc := if cancelled c r then Returned else loop_head c index \<rparr>) c)
      | Sleep (Some due) index \<Rightarrow>
          if due \<le> rc_now c then Some (set_run i (r\<lparr> rn_pc := loop_head c index \<rparr>) c) else None
      | Check index \<Rightarrow>
          Some (set_run i (r\<lparr> rn_pc := if cancelled c r then Returned else Attempting index \<rparr>) c)
      | Attempting index \<Rightarrow>
          Some (set_run i
            (r\<lparr> rn_attempts := rc_now c # rn_attempts r,
                rn_pc := start_wait c (pl_RetryDelay (rc_policy c)) (index + 1) \<rparr>) c)
      | FinalCheck \<Rightarrow>
          Some (set_run i (r\<lparr> rn_pc := if cancelled c r then Returned else Exhausting \<rparr>) c)
      | Exhausting \<Rightarrow>
          Some (set_run i (r\<lparr> rn_exhausted := Suc (rn_exhausted r), rn_pc := Clearing \<rparr>) c)
      | Clearing \<Rightarrow>
          (let c1 = (if rc_cancel c = Some (rn_cancel r) then c\<lparr> rc_cancel := None \<rparr> else c) in
           Some (set_run i (r\<lparr> rn_pc := Returned \<rparr>) c1))
      | Returned \<Rightarrow> None)"

text \<open>The cancel branch of the \<^verbatim>\<open>select\<close> in \<^verbatim>\<open>wait\<close>.\<close>

definition run_cancel :: "nat \<Rightarrow> controller \<Rightarrow> controller option" where
  "run_cancel i c =
     (let r = rc_runs c ! i in
      case rn_pc r of
        Sleep (Some due) index \<Rightarrow>
          if cancelled c r then Some (set_run i (r\<lparr> rn_pc := Returned \<rparr>) c) else None
      | _ \<Rightarrow> None)"

inductive controller_step :: "controller \<Rightarrow> controller \<Rightarrow> bool" where
  start: "controller_Start immediate c = Some c' \<Longrightarrow> controller_step c c'"
| stop: "controller_Stop c = Some c' \<Longrightarrow> controller_step c c'"
| run: "i < length (rc_runs c) \<Longrightarrow> run_step i c = Some c' \<Longrightarrow> controller_step c c'"
| cancel: "i < length (rc_runs c) \<Longrightarrow> run_cancel i c = Some c' \<Longrightarrow> controller_step c c'"
| elapse: "rc_now c \<le> t \<Longrightarrow> controller_step c (c\<lparr> rc_now := t \<rparr>)"


subsection \<open>The deadline is enforced once\<close>

definition live :: "timer \<Rightarrow> bool" where
  "live t \<longleftrightarrow> tm_state t = Armed \<or> tm_state t = Running"

definition due_ok :: "int \<Rightarrow> timer \<Rightarrow> bool" where
  "due_ok now t \<longleftrightarrow> (tm_state t \<in> {Running, Expiring, Finished} \<longrightarrow> tm_due t \<le> now)"

text \<open>The time-outs that were decided: those reported and the one whose call is still to come.\<close>

definition expiring :: "timer list \<Rightarrow> string list" where
  "expiring ts = map tm_reason (filter (\<lambda>t. tm_state t = Expiring) ts)"

definition decided :: "deadline \<Rightarrow> string list" where
  "decided d = dl_expired d @ expiring (dl_timers d)"

text \<open>The timers are those of stage 1 and stage 2, in this order; the current stage has a live
  timer, and a timer whose closure started was due.\<close>

definition deadline_inv :: "deadline \<Rightarrow> bool" where
  "deadline_inv d \<longleftrightarrow>
     dl_stage d \<le> 3 \<and>
     (dl_stage d = 0 \<longrightarrow> dl_timers d = [] \<and> dl_timer d = None) \<and>
     (dl_stage d = 1 \<or> dl_stage d = 2 \<longrightarrow>
        length (dl_timers d) = dl_stage d \<and> dl_timer d = Some (dl_stage d - 1) \<and>
        live (dl_timers d ! (dl_stage d - 1))) \<and>
     (\<forall>i < length (dl_timers d). tm_stage (dl_timers d ! i) = Suc i \<and> due_ok (dl_now d) (dl_timers d ! i)) \<and>
     length (dl_timers d) \<le> 2 \<and>
     length (decided d) \<le> (if dl_stage d = 3 then 1 else 0) \<and>
     (\<forall>r \<in> set (dl_expired d).
        \<exists>i < length (dl_timers d). tm_reason (dl_timers d ! i) = r \<and> tm_state (dl_timers d ! i) = Finished)"

lemma expiring_simps [simp]:
  "expiring [] = []" "expiring (t # ts) = (if tm_state t = Expiring then [tm_reason t] else []) @ expiring ts"
  "expiring (ts @ us) = expiring ts @ expiring us"
  by (simp_all add: expiring_def)

lemma expiring_update:
  assumes "i < length ts" and "tm_state (ts ! i) \<noteq> Expiring" and "st \<noteq> Expiring"
  shows "expiring (ts[i := (ts ! i)\<lparr> tm_state := st \<rparr>]) = expiring ts"
  using assms by (induction ts arbitrary: i) (auto split: nat.split)

lemma new_deadline_inv [simp]: "deadline_inv (new_deadline now)"
  by (simp add: deadline_inv_def new_deadline_def decided_def)

lemma deadline_Offer_inv: "deadline_inv d \<Longrightarrow> deadline_inv (deadline_Offer d)"
  by (auto simp: deadline_inv_def deadline_Offer_def arm_def live_def due_ok_def decided_def)

text \<open>A change of the state of one timer that keeps what its stage needs.\<close>

lemma due_ok_update:
  assumes "\<forall>i < length ts. tm_stage (ts ! i) = Suc i \<and> due_ok now (ts ! i)" and "j < length ts"
    and "due_ok now ((ts ! j)\<lparr> tm_state := st \<rparr>)"
  shows "\<forall>i < length (ts[j := (ts ! j)\<lparr> tm_state := st \<rparr>]).
           tm_stage (ts[j := (ts ! j)\<lparr> tm_state := st \<rparr>] ! i) = Suc i \<and>
           due_ok now (ts[j := (ts ! j)\<lparr> tm_state := st \<rparr>] ! i)"
  using assms by (auto simp: nth_list_update)

lemma expired_update:
  assumes "\<forall>r \<in> set rs. \<exists>i < length ts. tm_reason (ts ! i) = r \<and> tm_state (ts ! i) = Finished"
    and "j < length ts" and "tm_state (ts ! j) = Finished \<longrightarrow> st = Finished"
  shows "\<forall>r \<in> set rs. \<exists>i < length (ts[j := (ts ! j)\<lparr> tm_state := st \<rparr>]).
           tm_reason (ts[j := (ts ! j)\<lparr> tm_state := st \<rparr>] ! i) = r \<and>
           tm_state (ts[j := (ts ! j)\<lparr> tm_state := st \<rparr>] ! i) = Finished"
proof
  fix r assume "r \<in> set rs"
  then obtain i where i: "i < length ts" "tm_reason (ts ! i) = r" "tm_state (ts ! i) = Finished"
    using assms(1) by blast
  show "\<exists>i < length (ts[j := (ts ! j)\<lparr> tm_state := st \<rparr>]).
           tm_reason (ts[j := (ts ! j)\<lparr> tm_state := st \<rparr>] ! i) = r \<and>
           tm_state (ts[j := (ts ! j)\<lparr> tm_state := st \<rparr>] ! i) = Finished"
    using i assms(2,3) by (intro exI[of _ i]) (auto simp: nth_list_update)
qed

lemma deadline_Answer_inv:
  assumes "deadline_inv d" and "deadline_Answer d = Some d'"
  shows "deadline_inv d'"
proof (cases "dl_stage d = 1")
  case True
  then obtain t where t: "dl_timers d = [t]" "live t" "tm_stage t = 1" "dl_expired d = []" "dl_timer d = Some 0" "due_ok (dl_now d) t"
    using assms(1) by (auto simp: deadline_inv_def decided_def length_Suc_conv)
  let ?u = "\<lparr> tm_due = dl_now d + ConnectTimeout, tm_stage = 2, tm_reason = ''initial WebRTC connection timed out'', tm_state = Armed \<rparr>"
  obtain t' where t': "dl_timers d' = [t', ?u]" "tm_stage t' = 1" "due_ok (dl_now d) t'" "tm_state t' = Stopped \<or> tm_state t' = Running"
    and d': "dl_stage d' = 2" "dl_timer d' = Some 1" "dl_expired d' = []" "dl_now d' = dl_now d"
    using assms(2) True t by (cases "tm_state t") (auto simp: deadline_Answer_def timer_stop_def arm_def live_def due_ok_def)
  then show ?thesis
    by (auto simp: deadline_inv_def decided_def live_def due_ok_def less_Suc_eq)
next
  case False
  with assms show ?thesis by (simp add: deadline_Answer_def)
qed

lemma timer_state_inv:
  assumes inv: "deadline_inv d" and i: "i < length (dl_timers d)"
    and due: "due_ok (dl_now d) ((dl_timers d ! i)\<lparr> tm_state := st \<rparr>)"
    and fin: "tm_state (dl_timers d ! i) = Finished \<longrightarrow> st = Finished"
    and live: "dl_stage d = 1 \<or> dl_stage d = 2 \<Longrightarrow> dl_stage d - 1 = i \<Longrightarrow> st = Armed \<or> st = Running"
    and few: "length (dl_expired d @ expiring ((dl_timers d)[i := (dl_timers d ! i)\<lparr> tm_state := st \<rparr>]))
                \<le> (if dl_stage d = 3 then 1 else 0)"
  shows "deadline_inv (d\<lparr> dl_timers := (dl_timers d)[i := (dl_timers d ! i)\<lparr> tm_state := st \<rparr>] \<rparr>)"
proof -
  let ?ts = "(dl_timers d)[i := (dl_timers d ! i)\<lparr> tm_state := st \<rparr>]"
  have stages: "\<forall>j < length ?ts. tm_stage (?ts ! j) = Suc j \<and> due_ok (dl_now d) (?ts ! j)"
    by (rule due_ok_update[OF _ i due]) (use inv in \<open>simp add: deadline_inv_def\<close>)
  have expired: "\<forall>r \<in> set (dl_expired d).
      \<exists>j < length ?ts. tm_reason (?ts ! j) = r \<and> tm_state (?ts ! j) = Finished"
    by (rule expired_update[OF _ i fin]) (use inv in \<open>simp add: deadline_inv_def\<close>)
  have "live (?ts ! (dl_stage d - 1))" if "dl_stage d = 1 \<or> dl_stage d = 2"
    using that inv live i by (auto simp: deadline_inv_def live_def nth_list_update)
  with stages expired inv i few show ?thesis by (simp add: deadline_inv_def decided_def)
qed

lemma finish_inv: "deadline_inv d \<Longrightarrow> deadline_inv (d\<lparr> dl_stage := 3 \<rparr>)"
  by (auto simp: deadline_inv_def decided_def split: if_splits)

lemma decided_few: "deadline_inv d \<Longrightarrow> length (dl_expired d @ expiring (dl_timers d)) \<le> (if dl_stage d = 3 then 1 else 0)"
  by (simp add: deadline_inv_def decided_def)

lemma deadline_Stop_inv:
  assumes "deadline_inv d"
  shows "deadline_inv (deadline_Stop d)"
proof -
  note base = finish_inv[OF assms]
  have "deadline_inv (timer_stop i (d\<lparr> dl_stage := 3 \<rparr>))" for i
    using base timer_state_inv[OF base, of i Stopped] decided_few[OF base]
    by (auto simp: timer_stop_def due_ok_def expiring_update)
  with base show ?thesis by (auto simp: deadline_Stop_def split: option.split)
qed

lemma timer_fire_inv:
  assumes "deadline_inv d" and "timer_fire i d = Some d'"
  shows "deadline_inv d'"
  using assms timer_state_inv[of d i Running] decided_few[OF assms(1)]
  by (auto simp: timer_fire_def due_ok_def expiring_update split: if_splits)

lemma timer_callback_cases:
  assumes "timer_callback i d = Some d'"
  obtains (stale) "i < length (dl_timers d)" "tm_state (dl_timers d ! i) = Running"
      "dl_stage d \<noteq> tm_stage (dl_timers d ! i)"
      "d' = d\<lparr> dl_timers := (dl_timers d)[i := (dl_timers d ! i)\<lparr> tm_state := Finished \<rparr>] \<rparr>"
  | (decide) "i < length (dl_timers d)" "tm_state (dl_timers d ! i) = Running"
      "dl_stage d = tm_stage (dl_timers d ! i)"
      "d' = d\<lparr> dl_stage := 3, dl_timers := (dl_timers d)[i := (dl_timers d ! i)\<lparr> tm_state := Expiring \<rparr>] \<rparr>"
  using assms by (auto simp: timer_callback_def Let_def split: if_splits)

text \<open>A timer of the current stage that starts to expire: nothing was decided before.\<close>

lemma decide_first:
  assumes "deadline_inv d" and "i < length (dl_timers d)" and "dl_stage d = tm_stage (dl_timers d ! i)"
  shows "dl_stage d \<noteq> 3 \<and> dl_expired d = [] \<and> expiring (dl_timers d) = []"
proof -
  have "tm_stage (dl_timers d ! i) = Suc i" "length (dl_timers d) \<le> 2"
    using assms(1,2) by (simp_all add: deadline_inv_def)
  then have "dl_stage d \<noteq> 3" using assms(2,3) by linarith
  then show ?thesis using assms(1) by (auto simp: deadline_inv_def decided_def)
qed

lemma expiring_one:
  assumes "expiring ts = []" and "i < length ts"
  shows "expiring (ts[i := (ts ! i)\<lparr> tm_state := Expiring \<rparr>]) = [tm_reason (ts ! i)]"
  using assms by (induction ts arbitrary: i) (auto split: nat.split if_splits)

lemma timer_callback_decided:
  assumes "deadline_inv d" and "timer_callback i d = Some d'"
  shows "if dl_stage d = tm_stage (dl_timers d ! i) then decided d' = decided d @ [tm_reason (dl_timers d ! i)]
         else decided d' = decided d"
  using assms(2)
proof (cases rule: timer_callback_cases)
  case stale
  then show ?thesis by (simp add: decided_def expiring_update)
next
  case decide
  then show ?thesis using decide_first[OF assms(1) decide(1,3)] by (simp add: decided_def expiring_one)
qed

lemma timer_callback_inv:
  assumes "deadline_inv d" and "timer_callback i d = Some d'"
  shows "deadline_inv d'"
  using assms(2)
proof (cases rule: timer_callback_cases)
  case stale
  have "dl_stage d = 1 \<or> dl_stage d = 2 \<Longrightarrow> dl_stage d - 1 \<noteq> i"
    using assms(1) stale(1,3) by (auto simp: deadline_inv_def)
  moreover have "due_ok (dl_now d) ((dl_timers d ! i)\<lparr> tm_state := Finished \<rparr>)"
    using assms(1) stale(1,2) by (auto simp: deadline_inv_def due_ok_def)
  ultimately show ?thesis
    unfolding stale(4) using decided_few[OF assms(1)] stale(1,2)
    by (intro timer_state_inv[OF assms(1) stale(1)]) (simp_all add: expiring_update)
next
  case decide
  have due: "due_ok (dl_now d) ((dl_timers d ! i)\<lparr> tm_state := Expiring \<rparr>)"
    using assms(1) decide(1,2) by (auto simp: deadline_inv_def due_ok_def)
  show ?thesis
    using timer_state_inv[OF finish_inv[OF assms(1)], of i Expiring] due decide(1,2)
      decide_first[OF assms(1) decide(1,3)] expiring_one[of "dl_timers d" i]
    by (simp add: decide(4))
qed

lemma expiring_split:
  assumes "i < length ts" and "tm_state (ts ! i) = Expiring" and "length (expiring ts) \<le> 1"
  shows "expiring ts = [tm_reason (ts ! i)]" and "expiring (ts[i := (ts ! i)\<lparr> tm_state := Finished \<rparr>]) = []"
  using assms by (induction ts arbitrary: i) (auto split: nat.splits if_splits simp: nth_Cons)

lemma timer_expire_inv:
  assumes inv: "deadline_inv d" and "timer_expire i d = Some d'"
  shows "deadline_inv d' \<and> dl_stage d' = dl_stage d \<and> decided d' = decided d"
proof -
  let ?ts = "(dl_timers d)[i := (dl_timers d ! i)\<lparr> tm_state := Finished \<rparr>]"
  have i: "i < length (dl_timers d)" "tm_state (dl_timers d ! i) = Expiring"
    and d': "d' = d\<lparr> dl_timers := ?ts, dl_expired := dl_expired d @ [tm_reason (dl_timers d ! i)] \<rparr>"
    using assms(2) by (auto simp: timer_expire_def split: if_splits)
  have "length (expiring (dl_timers d)) \<le> 1" using decided_few[OF inv] by (simp split: if_splits)
  note e = expiring_split[OF i this]
  have s: "dl_stage d = 3" "dl_expired d = []" using decided_few[OF inv] e(1) by (auto split: if_splits)
  have "due_ok (dl_now d) ((dl_timers d ! i)\<lparr> tm_state := Finished \<rparr>)"
    using inv i by (auto simp: deadline_inv_def due_ok_def)
  then have "deadline_inv (d\<lparr> dl_timers := ?ts \<rparr>)"
    using s e(2) by (intro timer_state_inv[OF inv i(1)]) simp_all
  moreover have "\<exists>j < length ?ts. tm_reason (?ts ! j) = tm_reason (dl_timers d ! i) \<and> tm_state (?ts ! j) = Finished"
    using i(1) by (intro exI[of _ i]) simp
  ultimately show ?thesis using s e by (simp add: d' deadline_inv_def decided_def)
qed

interpretation deadline: kept_by deadline_inv deadline_step
proof
  fix d d' assume inv: "deadline_inv d" and "deadline_step d d'"
  from this(2) show "deadline_inv d'"
  proof cases
    case (elapse t)
    with inv show ?thesis by (fastforce simp: deadline_inv_def due_ok_def decided_def)
  qed (use inv timer_expire_inv in \<open>auto intro: deadline_Offer_inv deadline_Answer_inv deadline_Stop_inv timer_fire_inv
        timer_callback_inv\<close>)
qed

text \<open>What a step decides: at most a time-out of the current stage.\<close>

lemma timer_stop_decided: "expiring (dl_timers (timer_stop i d)) = expiring (dl_timers d)"
  by (simp add: timer_stop_def expiring_update)

lemma timer_stop_fields [simp]:
  "dl_expired (timer_stop i d) = dl_expired d" "dl_stage (timer_stop i d) = dl_stage d"
  by (simp_all add: timer_stop_def)

lemma deadline_step_decided:
  assumes inv: "deadline_inv d" and step: "deadline_step d d'"
  shows "decided d' = decided d \<or>
    (\<exists>i < length (dl_timers d). tm_stage (dl_timers d ! i) = dl_stage d \<and> tm_due (dl_timers d ! i) \<le> dl_now d \<and>
       dl_stage d' = 3 \<and> decided d' = decided d @ [tm_reason (dl_timers d ! i)])"
  using step
proof cases
  case (callback i)
  then show ?thesis
  proof (cases rule: timer_callback_cases)
    case decide
    have "tm_due (dl_timers d ! i) \<le> dl_now d" using inv decide(1,2) by (auto simp: deadline_inv_def due_ok_def)
    with decide timer_callback_decided[OF inv callback] show ?thesis by (intro disjI2 exI[of _ i]) simp
  qed (use timer_callback_decided[OF inv callback] in simp)
next
  case (fire i)
  then show ?thesis by (auto simp: timer_fire_def decided_def expiring_update split: if_splits)
next
  case answer
  then show ?thesis
    by (auto simp: deadline_Answer_def arm_def decided_def timer_stop_decided split: if_splits option.splits)
qed (use inv timer_expire_inv in \<open>auto simp: deadline_Offer_def deadline_Stop_def arm_def decided_def timer_stop_decided split: option.splits\<close>)

text \<open>A finished deadline stays finished and decides nothing any more.\<close>

definition finished :: "string list \<Rightarrow> deadline \<Rightarrow> bool" where
  "finished rs d \<longleftrightarrow> deadline_inv d \<and> dl_stage d = 3 \<and> decided d = rs"

interpretation deadline_finished: kept_by "finished rs" deadline_step for rs
proof
  fix d d' assume fin: "finished rs d" and step: "deadline_step d d'"
  have "dl_stage d' = 3" using step
  proof cases
    case (callback i)
    then show ?thesis
      using fin by (cases rule: timer_callback_cases) (auto simp: finished_def)
  qed (use fin in \<open>auto simp: finished_def deadline_Offer_def deadline_Answer_def deadline_Stop_def
        timer_fire_def timer_expire_def split: option.splits if_splits\<close>)
  moreover have "tm_stage (dl_timers d ! i) \<noteq> 3" if "i < length (dl_timers d)" for i
    using fin that by (auto simp: finished_def deadline_inv_def)
  ultimately show "finished rs d'"
    using fin deadline.keep[OF _ step] deadline_step_decided[OF _ step] by (auto simp: finished_def)
qed

lemma stop_finished:
  assumes "deadline_inv d"
  shows "finished (decided d) (deadline_Stop d)"
  using deadline_Stop_inv[OF assms] timer_stop_decided[of _ "d\<lparr> dl_stage := 3 \<rparr>"]
  by (auto simp: finished_def deadline_Stop_def decided_def split: option.split)

lemma decided_due:
  assumes inv: "deadline_inv d" and r: "r \<in> set (decided d)"
  shows "\<exists>i < length (dl_timers d). tm_reason (dl_timers d ! i) = r \<and> tm_due (dl_timers d ! i) \<le> dl_now d"
proof -
  have due: "tm_due (dl_timers d ! i) \<le> dl_now d"
    if "i < length (dl_timers d)" "tm_state (dl_timers d ! i) \<in> {Expiring, Finished}" for i
    using inv that by (auto simp: deadline_inv_def due_ok_def)
  consider "r \<in> set (dl_expired d)" | "r \<in> set (expiring (dl_timers d))" using r by (auto simp: decided_def)
  then show ?thesis
  proof cases
    case 1
    with inv obtain i where "i < length (dl_timers d)" "tm_reason (dl_timers d ! i) = r" "tm_state (dl_timers d ! i) = Finished"
      unfolding deadline_inv_def by blast
    with due[of i] show ?thesis by auto
  next
    case 2
    then obtain i where "i < length (dl_timers d)" "tm_reason (dl_timers d ! i) = r" "tm_state (dl_timers d ! i) = Expiring"
      by (auto simp: expiring_def in_set_conv_nth)
    with due[of i] show ?thesis by auto
  qed
qed

text \<open>C28: In every interleaving of offers, answers, stops and firing timers, where the closure of a timer
  decides under the mutex and calls \<^verbatim>\<open>expire\<close> after releasing it: at most one time-out is ever decided or
  reported, each for a timer that was due; a step decides a time-out only for the stage the deadline is
  in, and finishes it; while the deadline waits for the answer or the connection, the timer of that stage is
  armed or already running, so the wait is always bounded; taking an answer never panics; and after
  \<^verbatim>\<open>Stop\<close> nothing is decided any more: the only report that can still come is the one whose closure had
  finished the deadline before \<^verbatim>\<open>Stop\<close>.\<close>

theorem handshake_deadline_once:
  assumes "deadline_step\<^sup>*\<^sup>* (new_deadline t0) d"
  shows "length (decided d) \<le> 1 \<and>
    (\<forall>r \<in> set (decided d). \<exists>i < length (dl_timers d). tm_reason (dl_timers d ! i) = r \<and> tm_due (dl_timers d ! i) \<le> dl_now d) \<and>
    (\<forall>d'. deadline_step d d' \<longrightarrow> decided d' = decided d \<or>
       (\<exists>i < length (dl_timers d). tm_stage (dl_timers d ! i) = dl_stage d \<and> dl_stage d' = 3 \<and>
          decided d' = decided d @ [tm_reason (dl_timers d ! i)])) \<and>
    (dl_stage d = 1 \<or> dl_stage d = 2 \<longrightarrow>
       (\<exists>i < length (dl_timers d). dl_timer d = Some i \<and> tm_stage (dl_timers d ! i) = dl_stage d \<and>
          tm_state (dl_timers d ! i) \<in> {Armed, Running})) \<and>
    deadline_Answer d \<noteq> None \<and>
    (\<forall>d'. deadline_step\<^sup>*\<^sup>* (deadline_Stop d) d' \<longrightarrow> decided d' = decided d \<and>
       (\<forall>r \<in> set (dl_expired d'). r \<in> set (dl_expired d) \<or>
          (\<exists>i < length (dl_timers d). tm_state (dl_timers d ! i) = Expiring \<and> tm_reason (dl_timers d ! i) = r)))"
proof -
  have inv: "deadline_inv d" by (rule deadline.along[OF assms]) simp
  have once: "length (decided d) \<le> 1" using inv by (auto simp: deadline_inv_def split: if_splits)
  have live: "\<exists>i < length (dl_timers d). dl_timer d = Some i \<and> tm_stage (dl_timers d ! i) = dl_stage d \<and>
          tm_state (dl_timers d ! i) \<in> {Armed, Running}" if "dl_stage d = 1 \<or> dl_stage d = 2"
    using inv that by (intro exI[of _ "dl_stage d - 1"]) (auto simp: deadline_inv_def live_def)
  have panic: "deadline_Answer d \<noteq> None"
    using inv by (auto simp: deadline_inv_def deadline_Answer_def)
  have after: "decided d' = decided d" if "deadline_step\<^sup>*\<^sup>* (deadline_Stop d) d'" for d'
    using deadline_finished.along[OF that stop_finished[OF inv]] by (simp add: finished_def)
  have "r \<in> set (dl_expired d) \<or> (\<exists>i < length (dl_timers d). tm_state (dl_timers d ! i) = Expiring \<and> tm_reason (dl_timers d ! i) = r)"
    if "deadline_step\<^sup>*\<^sup>* (deadline_Stop d) d'" "r \<in> set (dl_expired d')" for d' r
  proof -
    have "r \<in> set (decided d)" using after[OF that(1)] that(2) by (metis UnCI decided_def set_append)
    then show ?thesis by (auto simp: decided_def expiring_def in_set_conv_nth)
  qed
  with once decided_due[OF inv] live panic after deadline_step_decided[OF inv] show ?thesis by blast
qed

text \<open>A run in which the answer timer of a deadline expires while \<^verbatim>\<open>Stop\<close> is called.\<close>

definition sample_deadline :: deadline where
  "sample_deadline = the (timer_callback 0 (the (timer_fire 0 ((deadline_Offer (new_deadline 0))\<lparr> dl_now := AnswerTimeout \<rparr>))))"

lemma sample_deadline_run: "deadline_step\<^sup>*\<^sup>* (new_deadline 0) sample_deadline"
proof -
  let ?a = "deadline_Offer (new_deadline 0)" and ?b = "(deadline_Offer (new_deadline 0))\<lparr> dl_now := AnswerTimeout \<rparr>"
  have f: "timer_fire 0 ?b = Some (the (timer_fire 0 ?b))"
    by (simp add: timer_fire_def deadline_Offer_def new_deadline_def arm_def)
  have c: "timer_callback 0 (the (timer_fire 0 ?b)) = Some sample_deadline"
    by (simp add: sample_deadline_def timer_callback_def timer_fire_def deadline_Offer_def new_deadline_def arm_def Let_def)
  have "deadline_step ?a ?b"
    by (rule deadline_step.elapse) (simp add: deadline_Offer_def new_deadline_def arm_def AnswerTimeout_def nanos_def)
  from rtranclp.rtrancl_into_rtrancl[OF r_into_rtranclp[of deadline_step, OF deadline_step.offer] this]
  show ?thesis using deadline_step.fire[OF f] deadline_step.callback[OF c] by (meson rtranclp.rtrancl_into_rtrancl)
qed

lemma handshake_deadline_once_witness:
  "decided sample_deadline = [''initial WebRTC answer timed out''] \<and> dl_expired sample_deadline = [] \<and>
   length (decided sample_deadline) \<le> 1 \<and> deadline_Answer sample_deadline \<noteq> None"
proof -
  have "decided sample_deadline = [''initial WebRTC answer timed out''] \<and> dl_expired sample_deadline = []"
    by (simp add: sample_deadline_def timer_callback_def timer_fire_def deadline_Offer_def new_deadline_def arm_def Let_def decided_def)
  with handshake_deadline_once[OF sample_deadline_run] show ?thesis by blast
qed

subsection \<open>Recovery is bounded\<close>

lemmas controller_defs =
  controller_Start_def controller_Stop_def close_channel_def start_run_def run_step_def run_cancel_def
  set_run_def

fun spaced :: "int \<Rightarrow> int list \<Rightarrow> bool" where
  "spaced gap (t # u # ts) \<longleftrightarrow> u + gap \<le> t \<and> spaced gap (u # ts)"
| "spaced gap ts \<longleftrightarrow> True"

text \<open>What the position of a run says about the calls it has made.\<close>

fun pc_ok :: "policy \<Rightarrow> int \<Rightarrow> run_pc \<Rightarrow> int list \<Rightarrow> nat \<Rightarrow> bool" where
  "pc_ok p now (Sleep due index) ts e \<longleftrightarrow>
     e = 0 \<and> int (length ts) = index \<and> index \<le> pl_MaxAttempts p \<and>
     (ts = [] \<or> (\<exists>u. due = Some u \<and> hd ts + pl_RetryDelay p \<le> u))"
| "pc_ok p now (Check index) ts e \<longleftrightarrow>
     e = 0 \<and> int (length ts) = index \<and> index < pl_MaxAttempts p \<and>
     (ts = [] \<or> hd ts + pl_RetryDelay p \<le> now)"
| "pc_ok p now (Attempting index) ts e \<longleftrightarrow>
     e = 0 \<and> int (length ts) = index \<and> index < pl_MaxAttempts p \<and>
     (ts = [] \<or> hd ts + pl_RetryDelay p \<le> now)"
| "pc_ok p now FinalCheck ts e \<longleftrightarrow> e = 0 \<and> int (length ts) = pl_MaxAttempts p"
| "pc_ok p now Exhausting ts e \<longleftrightarrow> e = 0 \<and> int (length ts) = pl_MaxAttempts p"
| "pc_ok p now Clearing ts e \<longleftrightarrow> e = 1 \<and> int (length ts) = pl_MaxAttempts p"
| "pc_ok p now Returned ts e \<longleftrightarrow>
     (e = 0 \<and> int (length ts) \<le> pl_MaxAttempts p \<or> e = 1 \<and> int (length ts) = pl_MaxAttempts p)"

definition run_ok :: "controller \<Rightarrow> recovery_run \<Rightarrow> bool" where
  "run_ok c r \<longleftrightarrow>
     rn_cancel r < rc_channels c \<and> spaced (pl_RetryDelay (rc_policy c)) (rn_attempts r) \<and>
     pc_ok (rc_policy c) (rc_now c) (rn_pc r) (rn_attempts r) (rn_exhausted r) \<and>
     (rn_pc r \<noteq> Returned \<and> \<not> cancelled c r \<longrightarrow> rc_cancel c = Some (rn_cancel r))"

definition controller_inv :: "controller \<Rightarrow> bool" where
  "controller_inv c \<longleftrightarrow>
     0 < pl_RetryDelay (rc_policy c) \<and> 0 < pl_MaxAttempts (rc_policy c) \<and>
     (\<forall>ch \<in> set (rc_closed c). ch < rc_channels c) \<and>
     (\<forall>ch. rc_cancel c = Some ch \<longrightarrow> ch < rc_channels c \<and> ch \<notin> set (rc_closed c)) \<and>
     distinct (map rn_cancel (rc_runs c)) \<and>
     (\<forall>r \<in> set (rc_runs c). run_ok c r)"

lemma new_controller_inv [simp]: "controller_inv (new_controller p now)"
  by (simp add: controller_inv_def new_controller_def new_policy_def nanos_def)

lemma controller_ops_return:
  "controller_inv c \<Longrightarrow> controller_Start immediate c \<noteq> None"
  "controller_inv c \<Longrightarrow> controller_Stop c \<noteq> None"
  by (auto simp: controller_inv_def controller_defs split: option.splits)

lemma stop_channel_inv:
  assumes "controller_inv c" and "rc_cancel c = Some ch"
  shows "controller_inv (c\<lparr> rc_closed := ch # rc_closed c, rc_cancel := None \<rparr>)"
proof -
  have "run_ok (c\<lparr> rc_closed := ch # rc_closed c, rc_cancel := None \<rparr>) r" if "r \<in> set (rc_runs c)" for r
  proof -
    have "run_ok c r" using assms(1) that by (simp add: controller_inv_def)
    with assms(2) show ?thesis by (auto simp: run_ok_def cancelled_def)
  qed
  with assms show ?thesis by (auto simp: controller_inv_def)
qed

lemma start_run_inv:
  assumes inv: "controller_inv c" and none: "rc_cancel c = None"
  shows "controller_inv (start_run immediate c)"
proof -
  have old: "run_ok (start_run immediate c) r" if "r \<in> set (rc_runs c)" for r
  proof -
    have "run_ok c r" using inv that by (simp add: controller_inv_def)
    with none show ?thesis by (auto simp: run_ok_def cancelled_def start_run_def Let_def)
  qed
  have fresh: "r \<in> set (rc_runs c) \<Longrightarrow> rn_cancel r < rc_channels c" for r
    using inv by (simp add: controller_inv_def run_ok_def)
  have new: "run_ok (start_run immediate c) \<lparr> rn_cancel = rc_channels c, rn_pc = start_wait c delay 0,
      rn_attempts = [], rn_exhausted = 0 \<rparr>" for delay
    using inv by (auto simp: run_ok_def start_run_def Let_def start_wait_def controller_inv_def)
  have "controller_inv (start_run immediate c) \<longleftrightarrow>
      (\<forall>r \<in> set (rc_runs (start_run immediate c)). run_ok (start_run immediate c) r)"
    using inv fresh by (fastforce simp: controller_inv_def start_run_def Let_def less_Suc_eq)
  also have "\<dots>" using old new by (simp add: start_run_def[of immediate c] Let_def) 
  finally show ?thesis by simp
qed

lemma start_run_cancel: "start_run immediate c = start_run immediate (c\<lparr> rc_cancel := None \<rparr>)"
  by (simp add: start_run_def start_wait_def Let_def)

lemma controller_Start_inv:
  assumes "controller_inv c" and "controller_Start immediate c = Some c'"
  shows "controller_inv c'"
proof (cases "rc_cancel c")
  case None
  with assms start_run_inv show ?thesis by (auto simp: controller_Start_def)
next
  case (Some ch)
  have "controller_inv (start_run immediate (c\<lparr> rc_closed := ch # rc_closed c \<rparr>))"
    by (subst start_run_cancel, rule start_run_inv) (use stop_channel_inv[OF assms(1) Some] in simp_all)
  with Some assms show ?thesis
    by (auto simp: controller_Start_def close_channel_def split: if_splits)
qed

lemma controller_Stop_inv:
  assumes "controller_inv c" and "controller_Stop c = Some c'"
  shows "controller_inv c'"
  using assms stop_channel_inv[of c]
  by (auto simp: controller_Stop_def close_channel_def split: option.splits if_splits)

lemma set_run_inv:
  assumes inv: "controller_inv c" and i: "i < length (rc_runs c)"
    and ch: "rn_cancel r = rn_cancel (rc_runs c ! i)" and ok: "run_ok c r"
  shows "controller_inv (set_run i r c)"
proof -
  have "map rn_cancel ((rc_runs c)[i := r]) = map rn_cancel (rc_runs c)"
    using i by (simp add: map_update ch list_update_same_conv)
  moreover have "run_ok (set_run i r c) r'" if "r' \<in> set (rc_runs (set_run i r c))" for r'
  proof -
    have "run_ok c r'" using that ok inv set_update_subset_insert[of "rc_runs c" i r]
      by (auto simp: set_run_def controller_inv_def)
    then show ?thesis by (simp add: run_ok_def cancelled_def set_run_def)
  qed
  ultimately show ?thesis using inv by (auto simp: controller_inv_def set_run_def)
qed

lemma run_ok_nth: "controller_inv c \<Longrightarrow> i < length (rc_runs c) \<Longrightarrow> run_ok c (rc_runs c ! i)"
  by (simp add: controller_inv_def)

lemma clear_cancel_inv:
  assumes inv: "controller_inv c" and i: "i < length (rc_runs c)"
    and own: "rc_cancel c = Some (rn_cancel (rc_runs c ! i))"
    and pc: "rn_pc (rc_runs c ! i) = Clearing"
  shows "controller_inv (set_run i ((rc_runs c ! i)\<lparr> rn_pc := Returned \<rparr>) (c\<lparr> rc_cancel := None \<rparr>))"
    (is "controller_inv ?c")
proof -
  have "controller_inv (set_run i ((rc_runs c ! i)\<lparr> rn_pc := Returned \<rparr>) c)"
    using run_ok_nth[OF inv i] pc by (intro set_run_inv[OF inv i]) (auto simp: run_ok_def cancelled_def)
  moreover have "run_ok ?c r" if r: "r \<in> set (rc_runs ?c)"
      and ok: "run_ok (set_run i ((rc_runs c ! i)\<lparr> rn_pc := Returned \<rparr>) c) r" for r
  proof -
    from r obtain j where j: "j < length (rc_runs c)"
        "r = (if j = i then (rc_runs c ! i)\<lparr> rn_pc := Returned \<rparr> else rc_runs c ! j)"
      using i by (auto simp: set_run_def in_set_conv_nth nth_list_update)
    have "rn_cancel (rc_runs c ! j) \<noteq> rn_cancel (rc_runs c ! i)" if "j \<noteq> i"
      using inv i j(1) that by (simp add: controller_inv_def distinct_conv_nth)
    with ok j own show ?thesis by (auto simp: run_ok_def cancelled_def set_run_def)
  qed
  ultimately show ?thesis by (auto simp: controller_inv_def set_run_def)
qed

lemma spaced_Cons: "spaced g ts \<Longrightarrow> ts = [] \<or> hd ts + g \<le> now \<Longrightarrow> spaced g (now # ts)"
  by (cases ts) auto

lemma run_step_inv:
  assumes inv: "controller_inv c" and i: "i < length (rc_runs c)" and step: "run_step i c = Some c'"
  shows "controller_inv c'"
proof -
  note ok = run_ok_nth[OF inv i]
  note put = set_run_inv[OF inv i]
  have gap: "0 < pl_RetryDelay (rc_policy c)" using inv by (simp add: controller_inv_def)
  show ?thesis
  proof (cases "rn_pc (rc_runs c ! i)")
    case (Sleep due index)
    then show ?thesis
      using step ok gap
      by (cases due) (auto simp: run_step_def run_ok_def loop_head_def cancelled_def Let_def split: if_splits intro!: put)
  next
    case (Attempting index)
    then show ?thesis
      using step ok gap
      by (auto simp: run_step_def run_ok_def start_wait_def cancelled_def Let_def intro!: put spaced_Cons)
  next
    case Clearing
    have "controller_inv (set_run i ((rc_runs c ! i)\<lparr> rn_pc := Returned \<rparr>) c)"
      using ok Clearing by (intro put) (auto simp: run_ok_def cancelled_def)
    then show ?thesis
      using step Clearing clear_cancel_inv[OF inv i] by (auto simp: run_step_def Let_def split: if_splits)
  qed (use step ok in \<open>auto simp: run_step_def run_ok_def cancelled_def Let_def split: if_splits intro!: put\<close>)
qed

lemma run_cancel_inv:
  assumes "controller_inv c" and "i < length (rc_runs c)" and "run_cancel i c = Some c'"
  shows "controller_inv c'"
  using assms(3) run_ok_nth[OF assms(1,2)]
  by (auto simp: run_cancel_def Let_def run_ok_def cancelled_def split: run_pc.splits option.splits if_splits
      intro!: set_run_inv[OF assms(1,2)])

lemma pc_ok_later: "pc_ok p now pc ts e \<Longrightarrow> now \<le> t \<Longrightarrow> pc_ok p t pc ts e"
  by (cases pc) auto

interpretation controller: kept_by controller_inv controller_step
proof
  fix c c' assume inv: "controller_inv c" and "controller_step c c'"
  from this(2) show "controller_inv c'"
  proof cases
    case (elapse t)
    have "run_ok c' r" if "run_ok c r" for r
      using that elapse pc_ok_later[of "rc_policy c" "rc_now c" _ _ _ t] by (simp add: run_ok_def cancelled_def)
    with inv elapse show ?thesis by (simp add: controller_inv_def)
  qed (use inv in \<open>auto intro: controller_Start_inv controller_Stop_inv run_step_inv run_cancel_inv\<close>)
qed

text \<open>A run that was cancelled makes at most the call it had already decided on.\<close>

definition calls :: "recovery_run \<Rightarrow> nat" where
  "calls r = length (rn_attempts r) + rn_exhausted r"

fun pending_call :: "run_pc \<Rightarrow> nat" where
  "pending_call (Attempting index) = 1"
| "pending_call Exhausting = 1"
| "pending_call _ = 0"

definition stopping :: "nat \<Rightarrow> nat \<Rightarrow> controller \<Rightarrow> bool" where
  "stopping i n c \<longleftrightarrow>
     i < length (rc_runs c) \<and> cancelled c (rc_runs c ! i) \<and>
     calls (rc_runs c ! i) + pending_call (rn_pc (rc_runs c ! i)) \<le> n"

lemma stopping_set_run:
  assumes "stopping i n c" and "j < length (rc_runs c)" and "rn_cancel r = rn_cancel (rc_runs c ! j)"
    and "cancelled c (rc_runs c ! j) \<Longrightarrow>
           calls r + pending_call (rn_pc r) \<le> calls (rc_runs c ! j) + pending_call (rn_pc (rc_runs c ! j))"
  shows "stopping i n (set_run j r c)"
  using assms by (cases "i = j") (auto simp: stopping_def set_run_def cancelled_def)

lemma stopping_run_step:
  assumes "stopping i n c" and "j < length (rc_runs c)" and "run_step j c = Some c'"
  shows "stopping i n c'"
proof -
  note put = stopping_set_run[OF assms(1,2)]
  have clear: "stopping i n (c\<lparr> rc_cancel := None \<rparr>)" using assms(1) by (simp add: stopping_def cancelled_def)
  show ?thesis
  proof (cases "rn_pc (rc_runs c ! j)")
    case Clearing
    then show ?thesis
      using assms(3) stopping_set_run[OF clear, of j "(rc_runs c ! j)\<lparr> rn_pc := Returned \<rparr>"]
        put[of "(rc_runs c ! j)\<lparr> rn_pc := Returned \<rparr>"] assms(2)
      by (auto simp: run_step_def Let_def calls_def split: if_splits)
  next
    case (Sleep due index)
    then show ?thesis
      using assms(3)
      by (cases due) (auto simp: run_step_def Let_def calls_def loop_head_def split: if_splits intro!: put)
  qed (use assms(3) in \<open>auto simp: run_step_def Let_def calls_def start_wait_def split: if_splits intro!: put\<close>)
qed

lemma stopping_run_cancel:
  assumes "stopping i n c" and "j < length (rc_runs c)" and "run_cancel j c = Some c'"
  shows "stopping i n c'"
  using assms(3)
  by (auto simp: run_cancel_def Let_def calls_def split: run_pc.splits option.splits if_splits
      intro!: stopping_set_run[OF assms(1,2)])

interpretation stopping: kept_by "stopping i n" controller_step for i n
proof
  fix c c' assume st: "stopping i n c" and "controller_step c c'"
  from this(2) show "stopping i n c'"
  proof cases
    case (start immediate)
    with st show ?thesis
      by (auto simp: stopping_def cancelled_def controller_Start_def close_channel_def start_run_def Let_def
          nth_append split: option.splits if_splits)
  next
    case stop
    with st show ?thesis
      by (auto simp: stopping_def cancelled_def controller_Stop_def close_channel_def split: option.splits if_splits)
  next
    case (run j)
    then show ?thesis by (rule stopping_run_step[OF st])
  next
    case (cancel j)
    then show ?thesis by (rule stopping_run_cancel[OF st])
  next
    case (elapse t)
    with st show ?thesis by (simp add: stopping_def cancelled_def)
  qed
qed

text \<open>C29: In every interleaving of \<^verbatim>\<open>Start\<close>, \<^verbatim>\<open>Stop\<close> and the goroutines they leave behind, no
  channel is closed twice (so neither call panics); at most one run is neither returned nor
  cancelled; every run makes at most \<^verbatim>\<open>MaxAttempts\<close> attempts, any two at least \<^verbatim>\<open>RetryDelay\<close> apart;
  and it reports exhaustion at most once, after exactly \<^verbatim>\<open>MaxAttempts\<close> attempts.\<close>

theorem recovery_bounded:
  assumes "controller_step\<^sup>*\<^sup>* (new_controller p t0) c"
  shows "controller_Start immediate c \<noteq> None \<and> controller_Stop c \<noteq> None \<and>
    (\<forall>i < length (rc_runs c). \<forall>j < length (rc_runs c).
       rn_pc (rc_runs c ! i) \<noteq> Returned \<and> \<not> cancelled c (rc_runs c ! i) \<and>
       rn_pc (rc_runs c ! j) \<noteq> Returned \<and> \<not> cancelled c (rc_runs c ! j) \<longrightarrow> i = j) \<and>
    (\<forall>r \<in> set (rc_runs c).
       int (length (rn_attempts r)) \<le> pl_MaxAttempts (rc_policy c) \<and>
       spaced (pl_RetryDelay (rc_policy c)) (rn_attempts r) \<and> rn_exhausted r \<le> 1 \<and>
       (rn_exhausted r = 1 \<longrightarrow> int (length (rn_attempts r)) = pl_MaxAttempts (rc_policy c)))"
proof -
  have inv: "controller_inv c" by (rule controller.along[OF assms]) simp
  have one: "i = j" if "i < length (rc_runs c)" "j < length (rc_runs c)"
      "rn_pc (rc_runs c ! i) \<noteq> Returned" "\<not> cancelled c (rc_runs c ! i)"
      "rn_pc (rc_runs c ! j) \<noteq> Returned" "\<not> cancelled c (rc_runs c ! j)" for i j
  proof -
    have "rn_cancel (rc_runs c ! i) = rn_cancel (rc_runs c ! j)"
      using run_ok_nth[OF inv that(1)] run_ok_nth[OF inv that(2)] that(3-6) by (simp add: run_ok_def)
    with that(1,2) inv show ?thesis by (auto simp: controller_inv_def distinct_conv_nth)
  qed
  have runs: "int (length (rn_attempts r)) \<le> pl_MaxAttempts (rc_policy c) \<and>
       spaced (pl_RetryDelay (rc_policy c)) (rn_attempts r) \<and> rn_exhausted r \<le> 1 \<and>
       (rn_exhausted r = 1 \<longrightarrow> int (length (rn_attempts r)) = pl_MaxAttempts (rc_policy c))"
    if "r \<in> set (rc_runs c)" for r
  proof -
    have "run_ok c r" using inv that by (simp add: controller_inv_def)
    then show ?thesis by (cases "rn_pc r") (auto simp: run_ok_def)
  qed
  show ?thesis using controller_ops_return[OF inv] one runs by blast
qed

text \<open>A run that has made its first attempt.\<close>

definition run_sample :: "nat \<Rightarrow> controller" where
  "run_sample n = ((\<lambda>c. the (run_step 0 c)) ^^ n)
     (the (controller_Start True (new_controller \<lparr> pl_InitialDelay = 2, pl_RetryDelay = 8, pl_MaxAttempts = 4 \<rparr> 0)))"

lemma run_sample_steps: "controller_step\<^sup>*\<^sup>* (new_controller \<lparr> pl_InitialDelay = 2, pl_RetryDelay = 8, pl_MaxAttempts = 4 \<rparr> 0) (run_sample 3)"
proof -
  have s: "run_step 0 (run_sample n) = Some (run_sample (Suc n))" "length (rc_runs (run_sample n)) = 1" if "n < 3" for n
    using that by (auto simp: run_sample_def controller_Start_def start_run_def new_controller_def new_policy_def start_wait_def
        run_step_def set_run_def loop_head_def cancelled_def numeral_3_eq_3 less_Suc_eq Let_def)
  have "controller_step (run_sample n) (run_sample (Suc n))" if "n < 3" for n
    using s[OF that] by (intro controller_step.run[of 0]) simp_all
  then have "controller_step\<^sup>*\<^sup>* (run_sample 0) (run_sample 3)"
    by (simp add: numeral_3_eq_3) (meson rtranclp.rtrancl_into_rtrancl rtranclp.rtrancl_refl lessI less_SucI)
  moreover have "controller_step (new_controller \<lparr> pl_InitialDelay = 2, pl_RetryDelay = 8, pl_MaxAttempts = 4 \<rparr> 0) (run_sample 0)"
    by (rule controller_step.start[of True]) (simp add: run_sample_def controller_Start_def new_controller_def)
  ultimately show ?thesis by (rule converse_rtranclp_into_rtranclp[rotated])
qed

lemma recovery_bounded_witness:
  "map rn_attempts (rc_runs (run_sample 3)) = [[0]] \<and> controller_Stop (run_sample 3) \<noteq> None \<and>
   list_all (\<lambda>r. int (length (rn_attempts r)) \<le> 4 \<and> rn_exhausted r \<le> 1) (rc_runs (run_sample 3))"
proof -
  have "map rn_attempts (rc_runs (run_sample 3)) = [[0]] \<and> pl_MaxAttempts (rc_policy (run_sample 3)) = 4"
    by (simp add: run_sample_def controller_Start_def start_run_def new_controller_def new_policy_def start_wait_def
        run_step_def set_run_def loop_head_def cancelled_def numeral_3_eq_3 Let_def)
  with recovery_bounded[OF run_sample_steps] show ?thesis by (auto simp: list_all_iff)
qed

text \<open>Once a run is cancelled by \<^verbatim>\<open>Stop\<close> or by an immediate restart, it makes at most the one call
  it had already decided on when the channel was closed, whatever happens afterwards.\<close>

theorem recovery_stop_final:
  assumes "i < length (rc_runs c)" and "cancelled c (rc_runs c ! i)" and "controller_step\<^sup>*\<^sup>* c c'"
  shows "i < length (rc_runs c') \<and>
    length (rn_attempts (rc_runs c' ! i)) + rn_exhausted (rc_runs c' ! i) \<le>
    length (rn_attempts (rc_runs c ! i)) + rn_exhausted (rc_runs c ! i) + 1"
proof -
  let ?n = "calls (rc_runs c ! i) + pending_call (rn_pc (rc_runs c ! i))"
  have "stopping i ?n c" using assms(1,2) by (simp add: stopping_def)
  then have "stopping i ?n c'" by (rule stopping.along[OF assms(3)])
  moreover have "pending_call pc \<le> 1" for pc by (cases pc) simp_all
  ultimately show ?thesis
    unfolding stopping_def calls_def by (meson add_le_mono le_add1 le_refl le_trans)
qed

definition stopped_sample :: controller where
  "stopped_sample =
     the (controller_Stop (start_run False (new_controller \<lparr> pl_InitialDelay = 2, pl_RetryDelay = 8, pl_MaxAttempts = 4 \<rparr> 0)))"

lemma recovery_stop_final_witness:
  "\<exists>c'. run_cancel 0 stopped_sample = Some c' \<and>
     length (rn_attempts (rc_runs c' ! 0)) + rn_exhausted (rc_runs c' ! 0) \<le> 1"
proof -
  have start: "0 < length (rc_runs stopped_sample)" "cancelled stopped_sample (rc_runs stopped_sample ! 0)"
    "length (rn_attempts (rc_runs stopped_sample ! 0)) + rn_exhausted (rc_runs stopped_sample ! 0) = 0"
    by (simp_all add: stopped_sample_def start_run_def new_controller_def controller_Stop_def close_channel_def
        cancelled_def Let_def)
  have "run_cancel 0 stopped_sample \<noteq> None" by code_simp
  then obtain c' where c': "run_cancel 0 stopped_sample = Some c'" by blast
  have "controller_step\<^sup>*\<^sup>* stopped_sample c'" by (rule r_into_rtranclp) (rule controller_step.cancel[OF start(1) c'])
  from recovery_stop_final[OF start(1,2) this] start(3) c' show ?thesis by fastforce
qed

end
