(* ===== verification/VoiceSfu.thy ===== *)
theory VoiceSfu
  imports MediaPeer MediaTimers
begin

text \<open>
  The voice media server (src/internal/voice: room.go, session.go, manager.go, bitrate_limiter.go).
  A manager owns rooms, one per voice channel, and sessions, one per connection; rooms and sessions
  are objects in explicit stores, since both the manager and the rooms point to them. A section under
  a mutex is one function on the state. What a session starts in the background is part of the state:
  failures scheduled with \<^verbatim>\<open>scheduleFail\<close> are tasks, the calls on the handshake deadline and on the
  recovery controller of a session are logged (\<open>MediaTimers\<close> says what they do), and the calls on the
  signal sink are logged in order. Times are nanoseconds.
\<close>

type_synonym sref = nat \<comment> \<open>a \<^verbatim>\<open>*session\<close>\<close>
type_synonym rref = nat \<comment> \<open>a \<^verbatim>\<open>*room\<close>\<close>

datatype voice_error =
    ErrConnectionIDRequired
  | ErrSessionNotFound
  | ErrRoomFull
  | ErrTooManyICECandidates
  | ErrText string
  | ErrWrap string voice_error

datatype voice_signal =
    SendOffer string string
  | SendICECandidate string candidate
  | OnFailure sref string string \<comment> \<open>\<^verbatim>\<open>value.onFailure(reason)\<close> of this session\<close>

datatype handshake_call = HandshakeOffer | HandshakeAnswer | HandshakeStop
datatype recovery_call = RecoveryStart bool | RecoveryStop

definition MaxPendingICECandidates :: nat where
  "MaxPendingICECandidates = 64"

subsection \<open>Rooms (room.go)\<close>

record roomTrack =
  rt_ownerConnectionID :: string
  rt_track :: local_track
  rt_requestKeyframe :: "sref option" \<comment> \<open>the session whose camera is asked\<close>

record voice_room =
  vr_id :: int
  vr_sessions :: "(string, sref) gomap"
  vr_tracks :: "(string, roomTrack) gomap"
  vr_reservations :: int

definition voice_newRoom :: "int \<Rightarrow> voice_room" where
  "voice_newRoom ident = \<lparr> vr_id = ident, vr_sessions = [], vr_tracks = [], vr_reservations = 0 \<rparr>"

definition room_release :: "voice_room \<Rightarrow> voice_room" where
  "room_release r = (if vr_reservations r > 0 then r\<lparr> vr_reservations := vr_reservations r - 1 \<rparr> else r)"

definition room_addSession :: "string \<Rightarrow> sref \<Rightarrow> voice_room \<Rightarrow> voice_room" where
  "room_addSession connectionID s r =
     (let r1 = room_release r in r1\<lparr> vr_sessions := AList.update connectionID s (vr_sessions r1) \<rparr>)"

definition room_reserve :: "int \<Rightarrow> voice_room \<Rightarrow> voice_room \<times> bool" where
  "room_reserve maxParticipants r =
     (if int (length (vr_sessions r)) + vr_reservations r \<ge> maxParticipants then (r, False)
      else (r\<lparr> vr_reservations := vr_reservations r + 1 \<rparr>, True))"

definition room_cancelReservation :: "voice_room \<Rightarrow> voice_room" where
  "room_cancelReservation r = room_release r"

definition room_removeSession :: "string \<Rightarrow> voice_room \<Rightarrow> voice_room \<times> bool" where
  "room_removeSession connectionID r =
     (let foreign = (\<lambda>(trackID, track). rt_ownerConnectionID track \<noteq> connectionID) in
      (r\<lparr> vr_sessions := AList.delete connectionID (vr_sessions r),
          vr_tracks := filter foreign (vr_tracks r) \<rparr>,
       \<not> list_all foreign (vr_tracks r)))"

definition room_addTrack :: "roomTrack \<Rightarrow> voice_room \<Rightarrow> voice_room \<times> bool" where
  "room_addTrack t r =
     (if map_of (vr_sessions r) (rt_ownerConnectionID t) = None then (r, False)
      else if list_ex (\<lambda>(trackID, track). rt_ownerConnectionID track = rt_ownerConnectionID t \<and>
                 lt_kind (rt_track track) = lt_kind (rt_track t)) (vr_tracks r) then (r, False)
      else (r\<lparr> vr_tracks := AList.update (lt_id (rt_track t)) t (vr_tracks r) \<rparr>, True))"

definition room_removeTrack :: "string \<Rightarrow> string \<Rightarrow> voice_room \<Rightarrow> voice_room \<times> bool" where
  "room_removeTrack trackID ownerConnectionID r =
     (case map_of (vr_tracks r) trackID of
        None \<Rightarrow> (r, False)
      | Some track \<Rightarrow>
          if rt_ownerConnectionID track \<noteq> ownerConnectionID then (r, False)
          else (r\<lparr> vr_tracks := AList.delete trackID (vr_tracks r) \<rparr>, True))"

definition room_sessionSnapshot :: "voice_room \<Rightarrow> sref list" where
  "room_sessionSnapshot r = map snd (vr_sessions r)"

definition room_empty :: "voice_room \<Rightarrow> bool" where
  "room_empty r \<longleftrightarrow> vr_sessions r = [] \<and> vr_reservations r = 0"

subsection \<open>State\<close>

record ('p, 'l) voice_session =
  ss_room :: rref
  ss_peer :: 'p
  ss_connectionID :: string
  ss_userID :: int
  ss_serverID :: int
  ss_channelID :: int
  ss_selfMute :: bool
  ss_selfDeaf :: bool
  ss_closed :: bool
  ss_audioBitrate :: 'l
  ss_videoBitrate :: 'l
  ss_lastKeyframe :: int \<comment> \<open>milliseconds\<close>
  ss_offerStarted :: "int option"
  ss_negotiationPending :: bool
  ss_iceRestartPending :: bool
  ss_pendingCandidates :: "candidate list"
  ss_closeOnce :: bool
  ss_handshake :: "handshake_call list" \<comment> \<open>the last call first\<close>
  ss_recovery :: "recovery_call list"

record ('p, 'l) voice_manager =
  vg_roomHeap :: "rref \<Rightarrow> voice_room"
  vg_sessionHeap :: "sref \<Rightarrow> ('p, 'l) voice_session"
  vg_nextRoom :: nat
  vg_nextSession :: nat
  vg_rooms :: "(int, rref) gomap"
  vg_sessions :: "(string, sref) gomap"
  vg_closed :: bool
  vg_maxParticipants :: int
  vg_maxAudioBitrateKbps :: int
  vg_tasks :: "(sref \<times> string) list" \<comment> \<open>goroutines that will call \<^verbatim>\<open>failSession\<close>\<close>
  vg_signals :: "voice_signal list" \<comment> \<open>calls on the sink, the last one first\<close>
  vg_now :: int

record ('p, 'l) voice_env =
  ve_pion :: "('p, 'l) pion"
  ve_sink :: "nat \<Rightarrow> voice_signal \<Rightarrow> bool" \<comment> \<open>does the sink take its n-th signal\<close>

definition upd_room :: "rref \<Rightarrow> (voice_room \<Rightarrow> voice_room) \<Rightarrow> ('p, 'l) voice_manager \<Rightarrow> ('p, 'l) voice_manager" where
  "upd_room r f m = m\<lparr> vg_roomHeap := (vg_roomHeap m)(r := f (vg_roomHeap m r)) \<rparr>"

definition upd_session ::
  "sref \<Rightarrow> (('p, 'l) voice_session \<Rightarrow> ('p, 'l) voice_session) \<Rightarrow> ('p, 'l) voice_manager \<Rightarrow> ('p, 'l) voice_manager" where
  "upd_session s f m = m\<lparr> vg_sessionHeap := (vg_sessionHeap m)(s := f (vg_sessionHeap m s)) \<rparr>"

abbreviation the_session :: "('p, 'l) voice_manager \<Rightarrow> sref \<Rightarrow> ('p, 'l) voice_session" where
  "the_session m s \<equiv> vg_sessionHeap m s"

abbreviation the_room :: "('p, 'l) voice_manager \<Rightarrow> sref \<Rightarrow> voice_room" where
  "the_room m s \<equiv> vg_roomHeap m (ss_room (vg_sessionHeap m s))"

definition scheduleFail :: "sref \<Rightarrow> string \<Rightarrow> ('p, 'l) voice_manager \<Rightarrow> ('p, 'l) voice_manager" where
  "scheduleFail s reason m = m\<lparr> vg_tasks := vg_tasks m @ [(s, reason)] \<rparr>"

text \<open>A call on the sink: logged, with the answer of the sink.\<close>

definition sink_call ::
  "('p, 'l) voice_env \<Rightarrow> voice_signal \<Rightarrow> ('p, 'l) voice_manager \<Rightarrow> ('p, 'l) voice_manager \<times> bool" where
  "sink_call env sig m =
     (m\<lparr> vg_signals := sig # vg_signals m \<rparr>, ve_sink env (length (vg_signals m)) sig)"

subsection \<open>Bitrate guard (bitrate\_limiter.go)\<close>

definition audioBitrateHeadroomPercent :: int where
  "audioBitrateHeadroomPercent = 150"

definition audioBitrateBurstDuration :: int where
  "audioBitrateBurstDuration = 4 * nanos"

definition newAudioBitrateLimiter :: "('p, 'l) pion \<Rightarrow> int \<Rightarrow> 'l" where
  "newAudioBitrateLimiter pn maxBitrateKbps =
     (let bytesPerSecond = maxBitrateKbps * 1000 div 8 * audioBitrateHeadroomPercent div 100;
          burstBytes = bytesPerSecond * (audioBitrateBurstDuration div nanos) in
      rl_NewLimiter pn bytesPerSecond burstBytes)"

definition limiter_allow :: "('p, 'l) pion \<Rightarrow> int \<Rightarrow> int \<Rightarrow> 'l \<Rightarrow> bool \<times> 'l" where
  "limiter_allow pn now payloadBytes l =
     (if payloadBytes \<le> 0 then (True, l) else rl_AllowN pn now payloadBytes l)"

subsection \<open>Negotiation (session.go)\<close>

definition createOfferLocked ::
  "('p, 'l) voice_env \<Rightarrow> bool \<Rightarrow> sref \<Rightarrow> ('p, 'l) voice_manager \<Rightarrow> ('p, 'l) voice_manager \<times> (voice_error + string)" where
  "createOfferLocked env restartICE s m =
     (let pn = ve_pion env; (p1, offer) = pn_CreateOffer pn restartICE (ss_peer (the_session m s)) in
      case offer of
        Inl e \<Rightarrow> (upd_session s (\<lambda>x. x\<lparr> ss_peer := p1 \<rparr>) m, Inl (ErrWrap ''create WebRTC offer: '' (ErrText e)))
      | Inr sdp \<Rightarrow>
          (let (p2, err) = pn_SetLocalDescription pn sdp p1 in
           case err of
             Some e \<Rightarrow>
               (upd_session s (\<lambda>x. x\<lparr> ss_peer := p2 \<rparr>) m, Inl (ErrWrap ''create WebRTC offer: '' (ErrText e)))
           | None \<Rightarrow>
               (upd_session s (\<lambda>x. x\<lparr> ss_peer := p2, ss_negotiationPending := False, ss_iceRestartPending := False,
                   ss_offerStarted := Some (vg_now m), ss_handshake := HandshakeOffer # ss_handshake x \<rparr>) m,
                Inr sdp)))"

definition sendOffer :: "('p, 'l) voice_env \<Rightarrow> sref \<Rightarrow> string \<Rightarrow> ('p, 'l) voice_manager \<Rightarrow> ('p, 'l) voice_manager" where
  "sendOffer env s sdp m =
     (let (m1, ok) = sink_call env (SendOffer (ss_connectionID (the_session m s)) sdp) m in
      if ok then m1 else scheduleFail s ''WebRTC signaling connection was lost'' m1)"

text \<open>The tracks of the room a participant should hear and see: those of the others, without their
  microphones while deafened.\<close>

definition desired_tracks :: "('p, 'l) voice_manager \<Rightarrow> sref \<Rightarrow> (string, roomTrack) gomap" where
  "desired_tracks m s =
     (let x = the_session m s in
      filter (\<lambda>(trackID, track). rt_ownerConnectionID track \<noteq> ss_connectionID x \<and>
          (\<not> ss_selfDeaf x \<or> lt_kind (rt_track track) = KindVideo))
        (vr_tracks (the_room m s)))"

text \<open>The first loop of \<^verbatim>\<open>synchronizeTracks\<close> over the senders: the peer, whether something
  changed, the tracks already sent, and the error of \<^verbatim>\<open>RemoveTrack\<close>.\<close>

fun remove_stale ::
  "('p, 'l) pion \<Rightarrow> (string \<Rightarrow> bool) \<Rightarrow> (nat \<times> local_track option) list \<Rightarrow> 'p \<Rightarrow> bool \<Rightarrow> string list \<Rightarrow>
     'p \<times> bool \<times> string list \<times> string option" where
  "remove_stale pn wanted [] p changed existing = (p, changed, existing, None)"
| "remove_stale pn wanted ((sender, None) # rest) p changed existing =
     remove_stale pn wanted rest p changed existing"
| "remove_stale pn wanted ((sender, Some t) # rest) p changed existing =
     (if \<not> wanted (lt_id t) then
        (case pn_RemoveTrack pn sender p of
           (p1, Some e) \<Rightarrow> (p1, changed, existing, Some e)
         | (p1, None) \<Rightarrow> remove_stale pn wanted rest p1 True existing)
      else remove_stale pn wanted rest p changed (List.insert (lt_id t) existing))"

text \<open>The second loop, over the desired tracks.\<close>

fun add_missing ::
  "('p, 'l) pion \<Rightarrow> string list \<Rightarrow> (string, roomTrack) gomap \<Rightarrow> 'p \<Rightarrow> bool \<Rightarrow> 'p \<times> bool \<times> string option" where
  "add_missing pn existing [] p changed = (p, changed, None)"
| "add_missing pn existing ((trackID, track) # rest) p changed =
     (if trackID \<in> set existing then add_missing pn existing rest p changed
      else (case pn_AddTrack pn (rt_track track) p of
              (p1, Some e) \<Rightarrow> (p1, changed, Some e)
            | (p1, None) \<Rightarrow> add_missing pn existing rest p1 True))"

text \<open>The end of \<^verbatim>\<open>synchronizeTracks\<close>: offer now, later, or not at all.\<close>

definition offer_if_needed ::
  "('p, 'l) voice_env \<Rightarrow> bool \<Rightarrow> sref \<Rightarrow> ('p, 'l) voice_manager \<Rightarrow> ('p, 'l) voice_manager \<times> voice_error option" where
  "offer_if_needed env needed s m =
     (let x = the_session m s in
      if \<not> needed \<and> \<not> ss_negotiationPending x \<and> \<not> ss_iceRestartPending x then (m, None)
      else if \<not> pn_Stable (ve_pion env) (ss_peer x) then
        (upd_session s (\<lambda>x. x\<lparr> ss_negotiationPending := True \<rparr>) m, None)
      else
        (case createOfferLocked env (ss_iceRestartPending x) s m of
           (m1, Inl e) \<Rightarrow> (m1, Some e)
         | (m1, Inr sdp) \<Rightarrow> (sendOffer env s sdp m1, None)))"

definition synchronizeTracks ::
  "('p, 'l) voice_env \<Rightarrow> bool \<Rightarrow> sref \<Rightarrow> ('p, 'l) voice_manager \<Rightarrow> ('p, 'l) voice_manager \<times> voice_error option" where
  "synchronizeTracks env forceOffer s m =
     (let x = the_session m s; pn = ve_pion env in
      if ss_closed x then (m, None)
      else
        (let desired = desired_tracks m s;
             (p1, changed1, existing, err1) =
               remove_stale pn (\<lambda>trackID. map_of desired trackID \<noteq> None) (pn_GetSenders pn (ss_peer x)) (ss_peer x) False [] in
         case err1 of
           Some e \<Rightarrow>
             (upd_session s (\<lambda>x. x\<lparr> ss_peer := p1 \<rparr>) m, Some (ErrWrap ''remove outgoing audio track: '' (ErrText e)))
         | None \<Rightarrow>
             (let (p2, changed2, err2) = add_missing pn existing desired p1 changed1;
                  m2 = upd_session s (\<lambda>x. x\<lparr> ss_peer := p2 \<rparr>) m in
              case err2 of
                Some e \<Rightarrow> (m2, Some (ErrWrap ''add outgoing audio track: '' (ErrText e)))
              | None \<Rightarrow> offer_if_needed env (changed2 \<or> forceOffer) s m2)))"

definition sync_one :: "('p, 'l) voice_env \<Rightarrow> sref \<Rightarrow> ('p, 'l) voice_manager \<Rightarrow> ('p, 'l) voice_manager" where
  "sync_one env s m =
     (case synchronizeTracks env False s m of
        (m1, None) \<Rightarrow> m1
      | (m1, Some e) \<Rightarrow> scheduleFail s ''WebRTC renegotiation failed'' m1)"

definition synchronizeSessions ::
  "('p, 'l) voice_env \<Rightarrow> rref \<Rightarrow> ('p, 'l) voice_manager \<Rightarrow> ('p, 'l) voice_manager" where
  "synchronizeSessions env r m = fold (sync_one env) (room_sessionSnapshot (vg_roomHeap m r)) m"

definition addICECandidateLocked ::
  "('p, 'l) voice_env \<Rightarrow> candidate \<Rightarrow> sref \<Rightarrow> ('p, 'l) voice_manager \<Rightarrow> ('p, 'l) voice_manager \<times> voice_error option" where
  "addICECandidateLocked env candidate s m =
     (let (p1, err) = pn_AddICECandidate (ve_pion env) candidate (ss_peer (the_session m s)) in
      (upd_session s (\<lambda>x. x\<lparr> ss_peer := p1 \<rparr>) m, map_option ErrText err))"

definition addICECandidate ::
  "('p, 'l) voice_env \<Rightarrow> candidate \<Rightarrow> sref \<Rightarrow> ('p, 'l) voice_manager \<Rightarrow> ('p, 'l) voice_manager \<times> voice_error option" where
  "addICECandidate env candidate s m =
     (let x = the_session m s; pn = ve_pion env in
      if cd_Candidate candidate = '''' then (m, Some (ErrText ''ICE candidate is required''))
      else if ss_closed x then (m, Some ErrSessionNotFound)
      else
        (case pn_RemoteDescription pn (ss_peer x) of
           Some sdp \<Rightarrow>
             if pn_Stable pn (ss_peer x) then
               if \<not> candidateMatchesRemoteDescription sdp (cd_UsernameFragment candidate) then (m, None)
               else addICECandidateLocked env candidate s m
             else if length (ss_pendingCandidates x) \<ge> MaxPendingICECandidates then (m, Some ErrTooManyICECandidates)
             else (upd_session s (\<lambda>x. x\<lparr> ss_pendingCandidates := ss_pendingCandidates x @ [candidate] \<rparr>) m, None)
         | None \<Rightarrow>
             if length (ss_pendingCandidates x) \<ge> MaxPendingICECandidates then (m, Some ErrTooManyICECandidates)
             else (upd_session s (\<lambda>x. x\<lparr> ss_pendingCandidates := ss_pendingCandidates x @ [candidate] \<rparr>) m, None)))"

fun addICECandidates ::
  "('p, 'l) voice_env \<Rightarrow> candidate list \<Rightarrow> sref \<Rightarrow> ('p, 'l) voice_manager \<Rightarrow> ('p, 'l) voice_manager \<times> voice_error option" where
  "addICECandidates env [] s m = (m, None)"
| "addICECandidates env (candidate # rest) s m =
     (case addICECandidate env candidate s m of
        (m1, Some e) \<Rightarrow> (m1, Some e)
      | (m1, None) \<Rightarrow> addICECandidates env rest s m1)"

text \<open>The closure \<^verbatim>\<open>request\<close> of \<^verbatim>\<open>forwardVideo\<close>: at most one picture loss report per half second
  reaches the camera. The report itself is written to the peer and changes nothing here.\<close>

definition requestKeyframe :: "sref \<Rightarrow> ('p, 'l) voice_manager \<Rightarrow> ('p, 'l) voice_manager" where
  "requestKeyframe s m =
     (let now = vg_now m div 1000000; previous = ss_lastKeyframe (the_session m s) in
      if ss_closed (the_session m s) \<or> now - previous < 500 then m
      else upd_session s (\<lambda>x. x\<lparr> ss_lastKeyframe := now \<rparr>) m)"

definition request_foreign_keyframes :: "sref \<Rightarrow> ('p, 'l) voice_manager \<Rightarrow> ('p, 'l) voice_manager" where
  "request_foreign_keyframes s m =
     fold (\<lambda>(trackID, track) m.
             if rt_ownerConnectionID track \<noteq> ss_connectionID (the_session m s) then
               (case rt_requestKeyframe track of None \<Rightarrow> m | Some owner \<Rightarrow> requestKeyframe owner m)
             else m)
       (vr_tracks (the_room m s)) m"

definition acceptAnswer ::
  "('p, 'l) voice_env \<Rightarrow> string \<Rightarrow> sref \<Rightarrow> ('p, 'l) voice_manager \<Rightarrow> ('p, 'l) voice_manager \<times> voice_error option" where
  "acceptAnswer env sdp s m =
     (let x = the_session m s in
      if sdp = '''' then (m, Some (ErrText ''WebRTC answer SDP is required''))
      else if ss_closed x then (m, Some ErrSessionNotFound)
      else
        (let (p1, err) = pn_SetRemoteDescription (ve_pion env) sdp (ss_peer x);
             pending = ss_negotiationPending x;
             restartPending = ss_iceRestartPending x;
             candidates = ss_pendingCandidates x in
         case err of
           Some e \<Rightarrow> (upd_session s (\<lambda>x. x\<lparr> ss_peer := p1 \<rparr>) m, Some (ErrText e))
         | None \<Rightarrow>
             (let m1 = upd_session s (\<lambda>x. x\<lparr> ss_peer := p1, ss_pendingCandidates := [], ss_offerStarted := None,
                         ss_handshake := HandshakeAnswer # ss_handshake x \<rparr>) m in
              case addICECandidates env candidates s m1 of
                (m2, Some e) \<Rightarrow> (m2, Some e)
              | (m2, None) \<Rightarrow>
                  if pending \<or> restartPending then synchronizeTracks env False s m2
                  else (request_foreign_keyframes s m2, None))))"

definition setState :: "bool \<Rightarrow> bool \<Rightarrow> sref \<Rightarrow> ('p, 'l) voice_manager \<Rightarrow> ('p, 'l) voice_manager \<times> bool" where
  "setState selfMute selfDeaf s m =
     (upd_session s (\<lambda>x. x\<lparr> ss_selfMute := selfMute, ss_selfDeaf := selfDeaf \<rparr>) m,
      ss_selfDeaf (the_session m s) \<noteq> selfDeaf)"

text \<open>\<^verbatim>\<open>session.close\<close> runs its body once.\<close>

definition session_close :: "('p, 'l) voice_env \<Rightarrow> sref \<Rightarrow> ('p, 'l) voice_manager \<Rightarrow> ('p, 'l) voice_manager" where
  "session_close env s m =
     (if ss_closeOnce (the_session m s) then m
      else upd_session s (\<lambda>x. x\<lparr> ss_closeOnce := True, ss_closed := True,
             ss_handshake := HandshakeStop # ss_handshake x, ss_recovery := RecoveryStop # ss_recovery x,
             ss_peer := pn_Close (ve_pion env) (ss_peer x) \<rparr>) m)"

definition startRecovery :: "bool \<Rightarrow> sref \<Rightarrow> ('p, 'l) voice_manager \<Rightarrow> ('p, 'l) voice_manager" where
  "startRecovery immediate s m =
     (if ss_closed (the_session m s) then m
      else upd_session s (\<lambda>x. x\<lparr> ss_recovery := RecoveryStart immediate # ss_recovery x \<rparr>) m)"

definition handleConnectionState :: "connection_state \<Rightarrow> sref \<Rightarrow> ('p, 'l) voice_manager \<Rightarrow> ('p, 'l) voice_manager" where
  "handleConnectionState state s m =
     (case state of
        StateConnected \<Rightarrow>
          upd_session s (\<lambda>x. x\<lparr> ss_handshake := HandshakeStop # ss_handshake x,
            ss_recovery := RecoveryStop # ss_recovery x \<rparr>) m
      | StateDisconnected \<Rightarrow> startRecovery False s m
      | StateFailed \<Rightarrow> startRecovery True s m
      | StateClosed \<Rightarrow>
          if \<not> ss_closed (the_session m s) then scheduleFail s ''WebRTC connection closed'' m else m
      | _ \<Rightarrow> m)"

text \<open>The attempt of the recovery controller.\<close>

definition restartICE ::
  "('p, 'l) voice_env \<Rightarrow> sref \<Rightarrow> ('p, 'l) voice_manager \<Rightarrow> ('p, 'l) voice_manager \<times> voice_error option" where
  "restartICE env s m =
     (let x = the_session m s in
      if ss_closed x then (m, Some ErrSessionNotFound)
      else if \<not> pn_Stable (ve_pion env) (ss_peer x) then
        (upd_session s (\<lambda>x. x\<lparr> ss_iceRestartPending := True, ss_negotiationPending := True \<rparr>) m, None)
      else (case createOfferLocked env True s m of
              (m1, Inl e) \<Rightarrow> (m1, Some e)
            | (m1, Inr sdp) \<Rightarrow> (sendOffer env s sdp m1, None)))"

definition onICECandidate ::
  "('p, 'l) voice_env \<Rightarrow> candidate option \<Rightarrow> sref \<Rightarrow> ('p, 'l) voice_manager \<Rightarrow> ('p, 'l) voice_manager" where
  "onICECandidate env candidate s m =
     (case candidate of
        None \<Rightarrow> m
      | Some value \<Rightarrow>
          if ss_closed (the_session m s) then m
          else
            (let (m1, ok) = sink_call env (SendICECandidate (ss_connectionID (the_session m s)) value) m in
             if ok then m1 else scheduleFail s ''WebRTC signaling connection was lost'' m1))"

subsection \<open>The manager (manager.go)\<close>

definition newSession ::
  "('p, 'l) voice_env \<Rightarrow> ('p, 'l) voice_manager \<Rightarrow> rref \<Rightarrow> 'p \<Rightarrow> string \<Rightarrow> int \<Rightarrow> int \<Rightarrow> int \<Rightarrow> bool \<Rightarrow> bool \<Rightarrow>
     ('p, 'l) voice_session" where
  "newSession env m voiceRoom peer connectionID userID serverID channelID selfMute selfDeaf =
     \<lparr> ss_room = voiceRoom, ss_peer = peer, ss_connectionID = connectionID, ss_userID = userID,
        ss_serverID = serverID, ss_channelID = channelID, ss_selfMute = selfMute, ss_selfDeaf = selfDeaf,
        ss_closed = False,
        ss_audioBitrate = newAudioBitrateLimiter (ve_pion env) (vg_maxAudioBitrateKbps m),
        ss_videoBitrate = newAudioBitrateLimiter (ve_pion env) 4000, ss_lastKeyframe = 0,
        ss_offerStarted = None, ss_negotiationPending = False, ss_iceRestartPending = False,
        ss_pendingCandidates = [], ss_closeOnce = False, ss_handshake = [], ss_recovery = [] \<rparr>"

text \<open>The section of \<^verbatim>\<open>leave\<close> under \<^verbatim>\<open>m.mu\<close>: what it found out, for the part after it.\<close>

definition leave_locked ::
  "string \<Rightarrow> sref option \<Rightarrow> ('p, 'l) voice_manager \<Rightarrow> (('p, 'l) voice_manager \<times> sref \<times> bool) option" where
  "leave_locked connectionID expected m =
     (case map_of (vg_sessions m) connectionID of
        None \<Rightarrow> None
      | Some s \<Rightarrow>
          if (case expected of None \<Rightarrow> False | Some e \<Rightarrow> s \<noteq> e) then None
          else
            (let r = ss_room (the_session m s); channelID = ss_channelID (the_session m s);
                 m1 = upd_session s (\<lambda>x. x\<lparr> ss_closed := True \<rparr>)
                        (m\<lparr> vg_sessions := AList.delete connectionID (vg_sessions m) \<rparr>);
                 (room1, trackRemoved) = room_removeSession connectionID (vg_roomHeap m1 r);
                 m2 = upd_room r (\<lambda>_. room1) m1;
                 roomEmpty = room_empty room1;
                 m3 = (if roomEmpty \<and> map_of (vg_rooms m2) channelID = Some r
                       then m2\<lparr> vg_rooms := AList.delete channelID (vg_rooms m2) \<rparr> else m2) in
             Some (m3, s, trackRemoved \<and> \<not> roomEmpty)))"

definition leave ::
  "('p, 'l) voice_env \<Rightarrow> string \<Rightarrow> sref option \<Rightarrow> ('p, 'l) voice_manager \<Rightarrow> ('p, 'l) voice_manager \<times> bool" where
  "leave env connectionID expected m =
     (if connectionID = '''' then (m, False)
      else (case leave_locked connectionID expected m of
              None \<Rightarrow> (m, False)
            | Some (m1, s, sync) \<Rightarrow>
                (let m2 = session_close env s m1 in
                 (if sync then synchronizeSessions env (ss_room (the_session m2 s)) m2 else m2, True))))"

definition Leave :: "('p, 'l) voice_env \<Rightarrow> string \<Rightarrow> ('p, 'l) voice_manager \<Rightarrow> ('p, 'l) voice_manager" where
  "Leave env connectionID m = fst (leave env connectionID None m)"

definition failSession :: "('p, 'l) voice_env \<Rightarrow> sref \<Rightarrow> string \<Rightarrow> ('p, 'l) voice_manager \<Rightarrow> ('p, 'l) voice_manager" where
  "failSession env s reason m =
     (if s = nil then m
      else
        (let connectionID = ss_connectionID (the_session m s);
             (m1, left) = leave env connectionID (Some s) m in
         if left then fst (sink_call env (OnFailure s connectionID reason) m1) else m1))"

text \<open>The callback of an exhausted recovery.\<close>

definition recovery_exhausted :: "('p, 'l) voice_env \<Rightarrow> sref \<Rightarrow> ('p, 'l) voice_manager \<Rightarrow> ('p, 'l) voice_manager" where
  "recovery_exhausted env s m =
     (if ss_closed (the_session m s) \<or>
         pn_ConnectionState (ve_pion env) (ss_peer (the_session m s)) = StateConnected then m
      else failSession env s ''WebRTC recovery exhausted'' m)"


text \<open>\<^verbatim>\<open>Join\<close> in its sections: the room and a reservation in it under \<^verbatim>\<open>m.mu\<close>, the peer connection
  outside, the session under \<^verbatim>\<open>m.mu\<close> again, and the deferred end of a reservation that was not used.\<close>

definition join_room :: "int \<Rightarrow> ('p, 'l) voice_manager \<Rightarrow> ('p, 'l) voice_manager \<times> rref" where
  "join_room channelID m =
     (case map_of (vg_rooms m) channelID of
        Some r \<Rightarrow> (m, r)
      | None \<Rightarrow>
          (let r = vg_nextRoom m in
           (m\<lparr> vg_roomHeap := (vg_roomHeap m)(r := voice_newRoom channelID), vg_nextRoom := Suc r,
               vg_rooms := AList.update channelID r (vg_rooms m) \<rparr>, r)))"

definition join_reserve :: "int \<Rightarrow> ('p, 'l) voice_manager \<Rightarrow> ('p, 'l) voice_manager \<times> (voice_error + rref)" where
  "join_reserve channelID m =
     (if vg_closed m then (m, Inl (ErrText ''voice manager is closed''))
      else
        (let (m1, r) = join_room channelID m;
             (room1, ok) = room_reserve (vg_maxParticipants m1) (vg_roomHeap m1 r) in
         if \<not> ok then (m1, Inl ErrRoomFull) else (upd_room r (\<lambda>_. room1) m1, Inr r)))"

definition join_peer :: "('p, 'l) voice_env \<Rightarrow> nat \<Rightarrow> voice_error + 'p" where
  "join_peer env n =
     (let pn = ve_pion env in
      case pn_NewPeerConnection pn n of
        Inl e \<Rightarrow> Inl (ErrWrap ''create WebRTC peer connection: '' (ErrText e))
      | Inr p0 \<Rightarrow>
          (case pn_AddTransceiver pn KindAudio p0 of
             (p1, Some e) \<Rightarrow> Inl (ErrWrap ''add incoming audio transceiver: '' (ErrText e))
           | (p1, None) \<Rightarrow>
               (case pn_AddTransceiver pn KindVideo p1 of
                  (p2, Some e) \<Rightarrow> Inl (ErrWrap ''add incoming webcam transceiver: '' (ErrText e))
                | (p2, None) \<Rightarrow> Inr p2)))"

record join_args =
  ja_connectionID :: string
  ja_userID :: int
  ja_serverID :: int
  ja_channelID :: int
  ja_selfMute :: bool
  ja_selfDeaf :: bool

definition join_install ::
  "('p, 'l) voice_env \<Rightarrow> join_args \<Rightarrow> rref \<Rightarrow> 'p \<Rightarrow> ('p, 'l) voice_manager \<Rightarrow>
     ('p, 'l) voice_manager \<times> (voice_error + sref)" where
  "join_install env a r peer m =
     (if vg_closed m then (m, Inl (ErrText ''voice manager is closed''))
      else
        (let s = vg_nextSession m;
             x = newSession env m r peer (ja_connectionID a) (ja_userID a) (ja_serverID a) (ja_channelID a)
                   (ja_selfMute a) (ja_selfDeaf a);
             m1 = m\<lparr> vg_sessionHeap := (vg_sessionHeap m)(s := x), vg_nextSession := Suc s,
                     vg_sessions := AList.update (ja_connectionID a) s (vg_sessions m) \<rparr> in
         (upd_room r (room_addSession (ja_connectionID a) s) m1, Inr s)))"

definition join_cancel :: "rref \<Rightarrow> ('p, 'l) voice_manager \<Rightarrow> ('p, 'l) voice_manager" where
  "join_cancel r m = upd_room r room_cancelReservation m"

text \<open>The locked part of \<^verbatim>\<open>removeRoomIfEmpty\<close>.\<close>

definition remove_room_locked :: "int \<Rightarrow> rref \<Rightarrow> ('p, 'l) voice_manager \<Rightarrow> ('p, 'l) voice_manager" where
  "remove_room_locked channelID r m =
     (if room_empty (vg_roomHeap m r) \<and> map_of (vg_rooms m) channelID = Some r
      then m\<lparr> vg_rooms := AList.delete channelID (vg_rooms m) \<rparr> else m)"

definition removeRoomIfEmpty :: "int \<Rightarrow> rref \<Rightarrow> ('p, 'l) voice_manager \<Rightarrow> ('p, 'l) voice_manager" where
  "removeRoomIfEmpty channelID r m =
     (if \<not> room_empty (vg_roomHeap m r) then m else remove_room_locked channelID r m)"

definition join_finish ::
  "('p, 'l) voice_env \<Rightarrow> join_args \<Rightarrow> sref \<Rightarrow> ('p, 'l) voice_manager \<Rightarrow> ('p, 'l) voice_manager \<times> voice_error option" where
  "join_finish env a s m =
     (case synchronizeTracks env True s m of
        (m1, None) \<Rightarrow> (m1, None)
      | (m1, Some e) \<Rightarrow> (Leave env (ja_connectionID a) m1, Some (ErrWrap ''create initial WebRTC offer: '' e)))"

definition Join ::
  "('p, 'l) voice_env \<Rightarrow> join_args \<Rightarrow> ('p, 'l) voice_manager \<Rightarrow> ('p, 'l) voice_manager \<times> voice_error option" where
  "Join env a m =
     (if ja_connectionID a = '''' then (m, Some ErrConnectionIDRequired)
      else if ja_userID a \<le> 0 \<or> ja_serverID a \<le> 0 \<or> ja_channelID a \<le> 0 then
        (m, Some (ErrText ''voice session identifiers must be positive''))
      else
        (case join_reserve (ja_channelID a) (Leave env (ja_connectionID a) m) of
           (m1, Inl e) \<Rightarrow> (m1, Some e)
         | (m1, Inr r) \<Rightarrow>
             (case join_peer env (vg_nextSession m1) of
                Inl e \<Rightarrow> (removeRoomIfEmpty (ja_channelID a) r (join_cancel r m1), Some e)
              | Inr peer \<Rightarrow>
                  (case join_install env a r peer m1 of
                     (m2, Inl e) \<Rightarrow> (removeRoomIfEmpty (ja_channelID a) r (join_cancel r m2), Some e)
                   | (m2, Inr s) \<Rightarrow> join_finish env a s m2))))"

definition manager_session :: "string \<Rightarrow> ('p, 'l) voice_manager \<Rightarrow> sref option" where
  "manager_session connectionID m = map_of (vg_sessions m) connectionID"

definition SetState ::
  "('p, 'l) voice_env \<Rightarrow> string \<Rightarrow> bool \<Rightarrow> bool \<Rightarrow> ('p, 'l) voice_manager \<Rightarrow> ('p, 'l) voice_manager \<times> voice_error option" where
  "SetState env connectionID selfMute selfDeaf m =
     (case manager_session connectionID m of
        None \<Rightarrow> (m, Some ErrSessionNotFound)
      | Some s \<Rightarrow>
          (let (m1, deafChanged) = setState selfMute selfDeaf s m in
           if deafChanged then synchronizeTracks env False s m1 else (m1, None)))"

definition AcceptAnswer ::
  "('p, 'l) voice_env \<Rightarrow> string \<Rightarrow> string \<Rightarrow> ('p, 'l) voice_manager \<Rightarrow> ('p, 'l) voice_manager \<times> voice_error option" where
  "AcceptAnswer env connectionID sdp m =
     (case manager_session connectionID m of
        None \<Rightarrow> (m, Some ErrSessionNotFound)
      | Some s \<Rightarrow> map_prod id (map_option (ErrWrap ''accept WebRTC answer: '')) (acceptAnswer env sdp s m))"

definition AddICECandidate ::
  "('p, 'l) voice_env \<Rightarrow> string \<Rightarrow> candidate \<Rightarrow> ('p, 'l) voice_manager \<Rightarrow> ('p, 'l) voice_manager \<times> voice_error option" where
  "AddICECandidate env connectionID candidate m =
     (case manager_session connectionID m of
        None \<Rightarrow> (m, Some ErrSessionNotFound)
      | Some s \<Rightarrow> map_prod id (map_option (ErrWrap ''add WebRTC ICE candidate: '')) (addICECandidate env candidate s m))"

definition CloseManager :: "('p, 'l) voice_env \<Rightarrow> ('p, 'l) voice_manager \<Rightarrow> ('p, 'l) voice_manager" where
  "CloseManager env m =
     (if vg_closed m then m
      else fold (session_close env) (map snd (vg_sessions m)) (m\<lparr> vg_closed := True, vg_sessions := [], vg_rooms := [] \<rparr>))"

definition voice_Stats :: "('p, 'l) voice_env \<Rightarrow> ('p, 'l) voice_manager \<Rightarrow> (string, nat) gomap" where
  "voice_Stats env m =
     [(''rooms'', length (vg_rooms m)), (''peers'', length (vg_sessions m)),
      (''senders'', sum_list (map (\<lambda>(c, s). length (filter (\<lambda>(h, t). t \<noteq> None)
         (pn_GetSenders (ve_pion env) (ss_peer (the_session m s))))) (vg_sessions m)))]"

subsection \<open>Forwarding media (session.go)\<close>

text \<open>The beginning of \<^verbatim>\<open>forwardAudio\<close> and \<^verbatim>\<open>forwardVideo\<close>: the identifier of the track that
  the goroutine now forwards, or None when it returns at once.\<close>

definition audio_track_id :: "string \<Rightarrow> string" where
  "audio_track_id connectionID = ''audio-'' @ connectionID"

definition camera_track_id :: "string \<Rightarrow> string" where
  "camera_track_id connectionID = ''camera-'' @ connectionID"

text \<open>Publishing is the section of \<^verbatim>\<open>addTrack\<close>. When it succeeds, \<^verbatim>\<open>synchronizeSessions\<close> follows, one
  session at a time and with other calls in between: \<open>sync_one\<close> is a step of its own.\<close>

definition publish_track ::
  "roomTrack \<Rightarrow> sref \<Rightarrow> ('p, 'l) voice_manager \<Rightarrow> ('p, 'l) voice_manager \<times> bool" where
  "publish_track t s m =
     (let r = ss_room (the_session m s); (room1, ok) = room_addTrack t (vg_roomHeap m r) in
      if \<not> ok then (m, False) else (upd_room r (\<lambda>_. room1) m, True))"

definition forwardAudio_start ::
  "('p, 'l) voice_env \<Rightarrow> remote_track \<Rightarrow> sref \<Rightarrow> ('p, 'l) voice_manager \<Rightarrow> ('p, 'l) voice_manager \<times> bool" where
  "forwardAudio_start env remote s m =
     (let x = the_session m s in
      if ss_closed x then (m, False)
      else
        (case pn_NewTrack (ve_pion env) remote (audio_track_id (ss_connectionID x)) (''voice-'' @ fmt_d (ss_channelID x)) of
           Inl e \<Rightarrow> (failSession env s ''failed to create outgoing audio track'' m, False)
         | Inr t \<Rightarrow>
             publish_track \<lparr> rt_ownerConnectionID = ss_connectionID x, rt_track = t, rt_requestKeyframe = None \<rparr> s m))"

definition forwardVideo_start ::
  "('p, 'l) voice_env \<Rightarrow> remote_track \<Rightarrow> sref \<Rightarrow> ('p, 'l) voice_manager \<Rightarrow> ('p, 'l) voice_manager \<times> bool" where
  "forwardVideo_start env remote s m =
     (let x = the_session m s in
      if ss_closed x \<or> rm_mimeType remote \<noteq> ''video/VP8'' then (m, False)
      else
        (case pn_NewTrack (ve_pion env) remote (camera_track_id (ss_connectionID x)) (''camera-'' @ fmt_d (ss_channelID x)) of
           Inl e \<Rightarrow> (scheduleFail s ''failed to create webcam track'' m, False)
         | Inr t \<Rightarrow>
             publish_track \<lparr> rt_ownerConnectionID = ss_connectionID x, rt_track = t, rt_requestKeyframe = Some s \<rparr> s m))"

definition onTrack ::
  "('p, 'l) voice_env \<Rightarrow> remote_track \<Rightarrow> sref \<Rightarrow> ('p, 'l) voice_manager \<Rightarrow> ('p, 'l) voice_manager \<times> bool" where
  "onTrack env remote s m =
     (case rm_kind remote of
        KindVideo \<Rightarrow> forwardVideo_start env remote s m
      | KindAudio \<Rightarrow> forwardAudio_start env remote s m
      | _ \<Rightarrow> (m, False))"

text \<open>The deferred end of both: the section of \<^verbatim>\<open>removeTrack\<close>, followed by \<^verbatim>\<open>synchronizeSessions\<close> in the
  same way.\<close>

definition unpublish_track ::
  "string \<Rightarrow> sref \<Rightarrow> ('p, 'l) voice_manager \<Rightarrow> ('p, 'l) voice_manager" where
  "unpublish_track trackID s m =
     (let x = the_session m s; r = ss_room x;
          (room1, removed) = room_removeTrack trackID (ss_connectionID x) (vg_roomHeap m r) in
      if removed then upd_room r (\<lambda>_. room1) m else m)"

text \<open>One packet in the loops: None when the goroutine leaves the loop, otherwise whether the packet
  is written to the listeners.\<close>

definition forward_audio_packet ::
  "('p, 'l) voice_env \<Rightarrow> int \<Rightarrow> sref \<Rightarrow> ('p, 'l) voice_manager \<Rightarrow> ('p, 'l) voice_manager \<times> bool option" where
  "forward_audio_packet env payloadBytes s m =
     (let (ok, l) = limiter_allow (ve_pion env) (vg_now m) payloadBytes (ss_audioBitrate (the_session m s));
          m1 = upd_session s (\<lambda>x. x\<lparr> ss_audioBitrate := l \<rparr>) m in
      if \<not> ok then (scheduleFail s ''audio bitrate limit exceeded'' m1, None)
      else (m1, Some (\<not> ss_selfMute (the_session m s))))"

definition forward_video_packet ::
  "('p, 'l) voice_env \<Rightarrow> int \<Rightarrow> sref \<Rightarrow> ('p, 'l) voice_manager \<Rightarrow> ('p, 'l) voice_manager \<times> bool option" where
  "forward_video_packet env payloadBytes s m =
     (let (ok, l) = limiter_allow (ve_pion env) (vg_now m) payloadBytes (ss_videoBitrate (the_session m s));
          m1 = upd_session s (\<lambda>x. x\<lparr> ss_videoBitrate := l \<rparr>) m in
      if \<not> ok then (scheduleFail s ''webcam bitrate limit exceeded'' m1, None) else (m1, Some True))"

end
