(* ===== verification/VoiceSfuInv.thy ===== *)
theory VoiceSfuInv
  imports VoiceSfuSync
begin

text \<open>
  Runs of the voice media server. Every goroutine inside \<^verbatim>\<open>Join\<close> is at one of its sections
  (\<open>join_pc\<close>); its steps interleave with the steps of the others and with every other call on the
  manager, its sessions and their callbacks. The only restriction is that a connection is not joined
  twice at the same time: the handler takes the frames of a connection one after the other. The
  invariant ties the manager's maps, the rooms and the joins in flight together.
\<close>

datatype 'p join_pc =
    Entered join_args         \<comment> \<open>after \<^verbatim>\<open>m.Leave\<close>\<close>
  | Reserved join_args rref
  | HavePeer join_args rref 'p
  | Installed join_args sref
  | Cancelling join_args rref \<comment> \<open>in the deferred function\<close>
  | Cleaning join_args rref   \<comment> \<open>before the check of \<^verbatim>\<open>removeRoomIfEmpty\<close>\<close>
  | Deleting join_args rref   \<comment> \<open>before its section under \<^verbatim>\<open>m.mu\<close>\<close>
  | Returned_join

record ('p, 'l) voice_system =
  sy_manager :: "('p, 'l) voice_manager"
  sy_joins :: "'p join_pc list"

definition join_next ::
  "('p, 'l) voice_env \<Rightarrow> nat \<Rightarrow> 'p join_pc \<Rightarrow> ('p, 'l) voice_manager \<Rightarrow> ('p, 'l) voice_manager \<times> 'p join_pc" where
  "join_next env n pc m =
     (case pc of
        Entered a \<Rightarrow>
          (case join_reserve (ja_channelID a) m of
             (m1, Inl e) \<Rightarrow> (m1, Returned_join)
           | (m1, Inr r) \<Rightarrow> (m1, Reserved a r))
      | Reserved a r \<Rightarrow>
          (case join_peer env n of Inl e \<Rightarrow> (m, Cancelling a r) | Inr peer \<Rightarrow> (m, HavePeer a r peer))
      | HavePeer a r peer \<Rightarrow>
          (case join_install env a r peer m of
             (m1, Inl e) \<Rightarrow> (m1, Cancelling a r)
           | (m1, Inr s) \<Rightarrow> (m1, Installed a s))
      | Installed a s \<Rightarrow> (fst (join_finish env a s m), Returned_join)
      | Cancelling a r \<Rightarrow> (join_cancel r m, Cleaning a r)
      | Cleaning a r \<Rightarrow> (m, if room_empty (vg_roomHeap m r) then Deleting a r else Returned_join)
      | Deleting a r \<Rightarrow> (remove_room_locked (ja_channelID a) r m, Returned_join)
      | Returned_join \<Rightarrow> (m, Returned_join))"

fun pc_conn :: "'p join_pc \<Rightarrow> string option" where
  "pc_conn (Entered a) = Some (ja_connectionID a)"
| "pc_conn (Reserved a r) = Some (ja_connectionID a)"
| "pc_conn (HavePeer a r p) = Some (ja_connectionID a)"
| "pc_conn (Installed a s) = Some (ja_connectionID a)"
| "pc_conn (Cancelling a r) = Some (ja_connectionID a)"
| "pc_conn (Cleaning a r) = Some (ja_connectionID a)"
| "pc_conn (Deleting a r) = Some (ja_connectionID a)"
| "pc_conn Returned_join = None"

definition join_valid :: "join_args \<Rightarrow> bool" where
  "join_valid a \<longleftrightarrow> ja_connectionID a \<noteq> '''' \<and> ja_userID a > 0 \<and> ja_serverID a > 0 \<and> ja_channelID a > 0"

text \<open>Every other call: requests of the handler and the hub, callbacks of Pion, tasks and timers.\<close>

inductive voice_call :: "('p, 'l) voice_env \<Rightarrow> ('p, 'l) voice_manager \<Rightarrow> ('p, 'l) voice_manager \<Rightarrow> bool"
  for env where
  call_Leave: "voice_call env m (Leave env c m)"
| call_SetState: "voice_call env m (fst (SetState env c mute deaf m))"
| call_AcceptAnswer: "voice_call env m (fst (AcceptAnswer env c sdp m))"
| call_AddICECandidate: "voice_call env m (fst (AddICECandidate env c candidate m))"
| call_Close: "voice_call env m (CloseManager env m)"
| run_task: "vg_tasks m = (s, reason) # rest \<Longrightarrow> voice_call env m (failSession env s reason (m\<lparr> vg_tasks := rest \<rparr>))"
| deadline_expired: "voice_call env m (failSession env s reason m)"
| recovery_attempt: "voice_call env m (fst (restartICE env s m))"
| recovery_over: "voice_call env m (recovery_exhausted env s m)"
| on_candidate: "voice_call env m (onICECandidate env candidate s m)"
| on_state: "voice_call env m (handleConnectionState state s m)"
| on_track: "voice_call env m (fst (onTrack env remote s m))"
| audio_packet: "voice_call env m (fst (forward_audio_packet env n s m))"
| video_packet: "voice_call env m (fst (forward_video_packet env n s m))"
| track_ended: "voice_call env m (unpublish_track trackID s m)"
| resync: "voice_call env m (sync_one env s m)"
| keyframe: "voice_call env m (requestKeyframe s m)"
| elapse: "vg_now m \<le> t \<Longrightarrow> voice_call env m (m\<lparr> vg_now := t \<rparr>)"

inductive voice_step :: "('p, 'l) voice_env \<Rightarrow> ('p, 'l) voice_system \<Rightarrow> ('p, 'l) voice_system \<Rightarrow> bool"
  for env where
  join_enter: "join_valid a \<Longrightarrow> \<forall>pc \<in> set (sy_joins y). pc_conn pc \<noteq> Some (ja_connectionID a) \<Longrightarrow>
     voice_step env y (y\<lparr> sy_manager := Leave env (ja_connectionID a) (sy_manager y),
                          sy_joins := sy_joins y @ [Entered a] \<rparr>)"
| join_continue: "i < length (sy_joins y) \<Longrightarrow> join_next env n (sy_joins y ! i) (sy_manager y) = (m', pc') \<Longrightarrow>
     voice_step env y (y\<lparr> sy_manager := m', sy_joins := (sy_joins y)[i := pc'] \<rparr>)"
| call: "voice_call env (sy_manager y) m' \<Longrightarrow> voice_step env y (y\<lparr> sy_manager := m' \<rparr>)"

definition new_voice_manager :: "int \<Rightarrow> int \<Rightarrow> int \<Rightarrow> ('p, 'l) voice_session \<Rightarrow> ('p, 'l) voice_manager" where
  "new_voice_manager maxParticipants maxAudioBitrateKbps now blank =
     \<lparr> vg_roomHeap = (\<lambda>_. voice_newRoom 0), vg_sessionHeap = (\<lambda>_. blank\<lparr> ss_pendingCandidates := [] \<rparr>), vg_nextRoom = 1, vg_nextSession = 1,
        vg_rooms = [], vg_sessions = [], vg_closed = False, vg_maxParticipants = maxParticipants,
        vg_maxAudioBitrateKbps = maxAudioBitrateKbps, vg_tasks = [], vg_signals = [], vg_now = now \<rparr>"

definition new_voice_system :: "int \<Rightarrow> int \<Rightarrow> int \<Rightarrow> ('p, 'l) voice_session \<Rightarrow> ('p, 'l) voice_system" where
  "new_voice_system maxParticipants maxAudioBitrateKbps now blank =
     \<lparr> sy_manager = new_voice_manager maxParticipants maxAudioBitrateKbps now blank, sy_joins = [] \<rparr>"

subsection \<open>Invariant\<close>

text \<open>The joins that hold a reservation, with the room it is in, and those that have not installed
  their session.\<close>

fun pc_holds :: "'p join_pc \<Rightarrow> (join_args \<times> rref) option" where
  "pc_holds (Reserved a r) = Some (a, r)"
| "pc_holds (HavePeer a r p) = Some (a, r)"
| "pc_holds (Cancelling a r) = Some (a, r)"
| "pc_holds pc = None"

fun pc_awaits :: "'p join_pc \<Rightarrow> string option" where
  "pc_awaits (Entered a) = Some (ja_connectionID a)"
| "pc_awaits (Reserved a r) = Some (ja_connectionID a)"
| "pc_awaits (HavePeer a r p) = Some (ja_connectionID a)"
| "pc_awaits pc = None"

fun pc_cleans :: "'p join_pc \<Rightarrow> (int \<times> rref) option" where
  "pc_cleans (Cleaning a r) = Some (ja_channelID a, r)"
| "pc_cleans (Deleting a r) = Some (ja_channelID a, r)"
| "pc_cleans pc = None"

definition held :: "rref \<Rightarrow> 'p join_pc list \<Rightarrow> int" where
  "held r joins = int (length (filter (\<lambda>pc. \<exists>a. pc_holds pc = Some (a, r)) joins))"

definition tracks_ok :: "voice_room \<Rightarrow> bool" where
  "tracks_ok r \<longleftrightarrow>
     tracks_keyed r \<and> distinct (map fst (vr_tracks r)) \<and>
     (\<forall>(k, t) \<in> set (vr_tracks r). map_of (vr_sessions r) (rt_ownerConnectionID t) \<noteq> None) \<and>
     (\<forall>(k, t) \<in> set (vr_tracks r). \<forall>(k', t') \<in> set (vr_tracks r).
        rt_ownerConnectionID t = rt_ownerConnectionID t' \<and> lt_kind (rt_track t) = lt_kind (rt_track t') \<longrightarrow> k = k')"

lemma tracks_ok_reservations [simp]: "tracks_ok (r\<lparr> vr_reservations := n \<rparr>) = tracks_ok r"
  by (simp add: tracks_ok_def tracks_keyed_def)

declare map_of_eq_Some_iff [simp del]

definition room_ok :: "int \<Rightarrow> int \<Rightarrow> voice_room \<Rightarrow> bool" where
  "room_ok maximum reserved r \<longleftrightarrow>
     vr_reservations r = reserved \<and> int (length (vr_sessions r)) + vr_reservations r \<le> maximum \<and>
     distinct (map fst (vr_sessions r)) \<and> tracks_ok r"

definition session_ok :: "('p, 'l) voice_manager \<Rightarrow> string \<Rightarrow> sref \<Rightarrow> bool" where
  "session_ok m c s \<longleftrightarrow>
     0 < s \<and> s < vg_nextSession m \<and> \<not> ss_closed (the_session m s) \<and> ss_connectionID (the_session m s) = c \<and>
     map_of (vg_rooms m) (ss_channelID (the_session m s)) = Some (ss_room (the_session m s)) \<and>
     map_of (vr_sessions (the_room m s)) c = Some s"

definition manager_ok :: "('p, 'l) voice_manager \<Rightarrow> bool" where
  "manager_ok m \<longleftrightarrow>
     2 \<le> vg_maxParticipants m \<and> 0 < vg_nextSession m \<and>
     distinct (map fst (vg_rooms m)) \<and> distinct (map fst (vg_sessions m)) \<and>
     (\<forall>ch r. map_of (vg_rooms m) ch = Some r \<longrightarrow> r < vg_nextRoom m) \<and>
     (\<forall>ch ch' r. map_of (vg_rooms m) ch = Some r \<and> map_of (vg_rooms m) ch' = Some r \<longrightarrow> ch = ch') \<and>
     (\<forall>c s. map_of (vg_sessions m) c = Some s \<longrightarrow> session_ok m c s) \<and>
     (\<forall>ch r c s. map_of (vg_rooms m) ch = Some r \<and> map_of (vr_sessions (vg_roomHeap m r)) c = Some s \<longrightarrow>
        map_of (vg_sessions m) c = Some s \<and> ss_room (the_session m s) = r) \<and>
     (vg_closed m \<longrightarrow> vg_rooms m = [] \<and> vg_sessions m = []) \<and>
     (\<forall>s. length (ss_pendingCandidates (the_session m s)) \<le> MaxPendingICECandidates)"

definition unique_joins :: "'p join_pc list \<Rightarrow> bool" where
  "unique_joins joins \<longleftrightarrow>
     (\<forall>i < length joins. \<forall>j < length joins. \<forall>c.
        pc_conn (joins ! i) = Some c \<and> pc_conn (joins ! j) = Some c \<longrightarrow> i = j)"

definition joins_ok :: "('p, 'l) voice_manager \<Rightarrow> 'p join_pc list \<Rightarrow> bool" where
  "joins_ok m joins \<longleftrightarrow>
     (\<forall>r. room_ok (vg_maxParticipants m) (held r joins) (vg_roomHeap m r)) \<and>
     (\<forall>pc \<in> set joins. \<forall>a r. pc_holds pc = Some (a, r) \<longrightarrow>
        r < vg_nextRoom m \<and> (\<not> vg_closed m \<longrightarrow> map_of (vg_rooms m) (ja_channelID a) = Some r)) \<and>
     (\<forall>pc \<in> set joins. \<forall>c. pc_awaits pc = Some c \<longrightarrow> map_of (vg_sessions m) c = None) \<and>
     unique_joins joins \<and>
     (\<forall>ch r. map_of (vg_rooms m) ch = Some r \<and> room_empty (vg_roomHeap m r) \<longrightarrow>
        (\<exists>pc \<in> set joins. pc_cleans pc = Some (ch, r)))"

definition system_ok :: "('p, 'l) voice_system \<Rightarrow> bool" where
  "system_ok y \<longleftrightarrow> manager_ok (sy_manager y) \<and> joins_ok (sy_manager y) (sy_joins y)"

lemma manager_okI:
  assumes "2 \<le> vg_maxParticipants m" "0 < vg_nextSession m" "distinct (map fst (vg_rooms m))" "distinct (map fst (vg_sessions m))"
    and "\<And>ch r. map_of (vg_rooms m) ch = Some r \<Longrightarrow> r < vg_nextRoom m"
    and "\<And>ch ch' r. map_of (vg_rooms m) ch = Some r \<Longrightarrow> map_of (vg_rooms m) ch' = Some r \<Longrightarrow> ch = ch'"
    and "\<And>c s. map_of (vg_sessions m) c = Some s \<Longrightarrow> session_ok m c s"
    and "\<And>ch r c s. map_of (vg_rooms m) ch = Some r \<Longrightarrow> map_of (vr_sessions (vg_roomHeap m r)) c = Some s \<Longrightarrow>
        map_of (vg_sessions m) c = Some s \<and> ss_room (the_session m s) = r"
    and "vg_closed m \<Longrightarrow> vg_rooms m = [] \<and> vg_sessions m = []"
    and "\<And>s. length (ss_pendingCandidates (the_session m s)) \<le> MaxPendingICECandidates"
  shows "manager_ok m"
  using assms unfolding manager_ok_def by blast

lemma manager_okD:
  assumes "manager_ok m"
  shows "2 \<le> vg_maxParticipants m" "0 < vg_nextSession m" "distinct (map fst (vg_rooms m))" "distinct (map fst (vg_sessions m))"
    and "vg_closed m \<Longrightarrow> vg_rooms m = [] \<and> vg_sessions m = []"
    and "length (ss_pendingCandidates (the_session m s)) \<le> MaxPendingICECandidates"
  using assms unfolding manager_ok_def by blast+

lemma joins_okI:
  assumes "\<And>r. room_ok (vg_maxParticipants m) (held r joins) (vg_roomHeap m r)"
    and "\<And>pc a r. pc \<in> set joins \<Longrightarrow> pc_holds pc = Some (a, r) \<Longrightarrow> r < vg_nextRoom m"
    and "\<And>pc a r. pc \<in> set joins \<Longrightarrow> pc_holds pc = Some (a, r) \<Longrightarrow> \<not> vg_closed m \<Longrightarrow>
        map_of (vg_rooms m) (ja_channelID a) = Some r"
    and "\<And>pc c. pc \<in> set joins \<Longrightarrow> pc_awaits pc = Some c \<Longrightarrow> map_of (vg_sessions m) c = None"
    and "unique_joins joins"
    and "\<And>ch r. map_of (vg_rooms m) ch = Some r \<Longrightarrow> room_empty (vg_roomHeap m r) \<Longrightarrow>
        \<exists>pc \<in> set joins. pc_cleans pc = Some (ch, r)"
  shows "joins_ok m joins"
  using assms unfolding joins_ok_def by blast

lemma joins_okD:
  assumes "joins_ok m joins"
  shows "room_ok (vg_maxParticipants m) (held r joins) (vg_roomHeap m r)"
    and "pc \<in> set joins \<Longrightarrow> pc_holds pc = Some (a, r) \<Longrightarrow> r < vg_nextRoom m"
    and "pc \<in> set joins \<Longrightarrow> pc_holds pc = Some (a, r) \<Longrightarrow> \<not> vg_closed m \<Longrightarrow>
        map_of (vg_rooms m) (ja_channelID a) = Some r"
    and "pc \<in> set joins \<Longrightarrow> pc_awaits pc = Some c \<Longrightarrow> map_of (vg_sessions m) c = None"
    and "unique_joins joins"
    and "map_of (vg_rooms m) ch = Some r \<Longrightarrow> room_empty (vg_roomHeap m r) \<Longrightarrow>
        \<exists>pc \<in> set joins. pc_cleans pc = Some (ch, r)"
  using assms unfolding joins_ok_def by blast+

lemma room_allocated: "manager_ok m \<Longrightarrow> map_of (vg_rooms m) ch = Some r \<Longrightarrow> r < vg_nextRoom m"
  unfolding manager_ok_def by blast

lemma room_unique:
  "manager_ok m \<Longrightarrow> map_of (vg_rooms m) ch = Some r \<Longrightarrow> map_of (vg_rooms m) ch' = Some r \<Longrightarrow> ch = ch'"
  unfolding manager_ok_def by blast

lemma session_registered: "manager_ok m \<Longrightarrow> map_of (vg_sessions m) c = Some s \<Longrightarrow> session_ok m c s"
  unfolding manager_ok_def by blast

lemma room_member:
  assumes "manager_ok m" and "map_of (vg_rooms m) ch = Some r" and "map_of (vr_sessions (vg_roomHeap m r)) c = Some s"
  shows "map_of (vg_sessions m) c = Some s" and "ss_room (the_session m s) = r"
  using assms unfolding manager_ok_def by blast+

lemma new_system_ok: "2 \<le> maximum \<Longrightarrow> system_ok (new_voice_system maximum bitrate now blank)"
  by (simp add: system_ok_def new_voice_system_def new_voice_manager_def manager_ok_def joins_ok_def room_ok_def
      tracks_ok_def tracks_keyed_def held_def voice_newRoom_def unique_joins_def)

lemma quiet_manager_ok:
  assumes "manager_ok m" and "quiet m m'"
  shows "manager_ok m'"
proof -
  have "session_ok m' c s" if "map_of (vg_sessions m) c = Some s" for c s
  proof -
    have "s \<in> ran (map_of (vg_sessions m))" using that by (auto simp: ran_def)
    moreover have "session_ok m c s" using assms(1) that by (simp add: manager_ok_def)
    ultimately show ?thesis using assms(2) by (auto simp: session_ok_def quiet_def)
  qed
  with assms show ?thesis by (auto simp: manager_ok_def quiet_def)
qed

lemma quiet_index:
  assumes "quiet m m'"
  shows "vg_roomHeap m' = vg_roomHeap m" "vg_nextRoom m' = vg_nextRoom m" "vg_rooms m' = vg_rooms m"
    "vg_sessions m' = vg_sessions m" "vg_closed m' = vg_closed m" "vg_maxParticipants m' = vg_maxParticipants m"
  using assms by (simp_all add: quiet_def)

lemma quiet_joins_ok: "joins_ok m joins \<Longrightarrow> quiet m m' \<Longrightarrow> joins_ok m' joins"
  by (simp add: joins_ok_def quiet_index)

lemma quiet_system_ok: "system_ok y \<Longrightarrow> quiet (sy_manager y) m' \<Longrightarrow> system_ok (y\<lparr> sy_manager := m' \<rparr>)"
  by (auto simp: system_ok_def intro: quiet_manager_ok quiet_joins_ok)

subsection \<open>Leaving\<close>

lemma tracks_ok_remove: "tracks_ok r \<Longrightarrow> tracks_ok (fst (room_removeSession c r))"
  by (fastforce simp: tracks_ok_def tracks_keyed_def room_removeSession_def Let_def distinct_map_filter)

lemma room_ok_remove:
  assumes "room_ok maximum reserved r"
  shows "room_ok maximum reserved (fst (room_removeSession c r))"
proof -
  have "length (AList.delete c (vr_sessions r)) \<le> length (vr_sessions r)" by (rule length_delete_le)
  with assms tracks_ok_remove[of r c] show ?thesis
    by (auto simp: room_ok_def room_removeSession_def Let_def)
qed

lemma room_ok_removeTrack:
  assumes "room_ok maximum reserved r"
  shows "room_ok maximum reserved (fst (room_removeTrack k c r))"
proof -
  have "tracks_ok (r\<lparr> vr_tracks := AList.delete k (vr_tracks r) \<rparr>)"
    using assms set_delete_subset[of k "vr_tracks r"] unfolding room_ok_def tracks_ok_def tracks_keyed_def
    by (auto 0 3)
  with assms show ?thesis by (auto simp: room_ok_def room_removeTrack_def split: option.split)
qed

lemma tracks_ok_update:
  assumes "tracks_ok r" and "map_of (vr_sessions r) (rt_ownerConnectionID t) \<noteq> None"
    and new: "\<And>k t'. (k, t') \<in> set (vr_tracks r) \<Longrightarrow>
        \<not> (rt_ownerConnectionID t' = rt_ownerConnectionID t \<and> lt_kind (rt_track t') = lt_kind (rt_track t))"
  shows "tracks_ok (r\<lparr> vr_tracks := AList.update (lt_id (rt_track t)) t (vr_tracks r) \<rparr>)"
proof -
  have elem: "(k, t') = (lt_id (rt_track t), t) \<or> (k, t') \<in> set (vr_tracks r)"
    if "(k, t') \<in> set (AList.update (lt_id (rt_track t)) t (vr_tracks r))" for k t'
    using that set_update_subset[of "lt_id (rt_track t)" t "vr_tracks r"] by blast
  have uniq: "k = k'" if "(k, t1) \<in> set (vr_tracks r)" "(k', t2) \<in> set (vr_tracks r)"
      "rt_ownerConnectionID t1 = rt_ownerConnectionID t2" "lt_kind (rt_track t1) = lt_kind (rt_track t2)" for k k' t1 t2
    using assms(1) that unfolding tracks_ok_def by blast
  have "distinct (map fst (AList.update (lt_id (rt_track t)) t (vr_tracks r)))"
    using assms(1) by (simp add: tracks_ok_def)
  moreover have "k = k'" if "(k, t1) \<in> set (AList.update (lt_id (rt_track t)) t (vr_tracks r))"
      "(k', t2) \<in> set (AList.update (lt_id (rt_track t)) t (vr_tracks r))"
      "rt_ownerConnectionID t1 = rt_ownerConnectionID t2" "lt_kind (rt_track t1) = lt_kind (rt_track t2)" for k k' t1 t2
    using elem[OF that(1)] elem[OF that(2)] uniq[OF _ _ that(3,4)] new[of k t1] new[of k' t2] that(3,4) by auto
  moreover have "lt_id (rt_track t') = k \<and> map_of (vr_sessions r) (rt_ownerConnectionID t') \<noteq> None"
    if "(k, t') \<in> set (AList.update (lt_id (rt_track t)) t (vr_tracks r))" for k t'
    using elem[OF that] assms(1,2) unfolding tracks_ok_def tracks_keyed_def by blast
  ultimately show ?thesis unfolding tracks_ok_def tracks_keyed_def by (simp, blast)
qed

lemma room_ok_addTrack:
  assumes "room_ok maximum reserved r"
  shows "room_ok maximum reserved (fst (room_addTrack t r))"
proof (cases "snd (room_addTrack t r)")
  case True
  then have own: "map_of (vr_sessions r) (rt_ownerConnectionID t) \<noteq> None"
    and new: "\<And>k t'. (k, t') \<in> set (vr_tracks r) \<Longrightarrow>
        \<not> (rt_ownerConnectionID t' = rt_ownerConnectionID t \<and> lt_kind (rt_track t') = lt_kind (rt_track t))"
    and r: "fst (room_addTrack t r) = r\<lparr> vr_tracks := AList.update (lt_id (rt_track t)) t (vr_tracks r) \<rparr>"
    by (auto simp: room_addTrack_def list_ex_iff split: if_splits)
  have "tracks_ok (r\<lparr> vr_tracks := AList.update (lt_id (rt_track t)) t (vr_tracks r) \<rparr>)"
    using assms own new by (intro tracks_ok_update) (auto simp: room_ok_def)
  with assms show ?thesis by (simp add: r room_ok_def)
next
  case False
  with assms show ?thesis by (auto simp: room_addTrack_def split: if_splits)
qed

lemma held_pos: "pc \<in> set joins \<Longrightarrow> pc_holds pc = Some (a, r) \<Longrightarrow> 0 < held r joins"
  by (auto simp: held_def filter_empty_conv)

text \<open>The state after the locked section of \<^verbatim>\<open>leave\<close>.\<close>

lemma leave_locked_cases:
  assumes "leave_locked c expected m = Some (m', s, sync)"
  obtains r room1 where "map_of (vg_sessions m) c = Some s" "r = ss_room (the_session m s)"
    "room1 = fst (room_removeSession c (vg_roomHeap m r))" "expected = None \<or> expected = Some s"
    "m' = (if room_empty room1 \<and> map_of (vg_rooms m) (ss_channelID (the_session m s)) = Some r
       then (m\<lparr> vg_sessions := AList.delete c (vg_sessions m),
               vg_sessionHeap := (vg_sessionHeap m)(s := (the_session m s)\<lparr> ss_closed := True \<rparr>),
               vg_roomHeap := (vg_roomHeap m)(r := room1),
               vg_rooms := AList.delete (ss_channelID (the_session m s)) (vg_rooms m) \<rparr>)
       else (m\<lparr> vg_sessions := AList.delete c (vg_sessions m),
               vg_sessionHeap := (vg_sessionHeap m)(s := (the_session m s)\<lparr> ss_closed := True \<rparr>),
               vg_roomHeap := (vg_roomHeap m)(r := room1) \<rparr>))"
  using assms
  by (fastforce simp: leave_locked_def upd_session_def upd_room_def Let_def split_beta split: option.splits if_splits)

definition leaving ::
  "('p, 'l) voice_manager \<Rightarrow> string \<Rightarrow> sref \<Rightarrow> ('p, 'l) voice_manager \<Rightarrow> rref \<Rightarrow> voice_room \<Rightarrow> int \<Rightarrow> bool \<Rightarrow> bool" where
  "leaving m c s m' r room1 ch gone \<longleftrightarrow>
     manager_ok m \<and> map_of (vg_sessions m) c = Some s \<and> r = ss_room (the_session m s) \<and>
     ch = ss_channelID (the_session m s) \<and> room1 = fst (room_removeSession c (vg_roomHeap m r)) \<and>
     (gone \<longleftrightarrow> room_empty room1 \<and> map_of (vg_rooms m) ch = Some r) \<and>
     m' = m\<lparr> vg_sessions := AList.delete c (vg_sessions m),
            vg_sessionHeap := (vg_sessionHeap m)(s := (the_session m s)\<lparr> ss_closed := True \<rparr>),
            vg_roomHeap := (vg_roomHeap m)(r := room1),
            vg_rooms := (if gone then AList.delete ch (vg_rooms m) else vg_rooms m) \<rparr>"

lemma leavingD:
  assumes "leaving m c s m' r room1 ch gone"
  shows "manager_ok m" "map_of (vg_sessions m) c = Some s" "r = ss_room (the_session m s)"
    "ch = ss_channelID (the_session m s)" "room1 = fst (room_removeSession c (vg_roomHeap m r))"
    "gone \<longleftrightarrow> room_empty room1 \<and> map_of (vg_rooms m) ch = Some r"
    "m' = m\<lparr> vg_sessions := AList.delete c (vg_sessions m),
            vg_sessionHeap := (vg_sessionHeap m)(s := (the_session m s)\<lparr> ss_closed := True \<rparr>),
            vg_roomHeap := (vg_roomHeap m)(r := room1),
            vg_rooms := (if gone then AList.delete ch (vg_rooms m) else vg_rooms m) \<rparr>"
  using assms unfolding leaving_def by blast+


lemma left_here:
  assumes L: "leaving m c s m' r room1 ch gone"
  shows "session_ok m c s" "map_of (vg_rooms m) ch = Some r"
proof -
  show ok: "session_ok m c s" by (rule session_registered[OF leavingD(1,2)[OF L]])
  then show "map_of (vg_rooms m) ch = Some r" using leavingD(3,4)[OF L] by (simp add: session_ok_def)
qed

lemma left_sessions:
  assumes L: "leaving m c s m' r room1 ch gone"
  shows "vr_sessions room1 = AList.delete c (vr_sessions (vg_roomHeap m r))"
  using leavingD(5)[OF L] by (simp add: room_removeSession_def Let_def)

lemma left_rooms:
  assumes L: "leaving m c s m' r room1 ch gone"
  shows "map_of (vg_rooms m') ch1 = Some r1 \<longleftrightarrow> map_of (vg_rooms m) ch1 = Some r1 \<and> \<not> (gone \<and> r1 = r)"
proof -
  have "map_of (vg_rooms m') ch1 = (if gone \<and> ch1 = ch then None else map_of (vg_rooms m) ch1)" 
    using leavingD(7)[OF L] by simp
  then show ?thesis
    using left_here(2)[OF L] room_unique[OF leavingD(1)[OF L], of ch1 r ch] by (metis option.distinct(1) option.inject)
qed

lemma left_other_session:
  assumes L: "leaving m c s m' r room1 ch gone" and "map_of (vg_sessions m) c1 = Some s1" and "c1 \<noteq> c"
  shows "session_ok m' c1 s1"
proof -
  note ok = leavingD(1)[OF L] and at = leavingD(2)[OF L] and r = leavingD(3)[OF L] and gone = leavingD(6)[OF L]
    and m' = leavingD(7)[OF L] and room1 = leavingD(5)[OF L]
  note here = left_here[OF L] and sessions1 = left_sessions[OF L] and rooms' = left_rooms[OF L]
  have ok1: "session_ok m c1 s1" using ok assms(2) by (simp add: manager_ok_def)
  with here(1) assms(3) have ne: "s1 \<noteq> s" by (auto simp: session_ok_def)
  let ?r1 = "ss_room (the_session m s1)"
  have "map_of (vr_sessions (vg_roomHeap m' ?r1)) c1 = Some s1"
    using ok1 assms(3) by (auto simp: session_ok_def m' sessions1)
  moreover from this have "\<not> (gone \<and> ?r1 = r)"
    by (auto simp: gone room_empty_def m')
  ultimately show ?thesis
    using ok1 ne rooms'[of "ss_channelID (the_session m s1)" ?r1] unfolding session_ok_def by (simp add: m')
qed

lemma left_manager_ok:
  assumes L: "leaving m c s m' r room1 ch gone"
  shows "manager_ok m'"
proof -
  note ok = leavingD(1)[OF L] and at = leavingD(2)[OF L] and r = leavingD(3)[OF L] and gone = leavingD(6)[OF L]
    and m' = leavingD(7)[OF L] and room1 = leavingD(5)[OF L]
  note here = left_here[OF L] and sessions1 = left_sessions[OF L] and rooms' = left_rooms[OF L]
  show ?thesis
proof (rule manager_okI)
  fix ch1 r1 c1 s1
  assume rm': "map_of (vg_rooms m') ch1 = Some r1" and in': "map_of (vr_sessions (vg_roomHeap m' r1)) c1 = Some s1"
  have rm: "map_of (vg_rooms m) ch1 = Some r1" using rm' rooms' by blast
  have in1: "map_of (vr_sessions (vg_roomHeap m r1)) c1 = Some s1" "r1 = r \<Longrightarrow> c1 \<noteq> c"
    using in' by (auto simp: m' sessions1 split: if_splits)
  have "map_of (vg_sessions m) c1 = Some s1" "ss_room (the_session m s1) = r1"
    using room_member[OF ok rm in1(1)] by blast+
  moreover from this have "c1 \<noteq> c" using in1(2) at r by auto
  ultimately show "map_of (vg_sessions m') c1 = Some s1 \<and> ss_room (the_session m' s1) = r1"
    by (auto simp: m')
next
  fix c1 s1 assume "map_of (vg_sessions m') c1 = Some s1"
  then show "session_ok m' c1 s1" using left_other_session[OF L, of c1 s1] by (auto simp: m' split: if_splits)
next
  show "r1 < vg_nextRoom m'" if "map_of (vg_rooms m') ch1 = Some r1" for ch1 r1
    using room_allocated[OF ok, of ch1 r1] that rooms'[of ch1 r1] by (simp add: m')
next
  show "ch1 = ch2" if "map_of (vg_rooms m') ch1 = Some r1" "map_of (vg_rooms m') ch2 = Some r1" for ch1 ch2 r1
    using that room_unique[OF ok] rooms' by blast
next
  show "vg_rooms m' = [] \<and> vg_sessions m' = []" if "vg_closed m'"
    using manager_okD(5)[OF ok] here(2) that by (simp add: m')
qed (use manager_okD[OF ok] in \<open>simp_all add: m'\<close>)
qed

lemma left_joins_ok:
  assumes L: "leaving m c s m' r room1 ch gone" and js: "joins_ok m joins"
  shows "joins_ok m' joins"
proof -
  note ok = leavingD(1)[OF L] and at = leavingD(2)[OF L] and r = leavingD(3)[OF L] and gone = leavingD(6)[OF L]
    and m' = leavingD(7)[OF L] and room1 = leavingD(5)[OF L]
  note here = left_here[OF L] and sessions1 = left_sessions[OF L] and rooms' = left_rooms[OF L]
  have rooms: "room_ok (vg_maxParticipants m') (held r1 joins) (vg_roomHeap m' r1)" for r1
    using room_ok_remove[OF joins_okD(1)[OF js], of r c] joins_okD(1)[OF js, of r1] by (simp add: m' room1)
  have empty: "gone \<Longrightarrow> held r joins = 0"
    using rooms[of r] by (simp add: gone room_ok_def room_empty_def m')
  show ?thesis
  proof (rule joins_okI[OF rooms])
    fix pc a r1 assume pc: "pc \<in> set joins" "pc_holds pc = Some (a, r1)"
    then show "r1 < vg_nextRoom m'" using joins_okD(2)[OF js] by (simp add: m')
    assume "\<not> vg_closed m'"
    then have "map_of (vg_rooms m) (ja_channelID a) = Some r1" using joins_okD(3)[OF js pc] by (simp add: m')
    moreover have "\<not> (gone \<and> r1 = r)" using held_pos[OF pc] empty by auto
    ultimately show "map_of (vg_rooms m') (ja_channelID a) = Some r1" using rooms' by blast
  next
    fix pc c1 assume "pc \<in> set joins" "pc_awaits pc = Some c1"
    then show "map_of (vg_sessions m') c1 = None" using joins_okD(4)[OF js] by (simp add: m')
  next
    fix ch1 r1 assume at1: "map_of (vg_rooms m') ch1 = Some r1" and em: "room_empty (vg_roomHeap m' r1)"
    have rm: "map_of (vg_rooms m) ch1 = Some r1" "\<not> (gone \<and> r1 = r)" using at1 rooms' by blast+
    have "r1 \<noteq> r"
    proof
      assume "r1 = r"
      with em have "room_empty room1" by (simp add: m')
      with rm \<open>r1 = r\<close> here(2) show False by (simp add: gone)
    qed
    with em joins_okD(6)[OF js rm(1)] show "\<exists>pc \<in> set joins. pc_cleans pc = Some (ch1, r1)" by (simp add: m')
  qed (rule joins_okD(5)[OF js])
qed


lemma leave_locked_leaving:
  assumes "manager_ok m" and "leave_locked c expected m = Some (m', s, sync)"
  shows "\<exists>r room1 ch gone. leaving m c s m' r room1 ch gone"
proof -
  from assms(2) obtain r room1 where
      "map_of (vg_sessions m) c = Some s" "r = ss_room (the_session m s)"
      "room1 = fst (room_removeSession c (vg_roomHeap m r))"
      "m' = m\<lparr> vg_sessions := AList.delete c (vg_sessions m),
            vg_sessionHeap := (vg_sessionHeap m)(s := (the_session m s)\<lparr> ss_closed := True \<rparr>),
            vg_roomHeap := (vg_roomHeap m)(r := room1),
            vg_rooms := (if room_empty room1 \<and> map_of (vg_rooms m) (ss_channelID (the_session m s)) = Some r
              then AList.delete (ss_channelID (the_session m s)) (vg_rooms m) else vg_rooms m) \<rparr>"
    by (cases rule: leave_locked_cases) (auto split: if_splits)
  with assms(1) show ?thesis unfolding leaving_def by blast
qed

lemma leaving_unregistered:
  assumes L: "leaving m c s m' r room1 ch gone"
  shows "s \<notin> ran (map_of (vg_sessions m'))"
proof
  assume "s \<in> ran (map_of (vg_sessions m'))"
  then obtain c1 where c1: "map_of (vg_sessions m) c1 = Some s" "c1 \<noteq> c"
    using leavingD(7)[OF L] by (auto simp: ran_def split: if_splits)
  from session_registered[OF leavingD(1)[OF L] c1(1)] left_here(1)[OF L] c1(2) show False
    by (simp add: session_ok_def)
qed

lemma leave_ok:
  assumes "manager_ok m" and "joins_ok m joins"
  shows "manager_ok (fst (leave env c expected m)) \<and> joins_ok (fst (leave env c expected m)) joins"
proof (cases "c = '''' \<or> leave_locked c expected m = None")
  case True
  with assms show ?thesis by (auto simp: leave_def)
next
  case False
  then obtain m1 s sync where l: "leave_locked c expected m = Some (m1, s, sync)" "c \<noteq> ''''" by auto
  obtain r room1 ch gone where L: "leaving m c s m1 r room1 ch gone"
    using leave_locked_leaving[OF assms(1) l(1)] by blast
  have "quiet m1 (session_close env s m1)" by (rule quiet_session_close[OF leaving_unregistered[OF L]])
  then have "quiet m1 (fst (leave env c expected m))"
    using l by (auto simp: leave_def Let_def intro: quiet_trans)
  then show ?thesis
    using left_manager_ok[OF L] left_joins_ok[OF L assms(2)] by (blast intro: quiet_manager_ok quiet_joins_ok)
qed

lemma Leave_ok:
  "manager_ok m \<Longrightarrow> joins_ok m joins \<Longrightarrow> manager_ok (Leave env c m) \<and> joins_ok (Leave env c m) joins"
  unfolding Leave_def by (rule leave_ok)

lemma failSession_ok:
  assumes "manager_ok m" and "joins_ok m joins"
  shows "manager_ok (failSession env s reason m) \<and> joins_ok (failSession env s reason m) joins"
proof -
  let ?m = "fst (leave env (ss_connectionID (the_session m s)) (Some s) m)"
  have ok: "manager_ok ?m" "joins_ok ?m joins" using leave_ok[OF assms] by blast+
  have "manager_ok (fst (sink_call env sig ?m))" "joins_ok (fst (sink_call env sig ?m)) joins" for sig
    by (rule quiet_manager_ok[OF ok(1) quiet_sink_call], rule quiet_joins_ok[OF ok(2) quiet_sink_call])
  with ok assms show ?thesis by (simp add: failSession_def Let_def split_beta)
qed

subsection \<open>Tracks\<close>

lemma upd_room_ok:
  assumes "manager_ok m" and "joins_ok m joins"
    and "vr_sessions room1 = vr_sessions (vg_roomHeap m r)" "vr_reservations room1 = vr_reservations (vg_roomHeap m r)"
    and "room_ok (vg_maxParticipants m) (held r joins) room1"
  shows "manager_ok (upd_room r (\<lambda>_. room1) m) \<and> joins_ok (upd_room r (\<lambda>_. room1) m) joins"
proof
  let ?m = "upd_room r (\<lambda>_. room1) m"
  have heap: "vr_sessions (vg_roomHeap ?m r1) = vr_sessions (vg_roomHeap m r1)"
    "room_empty (vg_roomHeap ?m r1) = room_empty (vg_roomHeap m r1)" for r1
    using assms(3,4) by (simp_all add: upd_room_def room_empty_def)
  have same: "vg_rooms ?m = vg_rooms m" "vg_sessions ?m = vg_sessions m" "vg_sessionHeap ?m = vg_sessionHeap m"
    "vg_closed ?m = vg_closed m" "vg_nextRoom ?m = vg_nextRoom m" "vg_nextSession ?m = vg_nextSession m"
    "vg_maxParticipants ?m = vg_maxParticipants m"
    by (simp_all add: upd_room_def)
  show "manager_ok ?m"
    using assms(1) unfolding manager_ok_def session_ok_def by (simp add: same heap)
  have "room_ok (vg_maxParticipants m) (held r1 joins) (vg_roomHeap ?m r1)" for r1
    using assms(5) joins_okD(1)[OF assms(2), of r1] by (simp add: upd_room_def)
  then show "joins_ok ?m joins"
    using assms(2) unfolding joins_ok_def by (simp add: same heap)
qed

lemma publish_track_ok:
  assumes "manager_ok m" and "joins_ok m joins"
  shows "manager_ok (fst (publish_track t s m)) \<and> joins_ok (fst (publish_track t s m)) joins"
proof -
  let ?r = "ss_room (the_session m s)"
  let ?m = "upd_room ?r (\<lambda>_. fst (room_addTrack t (vg_roomHeap m ?r))) m"
  have "manager_ok ?m \<and> joins_ok ?m joins"
    by (rule upd_room_ok[OF assms _ _ room_ok_addTrack[OF joins_okD(1)[OF assms(2)]]]) (simp_all add: room_addTrack_def)
  then show ?thesis using assms by (auto simp: publish_track_def Let_def split_beta)
qed

lemma unpublish_track_ok:
  assumes "manager_ok m" and "joins_ok m joins"
  shows "manager_ok (unpublish_track k s m) \<and> joins_ok (unpublish_track k s m) joins"
proof -
  let ?r = "ss_room (the_session m s)" and ?c = "ss_connectionID (the_session m s)"
  let ?m = "upd_room ?r (\<lambda>_. fst (room_removeTrack k ?c (vg_roomHeap m ?r))) m"
  have "manager_ok ?m \<and> joins_ok ?m joins"
    by (rule upd_room_ok[OF assms _ _ room_ok_removeTrack[OF joins_okD(1)[OF assms(2)]]])
      (simp_all add: room_removeTrack_def split: option.split)
  then show ?thesis using assms by (auto simp: unpublish_track_def Let_def split_beta)
qed

lemma onTrack_ok:
  assumes "manager_ok m" and "joins_ok m joins"
  shows "manager_ok (fst (onTrack env remote s m)) \<and> joins_ok (fst (onTrack env remote s m)) joins"
  using assms publish_track_ok[OF assms, of _ s] failSession_ok[OF assms, of env s]
    quiet_manager_ok[OF assms(1) quiet_scheduleFail] quiet_joins_ok[OF assms(2) quiet_scheduleFail]
  by (auto simp: onTrack_def forwardAudio_start_def forwardVideo_start_def Let_def split: rtp_kind.split sum.split)


subsection \<open>Joining\<close>

lemma held_append: "held r (xs @ ys) = held r xs + held r ys"
  by (simp add: held_def)

lemma held_Cons: "held r (pc # joins) = (if \<exists>a. pc_holds pc = Some (a, r) then 1 else 0) + held r joins"
  by (simp add: held_def)

lemma held_update:
  assumes "i < length joins"
  shows "held r (joins[i := pc']) =
    held r joins - (if \<exists>a. pc_holds (joins ! i) = Some (a, r) then 1 else 0)
      + (if \<exists>a. pc_holds pc' = Some (a, r) then 1 else 0)"
proof -
  have "held r joins = held r (take i joins @ joins ! i # drop (Suc i) joins)"
    using id_take_nth_drop[OF assms] by simp
  then show ?thesis using assms by (simp add: upd_conv_take_nth_drop held_append held_Cons)
qed

lemma joins_update_cases:
  assumes "pc \<in> set (joins[i := pc'])"
  shows "pc = pc' \<or> (\<exists>j < length joins. j \<noteq> i \<and> joins ! j = pc)"
proof -
  obtain j where j: "j < length joins" "pc = joins[i := pc'] ! j" using assms by (auto simp: in_set_conv_nth)
  then show ?thesis by (cases "j = i") auto
qed

lemma joins_update_others: "j < length joins \<Longrightarrow> j \<noteq> i \<Longrightarrow> joins ! j \<in> set (joins[i := pc'])"
  by (metis length_list_update nth_list_update_neq nth_mem)

lemma unique_joins_update:
  assumes "unique_joins joins" and "i < length joins" and "pc_conn pc' = pc_conn (joins ! i) \<or> pc_conn pc' = None"
  shows "unique_joins (joins[i := pc'])"
  unfolding unique_joins_def
proof (intro allI impI)
  fix k j c assume "k < length (joins[i := pc'])" "j < length (joins[i := pc'])"
    "pc_conn (joins[i := pc'] ! k) = Some c \<and> pc_conn (joins[i := pc'] ! j) = Some c"
  then have "k < length joins" "j < length joins" "pc_conn (joins ! k) = Some c" "pc_conn (joins ! j) = Some c"
    using assms(2,3) by (auto simp: nth_list_update split: if_splits)
  with assms(1) show "k = j" unfolding unique_joins_def by blast
qed

text \<open>A join that moves on without touching the manager.\<close>

lemma joins_ok_move:
  assumes js: "joins_ok m joins" and i: "i < length joins"
    and "pc_holds pc' = pc_holds (joins ! i)" "pc_conn pc' = pc_conn (joins ! i) \<or> pc_conn pc' = None"
    and "pc_awaits pc' = None \<or> pc_awaits pc' = pc_awaits (joins ! i)"
    and cl: "pc_cleans pc' = pc_cleans (joins ! i) \<or>
       (\<forall>ch r. pc_cleans (joins ! i) = Some (ch, r) \<longrightarrow> \<not> (map_of (vg_rooms m) ch = Some r \<and> room_empty (vg_roomHeap m r)))"
  shows "joins_ok m (joins[i := pc'])"
proof (rule joins_okI)
  fix pc assume "pc \<in> set (joins[i := pc'])"
  then consider "pc = pc'" | "pc \<in> set joins" using joins_update_cases by (metis nth_mem)
  note cases = this
  { fix a r assume h: "pc_holds pc = Some (a, r)"
    with cases assms(3) obtain pc0 where "pc0 \<in> set joins" "pc_holds pc0 = Some (a, r)"
      by (metis i nth_mem)
    from joins_okD(2,3)[OF js this] show "r < vg_nextRoom m"
      and "\<not> vg_closed m \<Longrightarrow> map_of (vg_rooms m) (ja_channelID a) = Some r" by blast+ }
  { fix c assume h: "pc_awaits pc = Some c"
    with cases assms(5) obtain pc0 where "pc0 \<in> set joins" "pc_awaits pc0 = Some c"
      by (metis i nth_mem option.distinct(1))
    from joins_okD(4)[OF js this] show "map_of (vg_sessions m) c = None" . }
next
  show "room_ok (vg_maxParticipants m) (held r (joins[i := pc'])) (vg_roomHeap m r)" for r
    using joins_okD(1)[OF js, of r] assms(3) by (simp add: held_update[OF i])
next
  show "unique_joins (joins[i := pc'])" by (rule unique_joins_update[OF joins_okD(5)[OF js] i assms(4)])
next
  fix ch r assume at: "map_of (vg_rooms m) ch = Some r" "room_empty (vg_roomHeap m r)"
  from joins_okD(6)[OF js this] obtain j where j: "j < length joins" "pc_cleans (joins ! j) = Some (ch, r)"
    by (auto simp: in_set_conv_nth)
  show "\<exists>pc \<in> set (joins[i := pc']). pc_cleans pc = Some (ch, r)"
  proof (cases "j = i")
    case True
    with cl at j have "pc_cleans pc' = Some (ch, r)" by auto
    then show ?thesis using set_update_memI[OF i, of pc'] by blast
  next
    case False
    then show ?thesis using joins_update_others[OF j(1)] j(2) by blast
  qed
qed


lemma manager_ok_room:
  assumes "manager_ok m" and "vr_sessions room1 = vr_sessions (vg_roomHeap m r)"
  shows "manager_ok (upd_room r (\<lambda>_. room1) m)"
proof -
  have "vr_sessions (vg_roomHeap (upd_room r (\<lambda>_. room1) m) r1) = vr_sessions (vg_roomHeap m r1)" for r1
    using assms(2) by (simp add: upd_room_def)
  then show ?thesis
    using assms(1) unfolding manager_ok_def session_ok_def
    by (simp add: upd_room_def[of r "\<lambda>_. room1" m])
qed

text \<open>Moving one join while the reservations of one room of the channel follow it.\<close>

lemma joins_ok_room:
  assumes js: "joins_ok m joins" and i: "i < length joins"
    and ok1: "room_ok (vg_maxParticipants m) (held r (joins[i := pc'])) room1"
    and holds: "\<And>a1 r1. pc_holds pc' = Some (a1, r1) \<Longrightarrow> r1 < vg_nextRoom m \<and> (\<not> vg_closed m \<longrightarrow> map_of (vg_rooms m) (ja_channelID a1) = Some r1)"
    and old: "\<And>a1 r1. pc_holds (joins ! i) = Some (a1, r1) \<Longrightarrow> r1 = r" "\<And>a1 r1. pc_holds pc' = Some (a1, r1) \<Longrightarrow> r1 = r"
    and conn: "pc_conn pc' = pc_conn (joins ! i)"
    and awaits: "pc_awaits pc' = None \<or> pc_awaits pc' = pc_awaits (joins ! i)"
    and nocl: "pc_cleans (joins ! i) = None"
    and cl: "\<And>ch. room_empty room1 \<Longrightarrow> map_of (vg_rooms m) ch = Some r \<Longrightarrow> pc_cleans pc' = Some (ch, r)"
  shows "joins_ok (upd_room r (\<lambda>_. room1) m) (joins[i := pc'])"
proof (rule joins_okI)
  let ?m = "upd_room r (\<lambda>_. room1) m"
  show "room_ok (vg_maxParticipants ?m) (held r1 (joins[i := pc'])) (vg_roomHeap ?m r1)" for r1
  proof (cases "r1 = r")
    case True
    with ok1 show ?thesis by (simp add: upd_room_def)
  next
    case False
    then have "held r1 (joins[i := pc']) = held r1 joins" using old by (auto simp: held_update[OF i])
    with False joins_okD(1)[OF js, of r1] show ?thesis by (simp add: upd_room_def)
  qed
  fix pc assume "pc \<in> set (joins[i := pc'])"
  then consider "pc = pc'" | "pc \<in> set joins" using joins_update_cases by (metis nth_mem)
  note cases = this
  { fix a1 r1 assume h: "pc_holds pc = Some (a1, r1)"
    show "r1 < vg_nextRoom ?m"
      using cases holds[of a1 r1] joins_okD(2)[OF js _ h] h by (cases, simp_all add: upd_room_def)
    show "map_of (vg_rooms ?m) (ja_channelID a1) = Some r1" if "\<not> vg_closed ?m"
      using cases holds[of a1 r1] joins_okD(3)[OF js _ h] h that by (cases, simp_all add: upd_room_def) }
  { fix c assume h: "pc_awaits pc = Some c"
    with cases awaits obtain pc0 where "pc0 \<in> set joins" "pc_awaits pc0 = Some c"
      by (metis i nth_mem option.distinct(1))
    from joins_okD(4)[OF js this] show "map_of (vg_sessions ?m) c = None" by (simp add: upd_room_def) }
next
  show "unique_joins (joins[i := pc'])" by (rule unique_joins_update[OF joins_okD(5)[OF js] i]) (simp add: conn)
next
  let ?m = "upd_room r (\<lambda>_. room1) m"
  fix ch r1 assume at: "map_of (vg_rooms ?m) ch = Some r1" "room_empty (vg_roomHeap ?m r1)"
  have at1: "map_of (vg_rooms m) ch = Some r1" using at(1) by (simp add: upd_room_def)
  show "\<exists>pc \<in> set (joins[i := pc']). pc_cleans pc = Some (ch, r1)"
  proof (cases "r1 = r")
    case True
    from at(2) True have "room_empty room1" by (simp add: upd_room_def)
    from cl[OF this] at1 True have "pc_cleans pc' = Some (ch, r1)" by simp
    then show ?thesis using set_update_memI[OF i, of pc'] by blast
  next
    case False
    with at(2) have "room_empty (vg_roomHeap m r1)" by (simp add: upd_room_def)
    from joins_okD(6)[OF js at1 this] obtain j where j: "j < length joins" "pc_cleans (joins ! j) = Some (ch, r1)"
      unfolding in_set_conv_nth Bex_def by blast
    moreover have "j \<noteq> i" using j(2) nocl by (metis option.distinct(1))
    ultimately show ?thesis using joins_update_others[of j joins i pc'] by blast
  qed
qed

lemma held_nonneg: "0 \<le> held r joins"
  by (simp add: held_def)

lemma reserve_existing_ok:
  assumes ok: "manager_ok m" "joins_ok m joins" and i: "i < length joins" "joins ! i = Entered a"
    and at: "map_of (vg_rooms m) (ja_channelID a) = Some r"
    and room: "room_reserve (vg_maxParticipants m) (vg_roomHeap m r) = (room1, True)"
  shows "manager_ok (upd_room r (\<lambda>_. room1) m) \<and> joins_ok (upd_room r (\<lambda>_. room1) m) (joins[i := Reserved a r])"
proof
  have room1: "room1 = (vg_roomHeap m r)\<lparr> vr_reservations := vr_reservations (vg_roomHeap m r) + 1 \<rparr>"
    and cap: "int (length (vr_sessions (vg_roomHeap m r))) + vr_reservations (vg_roomHeap m r) < vg_maxParticipants m"
    using room by (auto simp: room_reserve_def split: if_splits)
  show "manager_ok (upd_room r (\<lambda>_. room1) m)" by (rule manager_ok_room[OF ok(1)]) (simp add: room1)
  have old: "room_ok (vg_maxParticipants m) (held r joins) (vg_roomHeap m r)" by (rule joins_okD(1)[OF ok(2)])
  have "room_ok (vg_maxParticipants m) (held r (joins[i := Reserved a r])) room1"
    using old cap by (simp add: room_ok_def room1 held_update[OF i(1)] i(2))
  moreover have "\<not> room_empty room1"
    using old held_nonneg[of r joins] by (auto simp: room_ok_def room1 room_empty_def)
  ultimately show "joins_ok (upd_room r (\<lambda>_. room1) m) (joins[i := Reserved a r])"
    using at room_allocated[OF ok(1) at] by (intro joins_ok_room[OF ok(2) i(1)]) (auto simp: i(2))
qed

end
