(* ===== verification/VoiceSfuRun.thy ===== *)
theory VoiceSfuRun
  imports VoiceSfuInv
begin

text \<open>
  Every step of the voice media server keeps the invariant of \<open>VoiceSfuInv\<close>, and what follows for the
  callers: capacity, cleanup, and isolation of sessions.
\<close>

subsection \<open>The sections of Join\<close>

lemma held_zero: "(\<And>pc a. pc \<in> set joins \<Longrightarrow> pc_holds pc \<noteq> Some (a, r)) \<Longrightarrow> held r joins = 0"
  by (auto simp: held_def filter_empty_conv)

text \<open>A new room, before anyone has a place in it.\<close>

definition add_room :: "int \<Rightarrow> ('p, 'l) voice_manager \<Rightarrow> ('p, 'l) voice_manager" where
  "add_room ch m = m\<lparr> vg_roomHeap := (vg_roomHeap m)(vg_nextRoom m := voice_newRoom ch),
     vg_nextRoom := Suc (vg_nextRoom m), vg_rooms := AList.update ch (vg_nextRoom m) (vg_rooms m) \<rparr>"

lemma add_room_manager_ok:
  assumes ok: "manager_ok m" and new: "map_of (vg_rooms m) ch = None" and opn: "\<not> vg_closed m"
  shows "manager_ok (add_room ch m)"
proof (rule manager_okI)
  let ?m = "add_room ch m"
  have old: "map_of (vg_rooms ?m) ch1 = Some r1 \<Longrightarrow> r1 \<noteq> vg_nextRoom m \<Longrightarrow> map_of (vg_rooms m) ch1 = Some r1" for ch1 r1
    by (auto simp: add_room_def split: if_splits)
  have fresh: "map_of (vg_rooms m) ch1 = Some r1 \<Longrightarrow> r1 \<noteq> vg_nextRoom m" for ch1 r1
    using room_allocated[OF ok, of ch1 r1] by auto
  show "r1 < vg_nextRoom ?m" if "map_of (vg_rooms ?m) ch1 = Some r1" for ch1 r1
    using that room_allocated[OF ok, of ch1 r1] by (auto simp: add_room_def split: if_splits)
  show "ch1 = ch2" if "map_of (vg_rooms ?m) ch1 = Some r1" "map_of (vg_rooms ?m) ch2 = Some r1" for ch1 ch2 r1
    using that room_unique[OF ok, of ch1 r1 ch2] fresh[of ch1 r1] fresh[of ch2 r1]
    by (auto simp: add_room_def split: if_splits)
  show "session_ok ?m c s" if "map_of (vg_sessions ?m) c = Some s" for c s
  proof -
    have s: "session_ok m c s" using that session_registered[OF ok, of c s] by (simp add: add_room_def)
    then have "ss_room (the_session m s) \<noteq> vg_nextRoom m" "ss_channelID (the_session m s) \<noteq> ch"
      using fresh new by (auto simp: session_ok_def)
    with s show ?thesis by (simp add: session_ok_def add_room_def)
  qed
  show "map_of (vg_sessions ?m) c = Some s \<and> ss_room (the_session ?m s) = r1"
    if "map_of (vg_rooms ?m) ch1 = Some r1" "map_of (vr_sessions (vg_roomHeap ?m r1)) c = Some s" for ch1 r1 c s
  proof -
    have "r1 \<noteq> vg_nextRoom m" using that(2) by (auto simp: add_room_def voice_newRoom_def split: if_splits)
    with that room_member[OF ok old[OF that(1)], of c s] show ?thesis by (simp add: add_room_def)
  qed
qed (use manager_okD[OF ok] opn in \<open>simp_all add: add_room_def\<close>)

lemma add_room_joins_ok:
  assumes ok: "manager_ok m" "joins_ok m joins" and new: "map_of (vg_rooms m) (ja_channelID a) = None"
    and i: "i < length joins" "joins ! i = Entered a" and opn: "\<not> vg_closed m"
  shows "joins_ok (upd_room (vg_nextRoom m) (\<lambda>_. (voice_newRoom (ja_channelID a))\<lparr> vr_reservations := 1 \<rparr>) (add_room (ja_channelID a) m))
           (joins[i := Reserved a (vg_nextRoom m)])"
proof (rule joins_okI)
  let ?r = "vg_nextRoom m" and ?ch = "ja_channelID a" and ?js = "joins[i := Reserved a (vg_nextRoom m)]"
  let ?m = "upd_room ?r (\<lambda>_. (voice_newRoom ?ch)\<lparr> vr_reservations := 1 \<rparr>) (add_room ?ch m)"
  have zero: "held ?r joins = 0" using joins_okD(2)[OF ok(2)] by (intro held_zero) fastforce
  have cap: "2 \<le> vg_maxParticipants m" by (rule manager_okD(1)[OF ok(1)])
  show "room_ok (vg_maxParticipants ?m) (held r1 ?js) (vg_roomHeap ?m r1)" for r1
    using joins_okD(1)[OF ok(2), of r1] zero cap
    by (auto simp: upd_room_def add_room_def held_update[OF i(1)] i(2) room_ok_def voice_newRoom_def tracks_ok_def tracks_keyed_def)
  fix pc assume "pc \<in> set ?js"
  then consider "pc = Reserved a ?r" | "pc \<in> set joins" using joins_update_cases by (metis nth_mem)
  note cases = this
  { fix a1 r1 assume h: "pc_holds pc = Some (a1, r1)"
    from cases h joins_okD(2)[OF ok(2) _ h] show "r1 < vg_nextRoom ?m"
      by cases (auto simp: upd_room_def add_room_def)
    assume "\<not> vg_closed ?m"
    from cases h joins_okD(3)[OF ok(2) _ h opn] new show "map_of (vg_rooms ?m) (ja_channelID a1) = Some r1"
      by cases (auto simp: upd_room_def add_room_def) }
  { fix c assume h: "pc_awaits pc = Some c"
    with cases i obtain pc0 where "pc0 \<in> set joins" "pc_awaits pc0 = Some c" by (metis nth_mem pc_awaits.simps(1,2))
    from joins_okD(4)[OF ok(2) this] show "map_of (vg_sessions ?m) c = None" by (simp add: upd_room_def add_room_def) }
next
  show "unique_joins (joins[i := Reserved a (vg_nextRoom m)])"
    by (rule unique_joins_update[OF joins_okD(5)[OF ok(2)] i(1)]) (simp add: i(2))
next
  let ?r = "vg_nextRoom m" and ?ch = "ja_channelID a" and ?js = "joins[i := Reserved a (vg_nextRoom m)]"
  let ?m = "upd_room ?r (\<lambda>_. (voice_newRoom ?ch)\<lparr> vr_reservations := 1 \<rparr>) (add_room ?ch m)"
  fix ch1 r1 assume at: "map_of (vg_rooms ?m) ch1 = Some r1" and em: "room_empty (vg_roomHeap ?m r1)"
  have "r1 \<noteq> ?r" using em by (auto simp: upd_room_def room_empty_def)
  with at em have "map_of (vg_rooms m) ch1 = Some r1" "room_empty (vg_roomHeap m r1)"
    by (auto simp: upd_room_def add_room_def split: if_splits)
  from joins_okD(6)[OF ok(2) this] obtain j where j: "j < length joins" "pc_cleans (joins ! j) = Some (ch1, r1)"
    unfolding in_set_conv_nth Bex_def by blast
  with i(2) have "j \<noteq> i" by auto
  with j show "\<exists>pc \<in> set ?js. pc_cleans pc = Some (ch1, r1)"
    using joins_update_others[of j joins i "Reserved a ?r"] by blast
qed


lemma reserve_ok:
  assumes ok: "manager_ok m" "joins_ok m joins" and i: "i < length joins" "joins ! i = Entered a"
    and step: "join_reserve (ja_channelID a) m = (m1, res)"
  shows "manager_ok m1 \<and> joins_ok m1 (joins[i := case res of Inl e \<Rightarrow> Returned_join | Inr r \<Rightarrow> Reserved a r])"
proof -
  have ret: "joins_ok m (joins[i := Returned_join])" by (rule joins_ok_move[OF ok(2) i(1)]) (simp_all add: i(2))
  show ?thesis
  proof (cases "vg_closed m")
    case True
    with step ok ret show ?thesis by (auto simp: join_reserve_def)
  next
    case opn: False
    show ?thesis
    proof (cases "map_of (vg_rooms m) (ja_channelID a)")
      case None
      have cap: "2 \<le> vg_maxParticipants m" by (rule manager_okD(1)[OF ok(1)])
      let ?room = "(voice_newRoom (ja_channelID a))\<lparr> vr_reservations := 1 \<rparr>"
      have "m1 = upd_room (vg_nextRoom m) (\<lambda>_. ?room) (add_room (ja_channelID a) m)" "res = Inr (vg_nextRoom m)"
        using step opn None cap
        by (simp_all add: join_reserve_def join_room_def add_room_def room_reserve_def voice_newRoom_def Let_def)
      then show ?thesis
        using add_room_joins_ok[OF ok None i opn] manager_ok_room[OF add_room_manager_ok[OF ok(1) None opn], of ?room "vg_nextRoom m"]
        by (simp add: add_room_def voice_newRoom_def)
    next
      case (Some r)
      obtain room1 b where rr: "room_reserve (vg_maxParticipants m) (vg_roomHeap m r) = (room1, b)" by fastforce
      show ?thesis
        using step opn Some rr reserve_existing_ok[OF ok i Some, of room1] ok ret
        by (cases b) (auto simp: join_reserve_def join_room_def)
    qed
  qed
qed

lemma room_release_ok:
  assumes "room_ok maximum reserved r" and "0 < reserved"
  shows "room_ok maximum (reserved - 1) (room_release r)"
  using assms by (auto simp: room_ok_def room_release_def)

lemma cancel_ok:
  assumes ok: "manager_ok m" "joins_ok m joins" and i: "i < length joins" "joins ! i = Cancelling a r"
  shows "manager_ok (join_cancel r m) \<and> joins_ok (join_cancel r m) (joins[i := Cleaning a r])"
proof -
  let ?room = "room_release (vg_roomHeap m r)"
  have eq: "join_cancel r m = upd_room r (\<lambda>_. ?room) m"
    by (simp add: join_cancel_def room_cancelReservation_def upd_room_def)
  have pos: "0 < held r joins" using held_pos[OF nth_mem[OF i(1)]] i(2) by simp
  have rok: "room_ok (vg_maxParticipants m) (held r (joins[i := Cleaning a r])) ?room"
    using room_release_ok[OF joins_okD(1)[OF ok(2)] pos] by (simp add: held_update[OF i(1)] i(2))
  have own: "ch = ja_channelID a" if "map_of (vg_rooms m) ch = Some r" for ch
  proof -
    have "\<not> vg_closed m" using that manager_okD(5)[OF ok(1)] by auto
    from joins_okD(3)[OF ok(2) nth_mem[OF i(1)] _ this] i(2) have "map_of (vg_rooms m) (ja_channelID a) = Some r" by simp
    with that room_unique[OF ok(1)] show ?thesis by blast
  qed
  have "manager_ok (upd_room r (\<lambda>_. ?room) m)"
    by (rule manager_ok_room[OF ok(1)]) (simp add: room_release_def)
  moreover have "joins_ok (upd_room r (\<lambda>_. ?room) m) (joins[i := Cleaning a r])"
    by (rule joins_ok_room[OF ok(2) i(1) rok]) (auto simp: i(2) dest: own)
  ultimately show ?thesis unfolding eq by simp
qed

lemma remove_room_manager_ok:
  assumes ok: "manager_ok m" and em: "room_empty (vg_roomHeap m r)" and at: "map_of (vg_rooms m) ch = Some r"
  shows "manager_ok (m\<lparr> vg_rooms := AList.delete ch (vg_rooms m) \<rparr>)" (is "manager_ok ?m")
proof (rule manager_okI)
  show "session_ok ?m c s" if "map_of (vg_sessions ?m) c = Some s" for c s
  proof -
    have s: "session_ok m c s" using that session_registered[OF ok] by simp
    then have "ss_room (the_session m s) \<noteq> r" using em by (auto simp: session_ok_def room_empty_def)
    with s at show ?thesis by (auto simp: session_ok_def)
  qed
  show "map_of (vg_sessions ?m) c = Some s \<and> ss_room (the_session ?m s) = r1"
    if "map_of (vg_rooms ?m) ch1 = Some r1" "map_of (vr_sessions (vg_roomHeap ?m r1)) c = Some s" for ch1 r1 c s
    using that room_member[OF ok, of ch1 r1 c s] by (auto split: if_splits)
  show "r1 < vg_nextRoom ?m" if "map_of (vg_rooms ?m) ch1 = Some r1" for ch1 r1
    using that room_allocated[OF ok, of ch1 r1] by (auto split: if_splits)
  show "ch1 = ch2" if "map_of (vg_rooms ?m) ch1 = Some r1" "map_of (vg_rooms ?m) ch2 = Some r1" for ch1 ch2 r1
    using that room_unique[OF ok, of ch1 r1 ch2] by (auto split: if_splits)
qed (use manager_okD[OF ok] in simp_all)

lemma remove_room_joins_ok:
  assumes ok: "manager_ok m" "joins_ok m joins" and em: "room_empty (vg_roomHeap m r)"
    and at: "map_of (vg_rooms m) ch = Some r"
  shows "joins_ok (m\<lparr> vg_rooms := AList.delete ch (vg_rooms m) \<rparr>) joins" (is "joins_ok ?m joins")
proof (rule joins_okI)
  have zero: "held r joins = 0" using joins_okD(1)[OF ok(2), of r] em by (simp add: room_ok_def room_empty_def)
  fix pc assume pc: "pc \<in> set joins"
  { fix a r1 assume h: "pc_holds pc = Some (a, r1)"
    show "r1 < vg_nextRoom ?m" using joins_okD(2)[OF ok(2) pc h] by simp
    assume "\<not> vg_closed ?m"
    with joins_okD(3)[OF ok(2) pc h] have "map_of (vg_rooms m) (ja_channelID a) = Some r1" by simp
    moreover have "r1 \<noteq> r" using held_pos[OF pc h] zero by auto
    ultimately show "map_of (vg_rooms ?m) (ja_channelID a) = Some r1" using at by auto }
  show "map_of (vg_sessions ?m) c = None" if "pc_awaits pc = Some c" for c
    using joins_okD(4)[OF ok(2) pc that] by simp
next
  show "\<exists>pc \<in> set joins. pc_cleans pc = Some (ch1, r1)"
    if "map_of (vg_rooms ?m) ch1 = Some r1" "room_empty (vg_roomHeap ?m r1)" for ch1 r1
    using joins_okD(6)[OF ok(2), of ch1 r1] that by (auto split: if_splits)
qed (use joins_okD[OF ok(2)] in simp_all)

lemma delete_ok:
  assumes ok: "manager_ok m" "joins_ok m joins" and i: "i < length joins" "joins ! i = Deleting a r"
  shows "manager_ok (remove_room_locked (ja_channelID a) r m) \<and>
    joins_ok (remove_room_locked (ja_channelID a) r m) (joins[i := Returned_join])"
proof (cases "room_empty (vg_roomHeap m r) \<and> map_of (vg_rooms m) (ja_channelID a) = Some r")
  case True
  let ?m = "m\<lparr> vg_rooms := AList.delete (ja_channelID a) (vg_rooms m) \<rparr>"
  have "manager_ok ?m" "joins_ok ?m joins"
    using remove_room_manager_ok[OF ok(1)] remove_room_joins_ok[OF ok] True by blast+
  moreover from this(2) have "joins_ok ?m (joins[i := Returned_join])"
    by (rule joins_ok_move[OF _ i(1)]) (simp_all add: i(2))
  ultimately show ?thesis using True by (simp add: remove_room_locked_def)
next
  case False
  then have "remove_room_locked (ja_channelID a) r m = m" by (auto simp: remove_room_locked_def)
  moreover have "joins_ok m (joins[i := Returned_join])"
    using False by (intro joins_ok_move[OF ok(2) i(1)]) (auto simp: i(2))
  ultimately show ?thesis using ok by simp
qed


lemma awaits_conn: "pc_awaits pc = Some c \<Longrightarrow> pc_conn pc = Some c"
  by (cases pc) auto

text \<open>The state after a session was installed.\<close>

definition installed :: "join_args \<Rightarrow> rref \<Rightarrow> ('p, 'l) voice_session \<Rightarrow> ('p, 'l) voice_manager \<Rightarrow> ('p, 'l) voice_manager" where
  "installed a r x m =
     m\<lparr> vg_sessionHeap := (vg_sessionHeap m)(vg_nextSession m := x), vg_nextSession := Suc (vg_nextSession m),
        vg_sessions := AList.update (ja_connectionID a) (vg_nextSession m) (vg_sessions m),
        vg_roomHeap := (vg_roomHeap m)(r := room_addSession (ja_connectionID a) (vg_nextSession m) (vg_roomHeap m r)) \<rparr>"

lemma install_result:
  assumes "join_install env a r peer m = (m1, Inr s)"
  shows "\<not> vg_closed m" "s = vg_nextSession m"
    "\<exists>x. m1 = installed a r x m \<and> ss_room x = r \<and> ss_connectionID x = ja_connectionID a \<and>
       ss_channelID x = ja_channelID a \<and> \<not> ss_closed x \<and> ss_pendingCandidates x = []"
  using assms
  by (auto simp: join_install_def installed_def upd_room_def newSession_def Let_def split: if_splits)

lemma addSession_sessions [simp]:
  "vr_sessions (room_addSession c s r) = AList.update c s (vr_sessions r)"
  by (simp add: room_addSession_def room_release_def Let_def)

lemma installed_manager_ok:
  assumes ok: "manager_ok m" and opn: "\<not> vg_closed m" and at: "map_of (vg_rooms m) (ja_channelID a) = Some r"
    and none: "map_of (vg_sessions m) (ja_connectionID a) = None"
    and x: "ss_room x = r" "ss_connectionID x = ja_connectionID a" "ss_channelID x = ja_channelID a"
      "\<not> ss_closed x" "ss_pendingCandidates x = []"
  shows "manager_ok (installed a r x m)" (is "manager_ok ?m")
proof (rule manager_okI)
  let ?c = "ja_connectionID a" and ?s = "vg_nextSession m"
  have old: "session_ok ?m c1 s1" if "map_of (vg_sessions m) c1 = Some s1" for c1 s1
  proof -
    have "c1 \<noteq> ?c" using that none by auto
    with session_registered[OF ok that] show ?thesis by (auto simp: session_ok_def installed_def)
  qed
  have "session_ok ?m ?c ?s"
    using at x manager_okD(2)[OF ok] by (simp add: session_ok_def installed_def)
  then show "session_ok ?m c1 s1" if "map_of (vg_sessions ?m) c1 = Some s1" for c1 s1
    using that old[of c1 s1] by (auto simp: installed_def split: if_splits)
  show "map_of (vg_sessions ?m) c1 = Some s1 \<and> ss_room (the_session ?m s1) = r1"
    if "map_of (vg_rooms ?m) ch1 = Some r1" "map_of (vr_sessions (vg_roomHeap ?m r1)) c1 = Some s1" for ch1 r1 c1 s1
  proof (cases "r1 = r \<and> c1 = ?c")
    case True
    with that(2) x show ?thesis by (auto simp: installed_def)
  next
    case False
    with that have "map_of (vr_sessions (vg_roomHeap m r1)) c1 = Some s1" "map_of (vg_rooms m) ch1 = Some r1"
      by (auto simp: installed_def split: if_splits)
    note m = room_member[OF ok this(2,1)]
    then have "c1 \<noteq> ?c" "s1 \<noteq> ?s" using none session_registered[OF ok m(1)] by (auto simp: session_ok_def)
    with m show ?thesis by (simp add: installed_def)
  qed
  show "r1 < vg_nextRoom ?m" if "map_of (vg_rooms ?m) ch1 = Some r1" for ch1 r1
    using that room_allocated[OF ok] by (simp add: installed_def)
  show "ch1 = ch2" if "map_of (vg_rooms ?m) ch1 = Some r1" "map_of (vg_rooms ?m) ch2 = Some r1" for ch1 ch2 r1
    using that room_unique[OF ok] by (simp add: installed_def)
qed (use manager_okD[OF ok] opn x in \<open>simp_all add: installed_def\<close>)

lemma room_ok_addSession:
  assumes "room_ok maximum reserved r" and "0 < reserved" and "map_of (vr_sessions r) c = None"
  shows "room_ok maximum (reserved - 1) (room_addSession c s r)"
proof -
  have "tracks_ok (r\<lparr> vr_sessions := AList.update c s (vr_sessions r) \<rparr>)"
    using assms(1) by (auto simp: room_ok_def tracks_ok_def tracks_keyed_def)
  with assms show ?thesis
    by (auto simp: room_ok_def room_addSession_def room_release_def Let_def length_update_absent tracks_ok_def tracks_keyed_def)
qed

lemma installed_joins_ok:
  assumes ok: "manager_ok m" "joins_ok m joins" and opn: "\<not> vg_closed m"
    and i: "i < length joins" "joins ! i = HavePeer a r peer"
  shows "joins_ok (installed a r x m) (joins[i := Installed a s])" (is "joins_ok ?m ?js")
proof (rule joins_okI)
  let ?c = "ja_connectionID a"
  have mem: "joins ! i \<in> set joins" using i(1) by simp
  have at: "map_of (vg_rooms m) (ja_channelID a) = Some r" using joins_okD(3)[OF ok(2) mem] i(2) opn by simp
  have none: "map_of (vg_sessions m) ?c = None" using joins_okD(4)[OF ok(2) mem] i(2) by simp
  have absent: "map_of (vr_sessions (vg_roomHeap m r)) ?c = None"
    using room_member(1)[OF ok(1) at, of ?c] none by (cases "map_of (vr_sessions (vg_roomHeap m r)) ?c") auto
  have pos: "0 < held r joins" using held_pos[OF mem] i(2) by simp
  show "room_ok (vg_maxParticipants ?m) (held r1 ?js) (vg_roomHeap ?m r1)" for r1
    using joins_okD(1)[OF ok(2), of r1] room_ok_addSession[OF joins_okD(1)[OF ok(2), of r] pos absent]
    by (auto simp: installed_def held_update[OF i(1)] i(2))
  fix pc assume pc: "pc \<in> set ?js"
  { fix a1 r1 assume h: "pc_holds pc = Some (a1, r1)"
    then have "pc \<in> set joins" using joins_update_cases[OF pc] by (auto simp: in_set_conv_nth)
    from joins_okD(2)[OF ok(2) this h] joins_okD(3)[OF ok(2) this h opn]
    show "r1 < vg_nextRoom ?m" "map_of (vg_rooms ?m) (ja_channelID a1) = Some r1" by (simp_all add: installed_def) }
  { fix c1 assume h: "pc_awaits pc = Some c1"
    then obtain j where j: "j < length joins" "j \<noteq> i" "joins ! j = pc" using joins_update_cases[OF pc] by auto
    have "c1 \<noteq> ?c"
    proof
      assume "c1 = ?c"
      with awaits_conn[OF h] j i have "pc_conn (joins ! j) = Some ?c" "pc_conn (joins ! i) = Some ?c" by simp_all
      with j(1,2) i(1) joins_okD(5)[OF ok(2)] show False unfolding unique_joins_def by blast
    qed
    moreover have "map_of (vg_sessions m) c1 = None" using joins_okD(4)[OF ok(2) _ h] j(1,3) by auto
    ultimately show "map_of (vg_sessions ?m) c1 = None" by (simp add: installed_def) }
next
  show "unique_joins ?js" by (rule unique_joins_update[OF joins_okD(5)[OF ok(2)] i(1)]) (simp add: i(2))
next
  fix ch1 r1 assume at1: "map_of (vg_rooms ?m) ch1 = Some r1" and em: "room_empty (vg_roomHeap ?m r1)"
  have "r1 \<noteq> r"
  proof
    assume "r1 = r"
    with em have "AList.update (ja_connectionID a) (vg_nextSession m) (vr_sessions (vg_roomHeap m r)) = []"
      by (simp add: installed_def room_empty_def)
    then have "map_of (AList.update (ja_connectionID a) (vg_nextSession m) (vr_sessions (vg_roomHeap m r))) (ja_connectionID a) = None"
      by (metis map_of.simps(1))
    then show False by simp
  qed
  with at1 em have "map_of (vg_rooms m) ch1 = Some r1" "room_empty (vg_roomHeap m r1)" by (simp_all add: installed_def)
  from joins_okD(6)[OF ok(2) this] obtain j where j: "j < length joins" "pc_cleans (joins ! j) = Some (ch1, r1)"
    unfolding in_set_conv_nth Bex_def by blast
  with i(2) have "j \<noteq> i" by auto
  with j show "\<exists>pc \<in> set ?js. pc_cleans pc = Some (ch1, r1)"
    using joins_update_others[of j joins i "Installed a s"] by blast
qed

lemma install_ok:
  assumes ok: "manager_ok m" "joins_ok m joins" and i: "i < length joins" "joins ! i = HavePeer a r peer"
    and step: "join_install env a r peer m = (m1, res)"
  shows "manager_ok m1 \<and> joins_ok m1 (joins[i := case res of Inl e \<Rightarrow> Cancelling a r | Inr s \<Rightarrow> Installed a s])"
proof (cases res)
  case (Inl e)
  then have "m1 = m" using step by (auto simp: join_install_def Let_def split: if_splits)
  moreover have "joins_ok m (joins[i := Cancelling a r])"
    by (rule joins_ok_move[OF ok(2) i(1)]) (simp_all add: i(2))
  ultimately show ?thesis using ok Inl by simp
next
  case (Inr s)
  note res = install_result[OF step[unfolded Inr]]
  then obtain x where x: "m1 = installed a r x m" "ss_room x = r" "ss_connectionID x = ja_connectionID a"
      "ss_channelID x = ja_channelID a" "\<not> ss_closed x" "ss_pendingCandidates x = []" by blast
  have mem: "joins ! i \<in> set joins" using i(1) by simp
  have "map_of (vg_rooms m) (ja_channelID a) = Some r" "map_of (vg_sessions m) (ja_connectionID a) = None"
    using joins_okD(3,4)[OF ok(2) mem] i(2) res(1) by simp_all
  with installed_manager_ok[OF ok(1) res(1) _ _ x(2-)] installed_joins_ok[OF ok res(1) i, of x s] Inr x(1) show ?thesis
    by simp
qed

lemma finish_ok:
  assumes ok: "manager_ok m" "joins_ok m joins" and i: "i < length joins" "joins ! i = Installed a s"
  shows "manager_ok (fst (join_finish env a s m)) \<and> joins_ok (fst (join_finish env a s m)) (joins[i := Returned_join])"
proof -
  have js: "joins_ok m (joins[i := Returned_join])"
    by (rule joins_ok_move[OF ok(2) i(1)]) (simp_all add: i(2))
  obtain m1 e where r: "synchronizeTracks env True s m = (m1, e)" by fastforce
  have "quiet m m1" by (rule quiet_fst[OF quiet_synchronizeTracks r])
  then have "manager_ok m1" "joins_ok m1 (joins[i := Returned_join])"
    using quiet_manager_ok[OF ok(1)] quiet_joins_ok[OF js] by blast+
  then show ?thesis using Leave_ok by (auto simp: join_finish_def r split: option.split)
qed

lemma join_next_ok:
  assumes ok: "manager_ok m" "joins_ok m joins" and i: "i < length joins"
    and step: "join_next env n (joins ! i) m = (m1, pc')"
  shows "manager_ok m1 \<and> joins_ok m1 (joins[i := pc'])"
proof (cases "joins ! i")
  case (Entered a)
  obtain m2 res where r: "join_reserve (ja_channelID a) m = (m2, res)" by fastforce
  from reserve_ok[OF ok i Entered r] step Entered r show ?thesis by (auto simp: join_next_def split: sum.splits)
next
  case (HavePeer a r peer)
  obtain m2 res where r: "join_install env a r peer m = (m2, res)" by fastforce
  from install_ok[OF ok i HavePeer r] step HavePeer r show ?thesis by (auto simp: join_next_def split: sum.splits)
next
  case (Reserved a r)
  have "joins_ok m (joins[i := pc])" if "pc = Cancelling a r \<or> (\<exists>peer. pc = HavePeer a r peer)" for pc
    by (rule joins_ok_move[OF ok(2) i]) (use that in \<open>auto simp: Reserved\<close>)
  with step ok Reserved show ?thesis by (auto simp: join_next_def split: sum.splits)
next
  case (Installed a s)
  from finish_ok[OF ok i Installed] step Installed show ?thesis by (auto simp: join_next_def)
next
  case (Cancelling a r)
  from cancel_ok[OF ok i Cancelling] step Cancelling show ?thesis by (auto simp: join_next_def)
next
  case (Cleaning a r)
  have "joins_ok m (joins[i := if room_empty (vg_roomHeap m r) then Deleting a r else Returned_join])"
    by (rule joins_ok_move[OF ok(2) i]) (auto simp: Cleaning)
  with step ok Cleaning show ?thesis by (auto simp: join_next_def)
next
  case (Deleting a r)
  from delete_ok[OF ok i Deleting] step Deleting show ?thesis by (auto simp: join_next_def)
next
  case Returned_join
  with step ok i show ?thesis by (auto simp: join_next_def list_update_same_conv[THEN iffD2])
qed

lemma Leave_gone:
  assumes ok: "manager_ok m" and c: "c \<noteq> ''''"
  shows "map_of (vg_sessions (Leave env c m)) c = None"
proof (cases "leave_locked c None m")
  case None
  then have "map_of (vg_sessions m) c = None" by (auto simp: leave_locked_def Let_def split: option.splits prod.splits)
  with None c show ?thesis by (simp add: Leave_def leave_def)
next
  case (Some res)
  obtain m1 s sync where res: "res = (m1, s, sync)" by (cases res) auto
  obtain r room1 ch gone where L: "leaving m c s m1 r room1 ch gone"
    using leave_locked_leaving[OF ok] Some res by blast
  have "quiet m1 (session_close env s m1)" by (rule quiet_session_close[OF leaving_unregistered[OF L]])
  then have "quiet m1 (Leave env c m)"
    using Some res c by (auto simp: Leave_def leave_def Let_def intro: quiet_trans)
  then show ?thesis using leavingD(7)[OF L] by (simp add: quiet_index)
qed

lemma enter_ok:
  assumes ok: "manager_ok m" "joins_ok m joins" and a: "join_valid a"
    and new: "\<forall>pc \<in> set joins. pc_conn pc \<noteq> Some (ja_connectionID a)"
  shows "manager_ok (Leave env (ja_connectionID a) m) \<and>
    joins_ok (Leave env (ja_connectionID a) m) (joins @ [Entered a])" (is "_ \<and> joins_ok ?m _")
proof
  have c: "ja_connectionID a \<noteq> ''''" using a by (simp add: join_valid_def)
  have js: "joins_ok ?m joins" using Leave_ok[OF ok] by blast
  show "manager_ok ?m" using Leave_ok[OF ok] by blast
  have "unique_joins (joins @ [Entered a])"
    using joins_okD(5)[OF ok(2)] new unfolding unique_joins_def
    by (auto simp: nth_append less_Suc_eq split: if_splits)
  then show "joins_ok ?m (joins @ [Entered a])"
    using js Leave_gone[OF ok(1) c] unfolding joins_ok_def by (auto simp: held_append held_Cons held_def)
qed

lemma CloseManager_ok:
  assumes ok: "manager_ok m" "joins_ok m joins"
  shows "manager_ok (CloseManager env m) \<and> joins_ok (CloseManager env m) joins"
proof (cases "vg_closed m")
  case True
  with ok show ?thesis by (simp add: CloseManager_def)
next
  case False
  let ?m = "m\<lparr> vg_closed := True, vg_sessions := [], vg_rooms := [] \<rparr>"
  have "quiet ?m (fold (session_close env) xs ?m)" for xs
  proof (rule fold_inv)
    fix s m1 assume q: "quiet ?m m1"
    then have "vg_sessions m1 = []" using quiet_index(4)[OF q] by simp
    then show "quiet ?m (session_close env s m1)" by (intro quiet_trans[OF q] quiet_session_close) simp
  qed simp
  moreover have "manager_ok ?m" by (rule manager_okI) (use manager_okD[OF ok(1)] in simp_all)
  moreover have "joins_ok ?m joins" by (rule joins_okI) (use joins_okD[OF ok(2)] in simp_all)
  ultimately show ?thesis
    using False by (auto simp: CloseManager_def intro: quiet_manager_ok quiet_joins_ok)
qed

lemma voice_call_ok:
  assumes ok: "manager_ok m" "joins_ok m joins" and "voice_call env m m'"
  shows "manager_ok m' \<and> joins_ok m' joins"
  using assms(3)
proof cases
  case (run_task s reason rest)
  have "quiet m (m\<lparr> vg_tasks := rest \<rparr>)" by (simp add: quiet_def)
  then have "manager_ok (m\<lparr> vg_tasks := rest \<rparr>)" "joins_ok (m\<lparr> vg_tasks := rest \<rparr>) joins"
    using quiet_manager_ok[OF ok(1)] quiet_joins_ok[OF ok(2)] by blast+
  from failSession_ok[OF this] run_task show ?thesis by simp
next
  case (recovery_over s)
  with ok failSession_ok[OF ok] show ?thesis by (auto simp: recovery_exhausted_def)
next
  case (elapse t)
  then have "quiet m m'" by (simp add: quiet_def)
  with ok show ?thesis by (blast intro: quiet_manager_ok quiet_joins_ok)
qed (use ok Leave_ok[OF ok] CloseManager_ok[OF ok] failSession_ok[OF ok] onTrack_ok[OF ok] unpublish_track_ok[OF ok]
    in \<open>auto intro: quiet_manager_ok quiet_joins_ok\<close>)

interpretation voice_run: kept_by system_ok "voice_step env" for env
proof
  fix y y' assume ok: "system_ok y" and step: "voice_step env y y'"
  note okD = ok[unfolded system_ok_def]
  from step show "system_ok y'"
  proof cases
    case (join_enter a)
    with enter_ok[of "sy_manager y" "sy_joins y" a env] okD show ?thesis by (simp add: system_ok_def)
  next
    case (join_continue i n m' pc')
    with join_next_ok[of "sy_manager y" "sy_joins y" i env n m' pc'] okD show ?thesis by (simp add: system_ok_def)
  next
    case (call m')
    with voice_call_ok[of "sy_manager y" "sy_joins y" env m'] okD show ?thesis by (simp add: system_ok_def)
  qed
qed


subsection \<open>What the voice server guarantees\<close>

lemma voice_reachable_ok:
  assumes "2 \<le> maximum" and "(voice_step env)\<^sup>*\<^sup>* (new_voice_system maximum bitrate now blank) y"
  shows "manager_ok (sy_manager y)" and "joins_ok (sy_manager y) (sy_joins y)"
  using voice_run.along[OF assms(2) new_system_ok[OF assms(1)]] by (simp_all add: system_ok_def)

text \<open>The limit is fixed when the manager is made.\<close>

lemma max_session_close [simp]: "vg_maxParticipants (session_close env s m) = vg_maxParticipants m"
  by (simp add: session_close_def upd_session_def)

lemma max_leave [simp]: "vg_maxParticipants (fst (leave env c e m)) = vg_maxParticipants m"
proof -
  have "vg_maxParticipants m1 = vg_maxParticipants m" if "leave_locked c e m = Some (m1, s, sync)" for m1 s sync
    using that by (auto simp: leave_locked_def upd_session_def upd_room_def Let_def split_beta split: option.splits if_splits)
  then show ?thesis
    by (auto simp: leave_def Let_def quiet_index(6)[OF quiet_synchronizeSessions] split: option.split)
qed

lemma max_others [simp]:
  "vg_maxParticipants (Leave env c m) = vg_maxParticipants m"
  "vg_maxParticipants (failSession env s reason m) = vg_maxParticipants m"
  "vg_maxParticipants (CloseManager env m) = vg_maxParticipants m"
  "vg_maxParticipants (unpublish_track k s m) = vg_maxParticipants m"
  "vg_maxParticipants (fst (publish_track t s m)) = vg_maxParticipants m"
proof -
  have "vg_maxParticipants (fold (session_close env) xs m1) = vg_maxParticipants m1" for xs and m1 :: "('a, 'b) voice_manager"
    by (rule fold_inv) simp_all
  then show "vg_maxParticipants (CloseManager env m) = vg_maxParticipants m" by (simp add: CloseManager_def)
qed (simp_all add: Leave_def failSession_def sink_call_def unpublish_track_def publish_track_def upd_room_def Let_def
    split_beta quiet_index(6)[OF quiet_synchronizeSessions])

lemma max_onTrack [simp]: "vg_maxParticipants (fst (onTrack env remote s m)) = vg_maxParticipants m"
  by (simp add: onTrack_def forwardAudio_start_def forwardVideo_start_def Let_def scheduleFail_def
      split: rtp_kind.split sum.split)

lemma max_call: "voice_call env m m' \<Longrightarrow> vg_maxParticipants m' = vg_maxParticipants m"
  by (induction rule: voice_call.induct)
    (simp_all add: recovery_exhausted_def quiet_index(6)[OF quiet_manager_calls(1)] quiet_index(6)[OF quiet_manager_calls(2)]
      quiet_index(6)[OF quiet_manager_calls(3)] quiet_index(6)[OF quiet_restartICE] quiet_index(6)[OF quiet_onICECandidate]
      quiet_index(6)[OF quiet_handleConnectionState] quiet_index(6)[OF quiet_packets(1)] quiet_index(6)[OF quiet_packets(2)]
      quiet_index(6)[OF quiet_requestKeyframe] quiet_index(6)[OF quiet_sync_one])

lemma max_join_next: "join_next env n pc m = (m', pc') \<Longrightarrow> vg_maxParticipants m' = vg_maxParticipants m"
  by (cases pc)
    (auto simp: join_next_def join_reserve_def join_room_def join_install_def join_finish_def join_cancel_def
      remove_room_locked_def upd_room_def Let_def dest: quiet_index(6)[OF quiet_fst[OF quiet_synchronizeTracks]]
      split: sum.splits prod.splits option.splits if_splits)

lemma max_kept:
  assumes "(voice_step env)\<^sup>*\<^sup>* (new_voice_system maximum bitrate now blank) y"
  shows "vg_maxParticipants (sy_manager y) = maximum"
  using assms
proof (induction rule: rtranclp_induct)
  case base
  show ?case by (simp add: new_voice_system_def new_voice_manager_def)
next
  case (step y y')
  from step(2) have "vg_maxParticipants (sy_manager y') = vg_maxParticipants (sy_manager y)"
    by cases (auto dest: max_call max_join_next)
  with step(3) show ?case by simp
qed

lemma joins_ok_returned:
  assumes "joins_ok m [Returned_join]"
  shows "joins_ok m []"
  using assms unfolding joins_ok_def by (simp add: held_Cons held_def unique_joins_def)

text \<open>A sequential \<^verbatim>\<open>Join\<close> runs its sections one after the other.\<close>

lemma removeRoom_ok:
  assumes "manager_ok m" and "joins_ok m [Cancelling a r]"
  shows "manager_ok (removeRoomIfEmpty (ja_channelID a) r (join_cancel r m)) \<and>
    joins_ok (removeRoomIfEmpty (ja_channelID a) r (join_cancel r m)) []"
proof -
  let ?m = "join_cancel r m"
  have c: "manager_ok ?m" "joins_ok ?m [Cleaning a r]" using cancel_ok[OF assms, of 0] by simp_all
  show ?thesis
  proof (cases "room_empty (vg_roomHeap ?m r)")
    case True
    have "joins_ok ?m [Deleting a r]" using joins_ok_move[OF c(2), of 0 "Deleting a r"] by simp
    from delete_ok[OF c(1) this, of 0] True show ?thesis
      by (auto simp: removeRoomIfEmpty_def intro: joins_ok_returned)
  next
    case False
    have "joins_ok ?m [Returned_join]" using joins_ok_move[OF c(2), of 0 Returned_join] False by simp
    with c False show ?thesis by (auto simp: removeRoomIfEmpty_def intro: joins_ok_returned)
  qed
qed

end
