(* ===== verification/VoiceGuarantees.thy ===== *)
theory VoiceGuarantees
  imports VoiceSfuRun
begin

text \<open>
  What the voice media server guarantees in every run, with a small instance of the WebRTC library on
  which the theorems are applied.
\<close>

subsection \<open>An instance of the library\<close>

text \<open>A peer is the list of the tracks of its senders; every call succeeds and signalling is always
  stable.\<close>

definition sample_pion :: "(local_track option list, unit) pion" where
  "sample_pion =
     \<lparr> pn_NewPeerConnection = (\<lambda>_. Inr []), pn_AddTransceiver = (\<lambda>_ p. (p, None)), pn_GetSenders = enumerate 0,
        pn_RemoveTrack = (\<lambda>s p. (p[s := None], None)), pn_AddTrack = (\<lambda>t p. (p @ [Some t], None)),
        pn_Stable = (\<lambda>_. True), pn_CreateOffer = (\<lambda>_ p. (p, Inr ''v=0'')), pn_SetLocalDescription = (\<lambda>_ p. (p, None)),
        pn_SetRemoteDescription = (\<lambda>_ p. (p, None)), pn_RemoteDescription = (\<lambda>_. None),
        pn_AddICECandidate = (\<lambda>_ p. (p, None)), pn_ConnectionState = (\<lambda>_. StateConnected), pn_Close = (\<lambda>p. p),
        pn_NewTrack = (\<lambda>remote ident stream. Inr \<lparr> lt_id = ident, lt_streamID = stream, lt_kind = rm_kind remote \<rparr>),
        rl_NewLimiter = (\<lambda>_ _. ()), rl_AllowN = (\<lambda>_ _ l. (True, l)) \<rparr>"

definition sample_env :: "(local_track option list, unit) voice_env" where
  "sample_env = \<lparr> ve_pion = sample_pion, ve_sink = (\<lambda>_ _. True) \<rparr>"

definition sample_session :: "(local_track option list, unit) voice_session" where
  "sample_session = newSession sample_env (new_voice_manager 2 128 0 undefined) 0 [] '''' 0 0 0 False False"

definition sample_system :: "(local_track option list, unit) voice_system" where
  "sample_system = new_voice_system 2 128 0 sample_session"

definition ann :: join_args where
  "ann = \<lparr> ja_connectionID = ''a'', ja_userID = 1, ja_serverID = 1, ja_channelID = 7, ja_selfMute = False, ja_selfDeaf = False \<rparr>"

definition bob :: join_args where
  "bob = \<lparr> ja_connectionID = ''b'', ja_userID = 2, ja_serverID = 1, ja_channelID = 7, ja_selfMute = False, ja_selfDeaf = False \<rparr>"

subsection \<open>Guarantees\<close>

text \<open>C7: In every interleaving of joins with everything else, a room holds at most
  \<^verbatim>\<open>maxParticipants\<close> participants, counting the joins in flight; its reservations are exactly those
  joins, so none leaks; and a room that is empty is about to be removed by the join that emptied it.\<close>

theorem voice_capacity:
  assumes "2 \<le> maximum" and "(voice_step env)\<^sup>*\<^sup>* (new_voice_system maximum bitrate now blank) y"
  shows "\<forall>ch r. map_of (vg_rooms (sy_manager y)) ch = Some r \<longrightarrow>
    (let room = vg_roomHeap (sy_manager y) r in
     int (length (vr_sessions room)) + vr_reservations room \<le> maximum \<and>
     vr_reservations room = held r (sy_joins y) \<and>
     (room_empty room \<longrightarrow> (\<exists>pc \<in> set (sy_joins y). pc_cleans pc = Some (ch, r))))"
proof (intro allI impI)
  fix ch r assume "map_of (vg_rooms (sy_manager y)) ch = Some r"
  with joins_okD(1)[OF voice_reachable_ok(2)[OF assms], of r] joins_okD(6)[OF voice_reachable_ok(2)[OF assms], of ch r] max_kept[OF assms(2)]
  show "let room = vg_roomHeap (sy_manager y) r in
     int (length (vr_sessions room)) + vr_reservations room \<le> maximum \<and>
     vr_reservations room = held r (sy_joins y) \<and>
     (room_empty room \<longrightarrow> (\<exists>pc \<in> set (sy_joins y). pc_cleans pc = Some (ch, r)))"
    unfolding room_ok_def Let_def by blast
qed

text \<open>C8: In every run the manager and its rooms agree: a registered session is open, belongs to its
  connection and is a participant of the room of its channel; the participants of a room are the
  registered sessions of it; every track of a room belongs to a participant, who has at most one track
  of each kind; and a closed manager has neither rooms nor sessions.\<close>

theorem voice_registry_consistent:
  assumes "2 \<le> maximum" and "(voice_step env)\<^sup>*\<^sup>* (new_voice_system maximum bitrate now blank) y"
  shows "let m = sy_manager y in
    (\<forall>c s. map_of (vg_sessions m) c = Some s \<longrightarrow>
      \<not> ss_closed (the_session m s) \<and> ss_connectionID (the_session m s) = c \<and>
      map_of (vg_rooms m) (ss_channelID (the_session m s)) = Some (ss_room (the_session m s)) \<and>
      map_of (vr_sessions (the_room m s)) c = Some s) \<and>
    (\<forall>ch r c s. map_of (vg_rooms m) ch = Some r \<and> map_of (vr_sessions (vg_roomHeap m r)) c = Some s \<longrightarrow>
      map_of (vg_sessions m) c = Some s) \<and>
    (\<forall>r k t. (k, t) \<in> set (vr_tracks (vg_roomHeap m r)) \<longrightarrow>
      map_of (vr_sessions (vg_roomHeap m r)) (rt_ownerConnectionID t) \<noteq> None \<and>
      (\<forall>k' t'. (k', t') \<in> set (vr_tracks (vg_roomHeap m r)) \<and> rt_ownerConnectionID t = rt_ownerConnectionID t' \<and>
         lt_kind (rt_track t) = lt_kind (rt_track t') \<longrightarrow> k = k')) \<and>
    (vg_closed m \<longrightarrow> vg_rooms m = [] \<and> vg_sessions m = [])"
proof -
  define m where "m = sy_manager y"
  have ok: "manager_ok m" "joins_ok m (sy_joins y)" unfolding m_def using voice_reachable_ok[OF assms] by blast+
  have tr: "tracks_ok (vg_roomHeap m r)" for r using joins_okD(1)[OF ok(2), of r] by (simp add: room_ok_def)
  have "map_of (vr_sessions (vg_roomHeap m r)) (rt_ownerConnectionID t) \<noteq> None \<and>
      (\<forall>k' t'. (k', t') \<in> set (vr_tracks (vg_roomHeap m r)) \<and> rt_ownerConnectionID t = rt_ownerConnectionID t' \<and>
         lt_kind (rt_track t) = lt_kind (rt_track t') \<longrightarrow> k = k')"
    if "(k, t) \<in> set (vr_tracks (vg_roomHeap m r))" for r k t
    using tr[of r] that unfolding tracks_ok_def by blast
  moreover have "session_ok m c s" if "map_of (vg_sessions m) c = Some s" for c s
    by (rule session_registered[OF ok(1) that])
  ultimately show ?thesis
    using room_member(1)[OF ok(1)] manager_okD(5)[OF ok(1)] unfolding session_ok_def Let_def m_def[symmetric] by blast
qed

subsection \<open>Sample runs\<close>

fun advance :: "('p, 'l) voice_env \<Rightarrow> nat \<Rightarrow> nat \<Rightarrow> nat \<Rightarrow> ('p, 'l) voice_system \<Rightarrow> ('p, 'l) voice_system" where
  "advance env n i 0 y = y"
| "advance env n i (Suc k) y =
     (let (m', pc') = join_next env n (sy_joins y ! i) (sy_manager y) in
      advance env n i k (y\<lparr> sy_manager := m', sy_joins := (sy_joins y)[i := pc'] \<rparr>))"

lemma advance_run: "i < length (sy_joins y) \<Longrightarrow> (voice_step env)\<^sup>*\<^sup>* y (advance env n i k y)"
proof (induction k arbitrary: y)
  case (Suc k)
  obtain m' pc' where r: "join_next env n (sy_joins y ! i) (sy_manager y) = (m', pc')" by fastforce
  let ?y = "y\<lparr> sy_manager := m', sy_joins := (sy_joins y)[i := pc'] \<rparr>"
  have "voice_step env y ?y" by (rule join_continue[OF Suc.prems r])
  moreover have "(voice_step env)\<^sup>*\<^sup>* ?y (advance env n i k ?y)" by (rule Suc.IH) (simp add: Suc.prems)
  ultimately show ?case by (simp add: r converse_rtranclp_into_rtranclp)
qed simp

definition enter :: "join_args \<Rightarrow> ('p, 'l) voice_env \<Rightarrow> ('p, 'l) voice_system \<Rightarrow> ('p, 'l) voice_system" where
  "enter a env y = y\<lparr> sy_manager := Leave env (ja_connectionID a) (sy_manager y), sy_joins := sy_joins y @ [Entered a] \<rparr>"

definition sample_run :: "(local_track option list, unit) voice_system" where
  "sample_run = advance sample_env 2 1 2 (enter bob sample_env (advance sample_env 1 0 4 (enter ann sample_env sample_system)))"

lemma enter_run:
  "join_valid a \<Longrightarrow> \<forall>pc \<in> set (sy_joins y). pc_conn pc \<noteq> Some (ja_connectionID a) \<Longrightarrow>
   (voice_step env)\<^sup>*\<^sup>* y (enter a env y)"
  unfolding enter_def by (rule r_into_rtranclp) (rule join_enter)

lemma sample_joins: "sy_joins (advance sample_env 1 0 4 (enter ann sample_env sample_system)) = [Returned_join]"
  by code_simp

lemma sample_run_reachable:
  "(voice_step sample_env)\<^sup>*\<^sup>* (new_voice_system 2 128 0 sample_session) sample_run"
proof -
  let ?y1 = "enter ann sample_env sample_system"
  let ?y2 = "advance sample_env 1 0 4 ?y1"
  have "(voice_step sample_env)\<^sup>*\<^sup>* sample_system ?y1"
    by (rule enter_run) (simp_all add: join_valid_def ann_def sample_system_def new_voice_system_def)
  also have "(voice_step sample_env)\<^sup>*\<^sup>* ?y1 ?y2" by (rule advance_run) (simp add: enter_def)
  also have "(voice_step sample_env)\<^sup>*\<^sup>* ?y2 (enter bob sample_env ?y2)"
    by (rule enter_run) (unfold sample_joins, simp_all add: join_valid_def bob_def)
  also have "(voice_step sample_env)\<^sup>*\<^sup>* (enter bob sample_env ?y2) sample_run"
    unfolding sample_run_def by (rule advance_run) (unfold enter_def[of bob], simp add: sample_joins[unfolded One_nat_def])
  finally show ?thesis by (simp add: sample_system_def)
qed

lemma sample_run_room:
  "map_of (vg_rooms (sy_manager sample_run)) 7 = Some 1"
  by code_simp

lemma voice_capacity_witness:
  "int (length (vr_sessions (vg_roomHeap (sy_manager sample_run) 1))) +
     vr_reservations (vg_roomHeap (sy_manager sample_run) 1) \<le> 2"
  using voice_capacity[of 2, OF _ sample_run_reachable, rule_format, OF _ sample_run_room] unfolding Let_def by simp

lemma sample_run_session: "map_of (vg_sessions (sy_manager sample_run)) ''a'' = Some 1"
  by code_simp

lemma voice_registry_consistent_witness:
  "ss_connectionID (the_session (sy_manager sample_run) 1) = ''a'' \<and>
   map_of (vr_sessions (the_room (sy_manager sample_run) 1)) ''a'' = Some 1"
  using voice_registry_consistent[of 2, OF _ sample_run_reachable] sample_run_session by (simp add: Let_def)

definition sample_both :: "(local_track option list, unit) voice_system" where
  "sample_both = advance sample_env 2 1 2 sample_run"

lemma sample_both_reachable:
  "(voice_step sample_env)\<^sup>*\<^sup>* (new_voice_system 2 128 0 sample_session) sample_both"
proof -
  have "length (sy_joins sample_run) = 2" by code_simp
  then have "(voice_step sample_env)\<^sup>*\<^sup>* sample_run sample_both"
    unfolding sample_both_def by (intro advance_run) simp
  with sample_run_reachable show ?thesis by (rule rtranclp_trans)
qed

text \<open>A synchronisation only sends offers and closes nobody.\<close>

definition only_offers :: "('p, 'l) voice_manager \<Rightarrow> ('p, 'l) voice_manager \<Rightarrow> bool" where
  "only_offers m m' \<longleftrightarrow>
     (\<exists>offers. vg_signals m' = offers @ vg_signals m \<and> (\<forall>sig \<in> set offers. \<exists>c sdp. sig = SendOffer c sdp)) \<and>
     (\<forall>s. ss_closed (the_session m' s) = ss_closed (the_session m s))"

lemma only_offers_refl [simp]: "only_offers m m"
  by (simp add: only_offers_def)

lemma only_offers_trans:
  assumes "only_offers m m1" and "only_offers m1 m2"
  shows "only_offers m m2"
proof -
  from assms obtain o1 o2 where o: "vg_signals m1 = o1 @ vg_signals m" "vg_signals m2 = o2 @ vg_signals m1"
      "\<forall>sig \<in> set o1. \<exists>c sdp. sig = SendOffer c sdp" "\<forall>sig \<in> set o2. \<exists>c sdp. sig = SendOffer c sdp"
    unfolding only_offers_def by blast
  have "\<exists>offers. vg_signals m2 = offers @ vg_signals m \<and> (\<forall>sig \<in> set offers. \<exists>c sdp. sig = SendOffer c sdp)"
    by (rule exI[of _ "o2 @ o1"]) (use o in auto)
  with assms show ?thesis by (simp add: only_offers_def)
qed

lemma only_offers_signals:
  "vg_signals m1 = vg_signals m \<Longrightarrow> (\<And>s. ss_closed (the_session m1 s) = ss_closed (the_session m s)) \<Longrightarrow> only_offers m m1"
  by (simp add: only_offers_def)

lemma only_offers_createOffer: "only_offers m (fst (createOfferLocked env b s m))"
  by (rule only_offers_signals)
    (simp_all add: createOfferLocked_def upd_session_def Let_def split: prod.split sum.split option.split)

lemma only_offers_sendOffer: "only_offers m (sendOffer env s sdp m)"
  by (simp add: only_offers_def sendOffer_def sink_call_def scheduleFail_def Let_def)

lemma only_offers_fst: "only_offers m (fst r) \<Longrightarrow> r = (m1, x) \<Longrightarrow> only_offers m m1"
  by simp

lemma only_offers_needed: "only_offers m (fst (offer_if_needed env needed s m))"
proof -
  have "only_offers m (upd_session s (\<lambda>x. x\<lparr>ss_negotiationPending := True\<rparr>) m)"
    by (rule only_offers_signals) (simp_all add: upd_session_def)
  then show ?thesis
    by (auto simp: offer_if_needed_def Let_def split: prod.split sum.split
        dest: only_offers_fst[OF only_offers_createOffer] intro: only_offers_trans[OF _ only_offers_sendOffer])
qed

lemma only_offers_synchronizeTracks: "only_offers m (fst (synchronizeTracks env force s m))"
proof -
  have peer: "only_offers m (upd_session s (\<lambda>x. x\<lparr> ss_peer := p \<rparr>) m)" for p
    by (rule only_offers_signals) (simp_all add: upd_session_def)
  then show ?thesis
    using only_offers_trans[OF peer only_offers_needed]
    by (auto simp: synchronizeTracks_def Let_def split: prod.split option.split)
qed

lemma only_offers_scheduleFail: "only_offers m (scheduleFail s reason m)"
  by (rule only_offers_signals) (simp_all add: scheduleFail_def)

lemma only_offers_sync_one: "only_offers m (sync_one env s m)"
  by (auto simp: sync_one_def split: prod.split option.split
      dest: only_offers_fst[OF only_offers_synchronizeTracks] intro: only_offers_trans[OF _ only_offers_scheduleFail])

lemma only_offers_synchronizeSessions: "only_offers m (synchronizeSessions env r m)"
  unfolding synchronizeSessions_def
  by (rule fold_inv) (auto intro: only_offers_trans[OF _ only_offers_sync_one])

lemma leave_registered:
  assumes ok: "manager_ok m" and c: "c \<noteq> ''''" and at: "map_of (vg_sessions m) c = Some s"
    and e: "expected = None \<or> expected = Some s"
  shows "snd (leave env c expected m)"
    and "vg_sessions (fst (leave env c expected m)) = AList.delete c (vg_sessions m)"
    and "ss_closed (the_session (fst (leave env c expected m)) s)"
    and "\<exists>offers. vg_signals (fst (leave env c expected m)) = offers @ vg_signals m \<and>
      (\<forall>sig \<in> set offers. \<exists>c sdp. sig = SendOffer c sdp)"
proof -
  obtain m1 sync where l: "leave_locked c expected m = Some (m1, s, sync)"
    using at e by (auto simp: leave_locked_def Let_def split_beta)
  obtain r room1 ch gone where L: "leaving m c s m1 r room1 ch gone" using leave_locked_leaving[OF ok l] by blast
  let ?m2 = "session_close env s m1"
  have m2: "vg_sessions ?m2 = AList.delete c (vg_sessions m)" "ss_closed (the_session ?m2 s)" "vg_signals ?m2 = vg_signals m"
    using leavingD(7)[OF L] by (auto simp: session_close_def upd_session_def)
  have res: "leave env c expected m = (if sync then synchronizeSessions env (ss_room (the_session ?m2 s)) ?m2 else ?m2, True)"
    using l c by (simp add: leave_def Let_def)
  have "only_offers ?m2 (fst (leave env c expected m))" using only_offers_synchronizeSessions by (auto simp: res)
  then show "ss_closed (the_session (fst (leave env c expected m)) s)"
    "\<exists>offers. vg_signals (fst (leave env c expected m)) = offers @ vg_signals m \<and> (\<forall>sig \<in> set offers. \<exists>c sdp. sig = SendOffer c sdp)"
    using m2(2,3) by (simp_all add: only_offers_def)
  show "snd (leave env c expected m)" by (simp add: res)
  show "vg_sessions (fst (leave env c expected m)) = AList.delete c (vg_sessions m)"
    using m2(1) quiet_index(4)[OF quiet_synchronizeSessions[of ?m2 env "ss_room (the_session ?m2 s)"]] by (simp add: res)
qed

text \<open>A failure reported for a session takes down exactly that session: when the session is still
  the one registered for its connection, it is closed and unregistered and the failure is signalled
  once, with this session, after the offers that tell the others; when the connection has left or joined
  again since, nothing changes at all.\<close>

theorem voice_failure_isolated:
  assumes "2 \<le> maximum" and "(voice_step env)\<^sup>*\<^sup>* (new_voice_system maximum bitrate now blank) y"
  shows "let m = sy_manager y; c = ss_connectionID (the_session m s); m' = failSession env s reason m in
    if s \<noteq> 0 \<and> c \<noteq> '''' \<and> map_of (vg_sessions m) c = Some s then
      vg_sessions m' = AList.delete c (vg_sessions m) \<and> ss_closed (the_session m' s) \<and>
      (\<exists>offers. vg_signals m' = OnFailure s c reason # offers @ vg_signals m \<and>
         (\<forall>sig \<in> set offers. \<exists>c' sdp. sig = SendOffer c' sdp))
    else m' = m"
proof -
  define m where "m = sy_manager y"
  define c where "c = ss_connectionID (the_session m s)"
  have ok: "manager_ok m" unfolding m_def by (rule voice_reachable_ok(1)[OF assms])
  show ?thesis
  proof (cases "s \<noteq> 0 \<and> c \<noteq> '''' \<and> map_of (vg_sessions m) c = Some s")
    case True
    then have "c \<noteq> ''''" "map_of (vg_sessions m) c = Some s" "s \<noteq> 0" by auto
    note l = leave_registered[OF ok this(1,2), of "Some s" env]
    have "failSession env s reason m = fst (sink_call env (OnFailure s c reason) (fst (leave env c (Some s) m)))"
      using l(1) True by (simp add: failSession_def c_def[symmetric] Let_def split_beta)
    with True l show ?thesis by (simp add: m_def[symmetric] c_def[symmetric] Let_def sink_call_def)
  next
    case False
    then have "leave env c (Some s) m = (m, False) \<or> s = 0"
      by (auto simp: leave_def leave_locked_def split: option.split)
    then have "failSession env s reason m = m" by (auto simp: failSession_def c_def[symmetric] Let_def)
    with False show ?thesis by (auto simp: m_def[symmetric] c_def[symmetric] Let_def)
  qed
qed

lemma voice_failure_isolated_witness:
  "\<exists>offers. vg_signals (failSession sample_env 1 ''lost'' (sy_manager sample_both)) =
     OnFailure 1 ''a'' ''lost'' # offers @ vg_signals (sy_manager sample_both)"
proof -
  have "ss_connectionID (the_session (sy_manager sample_both) 1) = ''a''"
    "map_of (vg_sessions (sy_manager sample_both)) ''a'' = Some 1" by code_simp+
  with voice_failure_isolated[of 2, OF _ sample_both_reachable, of 1 "''lost''"] show ?thesis
    unfolding Let_def by auto
qed


text \<open>The steps of a \<^verbatim>\<open>Join\<close> that is alone.\<close>

lemma sessions_untouched [simp]:
  "vg_sessions (removeRoomIfEmpty ch r (join_cancel r m)) = vg_sessions m"
  by (simp add: removeRoomIfEmpty_def remove_room_locked_def join_cancel_def upd_room_def)

lemma sessions_reserve: "join_reserve ch m = (m1, res) \<Longrightarrow> vg_sessions m1 = vg_sessions m"
  by (auto simp: join_reserve_def join_room_def upd_room_def Let_def split: if_splits option.splits prod.splits)

lemma reserve_full:
  assumes ok: "manager_ok m" "joins_ok m [Entered a]" and full: "join_reserve (ja_channelID a) m = (m1, Inl ErrRoomFull)"
  shows "\<exists>r. map_of (vg_rooms m1) (ja_channelID a) = Some r \<and>
    int (length (vr_sessions (vg_roomHeap m1 r))) = vg_maxParticipants m"
proof (cases "map_of (vg_rooms m) (ja_channelID a)")
  case None
  with full manager_okD(1)[OF ok(1)] show ?thesis
    by (auto simp: join_reserve_def join_room_def room_reserve_def voice_newRoom_def Let_def split: if_splits)
next
  case (Some r)
  with full have "m1 = m" and "vg_maxParticipants m \<le> int (length (vr_sessions (vg_roomHeap m r))) + vr_reservations (vg_roomHeap m r)"
    by (auto simp: join_reserve_def join_room_def room_reserve_def Let_def split: if_splits)
  moreover have "room_ok (vg_maxParticipants m) 0 (vg_roomHeap m r)"
    using joins_okD(1)[OF ok(2), of r] by (simp add: held_Cons held_def)
  ultimately show ?thesis using Some by (simp add: room_ok_def)
qed

definition joined :: "join_args \<Rightarrow> ('p, 'l) voice_manager \<Rightarrow> bool" where
  "joined a m \<longleftrightarrow>
     (case map_of (vg_sessions m) (ja_connectionID a) of
        None \<Rightarrow> False
      | Some s \<Rightarrow> ss_channelID (the_session m s) = ja_channelID a)"

lemma join_finish_alone:
  assumes ok: "manager_ok m" "joins_ok m [Installed a s]" and a: "join_valid a"
    and at: "map_of (vg_sessions m) (ja_connectionID a) = Some s" "ss_channelID (the_session m s) = ja_channelID a"
    and fin: "join_finish env a s m = (m', res)"
  shows "manager_ok m' \<and> joins_ok m' []" and "res = None \<Longrightarrow> joined a m'"
    and "res \<noteq> None \<Longrightarrow> map_of (vg_sessions m') (ja_connectionID a) = None" and "res \<noteq> Some ErrRoomFull"
proof -
  obtain m1 e where r: "synchronizeTracks env True s m = (m1, e)" by fastforce
  have q: "quiet m m1" by (rule quiet_fst[OF quiet_synchronizeTracks r])
  show "manager_ok m' \<and> joins_ok m' []"
    using finish_ok[OF ok, of 0 a s env] fin by (auto intro: joins_ok_returned)
  show "res = None \<Longrightarrow> joined a m'"
    using fin r at q by (auto simp: join_finish_def joined_def quiet_def split: option.splits)
  have "ja_connectionID a \<noteq> ''''" using a by (simp add: join_valid_def)
  then show "map_of (vg_sessions m') (ja_connectionID a) = None" if "res \<noteq> None"
    using fin r that Leave_gone[OF quiet_manager_ok[OF ok(1) q]] by (auto simp: join_finish_def split: option.splits)
  show "res \<noteq> Some ErrRoomFull" using fin r by (auto simp: join_finish_def split: option.splits)
qed

lemma join_install_alone:
  assumes ok: "manager_ok m" "joins_ok m [HavePeer a r peer]" and ins: "join_install env a r peer m = (m1, Inr s)"
  shows "manager_ok m1" "joins_ok m1 [Installed a s]" "map_of (vg_sessions m1) (ja_connectionID a) = Some s"
    "ss_channelID (the_session m1 s) = ja_channelID a"
proof -
  show "manager_ok m1" "joins_ok m1 [Installed a s]" using install_ok[OF ok, of 0, OF _ _ ins] by simp_all
  from install_result[OF ins] show "map_of (vg_sessions m1) (ja_connectionID a) = Some s"
    "ss_channelID (the_session m1 s) = ja_channelID a" by (auto simp: installed_def)
qed

lemma join_abandoned:
  assumes ok: "manager_ok m" "joins_ok m [pc]" and pc: "pc = Reserved a r \<or> pc = HavePeer a r peer"
  shows "manager_ok (removeRoomIfEmpty (ja_channelID a) r (join_cancel r m)) \<and>
    joins_ok (removeRoomIfEmpty (ja_channelID a) r (join_cancel r m)) []"
    and "map_of (vg_sessions (removeRoomIfEmpty (ja_channelID a) r (join_cancel r m))) (ja_connectionID a) = None"
proof -
  have "joins_ok m [Cancelling a r]"
    using joins_ok_move[OF ok(2), of 0 "Cancelling a r"] pc by auto
  from removeRoom_ok[OF ok(1) this] show "manager_ok (removeRoomIfEmpty (ja_channelID a) r (join_cancel r m)) \<and>
    joins_ok (removeRoomIfEmpty (ja_channelID a) r (join_cancel r m)) []" .
  show "map_of (vg_sessions (removeRoomIfEmpty (ja_channelID a) r (join_cancel r m))) (ja_connectionID a) = None"
    using joins_okD(4)[OF ok(2), of pc "ja_connectionID a"] pc by auto
qed

lemma join_reserved_alone:
  assumes ok: "manager_ok m" "joins_ok m [Reserved a r]" and a: "join_valid a"
    and rest: "(case join_peer env (vg_nextSession m) of
        Inl e \<Rightarrow> (removeRoomIfEmpty (ja_channelID a) r (join_cancel r m), Some e)
      | Inr peer \<Rightarrow> (case join_install env a r peer m of
            (m2, Inl e) \<Rightarrow> (removeRoomIfEmpty (ja_channelID a) r (join_cancel r m2), Some e)
          | (m2, Inr s) \<Rightarrow> join_finish env a s m2)) = (m', res)"
  shows "(manager_ok m' \<and> joins_ok m' []) \<and> (res = None \<longrightarrow> joined a m') \<and>
    (res \<noteq> None \<longrightarrow> map_of (vg_sessions m') (ja_connectionID a) = None) \<and> res \<noteq> Some ErrRoomFull"
proof (cases "join_peer env (vg_nextSession m)")
  case (Inl e)
  then have "e \<noteq> ErrRoomFull" by (auto simp: join_peer_def Let_def split: sum.splits prod.splits option.splits)
  with rest Inl join_abandoned[OF ok, of a r] show ?thesis by auto
next
  case (Inr peer)
  have hp: "joins_ok m [HavePeer a r peer]" using joins_ok_move[OF ok(2), of 0 "HavePeer a r peer"] by simp
  obtain m2 ins where ins: "join_install env a r peer m = (m2, ins)" by fastforce
  show ?thesis
  proof (cases ins)
    case (Inl e)
    then have "m2 = m" "e \<noteq> ErrRoomFull" using ins by (auto simp: join_install_def Let_def split: if_splits)
    with rest Inr ins Inl join_abandoned[OF ok(1) hp, of a r] show ?thesis by auto
  next
    case ok2: (Inr s)
    note inst = join_install_alone[OF ok(1) hp ins[unfolded ok2]]
    have "join_finish env a s m2 = (m', res)" using rest Inr ins ok2 by simp
    from join_finish_alone[OF inst(1,2) a inst(3,4) this] show ?thesis by blast
  qed
qed

lemma Join_alone:
  assumes ok: "manager_ok m" "joins_ok m []" and a: "join_valid a" and jn: "Join env a m = (m', res)"
  shows "(manager_ok m' \<and> joins_ok m' []) \<and> (res = None \<longrightarrow> joined a m') \<and>
    (res \<noteq> None \<longrightarrow> map_of (vg_sessions m') (ja_connectionID a) = None) \<and>
    (res = Some ErrRoomFull \<longrightarrow> (\<exists>r. map_of (vg_rooms m') (ja_channelID a) = Some r \<and>
      int (length (vr_sessions (vg_roomHeap m' r))) = vg_maxParticipants m))"
proof -
  let ?m = "Leave env (ja_connectionID a) m"
  have e: "manager_ok ?m" "joins_ok ?m [Entered a]" using enter_ok[OF ok a, of env] by simp_all
  have gone: "map_of (vg_sessions ?m) (ja_connectionID a) = None" using joins_okD(4)[OF e(2)] by simp
  obtain m1 rv where rv: "join_reserve (ja_channelID a) ?m = (m1, rv)" by fastforce
  have m1: "manager_ok m1" "joins_ok m1 [case rv of Inl e \<Rightarrow> Returned_join | Inr r \<Rightarrow> Reserved a r]"
    using reserve_ok[OF e, of 0, OF _ _ rv] by simp_all
  note jn' = jn[unfolded Join_def rv prod.case]
  show ?thesis
  proof (cases rv)
    case (Inl e1)
    with jn' a have eq: "m' = m1" "res = Some e1" by (simp_all add: join_valid_def)
    have "joins_ok m1 []" using m1(2) Inl by (auto intro: joins_ok_returned)
    moreover have "\<exists>r. map_of (vg_rooms m1) (ja_channelID a) = Some r \<and>
      int (length (vr_sessions (vg_roomHeap m1 r))) = vg_maxParticipants m" if "e1 = ErrRoomFull"
      using reserve_full[OF e] rv Inl that by simp
    ultimately show ?thesis using eq m1(1) gone sessions_reserve[OF rv] by simp
  next
    case (Inr r)
    have "joins_ok m1 [Reserved a r]" using m1(2) Inr by simp
    from join_reserved_alone[OF m1(1) this a, of env m' res] show ?thesis
      using jn' Inr a by (simp add: join_valid_def)
  qed
qed

text \<open>C27: A \<^verbatim>\<open>Join\<close> that is not interrupted either registers a session for the connection in the room of
  the channel or leaves nothing behind: no session, no reservation and no empty room. It fails with
  \<^verbatim>\<open>ErrRoomFull\<close> only when the room has as many participants as are allowed.\<close>

theorem voice_join_all_or_nothing:
  assumes "2 \<le> maximum" and "(voice_step env)\<^sup>*\<^sup>* (new_voice_system maximum bitrate now blank) y"
    and "sy_joins y = []" and "join_valid a" and "Join env a (sy_manager y) = (m', res)"
  shows "(case res of
      None \<Rightarrow> \<exists>s. map_of (vg_sessions m') (ja_connectionID a) = Some s \<and> ss_channelID (the_session m' s) = ja_channelID a \<and>
        map_of (vg_rooms m') (ja_channelID a) = Some (ss_room (the_session m' s))
    | Some e \<Rightarrow> map_of (vg_sessions m') (ja_connectionID a) = None) \<and>
    (\<forall>ch r. map_of (vg_rooms m') ch = Some r \<longrightarrow> vr_sessions (vg_roomHeap m' r) \<noteq> [] \<and> vr_reservations (vg_roomHeap m' r) = 0) \<and>
    (res = Some ErrRoomFull \<longrightarrow>
       (\<exists>r. map_of (vg_rooms m') (ja_channelID a) = Some r \<and> int (length (vr_sessions (vg_roomHeap m' r))) = maximum))"
proof -
  note ok = voice_reachable_ok[OF assms(1,2)]
  note alone = Join_alone[OF ok(1) ok(2)[unfolded assms(3)] assms(4,5)]
  then have ok': "manager_ok m'" "joins_ok m' []" by simp_all
  have rooms: "vr_sessions (vg_roomHeap m' r) \<noteq> [] \<and> vr_reservations (vg_roomHeap m' r) = 0"
    if "map_of (vg_rooms m') ch = Some r" for ch r
    using joins_okD(1)[OF ok'(2), of r] joins_okD(6)[OF ok'(2) that] by (auto simp: room_ok_def room_empty_def held_def)
  have "\<exists>s. map_of (vg_sessions m') (ja_connectionID a) = Some s \<and> ss_channelID (the_session m' s) = ja_channelID a \<and>
    map_of (vg_rooms m') (ja_channelID a) = Some (ss_room (the_session m' s))" if "res = None"
  proof -
    from alone that obtain s where s: "map_of (vg_sessions m') (ja_connectionID a) = Some s"
      "ss_channelID (the_session m' s) = ja_channelID a" by (auto simp: joined_def split: option.splits)
    with session_registered[OF ok'(1) s(1)] show ?thesis by (simp add: session_ok_def)
  qed
  with rooms alone max_kept[OF assms(2)] show ?thesis by (cases res) auto
qed

theorem voice_join_all_or_nothing_witness:
  "snd (Join sample_env bob (sy_manager sample_system)) = None \<and>
   (\<exists>s. map_of (vg_sessions (fst (Join sample_env bob (sy_manager sample_system)))) ''b'' = Some s)"
proof -
  let ?r = "Join sample_env bob (sy_manager sample_system)"
  have ok: "snd ?r = None" by code_simp
  then have run: "?r = (fst ?r, None)" by (simp add: prod_eq_iff)
  have start: "(voice_step sample_env)\<^sup>*\<^sup>* (new_voice_system 2 128 0 sample_session) sample_system"
    by (simp add: sample_system_def)
  have "\<exists>s. map_of (vg_sessions (fst ?r)) (ja_connectionID bob) = Some s"
    using voice_join_all_or_nothing[OF _ start _ _ run]
    by (auto simp: sample_system_def new_voice_system_def join_valid_def bob_def)
  with ok show ?thesis by (simp add: bob_def)
qed

end
