(* ===== verification/StreamRelay.thy ===== *)
theory StreamRelay
  imports MediaPeer StreamContract "HOL-Library.Multiset"
begin

text \<open>
  The media formats of the stream server (src/internal/stream): which codecs are registered and which
  of them a rendition or a viewer uses (manager.go), when a viewer's codec may carry a publisher's
  packets, and the relay track that rewrites the packets for every viewer (session.go).

  The case folding of \<^verbatim>\<open>strings.EqualFold\<close> and \<^verbatim>\<open>strings.ToLower\<close> over Unicode is a parameter
  (\<open>unicode\<close>); \<open>unicode_laws\<close> is what is relied on. \<^verbatim>\<open>Header.SetExtension\<close> of pion/rtp and the write
  of a packet to a viewer are parameters as well (\<open>rtp_ops\<close>).
\<close>

record unicode =
  uc_EqualFold :: "string \<Rightarrow> string \<Rightarrow> bool"
  uc_ToLower :: "string \<Rightarrow> string"

definition ascii_lower :: "string \<Rightarrow> string" where
  "ascii_lower s =
     map (\<lambda>c. let n = (of_char c :: int) in if 65 \<le> n \<and> n \<le> 90 then char_of (n + 32) else c) s"

definition ascii :: "string \<Rightarrow> bool" where
  "ascii s \<longleftrightarrow> list_all (\<lambda>c. of_char c < (128 :: int)) s"

text \<open>Folding is an equivalence, and on ASCII strings it ignores the case of letters only.\<close>

definition unicode_laws :: "unicode \<Rightarrow> bool" where
  "unicode_laws uc \<longleftrightarrow>
     equivp (uc_EqualFold uc) \<and>
     (\<forall>a b. ascii a \<and> ascii b \<longrightarrow> uc_EqualFold uc a b = (ascii_lower a = ascii_lower b)) \<and>
     (\<forall>a. ascii a \<longrightarrow> uc_ToLower uc a = ascii_lower a)"

subsection \<open>Codecs (manager.go)\<close>

record codec_capability = \<comment> \<open>\<^verbatim>\<open>webrtc.RTPCodecCapability\<close>\<close>
  cc_MimeType :: string
  cc_ClockRate :: int
  cc_Channels :: int
  cc_SDPFmtpLine :: string
  cc_RTCPFeedback :: "(string \<times> string) list"

record codec_parameters = \<comment> \<open>\<^verbatim>\<open>webrtc.RTPCodecParameters\<close>\<close>
  cx_Capability :: codec_capability
  cx_PayloadType :: "8 word"

record videoCodecDescriptor =
  vd_primary :: codec_parameters
  vd_rtxPT :: "8 word"

definition video_feedback :: "(string \<times> string) list" where
  "video_feedback =
     [(''goog-remb'', ''''), (''transport-cc'', ''''), (''ccm'', ''fir''), (''nack'', ''''), (''nack'', ''pli'')]"

definition video_descriptor :: "string \<Rightarrow> string \<Rightarrow> 8 word \<Rightarrow> 8 word \<Rightarrow> videoCodecDescriptor" where
  "video_descriptor mime fmtp pt rtx =
     \<lparr> vd_primary = \<lparr> cx_Capability = \<lparr> cc_MimeType = mime, cc_ClockRate = 90000, cc_Channels = 0,
           cc_SDPFmtpLine = fmtp, cc_RTCPFeedback = video_feedback \<rparr>, cx_PayloadType = pt \<rparr>, vd_rtxPT = rtx \<rparr>"

definition streamVideoCodecDescriptors :: "videoCodecDescriptor list" where
  "streamVideoCodecDescriptors =
     [video_descriptor ''video/VP8'' '''' 96 97,
      video_descriptor ''video/VP9'' ''profile-id=0'' 98 99,
      video_descriptor ''video/VP9'' ''profile-id=2'' 100 101,
      video_descriptor ''video/H264'' ''level-asymmetry-allowed=1;packetization-mode=1;profile-level-id=42e01f'' 102 103,
      video_descriptor ''video/H264'' ''level-asymmetry-allowed=1;packetization-mode=1;profile-level-id=42001f'' 104 105,
      video_descriptor ''video/AV1'' '''' 45 46]"

definition codecForMimeType :: "unicode \<Rightarrow> string \<Rightarrow> string" where
  "codecForMimeType uc mimeType =
     (let m = uc_ToLower uc mimeType in
      if m = ''video/vp8'' then ''vp8''
      else if m = ''video/vp9'' then ''vp9''
      else if m = ''video/h264'' then ''h264''
      else if m = ''video/av1'' then ''av1''
      else '''')"

definition rtxForDescriptor :: "videoCodecDescriptor \<Rightarrow> codec_parameters option" where
  "rtxForDescriptor d =
     (if vd_rtxPT d = 0 then None
      else Some \<lparr> cx_Capability = \<lparr> cc_MimeType = ''video/rtx'', cc_ClockRate = 90000, cc_Channels = 0,
             cc_SDPFmtpLine = ''apt='' @ fmt_d (uint (cx_PayloadType (vd_primary d))), cc_RTCPFeedback = [] \<rparr>,
           cx_PayloadType = vd_rtxPT d \<rparr>)"

definition valid_profile :: "Rendition \<Rightarrow> bool" where
  "valid_profile r =
     (if r_Codec r = ''vp8'' then r_Profile r = ''''
      else if r_Codec r = ''vp9'' then r_Profile r = ''0'' \<or> r_Profile r = ''2''
      else if r_Codec r = ''h264'' then r_Profile r = ''baseline''
      else if r_Codec r = ''av1'' then r_Profile r = ''main'' \<or> r_Profile r = ''main10''
      else r_Profile r = '''')"

definition with_rtx :: "videoCodecDescriptor \<Rightarrow> codec_parameters \<Rightarrow> codec_parameters list" where
  "with_rtx d p = p # (case rtxForDescriptor d of None \<Rightarrow> [] | Some rtx \<Rightarrow> [rtx])"

definition codecParametersForRendition ::
  "unicode \<Rightarrow> videoCodecDescriptor list \<Rightarrow> Rendition \<Rightarrow> codec_parameters list" where
  "codecParametersForRendition uc descriptors r =
     (if r_ID r = '''' \<or> \<not> validStreamCodec (r_Codec r) then []
      else if \<not> valid_profile r then []
      else concat (map (\<lambda>d. with_rtx d (vd_primary d))
        (filter (\<lambda>d. codecForMimeType uc (cc_MimeType (cx_Capability (vd_primary d))) = r_Codec r \<and>
             \<not> (r_Codec r = ''vp9'' \<and>
                \<not> uc_EqualFold uc (cc_SDPFmtpLine (cx_Capability (vd_primary d))) (''profile-id='' @ r_Profile r)))
           descriptors)))"

subsection \<open>Compatible codecs (session.go)\<close>

definition fmtp_value :: "unicode \<Rightarrow> string \<Rightarrow> string \<Rightarrow> string option" where
  "fmtp_value uc parameter part =
     (case cut_at (CHR ''='') part of
        None \<Rightarrow> None
      | Some (key, v) \<Rightarrow> if uc_EqualFold uc (TrimSpace key) parameter then Some (TrimSpace v) else None)"

fun first_value :: "('a \<Rightarrow> 'b option) \<Rightarrow> 'a list \<Rightarrow> 'b \<Rightarrow> 'b" where
  "first_value f [] fallback = fallback"
| "first_value f (x # xs) fallback = (case f x of Some v \<Rightarrow> v | None \<Rightarrow> first_value f xs fallback)"

definition codecFMTPParameter :: "unicode \<Rightarrow> string \<Rightarrow> string \<Rightarrow> string \<Rightarrow> string" where
  "codecFMTPParameter uc fmtp parameter fallback =
     first_value (fmtp_value uc parameter) (split_on (CHR '';'') fmtp) fallback"

text \<open>Does \<^verbatim>\<open>strconv.ParseUint(s, 16, 24)\<close> succeed.\<close>

fun hex_digit :: "char \<Rightarrow> int option" where
  "hex_digit c =
     (let n = of_char c in
      if 48 \<le> n \<and> n \<le> 57 then Some (n - 48)
      else if 97 \<le> n \<and> n \<le> 102 then Some (n - 87)
      else if 65 \<le> n \<and> n \<le> 70 then Some (n - 55)
      else None)"

fun hex_value :: "int \<Rightarrow> string \<Rightarrow> int option" where
  "hex_value acc [] = Some acc"
| "hex_value acc (c # cs) = (case hex_digit c of None \<Rightarrow> None | Some d \<Rightarrow> hex_value (16 * acc + d) cs)"

definition parses_hex24 :: "string \<Rightarrow> bool" where
  "parses_hex24 s \<longleftrightarrow> s \<noteq> [] \<and> (case hex_value 0 s of None \<Rightarrow> False | Some n \<Rightarrow> n < 2 ^ 24)"

definition h264_compatible :: "unicode \<Rightarrow> string \<Rightarrow> string \<Rightarrow> bool" where
  "h264_compatible uc fmtpA fmtpB =
     (if codecFMTPParameter uc fmtpA ''packetization-mode'' ''0'' \<noteq> codecFMTPParameter uc fmtpB ''packetization-mode'' ''0''
      then False
      else
        (let first = codecFMTPParameter uc fmtpA ''profile-level-id'' ''42e01f'';
             second = codecFMTPParameter uc fmtpB ''profile-level-id'' ''42e01f'' in
         if length first \<noteq> 6 \<or> length second \<noteq> 6 then False
         else if \<not> parses_hex24 first then False
         else if \<not> parses_hex24 second then False
         else uc_EqualFold uc (take 4 first) (take 4 second)))"

definition relayCodecCompatible :: "unicode \<Rightarrow> codec_capability \<Rightarrow> codec_capability \<Rightarrow> bool" where
  "relayCodecCompatible uc a b =
     (if \<not> uc_EqualFold uc (cc_MimeType a) (cc_MimeType b) \<or> cc_ClockRate a \<noteq> cc_ClockRate b \<or> cc_Channels a \<noteq> cc_Channels b
      then False
      else if uc_EqualFold uc (cc_MimeType a) ''video/AV1'' then
        codecFMTPParameter uc (cc_SDPFmtpLine a) ''profile'' ''0'' = codecFMTPParameter uc (cc_SDPFmtpLine b) ''profile'' ''0''
      else if uc_EqualFold uc (cc_MimeType a) ''video/VP8'' then True
      else if uc_EqualFold uc (cc_MimeType a) ''video/VP9'' then
        codecFMTPParameter uc (cc_SDPFmtpLine a) ''profile-id'' ''0'' = codecFMTPParameter uc (cc_SDPFmtpLine b) ''profile-id'' ''0''
      else if uc_EqualFold uc (cc_MimeType a) ''video/H264'' then h264_compatible uc (cc_SDPFmtpLine a) (cc_SDPFmtpLine b)
      else if uc_EqualFold uc (cc_MimeType a) ''audio/opus'' then True
      else uc_EqualFold uc (cc_SDPFmtpLine a) (cc_SDPFmtpLine b))"

definition codecMatchesRendition :: "unicode \<Rightarrow> codec_capability \<Rightarrow> Rendition \<Rightarrow> bool" where
  "codecMatchesRendition uc capability r =
     (if codecForMimeType uc (cc_MimeType capability) \<noteq> r_Codec r then False
      else if r_Codec r \<noteq> ''vp9'' then True
      else codecFMTPParameter uc (cc_SDPFmtpLine capability) ''profile-id'' ''0'' = r_Profile r)"

fun viewerCodecPreferences ::
  "unicode \<Rightarrow> videoCodecDescriptor list \<Rightarrow> codec_capability \<Rightarrow> codec_parameters list" where
  "viewerCodecPreferences uc [] capability = [\<lparr> cx_Capability = capability, cx_PayloadType = 0 \<rparr>]"
| "viewerCodecPreferences uc (d # ds) capability =
     (if \<not> relayCodecCompatible uc (cx_Capability (vd_primary d)) capability then viewerCodecPreferences uc ds capability
      else with_rtx d ((vd_primary d)\<lparr> cx_Capability := capability \<rparr>))"

definition codecType :: "unicode \<Rightarrow> string \<Rightarrow> rtp_kind" where
  "codecType uc mimeType = (if has_prefix (uc_ToLower uc mimeType) ''audio/'' then KindAudio else KindVideo)"

definition colorSpaceExtensionData :: "Rendition \<Rightarrow> 8 word list" where
  "colorSpaceExtensionData r =
     (if r_DynamicRange r = ''sdr'' then [1, 1, 1, 16]
      else if r_DynamicRange r = ''hdr10'' then [9, 16, 9, 16]
      else if r_DynamicRange r = ''hlg'' then [9, 18, 9, 16]
      else [])"

subsection \<open>The relay track (session.go)\<close>

record rtp_header = \<comment> \<open>\<^verbatim>\<open>rtp.Header\<close>\<close>
  rh_Version :: "8 word"
  rh_Padding :: bool
  rh_PaddingSize :: "8 word"
  rh_CSRC :: "32 word list"
  rh_Marker :: bool
  rh_PayloadType :: "8 word"
  rh_SequenceNumber :: "16 word"
  rh_Timestamp :: "32 word"
  rh_SSRC :: "32 word"
  rh_Extension :: bool
  rh_ExtensionProfile :: "16 word"
  rh_Extensions :: "(8 word \<times> 8 word list) list"

record relayBinding =
  rb_id :: string
  rb_ssrc :: "32 word"
  rb_payloadType :: "8 word"
  rb_writeStream :: nat \<comment> \<open>the writer of the viewer\<close>
  rb_colorSpaceExtensionID :: "8 word"

record relayTrack =
  rk_bindings :: "relayBinding list"
  rk_codec :: codec_capability
  rk_id :: string
  rk_streamID :: string
  rk_colorData :: "8 word list"

record track_context = \<comment> \<open>\<^verbatim>\<open>webrtc.TrackLocalContext\<close>\<close>
  tc_ID :: string
  tc_SSRC :: "32 word"
  tc_CodecParameters :: "codec_parameters list"
  tc_HeaderExtensions :: "(int \<times> string) list"
  tc_WriteStream :: nat

record rtp_ops =
  ro_SetExtension :: "8 word \<Rightarrow> 8 word list \<Rightarrow> rtp_header \<Rightarrow> string + rtp_header"
  ro_Write :: "nat \<Rightarrow> rtp_header \<Rightarrow> 8 word list \<Rightarrow> string option" \<comment> \<open>the error, if any\<close>

definition newRelayTrack :: "codec_capability \<Rightarrow> string \<Rightarrow> string \<Rightarrow> Rendition \<Rightarrow> relayTrack" where
  "newRelayTrack codec ident streamID r =
     \<lparr> rk_bindings = [], rk_codec = codec, rk_id = ident, rk_streamID = streamID,
        rk_colorData = colorSpaceExtensionData r \<rparr>"

definition colorSpaceRTPHeaderExtensionURI :: string where
  "colorSpaceRTPHeaderExtensionURI = ''http://www.webrtc.org/experiments/rtp-hdrext/color-space''"

fun color_extension :: "unicode \<Rightarrow> (int \<times> string) list \<Rightarrow> 8 word" where
  "color_extension uc [] = 0"
| "color_extension uc ((ident, uri) # rest) =
     (if ident > 0 \<and> ident \<le> 255 \<and> uc_EqualFold uc uri colorSpaceRTPHeaderExtensionURI then word_of_int ident
      else color_extension uc rest)"

fun bind_codec :: "unicode \<Rightarrow> codec_capability \<Rightarrow> codec_parameters list \<Rightarrow> codec_parameters option" where
  "bind_codec uc own [] = None"
| "bind_codec uc own (codec # rest) =
     (if \<not> relayCodecCompatible uc (cx_Capability codec) own then bind_codec uc own rest else Some codec)"

definition Bind :: "unicode \<Rightarrow> track_context \<Rightarrow> relayTrack \<Rightarrow> relayTrack \<times> codec_parameters option" where
  "Bind uc context t =
     (case bind_codec uc (rk_codec t) (tc_CodecParameters context) of
        None \<Rightarrow> (t, None)
      | Some codec \<Rightarrow>
          (t\<lparr> rk_bindings := rk_bindings t @
              [\<lparr> rb_id = tc_ID context, rb_ssrc = tc_SSRC context, rb_payloadType = cx_PayloadType codec,
                 rb_writeStream = tc_WriteStream context,
                 rb_colorSpaceExtensionID = color_extension uc (tc_HeaderExtensions context) \<rparr>] \<rparr>,
           Some codec))"

fun index_of :: "('a \<Rightarrow> bool) \<Rightarrow> 'a list \<Rightarrow> nat option" where
  "index_of P [] = None"
| "index_of P (x # xs) = (if P x then Some 0 else map_option Suc (index_of P xs))"

definition Unbind :: "track_context \<Rightarrow> relayTrack \<Rightarrow> relayTrack \<times> bool" where
  "Unbind context t =
     (case index_of (\<lambda>b. rb_id b = tc_ID context) (rk_bindings t) of
        None \<Rightarrow> (t, False)
      | Some index \<Rightarrow>
          (t\<lparr> rk_bindings := butlast ((rk_bindings t)[index := last (rk_bindings t)]) \<rparr>, True))"

text \<open>One binding: the header that is written, or the error of \<^verbatim>\<open>SetExtension\<close>.\<close>

definition relay_header :: "rtp_ops \<Rightarrow> 8 word list \<Rightarrow> relayBinding \<Rightarrow> rtp_header \<Rightarrow> string + rtp_header" where
  "relay_header ops colorData b packet =
     (let header = packet\<lparr> rh_SSRC := rb_ssrc b, rh_PayloadType := rb_payloadType b, rh_Extension := False,
            rh_ExtensionProfile := 0, rh_Extensions := [] \<rparr> in
      if rh_Marker packet \<and> rb_colorSpaceExtensionID b \<noteq> 0 \<and> length colorData \<noteq> 0
      then ro_SetExtension ops (rb_colorSpaceExtensionID b) colorData header
      else Inr header)"

fun relay_write ::
  "rtp_ops \<Rightarrow> 8 word list \<Rightarrow> rtp_header \<Rightarrow> 8 word list \<Rightarrow> relayBinding list \<Rightarrow>
     (nat \<times> rtp_header \<times> 8 word list) list \<times> string list" where
  "relay_write ops colorData packet payload [] = ([], [])"
| "relay_write ops colorData packet payload (b # bs) =
     (let (writes, errs) = relay_write ops colorData packet payload bs in
      case relay_header ops colorData b packet of
        Inl e \<Rightarrow> (writes, e # errs)
      | Inr header \<Rightarrow>
          ((rb_writeStream b, header, payload) # writes,
           (case ro_Write ops (rb_writeStream b) header payload of None \<Rightarrow> errs | Some e \<Rightarrow> e # errs)))"

definition WriteRTP ::
  "rtp_ops \<Rightarrow> rtp_header \<Rightarrow> 8 word list \<Rightarrow> relayTrack \<Rightarrow> (nat \<times> rtp_header \<times> 8 word list) list \<times> string list" where
  "WriteRTP ops packet payload t = relay_write ops (rk_colorData t) packet payload (rk_bindings t)"

subsection \<open>Properties of codecs\<close>

lemma unicode_equiv:
  assumes "unicode_laws uc"
  shows "uc_EqualFold uc a a" and "uc_EqualFold uc a b \<Longrightarrow> uc_EqualFold uc b a"
    and "uc_EqualFold uc a b \<Longrightarrow> uc_EqualFold uc b c \<Longrightarrow> uc_EqualFold uc a c"
proof -
  have e: "equivp (uc_EqualFold uc)" using assms by (simp add: unicode_laws_def)
  show "uc_EqualFold uc a a" by (rule equivp_reflp[OF e])
  show "uc_EqualFold uc a b \<Longrightarrow> uc_EqualFold uc b a" by (rule equivp_symp[OF e])
  show "uc_EqualFold uc a b \<Longrightarrow> uc_EqualFold uc b c \<Longrightarrow> uc_EqualFold uc a c" by (rule equivp_transp[OF e])
qed

text \<open>Equal mime types take the same branch.\<close>

lemma unicode_cong:
  "unicode_laws uc \<Longrightarrow> uc_EqualFold uc a b \<Longrightarrow> uc_EqualFold uc a x = uc_EqualFold uc b x"
  using unicode_equiv by metis

lemma h264_compatible_sym: "unicode_laws uc \<Longrightarrow> h264_compatible uc a b \<Longrightarrow> h264_compatible uc b a"
  using unicode_equiv(2) by (auto simp: h264_compatible_def Let_def split: if_splits)

lemma h264_compatible_trans:
  assumes "unicode_laws uc" and "h264_compatible uc a b" and "h264_compatible uc b c"
  shows "h264_compatible uc a c"
proof -
  have "uc_EqualFold uc (take 4 (codecFMTPParameter uc a ''profile-level-id'' ''42e01f''))
      (take 4 (codecFMTPParameter uc c ''profile-level-id'' ''42e01f''))"
    by (rule unicode_equiv(3)[OF assms(1)]) (use assms(2,3) in \<open>auto simp: h264_compatible_def Let_def split: if_splits\<close>)
  then show ?thesis using assms(2,3) by (auto simp: h264_compatible_def Let_def split: if_splits)
qed

text \<open>Whether two codecs can carry each other's packets does not depend on which of them is the
  publisher's, and compatibility carries over: viewers that are each compatible with the publisher are
  compatible with each other. A codec is compatible with itself unless it is H.264 with a malformed
  profile.\<close>

theorem relay_codecs_equivalent:
  assumes "unicode_laws uc"
  shows "(relayCodecCompatible uc a b \<longrightarrow> relayCodecCompatible uc b a) \<and>
    (relayCodecCompatible uc a b \<and> relayCodecCompatible uc b c \<longrightarrow> relayCodecCompatible uc a c) \<and>
    (relayCodecCompatible uc a a \<or>
      uc_EqualFold uc (cc_MimeType a) ''video/H264'' \<and> \<not> h264_compatible uc (cc_SDPFmtpLine a) (cc_SDPFmtpLine a))"
proof (intro conjI impI)
  note eq = unicode_equiv[OF assms]
  show "relayCodecCompatible uc b a" if h: "relayCodecCompatible uc a b"
  proof -
    have ab: "uc_EqualFold uc (cc_MimeType a) (cc_MimeType b)" using h by (auto simp: relayCodecCompatible_def split: if_splits)
    show ?thesis
      using h eq(2)[OF ab] eq(2) h264_compatible_sym[OF assms] unicode_cong[OF assms ab]
      by (auto simp: relayCodecCompatible_def split: if_splits)
  qed
  show "relayCodecCompatible uc a c" if h: "relayCodecCompatible uc a b \<and> relayCodecCompatible uc b c"
  proof -
    have ab: "uc_EqualFold uc (cc_MimeType a) (cc_MimeType b)" "uc_EqualFold uc (cc_MimeType b) (cc_MimeType c)"
      using h by (auto simp: relayCodecCompatible_def split: if_splits)
    show ?thesis
      using h eq(3)[OF ab] h264_compatible_trans[OF assms] unicode_cong[OF assms ab(1)]
        eq(3)[of "cc_SDPFmtpLine a" "cc_SDPFmtpLine b" "cc_SDPFmtpLine c"]
      by (auto simp: relayCodecCompatible_def split: if_splits)
  qed
  show "relayCodecCompatible uc a a \<or>
      uc_EqualFold uc (cc_MimeType a) ''video/H264'' \<and> \<not> h264_compatible uc (cc_SDPFmtpLine a) (cc_SDPFmtpLine a)"
    using eq(1) by (auto simp: relayCodecCompatible_def)
qed

definition ascii_unicode :: unicode where
  "ascii_unicode = \<lparr> uc_EqualFold = (\<lambda>a b. ascii_lower a = ascii_lower b), uc_ToLower = ascii_lower \<rparr>"

lemma ascii_unicode_laws: "unicode_laws ascii_unicode"
  by (auto simp: unicode_laws_def ascii_unicode_def intro!: equivpI reflpI sympI transpI)

lemma relay_codecs_equivalent_witness:
  "relayCodecCompatible ascii_unicode
     \<lparr> cc_MimeType = ''video/vp8'', cc_ClockRate = 90000, cc_Channels = 0, cc_SDPFmtpLine = ''max-fs=12288'', cc_RTCPFeedback = [] \<rparr>
     \<lparr> cc_MimeType = ''video/VP8'', cc_ClockRate = 90000, cc_Channels = 0, cc_SDPFmtpLine = '''', cc_RTCPFeedback = [] \<rparr>"
proof -
  have "relayCodecCompatible ascii_unicode
     \<lparr> cc_MimeType = ''video/VP8'', cc_ClockRate = 90000, cc_Channels = 0, cc_SDPFmtpLine = '''', cc_RTCPFeedback = [] \<rparr>
     \<lparr> cc_MimeType = ''video/vp8'', cc_ClockRate = 90000, cc_Channels = 0, cc_SDPFmtpLine = ''max-fs=12288'', cc_RTCPFeedback = [] \<rparr>"
    by code_simp
  with relay_codecs_equivalent[OF ascii_unicode_laws] show ?thesis by blast
qed

subsection \<open>Every announced rendition can be negotiated\<close>

text \<open>On ASCII strings every folding that satisfies the laws behaves as \<open>ascii_unicode\<close>.\<close>

lemma ascii_subset: "ascii s \<Longrightarrow> set t \<subseteq> set s \<Longrightarrow> ascii t"
  by (auto simp: ascii_def list_all_iff)

lemma set_strip_front: "set (strip_front ws s) \<subseteq> set s"
proof (induction ws s rule: strip_front.induct)
  case (1 ws s)
  show ?case
  proof (cases "find (\<lambda>w. w \<noteq> [] \<and> has_prefix s w) ws")
    case None
    then show ?thesis by (subst strip_front.simps) simp
  next
    case (Some w)
    with 1[OF Some] show ?thesis by (subst strip_front.simps) (auto dest: in_set_dropD)
  qed
qed

lemma ascii_TrimSpace:
  assumes "ascii s"
  shows "ascii (TrimSpace s)"
proof -
  have "set (TrimSpace s) \<subseteq> set (strip_front space_runes s)"
    using set_strip_front[of "map rev space_runes" "rev (strip_front space_runes s)"] unfolding TrimSpace_def set_rev .
  also have "\<dots> \<subseteq> set s" by (rule set_strip_front)
  finally show ?thesis by (rule ascii_subset[OF assms])
qed

lemma cut_at_set: "cut_at c s = Some (key, v) \<Longrightarrow> set key \<subseteq> set s \<and> set v \<subseteq> set s"
proof (induction s arbitrary: key)
  case (Cons x xs)
  then show ?case by (auto split: if_splits)
qed simp

lemma split_on_set: "w \<in> set (split_on c s) \<Longrightarrow> set w \<subseteq> set s"
proof (induction s arbitrary: w)
  case (Cons x xs)
  then show ?case by (auto split: if_splits list.splits) blast+
qed simp

lemma fold_ascii:
  "unicode_laws uc \<Longrightarrow> ascii a \<Longrightarrow> ascii b \<Longrightarrow> uc_EqualFold uc a b = uc_EqualFold ascii_unicode a b"
  by (simp add: unicode_laws_def ascii_unicode_def)

lemma fmtp_value_ascii:
  assumes "unicode_laws uc" "ascii part" "ascii parameter"
  shows "fmtp_value uc parameter part = fmtp_value ascii_unicode parameter part"
    and "fmtp_value uc parameter part = Some v \<Longrightarrow> ascii v"
proof -
  have "ascii key \<and> ascii w" if "cut_at (CHR ''='') part = Some (key, w)" for key w
    using cut_at_set[OF that] assms(2) ascii_subset by blast
  then show "fmtp_value uc parameter part = fmtp_value ascii_unicode parameter part"
    and "fmtp_value uc parameter part = Some v \<Longrightarrow> ascii v"
    using fold_ascii[OF assms(1) _ assms(3)]
    by (auto simp: fmtp_value_def ascii_TrimSpace split: option.splits if_splits)
qed

lemma codecFMTPParameter_ascii:
  assumes "unicode_laws uc" "ascii fmtp" "ascii parameter"
  shows "codecFMTPParameter uc fmtp parameter fallback = codecFMTPParameter ascii_unicode fmtp parameter fallback"
    and "ascii fallback \<Longrightarrow> ascii (codecFMTPParameter uc fmtp parameter fallback)"
proof -
  have "\<forall>part \<in> set (split_on (CHR '';'') fmtp). ascii part" using split_on_set assms(2) ascii_subset by blast
  then have "first_value (fmtp_value uc parameter) ps fallback = first_value (fmtp_value ascii_unicode parameter) ps fallback"
    and "ascii fallback \<Longrightarrow> ascii (first_value (fmtp_value uc parameter) ps fallback)"
    if "set ps \<subseteq> set (split_on (CHR '';'') fmtp)" for ps
    using that fmtp_value_ascii[OF assms(1) _ assms(3)]
    by (induction ps) (auto split: option.split)
  then show "codecFMTPParameter uc fmtp parameter fallback = codecFMTPParameter ascii_unicode fmtp parameter fallback"
    and "ascii fallback \<Longrightarrow> ascii (codecFMTPParameter uc fmtp parameter fallback)"
    unfolding codecFMTPParameter_def by blast+
qed

definition ascii_capability :: "codec_capability \<Rightarrow> bool" where
  "ascii_capability c \<longleftrightarrow> ascii (cc_MimeType c) \<and> ascii (cc_SDPFmtpLine c)"

lemma ascii_names:
  "ascii ''video/AV1''" "ascii ''video/VP8''" "ascii ''video/VP9''" "ascii ''video/H264''" "ascii ''audio/opus''"
  "ascii ''profile''" "ascii ''profile-id''" "ascii ''packetization-mode''" "ascii ''profile-level-id''" "ascii ''42e01f''" "ascii ''0''"
  by code_simp+

lemma relayCodecCompatible_ascii:
  assumes u: "unicode_laws uc" and a: "ascii_capability a" and b: "ascii_capability b"
  shows "relayCodecCompatible uc a b = relayCodecCompatible ascii_unicode a b"
proof -
  note u' = ascii_unicode_laws
  have mime: "uc_EqualFold uc (cc_MimeType a) m = uc_EqualFold ascii_unicode (cc_MimeType a) m" if "ascii m" for m
    using fold_ascii[OF u _ that] a by (simp add: ascii_capability_def)
  have par: "codecFMTPParameter uc (cc_SDPFmtpLine c) k f = codecFMTPParameter ascii_unicode (cc_SDPFmtpLine c) k f"
    if "ascii k" "c = a \<or> c = b" for c k f
    using codecFMTPParameter_ascii(1)[OF u _ that(1)] a b that(2) by (auto simp: ascii_capability_def)
  have pl: "ascii (take 4 (codecFMTPParameter ascii_unicode (cc_SDPFmtpLine c) ''profile-level-id'' ''42e01f''))" if "c = a \<or> c = b" for c
  proof -
    have "ascii (codecFMTPParameter ascii_unicode (cc_SDPFmtpLine c) ''profile-level-id'' ''42e01f'')"
      by (rule codecFMTPParameter_ascii(2)[OF u']) (use a b that in \<open>auto simp: ascii_capability_def ascii_names\<close>)
    then show ?thesis by (rule ascii_subset) (rule set_take_subset)
  qed
  have "h264_compatible uc (cc_SDPFmtpLine a) (cc_SDPFmtpLine b) = h264_compatible ascii_unicode (cc_SDPFmtpLine a) (cc_SDPFmtpLine b)"
    by (simp add: h264_compatible_def Let_def par ascii_names fold_ascii[OF u pl pl])
  moreover have "uc_EqualFold uc (cc_SDPFmtpLine a) (cc_SDPFmtpLine b) = uc_EqualFold ascii_unicode (cc_SDPFmtpLine a) (cc_SDPFmtpLine b)"
    using fold_ascii[OF u] a b by (simp add: ascii_capability_def)
  moreover have "uc_EqualFold uc (cc_MimeType a) (cc_MimeType b) = uc_EqualFold ascii_unicode (cc_MimeType a) (cc_MimeType b)"
    by (rule mime) (use b in \<open>simp add: ascii_capability_def\<close>)
  ultimately show ?thesis by (simp add: relayCodecCompatible_def mime par ascii_names)
qed

lemma viewerCodecPreferences_ascii:
  assumes "unicode_laws uc" and "ascii_capability c" and "list_all (\<lambda>d. ascii_capability (cx_Capability (vd_primary d))) ds"
  shows "viewerCodecPreferences uc ds c = viewerCodecPreferences ascii_unicode ds c"
  using assms(3) by (induction ds) (simp_all add: relayCodecCompatible_ascii[OF assms(1) _ assms(2)])

lemma descriptors_ascii:
  "list_all (\<lambda>d. ascii_capability (cx_Capability (vd_primary d))) streamVideoCodecDescriptors"
  by code_simp

lemma codecForMimeType_ascii:
  "unicode_laws uc \<Longrightarrow> ascii m \<Longrightarrow> codecForMimeType uc m = codecForMimeType ascii_unicode m"
  by (simp add: codecForMimeType_def unicode_laws_def ascii_unicode_def)

lemma with_rtx_primary: "p \<in> set (with_rtx d q) \<Longrightarrow> p = q \<or> cc_MimeType (cx_Capability p) = ''video/rtx''"
  by (auto simp: with_rtx_def rtxForDescriptor_def split: if_splits)

definition sample_rendition :: "string \<Rightarrow> string \<Rightarrow> Rendition" where
  "sample_rendition codec profile =
     \<lparr> r_ID = ''x'', r_Codec = codec, r_Profile = profile, r_DynamicRange = '''', r_BitDepth = 0,
        r_ColorPrimaries = '''', r_Transfer = '''', r_Matrix = '''' \<rparr>"

lemma codecParametersForRendition_ascii:
  assumes u: "unicode_laws uc" and p: "ascii (r_Profile r)" and "r_ID r \<noteq> ''''"
  shows "codecParametersForRendition uc streamVideoCodecDescriptors r =
    codecParametersForRendition ascii_unicode streamVideoCodecDescriptors (sample_rendition (r_Codec r) (r_Profile r))"
proof -
  have "ascii ''profile-id=''" by code_simp
  then have "ascii (''profile-id='' @ r_Profile r)" using p by (simp add: ascii_def)
  with descriptors_ascii have same:
    "codecForMimeType uc (cc_MimeType (cx_Capability (vd_primary d))) = codecForMimeType ascii_unicode (cc_MimeType (cx_Capability (vd_primary d)))"
    "uc_EqualFold uc (cc_SDPFmtpLine (cx_Capability (vd_primary d))) (''profile-id='' @ r_Profile r) =
       uc_EqualFold ascii_unicode (cc_SDPFmtpLine (cx_Capability (vd_primary d))) (''profile-id='' @ r_Profile r)"
    if "d \<in> set streamVideoCodecDescriptors" for d
    using that codecForMimeType_ascii[OF u] fold_ascii[OF u] by (simp_all add: list_all_iff ascii_capability_def)
  have "filter (\<lambda>d. codecForMimeType uc (cc_MimeType (cx_Capability (vd_primary d))) = r_Codec r \<and>
             \<not> (r_Codec r = ''vp9'' \<and>
                \<not> uc_EqualFold uc (cc_SDPFmtpLine (cx_Capability (vd_primary d))) (''profile-id='' @ r_Profile r)))
           streamVideoCodecDescriptors =
        filter (\<lambda>d. codecForMimeType ascii_unicode (cc_MimeType (cx_Capability (vd_primary d))) = r_Codec r \<and>
             \<not> (r_Codec r = ''vp9'' \<and>
                \<not> uc_EqualFold ascii_unicode (cc_SDPFmtpLine (cx_Capability (vd_primary d))) (''profile-id='' @ r_Profile r)))
           streamVideoCodecDescriptors"
    by (rule filter_cong) (rule refl, simp only: same)
  moreover have "valid_profile (sample_rendition (r_Codec r) (r_Profile r)) = valid_profile r"
    by (simp add: valid_profile_def sample_rendition_def)
  moreover have "''x'' \<noteq> ''''" by simp
  ultimately show ?thesis using assms(3)
    by (simp only: codecParametersForRendition_def) (simp only: sample_rendition_def Rendition.select_convs simp_thms if_False)
qed

lemma rendition_parameter_primary:
  assumes "p \<in> set (codecParametersForRendition uc ds r)" and "cc_MimeType (cx_Capability p) \<noteq> ''video/rtx''"
  shows "p \<in> vd_primary ` set ds"
  using assms with_rtx_primary by (fastforce simp: codecParametersForRendition_def split: if_splits)

definition negotiable :: "unicode \<Rightarrow> Rendition \<Rightarrow> bool" where
  "negotiable uc r \<longleftrightarrow>
     (let ps = codecParametersForRendition uc streamVideoCodecDescriptors r in
      ps \<noteq> [] \<and> distinct (map cx_PayloadType ps) \<and>
      list_all (\<lambda>p. cc_MimeType (cx_Capability p) = ''video/rtx'' \<or>
         codecMatchesRendition uc (cx_Capability p) r \<and>
         cx_PayloadType (hd (viewerCodecPreferences uc streamVideoCodecDescriptors (cx_Capability p))) = cx_PayloadType p) ps)"

lemma sample_negotiable:
  "negotiable ascii_unicode (sample_rendition ''vp8'' '''')" "negotiable ascii_unicode (sample_rendition ''vp9'' ''0'')"
  "negotiable ascii_unicode (sample_rendition ''vp9'' ''2'')" "negotiable ascii_unicode (sample_rendition ''h264'' ''baseline'')"
  "negotiable ascii_unicode (sample_rendition ''av1'' ''main'')" "negotiable ascii_unicode (sample_rendition ''av1'' ''main10'')"
  by code_simp+

lemma negotiable_sample:
  assumes u: "unicode_laws uc" and p: "ascii (r_Profile r)" and r: "r_ID r \<noteq> ''''"
    and s: "negotiable ascii_unicode (sample_rendition (r_Codec r) (r_Profile r))"
  shows "negotiable uc r"
proof -
  note ps = codecParametersForRendition_ascii[OF u p r]
  have "cc_MimeType (cx_Capability q) = ''video/rtx'' \<or> codecMatchesRendition uc (cx_Capability q) r \<and>
      cx_PayloadType (hd (viewerCodecPreferences uc streamVideoCodecDescriptors (cx_Capability q))) = cx_PayloadType q"
    if q: "q \<in> set (codecParametersForRendition uc streamVideoCodecDescriptors r)" for q
  proof (cases "cc_MimeType (cx_Capability q) = ''video/rtx''")
    case False
    from rendition_parameter_primary[OF q False] have a: "ascii_capability (cx_Capability q)"
      using descriptors_ascii by (auto simp: list_all_iff)
    have "codecMatchesRendition uc (cx_Capability q) r =
        codecMatchesRendition ascii_unicode (cx_Capability q) (sample_rendition (r_Codec r) (r_Profile r))"
      using a codecForMimeType_ascii[OF u] codecFMTPParameter_ascii(1)[OF u _ ascii_names(7)]
      by (simp add: codecMatchesRendition_def sample_rendition_def ascii_capability_def)
    moreover note viewerCodecPreferences_ascii[OF u a descriptors_ascii]
    ultimately show ?thesis using s q False by (auto simp: negotiable_def Let_def ps list_all_iff)
  qed simp
  with s show ?thesis unfolding negotiable_def Let_def ps by (auto simp: list_all_iff)
qed

text \<open>Every rendition that the signalling layer accepts can be negotiated by the stream server. It has
  registered codecs with distinct payload types, so starting a stream is never refused for an unsupported
  rendition; each of them passes the check on the publisher's track; and a viewer is offered it under
  the payload type it is registered with.\<close>

theorem renditions_negotiable:
  assumes "unicode_laws uc" and "ValidRenditions rs" and "r \<in> set rs"
  shows "let ps = codecParametersForRendition uc streamVideoCodecDescriptors r in
    ps \<noteq> [] \<and> distinct (map cx_PayloadType ps) \<and>
    list_all (\<lambda>p. cc_MimeType (cx_Capability p) = ''video/rtx'' \<or>
       codecMatchesRendition uc (cx_Capability p) r \<and>
       cx_PayloadType (hd (viewerCodecPreferences uc streamVideoCodecDescriptors (cx_Capability p))) = cx_PayloadType p) ps"
proof -
  have ok: "rendition_ok r" using assms(2,3) by (auto simp: ValidRenditions_char list_all_iff)
  then have "r_ID r \<noteq> ''''" by (auto simp: rendition_ok_def ValidID_def)
  moreover have "ascii ''baseline''" "ascii ''main''" "ascii ''main10''" "ascii ''2''" "ascii ''''" by code_simp+
  ultimately have "negotiable uc r"
    using ok sample_negotiable ascii_names
    by (intro negotiable_sample[OF assms(1)]) (auto simp: rendition_ok_def validSDRProfile_def validHDRProfile_def)
  then show ?thesis by (simp add: negotiable_def)
qed

lemma renditions_negotiable_witness:
  "codecParametersForRendition ascii_unicode streamVideoCodecDescriptors (to_Rendition (legacySDRStreamRendition ''vp9'')) \<noteq> []"
proof -
  have "ValidRenditions [to_Rendition (legacySDRStreamRendition ''vp9'')]" by code_simp
  from renditions_negotiable[OF ascii_unicode_laws this] show ?thesis by (simp add: Let_def)
qed

subsection \<open>Packets are rewritten for every viewer\<close>

text \<open>\<^verbatim>\<open>Header.SetExtension\<close> on a header without extensions: it gets this one.\<close>

definition extension_laws :: "rtp_ops \<Rightarrow> bool" where
  "extension_laws ops \<longleftrightarrow>
     (\<forall>i d h h'. rh_Extensions h = [] \<and> ro_SetExtension ops i d h = Inr h' \<longrightarrow>
        (\<exists>profile. h' = h\<lparr> rh_Extension := True, rh_ExtensionProfile := profile, rh_Extensions := [(i, d)] \<rparr>))"

definition extension_refused :: "rtp_ops \<Rightarrow> relayTrack \<Rightarrow> rtp_header \<Rightarrow> relayBinding \<Rightarrow> bool" where
  "extension_refused ops t packet b \<longleftrightarrow> (\<exists>e. relay_header ops (rk_colorData t) b packet = Inl e)"

lemma relay_write_list:
  "fst (relay_write ops cd packet payload bs) =
     map (\<lambda>b. (rb_writeStream b, projr (relay_header ops cd b packet), payload))
       (filter (\<lambda>b. \<not> (\<exists>e. relay_header ops cd b packet = Inl e)) bs)"
  by (induction bs) (auto simp: Let_def split_beta split: sum.split)

text \<open>What a packet says besides its sender, its payload type and its extensions.\<close>

definition content :: "rtp_header \<Rightarrow> 8 word \<times> bool \<times> 8 word \<times> 32 word list \<times> bool \<times> 16 word \<times> 32 word" where
  "content p = (rh_Version p, rh_Padding p, rh_PaddingSize p, rh_CSRC p, rh_Marker p, rh_SequenceNumber p, rh_Timestamp p)"

lemma relay_header_fields:
  assumes "extension_laws ops" and "relay_header ops cd b packet = Inr h"
  shows "rh_SSRC h = rb_ssrc b \<and> rh_PayloadType h = rb_payloadType b \<and> content h = content packet \<and>
    rh_Extensions h = (if rh_Marker packet \<and> rb_colorSpaceExtensionID b \<noteq> 0 \<and> cd \<noteq> []
      then [(rb_colorSpaceExtensionID b, cd)] else [])"
proof (cases "rh_Marker packet \<and> rb_colorSpaceExtensionID b \<noteq> 0 \<and> cd \<noteq> []")
  case True
  let ?h = "packet\<lparr> rh_SSRC := rb_ssrc b, rh_PayloadType := rb_payloadType b, rh_Extension := False,
    rh_ExtensionProfile := 0, rh_Extensions := [] \<rparr>"
  have "ro_SetExtension ops (rb_colorSpaceExtensionID b) cd ?h = Inr h"
    using True assms(2) by (simp add: relay_header_def)
  moreover have "rh_Extensions ?h = []" by simp
  ultimately obtain profile where "h = ?h\<lparr> rh_Extension := True, rh_ExtensionProfile := profile, rh_Extensions := [(rb_colorSpaceExtensionID b, cd)] \<rparr>"
    using assms(1) unfolding extension_laws_def by blast
  with True show ?thesis by (simp add: content_def)
next
  case False
  with assms(2) show ?thesis by (auto simp: relay_header_def content_def split: if_splits)
qed

lemma relay_header_ignores:
  assumes "content p = content q"
  shows "relay_header ops cd b p = relay_header ops cd b q"
  using assms by (cases p; cases q) (simp add: relay_header_def content_def)

text \<open>C36: A packet is written once for every viewer whose header could be built, with the SSRC and payload
  type of that viewer, and one viewer's error does not keep it from the others. Neither the SSRC and
  payload type of the publisher nor its header extensions have any influence on what viewers get: the only extension is the colour space
  of the rendition on the last packet of a frame, under the identifier the viewer negotiated.\<close>

theorem relay_isolates_viewers:
  assumes "extension_laws ops"
  shows "map fst (fst (WriteRTP ops p payload t)) = map rb_writeStream (filter (\<lambda>b. \<not> extension_refused ops t p b) (rk_bindings t)) \<and>
    (\<forall>(w, h, bytes) \<in> set (fst (WriteRTP ops p payload t)). bytes = payload \<and>
      (\<exists>b \<in> set (rk_bindings t). w = rb_writeStream b \<and> rh_SSRC h = rb_ssrc b \<and> rh_PayloadType h = rb_payloadType b \<and>
         content h = content p \<and>
         rh_Extensions h = (if rh_Marker p \<and> rb_colorSpaceExtensionID b \<noteq> 0 \<and> rk_colorData t \<noteq> []
           then [(rb_colorSpaceExtensionID b, rk_colorData t)] else []))) \<and>
    (\<forall>q. content q = content p \<longrightarrow>
      WriteRTP ops q payload t = WriteRTP ops p payload t)"
proof (intro conjI allI impI)
  show "map fst (fst (WriteRTP ops p payload t)) = map rb_writeStream (filter (\<lambda>b. \<not> extension_refused ops t p b) (rk_bindings t))"
    by (simp add: WriteRTP_def relay_write_list extension_refused_def)
next
  have "\<exists>b \<in> set (rk_bindings t). w = rb_writeStream b \<and> relay_header ops (rk_colorData t) b p = Inr h \<and> bytes = payload"
    if "(w, h, bytes) \<in> set (fst (WriteRTP ops p payload t))" for w h bytes
  proof -
    from that obtain b where "b \<in> set (rk_bindings t)" "\<nexists>e. relay_header ops (rk_colorData t) b p = Inl e"
      "w = rb_writeStream b" "h = projr (relay_header ops (rk_colorData t) b p)" "bytes = payload"
      by (auto simp: WriteRTP_def relay_write_list)
    then show ?thesis by (cases "relay_header ops (rk_colorData t) b p") auto
  qed
  then show "\<forall>(w, h, bytes) \<in> set (fst (WriteRTP ops p payload t)). bytes = payload \<and>
      (\<exists>b \<in> set (rk_bindings t). w = rb_writeStream b \<and> rh_SSRC h = rb_ssrc b \<and> rh_PayloadType h = rb_payloadType b \<and>
         content h = content p \<and>
         rh_Extensions h = (if rh_Marker p \<and> rb_colorSpaceExtensionID b \<noteq> 0 \<and> rk_colorData t \<noteq> []
           then [(rb_colorSpaceExtensionID b, rk_colorData t)] else []))"
    using relay_header_fields[OF assms] by blast
next
  fix q :: rtp_header
  assume "content q = content p"
  then have "relay_header ops cd b q = relay_header ops cd b p" for cd b by (rule relay_header_ignores)
  then have "relay_write ops cd q payload bs = relay_write ops cd p payload bs" for cd bs by (induction bs) simp_all
  then show "WriteRTP ops q payload t = WriteRTP ops p payload t" by (simp add: WriteRTP_def)
qed

definition sample_ops :: rtp_ops where
  "sample_ops =
     \<lparr> ro_SetExtension = (\<lambda>i d h. Inr (h\<lparr> rh_Extension := True, rh_ExtensionProfile := 48862, rh_Extensions := [(i, d)] \<rparr>)),
        ro_Write = (\<lambda>_ _ _. None) \<rparr>"

lemma sample_ops_laws: "extension_laws sample_ops"
  by (auto simp: extension_laws_def sample_ops_def)

definition sample_track :: relayTrack where
  "sample_track =
     (newRelayTrack \<lparr> cc_MimeType = ''video/VP8'', cc_ClockRate = 90000, cc_Channels = 0, cc_SDPFmtpLine = '''', cc_RTCPFeedback = [] \<rparr>
        ''screen-video-a'' ''stream-7'' (to_Rendition (legacySDRStreamRendition ''vp8'')))
     \<lparr> rk_bindings := [\<lparr> rb_id = ''v1'', rb_ssrc = 11, rb_payloadType = 96, rb_writeStream = 1, rb_colorSpaceExtensionID = 4 \<rparr>,
          \<lparr> rb_id = ''v2'', rb_ssrc = 22, rb_payloadType = 120, rb_writeStream = 2, rb_colorSpaceExtensionID = 0 \<rparr>] \<rparr>"

definition sample_packet :: rtp_header where
  "sample_packet = \<lparr> rh_Version = 2, rh_Padding = False, rh_PaddingSize = 0, rh_CSRC = [], rh_Marker = True, rh_PayloadType = 100, rh_SequenceNumber = 1, rh_Timestamp = 1, rh_SSRC = 7,
     rh_Extension = True, rh_ExtensionProfile = 1, rh_Extensions = [(9, [1])] \<rparr>"

lemma relay_isolates_viewers_witness:
  "map fst (fst (WriteRTP sample_ops sample_packet [] sample_track)) = [1, 2]"
proof -
  have "filter (\<lambda>b. \<not> extension_refused sample_ops sample_track sample_packet b) (rk_bindings sample_track) = rk_bindings sample_track"
    by (rule filter_True) (simp add: extension_refused_def relay_header_def sample_ops_def Let_def)
  with relay_isolates_viewers[OF sample_ops_laws, of sample_packet "[]" sample_track, THEN conjunct1]
  have "map fst (fst (WriteRTP sample_ops sample_packet [] sample_track)) = map rb_writeStream (rk_bindings sample_track)" by simp
  then show ?thesis by (simp add: sample_track_def)
qed

subsection \<open>Binding and unbinding\<close>

lemma index_of_Some:
  "index_of P xs = Some i \<Longrightarrow> i < length xs \<and> P (xs ! i) \<and> (\<forall>j < i. \<not> P (xs ! j))"
proof (induction xs arbitrary: i)
  case (Cons x xs)
  then show ?case by (auto simp: nth_Cons split: if_splits nat.split)
qed simp

lemma index_of_None: "index_of P xs = None \<longleftrightarrow> (\<forall>x \<in> set xs. \<not> P x)"
  by (induction xs) auto

text \<open>Removing by overwriting with the last element and shortening.\<close>

lemma mset_swap_remove:
  assumes "i < length xs"
  shows "mset (butlast (xs[i := last xs])) = mset xs - {# xs ! i #}"
proof -
  have "xs \<noteq> []" using assms by auto
  then obtain ys z where xs: "xs = ys @ [z]" by (metis append_butlast_last_id)
  show ?thesis
  proof (cases "i = length ys")
    case True
    then show ?thesis by (simp add: xs)
  next
    case False
    with assms xs have "i < length ys" by simp
    then show ?thesis by (simp add: xs list_update_append nth_append mset_update)
  qed
qed

text \<open>A viewer's binding of a relay track is undone exactly by its unbinding: bind followed by unbind
  restores the bindings up to their order, and unbinding removes the binding of that viewer and no
  other.\<close>

theorem relay_bind_unbind:
  assumes "Bind uc context t = (t1, Some codec)" and "\<forall>b \<in> set (rk_bindings t). rb_id b \<noteq> tc_ID context"
  shows "snd (Unbind context t1) \<and> mset (rk_bindings (fst (Unbind context t1))) = mset (rk_bindings t) \<and>
    \<not> snd (Unbind context t) \<and> relayCodecCompatible uc (cx_Capability codec) (rk_codec t)"
proof -
  obtain b where t1: "rk_bindings t1 = rk_bindings t @ [b]" "rb_id b = tc_ID context" and
    bc: "bind_codec uc (rk_codec t) (tc_CodecParameters context) = Some codec"
    using assms(1) by (auto simp: Bind_def split: option.splits)
  have "index_of (\<lambda>b. rb_id b = tc_ID context) (rk_bindings t1) \<noteq> None"
    using t1 by (auto simp: index_of_None)
  then obtain i where i: "index_of (\<lambda>b. rb_id b = tc_ID context) (rk_bindings t1) = Some i" by blast
  from index_of_Some[OF this] have il: "i < length (rk_bindings t1)" "rb_id (rk_bindings t1 ! i) = tc_ID context" by auto
  have "rk_bindings t1 ! i = b"
    using il t1 assms(2) by (cases "i = length (rk_bindings t)") (auto simp: nth_append)
  with mset_swap_remove[OF il(1)] i t1(1) have "snd (Unbind context t1) \<and> mset (rk_bindings (fst (Unbind context t1))) = mset (rk_bindings t)"
    by (simp add: Unbind_def)
  moreover have "\<not> snd (Unbind context t)"
    using assms(2) index_of_None[of "\<lambda>b. rb_id b = tc_ID context" "rk_bindings t"] by (simp add: Unbind_def)
  moreover have "bind_codec uc own cs = Some c \<Longrightarrow> relayCodecCompatible uc (cx_Capability c) own" for own cs c
    by (induction cs) (auto split: if_splits)
  ultimately show ?thesis using bc by blast
qed

definition sample_context :: track_context where
  "sample_context = \<lparr> tc_ID = ''v3'', tc_SSRC = 33, tc_CodecParameters = map vd_primary streamVideoCodecDescriptors,
     tc_HeaderExtensions = [(4, colorSpaceRTPHeaderExtensionURI)], tc_WriteStream = 3 \<rparr>"

lemma relay_bind_unbind_witness:
  "snd (Unbind sample_context (fst (Bind ascii_unicode sample_context sample_track)))"
proof -
  have "snd (Bind ascii_unicode sample_context sample_track) \<noteq> None" by code_simp
  then obtain codec where "Bind ascii_unicode sample_context sample_track =
      (fst (Bind ascii_unicode sample_context sample_track), Some codec)" by (metis not_None_eq prod.collapse)
  from relay_bind_unbind[OF this] show ?thesis by (simp add: sample_track_def sample_context_def)
qed

end
