(* ===== verification/StreamSdp.thy ===== *)
theory StreamSdp
  imports GoStrings
begin

text \<open>
  The bandwidth line that the stream server puts into the offers to a publisher
  (src/internal/stream/sdp.go), and what it does to the description: it is compared with a reference
  definition that cuts the description into its media sections.
\<close>

fun cap_lines :: "string \<Rightarrow> bool \<Rightarrow> bool \<Rightarrow> string list \<Rightarrow> string list" where
  "cap_lines bandwidth inVideo inserted [] = []"
| "cap_lines bandwidth inVideo inserted (line # rest) =
     (if has_prefix line ''m='' then line # cap_lines bandwidth (has_prefix line ''m=video '') False rest
      else if inVideo then
        (if has_prefix line ''b='' then cap_lines bandwidth inVideo inserted rest
         else if \<not> inserted \<and> ((rest = [] \<and> line = '''') \<or> (\<not> has_prefix line ''i='' \<and> \<not> has_prefix line ''c=''))
         then bandwidth # line # cap_lines bandwidth inVideo True rest
         else line # cap_lines bandwidth inVideo inserted rest)
      else line # cap_lines bandwidth inVideo inserted rest)"

definition crlf :: string where
  "crlf = [byte 13, byte 10]"

definition withVideoBandwidth :: "string \<Rightarrow> int \<Rightarrow> string" where
  "withVideoBandwidth sdp kbps =
     (if kbps \<le> 0 \<or> sdp = '''' then sdp
      else
        (let eol = (if contains_str sdp crlf then crlf else [byte 10]) in
         join_with eol (cap_lines (''b=AS:'' @ fmt_d kbps) False False (split_str eol sdp))))"

subsection \<open>Splitting and joining lines\<close>

text \<open>Separators that cannot overlap the text before them.\<close>

definition line_end :: "string \<Rightarrow> bool" where
  "line_end sep \<longleftrightarrow> (\<exists>a. sep = [a]) \<or> (\<exists>a b. sep = [a, b] \<and> a \<noteq> b)"

text \<open>No separator begins within \<open>w\<close> in \<open>w @ rest\<close>.\<close>

fun free :: "string \<Rightarrow> string \<Rightarrow> string \<Rightarrow> bool" where
  "free sep [] rest \<longleftrightarrow> True"
| "free sep (x # w) rest \<longleftrightarrow> \<not> has_prefix (x # w @ rest) sep \<and> free sep w rest"

lemma free_append: "free sep (v @ w) rest \<longleftrightarrow> free sep v (w @ rest) \<and> free sep w rest"
  by (induction v) auto

lemma has_prefix_append: "has_prefix s p \<Longrightarrow> has_prefix (s @ t) p"
  by (auto simp: has_prefix_def) (metis append_eq_append_conv_if append_take_drop_id length_take min.absorb1 nat_le_linear take_all take_append)

lemma free_no_sep: "sep \<noteq> [] \<Longrightarrow> free sep w rest \<Longrightarrow> \<not> contains_str w sep"
proof (induction w)
  case (Cons x w)
  then show ?case using has_prefix_append[of "x # w" sep rest] by auto
qed auto

lemma no_sep_free:
  assumes "line_end sep" and "\<not> contains_str w sep" and "rest = [] \<or> has_prefix rest sep"
  shows "free sep w rest"
  using assms(2)
proof (induction w)
  case (Cons x w)
  have "\<not> has_prefix (x # w @ rest) sep"
  proof
    assume h: "has_prefix (x # w @ rest) sep"
    have "\<not> has_prefix (x # w) sep" using Cons(2) by simp
    with h assms(1,3) show False
      by (cases w; cases rest) (auto simp: line_end_def has_prefix_def)
  qed
  with Cons show ?case by simp
qed simp

lemma split_acc_piece: "free sep w rest \<Longrightarrow> split_acc sep acc (w @ rest) = split_acc sep (rev w @ acc) rest"
proof (induction w arbitrary: acc)
  case (Cons x w)
  then show ?case by (subst split_acc.simps) simp
qed simp

lemma split_join:
  assumes "line_end sep" and "ws \<noteq> []" and "\<forall>w \<in> set ws. \<not> contains_str w sep"
  shows "split_str sep (join_with sep ws) = ws"
proof -
  have ne: "sep \<noteq> []" using assms(1) by (auto simp: line_end_def)
  have pre: "has_prefix (sep @ r) sep" for r by (simp add: has_prefix_def)
  from assms(2,3) have "split_acc sep [] (join_with sep ws) = ws"
  proof (induction ws)
    case (Cons w ws)
    show ?case
    proof (cases ws)
      case Nil
      have "free sep w []" by (rule no_sep_free[OF assms(1)]) (use Cons(3) in simp_all)
      from split_acc_piece[OF this, of "[]"] show ?thesis
        using ne Nil by (simp add: split_acc.simps[of sep "rev w" "[]"] has_prefix_def)
    next
      case (Cons v vs)
      let ?rest = "join_with sep ws"
      have join: "join_with sep (w # ws) = w @ sep @ ?rest" using Cons by simp
      have "free sep w (sep @ ?rest)" by (rule no_sep_free[OF assms(1)]) (use Cons.prems pre in simp_all)
      from split_acc_piece[OF this, of "[]"] have "split_acc sep [] (w @ sep @ ?rest) = split_acc sep (rev w) (sep @ ?rest)" by simp
      also have "\<dots> = w # split_acc sep [] ?rest"
        using ne pre by (subst split_acc.simps) simp
      also have "split_acc sep [] ?rest = ws" by (rule Cons.IH) (use Cons Cons.prems in simp_all)
      finally show ?thesis by (simp only: join)
    qed
  qed simp
  then show ?thesis by (simp add: split_str_def)
qed

lemma split_acc_no_sep:
  assumes "sep \<noteq> []" and "free sep (rev acc) s" and "w \<in> set (split_acc sep acc s)"
  shows "\<not> contains_str w sep"
  using assms
proof (induction sep acc s rule: split_acc.induct)
  case (1 sep acc s)
  show ?case
  proof (cases "has_prefix s sep")
    case True
    then have "split_acc sep acc s = rev acc # split_acc sep [] (drop (length sep) s)"
      using 1(3) by (subst split_acc.simps) simp
    with 1 True free_no_sep[OF 1(3,4)] show ?thesis by auto
  next
    case False
    show ?thesis
    proof (cases s)
      case Nil
      with 1(3-) False show ?thesis by (auto simp: split_acc.simps[of sep acc "[]"] dest: free_no_sep)
    next
      case (Cons x xs)
      have "free sep (rev (x # acc)) xs" using 1(4) False Cons by (simp add: free_append)
      moreover have "w \<in> set (split_acc sep (x # acc) xs)"
        using 1(5) False Cons by (subst (asm) split_acc.simps) simp
      ultimately show ?thesis using 1(2)[of x xs] 1(3) False Cons by simp
    qed
  qed
qed

lemma split_str_no_sep: "sep \<noteq> [] \<Longrightarrow> w \<in> set (split_str sep s) \<Longrightarrow> \<not> contains_str w sep"
  unfolding split_str_def by (rule split_acc_no_sep) simp_all

subsection \<open>The media sections of a description\<close>

definition media_line :: "string \<Rightarrow> bool" where
  "media_line line \<longleftrightarrow> has_prefix line ''m=''"

text \<open>The media sections of a description that begins with a media line: each media line with the
  lines up to the next one.\<close>

function sections :: "string list \<Rightarrow> (string \<times> string list) list" where
  "sections [] = []"
| "sections (m # rest) =
     (m, takeWhile (\<lambda>line. \<not> media_line line) rest) # sections (dropWhile (\<lambda>line. \<not> media_line line) rest)"
  by pat_completeness auto
termination
  by (relation "measure length") (auto simp: le_imp_less_Suc length_dropWhile_le)

text \<open>What the body of a section becomes: a video section loses its bandwidth lines and gets the cap
  after its leading title and connection lines, whatever else it contains.\<close>

definition lead :: "string \<Rightarrow> bool" where
  "lead line \<longleftrightarrow> has_prefix line ''i='' \<or> has_prefix line ''c=''"

definition cap_body :: "string \<Rightarrow> string list \<Rightarrow> string list" where
  "cap_body bandwidth body =
     (let kept = filter (\<lambda>line. \<not> has_prefix line ''b='') body in
      takeWhile lead kept @ [bandwidth] @ dropWhile lead kept)"

definition cap_section :: "string \<Rightarrow> string \<times> string list \<Rightarrow> string list" where
  "cap_section bandwidth s =
     (case s of (m, body) \<Rightarrow> m # (if has_prefix m ''m=video '' then cap_body bandwidth body else body))"

definition capped :: "string \<Rightarrow> string list \<Rightarrow> string list" where
  "capped bandwidth ls =
     takeWhile (\<lambda>line. \<not> media_line line) ls @
     concat (map (cap_section bandwidth) (sections (dropWhile (\<lambda>line. \<not> media_line line) ls)))"

text \<open>Every video section has a line besides title, connection and bandwidth lines. The empty line
  after the last line end counts as one.\<close>

definition has_plain :: "string list \<Rightarrow> bool" where
  "has_plain body \<longleftrightarrow> list_ex (\<lambda>line. \<not> has_prefix line ''b='' \<and> \<not> lead line) body"

definition described :: "string list \<Rightarrow> bool" where
  "described ls \<longleftrightarrow>
     list_all (\<lambda>(m, body). has_prefix m ''m=video '' \<longrightarrow> has_plain body)
       (sections (dropWhile (\<lambda>line. \<not> media_line line) ls))"

text \<open>At the beginning of a section the state of the loop does not matter.\<close>

lemma cap_lines_section:
  "ls = [] \<or> media_line (hd ls) \<Longrightarrow> cap_lines bandwidth v i ls = cap_lines bandwidth False False ls"
  by (cases ls) (auto simp: media_line_def)

lemma section_start: "dropWhile (\<lambda>line. \<not> media_line line) ls = [] \<or> media_line (hd (dropWhile (\<lambda>line. \<not> media_line line) ls))"
  using hd_dropWhile[of "\<lambda>line. \<not> media_line line" ls] by blast

lemma cap_lines_other:
  "cap_lines bandwidth False i ls =
     takeWhile (\<lambda>line. \<not> media_line line) ls @ cap_lines bandwidth False False (dropWhile (\<lambda>line. \<not> media_line line) ls)"
  by (induction ls arbitrary: i) (auto simp: media_line_def)

lemma cap_lines_inserted:
  "cap_lines bandwidth True True ls =
     filter (\<lambda>line. \<not> has_prefix line ''b='') (takeWhile (\<lambda>line. \<not> media_line line) ls) @
     cap_lines bandwidth False False (dropWhile (\<lambda>line. \<not> media_line line) ls)"
  by (induction ls) (auto simp: media_line_def)

lemma cap_lines_video:
  "has_plain (takeWhile (\<lambda>line. \<not> media_line line) ls) \<Longrightarrow>
   cap_lines bandwidth True False ls =
     cap_body bandwidth (takeWhile (\<lambda>line. \<not> media_line line) ls) @
     cap_lines bandwidth False False (dropWhile (\<lambda>line. \<not> media_line line) ls)"
proof (induction ls)
  case (Cons line ls)
  have e: "\<not> has_prefix [] ''i=''" "\<not> has_prefix [] ''c=''" by (simp_all add: has_prefix_def)
  have nm: "\<not> media_line line" using Cons.prems by (auto simp: has_plain_def)
  show ?case
  proof (cases "has_prefix line ''b='' \<or> lead line")
    case True
    then have "has_plain (takeWhile (\<lambda>line. \<not> media_line line) ls)" using Cons.prems nm by (auto simp: has_plain_def)
    from Cons.IH[OF this] True nm e show ?thesis by (auto simp: media_line_def cap_body_def lead_def Let_def)
  next
    case False
    then have "cap_lines bandwidth True False (line # ls) = bandwidth # line # cap_lines bandwidth True True ls"
      using nm by (simp add: media_line_def lead_def)
    with False nm show ?thesis by (simp add: cap_lines_inserted cap_body_def lead_def Let_def)
  qed
qed (simp add: has_plain_def)

lemma cap_lines_sections:
  "ls = [] \<or> media_line (hd ls) \<Longrightarrow>
   list_all (\<lambda>(m, body). has_prefix m ''m=video '' \<longrightarrow> has_plain body) (sections ls) \<Longrightarrow>
   cap_lines bandwidth False False ls = concat (map (cap_section bandwidth) (sections ls))"
proof (induction ls rule: sections.induct)
  case (2 m rest)
  have "cap_lines bandwidth False False (dropWhile (\<lambda>line. \<not> media_line line) rest) =
      concat (map (cap_section bandwidth) (sections (dropWhile (\<lambda>line. \<not> media_line line) rest)))"
    by (rule 2(1)[OF section_start]) (use 2(3) in simp)
  with 2(2,3) show ?case
    by (auto simp: media_line_def[of m] cap_section_def[of _ "(m, _)"] cap_lines_video[of rest] cap_lines_other[of _ _ rest])
qed simp

lemma cap_lines_capped: "described ls \<Longrightarrow> cap_lines bandwidth False False ls = capped bandwidth ls"
  unfolding capped_def described_def cap_lines_other[of bandwidth False ls] by (simp add: cap_lines_sections[OF section_start])

lemma capped_nonempty: "ls \<noteq> [] \<Longrightarrow> capped bandwidth ls \<noteq> []"
  by (cases ls) (auto simp: capped_def cap_section_def)

lemma set_cap_lines: "set (cap_lines bandwidth v i ls) \<subseteq> insert bandwidth (set ls)"
proof (induction ls arbitrary: v i)
  case (Cons line ls)
  have "set (cap_lines bandwidth v i ls) \<subseteq> insert bandwidth (set (line # ls))" for v i using Cons[of v i] by auto
  then show ?case by (simp only: cap_lines.simps) (auto split: if_splits)
qed simp

lemma split_str_nonempty: "split_str sep s \<noteq> []"
proof -
  have "split_acc sep acc s \<noteq> []" for acc
  proof (induction sep acc s rule: split_acc.induct)
    case (1 sep acc s)
    then show ?case by (subst split_acc.simps) (cases s, auto)
  qed
  then show ?thesis by (simp add: split_str_def)
qed

lemma contains_str_subset: "contains_str s p \<Longrightarrow> set p \<subseteq> set s"
proof (induction s)
  case (Cons x xs)
  have "set p \<subseteq> set (x # xs)" if "has_prefix (x # xs) p"
    using that set_take_subset[of "length p" "x # xs"] by (simp only: has_prefix_def)
  with Cons show ?case by auto
qed simp

lemma bandwidth_line: "\<not> contains_str (''b=AS:'' @ fmt_d kbps) crlf" "\<not> contains_str (''b=AS:'' @ fmt_d kbps) [byte 10]"
proof -
  have "byte 10 \<notin> set ''b=AS:''" "byte 10 \<notin> set ''-0123456789''" by code_simp+
  moreover have "set (fmt_d kbps) \<subseteq> set ''-0123456789''"
    using fmt_base_ten_chars[of "nat (- kbps)"] fmt_base_ten_chars[of "nat kbps"]
    by (cases "kbps < 0") (simp_all add: fmt_d_def subset_insertI2)
  ultimately have "byte 10 \<notin> set (''b=AS:'' @ fmt_d kbps)" unfolding set_append by blast
  then show "\<not> contains_str (''b=AS:'' @ fmt_d kbps) crlf" "\<not> contains_str (''b=AS:'' @ fmt_d kbps) [byte 10]"
    using contains_str_subset[of "''b=AS:'' @ fmt_d kbps" crlf] contains_str_subset[of "''b=AS:'' @ fmt_d kbps" "[byte 10]"]
    unfolding crlf_def list.set by blast+
qed

text \<open>C34: The offer to a publisher limits its encoder. When every video section of the description has
  a line besides title, connection and bandwidth lines, the new description is the one of the
  reference definition: in every video section the bandwidth lines are replaced by one \<^verbatim>\<open>b=AS\<close> line
  after the title and connection lines; nothing else changes, and the line ends are kept.\<close>

theorem offer_bandwidth_capped:
  assumes "0 < kbps" and "sdp \<noteq> ''''" and "eol = (if contains_str sdp crlf then crlf else [byte 10])"
    and "described (split_str eol sdp)"
  shows "split_str eol (withVideoBandwidth sdp kbps) = capped (''b=AS:'' @ fmt_d kbps) (split_str eol sdp)"
proof -
  have le: "line_end eol" using assms(3) by (simp add: line_end_def crlf_def byte_def)
  then have ne: "eol \<noteq> []" by (auto simp: line_end_def)
  let ?b = "''b=AS:'' @ fmt_d kbps"
  have "withVideoBandwidth sdp kbps = join_with eol (capped ?b (split_str eol sdp))"
    using assms(1,2) unfolding withVideoBandwidth_def Let_def assms(3)[symmetric] by (simp add: cap_lines_capped[OF assms(4)])
  moreover have "\<not> contains_str w eol" if "w \<in> set (capped ?b (split_str eol sdp))" for w
  proof -
    have "w = ?b \<or> w \<in> set (split_str eol sdp)"
      using that set_cap_lines[of ?b False False "split_str eol sdp"] by (auto simp only: cap_lines_capped[OF assms(4)])
    then show ?thesis using split_str_no_sep[OF ne] bandwidth_line assms(3) by auto
  qed
  ultimately show ?thesis
    using split_join[OF le capped_nonempty[OF split_str_nonempty]] by simp
qed

lemma offer_bandwidth_capped_witness:
  "split_str [byte 10] (withVideoBandwidth (join_with [byte 10] [''v=0'', ''m=video 9'', ''c=IN'', ''b=AS:9'', ''a=x'', '''']) 500) =
     [''v=0'', ''m=video 9'', ''c=IN'', ''b=AS:500'', ''a=x'', '''']"
proof -
  let ?s = "join_with [byte 10] [''v=0'', ''m=video 9'', ''c=IN'', ''b=AS:9'', ''a=x'', '''']"
  have "?s \<noteq> ''''" "[byte 10] = (if contains_str ?s crlf then crlf else [byte 10])"
    "described (split_str [byte 10] ?s)" by code_simp+
  from offer_bandwidth_capped[OF _ this, of 500]
  have "split_str [byte 10] (withVideoBandwidth ?s 500) = capped (''b=AS:'' @ fmt_d 500) (split_str [byte 10] ?s)" by simp
  also have "\<dots> = [''v=0'', ''m=video 9'', ''c=IN'', ''b=AS:500'', ''a=x'', '''']" by code_simp
  finally show ?thesis .
qed

text \<open>A video section that has only a title and a connection line gets no limit.\<close>

lemma uncapped_video_section:
  "cap_lines bandwidth False False [''m=video 9 RTP/AVP 96'', ''c=IN IP4 0.0.0.0'', ''m=audio 9 RTP/AVP 111''] =
     [''m=video 9 RTP/AVP 96'', ''c=IN IP4 0.0.0.0'', ''m=audio 9 RTP/AVP 111'']"
  by (simp add: has_prefix_def)

end
