(* ===== verification/StreamKeyframes.thy ===== *)
theory StreamKeyframes
  imports MediaTimers
begin

text \<open>
  How often a publisher is asked for a key frame (\<^verbatim>\<open>requestKeyFrame\<close> and \<^verbatim>\<open>flushKeyFrame\<close> of
  src/internal/stream/session.go), for one rendition. Requests within the interval are collapsed into
  one trailing request, which a timer sends. The timer may be late, so requests and the flush race;
  the step relation interleaves them freely. Times are nanoseconds, None is the zero \<^verbatim>\<open>time.Time\<close>.
\<close>

record keyframeGate =
  gt_last :: "int option"
  gt_pending :: bool

definition publisherKeyFrameInterval :: int where
  "publisherKeyFrameInterval = nanos div 2"

datatype gate_action =
    SendNow
  | FlushAt int \<comment> \<open>\<^verbatim>\<open>time.AfterFunc\<close> until this time\<close>
  | Ignore

definition new_gate :: keyframeGate where
  "new_gate = \<lparr> gt_last = None, gt_pending = False \<rparr>"

text \<open>The section of \<^verbatim>\<open>requestKeyFrame\<close> under \<^verbatim>\<open>keyframeMu\<close>. The time since the zero time is larger
  than every interval.\<close>

definition gate_request :: "int \<Rightarrow> int \<Rightarrow> keyframeGate \<Rightarrow> keyframeGate \<times> gate_action" where
  "gate_request interval now g =
     (case gt_last g of
        Some previous \<Rightarrow>
          (let wait = interval - (now - previous) in
           if wait > 0 then
             (if \<not> gt_pending g then (g\<lparr> gt_pending := True \<rparr>, FlushAt (now + wait)) else (g, Ignore))
           else (g\<lparr> gt_last := Some now \<rparr>, SendNow))
      | None \<Rightarrow> (g\<lparr> gt_last := Some now \<rparr>, SendNow))"

text \<open>The section of \<^verbatim>\<open>flushKeyFrame\<close>: is a request sent.\<close>

definition gate_flush :: "int \<Rightarrow> keyframeGate \<Rightarrow> keyframeGate \<times> bool" where
  "gate_flush now g =
     (if \<not> gt_pending g then (g, False) else (g\<lparr> gt_pending := False, gt_last := Some now \<rparr>, True))"

subsection \<open>Runs\<close>

record gate_run =
  gr_gate :: keyframeGate
  gr_timers :: "int list" \<comment> \<open>timers that have not run yet\<close>
  gr_granted :: "int list"   \<comment> \<open>when the gate let a request pass, the last one first\<close>
  gr_now :: int

text \<open>The sections under \<^verbatim>\<open>keyframeMu\<close>. The time of a request is the time of the decision of the gate: the
  code writes the packet right after it has released the lock.\<close>

definition request_run :: "int \<Rightarrow> gate_run \<Rightarrow> gate_run" where
  "request_run interval x =
     (let (g, act) = gate_request interval (gr_now x) (gr_gate x); x1 = x\<lparr> gr_gate := g \<rparr> in
      case act of
        SendNow \<Rightarrow> x1\<lparr> gr_granted := gr_now x # gr_granted x \<rparr>
      | FlushAt t \<Rightarrow> x1\<lparr> gr_timers := t # gr_timers x \<rparr>
      | Ignore \<Rightarrow> x1)"

definition flush_run :: "gate_run \<Rightarrow> gate_run" where
  "flush_run x =
     (let (g, send) = gate_flush (gr_now x) (gr_gate x); x1 = x\<lparr> gr_gate := g \<rparr> in
      if send then x1\<lparr> gr_granted := gr_now x # gr_granted x \<rparr> else x1)"

inductive gate_step :: "int \<Rightarrow> gate_run \<Rightarrow> gate_run \<Rightarrow> bool" for interval where
  request: "gate_step interval x (request_run interval x)"
| flush: "t \<in> set (gr_timers x) \<Longrightarrow> t \<le> gr_now x \<Longrightarrow>
     gate_step interval x (flush_run (x\<lparr> gr_timers := remove1 t (gr_timers x) \<rparr>))"
| elapse: "gr_now x \<le> t \<Longrightarrow> gate_step interval x (x\<lparr> gr_now := t \<rparr>)"

definition new_gate_run :: "int \<Rightarrow> gate_run" where
  "new_gate_run now = \<lparr> gr_gate = new_gate, gr_timers = [], gr_granted = [], gr_now = now \<rparr>"

text \<open>Of three requests in a row the first and the last are an interval apart.\<close>

fun spread :: "int \<Rightarrow> int list \<Rightarrow> bool" where
  "spread d (c # b # a # rest) \<longleftrightarrow> d \<le> c - a \<and> spread d (b # a # rest)"
| "spread d _ \<longleftrightarrow> True"

text \<open>The timer that is pending was set when some earlier request was the last one; unless that is still
  so, the two last requests are an interval apart.\<close>

definition gate_inv :: "int \<Rightarrow> gate_run \<Rightarrow> bool" where
  "gate_inv d x \<longleftrightarrow>
     spread d (gr_granted x) \<and> sorted_wrt (\<ge>) (gr_now x # gr_granted x) \<and>
     gt_last (gr_gate x) = (case gr_granted x of [] \<Rightarrow> None | t # _ \<Rightarrow> Some t) \<and>
     (gt_pending (gr_gate x) \<longleftrightarrow> gr_timers x \<noteq> []) \<and> length (gr_timers x) \<le> 1 \<and>
     (\<forall>due \<in> set (gr_timers x).
        case gr_granted x of
          [] \<Rightarrow> False
        | [b] \<Rightarrow> due = b + d
        | b # a # _ \<Rightarrow> due = b + d \<or> d \<le> b - a)"

lemma gate_request_inv:
  assumes "0 \<le> d" and "gate_inv d x"
  shows "gate_inv d (request_run d x)"
  using assms
  by (cases "gr_granted x" rule: list.exhaust; cases "tl (gr_granted x)" rule: list.exhaust)
    (auto simp: gate_inv_def request_run_def gate_request_def Let_def split: if_splits option.splits)

lemma gate_flush_inv:
  assumes "0 \<le> d" and "gate_inv d x" and "t \<in> set (gr_timers x)" and "t \<le> gr_now x"
  shows "gate_inv d (flush_run (x\<lparr> gr_timers := remove1 t (gr_timers x) \<rparr>))"
proof -
  from assms(2,3) have one: "gr_timers x = [t]"
    unfolding gate_inv_def by (cases "gr_timers x") auto
  obtain b rest where sent: "gr_granted x = b # rest"
    using assms(2,3) unfolding gate_inv_def by (cases "gr_granted x") auto
  have "spread d (gr_now x # b # rest)"
  proof (cases rest)
    case (Cons a rest')
    with assms one sent show ?thesis by (auto simp: gate_inv_def)
  qed simp
  with assms(2) one sent show ?thesis
    by (simp add: gate_inv_def flush_run_def gate_flush_def)
qed

interpretation gate: kept_by "gate_inv (max 0 d)" "gate_step (max 0 d)" for d
proof
  fix x x' assume "gate_inv (max 0 d) x" and "gate_step (max 0 d) x x'"
  from this(2,1) show "gate_inv (max 0 d) x'"
  proof cases
    case (elapse t)
    with \<open>gate_inv (max 0 d) x\<close> show ?thesis by (force simp: gate_inv_def)
  qed (simp_all add: gate_request_inv gate_flush_inv)
qed

lemma spread_window:
  assumes "spread d ts" and "sorted_wrt (\<ge>) ts"
  shows "length (filter (\<lambda>x. t \<le> x \<and> x < t + d) ts) \<le> 2"
  using assms
proof (induction d ts rule: spread.induct)
  case (1 d c b a rest)
  show ?case
  proof (cases "t \<le> c \<and> c < t + d")
    case True
    have "c < t + d" "d \<le> c - a" using True 1(2) by simp_all
    then have "a < t" by linarith
    then have "filter (\<lambda>x. t \<le> x \<and> x < t + d) (a # rest) = []"
      using 1(3) by (auto simp: filter_empty_conv)
    then show ?thesis by (auto split: if_splits)
  next
    case False
    have "length (filter (\<lambda>x. t \<le> x \<and> x < t + d) (b # a # rest)) \<le> 2"
      by (rule 1(1)) (use 1(2,3) in simp_all)
    with False show ?thesis by (simp only: filter.simps if_False)
  qed
qed auto

text \<open>C35: However viewers report losses and however late timers run, the gate of a rendition lets at most
  two requests for a key frame pass in any half second (one at once and one by the trailing timer),
  by the time of its decision, and a timer is still to come exactly while a request is collapsed.\<close>

theorem keyframe_requests_bounded:
  assumes "(gate_step publisherKeyFrameInterval)\<^sup>*\<^sup>* (new_gate_run now) x"
  shows "length (filter (\<lambda>s. t \<le> s \<and> s < t + publisherKeyFrameInterval) (gr_granted x)) \<le> 2 \<and>
    (gt_pending (gr_gate x) \<longleftrightarrow> gr_timers x \<noteq> [])"
proof -
  have d: "max 0 publisherKeyFrameInterval = publisherKeyFrameInterval"
    by (simp add: publisherKeyFrameInterval_def nanos_def)
  have "gate_inv publisherKeyFrameInterval (new_gate_run now)"
    by (simp add: gate_inv_def new_gate_run_def new_gate_def)
  with gate.along[of publisherKeyFrameInterval, unfolded d, OF assms] have "gate_inv publisherKeyFrameInterval x" by blast
  then show ?thesis using spread_window[of publisherKeyFrameInterval "gr_granted x" t] unfolding gate_inv_def by simp
qed

lemma keyframe_requests_bounded_witness:
  "length (filter (\<lambda>s. 0 \<le> s \<and> s < publisherKeyFrameInterval)
     (gr_granted (request_run publisherKeyFrameInterval (request_run publisherKeyFrameInterval (new_gate_run 0))))) \<le> 2"
proof -
  let ?r = "request_run publisherKeyFrameInterval"
  have "(gate_step publisherKeyFrameInterval)\<^sup>*\<^sup>* (new_gate_run 0) (?r (?r (new_gate_run 0)))"
    by (meson gate_step.request r_into_rtranclp rtranclp.rtrancl_into_rtrancl)
  from keyframe_requests_bounded[OF this, of 0] show ?thesis by simp
qed

end
