(* ===== verification/StreamSfu.thy ===== *)
theory StreamSfu
  imports VoiceSfuSync StreamRelay StreamSdp StreamKeyframes
begin

text \<open>
  The stream media server (src/internal/stream: room.go, session.go, manager.go, bitrate_limiter.go,
  signal.go). A publisher's connection has a room with the renditions it announced; viewers of the
  room receive one rendition each. Rooms, sessions and relay tracks are objects in explicit stores.
  As in the voice server a section under a mutex is one function on the state, background failures
  are tasks, and the calls on timers and on the signal sink are logged.

  Pion is a parameter: the part shared with the voice server (\<open>pion\<close>) and the calls that only this
  server makes (\<open>stream_peer\<close>). The limiter computes with \<^verbatim>\<open>float64\<close>; its operations are the
  parameter \<open>float64\<close>, so nothing is assumed about rounding. None is the zero \<^verbatim>\<open>time.Time\<close>, which is
  longer ago than every cooldown.
\<close>

record 'p stream_peer =
  sp_AddTransceiver :: "rtp_kind \<Rightarrow> 'p \<Rightarrow> 'p \<times> (string + nat)"
  sp_SetCodecPreferences :: "nat \<Rightarrow> codec_parameters list \<Rightarrow> 'p \<Rightarrow> 'p \<times> string option"
  sp_GetTransceivers :: "'p \<Rightarrow> nat list"
  sp_Mid :: "nat \<Rightarrow> 'p \<Rightarrow> string"
  sp_Sender :: "nat \<Rightarrow> 'p \<Rightarrow> nat"
  sp_AddTrack :: "local_track \<Rightarrow> 'p \<Rightarrow> 'p \<times> (string + nat)"

record 'f float64 =
  fl_of_int :: "int \<Rightarrow> 'f"
  fl_seconds :: "int \<Rightarrow> 'f" \<comment> \<open>\<^verbatim>\<open>Duration.Seconds\<close>\<close>
  fl_add :: "'f \<Rightarrow> 'f \<Rightarrow> 'f"
  fl_sub :: "'f \<Rightarrow> 'f \<Rightarrow> 'f"
  fl_mul :: "'f \<Rightarrow> 'f \<Rightarrow> 'f"
  fl_div :: "'f \<Rightarrow> 'f \<Rightarrow> 'f"
  fl_less :: "'f \<Rightarrow> 'f \<Rightarrow> bool"

record ('p, 'f) sfu_env =
  se_pion :: "('p, unit) pion"
  se_peer :: "'p stream_peer"
  se_unicode :: unicode
  se_float :: "'f float64"
  se_sink :: "nat \<Rightarrow> voice_signal \<Rightarrow> bool"

subsection \<open>Bitrate guard (bitrate\_limiter.go)\<close>

record 'f bitrateLimiter =
  bl_bytesPerSecond :: 'f
  bl_capacity :: 'f
  bl_tokens :: 'f
  bl_updated :: int

definition newBitrateLimiter :: "'f float64 \<Rightarrow> int \<Rightarrow> 'f \<Rightarrow> int \<Rightarrow> 'f bitrateLimiter" where
  "newBitrateLimiter fl kbps burstSeconds now =
     (let rate = fl_div fl (fl_of_int fl (kbps * 1000)) (fl_of_int fl 8) in
      \<lparr> bl_bytesPerSecond = rate, bl_capacity = fl_mul fl rate burstSeconds, bl_tokens = fl_mul fl rate burstSeconds,
         bl_updated = now \<rparr>)"

definition bitrate_allow :: "'f float64 \<Rightarrow> int \<Rightarrow> int \<Rightarrow> 'f bitrateLimiter \<Rightarrow> 'f bitrateLimiter \<times> bool" where
  "bitrate_allow fl now bytes l =
     (if bytes \<le> 0 then (l, True)
      else
        (let grown = fl_add fl (bl_tokens l) (fl_mul fl (fl_seconds fl (now - bl_updated l)) (bl_bytesPerSecond l));
             tokens = (if fl_less fl (bl_capacity l) grown then bl_capacity l else grown);
             l1 = l\<lparr> bl_tokens := tokens, bl_updated := now \<rparr> in
         if fl_less fl tokens (fl_of_int fl bytes) then (l1, False)
         else (l1\<lparr> bl_tokens := fl_sub fl tokens (fl_of_int fl bytes) \<rparr>, True)))"

subsection \<open>Rooms (room.go)\<close>

type_synonym roomTrackKey = "string \<times> rtp_kind"

record sfu_roomTrack =
  xt_key :: roomTrackKey
  xt_track :: nat \<comment> \<open>the \<^verbatim>\<open>*relayTrack\<close>\<close>
  xt_codec :: codec_capability
  xt_rendition :: Rendition

record sfu_room =
  xr_serverID :: int
  xr_publisherConnectionID :: string
  xr_id :: int
  xr_renditions :: "(string, Rendition) gomap"
  xr_order :: "string list"
  xr_publisher :: "sref option"
  xr_viewers :: "(string, sref) gomap"
  xr_tracks :: "(roomTrackKey, sfu_roomTrack) gomap"
  xr_reservations :: int

definition newRoomWithRenditions :: "int \<Rightarrow> Rendition list \<Rightarrow> sfu_room" where
  "newRoomWithRenditions ident renditions =
     \<lparr> xr_serverID = 0, xr_publisherConnectionID = '''', xr_id = ident,
        xr_renditions = fold (\<lambda>r. AList.update (r_ID r) r) renditions [], xr_order = map r_ID renditions,
        xr_publisher = None, xr_viewers = [], xr_tracks = [], xr_reservations = 0 \<rparr>"

definition hasRendition :: "sfu_room \<Rightarrow> string \<Rightarrow> bool" where
  "hasRendition r ident \<longleftrightarrow> map_of (xr_renditions r) ident \<noteq> None"

fun first_sdr :: "(string, Rendition) gomap \<Rightarrow> string list \<Rightarrow> string" where
  "first_sdr renditions [] = ''''"
| "first_sdr renditions (ident # rest) =
     (case map_of renditions ident of
        Some v \<Rightarrow> if r_DynamicRange v = ''sdr'' then ident else first_sdr renditions rest
      | None \<Rightarrow> first_sdr renditions rest)"

definition defaultSDRRenditionID :: "sfu_room \<Rightarrow> string" where
  "defaultSDRRenditionID r = first_sdr (xr_renditions r) (xr_order r)"

definition reserveViewer :: "int \<Rightarrow> sfu_room \<Rightarrow> sfu_room \<times> bool" where
  "reserveViewer maximum r =
     (if int (length (xr_viewers r)) + xr_reservations r \<ge> maximum then (r, False)
      else (r\<lparr> xr_reservations := xr_reservations r + 1 \<rparr>, True))"

definition cancelViewerReservation :: "sfu_room \<Rightarrow> sfu_room" where
  "cancelViewerReservation r =
     (if xr_reservations r > 0 then r\<lparr> xr_reservations := xr_reservations r - 1 \<rparr> else r)"

definition addViewer :: "string \<Rightarrow> sref \<Rightarrow> sfu_room \<Rightarrow> sfu_room" where
  "addViewer connectionID s r =
     (let r1 = (if xr_reservations r > 0 then r\<lparr> xr_reservations := xr_reservations r - 1 \<rparr> else r) in
      r1\<lparr> xr_viewers := AList.update connectionID s (xr_viewers r1) \<rparr>)"

definition removeViewer :: "string \<Rightarrow> sfu_room \<Rightarrow> sfu_room" where
  "removeViewer connectionID r = r\<lparr> xr_viewers := AList.delete connectionID (xr_viewers r) \<rparr>"

definition setPublisher :: "sref \<Rightarrow> sfu_room \<Rightarrow> sfu_room \<times> bool" where
  "setPublisher s r =
     (if xr_publisher r \<noteq> None then (r, False) else (r\<lparr> xr_publisher := Some s \<rparr>, True))"

definition sfu_addTrack :: "sfu_roomTrack \<Rightarrow> sfu_room \<Rightarrow> sfu_room \<times> bool" where
  "sfu_addTrack t r =
     (if xr_publisher r = None then (r, False)
      else if map_of (xr_tracks r) (xt_key t) \<noteq> None then (r, False)
      else (r\<lparr> xr_tracks := AList.update (xt_key t) t (xr_tracks r) \<rparr>, True))"

definition sfu_removeTrack :: "roomTrackKey \<Rightarrow> nat \<Rightarrow> sfu_room \<Rightarrow> sfu_room \<times> bool" where
  "sfu_removeTrack key track r =
     (case map_of (xr_tracks r) key of
        None \<Rightarrow> (r, False)
      | Some current \<Rightarrow>
          if xt_track current \<noteq> track then (r, False)
          else (r\<lparr> xr_tracks := AList.delete key (xr_tracks r) \<rparr>, True))"

definition trackSnapshot :: "string \<Rightarrow> sfu_room \<Rightarrow> (roomTrackKey, sfu_roomTrack) gomap" where
  "trackSnapshot selected r =
     filter (\<lambda>((renditionID, kind), t). kind = KindAudio \<or> renditionID = selected) (xr_tracks r)"

definition viewerSnapshot :: "sfu_room \<Rightarrow> sref list" where
  "viewerSnapshot r = map snd (xr_viewers r)"

definition closeSnapshot :: "sfu_room \<Rightarrow> sfu_room \<times> sref list" where
  "closeSnapshot r =
     (r\<lparr> xr_publisher := None, xr_viewers := [], xr_tracks := [] \<rparr>,
      (case xr_publisher r of None \<Rightarrow> [] | Some p \<Rightarrow> [p]) @ map snd (xr_viewers r))"

subsection \<open>State\<close>

datatype sessionRole = SessionPublisher | SessionViewer

datatype sfu_error =
    SfuSessionNotFound
  | SfuStreamExists
  | SfuPublisherLimit
  | SfuStreamNotFound
  | SfuViewerLimit
  | SfuTooManyICECandidates
  | SfuRecoveryActionInvalid
  | SfuText string
  | SfuWrap string sfu_error

record ('p, 'f) sfu_session =
  xs_room :: rref
  xs_peer :: 'p
  xs_connectionID :: string
  xs_userID :: int
  xs_serverID :: int
  xs_channelID :: int
  xs_role :: sessionRole
  xs_closed :: bool
  xs_videoBitrate :: "'f bitrateLimiter"
  xs_audioBitrate :: "'f bitrateLimiter"
  xs_videoSSRC :: "(string, 32 word) gomap"
  xs_selectedRenditionID :: string
  xs_publisherTransceivers :: "(nat, string) gomap"
  xs_publisherMIDs :: "(string, string) gomap"
  xs_lastKeyframeRequest :: "int option"
  xs_lastICERestart :: "int option"
  xs_keyframeGates :: "(string, keyframeGate) gomap"
  xs_offerStarted :: "int option"
  xs_negotiationPending :: bool
  xs_iceRestartPending :: bool
  xs_pendingCandidates :: "candidate list"
  xs_closeOnce :: bool
  xs_recoveryActive :: bool
  xs_handshake :: "handshake_call list" \<comment> \<open>the last call first\<close>
  xs_recovery :: "recovery_call list"
  xs_rtcp :: "32 word list"             \<comment> \<open>picture loss indications written, the last one first\<close>

record ('p, 'f) sfu_manager =
  xm_roomHeap :: "rref \<Rightarrow> sfu_room"
  xm_sessionHeap :: "sref \<Rightarrow> ('p, 'f) sfu_session"
  xm_trackHeap :: "nat \<Rightarrow> relayTrack"
  xm_nextRoom :: nat
  xm_nextSession :: nat
  xm_nextTrack :: nat
  xm_videoCodecDescriptors :: "videoCodecDescriptor list"
  xm_rooms :: "(string, rref) gomap" \<comment> \<open>by the publisher's connection\<close>
  xm_sessions :: "(string, sref) gomap"
  xm_closed :: bool
  xm_maxViewers :: int
  xm_maxVideoBitrateKbps :: int
  xm_maxStreamAudioBitrateKbps :: int
  xm_tasks :: "(sref \<times> string) list"
  xm_flushes :: "(int \<times> sref \<times> string) list" \<comment> \<open>timers that will call \<^verbatim>\<open>flushKeyFrame\<close>\<close>
  xm_signals :: "voice_signal list"
  xm_now :: int

abbreviation sess :: "('p, 'f) sfu_manager \<Rightarrow> sref \<Rightarrow> ('p, 'f) sfu_session" where
  "sess m s \<equiv> xm_sessionHeap m s"

abbreviation sess_room :: "('p, 'f) sfu_manager \<Rightarrow> sref \<Rightarrow> sfu_room" where
  "sess_room m s \<equiv> xm_roomHeap m (xs_room (xm_sessionHeap m s))"

definition on_room :: "rref \<Rightarrow> (sfu_room \<Rightarrow> sfu_room) \<Rightarrow> ('p, 'f) sfu_manager \<Rightarrow> ('p, 'f) sfu_manager" where
  "on_room r f m = m\<lparr> xm_roomHeap := (xm_roomHeap m)(r := f (xm_roomHeap m r)) \<rparr>"

definition on_session ::
  "sref \<Rightarrow> (('p, 'f) sfu_session \<Rightarrow> ('p, 'f) sfu_session) \<Rightarrow> ('p, 'f) sfu_manager \<Rightarrow> ('p, 'f) sfu_manager" where
  "on_session s f m = m\<lparr> xm_sessionHeap := (xm_sessionHeap m)(s := f (xm_sessionHeap m s)) \<rparr>"

definition sfu_scheduleFail :: "sref \<Rightarrow> string \<Rightarrow> ('p, 'f) sfu_manager \<Rightarrow> ('p, 'f) sfu_manager" where
  "sfu_scheduleFail s reason m = m\<lparr> xm_tasks := xm_tasks m @ [(s, reason)] \<rparr>"

definition sfu_sink_call ::
  "('p, 'f) sfu_env \<Rightarrow> voice_signal \<Rightarrow> ('p, 'f) sfu_manager \<Rightarrow> ('p, 'f) sfu_manager \<times> bool" where
  "sfu_sink_call env sig m =
     (m\<lparr> xm_signals := sig # xm_signals m \<rparr>, se_sink env (length (xm_signals m)) sig)"

definition relay_local :: "unicode \<Rightarrow> relayTrack \<Rightarrow> local_track" where
  "relay_local uc t = \<lparr> lt_id = rk_id t, lt_streamID = rk_streamID t, lt_kind = codecType uc (cc_MimeType (rk_codec t)) \<rparr>"

subsection \<open>Key frames (session.go)\<close>

definition videoSSRCFor :: "('p, 'f) sfu_session \<Rightarrow> string \<Rightarrow> 32 word" where
  "videoSSRCFor x renditionID = get_or 0 (xs_videoSSRC x) renditionID"

definition writeKeyFrameRequest :: "string \<Rightarrow> sref \<Rightarrow> ('p, 'f) sfu_manager \<Rightarrow> ('p, 'f) sfu_manager" where
  "writeKeyFrameRequest renditionID s m =
     (let ssrc = videoSSRCFor (sess m s) renditionID in
      if xs_closed (sess m s) \<or> ssrc = 0 then m
      else on_session s (\<lambda>x. x\<lparr> xs_rtcp := ssrc # xs_rtcp x \<rparr>) m)"

definition sfu_requestKeyFrame :: "string \<Rightarrow> sref \<Rightarrow> ('p, 'f) sfu_manager \<Rightarrow> ('p, 'f) sfu_manager" where
  "sfu_requestKeyFrame renditionID s m =
     (if xs_closed (sess m s) \<or> videoSSRCFor (sess m s) renditionID = 0 then m
      else
        (let (gate, act) = gate_request publisherKeyFrameInterval (xm_now m) (get_or new_gate (xs_keyframeGates (sess m s)) renditionID);
             m1 = on_session s (\<lambda>x. x\<lparr> xs_keyframeGates := AList.update renditionID gate (xs_keyframeGates x) \<rparr>) m in
         case act of
           SendNow \<Rightarrow> writeKeyFrameRequest renditionID s m1
         | FlushAt t \<Rightarrow> m1\<lparr> xm_flushes := (t, s, renditionID) # xm_flushes m1 \<rparr>
         | Ignore \<Rightarrow> m1))"

definition flushKeyFrame :: "string \<Rightarrow> sref \<Rightarrow> ('p, 'f) sfu_manager \<Rightarrow> ('p, 'f) sfu_manager" where
  "flushKeyFrame renditionID s m =
     (case map_of (xs_keyframeGates (sess m s)) renditionID of
        None \<Rightarrow> m
      | Some g \<Rightarrow>
          (let (gate, send) = gate_flush (xm_now m) g in
           if \<not> send then m
           else writeKeyFrameRequest renditionID s
             (on_session s (\<lambda>x. x\<lparr> xs_keyframeGates := AList.update renditionID gate (xs_keyframeGates x) \<rparr>) m)))"

definition room_requestKeyFrame :: "rref \<Rightarrow> string \<Rightarrow> ('p, 'f) sfu_manager \<Rightarrow> ('p, 'f) sfu_manager" where
  "room_requestKeyFrame r renditionID m =
     (case xr_publisher (xm_roomHeap m r) of None \<Rightarrow> m | Some p \<Rightarrow> sfu_requestKeyFrame renditionID p m)"

subsection \<open>Negotiation (session.go)\<close>

definition sfu_MaxPendingICECandidates :: nat where
  "sfu_MaxPendingICECandidates = 64"

definition sfu_createOfferLocked ::
  "('p, 'f) sfu_env \<Rightarrow> bool \<Rightarrow> sref \<Rightarrow> ('p, 'f) sfu_manager \<Rightarrow> ('p, 'f) sfu_manager \<times> (sfu_error + string)" where
  "sfu_createOfferLocked env restart s m =
     (let pn = se_pion env; (p1, offer) = pn_CreateOffer pn restart (xs_peer (sess m s)) in
      case offer of
        Inl e \<Rightarrow> (on_session s (\<lambda>x. x\<lparr> xs_peer := p1 \<rparr>) m, Inl (SfuWrap ''create stream WebRTC offer: '' (SfuText e)))
      | Inr sdp \<Rightarrow>
          (let (p2, err) = pn_SetLocalDescription pn sdp p1 in
           case err of
             Some e \<Rightarrow>
               (on_session s (\<lambda>x. x\<lparr> xs_peer := p2 \<rparr>) m, Inl (SfuWrap ''create stream WebRTC offer: '' (SfuText e)))
           | None \<Rightarrow>
               (on_session s (\<lambda>x. x\<lparr> xs_peer := p2, xs_negotiationPending := False, xs_iceRestartPending := False,
                   xs_offerStarted := Some (xm_now m), xs_handshake := HandshakeOffer # xs_handshake x \<rparr>) m,
                Inr sdp)))"

definition sfu_sendOffer :: "('p, 'f) sfu_env \<Rightarrow> sref \<Rightarrow> string \<Rightarrow> ('p, 'f) sfu_manager \<Rightarrow> ('p, 'f) sfu_manager" where
  "sfu_sendOffer env s sdp m =
     (let x = sess m s;
          sdp1 = (if xs_role x = SessionPublisher
                  then withVideoBandwidth sdp (xm_maxVideoBitrateKbps m div max 1 (int (length (xs_publisherTransceivers x))))
                  else sdp);
          (m1, ok) = sfu_sink_call env (SendOffer (xs_connectionID x) sdp1) m in
      if ok then m1 else sfu_scheduleFail s ''stream signaling connection was lost'' m1)"

fun bind_mids :: "(nat \<Rightarrow> string) \<Rightarrow> (nat, string) gomap \<Rightarrow> (string, string) gomap \<Rightarrow> sfu_error + (string, string) gomap" where
  "bind_mids mid_of [] mids = Inr mids"
| "bind_mids mid_of ((transceiver, renditionID) # rest) mids =
     (let mid = mid_of transceiver in
      if mid = '''' then Inl (SfuText ''publisher video transceiver MID is missing'')
      else if map_of mids mid \<noteq> None then Inl (SfuText ''publisher video transceiver MID is duplicated'')
      else bind_mids mid_of rest (AList.update mid renditionID mids))"

definition bindPublisherMIDs ::
  "('p, 'f) sfu_env \<Rightarrow> sref \<Rightarrow> ('p, 'f) sfu_manager \<Rightarrow> ('p, 'f) sfu_manager \<times> sfu_error option" where
  "bindPublisherMIDs env s m =
     (case bind_mids (\<lambda>t. sp_Mid (se_peer env) t (xs_peer (sess m s))) (xs_publisherTransceivers (sess m s)) [] of
        Inl e \<Rightarrow> (m, Some e)
      | Inr mids \<Rightarrow> (on_session s (\<lambda>x. x\<lparr> xs_publisherMIDs := mids \<rparr>) m, None))"

definition createOffer ::
  "('p, 'f) sfu_env \<Rightarrow> sref \<Rightarrow> ('p, 'f) sfu_manager \<Rightarrow> ('p, 'f) sfu_manager \<times> sfu_error option" where
  "createOffer env s m =
     (if xs_closed (sess m s) then (m, Some SfuSessionNotFound)
      else
        (case sfu_createOfferLocked env False s m of
           (m1, Inl e) \<Rightarrow> (m1, Some e)
         | (m1, Inr sdp) \<Rightarrow>
             (case (if xs_role (sess m1 s) = SessionPublisher then bindPublisherMIDs env s m1 else (m1, None)) of
                (m2, Some e) \<Rightarrow> (m2, Some e)
              | (m2, None) \<Rightarrow> (sfu_sendOffer env s sdp m2, None))))"

text \<open>The tracks of a viewer by their identifiers.\<close>

definition sfu_desired :: "unicode \<Rightarrow> ('p, 'f) sfu_manager \<Rightarrow> sref \<Rightarrow> (string, sfu_roomTrack) gomap" where
  "sfu_desired uc m s =
     fold (\<lambda>(key, t). AList.update (rk_id (xm_trackHeap m (xt_track t))) t)
       (trackSnapshot (xs_selectedRenditionID (sess m s)) (sess_room m s)) []"

definition transceiverForSender :: "'p stream_peer \<Rightarrow> nat \<Rightarrow> 'p \<Rightarrow> nat option" where
  "transceiverForSender sp sender p = find (\<lambda>t. sp_Sender sp t p = sender) (sp_GetTransceivers sp p)"

definition prefer_codec ::
  "'p stream_peer \<Rightarrow> (codec_capability \<Rightarrow> codec_parameters list) \<Rightarrow> sfu_roomTrack \<Rightarrow> nat \<Rightarrow> 'p \<Rightarrow> 'p \<times> sfu_error option" where
  "prefer_codec sp preferences t sender p =
     (if snd (xt_key t) \<noteq> KindVideo then (p, None)
      else (case transceiverForSender sp sender p of
              None \<Rightarrow> (p, Some (SfuText ''outgoing stream video transceiver is missing''))
            | Some transceiver \<Rightarrow>
                (case sp_SetCodecPreferences sp transceiver (preferences (xt_codec t)) p of
                   (p1, None) \<Rightarrow> (p1, None)
                 | (p1, Some e) \<Rightarrow>
                     (p1, Some (SfuWrap (''prefer outgoing '' @ r_Codec (xt_rendition t) @ '':'' @ r_Profile (xt_rendition t) @ '' stream codec: '')
                        (SfuText e))))))"

fun sfu_add_missing ::
  "'p stream_peer \<Rightarrow> (sfu_roomTrack \<Rightarrow> local_track) \<Rightarrow> (codec_capability \<Rightarrow> codec_parameters list) \<Rightarrow> string list \<Rightarrow>
     (string, sfu_roomTrack) gomap \<Rightarrow> 'p \<Rightarrow> bool \<Rightarrow> 'p \<times> bool \<times> sfu_error option" where
  "sfu_add_missing sp loc preferences existing [] p changed = (p, changed, None)"
| "sfu_add_missing sp loc preferences existing ((ident, t) # rest) p changed =
     (if ident \<in> set existing then sfu_add_missing sp loc preferences existing rest p changed
      else (case sp_AddTrack sp (loc t) p of
              (p1, Inl e) \<Rightarrow> (p1, changed, Some (SfuWrap ''add outgoing stream track: '' (SfuText e)))
            | (p1, Inr sender) \<Rightarrow>
                (case prefer_codec sp preferences t sender p1 of
                   (p2, Some e) \<Rightarrow> (p2, True, Some e)
                 | (p2, None) \<Rightarrow> sfu_add_missing sp loc preferences existing rest p2 True)))"

definition sfu_offer_if_needed ::
  "('p, 'f) sfu_env \<Rightarrow> bool \<Rightarrow> sref \<Rightarrow> ('p, 'f) sfu_manager \<Rightarrow> ('p, 'f) sfu_manager \<times> sfu_error option" where
  "sfu_offer_if_needed env needed s m =
     (let x = sess m s in
      if \<not> needed \<and> \<not> xs_negotiationPending x \<and> \<not> xs_iceRestartPending x then (m, None)
      else if \<not> pn_Stable (se_pion env) (xs_peer x) then
        (on_session s (\<lambda>x. x\<lparr> xs_negotiationPending := True \<rparr>) m, None)
      else
        (case sfu_createOfferLocked env (xs_iceRestartPending x) s m of
           (m1, Inl e) \<Rightarrow> (m1, Some e)
         | (m1, Inr sdp) \<Rightarrow> (sfu_sendOffer env s sdp m1, None)))"

definition synchronizeViewerTracks ::
  "('p, 'f) sfu_env \<Rightarrow> bool \<Rightarrow> sref \<Rightarrow> ('p, 'f) sfu_manager \<Rightarrow> ('p, 'f) sfu_manager \<times> sfu_error option" where
  "synchronizeViewerTracks env force s m =
     (let x = sess m s; pn = se_pion env; sp = se_peer env; uc = se_unicode env in
      if xs_role x \<noteq> SessionViewer then (m, None)
      else if xs_closed x then (m, Some SfuSessionNotFound)
      else if trackSnapshot (xs_selectedRenditionID x) (sess_room m s) = [] \<and> sp_GetTransceivers sp (xs_peer x) = []
      then (m, None)
      else
        (let desired = sfu_desired uc m s;
             (p1, changed1, existing, err1) =
               remove_stale pn (\<lambda>ident. map_of desired ident \<noteq> None) (pn_GetSenders pn (xs_peer x)) (xs_peer x) False [] in
         case err1 of
           Some e \<Rightarrow>
             (on_session s (\<lambda>x. x\<lparr> xs_peer := p1 \<rparr>) m, Some (SfuWrap ''remove outgoing stream track: '' (SfuText e)))
         | None \<Rightarrow>
             (let (p2, changed2, err2) =
                    sfu_add_missing sp (\<lambda>t. relay_local uc (xm_trackHeap m (xt_track t)))
                      (viewerCodecPreferences uc (xm_videoCodecDescriptors m)) existing desired p1 changed1;
                  m2 = on_session s (\<lambda>x. x\<lparr> xs_peer := p2 \<rparr>) m in
              case err2 of
                Some e \<Rightarrow> (m2, Some e)
              | None \<Rightarrow> sfu_offer_if_needed env (changed2 \<or> force) s m2)))"

definition sync_viewer :: "('p, 'f) sfu_env \<Rightarrow> sref \<Rightarrow> ('p, 'f) sfu_manager \<Rightarrow> ('p, 'f) sfu_manager" where
  "sync_viewer env s m =
     (case synchronizeViewerTracks env False s m of
        (m1, None) \<Rightarrow> m1
      | (m1, Some e) \<Rightarrow> sfu_scheduleFail s ''stream WebRTC renegotiation failed'' m1)"

definition synchronizeViewers :: "('p, 'f) sfu_env \<Rightarrow> rref \<Rightarrow> ('p, 'f) sfu_manager \<Rightarrow> ('p, 'f) sfu_manager" where
  "synchronizeViewers env r m = fold (sync_viewer env) (viewerSnapshot (xm_roomHeap m r)) m"

definition disconnectViewersForRendition :: "rref \<Rightarrow> string \<Rightarrow> string \<Rightarrow> ('p, 'f) sfu_manager \<Rightarrow> ('p, 'f) sfu_manager" where
  "disconnectViewersForRendition r renditionID reason m =
     fold (\<lambda>v m. if xs_selectedRenditionID (sess m v) = renditionID then sfu_scheduleFail v reason m else m)
       (viewerSnapshot (xm_roomHeap m r)) m"

definition sfu_restartICE ::
  "('p, 'f) sfu_env \<Rightarrow> sref \<Rightarrow> ('p, 'f) sfu_manager \<Rightarrow> ('p, 'f) sfu_manager \<times> sfu_error option" where
  "sfu_restartICE env s m =
     (let x = sess m s in
      if xs_closed x then (m, Some SfuSessionNotFound)
      else if \<not> pn_Stable (se_pion env) (xs_peer x) then
        (on_session s (\<lambda>x. x\<lparr> xs_iceRestartPending := True \<rparr>) m, None)
      else (case sfu_createOfferLocked env True s m of
              (m1, Inl e) \<Rightarrow> (m1, Some e)
            | (m1, Inr sdp) \<Rightarrow> (sfu_sendOffer env s sdp m1, None)))"

definition sfu_addICECandidate ::
  "('p, 'f) sfu_env \<Rightarrow> candidate \<Rightarrow> sref \<Rightarrow> ('p, 'f) sfu_manager \<Rightarrow> ('p, 'f) sfu_manager \<times> sfu_error option" where
  "sfu_addICECandidate env candidate s m =
     (let x = sess m s; pn = se_pion env in
      if cd_Candidate candidate = '''' then (m, Some (SfuText ''stream ICE candidate is required''))
      else if xs_closed x then (m, Some SfuSessionNotFound)
      else
        (case pn_RemoteDescription pn (xs_peer x) of
           Some sdp \<Rightarrow>
             if pn_Stable pn (xs_peer x) then
               (if \<not> candidateMatchesRemoteDescription sdp (cd_UsernameFragment candidate) then (m, None)
                else (let (p1, err) = pn_AddICECandidate pn candidate (xs_peer x) in
                      (on_session s (\<lambda>x. x\<lparr> xs_peer := p1 \<rparr>) m, map_option SfuText err)))
             else if length (xs_pendingCandidates x) \<ge> sfu_MaxPendingICECandidates then (m, Some SfuTooManyICECandidates)
             else (on_session s (\<lambda>x. x\<lparr> xs_pendingCandidates := xs_pendingCandidates x @ [candidate] \<rparr>) m, None)
         | None \<Rightarrow>
             if length (xs_pendingCandidates x) \<ge> sfu_MaxPendingICECandidates then (m, Some SfuTooManyICECandidates)
             else (on_session s (\<lambda>x. x\<lparr> xs_pendingCandidates := xs_pendingCandidates x @ [candidate] \<rparr>) m, None)))"

fun sfu_addICECandidates ::
  "('p, 'f) sfu_env \<Rightarrow> candidate list \<Rightarrow> sref \<Rightarrow> ('p, 'f) sfu_manager \<Rightarrow> ('p, 'f) sfu_manager \<times> sfu_error option" where
  "sfu_addICECandidates env [] s m = (m, None)"
| "sfu_addICECandidates env (c # cs) s m =
     (case sfu_addICECandidate env c s m of
        (m1, Some e) \<Rightarrow> (m1, Some e)
      | (m1, None) \<Rightarrow> sfu_addICECandidates env cs s m1)"

definition sfu_acceptAnswer ::
  "('p, 'f) sfu_env \<Rightarrow> string \<Rightarrow> sref \<Rightarrow> ('p, 'f) sfu_manager \<Rightarrow> ('p, 'f) sfu_manager \<times> sfu_error option" where
  "sfu_acceptAnswer env sdp s m =
     (let x = sess m s in
      if sdp = '''' then (m, Some (SfuText ''stream WebRTC answer SDP is required''))
      else if xs_closed x then (m, Some SfuSessionNotFound)
      else
        (case pn_SetRemoteDescription (se_pion env) sdp (xs_peer x) of
           (p1, Some e) \<Rightarrow> (on_session s (\<lambda>x. x\<lparr> xs_peer := p1 \<rparr>) m, Some (SfuText e))
         | (p1, None) \<Rightarrow>
             (let m1 = on_session s (\<lambda>x. x\<lparr> xs_peer := p1, xs_pendingCandidates := [], xs_offerStarted := None,
                    xs_handshake := HandshakeAnswer # xs_handshake x \<rparr>) m in
              case sfu_addICECandidates env (xs_pendingCandidates x) s m1 of
                (m2, Some e) \<Rightarrow> (m2, Some e)
              | (m2, None) \<Rightarrow>
                  if (xs_negotiationPending x \<or> xs_iceRestartPending x) \<and> xs_role x = SessionViewer
                  then synchronizeViewerTracks env False s m2
                  else if xs_iceRestartPending x then sfu_restartICE env s m2
                  else (m2, None))))"

definition sfu_close :: "('p, 'f) sfu_env \<Rightarrow> sref \<Rightarrow> ('p, 'f) sfu_manager \<Rightarrow> ('p, 'f) sfu_manager" where
  "sfu_close env s m =
     (if xs_closeOnce (sess m s) then m
      else on_session s (\<lambda>x. x\<lparr> xs_closeOnce := True, xs_closed := True,
             xs_handshake := HandshakeStop # xs_handshake x, xs_recoveryActive := False,
             xs_recovery := RecoveryStop # xs_recovery x, xs_peer := pn_Close (se_pion env) (xs_peer x) \<rparr>) m)"

definition sfu_startRecovery :: "bool \<Rightarrow> sref \<Rightarrow> ('p, 'f) sfu_manager \<Rightarrow> ('p, 'f) sfu_manager" where
  "sfu_startRecovery immediate s m =
     (if xs_closed (sess m s) then m
      else on_session s (\<lambda>x. x\<lparr> xs_recoveryActive := True, xs_recovery := RecoveryStart immediate # xs_recovery x \<rparr>) m)"

definition sfu_handleConnectionState :: "connection_state \<Rightarrow> sref \<Rightarrow> ('p, 'f) sfu_manager \<Rightarrow> ('p, 'f) sfu_manager" where
  "sfu_handleConnectionState state s m =
     (case state of
        StateConnected \<Rightarrow>
          (let m1 = on_session s (\<lambda>x. x\<lparr> xs_handshake := HandshakeStop # xs_handshake x,
                 xs_recovery := RecoveryStop # xs_recovery x, xs_recoveryActive := False \<rparr>) m in
           if xs_role (sess m1 s) = SessionViewer
           then room_requestKeyFrame (xs_room (sess m1 s)) (xs_selectedRenditionID (sess m1 s)) m1 else m1)
      | StateDisconnected \<Rightarrow> sfu_startRecovery False s m
      | StateFailed \<Rightarrow> sfu_startRecovery True s m
      | StateClosed \<Rightarrow>
          if \<not> xs_closed (sess m s) then sfu_scheduleFail s ''stream WebRTC connection closed'' m else m
      | _ \<Rightarrow> m)"

definition sfu_onICECandidate ::
  "('p, 'f) sfu_env \<Rightarrow> candidate option \<Rightarrow> sref \<Rightarrow> ('p, 'f) sfu_manager \<Rightarrow> ('p, 'f) sfu_manager" where
  "sfu_onICECandidate env candidate s m =
     (case candidate of
        None \<Rightarrow> m
      | Some v \<Rightarrow>
          if xs_closed (sess m s) then m
          else
            (let (m1, ok) = sfu_sink_call env (SendICECandidate (xs_connectionID (sess m s)) v) m in
             if ok then m1 else sfu_scheduleFail s ''stream signaling connection was lost'' m1))"

text \<open>Recovery asked for by a viewer.\<close>

definition cooled :: "int \<Rightarrow> int \<Rightarrow> int option \<Rightarrow> bool" where
  "cooled now cooldown previous \<longleftrightarrow> (case previous of None \<Rightarrow> True | Some t \<Rightarrow> \<not> now - t < cooldown)"

definition keyframeCooldown :: int where
  "keyframeCooldown = 2 * nanos"

definition iceCooldown :: int where
  "iceCooldown = 10 * nanos"

definition requestRecovery ::
  "('p, 'f) sfu_env \<Rightarrow> string \<Rightarrow> sref \<Rightarrow> ('p, 'f) sfu_manager \<Rightarrow> ('p, 'f) sfu_manager \<times> sfu_error option" where
  "requestRecovery env action s m =
     (if action = ''keyframe'' then
        (if \<not> cooled (xm_now m) keyframeCooldown (xs_lastKeyframeRequest (sess m s)) then (m, None)
         else
           (let m1 = on_session s (\<lambda>x. x\<lparr> xs_lastKeyframeRequest := Some (xm_now m) \<rparr>) m in
            (room_requestKeyFrame (xs_room (sess m1 s)) (xs_selectedRenditionID (sess m1 s)) m1, None)))
      else if action = ''ice_restart'' then
        (if \<not> cooled (xm_now m) iceCooldown (xs_lastICERestart (sess m s)) then (m, None)
         else sfu_restartICE env s (on_session s (\<lambda>x. x\<lparr> xs_lastICERestart := Some (xm_now m) \<rparr>) m))
      else (m, Some SfuRecoveryActionInvalid))"

subsection \<open>Leaving (manager.go)\<close>

text \<open>The section of \<^verbatim>\<open>leave\<close> under \<^verbatim>\<open>m.mu\<close>: None when it returns false, otherwise the sessions that are
  closed after it.\<close>

definition sfu_drop_session :: "sref \<Rightarrow> ('p, 'f) sfu_manager \<Rightarrow> ('p, 'f) sfu_manager" where
  "sfu_drop_session s m =
     on_session s (\<lambda>x. x\<lparr> xs_closed := True \<rparr>)
       (m\<lparr> xm_sessions := AList.delete (xs_connectionID (sess m s)) (xm_sessions m) \<rparr>)"

definition sfu_leave_locked ::
  "string \<Rightarrow> sref option \<Rightarrow> ('p, 'f) sfu_manager \<Rightarrow> (('p, 'f) sfu_manager \<times> sref list) option" where
  "sfu_leave_locked connectionID expected m =
     (case map_of (xm_sessions m) connectionID of
        None \<Rightarrow> None
      | Some s \<Rightarrow>
          if (case expected of None \<Rightarrow> False | Some e \<Rightarrow> s \<noteq> e) then None
          else
            (let r = xs_room (sess m s) in
             if xs_role (sess m s) = SessionPublisher then
               (let m1 = m\<lparr> xm_rooms := AList.delete (xr_publisherConnectionID (xm_roomHeap m r)) (xm_rooms m) \<rparr>;
                    (room1, values) = closeSnapshot (xm_roomHeap m1 r) in
                Some (fold sfu_drop_session values (on_room r (\<lambda>_. room1) m1), values))
             else
               Some (on_session s (\<lambda>x. x\<lparr> xs_closed := True \<rparr>)
                       (on_room r (removeViewer connectionID)
                         (m\<lparr> xm_sessions := AList.delete connectionID (xm_sessions m) \<rparr>)),
                     [s])))"

definition sfu_leave ::
  "('p, 'f) sfu_env \<Rightarrow> string \<Rightarrow> sref option \<Rightarrow> ('p, 'f) sfu_manager \<Rightarrow> ('p, 'f) sfu_manager \<times> bool" where
  "sfu_leave env connectionID expected m =
     (if connectionID = '''' then (m, False)
      else (case sfu_leave_locked connectionID expected m of
              None \<Rightarrow> (m, False)
            | Some (m1, values) \<Rightarrow> (fold (sfu_close env) values m1, True)))"

definition sfu_Leave :: "('p, 'f) sfu_env \<Rightarrow> string \<Rightarrow> ('p, 'f) sfu_manager \<Rightarrow> ('p, 'f) sfu_manager" where
  "sfu_Leave env connectionID m = fst (sfu_leave env connectionID None m)"

definition sfu_failSession :: "('p, 'f) sfu_env \<Rightarrow> sref \<Rightarrow> string \<Rightarrow> ('p, 'f) sfu_manager \<Rightarrow> ('p, 'f) sfu_manager" where
  "sfu_failSession env s reason m =
     (if s = nil then m
      else
        (let connectionID = xs_connectionID (sess m s);
             (m1, left) = sfu_leave env connectionID (Some s) m in
         if left then fst (sfu_sink_call env (OnFailure s connectionID reason) m1) else m1))"

definition sfu_recovery_exhausted :: "('p, 'f) sfu_env \<Rightarrow> sref \<Rightarrow> ('p, 'f) sfu_manager \<Rightarrow> ('p, 'f) sfu_manager" where
  "sfu_recovery_exhausted env s m =
     (if xs_closed (sess m s) \<or> pn_ConnectionState (se_pion env) (xs_peer (sess m s)) = StateConnected then m
      else sfu_failSession env s ''stream WebRTC recovery exhausted''
             (on_session s (\<lambda>x. x\<lparr> xs_recoveryActive := False \<rparr>) m))"

definition sfu_removeRoom :: "string \<Rightarrow> rref \<Rightarrow> ('p, 'f) sfu_manager \<Rightarrow> ('p, 'f) sfu_manager" where
  "sfu_removeRoom publisherConnectionID r m =
     (if map_of (xm_rooms m) publisherConnectionID = Some r
      then m\<lparr> xm_rooms := AList.delete publisherConnectionID (xm_rooms m) \<rparr> else m)"

definition sfu_Close :: "('p, 'f) sfu_env \<Rightarrow> ('p, 'f) sfu_manager \<Rightarrow> ('p, 'f) sfu_manager" where
  "sfu_Close env m =
     (if xm_closed m then m
      else fold (sfu_close env) (map snd (xm_sessions m)) (m\<lparr> xm_closed := True, xm_sessions := [], xm_rooms := [] \<rparr>))"

subsection \<open>Publishing (manager.go)\<close>

definition ingestCeilingKbps :: "int \<Rightarrow> int" where
  "ingestCeilingKbps kbps = kbps * 150 div 100"

definition sfu_newSession ::
  "('p, 'f) sfu_env \<Rightarrow> ('p, 'f) sfu_manager \<Rightarrow> rref \<Rightarrow> 'p \<Rightarrow> string \<Rightarrow> int \<Rightarrow> int \<Rightarrow> int \<Rightarrow> sessionRole \<Rightarrow> ('p, 'f) sfu_session" where
  "sfu_newSession env m streamRoom peer connectionID userID serverID channelID role =
     (let fl = se_float env in
      \<lparr> xs_room = streamRoom, xs_peer = peer, xs_connectionID = connectionID, xs_userID = userID,
         xs_serverID = serverID, xs_channelID = channelID, xs_role = role, xs_closed = False,
         xs_videoBitrate = newBitrateLimiter fl (ingestCeilingKbps (xm_maxVideoBitrateKbps m)) (fl_of_int fl 4) (xm_now m),
         xs_audioBitrate = newBitrateLimiter fl (ingestCeilingKbps (xm_maxStreamAudioBitrateKbps m)) (fl_of_int fl 4) (xm_now m),
         xs_videoSSRC = [], xs_selectedRenditionID = '''', xs_publisherTransceivers = [], xs_publisherMIDs = [],
         xs_lastKeyframeRequest = None, xs_lastICERestart = None, xs_keyframeGates = [], xs_offerStarted = None,
         xs_negotiationPending = False, xs_iceRestartPending = False, xs_pendingCandidates = [], xs_closeOnce = False,
         xs_recoveryActive = False, xs_handshake = [], xs_recovery = [], xs_rtcp = [] \<rparr>)"

definition legacySDRRendition :: "string \<Rightarrow> Rendition" where
  "legacySDRRendition codec =
     \<lparr> r_ID = ''sdr'', r_Codec = codec,
        r_Profile = (if codec = ''vp9'' then ''0'' else if codec = ''h264'' then ''baseline''
                     else if codec = ''av1'' then ''main'' else ''''),
        r_DynamicRange = ''sdr'', r_BitDepth = 8, r_ColorPrimaries = ''bt709'', r_Transfer = ''bt709'', r_Matrix = ''bt709'' \<rparr>"

definition sdrCodec :: "Rendition list \<Rightarrow> string" where
  "sdrCodec rs = (case find (\<lambda>r. r_DynamicRange r = ''sdr'') rs of None \<Rightarrow> '''' | Some r \<Rightarrow> r_Codec r)"

record start_args =
  sa_connectionID :: string
  sa_userID :: int
  sa_serverID :: int
  sa_channelID :: int
  sa_codec :: string
  sa_hasAudio :: bool
  sa_renditions :: "Rendition list"

definition start_check :: "('p, 'f) sfu_env \<Rightarrow> start_args \<Rightarrow> ('p, 'f) sfu_manager \<Rightarrow> sfu_error option" where
  "start_check env a m =
     (if sa_connectionID a = '''' \<or> sa_userID a \<le> 0 \<or> sa_serverID a \<le> 0 \<or> sa_channelID a \<le> 0 \<or>
         \<not> validStreamCodec (sa_codec a) \<or> \<not> ValidRenditions (sa_renditions a) \<or> sdrCodec (sa_renditions a) \<noteq> sa_codec a
      then Some (SfuText ''invalid stream identifiers'')
      else (case find (\<lambda>r. codecParametersForRendition (se_unicode env) (xm_videoCodecDescriptors m) r = []) (sa_renditions a) of
              None \<Rightarrow> None
            | Some r \<Rightarrow> Some (SfuText (''unsupported stream rendition '' @ [CHR 0x22] @ r_ID r @ [CHR 0x22]))))"

definition publishers_in :: "int \<Rightarrow> int \<Rightarrow> ('p, 'f) sfu_manager \<Rightarrow> nat" where
  "publishers_in serverID channelID m =
     length (filter (\<lambda>(c, r). xr_id (xm_roomHeap m r) = channelID \<and> xr_serverID (xm_roomHeap m r) = serverID) (xm_rooms m))"

definition start_register :: "start_args \<Rightarrow> ('p, 'f) sfu_manager \<Rightarrow> ('p, 'f) sfu_manager \<times> (sfu_error + rref)" where
  "start_register a m =
     (if xm_closed m then (m, Inl (SfuText ''stream manager is closed''))
      else if publishers_in (sa_serverID a) (sa_channelID a) m \<ge> MaxChannelPublishers then (m, Inl SfuPublisherLimit)
      else
        (let r = xm_nextRoom m;
             room = (newRoomWithRenditions (sa_channelID a) (sa_renditions a))
               \<lparr> xr_serverID := sa_serverID a, xr_publisherConnectionID := sa_connectionID a \<rparr> in
         (m\<lparr> xm_roomHeap := (xm_roomHeap m)(r := room), xm_nextRoom := Suc r,
             xm_rooms := AList.update (sa_connectionID a) r (xm_rooms m) \<rparr>, Inr r)))"

fun start_video ::
  "('p, 'f) sfu_env \<Rightarrow> videoCodecDescriptor list \<Rightarrow> Rendition list \<Rightarrow> 'p \<Rightarrow> (nat, string) gomap \<Rightarrow>
     sfu_error + ('p \<times> (nat, string) gomap)" where
  "start_video env ds [] p transceivers = Inr (p, transceivers)"
| "start_video env ds (rendition # rest) p transceivers =
     (case sp_AddTransceiver (se_peer env) KindVideo p of
        (p1, Inl e) \<Rightarrow> Inl (SfuWrap ''add incoming video transceiver: '' (SfuText e))
      | (p1, Inr t) \<Rightarrow>
          (case sp_SetCodecPreferences (se_peer env) t (codecParametersForRendition (se_unicode env) ds rendition) p1 of
             (p2, Some e) \<Rightarrow>
               Inl (SfuWrap (''prefer incoming '' @ r_Codec rendition @ '':'' @ r_Profile rendition @ '' stream codec: '') (SfuText e))
           | (p2, None) \<Rightarrow> start_video env ds rest p2 (AList.update t (r_ID rendition) transceivers)))"

definition start_peer ::
  "('p, 'f) sfu_env \<Rightarrow> nat \<Rightarrow> start_args \<Rightarrow> videoCodecDescriptor list \<Rightarrow> sfu_error + ('p \<times> (nat, string) gomap)" where
  "start_peer env n a ds =
     (case pn_NewPeerConnection (se_pion env) n of
        Inl e \<Rightarrow> Inl (SfuWrap ''create publisher peer connection: '' (SfuText e))
      | Inr p0 \<Rightarrow>
          (case start_video env ds (sa_renditions a) p0 [] of
             Inl e \<Rightarrow> Inl e
           | Inr (p1, transceivers) \<Rightarrow>
               if \<not> sa_hasAudio a then Inr (p1, transceivers)
               else (case sp_AddTransceiver (se_peer env) KindAudio p1 of
                       (p2, Inl e) \<Rightarrow> Inl (SfuWrap ''add incoming stream audio transceiver: '' (SfuText e))
                     | (p2, Inr t) \<Rightarrow> Inr (p2, transceivers))))"

text \<open>The new session becomes the publisher of its room; then the section that registers it.\<close>

definition start_publisher ::
  "('p, 'f) sfu_env \<Rightarrow> start_args \<Rightarrow> rref \<Rightarrow> 'p \<Rightarrow> (nat, string) gomap \<Rightarrow> ('p, 'f) sfu_manager \<Rightarrow>
     ('p, 'f) sfu_manager \<times> (sfu_error + sref)" where
  "start_publisher env a r peer transceivers m =
     (let s = xm_nextSession m;
          x = (sfu_newSession env m r peer (sa_connectionID a) (sa_userID a) (sa_serverID a) (sa_channelID a) SessionPublisher)
                \<lparr> xs_publisherTransceivers := transceivers \<rparr>;
          m1 = m\<lparr> xm_sessionHeap := (xm_sessionHeap m)(s := x), xm_nextSession := Suc s \<rparr>;
          (room1, ok) = setPublisher s (xm_roomHeap m1 r) in
      if ok then (on_room r (\<lambda>_. room1) m1, Inr s) else (m1, Inl SfuStreamExists))"

definition start_install ::
  "('p, 'f) sfu_env \<Rightarrow> start_args \<Rightarrow> rref \<Rightarrow> sref \<Rightarrow> ('p, 'f) sfu_manager \<Rightarrow> ('p, 'f) sfu_manager \<times> bool" where
  "start_install env a r s m =
     (if xm_closed m \<or> map_of (xm_rooms m) (sa_connectionID a) \<noteq> Some r
      then (on_session s (\<lambda>x. x\<lparr> xs_peer := pn_Close (se_pion env) (xs_peer x) \<rparr>) m, False)
      else (m\<lparr> xm_sessions := AList.update (sa_connectionID a) s (xm_sessions m) \<rparr>, True))"

definition start_finish ::
  "('p, 'f) sfu_env \<Rightarrow> start_args \<Rightarrow> sref \<Rightarrow> ('p, 'f) sfu_manager \<Rightarrow> ('p, 'f) sfu_manager \<times> sfu_error option" where
  "start_finish env a s m =
     (case createOffer env s m of
        (m1, None) \<Rightarrow> (m1, None)
      | (m1, Some e) \<Rightarrow> (sfu_Leave env (sa_connectionID a) m1, Some e))"

definition StartWithRenditions ::
  "('p, 'f) sfu_env \<Rightarrow> start_args \<Rightarrow> ('p, 'f) sfu_manager \<Rightarrow> ('p, 'f) sfu_manager \<times> sfu_error option" where
  "StartWithRenditions env a m =
     (case start_check env a m of
        Some e \<Rightarrow> (m, Some e)
      | None \<Rightarrow>
          (case start_register a (sfu_Leave env (sa_connectionID a) m) of
             (m1, Inl e) \<Rightarrow> (m1, Some e)
           | (m1, Inr r) \<Rightarrow>
               (case start_peer env (xm_nextSession m1) a (xm_videoCodecDescriptors m1) of
                  Inl e \<Rightarrow> (sfu_removeRoom (sa_connectionID a) r m1, Some e)
                | Inr (peer, transceivers) \<Rightarrow>
                    (case start_publisher env a r peer transceivers m1 of
                       (m2, Inl e) \<Rightarrow> (sfu_removeRoom (sa_connectionID a) r m2, Some e)
                     | (m2, Inr s) \<Rightarrow>
                         (case start_install env a r s m2 of
                            (m3, False) \<Rightarrow> (sfu_removeRoom (sa_connectionID a) r m3, Some (SfuText ''stream manager is closed''))
                          | (m3, True) \<Rightarrow> start_finish env a s m3)))))"

definition sfu_Start ::
  "('p, 'f) sfu_env \<Rightarrow> string \<Rightarrow> int \<Rightarrow> int \<Rightarrow> int \<Rightarrow> string \<Rightarrow> bool \<Rightarrow> ('p, 'f) sfu_manager \<Rightarrow>
     ('p, 'f) sfu_manager \<times> sfu_error option" where
  "sfu_Start env connectionID userID serverID channelID codec hasAudio m =
     StartWithRenditions env
       \<lparr> sa_connectionID = connectionID, sa_userID = userID, sa_serverID = serverID, sa_channelID = channelID,
          sa_codec = codec, sa_hasAudio = hasAudio, sa_renditions = [legacySDRRendition codec] \<rparr> m"

subsection \<open>Watching (manager.go)\<close>

fun first_room :: "('p, 'f) sfu_manager \<Rightarrow> int \<Rightarrow> int \<Rightarrow> (string, rref) gomap \<Rightarrow> rref option \<Rightarrow> rref option" where
  "first_room m serverID channelID [] selected = selected"
| "first_room m serverID channelID ((c, r) # rest) selected =
     first_room m serverID channelID rest
       (if xr_serverID (xm_roomHeap m r) = serverID \<and> xr_id (xm_roomHeap m r) = channelID \<and>
           (case selected of
              None \<Rightarrow> True
            | Some q \<Rightarrow> xr_publisherConnectionID (xm_roomHeap m r) < xr_publisherConnectionID (xm_roomHeap m q))
        then Some r else selected)"

definition findRoomLocked :: "int \<Rightarrow> int \<Rightarrow> string \<Rightarrow> ('p, 'f) sfu_manager \<Rightarrow> rref option" where
  "findRoomLocked serverID channelID publisherID m =
     (if publisherID \<noteq> '''' then
        (case map_of (xm_rooms m) publisherID of
           None \<Rightarrow> None
         | Some r \<Rightarrow>
             if xr_serverID (xm_roomHeap m r) = serverID \<and> xr_id (xm_roomHeap m r) = channelID then Some r else None)
      else first_room m serverID channelID (xm_rooms m) None)"

record watch_args =
  wa_connectionID :: string
  wa_userID :: int
  wa_serverID :: int
  wa_channelID :: int
  wa_publisherConnectionID :: string
  wa_selectedRenditionID :: string

definition watch_invalid :: "watch_args \<Rightarrow> bool" where
  "watch_invalid a \<longleftrightarrow>
     wa_connectionID a = '''' \<or> wa_userID a \<le> 0 \<or> wa_serverID a \<le> 0 \<or> wa_channelID a \<le> 0 \<or> wa_selectedRenditionID a = ''''"

definition watch_find :: "watch_args \<Rightarrow> ('p, 'f) sfu_manager \<Rightarrow> sfu_error + rref" where
  "watch_find a m =
     (let streamRoom = findRoomLocked (wa_serverID a) (wa_channelID a) (wa_publisherConnectionID a) m in
      if xm_closed m then Inl (SfuText ''stream manager is closed'')
      else (case streamRoom of
              None \<Rightarrow> Inl SfuStreamNotFound
            | Some r \<Rightarrow>
                if \<not> hasRendition (xm_roomHeap m r) (wa_selectedRenditionID a) then Inl SfuStreamNotFound else Inr r))"

definition watch_reserve :: "rref \<Rightarrow> ('p, 'f) sfu_manager \<Rightarrow> ('p, 'f) sfu_manager \<times> bool" where
  "watch_reserve r m =
     (let (room1, ok) = reserveViewer (xm_maxViewers m) (xm_roomHeap m r) in
      (if ok then on_room r (\<lambda>_. room1) m else m, ok))"

definition watch_install ::
  "('p, 'f) sfu_env \<Rightarrow> watch_args \<Rightarrow> rref \<Rightarrow> 'p \<Rightarrow> ('p, 'f) sfu_manager \<Rightarrow> ('p, 'f) sfu_manager \<times> sref option" where
  "watch_install env a r peer m =
     (if xm_closed m \<or> map_of (xm_rooms m) (xr_publisherConnectionID (xm_roomHeap m r)) \<noteq> Some r then (m, None)
      else
        (let s = xm_nextSession m;
             x = (sfu_newSession env m r peer (wa_connectionID a) (wa_userID a) (wa_serverID a) (wa_channelID a) SessionViewer)
                   \<lparr> xs_selectedRenditionID := wa_selectedRenditionID a \<rparr>;
             m1 = m\<lparr> xm_sessionHeap := (xm_sessionHeap m)(s := x), xm_nextSession := Suc s,
                     xm_sessions := AList.update (wa_connectionID a) s (xm_sessions m) \<rparr> in
         (on_room r (addViewer (wa_connectionID a) s) m1, Some s)))"

definition watch_cancel :: "rref \<Rightarrow> ('p, 'f) sfu_manager \<Rightarrow> ('p, 'f) sfu_manager" where
  "watch_cancel r m = on_room r cancelViewerReservation m"

definition watch_finish ::
  "('p, 'f) sfu_env \<Rightarrow> watch_args \<Rightarrow> sref \<Rightarrow> ('p, 'f) sfu_manager \<Rightarrow> ('p, 'f) sfu_manager \<times> sfu_error option" where
  "watch_finish env a s m =
     (case synchronizeViewerTracks env True s m of
        (m1, None) \<Rightarrow> (m1, None)
      | (m1, Some e) \<Rightarrow> (sfu_Leave env (wa_connectionID a) m1, Some e))"

definition WatchRenditionForPublisher ::
  "('p, 'f) sfu_env \<Rightarrow> watch_args \<Rightarrow> ('p, 'f) sfu_manager \<Rightarrow> ('p, 'f) sfu_manager \<times> sfu_error option" where
  "WatchRenditionForPublisher env a m =
     (if watch_invalid a then (m, Some (SfuText ''invalid stream identifiers''))
      else
        (let m0 = sfu_Leave env (wa_connectionID a) m in
         case watch_find a m0 of
           Inl e \<Rightarrow> (m0, Some e)
         | Inr r \<Rightarrow>
             (case watch_reserve r m0 of
                (m1, False) \<Rightarrow> (m1, Some SfuViewerLimit)
              | (m1, True) \<Rightarrow>
                  (case pn_NewPeerConnection (se_pion env) (xm_nextSession m1) of
                     Inl e \<Rightarrow> (watch_cancel r m1, Some (SfuWrap ''create viewer peer connection: '' (SfuText e)))
                   | Inr peer \<Rightarrow>
                       (case watch_install env a r peer m1 of
                          (m2, None) \<Rightarrow> (watch_cancel r m2, Some SfuStreamNotFound)
                        | (m2, Some s) \<Rightarrow> watch_finish env a s m2)))))"

definition sfu_Watch ::
  "('p, 'f) sfu_env \<Rightarrow> string \<Rightarrow> int \<Rightarrow> int \<Rightarrow> int \<Rightarrow> ('p, 'f) sfu_manager \<Rightarrow> ('p, 'f) sfu_manager \<times> sfu_error option" where
  "sfu_Watch env connectionID userID serverID channelID m =
     (let (publisherID, selected) =
            (case findRoomLocked serverID channelID '''' m of
               None \<Rightarrow> ('''', ''sdr'')
             | Some r \<Rightarrow> (xr_publisherConnectionID (xm_roomHeap m r), defaultSDRRenditionID (xm_roomHeap m r))) in
      WatchRenditionForPublisher env
        \<lparr> wa_connectionID = connectionID, wa_userID = userID, wa_serverID = serverID, wa_channelID = channelID,
           wa_publisherConnectionID = publisherID, wa_selectedRenditionID = selected \<rparr> m)"

definition sfu_WatchRendition ::
  "('p, 'f) sfu_env \<Rightarrow> string \<Rightarrow> int \<Rightarrow> int \<Rightarrow> int \<Rightarrow> string \<Rightarrow> ('p, 'f) sfu_manager \<Rightarrow> ('p, 'f) sfu_manager \<times> sfu_error option" where
  "sfu_WatchRendition env connectionID userID serverID channelID selected m =
     WatchRenditionForPublisher env
       \<lparr> wa_connectionID = connectionID, wa_userID = userID, wa_serverID = serverID, wa_channelID = channelID,
          wa_publisherConnectionID = '''', wa_selectedRenditionID = selected \<rparr> m"

subsection \<open>Other calls (manager.go)\<close>

definition sfu_session_of :: "string \<Rightarrow> ('p, 'f) sfu_manager \<Rightarrow> sref option" where
  "sfu_session_of connectionID m = map_of (xm_sessions m) connectionID"

definition sfu_AcceptAnswer ::
  "('p, 'f) sfu_env \<Rightarrow> string \<Rightarrow> string \<Rightarrow> ('p, 'f) sfu_manager \<Rightarrow> ('p, 'f) sfu_manager \<times> sfu_error option" where
  "sfu_AcceptAnswer env connectionID sdp m =
     (case sfu_session_of connectionID m of
        None \<Rightarrow> (m, Some SfuSessionNotFound)
      | Some s \<Rightarrow> sfu_acceptAnswer env sdp s m)"

definition sfu_AddICECandidate ::
  "('p, 'f) sfu_env \<Rightarrow> string \<Rightarrow> candidate \<Rightarrow> ('p, 'f) sfu_manager \<Rightarrow> ('p, 'f) sfu_manager \<times> sfu_error option" where
  "sfu_AddICECandidate env connectionID candidate m =
     (case sfu_session_of connectionID m of
        None \<Rightarrow> (m, Some SfuSessionNotFound)
      | Some s \<Rightarrow> sfu_addICECandidate env candidate s m)"

definition sfu_RequestRecovery ::
  "('p, 'f) sfu_env \<Rightarrow> string \<Rightarrow> string \<Rightarrow> ('p, 'f) sfu_manager \<Rightarrow> ('p, 'f) sfu_manager \<times> sfu_error option" where
  "sfu_RequestRecovery env connectionID action m =
     (if action \<noteq> ''keyframe'' \<and> action \<noteq> ''ice_restart'' then (m, Some SfuRecoveryActionInvalid)
      else (case sfu_session_of connectionID m of
              None \<Rightarrow> (m, Some SfuSessionNotFound)
            | Some s \<Rightarrow>
                if xs_role (sess m s) \<noteq> SessionViewer then (m, Some (SfuText ''stream recovery requires a viewer session''))
                else requestRecovery env action s m))"

definition sfu_Stats :: "('p, 'f) sfu_env \<Rightarrow> ('p, 'f) sfu_manager \<Rightarrow> (string, nat) gomap" where
  "sfu_Stats env m =
     [(''rooms'', length (xm_rooms m)), (''peers'', length (xm_sessions m)),
      (''senders'', sum_list (map (\<lambda>(c, s). length (filter (\<lambda>(h, t). t \<noteq> None)
         (pn_GetSenders (se_pion env) (xs_peer (sess m s))))) (xm_sessions m)))]"

subsection \<open>Forwarding (session.go)\<close>

record sfu_remote = \<comment> \<open>the remote track of the publisher and the MID of its transceiver\<close>
  rx_kind :: rtp_kind
  rx_codec :: codec_capability
  rx_ssrc :: "32 word"
  rx_mid :: string

text \<open>\<^verbatim>\<open>forwardTrack\<close> up to its loop: the key and the relay track it now forwards, or None when it
  returns at once.\<close>

definition forward_relay :: "sfu_remote \<Rightarrow> Rendition \<Rightarrow> sref \<Rightarrow> ('p, 'f) sfu_manager \<Rightarrow> ('p, 'f) sfu_manager" where
  "forward_relay remote rendition s m =
     (let trackName = (if rx_kind remote = KindAudio then ''screen-audio'' else ''screen-video'');
          relay = newRelayTrack (rx_codec remote) (trackName @ ''-'' @ xs_connectionID (sess m s))
            (''stream-'' @ fmt_d (xs_channelID (sess m s))) rendition in
      m\<lparr> xm_trackHeap := (xm_trackHeap m)(xm_nextTrack m := relay), xm_nextTrack := Suc (xm_nextTrack m) \<rparr>)"

text \<open>Publishing is the section of \<^verbatim>\<open>addTrack\<close>. When it succeeds, the first key frame of a video track
  (\<open>forward_announce\<close>) and \<^verbatim>\<open>synchronizeViewers\<close> follow, one viewer at a time and with other calls in
  between: \<open>sync_viewer\<close> is a step of its own.\<close>

definition forward_publish ::
  "('p, 'f) sfu_env \<Rightarrow> sfu_remote \<Rightarrow> roomTrackKey \<Rightarrow> Rendition \<Rightarrow> sref \<Rightarrow> ('p, 'f) sfu_manager \<Rightarrow>
     ('p, 'f) sfu_manager \<times> (roomTrackKey \<times> nat) option" where
  "forward_publish env remote key rendition s m =
     (let t = xm_nextTrack m; r = xs_room (sess m s);
          m1 = forward_relay remote rendition s m;
          (room1, ok) = sfu_addTrack \<lparr> xt_key = key, xt_track = t, xt_codec = rx_codec remote, xt_rendition = rendition \<rparr> (xm_roomHeap m1 r) in
      if \<not> ok then (sfu_failSession env s ''duplicate stream media track'' m1, None)
      else (on_room r (\<lambda>_. room1) m1, Some (key, t)))"

definition forward_announce ::
  "sfu_remote \<Rightarrow> roomTrackKey \<Rightarrow> sref \<Rightarrow> ('p, 'f) sfu_manager \<Rightarrow> ('p, 'f) sfu_manager" where
  "forward_announce remote key s m =
     on_session s (\<lambda>x. x\<lparr> xs_videoSSRC := AList.update (fst key) (rx_ssrc remote) (xs_videoSSRC x) \<rparr>) m"

definition empty_rendition :: Rendition where
  "empty_rendition = \<lparr> r_ID = '''', r_Codec = '''', r_Profile = '''', r_DynamicRange = '''', r_BitDepth = 0,
     r_ColorPrimaries = '''', r_Transfer = '''', r_Matrix = '''' \<rparr>"

definition forwardTrack_start ::
  "('p, 'f) sfu_env \<Rightarrow> sfu_remote \<Rightarrow> sref \<Rightarrow> ('p, 'f) sfu_manager \<Rightarrow> ('p, 'f) sfu_manager \<times> (roomTrackKey \<times> nat) option" where
  "forwardTrack_start env remote s m =
     (let x = sess m s in
      if xs_closed x \<or> (rx_kind remote \<noteq> KindVideo \<and> rx_kind remote \<noteq> KindAudio) then (m, None)
      else if rx_kind remote = KindVideo then
        (let renditionID = get_or '''' (xs_publisherMIDs x) (rx_mid remote) in
         case map_of (xr_renditions (sess_room m s)) renditionID of
           None \<Rightarrow> (sfu_failSession env s ''publisher negotiated an unexpected stream rendition'' m, None)
         | Some rendition \<Rightarrow>
             if \<not> codecMatchesRendition (se_unicode env) (rx_codec remote) rendition
             then (sfu_failSession env s ''publisher negotiated an unexpected stream rendition'' m, None)
             else forward_publish env remote (renditionID, KindVideo) rendition s m)
      else forward_publish env remote ('''', KindAudio) empty_rendition s m)"

text \<open>Its deferred end: a video track is forgotten, then the room's entry is removed. What follows a
  removal, \<^verbatim>\<open>disconnectViewersForRendition\<close> for a video track and \<^verbatim>\<open>synchronizeViewers\<close> for an audio
  track, are steps of their own.\<close>

definition forwardTrack_forget :: "roomTrackKey \<Rightarrow> sref \<Rightarrow> ('p, 'f) sfu_manager \<Rightarrow> ('p, 'f) sfu_manager" where
  "forwardTrack_forget key s m =
     on_session s (\<lambda>x. x\<lparr> xs_videoSSRC := AList.delete (fst key) (xs_videoSSRC x) \<rparr>) m"

definition forwardTrack_end ::
  "roomTrackKey \<Rightarrow> nat \<Rightarrow> sref \<Rightarrow> ('p, 'f) sfu_manager \<Rightarrow> ('p, 'f) sfu_manager" where
  "forwardTrack_end key t s m =
     (let r = xs_room (sess m s); (room1, removed) = sfu_removeTrack key t (xm_roomHeap m r) in
      if removed then on_room r (\<lambda>_. room1) m else m)"

text \<open>One packet of its loop: does the loop go on (and the packet is relayed).\<close>

definition forwardTrack_packet ::
  "('p, 'f) sfu_env \<Rightarrow> roomTrackKey \<Rightarrow> int \<Rightarrow> sref \<Rightarrow> ('p, 'f) sfu_manager \<Rightarrow> ('p, 'f) sfu_manager \<times> bool" where
  "forwardTrack_packet env key payloadBytes s m =
     (if snd key = KindAudio then
        (let (l, ok) = bitrate_allow (se_float env) (xm_now m) payloadBytes (xs_audioBitrate (sess m s));
             m1 = on_session s (\<lambda>x. x\<lparr> xs_audioBitrate := l \<rparr>) m in
         if ok then (m1, True) else (sfu_scheduleFail s ''stream audio bitrate limit exceeded'' m1, False))
      else
        (let (l, ok) = bitrate_allow (se_float env) (xm_now m) payloadBytes (xs_videoBitrate (sess m s));
             m1 = on_session s (\<lambda>x. x\<lparr> xs_videoBitrate := l \<rparr>) m in
         if ok then (m1, True) else (sfu_scheduleFail s ''stream video bitrate limit exceeded'' m1, False)))"

end
