(* ===== verification/StreamSfuSync.thy ===== *)
theory StreamSfuSync
  imports StreamSfu
begin

text \<open>
  What the calls of the stream media server leave alone. \<open>still\<close> relates a state to one that differs
  only in the peers, timers, limiters and logs of sessions: who is registered, who watches whom and
  which tracks a room has is unchanged. With the laws of Pion, a viewer's peer sends exactly the tracks
  of the rendition it has selected, and the pending candidates of a session stay bounded.
\<close>

record session_view =
  sv_room :: rref
  sv_connectionID :: string
  sv_serverID :: int
  sv_channelID :: int
  sv_role :: sessionRole
  sv_closed :: bool
  sv_rendition :: string

definition view :: "('p, 'f) sfu_session \<Rightarrow> session_view" where
  "view x = \<lparr> sv_room = xs_room x, sv_connectionID = xs_connectionID x, sv_serverID = xs_serverID x,
     sv_channelID = xs_channelID x, sv_role = xs_role x, sv_closed = xs_closed x, sv_rendition = xs_selectedRenditionID x \<rparr>"

definition candidates_ok :: "('p, 'f) sfu_manager \<Rightarrow> bool" where
  "candidates_ok m \<longleftrightarrow> (\<forall>s. length (xs_pendingCandidates (sess m s)) \<le> sfu_MaxPendingICECandidates)"

definition still :: "('p, 'f) sfu_manager \<Rightarrow> ('p, 'f) sfu_manager \<Rightarrow> bool" where
  "still m m' \<longleftrightarrow>
     xm_roomHeap m' = xm_roomHeap m \<and> xm_trackHeap m' = xm_trackHeap m \<and>
     xm_nextRoom m' = xm_nextRoom m \<and> xm_nextSession m' = xm_nextSession m \<and> xm_nextTrack m' = xm_nextTrack m \<and>
     xm_rooms m' = xm_rooms m \<and> xm_sessions m' = xm_sessions m \<and> xm_closed m' = xm_closed m \<and>
     xm_maxViewers m' = xm_maxViewers m \<and> (\<forall>s. view (sess m' s) = view (sess m s)) \<and>
     (candidates_ok m \<longrightarrow> candidates_ok m')"

lemma still_refl [simp]: "still m m"
  by (simp add: still_def)

lemma still_trans [trans]: "still m m1 \<Longrightarrow> still m1 m2 \<Longrightarrow> still m m2"
  by (simp add: still_def)

lemma still_fst: "still m (fst r) \<Longrightarrow> r = (m1, x) \<Longrightarrow> still m m1"
  by simp

lemma still_fold: "(\<And>x m. still m (f x m)) \<Longrightarrow> still m (fold f xs m)"
  by (rule fold_inv) (auto intro: still_trans)

lemma still_on_session:
  assumes "\<And>x. view (f x) = view x"
    and "\<And>x. length (xs_pendingCandidates x) \<le> sfu_MaxPendingICECandidates \<Longrightarrow>
           length (xs_pendingCandidates (f x)) \<le> sfu_MaxPendingICECandidates"
  shows "still m (on_session s f m)"
  using assms by (auto simp: still_def on_session_def candidates_ok_def)

lemma still_set [simp]:
  "still m (on_session s (\<lambda>x. x\<lparr> xs_rtcp := ssrc # xs_rtcp x \<rparr>) m)"
  "still m (on_session s (\<lambda>x. x\<lparr> xs_keyframeGates := g x \<rparr>) m)"
  "still m (on_session s (\<lambda>x. x\<lparr> xs_peer := q x \<rparr>) m)"
  "still m (on_session s (\<lambda>x. x\<lparr> xs_peer := p, xs_negotiationPending := False, xs_iceRestartPending := False,
     xs_offerStarted := t, xs_handshake := h # xs_handshake x \<rparr>) m)"
  "still m (on_session s (\<lambda>x. x\<lparr> xs_publisherMIDs := mids \<rparr>) m)"
  "still m (on_session s (\<lambda>x. x\<lparr> xs_negotiationPending := b \<rparr>) m)"
  "still m (on_session s (\<lambda>x. x\<lparr> xs_iceRestartPending := b \<rparr>) m)"
  "still m (on_session s (\<lambda>x. x\<lparr> xs_lastKeyframeRequest := t \<rparr>) m)"
  "still m (on_session s (\<lambda>x. x\<lparr> xs_lastICERestart := t \<rparr>) m)"
  "still m (on_session s (\<lambda>x. x\<lparr> xs_recoveryActive := b \<rparr>) m)"
  "still m (on_session s (\<lambda>x. x\<lparr> xs_videoSSRC := v x \<rparr>) m)"
  "still m (on_session s (\<lambda>x. x\<lparr> xs_videoBitrate := l \<rparr>) m)"
  "still m (on_session s (\<lambda>x. x\<lparr> xs_audioBitrate := l \<rparr>) m)"
  "still m (on_session s (\<lambda>x. x\<lparr> xs_peer := p, xs_pendingCandidates := [], xs_offerStarted := None,
     xs_handshake := h # xs_handshake x \<rparr>) m)"
  "still m (on_session s (\<lambda>x. x\<lparr> xs_handshake := h # xs_handshake x, xs_recovery := rc # xs_recovery x,
     xs_recoveryActive := b \<rparr>) m)"
  "still m (on_session s (\<lambda>x. x\<lparr> xs_recoveryActive := b, xs_recovery := rc # xs_recovery x \<rparr>) m)"
  by (rule still_on_session; simp add: view_def)+

lemma still_log [simp]:
  "still m (m\<lparr> xm_tasks := ts \<rparr>)" "still m (m\<lparr> xm_flushes := fs \<rparr>)" "still m (m\<lparr> xm_now := now \<rparr>)"
  "still m (sfu_scheduleFail s reason m)" "still m (fst (sfu_sink_call env sig m))"
  by (simp_all add: still_def candidates_ok_def sfu_scheduleFail_def sfu_sink_call_def)

text \<open>Composition: a call that is still, followed by calls that are still.\<close>

lemma still_then: "still m m1 \<Longrightarrow> (\<And>m. still m (f m)) \<Longrightarrow> still m (f m1)"
  by (blast intro: still_trans)

subsection \<open>Key frames\<close>

lemma still_writeKeyFrameRequest [simp]: "still m (writeKeyFrameRequest renditionID s m)"
  by (simp add: writeKeyFrameRequest_def Let_def)

lemma still_requestKeyFrame [simp]: "still m (sfu_requestKeyFrame renditionID s m)"
proof -
  have "still m (sfu_requestKeyFrame renditionID s m) " if "\<not> xs_closed (sess m s)" "videoSSRCFor (sess m s) renditionID \<noteq> 0"
  proof -
    obtain g act where g: "gate_request publisherKeyFrameInterval (xm_now m)
        (get_or new_gate (xs_keyframeGates (sess m s)) renditionID) = (g, act)" by fastforce
    let ?m = "on_session s (\<lambda>x. x\<lparr> xs_keyframeGates := AList.update renditionID g (xs_keyframeGates x) \<rparr>) m"
    have "still m ?m" by simp
    from still_trans[OF this still_writeKeyFrameRequest] still_trans[OF this still_log(2)] this
    show ?thesis using that g by (auto simp: sfu_requestKeyFrame_def Let_def split: gate_action.split)
  qed
  then show ?thesis by (auto simp: sfu_requestKeyFrame_def)
qed

lemma still_flushKeyFrame [simp]: "still m (flushKeyFrame renditionID s m)"
  by (auto simp: flushKeyFrame_def split: option.split prod.split intro: still_trans[OF _ still_writeKeyFrameRequest])

lemma still_room_requestKeyFrame [simp]: "still m (room_requestKeyFrame r renditionID m)"
  by (simp add: room_requestKeyFrame_def split: option.split)

subsection \<open>Negotiation\<close>

lemma still_createOfferLocked [simp]: "still m (fst (sfu_createOfferLocked env restart s m))"
  by (simp add: sfu_createOfferLocked_def Let_def split_beta split: sum.split option.split)

lemma still_sendOffer [simp]: "still m (sfu_sendOffer env s sdp m)"
  by (auto simp: sfu_sendOffer_def Let_def split_beta intro: still_trans[OF still_log(5) still_log(4)])

text \<open>An offer is made, then sent.\<close>

lemma still_offer [simp]:
  "still m (fst (case sfu_createOfferLocked env restart s m of
     (m1, Inl e) \<Rightarrow> (m1, Some e) | (m1, Inr sdp) \<Rightarrow> (sfu_sendOffer env s sdp m1, None)))"
  by (auto split: prod.split sum.split dest: still_fst[OF still_createOfferLocked] intro: still_trans[OF _ still_sendOffer])

lemma still_bindPublisherMIDs [simp]: "still m (fst (bindPublisherMIDs env s m))"
  by (simp add: bindPublisherMIDs_def split: sum.split)

lemma still_createOffer [simp]: "still m (fst (createOffer env s m))"
proof (cases "sfu_createOfferLocked env False s m")
  case (Pair m1 offer)
  then have 1: "still m m1" by (rule still_fst[OF still_createOfferLocked])
  obtain m2 e where b: "(if xs_role (sess m1 s) = SessionPublisher then bindPublisherMIDs env s m1 else (m1, None)) = (m2, e)"
    by fastforce
  then have "still m m2" using 1 by (auto split: if_splits dest: still_fst[OF still_bindPublisherMIDs] intro: still_trans)
  with 1 show ?thesis
    by (auto simp: createOffer_def Pair b split: sum.split option.split intro: still_trans[OF _ still_sendOffer])
qed

lemma still_offer_if_needed [simp]: "still m (fst (sfu_offer_if_needed env needed s m))"
  by (simp add: sfu_offer_if_needed_def Let_def)

lemma still_restartICE [simp]: "still m (fst (sfu_restartICE env s m))"
  by (simp add: sfu_restartICE_def Let_def)

lemma still_synchronizeViewerTracks [simp]: "still m (fst (synchronizeViewerTracks env force s m))"
  by (auto simp: synchronizeViewerTracks_def Let_def split_beta split: option.split
      intro: still_trans[OF still_set(3) still_offer_if_needed])

lemma still_sync_viewer [simp]: "still m (sync_viewer env s m)"
  by (auto simp: sync_viewer_def split: prod.split option.split dest: still_fst[OF still_synchronizeViewerTracks]
      intro: still_trans[OF _ still_log(4)])

lemma still_synchronizeViewers [simp]: "still m (synchronizeViewers env r m)"
  unfolding synchronizeViewers_def by (rule still_fold) simp

lemma still_disconnectViewers [simp]: "still m (disconnectViewersForRendition r renditionID reason m)"
  unfolding disconnectViewersForRendition_def by (rule still_fold) simp

lemma still_addICECandidate [simp]: "still m (fst (sfu_addICECandidate env candidate s m))"
proof -
  have "still m (on_session s (\<lambda>x. x\<lparr> xs_pendingCandidates := xs_pendingCandidates x @ [candidate] \<rparr>) m)"
    if "length (xs_pendingCandidates (sess m s)) < sfu_MaxPendingICECandidates"
    using that by (auto simp: still_def on_session_def candidates_ok_def view_def)
  then show ?thesis
    by (auto simp: sfu_addICECandidate_def Let_def split_beta not_le split: option.split)
qed

lemma still_addICECandidates [simp]: "still m (fst (sfu_addICECandidates env candidates s m))"
proof (induction candidates arbitrary: m)
  case (Cons c cs)
  show ?case
    using Cons by (auto split: prod.split option.split dest: still_fst[OF still_addICECandidate] intro: still_trans)
qed simp

lemma still_after_candidates:
  assumes "still m m1"
  shows "still m (fst (case sfu_addICECandidates env cs s m1 of
     (m2, Some e) \<Rightarrow> (m2, Some e)
   | (m2, None) \<Rightarrow>
       if a then synchronizeViewerTracks env False s m2 else if b then sfu_restartICE env s m2 else (m2, None)))"
proof -
  obtain m2 e where r: "sfu_addICECandidates env cs s m1 = (m2, e)" by fastforce
  have "still m m2" by (rule still_trans[OF assms still_fst[OF still_addICECandidates r]])
  then show ?thesis
    by (auto simp: r split: option.split intro: still_trans[OF _ still_synchronizeViewerTracks] still_trans[OF _ still_restartICE])
qed

lemma still_acceptAnswer [simp]: "still m (fst (sfu_acceptAnswer env sdp s m))"
proof -
  obtain p e where r: "pn_SetRemoteDescription (se_pion env) sdp (xs_peer (sess m s)) = (p, e)" by fastforce
  show ?thesis by (simp add: sfu_acceptAnswer_def Let_def r still_after_candidates[OF still_set(14)] split: option.split)
qed

lemma still_handleConnectionState [simp]: "still m (sfu_handleConnectionState state s m)"
  by (auto simp: sfu_handleConnectionState_def sfu_startRecovery_def Let_def split: connection_state.split
      intro: still_trans[OF still_set(15) still_room_requestKeyFrame])

lemma still_onICECandidate [simp]: "still m (sfu_onICECandidate env candidate s m)"
  by (auto simp: sfu_onICECandidate_def Let_def split_beta split: option.split
      intro: still_trans[OF still_log(5) still_log(4)])

lemma still_requestRecovery [simp]: "still m (fst (requestRecovery env action s m))"
  by (auto simp: requestRecovery_def Let_def
      intro: still_trans[OF still_set(8) still_room_requestKeyFrame] still_trans[OF still_set(9) still_restartICE])

lemma still_packet [simp]: "still m (fst (forwardTrack_packet env key n s m))"
  by (auto simp: forwardTrack_packet_def Let_def split_beta
      intro: still_trans[OF still_set(12) still_log(4)] still_trans[OF still_set(13) still_log(4)])

lemma still_manager_calls [simp]:
  "still m (fst (sfu_AcceptAnswer env c sdp m))"
  "still m (fst (sfu_AddICECandidate env c candidate m))"
  "still m (fst (sfu_RequestRecovery env c action m))"
  by (simp_all add: sfu_AcceptAnswer_def sfu_AddICECandidate_def sfu_RequestRecovery_def split: option.split)

end
