(* ===== verification/StreamRegistry.thy ===== *)
theory StreamRegistry
  imports StreamSfuSync
begin

text \<open>
  The registry of the stream media server: what its maps and rooms say about who publishes, who
  watches and how many places are taken, without peers, tracks, timers and logs. \<open>reg\<close> takes it from
  a state of the manager; each operation of the manager is one operation of the registry, or leaves
  it alone.
\<close>

record registry =
  g_room :: "rref \<Rightarrow> sfu_room"
  g_session :: "sref \<Rightarrow> session_view"
  g_nextRoom :: nat
  g_nextSession :: nat
  g_rooms :: "(string, rref) gomap"
  g_sessions :: "(string, sref) gomap"
  g_closed :: bool
  g_maxViewers :: int

definition shape :: "sfu_room \<Rightarrow> sfu_room" where
  "shape r = r\<lparr> xr_tracks := [] \<rparr>"

definition reg :: "('p, 'f) sfu_manager \<Rightarrow> registry" where
  "reg m = \<lparr> g_room = (\<lambda>r. shape (xm_roomHeap m r)), g_session = (\<lambda>s. view (sess m s)),
     g_nextRoom = xm_nextRoom m, g_nextSession = xm_nextSession m, g_rooms = xm_rooms m, g_sessions = xm_sessions m,
     g_closed = xm_closed m, g_maxViewers = xm_maxViewers m \<rparr>"

lemma still_reg: "still m m' \<Longrightarrow> reg m' = reg m"
  by (simp add: still_def reg_def)

lemma reg_sel [simp]:
  "g_room (reg m) r = shape (xm_roomHeap m r)" "g_session (reg m) s = view (sess m s)" "g_nextRoom (reg m) = xm_nextRoom m"
  "g_nextSession (reg m) = xm_nextSession m" "g_rooms (reg m) = xm_rooms m" "g_sessions (reg m) = xm_sessions m"
  "g_closed (reg m) = xm_closed m" "g_maxViewers (reg m) = xm_maxViewers m"
  by (simp_all add: reg_def)

lemma shape_sel [simp]:
  "xr_serverID (shape r) = xr_serverID r" "xr_publisherConnectionID (shape r) = xr_publisherConnectionID r"
  "xr_id (shape r) = xr_id r" "xr_renditions (shape r) = xr_renditions r" "xr_order (shape r) = xr_order r"
  "xr_publisher (shape r) = xr_publisher r" "xr_viewers (shape r) = xr_viewers r" "xr_reservations (shape r) = xr_reservations r"
  "xr_tracks (shape r) = []" "shape (r\<lparr> xr_tracks := ts \<rparr>) = shape r"
  "shape (r\<lparr> xr_publisher := p \<rparr>) = (shape r)\<lparr> xr_publisher := p \<rparr>"
  "shape (r\<lparr> xr_reservations := n \<rparr>) = (shape r)\<lparr> xr_reservations := n \<rparr>"
  by (simp_all add: shape_def)

lemma view_sel [simp]:
  "sv_room (view x) = xs_room x" "sv_connectionID (view x) = xs_connectionID x" "sv_serverID (view x) = xs_serverID x"
  "sv_channelID (view x) = xs_channelID x" "sv_role (view x) = xs_role x" "sv_closed (view x) = xs_closed x"
  "sv_rendition (view x) = xs_selectedRenditionID x"
  by (simp_all add: view_def)

lemma view_closed [simp]: "view (x\<lparr> xs_closed := b \<rparr>) = (view x)\<lparr> sv_closed := b \<rparr>"
  by (simp add: view_def)

lemma shape_room_ops [simp]:
  "shape (removeViewer c r) = removeViewer c (shape r)"
  "shape (addViewer c s r) = addViewer c s (shape r)"
  "shape (cancelViewerReservation r) = cancelViewerReservation (shape r)"
  "shape (fst (closeSnapshot r)) = fst (closeSnapshot (shape r))"
  "snd (closeSnapshot (shape r)) = snd (closeSnapshot r)"
  "shape (fst (reserveViewer n r)) = fst (reserveViewer n (shape r))"
  "snd (reserveViewer n (shape r)) = snd (reserveViewer n r)"
  "shape (fst (setPublisher s r)) = fst (setPublisher s (shape r))"
  "snd (setPublisher s (shape r)) = snd (setPublisher s r)"
  "shape (fst (sfu_addTrack t r)) = shape r"
  "shape (fst (sfu_removeTrack k tr r)) = shape r"
  "hasRendition (shape r) ident = hasRendition r ident"
  by (simp_all add: shape_def removeViewer_def addViewer_def cancelViewerReservation_def closeSnapshot_def reserveViewer_def
      setPublisher_def sfu_addTrack_def sfu_removeTrack_def hasRendition_def Let_def split: option.split)

subsection \<open>Operations of the registry\<close>

definition shut :: "sref list \<Rightarrow> registry \<Rightarrow> registry" where
  "shut vs g = g\<lparr> g_session := (\<lambda>s. (g_session g s)\<lparr> sv_closed := sv_closed (g_session g s) \<or> s \<in> set vs \<rparr>) \<rparr>"

definition unregister :: "sref list \<Rightarrow> registry \<Rightarrow> registry" where
  "unregister vs g = shut vs (g\<lparr> g_sessions := fold (\<lambda>s. AList.delete (sv_connectionID (g_session g s))) vs (g_sessions g) \<rparr>)"

definition put_room :: "rref \<Rightarrow> sfu_room \<Rightarrow> registry \<Rightarrow> registry" where
  "put_room r room g = g\<lparr> g_room := (g_room g)(r := room) \<rparr>"

text \<open>The session \<open>s\<close> of the connection leaves; with a publisher its whole room.\<close>

definition reg_leave :: "string \<Rightarrow> sref \<Rightarrow> registry \<Rightarrow> registry" where
  "reg_leave c s g =
     (let r = sv_room (g_session g s) in
      if sv_role (g_session g s) = SessionPublisher then
        unregister (snd (closeSnapshot (g_room g r)))
          (put_room r (fst (closeSnapshot (g_room g r)))
            (g\<lparr> g_rooms := AList.delete (xr_publisherConnectionID (g_room g r)) (g_rooms g) \<rparr>))
      else shut [s] (put_room r (removeViewer c (g_room g r)) (g\<lparr> g_sessions := AList.delete c (g_sessions g) \<rparr>)))"

subsection \<open>The operations of the manager\<close>

lemma reg_on_room: "reg (on_room r f m) = put_room r (shape (f (xm_roomHeap m r))) (reg m)"
  by (auto simp: reg_def on_room_def put_room_def)

lemma reg_upd [simp]:
  "reg (m\<lparr> xm_sessions := x \<rparr>) = (reg m)\<lparr> g_sessions := x \<rparr>" "reg (m\<lparr> xm_rooms := y \<rparr>) = (reg m)\<lparr> g_rooms := y \<rparr>"
  "reg (m\<lparr> xm_closed := b \<rparr>) = (reg m)\<lparr> g_closed := b \<rparr>"
  by (simp_all add: reg_def)

lemma reg_on_session_closed:
  assumes "\<And>x. view (f x) = (view x)\<lparr> sv_closed := True \<rparr>"
  shows "reg (on_session s f m) = shut [s] (reg m)"
  using assms by (auto simp: reg_def on_session_def shut_def)

lemma shut_shut: "shut vs (shut ws g) = shut (ws @ vs) g"
  by (simp add: shut_def disj_assoc)

lemma view_close [simp]: "(view x)\<lparr> sv_closed := xs_closed x \<rparr> = view x"
  by (simp add: view_def)

lemma reg_drop_session: "reg (sfu_drop_session s m) = unregister [s] (reg m)"
  by (simp add: sfu_drop_session_def unregister_def reg_on_session_closed)

lemma fold_unregister: "fold (\<lambda>s. unregister [s]) vs g = unregister vs g"
proof (induction vs arbitrary: g)
  case (Cons v vs)
  have "sv_connectionID (g_session (unregister [v] g) s) = sv_connectionID (g_session g s)" for s
    by (simp add: unregister_def shut_def)
  then show ?case using Cons by (auto simp: unregister_def shut_def)
qed (simp add: unregister_def shut_def)

lemma reg_fold: "(\<And>x m. reg (f x m) = h x (reg m)) \<Longrightarrow> reg (fold f xs m) = fold h xs (reg m)"
  by (induction xs arbitrary: m) simp_all

lemma reg_drop_sessions: "reg (fold sfu_drop_session vs m) = unregister vs (reg m)"
  using reg_fold[of sfu_drop_session "\<lambda>s. unregister [s]" vs m, OF reg_drop_session] by (simp only: fold_unregister)

text \<open>Closing a session twice does nothing, so the flag \<^verbatim>\<open>closed\<close> is what changes at most.\<close>

lemma reg_close: "reg (sfu_close env s m) = (if xs_closeOnce (sess m s) then reg m else shut [s] (reg m))"
  by (simp add: sfu_close_def reg_on_session_closed view_def)

lemma shut_closed: "sv_closed (g_session g s) \<Longrightarrow> shut [s] g = g"
  by (intro registry.equality ext session_view.equality) (auto simp: shut_def)

lemma reg_close_closed: "xs_closed (sess m s) \<Longrightarrow> reg (sfu_close env s m) = reg m"
  by (simp add: reg_close shut_closed)

lemma closed_close: "xs_closed (sess m s) \<Longrightarrow> xs_closed (sess (sfu_close env s' m) s)"
  by (simp add: sfu_close_def on_session_def)

lemma reg_close_all:
  assumes "\<forall>s \<in> set vs. xs_closed (sess m s)"
  shows "reg (fold (sfu_close env) vs m) = reg m"
  using assms
proof (induction vs arbitrary: m)
  case (Cons v vs)
  have "reg (fold (sfu_close env) vs (sfu_close env v m)) = reg (sfu_close env v m)"
    by (rule Cons.IH) (use Cons.prems in \<open>auto intro: closed_close\<close>)
  then show ?case using Cons.prems by (simp add: reg_close_closed)
qed simp

lemma closed_of_reg: "xs_closed (sess m s) \<longleftrightarrow> sv_closed (g_session (reg m) s)"
  by simp

lemma reg_leave_locked:
  assumes "sfu_leave_locked c e m = Some (m1, vs)" and "map_of (xm_sessions m) c = Some s"
  shows "reg m1 = reg_leave c s (reg m)" and "\<forall>v \<in> set vs. xs_closed (sess m1 v)" and "e = None \<or> e = Some s"
proof -
  show eq: "reg m1 = reg_leave c s (reg m)"
    using assms
    by (auto simp: sfu_leave_locked_def reg_leave_def Let_def reg_drop_sessions reg_on_room reg_on_session_closed split_beta
        split: option.splits if_splits)
  have "vs = (if sv_role (g_session (reg m) s) = SessionPublisher then snd (closeSnapshot (g_room (reg m) (xs_room (sess m s)))) else [s])"
    using assms by (auto simp: sfu_leave_locked_def Let_def split: if_splits option.splits prod.splits)
  then show "\<forall>v \<in> set vs. xs_closed (sess m1 v)"
    unfolding closed_of_reg eq by (auto simp: reg_leave_def unregister_def shut_def Let_def)
  show "e = None \<or> e = Some s"
    using assms by (auto simp: sfu_leave_locked_def Let_def split: if_splits option.splits prod.splits)
qed

lemma reg_sfu_leave:
  assumes "sfu_leave env c e m = (m', b)"
  shows "(b \<and> (\<exists>s. c \<noteq> '''' \<and> map_of (xm_sessions m) c = Some s \<and> (e = None \<or> e = Some s) \<and> reg m' = reg_leave c s (reg m))) \<or>
    (\<not> b \<and> m' = m \<and> (c = '''' \<or> e \<noteq> None \<or> map_of (xm_sessions m) c = None))"
proof (cases "sfu_leave_locked c e m")
  case None
  then show ?thesis using assms by (auto simp: sfu_leave_def sfu_leave_locked_def Let_def split: if_splits option.splits prod.splits)
next
  case (Some x)
  obtain m1 vs where x: "x = (m1, vs)" by fastforce
  from Some x obtain s where s: "map_of (xm_sessions m) c = Some s"
    by (auto simp: sfu_leave_locked_def split: option.splits)
  show ?thesis
    using assms Some x s reg_leave_locked[OF _ s, of e m1 vs] reg_close_all[of vs m1 env]
    by (auto simp: sfu_leave_def split: if_splits)
qed
text \<open>A session or the registry after \<open>leave\<close>, in one predicate.\<close>

definition left :: "('p, 'f) sfu_manager \<Rightarrow> ('p, 'f) sfu_manager \<Rightarrow> bool" where
  "left m m' \<longleftrightarrow> reg m' = reg m \<or> (\<exists>c s. map_of (xm_sessions m) c = Some s \<and> reg m' = reg_leave c s (reg m))"

lemma left_still: "still m m' \<Longrightarrow> left m m'"
  by (simp add: left_def still_reg)

lemma left_after: "reg m1 = reg m \<Longrightarrow> left m1 m' \<Longrightarrow> left m m'"
  unfolding left_def by (metis reg_sel(6))

lemma left_leave: "sfu_leave env c e m = (m', b) \<Longrightarrow> left m m'"
  using reg_sfu_leave[of env c e m m' b] by (auto simp: left_def)

lemma left_Leave: "left m (sfu_Leave env c m)"
  unfolding sfu_Leave_def by (rule left_leave[of env c None m _ "snd (sfu_leave env c None m)"]) simp

lemma left_failSession: "left m (sfu_failSession env s reason m)"
proof -
  obtain m1 b where r: "sfu_leave env (xs_connectionID (sess m s)) (Some s) m = (m1, b)" by fastforce
  have "reg (fst (sfu_sink_call env sig m1)) = reg m1" for sig by (simp add: still_reg)
  then show ?thesis using left_leave[OF r] by (auto simp: sfu_failSession_def Let_def r left_def)
qed

lemma left_recovery_exhausted: "left m (sfu_recovery_exhausted env s m)"
  by (simp add: sfu_recovery_exhausted_def left_still left_after[OF still_reg[OF still_set(10)] left_failSession])

lemma reg_removeRoom:
  "reg (sfu_removeRoom c r m) = (if map_of (xm_rooms m) c = Some r then (reg m)\<lparr> g_rooms := AList.delete c (xm_rooms m) \<rparr> else reg m)"
  by (simp add: sfu_removeRoom_def)

definition reg_register :: "start_args \<Rightarrow> registry \<Rightarrow> registry" where
  "reg_register a g =
     (put_room (g_nextRoom g) ((newRoomWithRenditions (sa_channelID a) (sa_renditions a))
         \<lparr> xr_serverID := sa_serverID a, xr_publisherConnectionID := sa_connectionID a \<rparr>) g)
       \<lparr> g_nextRoom := Suc (g_nextRoom g), g_rooms := AList.update (sa_connectionID a) (g_nextRoom g) (g_rooms g) \<rparr>"

definition reg_publishers :: "int \<Rightarrow> int \<Rightarrow> registry \<Rightarrow> nat" where
  "reg_publishers serverID channelID g =
     length (filter (\<lambda>(c, r). xr_id (g_room g r) = channelID \<and> xr_serverID (g_room g r) = serverID) (g_rooms g))"

lemma reg_publishers: "publishers_in serverID channelID m = reg_publishers serverID channelID (reg m)"
  by (simp add: publishers_in_def reg_publishers_def)

lemma reg_start_register:
  "start_register a m = (m', Inr r) \<Longrightarrow>
     \<not> xm_closed m \<and> r = xm_nextRoom m \<and> publishers_in (sa_serverID a) (sa_channelID a) m < MaxChannelPublishers \<and>
     reg m' = reg_register a (reg m)"
  "start_register a m = (m', Inl e) \<Longrightarrow> m' = m"
proof -
  have "shape (newRoomWithRenditions ch rs\<lparr> xr_serverID := i, xr_publisherConnectionID := c \<rparr>) =
      newRoomWithRenditions ch rs\<lparr> xr_serverID := i, xr_publisherConnectionID := c \<rparr>" for ch rs i c
    by (simp add: shape_def newRoomWithRenditions_def)
  then show "start_register a m = (m', Inr r) \<Longrightarrow>
     \<not> xm_closed m \<and> r = xm_nextRoom m \<and> publishers_in (sa_serverID a) (sa_channelID a) m < MaxChannelPublishers \<and>
     reg m' = reg_register a (reg m)"
    by (auto simp: start_register_def reg_register_def put_room_def Let_def reg_def split: if_splits)
qed (auto simp: start_register_def Let_def split: if_splits)

text \<open>A new session object.\<close>

definition put_session :: "session_view \<Rightarrow> registry \<Rightarrow> registry" where
  "put_session v g = g\<lparr> g_session := (g_session g)(g_nextSession g := v), g_nextSession := Suc (g_nextSession g) \<rparr>"

lemma reg_put_session:
  "reg (m\<lparr> xm_sessionHeap := (xm_sessionHeap m)(xm_nextSession m := x), xm_nextSession := Suc (xm_nextSession m) \<rparr>) =
     put_session (view x) (reg m)"
  by (auto simp: reg_def put_session_def)

definition publisher_view :: "start_args \<Rightarrow> rref \<Rightarrow> session_view" where
  "publisher_view a r = \<lparr> sv_room = r, sv_connectionID = sa_connectionID a, sv_serverID = sa_serverID a,
     sv_channelID = sa_channelID a, sv_role = SessionPublisher, sv_closed = False, sv_rendition = '''' \<rparr>"

definition viewer_view :: "watch_args \<Rightarrow> rref \<Rightarrow> session_view" where
  "viewer_view a r = \<lparr> sv_room = r, sv_connectionID = wa_connectionID a, sv_serverID = wa_serverID a,
     sv_channelID = wa_channelID a, sv_role = SessionViewer, sv_closed = False, sv_rendition = wa_selectedRenditionID a \<rparr>"

lemma reg_start_publisher:
  assumes "start_publisher env a r peer transceivers m = (m', res)"
  shows "(res = Inr (xm_nextSession m) \<and> xr_publisher (xm_roomHeap m r) = None \<and>
      reg m' = put_room r ((shape (xm_roomHeap m r))\<lparr> xr_publisher := Some (xm_nextSession m) \<rparr>) (put_session (publisher_view a r) (reg m))) \<or>
    (\<exists>e. res = Inl e \<and> xr_publisher (xm_roomHeap m r) \<noteq> None \<and> reg m' = put_session (publisher_view a r) (reg m))"
proof -
  let ?x = "(sfu_newSession env m r peer (sa_connectionID a) (sa_userID a) (sa_serverID a) (sa_channelID a) SessionPublisher)
      \<lparr> xs_publisherTransceivers := transceivers \<rparr>"
  have "view ?x = publisher_view a r" by (simp add: view_def publisher_view_def sfu_newSession_def Let_def)
  with assms reg_put_session[of m ?x] show ?thesis
    by (auto simp: start_publisher_def setPublisher_def Let_def reg_on_room split: if_splits)
qed

lemma reg_start_install:
  "start_install env a r s m = (m', True) \<Longrightarrow>
     \<not> xm_closed m \<and> map_of (xm_rooms m) (sa_connectionID a) = Some r \<and>
     reg m' = (reg m)\<lparr> g_sessions := AList.update (sa_connectionID a) s (xm_sessions m) \<rparr>"
  "start_install env a r s m = (m', False) \<Longrightarrow> reg m' = reg m \<and> (xm_closed m \<or> map_of (xm_rooms m) (sa_connectionID a) \<noteq> Some r)"
  by (auto simp: start_install_def still_reg split: if_splits)

lemma reg_watch_reserve:
  "watch_reserve r m = (m', True) \<Longrightarrow>
     int (length (xr_viewers (xm_roomHeap m r))) + xr_reservations (xm_roomHeap m r) < xm_maxViewers m \<and>
     reg m' = put_room r ((shape (xm_roomHeap m r))\<lparr> xr_reservations := xr_reservations (xm_roomHeap m r) + 1 \<rparr>) (reg m)"
  "watch_reserve r m = (m', False) \<Longrightarrow> m' = m"
  by (auto simp: watch_reserve_def reserveViewer_def reg_on_room split: if_splits)

lemma reg_watch_cancel: "reg (watch_cancel r m) = put_room r (cancelViewerReservation (shape (xm_roomHeap m r))) (reg m)"
  by (simp add: watch_cancel_def reg_on_room)

lemma reg_watch_install:
  "watch_install env a r peer m = (m', Some s) \<Longrightarrow>
     \<not> xm_closed m \<and> map_of (xm_rooms m) (xr_publisherConnectionID (xm_roomHeap m r)) = Some r \<and> s = xm_nextSession m \<and>
     reg m' = put_room r (addViewer (wa_connectionID a) s (shape (xm_roomHeap m r)))
       ((put_session (viewer_view a r) (reg m))\<lparr> g_sessions := AList.update (wa_connectionID a) s (xm_sessions m) \<rparr>)"
  "watch_install env a r peer m = (m', None) \<Longrightarrow> m' = m"
proof -
  let ?x = "(sfu_newSession env m r peer (wa_connectionID a) (wa_userID a) (wa_serverID a) (wa_channelID a) SessionViewer)
      \<lparr> xs_selectedRenditionID := wa_selectedRenditionID a \<rparr>"
  have v: "view ?x = viewer_view a r" by (simp add: view_def viewer_view_def sfu_newSession_def Let_def)
  have "reg (m\<lparr> xm_sessionHeap := (xm_sessionHeap m)(xm_nextSession m := ?x), xm_nextSession := Suc (xm_nextSession m),
      xm_sessions := y \<rparr>) = (put_session (viewer_view a r) (reg m))\<lparr> g_sessions := y \<rparr>" for y
    using reg_put_session[of m ?x] v reg_upd(1) by metis
  then show "watch_install env a r peer m = (m', Some s) \<Longrightarrow>
     \<not> xm_closed m \<and> map_of (xm_rooms m) (xr_publisherConnectionID (xm_roomHeap m r)) = Some r \<and> s = xm_nextSession m \<and>
     reg m' = put_room r (addViewer (wa_connectionID a) s (shape (xm_roomHeap m r)))
       ((put_session (viewer_view a r) (reg m))\<lparr> g_sessions := AList.update (wa_connectionID a) s (xm_sessions m) \<rparr>)"
    by (auto simp: watch_install_def Let_def reg_on_room split: if_splits)
qed (auto simp: watch_install_def Let_def split: if_splits)

lemma reg_fold_close:
  "\<exists>ws. set ws \<subseteq> set vs \<and> reg (fold (sfu_close env) vs m) = shut ws (reg m)"
proof (induction vs arbitrary: m)
  case Nil
  have "shut [] (reg m) = reg m" by (intro registry.equality ext session_view.equality) (auto simp: shut_def)
  then show ?case by auto
next
  case (Cons v vs)
  obtain ws where ws: "set ws \<subseteq> set vs" "reg (fold (sfu_close env) vs (sfu_close env v m)) = shut ws (reg (sfu_close env v m))"
    using Cons by blast
  show ?case
  proof (cases "xs_closeOnce (sess m v)")
    case True
    with ws show ?thesis by (intro exI[of _ ws]) (auto simp: reg_close)
  next
    case False
    with ws show ?thesis by (intro exI[of _ "[v] @ ws"]) (auto simp: reg_close shut_shut)
  qed
qed

lemma reg_Close:
  "reg (sfu_Close env m) = reg m \<and> xm_closed m \<or>
   (\<exists>ws. set ws \<subseteq> set (map snd (xm_sessions m)) \<and>
      reg (sfu_Close env m) = shut ws ((reg m)\<lparr> g_closed := True, g_sessions := [], g_rooms := [] \<rparr>))"
  using reg_fold_close[of "map snd (xm_sessions m)" env "m\<lparr> xm_closed := True, xm_sessions := [], xm_rooms := [] \<rparr>"]
  by (auto simp: sfu_Close_def)

subsection \<open>Tracks come and go\<close>

lemma put_same_room [simp]: "put_room r (shape (xm_roomHeap m r)) (reg m) = reg m"
  by (auto simp: put_room_def reg_def)

lemma reg_on_room_same: "shape (f (xm_roomHeap m r)) = shape (xm_roomHeap m r) \<Longrightarrow> reg (on_room r f m) = reg m"
  by (simp add: reg_on_room)

lemma reg_new_track [simp]: "reg (m\<lparr> xm_trackHeap := h, xm_nextTrack := n \<rparr>) = reg m"
  by (simp add: reg_def)

lemma reg_forward_relay [simp]: "reg (forward_relay remote rendition s m) = reg m"
  by (simp add: forward_relay_def Let_def)

lemma left_forward_publish: "left m (fst (forward_publish env remote key rendition s m))"
proof -
  let ?m1 = "forward_relay remote rendition s m" and ?r = "xs_room (sess m s)"
  let ?t = "\<lparr> xt_key = key, xt_track = xm_nextTrack m, xt_codec = rx_codec remote, xt_rendition = rendition \<rparr>"
  have fail: "left m (sfu_failSession env s reason ?m1)" for reason by (rule left_after[OF reg_forward_relay left_failSession])
  obtain room1 ok where add: "sfu_addTrack ?t (xm_roomHeap ?m1 ?r) = (room1, ok)" by fastforce
  have "reg (on_room ?r (\<lambda>_. room1) ?m1) = reg m"
    using shape_room_ops(10)[of ?t "xm_roomHeap ?m1 ?r"] add by (metis fst_conv reg_on_room_same reg_forward_relay)
  then have "left m (on_room ?r (\<lambda>_. room1) ?m1)" by (simp add: left_def)
  then show ?thesis by (simp add: forward_publish_def Let_def add fail)
qed

lemma left_forwardTrack_start: "left m (fst (forwardTrack_start env remote s m))"
  by (simp add: forwardTrack_start_def Let_def left_still left_forward_publish left_failSession split: option.split)

lemma reg_forwardTrack_end: "reg (forwardTrack_end key t s m) = reg m"
proof -
  obtain room1 removed where rm: "sfu_removeTrack key t (xm_roomHeap m (xs_room (sess m s))) = (room1, removed)" by fastforce
  have "reg (on_room (xs_room (sess m s)) (\<lambda>_. room1) m) = reg m"
    using shape_room_ops(11)[of key t "xm_roomHeap m (xs_room (sess m s))"] rm by (metis fst_conv reg_on_room_same)
  with rm show ?thesis by (simp add: forwardTrack_end_def Let_def)
qed

lemma still_forward_ssrc [simp]: "still m (forward_announce remote key s m)" "still m (forwardTrack_forget key s m)"
  by (simp_all add: forward_announce_def forwardTrack_forget_def)

end
