(* ===== verification/StreamSfuInv.thy ===== *)
theory StreamSfuInv
  imports StreamRegistry
begin

text \<open>
  Runs of the stream media server. Every goroutine inside \<^verbatim>\<open>StartWithRenditions\<close> or
  \<^verbatim>\<open>WatchRenditionForPublisher\<close> is at one of its sections (\<open>stream_pc\<close>); its steps interleave with
  those of the others and with every other call on the manager, its sessions and their callbacks. As
  for the voice server, one connection has one such call at a time: the handler takes the frames of a
  connection one after the other. The invariant ties the manager's maps, the rooms and the calls in
  flight together; it is stated on the registry.
\<close>

datatype 'p stream_pc =
    StartEntered start_args                 \<comment> \<open>after \<^verbatim>\<open>m.Leave\<close>\<close>
  | StartRegistered start_args rref
  | StartPublishing start_args rref sref    \<comment> \<open>after \<^verbatim>\<open>setPublisher\<close>\<close>
  | StartInstalled start_args sref
  | StartRemoving start_args rref           \<comment> \<open>before \<^verbatim>\<open>removeRoom\<close>\<close>
  | WatchEntered watch_args                 \<comment> \<open>after \<^verbatim>\<open>m.Leave\<close>\<close>
  | WatchFound watch_args rref
  | WatchReserved watch_args rref
  | WatchPeer watch_args rref 'p
  | WatchInstalled watch_args sref
  | WatchCancelling watch_args rref         \<comment> \<open>in the deferred function\<close>
  | Stream_returned

record ('p, 'f) stream_system =
  zy_manager :: "('p, 'f) sfu_manager"
  zy_calls :: "'p stream_pc list"

definition start_publish_step ::
  "('p, 'f) sfu_env \<Rightarrow> nat \<Rightarrow> start_args \<Rightarrow> rref \<Rightarrow> ('p, 'f) sfu_manager \<Rightarrow> ('p, 'f) sfu_manager \<times> 'p stream_pc" where
  "start_publish_step env n a r m =
     (case start_peer env n a (xm_videoCodecDescriptors m) of
        Inl e \<Rightarrow> (m, StartRemoving a r)
      | Inr (peer, transceivers) \<Rightarrow>
          (case start_publisher env a r peer transceivers m of
             (m1, Inl e) \<Rightarrow> (m1, StartRemoving a r)
           | (m1, Inr s) \<Rightarrow> (m1, StartPublishing a r s)))"

definition stream_next ::
  "('p, 'f) sfu_env \<Rightarrow> nat \<Rightarrow> 'p stream_pc \<Rightarrow> ('p, 'f) sfu_manager \<Rightarrow> ('p, 'f) sfu_manager \<times> 'p stream_pc" where
  "stream_next env n pc m =
     (case pc of
        StartEntered a \<Rightarrow>
          (case start_register a m of (m1, Inl e) \<Rightarrow> (m1, Stream_returned) | (m1, Inr r) \<Rightarrow> (m1, StartRegistered a r))
      | StartRegistered a r \<Rightarrow> start_publish_step env n a r m
      | StartPublishing a r s \<Rightarrow>
          (case start_install env a r s m of (m1, False) \<Rightarrow> (m1, StartRemoving a r) | (m1, True) \<Rightarrow> (m1, StartInstalled a s))
      | StartInstalled a s \<Rightarrow> (fst (start_finish env a s m), Stream_returned)
      | StartRemoving a r \<Rightarrow> (sfu_removeRoom (sa_connectionID a) r m, Stream_returned)
      | WatchEntered a \<Rightarrow> (case watch_find a m of Inl e \<Rightarrow> (m, Stream_returned) | Inr r \<Rightarrow> (m, WatchFound a r))
      | WatchFound a r \<Rightarrow>
          (case watch_reserve r m of (m1, False) \<Rightarrow> (m1, Stream_returned) | (m1, True) \<Rightarrow> (m1, WatchReserved a r))
      | WatchReserved a r \<Rightarrow>
          (case pn_NewPeerConnection (se_pion env) n of Inl e \<Rightarrow> (m, WatchCancelling a r) | Inr peer \<Rightarrow> (m, WatchPeer a r peer))
      | WatchPeer a r peer \<Rightarrow>
          (case watch_install env a r peer m of
             (m1, None) \<Rightarrow> (m1, WatchCancelling a r)
           | (m1, Some s) \<Rightarrow> (m1, WatchInstalled a s))
      | WatchInstalled a s \<Rightarrow> (fst (watch_finish env a s m), Stream_returned)
      | WatchCancelling a r \<Rightarrow> (watch_cancel r m, Stream_returned)
      | Stream_returned \<Rightarrow> (m, Stream_returned))"

fun spc_conn :: "'p stream_pc \<Rightarrow> string option" where
  "spc_conn (StartEntered a) = Some (sa_connectionID a)"
| "spc_conn (StartRegistered a r) = Some (sa_connectionID a)"
| "spc_conn (StartPublishing a r s) = Some (sa_connectionID a)"
| "spc_conn (StartInstalled a s) = Some (sa_connectionID a)"
| "spc_conn (StartRemoving a r) = Some (sa_connectionID a)"
| "spc_conn (WatchEntered a) = Some (wa_connectionID a)"
| "spc_conn (WatchFound a r) = Some (wa_connectionID a)"
| "spc_conn (WatchReserved a r) = Some (wa_connectionID a)"
| "spc_conn (WatchPeer a r p) = Some (wa_connectionID a)"
| "spc_conn (WatchInstalled a s) = Some (wa_connectionID a)"
| "spc_conn (WatchCancelling a r) = Some (wa_connectionID a)"
| "spc_conn Stream_returned = None"

text \<open>Every other call: requests of the handler and the hub, callbacks of Pion, tasks and timers.
  Only a publisher's peer has the callback for tracks.\<close>

inductive sfu_call :: "('p, 'f) sfu_env \<Rightarrow> ('p, 'f) sfu_manager \<Rightarrow> ('p, 'f) sfu_manager \<Rightarrow> bool"
  for env where
  do_Leave: "sfu_call env m (sfu_Leave env c m)"
| do_AcceptAnswer: "sfu_call env m (fst (sfu_AcceptAnswer env c sdp m))"
| do_AddICECandidate: "sfu_call env m (fst (sfu_AddICECandidate env c candidate m))"
| do_RequestRecovery: "sfu_call env m (fst (sfu_RequestRecovery env c action m))"
| do_Close: "sfu_call env m (sfu_Close env m)"
| do_task: "xm_tasks m = (s, reason) # rest \<Longrightarrow> sfu_call env m (sfu_failSession env s reason (m\<lparr> xm_tasks := rest \<rparr>))"
| do_deadline: "sfu_call env m (sfu_failSession env s reason m)"
| do_recovery: "sfu_call env m (fst (sfu_restartICE env s m))"
| do_recovery_over: "sfu_call env m (sfu_recovery_exhausted env s m)"
| do_candidate: "sfu_call env m (sfu_onICECandidate env candidate s m)"
| do_state: "sfu_call env m (sfu_handleConnectionState state s m)"
| do_track: "s < xm_nextSession m \<Longrightarrow> xs_role (sess m s) = SessionPublisher \<Longrightarrow>
    sfu_call env m (fst (forwardTrack_start env remote s m))"
| do_packet: "sfu_call env m (fst (forwardTrack_packet env key n s m))"
| do_announce: "sfu_call env m (forward_announce remote key s m)"
| do_forget: "sfu_call env m (forwardTrack_forget key s m)"
| do_track_end: "sfu_call env m (forwardTrack_end key t s m)"
| do_disconnect: "sfu_call env m (disconnectViewersForRendition r renditionID reason m)"
| do_resync: "sfu_call env m (sync_viewer env v m)"
| do_keyframe: "sfu_call env m (sfu_requestKeyFrame renditionID s m)"
| do_viewer_rtcp: "sfu_call env m (room_requestKeyFrame r renditionID m)"
| do_flush: "sfu_call env m (flushKeyFrame renditionID s m)"
| do_elapse: "xm_now m \<le> t \<Longrightarrow> sfu_call env m (m\<lparr> xm_now := t \<rparr>)"

inductive sfu_step :: "('p, 'f) sfu_env \<Rightarrow> ('p, 'f) stream_system \<Rightarrow> ('p, 'f) stream_system \<Rightarrow> bool"
  for env where
  enter_start: "start_check env a (zy_manager y) = None \<Longrightarrow>
     \<forall>pc \<in> set (zy_calls y). spc_conn pc \<noteq> Some (sa_connectionID a) \<Longrightarrow>
     sfu_step env y (y\<lparr> zy_manager := sfu_Leave env (sa_connectionID a) (zy_manager y),
                           zy_calls := zy_calls y @ [StartEntered a] \<rparr>)"
| enter_watch: "\<not> watch_invalid a \<Longrightarrow>
     \<forall>pc \<in> set (zy_calls y). spc_conn pc \<noteq> Some (wa_connectionID a) \<Longrightarrow>
     sfu_step env y (y\<lparr> zy_manager := sfu_Leave env (wa_connectionID a) (zy_manager y),
                           zy_calls := zy_calls y @ [WatchEntered a] \<rparr>)"
| step_next: "i < length (zy_calls y) \<Longrightarrow> stream_next env n (zy_calls y ! i) (zy_manager y) = (m', pc') \<Longrightarrow>
     sfu_step env y (y\<lparr> zy_manager := m', zy_calls := (zy_calls y)[i := pc'] \<rparr>)"
| step_call: "sfu_call env (zy_manager y) m' \<Longrightarrow> sfu_step env y (y\<lparr> zy_manager := m' \<rparr>)"

text \<open>A new manager.\<close>

definition new_stream_manager :: "int \<Rightarrow> int \<Rightarrow> int \<Rightarrow> int \<Rightarrow> ('p, 'f) sfu_session \<Rightarrow> relayTrack \<Rightarrow> ('p, 'f) sfu_manager" where
  "new_stream_manager maxViewers maxVideo maxAudio now blank track =
     \<lparr> xm_roomHeap = (\<lambda>_. newRoomWithRenditions 0 []), xm_sessionHeap = (\<lambda>_. blank\<lparr> xs_pendingCandidates := [] \<rparr>),
        xm_trackHeap = (\<lambda>_. track), xm_nextRoom = 1, xm_nextSession = 1, xm_nextTrack = 1,
        xm_videoCodecDescriptors = streamVideoCodecDescriptors, xm_rooms = [], xm_sessions = [], xm_closed = False,
        xm_maxViewers = maxViewers, xm_maxVideoBitrateKbps = maxVideo, xm_maxStreamAudioBitrateKbps = maxAudio,
        xm_tasks = [], xm_flushes = [], xm_signals = [], xm_now = now \<rparr>"

definition new_stream_system ::
  "int \<Rightarrow> int \<Rightarrow> int \<Rightarrow> int \<Rightarrow> ('p, 'f) sfu_session \<Rightarrow> relayTrack \<Rightarrow> ('p, 'f) stream_system" where
  "new_stream_system maxViewers maxVideo maxAudio now blank track =
     \<lparr> zy_manager = new_stream_manager maxViewers maxVideo maxAudio now blank track, zy_calls = [] \<rparr>"

subsection \<open>Invariant\<close>

text \<open>A registered session is open and is where the registry says it is.\<close>

definition sfu_seated :: "registry \<Rightarrow> string \<Rightarrow> sref \<Rightarrow> bool" where
  "sfu_seated g c s \<longleftrightarrow>
     (let v = g_session g s; r = sv_room v in
      0 < s \<and> s < g_nextSession g \<and> r < g_nextRoom g \<and> \<not> sv_closed v \<and> sv_connectionID v = c \<and>
      sv_serverID v = xr_serverID (g_room g r) \<and> sv_channelID v = xr_id (g_room g r) \<and>
      (case sv_role v of
         SessionPublisher \<Rightarrow> map_of (g_rooms g) c = Some r \<and> xr_publisher (g_room g r) = Some s
       | SessionViewer \<Rightarrow> map_of (xr_viewers (g_room g r)) c = Some s \<and> hasRendition (g_room g r) (sv_rendition v)))"

definition reg_ok :: "registry \<Rightarrow> bool" where
  "reg_ok g \<longleftrightarrow>
     0 < g_nextSession g \<and> distinct (map fst (g_rooms g)) \<and> distinct (map fst (g_sessions g)) \<and>
     (g_closed g \<longrightarrow> g_rooms g = [] \<and> g_sessions g = []) \<and>
     (\<forall>c r. map_of (g_rooms g) c = Some r \<longrightarrow> r < g_nextRoom g \<and> xr_publisherConnectionID (g_room g r) = c) \<and>
     (\<forall>c s. map_of (g_sessions g) c = Some s \<longrightarrow> sfu_seated g c s) \<and>
     (\<forall>r c s. map_of (xr_viewers (g_room g r)) c = Some s \<and> \<not> g_closed g \<longrightarrow>
        map_of (g_sessions g) c = Some s \<and> sv_room (g_session g s) = r \<and> sv_role (g_session g s) = SessionViewer) \<and>
     (\<forall>serverID channelID. reg_publishers serverID channelID g \<le> MaxChannelPublishers)"

text \<open>The calls in flight.\<close>

definition no_session :: "registry \<Rightarrow> string \<Rightarrow> bool" where
  "no_session g c \<longleftrightarrow> map_of (g_sessions g) c = None"

definition start_room :: "registry \<Rightarrow> start_args \<Rightarrow> rref \<Rightarrow> bool" where
  "start_room g a r \<longleftrightarrow>
     r < g_nextRoom g \<and> xr_publisherConnectionID (g_room g r) = sa_connectionID a \<and>
     xr_serverID (g_room g r) = sa_serverID a \<and> xr_id (g_room g r) = sa_channelID a \<and>
     (\<not> g_closed g \<longrightarrow> map_of (g_rooms g) (sa_connectionID a) = Some r)"

definition watch_room :: "registry \<Rightarrow> watch_args \<Rightarrow> rref \<Rightarrow> bool" where
  "watch_room g a r \<longleftrightarrow>
     r < g_nextRoom g \<and> xr_serverID (g_room g r) = wa_serverID a \<and> xr_id (g_room g r) = wa_channelID a \<and>
     hasRendition (g_room g r) (wa_selectedRenditionID a)"

fun spc_ok :: "registry \<Rightarrow> 'p stream_pc \<Rightarrow> bool" where
  "spc_ok g (StartEntered a) \<longleftrightarrow> no_session g (sa_connectionID a)"
| "spc_ok g (StartRegistered a r) \<longleftrightarrow> no_session g (sa_connectionID a) \<and> start_room g a r \<and> xr_publisher (g_room g r) = None"
| "spc_ok g (StartPublishing a r s) \<longleftrightarrow>
     no_session g (sa_connectionID a) \<and> start_room g a r \<and> xr_publisher (g_room g r) = Some s \<and> 0 < s \<and> s < g_nextSession g \<and>
     g_session g s = publisher_view a r"
| "spc_ok g (StartRemoving a r) \<longleftrightarrow> no_session g (sa_connectionID a) \<and> start_room g a r"
| "spc_ok g (WatchEntered a) \<longleftrightarrow> no_session g (wa_connectionID a)"
| "spc_ok g (WatchFound a r) \<longleftrightarrow> no_session g (wa_connectionID a) \<and> watch_room g a r"
| "spc_ok g (WatchReserved a r) \<longleftrightarrow> no_session g (wa_connectionID a) \<and> watch_room g a r"
| "spc_ok g (WatchPeer a r p) \<longleftrightarrow> no_session g (wa_connectionID a) \<and> watch_room g a r"
| "spc_ok g (WatchCancelling a r) \<longleftrightarrow> no_session g (wa_connectionID a) \<and> r < g_nextRoom g"
| "spc_ok g pc \<longleftrightarrow> True"

fun spc_seat :: "'p stream_pc \<Rightarrow> rref option" where
  "spc_seat (WatchReserved a r) = Some r"
| "spc_seat (WatchPeer a r p) = Some r"
| "spc_seat (WatchCancelling a r) = Some r"
| "spc_seat pc = None"

fun spc_room :: "'p stream_pc \<Rightarrow> (string \<times> rref) option" where
  "spc_room (StartRegistered a r) = Some (sa_connectionID a, r)"
| "spc_room (StartPublishing a r s) = Some (sa_connectionID a, r)"
| "spc_room (StartRemoving a r) = Some (sa_connectionID a, r)"
| "spc_room pc = None"

definition seats :: "rref \<Rightarrow> 'p stream_pc list \<Rightarrow> int" where
  "seats r pcs = int (length (filter (\<lambda>pc. spc_seat pc = Some r) pcs))"

definition unique_calls :: "'p stream_pc list \<Rightarrow> bool" where
  "unique_calls pcs \<longleftrightarrow>
     (\<forall>i < length pcs. \<forall>j < length pcs. \<forall>c. spc_conn (pcs ! i) = Some c \<and> spc_conn (pcs ! j) = Some c \<longrightarrow> i = j)"

definition places_ok :: "registry \<Rightarrow> 'p stream_pc list \<Rightarrow> rref \<Rightarrow> bool" where
  "places_ok g pcs r \<longleftrightarrow>
     distinct (map fst (xr_viewers (g_room g r))) \<and> xr_reservations (g_room g r) = seats r pcs \<and>
     int (length (xr_viewers (g_room g r))) + xr_reservations (g_room g r) \<le> g_maxViewers g"

text \<open>A registered room has its publisher, or the call that set it up is not over.\<close>

definition tended :: "registry \<Rightarrow> 'p stream_pc list \<Rightarrow> string \<Rightarrow> rref \<Rightarrow> bool" where
  "tended g pcs c r \<longleftrightarrow>
     (\<exists>s. map_of (g_sessions g) c = Some s \<and> sv_role (g_session g s) = SessionPublisher \<and> sv_room (g_session g s) = r) \<or>
     (\<exists>pc \<in> set pcs. spc_room pc = Some (c, r))"

definition calls_ok :: "registry \<Rightarrow> 'p stream_pc list \<Rightarrow> bool" where
  "calls_ok g pcs \<longleftrightarrow>
     0 \<le> g_maxViewers g \<and> (\<forall>r. places_ok g pcs r) \<and> unique_calls pcs \<and> (\<forall>pc \<in> set pcs. spc_ok g pc) \<and>
     (\<forall>c r. map_of (g_rooms g) c = Some r \<longrightarrow> tended g pcs c r)"

definition stream_ok :: "('p, 'f) stream_system \<Rightarrow> bool" where
  "stream_ok y \<longleftrightarrow> reg_ok (reg (zy_manager y)) \<and> calls_ok (reg (zy_manager y)) (zy_calls y) \<and> candidates_ok (zy_manager y)"

lemma new_stream_ok: "0 \<le> maxViewers \<Longrightarrow> stream_ok (new_stream_system maxViewers v a now blank track)"
  by (simp add: stream_ok_def new_stream_system_def new_stream_manager_def reg_ok_def calls_ok_def candidates_ok_def
      newRoomWithRenditions_def reg_publishers_def places_ok_def seats_def unique_calls_def)

end
