(* ===== verification/StreamSfuRun.thy ===== *)
theory StreamSfuRun
  imports StreamSfuInv
begin

text \<open>
  Every step of the stream media server keeps the invariant of \<open>StreamSfuInv\<close>.
\<close>

declare map_of_eq_Some_iff [simp del]

subsection \<open>Using the invariant\<close>

lemma reg_okD:
  assumes "reg_ok g"
  shows "0 < g_nextSession g" "distinct (map fst (g_rooms g))" "distinct (map fst (g_sessions g))"
    and "g_closed g \<Longrightarrow> g_rooms g = [] \<and> g_sessions g = []"
    and "map_of (g_rooms g) c = Some r \<Longrightarrow> r < g_nextRoom g"
    and "map_of (g_rooms g) c = Some r \<Longrightarrow> xr_publisherConnectionID (g_room g r) = c"
    and "map_of (g_sessions g) c = Some s \<Longrightarrow> sfu_seated g c s"
    and "map_of (xr_viewers (g_room g r)) c = Some s \<Longrightarrow> \<not> g_closed g \<Longrightarrow>
      map_of (g_sessions g) c = Some s \<and> sv_room (g_session g s) = r \<and> sv_role (g_session g s) = SessionViewer"
    and "reg_publishers serverID channelID g \<le> MaxChannelPublishers"
  using assms unfolding reg_ok_def by blast+

lemma reg_okI:
  assumes "0 < g_nextSession g" "distinct (map fst (g_rooms g))" "distinct (map fst (g_sessions g))"
    and "g_closed g \<Longrightarrow> g_rooms g = [] \<and> g_sessions g = []"
    and "\<And>c r. map_of (g_rooms g) c = Some r \<Longrightarrow> r < g_nextRoom g \<and> xr_publisherConnectionID (g_room g r) = c"
    and "\<And>c s. map_of (g_sessions g) c = Some s \<Longrightarrow> sfu_seated g c s"
    and "\<And>r c s. map_of (xr_viewers (g_room g r)) c = Some s \<Longrightarrow> \<not> g_closed g \<Longrightarrow>
      map_of (g_sessions g) c = Some s \<and> sv_room (g_session g s) = r \<and> sv_role (g_session g s) = SessionViewer"
    and "\<And>serverID channelID. reg_publishers serverID channelID g \<le> MaxChannelPublishers"
  shows "reg_ok g"
  using assms unfolding reg_ok_def by blast

lemma sfu_seatedD:
  assumes "sfu_seated g c s"
  shows "0 < s" "s < g_nextSession g" "sv_room (g_session g s) < g_nextRoom g" "\<not> sv_closed (g_session g s)"
    and "sv_connectionID (g_session g s) = c"
    and "sv_role (g_session g s) = SessionPublisher \<Longrightarrow>
      map_of (g_rooms g) c = Some (sv_room (g_session g s)) \<and> xr_publisher (g_room g (sv_room (g_session g s))) = Some s"
    and "sv_role (g_session g s) = SessionViewer \<Longrightarrow> map_of (xr_viewers (g_room g (sv_room (g_session g s)))) c = Some s"
  using assms unfolding sfu_seated_def by (auto simp: Let_def)

lemma calls_okD:
  assumes "calls_ok g pcs"
  shows "0 \<le> g_maxViewers g" "places_ok g pcs r" "unique_calls pcs" "pc \<in> set pcs \<Longrightarrow> spc_ok g pc"
    "map_of (g_rooms g) c = Some r \<Longrightarrow> tended g pcs c r"
  using assms unfolding calls_ok_def by blast+

lemma calls_okI:
  assumes "0 \<le> g_maxViewers g" "\<And>r. places_ok g pcs r" "unique_calls pcs" "\<And>pc. pc \<in> set pcs \<Longrightarrow> spc_ok g pc"
    "\<And>c r. map_of (g_rooms g) c = Some r \<Longrightarrow> tended g pcs c r"
  shows "calls_ok g pcs"
  using assms unfolding calls_ok_def by blast

text \<open>What never changes about a room.\<close>

definition room_sig :: "sfu_room \<Rightarrow> int \<times> string \<times> int \<times> (string, Rendition) gomap" where
  "room_sig r = (xr_serverID r, xr_publisherConnectionID r, xr_id r, xr_renditions r)"

lemma room_sigD:
  assumes "room_sig r' = room_sig r"
  shows "xr_serverID r' = xr_serverID r" "xr_publisherConnectionID r' = xr_publisherConnectionID r" "xr_id r' = xr_id r"
    "hasRendition r' ident = hasRendition r ident"
  using assms by (simp_all add: room_sig_def hasRendition_def)

fun spc_publisher :: "'p stream_pc \<Rightarrow> sref option" where
  "spc_publisher (StartPublishing a r s) = Some s"
| "spc_publisher pc = None"

lemma spc_ok_frame:
  assumes ok: "spc_ok g pc"
    and no_session: "\<And>c. spc_conn pc = Some c \<Longrightarrow> no_session g c \<Longrightarrow> no_session g' c"
    and mono: "g_nextRoom g \<le> g_nextRoom g'" "g_nextSession g \<le> g_nextSession g'"
    and sig: "\<And>r. r < g_nextRoom g \<Longrightarrow> room_sig (g_room g' r) = room_sig (g_room g r)"
    and publisher: "\<And>c r. spc_room pc = Some (c, r) \<Longrightarrow> xr_publisher (g_room g' r) = xr_publisher (g_room g r)"
    and rooms: "\<And>c r. spc_room pc = Some (c, r) \<Longrightarrow> \<not> g_closed g' \<Longrightarrow> \<not> g_closed g \<and> map_of (g_rooms g') c = map_of (g_rooms g) c"
    and session: "\<And>s. spc_publisher pc = Some s \<Longrightarrow> s < g_nextSession g \<Longrightarrow> g_session g' s = g_session g s"
  shows "spc_ok g' pc"
proof -
  have start: "start_room g' a r"
    if "start_room g a r" "spc_room pc = Some (sa_connectionID a, r)" for a r
  proof -
    have "r < g_nextRoom g" using that(1) by (simp add: start_room_def)
    from room_sigD[OF sig[OF this]] that mono(1) rooms[OF that(2)] show ?thesis by (auto simp: start_room_def)
  qed
  have watch: "watch_room g' a r" if "watch_room g a r" for a r
  proof -
    have "r < g_nextRoom g" using that(1) by (simp add: watch_room_def)
    from room_sigD[OF sig[OF this]] that mono(1) show ?thesis by (simp add: watch_room_def)
  qed
  show ?thesis
    using ok no_session start watch publisher session mono by (cases pc) auto
qed

subsection \<open>Leaving\<close>

definition leavers :: "registry \<Rightarrow> sref \<Rightarrow> sref list" where
  "leavers g s = (if sv_role (g_session g s) = SessionPublisher
     then snd (closeSnapshot (g_room g (sv_room (g_session g s)))) else [s])"

lemma map_of_fold_delete:
  "map_of (fold (\<lambda>s. AList.delete (f s)) vs m) c = (if c \<in> f ` set vs then None else map_of m c)"
  by (induction vs arbitrary: m) auto

lemma distinct_fold_delete:
  "distinct (map fst m) \<Longrightarrow> distinct (map fst (fold (\<lambda>s. AList.delete (f s)) vs m))"
  by (induction vs arbitrary: m) auto

lemma length_filter_delete: "length (filter P (AList.delete k m)) \<le> length (filter P m)"
  by (induction m) auto

text \<open>The room and the sessions that leave, for a registered session of an open manager.\<close>

lemma leavers_publisher:
  assumes ok: "reg_ok g" and s: "map_of (g_sessions g) c = Some s" and p: "sv_role (g_session g s) = SessionPublisher"
  shows "leavers g s = s # map snd (xr_viewers (g_room g (sv_room (g_session g s))))"
  using sfu_seatedD(6)[OF reg_okD(7)[OF ok s] p] by (simp add: leavers_def p closeSnapshot_def)

lemma open_if_registered: "reg_ok g \<Longrightarrow> map_of (g_sessions g) c = Some s \<Longrightarrow> \<not> g_closed g"
  using reg_okD(4) by fastforce

lemma leavers_iff:
  assumes ok: "reg_ok g" and s: "map_of (g_sessions g) c = Some s" and d: "distinct (map fst (xr_viewers (g_room g (sv_room (g_session g s)))))"
    and v: "map_of (g_sessions g) c' = Some v"
  shows "v \<in> set (leavers g s) \<longleftrightarrow>
    v = s \<or> sv_role (g_session g s) = SessionPublisher \<and> sv_role (g_session g v) = SessionViewer \<and>
      sv_room (g_session g v) = sv_room (g_session g s)"
proof (cases "sv_role (g_session g s) = SessionPublisher")
  case True
  let ?r = "sv_room (g_session g s)"
  note opn = open_if_registered[OF ok s]
  have "v \<in> snd ` set (xr_viewers (g_room g ?r)) \<longleftrightarrow> sv_role (g_session g v) = SessionViewer \<and> sv_room (g_session g v) = ?r"
  proof
    assume "v \<in> snd ` set (xr_viewers (g_room g ?r))"
    then obtain k where "map_of (xr_viewers (g_room g ?r)) k = Some v" using d by (auto simp: map_of_eq_Some_iff)
    with reg_okD(8)[OF ok this opn] show "sv_role (g_session g v) = SessionViewer \<and> sv_room (g_session g v) = ?r" by simp
  next
    assume "sv_role (g_session g v) = SessionViewer \<and> sv_room (g_session g v) = ?r"
    with sfu_seatedD(7)[OF reg_okD(7)[OF ok v]] have "map_of (xr_viewers (g_room g ?r)) c' = Some v" by simp
    then show "v \<in> snd ` set (xr_viewers (g_room g ?r))" by (force dest: map_of_SomeD)
  qed
  with leavers_publisher[OF ok s True] True show ?thesis by auto
qed (simp add: leavers_def)
lemma leave_facts:
  assumes ok: "reg_ok g" and s: "map_of (g_sessions g) c = Some s"
  defines "g' \<equiv> reg_leave c s g" and "r \<equiv> sv_room (g_session g s)"
  shows "g_nextRoom g' = g_nextRoom g" "g_nextSession g' = g_nextSession g" "g_closed g' = g_closed g" "g_maxViewers g' = g_maxViewers g"
    and "g_session g' v = (g_session g v)\<lparr> sv_closed := sv_closed (g_session g v) \<or> v \<in> set (leavers g s) \<rparr>"
    and "g_rooms g' = (if sv_role (g_session g s) = SessionPublisher then AList.delete c (g_rooms g) else g_rooms g)"
    and "g_room g' r' = (if r' \<noteq> r then g_room g r'
      else if sv_role (g_session g s) = SessionPublisher then fst (closeSnapshot (g_room g r)) else removeViewer c (g_room g r))"
    and "distinct (map fst (g_sessions g'))"
    and "map_of (g_sessions g') c' = (if c' \<in> (\<lambda>v. sv_connectionID (g_session g v)) ` set (leavers g s) then None else map_of (g_sessions g) c')"
proof -
  have c: "sv_connectionID (g_session g s) = c" by (rule sfu_seatedD(5)[OF reg_okD(7)[OF ok s]])
  have pc: "sv_role (g_session g s) = SessionPublisher \<Longrightarrow> xr_publisherConnectionID (g_room g r) = c"
    using sfu_seatedD(6)[OF reg_okD(7)[OF ok s]] reg_okD(6)[OF ok] by (simp add: r_def)
  then show "g_rooms g' = (if sv_role (g_session g s) = SessionPublisher then AList.delete c (g_rooms g) else g_rooms g)"
    by (simp add: g'_def r_def reg_leave_def shut_def unregister_def put_room_def Let_def)
  show "distinct (map fst (g_sessions g'))"
    using reg_okD(3)[OF ok]
    by (simp add: g'_def reg_leave_def shut_def unregister_def put_room_def Let_def distinct_fold_delete)
  show "map_of (g_sessions g') c' = (if c' \<in> (\<lambda>v. sv_connectionID (g_session g v)) ` set (leavers g s) then None else map_of (g_sessions g) c')"
    using c by (simp add: g'_def reg_leave_def shut_def unregister_def put_room_def leavers_def Let_def map_of_fold_delete)
qed (simp_all add: g'_def r_def reg_leave_def shut_def unregister_def put_room_def leavers_def Let_def)

text \<open>Who is left in the registry.\<close>

lemma leave_sessions:
  assumes ok: "reg_ok g" "calls_ok g pcs" and s: "map_of (g_sessions g) c = Some s"
  shows "map_of (g_sessions (reg_leave c s g)) c' = Some v \<longleftrightarrow> map_of (g_sessions g) c' = Some v \<and> v \<notin> set (leavers g s)"
proof -
  have reg: "\<exists>k. map_of (g_sessions g) k = Some w \<and> sv_connectionID (g_session g w) = k" if "w \<in> set (leavers g s)" for w
  proof (cases "w = s")
    case True
    with s sfu_seatedD(5)[OF reg_okD(7)[OF ok(1) s]] show ?thesis by blast
  next
    case False
    with that have "sv_role (g_session g s) = SessionPublisher" by (auto simp: leavers_def split: if_splits)
    with that False leavers_publisher[OF ok(1) s this] obtain k where
        "(k, w) \<in> set (xr_viewers (g_room g (sv_room (g_session g s))))" by auto
    then have "map_of (xr_viewers (g_room g (sv_room (g_session g s)))) k = Some w"
      using calls_okD(2)[OF ok(2)] by (simp add: places_ok_def map_of_eq_Some_iff)
    from reg_okD(8)[OF ok(1) this open_if_registered[OF ok(1) s]] sfu_seatedD(5)[OF reg_okD(7)[OF ok(1)]] show ?thesis by blast
  qed
  have "c' \<in> (\<lambda>v. sv_connectionID (g_session g v)) ` set (leavers g s) \<longleftrightarrow> v \<in> set (leavers g s)"
    if v: "map_of (g_sessions g) c' = Some v"
  proof
    assume "c' \<in> (\<lambda>v. sv_connectionID (g_session g v)) ` set (leavers g s)"
    then obtain w where "w \<in> set (leavers g s)" "sv_connectionID (g_session g w) = c'" by blast
    with reg v show "v \<in> set (leavers g s)" by force
  next
    assume "v \<in> set (leavers g s)"
    with sfu_seatedD(5)[OF reg_okD(7)[OF ok(1) v]] show "c' \<in> (\<lambda>v. sv_connectionID (g_session g v)) ` set (leavers g s)" by force
  qed
  then show ?thesis by (auto simp: leave_facts(9)[OF ok(1) s])
qed

lemma leave_viewers:
  assumes ok: "reg_ok g" and s: "map_of (g_sessions g) c = Some s"
  shows "map_of (xr_viewers (g_room (reg_leave c s g) r)) k = Some v \<Longrightarrow> map_of (xr_viewers (g_room g r)) k = Some v"
    and "room_sig (g_room (reg_leave c s g) r) = room_sig (g_room g r)"
    and "xr_reservations (g_room (reg_leave c s g) r) = xr_reservations (g_room g r)"
    and "length (xr_viewers (g_room (reg_leave c s g) r)) \<le> length (xr_viewers (g_room g r))"
    and "distinct (map fst (xr_viewers (g_room g r))) \<Longrightarrow> distinct (map fst (xr_viewers (g_room (reg_leave c s g) r)))"
  by (auto simp: leave_facts(7)[OF ok s] closeSnapshot_def removeViewer_def room_sig_def length_delete_le split: if_splits)
text \<open>A publisher is not among the sessions that leave, unless it is the one.\<close>

lemma publisher_stays:
  assumes ok: "reg_ok g" "calls_ok g pcs" and s: "map_of (g_sessions g) c = Some s"
    and p: "sv_role (g_session g v) = SessionPublisher" and "v \<noteq> s"
  shows "v \<notin> set (leavers g s)"
proof
  assume v: "v \<in> set (leavers g s)"
  with \<open>v \<noteq> s\<close> have "sv_role (g_session g s) = SessionPublisher" by (auto simp: leavers_def split: if_splits)
  with v \<open>v \<noteq> s\<close> leavers_publisher[OF ok(1) s this] obtain k where
      "(k, v) \<in> set (xr_viewers (g_room g (sv_room (g_session g s))))" by auto
  then have "map_of (xr_viewers (g_room g (sv_room (g_session g s)))) k = Some v"
    using calls_okD(2)[OF ok(2)] by (simp add: places_ok_def map_of_eq_Some_iff)
  from reg_okD(8)[OF ok(1) this open_if_registered[OF ok(1) s]] p show False by simp
qed

lemma leave_seated:
  assumes ok: "reg_ok g" "calls_ok g pcs" and s: "map_of (g_sessions g) c = Some s"
    and v: "map_of (g_sessions g) c' = Some v" "v \<notin> set (leavers g s)"
  shows "sfu_seated (reg_leave c s g) c' v"
proof -
  let ?g = "reg_leave c s g" and ?r = "sv_room (g_session g s)" and ?rv = "sv_room (g_session g v)"
  note F = leave_facts[OF ok(1) s] and V = sfu_seatedD[OF reg_okD(7)[OF ok(1) v(1)]]
  have view: "g_session ?g v = g_session g v" using v(2) by (intro session_view.equality) (simp_all add: F(5))
  have ne: "v \<noteq> s" using v(2) leavers_publisher[OF ok(1) s] by (auto simp: leavers_def split: if_splits)
  then have nc: "c' \<noteq> c" using v(1) s by auto
  note sig = room_sigD[OF leave_viewers(2)[OF ok(1) s]]
  have "xr_publisher (g_room ?g ?rv) = Some v \<and> map_of (g_rooms ?g) c' = Some ?rv" if p: "sv_role (g_session g v) = SessionPublisher"
  proof -
    have "?rv \<noteq> ?r" if "sv_role (g_session g s) = SessionPublisher"
      using V(6)[OF p] sfu_seatedD(6)[OF reg_okD(7)[OF ok(1) s] that] ne by auto
    then show ?thesis using V(6)[OF p] nc by (auto simp: F(6,7) removeViewer_def)
  qed
  moreover have "map_of (xr_viewers (g_room ?g ?rv)) c' = Some v" if w: "sv_role (g_session g v) = SessionViewer"
  proof -
    have "?rv \<noteq> ?r" if "sv_role (g_session g s) = SessionPublisher"
      using leavers_iff[OF ok(1) s _ v(1)] calls_okD(2)[OF ok(2), of ?r] v(2) w that by (auto simp: places_ok_def)
    then show ?thesis using V(7)[OF w] nc by (auto simp: F(7) removeViewer_def)
  qed
  moreover have "sfu_seated g c' v" by (rule reg_okD(7)[OF ok(1) v(1)])
  ultimately show ?thesis
    by (simp add: sfu_seated_def view Let_def F(1,2) sig split: sessionRole.splits)
qed

lemma leave_reg_ok:
  assumes ok: "reg_ok g" "calls_ok g pcs" and s: "map_of (g_sessions g) c = Some s"
  shows "reg_ok (reg_leave c s g)" (is "reg_ok ?g")
proof (rule reg_okI)
  note F = leave_facts[OF ok(1) s] and L = leave_sessions[OF ok s]
  note opn = open_if_registered[OF ok(1) s]
  show "r1 < g_nextRoom ?g \<and> xr_publisherConnectionID (g_room ?g r1) = c1" if "map_of (g_rooms ?g) c1 = Some r1" for c1 r1
    using that reg_okD(5,6)[OF ok(1), of c1 r1] room_sigD(2)[OF leave_viewers(2)[OF ok(1) s]] by (auto simp: F(1,6) split: if_splits)
  show "sfu_seated ?g c1 v" if "map_of (g_sessions ?g) c1 = Some v" for c1 v
    using that leave_seated[OF ok s, of c1 v] by (simp add: L)
  show "map_of (g_sessions ?g) k = Some v \<and> sv_room (g_session ?g v) = r1 \<and> sv_role (g_session ?g v) = SessionViewer"
    if at: "map_of (xr_viewers (g_room ?g r1)) k = Some v" for r1 k v
  proof -
    have v: "map_of (g_sessions g) k = Some v" "sv_room (g_session g v) = r1" "sv_role (g_session g v) = SessionViewer"
      using reg_okD(8)[OF ok(1) leave_viewers(1)[OF ok(1) s at] opn] by blast+
    have "k = c" if "v = s" using that v(1) s reg_okD(7)[OF ok(1)] sfu_seatedD(5) by blast
    then have "v \<notin> set (leavers g s)"
      using leavers_iff[OF ok(1) s _ v(1)] calls_okD(2)[OF ok(2)] at v s
      by (auto simp: F(7) places_ok_def closeSnapshot_def removeViewer_def split: if_splits)
    with v show ?thesis by (simp add: L F(5))
  qed
  show "reg_publishers i j ?g \<le> MaxChannelPublishers" for i j
  proof -
    have "reg_publishers i j ?g \<le> reg_publishers i j g"
      unfolding reg_publishers_def by (simp add: F(6) room_sigD[OF leave_viewers(2)[OF ok(1) s]] length_filter_delete)
    with reg_okD(9)[OF ok(1), of i j] show ?thesis by linarith
  qed
qed (use reg_okD(1-4)[OF ok(1)] leave_facts[OF ok(1) s] open_if_registered[OF ok(1) s] in simp_all)

lemma leave_calls_ok:
  assumes ok: "reg_ok g" "calls_ok g pcs" and s: "map_of (g_sessions g) c = Some s"
  shows "calls_ok (reg_leave c s g) pcs" (is "calls_ok ?g pcs")
proof (rule calls_okI)
  note F = leave_facts[OF ok(1) s] and L = leave_sessions[OF ok s] and V = leave_viewers[OF ok(1) s]
  show "0 \<le> g_maxViewers ?g" using calls_okD(1)[OF ok(2)] by (simp add: F(4))
  show "unique_calls pcs" by (rule calls_okD(3)[OF ok(2)])
  show "places_ok ?g pcs r1" for r1
    using calls_okD(2)[OF ok(2), of r1] V(4)[of r1] by (auto simp: places_ok_def V(3) V(5) F(4))
  have S: "sfu_seated g c s" by (rule reg_okD(7)[OF ok(1) s])
  show "spc_ok ?g pc" if pc: "pc \<in> set pcs" for pc
  proof (rule spc_ok_frame[OF calls_okD(4)[OF ok(2) pc]])
    have busy: "c \<noteq> sa_connectionID a" if "no_session g (sa_connectionID a)" for a using that s by (auto simp: no_session_def)
    note pc' = calls_okD(4)[OF ok(2) pc]
    show "no_session ?g c1" if "no_session g c1" for c1
      using that L[of c1] by (cases "map_of (g_sessions ?g) c1") (auto simp: no_session_def)
    show "xr_publisher (g_room ?g r1) = xr_publisher (g_room g r1)" if "spc_room pc = Some (c1, r1)" for c1 r1
    proof -
      have "c1 \<noteq> c" "xr_publisherConnectionID (g_room g r1) = c1"
        using pc' that busy by (cases pc; force simp: start_room_def)+
      then have "sv_role (g_session g s) = SessionPublisher \<Longrightarrow> r1 \<noteq> sv_room (g_session g s)"
        using sfu_seatedD(6)[OF S] reg_okD(6)[OF ok(1)] by blast
      then show ?thesis by (auto simp: F(7) removeViewer_def)
    qed
    show "\<not> g_closed g \<and> map_of (g_rooms ?g) c1 = map_of (g_rooms g) c1"
      if "spc_room pc = Some (c1, r1)" "\<not> g_closed ?g" for c1 r1
      using that pc' busy by (cases pc) (auto simp: F(3,6))
    show "g_session ?g v = g_session g v" if v: "spc_publisher pc = Some v" for v
    proof -
      obtain a r1 where "pc = StartPublishing a r1 v" using v by (cases pc) auto
      with pc' have "g_session g v = publisher_view a r1" "no_session g (sa_connectionID a)" by simp_all
      then have "sv_connectionID (g_session g v) \<noteq> c" "sv_role (g_session g v) = SessionPublisher"
        using busy by (auto simp: publisher_view_def)
      with publisher_stays[OF ok s] sfu_seatedD(5)[OF S] have "v \<notin> set (leavers g s)" by blast
      then show ?thesis by (intro session_view.equality) (simp_all add: F(5))
    qed
  qed (simp_all add: F(1,2) V(2))
  show "tended ?g pcs c1 r1" if at: "map_of (g_rooms ?g) c1 = Some r1" for c1 r1
  proof -
    have old: "map_of (g_rooms g) c1 = Some r1" and ne: "sv_role (g_session g s) = SessionPublisher \<Longrightarrow> c1 \<noteq> c"
      using at by (auto simp: F(6) split: if_splits)
    have "v \<notin> set (leavers g s)" if "map_of (g_sessions g) c1 = Some v" "sv_role (g_session g v) = SessionPublisher" for v
      using publisher_stays[OF ok s that(2)] that ne s by (cases "v = s") (auto dest: sfu_seatedD(5)[OF reg_okD(7)[OF ok(1)]])
    with calls_okD(5)[OF ok(2) old] show ?thesis by (auto simp: tended_def L F(5))
  qed
qed

lemma left_ok:
  assumes "left m m'" and "reg_ok (reg m)" and "calls_ok (reg m) pcs"
  shows "reg_ok (reg m') \<and> calls_ok (reg m') pcs"
  using assms leave_reg_ok[OF assms(2,3)] leave_calls_ok[OF assms(2,3)] by (auto simp: left_def)
subsection \<open>Moving one call\<close>

lemma seats_update:
  assumes "i < length pcs"
  shows "seats r (pcs[i := pc]) =
    seats r pcs - (if spc_seat (pcs ! i) = Some r then 1 else 0) + (if spc_seat pc = Some r then 1 else 0)"
proof -
  let ?P = "\<lambda>pc. spc_seat pc = Some r"
  have pcs: "pcs = take i pcs @ pcs ! i # drop (Suc i) pcs" by (rule id_take_nth_drop[OF assms])
  have "seats r pcs = int (length (filter ?P (take i pcs @ pcs ! i # drop (Suc i) pcs)))"
    unfolding seats_def by (subst pcs) (rule refl)
  moreover have "seats r (pcs[i := pc]) = int (length (filter ?P (take i pcs @ pc # drop (Suc i) pcs)))"
    unfolding seats_def by (simp only: upd_conv_take_nth_drop[OF assms])
  ultimately show ?thesis by simp
qed

lemma unique_calls_update:
  assumes "unique_calls pcs" and "i < length pcs" and "spc_conn pc = None \<or> spc_conn pc = spc_conn (pcs ! i)"
  shows "unique_calls (pcs[i := pc])"
  using assms unfolding unique_calls_def by (auto simp: nth_list_update) (metis+)

lemma calls_update_cases:
  assumes "pc \<in> set (pcs[i := pc'])" and "i < length pcs"
  obtains (new) "pc = pc'" | (old) j where "j < length pcs" "j \<noteq> i" "pc = pcs ! j"
  using assms by (metis in_set_conv_nth length_list_update nth_list_update_eq nth_list_update_neq)

lemma calls_update_keeps: "j < length pcs \<Longrightarrow> j \<noteq> i \<Longrightarrow> pcs ! j \<in> set (pcs[i := pc])"
  by (metis length_list_update nth_list_update_neq nth_mem)

lemma other_conn:
  "unique_calls pcs \<Longrightarrow> i < length pcs \<Longrightarrow> j < length pcs \<Longrightarrow> j \<noteq> i \<Longrightarrow> spc_conn (pcs ! i) = Some c \<Longrightarrow> spc_conn (pcs ! j) \<noteq> Some c"
  unfolding unique_calls_def by blast

lemma tended_move:
  assumes old: "tended g pcs c r" and i: "i < length pcs"
    and sess: "\<And>s. map_of (g_sessions g) c = Some s \<Longrightarrow> sv_role (g_session g s) = SessionPublisher \<Longrightarrow> sv_room (g_session g s) = r \<Longrightarrow>
      map_of (g_sessions g') c = Some s \<and> g_session g' s = g_session g s"
    and mine: "spc_room (pcs ! i) = Some (c, r) \<Longrightarrow> tended g' (pcs[i := pc']) c r"
  shows "tended g' (pcs[i := pc']) c r"
proof -
  from old consider s where "map_of (g_sessions g) c = Some s" "sv_role (g_session g s) = SessionPublisher" "sv_room (g_session g s) = r"
    | pc where "pc \<in> set pcs" "spc_room pc = Some (c, r)" by (auto simp: tended_def)
  then show ?thesis
  proof cases
    case 1
    from 1 sess[OF 1] show ?thesis by (auto simp: tended_def)
  next
    case 2
    then obtain j where j: "j < length pcs" "spc_room (pcs ! j) = Some (c, r)" by (metis in_set_conv_nth)
    show ?thesis
    proof (cases "j = i")
      case True
      with j mine show ?thesis by simp
    next
      case False
      with j calls_update_keeps[of j pcs i pc'] show ?thesis by (auto simp: tended_def)
    qed
  qed
qed

lemma calls_ok_move:
  assumes ok: "calls_ok g pcs" and i: "i < length pcs" and max: "g_maxViewers g' = g_maxViewers g"
    and conn: "spc_conn pc' = None \<or> spc_conn pc' = spc_conn (pcs ! i)"
    and places: "\<And>r. places_ok g' (pcs[i := pc']) r" and new: "spc_ok g' pc'"
    and others: "\<And>j. j < length pcs \<Longrightarrow> j \<noteq> i \<Longrightarrow> spc_ok g (pcs ! j) \<Longrightarrow> spc_ok g' (pcs ! j)"
    and rooms: "\<And>c r. map_of (g_rooms g') c = Some r \<Longrightarrow> tended g' (pcs[i := pc']) c r"
  shows "calls_ok g' (pcs[i := pc'])"
proof (rule calls_okI)
  show "spc_ok g' pc" if "pc \<in> set (pcs[i := pc'])" for pc
    using that i by (rule calls_update_cases) (use new others calls_okD(4)[OF ok nth_mem] in auto)
qed (use calls_okD[OF ok] max places rooms unique_calls_update[OF calls_okD(3)[OF ok] i conn] in auto)

lemma places_same:
  assumes "places_ok g pcs r" and "i < length pcs" and "spc_seat pc' = Some r \<longleftrightarrow> spc_seat (pcs ! i) = Some r"
    and "g_room g' r = g_room g r" and "g_maxViewers g' = g_maxViewers g"
  shows "places_ok g' (pcs[i := pc']) r"
  using assms by (simp add: places_ok_def seats_update)

text \<open>A section that leaves the registry alone.\<close>

lemma calls_ok_same:
  assumes ok: "calls_ok g pcs" and i: "i < length pcs"
    and conn: "spc_conn pc' = None \<or> spc_conn pc' = spc_conn (pcs ! i)" and seat: "spc_seat pc' = spc_seat (pcs ! i)"
    and room: "spc_room (pcs ! i) = None \<or> spc_room pc' = spc_room (pcs ! i)" and new: "spc_ok g pc'"
  shows "calls_ok g (pcs[i := pc'])"
proof (rule calls_ok_move[OF ok i refl conn _ new])
  show "places_ok g (pcs[i := pc']) r" for r by (rule places_same[OF calls_okD(2)[OF ok] i]) (simp_all add: seat)
  show "tended g (pcs[i := pc']) c r" if "map_of (g_rooms g) c = Some r" for c r
    by (rule tended_move[OF calls_okD(5)[OF ok that] i])
      (use room i in \<open>auto simp: tended_def intro: bexI[of _ pc'] set_update_memI\<close>)
qed

subsection \<open>Places\<close>

text \<open>A room whose places change, and nothing else.\<close>

lemma put_room_sel [simp]:
  "g_room (put_room r room g) = (g_room g)(r := room)" "g_session (put_room r room g) = g_session g"
  "g_nextRoom (put_room r room g) = g_nextRoom g" "g_nextSession (put_room r room g) = g_nextSession g"
  "g_rooms (put_room r room g) = g_rooms g" "g_sessions (put_room r room g) = g_sessions g"
  "g_closed (put_room r room g) = g_closed g" "g_maxViewers (put_room r room g) = g_maxViewers g"
  by (simp_all add: put_room_def)

lemma places_reg_ok:
  assumes "reg_ok g"
  shows "reg_ok (put_room r ((g_room g r)\<lparr> xr_reservations := n \<rparr>) g)" (is "reg_ok ?g")
proof -
  have [simp]: "xr_viewers (g_room ?g k) = xr_viewers (g_room g k)" "xr_publisherConnectionID (g_room ?g k) = xr_publisherConnectionID (g_room g k)"
    "xr_serverID (g_room ?g k) = xr_serverID (g_room g k)" "xr_id (g_room ?g k) = xr_id (g_room g k)"
    "xr_publisher (g_room ?g k) = xr_publisher (g_room g k)" "hasRendition (g_room ?g k) = hasRendition (g_room g k)" for k
    by (auto simp: hasRendition_def)
  have "sfu_seated ?g c s = sfu_seated g c s" for c s by (simp add: sfu_seated_def Let_def del: put_room_sel(1) split: sessionRole.split)
  moreover have "reg_publishers i j ?g = reg_publishers i j g" for i j by (simp add: reg_publishers_def del: put_room_sel(1))
  ultimately show ?thesis using assms unfolding reg_ok_def by (simp del: put_room_sel(1)) blast
qed

lemma places_spc_ok: "spc_ok g pc \<Longrightarrow> spc_ok (put_room r ((g_room g r)\<lparr> xr_reservations := n \<rparr>) g) pc"
  by (rule spc_ok_frame) (auto simp: no_session_def room_sig_def)

lemma places_calls_ok:
  assumes ok: "calls_ok g pcs" and i: "i < length pcs"
    and conn: "spc_conn pc' = None \<or> spc_conn pc' = spc_conn (pcs ! i)" and room: "spc_room (pcs ! i) = None"
    and new: "spc_ok g pc'"
    and n: "n = seats r (pcs[i := pc'])" "int (length (xr_viewers (g_room g r))) + n \<le> g_maxViewers g"
    and seat: "\<And>k. k \<noteq> r \<Longrightarrow> (spc_seat pc' = Some k) = (spc_seat (pcs ! i) = Some k)"
  shows "calls_ok (put_room r ((g_room g r)\<lparr> xr_reservations := n \<rparr>) g) (pcs[i := pc'])" (is "calls_ok ?g _")
proof (rule calls_ok_move[OF ok i])
  show "places_ok ?g (pcs[i := pc']) k" for k
    using calls_okD(2)[OF ok, of k] n seat[of k] by (auto simp: places_ok_def seats_update[OF i])
  show "tended ?g (pcs[i := pc']) c k" if "map_of (g_rooms ?g) c = Some k" for c k
    by (rule tended_move[OF calls_okD(5)[OF ok, of c k] i]) (use that room in auto)
qed (use conn new places_spc_ok in auto)
lemma reserve_step_ok:
  assumes ok: "reg_ok (reg m)" "calls_ok (reg m) pcs" and i: "i < length pcs" "pcs ! i = WatchFound a r"
    and step: "watch_reserve r m = (m', b)"
  shows "reg_ok (reg m') \<and> calls_ok (reg m') (pcs[i := if b then WatchReserved a r else Stream_returned])"
proof (cases b)
  case True
  let ?n = "xr_reservations (xm_roomHeap m r) + 1"
  have W: "int (length (xr_viewers (xm_roomHeap m r))) + xr_reservations (xm_roomHeap m r) < xm_maxViewers m \<and>
      reg m' = put_room r ((shape (xm_roomHeap m r))\<lparr> xr_reservations := ?n \<rparr>) (reg m)"
    using reg_watch_reserve(1)[of r m m'] step True by simp
  have eq: "reg m' = put_room r ((g_room (reg m) r)\<lparr> xr_reservations := ?n \<rparr>) (reg m)" using W by simp
  have "calls_ok (reg m') (pcs[i := WatchReserved a r])"
    unfolding eq using W calls_okD(2)[OF ok(2), of r] calls_okD(4)[OF ok(2) nth_mem[OF i(1)]] i
    by (intro places_calls_ok[OF ok(2) i(1)]) (auto simp: seats_update places_ok_def)
  then show ?thesis using places_reg_ok[OF ok(1), of r ?n] True by (simp add: eq)
next
  case False
  have "calls_ok (reg m) (pcs[i := Stream_returned])" by (rule calls_ok_same[OF ok(2) i(1)]) (simp_all add: i(2))
  with ok False reg_watch_reserve(2)[of r m m'] step show ?thesis by simp
qed

lemma seats_pos: "pc \<in> set pcs \<Longrightarrow> spc_seat pc = Some r \<Longrightarrow> 0 < seats r pcs"
  unfolding seats_def by (auto simp: filter_empty_conv)

lemma cancel_step_ok:
  assumes ok: "reg_ok (reg m)" "calls_ok (reg m) pcs" and i: "i < length pcs" "pcs ! i = WatchCancelling a r"
  shows "reg_ok (reg (watch_cancel r m)) \<and> calls_ok (reg (watch_cancel r m)) (pcs[i := Stream_returned])"
proof -
  let ?n = "xr_reservations (xm_roomHeap m r) - 1"
  have p: "places_ok (reg m) pcs r" by (rule calls_okD(2)[OF ok(2)])
  have "0 < seats r pcs" using seats_pos[OF nth_mem[OF i(1)], of r] i(2) by simp
  with p have eq: "reg (watch_cancel r m) = put_room r ((g_room (reg m) r)\<lparr> xr_reservations := ?n \<rparr>) (reg m)"
    by (simp add: reg_watch_cancel cancelViewerReservation_def places_ok_def)
  have "calls_ok (put_room r ((g_room (reg m) r)\<lparr> xr_reservations := ?n \<rparr>) (reg m)) (pcs[i := Stream_returned])"
    using p i by (intro places_calls_ok[OF ok(2) i(1)]) (auto simp: seats_update places_ok_def)
  then show ?thesis using places_reg_ok[OF ok(1), of r ?n] unfolding eq by blast
qed

subsection \<open>Publishing\<close>

text \<open>A connection whose call has no session has no room of its own, unless the call made it.\<close>

lemma own_room:
  assumes ok: "calls_ok g pcs" and i: "i < length pcs" and conn: "spc_conn (pcs ! i) = Some c" and fr: "no_session g c"
    and at: "map_of (g_rooms g) c = Some r"
  shows "spc_room (pcs ! i) = Some (c, r)"
proof -
  from calls_okD(5)[OF ok at] fr obtain pc where pc: "pc \<in> set pcs" "spc_room pc = Some (c, r)"
    by (auto simp: tended_def no_session_def)
  then obtain j where j: "j < length pcs" "pcs ! j = pc" by (metis in_set_conv_nth)
  have "spc_conn pc = Some c" using pc(2) by (cases pc) auto
  with other_conn[OF calls_okD(3)[OF ok] i j(1) _ conn] j pc show ?thesis by blast
qed

lemma length_filter_update_absent:
  "map_of m k = None \<Longrightarrow> length (filter P (AList.update k v m)) = length (filter P m) + (if P (k, v) then 1 else 0)"
  by (induction m) (auto split: if_splits)

lemma register_sel:
  "g_session (reg_register a g) = g_session g" "g_nextRoom (reg_register a g) = Suc (g_nextRoom g)"
  "g_nextSession (reg_register a g) = g_nextSession g" "g_sessions (reg_register a g) = g_sessions g"
  "g_closed (reg_register a g) = g_closed g" "g_maxViewers (reg_register a g) = g_maxViewers g"
  "g_rooms (reg_register a g) = AList.update (sa_connectionID a) (g_nextRoom g) (g_rooms g)"
  "r \<noteq> g_nextRoom g \<Longrightarrow> g_room (reg_register a g) r = g_room g r"
  by (simp_all add: reg_register_def)

lemma register_room:
  "xr_serverID (g_room (reg_register a g) (g_nextRoom g)) = sa_serverID a"
  "xr_id (g_room (reg_register a g) (g_nextRoom g)) = sa_channelID a"
  "xr_publisherConnectionID (g_room (reg_register a g) (g_nextRoom g)) = sa_connectionID a"
  "xr_publisher (g_room (reg_register a g) (g_nextRoom g)) = None"
  "xr_viewers (g_room (reg_register a g) (g_nextRoom g)) = []"
  "xr_reservations (g_room (reg_register a g) (g_nextRoom g)) = 0"
  by (simp_all add: reg_register_def newRoomWithRenditions_def)

lemma register_publishers:
  assumes ok: "reg_ok g" and none: "map_of (g_rooms g) (sa_connectionID a) = None"
    and below: "reg_publishers (sa_serverID a) (sa_channelID a) g < MaxChannelPublishers"
  shows "reg_publishers i j (reg_register a g) \<le> MaxChannelPublishers"
proof -
  let ?P = "\<lambda>g (c, r). xr_id (g_room g r) = j \<and> xr_serverID (g_room g r) = i"
  have "r \<noteq> g_nextRoom g" if "(c, r) \<in> set (g_rooms g)" for c r
    using reg_okD(5)[OF ok, of c r] reg_okD(2)[OF ok] that by (auto simp: map_of_eq_Some_iff)
  then have "filter (?P (reg_register a g)) (g_rooms g) = filter (?P g) (g_rooms g)"
    by (auto intro!: filter_cong simp: register_sel(8))
  then have "reg_publishers i j (reg_register a g) =
      reg_publishers i j g + (if sa_channelID a = j \<and> sa_serverID a = i then 1 else 0)"
    unfolding reg_publishers_def register_sel(7) by (simp add: length_filter_update_absent[OF none] register_room)
  with reg_okD(9)[OF ok, of i j] below show ?thesis by (auto split: if_splits)
qed

lemma register_reg_ok:
  assumes ok: "reg_ok g" and opn: "\<not> g_closed g" and none: "map_of (g_rooms g) (sa_connectionID a) = None"
    and fr: "no_session g (sa_connectionID a)"
    and below: "reg_publishers (sa_serverID a) (sa_channelID a) g < MaxChannelPublishers"
  shows "reg_ok (reg_register a g)" (is "reg_ok ?g")
proof (rule reg_okI)
  show "r < g_nextRoom ?g \<and> xr_publisherConnectionID (g_room ?g r) = c" if "map_of (g_rooms ?g) c = Some r" for c r
    using that reg_okD(5,6)[OF ok, of c r] register_sel(8)[of r g a] by (auto simp: register_sel(2,7) register_room split: if_splits)
  show "sfu_seated ?g c s" if s: "map_of (g_sessions ?g) c = Some s" for c s
  proof -
    have S: "sfu_seated g c s" using s reg_okD(7)[OF ok] by (simp add: register_sel)
    have "c \<noteq> sa_connectionID a" using s fr by (auto simp: register_sel no_session_def)
    with S sfu_seatedD(3)[OF S] show ?thesis
      by (auto simp: sfu_seated_def register_sel(1-7) register_sel(8)[OF less_imp_neq] Let_def split: sessionRole.splits)
  qed
  show "map_of (g_sessions ?g) c = Some s \<and> sv_room (g_session ?g s) = r \<and> sv_role (g_session ?g s) = SessionViewer"
    if at: "map_of (xr_viewers (g_room ?g r)) c = Some s" for r c s
  proof -
    have "r \<noteq> g_nextRoom g" using at by (auto simp: register_room)
    with at reg_okD(8)[OF ok _ opn, of r c s] show ?thesis by (simp add: register_sel)
  qed
  show "reg_publishers i j ?g \<le> MaxChannelPublishers" for i j by (rule register_publishers[OF ok none below])
qed (use reg_okD(1-4)[OF ok] opn in \<open>simp_all add: register_sel\<close>)
lemma seats_zero: "(\<And>pc. pc \<in> set pcs \<Longrightarrow> spc_seat pc \<noteq> Some r) \<Longrightarrow> seats r pcs = 0"
  by (auto simp: seats_def filter_empty_conv)

lemma spc_room_bound: "spc_ok g pc \<Longrightarrow> spc_seat pc = Some r \<Longrightarrow> r < g_nextRoom g"
  "spc_ok g pc \<Longrightarrow> spc_room pc = Some (c, r) \<Longrightarrow> r < g_nextRoom g"
  by (cases pc; auto simp: watch_room_def start_room_def)+

lemma register_spc_ok:
  assumes "spc_ok g pc" and "spc_conn pc \<noteq> Some (sa_connectionID a)"
  shows "spc_ok (reg_register a g) pc"
proof (rule spc_ok_frame[OF assms(1)])
  show "xr_publisher (g_room (reg_register a g) r) = xr_publisher (g_room g r)" if "spc_room pc = Some (c, r)" for c r
    using spc_room_bound(2)[OF assms(1) that] by (simp add: register_sel(8))
  show "\<not> g_closed g \<and> map_of (g_rooms (reg_register a g)) c = map_of (g_rooms g) c"
    if "spc_room pc = Some (c, r)" "\<not> g_closed (reg_register a g)" for c r
  proof -
    have "spc_conn pc = Some c" using that(1) by (cases pc) auto
    with assms(2) that(2) show ?thesis by (auto simp: register_sel)
  qed
qed (simp_all add: register_sel no_session_def)

lemma register_calls_ok:
  assumes ok: "calls_ok g pcs" and i: "i < length pcs" "pcs ! i = StartEntered a"
    and none: "map_of (g_rooms g) (sa_connectionID a) = None"
  shows "calls_ok (reg_register a g) (pcs[i := StartRegistered a (g_nextRoom g)])" (is "calls_ok ?g ?pcs")
proof (rule calls_ok_move[OF ok i(1)])
  have fr: "no_session g (sa_connectionID a)" using calls_okD(4)[OF ok nth_mem[OF i(1)]] i(2) by simp
  show "spc_ok ?g (StartRegistered a (g_nextRoom g))"
    using fr by (simp add: no_session_def start_room_def register_sel register_room)
  show "places_ok ?g ?pcs r" for r
  proof (cases "r = g_nextRoom g")
    case True
    have "seats (g_nextRoom g) pcs = 0" using spc_room_bound(1)[OF calls_okD(4)[OF ok]] by (intro seats_zero) blast
    with True calls_okD(1)[OF ok] show ?thesis by (simp add: places_ok_def register_room register_sel(6) seats_update i)
  next
    case False
    then show ?thesis by (intro places_same[OF calls_okD(2)[OF ok] i(1)]) (simp_all add: i(2) register_sel)
  qed
  show "spc_ok ?g (pcs ! j)" if "j < length pcs" "j \<noteq> i" "spc_ok g (pcs ! j)" for j
    by (rule register_spc_ok[OF that(3) other_conn[OF calls_okD(3)[OF ok] i(1) that(1,2)]]) (simp add: i(2))
  show "tended ?g ?pcs c r" if at: "map_of (g_rooms ?g) c = Some r" for c r
  proof (cases "c = sa_connectionID a")
    case True
    with at i(1) show ?thesis by (auto simp: tended_def register_sel intro!: bexI[OF _ set_update_memI])
  next
    case False
    with at have "map_of (g_rooms g) c = Some r" by (simp add: register_sel)
    from tended_move[OF calls_okD(5)[OF ok this] i(1)] show ?thesis by (simp add: register_sel i(2))
  qed
qed (simp_all add: i(2) register_sel)

lemma register_step_ok:
  assumes ok: "reg_ok (reg m)" "calls_ok (reg m) pcs" and i: "i < length pcs" "pcs ! i = StartEntered a"
    and step: "start_register a m = (m', res)"
  shows "reg_ok (reg m') \<and> calls_ok (reg m') (pcs[i := case res of Inl e \<Rightarrow> Stream_returned | Inr r \<Rightarrow> StartRegistered a r])"
proof (cases res)
  case (Inl e)
  have "calls_ok (reg m) (pcs[i := Stream_returned])" by (rule calls_ok_same[OF ok(2) i(1)]) (simp_all add: i(2))
  with ok Inl reg_start_register(2)[of a m m' e] step show ?thesis by simp
next
  case (Inr r)
  have R: "\<not> xm_closed m" "r = g_nextRoom (reg m)" "publishers_in (sa_serverID a) (sa_channelID a) m < MaxChannelPublishers"
    "reg m' = reg_register a (reg m)"
    using reg_start_register(1)[of a m m' r] step Inr by auto
  have fr: "no_session (reg m) (sa_connectionID a)" using calls_okD(4)[OF ok(2) nth_mem[OF i(1)]] i(2) by simp
  have none: "map_of (g_rooms (reg m)) (sa_connectionID a) = None"
    using own_room[OF ok(2) i(1) _ fr] i(2) by (cases "map_of (g_rooms (reg m)) (sa_connectionID a)") auto
  have "calls_ok (reg m') (pcs[i := StartRegistered a r])"
    using register_calls_ok[OF ok(2) i none] R by simp
  moreover have "reg_ok (reg m')"
    unfolding R(4) using R(1,3) by (intro register_reg_ok[OF ok(1) _ none fr]) (simp_all add: reg_publishers)
  ultimately show ?thesis using Inr by simp
qed
lemma put_session_sel [simp]:
  "g_room (put_session v g) = g_room g" "g_nextRoom (put_session v g) = g_nextRoom g"
  "g_nextSession (put_session v g) = Suc (g_nextSession g)" "g_rooms (put_session v g) = g_rooms g"
  "g_sessions (put_session v g) = g_sessions g" "g_closed (put_session v g) = g_closed g"
  "g_maxViewers (put_session v g) = g_maxViewers g" "g_session (put_session v g) = (g_session g)(g_nextSession g := v)"
  by (simp_all add: put_session_def)

lemma registered_old: "reg_ok g \<Longrightarrow> map_of (g_sessions g) c = Some s \<Longrightarrow> s \<noteq> g_nextSession g"
  using sfu_seatedD(2)[OF reg_okD(7)] by blast

text \<open>The publisher of a registered room whose set-up has not come that far.\<close>

lemma publish_reg_ok:
  assumes ok: "reg_ok g" and none: "xr_publisher (g_room g r) = None"
  shows "reg_ok (put_room r ((g_room g r)\<lparr> xr_publisher := p \<rparr>) (put_session v g))" (is "reg_ok ?g")
proof (rule reg_okI)
  have sig: "xr_viewers (g_room ?g k) = xr_viewers (g_room g k)" "xr_publisherConnectionID (g_room ?g k) = xr_publisherConnectionID (g_room g k)"
    "xr_serverID (g_room ?g k) = xr_serverID (g_room g k)" "xr_id (g_room ?g k) = xr_id (g_room g k)"
    "hasRendition (g_room ?g k) = hasRendition (g_room g k)" for k
    by (auto simp: hasRendition_def)
  show "k < g_nextRoom ?g \<and> xr_publisherConnectionID (g_room ?g k) = c" if "map_of (g_rooms ?g) c = Some k" for c k
    using that reg_okD(5,6)[OF ok, of c k] unfolding sig by simp
  show "sfu_seated ?g c s" if s: "map_of (g_sessions ?g) c = Some s" for c s
  proof -
    have S: "sfu_seated g c s" using s reg_okD(7)[OF ok] by simp
    have "s \<noteq> g_nextSession g" using s registered_old[OF ok] by simp
    moreover have "sv_role (g_session g s) = SessionPublisher \<Longrightarrow> sv_room (g_session g s) \<noteq> r"
      using sfu_seatedD(6)[OF S] none by auto
    ultimately show ?thesis
      using S unfolding sfu_seated_def Let_def sig by (auto split: sessionRole.splits)
  qed
  show "map_of (g_sessions ?g) c = Some s \<and> sv_room (g_session ?g s) = k \<and> sv_role (g_session ?g s) = SessionViewer"
    if at: "map_of (xr_viewers (g_room ?g k)) c = Some s" "\<not> g_closed ?g" for k c s
    using reg_okD(8)[OF ok, of k c s] at registered_old[OF ok, of c s] unfolding sig by simp
  show "reg_publishers i j ?g \<le> MaxChannelPublishers" for i j
    using reg_okD(9)[OF ok, of i j] unfolding reg_publishers_def sig by simp
qed (use reg_okD(1-4)[OF ok] in simp_all)

lemma start_rooms_differ:
  assumes "spc_ok g pc" "spc_room pc = Some (c, r)" "spc_ok g pc'" "spc_room pc' = Some (c', r)"
  shows "c = c'"
  using assms by (cases pc; cases pc') (auto simp: start_room_def)

lemma spc_room_conn: "spc_room pc = Some (c, r) \<Longrightarrow> spc_conn pc = Some c"
  by (cases pc) auto

lemma publish_calls_ok:
  assumes ok: "reg_ok g" "calls_ok g pcs" and i: "i < length pcs" "pcs ! i = StartRegistered a r"
  shows "calls_ok (put_room r ((g_room g r)\<lparr> xr_publisher := Some (g_nextSession g) \<rparr>) (put_session (publisher_view a r) g))
    (pcs[i := StartPublishing a r (g_nextSession g)])" (is "calls_ok ?g ?pcs")
proof (rule calls_ok_move[OF ok(2) i(1)])
  have own: "spc_ok g (StartRegistered a r)" using calls_okD(4)[OF ok(2) nth_mem[OF i(1)]] i(2) by simp
  then show "spc_ok ?g (StartPublishing a r (g_nextSession g))"
    using reg_okD(1)[OF ok(1)] by (auto simp: no_session_def start_room_def)
  show "places_ok ?g ?pcs k" for k
    using calls_okD(2)[OF ok(2), of k] by (auto simp: places_ok_def seats_update i)
  show "spc_ok ?g (pcs ! j)" if j: "j < length pcs" "j \<noteq> i" "spc_ok g (pcs ! j)" for j
  proof (rule spc_ok_frame[OF j(3)])
    show "xr_publisher (g_room ?g k) = xr_publisher (g_room g k)" if "spc_room (pcs ! j) = Some (c, k)" for c k
    proof -
      have "k \<noteq> r"
        using start_rooms_differ[OF j(3) that own, of "sa_connectionID a"] spc_room_conn[OF that]
          other_conn[OF calls_okD(3)[OF ok(2)] i(1) j(1,2)] i(2) by auto
      then show ?thesis by simp
    qed
  qed (auto simp: no_session_def room_sig_def)
  show "tended ?g ?pcs c k" if "map_of (g_rooms ?g) c = Some k" for c k
  proof (rule tended_move[OF calls_okD(5)[OF ok(2)] i(1)])
    show "map_of (g_rooms g) c = Some k" using that by simp
    show "map_of (g_sessions ?g) c = Some s \<and> g_session ?g s = g_session g s" if "map_of (g_sessions g) c = Some s" for s
      using that registered_old[OF ok(1) that] by simp
    show "tended ?g ?pcs c k" if "spc_room (pcs ! i) = Some (c, k)"
      using that i by (auto simp: tended_def intro!: bexI[OF _ set_update_memI])
  qed
qed (simp_all add: i(2))

lemma publish_step_ok:
  assumes ok: "reg_ok (reg m)" "calls_ok (reg m) pcs" and i: "i < length pcs" "pcs ! i = StartRegistered a r"
    and step: "start_publish_step env n a r m = (m', pc')"
  shows "reg_ok (reg m') \<and> calls_ok (reg m') (pcs[i := pc'])"
proof (cases "start_peer env n a (xm_videoCodecDescriptors m)")
  have own: "spc_ok (reg m) (StartRegistered a r)" using calls_okD(4)[OF ok(2) nth_mem[OF i(1)]] i(2) by simp
  then have none: "xr_publisher (g_room (reg m) r) = None" by simp
  case (Inl e)
  have "calls_ok (reg m) (pcs[i := StartRemoving a r])"
    using own by (intro calls_ok_same[OF ok(2) i(1)]) (simp_all add: i(2))
  with ok Inl step show ?thesis by (simp add: start_publish_step_def)
next
  have own: "spc_ok (reg m) (StartRegistered a r)" using calls_okD(4)[OF ok(2) nth_mem[OF i(1)]] i(2) by simp
  then have none: "xr_publisher (xm_roomHeap m r) = None" by simp
  case (Inr x)
  obtain peer ts where x: "x = (peer, ts)" by fastforce
  obtain m1 res where p: "start_publisher env a r peer ts m = (m1, res)" by fastforce
  from reg_start_publisher[OF p] none have res: "res = Inr (xm_nextSession m)"
    and m1: "reg m1 = put_room r ((g_room (reg m) r)\<lparr> xr_publisher := Some (g_nextSession (reg m)) \<rparr>) (put_session (publisher_view a r) (reg m))"
    by auto
  have "m' = m1" "pc' = StartPublishing a r (g_nextSession (reg m))"
    using step Inr x p res by (simp_all add: start_publish_step_def)
  then show ?thesis
    using publish_reg_ok[OF ok(1), of r] publish_calls_ok[OF ok i] none m1 by simp
qed
text \<open>The publisher's session is registered.\<close>

lemma install_reg_ok:
  assumes ok: "reg_ok g" and opn: "\<not> g_closed g" and own: "spc_ok g (StartPublishing a r s)"
  shows "reg_ok (g\<lparr> g_sessions := AList.update (sa_connectionID a) s (g_sessions g) \<rparr>)" (is "reg_ok ?g")
proof (rule reg_okI)
  have fr: "map_of (g_sessions g) (sa_connectionID a) = None" using own by (simp add: no_session_def)
  have "sfu_seated ?g (sa_connectionID a) s"
    using own opn by (simp add: sfu_seated_def publisher_view_def start_room_def Let_def)
  moreover have "sfu_seated ?g c s' = sfu_seated g c s'" for c s' by (simp add: sfu_seated_def Let_def split: sessionRole.split)
  ultimately show "sfu_seated ?g c s'" if "map_of (g_sessions ?g) c = Some s'" for c s'
    using that reg_okD(7)[OF ok, of c s'] by (auto split: if_splits)
  show "map_of (g_sessions ?g) c = Some v \<and> sv_room (g_session ?g v) = k \<and> sv_role (g_session ?g v) = SessionViewer"
    if "map_of (xr_viewers (g_room ?g k)) c = Some v" for k c v
    using reg_okD(8)[OF ok _ opn, of k c v] that fr by auto
  show "reg_publishers j k ?g \<le> MaxChannelPublishers" for j k
    using reg_okD(9)[OF ok, of j k] by (simp add: reg_publishers_def)
qed (use reg_okD[OF ok] opn in simp_all)

lemma install_calls_ok:
  assumes ok: "calls_ok g pcs" and i: "i < length pcs" "pcs ! i = StartPublishing a r s"
  shows "calls_ok (g\<lparr> g_sessions := AList.update (sa_connectionID a) s (g_sessions g) \<rparr>) (pcs[i := StartInstalled a s])"
    (is "calls_ok ?g ?pcs")
proof (rule calls_ok_move[OF ok i(1)])
  have own: "spc_ok g (StartPublishing a r s)" using calls_okD(4)[OF ok nth_mem[OF i(1)]] i(2) by simp
  show "places_ok ?g ?pcs k" for k
    using calls_okD(2)[OF ok, of k] by (simp add: places_ok_def seats_update i)
  show "spc_ok ?g (pcs ! j)" if j: "j < length pcs" "j \<noteq> i" "spc_ok g (pcs ! j)" for j
    by (rule spc_ok_frame[OF j(3)])
      (use other_conn[OF calls_okD(3)[OF ok] i(1) j(1,2), of "sa_connectionID a"] i(2) in \<open>auto simp: no_session_def\<close>)
  show "tended ?g ?pcs c k" if "map_of (g_rooms ?g) c = Some k" for c k
  proof (rule tended_move[OF calls_okD(5)[OF ok] i(1)])
    show "map_of (g_rooms g) c = Some k" using that by simp
    show "map_of (g_sessions ?g) c = Some v \<and> g_session ?g v = g_session g v" if "map_of (g_sessions g) c = Some v" for v
      using that own by (auto simp: no_session_def)
    show "tended ?g ?pcs c k" if "spc_room (pcs ! i) = Some (c, k)"
      using that i(2) own by (auto simp: tended_def publisher_view_def)
  qed
qed (simp_all add: i(2))

lemma install_step_ok:
  assumes ok: "reg_ok (reg m)" "calls_ok (reg m) pcs" and i: "i < length pcs" "pcs ! i = StartPublishing a r s"
    and step: "start_install env a r s m = (m', b)"
  shows "reg_ok (reg m') \<and> calls_ok (reg m') (pcs[i := if b then StartInstalled a s else StartRemoving a r])"
proof (cases b)
  case True
  have own: "spc_ok (reg m) (StartPublishing a r s)" using calls_okD(4)[OF ok(2) nth_mem[OF i(1)]] i(2) by simp
  from reg_start_install(1)[of env a r s m m'] step True
  have I: "\<not> g_closed (reg m)" "reg m' = (reg m)\<lparr> g_sessions := AList.update (sa_connectionID a) s (g_sessions (reg m)) \<rparr>" by simp_all
  then show ?thesis using install_reg_ok[OF ok(1) I(1) own] install_calls_ok[OF ok(2) i] True by simp
next
  case False
  have "calls_ok (reg m) (pcs[i := StartRemoving a r])"
    using calls_okD(4)[OF ok(2) nth_mem[OF i(1)]] i(2) by (intro calls_ok_same[OF ok(2) i(1)]) simp_all
  with ok False reg_start_install(2)[of env a r s m m'] step show ?thesis by simp
qed

text \<open>The room of a call that failed is removed.\<close>

lemma remove_reg_ok:
  assumes ok: "reg_ok g" and fr: "no_session g c"
  shows "reg_ok (g\<lparr> g_rooms := AList.delete c (g_rooms g) \<rparr>)" (is "reg_ok ?g")
proof (rule reg_okI)
  show "sfu_seated ?g k s" if s: "map_of (g_sessions ?g) k = Some s" for k s
  proof -
    have "k \<noteq> c" using s fr by (auto simp: no_session_def)
    with s reg_okD(7)[OF ok, of k s] show ?thesis by (auto simp: sfu_seated_def Let_def split: sessionRole.splits)
  qed
  show "k < g_nextRoom ?g \<and> xr_publisherConnectionID (g_room ?g k) = d" if "map_of (g_rooms ?g) d = Some k" for d k
    using that reg_okD(5,6)[OF ok, of d k] by (auto split: if_splits)
  show "reg_publishers j k ?g \<le> MaxChannelPublishers" for j k
    using reg_okD(9)[OF ok, of j k] length_filter_delete[of "\<lambda>(c, r). xr_id (g_room g r) = k \<and> xr_serverID (g_room g r) = j" c "g_rooms g"]
    by (simp add: reg_publishers_def)
qed (use reg_okD[OF ok] in simp_all)

lemma remove_calls_ok:
  assumes ok: "calls_ok g pcs" and i: "i < length pcs" "pcs ! i = StartRemoving a r"
    and h: "h = g\<lparr> g_rooms := AList.delete (sa_connectionID a) (g_rooms g) \<rparr> \<or> h = g"
    and gone: "map_of (g_rooms h) (sa_connectionID a) = None"
  shows "calls_ok h (pcs[i := Stream_returned])"
proof (rule calls_ok_move[OF ok i(1)])
  show "places_ok h (pcs[i := Stream_returned]) k" for k
    using calls_okD(2)[OF ok, of k] h by (auto simp: places_ok_def seats_update i)
  show "spc_ok h (pcs ! j)" if j: "j < length pcs" "j \<noteq> i" "spc_ok g (pcs ! j)" for j
    by (rule spc_ok_frame[OF j(3)])
      (use h other_conn[OF calls_okD(3)[OF ok] i(1) j(1,2), of "sa_connectionID a"] i(2) in \<open>auto simp: no_session_def dest: spc_room_conn\<close>)
  show "tended h (pcs[i := Stream_returned]) c k" if at: "map_of (g_rooms h) c = Some k" for c k
  proof (rule tended_move[OF calls_okD(5)[OF ok] i(1)])
    show "map_of (g_rooms g) c = Some k" using at h by (auto split: if_splits)
    show "tended h (pcs[i := Stream_returned]) c k" if "spc_room (pcs ! i) = Some (c, k)" using that at gone i(2) by auto
  qed (use h in auto)
qed (use h in \<open>auto simp: i(2)\<close>)

lemma remove_step_ok:
  assumes ok: "reg_ok (reg m)" "calls_ok (reg m) pcs" and i: "i < length pcs" "pcs ! i = StartRemoving a r"
  shows "reg_ok (reg (sfu_removeRoom (sa_connectionID a) r m)) \<and>
    calls_ok (reg (sfu_removeRoom (sa_connectionID a) r m)) (pcs[i := Stream_returned])"
proof -
  let ?c = "sa_connectionID a" and ?g = "reg m"
  have fr: "no_session ?g ?c" using calls_okD(4)[OF ok(2) nth_mem[OF i(1)]] i(2) by simp
  have gone: "map_of (g_rooms (reg (sfu_removeRoom ?c r m))) ?c = None"
    using own_room[OF ok(2) i(1) _ fr] i(2) by (cases "map_of (xm_rooms m) ?c") (auto simp: sfu_removeRoom_def)
  have eq: "reg (sfu_removeRoom ?c r m) = ?g\<lparr> g_rooms := AList.delete ?c (g_rooms ?g) \<rparr> \<or> reg (sfu_removeRoom ?c r m) = ?g"
    by (simp add: reg_removeRoom)
  then have "reg_ok (reg (sfu_removeRoom ?c r m))" using ok(1) remove_reg_ok[OF ok(1) fr] by auto
  with remove_calls_ok[OF ok(2) i eq gone] show ?thesis by simp
qed
subsection \<open>Watching\<close>

lemma first_room_sound:
  assumes "first_room m serverID channelID entries selected = Some r"
    and "\<And>q. selected = Some q \<Longrightarrow> P q"
    and "\<And>c q. (c, q) \<in> set entries \<Longrightarrow> xr_serverID (xm_roomHeap m q) = serverID \<Longrightarrow> xr_id (xm_roomHeap m q) = channelID \<Longrightarrow> P q"
  shows "P r"
  using assms
  by (induction m serverID channelID entries selected rule: first_room.induct) (auto split: if_splits)

lemma findRoomLocked_sound:
  assumes "findRoomLocked serverID channelID publisherID m = Some r"
  shows "xr_serverID (xm_roomHeap m r) = serverID \<and> xr_id (xm_roomHeap m r) = channelID \<and> (\<exists>c. (c, r) \<in> set (xm_rooms m))"
proof (cases "publisherID = ''''")
  case True
  with assms have "first_room m serverID channelID (xm_rooms m) None = Some r" by (simp add: findRoomLocked_def)
  then show ?thesis by (rule first_room_sound) auto
next
  case False
  with assms show ?thesis by (auto simp: findRoomLocked_def split: option.splits if_splits dest: map_of_SomeD)
qed

lemma watch_find_room:
  assumes ok: "reg_ok (reg m)" and "watch_find a m = Inr r"
  shows "watch_room (reg m) a r"
proof -
  have find: "findRoomLocked (wa_serverID a) (wa_channelID a) (wa_publisherConnectionID a) m = Some r"
    and has: "hasRendition (xm_roomHeap m r) (wa_selectedRenditionID a)"
    using assms(2) by (auto simp: watch_find_def Let_def split: if_splits option.splits)
  from findRoomLocked_sound[OF find] obtain c where "(c, r) \<in> set (xm_rooms m)" by blast
  then have "r < g_nextRoom (reg m)" using reg_okD(2)[OF ok] reg_okD(5)[OF ok, of c r] by (simp add: map_of_eq_Some_iff)
  with findRoomLocked_sound[OF find] has show ?thesis by (simp add: watch_room_def)
qed

text \<open>The viewer's session is registered and takes the place that was reserved for it.\<close>

definition reg_watch :: "watch_args \<Rightarrow> rref \<Rightarrow> registry \<Rightarrow> registry" where
  "reg_watch a r g = put_room r (addViewer (wa_connectionID a) (g_nextSession g) (g_room g r))
     ((put_session (viewer_view a r) g)\<lparr> g_sessions := AList.update (wa_connectionID a) (g_nextSession g) (g_sessions g) \<rparr>)"

lemma reg_watch_sel:
  "g_session (reg_watch a r g) = (g_session g)(g_nextSession g := viewer_view a r)" "g_nextRoom (reg_watch a r g) = g_nextRoom g"
  "g_nextSession (reg_watch a r g) = Suc (g_nextSession g)" "g_rooms (reg_watch a r g) = g_rooms g"
  "g_sessions (reg_watch a r g) = AList.update (wa_connectionID a) (g_nextSession g) (g_sessions g)"
  "g_closed (reg_watch a r g) = g_closed g" "g_maxViewers (reg_watch a r g) = g_maxViewers g"
  "room_sig (g_room (reg_watch a r g) k) = room_sig (g_room g k)"
  "xr_publisher (g_room (reg_watch a r g) k) = xr_publisher (g_room g k)"
  "map_of (xr_viewers (g_room (reg_watch a r g) k)) c =
     (if k = r \<and> c = wa_connectionID a then Some (g_nextSession g) else map_of (xr_viewers (g_room g k)) c)"
  "k \<noteq> r \<Longrightarrow> g_room (reg_watch a r g) k = g_room g k"
  by (simp_all add: reg_watch_def put_session_def addViewer_def room_sig_def Let_def)

lemma watch_reg_ok:
  assumes ok: "reg_ok g" and opn: "\<not> g_closed g" and own: "no_session g (wa_connectionID a)" "watch_room g a r"
  shows "reg_ok (reg_watch a r g)" (is "reg_ok ?g")
proof (rule reg_okI)
  note sig = room_sigD[OF reg_watch_sel(8)]
  let ?c = "wa_connectionID a" and ?s = "g_nextSession g"
  have old: "c \<noteq> ?c \<and> s \<noteq> ?s" if "map_of (g_sessions g) c = Some s" for c s
    using that own(1) registered_old[OF ok that] by (auto simp: no_session_def)
  show "k < g_nextRoom ?g \<and> xr_publisherConnectionID (g_room ?g k) = c" if "map_of (g_rooms ?g) c = Some k" for c k
    using that reg_okD(5,6)[OF ok, of c k] by (simp add: reg_watch_sel(2,4) sig)
  show "sfu_seated ?g c s" if s: "map_of (g_sessions ?g) c = Some s" for c s
  proof (cases "c = ?c")
    case True
    with s own(2) reg_okD(1)[OF ok] show ?thesis
      by (simp add: sfu_seated_def reg_watch_sel sig viewer_view_def watch_room_def)
  next
    case False
    with s have g: "map_of (g_sessions g) c = Some s" by (simp add: reg_watch_sel)
    with reg_okD(7)[OF ok g] old[OF g] show ?thesis
      by (simp add: sfu_seated_def reg_watch_sel sig Let_def split: sessionRole.splits)
  qed
  show "map_of (g_sessions ?g) c = Some s \<and> sv_room (g_session ?g s) = k \<and> sv_role (g_session ?g s) = SessionViewer"
    if at: "map_of (xr_viewers (g_room ?g k)) c = Some s" for k c s
  proof (cases "k = r \<and> c = ?c")
    case True
    with at show ?thesis by (simp add: reg_watch_sel viewer_view_def)
  next
    case False
    with at have "map_of (xr_viewers (g_room g k)) c = Some s" by (simp only: reg_watch_sel) simp
    from reg_okD(8)[OF ok this opn] old show ?thesis by (auto simp: reg_watch_sel)
  qed
  show "reg_publishers j k ?g \<le> MaxChannelPublishers" for j k
    using reg_okD(9)[OF ok, of j k] by (simp add: reg_publishers_def reg_watch_sel(4) sig)
qed (use reg_okD(1-4)[OF ok] opn in \<open>simp_all add: reg_watch_sel\<close>)

lemma watch_calls_ok:
  assumes ok: "reg_ok g" "calls_ok g pcs" and opn: "\<not> g_closed g" and i: "i < length pcs" "pcs ! i = WatchPeer a r peer"
  shows "calls_ok (reg_watch a r g) (pcs[i := WatchInstalled a (g_nextSession g)])" (is "calls_ok ?g ?pcs")
proof (rule calls_ok_move[OF ok(2) i(1)])
  let ?c = "wa_connectionID a"
  have fr: "no_session g ?c" using calls_okD(4)[OF ok(2) nth_mem[OF i(1)]] i(2) by simp
  show "places_ok ?g ?pcs k" for k
  proof (cases "k = r")
    case True
    have p: "places_ok g pcs r" by (rule calls_okD(2)[OF ok(2)])
    have "map_of (xr_viewers (g_room g r)) ?c = None"
      using reg_okD(8)[OF ok(1) _ opn] fr by (cases "map_of (xr_viewers (g_room g r)) ?c") (auto simp: no_session_def)
    moreover have "0 < seats r pcs" using seats_pos[OF nth_mem[OF i(1)], of r] i(2) by simp
    ultimately show ?thesis
      using p True by (simp add: places_ok_def seats_update i reg_watch_sel(7))
        (simp add: reg_watch_def addViewer_def Let_def length_update_absent)
  next
    case False
    then show ?thesis by (intro places_same[OF calls_okD(2)[OF ok(2)] i(1)] ) (simp_all add: i(2) reg_watch_sel)
  qed
  show "spc_ok ?g (pcs ! j)" if j: "j < length pcs" "j \<noteq> i" "spc_ok g (pcs ! j)" for j
    by (rule spc_ok_frame[OF j(3)])
      (use other_conn[OF calls_okD(3)[OF ok(2)] i(1) j(1,2), of ?c] i(2) in \<open>auto simp: no_session_def reg_watch_sel\<close>)
  show "tended ?g ?pcs c k" if "map_of (g_rooms ?g) c = Some k" for c k
  proof (rule tended_move[OF calls_okD(5)[OF ok(2)] i(1)])
    show "map_of (g_rooms g) c = Some k" using that by (simp add: reg_watch_sel)
    show "map_of (g_sessions ?g) c = Some s \<and> g_session ?g s = g_session g s" if "map_of (g_sessions g) c = Some s" for s
      using that fr registered_old[OF ok(1) that] by (auto simp: no_session_def reg_watch_sel)
  qed (simp add: i(2))
qed (simp_all add: i(2) reg_watch_sel)
lemma watch_install_step_ok:
  assumes ok: "reg_ok (reg m)" "calls_ok (reg m) pcs" and i: "i < length pcs" "pcs ! i = WatchPeer a r peer"
    and step: "watch_install env a r peer m = (m', res)"
  shows "reg_ok (reg m') \<and>
    calls_ok (reg m') (pcs[i := case res of None \<Rightarrow> WatchCancelling a r | Some s \<Rightarrow> WatchInstalled a s])"
proof (cases res)
  case None
  have "calls_ok (reg m) (pcs[i := WatchCancelling a r])"
    using calls_okD(4)[OF ok(2) nth_mem[OF i(1)]] i(2)
    by (intro calls_ok_same[OF ok(2) i(1)]) (simp_all add: watch_room_def)
  with ok None reg_watch_install(2)[of env a r peer m m'] step show ?thesis by simp
next
  case (Some s)
  from reg_watch_install(1)[of env a r peer m m' s] step Some
  have opn: "\<not> g_closed (reg m)" and s: "s = g_nextSession (reg m)" and m': "reg m' = reg_watch a r (reg m)"
    by (simp_all add: reg_watch_def)
  have own: "no_session (reg m) (wa_connectionID a)" "watch_room (reg m) a r"
    using calls_okD(4)[OF ok(2) nth_mem[OF i(1)]] i(2) by simp_all
  show ?thesis
    using watch_reg_ok[OF ok(1) opn own] watch_calls_ok[OF ok opn i] Some unfolding m' s by simp
qed

lemma call_finish_ok:
  assumes "left m m'" and ok: "reg_ok (reg m)" "calls_ok (reg m) pcs" and i: "i < length pcs"
    and "spc_seat (pcs ! i) = None" "spc_room (pcs ! i) = None"
  shows "reg_ok (reg m') \<and> calls_ok (reg m') (pcs[i := Stream_returned])"
  using left_ok[OF assms(1) ok] calls_ok_same[OF _ i, of "reg m'" Stream_returned] assms(5,6) by simp

lemma left_start_finish: "left m (fst (start_finish env a s m))"
  unfolding start_finish_def
  by (auto split: prod.split option.split intro: left_still left_after[OF _ left_Leave] dest: still_fst[OF still_createOffer] still_reg)

lemma left_watch_finish: "left m (fst (watch_finish env a s m))"
  unfolding watch_finish_def
  by (auto split: prod.split option.split intro: left_still left_after[OF _ left_Leave]
      dest: still_fst[OF still_synchronizeViewerTracks] still_reg)

lemma stream_next_ok:
  assumes ok: "reg_ok (reg m)" "calls_ok (reg m) pcs" and i: "i < length pcs" and step: "stream_next env n (pcs ! i) m = (m', pc')"
  shows "reg_ok (reg m') \<and> calls_ok (reg m') (pcs[i := pc'])"
proof (cases "pcs ! i")
  case (StartEntered a)
  obtain m1 res where r: "start_register a m = (m1, res)" by fastforce
  with step StartEntered register_step_ok[OF ok i StartEntered r] show ?thesis
    by (cases res) (auto simp: stream_next_def)
next
  case (StartRegistered a r)
  with step publish_step_ok[OF ok i StartRegistered] show ?thesis by (simp add: stream_next_def)
next
  case (StartPublishing a r s)
  obtain m1 b where r: "start_install env a r s m = (m1, b)" by fastforce
  with step StartPublishing install_step_ok[OF ok i StartPublishing r] show ?thesis
    by (cases b) (auto simp: stream_next_def)
next
  case (StartInstalled a s)
  with step call_finish_ok[OF left_start_finish ok i] show ?thesis by (auto simp: stream_next_def)
next
  case (StartRemoving a r)
  with step remove_step_ok[OF ok i StartRemoving] show ?thesis by (simp add: stream_next_def)
next
  case (WatchEntered a)
  have own: "spc_ok (reg m) (WatchEntered a)" using calls_okD(4)[OF ok(2) nth_mem[OF i]] WatchEntered by simp
  have "calls_ok (reg m) (pcs[i := Stream_returned])" by (rule calls_ok_same[OF ok(2) i]) (simp_all add: WatchEntered)
  moreover have "calls_ok (reg m) (pcs[i := WatchFound a r])" if "watch_find a m = Inr r" for r
    by (rule calls_ok_same[OF ok(2) i]) (use own watch_find_room[OF ok(1) that] in \<open>simp_all add: WatchEntered\<close>)
  ultimately show ?thesis using step WatchEntered ok(1) by (auto simp: stream_next_def split: sum.splits)
next
  case (WatchFound a r)
  obtain m1 b where r: "watch_reserve r m = (m1, b)" by fastforce
  with step WatchFound reserve_step_ok[OF ok i WatchFound r] show ?thesis by (cases b) (auto simp: stream_next_def)
next
  case (WatchReserved a r)
  have own: "spc_ok (reg m) (WatchReserved a r)" using calls_okD(4)[OF ok(2) nth_mem[OF i]] WatchReserved by simp
  then have "calls_ok (reg m) (pcs[i := WatchCancelling a r])" "calls_ok (reg m) (pcs[i := WatchPeer a r p])" for p
    by (intro calls_ok_same[OF ok(2) i]; simp add: WatchReserved watch_room_def)+
  then show ?thesis using step WatchReserved ok(1) by (auto simp: stream_next_def split: sum.splits)
next
  case (WatchPeer a r peer)
  obtain m1 res where r: "watch_install env a r peer m = (m1, res)" by fastforce
  with step WatchPeer watch_install_step_ok[OF ok i WatchPeer r] show ?thesis by (cases res) (auto simp: stream_next_def)
next
  case (WatchInstalled a s)
  with step call_finish_ok[OF left_watch_finish ok i] show ?thesis by (auto simp: stream_next_def)
next
  case (WatchCancelling a r)
  with step cancel_step_ok[OF ok i WatchCancelling] show ?thesis by (simp add: stream_next_def)
next
  case Stream_returned
  with step ok i show ?thesis by (auto simp: stream_next_def list_update_same_conv[THEN iffD2])
qed
subsection \<open>Entering and closing\<close>

lemma Leave_free:
  assumes ok: "reg_ok (reg m)" "calls_ok (reg m) pcs" and c: "c \<noteq> ''''"
  shows "no_session (reg (sfu_Leave env c m)) c"
proof -
  obtain m' b where r: "sfu_leave env c None m = (m', b)" by fastforce
  from reg_sfu_leave[OF r] c consider "m' = m" "map_of (xm_sessions m) c = None"
    | s where "map_of (g_sessions (reg m)) c = Some s" "reg m' = reg_leave c s (reg m)" by auto
  then show ?thesis
  proof cases
    case 1
    with r show ?thesis by (simp add: sfu_Leave_def no_session_def)
  next
    case 2
    have "s \<in> set (leavers (reg m) s)"
      using leavers_publisher[OF ok(1) 2(1)] by (auto simp: leavers_def split: if_splits)
    with leave_sessions[OF ok 2(1), of c] 2 have "map_of (g_sessions (reg m')) c = None"
      by (cases "map_of (g_sessions (reg m')) c") auto
    with r show ?thesis by (simp add: sfu_Leave_def no_session_def)
  qed
qed

lemma enter_calls_ok:
  assumes ok: "calls_ok g pcs" and new: "\<forall>pc \<in> set pcs. spc_conn pc \<noteq> spc_conn pc'"
    and pc: "spc_ok g pc'" "spc_seat pc' = None"
  shows "calls_ok g (pcs @ [pc'])"
proof (rule calls_okI)
  show "places_ok g (pcs @ [pc']) r" for r using calls_okD(2)[OF ok, of r] pc(2) by (simp add: places_ok_def seats_def)
  have "spc_conn (pcs ! j) \<noteq> spc_conn pc'" if "j < length pcs" for j using new that by simp
  then show "unique_calls (pcs @ [pc'])"
    using calls_okD(3)[OF ok] unfolding unique_calls_def by (auto simp: nth_append less_Suc_eq)
  show "tended g (pcs @ [pc']) c r" if "map_of (g_rooms g) c = Some r" for c r
    using calls_okD(5)[OF ok that] by (auto simp: tended_def)
qed (use calls_okD[OF ok] pc(1) in auto)

lemma call_enter_ok:
  assumes ok: "reg_ok (reg m)" "calls_ok (reg m) pcs" and c: "c \<noteq> ''''" "spc_conn pc' = Some c" "spc_seat pc' = None"
    and new: "\<forall>pc \<in> set pcs. spc_conn pc \<noteq> Some c" and pc: "\<And>g. no_session g c \<Longrightarrow> spc_ok g pc'"
  shows "reg_ok (reg (sfu_Leave env c m)) \<and> calls_ok (reg (sfu_Leave env c m)) (pcs @ [pc'])"
  using left_ok[OF left_Leave ok] enter_calls_ok[OF _ _ pc[OF Leave_free[OF ok c(1)]] c(3)] new c(2) by simp

lemma Close_ok:
  assumes ok: "reg_ok (reg m)" "calls_ok (reg m) pcs"
  shows "reg_ok (reg (sfu_Close env m)) \<and> calls_ok (reg (sfu_Close env m)) pcs"
proof -
  have "reg_ok g' \<and> calls_ok g' pcs"
    if ws: "set ws \<subseteq> set (map snd (g_sessions g))" and g: "reg_ok g" "calls_ok g pcs"
      and g': "g' = shut ws (g\<lparr> g_closed := True, g_sessions := [], g_rooms := [] \<rparr>)" for ws g g'
  proof
    show "reg_ok g'" using reg_okD(1)[OF g(1)] by (simp add: g' reg_ok_def shut_def reg_publishers_def)
    have "spc_ok g' pc" if pc: "pc \<in> set pcs" for pc
    proof (rule spc_ok_frame[OF calls_okD(4)[OF g(2) pc]])
      show "g_session g' s = g_session g s" if s: "spc_publisher pc = Some s" for s
      proof -
        obtain a r where "pc = StartPublishing a r s" using s by (cases pc) auto
        with calls_okD(4)[OF g(2) pc] have v: "sv_connectionID (g_session g s) = sa_connectionID a" "no_session g (sa_connectionID a)"
          by (simp_all add: publisher_view_def)
        have "s \<notin> set ws"
        proof
          assume "s \<in> set ws"
          with ws obtain c where "map_of (g_sessions g) c = Some s" using reg_okD(3)[OF g(1)] by (auto simp: map_of_eq_Some_iff)
          with sfu_seatedD(5)[OF reg_okD(7)[OF g(1) this]] v show False by (simp add: no_session_def)
        qed
        then show ?thesis by (intro session_view.equality) (simp_all add: g' shut_def)
      qed
    qed (simp_all add: g' shut_def no_session_def)
    moreover have "places_ok g' pcs r" for r
      using calls_okD(2)[OF g(2), of r] by (simp add: g' shut_def places_ok_def)
    ultimately show "calls_ok g' pcs"
      using calls_okD(1,3)[OF g(2)] by (intro calls_okI) (simp_all add: g' shut_def)
  qed
  from this[of _ "reg m"] reg_Close[of env m] ok show ?thesis by auto
qed

subsection \<open>Pending candidates\<close>

lemma candidates_still: "candidates_ok m \<Longrightarrow> still m m' \<Longrightarrow> candidates_ok m'"
  by (simp add: still_def)

lemma candidates_fst: "candidates_ok (fst r) \<Longrightarrow> r = (m, x) \<Longrightarrow> candidates_ok m"
  by simp

lemma candidates_fields [simp]:
  "candidates_ok (m\<lparr> xm_sessions := x \<rparr>) = candidates_ok m" "candidates_ok (m\<lparr> xm_rooms := y \<rparr>) = candidates_ok m"
  "candidates_ok (m\<lparr> xm_closed := b \<rparr>) = candidates_ok m" "candidates_ok (m\<lparr> xm_roomHeap := h \<rparr>) = candidates_ok m"
  "candidates_ok (m\<lparr> xm_nextRoom := n \<rparr>) = candidates_ok m" "candidates_ok (m\<lparr> xm_nextSession := n \<rparr>) = candidates_ok m"
  "candidates_ok (m\<lparr> xm_trackHeap := th \<rparr>) = candidates_ok m" "candidates_ok (m\<lparr> xm_nextTrack := n \<rparr>) = candidates_ok m"
  "candidates_ok (on_room r f m) = candidates_ok m" "candidates_ok (m\<lparr> xm_tasks := ts \<rparr>) = candidates_ok m"
  by (simp_all add: candidates_ok_def on_room_def)

lemma candidates_on_session:
  "candidates_ok m \<Longrightarrow> (\<And>x. xs_pendingCandidates (f x) = xs_pendingCandidates x) \<Longrightarrow> candidates_ok (on_session s f m)"
  by (simp add: candidates_ok_def on_session_def)

lemma candidates_fold:
  "candidates_ok m \<Longrightarrow> (\<And>x m. candidates_ok m \<Longrightarrow> candidates_ok (f x m)) \<Longrightarrow> candidates_ok (fold f xs m)"
  by (rule fold_inv[where P = candidates_ok]) auto

lemma candidates_sections [simp]:
  assumes "candidates_ok m"
  shows "candidates_ok (sfu_drop_session s m)" "candidates_ok (sfu_close env s m)" "candidates_ok (sfu_removeRoom c r m)"
    "candidates_ok (watch_cancel r m)" "candidates_ok (fst (watch_reserve r m))" "candidates_ok (fst (start_register a m))"
    "candidates_ok (fst (start_install env a r s m))" "candidates_ok (forward_relay remote rendition s m)"
  using assms
  by (auto simp: sfu_drop_session_def sfu_close_def sfu_removeRoom_def watch_cancel_def watch_reserve_def start_register_def
      start_install_def forward_relay_def Let_def split_beta intro!: candidates_on_session)

lemma candidates_new_sessions [simp]:
  assumes "candidates_ok m"
  shows "candidates_ok (fst (start_publisher env a r peer ts m))" "candidates_ok (fst (watch_install env w r peer m))"
  using assms
  by (auto simp: start_publisher_def watch_install_def sfu_newSession_def Let_def split_beta candidates_ok_def on_room_def)

lemma candidates_leave [simp]:
  assumes "candidates_ok m"
  shows "candidates_ok (fst (sfu_leave env c e m))"
proof -
  have "candidates_ok m1" if "sfu_leave_locked c e m = Some (m1, vs)" for m1 vs
    using that assms
    by (auto simp: sfu_leave_locked_def Let_def split_beta split: option.splits if_splits
        intro!: candidates_fold candidates_on_session)
  then show ?thesis
    using assms by (auto simp: sfu_leave_def split: option.split intro: candidates_fold)
qed

lemma candidates_calls [simp]:
  assumes "candidates_ok m"
  shows "candidates_ok (sfu_Leave env c m)" "candidates_ok (sfu_failSession env s reason m)"
    "candidates_ok (sfu_recovery_exhausted env s m)" "candidates_ok (sfu_Close env m)"
proof -
  have fail: "candidates_ok (sfu_failSession env s reason m1)" if "candidates_ok m1" for m1 s reason
    using candidates_still[OF candidates_leave[OF that] still_log(5)] that
    by (auto simp: sfu_failSession_def Let_def split_beta)
  then show "candidates_ok (sfu_failSession env s reason m)" using assms .
  show "candidates_ok (sfu_recovery_exhausted env s m)"
    using fail candidates_still[OF assms still_set(10)] assms by (simp add: sfu_recovery_exhausted_def)
  show "candidates_ok (sfu_Leave env c m)" using assms by (simp add: sfu_Leave_def)
  show "candidates_ok (sfu_Close env m)" using assms by (auto simp: sfu_Close_def intro: candidates_fold)
qed

lemma candidates_forward_publish [simp]:
  assumes "candidates_ok m"
  shows "candidates_ok (fst (forward_publish env remote key rendition s m))"
  using assms by (simp add: forward_publish_def Let_def split_beta)

lemma candidates_forward [simp]:
  assumes "candidates_ok m"
  shows "candidates_ok (fst (forwardTrack_start env remote s m))" and "candidates_ok (forwardTrack_end key t s m)"
  using assms by (simp_all add: forwardTrack_start_def forwardTrack_end_def Let_def split_beta split: option.split)

lemma candidates_next:
  assumes ok: "candidates_ok m" and step: "stream_next env n pc m = (m', pc')"
  shows "candidates_ok m'"
proof -
  have "candidates_ok (fst (start_finish env a s m))" "candidates_ok (fst (watch_finish env w s m))" for a w s
    using candidates_still[OF ok still_fst[OF still_createOffer]] candidates_still[OF ok still_fst[OF still_synchronizeViewerTracks]]
    by (auto simp: start_finish_def watch_finish_def split: prod.split option.split)
  moreover have "candidates_ok (fst (start_publish_step env n a r m))" for a r
    using ok by (auto simp: start_publish_step_def split: prod.split sum.split dest: candidates_fst[OF candidates_new_sessions(1)[OF ok]])
  moreover have "m' = fst (stream_next env n pc m)" using step by simp
  ultimately show ?thesis
    using ok
    by (cases pc) (auto simp: stream_next_def split: prod.split sum.split option.split bool.split
        dest: candidates_fst[OF candidates_sections(5)[OF ok]] candidates_fst[OF candidates_sections(6)[OF ok]]
          candidates_fst[OF candidates_sections(7)[OF ok]] candidates_fst[OF candidates_new_sessions(2)[OF ok]])
qed

subsection \<open>Runs\<close>

lemma still_ok:
  assumes "still m m'"
  shows "reg_ok (reg m) \<Longrightarrow> reg_ok (reg m')" "calls_ok (reg m) pcs \<Longrightarrow> calls_ok (reg m') pcs"
    "candidates_ok m \<Longrightarrow> candidates_ok m'"
  using still_reg[OF assms] candidates_still[OF _ assms] by simp_all

lemma sfu_call_ok:
  assumes ok: "reg_ok (reg m)" "calls_ok (reg m) pcs" "candidates_ok m" and "sfu_call env m m'"
  shows "reg_ok (reg m') \<and> calls_ok (reg m') pcs \<and> candidates_ok m'"
  using assms(4)
proof cases
  case do_Close
  with Close_ok[OF ok(1,2)] ok(3) show ?thesis by simp
next
  case (do_task s reason rest)
  have "left m m'" using do_task left_after[OF _ left_failSession, of "m\<lparr> xm_tasks := rest \<rparr>"] by (simp add: still_reg)
  from left_ok[OF this ok(1,2)] ok(3) do_task show ?thesis by simp
next
  case do_track_end
  with ok show ?thesis by (simp add: reg_forwardTrack_end)
qed (use ok left_ok[OF left_Leave ok(1,2)] left_ok[OF left_failSession ok(1,2)] left_ok[OF left_recovery_exhausted ok(1,2)]
    left_ok[OF left_forwardTrack_start ok(1,2)] in \<open>auto intro: still_ok(1)[OF _ ok(1)] still_ok(2)[OF _ ok(2)] still_ok(3)[OF _ ok(3)]\<close>)

interpretation stream_run: kept_by stream_ok "sfu_step env" for env
proof
  fix y y' assume "stream_ok y" and step: "sfu_step env y y'"
  then have ok: "reg_ok (reg (zy_manager y))" "calls_ok (reg (zy_manager y)) (zy_calls y)" "candidates_ok (zy_manager y)"
    by (simp_all add: stream_ok_def)
  from step show "stream_ok y'"
  proof cases
    case (enter_start a)
    have "sa_connectionID a \<noteq> ''''" using enter_start(2) by (auto simp: start_check_def split: if_splits)
    with call_enter_ok[OF ok(1,2) this, of "StartEntered a" env] enter_start ok(3) show ?thesis by (simp add: stream_ok_def)
  next
    case (enter_watch a)
    then have "wa_connectionID a \<noteq> ''''" by (simp add: watch_invalid_def)
    with call_enter_ok[OF ok(1,2) this, of "WatchEntered a" env] enter_watch ok(3) show ?thesis by (simp add: stream_ok_def)
  next
    case (step_next i n m' pc')
    with stream_next_ok[OF ok(1,2) step_next(2,3)] candidates_next[OF ok(3) step_next(3)] show ?thesis by (simp add: stream_ok_def)
  next
    case (step_call m')
    with sfu_call_ok[OF ok step_call(2)] show ?thesis by (simp add: stream_ok_def)
  qed
qed

end
