(* ===== verification/StreamGuarantees.thy ===== *)
theory StreamGuarantees
  imports StreamSfuRun
begin

text \<open>
  What the stream media server guarantees its callers, in every interleaving of its calls: places and
  publishers stay within their limits, the maps and the rooms agree, a call that fails leaves nothing
  behind, leaving ends exactly the sessions it should, and a closed manager stays empty. At the end a
  concrete Pion and a concrete run, to which the theorems are applied.
\<close>

lemma stream_reachable_ok:
  assumes "0 \<le> maximum" and "(sfu_step env)\<^sup>*\<^sup>* (new_stream_system maximum v a now blank track) y"
  shows "reg_ok (reg (zy_manager y))" "calls_ok (reg (zy_manager y)) (zy_calls y)" "candidates_ok (zy_manager y)"
  using stream_run.along[OF assms(2) new_stream_ok[OF assms(1)]] by (simp_all add: stream_ok_def)

subsection \<open>What no step changes\<close>

definition lasting :: "registry \<Rightarrow> registry \<Rightarrow> bool" where
  "lasting g g' \<longleftrightarrow> g_maxViewers g' = g_maxViewers g \<and> (g_closed g \<longrightarrow> g_closed g')"

lemma lasting_refl [simp]: "lasting g g"
  by (simp add: lasting_def)

lemma lasting_ops [simp]:
  "lasting g (reg_leave c s g)" "lasting g (put_session v g)" "lasting g (put_room r room (put_session v g))"
  "lasting g (shut ws (g\<lparr> g_closed := True, g_sessions := [], g_rooms := [] \<rparr>))"
  by (simp_all add: lasting_def reg_leave_def unregister_def shut_def put_room_def put_session_def Let_def)

lemma lasting_left: "left m m' \<Longrightarrow> lasting (reg m) (reg m')"
  by (auto simp: left_def)

lemma lasting_still: "still m m' \<Longrightarrow> lasting (reg m) (reg m')"
  by (simp add: still_reg)

lemma lasting_publish_step: "start_publish_step env n a r m = (m', pc') \<Longrightarrow> lasting (reg m) (reg m')"
  by (auto simp: start_publish_step_def split: sum.splits prod.splits dest!: reg_start_publisher)

lemma lasting_next:
  assumes "stream_next env n pc m = (m', pc')"
  shows "lasting (reg m) (reg m')"
proof (cases pc)
  case (StartRegistered a r)
  with assms show ?thesis by (simp add: stream_next_def lasting_publish_step)
next
  case (StartInstalled a s)
  with assms lasting_left[OF left_start_finish] show ?thesis by (auto simp: stream_next_def)
next
  case (WatchInstalled a s)
  with assms lasting_left[OF left_watch_finish] show ?thesis by (auto simp: stream_next_def)
qed (use assms in \<open>auto simp: stream_next_def lasting_def reg_register_def reg_removeRoom watch_cancel_def on_room_def sfu_removeRoom_def
    start_register_def start_install_def on_session_def watch_reserve_def watch_install_def Let_def
    split: sum.splits prod.splits bool.splits option.splits if_splits\<close>)

lemma lasting_call:
  assumes "sfu_call env m m'"
  shows "lasting (reg m) (reg m')"
  using assms
proof cases
  case do_Close
  with reg_Close[of env m] show ?thesis by auto
next
  case (do_task s reason rest)
  then show ?thesis using lasting_left[OF left_after[OF _ left_failSession, of "m\<lparr> xm_tasks := rest \<rparr>"]] by (simp add: still_reg)
next
  case do_track_end
  then show ?thesis by (simp add: reg_forwardTrack_end)
qed (use lasting_left[OF left_Leave] lasting_left[OF left_failSession] lasting_left[OF left_recovery_exhausted]
    lasting_left[OF left_forwardTrack_start] in \<open>auto intro: lasting_still\<close>)

lemma lasting_step: "sfu_step env y y' \<Longrightarrow> lasting (reg (zy_manager y)) (reg (zy_manager y'))"
  by (induction rule: sfu_step.induct) (simp_all add: lasting_left[OF left_Leave] lasting_next lasting_call)

lemma lasting_run: "(sfu_step env)\<^sup>*\<^sup>* y y' \<Longrightarrow> lasting (reg (zy_manager y)) (reg (zy_manager y'))"
proof (induction rule: rtranclp_induct)
  case (step y1 y2)
  from lasting_step[OF step(2)] step(3) show ?case by (auto simp: lasting_def)
qed simp

lemma maximum_kept:
  "(sfu_step env)\<^sup>*\<^sup>* (new_stream_system maximum v a now blank track) y \<Longrightarrow> xm_maxViewers (zy_manager y) = maximum"
  using lasting_run[of env "new_stream_system maximum v a now blank track" y]
  by (simp add: lasting_def new_stream_system_def new_stream_manager_def)

subsection \<open>Limits\<close>

text \<open>C10: In every interleaving of the calls of the stream server, a room has at most \<^verbatim>\<open>maxViewers\<close>
  viewers, counting the places reserved for calls in flight, and every reserved place belongs to such a
  call; a channel has at most eight publishers; no session holds more than 64 candidates.\<close>

theorem stream_server_limits:
  assumes "0 \<le> maximum" and "(sfu_step env)\<^sup>*\<^sup>* (new_stream_system maximum v a now blank track) y"
  shows "(\<forall>r. int (length (xr_viewers (xm_roomHeap (zy_manager y) r))) + xr_reservations (xm_roomHeap (zy_manager y) r) \<le> maximum \<and>
      xr_reservations (xm_roomHeap (zy_manager y) r) = seats r (zy_calls y)) \<and>
    (\<forall>serverID channelID. publishers_in serverID channelID (zy_manager y) \<le> 8) \<and>
    (\<forall>s. length (xs_pendingCandidates (sess (zy_manager y) s)) \<le> 64)"
proof -
  let ?m = "zy_manager y"
  note ok = stream_reachable_ok[OF assms]
  have "int (length (xr_viewers (xm_roomHeap ?m r))) + xr_reservations (xm_roomHeap ?m r) \<le> maximum"
    "xr_reservations (xm_roomHeap ?m r) = seats r (zy_calls y)" for r
    using calls_okD(2)[OF ok(2), of r] maximum_kept[OF assms(2)] by (simp_all add: places_ok_def)
  moreover have "publishers_in i j ?m \<le> 8" for i j
    using reg_okD(9)[OF ok(1), of i j] by (simp add: reg_publishers MaxChannelPublishers_def)
  moreover have "length (xs_pendingCandidates (sess ?m s)) \<le> 64" for s
    using ok(3) by (simp add: candidates_ok_def sfu_MaxPendingICECandidates_def)
  ultimately show ?thesis by blast
qed

subsection \<open>The maps and the rooms\<close>

text \<open>C9: In every run, a registered session is open and belongs to its connection, its server and
  channel are those of its room; a publisher's room is the one registered for its connection and has it
  as its publisher; a viewer is among the viewers of its room, which has the rendition it selected; and
  conversely the viewers of every room of an open manager are registered viewers of that room.\<close>

theorem stream_registry_consistent:
  assumes "0 \<le> maximum" and "(sfu_step env)\<^sup>*\<^sup>* (new_stream_system maximum v a now blank track) y"
  shows "let m = zy_manager y in
    (\<forall>c s. map_of (xm_sessions m) c = Some s \<longrightarrow>
      \<not> xs_closed (sess m s) \<and> xs_connectionID (sess m s) = c \<and> xs_serverID (sess m s) = xr_serverID (sess_room m s) \<and>
      xs_channelID (sess m s) = xr_id (sess_room m s) \<and>
      (case xs_role (sess m s) of
         SessionPublisher \<Rightarrow> map_of (xm_rooms m) c = Some (xs_room (sess m s)) \<and> xr_publisher (sess_room m s) = Some s
       | SessionViewer \<Rightarrow> map_of (xr_viewers (sess_room m s)) c = Some s \<and>
           hasRendition (sess_room m s) (xs_selectedRenditionID (sess m s)))) \<and>
    (\<forall>r c s. map_of (xr_viewers (xm_roomHeap m r)) c = Some s \<and> \<not> xm_closed m \<longrightarrow>
      map_of (xm_sessions m) c = Some s \<and> xs_room (sess m s) = r \<and> xs_role (sess m s) = SessionViewer)"
proof -
  define m where "m = zy_manager y"
  have ok: "reg_ok (reg m)" unfolding m_def by (rule stream_reachable_ok(1)[OF assms])
  have "\<not> xs_closed (sess m s) \<and> xs_connectionID (sess m s) = c \<and> xs_serverID (sess m s) = xr_serverID (sess_room m s) \<and>
      xs_channelID (sess m s) = xr_id (sess_room m s) \<and>
      (case xs_role (sess m s) of
         SessionPublisher \<Rightarrow> map_of (xm_rooms m) c = Some (xs_room (sess m s)) \<and> xr_publisher (sess_room m s) = Some s
       | SessionViewer \<Rightarrow> map_of (xr_viewers (sess_room m s)) c = Some s \<and>
           hasRendition (sess_room m s) (xs_selectedRenditionID (sess m s)))" if "map_of (xm_sessions m) c = Some s" for c s
    using reg_okD(7)[OF ok, of c s] that by (simp add: sfu_seated_def Let_def split: sessionRole.splits)
  moreover have "map_of (xm_sessions m) c = Some s \<and> xs_room (sess m s) = r \<and> xs_role (sess m s) = SessionViewer"
    if "map_of (xr_viewers (xm_roomHeap m r)) c = Some s" "\<not> xm_closed m" for r c s
    using reg_okD(8)[OF ok, of r c s] that by simp
  ultimately show ?thesis unfolding Let_def m_def[symmetric] by blast
qed

text \<open>C30: Once every call has returned nothing is left over: no place is reserved, and every room that
  is registered has its publisher, open and registered for the same connection.\<close>

theorem stream_nothing_left_over:
  assumes "0 \<le> maximum" and "(sfu_step env)\<^sup>*\<^sup>* (new_stream_system maximum v a now blank track) y"
    and "set (zy_calls y) \<subseteq> {Stream_returned}"
  shows "let m = zy_manager y in
    (\<forall>r. xr_reservations (xm_roomHeap m r) = 0) \<and>
    (\<forall>c r. map_of (xm_rooms m) c = Some r \<longrightarrow>
       (\<exists>s. map_of (xm_sessions m) c = Some s \<and> xr_publisher (xm_roomHeap m r) = Some s \<and> xs_room (sess m s) = r \<and>
            xs_role (sess m s) = SessionPublisher \<and> \<not> xs_closed (sess m s)))"
proof -
  define m where "m = zy_manager y"
  have ok: "reg_ok (reg m)" "calls_ok (reg m) (zy_calls y)" unfolding m_def by (rule stream_reachable_ok[OF assms(1,2)])+
  have none: "seats r (zy_calls y) = 0" for r using assms(3) by (intro seats_zero) auto
  have "xr_reservations (xm_roomHeap m r) = 0" for r
    using calls_okD(2)[OF ok(2), of r] none by (simp add: places_ok_def)
  moreover have "\<exists>s. map_of (xm_sessions m) c = Some s \<and> xr_publisher (xm_roomHeap m r) = Some s \<and> xs_room (sess m s) = r \<and>
      xs_role (sess m s) = SessionPublisher \<and> \<not> xs_closed (sess m s)" if at: "map_of (xm_rooms m) c = Some r" for c r
  proof -
    have "\<nexists>pc. pc \<in> set (zy_calls y) \<and> spc_room pc = Some (c, r)" using assms(3) by auto
    with calls_okD(5)[OF ok(2), of c r] at obtain s where s: "map_of (xm_sessions m) c = Some s"
        "xs_role (sess m s) = SessionPublisher" "xs_room (sess m s) = r"
      by (auto simp: tended_def)
    from sfu_seatedD[OF reg_okD(7)[OF ok(1), of c s]] s show ?thesis by auto
  qed
  ultimately show ?thesis unfolding Let_def m_def[symmetric] by blast
qed

subsection \<open>Leaving\<close>

text \<open>C31: When a connection leaves, exactly its session is closed and unregistered, and if it publishes
  also its room and every viewer of it; all other sessions stay registered and open and all other rooms
  stay.\<close>

theorem sfu_leave_exact:
  assumes "0 \<le> maximum" and "(sfu_step env)\<^sup>*\<^sup>* (new_stream_system maximum v a now blank track) y"
    and "map_of (xm_sessions (zy_manager y)) c = Some s" and "c \<noteq> ''''"
  shows "let m = zy_manager y; m' = sfu_Leave env c m;
      gone = (\<lambda>w. w = s \<or> xs_role (sess m s) = SessionPublisher \<and> xs_room (sess m w) = xs_room (sess m s)) in
    (\<forall>d w. map_of (xm_sessions m) d = Some w \<longrightarrow>
       map_of (xm_sessions m') d = (if gone w then None else Some w) \<and> xs_closed (sess m' w) = gone w) \<and>
    (\<forall>d. map_of (xm_rooms m') d = (if d = c \<and> xs_role (sess m s) = SessionPublisher then None else map_of (xm_rooms m) d))"
proof -
  define m where "m = zy_manager y"
  have ok: "reg_ok (reg m)" "calls_ok (reg m) (zy_calls y)" unfolding m_def by (rule stream_reachable_ok[OF assms(1,2)])+
  have s: "map_of (g_sessions (reg m)) c = Some s" using assms(3) by (simp add: m_def)
  obtain m' b where r: "sfu_leave env c None m = (m', b)" by fastforce
  from reg_sfu_leave[OF r] s assms(4) have m': "reg m' = reg_leave c s (reg m)" by auto
  note F = leave_facts[OF ok(1) s, folded m', unfolded reg_sel] and L = leave_sessions[OF ok s, folded m', unfolded reg_sel]
  have gone: "w \<in> set (leavers (reg m) s) \<longleftrightarrow> w = s \<or> xs_role (sess m s) = SessionPublisher \<and> xs_room (sess m w) = xs_room (sess m s)"
    if w: "map_of (xm_sessions m) d = Some w" for d w
  proof -
    have "w = s" if "xs_role (sess m s) = SessionPublisher" "xs_role (sess m w) = SessionPublisher" "xs_room (sess m w) = xs_room (sess m s)"
      using sfu_seatedD(6)[OF reg_okD(7)[OF ok(1) s]] sfu_seatedD(6)[OF reg_okD(7)[OF ok(1)], of d w] w that by simp
    with leavers_iff[OF ok(1) s, of d w] calls_okD(2)[OF ok(2)] w show ?thesis
      by (cases "xs_role (sess m w)") (auto simp: places_ok_def)
  qed
  have "\<not> xs_closed (sess m w)" if "map_of (xm_sessions m) d = Some w" for d w
    using sfu_seatedD(4)[OF reg_okD(7)[OF ok(1)], of d w] that by simp
  then have "map_of (xm_sessions m') d = (if w \<in> set (leavers (reg m) s) then None else Some w) \<and>
      xs_closed (sess m' w) = (w \<in> set (leavers (reg m) s))" if w: "map_of (xm_sessions m) d = Some w" for d w
    using w L[of d w] L[of d "the (map_of (xm_sessions m') d)"] F(5)[of w, THEN arg_cong[of _ _ sv_closed]]
    by (cases "map_of (xm_sessions m') d") auto
  with gone F(6) have "(\<forall>d w. map_of (xm_sessions m) d = Some w \<longrightarrow>
      map_of (xm_sessions m') d = (if w = s \<or> xs_role (sess m s) = SessionPublisher \<and> xs_room (sess m w) = xs_room (sess m s) then None else Some w) \<and>
      xs_closed (sess m' w) = (w = s \<or> xs_role (sess m s) = SessionPublisher \<and> xs_room (sess m w) = xs_room (sess m s)))" by auto
  then show ?thesis using F(6) r by (simp add: Let_def m_def[symmetric] sfu_Leave_def)
qed

text \<open>C32: Closing the manager is final: whatever runs afterwards, it has neither rooms nor sessions.\<close>

theorem stream_close_final:
  assumes "0 \<le> maximum" and "(sfu_step env)\<^sup>*\<^sup>* (new_stream_system maximum v a now blank track) y"
    and "(sfu_step env)\<^sup>*\<^sup>* (y\<lparr> zy_manager := sfu_Close env (zy_manager y) \<rparr>) y'"
  shows "xm_closed (zy_manager y') \<and> xm_rooms (zy_manager y') = [] \<and> xm_sessions (zy_manager y') = []"
proof -
  let ?y = "y\<lparr> zy_manager := sfu_Close env (zy_manager y) \<rparr>"
  have "sfu_step env y ?y" by (rule step_call[OF do_Close])
  with assms(2,3) have "(sfu_step env)\<^sup>*\<^sup>* (new_stream_system maximum v a now blank track) y'"
    by (meson rtranclp.rtrancl_into_rtrancl rtranclp_trans)
  from reg_okD(4)[OF stream_reachable_ok(1)[OF assms(1) this]]
  have "xm_closed (zy_manager y') \<Longrightarrow> xm_rooms (zy_manager y') = [] \<and> xm_sessions (zy_manager y') = []" by simp
  moreover have "xm_closed (sfu_Close env (zy_manager y))"
    using reg_Close[of env "zy_manager y"] by (auto simp: shut_def dest!: arg_cong[of _ _ g_closed])
  ultimately show ?thesis using lasting_run[OF assms(3)] by (simp add: lasting_def)
qed
subsection \<open>A call is all or nothing\<close>

lemma last_call_ok: "calls_ok g (pcs @ [pc]) \<Longrightarrow> spc_ok g pc"
  using calls_okD(4) by fastforce

text \<open>One call more, whatever the others are doing, run to its end.\<close>

abbreviation over :: "('p, 'f) sfu_manager \<Rightarrow> 'p stream_pc list \<Rightarrow> bool" where
  "over m pcs \<equiv> reg_ok (reg m) \<and> calls_ok (reg m) (pcs @ [Stream_returned])"

definition watching :: "watch_args \<Rightarrow> ('p, 'f) sfu_manager \<Rightarrow> bool" where
  "watching a m \<longleftrightarrow>
     (\<exists>s p. map_of (xm_sessions m) (wa_connectionID a) = Some s \<and> xs_role (sess m s) = SessionViewer \<and> \<not> xs_closed (sess m s) \<and>
        xs_selectedRenditionID (sess m s) = wa_selectedRenditionID a \<and>
        map_of (xr_viewers (sess_room m s)) (wa_connectionID a) = Some s \<and> hasRendition (sess_room m s) (wa_selectedRenditionID a) \<and>
        map_of (xm_rooms m) p = Some (xs_room (sess m s)) \<and> (wa_publisherConnectionID a \<noteq> '''' \<longrightarrow> p = wa_publisherConnectionID a) \<and>
        xr_serverID (sess_room m s) = wa_serverID a \<and> xr_id (sess_room m s) = wa_channelID a)"

lemma finish_over:
  assumes "reg_ok (reg m)" "calls_ok (reg m) (pcs @ [pc])" "left m m'" "spc_seat pc = None" "spc_room pc = None"
  shows "over m' pcs"
  using call_finish_ok[OF assms(3,1,2), of "length pcs"] assms(4,5) by simp

lemma watch_cancelled_alone:
  assumes "reg_ok (reg m)" "calls_ok (reg m) (pcs @ [WatchCancelling a r])"
  shows "over (watch_cancel r m) pcs \<and> map_of (xm_sessions (watch_cancel r m)) (wa_connectionID a) = None"
proof -
  have "over (watch_cancel r m) pcs" using cancel_step_ok[OF assms, of "length pcs" a r] by simp
  moreover have "no_session (reg m) (wa_connectionID a)" using last_call_ok[OF assms(2)] by simp
  ultimately show ?thesis by (simp add: no_session_def watch_cancel_def on_room_def)
qed

lemma watch_installed_alone:
  assumes ok: "reg_ok (reg m)" "calls_ok (reg m) (pcs @ [WatchInstalled a s])" and c: "wa_connectionID a \<noteq> ''''"
    and run: "watch_finish env a s m = (m', res)" and w: "watching a m"
  shows "over m' pcs \<and> (case res of None \<Rightarrow> watching a m' | Some e \<Rightarrow> map_of (xm_sessions m') (wa_connectionID a) = None)"
proof -
  have over: "over m' pcs" using finish_over[OF ok left_watch_finish[of m env a s]] run by simp
  obtain m1 e where sync: "synchronizeViewerTracks env True s m = (m1, e)" by fastforce
  have still: "still m m1" by (rule still_fst[OF still_synchronizeViewerTracks sync])
  show ?thesis
  proof (cases e)
    case None
    then have m': "m' = m1" "res = None" using run sync by (simp_all add: watch_finish_def)
    have "view (sess m1 x) = view (sess m x)" for x using still by (simp add: still_def)
    then have "xs_role (sess m1 x) = xs_role (sess m x)" "xs_closed (sess m1 x) = xs_closed (sess m x)"
      "xs_room (sess m1 x) = xs_room (sess m x)" "xs_selectedRenditionID (sess m1 x) = xs_selectedRenditionID (sess m x)" for x
      by (metis view_sel)+
    with w still m' over show ?thesis by (simp add: watching_def still_def)
  next
    case (Some e')
    have ok1: "reg_ok (reg m1)" "calls_ok (reg m1) (pcs @ [WatchInstalled a s])"
      using ok still_reg[OF still] by simp_all
    have "m' = sfu_Leave env (wa_connectionID a) m1" "res = Some e'" using run sync Some by (simp_all add: watch_finish_def)
    with Leave_free[OF ok1 c, of env] over show ?thesis by (simp add: no_session_def)
  qed
qed

lemma watch_install_watching:
  assumes ok: "reg_ok (reg m)" "calls_ok (reg m) (pcs @ [WatchPeer a r peer])" and inst: "watch_install env a r peer m = (m', Some s)"
    and named: "wa_publisherConnectionID a \<noteq> '''' \<Longrightarrow> xr_publisherConnectionID (xm_roomHeap m r) = wa_publisherConnectionID a"
  shows "watching a m'"
proof -
  from reg_watch_install(1)[OF inst] have I: "map_of (xm_rooms m) (xr_publisherConnectionID (xm_roomHeap m r)) = Some r"
      "reg m' = reg_watch a r (reg m)" "s = g_nextSession (reg m)"
    by (simp_all add: reg_watch_def)
  have w: "watch_room (reg m) a r" using last_call_ok[OF ok(2)] by simp
  note sel = reg_watch_sel[where a = a and r = r and g = "reg m", folded I(2)]
  note sig = room_sigD[OF sel(8)]
  have s: "view (sess m' s) = viewer_view a r" using sel(1) I(3) by (metis fun_upd_same reg_sel(2))
  then have v: "xs_room (sess m' s) = r" "xs_role (sess m' s) = SessionViewer" "\<not> xs_closed (sess m' s)"
    "xs_selectedRenditionID (sess m' s) = wa_selectedRenditionID a"
    by (simp_all add: view_def viewer_view_def)
  have "map_of (xr_viewers (xm_roomHeap m' r)) (wa_connectionID a) = Some s" using sel(10)[of r "wa_connectionID a"] I(3) by simp
  moreover have "map_of (xm_sessions m') (wa_connectionID a) = Some s" using sel(5) I(3) by simp
  moreover have "map_of (xm_rooms m') (xr_publisherConnectionID (xm_roomHeap m r)) = Some r" using sel(4) I(1) by simp
  moreover have "hasRendition (xm_roomHeap m' r) (wa_selectedRenditionID a)" "xr_serverID (xm_roomHeap m' r) = wa_serverID a"
    "xr_id (xm_roomHeap m' r) = wa_channelID a"
    using w sig(1)[of r] sig(3)[of r] sig(4)[of r] by (simp_all add: watch_room_def)
  ultimately show ?thesis using v named unfolding watching_def by auto
qed
lemma watch_found_alone:
  assumes ok: "reg_ok (reg m)" "calls_ok (reg m) (pcs @ [WatchFound a r])" and c: "wa_connectionID a \<noteq> ''''"
    and named: "wa_publisherConnectionID a \<noteq> '''' \<Longrightarrow> xr_publisherConnectionID (xm_roomHeap m r) = wa_publisherConnectionID a"
    and run: "(case watch_reserve r m of
        (m1, False) \<Rightarrow> (m1, Some SfuViewerLimit)
      | (m1, True) \<Rightarrow>
          (case pn_NewPeerConnection (se_pion env) (xm_nextSession m1) of
             Inl e \<Rightarrow> (watch_cancel r m1, Some (SfuWrap ''create viewer peer connection: '' (SfuText e)))
           | Inr peer \<Rightarrow>
               (case watch_install env a r peer m1 of
                  (m2, None) \<Rightarrow> (watch_cancel r m2, Some SfuStreamNotFound)
                | (m2, Some s) \<Rightarrow> watch_finish env a s m2))) = (m', res)"
  shows "over m' pcs \<and> (case res of None \<Rightarrow> watching a m' | Some e \<Rightarrow> map_of (xm_sessions m') (wa_connectionID a) = None)"
proof (cases "watch_reserve r m")
  case (Pair m1 b)
  have found: "no_session (reg m) (wa_connectionID a)" "watch_room (reg m) a r" using last_call_ok[OF ok(2)] by simp_all
  note R = reserve_step_ok[OF ok _ _ Pair, of "length pcs" a, simplified]
  show ?thesis
  proof (cases b)
    case False
    with R Pair run reg_watch_reserve(2)[of r m m1] found show ?thesis by (auto simp: no_session_def)
  next
    case True
    have ok1: "reg_ok (reg m1)" "calls_ok (reg m1) (pcs @ [WatchReserved a r])" using R True by simp_all
    have m1: "xr_publisherConnectionID (xm_roomHeap m1 r) = xr_publisherConnectionID (xm_roomHeap m r)"
      using Pair True by (auto simp: watch_reserve_def reserveViewer_def on_room_def split: if_splits)
    have own: "no_session (reg m1) (wa_connectionID a)" "watch_room (reg m1) a r" using last_call_ok[OF ok1(2)] by simp_all
    have cancel: "calls_ok (reg m1) (pcs @ [WatchCancelling a r])" and peer: "calls_ok (reg m1) (pcs @ [WatchPeer a r p])" for p
      using calls_ok_same[OF ok1(2), of "length pcs"] own by (simp_all add: watch_room_def)
    show ?thesis
    proof (cases "pn_NewPeerConnection (se_pion env) (xm_nextSession m1)")
      case (Inl e)
      with watch_cancelled_alone[OF ok1(1) cancel] run Pair True show ?thesis by auto
    next
      case (Inr p)
      obtain m2 so where inst: "watch_install env a r p m1 = (m2, so)" by fastforce
      note W = watch_install_step_ok[OF ok1(1) peer _ _ inst, of "length pcs", simplified]
      show ?thesis
      proof (cases so)
        case None
        with W watch_cancelled_alone[of m2 pcs a r] run Pair True Inr inst show ?thesis by auto
      next
        case (Some s)
        have "watching a m2" using watch_install_watching[OF ok1(1) peer] inst Some named m1 by simp
        with W watch_installed_alone[of m2 pcs a s env m' res] c run Pair True Inr inst Some show ?thesis by simp
      qed
    qed
  qed
qed

lemma Watch_alone:
  assumes ok: "reg_ok (reg m)" "calls_ok (reg m) pcs" and new: "\<forall>pc \<in> set pcs. spc_conn pc \<noteq> Some (wa_connectionID a)"
    and valid: "\<not> watch_invalid a" and run: "WatchRenditionForPublisher env a m = (m', res)"
  shows "over m' pcs \<and> (case res of None \<Rightarrow> watching a m' | Some e \<Rightarrow> map_of (xm_sessions m') (wa_connectionID a) = None)"
proof -
  let ?m0 = "sfu_Leave env (wa_connectionID a) m"
  have c: "wa_connectionID a \<noteq> ''''" using valid by (simp add: watch_invalid_def)
  have ok0: "reg_ok (reg ?m0)" "calls_ok (reg ?m0) (pcs @ [WatchEntered a])"
    using call_enter_ok[OF ok c, of "WatchEntered a"] new by simp_all
  show ?thesis
  proof (cases "watch_find a ?m0")
    case (Inl e)
    have "no_session (reg ?m0) (wa_connectionID a)" using last_call_ok[OF ok0(2)] by simp
    moreover have "calls_ok (reg ?m0) (pcs @ [Stream_returned])"
      using calls_ok_same[OF ok0(2), of "length pcs" Stream_returned] by simp
    ultimately show ?thesis using run valid Inl ok0(1) by (auto simp: WatchRenditionForPublisher_def no_session_def)
  next
    case (Inr r)
    have "calls_ok (reg ?m0) (pcs @ [WatchFound a r])"
      using calls_ok_same[OF ok0(2), of "length pcs" "WatchFound a r"] watch_find_room[OF ok0(1) Inr] last_call_ok[OF ok0(2)] by simp
    moreover have "xr_publisherConnectionID (xm_roomHeap ?m0 r) = wa_publisherConnectionID a" if "wa_publisherConnectionID a \<noteq> ''''"
    proof -
      have "map_of (xm_rooms ?m0) (wa_publisherConnectionID a) = Some r"
        using Inr that by (auto simp: watch_find_def findRoomLocked_def Let_def split: if_splits option.splits)
      with reg_okD(6)[OF ok0(1), of "wa_publisherConnectionID a" r] show ?thesis by simp
    qed
    ultimately show ?thesis
      using watch_found_alone[OF ok0(1) _ c] run valid Inr by (simp add: WatchRenditionForPublisher_def)
  qed
qed

text \<open>C11: \<^verbatim>\<open>WatchRenditionForPublisher\<close> is all or nothing, and never substitutes another stream. When it
  succeeds the connection is an open, registered viewer of a registered room of the server and channel
  it named, of the very publisher it named if it named one, with the rendition it selected; when it fails
  the connection has no session. Either way every place reserved on the way was given back or taken.\<close>

theorem stream_watch_all_or_nothing:
  assumes "0 \<le> maximum" and "(sfu_step env)\<^sup>*\<^sup>* (new_stream_system maximum v b now blank track) y"
    and "\<forall>pc \<in> set (zy_calls y). spc_conn pc \<noteq> Some (wa_connectionID a)" and "\<not> watch_invalid a"
    and "WatchRenditionForPublisher env a (zy_manager y) = (m', res)"
  shows "(case res of None \<Rightarrow> watching a m' | Some e \<Rightarrow> map_of (xm_sessions m') (wa_connectionID a) = None) \<and>
    (\<forall>r. xr_reservations (xm_roomHeap m' r) = seats r (zy_calls y))"
proof -
  note W = Watch_alone[OF stream_reachable_ok(1,2)[OF assms(1,2)] assms(3-5)]
  have "xr_reservations (xm_roomHeap m' r) = seats r (zy_calls y)" for r
    using calls_okD(2)[OF conjunct2[OF conjunct1[OF W]], of r] by (simp add: places_ok_def seats_def)
  with W show ?thesis by blast
qed
definition publishing :: "start_args \<Rightarrow> ('p, 'f) sfu_manager \<Rightarrow> bool" where
  "publishing a m \<longleftrightarrow>
     (\<exists>s. map_of (xm_sessions m) (sa_connectionID a) = Some s \<and> xs_role (sess m s) = SessionPublisher \<and> \<not> xs_closed (sess m s) \<and>
        map_of (xm_rooms m) (sa_connectionID a) = Some (xs_room (sess m s)) \<and> xr_publisher (sess_room m s) = Some s \<and>
        xr_serverID (sess_room m s) = sa_serverID a \<and> xr_id (sess_room m s) = sa_channelID a)"

definition not_publishing :: "start_args \<Rightarrow> ('p, 'f) sfu_manager \<Rightarrow> bool" where
  "not_publishing a m \<longleftrightarrow>
     map_of (xm_sessions m) (sa_connectionID a) = None \<and> map_of (xm_rooms m) (sa_connectionID a) = None"

text \<open>With all its calls over, a connection without a session has no room.\<close>

lemma over_no_room:
  assumes "over m pcs" and "\<forall>pc \<in> set pcs. spc_conn pc \<noteq> Some c" and "map_of (xm_sessions m) c = None"
  shows "map_of (xm_rooms m) c = None"
proof (cases "map_of (xm_rooms m) c")
  case (Some r)
  with calls_okD(5)[of "reg m" "pcs @ [Stream_returned]" c r] assms show ?thesis
    by (auto simp: tended_def dest: spc_room_conn)
qed simp

lemma start_removed_alone:
  assumes "reg_ok (reg m)" "calls_ok (reg m) (pcs @ [StartRemoving a r])" and new: "\<forall>pc \<in> set pcs. spc_conn pc \<noteq> Some (sa_connectionID a)"
  shows "over (sfu_removeRoom (sa_connectionID a) r m) pcs \<and> not_publishing a (sfu_removeRoom (sa_connectionID a) r m)"
proof -
  let ?m = "sfu_removeRoom (sa_connectionID a) r m"
  have over: "over ?m pcs" using remove_step_ok[OF assms(1,2), of "length pcs" a r] by simp
  have "map_of (xm_sessions ?m) (sa_connectionID a) = None"
    using last_call_ok[OF assms(2)] by (simp add: no_session_def sfu_removeRoom_def)
  with over over_no_room[OF over new] show ?thesis by (simp add: not_publishing_def)
qed

lemma start_installed_alone:
  assumes ok: "reg_ok (reg m)" "calls_ok (reg m) (pcs @ [StartInstalled a s])" and c: "sa_connectionID a \<noteq> ''''"
    and new: "\<forall>pc \<in> set pcs. spc_conn pc \<noteq> Some (sa_connectionID a)"
    and run: "start_finish env a s m = (m', res)" and w: "publishing a m"
  shows "over m' pcs \<and> (case res of None \<Rightarrow> publishing a m' | Some e \<Rightarrow> not_publishing a m')"
proof -
  have over: "over m' pcs" using finish_over[OF ok left_start_finish[of m env a s]] run by simp
  obtain m1 e where offer: "createOffer env s m = (m1, e)" by fastforce
  have still: "still m m1" by (rule still_fst[OF still_createOffer offer])
  show ?thesis
  proof (cases e)
    case None
    then have m': "m' = m1" "res = None" using run offer by (simp_all add: start_finish_def)
    have "view (sess m1 x) = view (sess m x)" for x using still by (simp add: still_def)
    then have "xs_role (sess m1 x) = xs_role (sess m x)" "xs_closed (sess m1 x) = xs_closed (sess m x)"
      "xs_room (sess m1 x) = xs_room (sess m x)" for x
      by (metis view_sel)+
    with w still m' over show ?thesis by (simp add: publishing_def still_def)
  next
    case (Some e')
    have ok1: "reg_ok (reg m1)" "calls_ok (reg m1) (pcs @ [StartInstalled a s])"
      using ok still_reg[OF still] by simp_all
    have "m' = sfu_Leave env (sa_connectionID a) m1" "res = Some e'" using run offer Some by (simp_all add: start_finish_def)
    with Leave_free[OF ok1 c, of env] over over_no_room[OF over new] show ?thesis by (simp add: no_session_def not_publishing_def)
  qed
qed

lemma start_install_publishing:
  assumes ok: "calls_ok (reg m) (pcs @ [StartPublishing a r s])" and inst: "start_install env a r s m = (m', True)"
  shows "publishing a m'"
proof -
  have own: "spc_ok (reg m) (StartPublishing a r s)" using last_call_ok[OF ok] by simp
  from inst have "m' = m\<lparr> xm_sessions := AList.update (sa_connectionID a) s (xm_sessions m) \<rparr>"
      "map_of (xm_rooms m) (sa_connectionID a) = Some r"
    by (auto simp: start_install_def split: if_splits)
  moreover have "xs_room (sess m s) = r" "xs_role (sess m s) = SessionPublisher" "\<not> xs_closed (sess m s)"
    using own by (auto simp: publisher_view_def view_def)
  ultimately show ?thesis using own by (simp add: publishing_def start_room_def)
qed

lemma start_registered_alone:
  assumes ok: "reg_ok (reg m)" "calls_ok (reg m) (pcs @ [StartRegistered a r])" and c: "sa_connectionID a \<noteq> ''''"
    and new: "\<forall>pc \<in> set pcs. spc_conn pc \<noteq> Some (sa_connectionID a)"
    and run: "(case start_peer env (xm_nextSession m) a (xm_videoCodecDescriptors m) of
        Inl e \<Rightarrow> (sfu_removeRoom (sa_connectionID a) r m, Some e)
      | Inr (peer, transceivers) \<Rightarrow>
          (case start_publisher env a r peer transceivers m of
             (m2, Inl e) \<Rightarrow> (sfu_removeRoom (sa_connectionID a) r m2, Some e)
           | (m2, Inr s) \<Rightarrow>
               (case start_install env a r s m2 of
                  (m3, False) \<Rightarrow> (sfu_removeRoom (sa_connectionID a) r m3, Some (SfuText ''stream manager is closed''))
                | (m3, True) \<Rightarrow> start_finish env a s m3))) = (m', res)"
  shows "over m' pcs \<and> (case res of None \<Rightarrow> publishing a m' | Some e \<Rightarrow> not_publishing a m')"
proof -
  obtain m1 pc1 where step: "start_publish_step env (xm_nextSession m) a r m = (m1, pc1)" by fastforce
  have ok1: "reg_ok (reg m1)" "calls_ok (reg m1) (pcs @ [pc1])"
    using publish_step_ok[OF ok _ _ step, of "length pcs"] by simp_all
  show ?thesis
  proof (cases "start_peer env (xm_nextSession m) a (xm_videoCodecDescriptors m)")
    case (Inl e)
    with step have "m1 = m" "pc1 = StartRemoving a r" by (simp_all add: start_publish_step_def)
    with ok1 start_removed_alone[of m pcs a r] new run Inl show ?thesis by auto
  next
    case (Inr x)
    obtain peer ts where x: "x = (peer, ts)" by fastforce
    obtain m2 sr where p: "start_publisher env a r peer ts m = (m2, sr)" by fastforce
    show ?thesis
    proof (cases sr)
      case (Inl e)
      with step Inr x p have "m1 = m2" "pc1 = StartRemoving a r" by (simp_all add: start_publish_step_def)
      with ok1 start_removed_alone[of m2 pcs a r] new run Inr x p Inl show ?thesis by auto
    next
      case sr: (Inr s)
      with step Inr x p have m1: "m1 = m2" "pc1 = StartPublishing a r s" by (simp_all add: start_publish_step_def)
      have ok2: "reg_ok (reg m2)" "calls_ok (reg m2) (pcs @ [StartPublishing a r s])" using ok1 m1 by simp_all
      obtain m3 b where inst: "start_install env a r s m2 = (m3, b)" by fastforce
      have ok3: "reg_ok (reg m3)" "calls_ok (reg m3) (pcs @ [if b then StartInstalled a s else StartRemoving a r])"
        using install_step_ok[OF ok2 _ _ inst, of "length pcs"] by simp_all
      show ?thesis
      proof (cases b)
        case True
        with start_installed_alone[of m3 pcs a s env m' res] start_install_publishing[OF ok2(2)] ok3 c new run Inr x p sr inst
        show ?thesis by simp
      next
        case False
        with ok3 start_removed_alone[of m3 pcs a r] new run Inr x p sr inst show ?thesis by auto
      qed
    qed
  qed
qed

text \<open>C33: \<^verbatim>\<open>StartWithRenditions\<close> is all or nothing. With arguments it rejects nothing changes; otherwise it
  succeeds, and the connection is the open, registered publisher of a registered room of its server and
  channel, or it fails at any point and the connection has neither a session nor a room.\<close>

theorem stream_start_all_or_nothing:
  assumes "0 \<le> maximum" and "(sfu_step env)\<^sup>*\<^sup>* (new_stream_system maximum v b now blank track) y"
    and "\<forall>pc \<in> set (zy_calls y). spc_conn pc \<noteq> Some (sa_connectionID a)"
    and "StartWithRenditions env a (zy_manager y) = (m', res)"
  shows "case res of
      None \<Rightarrow> publishing a m'
    | Some e \<Rightarrow> if start_check env a (zy_manager y) \<noteq> None then m' = zy_manager y else not_publishing a m'"
proof (cases "start_check env a (zy_manager y)")
  case (Some e)
  with assms(4) show ?thesis by (auto simp: StartWithRenditions_def)
next
  case None
  let ?m0 = "sfu_Leave env (sa_connectionID a) (zy_manager y)"
  have c: "sa_connectionID a \<noteq> ''''" using None by (auto simp: start_check_def split: if_splits)
  have ok0: "reg_ok (reg ?m0)" "calls_ok (reg ?m0) (zy_calls y @ [StartEntered a])"
    using call_enter_ok[OF stream_reachable_ok(1,2)[OF assms(1,2)] c, of "StartEntered a"] assms(3) by simp_all
  obtain m1 res1 where reg: "start_register a ?m0 = (m1, res1)" by fastforce
  note S = register_step_ok[OF ok0 _ _ reg, of "length (zy_calls y)", simplified]
  show ?thesis
  proof (cases res1)
    case (Inl e)
    then have m1: "m1 = ?m0" using reg_start_register(2) reg by blast
    have over: "over m1 (zy_calls y)" using S Inl by simp
    have "map_of (xm_sessions m1) (sa_connectionID a) = None" using last_call_ok[OF ok0(2)] by (simp add: no_session_def m1)
    with over_no_room[OF over assms(3)] assms(4) None reg Inl show ?thesis
      by (auto simp: StartWithRenditions_def not_publishing_def)
  next
    case (Inr r)
    have "reg_ok (reg m1)" "calls_ok (reg m1) (zy_calls y @ [StartRegistered a r])" using S Inr by simp_all
    from start_registered_alone[OF this c assms(3), of env m' res] assms(4) None reg Inr show ?thesis
      by (auto simp: StartWithRenditions_def split: option.splits)
  qed
qed

end
