(* ===== verification/StreamSample.thy ===== *)
theory StreamSample
  imports StreamGuarantees
begin

text \<open>
  A concrete Pion and a run of the stream media server on it: one connection publishes, a second
  watches. The theorems of \<open>StreamGuarantees\<close> are applied to it.
\<close>

type_synonym sample_peer = "local_track option list"

definition stream_pion :: "(sample_peer, unit) pion" where
  "stream_pion =
     \<lparr> pn_NewPeerConnection = (\<lambda>_. Inr []), pn_AddTransceiver = (\<lambda>_ p. (p @ [None], None)),
        pn_GetSenders = enumerate 0, pn_RemoveTrack = (\<lambda>s p. (p[s := None], None)),
        pn_AddTrack = (\<lambda>t p. (p @ [Some t], None)), pn_Stable = (\<lambda>_. True),
        pn_CreateOffer = (\<lambda>_ p. (p, Inr '''')), pn_SetLocalDescription = (\<lambda>_ p. (p, None)),
        pn_SetRemoteDescription = (\<lambda>_ p. (p, None)), pn_RemoteDescription = (\<lambda>_. None),
        pn_AddICECandidate = (\<lambda>_ p. (p, None)), pn_ConnectionState = (\<lambda>_. StateConnected), pn_Close = (\<lambda>p. p),
        pn_NewTrack = (\<lambda>remote ident stream. Inr \<lparr> lt_id = ident, lt_streamID = stream, lt_kind = rm_kind remote \<rparr>),
        rl_NewLimiter = (\<lambda>_ _. ()), rl_AllowN = (\<lambda>_ _ l. (True, l)) \<rparr>"

definition sample_stream_peer :: "sample_peer stream_peer" where
  "sample_stream_peer =
     \<lparr> sp_AddTransceiver = (\<lambda>_ p. (p @ [None], Inr (length p))), sp_SetCodecPreferences = (\<lambda>_ _ p. (p, None)),
        sp_GetTransceivers = (\<lambda>p. [0..<length p]), sp_Mid = (\<lambda>t _. replicate (Suc t) (CHR ''m'')), sp_Sender = (\<lambda>t _. t),
        sp_AddTrack = (\<lambda>t p. (p @ [Some t], Inr (length p))) \<rparr>"

definition sample_float :: "int float64" where
  "sample_float = \<lparr> fl_of_int = (\<lambda>n. n), fl_seconds = (\<lambda>d. d div nanos), fl_add = (+), fl_sub = (-), fl_mul = (*),
     fl_div = (div), fl_less = (<) \<rparr>"

definition sample_sfu :: "(sample_peer, int) sfu_env" where
  "sample_sfu = \<lparr> se_pion = stream_pion, se_peer = sample_stream_peer, se_unicode = ascii_unicode, se_float = sample_float,
     se_sink = (\<lambda>_ _. True) \<rparr>"

definition blank_track :: relayTrack where
  "blank_track = newRelayTrack \<lparr> cc_MimeType = '''', cc_ClockRate = 0, cc_Channels = 0, cc_SDPFmtpLine = '''', cc_RTCPFeedback = [] \<rparr>
     '''' '''' empty_rendition"

definition blank_session :: "(sample_peer, int) sfu_session" where
  "blank_session = sfu_newSession sample_sfu (new_stream_manager 2 8000 128 0 undefined blank_track) 0 [] '''' 0 0 0 SessionViewer"

definition sample_start :: "(sample_peer, int) stream_system" where
  "sample_start = new_stream_system 2 8000 128 0 blank_session blank_track"

definition ann_start :: start_args where
  "ann_start = \<lparr> sa_connectionID = ''a'', sa_userID = 1, sa_serverID = 1, sa_channelID = 7, sa_codec = ''vp8'', sa_hasAudio = False,
     sa_renditions = [legacySDRRendition ''vp8''] \<rparr>"

definition bob_watch :: watch_args where
  "bob_watch = \<lparr> wa_connectionID = ''b'', wa_userID = 2, wa_serverID = 1, wa_channelID = 7, wa_publisherConnectionID = ''a'',
     wa_selectedRenditionID = ''sdr'' \<rparr>"

fun sfu_advance :: "('p, 'f) sfu_env \<Rightarrow> nat \<Rightarrow> nat \<Rightarrow> nat \<Rightarrow> ('p, 'f) stream_system \<Rightarrow> ('p, 'f) stream_system" where
  "sfu_advance env n i 0 y = y"
| "sfu_advance env n i (Suc k) y =
     (let (m', pc') = stream_next env n (zy_calls y ! i) (zy_manager y) in
      sfu_advance env n i k (y\<lparr> zy_manager := m', zy_calls := (zy_calls y)[i := pc'] \<rparr>))"

lemma sfu_advance_run: "i < length (zy_calls y) \<Longrightarrow> (sfu_step env)\<^sup>*\<^sup>* y (sfu_advance env n i k y)"
proof (induction k arbitrary: y)
  case (Suc k)
  obtain m' pc' where r: "stream_next env n (zy_calls y ! i) (zy_manager y) = (m', pc')" by fastforce
  let ?y = "y\<lparr> zy_manager := m', zy_calls := (zy_calls y)[i := pc'] \<rparr>"
  have "sfu_step env y ?y" by (rule step_next[OF Suc.prems r])
  moreover have "(sfu_step env)\<^sup>*\<^sup>* ?y (sfu_advance env n i k ?y)" by (rule Suc.IH) (simp add: Suc.prems)
  ultimately show ?case by (simp add: r converse_rtranclp_into_rtranclp)
qed simp

definition ann_entered :: "(sample_peer, int) stream_system" where
  "ann_entered = sample_start\<lparr> zy_manager := sfu_Leave sample_sfu (sa_connectionID ann_start) (zy_manager sample_start),
     zy_calls := zy_calls sample_start @ [StartEntered ann_start] \<rparr>"

definition ann_live :: "(sample_peer, int) stream_system" where
  "ann_live = sfu_advance sample_sfu 1 0 4 ann_entered"

definition bob_entered :: "(sample_peer, int) stream_system" where
  "bob_entered = ann_live\<lparr> zy_manager := sfu_Leave sample_sfu (wa_connectionID bob_watch) (zy_manager ann_live),
     zy_calls := zy_calls ann_live @ [WatchEntered bob_watch] \<rparr>"

definition both_live :: "(sample_peer, int) stream_system" where
  "both_live = sfu_advance sample_sfu 2 1 5 bob_entered"

lemma start_accepted: "start_check sample_sfu ann_start (zy_manager sample_start) = None"
  by code_simp

lemma ann_live_calls: "zy_calls ann_live = [Stream_returned]"
  by code_simp

lemma both_live_calls: "zy_calls both_live = [Stream_returned, Stream_returned]"
  by code_simp
lemma ann_live_reachable: "(sfu_step sample_sfu)\<^sup>*\<^sup>* (new_stream_system 2 8000 128 0 blank_session blank_track) ann_live"
proof -
  have "sfu_step sample_sfu sample_start ann_entered"
    unfolding ann_entered_def by (rule enter_start[OF start_accepted]) (simp add: sample_start_def new_stream_system_def)
  also have "(sfu_step sample_sfu)\<^sup>*\<^sup>* ann_entered ann_live"
    unfolding ann_live_def by (rule sfu_advance_run) (simp add: ann_entered_def)
  finally show ?thesis by (simp add: sample_start_def)
qed

lemma both_live_reachable: "(sfu_step sample_sfu)\<^sup>*\<^sup>* (new_stream_system 2 8000 128 0 blank_session blank_track) both_live"
proof -
  have "sfu_step sample_sfu ann_live bob_entered"
    unfolding bob_entered_def by (rule enter_watch) (simp_all add: watch_invalid_def bob_watch_def ann_live_calls)
  also have "(sfu_step sample_sfu)\<^sup>*\<^sup>* bob_entered both_live"
    unfolding both_live_def by (rule sfu_advance_run) (simp add: bob_entered_def ann_live_calls)
  finally show ?thesis using ann_live_reachable by simp
qed

definition who :: "('p, 'f) sfu_manager \<Rightarrow> (string \<times> sref) list \<times> (string \<times> rref) list \<times> (sessionRole \<times> rref) list" where
  "who m = (xm_sessions m, xm_rooms m, map (\<lambda>(c, s). (xs_role (sess m s), xs_room (sess m s))) (xm_sessions m))"

lemma both_live_who:
  "who (zy_manager both_live) = ([(''a'', 1), (''b'', 2)], [(''a'', 1)], [(SessionPublisher, 1), (SessionViewer, 1)])"
  by code_simp

lemma both_live_maps:
  "map_of (xm_sessions (zy_manager both_live)) ''a'' = Some 1" "map_of (xm_sessions (zy_manager both_live)) ''b'' = Some 2"
  "map_of (xm_rooms (zy_manager both_live)) ''a'' = Some 1" "xs_role (sess (zy_manager both_live) 1) = SessionPublisher"
  "xs_role (sess (zy_manager both_live) 2) = SessionViewer" "xs_room (sess (zy_manager both_live) 1) = 1"
  "xs_room (sess (zy_manager both_live) 2) = 1"
proof -
  have m: "xm_sessions (zy_manager both_live) = [(''a'', 1), (''b'', 2)]" "xm_rooms (zy_manager both_live) = [(''a'', 1)]"
    "map (\<lambda>(c, s). (xs_role (sess (zy_manager both_live) s), xs_room (sess (zy_manager both_live) s))) (xm_sessions (zy_manager both_live)) =
       [(SessionPublisher, 1), (SessionViewer, 1)]"
    using both_live_who unfolding who_def prod.inject by blast+
  show "map_of (xm_sessions (zy_manager both_live)) ''a'' = Some 1" "map_of (xm_sessions (zy_manager both_live)) ''b'' = Some 2"
    "map_of (xm_rooms (zy_manager both_live)) ''a'' = Some 1"
    by (simp_all add: m)
  show "xs_role (sess (zy_manager both_live) 1) = SessionPublisher" "xs_role (sess (zy_manager both_live) 2) = SessionViewer"
    "xs_room (sess (zy_manager both_live) 1) = 1" "xs_room (sess (zy_manager both_live) 2) = 1"
    using m(3) by (simp_all add: m(1))
qed

lemma stream_server_limits_witness:
  "int (length (xr_viewers (xm_roomHeap (zy_manager both_live) 1))) + xr_reservations (xm_roomHeap (zy_manager both_live) 1) \<le> 2 \<and>
   publishers_in 1 7 (zy_manager both_live) \<le> 8"
proof -
  note L = stream_server_limits[OF _ both_live_reachable]
  show ?thesis using conjunct1[OF L, rule_format, of 1] conjunct1[OF conjunct2[OF L], rule_format, of 1 7] by simp
qed

lemma stream_registry_consistent_witness:
  "map_of (xr_viewers (sess_room (zy_manager both_live) 2)) ''b'' = Some 2 \<and> xr_publisher (sess_room (zy_manager both_live) 1) = Some 1"
proof -
  note R = conjunct1[OF stream_registry_consistent[OF _ both_live_reachable, unfolded Let_def], rule_format]
  show ?thesis using R[of "''a''" 1] R[of "''b''" 2] both_live_maps(1,2,4,5) by simp
qed

lemma stream_nothing_left_over_witness:
  "xr_publisher (xm_roomHeap (zy_manager both_live) 1) = Some 1 \<and> xr_reservations (xm_roomHeap (zy_manager both_live) 1) = 0"
proof -
  have "set (zy_calls both_live) \<subseteq> {Stream_returned}" by (simp add: both_live_calls)
  note R = stream_nothing_left_over[OF _ both_live_reachable this, unfolded Let_def]
  show ?thesis using conjunct1[OF R] conjunct2[OF R, rule_format, of "''a''" 1] both_live_maps(1,3) by simp
qed

lemma sfu_leave_exact_witness:
  "map_of (xm_sessions (sfu_Leave sample_sfu ''a'' (zy_manager both_live))) ''b'' = None \<and>
   xs_closed (sess (sfu_Leave sample_sfu ''a'' (zy_manager both_live)) 2) \<and>
   map_of (xm_rooms (sfu_Leave sample_sfu ''a'' (zy_manager both_live))) ''a'' = None"
  using sfu_leave_exact[OF _ both_live_reachable both_live_maps(1)] both_live_maps by (auto simp: Let_def)

lemma stream_close_final_witness:
  "xm_sessions (sfu_Close sample_sfu (zy_manager both_live)) = [] \<and> xm_rooms (sfu_Close sample_sfu (zy_manager both_live)) = []"
  using stream_close_final[OF _ both_live_reachable rtranclp.rtrancl_refl] by simp

lemma stream_watch_all_or_nothing_witness:
  "map_of (xm_sessions (fst (WatchRenditionForPublisher sample_sfu bob_watch (zy_manager ann_live)))) ''b'' \<noteq> None"
proof -
  obtain m' res where r: "WatchRenditionForPublisher sample_sfu bob_watch (zy_manager ann_live) = (m', res)" by fastforce
  have "snd (WatchRenditionForPublisher sample_sfu bob_watch (zy_manager ann_live)) = None" by code_simp
  with r have "res = None" by simp
  with stream_watch_all_or_nothing[OF _ ann_live_reachable _ _ r] have "watching bob_watch m'"
    by (simp add: ann_live_calls watch_invalid_def bob_watch_def)
  then show ?thesis using r by (auto simp: watching_def bob_watch_def)
qed

lemma stream_start_all_or_nothing_witness:
  "map_of (xm_rooms (fst (StartWithRenditions sample_sfu ann_start (zy_manager sample_start)))) ''a'' \<noteq> None"
proof -
  have start: "(sfu_step sample_sfu)\<^sup>*\<^sup>* (new_stream_system 2 8000 128 0 blank_session blank_track) sample_start"
    by (simp add: sample_start_def)
  obtain m' res where r: "StartWithRenditions sample_sfu ann_start (zy_manager sample_start) = (m', res)" by fastforce
  have "snd (StartWithRenditions sample_sfu ann_start (zy_manager sample_start)) = None" by code_simp
  with r have "res = None" by simp
  with stream_start_all_or_nothing[OF _ start _ r] have "publishing ann_start m'"
    by (simp add: sample_start_def new_stream_system_def)
  then show ?thesis using r by (auto simp: publishing_def ann_start_def)
qed

end
