(* ===== verification/Spec2Isabelle.thy ===== *)
theory Spec2Isabelle
  imports WsGuarantees KeyLock Antiabuse VoiceGuarantees StreamSample
begin

text \<open>
  \<^bold>\<open>Voxhold backend: a verification of its real-time core.\<close>

  Voxhold is the server of a self-hosted voice and chat application. Clients keep a web socket to it;
  over it they subscribe to channels, sit in voice channels, share their screens and receive what
  others do. HTTP services change the data and announce the changes through the same sockets. The
  program's own logic is in four layers, and this library models them from the bottom up.

  \<^enum> \<^emph>\<open>Guards and contracts.\<close> \<^verbatim>\<open>internal/antiabuse\<close> limits requests, logins and connections;
    \<^verbatim>\<open>internal/keylock\<close> serialises the operations of one user; \<^verbatim>\<open>internal/streamcontract\<close> says which
    renditions a stream may have.
  \<^enum> \<^emph>\<open>The hub\<close> (\<^verbatim>\<open>internal/realtime\<close>): connections with their bounded queues, the directories of
    voice participants and of streams, rooms, presence, publishing, revocation.
  \<^enum> \<^emph>\<open>The web socket handler\<close> (\<^verbatim>\<open>internal/realtime/http\<close>): authentication, the dispatch of frames,
    permission checks around every call of the hub and of the media servers.
  \<^enum> \<^emph>\<open>The media servers\<close> (\<^verbatim>\<open>internal/voice\<close>, \<^verbatim>\<open>internal/stream\<close>) with their timers
    (\<^verbatim>\<open>internal/mediahandshake\<close>, \<^verbatim>\<open>internal/webrtcrecovery\<close>): WebRTC sessions, rooms, negotiation and
    recovery. They talk to the hub through a signal sink; the hub closes their sessions through
    callbacks.

  \<^bold>\<open>Theories.\<close>

  \<^descr>[\<open>Voxhold_Prelude\<close>] How Go values are represented (maps, pointer sets, loops that may panic) and
    the shared lemmas. \<open>GoStrings\<close> has the functions of the package \<^verbatim>\<open>strings\<close>.
  \<^descr>[\<open>Antiabuse\<close>] guard.go and config.go: \<open>allow\<close>, \<open>AllowLogin\<close>, \<open>RecordLoginFailure\<close>,
    \<open>ProtectHTTP\<close>, \<open>AcquireWebSocketIP\<close>, \<open>ConfigFromEnv\<close>. Login attempts are blocked as long as they
    should be, the slot counters are exact, every route is charged to the right buckets. One locale
    states what a bounded table with eviction promises and is interpreted on the two tables.
  \<^descr>[\<open>KeyLock\<close>] keylock.go as a step relation of goroutines: mutual exclusion per key, no leak, no
    deadlock.
  \<^descr>[\<open>StreamContract\<close>] renditions.go, limits.go and the selection of a rendition for a viewer.
  \<^descr>[\<open>Events\<close>, \<open>ClientQueue\<close>] The event payloads and one connection (client.go, outgoing.go): two
    bounded lanes, replacement and compaction of events, the policy filter, the wake-up of the writer.
  \<^descr>[\<open>VoiceState\<close>, \<open>StreamState\<close>] The directories (voice_state.go, stream_state.go); the voice
    directory refines a map from users to seats.
  \<^descr>[\<open>Hub\<close>, \<open>HubCleanup\<close>, \<open>HubOps\<close>, \<open>MediaOps\<close>, \<open>Publishers\<close>] The hub (hub.go, channel_access.go,
    role_permissions.go, voice_hub.go, stream_hub.go, voice_signals.go, stream_signals.go and the
    publishers). \<open>HubCleanup\<close> has the locale \<open>unregisterer\<close>, the contract of the function that drops a
    slow connection; \<open>HubInv\<close>, \<open>HubGrow\<close>, \<open>HubRemoval\<close>, \<open>HubKeep\<close> and \<open>HubMedia\<close> show operation by
    operation that the hub invariant is kept; \<open>HubRun\<close> composes all calls into runs and
    \<open>HubGuarantees\<close> states what follows.
  \<^descr>[\<open>WsHandler\<close>, \<open>WsSafety\<close>, \<open>WsGuarantees\<close>] handler.go, stream.go, typing.go and e2ee_batch.go of
    the web socket layer on top of the hub: every handler returns and keeps the hub in order;
    admission, subscriptions and voice seats are authorised.
  \<^descr>[\<open>MediaTimers\<close>] deadline.go and controller.go as step relations, with the locale \<open>kept_by\<close> for
    invariants along runs.
  \<^descr>[\<open>MediaPeer\<close>, \<open>VoiceSfu\<close>, \<open>VoiceSfuSync\<close>, \<open>VoiceSfuInv\<close>, \<open>VoiceSfuRun\<close>, \<open>VoiceGuarantees\<close>] The voice
    media server (room.go, session.go, manager.go, bitrate_limiter.go): \<open>VoiceSfu\<close> is the code,
    \<open>VoiceSfuInv\<close> the interleaving of joins with everything else, the others its properties.
  \<^descr>[\<open>StreamKeyframes\<close>, \<open>StreamSdp\<close>, \<open>StreamRelay\<close>] Parts of the stream media server that stand on their
    own: the collapsing of key frame requests as a step relation, the bandwidth cap of an offer against a
    reference definition by media sections, the choice of codecs and the relay track that rewrites packets
    for each viewer.
  \<^descr>[\<open>StreamSfu\<close>, \<open>StreamSfuSync\<close>, \<open>StreamRegistry\<close>, \<open>StreamSfuInv\<close>, \<open>StreamSfuRun\<close>, \<open>StreamGuarantees\<close>,
    \<open>StreamSample\<close>] The stream media server (room.go, session.go, manager.go, signal.go,
    bitrate_limiter.go of \<^verbatim>\<open>internal/stream\<close>): \<open>StreamSfu\<close> is the code; \<open>StreamRegistry\<close> is the abstraction
    of its state to who is registered where, on which the invariant is stated; \<open>StreamSfuInv\<close> interleaves
    the sections of starting and watching a stream with every other call; \<open>StreamGuarantees\<close> has the limits,
    the consistency of the registry and all-or-nothing of both calls, and \<open>StreamSample\<close> a concrete run for
    each.

  \<^bold>\<open>How the code is represented.\<close> A struct is a record, a pointer that is shared an index into a store
  in the state, a Go map an association list whose order stands for the unspecified order of ranging
  over it. A panic is \<open>None\<close>, a Go error an option or a sum. A call that leaves the modelled code and
  returns a value (the clock, permission loaders, services, \<^verbatim>\<open>json.Unmarshal\<close>, SHA-256, the rate
  limiter of \<^verbatim>\<open>golang.org/x/time/rate\<close>, the methods of Pion) is a function of an environment record; where
  the answer may change over time the function takes the number of the call. Theorems hold for all such
  functions. The assumptions about them are documented behaviour and shown to be satisfiable:
  \<open>extension_laws\<close> (setting a header extension) and \<open>unicode_laws\<close> (case folding).

  \<^bold>\<open>Concurrency.\<close> Where the order of critical sections matters (\<open>KeyLock\<close>, the writer of \<open>ClientQueue\<close>,
  \<open>MediaTimers\<close>, \<open>StreamKeyframes\<close>, joins in \<open>VoiceSfuInv\<close>, starts, watches and tracks in \<open>StreamSfuInv\<close>)
  every section under a mutex is a step and steps interleave; what a handler does after it released the
  lock (running an expired deadline, renegotiating with the other sessions of a room) is a step of its own.
  Leaving a media session is one step together with the renegotiation it causes.
  The hub is modelled more coarsely: its operations run one after the other. The code holds the media lock
  of the user around joining voice, starting and watching a stream, but \<^verbatim>\<open>Register\<close>, \<^verbatim>\<open>Unregister\<close>,
  \<^verbatim>\<open>LeaveVoice\<close>, \<^verbatim>\<open>ResetVoiceChannel\<close> and the broadcasts take several locks one after the other, and other
  operations can run in between. The theorems about the hub say nothing about such overlapping calls. Two
  of the windows were found to matter (presence counted after an \<^verbatim>\<open>Unregister\<close>, a stream started while its
  owner leaves voice), so no theorem claims that presence is exact or that every stream member sits in
  voice.

  \<^bold>\<open>Termination.\<close> Dropping a slow connection broadcasts, which may drop further connections:
  \<open>Unregister_fuel\<close> takes a recursion depth. \<open>hub_size\<close>, the number of registered connections, rooms,
  seats and stream memberships, decreases along every nested call, so \<open>hub_size h + 1\<close> is enough, and more
  depth changes nothing. All other loops are structural or bounded by a measure.

  \<^bold>\<open>Not modelled.\<close> SQL repositories and the HTTP handlers around them, file storage, image decoding, web
  push, link previews and process start: their decisions are taken by SQL statements and external
  systems. The set-up of the Pion API in \<^verbatim>\<open>NewManager\<close>, reading and writing of RTP and RTCP packets,
  telemetry counters and logging. Integers are unbounded except where a width matters (generations, SSRCs,
  durations in \<open>ConfigFromEnv\<close>).
\<close>

end
